(* ===== verification/Prelude.thy ===== *)
theory Prelude
  imports Main "HOL-Library.Word"
begin

text \<open>
  Types, automation and generic lemmas shared by the development.

  Machine integers are words at their C width; \<open>size_t\<close>, \<open>uint64_t\<close> and pointers
  are 64 bits wide (the driver is built for LP64 platforms). The collection
  \<open>word_nat\<close> moves word comparisons to \<open>nat\<close> through \<open>unat\<close>. The status codes
  of the VA-API that the driver returns are the datatype \<open>VAStatus\<close>.
\<close>

unbundle bit_operations_syntax

type_synonym u8 = "8 word"
type_synonym u16 = "16 word"
type_synonym u32 = "32 word"
type_synonym u64 = "64 word"
type_synonym usize = "64 word"

named_theorems word_nat \<open>word comparisons and arithmetic read through unat\<close>

declare word_less_nat_alt [word_nat] word_le_nat_alt [word_nat]
  word_unat_eq_iff [word_nat]

abbreviation UINT32_MAX :: u32 where "UINT32_MAX \<equiv> 0xFFFFFFFF"
abbreviation UINT64_MAX :: u64 where "UINT64_MAX \<equiv> 0xFFFFFFFFFFFFFFFF"
abbreviation SIZE_MAX :: usize where "SIZE_MAX \<equiv> 0xFFFFFFFFFFFFFFFF"

abbreviation VA_INVALID_ID :: u32 where "VA_INVALID_ID \<equiv> 0xFFFFFFFF"

datatype VAStatus =
    VA_STATUS_SUCCESS
  | VA_STATUS_ERROR_OPERATION_FAILED
  | VA_STATUS_ERROR_ALLOCATION_FAILED
  | VA_STATUS_ERROR_INVALID_CONFIG
  | VA_STATUS_ERROR_INVALID_CONTEXT
  | VA_STATUS_ERROR_INVALID_SURFACE
  | VA_STATUS_ERROR_INVALID_BUFFER
  | VA_STATUS_ERROR_INVALID_IMAGE
  | VA_STATUS_ERROR_INVALID_PARAMETER
  | VA_STATUS_ERROR_MAX_NUM_EXCEEDED
  | VA_STATUS_ERROR_UNSUPPORTED_PROFILE
  | VA_STATUS_ERROR_UNSUPPORTED_ENTRYPOINT
  | VA_STATUS_ERROR_UNSUPPORTED_RT_FORMAT
  | VA_STATUS_ERROR_UNSUPPORTED_BUFFERTYPE
  | VA_STATUS_ERROR_UNSUPPORTED_MEMORY_TYPE
  | VA_STATUS_ERROR_INVALID_IMAGE_FORMAT
  | VA_STATUS_ERROR_DECODING_ERROR
  | VA_STATUS_ERROR_UNIMPLEMENTED

section \<open>Words read as naturals\<close>

lemma unat_max_word32 [simp]: "unat (0xFFFFFFFF :: u32) = 4294967295"
  by simp

lemma unat_max_word64 [simp]: "unat (0xFFFFFFFFFFFFFFFF :: u64) = 18446744073709551615"
  by simp

lemma unat_lt_pow: "unat (w :: 'a::len word) < 2 ^ LENGTH('a)"
  by simp

lemma unat_u32_less: "unat (w :: u32) < 4294967296"
  using unat_lt_pow [of w] by simp

lemma unat_u64_less: "unat (w :: u64) < 18446744073709551616"
  using unat_lt_pow [of w] by simp

lemma unat_u16_less: "unat (w :: u16) < 65536"
  using unat_lt_pow [of w] by simp

lemma unat_u8_less: "unat (w :: u8) < 256"
  using unat_lt_pow [of w] by simp

lemma unat_add_no_overflow:
  "unat a + unat b < 2 ^ LENGTH('a) \<Longrightarrow> unat (a + b) = unat a + unat (b :: 'a::len word)"
  by (simp add: unat_word_ariths)

lemma unat_sub_le:
  "b \<le> a \<Longrightarrow> unat (a - b) = unat a - unat (b :: 'a::len word)"
  by (rule unat_sub)

lemma unat_minus_one_word: "unat (- 1 :: 'a::len word) = 2 ^ LENGTH('a) - 1"
  by (simp add: unsigned_minus_1_eq_mask mask_eq_exp_minus_1)

lemma unat_mask_sub:
  "unat (- 1 - a) = 2 ^ LENGTH('a) - 1 - unat (a :: 'a::len word)"
proof -
  have "unat (- 1 - a) = unat (- 1 :: 'a word) - unat a"
    by (rule unat_sub) simp
  then show ?thesis
    by (simp add: unat_minus_one_word)
qed

lemma size_max_minus: "unat (SIZE_MAX - n) = 18446744073709551615 - unat n"
proof -
  have "SIZE_MAX - n = - 1 - n" by simp
  then show ?thesis using unat_mask_sub [of n] by (simp only:) simp
qed

lemma size_no_overflow:
  "\<not> a > SIZE_MAX - n \<Longrightarrow> unat (a + n) = unat a + unat (n :: usize)"
  using unat_u64_less [of n]
  by (intro unat_add_no_overflow) (simp add: word_less_nat_alt size_max_minus)

lemma unat_drop_bit_1: "unat (drop_bit (Suc 0) w) = unat (w :: 'a::len word) div 2"
  by (simp only: unat_drop_bit_eq drop_bit_nat_def) simp

text \<open>Widening casts keep the value.\<close>

abbreviation u32_to_u64 :: "u32 \<Rightarrow> u64" where "u32_to_u64 w \<equiv> ucast w"
abbreviation u64_to_u32 :: "u64 \<Rightarrow> u32" where "u64_to_u32 w \<equiv> ucast w"

lemma unat_u32_to_u64 [simp]: "unat (u32_to_u64 w) = unat w"
  using unat_u32_less [of w] by (simp add: unsigned_ucast_eq take_bit_eq_mod)

lemma unat_u64_to_u32: "unat (u64_to_u32 w) = unat w mod 4294967296"
  by (simp add: unsigned_ucast_eq take_bit_eq_mod)

section \<open>The geometric growth loop\<close>

text \<open>
  \<open>reserveBuffer\<close> and \<open>ensure_capacity\<close> both grow a capacity by half of itself until
  it reaches the requested one, and fall back to the requested capacity when the
  growth is zero or would leave the word range. The loop is the same for the two
  widths (64 and 32 bits), so it is written once, over any word length.
\<close>

function grow_capacity :: "'a::len word \<Rightarrow> 'a word \<Rightarrow> 'a word" where
  "grow_capacity capacity required =
     (if capacity < required then
        (let growth = drop_bit 1 capacity in
         if growth = 0 \<or> capacity > - 1 - growth then required
         else grow_capacity (capacity + growth) required)
      else capacity)"
  by pat_completeness auto

lemma grow_step_unat:
  fixes c :: "'a::len word"
  assumes "\<not> c > - 1 - drop_bit 1 c"
  shows "unat (c + drop_bit 1 c) = unat c + unat (drop_bit 1 c)"
proof (rule unat_add_no_overflow)
  from assms have "unat c \<le> 2 ^ LENGTH('a) - 1 - unat (drop_bit 1 c)"
    by (simp add: word_le_nat_alt unat_mask_sub not_less)
  moreover have "unat (drop_bit 1 c) < 2 ^ LENGTH('a)"
    by (rule unat_lt_pow)
  ultimately show "unat c + unat (drop_bit 1 c) < 2 ^ LENGTH('a)"
    by linarith
qed

termination grow_capacity
proof (relation "measure (\<lambda>(c, r). unat r - unat c)", goal_cases)
  case 1
  show ?case by simp
next
  case (2 c r growth)
  then have "unat (c + growth) = unat c + unat growth"
    using grow_step_unat by blast
  moreover have "unat growth \<noteq> 0"
    using 2 by (simp add: unat_eq_0)
  ultimately show ?case
    using 2 by (simp add: word_less_nat_alt)
qed

declare grow_capacity.simps [simp del]

lemma grow_capacity_ge: "required \<le> grow_capacity capacity required"
proof (induction capacity required rule: grow_capacity.induct)
  case (1 c r)
  then show ?case
    by (subst grow_capacity.simps) (auto simp: Let_def)
qed

lemma grow_capacity_mono: "capacity \<le> grow_capacity capacity required"
proof (induction capacity required rule: grow_capacity.induct)
  case (1 c r)
  show ?case
  proof (cases "c < r \<and> drop_bit 1 c \<noteq> 0 \<and> \<not> c > - 1 - drop_bit 1 c")
    case True
    have "c \<le> c + drop_bit 1 c"
      using True grow_step_unat [of c] by (simp add: word_le_nat_alt)
    then show ?thesis
      using True 1 by (subst grow_capacity.simps) (auto simp: Let_def intro: order_trans)
  next
    case False
    then show ?thesis
      by (subst grow_capacity.simps) (auto simp: Let_def)
  qed
qed

text \<open>The loop overshoots by less than one half.\<close>

lemma grow_capacity_overshoot:
  "capacity < required \<Longrightarrow>
   2 * unat (grow_capacity capacity required) \<le> 3 * unat (required :: 'a::len word)"
proof (induction capacity required rule: grow_capacity.induct)
  case (1 c r)
  let ?g = "drop_bit 1 c"
  show ?case
  proof (cases "?g = 0 \<or> c > - 1 - ?g")
    case True
    with 1(2) show ?thesis
      by (subst grow_capacity.simps) (simp add: Let_def)
  next
    case False
    then have step: "grow_capacity c r = grow_capacity (c + ?g) r"
      using 1(2) by (subst grow_capacity.simps) (simp add: Let_def)
    have u: "unat (c + ?g) = unat c + unat c div 2"
      using False grow_step_unat [of c] by (simp add: unat_drop_bit_1)
    show ?thesis
    proof (cases "c + ?g < r")
      case True
      with 1(1) [OF 1(2) refl False] show ?thesis by (simp only: step)
    next
      case False
      then have "grow_capacity c r = c + ?g"
        unfolding step by (subst grow_capacity.simps) simp
      then have "unat (grow_capacity c r) = unat c + unat c div 2"
        using u by simp
      moreover have "unat c < unat r" using 1(2) by (simp add: word_less_nat_alt)
      ultimately show ?thesis by linarith
    qed
  qed
qed

section \<open>Division\<close>

lemma div_mod_split: "t = r + m * q \<Longrightarrow> r < m \<Longrightarrow> t div m = q \<and> t mod m = (r :: nat)"
  by (cases "m = 0") simp_all

section \<open>Lists\<close>

lemma take_list_update_beyond [simp]: "n \<le> i \<Longrightarrow> take n (xs[i := x]) = take n xs"
  by (rule nth_equalityI) (auto simp: nth_list_update)

text \<open>Writing a block of cells into a memory at an offset (\<open>memcpy\<close>, \<open>memset\<close>).\<close>

definition write_at :: "'c list \<Rightarrow> nat \<Rightarrow> 'c list \<Rightarrow> 'c list" where
  "write_at mem off xs = take off mem @ xs @ drop (off + length xs) mem"

lemma length_write_at [simp]:
  "off + length xs \<le> length mem \<Longrightarrow> length (write_at mem off xs) = length mem"
  by (simp add: write_at_def)

lemma take_write_at_append [simp]:
  "off + length xs \<le> length mem \<Longrightarrow>
   take (off + length xs) (write_at mem off xs) = take off mem @ xs"
  by (simp add: write_at_def)

lemma take_write_at_before [simp]:
  "n \<le> off \<Longrightarrow> off \<le> length mem \<Longrightarrow> take n (write_at mem off xs) = take n mem"
  by (simp add: write_at_def)

lemma length_filter_update:
  "i < length xs \<Longrightarrow>
   length (filter P (xs[i := x])) + (if P (xs ! i) then 1 else 0) =
   length (filter P xs) + (if P x then 1 else 0)"
proof (induction xs arbitrary: i)
  case Nil
  then show ?case by simp
next
  case (Cons y ys)
  then show ?case by (cases i) auto
qed

end
