(* ===== verification/ListArray.thy ===== *)
theory ListArray
  imports Prelude
begin

text \<open>
  The growable pointer array of \<open>src/list.c\<close> and \<open>src/list.h\<close>.

  A pointer cell is \<open>'p option\<close>, \<open>None\<close> being \<open>NULL\<close>; \<open>arr_buf\<close> is the allocation
  itself, \<open>None\<close> before the first growth. The outcome of \<open>realloc\<close> and \<open>calloc\<close> is
  a parameter: \<open>realloc_ok n\<close> says whether an allocation of \<open>n\<close> bytes succeeds.
  \<open>arr_wf\<close> is the invariant, \<open>arr_list\<close> the abstract sequence; each operation is
  shown to be the corresponding list operation, on every branch.
\<close>

record 'p Array =
  arr_buf :: "'p option list option"
  arr_size :: u32
  arr_capacity :: u32

definition arr_cells :: "'p Array \<Rightarrow> 'p option list" where
  "arr_cells arr = (case arr_buf arr of None \<Rightarrow> [] | Some cells \<Rightarrow> cells)"

definition ensure_capacity :: "(usize \<Rightarrow> bool) \<Rightarrow> 'p Array \<Rightarrow> u32 \<Rightarrow> bool \<times> 'p Array" where
  "ensure_capacity realloc_ok arr new_capacity =
     (if new_capacity \<le> arr_capacity arr then (True, arr)
      else
        let capacity = (if arr_capacity arr = 0 then 16
                        else grow_capacity (arr_capacity arr) new_capacity);
            bytes = u32_to_u64 capacity * 8
        in if capacity \<noteq> 0 \<and> 8 > SIZE_MAX div u32_to_u64 capacity then (False, arr)
           else if \<not> realloc_ok bytes then (False, arr)
           else (True, arr\<lparr>arr_buf := Some (take (unat (arr_capacity arr)) (arr_cells arr) @
                              replicate (unat (capacity - arr_capacity arr)) None),
                            arr_capacity := capacity\<rparr>))"

definition add_element :: "(usize \<Rightarrow> bool) \<Rightarrow> 'p Array \<Rightarrow> 'p option \<Rightarrow> bool \<times> 'p Array" where
  "add_element realloc_ok arr element =
     (if arr_size arr = UINT32_MAX then (False, arr)
      else case ensure_capacity realloc_ok arr (arr_size arr + 1) of
        (False, arr') \<Rightarrow> (False, arr')
      | (True, arr') \<Rightarrow>
          (True, arr'\<lparr>arr_buf := Some ((arr_cells arr')[unat (arr_size arr') := element]),
                      arr_size := arr_size arr' + 1\<rparr>))"

text \<open>
  \<open>alloc_and_add_element\<close>: \<open>element\<close> is what \<open>calloc\<close> returned. When the array
  cannot grow the fresh element is freed again and \<open>NULL\<close> is returned.
\<close>

definition alloc_and_add_element ::
    "(usize \<Rightarrow> bool) \<Rightarrow> 'p option \<Rightarrow> 'p Array \<Rightarrow> 'p option \<times> 'p Array" where
  "alloc_and_add_element realloc_ok element arr =
     (case element of
        None \<Rightarrow> (None, arr)
      | Some p \<Rightarrow> (case add_element realloc_ok arr (Some p) of
                    (True, arr') \<Rightarrow> (Some p, arr')
                  | (False, arr') \<Rightarrow> (None, arr')))"

text \<open>The copy loop of \<open>remove_element_at\<close>: \<open>buf[i] = buf[i+1]\<close> for \<open>i < n\<close>.\<close>

function shift_down :: "'c list \<Rightarrow> nat \<Rightarrow> nat \<Rightarrow> 'c list" where
  "shift_down buf i n =
     (if i < n then shift_down (buf[i := buf ! (i + 1)]) (i + 1) n else buf)"
  by pat_completeness auto
termination by (relation "measure (\<lambda>(buf, i, n). n - i)") auto

declare shift_down.simps [simp del]

definition remove_element_at :: "'p Array \<Rightarrow> u32 \<Rightarrow> 'p Array" where
  "remove_element_at arr index =
     (if index \<ge> arr_size arr then arr
      else
        let size = arr_size arr - 1;
            shifted = (if index < size
                       then shift_down (arr_cells arr) (unat index) (unat size)
                       else arr_cells arr)
        in arr\<lparr>arr_size := size, arr_buf := Some (shifted[unat size := None])\<rparr>)"

definition get_size :: "'p Array \<Rightarrow> u32" where
  "get_size arr = arr_size arr"

definition get_element_at :: "'p Array \<Rightarrow> u32 \<Rightarrow> 'p option" where
  "get_element_at arr index =
     (case arr_buf arr of
        None \<Rightarrow> None
      | Some cells \<Rightarrow> if index \<ge> arr_size arr then None else cells ! unat index)"

text \<open>Returns the pointer that \<open>free\<close> is called on.\<close>

definition remove_and_free_element_at :: "'p Array \<Rightarrow> u32 \<Rightarrow> 'p option \<times> 'p Array" where
  "remove_and_free_element_at arr index =
     (get_element_at arr index, remove_element_at arr index)"

section \<open>Invariant and abstraction\<close>

definition arr_wf :: "'p Array \<Rightarrow> bool" where
  "arr_wf arr \<longleftrightarrow>
     length (arr_cells arr) = unat (arr_capacity arr) \<and>
     arr_size arr \<le> arr_capacity arr \<and>
     drop (unat (arr_size arr)) (arr_cells arr) =
       replicate (unat (arr_capacity arr) - unat (arr_size arr)) None"

definition arr_list :: "'p Array \<Rightarrow> 'p option list" where
  "arr_list arr = take (unat (arr_size arr)) (arr_cells arr)"

definition arr_empty :: "'p Array" where
  "arr_empty = \<lparr>arr_buf = None, arr_size = 0, arr_capacity = 0\<rparr>"

lemma arr_wf_empty [simp]: "arr_wf arr_empty" "arr_list arr_empty = []"
  by (simp_all add: arr_wf_def arr_list_def arr_empty_def arr_cells_def)

lemma arr_cells_simps [simp]:
  "arr_cells (arr\<lparr>arr_buf := Some cells\<rparr>) = cells"
  "arr_cells (arr\<lparr>arr_size := n\<rparr>) = arr_cells arr"
  "arr_cells (arr\<lparr>arr_capacity := n\<rparr>) = arr_cells arr"
  by (simp_all add: arr_cells_def)

lemma arr_wf_cells: "arr_wf arr \<Longrightarrow>
    arr_cells arr = arr_list arr @
      replicate (unat (arr_capacity arr) - unat (arr_size arr)) None"
  by (metis append_take_drop_id arr_list_def arr_wf_def)

lemma arr_list_length: "arr_wf arr \<Longrightarrow> length (arr_list arr) = unat (arr_size arr)"
  by (simp add: arr_wf_def arr_list_def word_le_nat_alt)

lemma ensure_capacity_fail:
  "ensure_capacity realloc_ok arr n = (False, arr') \<Longrightarrow> arr' = arr"
  by (auto simp: ensure_capacity_def Let_def split: if_splits)

text \<open>
  The growth reaches the request. With an empty array the code allocates 16 cells
  whatever is requested, so the request must be at most 16 there.
\<close>

lemma ensure_capacity_ok:
  assumes wf: "arr_wf arr"
    and small: "arr_capacity arr = 0 \<longrightarrow> n \<le> 16"
    and ret: "ensure_capacity realloc_ok arr n = (True, arr')"
  shows "arr_wf arr'" "arr_list arr' = arr_list arr" "arr_size arr' = arr_size arr"
    "n \<le> arr_capacity arr'" "arr_capacity arr \<le> arr_capacity arr'"
proof -
  let ?cap = "if arr_capacity arr = 0 then 16 else grow_capacity (arr_capacity arr) n"
  let ?cells = "take (unat (arr_capacity arr)) (arr_cells arr) @
                replicate (unat (?cap - arr_capacity arr)) None"
  consider (same) "n \<le> arr_capacity arr" "arr' = arr"
    | (grown) "\<not> n \<le> arr_capacity arr"
        "arr' = arr\<lparr>arr_buf := Some ?cells, arr_capacity := ?cap\<rparr>"
    using ret by (auto simp: ensure_capacity_def Let_def split: if_splits)
  then have "arr_wf arr' \<and> arr_list arr' = arr_list arr \<and> arr_size arr' = arr_size arr \<and>
    n \<le> arr_capacity arr' \<and> arr_capacity arr \<le> arr_capacity arr'"
  proof cases
    case same
    with wf show ?thesis by simp
  next
    case grown
    have le: "arr_capacity arr \<le> ?cap" "n \<le> ?cap"
      using small by (auto simp: grow_capacity_mono grow_capacity_ge)
    have len: "unat (?cap - arr_capacity arr) = unat ?cap - unat (arr_capacity arr)"
      using le(1) by (rule unat_sub_le)
    have "unat (arr_size arr) \<le> unat (arr_capacity arr)"
         "unat (arr_capacity arr) \<le> unat ?cap"
      using wf le(1) by (auto simp: arr_wf_def word_le_nat_alt)
    then show ?thesis
      using wf le unfolding grown(2)
      by (auto simp: arr_wf_def arr_list_def len word_le_nat_alt
               simp del: replicate_add simp flip: replicate_add)
  qed
  then show "arr_wf arr'" "arr_list arr' = arr_list arr" "arr_size arr' = arr_size arr"
    "n \<le> arr_capacity arr'" "arr_capacity arr \<le> arr_capacity arr'"
    by simp_all
qed

lemma arr_size_plus_1:
  "arr_size arr \<noteq> UINT32_MAX \<Longrightarrow> unat (arr_size arr + 1) = Suc (unat (arr_size arr))"
  using unat_u32_less [of "arr_size arr"]
  by (simp add: unat_word_ariths word_unat_eq_iff)

lemma add_element_ok:
  assumes wf: "arr_wf arr" and ret: "add_element realloc_ok arr e = (True, arr')"
  shows "arr_wf arr'" "arr_list arr' = arr_list arr @ [e]"
proof -
  from ret obtain arr1 where max: "arr_size arr \<noteq> UINT32_MAX"
    and ec: "ensure_capacity realloc_ok arr (arr_size arr + 1) = (True, arr1)"
    and arr': "arr' = arr1\<lparr>arr_buf := Some ((arr_cells arr1)[unat (arr_size arr1) := e]),
                           arr_size := arr_size arr1 + 1\<rparr>"
    by (auto simp: add_element_def split: if_splits prod.splits bool.splits)
  have "arr_capacity arr = 0 \<longrightarrow> arr_size arr + 1 \<le> 16"
    using wf by (auto simp: arr_wf_def)
  note ok = ensure_capacity_ok [OF wf this ec]
  have suc: "unat (arr_size arr1 + 1) = Suc (unat (arr_size arr1))"
    using max ok(3) by (simp add: arr_size_plus_1)
  have room: "unat (arr_size arr1) < unat (arr_capacity arr1)"
    using ok(3,4) suc by (simp add: word_le_nat_alt)
  have len: "length (arr_cells arr1) = unat (arr_capacity arr1)"
    using ok(1) by (simp add: arr_wf_def)
  show "arr_list arr' = arr_list arr @ [e]"
    using ok(2) suc room len unfolding arr'
    by (simp add: arr_list_def take_Suc_conv_app_nth)
  have "drop (Suc (unat (arr_size arr1))) (arr_cells arr1) =
        replicate (unat (arr_capacity arr1) - Suc (unat (arr_size arr1))) None"
    using ok(1) room len by (simp add: arr_wf_def flip: tl_drop drop_Suc)
       (metis drop_Suc drop_replicate tl_drop Suc_eq_plus1 diff_diff_left drop_Suc_Cons drop0
        replicate_Suc tl_replicate)
  then show "arr_wf arr'"
    using suc room len unfolding arr' by (simp add: arr_wf_def word_le_nat_alt)
qed

lemma add_element_fail:
  "add_element realloc_ok arr e = (False, arr') \<Longrightarrow> arr' = arr"
  by (auto simp: add_element_def dest: ensure_capacity_fail
           split: if_splits prod.splits bool.splits)

text \<open>Below the 32-bit limit, \<open>add_element\<close> fails only when \<open>realloc\<close> does.\<close>

lemma add_element_total:
  assumes "\<forall>n. realloc_ok n" and "arr_size arr \<noteq> UINT32_MAX"
  shows "fst (add_element realloc_ok arr e)"
proof -
  have "\<not> (SIZE_MAX div u32_to_u64 c < 8)" if "c \<noteq> 0" for c :: u32
  proof -
    have "unat c \<le> 4294967295" "0 < unat c"
      using unat_u32_less [of c] that by (simp_all add: unat_gt_0)
    then have "8 \<le> 18446744073709551615 div unat c"
      by (simp add: less_eq_div_iff_mult_less_eq)
    then show ?thesis by (simp add: word_less_nat_alt unat_div)
  qed
  then show ?thesis
    using assms by (auto simp: add_element_def ensure_capacity_def Let_def)
qed

lemma shift_down_eq:
  "i \<le> n \<Longrightarrow> n < length buf \<Longrightarrow>
   shift_down buf i n = take i buf @ take (n - i) (drop (Suc i) buf) @ drop n buf"
proof (induction buf i n rule: shift_down.induct)
  case (1 buf i n)
  show ?case
  proof (cases "i < n")
    case True
    with 1 have "shift_down buf i n =
      take (Suc i) (buf[i := buf ! Suc i]) @ take (n - Suc i) (drop (Suc (Suc i)) buf) @ drop n buf"
      by (subst shift_down.simps) simp
    also have "take (Suc i) (buf[i := buf ! Suc i]) = take i buf @ [buf ! Suc i]"
      using True 1(3) by (simp add: take_Suc_conv_app_nth)
    also have "drop (Suc i) buf = buf ! Suc i # drop (Suc (Suc i)) buf"
      using True 1(3) by (simp add: Cons_nth_drop_Suc)
    ultimately show ?thesis
      using True by (simp add: Suc_diff_Suc flip: take_Suc_Cons)
  next
    case False
    with 1 show ?thesis by (subst shift_down.simps) simp
  qed
qed

lemma remove_element_at_out_of_range:
  "arr_size arr \<le> index \<Longrightarrow> remove_element_at arr index = arr"
  by (simp add: remove_element_at_def)

lemma remove_element_at_cells:
  assumes wf: "arr_wf arr" and i: "index < arr_size arr"
  defines "n \<equiv> unat (arr_size arr)" and "k \<equiv> unat index"
  shows "arr_cells (remove_element_at arr index) =
           take k (arr_list arr) @ drop (Suc k) (arr_list arr) @
           replicate (unat (arr_capacity arr) - (n - 1)) None"
    and "unat (arr_size (remove_element_at arr index)) = n - 1"
proof -
  let ?b = "arr_cells arr"
  have kn: "k < n" using i by (simp add: k_def n_def word_less_nat_alt)
  have nlen: "n \<le> length ?b" "length ?b = unat (arr_capacity arr)"
    using wf by (simp_all add: arr_wf_def n_def word_le_nat_alt)
  have pred: "unat (arr_size arr - 1) = n - 1"
    using kn i by (metis n_def unat_minus_one word_not_simps(1))
  have lt: "index < arr_size arr - 1 \<longleftrightarrow> k < n - 1"
    using pred by (simp add: word_less_nat_alt k_def)
  let ?s = "if k < n - 1 then shift_down ?b k (n - 1) else ?b"
  have cells: "arr_cells (remove_element_at arr index) = ?s[n - 1 := None]"
    using i lt pred by (simp add: remove_element_at_def Let_def k_def not_le [symmetric])
  have tail: "drop n ?b = replicate (unat (arr_capacity arr) - n) None"
    using wf by (simp add: arr_wf_def n_def)
  have s: "?s = take k ?b @ take (n - 1 - k) (drop (Suc k) ?b) @ drop (n - 1) ?b"
  proof (cases "k < n - 1")
    case True
    with nlen kn show ?thesis by (simp add: shift_down_eq)
  next
    case False
    with kn have "k = n - 1" by simp
    then show ?thesis by simp
  qed
  have "drop (n - 1) ?b = ?b ! (n - 1) # drop n ?b"
    using kn nlen by (metis Cons_nth_drop_Suc Suc_diff_1 Suc_le_eq gr0I less_nat_zero_code
        diff_Suc_less less_le_trans)
  then have s': "?s = (take k ?b @ take (n - 1 - k) (drop (Suc k) ?b)) @ ?b ! (n - 1) # drop n ?b"
    unfolding s by simp
  have "length (take k ?b @ take (n - 1 - k) (drop (Suc k) ?b)) = n - 1"
    using kn nlen by simp
  then have "?s[n - 1 := None] =
      (take k ?b @ take (n - 1 - k) (drop (Suc k) ?b)) @ None # drop n ?b"
    unfolding s' by (metis list_update_length)
  then have "?s[n - 1 := None] =
      take k ?b @ take (n - 1 - k) (drop (Suc k) ?b) @ None # drop n ?b"
    by simp
  also have "take k ?b = take k (arr_list arr)"
    using kn by (simp add: arr_list_def n_def)
  also have "take (n - 1 - k) (drop (Suc k) ?b) = drop (Suc k) (arr_list arr)"
    using kn by (simp add: arr_list_def n_def drop_take)
  also have "None # drop n ?b = replicate (unat (arr_capacity arr) - (n - 1)) None"
    using kn nlen unfolding tail
    by (metis Suc_diff_le Suc_diff_1 diff_Suc_Suc gr0I less_nat_zero_code replicate_Suc)
  finally show "arr_cells (remove_element_at arr index) =
      take k (arr_list arr) @ drop (Suc k) (arr_list arr) @
      replicate (unat (arr_capacity arr) - (n - 1)) None"
    unfolding cells .
  show "unat (arr_size (remove_element_at arr index)) = n - 1"
    using i pred by (simp add: remove_element_at_def Let_def not_le [symmetric])
qed

lemma remove_element_at_capacity [simp]:
  "arr_capacity (remove_element_at arr index) = arr_capacity arr"
  by (simp add: remove_element_at_def Let_def)

lemma remove_element_at_ok:
  assumes wf: "arr_wf arr"
  shows "arr_wf (remove_element_at arr index)"
    and "arr_list (remove_element_at arr index) =
           take (unat index) (arr_list arr) @ drop (Suc (unat index)) (arr_list arr)"
proof -
  have "arr_wf (remove_element_at arr index) \<and>
    arr_list (remove_element_at arr index) =
      take (unat index) (arr_list arr) @ drop (Suc (unat index)) (arr_list arr)"
  proof (cases "index < arr_size arr")
    case True
    note rc = remove_element_at_cells [OF wf True]
    have len: "length (arr_list arr) = unat (arr_size arr)"
      using wf by (rule arr_list_length)
    moreover have "unat index < unat (arr_size arr)"
      using True by (simp add: word_less_nat_alt)
    moreover have "unat (arr_size arr) \<le> unat (arr_capacity arr)"
      using wf by (simp add: arr_wf_def word_le_nat_alt)
    ultimately show ?thesis
      by (auto simp: arr_wf_def arr_list_def [of "remove_element_at arr index"] rc word_le_nat_alt)
  next
    case False
    then have "unat (arr_size arr) \<le> unat index"
      by (simp add: word_less_nat_alt)
    with False wf show ?thesis
      by (simp add: remove_element_at_out_of_range arr_list_length)
  qed
  then show "arr_wf (remove_element_at arr index)"
    "arr_list (remove_element_at arr index) =
       take (unat index) (arr_list arr) @ drop (Suc (unat index)) (arr_list arr)"
    by simp_all
qed

lemma get_element_at_eq:
  assumes "arr_wf arr"
  shows "get_element_at arr index =
    (if unat index < length (arr_list arr) then arr_list arr ! unat index else None)"
proof -
  have len: "length (arr_list arr) = unat (arr_size arr)"
    using assms by (rule arr_list_length)
  show ?thesis
    using assms unfolding len
    by (auto simp: get_element_at_def arr_list_def arr_cells_def arr_wf_def word_le_nat_alt
             split: option.splits)
qed

section \<open>The sequence interface\<close>

text \<open>
  What the driver relies on when it keeps its backing images in an \<open>Array\<close>: additions
  go to the end or leave the array alone, removal closes the gap, reads are bounds
  checked. \<open>for_each_find\<close> is the search loop written with \<open>ARRAY_FOR_EACH\<close> and a
  \<open>break\<close> at the first match.
\<close>

function for_each_find ::
    "('s \<Rightarrow> u32 \<Rightarrow> 'p option) \<Rightarrow> ('p option \<Rightarrow> bool) \<Rightarrow> 's \<Rightarrow> nat \<Rightarrow> nat \<Rightarrow> 'p option option" where
  "for_each_find get P s i n =
     (if i < n then
        if P (get s (of_nat i)) then Some (get s (of_nat i))
        else for_each_find get P s (Suc i) n
      else None)"
  by pat_completeness auto
termination by (relation "measure (\<lambda>(get, P, s, i, n). n - i)") auto

declare for_each_find.simps [simp del]

locale pointer_sequence =
  fixes wf :: "'s \<Rightarrow> bool"
    and elems :: "'s \<Rightarrow> 'p option list"
    and len :: "'s \<Rightarrow> u32"
    and get :: "'s \<Rightarrow> u32 \<Rightarrow> 'p option"
    and add :: "'s \<Rightarrow> 'p option \<Rightarrow> bool \<times> 's"
    and remove :: "'s \<Rightarrow> u32 \<Rightarrow> 's"
  assumes len_elems: "wf s \<Longrightarrow> unat (len s) = length (elems s)"
    and get_elems: "wf s \<Longrightarrow> get s i =
          (if unat i < length (elems s) then elems s ! unat i else None)"
    and add_True: "wf s \<Longrightarrow> add s e = (True, t) \<Longrightarrow> wf t \<and> elems t = elems s @ [e]"
    and add_False: "add s e = (False, t) \<Longrightarrow> t = s"
    and remove_elems: "wf s \<Longrightarrow> wf (remove s i) \<and>
          elems (remove s i) = take (unat i) (elems s) @ drop (Suc (unat i)) (elems s)"
begin

lemma add_get_last:
  assumes "wf s" "add s e = (True, t)"
  shows "get t (len s) = e"
  using add_True [OF assms] get_elems [of t "len s"] len_elems [OF assms(1)] by simp

lemma add_keeps:
  assumes "wf s" "add s e = (True, t)" "i < len s"
  shows "get t i = get s i"
  using add_True [OF assms(1,2)] get_elems assms(1,3) len_elems [OF assms(1)]
  by (simp add: nth_append word_less_nat_alt)

lemma add_then_remove:
  assumes "wf s" "add s e = (True, t)"
  shows "elems (remove t (len s)) = elems s"
  using add_True [OF assms] remove_elems [of t "len s"] len_elems [OF assms(1)] by simp

lemma remove_shifts:
  assumes "wf s" "i < len s"
  shows "get (remove s i) j =
    (if j < i then get s j
     else if Suc (unat j) < unat (len s) then elems s ! Suc (unat j) else None)"
proof -
  let ?xs = "take (unat i) (elems s) @ drop (Suc (unat i)) (elems s)"
  have il: "unat i < length (elems s)"
    using assms len_elems by (simp add: word_less_nat_alt)
  have "get (remove s i) j = (if unat j < length ?xs then ?xs ! unat j else None)"
    using remove_elems [OF assms(1), of i] get_elems by simp
  then show ?thesis
    using il len_elems [OF assms(1)] get_elems [OF assms(1), of j]
    by (auto simp: nth_append word_less_nat_alt min_def)
qed

lemma for_each_find_eq:
  assumes "wf s" "n = length (elems s)" "i \<le> n"
  shows "for_each_find get P s i n = find P (drop i (elems s))"
  using assms(3)
proof (induction "n - i" arbitrary: i)
  case 0
  with assms(2) show ?case by (subst for_each_find.simps) simp
next
  case (Suc d)
  then have i: "i < n" by simp
  then have small: "unat (of_nat i :: u32) = i"
    using len_elems [OF assms(1)] assms(2) unat_u32_less [of "len s"]
    by (simp add: unat_of_nat take_bit_nat_eq_self)
  have get: "get s (of_nat i) = elems s ! i"
    using get_elems [OF assms(1)] i assms(2) small by simp
  have "drop i (elems s) = elems s ! i # drop (Suc i) (elems s)"
    using i assms(2) by (simp add: Cons_nth_drop_Suc)
  moreover have "for_each_find get P s (Suc i) n = find P (drop (Suc i) (elems s))"
    using Suc i by simp
  ultimately show ?case
    using i get by (subst for_each_find.simps) simp
qed

end

interpretation arr: pointer_sequence arr_wf arr_list arr_size get_element_at
    "add_element realloc_ok" remove_element_at for realloc_ok
  by unfold_locales
    (auto simp: arr_list_length get_element_at_eq add_element_ok remove_element_at_ok
          dest: add_element_fail)

section \<open>Properties\<close>

text \<open>\<open>add_element\<close> and \<open>remove_element_at\<close> are the list operations: a successful addition
  appends, a failing one changes nothing and happens only at 2^32 - 1 elements or when
  \<open>realloc\<close> fails; a removal deletes the element at the index and closes the gap, and leaves
  the array alone when the index is out of range. Both keep the invariant.\<close>

theorem array_operations:
  assumes "arr_wf arr" and "add_element realloc_ok arr e = (r, arr')"
  shows "(if r then arr_wf arr' \<and> arr_list arr' = arr_list arr @ [e]
          else arr' = arr \<and> (arr_size arr = UINT32_MAX \<or> (\<exists>n. \<not> realloc_ok n))) \<and>
    arr_wf (remove_element_at arr index) \<and>
    arr_list (remove_element_at arr index) =
       take (unat index) (arr_list arr) @ drop (Suc (unat index)) (arr_list arr) \<and>
    (length (arr_list arr) \<le> unat index \<longrightarrow> remove_element_at arr index = arr)"
proof -
  have "r \<Longrightarrow> arr_wf arr' \<and> arr_list arr' = arr_list arr @ [e]"
    using add_element_ok [OF assms(1), of realloc_ok e arr'] assms(2) by simp
  moreover have "\<not> r \<Longrightarrow> arr' = arr \<and> (arr_size arr = UINT32_MAX \<or> (\<exists>n. \<not> realloc_ok n))"
    using add_element_fail [of realloc_ok arr e arr'] add_element_total [of realloc_ok arr e]
      assms(2) by auto
  moreover have "arr_wf (remove_element_at arr index)"
    "arr_list (remove_element_at arr index) =
       take (unat index) (arr_list arr) @ drop (Suc (unat index)) (arr_list arr)"
    by (rule remove_element_at_ok [OF assms(1)])+
  moreover have "length (arr_list arr) \<le> unat index \<Longrightarrow> remove_element_at arr index = arr"
    using arr_list_length [OF assms(1)]
    by (intro remove_element_at_out_of_range) (simp add: word_le_nat_alt)
  ultimately show ?thesis by simp
qed

definition sample_array :: "nat Array" where
  "sample_array = \<lparr>arr_buf = Some [Some 10, Some 20, None], arr_size = 2, arr_capacity = 3\<rparr>"

lemma array_operations_witness:
  "arr_list (snd (add_element (\<lambda>_. False) sample_array (Some 30))) = [Some 10, Some 20, Some 30] \<and>
   arr_list (remove_element_at sample_array 0) = [Some 20]"
proof -
  have wf: "arr_wf sample_array" by code_simp
  have l: "arr_list sample_array = [Some 10, Some 20]" by code_simp
  have run: "add_element (\<lambda>_. False) sample_array (Some 30) =
      (True, \<lparr>arr_buf = Some [Some 10, Some 20, Some 30], arr_size = 3, arr_capacity = 3\<rparr>)"
    by code_simp
  show ?thesis using array_operations [OF wf run, of 0] l unfolding run by simp
qed

end
