(* ===== verification/ObjectTable.thy ===== *)
theory ObjectTable
  imports Prelude
begin

text \<open>
  The generational object table of \<open>src/object-table.c\<close> (header \<open>src/object-table.h\<close>):
  VA object IDs are a 16-bit generation above a 15-bit slot index, free slots form a FIFO
  list threaded through \<open>nextFree\<close>, and a removed slot gets the next generation, so an
  ID that was handed out before is stale.

  The payload behind \<open>obj\<close> is a parameter type \<open>'o\<close>: \<open>calloc\<close> gives the all-zero
  payload \<open>zero\<close>. \<open>realloc_ok\<close> and \<open>calloc_ok\<close> say whether an allocation of that many
  bytes succeeds. \<open>tab_inv t fl\<close> is the invariant, with \<open>fl\<close> the free slots in the
  order in which they will be handed out.
\<close>

abbreviation NVD_OBJECT_SLOT_NONE :: u32 where "NVD_OBJECT_SLOT_NONE \<equiv> UINT32_MAX"
abbreviation NVD_OBJECT_INDEX_MASK :: u32 where "NVD_OBJECT_INDEX_MASK \<equiv> 0x7FFF"
abbreviation NVD_OBJECT_GENERATION_MASK :: u32 where "NVD_OBJECT_GENERATION_MASK \<equiv> 0xFFFF"
abbreviation NVD_OBJECT_MAX_CAPACITY :: u32 where "NVD_OBJECT_MAX_CAPACITY \<equiv> 0x8000"
abbreviation NVD_OBJECT_INITIAL_CAPACITY :: u32 where "NVD_OBJECT_INITIAL_CAPACITY \<equiv> 4096"

record 'o NVDObject =
  obj_id :: u32
  obj_type :: u8
  obj_payload :: "'o option"

record 'o NVDObjectSlot =
  slot_object :: "'o NVDObject option"
  slot_nextFree :: u32
  slot_generation :: u16

record 'o NVDObjectTable =
  tab_slots :: "'o NVDObjectSlot list"
  tab_capacity :: u32
  tab_freeHead :: u32
  tab_freeTail :: u32
  tab_liveCount :: u32

definition makeId :: "u16 \<Rightarrow> u32 \<Rightarrow> u32" where
  "makeId generation index = push_bit 15 (ucast generation) OR index"

text \<open>The out parameters \<open>generation\<close> and \<open>index\<close>, and the result.\<close>

definition decodeId :: "u32 \<Rightarrow> u16 \<times> u32 \<times> bool" where
  "decodeId i =
     (let generation = (ucast (drop_bit 15 i AND NVD_OBJECT_GENERATION_MASK) :: u16);
          index = i AND NVD_OBJECT_INDEX_MASK
      in (generation, index, generation \<noteq> 0))"

definition nvdObjectTableInit :: "'o NVDObjectTable" where
  "nvdObjectTableInit = \<lparr>tab_slots = [], tab_capacity = 0,
     tab_freeHead = NVD_OBJECT_SLOT_NONE, tab_freeTail = NVD_OBJECT_SLOT_NONE,
     tab_liveCount = 0\<rparr>"

definition fresh_slot :: "nat \<Rightarrow> nat \<Rightarrow> 'o NVDObjectSlot" where
  "fresh_slot newCapacity i = \<lparr>slot_object = None,
     slot_nextFree = (if i + 1 < newCapacity then of_nat (i + 1) else NVD_OBJECT_SLOT_NONE),
     slot_generation = 1\<rparr>"

text \<open>The new capacity: at least doubled, at most 32768.\<close>

definition grown_capacity :: "u32 \<Rightarrow> u32" where
  "grown_capacity c =
     (let wanted = (if c = 0 then NVD_OBJECT_INITIAL_CAPACITY else c * 2)
      in if wanted > NVD_OBJECT_MAX_CAPACITY then NVD_OBJECT_MAX_CAPACITY else wanted)"

definition growTable :: "(usize \<Rightarrow> bool) \<Rightarrow> 'o NVDObjectTable \<Rightarrow> bool \<times> 'o NVDObjectTable" where
  "growTable realloc_ok t =
     (if tab_capacity t \<ge> NVD_OBJECT_MAX_CAPACITY then (False, t)
      else
        let newCapacity = grown_capacity (tab_capacity t)
        in if \<not> realloc_ok (u32_to_u64 newCapacity * 16) then (False, t)
           else
             let slots = take (unat (tab_capacity t)) (tab_slots t) @
                         map (fresh_slot (unat newCapacity))
                             [unat (tab_capacity t)..<unat newCapacity];
                 tail = unat (tab_freeTail t);
                 linked = (if tab_freeTail t \<noteq> NVD_OBJECT_SLOT_NONE
                           then slots[tail := (slots ! tail)\<lparr>slot_nextFree := tab_capacity t\<rparr>]
                           else slots);
                 head = (if tab_freeTail t \<noteq> NVD_OBJECT_SLOT_NONE
                         then tab_freeHead t else tab_capacity t)
             in (True, t\<lparr>tab_slots := linked, tab_freeHead := head,
                         tab_freeTail := newCapacity - 1, tab_capacity := newCapacity\<rparr>))"

text \<open>
  Putting slot \<open>index\<close> at the end of the free list; the statements are the same in the
  allocation failure path of \<open>nvdObjectTableAllocate\<close> and in \<open>nvdObjectTableRemove\<close>.
\<close>

definition free_list_append :: "'o NVDObjectTable \<Rightarrow> u32 \<Rightarrow> 'o NVDObjectTable" where
  "free_list_append t index =
     (let i = unat index;
          slots = (tab_slots t)[i := (tab_slots t ! i)\<lparr>slot_nextFree := NVD_OBJECT_SLOT_NONE\<rparr>];
          tail = unat (tab_freeTail t)
      in if tab_freeTail t \<noteq> NVD_OBJECT_SLOT_NONE
         then t\<lparr>tab_slots := slots[tail := (slots ! tail)\<lparr>slot_nextFree := index\<rparr>],
                tab_freeTail := index\<rparr>
         else t\<lparr>tab_slots := slots, tab_freeHead := index, tab_freeTail := index\<rparr>)"

text \<open>Taking the head off the free list, and the rest of \<open>nvdObjectTableAllocate\<close>.\<close>

definition free_list_pop :: "'o NVDObjectTable \<Rightarrow> 'o NVDObjectTable" where
  "free_list_pop t =
     (let head = slot_nextFree (tab_slots t ! unat (tab_freeHead t))
      in t\<lparr>tab_freeHead := head,
           tab_freeTail := (if head = NVD_OBJECT_SLOT_NONE
                            then NVD_OBJECT_SLOT_NONE else tab_freeTail t)\<rparr>)"

definition allocate_head ::
    "(usize \<Rightarrow> bool) \<Rightarrow> 'o \<Rightarrow> 'o NVDObjectTable \<Rightarrow> u8 \<Rightarrow> usize \<Rightarrow>
     'o NVDObject option \<times> 'o NVDObjectTable" where
  "allocate_head calloc_ok zero t ty payloadSize =
     (let index = tab_freeHead t;
          i = unat index;
          t1 = free_list_pop t
      in if \<not> calloc_ok (16 + payloadSize) then (None, free_list_append t1 index)
         else
           let slot = tab_slots t1 ! i;
               object = \<lparr>obj_id = makeId (slot_generation slot) index,
                         obj_type = ty,
                         obj_payload = (if payloadSize \<noteq> 0 then Some zero else None)\<rparr>
           in (Some object,
               t1\<lparr>tab_slots := (tab_slots t1)[i := slot
                      \<lparr>slot_object := Some object, slot_nextFree := NVD_OBJECT_SLOT_NONE\<rparr>],
                  tab_liveCount := tab_liveCount t1 + 1\<rparr>))"

definition nvdObjectTableAllocate ::
    "(usize \<Rightarrow> bool) \<Rightarrow> (usize \<Rightarrow> bool) \<Rightarrow> 'o \<Rightarrow> 'o NVDObjectTable \<Rightarrow> u8 \<Rightarrow> usize \<Rightarrow>
     'o NVDObject option \<times> 'o NVDObjectTable" where
  "nvdObjectTableAllocate realloc_ok calloc_ok zero t ty payloadSize =
     (if ty \<ge> 7 \<or> payloadSize > SIZE_MAX - 16 then (None, t)
      else case (if tab_freeHead t = NVD_OBJECT_SLOT_NONE then growTable realloc_ok t
                 else (True, t)) of
        (False, t') \<Rightarrow> (None, t')
      | (True, t') \<Rightarrow> allocate_head calloc_ok zero t' ty payloadSize)"

definition nvdObjectTableGet :: "'o NVDObjectTable \<Rightarrow> u8 \<Rightarrow> u32 \<Rightarrow> 'o NVDObject option" where
  "nvdObjectTableGet t ty i =
     (case decodeId i of (generation, index, valid) \<Rightarrow>
        if \<not> valid \<or> index \<ge> tab_capacity t then None
        else
          let slot = tab_slots t ! unat index
          in if slot_generation slot = generation then
               (case slot_object slot of
                  None \<Rightarrow> None
                | Some ob \<Rightarrow> if obj_type ob = ty then Some ob else None)
             else None)"

definition next_generation :: "u16 \<Rightarrow> u16" where
  "next_generation g = (if g + 1 = 0 then 1 else g + 1)"

definition nvdObjectTableRemove ::
    "'o NVDObjectTable \<Rightarrow> u32 \<Rightarrow> 'o NVDObject option \<times> 'o NVDObjectTable" where
  "nvdObjectTableRemove t i =
     (case decodeId i of (generation, index, valid) \<Rightarrow>
        if \<not> valid \<or> index \<ge> tab_capacity t then (None, t)
        else
          let k = unat index; slot = tab_slots t ! k
          in if slot_generation slot \<noteq> generation \<or> slot_object slot = None then (None, t)
             else
               let slots = (tab_slots t)[k := slot\<lparr>slot_object := None,
                              slot_generation := next_generation (slot_generation slot)\<rparr>]
               in (slot_object slot,
                   (free_list_append (t\<lparr>tab_slots := slots\<rparr>) index)
                     \<lparr>tab_liveCount := tab_liveCount t - 1\<rparr>))"

definition nvdObjectTableRemoveTyped ::
    "'o NVDObjectTable \<Rightarrow> u8 \<Rightarrow> u32 \<Rightarrow> 'o NVDObject option \<times> 'o NVDObjectTable" where
  "nvdObjectTableRemoveTyped t ty i =
     (case nvdObjectTableGet t ty i of
        None \<Rightarrow> (None, t)
      | Some _ \<Rightarrow> nvdObjectTableRemove t i)"

definition nvdObjectTableAt :: "'o NVDObjectTable \<Rightarrow> u32 \<Rightarrow> 'o NVDObject option" where
  "nvdObjectTableAt t slotIndex =
     (if slotIndex < tab_capacity t then slot_object (tab_slots t ! unat slotIndex) else None)"

text \<open>The objects that are freed, in slot order, and the table afterwards.\<close>

definition nvdObjectTableDestroy ::
    "'o NVDObjectTable option \<Rightarrow> 'o NVDObject list \<times> 'o NVDObjectTable option" where
  "nvdObjectTableDestroy table =
     (case table of
        None \<Rightarrow> ([], None)
      | Some t \<Rightarrow> (List.map_filter (\<lambda>i. slot_object (tab_slots t ! i)) [0..<unat (tab_capacity t)],
                   Some nvdObjectTableInit))"

section \<open>Object IDs\<close>

lemma id_bits:
  fixes w :: u32
  shows "w AND 0x7FFF = take_bit 15 w" "w AND 0xFFFF = take_bit 16 w"
proof -
  have "(0x7FFF :: u32) = mask 15" "(0xFFFF :: u32) = mask 16"
    by (simp_all add: mask_eq_exp_minus_1)
  then show "w AND 0x7FFF = take_bit 15 w" "w AND 0xFFFF = take_bit 16 w"
    by (simp_all only: take_bit_eq_mask)
qed

lemma take_bit_small: "unat (index :: u32) < 2 ^ n \<Longrightarrow> take_bit n index = index"
  by (rule word_unat_eq_iff [THEN iffD2]) (simp add: unsigned_take_bit_eq take_bit_nat_eq_self)

lemma drop_bit_small: "unat (index :: u32) < 2 ^ n \<Longrightarrow> drop_bit n index = 0"
  by (rule word_unat_eq_iff [THEN iffD2]) (simp add: unat_drop_bit_eq drop_bit_nat_def)

lemma ucast_ucast_u16: "ucast (ucast (g :: u16) :: u32) = g"
  by (rule bit_eqI) (auto simp: bit_simps dest: bit_imp_le_length)

lemma drop_push_generation: "drop_bit 15 (push_bit 15 (ucast (g :: u16)) :: u32) = ucast g"
proof -
  have "bit (drop_bit 15 (push_bit 15 (ucast g)) :: u32) n = bit (ucast g :: u32) n" for n
  proof -
    have "bit g n \<Longrightarrow> n < 16" using bit_imp_le_length [of g n] by simp
    then show ?thesis by (auto simp: bit_simps)
  qed
  then show ?thesis by (rule bit_eqI)
qed

lemma take_bit_ucast_u16: "take_bit 16 (ucast (g :: u16) :: u32) = ucast g"
  by (rule take_bit_small) (use unat_u16_less [of g] in
    \<open>simp add: unsigned_ucast_eq take_bit_eq_mod\<close>)

lemma decode_makeId:
  assumes "unat index < 32768"
  shows "decodeId (makeId g index) = (g, index, g \<noteq> 0)"
proof -
  have idx: "take_bit 15 index = index" "drop_bit 15 index = 0"
    using assms by (auto intro: take_bit_small drop_bit_small)
  have "drop_bit 15 (makeId g index) = ucast g"
    by (simp only: makeId_def drop_bit_or idx drop_push_generation) simp
  moreover have "take_bit 15 (makeId g index) = index"
    by (simp add: makeId_def take_bit_or idx take_bit_push_bit)
  ultimately show ?thesis
    by (simp only: decodeId_def Let_def id_bits take_bit_ucast_u16 ucast_ucast_u16)
qed

lemma makeId_inj:
  "unat i < 32768 \<Longrightarrow> unat j < 32768 \<Longrightarrow> makeId g i = makeId h j \<Longrightarrow> g = h \<and> i = j"
  using decode_makeId by (metis prod.inject)

lemma makeId_unat:
  assumes "unat index < 32768"
  shows "unat (makeId g index) = 32768 * unat g + unat index"
proof -
  have "makeId g index = push_bit 15 (ucast g) + index"
    unfolding makeId_def
  proof (rule disjunctive_add [symmetric])
    fix n
    have "drop_bit 15 index = 0" using assms by (auto intro: drop_bit_small)
    then have "\<not> bit index (15 + m)" for m
      by (metis bit_0_eq bit_drop_bit_eq bot_apply bot_bool_def comp_apply)
    then have "15 \<le> n \<Longrightarrow> \<not> bit index n"
      by (metis le_add_diff_inverse)
    then show "\<not> bit (push_bit 15 (ucast g) :: u32) n \<or> \<not> bit index n"
      by (auto simp: bit_simps)
  qed
  moreover have "unat (push_bit 15 (ucast g) :: u32) = 32768 * unat g"
    using unat_u16_less [of g]
    by (simp add: push_bit_eq_mult unat_word_ariths unsigned_ucast_eq take_bit_eq_mod)
  ultimately show ?thesis
    using assms unat_u16_less [of g] by (simp add: unat_word_ariths)
qed

lemma makeId_canonical:
  assumes "unat index < 32768"
  shows "unat (makeId g index) < 2 ^ 31" "makeId g index \<noteq> VA_INVALID_ID"
proof -
  show "unat (makeId g index) < 2 ^ 31"
    using assms unat_u16_less [of g] by (simp add: makeId_unat)
  then show "makeId g index \<noteq> VA_INVALID_ID" by (auto simp: word_unat_eq_iff)
qed

text \<open>The decoder drops the top bit of an ID.\<close>

lemma decodeId_top_bit: "decodeId (i OR 0x80000000) = decodeId i"
proof -
  have t: "(0x80000000 :: u32) = push_bit 31 1"
    by (simp add: push_bit_eq_mult)
  have "take_bit 15 (i OR 0x80000000) = take_bit 15 i"
    unfolding t by (rule bit_eqI) (auto simp: bit_simps)
  moreover have "take_bit 16 (drop_bit 15 (i OR 0x80000000)) = take_bit 16 (drop_bit 15 i)"
    unfolding t by (rule bit_eqI) (auto simp: bit_simps)
  ultimately show ?thesis
    by (simp only: decodeId_def id_bits)
qed

lemma nvdObjectTableGet_top_bit:
  "nvdObjectTableGet t ty (i OR 0x80000000) = nvdObjectTableGet t ty i"
  by (simp only: nvdObjectTableGet_def decodeId_top_bit)

end
