(* ===== verification/ObjectTableInv.thy ===== *)
theory ObjectTableInv
  imports ObjectTable
begin

text \<open>
  Correctness of the object table. \<open>chain slots h fl\<close> says that following \<open>nextFree\<close>
  from \<open>h\<close> visits the slots \<open>fl\<close> and ends; \<open>tab_inv t fl\<close> is the table invariant with
  its free list; \<open>tab_find\<close> is the abstract map from IDs to live objects. The locale
  \<open>object_store\<close> is the contract the driver relies on, interpreted on the table.
\<close>

fun chain :: "'o NVDObjectSlot list \<Rightarrow> u32 \<Rightarrow> nat list \<Rightarrow> bool" where
  "chain s h [] \<longleftrightarrow> h = NVD_OBJECT_SLOT_NONE"
| "chain s h (i # is) \<longleftrightarrow> unat h = i \<and> i < length s \<and> chain s (slot_nextFree (s ! i)) is"

definition slot_view :: "'o NVDObjectSlot \<Rightarrow> 'o NVDObject option \<times> u16" where
  "slot_view s = (slot_object s, slot_generation s)"

definition tail_ok :: "u32 \<Rightarrow> nat list \<Rightarrow> bool" where
  "tail_ok tail fl \<longleftrightarrow>
     (if fl = [] then tail = NVD_OBJECT_SLOT_NONE else unat tail = last fl)"

definition free_ok :: "'o NVDObjectTable \<Rightarrow> nat list \<Rightarrow> bool" where
  "free_ok t fl \<longleftrightarrow>
     chain (tab_slots t) (tab_freeHead t) fl \<and> distinct fl \<and> tail_ok (tab_freeTail t) fl \<and>
     length (tab_slots t) \<le> 32768"

definition slot_ok :: "nat \<Rightarrow> 'o NVDObject option \<times> u16 \<Rightarrow> bool" where
  "slot_ok i v \<longleftrightarrow> snd v \<noteq> 0 \<and>
     (\<forall>ob. fst v = Some ob \<longrightarrow> obj_id ob = makeId (snd v) (of_nat i) \<and> obj_type ob < 7)"

text \<open>\<open>views_ok cap live vs fl\<close>: \<open>fl\<close> are the empty slots, \<open>live\<close> counts the others.\<close>

definition views_ok :: "u32 \<Rightarrow> u32 \<Rightarrow> ('o NVDObject option \<times> u16) list \<Rightarrow> nat list \<Rightarrow> bool" where
  "views_ok cap live vs fl \<longleftrightarrow> length vs = unat cap \<and> length vs \<le> 32768 \<and>
     (\<forall>i < length vs. slot_ok i (vs ! i)) \<and>
     unat live = length (filter (\<lambda>v. fst v \<noteq> None) vs) \<and>
     set fl = {i. i < length vs \<and> fst (vs ! i) = None}"

definition tab_inv :: "'o NVDObjectTable \<Rightarrow> nat list \<Rightarrow> bool" where
  "tab_inv t fl \<longleftrightarrow> free_ok t fl \<and>
     views_ok (tab_capacity t) (tab_liveCount t) (map slot_view (tab_slots t)) fl"

definition tab_find :: "'o NVDObjectTable \<Rightarrow> u32 \<Rightarrow> 'o NVDObject option" where
  "tab_find t i =
     (case decodeId i of (generation, index, valid) \<Rightarrow>
        if valid \<and> index < tab_capacity t \<and>
           slot_generation (tab_slots t ! unat index) = generation
        then slot_object (tab_slots t ! unat index) else None)"

lemma get_find:
  "nvdObjectTableGet t ty i =
     (case tab_find t i of None \<Rightarrow> None | Some ob \<Rightarrow> if obj_type ob = ty then Some ob else None)"
  by (auto simp: nvdObjectTableGet_def tab_find_def Let_def not_le
           split: prod.splits option.splits)

section \<open>The free list\<close>

lemma chain_update_other:
  "i \<notin> set fl \<Longrightarrow> chain (s[i := x]) h fl = chain s h fl"
  by (induction fl arbitrary: h) auto

lemma chain_less: "chain s h fl \<Longrightarrow> i \<in> set fl \<Longrightarrow> i < length s"
  by (induction fl arbitrary: h) auto

lemma chain_last_less: "chain s h fl \<Longrightarrow> fl \<noteq> [] \<Longrightarrow> last fl < length s"
  by (erule chain_less) (rule last_in_set)

text \<open>The chain only depends on the links.\<close>

lemma chain_links:
  assumes m: "map slot_nextFree s = map slot_nextFree s'"
  shows "chain s h fl = chain s' h fl"
proof (induction fl arbitrary: h)
  case (Cons j fl)
  have l: "length s = length s'" using m by (rule map_eq_imp_length_eq)
  have "slot_nextFree (s ! j) = slot_nextFree (s' ! j)" if "j < length s"
    using that l m by (metis nth_map)
  then show ?case by (cases "j < length s") (simp_all only: chain.simps l Cons.IH simp_thms)
qed simp

lemma chain_snoc:
  assumes "chain s h fl" "fl \<noteq> []" "distinct fl" "j \<notin> set fl" "j < length s"
    and "slot_nextFree (s ! j) = NVD_OBJECT_SLOT_NONE" "unat q = j"
  shows "chain (s[last fl := (s ! last fl)\<lparr>slot_nextFree := q\<rparr>]) h (fl @ [j])"
  using assms
proof (induction fl arbitrary: h)
  case Nil
  then show ?case by simp
next
  case (Cons i fl)
  show ?case
  proof (cases "fl = []")
    case True
    with Cons.prems show ?thesis by auto
  next
    case False
    with Cons have "i \<noteq> last fl" by (metis distinct.simps(2) last_in_set)
    with Cons False show ?thesis by auto
  qed
qed

lemma chain_nonempty: "chain s h fl \<Longrightarrow> length s \<le> 32768 \<Longrightarrow> (h = NVD_OBJECT_SLOT_NONE) = (fl = [])"
  by (cases fl) auto

text \<open>Appending a slot keeps every slot's object and generation.\<close>

lemma slot_view_link:
  "map slot_view (s[i := (s ! i)\<lparr>slot_nextFree := q\<rparr>]) = map slot_view s"
proof (cases "i < length s")
  case True
  have "slot_view ((s ! i)\<lparr>slot_nextFree := q\<rparr>) = map slot_view s ! i"
    using True by (simp add: slot_view_def)
  then show ?thesis by (simp only: map_update list_update_id)
qed (simp add: list_update_beyond)

lemma free_list_append_view:
  "map slot_view (tab_slots (free_list_append t index)) = map slot_view (tab_slots t)"
  by (simp add: free_list_append_def Let_def slot_view_link)

lemma free_list_append_fields [simp]:
  "tab_capacity (free_list_append t index) = tab_capacity t"
  "tab_liveCount (free_list_append t index) = tab_liveCount t"
  "length (tab_slots (free_list_append t index)) = length (tab_slots t)"
  by (simp_all add: free_list_append_def Let_def)

lemma free_list_append_ok:
  assumes ok: "free_ok t fl" and i: "unat index = i" "i < length (tab_slots t)" "i \<notin> set fl"
  shows "free_ok (free_list_append t index) (fl @ [i])"
proof -
  let ?s = "(tab_slots t)[i := (tab_slots t ! i)\<lparr>slot_nextFree := NVD_OBJECT_SLOT_NONE\<rparr>]"
  have ch: "chain ?s (tab_freeHead t) fl"
    using ok i(3) by (simp add: free_ok_def chain_update_other)
  show ?thesis
  proof (cases "fl = []")
    case True
    with ok i show ?thesis
      by (auto simp: free_ok_def tail_ok_def free_list_append_def Let_def)
  next
    case False
    have l: "last fl < length (tab_slots t)"
      using ok False chain_last_less by (auto simp: free_ok_def)
    have tl: "unat (tab_freeTail t) = last fl" "tab_freeTail t \<noteq> NVD_OBJECT_SLOT_NONE"
      using ok False l by (auto simp: free_ok_def tail_ok_def)
    have "chain (?s[last fl := (?s ! last fl)\<lparr>slot_nextFree := index\<rparr>]) (tab_freeHead t) (fl @ [i])"
      by (rule chain_snoc) (use ch False ok i in \<open>auto simp: free_ok_def\<close>)
    with ok i tl False show ?thesis
      by (simp add: free_ok_def tail_ok_def free_list_append_def Let_def)
  qed
qed

section \<open>Filling and clearing a slot\<close>

lemma slot_ok_update:
  assumes "\<forall>j < length vs. slot_ok j (vs ! j)" "slot_ok i v"
  shows "\<forall>j < length (vs[i := v]). slot_ok j (vs[i := v] ! j)"
proof (intro allI impI)
  fix j assume "j < length (vs[i := v])"
  with assms show "slot_ok j (vs[i := v] ! j)" by (cases "i = j") simp_all
qed

lemma views_okD:
  assumes "views_ok cap live vs fl"
  shows "length vs = unat cap" "length vs \<le> 32768"
    "\<forall>j < length vs. slot_ok j (vs ! j)"
    "unat live = length (filter (\<lambda>v. fst v \<noteq> None) vs)"
    "set fl = {i. i < length vs \<and> fst (vs ! i) = None}"
  using assms unfolding views_ok_def by blast+

lemma views_okI:
  "length vs = unat cap \<Longrightarrow> length vs \<le> 32768 \<Longrightarrow> \<forall>j < length vs. slot_ok j (vs ! j) \<Longrightarrow>
   unat live = length (filter (\<lambda>v. fst v \<noteq> None) vs) \<Longrightarrow>
   set fl = {i. i < length vs \<and> fst (vs ! i) = None} \<Longrightarrow> views_ok cap live vs fl"
  unfolding views_ok_def by blast

lemma empty_slots_fill:
  "w \<noteq> None \<Longrightarrow> i < length vs \<Longrightarrow>
   {j. j < length (vs[i := (w, g)]) \<and> fst (vs[i := (w, g)] ! j) = None} =
   {j. j < length vs \<and> fst (vs ! j) = None} - {i}"
  by (rule set_eqI, rename_tac x, case_tac "x = i") simp_all

lemma empty_slots_clear:
  "i < length vs \<Longrightarrow>
   {j. j < length (vs[i := (None, g)]) \<and> fst (vs[i := (None, g)] ! j) = None} =
   insert i {j. j < length vs \<and> fst (vs ! j) = None}"
  by (rule set_eqI, rename_tac x, case_tac "x = i") simp_all

lemma views_ok_fill:
  assumes ok: "views_ok cap live vs (i # fl)" and d: "distinct (i # fl)"
    and v: "slot_ok i (w, g)" "w \<noteq> None"
  shows "views_ok cap (live + 1) (vs[i := (w, g)]) fl"
proof (rule views_okI)
  note D = views_okD [OF ok]
  have "i \<in> {i. i < length vs \<and> fst (vs ! i) = None}"
    by (simp only: D(5) [symmetric] list.set_intros)
  then have i: "i < length vs" "fst (vs ! i) = None" by simp_all
  show "length (vs[i := (w, g)]) = unat cap" "length (vs[i := (w, g)]) \<le> 32768"
    using D by simp_all
  show "\<forall>j < length (vs[i := (w, g)]). slot_ok j (vs[i := (w, g)] ! j)"
    using D(3) v(1) by (rule slot_ok_update)
  have "unat live \<le> 32768" unfolding D(4) by (rule order_trans [OF length_filter_le D(2)])
  then have "unat (live + 1) = Suc (unat live)"
    by (subst unat_add_no_overflow) simp_all
  then show "unat (live + 1) = length (filter (\<lambda>v. fst v \<noteq> None) (vs[i := (w, g)]))"
    using length_filter_update [OF i(1), of "\<lambda>v. fst v \<noteq> None" "(w, g)"] i v D(4) by simp
  have "set fl = set (i # fl) - {i}" using d by simp
  then show "set fl = {j. j < length (vs[i := (w, g)]) \<and> fst (vs[i := (w, g)] ! j) = None}"
    by (simp only: D(5) empty_slots_fill [OF v(2) i(1)])
qed

lemma views_ok_clear:
  assumes ok: "views_ok cap live vs fl" and i: "i < length vs" "fst (vs ! i) \<noteq> None"
    and g: "g \<noteq> 0"
  shows "views_ok cap (live - 1) (vs[i := (None, g)]) (fl @ [i])"
proof (rule views_okI)
  note D = views_okD [OF ok]
  have l: "Suc (length (filter (\<lambda>v. fst v \<noteq> None) (vs[i := (None, g)]))) = unat live"
    using length_filter_update [OF i(1), of "\<lambda>v. fst v \<noteq> None" "(None, g)"] i D(4) by simp
  then have "unat (live - 1) = unat live - 1"
    by (subst unat_sub_le) (simp_all add: word_le_nat_alt)
  then show "unat (live - 1) = length (filter (\<lambda>v. fst v \<noteq> None) (vs[i := (None, g)]))"
    using l by simp
  show "length (vs[i := (None, g)]) = unat cap" "length (vs[i := (None, g)]) \<le> 32768"
    using D by simp_all
  show "\<forall>j < length (vs[i := (None, g)]). slot_ok j (vs[i := (None, g)] ! j)"
    using D(3) by (rule slot_ok_update) (simp add: slot_ok_def g)
  show "set (fl @ [i]) = {j. j < length (vs[i := (None, g)]) \<and> fst (vs[i := (None, g)] ! j) = None}"
    unfolding empty_slots_clear [OF i(1)] using D(5) by simp
qed

lemma free_list_append_inv:
  assumes f: "free_ok t fl" and i: "unat index = i" "i \<notin> set fl"
    and v: "views_ok (tab_capacity t) live (map slot_view (tab_slots t)) (fl @ [i])"
  shows "tab_inv ((free_list_append t index)\<lparr>tab_liveCount := live\<rparr>) (fl @ [i])"
proof -
  have "i \<in> {j. j < length (map slot_view (tab_slots t)) \<and>
                fst (map slot_view (tab_slots t) ! j) = None}"
    by (simp only: views_okD(5) [OF v, symmetric]) simp
  then have "i < length (tab_slots t)" by simp
  with f i have "free_ok (free_list_append t index) (fl @ [i])" by (intro free_list_append_ok)
  with v show ?thesis by (simp add: tab_inv_def free_ok_def free_list_append_view)
qed

section \<open>Initialisation and growth\<close>

lemma tab_inv_init: "tab_inv nvdObjectTableInit []"
  by (simp add: tab_inv_def free_ok_def tail_ok_def views_ok_def nvdObjectTableInit_def)

lemma tab_invD:
  assumes "tab_inv t fl"
  shows "free_ok t fl"
    "views_ok (tab_capacity t) (tab_liveCount t) (map slot_view (tab_slots t)) fl"
    "length (tab_slots t) = unat (tab_capacity t)" "unat (tab_capacity t) \<le> 32768"
  using assms views_okD(1,2) [of "tab_capacity t" _ "map slot_view (tab_slots t)"]
  unfolding tab_inv_def by auto

lemma free_head_none: "tab_inv t fl \<Longrightarrow> (tab_freeHead t = NVD_OBJECT_SLOT_NONE) = (fl = [])"
  using tab_invD(1) [of t fl] chain_nonempty by (auto simp: free_ok_def)

lemma grown_capacity_bounds:
  assumes "c < NVD_OBJECT_MAX_CAPACITY"
  shows "unat c < unat (grown_capacity c)" "unat (grown_capacity c) \<le> 32768"
proof -
  have c: "unat c < 32768" using assms by (simp add: word_less_nat_alt)
  then have "unat (c * 2) = 2 * unat c" by (simp add: unat_word_ariths)
  moreover have "c \<noteq> 0 \<Longrightarrow> 0 < unat c" by (metis gr0I unat_eq_0)
  ultimately
  show "unat c < unat (grown_capacity c)" "unat (grown_capacity c) \<le> 32768"
    using c by (auto simp: grown_capacity_def Let_def word_less_nat_alt unat_eq_0 split: if_splits)
qed

lemma chain_fresh:
  assumes n: "n \<le> 32768"
  shows "length xs \<le> k \<Longrightarrow> k < n \<Longrightarrow>
         chain (xs @ map (fresh_slot n) [length xs..<n]) (of_nat k) [k..<n]"
proof (induction "n - k" arbitrary: k)
  case 0
  then show ?case by simp
next
  case (Suc d)
  have u: "unat (of_nat k :: u32) = k"
    using n Suc.prems by (simp add: unat_of_nat take_bit_nat_eq_self)
  have e: "(xs @ map (fresh_slot n) [length xs..<n]) ! k = fresh_slot n k"
    using Suc.prems by (simp add: nth_append)
  have up: "[k..<n] = k # [Suc k..<n]" using Suc.prems by (simp only: upt_conv_Cons)
  have len: "k < length (xs @ map (fresh_slot n) [length xs..<n])" using Suc.prems by simp
  have "chain (xs @ map (fresh_slot n) [length xs..<n])
          (if k + 1 < n then of_nat (k + 1) else NVD_OBJECT_SLOT_NONE) [Suc k..<n]"
  proof (cases "k + 1 < n")
    case True
    have "d = n - Suc k" "length xs \<le> Suc k" using Suc(2,3) by simp_all
    with Suc(1) [of "Suc k"] True show ?thesis by simp
  qed simp
  then show ?case unfolding up chain.simps e using u len by (simp add: fresh_slot_def)
qed

lemma growTable_empty:
  assumes inv: "tab_inv t []"
  shows "growTable realloc_ok t =
     (if tab_capacity t < NVD_OBJECT_MAX_CAPACITY \<and>
         realloc_ok (u32_to_u64 (grown_capacity (tab_capacity t)) * 16)
      then (True, t\<lparr>tab_slots := tab_slots t @ map (fresh_slot (unat (grown_capacity (tab_capacity t))))
                        [unat (tab_capacity t)..<unat (grown_capacity (tab_capacity t))],
                    tab_freeHead := tab_capacity t,
                    tab_freeTail := grown_capacity (tab_capacity t) - 1,
                    tab_capacity := grown_capacity (tab_capacity t)\<rparr>)
      else (False, t))"
proof -
  have "tab_freeTail t = NVD_OBJECT_SLOT_NONE" and "take (unat (tab_capacity t)) (tab_slots t) = tab_slots t"
    using tab_invD(1,3) [OF inv] by (simp_all add: free_ok_def tail_ok_def)
  then show ?thesis
    by (simp add: growTable_def Let_def not_less [symmetric])
qed

lemma growTable_inv:
  assumes inv: "tab_inv t []" and g: "growTable realloc_ok t = (True, t')"
  shows "tab_inv t' [unat (tab_capacity t)..<unat (tab_capacity t')]"
    "tab_capacity t < tab_capacity t'"
    "\<exists>new. tab_slots t' = tab_slots t @ new \<and> (\<forall>s \<in> set new. slot_object s = None)"
proof -
  let ?c = "unat (tab_capacity t)" and ?n = "unat (grown_capacity (tab_capacity t))"
  have lt: "tab_capacity t < NVD_OBJECT_MAX_CAPACITY"
    and t': "t' = t\<lparr>tab_slots := tab_slots t @ map (fresh_slot ?n) [?c..<?n],
        tab_freeHead := tab_capacity t, tab_freeTail := grown_capacity (tab_capacity t) - 1,
        tab_capacity := grown_capacity (tab_capacity t)\<rparr>"
    using g unfolding growTable_empty [OF inv] by (auto split: if_splits)
  note b = grown_capacity_bounds [OF lt]
  note V = views_okD [OF tab_invD(2) [OF inv]]
  have len: "length (tab_slots t) = ?c" by (rule tab_invD(3) [OF inv])
  have chn: "chain (tab_slots t') (tab_freeHead t') [?c..<?n]"
    using chain_fresh [OF b(2), of "tab_slots t" ?c] b len by (simp add: t')
  have tail: "tail_ok (tab_freeTail t') [?c..<?n]"
    using b unat_sub_le [of 1 "grown_capacity (tab_capacity t)"]
    by (simp add: t' tail_ok_def word_le_nat_alt)
  have f: "free_ok t' [?c..<?n]"
    using chn tail b len by (simp add: free_ok_def t')
  have views: "map slot_view (tab_slots t') = map slot_view (tab_slots t) @ replicate (?n - ?c) (None, 1)"
    by (simp add: t' fresh_slot_def slot_view_def comp_def map_replicate_const)
  have nolive: "\<forall>j < ?c. fst (map slot_view (tab_slots t) ! j) \<noteq> None"
    using V(5) len by auto
  have "views_ok (tab_capacity t') (tab_liveCount t') (map slot_view (tab_slots t')) [?c..<?n]"
  proof (rule views_okI)
    let ?vs = "map slot_view (tab_slots t')"
    show "length ?vs = unat (tab_capacity t')" "length ?vs \<le> 32768"
      using b len by (simp_all add: t')
    show "\<forall>j < length ?vs. slot_ok j (?vs ! j)"
      using V(3) len unfolding views by (auto simp: nth_append slot_ok_def)
    show "unat (tab_liveCount t') = length (filter (\<lambda>v. fst v \<noteq> None) ?vs)"
      using V(4) unfolding views by (simp add: t')
    show "set [?c..<?n] = {j. j < length ?vs \<and> fst (?vs ! j) = None}"
      using nolive len b unfolding views by (auto simp: nth_append) (metis not_le option.distinct(1))
  qed
  with f show "tab_inv t' [?c..<unat (tab_capacity t')]" by (simp add: tab_inv_def t')
  show "tab_capacity t < tab_capacity t'" using b by (simp add: t' word_less_nat_alt)
  show "\<exists>new. tab_slots t' = tab_slots t @ new \<and> (\<forall>s \<in> set new. slot_object s = None)"
    by (rule exI [of _ "map (fresh_slot ?n) [?c..<?n]"]) (auto simp: t' fresh_slot_def)
qed

section \<open>Allocation\<close>

lemma free_list_pop_fields [simp]:
  "tab_slots (free_list_pop t) = tab_slots t" "tab_capacity (free_list_pop t) = tab_capacity t"
  "tab_liveCount (free_list_pop t) = tab_liveCount t"
  by (simp_all add: free_list_pop_def Let_def)

lemma free_list_pop_ok:
  assumes ok: "free_ok t (i # fl)"
  shows "free_ok (free_list_pop t) fl"
proof -
  have i: "unat (tab_freeHead t) = i" "chain (tab_slots t) (slot_nextFree (tab_slots t ! i)) fl"
      "length (tab_slots t) \<le> 32768" "distinct fl" "tail_ok (tab_freeTail t) (i # fl)"
    using ok by (simp_all add: free_ok_def)
  have "(slot_nextFree (tab_slots t ! i) = NVD_OBJECT_SLOT_NONE) = (fl = [])"
    by (rule chain_nonempty [OF i(2,3)])
  with i show ?thesis
    by (cases "fl = []") (simp_all add: free_ok_def free_list_pop_def tail_ok_def Let_def)
qed

lemma allocate_head_fail:
  assumes inv: "tab_inv t (i # fl)"
    and fail: "\<not> calloc_ok (16 + payloadSize)"
  shows "\<exists>t'. allocate_head calloc_ok zero t ty payloadSize = (None, t') \<and> tab_inv t' (fl @ [i]) \<and>
           map slot_view (tab_slots t') = map slot_view (tab_slots t) \<and>
           tab_capacity t' = tab_capacity t"
proof -
  let ?t' = "free_list_append (free_list_pop t) (tab_freeHead t)"
  have i: "unat (tab_freeHead t) = i" "i \<notin> set fl"
    using tab_invD(1) [OF inv] by (simp_all add: free_ok_def)
  have "views_ok (tab_capacity t) (tab_liveCount t) (map slot_view (tab_slots t)) (fl @ [i])"
    using tab_invD(2) [OF inv] by (simp add: views_ok_def)
  then have "tab_inv (?t'\<lparr>tab_liveCount := tab_liveCount t\<rparr>) (fl @ [i])"
    using free_list_pop_ok [OF tab_invD(1) [OF inv]] i
    by (intro free_list_append_inv) simp_all
  moreover have "?t'\<lparr>tab_liveCount := tab_liveCount t\<rparr> = ?t'" by simp
  ultimately show ?thesis
    using fail by (simp add: allocate_head_def Let_def free_list_append_view)
qed

lemma allocate_head_ok:
  assumes inv: "tab_inv t (i # fl)" and ok: "calloc_ok (16 + payloadSize)" and ty: "ty < 7"
  shows "\<exists>t' ob. allocate_head calloc_ok zero t ty payloadSize = (Some ob, t') \<and> tab_inv t' fl \<and>
           ob = \<lparr>obj_id = makeId (slot_generation (tab_slots t ! i)) (of_nat i), obj_type = ty,
                 obj_payload = (if payloadSize \<noteq> 0 then Some zero else None)\<rparr> \<and>
           map slot_view (tab_slots t') =
             (map slot_view (tab_slots t))[i := (Some ob, slot_generation (tab_slots t ! i))] \<and>
           tab_capacity t' = tab_capacity t"
proof -
  note V = views_okD [OF tab_invD(2) [OF inv]]
  have i: "unat (tab_freeHead t) = i" "i \<notin> set fl" "i < length (tab_slots t)"
    "distinct (i # fl)" using tab_invD(1) [OF inv] by (simp_all add: free_ok_def)
  let ?g = "slot_generation (tab_slots t ! i)"
  let ?ob = "\<lparr>obj_id = makeId ?g (tab_freeHead t), obj_type = ty,
               obj_payload = (if payloadSize \<noteq> 0 then Some zero else None)\<rparr>"
  let ?slot = "(tab_slots t ! i)\<lparr>slot_object := Some ?ob, slot_nextFree := NVD_OBJECT_SLOT_NONE\<rparr>"
  let ?t' = "(free_list_pop t)\<lparr>tab_slots := (tab_slots t)[i := ?slot],
               tab_liveCount := tab_liveCount t + 1\<rparr>"
  have run: "allocate_head calloc_ok zero t ty payloadSize = (Some ?ob, ?t')"
    using ok i(1) by (simp add: allocate_head_def Let_def)
  have fh: "tab_freeHead t = of_nat i" unfolding i(1) [symmetric] by simp
  have f: "free_ok ?t' fl"
    using free_list_pop_ok [OF tab_invD(1) [OF inv]] i(2)
    by (simp add: free_ok_def chain_update_other)
  have views: "map slot_view (tab_slots ?t') = (map slot_view (tab_slots t))[i := (Some ?ob, ?g)]"
    by (simp add: map_update slot_view_def)
  have "slot_ok i (slot_view (tab_slots t ! i))" using V(3) i(3) by simp
  then have "slot_ok i (Some ?ob, ?g)"
    using ty fh by (simp add: slot_ok_def slot_view_def)
  with views_ok_fill [OF tab_invD(2) [OF inv] i(4)]
  have "views_ok (tab_capacity ?t') (tab_liveCount ?t') (map slot_view (tab_slots ?t')) fl"
    unfolding views by simp
  with f have "tab_inv ?t' fl" by (simp only: tab_inv_def)
  with run views fh show ?thesis by auto
qed

section \<open>What the IDs mean\<close>

text \<open>\<open>same_id i j\<close>: the decoder reads the same generation and index (the top bit is
  ignored).\<close>

definition same_id :: "u32 \<Rightarrow> u32 \<Rightarrow> bool" where
  "same_id i j \<longleftrightarrow> decodeId i = decodeId j"

lemma decodeId_parts:
  "decodeId i = (fst (decodeId i), i AND 0x7FFF, fst (decodeId i) \<noteq> 0)"
  by (simp add: decodeId_def Let_def)

lemma decoded_index_less: "unat (i AND (0x7FFF :: u32)) < 32768"
  using take_bit_nat_less_exp [of 15 "unat i"] by (simp add: id_bits unsigned_take_bit_eq)

lemma tab_find_view:
  assumes len: "length (tab_slots t) = unat (tab_capacity t)"
  shows "tab_find t j =
     (let k = unat (j AND 0x7FFF); g = fst (decodeId j)
      in if g \<noteq> 0 \<and> k < length (map slot_view (tab_slots t)) \<and>
            snd (map slot_view (tab_slots t) ! k) = g
         then fst (map slot_view (tab_slots t) ! k) else None)"
proof -
  have d: "decodeId j = (fst (decodeId j), j AND 0x7FFF, fst (decodeId j) \<noteq> 0)"
    by (rule decodeId_parts)
  show ?thesis
    unfolding tab_find_def
    by (subst d) (simp add: Let_def len word_less_nat_alt slot_view_def cong: conj_cong)
qed

lemma tab_find_views_cong:
  assumes "map slot_view (tab_slots t') = map slot_view (tab_slots t)"
    "length (tab_slots t) = unat (tab_capacity t)" "length (tab_slots t') = unat (tab_capacity t')"
  shows "tab_find t' j = tab_find t j"
  by (simp only: tab_find_view [OF assms(2)] tab_find_view [OF assms(3)] assms(1))

lemma same_id_parts:
  "same_id i j \<longleftrightarrow> fst (decodeId i) = fst (decodeId j) \<and> i AND 0x7FFF = j AND 0x7FFF"
  unfolding same_id_def by (subst (1 2) decodeId_parts) auto

text \<open>Updating one slot changes the lookup of the IDs of that slot only.\<close>

lemma tab_find_update:
  assumes v: "map slot_view (tab_slots t') = (map slot_view (tab_slots t))[k := (w, g)]"
    and l: "length (tab_slots t) = unat (tab_capacity t)" "length (tab_slots t') = unat (tab_capacity t')"
  shows "unat (j AND 0x7FFF) \<noteq> k \<Longrightarrow> tab_find t' j = tab_find t j"
    "unat (j AND 0x7FFF) = k \<Longrightarrow> k < length (tab_slots t) \<Longrightarrow>
     tab_find t' j = (if fst (decodeId j) \<noteq> 0 \<and> g = fst (decodeId j) then w else None)"
proof -
  have ll: "length (map slot_view (tab_slots t')) = length (map slot_view (tab_slots t))"
    unfolding v by simp
  show "unat (j AND 0x7FFF) \<noteq> k \<Longrightarrow> tab_find t' j = tab_find t j"
    unfolding tab_find_view [OF l(1)] tab_find_view [OF l(2)] ll unfolding v
    by (simp add: Let_def cong: conj_cong)
  show "unat (j AND 0x7FFF) = k \<Longrightarrow> k < length (tab_slots t) \<Longrightarrow>
     tab_find t' j = (if fst (decodeId j) \<noteq> 0 \<and> g = fst (decodeId j) then w else None)"
    unfolding tab_find_view [OF l(2)] ll unfolding v by (auto simp: Let_def)
qed

text \<open>An empty slot answers no ID.\<close>

lemma tab_find_empty:
  assumes "length (tab_slots t) = unat (tab_capacity t)" "k < length (tab_slots t)"
    "slot_object (tab_slots t ! k) = None" "unat (j AND 0x7FFF) = k"
  shows "tab_find t j = None"
  using assms by (simp add: tab_find_view Let_def slot_view_def)

lemma tab_find_SomeD:
  assumes inv: "tab_inv t fl" and f: "tab_find t j = Some ob"
  shows "same_id (obj_id ob) j" "obj_type ob < 7" "obj_id ob \<noteq> VA_INVALID_ID"
    "unat (obj_id ob) < 2 ^ 31"
proof -
  let ?k = "unat (j AND 0x7FFF)" and ?g = "fst (decodeId j)"
  have k: "?k < length (tab_slots t)" "slot_view (tab_slots t ! ?k) = (Some ob, ?g)" "?g \<noteq> 0"
    using f tab_find_view [OF tab_invD(3) [OF inv], of j]
    by (auto simp: Let_def slot_view_def split: if_splits)
  then have ok: "slot_ok ?k (Some ob, ?g)"
    using views_okD(3) [OF tab_invD(2) [OF inv]] by (metis length_map nth_map)
  then have i: "obj_id ob = makeId ?g (j AND 0x7FFF)"
    by (simp add: slot_ok_def)
  show "obj_type ob < 7" using ok by (simp add: slot_ok_def)
  have "decodeId (obj_id ob) = decodeId j"
    unfolding i decode_makeId [OF decoded_index_less] by (rule decodeId_parts [symmetric])
  then show "same_id (obj_id ob) j" by (simp add: same_id_def)
  show "obj_id ob \<noteq> VA_INVALID_ID" "unat (obj_id ob) < 2 ^ 31"
    unfolding i by (rule makeId_canonical [OF decoded_index_less])+
qed

section \<open>The operations on a table that satisfies the invariant\<close>

lemma growTable_find:
  assumes inv: "tab_inv t []" and g: "growTable realloc_ok t = (True, t')"
  shows "tab_find t' j = tab_find t j"
proof -
  obtain new where new: "tab_slots t' = tab_slots t @ new" "\<forall>s \<in> set new. slot_object s = None"
    using growTable_inv(3) [OF inv g] by blast
  have l: "length (tab_slots t) = unat (tab_capacity t)" "length (tab_slots t') = unat (tab_capacity t')"
    using tab_invD(3) [OF inv] tab_invD(3) [OF growTable_inv(1) [OF inv g]] by simp_all
  let ?k = "unat (j AND 0x7FFF)"
  show ?thesis
  proof (cases "?k < length (tab_slots t)")
    case True
    then show ?thesis unfolding tab_find_view [OF l(1)] tab_find_view [OF l(2)]
      by (simp add: new(1) nth_append Let_def)
  next
    case out: False
    then have "tab_find t j = None" unfolding tab_find_view [OF l(1)] by (simp add: Let_def)
    moreover have "tab_find t' j = None"
    proof (cases "?k < length (tab_slots t')")
      case True
      with out new have "slot_object (tab_slots t' ! ?k) = None"
        by (simp add: nth_append)
      then show ?thesis by (rule tab_find_empty [OF l(2) True]) simp
    next
      case False
      then show ?thesis unfolding tab_find_view [OF l(2)] by (simp add: Let_def)
    qed
    ultimately show ?thesis by simp
  qed
qed

lemma growTable_fail: "tab_inv t [] \<Longrightarrow> growTable realloc_ok t = (False, t') \<Longrightarrow> t' = t"
  by (simp add: growTable_empty split: if_splits)

lemma allocate_head_find:
  assumes inv: "tab_inv t (i # fl)" and ty: "ty < 7"
    and run: "allocate_head calloc_ok zero t ty payloadSize = (r, t')"
  shows "case r of
      None \<Rightarrow> tab_inv t' (fl @ [i]) \<and> (\<forall>j. tab_find t' j = tab_find t j)
    | Some ob \<Rightarrow> tab_inv t' fl \<and> obj_type ob = ty \<and>
        obj_payload ob = (if payloadSize \<noteq> 0 then Some zero else None) \<and>
        obj_id ob = makeId (slot_generation (tab_slots t ! i)) (of_nat i) \<and>
        tab_find t (obj_id ob) = None \<and>
        (\<forall>j. tab_find t' j = (if same_id j (obj_id ob) then Some ob else tab_find t j))"
proof (cases "calloc_ok (16 + payloadSize)")
  case False
  from allocate_head_fail [OF inv, of calloc_ok payloadSize zero ty] this run
  have t': "r = None" "tab_inv t' (fl @ [i])"
    "map slot_view (tab_slots t') = map slot_view (tab_slots t)" by auto
  have "tab_find t' j = tab_find t j" for j
    by (rule tab_find_views_cong [OF t'(3) tab_invD(3) [OF inv] tab_invD(3) [OF t'(2)]])
  with t' show ?thesis by simp
next
  case True
  let ?g = "slot_generation (tab_slots t ! i)"
  from allocate_head_ok [OF inv, of calloc_ok payloadSize ty zero] True ty run obtain ob where
    t': "r = Some ob" "tab_inv t' fl" and
    ob: "ob = \<lparr>obj_id = makeId ?g (of_nat i), obj_type = ty,
                 obj_payload = (if payloadSize \<noteq> 0 then Some zero else None)\<rparr>" and
    v: "map slot_view (tab_slots t') = (map slot_view (tab_slots t))[i := (Some ob, ?g)]"
    by auto
  have "i \<in> {j. j < length (map slot_view (tab_slots t)) \<and>
                fst (map slot_view (tab_slots t) ! j) = None}"
    by (simp only: views_okD(5) [OF tab_invD(2) [OF inv], symmetric] list.set_intros)
  then have il: "i < length (tab_slots t)" and e: "slot_object (tab_slots t ! i) = None"
    by (auto simp: slot_view_def)
  have ib: "i < 32768" using il tab_invD(3,4) [OF inv] by simp
  then have iu: "unat (of_nat i :: u32) = i" by (simp add: unat_of_nat take_bit_nat_eq_self)
  have g: "?g \<noteq> 0"
    using views_okD(3) [OF tab_invD(2) [OF inv]] il by (simp add: slot_ok_def slot_view_def)
  have d: "decodeId (obj_id ob) = (?g, of_nat i, True)"
    using decode_makeId [of "of_nat i" ?g] ib g iu by (simp add: ob)
  note U = tab_find_update [OF v tab_invD(3) [OF inv] tab_invD(3) [OF t'(2)]]
  have idx: "unat (obj_id ob AND 0x7FFF) = i"
    using d iu by (subst (asm) decodeId_parts) simp
  have "tab_find t' j = (if same_id j (obj_id ob) then Some ob else tab_find t j)" for j
  proof (cases "unat (j AND 0x7FFF) = i")
    case True
    moreover have "tab_find t j = None"
      by (rule tab_find_empty [OF tab_invD(3) [OF inv] il e True])
    moreover have "j AND 0x7FFF = obj_id ob AND 0x7FFF"
      using True idx by (simp only: word_unat_eq_iff)
    ultimately show ?thesis using U(2) [OF True il] g d by (auto simp: same_id_parts)
  next
    case False
    then have "\<not> same_id j (obj_id ob)" using idx by (auto simp: same_id_parts)
    with U(1) [OF False] show ?thesis by simp
  qed
  moreover have "tab_find t (obj_id ob) = None"
    by (rule tab_find_empty [OF tab_invD(3) [OF inv] il e idx])
  ultimately show ?thesis using t' by (simp add: ob)
qed

lemma allocate_cases:
  assumes inv: "tab_inv t fl"
    and run: "nvdObjectTableAllocate realloc_ok calloc_ok zero t ty payloadSize = (r, t')"
  obtains (fail) "r = None" "t' = t"
    | (head) t0 i rest where "ty < 7" "tab_inv t0 (i # rest)"
        "allocate_head calloc_ok zero t0 ty payloadSize = (r, t')"
        "t0 = t \<and> fl = i # rest \<or> fl = [] \<and> growTable realloc_ok t = (True, t0)"
proof (cases "ty \<ge> 7 \<or> payloadSize > SIZE_MAX - 16")
  case True
  with run have "r = None" "t' = t" by (auto simp: nvdObjectTableAllocate_def)
  then show thesis by (rule fail)
next
  case small: False
  then have ty: "ty < 7" by (simp add: not_le)
  show thesis
  proof (cases fl)
    case (Cons i rest)
    then have "tab_freeHead t \<noteq> NVD_OBJECT_SLOT_NONE" using free_head_none [OF inv] by simp
    with run small have "allocate_head calloc_ok zero t ty payloadSize = (r, t')"
      by (simp add: nvdObjectTableAllocate_def)
    with Cons inv ty show thesis by (intro head [of t i rest]) simp_all
  next
    case Nil
    note inv0 = inv [unfolded Nil]
    have h: "tab_freeHead t = NVD_OBJECT_SLOT_NONE" using free_head_none [OF inv0] by simp
    obtain b tg where g: "growTable realloc_ok t = (b, tg)" by (cases "growTable realloc_ok t")
    show thesis
    proof (cases b)
      case False
      then have "r = None" "t' = tg"
        using run small h g by (simp_all add: nvdObjectTableAllocate_def)
      moreover have "tg = t" using g False growTable_fail [OF inv0] by simp
      ultimately show thesis by (intro fail) simp_all
    next
      case True
      have g1: "growTable realloc_ok t = (True, tg)" using g True by simp
      from run small h g1 have a: "allocate_head calloc_ok zero tg ty payloadSize = (r, t')"
        by (simp add: nvdObjectTableAllocate_def)
      have "unat (tab_capacity t) < unat (tab_capacity tg)"
        using growTable_inv(2) [OF inv0 g1] by (simp add: word_less_nat_alt)
      then obtain i rest where "[unat (tab_capacity t)..<unat (tab_capacity tg)] = i # rest"
        by (metis upt_conv_Cons)
      with growTable_inv(1) [OF inv0 g1] have "tab_inv tg (i # rest)" by simp
      from head [OF ty this a] Nil g1 show thesis by simp
    qed
  qed
qed

lemma allocate_run:
  assumes inv: "tab_inv t fl"
    and run: "nvdObjectTableAllocate realloc_ok calloc_ok zero t ty payloadSize = (r, t')"
  shows "case r of
      None \<Rightarrow> (\<exists>fl'. tab_inv t' fl') \<and> (\<forall>j. tab_find t' j = tab_find t j)
    | Some ob \<Rightarrow> (\<exists>fl'. tab_inv t' fl') \<and> obj_type ob = ty \<and>
        obj_payload ob = (if payloadSize \<noteq> 0 then Some zero else None) \<and>
        tab_find t (obj_id ob) = None \<and>
        (\<forall>j. tab_find t' j = (if same_id j (obj_id ob) then Some ob else tab_find t j))"
proof (cases rule: allocate_cases [OF inv run, case_names fail head])
  case fail
  with inv show ?thesis by auto
next
  case (head t0 i rest)
  have "tab_find t0 j = tab_find t j" for j
    using head(4) inv growTable_find by blast
  with allocate_head_find [OF head(2,1,3)] show ?thesis by (auto split: option.splits)
qed

lemma next_generation_nonzero: "next_generation g \<noteq> 0"
  by (simp add: next_generation_def)

lemma remove_run:
  assumes inv: "tab_inv t fl" and f: "tab_find t i = Some ob"
  shows "\<exists>t'. nvdObjectTableRemove t i = (Some ob, t') \<and> tab_inv t' (fl @ [unat (i AND 0x7FFF)]) \<and>
    map slot_view (tab_slots t') = (map slot_view (tab_slots t))
      [unat (i AND 0x7FFF) := (None, next_generation (fst (decodeId i)))]"
proof -
  let ?k = "unat (i AND 0x7FFF)" and ?g = "fst (decodeId i)"
  have k: "?k < length (tab_slots t)" "slot_object (tab_slots t ! ?k) = Some ob"
      "slot_generation (tab_slots t ! ?k) = ?g" "?g \<noteq> 0"
    using f tab_find_view [OF tab_invD(3) [OF inv], of i]
    by (auto simp: Let_def slot_view_def split: if_splits)
  let ?s = "(tab_slots t)[?k := (tab_slots t ! ?k)\<lparr>slot_object := None,
                              slot_generation := next_generation ?g\<rparr>]"
  let ?t1 = "t\<lparr>tab_slots := ?s\<rparr>"
  let ?t' = "(free_list_append ?t1 (i AND 0x7FFF))\<lparr>tab_liveCount := tab_liveCount t - 1\<rparr>"
  have run: "nvdObjectTableRemove t i = (Some ob, ?t')"
    unfolding nvdObjectTableRemove_def
    by (subst decodeId_parts) (use k tab_invD(3) [OF inv] in \<open>simp add: Let_def word_le_nat_alt\<close>)
  have v: "map slot_view ?s = (map slot_view (tab_slots t))[?k := (None, next_generation ?g)]"
    by (simp add: map_update slot_view_def)
  have nf: "?k \<notin> set fl"
    using k unfolding views_okD(5) [OF tab_invD(2) [OF inv]] by (simp add: slot_view_def)
  have links: "map slot_nextFree ?s = map slot_nextFree (tab_slots t)"
    using k(1) by (simp add: map_update list_update_same_conv)
  have f1: "free_ok ?t1 fl"
    using tab_invD(1) [OF inv] chain_links [OF links] by (simp add: free_ok_def)
  have "views_ok (tab_capacity t) (tab_liveCount t - 1) (map slot_view ?s) (fl @ [?k])"
    unfolding v by (rule views_ok_clear [OF tab_invD(2) [OF inv]])
      (use k next_generation_nonzero in \<open>auto simp: slot_view_def\<close>)
  then have "tab_inv ?t' (fl @ [?k])"
    by (intro free_list_append_inv [OF f1 refl nf]) simp
  with run v show ?thesis by (simp add: free_list_append_view)
qed

lemma remove_none:
  "tab_find t i = None \<Longrightarrow> nvdObjectTableRemove t i = (None, t)"
  unfolding tab_find_def nvdObjectTableRemove_def
  by (auto simp: Let_def not_le split: prod.splits)

lemma remove_find:
  assumes inv: "tab_inv t fl" and run: "nvdObjectTableRemove t i = (r, t')"
  shows "r = tab_find t i" "\<exists>fl'. tab_inv t' fl'"
    "tab_find t' j = (if same_id j i then None else tab_find t j)"
proof -
  have *: "r = tab_find t i \<and> (\<exists>fl'. tab_inv t' fl') \<and>
      tab_find t' j = (if same_id j i then None else tab_find t j)"
  proof (cases "tab_find t i")
    case None
    moreover have "same_id j i \<Longrightarrow> tab_find t j = tab_find t i"
      by (simp add: same_id_def tab_find_def)
    ultimately show ?thesis using run remove_none [OF None] inv by auto
  next
    case (Some ob)
    let ?k = "unat (i AND 0x7FFF)"
    obtain t2 where t2: "nvdObjectTableRemove t i = (Some ob, t2)" "tab_inv t2 (fl @ [?k])"
      "map slot_view (tab_slots t2) =
        (map slot_view (tab_slots t))[?k := (None, next_generation (fst (decodeId i)))]"
      using remove_run [OF inv Some] by blast
    have e: "r = Some ob" "t' = t2" using run t2(1) by simp_all
    note U = tab_find_update [OF t2(3) tab_invD(3) [OF inv] tab_invD(3) [OF t2(2)], of j]
    have fv: "?k < length (tab_slots t)" "slot_generation (tab_slots t ! ?k) = fst (decodeId i)"
      using Some tab_find_view [OF tab_invD(3) [OF inv], of i]
      by (auto simp: Let_def slot_view_def split: if_splits)
    have "tab_find t2 j = (if same_id j i then None else tab_find t j)"
    proof (cases "unat (j AND 0x7FFF) = ?k")
      case True
      have "tab_find t2 j = None" using U(2) [OF True fv(1)] by simp
      moreover have "\<not> same_id j i \<Longrightarrow> tab_find t j = None"
        using True fv tab_find_view [OF tab_invD(3) [OF inv], of j]
        by (auto simp: same_id_parts Let_def slot_view_def word_unat_eq_iff split: if_splits)
      ultimately show ?thesis by simp
    next
      case False
      then show ?thesis using U(1) [OF False] by (auto simp: same_id_parts)
    qed
    with e Some t2(2) show ?thesis by auto
  qed
  then show "r = tab_find t i" "\<exists>fl'. tab_inv t' fl'"
    "tab_find t' j = (if same_id j i then None else tab_find t j)" by simp_all
qed

section \<open>The contract of the table\<close>

datatype ('a, 'k) store_op = Store_New 'a | Store_Delete 'k

text \<open>
  What the driver relies on: a lookup finds what was stored under an equivalent ID and
  has not been deleted, new IDs are not in use, and a deletion returns the object once.
\<close>

locale object_store =
  fixes inv :: "'s \<Rightarrow> bool" and find :: "'s \<Rightarrow> 'k \<Rightarrow> 'b option"
    and new :: "'a \<Rightarrow> 's \<Rightarrow> 'b option \<times> 's" and del :: "'k \<Rightarrow> 's \<Rightarrow> 'b option \<times> 's"
    and key :: "'b \<Rightarrow> 'k" and eqv :: "'k \<Rightarrow> 'k \<Rightarrow> bool"
  assumes eqv: "equivp eqv"
    and find_cong: "inv s \<Longrightarrow> eqv i j \<Longrightarrow> find s i = find s j"
    and find_key: "inv s \<Longrightarrow> find s j = Some ob \<Longrightarrow> eqv (key ob) j"
    and new_fresh: "inv s \<Longrightarrow> new a s = (Some ob, s') \<Longrightarrow> inv s' \<and> find s (key ob) = None"
    and find_new: "inv s \<Longrightarrow> new a s = (Some ob, s') \<Longrightarrow>
                   find s' j = (if eqv j (key ob) then Some ob else find s j)"
    and new_fail: "inv s \<Longrightarrow> new a s = (None, s') \<Longrightarrow> inv s' \<and> find s' j = find s j"
    and del_result: "inv s \<Longrightarrow> del i s = (r, s') \<Longrightarrow> inv s' \<and> r = find s i"
    and find_del: "inv s \<Longrightarrow> del i s = (r, s') \<Longrightarrow>
                   find s' j = (if eqv j i then None else find s j)"
begin

definition step :: "('a, 'k) store_op \<Rightarrow> 's \<Rightarrow> 's" where
  "step op s = (case op of Store_New a \<Rightarrow> snd (new a s) | Store_Delete i \<Rightarrow> snd (del i s))"

primrec run :: "('a, 'k) store_op list \<Rightarrow> 's \<Rightarrow> 's" where
  "run [] s = s"
| "run (op # ops) s = run ops (step op s)"

lemma inv_step: "inv s \<Longrightarrow> inv (step op s)"
proof (cases op)
  case (Store_New a)
  assume i: "inv s"
  obtain r s' where n: "new a s = (r, s')" by (cases "new a s")
  with i Store_New show ?thesis
    using new_fresh [OF i] new_fail [OF i] by (cases r) (auto simp: step_def)
next
  case (Store_Delete k)
  assume i: "inv s"
  obtain r s' where "del k s = (r, s')" by (cases "del k s")
  with i Store_Delete show ?thesis using del_result [OF i] by (auto simp: step_def)
qed

lemma inv_run: "inv s \<Longrightarrow> inv (run ops s)"
  by (induction ops arbitrary: s) (simp_all add: inv_step)

lemma survives_step:
  assumes i: "inv s" and f: "find s j = Some ob"
    and d: "\<And>k. op = Store_Delete k \<Longrightarrow> \<not> eqv k j"
  shows "find (step op s) j = Some ob"
proof (cases op)
  case (Store_New a)
  obtain r s' where n: "new a s = (r, s')" by (cases "new a s")
  show ?thesis
  proof (cases r)
    case None
    with n Store_New show ?thesis using new_fail [OF i, of a s' j] f by (simp add: step_def)
  next
    case (Some ob')
    with n have n': "new a s = (Some ob', s')" by simp
    have "\<not> eqv j (key ob')" using new_fresh [OF i n'] find_cong [OF i] f by fastforce
    then show ?thesis using find_new [OF i n', of j] f n Store_New by (simp add: step_def)
  qed
next
  case (Store_Delete k)
  obtain r s' where n: "del k s = (r, s')" by (cases "del k s")
  have "\<not> eqv j k" using d [OF Store_Delete] eqv by (metis equivp_symp)
  then show ?thesis using find_del [OF i n, of j] f n Store_Delete by (simp add: step_def)
qed

text \<open>An object stays reachable until its own ID is deleted.\<close>

lemma survives:
  "inv s \<Longrightarrow> find s j = Some ob \<Longrightarrow> \<forall>k. Store_Delete k \<in> set ops \<longrightarrow> \<not> eqv k j \<Longrightarrow>
   find (run ops s) j = Some ob"
proof (induction ops arbitrary: s)
  case (Cons op ops)
  have "find (step op s) j = Some ob"
    by (rule survives_step [OF Cons.prems(1,2)]) (use Cons.prems(3) in auto)
  with Cons show ?case by (simp add: inv_step)
qed simp

text \<open>A second deletion finds nothing.\<close>

lemma del_once:
  assumes i: "inv s" and d: "del k s = (r, s')"
  shows "find s' k = None" "fst (del k s') = None"
proof -
  have "eqv k k" using eqv by (rule equivp_reflp)
  then show f: "find s' k = None" using find_del [OF i d, of k] by simp
  have "inv s'" using del_result [OF i d] by simp
  then show "fst (del k s') = None"
    using del_result [of s' k "fst (del k s')" "snd (del k s')"] f by simp
qed

text \<open>Two IDs of one object are equivalent.\<close>

lemma key_unique: "inv s \<Longrightarrow> find s i = Some ob \<Longrightarrow> find s j = Some ob \<Longrightarrow> eqv i j"
  using find_key eqv by (metis equivp_symp equivp_transp)

end

text \<open>The arguments of an allocation: which allocations succeed, type and payload size.\<close>

record 'o alloc_request =
  req_realloc_ok :: "usize \<Rightarrow> bool"
  req_calloc_ok :: "usize \<Rightarrow> bool"
  req_zero :: 'o
  req_type :: u8
  req_size :: usize

definition table_new :: "'o alloc_request \<Rightarrow> 'o NVDObjectTable \<Rightarrow>
    'o NVDObject option \<times> 'o NVDObjectTable" where
  "table_new q t = nvdObjectTableAllocate (req_realloc_ok q) (req_calloc_ok q) (req_zero q) t
     (req_type q) (req_size q)"

definition table_del :: "u32 \<Rightarrow> 'o NVDObjectTable \<Rightarrow> 'o NVDObject option \<times> 'o NVDObjectTable" where
  "table_del i t = nvdObjectTableRemove t i"

definition table_ok :: "'o NVDObjectTable \<Rightarrow> bool" where
  "table_ok t \<longleftrightarrow> (\<exists>fl. tab_inv t fl)"

lemma equivp_same_id: "equivp same_id"
  unfolding same_id_def by (intro equivpI reflpI sympI transpI) simp_all

interpretation ot: object_store table_ok tab_find table_new table_del obj_id same_id
proof unfold_locales
  show "equivp same_id" by (rule equivp_same_id)
next
  fix s :: "'o NVDObjectTable" and i j
  show "same_id i j \<Longrightarrow> tab_find s i = tab_find s j" by (simp add: same_id_def tab_find_def)
next
  fix s :: "'o NVDObjectTable" and j ob
  show "table_ok s \<Longrightarrow> tab_find s j = Some ob \<Longrightarrow> same_id (obj_id ob) j"
    using tab_find_SomeD(1) by (auto simp: table_ok_def)
next
  fix s s' :: "'o NVDObjectTable" and a ob j
  assume i: "table_ok s" and n: "table_new a s = (Some ob, s')"
  show "table_ok s' \<and> tab_find s (obj_id ob) = None"
    "tab_find s' j = (if same_id j (obj_id ob) then Some ob else tab_find s j)"
    using i n allocate_run [of s _ "req_realloc_ok a" "req_calloc_ok a" "req_zero a" "req_type a"
        "req_size a" "Some ob" s'] by (auto simp: table_ok_def table_new_def)
next
  fix s s' :: "'o NVDObjectTable" and a j
  assume i: "table_ok s" and n: "table_new a s = (None, s')"
  show "table_ok s' \<and> tab_find s' j = tab_find s j"
    using i n allocate_run [of s _ "req_realloc_ok a" "req_calloc_ok a" "req_zero a" "req_type a"
        "req_size a" None s'] by (auto simp: table_ok_def table_new_def)
next
  fix s s' :: "'o NVDObjectTable" and i j r
  assume k: "table_ok s" and d: "table_del i s = (r, s')"
  show "table_ok s' \<and> r = tab_find s i" "tab_find s' j = (if same_id j i then None else tab_find s j)"
    using k d remove_find [of s _ i r s'] by (auto simp: table_ok_def table_del_def)
qed

section \<open>Stale IDs\<close>

lemma unat_next_generation:
  "g \<noteq> 0 \<Longrightarrow> unat (next_generation g) = unat g mod 65535 + 1"
proof -
  assume g: "g \<noteq> 0"
  have u: "unat (g + 1) = (unat g + 1) mod 65536" by (simp add: unat_word_ariths)
  show ?thesis
  proof (cases "unat g = 65535")
    case True
    then have "g + 1 = 0" using u by (simp add: unat_eq_0 [symmetric])
    then show ?thesis using True by (simp add: next_generation_def)
  next
    case False
    then have "unat g < 65535" using unat_u16_less [of g] by simp
    then show ?thesis using u by (auto simp: next_generation_def unat_eq_0 [symmetric])
  qed
qed

lemma unat_generation_pow:
  "g \<noteq> 0 \<Longrightarrow> unat ((next_generation ^^ n) g) = (unat g - 1 + n) mod 65535 + 1"
proof (induction n)
  case 0
  have "1 \<le> unat g" "unat g - 1 < 65535"
    using 0 unat_u16_less [of g] by (simp_all add: Suc_le_eq unat_gt_0)
  then show ?case by simp
next
  case (Suc n)
  have "(next_generation ^^ n) g \<noteq> 0"
    using Suc by (cases n) (simp_all add: next_generation_nonzero)
  then have "unat ((next_generation ^^ Suc n) g) = unat ((next_generation ^^ n) g) mod 65535 + 1"
    by (simp add: unat_next_generation)
  with Suc show ?case by (simp add: mod_Suc_eq)
qed

text \<open>A generation comes back only after 65535 removals of its slot.\<close>

lemma generation_no_wrap:
  assumes "g \<noteq> 0" "0 < n" "n < 65535"
  shows "(next_generation ^^ n) g \<noteq> g"
proof
  assume "(next_generation ^^ n) g = g"
  then have "unat g = (unat g - 1 + n) mod 65535 + 1"
    using unat_generation_pow [OF assms(1), of n] by metis
  moreover have "1 \<le> unat g" "unat g - 1 < 65535"
    using assms(1) unat_u16_less [of g] by (simp_all add: Suc_le_eq unat_gt_0)
  ultimately have "(unat g - 1 + n) mod 65535 = unat g - 1" by linarith
  then have "(unat g - 1 + n) mod 65535 = (unat g - 1) mod 65535"
    using \<open>unat g - 1 < 65535\<close> by simp
  then have "65535 dvd n" by (metis add_diff_cancel_left' le_add1 mod_eq_dvd_iff_nat)
  with assms show False using dvd_imp_le [of 65535 n] by simp
qed

text \<open>How one operation changes a slot's generation.\<close>

definition slot_gen :: "nat \<Rightarrow> 'o NVDObjectTable \<Rightarrow> u16" where
  "slot_gen k t = slot_generation (tab_slots t ! k)"

lemma slot_gen_view: "k < length (tab_slots t) \<Longrightarrow> slot_gen k t = snd (map slot_view (tab_slots t) ! k)"
  by (simp add: slot_gen_def slot_view_def)

lemma allocate_head_gen:
  assumes inv: "tab_inv t (i # fl)" and ty: "ty < 7" and k: "k < length (tab_slots t)"
    and run: "allocate_head calloc_ok zero t ty payloadSize = (r, t')"
  shows "k < length (tab_slots t')" "slot_gen k t' = slot_gen k t"
proof -
  have "length (tab_slots t') = length (tab_slots t) \<and>
        snd (map slot_view (tab_slots t') ! k) = snd (map slot_view (tab_slots t) ! k)"
  proof (cases "calloc_ok (16 + payloadSize)")
    case False
    with allocate_head_fail [OF inv, of calloc_ok payloadSize zero ty] run
    have v: "map slot_view (tab_slots t') = map slot_view (tab_slots t)" by auto
    show ?thesis using map_eq_imp_length_eq [OF v] by (simp only: v)
  next
    case True
    with allocate_head_ok [OF inv, of calloc_ok payloadSize ty zero] ty run obtain w where
      v: "map slot_view (tab_slots t') =
          (map slot_view (tab_slots t))[i := (w, slot_generation (tab_slots t ! i))]" by auto
    have "length (tab_slots t') = length (tab_slots t)"
      using arg_cong [OF v, of length] by simp
    with k show ?thesis unfolding v by (cases "k = i") (simp_all add: slot_view_def)
  qed
  with k show "k < length (tab_slots t')" "slot_gen k t' = slot_gen k t"
    by (auto simp: slot_gen_def slot_view_def)
qed

lemma allocate_gen:
  assumes inv: "tab_inv t fl" and k: "k < length (tab_slots t)"
    and run: "nvdObjectTableAllocate realloc_ok calloc_ok zero t ty payloadSize = (r, t')"
  shows "k < length (tab_slots t') \<and> slot_gen k t' = slot_gen k t"
proof (cases rule: allocate_cases [OF inv run, case_names fail head])
  case fail
  with k show ?thesis by simp
next
  case (head t0 i rest)
  have "k < length (tab_slots t0) \<and> slot_gen k t0 = slot_gen k t"
  proof (cases "t0 = t")
    case False
    with head(4) have "fl = []" "growTable realloc_ok t = (True, t0)" by auto
    with inv growTable_inv(3) [of t realloc_ok t0] obtain new where "tab_slots t0 = tab_slots t @ new"
      by blast
    with k show ?thesis by (simp add: slot_gen_def nth_append)
  qed (use k in simp)
  with allocate_head_gen [OF head(2,1) _ head(3)] show ?thesis by auto
qed

lemma remove_gen:
  assumes inv: "tab_inv t fl" and k: "k < length (tab_slots t)"
    and run: "nvdObjectTableRemove t i = (r, t')"
  shows "k < length (tab_slots t') \<and>
         (slot_gen k t' = slot_gen k t \<or> slot_gen k t' = next_generation (slot_gen k t))"
proof (cases "tab_find t i")
  case None
  with run k remove_none [OF None] show ?thesis by simp
next
  case (Some ob)
  let ?k = "unat (i AND 0x7FFF)"
  from remove_run [OF inv Some] run
  have v: "map slot_view (tab_slots t') =
      (map slot_view (tab_slots t))[?k := (None, next_generation (fst (decodeId i)))]" by auto
  have l: "length (tab_slots t') = length (tab_slots t)" using arg_cong [OF v, of length] by simp
  have g: "slot_gen k t' = snd (map slot_view (tab_slots t') ! k)"
    using k l by (intro slot_gen_view) simp
  show ?thesis
  proof (cases "k = ?k")
    case True
    have "slot_generation (tab_slots t ! ?k) = fst (decodeId i)"
      using Some tab_find_view [OF tab_invD(3) [OF inv], of i]
      by (auto simp: Let_def slot_view_def split: if_splits)
    with True k l g show ?thesis unfolding v by (simp add: slot_gen_def)
  next
    case False
    with k l g show ?thesis unfolding v by (simp add: slot_gen_view)
  qed
qed

text \<open>A sequence of allocations and removals, and the number of removals in it.\<close>

primrec table_run :: "('o alloc_request, u32) store_op list \<Rightarrow> 'o NVDObjectTable \<Rightarrow>
    'o NVDObjectTable" where
  "table_run [] t = t"
| "table_run (op # ops) t = table_run ops
     (case op of
        Store_New q \<Rightarrow> snd (nvdObjectTableAllocate (req_realloc_ok q) (req_calloc_ok q)
                              (req_zero q) t (req_type q) (req_size q))
      | Store_Delete i \<Rightarrow> snd (nvdObjectTableRemove t i))"

primrec removals :: "('o alloc_request, u32) store_op list \<Rightarrow> nat" where
  "removals [] = 0"
| "removals (op # ops) = (case op of Store_New q \<Rightarrow> 0 | Store_Delete i \<Rightarrow> 1) + removals ops"

lemma table_run_ot: "table_run ops t = ot.run ops t"
  by (induction ops arbitrary: t)
    (auto simp: ot.step_def table_new_def table_del_def split: store_op.splits)

lemma table_run_gen:
  "table_ok t \<Longrightarrow> k < length (tab_slots t) \<Longrightarrow>
   \<exists>m \<le> removals ops. slot_gen k (table_run ops t) = (next_generation ^^ m) (slot_gen k t)"
proof (induction ops arbitrary: t)
  case Nil
  then show ?case by simp
next
  case (Cons op ops)
  obtain fl where inv: "tab_inv t fl" using Cons.prems(1) by (auto simp: table_ok_def)
  show ?case
  proof (cases op)
    case (Store_New q)
    let ?a = "nvdObjectTableAllocate (req_realloc_ok q) (req_calloc_ok q) (req_zero q) t
                (req_type q) (req_size q)"
    have t': "?a = (fst ?a, snd ?a)" by simp
    have "table_ok (snd ?a)"
      using allocate_run [OF inv t'] by (auto simp: table_ok_def split: option.splits)
    with Cons.IH [of "snd ?a"] allocate_gen [OF inv Cons.prems(2) t'] Store_New show ?thesis
      by auto
  next
    case (Store_Delete i)
    let ?d = "nvdObjectTableRemove t i"
    have t': "?d = (fst ?d, snd ?d)" by simp
    have "table_ok (snd ?d)" using remove_find(2) [OF inv t'] by (simp add: table_ok_def)
    with remove_gen [OF inv Cons.prems(2) t'] Cons.IH [of "snd ?d"] obtain m where
      m: "m \<le> removals ops"
        "slot_gen k (table_run ops (snd ?d)) = (next_generation ^^ m) (slot_gen k (snd ?d))"
      and g: "slot_gen k (snd ?d) = slot_gen k t \<or> slot_gen k (snd ?d) = next_generation (slot_gen k t)"
      by blast
    from g show ?thesis
    proof
      assume "slot_gen k (snd ?d) = slot_gen k t"
      with m Store_Delete show ?thesis by (intro exI [of _ m]) simp
    next
      assume "slot_gen k (snd ?d) = next_generation (slot_gen k t)"
      with m Store_Delete show ?thesis by (intro exI [of _ "Suc m"]) (simp add: funpow_swap1)
    qed
  qed
qed

lemma stale_find:
  assumes ok: "table_ok t" and f: "tab_find t i = Some ob" and n: "removals ops < 65534"
  shows "tab_find (table_run ops (snd (nvdObjectTableRemove t i))) i = None"
proof -
  obtain fl where inv: "tab_inv t fl" using ok by (auto simp: table_ok_def)
  let ?k = "unat (i AND 0x7FFF)" and ?g = "fst (decodeId i)"
  obtain t1 where t1: "nvdObjectTableRemove t i = (Some ob, t1)" "tab_inv t1 (fl @ [?k])"
    "map slot_view (tab_slots t1) = (map slot_view (tab_slots t))[?k := (None, next_generation ?g)]"
    using remove_run [OF inv f] by blast
  have g: "?g \<noteq> 0" "?k < length (tab_slots t)"
    using f tab_find_view [OF tab_invD(3) [OF inv], of i] by (auto simp: Let_def split: if_splits)
  have l: "length (tab_slots t1) = length (tab_slots t)" using arg_cong [OF t1(3), of length] by simp
  have s: "slot_gen ?k t1 = next_generation ?g"
    using arg_cong [OF t1(3), of "\<lambda>v. snd (v ! ?k)"] g l by (simp add: slot_gen_def slot_view_def)
  have ok1: "table_ok t1" using t1(2) by (auto simp: table_ok_def)
  obtain m where m: "m \<le> removals ops"
    "slot_gen ?k (table_run ops t1) = (next_generation ^^ m) (next_generation ?g)"
    using table_run_gen [OF ok1, of ?k ops] l g s by auto
  have "slot_gen ?k (table_run ops t1) \<noteq> ?g"
    using m n generation_no_wrap [OF g(1), of "Suc m"] by (simp add: funpow_swap1)
  moreover obtain fl' where inv': "tab_inv (table_run ops t1) fl'"
    using ot.inv_run [OF ok1, of ops] by (auto simp: table_run_ot table_ok_def)
  ultimately have "tab_find (table_run ops t1) i = None"
    unfolding tab_find_view [OF tab_invD(3) [OF inv']]
    by (auto simp: Let_def slot_gen_def slot_view_def)
  then show ?thesis by (simp add: t1(1))
qed

section \<open>Properties\<close>

text \<open>C3. The object table implements a map from IDs to live objects. An allocation that succeeds
  returns an ID that no live object answers to and makes exactly the IDs equivalent to it find
  the new object; a removal returns the object the ID finds and makes exactly these IDs find
  nothing; a failing call changes no lookup. Every operation keeps the table invariant (slots,
  free list, live count).\<close>

theorem object_table_map:
  assumes "table_ok t"
  shows "(case nvdObjectTableAllocate realloc_ok calloc_ok zero t ty n of
        (Some ob, t') \<Rightarrow> table_ok t' \<and> tab_find t (obj_id ob) = None \<and> obj_type ob = ty \<and>
          (\<forall>j. tab_find t' j = (if same_id j (obj_id ob) then Some ob else tab_find t j))
      | (None, t') \<Rightarrow> table_ok t' \<and> (\<forall>j. tab_find t' j = tab_find t j)) \<and>
    (case nvdObjectTableRemove t i of
        (r, t') \<Rightarrow> table_ok t' \<and> r = tab_find t i \<and>
          (\<forall>j. tab_find t' j = (if same_id j i then None else tab_find t j))) \<and>
    nvdObjectTableGet t ty i =
      (case tab_find t i of None \<Rightarrow> None | Some ob \<Rightarrow> if obj_type ob = ty then Some ob else None)"
proof (intro conjI)
  obtain fl where inv: "tab_inv t fl" using assms by (auto simp: table_ok_def)
  show "case nvdObjectTableAllocate realloc_ok calloc_ok zero t ty n of
        (Some ob, t') \<Rightarrow> table_ok t' \<and> tab_find t (obj_id ob) = None \<and> obj_type ob = ty \<and>
          (\<forall>j. tab_find t' j = (if same_id j (obj_id ob) then Some ob else tab_find t j))
      | (None, t') \<Rightarrow> table_ok t' \<and> (\<forall>j. tab_find t' j = tab_find t j)"
    using allocate_run [OF inv, of realloc_ok calloc_ok zero ty n]
    by (force simp: table_ok_def split: prod.splits option.splits)
  show "case nvdObjectTableRemove t i of
        (r, t') \<Rightarrow> table_ok t' \<and> r = tab_find t i \<and>
          (\<forall>j. tab_find t' j = (if same_id j i then None else tab_find t j))"
    using remove_find [OF inv, of i] by (auto simp: table_ok_def split: prod.splits)
  show "nvdObjectTableGet t ty i =
      (case tab_find t i of None \<Rightarrow> None | Some ob \<Rightarrow> if obj_type ob = ty then Some ob else None)"
    by (rule get_find)
qed

text \<open>Three slots: slot 0 holds an object of generation 1, slots 2 and 1 are free.\<close>

definition sample_table :: "nat NVDObjectTable" where
  "sample_table = \<lparr>tab_slots =
      [\<lparr>slot_object = Some \<lparr>obj_id = 32768, obj_type = 3, obj_payload = None\<rparr>,
        slot_nextFree = NVD_OBJECT_SLOT_NONE, slot_generation = 1\<rparr>,
       \<lparr>slot_object = None, slot_nextFree = NVD_OBJECT_SLOT_NONE, slot_generation = 5\<rparr>,
       \<lparr>slot_object = None, slot_nextFree = 1, slot_generation = 2\<rparr>],
     tab_capacity = 3, tab_freeHead = 2, tab_freeTail = 1, tab_liveCount = 1\<rparr>"

lemma sample_table_inv: "tab_inv sample_table [2, 1]"
proof -
  have f: "free_ok sample_table [2, 1]"
    by (simp add: free_ok_def tail_ok_def sample_table_def)
  have "views_ok (tab_capacity sample_table) (tab_liveCount sample_table)
      (map slot_view (tab_slots sample_table)) [2, 1]"
  proof (rule views_okI)
    let ?vs = "map slot_view (tab_slots sample_table)"
    have len: "length ?vs = 3" by (simp add: sample_table_def)
    have all: "j < length ?vs \<Longrightarrow> j = 0 \<or> j = 1 \<or> j = 2" for j
      unfolding len by linarith
    show "length ?vs = unat (tab_capacity sample_table)" "length ?vs \<le> 32768"
      unfolding len by (simp_all add: sample_table_def)
    show "unat (tab_liveCount sample_table) = length (filter (\<lambda>v. fst v \<noteq> None) ?vs)"
      by code_simp
    show "\<forall>j < length ?vs. slot_ok j (?vs ! j)"
    proof (intro allI impI)
      fix j assume "j < length ?vs"
      then consider "j = 0" | "j = 1" | "j = 2" using all by blast
      then show "slot_ok j (?vs ! j)"
        by cases (simp_all add: sample_table_def slot_view_def slot_ok_def makeId_def)
    qed
    have e: "fst (?vs ! 0) \<noteq> None" "fst (?vs ! 1) = None" "fst (?vs ! 2) = None" "length ?vs = 3"
      by (simp_all add: sample_table_def slot_view_def)
    show "set [2, 1] = {i. i < length ?vs \<and> fst (?vs ! i) = None}"
    proof (rule set_eqI)
      fix j
      show "j \<in> set [2, 1] \<longleftrightarrow> j \<in> {i. i < length ?vs \<and> fst (?vs ! i) = None}"
        using all [of j] e by fastforce
    qed
  qed
  with f show ?thesis by (simp add: tab_inv_def)
qed

lemma sample_table_ok: "table_ok sample_table"
  using sample_table_inv by (auto simp: table_ok_def)

lemma object_table_map_witness:
  "case nvdObjectTableRemove sample_table 32768 of (r, t') \<Rightarrow>
     tab_find t' 32768 = None \<and> tab_find sample_table 32768 = r \<and>
     r = Some \<lparr>obj_id = 32768, obj_type = 3, obj_payload = None\<rparr>"
proof -
  have "tab_find sample_table 32768 = Some \<lparr>obj_id = 32768, obj_type = 3, obj_payload = None\<rparr>"
    by code_simp
  then show ?thesis
    using object_table_map [OF sample_table_ok, of _ _ _ _ _ 32768]
    by (auto simp: same_id_def split: prod.splits)
qed

text \<open>C22. A removed ID stays dead: after its object is removed, through any sequence of further
  allocations and removals with fewer than 65534 removals in total, a lookup of that ID of any
  type returns \<open>NULL\<close>, also when its slot has been reused many times.\<close>

theorem stale_id_stays_dead:
  assumes "table_ok t" "nvdObjectTableRemove t i = (Some ob, t1)" "removals ops < 65534"
  shows "nvdObjectTableGet (table_run ops t1) ty i = None"
proof -
  obtain fl where inv: "tab_inv t fl" using assms(1) by (auto simp: table_ok_def)
  have "tab_find t i = Some ob" using remove_find(1) [OF inv assms(2)] by simp
  from stale_find [OF assms(1) this assms(3)] assms(2)
  have "tab_find (table_run ops t1) i = None" by simp
  then show ?thesis by (simp add: get_find)
qed

definition sample_request :: "nat alloc_request" where
  "sample_request = \<lparr>req_realloc_ok = \<lambda>_. False, req_calloc_ok = \<lambda>_. True, req_zero = 0,
     req_type = 2, req_size = 8\<rparr>"

text \<open>Slot 0 is freed and, after two other allocations, used again under another ID.\<close>

lemma stale_id_stays_dead_witness:
  "nvdObjectTableGet (table_run (replicate 3 (Store_New sample_request))
     (snd (nvdObjectTableRemove sample_table 32768))) 3 32768 = None"
proof -
  let ?d = "nvdObjectTableRemove sample_table 32768"
  have "tab_find sample_table 32768 = Some \<lparr>obj_id = 32768, obj_type = 3, obj_payload = None\<rparr>"
    by code_simp
  then have d: "?d = (Some \<lparr>obj_id = 32768, obj_type = 3, obj_payload = None\<rparr>, snd ?d)"
    using remove_run [OF sample_table_inv] by fastforce
  show ?thesis
    by (rule stale_id_stays_dead [OF sample_table_ok d]) (simp add: numeral_3_eq_3)
qed

text \<open>Slots are reused in the order in which they were freed: an allocation that does not grow
  the table takes the slot at the front of the free list, a removal puts its slot at the back,
  and an allocation whose \<open>calloc\<close> fails moves the front slot to the back. The table grows only
  when no slot is free.\<close>

theorem slots_reused_in_order:
  assumes "tab_inv t (i # rest)" "ty < 7" "n \<le> SIZE_MAX - 16"
  shows "(case nvdObjectTableAllocate realloc_ok calloc_ok zero t ty n of
        (Some ob, t') \<Rightarrow> calloc_ok (16 + n) \<and> tab_inv t' rest \<and> unat (obj_id ob AND 0x7FFF) = i
      | (None, t') \<Rightarrow> \<not> calloc_ok (16 + n) \<and> tab_inv t' (rest @ [i])) \<and>
    (tab_find t j = Some ob' \<longrightarrow>
      (\<exists>t'. nvdObjectTableRemove t j = (Some ob', t') \<and>
        tab_inv t' ((i # rest) @ [unat (j AND 0x7FFF)])))"
proof -
  have h: "tab_freeHead t \<noteq> NVD_OBJECT_SLOT_NONE" using free_head_none [OF assms(1)] by simp
  then have a: "nvdObjectTableAllocate realloc_ok calloc_ok zero t ty n =
      allocate_head calloc_ok zero t ty n"
    using assms(2,3) by (auto simp: nvdObjectTableAllocate_def not_less [symmetric])
  have i: "i < 32768"
    using chain_less [of "tab_slots t" "tab_freeHead t" "i # rest" i] tab_invD(1,3,4) [OF assms(1)]
    by (simp add: free_ok_def)
  have "case allocate_head calloc_ok zero t ty n of
        (Some ob, t') \<Rightarrow> calloc_ok (16 + n) \<and> tab_inv t' rest \<and> unat (obj_id ob AND 0x7FFF) = i
      | (None, t') \<Rightarrow> \<not> calloc_ok (16 + n) \<and> tab_inv t' (rest @ [i])"
  proof (cases "calloc_ok (16 + n)")
    case True
    obtain t' ob where t': "allocate_head calloc_ok zero t ty n = (Some ob, t')" "tab_inv t' rest"
      "obj_id ob = makeId (slot_generation (tab_slots t ! i)) (of_nat i)"
      using allocate_head_ok [OF assms(1), of calloc_ok n ty zero] True assms(2) by auto
    have u: "unat (of_nat i :: u32) = i" using i by (simp add: unat_of_nat take_bit_nat_eq_self)
    have "obj_id ob AND 0x7FFF = of_nat i"
      using decode_makeId [of "of_nat i" "slot_generation (tab_slots t ! i)"] i u
        decodeId_parts [of "obj_id ob"] unfolding t'(3) by (metis prod.inject)
    with t' u True show ?thesis by simp
  next
    case False
    with allocate_head_fail [OF assms(1), of calloc_ok n zero ty] show ?thesis by auto
  qed
  with a remove_run [OF assms(1)] show ?thesis by auto
qed

lemma slots_reused_in_order_witness:
  "case nvdObjectTableAllocate (\<lambda>_. False) (\<lambda>_. True) 0 sample_table 2 8 of
     (Some ob, t') \<Rightarrow> tab_inv t' [1] \<and> unat (obj_id ob AND 0x7FFF) = 2
   | (None, t') \<Rightarrow> False"
  using slots_reused_in_order [OF sample_table_inv, of 2 8 "\<lambda>_. True" "\<lambda>_. False" 0]
  by (auto split: prod.splits option.splits)


end
