(* ===== verification/ResolveQueue.thy ===== *)
theory ResolveQueue
  imports Prelude
begin

text \<open>
  The bounded queue between the decode thread and the resolve worker
  (\<open>src/resolve-queue.c\<close>, \<open>src/resolve-queue.h\<close>).

  Each operation is the code between taking the mutex and the next point where it is
  released: \<open>push_attempt\<close> and \<open>pop_attempt\<close> run from the loop test, and answer
  \<open>Wait\<close> when the thread goes to sleep on the condition variable, so that one blocking
  call is a sequence of attempts. \<open>queue_step\<close> interleaves calls, wake-ups (also spurious
  ones), shutdown and cancellation of any number of threads. Items are \<open>'p option\<close>,
  \<open>None\<close> being \<open>NULL\<close>; a telemetry counter is \<open>None\<close> when its pointer is \<open>NULL\<close>.
\<close>

abbreviation RESOLVE_QUEUE_CAPACITY :: usize where "RESOLVE_QUEUE_CAPACITY \<equiv> 16"

record ResolveQueueTelemetry =
  tel_depth :: "u64 option"
  tel_highWater :: "u64 option"
  tel_fullWaits :: "u64 option"
  tel_waitNs :: "u64 option"

record 'p ResolveQueue =
  rq_items :: "'p option list"
  rq_readIdx :: usize
  rq_writeIdx :: usize
  rq_count :: usize
  rq_highWater :: usize
  rq_exiting :: bool
  rq_initialized :: bool
  rq_telemetry :: ResolveQueueTelemetry

text \<open>What \<open>clock_gettime\<close> returned: seconds and nanoseconds, or an error.\<close>

definition monotonicNs :: "(u64 \<times> u64) option \<Rightarrow> u64" where
  "monotonicNs clock =
     (case clock of None \<Rightarrow> 0 | Some (sec, nsec) \<Rightarrow> sec * 1000000000 + nsec)"

text \<open>The exchange loop ends with the maximum, also when other threads write in between.\<close>

definition updateHighWater :: "ResolveQueueTelemetry \<Rightarrow> u64 \<Rightarrow> ResolveQueueTelemetry" where
  "updateHighWater tel depth =
     (case tel_highWater tel of
        None \<Rightarrow> tel
      | Some current \<Rightarrow> if current < depth then tel\<lparr>tel_highWater := Some depth\<rparr> else tel)"

definition no_telemetry :: ResolveQueueTelemetry where
  "no_telemetry = \<lparr>tel_depth = None, tel_highWater = None, tel_fullWaits = None, tel_waitNs = None\<rparr>"

text \<open>The results of the three \<open>pthread\<close> initialisations; \<open>items\<close> is zeroed first.\<close>

definition resolveQueueInit :: "bool \<Rightarrow> bool \<Rightarrow> bool \<Rightarrow> bool \<times> 'p ResolveQueue" where
  "resolveQueueInit mutex_ok notEmpty_ok notFull_ok =
     (let q = \<lparr>rq_items = replicate 16 None, rq_readIdx = 0, rq_writeIdx = 0, rq_count = 0,
               rq_highWater = 0, rq_exiting = False, rq_initialized = False,
               rq_telemetry = no_telemetry\<rparr>
      in if \<not> mutex_ok then (False, q)
         else if \<not> notEmpty_ok then (False, q)
         else if \<not> notFull_ok then (False, q)
         else (True, q\<lparr>rq_initialized := True\<rparr>))"

definition resolveQueueSetTelemetry ::
    "'p ResolveQueue \<Rightarrow> ResolveQueueTelemetry \<Rightarrow> 'p ResolveQueue" where
  "resolveQueueSetTelemetry q tel = q\<lparr>rq_telemetry := tel\<rparr>"

text \<open>The local variables of a push call across its waits.\<close>

record push_call =
  pc_waited :: bool
  pc_waitStart :: u64

definition push_call_start :: push_call where
  "push_call_start = \<lparr>pc_waited = False, pc_waitStart = 0\<rparr>"

datatype 'r attempt = Wait | Return 'r

text \<open>One round of the waiting loop.\<close>

definition push_wait ::
    "(u64 \<times> u64) option \<Rightarrow> 'p ResolveQueue \<Rightarrow> push_call \<Rightarrow> 'p ResolveQueue \<times> push_call" where
  "push_wait clock q pc =
     (case tel_fullWaits (rq_telemetry q) of
        None \<Rightarrow> (q, pc)
      | Some n \<Rightarrow>
          if pc_waited pc then (q, pc)
          else (q\<lparr>rq_telemetry := (rq_telemetry q)\<lparr>tel_fullWaits := Some (n + 1)\<rparr>\<rparr>,
                \<lparr>pc_waited = True, pc_waitStart = monotonicNs clock\<rparr>))"

definition push_record_wait ::
    "(u64 \<times> u64) option \<Rightarrow> 'p ResolveQueue \<Rightarrow> push_call \<Rightarrow> 'p ResolveQueue" where
  "push_record_wait clock q pc =
     (case tel_waitNs (rq_telemetry q) of
        None \<Rightarrow> q
      | Some n \<Rightarrow>
          if \<not> pc_waited pc then q
          else
            let waitEnd = monotonicNs clock
            in if pc_waitStart pc \<noteq> 0 \<and> waitEnd \<ge> pc_waitStart pc
               then q\<lparr>rq_telemetry := (rq_telemetry q)
                        \<lparr>tel_waitNs := Some (n + (waitEnd - pc_waitStart pc))\<rparr>\<rparr>
               else q)"

definition push_store :: "'p ResolveQueue \<Rightarrow> 'p option \<Rightarrow> 'p ResolveQueue" where
  "push_store q item =
     (let count = rq_count q + 1
      in q\<lparr>rq_items := (rq_items q)[unat (rq_writeIdx q) := item],
           rq_writeIdx := (rq_writeIdx q + 1) mod RESOLVE_QUEUE_CAPACITY,
           rq_count := count,
           rq_highWater := (if count > rq_highWater q then count else rq_highWater q),
           rq_telemetry :=
             (case tel_depth (rq_telemetry q) of
                None \<Rightarrow> rq_telemetry q
              | Some d \<Rightarrow> updateHighWater ((rq_telemetry q)\<lparr>tel_depth := Some (d + 1)\<rparr>) (d + 1))\<rparr>)"

text \<open>
  \<open>resolveQueuePushTimed\<close> from the loop test on, with the two clock readings. A returned
  value is the result and, on success, the insertion time stored through \<open>enqueuedNs\<close>.
\<close>

definition push_attempt ::
    "(u64 \<times> u64) option \<Rightarrow> (u64 \<times> u64) option \<Rightarrow> bool \<Rightarrow> 'p ResolveQueue \<Rightarrow> push_call \<Rightarrow> 'p option \<Rightarrow>
     (bool \<times> u64 option) attempt \<times> 'p ResolveQueue \<times> push_call" where
  "push_attempt clock clock2 timed q pc item =
     (if rq_count q = RESOLVE_QUEUE_CAPACITY \<and> \<not> rq_exiting q
      then (case push_wait clock q pc of (q', pc') \<Rightarrow> (Wait, q', pc'))
      else
        let q1 = push_record_wait clock q pc
        in if rq_exiting q1 then (Return (False, None), q1, pc)
           else (Return (True, if timed then Some (monotonicNs clock2) else None),
                 push_store q1 item, pc))"

definition pop_take :: "'p ResolveQueue \<Rightarrow> 'p option \<times> 'p ResolveQueue" where
  "pop_take q =
     (rq_items q ! unat (rq_readIdx q),
      q\<lparr>rq_items := (rq_items q)[unat (rq_readIdx q) := None],
        rq_readIdx := (rq_readIdx q + 1) mod RESOLVE_QUEUE_CAPACITY,
        rq_count := rq_count q - 1,
        rq_telemetry := (rq_telemetry q)
          \<lparr>tel_depth := map_option (\<lambda>d. d - 1) (tel_depth (rq_telemetry q))\<rparr>\<rparr>)"

text \<open>A returned \<open>None\<close> is the result \<open>false\<close>, \<open>Some item\<close> is \<open>true\<close> with \<open>*item\<close> set.\<close>

definition pop_attempt :: "'p ResolveQueue \<Rightarrow> 'p option option attempt \<times> 'p ResolveQueue" where
  "pop_attempt q =
     (if rq_count q = 0 \<and> \<not> rq_exiting q then (Wait, q)
      else if rq_count q = 0 then (Return None, q)
      else case pop_take q of (item, q') \<Rightarrow> (Return (Some item), q'))"

definition resolveQueueShutdown :: "'p ResolveQueue \<Rightarrow> 'p ResolveQueue" where
  "resolveQueueShutdown q = (if \<not> rq_initialized q then q else q\<lparr>rq_exiting := True\<rparr>)"

text \<open>
  The draining loop: \<open>i\<close> counts up to \<open>pending\<close>, the first \<open>returned\<close> items are
  written to the array \<open>cancelled\<close> of the caller, which is the list that is returned
  (when that pointer is \<open>NULL\<close> they are not written, and nothing else changes).
\<close>

fun cancel_loop :: "nat \<Rightarrow> nat \<Rightarrow> nat \<Rightarrow> 'p ResolveQueue \<Rightarrow> 'p option list \<times> 'p ResolveQueue" where
  "cancel_loop 0 i returned q = ([], q)"
| "cancel_loop (Suc n) i returned q =
     (let item = rq_items q ! unat (rq_readIdx q);
          q' = q\<lparr>rq_items := (rq_items q)[unat (rq_readIdx q) := None],
                 rq_readIdx := (rq_readIdx q + 1) mod RESOLVE_QUEUE_CAPACITY\<rparr>
      in case cancel_loop n (Suc i) returned q' of
           (rest, q'') \<Rightarrow> (if i < returned then item # rest else rest, q''))"

definition resolveQueueCancel ::
    "'p ResolveQueue \<Rightarrow> usize \<Rightarrow> usize \<times> 'p option list \<times> 'p ResolveQueue" where
  "resolveQueueCancel q capacity =
     (if \<not> rq_initialized q then (0, [], q)
      else
        let pending = rq_count q;
            returned = (if pending < capacity then pending else capacity)
        in case cancel_loop (unat pending) 0 (unat returned) (q\<lparr>rq_exiting := True\<rparr>) of
             (cancelled, q') \<Rightarrow>
               (returned, cancelled,
                q'\<lparr>rq_count := 0, rq_writeIdx := rq_readIdx q',
                   rq_telemetry := (rq_telemetry q')
                     \<lparr>tel_depth := (if pending \<noteq> 0
                        then map_option (\<lambda>d. d - pending) (tel_depth (rq_telemetry q'))
                        else tel_depth (rq_telemetry q'))\<rparr>\<rparr>))"

definition resolveQueueDestroy :: "'p ResolveQueue \<Rightarrow> 'p ResolveQueue" where
  "resolveQueueDestroy q = (if \<not> rq_initialized q then q else q\<lparr>rq_initialized := False\<rparr>)"

section \<open>The queue as a list\<close>

definition rq_wf :: "'p ResolveQueue \<Rightarrow> bool" where
  "rq_wf q \<longleftrightarrow> length (rq_items q) = 16 \<and> unat (rq_readIdx q) < 16 \<and> unat (rq_count q) \<le> 16 \<and>
     unat (rq_writeIdx q) = (unat (rq_readIdx q) + unat (rq_count q)) mod 16"

definition ring :: "'p option list \<Rightarrow> nat \<Rightarrow> nat \<Rightarrow> 'p option list" where
  "ring items r n = map (\<lambda>k. items ! ((r + k) mod 16)) [0..<n]"

definition rq_list :: "'p ResolveQueue \<Rightarrow> 'p option list" where
  "rq_list q = ring (rq_items q) (unat (rq_readIdx q)) (unat (rq_count q))"

lemma rq_list_length [simp]: "length (rq_list q) = unat (rq_count q)"
  by (simp add: rq_list_def ring_def)

lemma unat_succ_mod: "unat w < 16 \<Longrightarrow> unat ((w + 1) mod (16 :: usize)) = (unat w + 1) mod 16"
proof -
  assume "unat w < 16"
  then have "unat (w + 1) = unat w + 1" by (subst unat_add_no_overflow) simp_all
  then show ?thesis by (simp add: unat_mod_distrib)
qed

lemma ring_snoc:
  assumes "length items = 16" "n < 16"
  shows "ring (items[(r + n) mod 16 := x]) r (Suc n) = ring items r n @ [x]"
proof -
  have "(r + k) mod 16 \<noteq> (r + n) mod 16" if "k < n" for k
  proof
    assume "(r + k) mod 16 = (r + n) mod 16"
    then have "(16::nat) dvd n - k" using that
      by (metis add_diff_cancel_left le_add1 less_imp_le_nat mod_eq_dvd_iff_nat nat_add_left_cancel_le)
    with that assms(2) show False by (auto dest: dvd_imp_le)
  qed
  then have "items[(r + n) mod 16 := x] ! ((r + k) mod 16) = items ! ((r + k) mod 16)" if "k < n" for k
    using that by (metis nth_list_update_neq)
  with assms(1) show ?thesis by (simp add: ring_def)
qed

lemma ring_tail:
  assumes "length items = 16" "Suc n \<le> 16" "r < 16"
  shows "ring (items[r := x]) ((r + 1) mod 16) n = tl (ring items r (Suc n))"
proof -
  have s: "ring items r (Suc n) = items ! r # map (\<lambda>k. items ! ((r + Suc k) mod 16)) [0..<n]"
    using assms(3) unfolding ring_def
    by (simp add: upt_conv_Cons map_Suc_upt [symmetric] comp_def del: upt_Suc)
  have "((r + 1) mod 16 + k) mod 16 \<noteq> r" if "k < n" for k
  proof
    assume "((r + 1) mod 16 + k) mod 16 = r"
    then have "(r + Suc k) mod 16 = r mod 16" using assms(3) by (simp add: mod_add_left_eq)
    then have "(16::nat) dvd Suc k" by (metis add_diff_cancel_left' le_add1 mod_eq_dvd_iff_nat)
    with that assms(2) show False by (auto dest: dvd_imp_le)
  qed
  then have "items[r := x] ! (Suc (r + k) mod 16) = items ! (Suc (r + k) mod 16)" if "k < n" for k
    using that by (metis nth_list_update_neq mod_add_left_eq add_Suc add.commute plus_1_eq_Suc)
  then show ?thesis unfolding s by (simp add: ring_def mod_add_left_eq)
qed

lemma push_store_fields [simp]:
  "rq_readIdx (push_store q x) = rq_readIdx q" "rq_exiting (push_store q x) = rq_exiting q"
  "rq_initialized (push_store q x) = rq_initialized q" "rq_count (push_store q x) = rq_count q + 1"
  by (simp_all add: push_store_def Let_def)

lemma push_store_ok:
  assumes wf: "rq_wf q" and room: "unat (rq_count q) < 16"
  shows "rq_wf (push_store q x)" "rq_list (push_store q x) = rq_list q @ [x]"
proof -
  let ?r = "unat (rq_readIdx q)" and ?n = "unat (rq_count q)"
  have c: "unat (rq_count q + 1) = Suc ?n"
    using room by (subst unat_add_no_overflow) simp_all
  have w: "unat (rq_writeIdx q) = (?r + ?n) mod 16" using wf by (simp add: rq_wf_def)
  have "unat ((rq_writeIdx q + 1) mod 16) = (?r + Suc ?n) mod 16"
    using w by (subst unat_succ_mod) (simp_all add: mod_Suc_eq)
  then show "rq_wf (push_store q x)"
    using wf room c by (simp add: rq_wf_def push_store_def Let_def)
  show "rq_list (push_store q x) = rq_list q @ [x]"
    using wf room c w ring_snoc [of "rq_items q" ?n ?r x]
    by (simp add: rq_list_def push_store_def Let_def rq_wf_def)
qed

lemma pop_take_ok:
  assumes wf: "rq_wf q" and some: "rq_count q \<noteq> 0"
  shows "rq_wf (snd (pop_take q))" "rq_list q = fst (pop_take q) # rq_list (snd (pop_take q))"
    "unat (rq_count (snd (pop_take q))) = unat (rq_count q) - 1"
proof -
  let ?r = "unat (rq_readIdx q)" and ?n = "unat (rq_count q) - 1"
  have n: "unat (rq_count q) = Suc ?n" using some by (simp add: unat_gt_0)
  then have "1 \<le> rq_count q" by (simp add: word_le_nat_alt)
  then have c: "unat (rq_count q - 1) = ?n" by (subst unat_sub_le) simp_all
  then show "unat (rq_count (snd (pop_take q))) = unat (rq_count q) - 1" by (simp add: pop_take_def)
  have r: "?r < 16" "length (rq_items q) = 16" "Suc ?n \<le> 16"
    using wf n by (simp_all add: rq_wf_def)
  have "(a + Suc b) mod 16 = ((a + 1) mod 16 + b) mod 16" for a b :: nat
    by (simp add: mod_add_left_eq)
  moreover have "unat (rq_writeIdx q) = (?r + Suc ?n) mod 16"
    using wf n unfolding rq_wf_def by metis
  ultimately have "unat (rq_writeIdx q) = ((?r + 1) mod 16 + ?n) mod 16" by metis
  then show "rq_wf (snd (pop_take q))"
    using r c by (simp add: rq_wf_def pop_take_def unat_succ_mod)
  have tl: "rq_list (snd (pop_take q)) = tl (rq_list q)"
    using ring_tail [OF r(2,3,1), of None] r c n
    by (simp add: rq_list_def pop_take_def unat_succ_mod)
  have "rq_list q \<noteq> []" using n by (simp flip: length_greater_0_conv)
  moreover have "hd (rq_list q) = fst (pop_take q)"
    using r n by (simp add: rq_list_def ring_def pop_take_def hd_map upt_conv_Cons)
  ultimately show "rq_list q = fst (pop_take q) # rq_list (snd (pop_take q))"
    using tl by (metis list.collapse)
qed

lemma cancel_loop_ok:
  "length (rq_items q) = 16 \<Longrightarrow> unat (rq_readIdx q) < 16 \<Longrightarrow> n \<le> 16 \<Longrightarrow>
   \<exists>q'. cancel_loop n i returned q =
          (take (returned - i) (ring (rq_items q) (unat (rq_readIdx q)) n), q') \<and>
        length (rq_items q') = 16 \<and> unat (rq_readIdx q') = (unat (rq_readIdx q) + n) mod 16 \<and>
        rq_exiting q' = rq_exiting q \<and> rq_initialized q' = rq_initialized q \<and>
        rq_telemetry q' = rq_telemetry q"
proof (induction n arbitrary: i q)
  case 0
  then show ?case by (simp add: ring_def)
next
  case (Suc n)
  let ?r = "unat (rq_readIdx q)"
  let ?q = "q\<lparr>rq_items := (rq_items q)[?r := None], rq_readIdx := (rq_readIdx q + 1) mod 16\<rparr>"
  have r: "unat (rq_readIdx ?q) = (?r + 1) mod 16"
    using Suc.prems(2) by (simp add: unat_succ_mod)
  have t: "ring (rq_items q) ?r (Suc n) = rq_items q ! ?r # ring (rq_items ?q) ((?r + 1) mod 16) n"
    using ring_tail [of "rq_items q" n ?r None] Suc.prems
    by (simp add: ring_def upt_conv_Cons del: upt_Suc)
  have "length (rq_items ?q) = 16" "unat (rq_readIdx ?q) < 16" "n \<le> 16"
    using Suc.prems r by simp_all
  from Suc.IH [OF this, of "Suc i"] obtain q' where
    q': "cancel_loop n (Suc i) returned ?q =
      (take (returned - Suc i) (ring (rq_items ?q) ((?r + 1) mod 16) n), q')"
      "length (rq_items q') = 16" "unat (rq_readIdx q') = ((?r + 1) mod 16 + n) mod 16"
      "rq_exiting q' = rq_exiting q" "rq_initialized q' = rq_initialized q"
      "rq_telemetry q' = rq_telemetry q"
    unfolding r by auto
  have "cancel_loop (Suc n) i returned q = (take (returned - i) (ring (rq_items q) ?r (Suc n)), q')"
  proof (cases "i < returned")
    case True
    then have "returned - i = Suc (returned - Suc i)" by simp
    with True q'(1) show ?thesis unfolding t by (simp add: Let_def)
  next
    case False
    with q'(1) show ?thesis unfolding t by (simp add: Let_def)
  qed
  moreover have "((?r + 1) mod 16 + n) mod 16 = (?r + Suc n) mod 16" by (simp add: mod_add_left_eq)
  ultimately show ?case using q'(2-) by simp
qed

lemma cancel_ok:
  assumes wf: "rq_wf q" and init: "rq_initialized q"
  shows "\<exists>q'. resolveQueueCancel q capacity =
      (of_nat (min (unat (rq_count q)) (unat capacity)), take (unat capacity) (rq_list q), q') \<and>
    rq_wf q' \<and> rq_list q' = [] \<and> rq_exiting q' \<and> rq_initialized q'"
proof -
  let ?n = "unat (rq_count q)"
  let ?ret = "if rq_count q < capacity then rq_count q else capacity"
  have ret: "unat ?ret = min ?n (unat capacity)" by (auto simp: word_less_nat_alt)
  have wf': "length (rq_items q) = 16" "unat (rq_readIdx q) < 16" "?n \<le> 16"
    using wf by (simp_all add: rq_wf_def)
  from cancel_loop_ok [of "q\<lparr>rq_exiting := True\<rparr>" ?n 0 "unat ?ret"] wf' obtain q1 where
    q1: "cancel_loop ?n 0 (unat ?ret) (q\<lparr>rq_exiting := True\<rparr>) =
        (take (unat ?ret) (rq_list q), q1)" "length (rq_items q1) = 16"
      "unat (rq_readIdx q1) = (unat (rq_readIdx q) + ?n) mod 16" "rq_exiting q1"
      "rq_initialized q1 = rq_initialized q"
    by (auto simp: rq_list_def)
  have "take (unat ?ret) (rq_list q) = take (unat capacity) (rq_list q)"
    unfolding ret by (cases "?n \<le> unat capacity") simp_all
  moreover have "?ret = of_nat (min ?n (unat capacity))" unfolding ret [symmetric] by simp
  moreover have "unat (rq_readIdx q1) < 16" using q1(3) by simp
  ultimately show ?thesis
    using q1 init by (auto simp: resolveQueueCancel_def Let_def rq_wf_def rq_list_def ring_def)
qed

section \<open>The contract of one attempt\<close>

text \<open>
  A bounded queue that can be closed. The environment \<open>'e\<close> of a \<open>put\<close> carries the clock
  readings and the local variables of the call.
\<close>

locale bounded_fifo =
  fixes wf :: "'s \<Rightarrow> bool" and items :: "'s \<Rightarrow> 'a list" and cap :: nat and closed :: "'s \<Rightarrow> bool"
    and put :: "'e \<Rightarrow> 'a \<Rightarrow> 's \<Rightarrow> bool attempt \<times> 's" and get :: "'s \<Rightarrow> 'a option attempt \<times> 's"
  assumes put_wait: "wf s \<Longrightarrow> put e x s = (Wait, t) \<Longrightarrow>
        length (items s) = cap \<and> \<not> closed s \<and> wf t \<and> items t = items s \<and> \<not> closed t"
    and put_ok: "wf s \<Longrightarrow> put e x s = (Return True, t) \<Longrightarrow>
        length (items s) < cap \<and> \<not> closed s \<and> wf t \<and> items t = items s @ [x] \<and> \<not> closed t"
    and put_no: "wf s \<Longrightarrow> put e x s = (Return False, t) \<Longrightarrow>
        closed s \<and> wf t \<and> items t = items s \<and> closed t"
    and get_wait: "wf s \<Longrightarrow> get s = (Wait, t) \<Longrightarrow> items s = [] \<and> \<not> closed s \<and> t = s"
    and get_some: "wf s \<Longrightarrow> get s = (Return (Some x), t) \<Longrightarrow>
        items s = x # items t \<and> wf t \<and> closed t = closed s"
    and get_none: "wf s \<Longrightarrow> get s = (Return None, t) \<Longrightarrow> items s = [] \<and> closed s \<and> t = s"
begin

lemma put_wf: "wf s \<Longrightarrow> wf (snd (put e x s))"
proof -
  assume w: "wf s"
  obtain r t where p: "put e x s = (r, t)" by (cases "put e x s")
  show ?thesis
  proof (cases r)
    case Wait
    with p put_wait [OF w] show ?thesis by auto
  next
    case (Return b)
    with p put_ok [OF w] put_no [OF w] show ?thesis by (cases b) auto
  qed
qed

lemma get_wf: "wf s \<Longrightarrow> wf (snd (get s))"
proof -
  assume w: "wf s"
  obtain r t where p: "get s = (r, t)" by (cases "get s")
  show ?thesis
  proof (cases r)
    case Wait
    with p get_wait [OF w] w show ?thesis by auto
  next
    case (Return b)
    with p get_some [OF w] get_none [OF w] w show ?thesis by (cases b) auto
  qed
qed

text \<open>A closed queue blocks nobody and is drained in order.\<close>

lemma closed_no_wait: "wf s \<Longrightarrow> closed s \<Longrightarrow> fst (put e x s) \<noteq> Wait \<and> fst (get s) \<noteq> Wait"
  using put_wait get_wait by (metis prod.collapse)

lemma closed_drains: "wf s \<Longrightarrow> closed s \<Longrightarrow>
    (case items s of [] \<Rightarrow> get s = (Return None, s)
     | x # xs \<Rightarrow> fst (get s) = Return (Some x) \<and> items (snd (get s)) = xs)"
proof -
  assume w: "wf s" and c: "closed s"
  obtain r t where g: "get s = (r, t)" by (cases "get s")
  have "r \<noteq> Wait" using closed_no_wait [OF w c] g by auto
  then obtain b where r: "r = Return b" by (cases r) auto
  show ?thesis
  proof (cases b)
    case None
    with g r get_none [OF w] show ?thesis by auto
  next
    case (Some x)
    with g r get_some [OF w, of x t] show ?thesis by auto
  qed
qed

text \<open>One put and one get of another thread do not disturb each other's ends.\<close>

lemma put_then_get: "wf s \<Longrightarrow> put e x s = (Return True, t) \<Longrightarrow> get t = (Return (Some y), u) \<Longrightarrow>
    y # items u = items s @ [x]"
  using put_ok [of s e x t] get_some [of t y u] by auto

end

text \<open>The two clock readings, whether a time stamp is wanted, and the call's variables.\<close>

definition rq_put :: "((u64 \<times> u64) option \<times> (u64 \<times> u64) option \<times> bool \<times> push_call) \<Rightarrow> 'p option \<Rightarrow>
    'p ResolveQueue \<Rightarrow> bool attempt \<times> 'p ResolveQueue" where
  "rq_put e item q =
     (case e of (clock, clock2, timed, pc) \<Rightarrow>
        case push_attempt clock clock2 timed q pc item of
          (Wait, q', _) \<Rightarrow> (Wait, q')
        | (Return (r, _), q', _) \<Rightarrow> (Return r, q'))"

lemma push_wait_fields:
  "push_wait clock q pc = (q', pc') \<Longrightarrow> rq_wf q' = rq_wf q \<and> rq_list q' = rq_list q \<and>
     rq_exiting q' = rq_exiting q \<and> rq_count q' = rq_count q \<and> rq_initialized q' = rq_initialized q"
  by (auto simp: push_wait_def rq_wf_def rq_list_def split: option.splits if_splits)

lemma push_record_wait_fields [simp]:
  "rq_wf (push_record_wait clock q pc) = rq_wf q"
  "rq_list (push_record_wait clock q pc) = rq_list q"
  "rq_exiting (push_record_wait clock q pc) = rq_exiting q"
  "rq_count (push_record_wait clock q pc) = rq_count q"
  "rq_initialized (push_record_wait clock q pc) = rq_initialized q"
  by (simp_all add: push_record_wait_def rq_wf_def rq_list_def Let_def split: option.splits)

lemma push_attempt_cases:
  assumes wf: "rq_wf q" and run: "push_attempt clock clock2 timed q pc item = (r, q', pc')"
  shows "case r of
      Wait \<Rightarrow> length (rq_list q) = 16 \<and> \<not> rq_exiting q \<and> rq_wf q' \<and> rq_list q' = rq_list q \<and>
              rq_exiting q' = rq_exiting q \<and> rq_initialized q' = rq_initialized q
    | Return (True, stamp) \<Rightarrow> length (rq_list q) < 16 \<and> \<not> rq_exiting q \<and> rq_wf q' \<and>
              rq_list q' = rq_list q @ [item] \<and> \<not> rq_exiting q' \<and>
              rq_initialized q' = rq_initialized q
    | Return (False, stamp) \<Rightarrow> rq_exiting q \<and> rq_wf q' \<and> rq_list q' = rq_list q \<and> rq_exiting q' \<and>
              rq_initialized q' = rq_initialized q"
proof -
  have full: "(rq_count q = 16) = (unat (rq_count q) = 16)" by (simp add: word_unat_eq_iff)
  have le: "unat (rq_count q) \<le> 16" using wf by (simp add: rq_wf_def)
  show ?thesis
  proof (cases "rq_count q = 16 \<and> \<not> rq_exiting q")
    case True
    obtain q1 pc1 where w: "push_wait clock q pc = (q1, pc1)" by (cases "push_wait clock q pc")
    with run True have "r = Wait" "q' = q1" by (simp_all add: push_attempt_def)
    with push_wait_fields [OF w] True wf full show ?thesis by simp
  next
    case False
    let ?q1 = "push_record_wait clock q pc"
    show ?thesis
    proof (cases "rq_exiting q")
      case True
      with run have "r = Return (False, None)" "q' = ?q1"
        by (auto simp: push_attempt_def Let_def)
      with True wf show ?thesis by simp
    next
      case go: False
      with False have "rq_count q \<noteq> 16" by simp
      then have lt: "unat (rq_count q) < 16" using full le by simp
      from go False run have "r = Return (True, if timed then Some (monotonicNs clock2) else None)"
        "q' = push_store ?q1 item" by (auto simp: push_attempt_def Let_def)
      with go lt wf push_store_ok [of ?q1 item] show ?thesis by simp
    qed
  qed
qed

lemma pop_attempt_cases:
  assumes wf: "rq_wf q" and run: "pop_attempt q = (r, q')"
  shows "case r of
      Wait \<Rightarrow> rq_list q = [] \<and> \<not> rq_exiting q \<and> q' = q
    | Return None \<Rightarrow> rq_list q = [] \<and> rq_exiting q \<and> q' = q
    | Return (Some x) \<Rightarrow> rq_list q = x # rq_list q' \<and> rq_wf q' \<and> rq_exiting q' = rq_exiting q \<and>
        rq_initialized q' = rq_initialized q"
proof (cases "rq_count q = 0")
  case True
  then have "rq_list q = []" by (simp add: rq_list_def ring_def)
  with True run show ?thesis by (auto simp: pop_attempt_def split: if_splits)
next
  case False
  have f: "rq_exiting (snd (pop_take q)) = rq_exiting q"
    "rq_initialized (snd (pop_take q)) = rq_initialized q" by (simp_all add: pop_take_def)
  from False run have "r = Return (Some (fst (pop_take q)))" "q' = snd (pop_take q)"
    by (auto simp: pop_attempt_def split: prod.splits)
  with f pop_take_ok [OF wf False] show ?thesis by simp
qed

interpretation rq: bounded_fifo rq_wf rq_list 16 rq_exiting rq_put pop_attempt
proof unfold_locales
  fix s t :: "'p ResolveQueue" and x
    and e :: "(u64 \<times> u64) option \<times> (u64 \<times> u64) option \<times> bool \<times> push_call"
  obtain c c2 timed pc where e: "e = (c, c2, timed, pc)" by (cases e)
  obtain r q' pc' where run: "push_attempt c c2 timed s pc x = (r, q', pc')"
    by (cases "push_attempt c c2 timed s pc x")
  assume wf: "rq_wf s"
  note C = push_attempt_cases [OF wf run]
  show "rq_put e x s = (Wait, t) \<Longrightarrow>
      length (rq_list s) = 16 \<and> \<not> rq_exiting s \<and> rq_wf t \<and> rq_list t = rq_list s \<and> \<not> rq_exiting t"
    using C run e by (auto simp: rq_put_def split: attempt.splits prod.splits)
  show "rq_put e x s = (Return True, t) \<Longrightarrow>
      length (rq_list s) < 16 \<and> \<not> rq_exiting s \<and> rq_wf t \<and> rq_list t = rq_list s @ [x] \<and> \<not> rq_exiting t"
    using C run e by (auto simp: rq_put_def split: attempt.splits prod.splits)
  show "rq_put e x s = (Return False, t) \<Longrightarrow>
      rq_exiting s \<and> rq_wf t \<and> rq_list t = rq_list s \<and> rq_exiting t"
    using C run e by (auto simp: rq_put_def split: attempt.splits prod.splits)
next
  fix s t :: "'p ResolveQueue" and x
  assume wf: "rq_wf s"
  show "pop_attempt s = (Wait, t) \<Longrightarrow> rq_list s = [] \<and> \<not> rq_exiting s \<and> t = s"
    "pop_attempt s = (Return (Some x), t) \<Longrightarrow>
       rq_list s = x # rq_list t \<and> rq_wf t \<and> rq_exiting t = rq_exiting s"
    "pop_attempt s = (Return None, t) \<Longrightarrow> rq_list s = [] \<and> rq_exiting s \<and> t = s"
    using pop_attempt_cases [OF wf] by fastforce+
qed

section \<open>Threads\<close>

text \<open>
  The queue with the threads that are inside a call: asleep on a condition variable, or
  awake and about to take the mutex again. \<open>sys_accepted\<close>, \<open>sys_popped\<close> and
  \<open>sys_cancelled\<close> record the items of the calls that returned.
\<close>

record 'p queue_system =
  sys_queue :: "'p ResolveQueue"
  sys_prod_sleep :: "('p option \<times> push_call) list"
  sys_prod_awake :: "('p option \<times> push_call) list"
  sys_cons_sleep :: nat
  sys_cons_awake :: nat
  sys_accepted :: "'p option list"
  sys_popped :: "'p option list"
  sys_cancelled :: "'p option list"

definition remove_nth :: "nat \<Rightarrow> 'c list \<Rightarrow> 'c list" where
  "remove_nth i xs = take i xs @ drop (Suc i) xs"

text \<open>\<open>pthread_cond_signal\<close> wakes one sleeper, of the scheduler's choice, if there is one.\<close>

definition signal_notEmpty :: "'p queue_system \<Rightarrow> 'p queue_system" where
  "signal_notEmpty s =
     (if sys_cons_sleep s = 0 then s
      else s\<lparr>sys_cons_sleep := sys_cons_sleep s - 1, sys_cons_awake := sys_cons_awake s + 1\<rparr>)"

definition signal_notFull :: "nat \<Rightarrow> 'p queue_system \<Rightarrow> 'p queue_system" where
  "signal_notFull choice s =
     (if sys_prod_sleep s = [] then s
      else let k = choice mod length (sys_prod_sleep s)
           in s\<lparr>sys_prod_sleep := remove_nth k (sys_prod_sleep s),
                sys_prod_awake := sys_prod_sleep s ! k # sys_prod_awake s\<rparr>)"

definition broadcast :: "'p queue_system \<Rightarrow> 'p queue_system" where
  "broadcast s = s\<lparr>sys_prod_sleep := [], sys_prod_awake := sys_prod_sleep s @ sys_prod_awake s,
     sys_cons_sleep := 0, sys_cons_awake := sys_cons_sleep s + sys_cons_awake s\<rparr>"

definition do_push ::
    "(u64 \<times> u64) option \<Rightarrow> (u64 \<times> u64) option \<Rightarrow> bool \<Rightarrow> 'p option \<Rightarrow> push_call \<Rightarrow>
     'p queue_system \<Rightarrow> 'p queue_system" where
  "do_push clock clock2 timed item pc s =
     (case push_attempt clock clock2 timed (sys_queue s) pc item of
        (Wait, q, pc') \<Rightarrow> s\<lparr>sys_queue := q, sys_prod_sleep := (item, pc') # sys_prod_sleep s\<rparr>
      | (Return (ok, _), q, _) \<Rightarrow>
          if ok then signal_notEmpty (s\<lparr>sys_queue := q, sys_accepted := sys_accepted s @ [item]\<rparr>)
          else s\<lparr>sys_queue := q\<rparr>)"

definition do_pop :: "nat \<Rightarrow> 'p queue_system \<Rightarrow> 'p queue_system" where
  "do_pop choice s =
     (case pop_attempt (sys_queue s) of
        (Wait, q) \<Rightarrow> s\<lparr>sys_queue := q, sys_cons_sleep := sys_cons_sleep s + 1\<rparr>
      | (Return None, q) \<Rightarrow> s\<lparr>sys_queue := q\<rparr>
      | (Return (Some item), q) \<Rightarrow>
          signal_notFull choice (s\<lparr>sys_queue := q, sys_popped := sys_popped s @ [item]\<rparr>))"

definition do_shutdown :: "'p queue_system \<Rightarrow> 'p queue_system" where
  "do_shutdown s =
     (if \<not> rq_initialized (sys_queue s) then s
      else broadcast (s\<lparr>sys_queue := resolveQueueShutdown (sys_queue s)\<rparr>))"

definition do_cancel :: "usize \<Rightarrow> 'p queue_system \<Rightarrow> 'p queue_system" where
  "do_cancel capacity s =
     (if \<not> rq_initialized (sys_queue s) then s
      else case resolveQueueCancel (sys_queue s) capacity of
        (_, cancelled, q) \<Rightarrow>
          broadcast (s\<lparr>sys_queue := q, sys_cancelled := sys_cancelled s @ cancelled\<rparr>))"

text \<open>Any interleaving. The callers pass an array of at least 16 entries to the cancellation.\<close>

inductive queue_step :: "'p queue_system \<Rightarrow> 'p queue_system \<Rightarrow> bool" where
  push: "queue_step s (do_push clock clock2 timed item push_call_start s)"
| push_again: "i < length (sys_prod_awake s) \<Longrightarrow> sys_prod_awake s ! i = (item, pc) \<Longrightarrow>
    queue_step s (do_push clock clock2 timed item pc
                    (s\<lparr>sys_prod_awake := remove_nth i (sys_prod_awake s)\<rparr>))"
| pop: "queue_step s (do_pop choice s)"
| pop_again: "0 < sys_cons_awake s \<Longrightarrow>
    queue_step s (do_pop choice (s\<lparr>sys_cons_awake := sys_cons_awake s - 1\<rparr>))"
| spurious_notFull: "queue_step s (signal_notFull choice s)"
| spurious_notEmpty: "queue_step s (signal_notEmpty s)"
| shutdown: "queue_step s (do_shutdown s)"
| cancel: "16 \<le> unat capacity \<Longrightarrow> queue_step s (do_cancel capacity s)"

inductive queue_reach :: "'p queue_system \<Rightarrow> bool" where
  start: "queue_reach \<lparr>sys_queue = resolveQueueSetTelemetry
      (snd (resolveQueueInit True True True)) tel, sys_prod_sleep = [], sys_prod_awake = [],
      sys_cons_sleep = 0, sys_cons_awake = 0, sys_accepted = [], sys_popped = [],
      sys_cancelled = []\<rparr>"
| step: "queue_reach s \<Longrightarrow> queue_step s s' \<Longrightarrow> queue_reach s'"

definition sys_ok :: "'p queue_system \<Rightarrow> bool" where
  "sys_ok s \<longleftrightarrow> rq_wf (sys_queue s) \<and> rq_initialized (sys_queue s) \<and>
     sys_accepted s = sys_popped s @ sys_cancelled s @ rq_list (sys_queue s) \<and>
     (sys_cancelled s \<noteq> [] \<longrightarrow> rq_list (sys_queue s) = [] \<and> rq_exiting (sys_queue s)) \<and>
     (0 < sys_cons_sleep s \<longrightarrow> \<not> rq_exiting (sys_queue s) \<and>
        length (rq_list (sys_queue s)) \<le> sys_cons_awake s) \<and>
     (sys_prod_sleep s \<noteq> [] \<longrightarrow> \<not> rq_exiting (sys_queue s) \<and>
        16 - length (rq_list (sys_queue s)) \<le> length (sys_prod_awake s))"

lemma sys_okI:
  assumes "rq_wf (sys_queue s)" "rq_initialized (sys_queue s)"
    "sys_accepted s = sys_popped s @ sys_cancelled s @ rq_list (sys_queue s)"
    "sys_cancelled s \<noteq> [] \<Longrightarrow> rq_list (sys_queue s) = [] \<and> rq_exiting (sys_queue s)"
    "0 < sys_cons_sleep s \<Longrightarrow> \<not> rq_exiting (sys_queue s) \<and>
       length (rq_list (sys_queue s)) \<le> sys_cons_awake s"
    "sys_prod_sleep s \<noteq> [] \<Longrightarrow> \<not> rq_exiting (sys_queue s) \<and>
       16 - length (rq_list (sys_queue s)) \<le> length (sys_prod_awake s)"
  shows "sys_ok s"
  using assms by (simp add: sys_ok_def)

lemma length_remove_nth [simp]: "i < length xs \<Longrightarrow> length (remove_nth i xs) = length xs - 1"
  by (simp add: remove_nth_def)

text \<open>
  One attempt keeps \<open>sys_ok\<close> also when the thread that makes it has just left the awake
  list, so the bounds there may be short by one (\<open>extra\<close>).
\<close>

definition sys_ok_but :: "nat \<Rightarrow> nat \<Rightarrow> 'p queue_system \<Rightarrow> bool" where
  "sys_ok_but p c s \<longleftrightarrow> rq_wf (sys_queue s) \<and> rq_initialized (sys_queue s) \<and>
     sys_accepted s = sys_popped s @ sys_cancelled s @ rq_list (sys_queue s) \<and>
     (sys_cancelled s \<noteq> [] \<longrightarrow> rq_list (sys_queue s) = [] \<and> rq_exiting (sys_queue s)) \<and>
     (0 < sys_cons_sleep s \<longrightarrow> \<not> rq_exiting (sys_queue s) \<and>
        length (rq_list (sys_queue s)) \<le> sys_cons_awake s + c) \<and>
     (sys_prod_sleep s \<noteq> [] \<longrightarrow> \<not> rq_exiting (sys_queue s) \<and>
        16 - length (rq_list (sys_queue s)) \<le> length (sys_prod_awake s) + p)"

lemma sys_ok_but_0: "sys_ok_but 0 0 s = sys_ok s"
  by (simp add: sys_ok_but_def sys_ok_def)

lemma sys_ok_weaken: "sys_ok s \<Longrightarrow> sys_ok_but p c s"
  by (auto simp: sys_ok_but_def sys_ok_def)

lemma signal_notEmpty_ok:
  "sys_ok_but 0 1 s \<Longrightarrow> sys_ok (signal_notEmpty s)"
  unfolding sys_ok_but_def signal_notEmpty_def by (auto intro!: sys_okI)

lemma signal_notFull_ok:
  assumes "sys_ok_but 1 0 s" shows "sys_ok (signal_notFull k s)"
proof (cases "sys_prod_sleep s = []")
  case True
  with assms show ?thesis by (simp add: signal_notFull_def sys_ok_but_def sys_ok_def)
next
  case False
  with assms show ?thesis
    unfolding sys_ok_but_def signal_notFull_def Let_def by (auto intro!: sys_okI)
qed

lemma do_push_ok:
  assumes ok: "sys_ok_but 1 0 s"
  shows "sys_ok (do_push clock clock2 timed item pc s)"
proof -
  obtain r q' pc' where run: "push_attempt clock clock2 timed (sys_queue s) pc item = (r, q', pc')"
    by (cases "push_attempt clock clock2 timed (sys_queue s) pc item")
  have wf: "rq_wf (sys_queue s)" using ok by (simp add: sys_ok_but_def)
  note C = push_attempt_cases [OF wf run]
  show ?thesis
  proof (cases r)
    case Wait
    with run C ok show ?thesis
      by (intro sys_okI) (auto simp: do_push_def sys_ok_but_def)
  next
    case (Return rs)
    obtain b stamp where rs: "rs = (b, stamp)" by (cases rs)
    show ?thesis
    proof (cases b)
      case True
      have d: "do_push clock clock2 timed item pc s =
          signal_notEmpty (s\<lparr>sys_queue := q', sys_accepted := sys_accepted s @ [item]\<rparr>)"
        using run Return rs True by (simp add: do_push_def)
      have q: "length (rq_list (sys_queue s)) < 16" "\<not> rq_exiting (sys_queue s)" "rq_wf q'"
        "rq_list q' = rq_list (sys_queue s) @ [item]" "\<not> rq_exiting q'" "rq_initialized q'"
        using C Return rs True ok by (simp_all add: sys_ok_but_def)
      have "sys_ok_but 0 1 (s\<lparr>sys_queue := q', sys_accepted := sys_accepted s @ [item]\<rparr>)"
        using ok q unfolding sys_ok_but_def by auto
      then show ?thesis unfolding d by (rule signal_notEmpty_ok)
    next
      case False
      with run C Return rs ok show ?thesis
        by (intro sys_okI) (auto simp: do_push_def sys_ok_but_def)
    qed
  qed
qed

lemma do_pop_ok:
  assumes ok: "sys_ok_but 0 1 s"
  shows "sys_ok (do_pop choice s)"
proof -
  obtain r q' where run: "pop_attempt (sys_queue s) = (r, q')" by (cases "pop_attempt (sys_queue s)")
  have wf: "rq_wf (sys_queue s)" using ok by (simp add: sys_ok_but_def)
  note C = pop_attempt_cases [OF wf run]
  show ?thesis
  proof (cases r)
    case Wait
    with run C ok show ?thesis
      by (intro sys_okI) (auto simp: do_pop_def sys_ok_but_def)
  next
    case (Return b)
    show ?thesis
    proof (cases b)
      case None
      with run C Return ok show ?thesis
        by (intro sys_okI) (auto simp: do_pop_def sys_ok_but_def)
    next
      case (Some x)
      have d: "do_pop choice s =
          signal_notFull choice (s\<lparr>sys_queue := q', sys_popped := sys_popped s @ [x]\<rparr>)"
        using run Return Some by (simp add: do_pop_def)
      have q: "rq_list (sys_queue s) = x # rq_list q'" "rq_wf q'"
        "rq_exiting q' = rq_exiting (sys_queue s)" "rq_initialized q'"
        using C Return Some ok by (simp_all add: sys_ok_but_def)
      have "sys_ok_but 1 0 (s\<lparr>sys_queue := q', sys_popped := sys_popped s @ [x]\<rparr>)"
        using ok q unfolding sys_ok_but_def by auto
      then show ?thesis unfolding d by (rule signal_notFull_ok)
    qed
  qed
qed

lemma do_shutdown_ok: "sys_ok s \<Longrightarrow> sys_ok (do_shutdown s)"
  by (intro sys_okI) (auto simp: sys_ok_def do_shutdown_def broadcast_def resolveQueueShutdown_def
      rq_wf_def rq_list_def)

lemma do_cancel_ok:
  assumes ok: "sys_ok s" and cap: "16 \<le> unat capacity"
  shows "sys_ok (do_cancel capacity s)"
proof -
  let ?q = "sys_queue s"
  have q: "rq_wf ?q" "rq_initialized ?q" using ok by (simp_all add: sys_ok_def)
  obtain q' where c: "resolveQueueCancel ?q capacity =
      (of_nat (min (unat (rq_count ?q)) (unat capacity)), take (unat capacity) (rq_list ?q), q')"
    "rq_wf q'" "rq_list q' = []" "rq_exiting q'" "rq_initialized q'"
    using cancel_ok [OF q, of capacity] by blast
  have "unat (rq_count ?q) \<le> 16" using q(1) by (simp add: rq_wf_def)
  then have "take (unat capacity) (rq_list ?q) = rq_list ?q" using cap by simp
  then show ?thesis
    using ok c q by (intro sys_okI) (auto simp: do_cancel_def broadcast_def sys_ok_def)
qed

lemma queue_step_ok: "queue_step s s' \<Longrightarrow> sys_ok s \<Longrightarrow> sys_ok s'"
proof (induction rule: queue_step.induct)
  case (push s clock clock2 timed item)
  then show ?case by (intro do_push_ok sys_ok_weaken)
next
  case (push_again i s item pc clock clock2 timed)
  then have "sys_ok_but 1 0 (s\<lparr>sys_prod_awake := remove_nth i (sys_prod_awake s)\<rparr>)"
    by (auto simp: sys_ok_but_def sys_ok_def)
  then show ?case by (rule do_push_ok)
next
  case (pop s choice)
  then show ?case by (intro do_pop_ok sys_ok_weaken)
next
  case (pop_again s choice)
  then have "sys_ok_but 0 1 (s\<lparr>sys_cons_awake := sys_cons_awake s - 1\<rparr>)"
    by (auto simp: sys_ok_but_def sys_ok_def)
  then show ?case by (rule do_pop_ok)
next
  case (spurious_notFull s choice)
  then show ?case by (intro signal_notFull_ok sys_ok_weaken)
next
  case (spurious_notEmpty s)
  then show ?case by (intro signal_notEmpty_ok sys_ok_weaken)
qed (auto intro: do_shutdown_ok do_cancel_ok)

lemma queue_reach_ok: "queue_reach s \<Longrightarrow> sys_ok s"
proof (induction rule: queue_reach.induct)
  case (start tel)
  show ?case
    by (rule sys_okI) (simp_all add: resolveQueueInit_def resolveQueueSetTelemetry_def Let_def
        rq_wf_def rq_list_def ring_def)
qed (rule queue_step_ok)

section \<open>Properties\<close>

text \<open>C13. The resolve queue delivers every accepted job exactly once and in order: in every state
  any number of threads can reach, the accepted items are the popped ones, then the cancelled
  ones, then those still in the ring, which holds at most 16; after a cancellation the ring
  stays empty.\<close>

theorem queue_exactly_once:
  assumes "queue_reach s"
  shows "sys_accepted s = sys_popped s @ sys_cancelled s @ rq_list (sys_queue s) \<and>
    length (rq_list (sys_queue s)) \<le> 16 \<and>
    (sys_cancelled s \<noteq> [] \<longrightarrow> rq_list (sys_queue s) = [])"
  using queue_reach_ok [OF assms] by (auto simp: sys_ok_def rq_wf_def)

definition queue_start :: "nat queue_system" where
  "queue_start = \<lparr>sys_queue = resolveQueueSetTelemetry (snd (resolveQueueInit True True True))
      no_telemetry, sys_prod_sleep = [], sys_prod_awake = [], sys_cons_sleep = 0,
      sys_cons_awake = 0, sys_accepted = [], sys_popped = [], sys_cancelled = []\<rparr>"

lemma queue_start_reach: "queue_reach queue_start"
  unfolding queue_start_def by (rule queue_reach.start)

text \<open>Two jobs are pushed and one is popped.\<close>

definition queue_sample :: "nat queue_system" where
  "queue_sample = do_pop 0 (do_push None None False (Some 8) push_call_start
     (do_push None None False (Some 7) push_call_start queue_start))"

lemma queue_sample_reach: "queue_reach queue_sample"
  unfolding queue_sample_def
  by (rule queue_reach.step [OF queue_reach.step [OF queue_reach.step
        [OF queue_start_reach queue_step.push] queue_step.push] queue_step.pop])

lemma replicate_16: "replicate 16 x = [x, x, x, x, x, x, x, x, x, x, x, x, x, x, x, x]"
  by (simp add: numeral_eq_Suc)

lemmas queue_run_simps = replicate_16 queue_start_def do_push_def do_pop_def push_attempt_def pop_attempt_def
  push_record_wait_def push_store_def pop_take_def resolveQueueInit_def resolveQueueSetTelemetry_def
  no_telemetry_def push_call_start_def signal_notEmpty_def signal_notFull_def Let_def

lemma queue_exactly_once_witness:
  "[Some 7, Some 8] = sys_popped queue_sample @ rq_list (sys_queue queue_sample) \<and>
   sys_popped queue_sample = [Some 7]"
proof -
  have e: "sys_accepted queue_sample = [Some 7, Some 8]" "sys_popped queue_sample = [Some 7]"
    "sys_cancelled queue_sample = []"
    by (simp_all add: queue_sample_def queue_run_simps)
  then show ?thesis using queue_exactly_once [OF queue_sample_reach] by simp
qed

text \<open>C21. No wake-up is lost: when a consumer sleeps and none is on its way, the ring is empty and
  the queue is open; when a producer sleeps and none is on its way, the ring is full and the
  queue is open. So threads never all sleep while there is something to do for one of them,
  and after a shutdown or a cancellation no thread sleeps at all.\<close>

theorem queue_no_lost_wakeup:
  assumes "queue_reach s"
  shows "(0 < sys_cons_sleep s \<and> sys_cons_awake s = 0 \<longrightarrow>
      rq_list (sys_queue s) = [] \<and> \<not> rq_exiting (sys_queue s)) \<and>
    (sys_prod_sleep s \<noteq> [] \<and> sys_prod_awake s = [] \<longrightarrow>
      length (rq_list (sys_queue s)) = 16 \<and> \<not> rq_exiting (sys_queue s)) \<and>
    (rq_exiting (sys_queue s) \<longrightarrow> sys_cons_sleep s = 0 \<and> sys_prod_sleep s = [])"
proof -
  have "length (rq_list (sys_queue s)) \<le> 16"
    using queue_reach_ok [OF assms] by (simp add: sys_ok_def rq_wf_def)
  moreover have "0 < sys_cons_sleep s \<Longrightarrow> \<not> rq_exiting (sys_queue s) \<and>
      length (rq_list (sys_queue s)) \<le> sys_cons_awake s"
    "sys_prod_sleep s \<noteq> [] \<Longrightarrow> \<not> rq_exiting (sys_queue s) \<and>
      16 - length (rq_list (sys_queue s)) \<le> length (sys_prod_awake s)"
    using queue_reach_ok [OF assms] unfolding sys_ok_def by blast+
  ultimately show ?thesis by (auto simp del: rq_list_length)
qed

definition queue_waiting :: "nat queue_system" where
  "queue_waiting = do_pop 0 queue_start"

lemma queue_no_lost_wakeup_witness:
  "rq_list (sys_queue queue_waiting) = [] \<and> 0 < sys_cons_sleep queue_waiting"
proof -
  have r: "queue_reach queue_waiting"
    unfolding queue_waiting_def by (rule queue_reach.step [OF queue_start_reach queue_step.pop])
  have e: "sys_cons_sleep queue_waiting = 1" "sys_cons_awake queue_waiting = 0"
    by (simp_all add: queue_waiting_def queue_run_simps)
  show ?thesis using queue_no_lost_wakeup [OF r, THEN conjunct1] unfolding e by simp
qed

text \<open>Shutdown lets the worker drain the ring: from a closed queue the pops return the stored
  items in order and then \<open>false\<close>, and no push or pop waits any more.\<close>

theorem queue_shutdown_drains:
  assumes "rq_wf q" "rq_initialized q"
  shows "(case rq_list (resolveQueueShutdown q) of
        [] \<Rightarrow> pop_attempt (resolveQueueShutdown q) = (Return None, resolveQueueShutdown q)
      | x # xs \<Rightarrow> fst (pop_attempt (resolveQueueShutdown q)) = Return (Some x) \<and>
          rq_list (snd (pop_attempt (resolveQueueShutdown q))) = xs) \<and>
    rq_list (resolveQueueShutdown q) = rq_list q \<and>
    fst (rq_put e x (resolveQueueShutdown q)) = Return False"
proof -
  let ?q = "resolveQueueShutdown q"
  have q: "rq_wf ?q" "rq_exiting ?q" "rq_list ?q = rq_list q"
    using assms by (simp_all add: resolveQueueShutdown_def rq_wf_def rq_list_def)
  obtain r t where p: "rq_put e x ?q = (r, t)" by (cases "rq_put e x ?q")
  have "r \<noteq> Wait" "r \<noteq> Return True"
    using rq.put_wait [OF q(1), of e x t] rq.put_ok [OF q(1), of e x t] p q(2) by auto
  then have "r = Return False" by (cases r) auto
  with p rq.closed_drains [OF q(1,2)] q(3) show ?thesis by simp
qed

lemma queue_shutdown_drains_witness:
  "fst (pop_attempt (resolveQueueShutdown (sys_queue queue_sample))) = Return (Some (Some 8))"
proof -
  have q: "rq_wf (sys_queue queue_sample)" "rq_initialized (sys_queue queue_sample)"
    using queue_reach_ok [OF queue_sample_reach] by (simp_all add: sys_ok_def)
  have "rq_list (resolveQueueShutdown (sys_queue queue_sample)) = [Some 8]"
    by (simp add: queue_sample_def queue_run_simps resolveQueueShutdown_def rq_list_def ring_def)
  with queue_shutdown_drains [OF q, of "(None, None, False, push_call_start)" None]
  show ?thesis by simp
qed

end
