(* ===== verification/Color.thy ===== *)
theory Color
  imports Prelude
begin

text \<open>
  Colour metadata of surfaces and the choice of a colour matrix (\<open>src/vabackend.c\<close>). A surface and a backing image each carry a colour standard and a
  range flag; a borrowing image reads and writes the metadata of the image it borrows
  from. A pointer that may be \<open>NULL\<close> is an option.
\<close>

datatype VAProcColorStandardType =
    VAProcColorStandardNone | VAProcColorStandardBT601 | VAProcColorStandardBT709
  | VAProcColorStandardBT470M | VAProcColorStandardBT470BG | VAProcColorStandardSMPTE170M
  | VAProcColorStandardSMPTE240M | VAProcColorStandardGenericFilm | VAProcColorStandardSRGB
  | VAProcColorStandardSTRGB | VAProcColorStandardXVYCC601 | VAProcColorStandardXVYCC709
  | VAProcColorStandardBT2020 | VAProcColorStandardExplicit | VAProcColorStandardOther nat

datatype NVFormat =
    NV_FORMAT_NONE | NV_FORMAT_NV12 | NV_FORMAT_P010 | NV_FORMAT_P012 | NV_FORMAT_P016
  | NV_FORMAT_444P | NV_FORMAT_Q416 | NV_FORMAT_ARGB

record color_meta =
  cm_colorStandard :: VAProcColorStandardType
  cm_colorRangeFull :: bool

record ColorMatrix =
  vToR :: int
  uToG :: int
  vToG :: int
  uToB :: int

record VideoProcSampleInfo =
  sampleShift :: nat
  yScale :: int
  yOffset :: int
  uvOffset :: int
  rounding :: int
  valueShift :: nat

definition kLimitedRangeColorMatrices :: "ColorMatrix list" where
  "kLimitedRangeColorMatrices =
     [\<lparr>vToR = 409, uToG = 100, vToG = 208, uToB = 516\<rparr>,
      \<lparr>vToR = 459, uToG = 55, vToG = 136, uToB = 541\<rparr>,
      \<lparr>vToR = 430, uToG = 48, vToG = 167, uToB = 548\<rparr>]"

definition kFullRangeColorMatrices :: "ColorMatrix list" where
  "kFullRangeColorMatrices =
     [\<lparr>vToR = 359, uToG = 88, vToG = 183, uToB = 454\<rparr>,
      \<lparr>vToR = 403, uToG = 48, vToG = 120, uToB = 475\<rparr>,
      \<lparr>vToR = 377, uToG = 42, vToG = 146, uToB = 482\<rparr>]"

definition nvColorStandardFromMatrixCoefficients :: "u8 \<Rightarrow> VAProcColorStandardType" where
  "nvColorStandardFromMatrixCoefficients matrixCoefficients =
     (if matrixCoefficients = 1 then VAProcColorStandardBT709
      else if matrixCoefficients = 4 then VAProcColorStandardBT470M
      else if matrixCoefficients = 5 then VAProcColorStandardBT470BG
      else if matrixCoefficients = 6 then VAProcColorStandardSMPTE170M
      else if matrixCoefficients = 7 then VAProcColorStandardSMPTE240M
      else if matrixCoefficients = 9 then VAProcColorStandardBT2020
      else VAProcColorStandardNone)"

definition nvSurfaceResetColorMetadata :: "color_meta option \<Rightarrow> color_meta option" where
  "nvSurfaceResetColorMetadata surface =
     (case surface of
        None \<Rightarrow> None
      | Some m \<Rightarrow> Some (m\<lparr>cm_colorStandard := VAProcColorStandardNone, cm_colorRangeFull := False\<rparr>))"

definition nvSurfaceSetColorMetadata ::
    "color_meta option \<Rightarrow> VAProcColorStandardType \<Rightarrow> bool \<Rightarrow> color_meta option" where
  "nvSurfaceSetColorMetadata surface colorStandard colorRangeFull =
     (case surface of
        None \<Rightarrow> None
      | Some m \<Rightarrow> Some (m\<lparr>cm_colorStandard := colorStandard, cm_colorRangeFull := colorRangeFull\<rparr>))"

definition nvSurfaceCopyColorMetadata ::
    "color_meta option \<Rightarrow> color_meta option \<Rightarrow> color_meta option" where
  "nvSurfaceCopyColorMetadata dst src =
     (case (dst, src) of
        (Some d, Some s) \<Rightarrow>
          Some (d\<lparr>cm_colorStandard := cm_colorStandard s, cm_colorRangeFull := cm_colorRangeFull s\<rparr>)
      | _ \<Rightarrow> dst)"

text \<open>An image for the metadata functions: its own metadata and the image it borrows from.\<close>

record color_image =
  ci_own :: color_meta
  ci_borrowed :: "color_meta option"

definition constMetadataBackingImage :: "color_image option \<Rightarrow> color_meta option" where
  "constMetadataBackingImage img =
     (case img of
        None \<Rightarrow> None
      | Some i \<Rightarrow> (case ci_borrowed i of Some b \<Rightarrow> Some b | None \<Rightarrow> Some (ci_own i)))"

definition nvSurfaceCopyColorMetadataFromBackingImage ::
    "color_meta option \<Rightarrow> color_image option \<Rightarrow> color_meta option" where
  "nvSurfaceCopyColorMetadataFromBackingImage surface img =
     (case (surface, constMetadataBackingImage img) of
        (Some s, Some m) \<Rightarrow>
          Some (s\<lparr>cm_colorStandard := cm_colorStandard m, cm_colorRangeFull := cm_colorRangeFull m\<rparr>)
      | _ \<Rightarrow> surface)"

definition nvBackingImageStoreSurfaceColorMetadata ::
    "color_image option \<Rightarrow> color_meta option \<Rightarrow> color_image option" where
  "nvBackingImageStoreSurfaceColorMetadata img surface =
     (case (img, surface) of
        (Some i, Some s) \<Rightarrow>
          Some (case ci_borrowed i of
                  Some b \<Rightarrow> i\<lparr>ci_borrowed := Some (b\<lparr>cm_colorStandard := cm_colorStandard s,
                                                  cm_colorRangeFull := cm_colorRangeFull s\<rparr>)\<rparr>
                | None \<Rightarrow> i\<lparr>ci_own := (ci_own i)\<lparr>cm_colorStandard := cm_colorStandard s,
                                                cm_colorRangeFull := cm_colorRangeFull s\<rparr>\<rparr>)
      | _ \<Rightarrow> img)"

text \<open>The destination is written directly, also when it borrows.\<close>

definition nvBackingImageCopyColorMetadata ::
    "color_image option \<Rightarrow> color_image option \<Rightarrow> color_image option" where
  "nvBackingImageCopyColorMetadata dst src =
     (case (dst, constMetadataBackingImage src) of
        (Some d, Some m) \<Rightarrow>
          Some (d\<lparr>ci_own := (ci_own d)\<lparr>cm_colorStandard := cm_colorStandard m,
                                        cm_colorRangeFull := cm_colorRangeFull m\<rparr>\<rparr>)
      | _ \<Rightarrow> dst)"

definition matrix_index :: "VAProcColorStandardType \<Rightarrow> u32 \<Rightarrow> nat" where
  "matrix_index colorStandard width =
     (case colorStandard of
        VAProcColorStandardBT601 \<Rightarrow> 0
      | VAProcColorStandardSMPTE170M \<Rightarrow> 0
      | VAProcColorStandardBT470M \<Rightarrow> 0
      | VAProcColorStandardBT470BG \<Rightarrow> 0
      | VAProcColorStandardBT709 \<Rightarrow> 1
      | VAProcColorStandardSMPTE240M \<Rightarrow> 1
      | VAProcColorStandardBT2020 \<Rightarrow> 2
      | _ \<Rightarrow> if width \<ge> 1280 then 1 else 0)"

definition colorMatrixForStandard :: "VAProcColorStandardType \<Rightarrow> u32 \<Rightarrow> bool \<Rightarrow> ColorMatrix" where
  "colorMatrixForStandard colorStandard width fullRange =
     (let matrices = (if fullRange then kFullRangeColorMatrices else kLimitedRangeColorMatrices)
      in matrices ! matrix_index colorStandard width)"

datatype source_range = VA_SOURCE_RANGE_UNKNOWN | VA_SOURCE_RANGE_REDUCED | VA_SOURCE_RANGE_FULL

record VAProcPipelineColor =
  pl_surface_color_standard :: VAProcColorStandardType
  pl_matrix_coefficients :: u8
  pl_color_range :: source_range

definition effectiveSurfaceColorStandard ::
    "color_meta option \<Rightarrow> VAProcPipelineColor \<Rightarrow> VAProcColorStandardType" where
  "effectiveSurfaceColorStandard src pipeline =
     (if pl_surface_color_standard pipeline = VAProcColorStandardExplicit
      then nvColorStandardFromMatrixCoefficients (pl_matrix_coefficients pipeline)
      else if pl_surface_color_standard pipeline \<noteq> VAProcColorStandardNone
      then pl_surface_color_standard pipeline
      else case src of
             Some s \<Rightarrow> if cm_colorStandard s \<noteq> VAProcColorStandardNone then cm_colorStandard s
                       else VAProcColorStandardNone
           | None \<Rightarrow> VAProcColorStandardNone)"

definition effectiveSurfaceColorRangeFull :: "color_meta option \<Rightarrow> VAProcPipelineColor \<Rightarrow> bool" where
  "effectiveSurfaceColorRangeFull src pipeline =
     (if pl_color_range pipeline = VA_SOURCE_RANGE_FULL then True
      else if pl_color_range pipeline = VA_SOURCE_RANGE_REDUCED then False
      else case src of Some s \<Rightarrow> cm_colorRangeFull s | None \<Rightarrow> False)"

definition videoProcSampleInfoForFormat :: "NVFormat \<Rightarrow> bool \<Rightarrow> VideoProcSampleInfo" where
  "videoProcSampleInfoForFormat format fullRange =
     (let ys = (if fullRange then 256 else 298)
      in case format of
           NV_FORMAT_P010 \<Rightarrow> \<lparr>sampleShift = 6, yScale = ys, yOffset = (if fullRange then 0 else 64),
             uvOffset = 512, rounding = 512, valueShift = 10\<rparr>
         | NV_FORMAT_P012 \<Rightarrow> \<lparr>sampleShift = 4, yScale = ys, yOffset = (if fullRange then 0 else 256),
             uvOffset = 2048, rounding = 2048, valueShift = 12\<rparr>
         | _ \<Rightarrow> \<lparr>sampleShift = 0, yScale = ys, yOffset = (if fullRange then 0 else 16),
             uvOffset = 128, rounding = 128, valueShift = 8\<rparr>)"

end
