(* ===== verification/Formats.thy ===== *)
theory Formats
  imports Color
begin

text \<open>
  Pixel formats, plane geometry and backing images (\<open>src/common.h\<close>,
  \<open>src/backend-common.c\<close>, and the import part of \<open>src/vabackend.c\<close>).

  \<open>BackingImage\<close> has the fields that these functions read or write. Four-entry C arrays are
  lists; a pointer or handle that is only compared with \<open>NULL\<close> or zero is a word.
  \<open>fstat\<close> is a parameter that gives device and inode of a descriptor.
\<close>

section \<open>Plane geometry\<close>

definition nvPlaneExtent :: "u32 \<Rightarrow> u32 \<Rightarrow> u32" where
  "nvPlaneExtent v subsamplingShift =
     (if subsamplingShift = 0 then v
      else if subsamplingShift \<ge> 32 then (if v \<noteq> 0 then 1 else 0)
      else
        let m = push_bit (unat subsamplingShift) 1 - 1
        in drop_bit (unat subsamplingShift) v + (if v AND m \<noteq> 0 then 1 else 0))"

definition nvPlaneCoordinate :: "u32 \<Rightarrow> u32 \<Rightarrow> u32" where
  "nvPlaneCoordinate v subsamplingShift =
     (if subsamplingShift < 32 then drop_bit (unat subsamplingShift) v else 0)"

section \<open>The format table\<close>

abbreviation VA_FOURCC_NV12 :: u32 where "VA_FOURCC_NV12 \<equiv> 0x3231564E"
abbreviation VA_FOURCC_P010 :: u32 where "VA_FOURCC_P010 \<equiv> 0x30313050"
abbreviation VA_FOURCC_P012 :: u32 where "VA_FOURCC_P012 \<equiv> 0x32313050"
abbreviation VA_FOURCC_P016 :: u32 where "VA_FOURCC_P016 \<equiv> 0x36313050"
abbreviation VA_FOURCC_444P :: u32 where "VA_FOURCC_444P \<equiv> 0x50343434"
abbreviation VA_FOURCC_Q416 :: u32 where "VA_FOURCC_Q416 \<equiv> 0x36313451"
abbreviation VA_FOURCC_ARGB :: u32 where "VA_FOURCC_ARGB \<equiv> 0x42475241"
abbreviation VA_FOURCC_XRGB :: u32 where "VA_FOURCC_XRGB \<equiv> 0x42475258"
abbreviation VA_FOURCC_ABGR :: u32 where "VA_FOURCC_ABGR \<equiv> 0x52474241"
abbreviation VA_FOURCC_XBGR :: u32 where "VA_FOURCC_XBGR \<equiv> 0x52474258"
abbreviation VA_FOURCC_RGBA :: u32 where "VA_FOURCC_RGBA \<equiv> 0x41424752"
abbreviation VA_FOURCC_RGBX :: u32 where "VA_FOURCC_RGBX \<equiv> 0x58424752"
abbreviation VA_FOURCC_BGRA :: u32 where "VA_FOURCC_BGRA \<equiv> 0x41524742"
abbreviation VA_FOURCC_BGRX :: u32 where "VA_FOURCC_BGRX \<equiv> 0x58524742"

abbreviation DRM_FORMAT_R8 :: u32 where "DRM_FORMAT_R8 \<equiv> 0x20203852"
abbreviation DRM_FORMAT_RG88 :: u32 where "DRM_FORMAT_RG88 \<equiv> 0x38384752"
abbreviation DRM_FORMAT_R16 :: u32 where "DRM_FORMAT_R16 \<equiv> 0x20363152"
abbreviation DRM_FORMAT_RG1616 :: u32 where "DRM_FORMAT_RG1616 \<equiv> 0x32334752"
abbreviation DRM_FORMAT_YUV444 :: u32 where "DRM_FORMAT_YUV444 \<equiv> 0x34325559"
abbreviation DRM_FORMAT_ARGB8888 :: u32 where "DRM_FORMAT_ARGB8888 \<equiv> 0x34325241"
abbreviation DRM_FORMAT_MOD_LINEAR :: u64 where "DRM_FORMAT_MOD_LINEAR \<equiv> 0"

record NVFormatPlane =
  fp_channelCount :: u32
  fp_fourcc :: u32
  fp_ss_x :: u32
  fp_ss_y :: u32

record NVFormatInfo =
  fi_bppc :: u32
  fi_numPlanes :: u32
  fi_fourcc :: u32
  fi_is16bits :: bool
  fi_isYuv444 :: bool
  fi_plane :: "NVFormatPlane list"
  fi_vaFourcc :: u32
  fi_bits_per_pixel :: u32

definition plane1 :: "u32 \<Rightarrow> u32 \<Rightarrow> u32 \<Rightarrow> u32 \<Rightarrow> NVFormatPlane" where
  "plane1 channels fourcc x y =
     \<lparr>fp_channelCount = channels, fp_fourcc = fourcc, fp_ss_x = x, fp_ss_y = y\<rparr>"

definition two_planes :: "u32 \<Rightarrow> u32 \<Rightarrow> bool \<Rightarrow> u32 \<Rightarrow> u32 \<Rightarrow> u32 \<Rightarrow> u32 \<Rightarrow> NVFormatInfo" where
  "two_planes bppc drm is16 y uv fourcc bpp =
     \<lparr>fi_bppc = bppc, fi_numPlanes = 2, fi_fourcc = drm, fi_is16bits = is16, fi_isYuv444 = False,
      fi_plane = [plane1 1 y 0 0, plane1 2 uv 1 1], fi_vaFourcc = fourcc, fi_bits_per_pixel = bpp\<rparr>"

definition three_planes :: "u32 \<Rightarrow> u32 \<Rightarrow> bool \<Rightarrow> u32 \<Rightarrow> u32 \<Rightarrow> u32 \<Rightarrow> NVFormatInfo" where
  "three_planes bppc drm is16 y fourcc bpp =
     \<lparr>fi_bppc = bppc, fi_numPlanes = 3, fi_fourcc = drm, fi_is16bits = is16, fi_isYuv444 = True,
      fi_plane = [plane1 1 y 0 0, plane1 1 y 0 0, plane1 1 y 0 0],
      fi_vaFourcc = fourcc, fi_bits_per_pixel = bpp\<rparr>"

definition formatsInfo :: "NVFormat \<Rightarrow> NVFormatInfo" where
  "formatsInfo f =
     (case f of
        NV_FORMAT_NONE \<Rightarrow>
          \<lparr>fi_bppc = 0, fi_numPlanes = 0, fi_fourcc = 0, fi_is16bits = False, fi_isYuv444 = False,
           fi_plane = [], fi_vaFourcc = 0, fi_bits_per_pixel = 0\<rparr>
      | NV_FORMAT_NV12 \<Rightarrow> two_planes 1 VA_FOURCC_NV12 False DRM_FORMAT_R8 DRM_FORMAT_RG88 VA_FOURCC_NV12 12
      | NV_FORMAT_P010 \<Rightarrow> two_planes 2 VA_FOURCC_P010 True DRM_FORMAT_R16 DRM_FORMAT_RG1616 VA_FOURCC_P010 24
      | NV_FORMAT_P012 \<Rightarrow> two_planes 2 VA_FOURCC_P012 True DRM_FORMAT_R16 DRM_FORMAT_RG1616 VA_FOURCC_P012 24
      | NV_FORMAT_P016 \<Rightarrow> two_planes 2 VA_FOURCC_P016 True DRM_FORMAT_R16 DRM_FORMAT_RG1616 VA_FOURCC_P016 24
      | NV_FORMAT_444P \<Rightarrow> three_planes 1 DRM_FORMAT_YUV444 False DRM_FORMAT_R8 VA_FOURCC_444P 24
      | NV_FORMAT_Q416 \<Rightarrow> three_planes 2 0 True DRM_FORMAT_R16 VA_FOURCC_Q416 48
      | NV_FORMAT_ARGB \<Rightarrow>
          \<lparr>fi_bppc = 1, fi_numPlanes = 1, fi_fourcc = VA_FOURCC_ARGB, fi_is16bits = False,
           fi_isYuv444 = False, fi_plane = [plane1 4 DRM_FORMAT_ARGB8888 0 0],
           fi_vaFourcc = VA_FOURCC_ARGB, fi_bits_per_pixel = 32\<rparr>)"

definition all_formats :: "NVFormat list" where
  "all_formats = [NV_FORMAT_NV12, NV_FORMAT_P010, NV_FORMAT_P012, NV_FORMAT_P016, NV_FORMAT_444P,
     NV_FORMAT_Q416, NV_FORMAT_ARGB]"

definition nvFormatFromVaFormat :: "u32 \<Rightarrow> NVFormat" where
  "nvFormatFromVaFormat fourcc =
     (case find (\<lambda>f. fi_vaFourcc (formatsInfo f) = fourcc) all_formats of
        Some f \<Rightarrow> f | None \<Rightarrow> NV_FORMAT_NONE)"

definition isRgbFourcc :: "u32 \<Rightarrow> bool" where
  "isRgbFourcc fourcc \<longleftrightarrow>
     fourcc = VA_FOURCC_ARGB \<or> fourcc = VA_FOURCC_XRGB \<or> fourcc = VA_FOURCC_ABGR \<or>
     fourcc = VA_FOURCC_XBGR \<or> fourcc = VA_FOURCC_RGBA \<or> fourcc = VA_FOURCC_RGBX \<or>
     fourcc = VA_FOURCC_BGRA \<or> fourcc = VA_FOURCC_BGRX"

definition nvFormatFromSurfaceFourcc :: "u32 \<Rightarrow> NVFormat" where
  "nvFormatFromSurfaceFourcc fourcc =
     (if isRgbFourcc fourcc then NV_FORMAT_ARGB else nvFormatFromVaFormat fourcc)"

section \<open>Backing images\<close>

type_synonym file_id = "u64 \<times> u64"

record BackingImage =
  bi_arrays :: "u64 list"
  bi_width :: u32
  bi_height :: u32
  bi_fourcc :: u32
  bi_fds :: "int list"
  bi_st :: "file_id list"
  bi_offsets :: "int list"
  bi_strides :: "int list"
  bi_mods :: "u64 list"
  bi_size :: "u32 list"
  bi_objectSize :: "u64 list"
  bi_planeObjectIndex :: "u32 list"
  bi_numObjects :: u32
  bi_numPlanes :: u32
  bi_format :: NVFormat
  bi_color :: color_meta
  bi_totalSize :: u64
  bi_isSingleBuffer :: bool
  bi_isExternalBuffer :: bool
  bi_borrowedCudaResources :: bool
  bi_borrowed :: "nat option"
  bi_borrowCount :: u32
  bi_externalMappings :: "u64 list"
  bi_externalMappingSize :: "u64 list"
  bi_externalDevicePtrs :: "u64 list"
  bi_externalDeviceSize :: "u64 list"

abbreviation NVD_MAX_IMPORTED_OBJECTS :: u32 where "NVD_MAX_IMPORTED_OBJECTS \<equiv> 4"

definition nvBackingImageHasExternalHostMemory :: "BackingImage option \<Rightarrow> bool" where
  "nvBackingImageHasExternalHostMemory img =
     (case img of
        None \<Rightarrow> False
      | Some b \<Rightarrow> bi_numObjects b \<noteq> 0 \<and>
          list_all (\<lambda>i. bi_externalMappings b ! i \<noteq> 0) [0..<unat (bi_numObjects b)])"

definition nvBackingImageHasExternalDeviceMemory :: "BackingImage option \<Rightarrow> bool" where
  "nvBackingImageHasExternalDeviceMemory img =
     (case img of
        None \<Rightarrow> False
      | Some b \<Rightarrow> bi_numObjects b \<noteq> 0 \<and>
          list_all (\<lambda>i. bi_externalDevicePtrs b ! i \<noteq> 0) [0..<unat (bi_numObjects b)])"

definition nvBackingImageHostPlane :: "BackingImage \<Rightarrow> nat \<Rightarrow> u64" where
  "nvBackingImageHostPlane img plane =
     bi_externalMappings img ! unat (bi_planeObjectIndex img ! plane) +
     word_of_int (bi_offsets img ! plane)"

definition nvBackingImageDevicePlane :: "BackingImage \<Rightarrow> nat \<Rightarrow> u64" where
  "nvBackingImageDevicePlane img plane =
     bi_externalDevicePtrs img ! unat (bi_planeObjectIndex img ! plane) +
     word_of_int (bi_offsets img ! plane)"

definition importedObjectsAreLinear :: "BackingImage \<Rightarrow> bool" where
  "importedObjectsAreLinear img \<longleftrightarrow>
     bi_numObjects img \<noteq> 0 \<and>
     list_all (\<lambda>i. bi_mods img ! i = DRM_FORMAT_MOD_LINEAR) [0..<unat (bi_numObjects img)]"

text \<open>The bytes of a row and the number of rows of a plane, as both range checks compute them.\<close>

definition plane_row_bytes :: "NVFormat \<Rightarrow> u32 \<Rightarrow> nat \<Rightarrow> u64" where
  "plane_row_bytes f w i =
     (let p = fi_plane (formatsInfo f) ! i
      in u32_to_u64 (nvPlaneExtent w (fp_ss_x p)) * u32_to_u64 (fi_bppc (formatsInfo f)) *
         u32_to_u64 (fp_channelCount p))"

definition plane_rows :: "NVFormat \<Rightarrow> u32 \<Rightarrow> nat \<Rightarrow> u64" where
  "plane_rows f h i = u32_to_u64 (nvPlaneExtent h (fp_ss_y (fi_plane (formatsInfo f) ! i)))"

definition imported_plane_ok :: "BackingImage \<Rightarrow> nat \<Rightarrow> bool" where
  "imported_plane_ok img i \<longleftrightarrow>
     (let objectIndex = bi_planeObjectIndex img ! i;
          widthBytes = plane_row_bytes (bi_format img) (bi_width img) i;
          rows = plane_rows (bi_format img) (bi_height img) i;
          stride = word_of_int (bi_strides img ! i) :: u64;
          offset = word_of_int (bi_offsets img ! i) :: u64
      in if objectIndex \<ge> bi_numObjects img \<or> bi_objectSize img ! unat objectIndex = 0 \<or>
            bi_strides img ! i \<le> 0 \<or> stride < widthBytes \<or> rows = 0
         then False
         else
           let lastRow = rows - 1
           in if lastRow > (UINT64_MAX - offset - widthBytes) div stride then False
              else \<not> offset + lastRow * stride + widthBytes > bi_objectSize img ! unat objectIndex)"

text \<open>The enumerator comparisons with the first and the last format leave out exactly \<open>NONE\<close>.\<close>

definition validateImportedLayout :: "BackingImage \<Rightarrow> bool" where
  "validateImportedLayout img =
     (if bi_format img = NV_FORMAT_NONE \<or> bi_numObjects img = 0 \<or>
         bi_numObjects img > NVD_MAX_IMPORTED_OBJECTS
      then False
      else if bi_numPlanes img \<noteq> fi_numPlanes (formatsInfo (bi_format img)) then False
      else list_all (imported_plane_ok img) [0..<unat (bi_numPlanes img)])"

definition videoproc_plane_ok :: "BackingImage \<Rightarrow> u32 \<Rightarrow> u32 \<Rightarrow> nat \<Rightarrow> bool" where
  "videoproc_plane_ok img w h i \<longleftrightarrow>
     (let externalHost = nvBackingImageHasExternalHostMemory (Some img);
          externalDevice = nvBackingImageHasExternalDeviceMemory (Some img);
          rowBytes = plane_row_bytes (bi_format img) w i;
          rows = plane_rows (bi_format img) h i;
          objectIndex = bi_planeObjectIndex img ! i;
          offset = word_of_int (bi_offsets img ! i) :: u64;
          stride = word_of_int (bi_strides img ! i) :: u64
      in if rowBytes = 0 \<or> rows = 0 then False
         else if \<not> externalHost \<and> \<not> externalDevice then bi_arrays img ! i \<noteq> 0
         else if objectIndex \<ge> bi_numObjects img \<or> bi_offsets img ! i < 0 \<or>
                 bi_strides img ! i \<le> 0 \<or> rowBytes > stride then False
         else if rows - 1 > (UINT64_MAX - offset - rowBytes) div stride then False
         else
           let end = offset + (rows - 1) * stride + rowBytes;
               accessibleSize = (if externalHost then bi_externalMappingSize img ! unat objectIndex
                                 else bi_externalDeviceSize img ! unat objectIndex)
           in \<not> (accessibleSize = 0 \<or> end > accessibleSize \<or>
                 (bi_objectSize img ! unat objectIndex \<noteq> 0 \<and>
                  end > bi_objectSize img ! unat objectIndex)))"

definition videoProcImageRangeValid :: "BackingImage option \<Rightarrow> u32 \<Rightarrow> u32 \<Rightarrow> bool" where
  "videoProcImageRangeValid bimg w h =
     (case bimg of
        None \<Rightarrow> False
      | Some img \<Rightarrow>
          if bi_format img = NV_FORMAT_NONE \<or> w = 0 \<or> h = 0 \<or>
             w > bi_width img \<or> h > bi_height img
          then False
          else if (nvBackingImageHasExternalHostMemory bimg \<or>
                   nvBackingImageHasExternalDeviceMemory bimg) \<and>
                  bi_numPlanes img < fi_numPlanes (formatsInfo (bi_format img))
          then False
          else list_all (videoproc_plane_ok img w h)
                 [0..<unat (fi_numPlanes (formatsInfo (bi_format img)))])"

section \<open>Matching an import with an image of the driver\<close>

definition backingImageFdMatchesStat :: "BackingImage \<Rightarrow> file_id \<Rightarrow> nat \<Rightarrow> bool" where
  "backingImageFdMatchesStat img fdStat index \<longleftrightarrow>
     bi_fds img ! index \<ge> 0 \<and> bi_st img ! index = fdStat"

definition backingImageMatchesImport ::
    "BackingImage option \<Rightarrow> file_id \<Rightarrow> NVFormat \<Rightarrow> u32 \<Rightarrow> u32 \<Rightarrow> bool" where
  "backingImageMatchesImport img fdStat format w h =
     (case img of
        None \<Rightarrow> False
      | Some b \<Rightarrow>
          \<not> (bi_isExternalBuffer b \<or> bi_borrowedCudaResources b \<or> bi_format b \<noteq> format \<or>
             bi_width b \<noteq> w \<or> bi_height b \<noteq> h) \<and>
          list_ex (backingImageFdMatchesStat b fdStat) [0..<4])"

text \<open>The result is the position of the image in the driver's list; its borrow count is raised.\<close>

definition retainBackingImageByFd ::
    "(int \<Rightarrow> file_id option) \<Rightarrow> BackingImage option list \<Rightarrow> int \<Rightarrow> NVFormat \<Rightarrow> u32 \<Rightarrow> u32 \<Rightarrow>
     nat option \<times> BackingImage option list" where
  "retainBackingImageByFd fstat images fd format w h =
     (if fd < 0 then (None, images)
      else case fstat fd of
        None \<Rightarrow> (None, images)
      | Some st \<Rightarrow>
          (case find (\<lambda>k. backingImageMatchesImport (images ! k) st format w h) [0..<length images] of
             None \<Rightarrow> (None, images)
           | Some k \<Rightarrow>
               (Some k, images[k := map_option (\<lambda>b. b\<lparr>bi_borrowCount := bi_borrowCount b + 1\<rparr>) (images ! k)])))"

definition backingImageMatchesImportedLayout ::
    "(int \<Rightarrow> file_id option) \<Rightarrow> BackingImage option \<Rightarrow> BackingImage option \<Rightarrow> bool" where
  "backingImageMatchesImportedLayout fstat existing imported =
     (case (existing, imported) of
        (Some e, Some m) \<Rightarrow>
          if bi_format e \<noteq> bi_format m then False
          else
            let planes = fi_numPlanes (formatsInfo (bi_format e));
                expectedObjects = (if bi_isSingleBuffer e then 1 else planes)
            in if bi_numObjects m \<noteq> expectedObjects \<or> bi_numPlanes m \<noteq> planes then False
               else list_all (\<lambda>p.
                 let importedObject = bi_planeObjectIndex m ! p;
                     existingObject = (if bi_isSingleBuffer e then 0 else p)
                 in importedObject < bi_numObjects m \<and>
                    (case fstat (bi_fds m ! unat importedObject) of
                       None \<Rightarrow> False
                     | Some st \<Rightarrow> backingImageFdMatchesStat e st existingObject) \<and>
                    bi_offsets m ! p = bi_offsets e ! p \<and> bi_strides m ! p = bi_strides e ! p \<and>
                    bi_mods m ! unat importedObject = bi_mods e ! existingObject) [0..<unat planes]
      | _ \<Rightarrow> False)"

text \<open>
  Dropping a borrow: the compare-and-swap loop subtracts one unless the count is zero
  (every iteration that fails sees a newer value), and the reference is cleared.
\<close>

definition nvReleaseBackingImageBorrow ::
    "BackingImage option list \<Rightarrow> BackingImage option \<Rightarrow> BackingImage option list \<times> BackingImage option" where
  "nvReleaseBackingImageBorrow images img =
     (case img of
        None \<Rightarrow> (images, img)
      | Some b \<Rightarrow>
          (case bi_borrowed b of
             None \<Rightarrow> (images, img)
           | Some k \<Rightarrow>
               (images[k := map_option (\<lambda>c. if bi_borrowCount c \<noteq> 0
                    then c\<lparr>bi_borrowCount := bi_borrowCount c - 1\<rparr> else c) (images ! k)],
                Some (b\<lparr>bi_borrowed := None\<rparr>))))"

section \<open>Geometry lemmas\<close>

lemma ceil_div:
  fixes n m :: nat
  assumes "0 < m"
  shows "n div m + (if n mod m \<noteq> 0 then 1 else 0) = (n + m - 1) div m"
proof (cases "n mod m = 0")
  case True
  have "n + m - 1 = (m - 1) + m * (n div m)"
    using True mult_div_mod_eq [of m n] assms by linarith
  with div_mod_split [of "n + m - 1" "m - 1" m "n div m"] True assms show ?thesis by simp
next
  case False
  have "n + m - 1 = (n mod m - 1) + m * (n div m + 1)"
    using False mult_div_mod_eq [of m n] by simp
  moreover have "n mod m - 1 < m" using assms by (simp add: less_imp_diff_less)
  ultimately show ?thesis using div_mod_split [of "n + m - 1" "n mod m - 1" m "n div m + 1"] False by simp
qed

lemma unat_mask_and:
  fixes v :: u32
  assumes "n < 32"
  shows "unat (v AND (push_bit n 1 - 1)) = unat v mod 2 ^ n"
proof -
  have "push_bit n 1 - 1 = (mask n :: u32)"
    by (simp add: mask_eq_exp_minus_1 push_bit_eq_mult)
  then have "v AND (push_bit n 1 - 1) = take_bit n v" by (simp only: take_bit_eq_mask)
  then show ?thesis by (simp only: unsigned_take_bit_eq) (simp only: take_bit_eq_mod)
qed

lemma plane_extent_unat:
  "unat (nvPlaneExtent v s) = (unat v + 2 ^ unat s - 1) div 2 ^ unat s"
proof -
  let ?n = "unat s"
  consider (zero) "s = 0" | (big) "s \<noteq> 0" "s \<ge> 32" | (mid) "s \<noteq> 0" "\<not> s \<ge> 32" by blast
  then show ?thesis
  proof cases
    case zero
    then show ?thesis by (simp add: nvPlaneExtent_def)
  next
    case big
    then have "32 \<le> ?n" by (simp add: word_le_nat_alt)
    then have "(2 :: nat) ^ 32 \<le> 2 ^ ?n" by (rule power_increasing) simp
    then have lt: "unat v < 2 ^ ?n" using unat_u32_less [of v] by simp
    show ?thesis
    proof (cases "v = 0")
      case True
      then show ?thesis using big by (simp add: nvPlaneExtent_def)
    next
      case False
      then have "unat v \<noteq> 0" by (simp add: unat_eq_0)
      with lt have "unat v + 2 ^ ?n - 1 = (unat v - 1) + 2 ^ ?n * 1" "unat v - 1 < 2 ^ ?n" by simp_all
      from div_mod_split [OF this] False big show ?thesis by (simp add: nvPlaneExtent_def)
    qed
  next
    case mid
    then have n: "?n < 32" by (simp add: word_le_nat_alt)
    let ?m = "v AND (push_bit ?n 1 - 1)"
    let ?e = "if ?m \<noteq> 0 then 1 else 0 :: u32"
    have m: "?m \<noteq> 0 \<longleftrightarrow> unat v mod 2 ^ ?n \<noteq> 0"
      using unat_mask_and [OF n, of v] by (metis unat_eq_0)
    have d: "unat (drop_bit ?n v) = unat v div 2 ^ ?n"
      by (simp only: unat_drop_bit_eq drop_bit_nat_def)
    have "0 < ?n" using mid(1) by (simp add: unat_gt_0)
    then have "(2 :: nat) ^ 1 \<le> 2 ^ ?n" by (intro power_increasing) simp_all
    then have "unat v div 2 ^ ?n \<le> unat v div 2" by (intro div_le_mono2) simp_all
    moreover have "unat ?e \<le> 1" by simp
    ultimately have "unat v div 2 ^ ?n + unat ?e < 2 ^ LENGTH(32)"
      using unat_u32_less [of v] by (simp del: unat_eq_0)
    then have "unat (drop_bit ?n v) + unat ?e < 2 ^ LENGTH(32)" unfolding d .
    then have "unat (drop_bit ?n v + ?e) = unat v div 2 ^ ?n + unat ?e"
      using unat_add_no_overflow d by metis
    also have "unat ?e = (if unat v mod 2 ^ ?n \<noteq> 0 then 1 else 0)" using m by simp
    also have "unat v div 2 ^ ?n + \<dots> = (unat v + 2 ^ ?n - 1) div 2 ^ ?n"
      by (rule ceil_div) simp
    finally show ?thesis using mid by (simp add: nvPlaneExtent_def Let_def)
  qed
qed

lemma plane_coordinate_unat: "unat (nvPlaneCoordinate v s) = unat v div 2 ^ unat s"
proof (cases "s < 32")
  case True
  then show ?thesis by (simp only: nvPlaneCoordinate_def if_True unat_drop_bit_eq drop_bit_nat_def)
next
  case False
  then have "32 \<le> unat s" by (simp add: word_less_nat_alt)
  then have "(2 :: nat) ^ 32 \<le> 2 ^ unat s" by (rule power_increasing) simp
  then have "unat v < 2 ^ unat s" using unat_u32_less [of v] by simp
  with False show ?thesis by (simp add: nvPlaneCoordinate_def)
qed

text \<open>The extent of a subsampled plane is the extent of the image divided by the subsampling
  factor and rounded up, for every shift, also one of 32 or more; and the sample that belongs
  to a pixel inside the image lies inside the plane.\<close>

theorem plane_extent_rounds_up:
  "unat (nvPlaneExtent v s) = (unat v + 2 ^ unat s - 1) div 2 ^ unat s \<and>
   (nvPlaneExtent v s = 0) = (v = 0) \<and>
   (x < v \<longrightarrow> nvPlaneCoordinate x s < nvPlaneExtent v s)"
proof -
  let ?p = "2 ^ unat s :: nat"
  have p: "0 < ?p" by simp
  have z: "(unat v + ?p - 1) div ?p = 0 \<longleftrightarrow> unat v = 0"
    using p by (auto simp: div_eq_0_iff)
  have "nvPlaneExtent v s = 0 \<longleftrightarrow> v = 0"
    using z plane_extent_unat [of v s] by (metis unat_eq_0)
  moreover have "nvPlaneCoordinate x s < nvPlaneExtent v s" if "x < v"
  proof -
    have "unat x + 1 \<le> unat v" using that by (simp add: word_less_nat_alt)
    then have "(unat x + ?p) div ?p \<le> (unat v + ?p - 1) div ?p"
      by (intro div_le_mono) simp
    moreover have "(unat x + ?p) div ?p = unat x div ?p + 1" using p by (rule div_add_self2 [OF less_imp_neq [THEN not_sym]])
    ultimately show ?thesis
      unfolding word_less_nat_alt plane_extent_unat plane_coordinate_unat by linarith
  qed
  ultimately show ?thesis using plane_extent_unat by blast
qed

section \<open>The range checks\<close>

text \<open>
  The shape both checks share: an overflow-free test of the last row and of the end of the
  last row bounds every byte of every row.
\<close>

lemma rows_in_bounds:
  fixes offset stride rowBytes rows limit :: u64
  assumes small: "unat offset + unat rowBytes < 2 ^ 64"
    and pos: "rows \<noteq> 0" "stride \<noteq> 0"
    and last: "\<not> rows - 1 > (UINT64_MAX - offset - rowBytes) div stride"
    and fin: "\<not> offset + (rows - 1) * stride + rowBytes > limit"
    and row: "r < unat rows" and byte: "b < unat rowBytes"
  shows "unat offset + r * unat stride + b < unat limit"
proof -
  have one: "1 \<le> rows" using pos(1) by (simp add: word_le_nat_alt Suc_le_eq unat_gt_0)
  then have r1: "unat (rows - 1) = unat rows - 1" by (simp add: unat_sub_le)
  have "unat (UINT64_MAX - offset) = 18446744073709551615 - unat offset"
    by (rule size_max_minus)
  moreover have "rowBytes \<le> UINT64_MAX - offset"
    using small calculation by (simp add: word_le_nat_alt)
  ultimately have sub: "unat (UINT64_MAX - offset - rowBytes) = 18446744073709551615 - unat offset - unat rowBytes"
    by (simp only: unat_sub_le)
  have "unat (rows - 1) \<le> unat (UINT64_MAX - offset - rowBytes) div unat stride"
    using last by (simp add: word_less_nat_alt unat_div)
  then have m: "unat (rows - 1) * unat stride \<le> 18446744073709551615 - unat offset - unat rowBytes"
    unfolding sub using pos(2) by (simp add: less_eq_div_iff_mult_less_eq unat_gt_0)
  then have mul: "unat ((rows - 1) * stride) = unat (rows - 1) * unat stride"
    using small by (intro unat_mult_lem [THEN iffD1]) simp
  have "unat (offset + (rows - 1) * stride) = unat offset + unat (rows - 1) * unat stride"
    using m small mul by (subst unat_add_no_overflow) simp_all
  then have "unat (offset + (rows - 1) * stride + rowBytes) =
      unat offset + unat (rows - 1) * unat stride + unat rowBytes"
    using m small by (subst unat_add_no_overflow) simp_all
  then have "unat offset + unat (rows - 1) * unat stride + unat rowBytes \<le> unat limit"
    using fin by (simp add: word_less_nat_alt)
  moreover have "r * unat stride \<le> unat (rows - 1) * unat stride"
    unfolding r1 using row by (intro mult_le_mono1) linarith
  ultimately show ?thesis using byte by linarith
qed

lemma unat_mult_small:
  "unat a * unat b < 18446744073709551616 \<Longrightarrow> unat (a * b) = unat a * unat (b :: u64)"
  by (intro unat_mult_lem [THEN iffD1]) simp

lemma format_planes:
  assumes "i < unat (fi_numPlanes (formatsInfo f))"
  shows "unat (fi_bppc (formatsInfo f)) \<le> 2 \<and> unat (fp_channelCount (fi_plane (formatsInfo f) ! i)) \<le> 4 \<and>
    0 < unat (fi_bppc (formatsInfo f)) \<and> 0 < unat (fp_channelCount (fi_plane (formatsInfo f) ! i)) \<and>
    i < length (fi_plane (formatsInfo f)) \<and> i < 3"
proof -
  have "unat (fi_numPlanes (formatsInfo f)) \<le> 3"
    by (cases f) (simp_all add: formatsInfo_def two_planes_def three_planes_def)
  with assms consider "i = 0" | "i = 1" | "i = 2" by linarith
  then show ?thesis
    by cases (insert assms, (cases f; simp add: formatsInfo_def two_planes_def three_planes_def plane1_def)+)
qed

lemma plane_row_bytes_unat:
  assumes "i < unat (fi_numPlanes (formatsInfo f))"
  shows "unat (plane_row_bytes f w i) =
      unat (nvPlaneExtent w (fp_ss_x (fi_plane (formatsInfo f) ! i))) * unat (fi_bppc (formatsInfo f)) *
      unat (fp_channelCount (fi_plane (formatsInfo f) ! i))"
    and "unat (plane_row_bytes f w i) \<le> 34359738368"
proof -
  let ?e = "nvPlaneExtent w (fp_ss_x (fi_plane (formatsInfo f) ! i))"
  let ?b = "fi_bppc (formatsInfo f)" and ?c = "fp_channelCount (fi_plane (formatsInfo f) ! i)"
  have b: "unat ?b \<le> 2" "unat ?c \<le> 4" using format_planes [OF assms] by blast+
  have eb: "unat ?e * unat ?b \<le> 4294967296 * 2"
    using unat_u32_less [of ?e] b(1) by (intro mult_le_mono) simp_all
  have m1: "unat (u32_to_u64 ?e * u32_to_u64 ?b) = unat ?e * unat ?b"
    using eb by (subst unat_mult_small) simp_all
  have ebc: "unat ?e * unat ?b * unat ?c \<le> 4294967296 * 2 * 4"
    by (intro mult_le_mono eb b(2))
  have "unat (plane_row_bytes f w i) = unat ?e * unat ?b * unat ?c"
    unfolding plane_row_bytes_def Let_def using ebc m1 by (subst unat_mult_small) simp_all
  with ebc show "unat (plane_row_bytes f w i) = unat ?e * unat ?b * unat ?c"
    "unat (plane_row_bytes f w i) \<le> 34359738368" by simp_all
qed

text \<open>The offsets and strides are C integers.\<close>

definition bi_layout_wf :: "BackingImage \<Rightarrow> bool" where
  "bi_layout_wf img \<longleftrightarrow> length (bi_offsets img) = 4 \<and> length (bi_strides img) = 4 \<and>
     (\<forall>x \<in> set (bi_offsets img) \<union> set (bi_strides img). - 2147483648 \<le> x \<and> x < 2147483648)"

lemma unat_of_c_int: "0 \<le> x \<Longrightarrow> x < 2147483648 \<Longrightarrow> unat (word_of_int x :: u64) = nat x"
  by (simp add: unsigned_of_int take_bit_int_eq_self)

lemma layout_entry:
  assumes "bi_layout_wf img" "i < 4"
  shows "bi_offsets img ! i < 2147483648" "bi_strides img ! i < 2147483648"
  using assms by (auto simp: bi_layout_wf_def)

lemma plane_lt_4: "i < unat (fi_numPlanes (formatsInfo f)) \<Longrightarrow> i < 4"
  using format_planes [of i f] by linarith


text \<open>When the VideoProc range check accepts a region of an image, the region lies inside the
  image, and for memory that was imported every byte of every row of the region lies inside
  the mapping that the copy will use; otherwise every plane has a CUDA array.\<close>

theorem videoproc_range_in_bounds:
  assumes valid: "videoProcImageRangeValid (Some img) w h" and wf: "bi_layout_wf img"
    and i: "i < unat (fi_numPlanes (formatsInfo (bi_format img)))"
    and r: "r < unat (plane_rows (bi_format img) h i)"
    and b: "b < unat (plane_row_bytes (bi_format img) w i)"
  shows "w \<le> bi_width img \<and> h \<le> bi_height img \<and>
    (if nvBackingImageHasExternalHostMemory (Some img) then
       nat (bi_offsets img ! i) + r * nat (bi_strides img ! i) + b
         < unat (bi_externalMappingSize img ! unat (bi_planeObjectIndex img ! i))
     else if nvBackingImageHasExternalDeviceMemory (Some img) then
       nat (bi_offsets img ! i) + r * nat (bi_strides img ! i) + b
         < unat (bi_externalDeviceSize img ! unat (bi_planeObjectIndex img ! i))
     else bi_arrays img ! i \<noteq> 0)"
proof -
  let ?off = "word_of_int (bi_offsets img ! i) :: u64" and ?st = "word_of_int (bi_strides img ! i) :: u64"
  let ?rb = "plane_row_bytes (bi_format img) w i" and ?rows = "plane_rows (bi_format img) h i"
  let ?H = "nvBackingImageHasExternalHostMemory (Some img)"
  let ?D = "nvBackingImageHasExternalDeviceMemory (Some img)"
  let ?lim = "if ?H then bi_externalMappingSize img ! unat (bi_planeObjectIndex img ! i)
              else bi_externalDeviceSize img ! unat (bi_planeObjectIndex img ! i)"
  have box: "w \<le> bi_width img" "h \<le> bi_height img" and ok: "videoproc_plane_ok img w h i"
    using valid i by (auto simp: videoProcImageRangeValid_def list_all_iff split: if_splits)
  note i4 = plane_lt_4 [OF i]
  show ?thesis
  proof (cases "?H \<or> ?D")
    case False
    then show ?thesis using box ok by (auto simp: videoproc_plane_ok_def Let_def split: if_splits)
  next
    case True
    have c: "0 \<le> bi_offsets img ! i" "0 < bi_strides img ! i" "?rows \<noteq> 0"
      "\<not> ?rows - 1 > (UINT64_MAX - ?off - ?rb) div ?st"
      "\<not> ?off + (?rows - 1) * ?st + ?rb > ?lim"
      using ok True by (simp_all add: videoproc_plane_ok_def Let_def split: if_splits)
    have off: "unat ?off = nat (bi_offsets img ! i)"
      using c(1) layout_entry [OF wf i4] by (intro unat_of_c_int)
    have st: "unat ?st = nat (bi_strides img ! i)"
      using c(2) layout_entry [OF wf i4] by (intro unat_of_c_int) simp_all
    have "?st \<noteq> 0" using st c(2) by (metis unat_0 zero_less_nat_eq less_irrefl)
    moreover have "nat (bi_offsets img ! i) < 2147483648" using layout_entry [OF wf i4] by simp
    then have "unat ?off + unat ?rb < 2 ^ 64"
      unfolding off using plane_row_bytes_unat(2) [OF i, of w] by simp
    ultimately have "unat ?off + r * unat ?st + b < unat ?lim"
      using c(3-5) r b by (intro rows_in_bounds [of ?off ?rb ?rows ?st])
    with box True show ?thesis unfolding off st by (auto split: if_splits)
  qed
qed

definition sample_import :: BackingImage where
  "sample_import =
     \<lparr>bi_arrays = [0, 0, 0], bi_width = 64, bi_height = 48, bi_fourcc = VA_FOURCC_NV12,
      bi_fds = [5, -1, -1, -1], bi_st = [(1, 2), (0, 0), (0, 0), (0, 0)],
      bi_offsets = [0, 3072, 0, 0], bi_strides = [64, 64, 0, 0], bi_mods = [0, 0, 0, 0],
      bi_size = [4608, 4608, 0, 0], bi_objectSize = [4608, 0, 0, 0],
      bi_planeObjectIndex = [0, 0, 0, 0], bi_numObjects = 1, bi_numPlanes = 2,
      bi_format = NV_FORMAT_NV12,
      bi_color = \<lparr>cm_colorStandard = VAProcColorStandardNone, cm_colorRangeFull = False\<rparr>,
      bi_totalSize = 4608, bi_isSingleBuffer = True, bi_isExternalBuffer = True,
      bi_borrowedCudaResources = False, bi_borrowed = None, bi_borrowCount = 0,
      bi_externalMappings = [4096, 0, 0, 0], bi_externalMappingSize = [4608, 0, 0, 0],
      bi_externalDevicePtrs = [0, 0, 0, 0], bi_externalDeviceSize = [0, 0, 0, 0]\<rparr>"

lemma sample_layout_wf: "bi_layout_wf sample_import"
  by (simp add: bi_layout_wf_def sample_import_def)

lemma extent_small:
  "nvPlaneExtent v 0 = v" "nvPlaneExtent v 1 = drop_bit 1 v + (if v AND 1 \<noteq> 0 then 1 else 0)"
  by (simp_all add: nvPlaneExtent_def word_le_nat_alt)

lemma list_all_upt_2: "list_all P [0..<2] = (P 0 \<and> P (1 :: nat))"
  by (simp add: upt_rec)

lemmas sample_eval = sample_import_def formatsInfo_def two_planes_def plane1_def plane_row_bytes_def
  plane_rows_def extent_small


lemma videoproc_range_in_bounds_witness:
  "3072 + 7 * 64 + 15 < unat (bi_externalMappingSize sample_import ! 0)"
proof -
  have H: "nvBackingImageHasExternalHostMemory (Some sample_import)"
    by (simp add: nvBackingImageHasExternalHostMemory_def sample_import_def)
  have "videoproc_plane_ok sample_import 16 16 0" "videoproc_plane_ok sample_import 16 16 1"
    by (simp_all add: videoproc_plane_ok_def nvBackingImageHasExternalHostMemory_def sample_eval)
  then have v: "videoProcImageRangeValid (Some sample_import) 16 16"
    by (simp add: videoProcImageRangeValid_def nvBackingImageHasExternalHostMemory_def sample_import_def formatsInfo_def two_planes_def
        list_all_upt_2)
  have "1 < unat (fi_numPlanes (formatsInfo (bi_format sample_import)))"
    "7 < unat (plane_rows (bi_format sample_import) 16 1)"
    "15 < unat (plane_row_bytes (bi_format sample_import) 16 1)"
    by (simp_all add: sample_eval)
  from videoproc_range_in_bounds [OF v sample_layout_wf this] H show ?thesis
    by (simp add: sample_import_def)
qed

text \<open>An import borrows only an image of the driver's own with the same format and size that holds
  the file behind the descriptor, and raises its count by one; releasing the borrow restores
  the list of images exactly and a second release changes nothing.\<close>

theorem borrow_release_balanced:
  assumes run: "retainBackingImageByFd fstat images fd f w h = (Some k, images')"
    and e: "images ! k = Some e" and room: "bi_borrowCount e \<noteq> UINT32_MAX"
    and m: "bi_borrowed m = Some k"
  shows "k < length images \<and> \<not> bi_isExternalBuffer e \<and> bi_format e = f \<and> bi_width e = w \<and>
    bi_height e = h \<and> (\<exists>i < 4. Some (bi_st e ! i) = fstat fd) \<and>
    images' ! k = Some (e\<lparr>bi_borrowCount := bi_borrowCount e + 1\<rparr>) \<and>
    nvReleaseBackingImageBorrow images' (Some m) = (images, Some (m\<lparr>bi_borrowed := None\<rparr>)) \<and>
    nvReleaseBackingImageBorrow images (Some (m\<lparr>bi_borrowed := None\<rparr>)) =
      (images, Some (m\<lparr>bi_borrowed := None\<rparr>))"
proof -
  obtain st where st: "fstat fd = Some st"
    and fnd: "find (\<lambda>k. backingImageMatchesImport (images ! k) st f w h) [0..<length images] = Some k"
    and i': "images' = images[k := map_option (\<lambda>b. b\<lparr>bi_borrowCount := bi_borrowCount b + 1\<rparr>) (images ! k)]"
    using run by (auto simp: retainBackingImageByFd_def split: if_splits option.splits)
  have k: "k < length images" and match: "backingImageMatchesImport (Some e) st f w h"
    using fnd e by (auto simp: find_Some_iff)
  have nz: "bi_borrowCount e + 1 \<noteq> 0"
  proof
    assume "bi_borrowCount e + 1 = 0"
    then have "bi_borrowCount e = - 1" by (metis add_diff_cancel diff_0)
    with room show False by simp
  qed
  have restored: "images'[k := Some e] = images"
    unfolding i' using e k by (metis list_update_id list_update_overwrite)
  have img: "images' ! k = Some (e\<lparr>bi_borrowCount := bi_borrowCount e + 1\<rparr>)"
    unfolding i' using k e by simp
  have "nvReleaseBackingImageBorrow images' (Some m) = (images, Some (m\<lparr>bi_borrowed := None\<rparr>))"
    using m nz restored by (simp add: nvReleaseBackingImageBorrow_def img)
  then show ?thesis
    using match k img st
    by (auto simp: backingImageMatchesImport_def list_ex_iff backingImageFdMatchesStat_def
        nvReleaseBackingImageBorrow_def)
qed

definition sample_own :: BackingImage where
  "sample_own = sample_import\<lparr>bi_isExternalBuffer := False\<rparr>"

lemma borrow_release_balanced_witness:
  "bi_borrowCount (the (snd (retainBackingImageByFd (\<lambda>_. Some (1, 2)) [None, Some sample_own] 5
     NV_FORMAT_NV12 64 48) ! 1)) = 1"
proof -
  have r: "retainBackingImageByFd (\<lambda>_. Some (1, 2)) [None, Some sample_own] 5 NV_FORMAT_NV12 64 48 =
      (Some 1, [None, Some (sample_own\<lparr>bi_borrowCount := 1\<rparr>)])"
    by (simp add: retainBackingImageByFd_def backingImageMatchesImport_def sample_own_def sample_import_def
        backingImageFdMatchesStat_def upt_rec)
  from borrow_release_balanced [OF r, of sample_own "sample_import\<lparr>bi_borrowed := Some 1\<rparr>"]
  show ?thesis unfolding r by (simp add: sample_own_def sample_import_def)
qed

lemma plane_extent_rounds_up_witness:
  "nvPlaneCoordinate 14 1 < nvPlaneExtent 15 1 \<and> unat (nvPlaneExtent 15 1) = 8"
  using plane_extent_rounds_up [of 15 1 14] by simp

end
