(* ===== verification/VideoProc.thy ===== *)
theory VideoProc
  imports Formats
begin

text \<open>
  Video processing (\<open>src/vabackend.c\<close>): the conversion of a YUV frame to RGB on the CPU
  (the pixel loop of \<open>convertNV12ToARGB\<close>), and the budget of the scratch buffers. The samples of a plane are naturals, an eight-bit sample as such and a
  sixteen-bit sample before its shift. C's right shift of a negative integer is the
  arithmetic one. Statistics and logging are left out.
\<close>

section \<open>Pixels\<close>

definition clampU8 :: "int \<Rightarrow> u8" where
  "clampU8 v = (if v < 0 then 0 else if v > 255 then 255 else word_of_int v)"

definition rgbOrderForFourcc :: "u32 \<Rightarrow> u32" where
  "rgbOrderForFourcc fourcc =
     (if fourcc = VA_FOURCC_RGBA \<or> fourcc = VA_FOURCC_RGBX then 1
      else if fourcc = VA_FOURCC_ARGB \<or> fourcc = VA_FOURCC_XRGB then 2
      else if fourcc = VA_FOURCC_ABGR \<or> fourcc = VA_FOURCC_XBGR then 3 else 0)"

definition writeRgbPixel :: "u32 \<Rightarrow> u8 \<Rightarrow> u8 \<Rightarrow> u8 \<Rightarrow> u8 list" where
  "writeRgbPixel fourcc r g b =
     (if fourcc = VA_FOURCC_RGBA \<or> fourcc = VA_FOURCC_RGBX then [r, g, b, 255]
      else if fourcc = VA_FOURCC_BGRA \<or> fourcc = VA_FOURCC_BGRX then [b, g, r, 255]
      else if fourcc = VA_FOURCC_ARGB \<or> fourcc = VA_FOURCC_XRGB then [255, r, g, b]
      else if fourcc = VA_FOURCC_ABGR \<or> fourcc = VA_FOURCC_XBGR then [255, b, g, r]
      else [b, g, r, 255])"

text \<open>The three sums before shift and clamp.\<close>

definition pixel_sums ::
    "ColorMatrix \<Rightarrow> VideoProcSampleInfo \<Rightarrow> int \<Rightarrow> int \<Rightarrow> int \<Rightarrow> int \<times> int \<times> int" where
  "pixel_sums m info yy u v =
     (let c = (if yy > yOffset info then yy - yOffset info else 0);
          d = u - uvOffset info;
          e = v - uvOffset info
      in (yScale info * c + vToR m * e + rounding info,
          yScale info * c - uToG m * d - vToG m * e + rounding info,
          yScale info * c + uToB m * d + rounding info))"

definition convert_pixel ::
    "ColorMatrix \<Rightarrow> VideoProcSampleInfo \<Rightarrow> int \<Rightarrow> int \<Rightarrow> int \<Rightarrow> u8 \<times> u8 \<times> u8" where
  "convert_pixel m info yy u v =
     (case pixel_sums m info yy u v of
        (r, g, b) \<Rightarrow>
          (clampU8 (drop_bit (valueShift info) r), clampU8 (drop_bit (valueShift info) g),
           clampU8 (drop_bit (valueShift info) b)))"

section \<open>The CPU loop\<close>

definition uv_index :: "nat \<Rightarrow> nat \<Rightarrow> nat \<Rightarrow> nat" where
  "uv_index w x y = (y div 2) * w + (x - x mod 2)"

definition load_sample :: "bool \<Rightarrow> VideoProcSampleInfo \<Rightarrow> nat list \<Rightarrow> nat \<Rightarrow> int" where
  "load_sample is16Bit info plane i =
     int (if is16Bit then drop_bit (sampleShift info) (plane ! i) else plane ! i)"

definition cpu_pixel ::
    "bool \<Rightarrow> ColorMatrix \<Rightarrow> VideoProcSampleInfo \<Rightarrow> u32 \<Rightarrow> nat list \<Rightarrow> nat list \<Rightarrow> nat \<Rightarrow> nat \<Rightarrow> nat \<Rightarrow> u8 list" where
  "cpu_pixel is16Bit m info fourcc yPlane uvPlane w x y =
     (let yy = load_sample is16Bit info yPlane (y * w + x);
          u = load_sample is16Bit info uvPlane (uv_index w x y);
          v = load_sample is16Bit info uvPlane (uv_index w x y + 1)
      in case convert_pixel m info yy u v of (r, g, b) \<Rightarrow> writeRgbPixel fourcc r g b)"

text \<open>
  \<open>stride\<close> is the stride of the destination: that of the imported image, or four bytes
  per pixel for the staging buffer.
\<close>

definition cpu_convert ::
    "bool \<Rightarrow> ColorMatrix \<Rightarrow> VideoProcSampleInfo \<Rightarrow> u32 \<Rightarrow> nat list \<Rightarrow> nat list \<Rightarrow> nat \<Rightarrow> nat \<Rightarrow> nat \<Rightarrow>
     u8 list \<Rightarrow> u8 list" where
  "cpu_convert is16Bit m info fourcc yPlane uvPlane w h stride dst =
     fold (\<lambda>y. fold (\<lambda>x dst.
         write_at dst (y * stride + x * 4) (cpu_pixel is16Bit m info fourcc yPlane uvPlane w x y))
       [0..<w]) [0..<h] dst"

section \<open>Scratch buffers\<close>

record videoproc =
  vp_gpu :: "(u64 \<times> usize) list"
  vp_cpu :: "(u64 \<times> usize) list"
  vp_scratchMaxBytes :: u64
  vp_framesSinceCpuFallback :: u32

abbreviation VIDEOPROC_SCRATCH_IDLE_FRAMES :: u32 where "VIDEOPROC_SCRATCH_IDLE_FRAMES \<equiv> 120"

definition roundVideoProcBufferSize :: "usize \<Rightarrow> usize" where
  "roundVideoProcBufferSize requiredSize =
     (let blockSize = 1048576
      in if requiredSize > SIZE_MAX - (blockSize - 1) then requiredSize
         else (requiredSize + blockSize - 1) AND NOT (blockSize - 1))"

definition scratch_bytes :: "(u64 \<times> usize) list \<Rightarrow> u64" where
  "scratch_bytes bufs = snd (bufs ! 0) + snd (bufs ! 1) + snd (bufs ! 2)"

text \<open>
  \<open>prune\<close> is the backend's hook, \<open>mem\<close> the new device pointer or the failure of the
  allocation, \<open>freed\<close> whether freeing the old buffer succeeds.
\<close>

definition ensureVideoProcBuffer ::
    "(u64 \<Rightarrow> bool) option \<Rightarrow> (usize \<Rightarrow> u64 option) \<Rightarrow> bool \<Rightarrow> videoproc \<Rightarrow> nat \<Rightarrow> usize \<Rightarrow>
     bool \<times> videoproc" where
  "ensureVideoProcBuffer prune mem freed drv k requiredSize =
     (case vp_gpu drv ! k of (buffer, bufferSize) \<Rightarrow>
        if bufferSize \<ge> requiredSize \<and> buffer \<noteq> 0 then (True, drv)
        else
          let allocSize = roundVideoProcBufferSize requiredSize;
              additionalBytes = (if allocSize > bufferSize then allocSize - bufferSize else 0)
          in if (case prune of Some p \<Rightarrow> \<not> p additionalBytes | None \<Rightarrow> False) then (False, drv)
             else
               let currentBytes = scratch_bytes (vp_gpu drv)
               in if allocSize > vp_scratchMaxBytes drv \<or>
                     currentBytes - bufferSize > vp_scratchMaxBytes drv - allocSize
                  then (False, drv)
                  else case mem allocSize of
                         None \<Rightarrow> (False, drv)
                       | Some newBuffer \<Rightarrow>
                           if buffer \<noteq> 0 \<and> \<not> freed then (False, drv)
                           else (True, drv\<lparr>vp_gpu := (vp_gpu drv)[k := (newBuffer, allocSize)]\<rparr>))"

definition ensureCpuVideoProcBuffer ::
    "(usize \<Rightarrow> u64 option) \<Rightarrow> videoproc \<Rightarrow> nat \<Rightarrow> usize \<Rightarrow> bool \<times> videoproc" where
  "ensureCpuVideoProcBuffer mem drv k requiredSize =
     (case vp_cpu drv ! k of (buffer, bufferSize) \<Rightarrow>
        if bufferSize \<ge> requiredSize \<and> buffer \<noteq> 0 then (True, drv)
        else
          let allocSize = roundVideoProcBufferSize requiredSize;
              currentBytes = scratch_bytes (vp_cpu drv)
          in if allocSize > vp_scratchMaxBytes drv \<or>
                currentBytes - bufferSize > vp_scratchMaxBytes drv - allocSize
             then (False, drv)
             else case mem allocSize of
                    None \<Rightarrow> (False, drv)
                  | Some newBuffer \<Rightarrow> (True, drv\<lparr>vp_cpu := (vp_cpu drv)[k := (newBuffer, allocSize)]\<rparr>))"

text \<open>\<open>freed\<close> tells which of the device buffers \<open>cuMemFree\<close> frees.\<close>

definition trimVideoProcScratchLocked ::
    "(nat \<Rightarrow> bool) \<Rightarrow> bool \<Rightarrow> bool \<Rightarrow> videoproc \<Rightarrow> videoproc" where
  "trimVideoProcScratchLocked freed gpu cpu drv =
     (let g = (if gpu then map (\<lambda>i. case vp_gpu drv ! i of (p, n) \<Rightarrow>
                   if p \<noteq> 0 \<and> freed i then (0, 0) else (p, n)) [0..<3] else vp_gpu drv);
          c = (if cpu then replicate 3 (0, 0) else vp_cpu drv)
      in drv\<lparr>vp_gpu := g, vp_cpu := c\<rparr>)"

definition noteVideoProcCudaSuccessLocked :: "(nat \<Rightarrow> bool) \<Rightarrow> bool \<Rightarrow> videoproc \<Rightarrow> videoproc" where
  "noteVideoProcCudaSuccessLocked freed directArrayPath drv =
     (let drv1 = (if vp_framesSinceCpuFallback drv < VIDEOPROC_SCRATCH_IDLE_FRAMES
                  then drv\<lparr>vp_framesSinceCpuFallback := vp_framesSinceCpuFallback drv + 1\<rparr> else drv)
      in if vp_framesSinceCpuFallback drv1 \<ge> VIDEOPROC_SCRATCH_IDLE_FRAMES then
           let gpuAllocated = (list_ex (\<lambda>b. fst b \<noteq> 0) (take 3 (vp_gpu drv1)));
               cpuAllocated = (list_ex (\<lambda>b. fst b \<noteq> 0) (take 3 (vp_cpu drv1)))
           in if (directArrayPath \<and> gpuAllocated) \<or> cpuAllocated
              then trimVideoProcScratchLocked freed (directArrayPath \<and> gpuAllocated) cpuAllocated drv1
              else drv1
         else drv1)"

section \<open>Correctness of the pixel conversion\<close>

lemma matrix_index_less: "matrix_index std w < 3"
  by (cases std) (simp_all add: matrix_index_def)

lemma matrix_cases:
  obtains "colorMatrixForStandard std w full = (if full then kFullRangeColorMatrices else kLimitedRangeColorMatrices) ! 0"
  | "colorMatrixForStandard std w full = (if full then kFullRangeColorMatrices else kLimitedRangeColorMatrices) ! 1"
  | "colorMatrixForStandard std w full = (if full then kFullRangeColorMatrices else kLimitedRangeColorMatrices) ! 2"
proof -
  have "matrix_index std w = 0 \<or> matrix_index std w = 1 \<or> matrix_index std w = 2"
    using matrix_index_less [of std w] by linarith
  with that show ?thesis by (auto simp: colorMatrixForStandard_def Let_def)
qed

lemma matrix_bounds:
  assumes "m = colorMatrixForStandard std w full"
  shows "0 \<le> vToR m \<and> vToR m \<le> 459 \<and> 0 \<le> uToG m \<and> uToG m \<le> 100 \<and> 0 \<le> vToG m \<and>
    vToG m \<le> 208 \<and> 0 \<le> uToB m \<and> uToB m \<le> 548"
  by (rule matrix_cases [of std w full])
    (simp_all add: assms kFullRangeColorMatrices_def kLimitedRangeColorMatrices_def)

text \<open>The luma of reference white: 235 of 255 in limited range, the maximum in full range.\<close>

definition white_level :: "VideoProcSampleInfo \<Rightarrow> bool \<Rightarrow> int" where
  "white_level info fullRange =
     (if fullRange then 2 ^ valueShift info - 1 else 235 * 2 ^ (valueShift info - 8))"

lemma sample_info_cases:
  obtains "videoProcSampleInfoForFormat f full = \<lparr>sampleShift = 6, yScale = (if full then 256 else 298),
      yOffset = (if full then 0 else 64), uvOffset = 512, rounding = 512, valueShift = 10\<rparr>"
  | "videoProcSampleInfoForFormat f full = \<lparr>sampleShift = 4, yScale = (if full then 256 else 298),
      yOffset = (if full then 0 else 256), uvOffset = 2048, rounding = 2048, valueShift = 12\<rparr>"
  | "videoProcSampleInfoForFormat f full = \<lparr>sampleShift = 0, yScale = (if full then 256 else 298),
      yOffset = (if full then 0 else 16), uvOffset = 128, rounding = 128, valueShift = 8\<rparr>"
  by (cases f) (auto simp: videoProcSampleInfoForFormat_def Let_def)

lemma abs_mult_le:
  fixes a b A B :: int
  assumes "\<bar>a\<bar> \<le> A" "\<bar>b\<bar> \<le> B"
  shows "\<bar>a * b\<bar> \<le> A * B"
  unfolding abs_mult using assms by (intro mult_mono) auto

lemma clamp_zero: "0 \<le> v \<Longrightarrow> v < 2 ^ n \<Longrightarrow> clampU8 (drop_bit n v) = 0"
  by (simp add: clampU8_def drop_bit_int_def div_pos_pos_trivial)

lemma clamp_full: "255 * 2 ^ n \<le> v \<Longrightarrow> clampU8 (drop_bit n v) = 255"
proof -
  assume a: "255 * 2 ^ n \<le> v"
  have "(255 * 2 ^ n) div 2 ^ n \<le> v div (2 ^ n :: int)" by (intro zdiv_mono1 a) simp
  then have "255 \<le> v div 2 ^ n" by simp
  then show ?thesis by (auto simp: clampU8_def drop_bit_int_def)
qed

text \<open>The colour conversion with the driver's matrices: for samples of the format's depth no
  intermediate leaves the range of a C \<open>int\<close>; neutral chroma gives grey; luma up to the
  black level gives black and luma from reference white on gives white.\<close>

theorem color_conversion:
  assumes m: "m = colorMatrixForStandard std w full"
    and info: "info = videoProcSampleInfoForFormat f full"
    and yy: "0 \<le> yy" "yy < 2 ^ valueShift info" and u: "0 \<le> u" "u < 2 ^ valueShift info"
    and v: "0 \<le> v" "v < 2 ^ valueShift info"
  shows "\<bar>yScale info * yy\<bar> + \<bar>vToR m * (v - uvOffset info)\<bar> + \<bar>uToG m * (u - uvOffset info)\<bar> +
      \<bar>vToG m * (v - uvOffset info)\<bar> + \<bar>uToB m * (u - uvOffset info)\<bar> + rounding info < 2147483648 \<and>
    (u = uvOffset info \<and> v = uvOffset info \<longrightarrow>
      (\<exists>grey. convert_pixel m info yy u v = (grey, grey, grey)) \<and>
      (yy \<le> yOffset info \<longrightarrow> convert_pixel m info yy u v = (0, 0, 0)) \<and>
      (white_level info full \<le> yy \<longrightarrow> convert_pixel m info yy u v = (255, 255, 255)))"
proof -
  note mb = matrix_bounds [OF m]
  have bound: "\<bar>yScale info * yy\<bar> + \<bar>vToR m * (v - uvOffset info)\<bar> + \<bar>uToG m * (u - uvOffset info)\<bar> +
      \<bar>vToG m * (v - uvOffset info)\<bar> + \<bar>uToB m * (u - uvOffset info)\<bar> + rounding info < 2147483648"
  proof -
    have s: "\<bar>yScale info\<bar> \<le> 298" "\<bar>yy\<bar> \<le> 4096" "\<bar>u - uvOffset info\<bar> \<le> 2048"
      "\<bar>v - uvOffset info\<bar> \<le> 2048" "rounding info \<le> 2048"
      using yy u v by (atomize (full), cases rule: sample_info_cases [of f full]) (auto simp: info)
    have "\<bar>yScale info * yy\<bar> \<le> 298 * 4096" "\<bar>vToR m * (v - uvOffset info)\<bar> \<le> 459 * 2048"
      "\<bar>uToG m * (u - uvOffset info)\<bar> \<le> 100 * 2048" "\<bar>vToG m * (v - uvOffset info)\<bar> \<le> 208 * 2048"
      "\<bar>uToB m * (u - uvOffset info)\<bar> \<le> 548 * 2048"
      by (rule abs_mult_le; use mb s in linarith)+
    with s(5) show ?thesis by linarith
  qed
  let ?c = "if yy > yOffset info then yy - yOffset info else 0"
  let ?s = "yScale info * ?c + rounding info"
  let ?g = "clampU8 (drop_bit (valueShift info) ?s)"
  have grey: "convert_pixel m info yy u v = (?g, ?g, ?g)" if "u = uvOffset info" "v = uvOffset info"
    using that by (simp add: convert_pixel_def pixel_sums_def Let_def)
  have black: "?g = 0" if "yy \<le> yOffset info"
  proof (rule clamp_zero)
    show "0 \<le> ?s" "?s < 2 ^ valueShift info"
      using that by (atomize (full), cases rule: sample_info_cases [of f full]) (simp_all add: info)
  qed
  have white: "?g = 255" if "white_level info full \<le> yy"
  proof (rule clamp_full)
    show "255 * 2 ^ valueShift info \<le> ?s"
      using that
      by (cases rule: sample_info_cases [of f full]; cases full) (simp_all add: info white_level_def)
  qed
  show ?thesis using bound grey black white by auto
qed

lemma color_conversion_witness:
  "convert_pixel (colorMatrixForStandard VAProcColorStandardBT709 1920 False)
     (videoProcSampleInfoForFormat NV_FORMAT_NV12 False) 240 128 128 = (255, 255, 255)"
  using color_conversion [of _ VAProcColorStandardBT709 1920 False _ NV_FORMAT_NV12 240 128 128, OF refl refl]
  by (simp add: videoProcSampleInfoForFormat_def white_level_def)

lemma all_less_2: "(\<forall>i < 2. P i) = (P 0 \<and> P (1 :: nat))"
  by (auto simp: less_Suc_eq numeral_eq_Suc)

lemma all_less_4: "(\<forall>i < 4. P i) = (P 0 \<and> P 1 \<and> P 2 \<and> P (3 :: nat))"
  by (auto simp: less_Suc_eq numeral_eq_Suc)

text \<open>Every RGB format is written in the order its four-character code names: the channel of
  each byte is the letter in that position, and an alpha or padding byte is opaque.\<close>

theorem rgb_pixel_layout:
  assumes "isRgbFourcc fourcc"
  shows "\<forall>i < 4. writeRgbPixel fourcc r g b ! i =
    (let letter = (unat fourcc div 256 ^ i) mod 256
     in if letter = 82 then r else if letter = 71 then g else if letter = 66 then b else 255)"
  unfolding all_less_4 using assms unfolding isRgbFourcc_def
  by (elim disjE; simp add: writeRgbPixel_def Let_def)

lemma rgb_pixel_layout_witness: "writeRgbPixel VA_FOURCC_BGRX 1 2 3 ! 2 = 1"
proof -
  have "isRgbFourcc VA_FOURCC_BGRX" by (simp add: isRgbFourcc_def)
  from rgb_pixel_layout [OF this, of 1 2 3] have "writeRgbPixel VA_FOURCC_BGRX 1 2 3 ! 2 =
      (let letter = (unat VA_FOURCC_BGRX div 256 ^ 2) mod 256
       in if letter = 82 then 1 else if letter = 71 then 2 else if letter = 66 then 3 else 255)" by simp
  then show ?thesis by (simp add: Let_def)
qed

section \<open>Correctness of the CPU loop\<close>

lemma nth_write_at:
  assumes "off + length xs \<le> length mem" "j < length mem"
  shows "write_at mem off xs ! j = (if off \<le> j \<and> j < off + length xs then xs ! (j - off) else mem ! j)"
  using assms by (auto simp: write_at_def nth_append min_def)

text \<open>Disjoint block writes in sequence: each block ends up as written, the rest is unchanged.\<close>

lemma fold_writes:
  assumes fit: "\<forall>p \<in> set ps. off p + n \<le> length dst" and len: "\<forall>p. length (blk p) = n"
    and apart: "\<forall>p \<in> set ps. \<forall>q \<in> set ps. p \<noteq> q \<longrightarrow> off p + n \<le> off q \<or> off q + n \<le> off p"
  shows "length (fold (\<lambda>p d. write_at d (off p) (blk p)) ps dst) = length dst \<and>
    (\<forall>p \<in> set ps. \<forall>j < n. fold (\<lambda>p d. write_at d (off p) (blk p)) ps dst ! (off p + j) = blk p ! j) \<and>
    (\<forall>k < length dst. (\<forall>p \<in> set ps. \<not> (off p \<le> k \<and> k < off p + n)) \<longrightarrow>
      fold (\<lambda>p d. write_at d (off p) (blk p)) ps dst ! k = dst ! k)"
  using fit apart
proof (induction ps rule: rev_induct)
  case Nil
  then show ?case by simp
next
  case (snoc q ps)
  let ?W = "fold (\<lambda>p d. write_at d (off p) (blk p))"
  let ?d = "?W ps dst"
  have f: "off q + length (blk q) \<le> length dst" using snoc.prems(1) len by simp
  from snoc have IH: "length ?d = length dst" "\<forall>p \<in> set ps. \<forall>j < n. ?d ! (off p + j) = blk p ! j"
    "\<forall>k < length dst. (\<forall>p \<in> set ps. \<not> (off p \<le> k \<and> k < off p + n)) \<longrightarrow> ?d ! k = dst ! k"
    by simp_all
  have w: "?W (ps @ [q]) dst = write_at ?d (off q) (blk q)" by simp
  have nth: "?W (ps @ [q]) dst ! k = (if off q \<le> k \<and> k < off q + n then blk q ! (k - off q) else ?d ! k)"
    if "k < length dst" for k
    unfolding w using nth_write_at [of "off q" "blk q" ?d k] f that IH(1) len by simp
  have "?W (ps @ [q]) dst ! (off p + j) = blk p ! j" if p: "p \<in> set (ps @ [q])" and j: "j < n" for p j
  proof -
    have lt: "off p + j < length dst" using snoc.prems(1) p j by force
    show ?thesis
    proof (cases "p = q")
      case True
      with nth [OF lt] j show ?thesis by simp
    next
      case False
      then have "off p + n \<le> off q \<or> off q + n \<le> off p" using snoc.prems(2) p by auto
      with nth [OF lt] j IH(2) p False show ?thesis by auto
    qed
  qed
  moreover have "?W (ps @ [q]) dst ! k = dst ! k"
    if "k < length dst" "\<forall>p \<in> set (ps @ [q]). \<not> (off p \<le> k \<and> k < off p + n)" for k
    using nth [OF that(1)] that IH(3) by auto
  moreover have "length (?W (ps @ [q]) dst) = length dst"
    unfolding w using f IH(1) by simp
  ultimately show ?case by blast
qed

lemma fold_nested:
  "fold (\<lambda>y. fold (g y) xs) ys d = fold (\<lambda>p. g (fst p) (snd p)) (List.product ys xs) d"
  by (induction ys arbitrary: d) (simp_all add: fold_map comp_def)

lemma length_writeRgbPixel [simp]: "length (writeRgbPixel f r g b) = 4"
  by (simp add: writeRgbPixel_def)

lemma length_cpu_pixel [simp]: "length (cpu_pixel is16 m info f ys uvs w x y) = 4"
  by (simp add: cpu_pixel_def Let_def split: prod.splits)

lemma pixel_block_in:
  fixes x y w h stride :: nat
  assumes "x < w" "y < h" "w * 4 \<le> stride" "h * stride \<le> L"
  shows "y * stride + x * 4 + 4 \<le> L"
proof -
  have "(y + 1) * stride \<le> h * stride" using assms(2) by (intro mult_le_mono1) simp
  then show ?thesis using assms by simp
qed

lemma pixel_blocks_apart:
  fixes x y x' y' w stride :: nat
  assumes "x < w" "x' < w" "w * 4 \<le> stride" "(y, x) \<noteq> (y', x')"
  shows "y * stride + x * 4 + 4 \<le> y' * stride + x' * 4 \<or> y' * stride + x' * 4 + 4 \<le> y * stride + x * 4"
proof -
  consider "y < y'" | "y' < y" | "y = y'" "x < x'" | "y = y'" "x' < x" using assms(4) by fastforce
  then show ?thesis
  proof cases
    case 1
    then have "(y + 1) * stride \<le> y' * stride" by (intro mult_le_mono1) simp
    with assms show ?thesis by simp
  next
    case 2
    then have "(y' + 1) * stride \<le> y * stride" by (intro mult_le_mono1) simp
    with assms show ?thesis by simp
  qed simp_all
qed

text \<open>The CPU conversion writes exactly the pixels of the region: the four bytes of every pixel
  are the conversion of its luma sample and its chroma pair, the destination keeps its length,
  and the padding between the rows and after them is untouched.\<close>

theorem cpu_conversion:
  assumes "w * 4 \<le> stride" "h * stride \<le> length dst"
    and out: "out = cpu_convert is16 m info fourcc ys uvs w h stride dst"
  shows "length out = length dst \<and>
    (\<forall>x < w. \<forall>y < h. take 4 (drop (y * stride + x * 4) out) = cpu_pixel is16 m info fourcc ys uvs w x y) \<and>
    (\<forall>k < length dst. (\<forall>x < w. \<forall>y < h. \<not> (y * stride + x * 4 \<le> k \<and> k < y * stride + x * 4 + 4)) \<longrightarrow>
      out ! k = dst ! k)"
proof -
  let ?ps = "List.product [0..<h] [0..<w]"
  let ?off = "\<lambda>p :: nat \<times> nat. fst p * stride + snd p * 4"
  let ?blk = "\<lambda>p. cpu_pixel is16 m info fourcc ys uvs w (snd p) (fst p)"
  have out: "out = fold (\<lambda>p d. write_at d (?off p) (?blk p)) ?ps dst"
    unfolding out cpu_convert_def fold_nested ..
  have fits: "\<forall>p \<in> set ?ps. ?off p + 4 \<le> length dst"
    using pixel_block_in [OF _ _ assms(1,2)] by auto
  have len: "\<forall>p. length (?blk p) = 4" by simp
  have apart: "\<forall>p \<in> set ?ps. \<forall>q \<in> set ?ps. p \<noteq> q \<longrightarrow> ?off p + 4 \<le> ?off q \<or> ?off q + 4 \<le> ?off p"
  proof (intro ballI impI)
    fix p q assume "p \<in> set ?ps" "q \<in> set ?ps" and ne: "p \<noteq> q"
    then have "snd p < w" "snd q < w" by auto
    moreover have "(fst p, snd p) \<noteq> (fst q, snd q)" using ne by simp
    ultimately show "?off p + 4 \<le> ?off q \<or> ?off q + 4 \<le> ?off p"
      by (intro pixel_blocks_apart [OF _ _ assms(1)])
  qed
  note F = fold_writes [of ?ps ?off 4 dst ?blk, OF fits len apart, folded out]
  note R = F [THEN conjunct1] F [THEN conjunct2, THEN conjunct1] F [THEN conjunct2, THEN conjunct2]
  have "take 4 (drop (y * stride + x * 4) out) = cpu_pixel is16 m info fourcc ys uvs w x y"
    if "x < w" "y < h" for x y
  proof (rule nth_equalityI)
    have fits: "y * stride + x * 4 + 4 \<le> length out"
      using pixel_block_in [OF that assms(1,2)] R(1) by simp
    then show "length (take 4 (drop (y * stride + x * 4) out)) =
        length (cpu_pixel is16 m info fourcc ys uvs w x y)" by simp
    fix j assume "j < length (take 4 (drop (y * stride + x * 4) out))"
    then have j: "j < 4" by simp
    have "(y, x) \<in> set ?ps" using that by simp
    with R(2) j have "out ! (?off (y, x) + j) = ?blk (y, x) ! j" by blast
    then show "take 4 (drop (y * stride + x * 4) out) ! j =
        cpu_pixel is16 m info fourcc ys uvs w x y ! j"
      using j fits by simp
  qed
  moreover have "out ! k = dst ! k"
    if "k < length dst" "\<forall>x < w. \<forall>y < h. \<not> (y * stride + x * 4 \<le> k \<and> k < y * stride + x * 4 + 4)" for k
  proof -
    have "\<forall>p \<in> set ?ps. \<not> (?off p \<le> k \<and> k < ?off p + 4)"
    proof
      fix p assume "p \<in> set ?ps"
      then have "snd p < w" "fst p < h" by auto
      with that(2) show "\<not> (?off p \<le> k \<and> k < ?off p + 4)" by blast
    qed
    with R(3) that(1) show ?thesis by blast
  qed
  ultimately show ?thesis using R(1) by blast
qed

lemma cpu_conversion_witness:
  "take 4 (drop 4 (cpu_convert False (colorMatrixForStandard VAProcColorStandardBT601 2 False)
      (videoProcSampleInfoForFormat NV_FORMAT_NV12 False) VA_FOURCC_RGBA [16, 235, 16, 235] [128, 128]
      2 2 8 (replicate 16 0))) = [255, 255, 255, 255]"
proof -
  let ?m = "colorMatrixForStandard VAProcColorStandardBT601 2 False"
  let ?i = "videoProcSampleInfoForFormat NV_FORMAT_NV12 False"
  have s: "2 * 4 \<le> (8 :: nat)" "2 * 8 \<le> length (replicate 16 (0 :: u8))" by simp_all
  have "convert_pixel ?m ?i 235 128 128 = (255, 255, 255)"
    by (simp add: videoProcSampleInfoForFormat_def convert_pixel_def pixel_sums_def Let_def clampU8_def
        drop_bit_int_def)
  then show ?thesis
    using cpu_conversion [OF s refl, of False ?m ?i VA_FOURCC_RGBA "[16, 235, 16, 235]" "[128, 128]"]
    by (simp add: cpu_pixel_def load_sample_def uv_index_def writeRgbPixel_def Let_def all_less_2)
qed

section \<open>The chroma samples\<close>

text \<open>For an even width every chroma pair that the CPU loop reads lies in the row of its line
  pair and inside the staging buffer of \<open>w * ((h + 1) / 2)\<close> samples. For an odd width the V
  sample of the last column is read from behind the row: it is the U sample of the next line
  pair, and for the last line pair it lies behind the end of the copied samples.\<close>

theorem chroma_pair_position:
  assumes "x < w" "y < h"
  shows "(even w \<longrightarrow> (y div 2) * w \<le> uv_index w x y \<and>
      uv_index w x y + 1 < (y div 2 + 1) * w \<and> uv_index w x y + 1 < w * ((h + 1) div 2)) \<and>
    (odd w \<longrightarrow> uv_index w (w - 1) y + 1 = uv_index w 0 (y + 2) \<and>
      uv_index w (w - 1) (h - 1) + 1 = w * ((h + 1) div 2))"
proof -
  have e: "x - x mod 2 + 1 < w" if ev: "even w"
  proof -
    obtain k where k: "w = 2 * k" using ev by (rule evenE)
    have "x div 2 < k" using assms(1) k by simp
    moreover have "x - x mod 2 = 2 * (x div 2)" by (simp add: minus_mod_eq_mult_div)
    ultimately show ?thesis using k by simp
  qed
  have "y div 2 + 1 \<le> (h + 1) div 2" using assms(2) by linarith
  then have "(y div 2 + 1) * w \<le> (h + 1) div 2 * w" by (rule mult_le_mono1)
  then have rows: "(y div 2 + 1) * w \<le> w * ((h + 1) div 2)" by (simp only: mult.commute)
  have even: "(y div 2) * w \<le> uv_index w x y \<and> uv_index w x y + 1 < (y div 2 + 1) * w" if "even w"
    using e [OF that] mod_less_eq_dividend [of x 2] unfolding uv_index_def
    by (simp add: algebra_simps) linarith
  have last: "w - 1 - (w - 1) mod 2 + 1 = w" if "odd w"
  proof -
    have "even (w - 1)" using that by simp
    then have "(w - 1) mod 2 = 0" by (rule dvd_imp_mod_0)
    then show ?thesis using assms(1) by simp
  qed
  have "uv_index w (w - 1) y + 1 = uv_index w 0 (y + 2)" if "odd w"
  proof -
    have "uv_index w (w - 1) y + 1 = y div 2 * w + (w - 1 - (w - 1) mod 2 + 1)"
      by (simp add: uv_index_def)
    then show ?thesis unfolding last [OF that] by (simp add: uv_index_def)
  qed
  moreover have "uv_index w (w - 1) (h - 1) + 1 = w * ((h + 1) div 2)" if "odd w"
  proof -
    have "uv_index w (w - 1) (h - 1) + 1 = (h - 1) div 2 * w + (w - 1 - (w - 1) mod 2 + 1)"
      by (simp add: uv_index_def)
    also have "\<dots> = ((h - 1) div 2 + 1) * w" unfolding last [OF that] by simp
    also have "(h - 1) div 2 + 1 = (h + 1) div 2" using assms(2) by linarith
    finally show ?thesis by (simp only: mult.commute)
  qed
  ultimately show ?thesis using even rows by fastforce
qed

lemma chroma_pair_position_witness:
  "uv_index 3 2 0 + 1 = uv_index 3 0 2 \<and> uv_index 4 3 1 + 1 < 4 * ((2 + 1) div 2)"
  using chroma_pair_position [of 0 3 0 2] chroma_pair_position [of 3 4 1 2]
  by (simp del: add_2_eq_Suc add_2_eq_Suc')

section \<open>The budget of the scratch buffers\<close>

lemma and_not_low_bits:
  fixes x :: usize
  shows "unat (x AND NOT 1048575) = unat x - unat x mod 1048576"
proof -
  let ?t = "take_bit 20 x"
  have m: "(1048575 :: usize) = mask 20" by (simp add: mask_eq_exp_minus_1)
  have "?t OR (x AND NOT (mask 20)) = x"
    by (rule bit_eqI) (auto simp: bit_simps)
  moreover have "?t + (x AND NOT (mask 20)) = ?t OR (x AND NOT (mask 20))"
    by (rule disjunctive_add) (simp add: bit_simps)
  ultimately have "x AND NOT (mask 20) = x - ?t" by (metis add_diff_cancel_left')
  moreover have t: "unat ?t = unat x mod 1048576"
    by (simp only: unsigned_take_bit_eq) (simp only: take_bit_eq_mod, simp)
  moreover have "?t \<le> x" unfolding word_le_nat_alt t by simp
  ultimately show ?thesis unfolding m by (simp only: unat_sub_le t)
qed

lemma round_scratch_ge: "required \<le> roundVideoProcBufferSize required"
proof (cases "required > SIZE_MAX - 1048575")
  case True
  then show ?thesis by (simp add: roundVideoProcBufferSize_def)
next
  case False
  let ?x = "required + 1048575"
  have u: "unat ?x = unat required + 1048575"
    by (subst unat_add_no_overflow) (use False in \<open>simp_all add: word_less_nat_alt\<close>)
  have "unat ?x mod 1048576 < 1048576" by simp
  then have "unat required \<le> unat ?x - unat ?x mod 1048576" unfolding u by linarith
  moreover have "roundVideoProcBufferSize required = ?x AND NOT 1048575"
    using False by (simp add: roundVideoProcBufferSize_def algebra_simps)
  ultimately show ?thesis by (simp only: word_le_nat_alt and_not_low_bits)
qed

definition scratch_total :: "(u64 \<times> usize) list \<Rightarrow> nat" where
  "scratch_total bufs = sum_list (map (\<lambda>b. unat (snd b)) bufs)"

lemma scratch_update:
  assumes "k < length bufs"
  shows "scratch_total (bufs[k := (p, n)]) + unat (snd (bufs ! k)) = scratch_total bufs + unat n"
proof -
  let ?xs = "map (\<lambda>b. unat (snd b)) bufs"
  have "?xs ! k \<le> sum_list ?xs" using assms by (intro member_le_sum_list) (auto simp: nth_mem)
  then show ?thesis
    using assms sum_list_update [of k ?xs "unat n"] by (simp add: scratch_total_def map_update)
qed

lemma length_3_cases: "length xs = 3 \<Longrightarrow> \<exists>a b c. xs = [a, b, c]"
  by (auto simp: numeral_3_eq_3 length_Suc_conv)

lemma scratch_bytes_unat:
  assumes "length bufs = 3" "scratch_total bufs < 18446744073709551616"
  shows "unat (scratch_bytes bufs) = scratch_total bufs"
proof -
  obtain a b c where b: "bufs = [a, b, c]"
    using length_3_cases [OF assms(1)] by blast
  have t: "scratch_total bufs = unat (snd a) + unat (snd b) + unat (snd c)"
    by (simp add: b scratch_total_def)
  then have "unat (snd a + snd b) = unat (snd a) + unat (snd b)"
    using assms(2) by (subst unat_add_no_overflow) simp_all
  then have "unat (snd a + snd b + snd c) = unat (snd a) + unat (snd b) + unat (snd c)"
    using assms(2) t by (subst unat_add_no_overflow) simp_all
  with t show ?thesis by (simp add: b scratch_bytes_def)
qed

lemma scratch_member: "k < length bufs \<Longrightarrow> unat (snd (bufs ! k)) \<le> scratch_total bufs"
  unfolding scratch_total_def by (rule member_le_sum_list) (auto simp: nth_mem rev_image_eqI)

text \<open>The budget test that both functions make before they replace a buffer.\<close>

lemma budget_kept:
  assumes len: "length bufs = 3" "k < 3" and old: "scratch_total bufs \<le> unat m"
    and fits: "\<not> n > m" "\<not> scratch_bytes bufs - snd (bufs ! k) > m - n"
  shows "scratch_total (bufs[k := (p, n)]) \<le> unat m"
proof -
  have sb: "unat (scratch_bytes bufs) = scratch_total bufs"
    using len(1) old unat_u64_less [of m] by (intro scratch_bytes_unat) simp_all
  have le: "unat (snd (bufs ! k)) \<le> scratch_total bufs" using len by (intro scratch_member) simp
  then have "snd (bufs ! k) \<le> scratch_bytes bufs" by (simp add: word_le_nat_alt sb)
  then have "unat (scratch_bytes bufs - snd (bufs ! k)) = scratch_total bufs - unat (snd (bufs ! k))"
    by (simp only: unat_sub_le sb)
  moreover have "unat (m - n) = unat m - unat n" "unat n \<le> unat m"
    using fits(1) by (simp_all add: unat_sub_le word_le_nat_alt not_less)
  ultimately have "scratch_total bufs - unat (snd (bufs ! k)) + unat n \<le> unat m"
    using fits(2) by (simp add: word_less_nat_alt)
  with scratch_update [of k bufs p n] len le show ?thesis by simp
qed

text \<open>C20. The GPU scratch buffers never exceed their budget together: a call that succeeds leaves a
  buffer of at least the requested size, one that fails changes nothing, and no call touches
  another buffer.\<close>

theorem gpu_scratch_budget:
  assumes run: "ensureVideoProcBuffer prune mem freed drv k required = (r, drv')"
    and len: "length (vp_gpu drv) = 3" "k < 3"
    and old: "scratch_total (vp_gpu drv) \<le> unat (vp_scratchMaxBytes drv)"
    and ptr: "\<forall>n p. mem n = Some p \<longrightarrow> p \<noteq> 0"
  shows "scratch_total (vp_gpu drv') \<le> unat (vp_scratchMaxBytes drv') \<and> length (vp_gpu drv') = 3 \<and>
    vp_scratchMaxBytes drv' = vp_scratchMaxBytes drv \<and> vp_cpu drv' = vp_cpu drv \<and>
    (if r then required \<le> snd (vp_gpu drv' ! k) \<and> fst (vp_gpu drv' ! k) \<noteq> 0 else drv' = drv) \<and>
    (\<forall>j < 3. j \<noteq> k \<longrightarrow> vp_gpu drv' ! j = vp_gpu drv ! j)"
proof -
  obtain p n where pn: "vp_gpu drv ! k = (p, n)" by (cases "vp_gpu drv ! k")
  let ?a = "roundVideoProcBufferSize required"
  consider (same) "drv' = drv" "r \<longrightarrow> n \<ge> required \<and> p \<noteq> 0"
    | (new) q where "r" "mem ?a = Some q" "drv' = drv\<lparr>vp_gpu := (vp_gpu drv)[k := (q, ?a)]\<rparr>"
        "\<not> ?a > vp_scratchMaxBytes drv"
        "\<not> scratch_bytes (vp_gpu drv) - n > vp_scratchMaxBytes drv - ?a"
    using run by (auto simp: ensureVideoProcBuffer_def pn Let_def split: if_splits option.splits)
  then show ?thesis
  proof cases
    case same
    then show ?thesis using old len pn by auto
  next
    case new
    have "scratch_total ((vp_gpu drv)[k := (q, ?a)]) \<le> unat (vp_scratchMaxBytes drv)"
      using new pn by (intro budget_kept len old) simp_all
    moreover have "q \<noteq> 0" using ptr new(2) by blast
    ultimately show ?thesis using new len round_scratch_ge by simp
  qed
qed

definition sample_scratch :: videoproc where
  "sample_scratch =
     \<lparr>vp_gpu = replicate 3 (0, 0), vp_cpu = replicate 3 (0, 0), vp_scratchMaxBytes = 4194304,
      vp_framesSinceCpuFallback = 0\<rparr>"

lemma sample_scratch_simps [simp]:
  "length (vp_gpu sample_scratch) = 3" "length (vp_cpu sample_scratch) = 3"
  "scratch_total (vp_gpu sample_scratch) = 0" "scratch_total (vp_cpu sample_scratch) = 0"
  "vp_scratchMaxBytes sample_scratch = 4194304"
  by (simp_all add: sample_scratch_def scratch_total_def sum_list_replicate)

lemma gpu_scratch_budget_witness:
  "scratch_total (vp_gpu (snd (ensureVideoProcBuffer None (\<lambda>_. Some 7) True sample_scratch 2 2000000)))
     \<le> 4194304"
proof -
  let ?R = "ensureVideoProcBuffer None (\<lambda>_. Some 7) True sample_scratch 2 2000000"
  have "?R = (fst ?R, snd ?R)" by simp
  from gpu_scratch_budget [OF this]
  have "scratch_total (vp_gpu (snd ?R)) \<le> unat (vp_scratchMaxBytes (snd ?R)) \<and>
      vp_scratchMaxBytes (snd ?R) = vp_scratchMaxBytes sample_scratch" by auto
  then show ?thesis by auto
qed

text \<open>The same for the CPU scratch buffers, where \<open>realloc\<close> replaces the old block.\<close>

theorem cpu_scratch_budget:
  assumes run: "ensureCpuVideoProcBuffer mem drv k required = (r, drv')"
    and len: "length (vp_cpu drv) = 3" "k < 3"
    and old: "scratch_total (vp_cpu drv) \<le> unat (vp_scratchMaxBytes drv)"
    and ptr: "\<forall>n p. mem n = Some p \<longrightarrow> p \<noteq> 0"
  shows "scratch_total (vp_cpu drv') \<le> unat (vp_scratchMaxBytes drv') \<and> length (vp_cpu drv') = 3 \<and>
    vp_scratchMaxBytes drv' = vp_scratchMaxBytes drv \<and> vp_gpu drv' = vp_gpu drv \<and>
    (if r then required \<le> snd (vp_cpu drv' ! k) \<and> fst (vp_cpu drv' ! k) \<noteq> 0 else drv' = drv) \<and>
    (\<forall>j < 3. j \<noteq> k \<longrightarrow> vp_cpu drv' ! j = vp_cpu drv ! j)"
proof -
  obtain p n where pn: "vp_cpu drv ! k = (p, n)" by (cases "vp_cpu drv ! k")
  let ?a = "roundVideoProcBufferSize required"
  consider (same) "drv' = drv" "r \<longrightarrow> n \<ge> required \<and> p \<noteq> 0"
    | (new) q where "r" "mem ?a = Some q" "drv' = drv\<lparr>vp_cpu := (vp_cpu drv)[k := (q, ?a)]\<rparr>"
        "\<not> ?a > vp_scratchMaxBytes drv"
        "\<not> scratch_bytes (vp_cpu drv) - n > vp_scratchMaxBytes drv - ?a"
    using run by (auto simp: ensureCpuVideoProcBuffer_def pn Let_def split: if_splits option.splits)
  then show ?thesis
  proof cases
    case same
    then show ?thesis using old len pn by auto
  next
    case new
    have "scratch_total ((vp_cpu drv)[k := (q, ?a)]) \<le> unat (vp_scratchMaxBytes drv)"
      using new pn by (intro budget_kept len old) simp_all
    moreover have "q \<noteq> 0" using ptr new(2) by blast
    ultimately show ?thesis using new len round_scratch_ge by simp
  qed
qed

lemma cpu_scratch_budget_witness:
  "scratch_total (vp_cpu (snd (ensureCpuVideoProcBuffer (\<lambda>_. Some 7) sample_scratch 2 2000000)))
     \<le> 4194304"
proof -
  let ?R = "ensureCpuVideoProcBuffer (\<lambda>_. Some 7) sample_scratch 2 2000000"
  have "?R = (fst ?R, snd ?R)" by simp
  from cpu_scratch_budget [OF this]
  have "scratch_total (vp_cpu (snd ?R)) \<le> unat (vp_scratchMaxBytes (snd ?R)) \<and>
      vp_scratchMaxBytes (snd ?R) = vp_scratchMaxBytes sample_scratch" by auto
  then show ?thesis by auto
qed

section \<open>Reclaiming idle scratch memory\<close>

fun note_successes :: "(nat \<Rightarrow> bool) \<Rightarrow> bool list \<Rightarrow> videoproc \<Rightarrow> videoproc" where
  "note_successes freed [] drv = drv"
| "note_successes freed (d # ds) drv =
     note_successes freed ds (noteVideoProcCudaSuccessLocked freed d drv)"

lemma note_counts:
  "vp_framesSinceCpuFallback (noteVideoProcCudaSuccessLocked freed d drv) =
     (if vp_framesSinceCpuFallback drv < 120 then vp_framesSinceCpuFallback drv + 1
      else vp_framesSinceCpuFallback drv)"
  by (simp add: noteVideoProcCudaSuccessLocked_def trimVideoProcScratchLocked_def Let_def)

lemma note_below:
  "vp_framesSinceCpuFallback drv < 119 \<Longrightarrow>
   noteVideoProcCudaSuccessLocked freed d drv =
     drv\<lparr>vp_framesSinceCpuFallback := vp_framesSinceCpuFallback drv + 1\<rparr>"
proof -
  assume a: "vp_framesSinceCpuFallback drv < 119"
  then have "unat (vp_framesSinceCpuFallback drv + 1) = unat (vp_framesSinceCpuFallback drv) + 1"
    by (subst unat_add_no_overflow) (simp_all add: word_less_nat_alt)
  with a have "\<not> vp_framesSinceCpuFallback drv + 1 \<ge> 120" "vp_framesSinceCpuFallback drv < 120"
    by (simp_all add: word_less_nat_alt word_le_nat_alt)
  then show ?thesis by (simp add: noteVideoProcCudaSuccessLocked_def Let_def)
qed

lemma note_successes_below:
  "unat (vp_framesSinceCpuFallback drv) + length ds < 120 \<Longrightarrow>
   note_successes freed ds drv =
     drv\<lparr>vp_framesSinceCpuFallback := vp_framesSinceCpuFallback drv + of_nat (length ds)\<rparr>"
proof (induction ds arbitrary: drv)
  case Nil
  then show ?case by simp
next
  case (Cons d ds)
  let ?n = "vp_framesSinceCpuFallback drv"
  have lt: "?n < 119" using Cons.prems by (simp add: word_less_nat_alt)
  have u: "unat (?n + 1) = unat ?n + 1"
    using Cons.prems by (subst unat_add_no_overflow) simp_all
  have "note_successes freed ds (drv\<lparr>vp_framesSinceCpuFallback := ?n + 1\<rparr>) =
      drv\<lparr>vp_framesSinceCpuFallback := ?n + 1\<rparr>\<lparr>vp_framesSinceCpuFallback := (?n + 1) + of_nat (length ds)\<rparr>"
    using Cons.IH [of "drv\<lparr>vp_framesSinceCpuFallback := ?n + 1\<rparr>"] Cons.prems u by simp
  then show ?case by (simp add: note_below [OF lt] ac_simps)
qed

lemma all_less_3: "(\<forall>i < 3. P i) = (P 0 \<and> P 1 \<and> P (2 :: nat))"
  by (auto simp: less_Suc_eq numeral_eq_Suc)

lemma three_buffers:
  "length bufs = 3 \<Longrightarrow> list_ex P (take 3 bufs) = (\<exists>i < 3. P (bufs ! i))"
  by (auto simp: list_ex_length)

text \<open>The step at the limit frees what the path does not need.\<close>

lemma note_at_limit:
  assumes n: "vp_framesSinceCpuFallback drv = 119 \<or> vp_framesSinceCpuFallback drv = 120"
    and len: "length (vp_gpu drv) = 3" "length (vp_cpu drv) = 3" and freed: "\<forall>i < 3. freed i"
  shows "(\<forall>i < 3. fst (vp_cpu (noteVideoProcCudaSuccessLocked freed d drv) ! i) = 0) \<and>
    (d \<longrightarrow> (\<forall>i < 3. fst (vp_gpu (noteVideoProcCudaSuccessLocked freed d drv) ! i) = 0)) \<and>
    (\<not> d \<longrightarrow> vp_gpu (noteVideoProcCudaSuccessLocked freed d drv) = vp_gpu drv)"
proof -
  let ?drv1 = "if vp_framesSinceCpuFallback drv < 120
    then drv\<lparr>vp_framesSinceCpuFallback := vp_framesSinceCpuFallback drv + 1\<rparr> else drv"
  have e: "vp_framesSinceCpuFallback ?drv1 = 120" "vp_gpu ?drv1 = vp_gpu drv" "vp_cpu ?drv1 = vp_cpu drv"
    using n by auto
  let ?G = "\<exists>i < 3. fst (vp_gpu drv ! i) \<noteq> 0" and ?C = "\<exists>i < 3. fst (vp_cpu drv ! i) \<noteq> 0"
  have r: "noteVideoProcCudaSuccessLocked freed d drv =
      (if (d \<and> ?G) \<or> ?C then trimVideoProcScratchLocked freed (d \<and> ?G) ?C ?drv1 else ?drv1)"
    unfolding noteVideoProcCudaSuccessLocked_def Let_def e three_buffers [OF len(1)] three_buffers [OF len(2)]
    by simp
  have "fst (case vp_gpu drv ! i of (p, m) \<Rightarrow> if p \<noteq> 0 \<and> freed i then (0, 0) else (p, m)) = 0"
    if "i < 3" for i
    using that freed by (auto split: prod.splits)
  then show ?thesis
    unfolding r trimVideoProcScratchLocked_def Let_def e
    using e by (auto simp: nth_Cons' )
qed

lemma note_successes_append:
  "note_successes freed (xs @ ys) drv = note_successes freed ys (note_successes freed xs drv)"
  by (induction xs arbitrary: drv) simp_all

text \<open>Scratch memory that no conversion needs is given back: once 120 conversions in a row ran
  on the GPU since the last CPU fallback, the CPU buffers are gone, and the GPU buffers as well
  when the 120th conversion took the direct path; before that nothing is freed.\<close>

theorem idle_scratch_reclaimed:
  assumes start: "vp_framesSinceCpuFallback drv = 0"
    and len: "length (vp_gpu drv) = 3" "length (vp_cpu drv) = 3" and freed: "\<forall>i < 3. freed i"
    and ds: "length ds = 119"
  shows "vp_gpu (note_successes freed ds drv) = vp_gpu drv \<and>
    vp_cpu (note_successes freed ds drv) = vp_cpu drv \<and>
    (\<forall>i < 3. fst (vp_cpu (note_successes freed (ds @ [d]) drv) ! i) = 0) \<and>
    (d \<longrightarrow> (\<forall>i < 3. fst (vp_gpu (note_successes freed (ds @ [d]) drv) ! i) = 0)) \<and>
    (\<not> d \<longrightarrow> vp_gpu (note_successes freed (ds @ [d]) drv) = vp_gpu drv)"
proof -
  let ?d = "note_successes freed ds drv"
  have r: "?d = drv\<lparr>vp_framesSinceCpuFallback := 119\<rparr>"
    using note_successes_below [of drv ds freed] start ds by simp
  have e: "note_successes freed (ds @ [d]) drv = noteVideoProcCudaSuccessLocked freed d ?d"
    by (simp add: note_successes_append)
  show ?thesis unfolding e
    using note_at_limit [of ?d freed d] r len freed by simp
qed

lemma idle_scratch_reclaimed_witness:
  "fst (vp_cpu (note_successes (\<lambda>_. True) (replicate 119 False @ [True])
     (sample_scratch\<lparr>vp_cpu := replicate 3 (9, 1048576)\<rparr>)) ! 0) = 0"
  using idle_scratch_reclaimed [of "sample_scratch\<lparr>vp_cpu := replicate 3 (9, 1048576)\<rparr>"
      "\<lambda>_. True" "replicate 119 False" True]
  by (simp add: sample_scratch_def)

end
