(* ===== verification/AppendBuffer.thy ===== *)
theory AppendBuffer
  imports Prelude
begin

text \<open>
  The append-only byte buffer of \<open>src/appendable-buffer.c\<close>, which collects the
  bitstream, the slice offsets and the slice parameters of a picture.

  \<open>ab_buf\<close> is the allocation (\<open>None\<close> is \<open>NULL\<close>), a list of \<open>ab_allocated\<close> bytes of
  which the first \<open>ab_size\<close> are in use. \<open>memalign\<close> belongs to the C library and is a
  parameter: \<open>mem n\<close> is \<open>None\<close> when the allocation of \<open>n\<close> bytes fails, otherwise the
  fresh block with whatever bytes it holds. \<open>alloc_block\<close> states the only thing relied
  on: a block of \<open>n\<close> bytes has \<open>n\<close> bytes.
\<close>

type_synonym allocator = "usize \<Rightarrow> u8 list option"

definition alloc_block :: "allocator \<Rightarrow> bool" where
  "alloc_block mem \<longleftrightarrow> (\<forall>n b. mem n = Some b \<longrightarrow> length b = unat n)"

record AppendableBuffer =
  ab_buf :: "u8 list option"
  ab_size :: usize
  ab_allocated :: usize
  ab_failed :: bool

definition ab_empty :: AppendableBuffer where
  "ab_empty = \<lparr>ab_buf = None, ab_size = 0, ab_allocated = 0, ab_failed = False\<rparr>"

definition ab_cells :: "AppendableBuffer \<Rightarrow> u8 list" where
  "ab_cells b = (case ab_buf b of None \<Rightarrow> [] | Some m \<Rightarrow> m)"

text \<open>The copy of the used bytes into a fresh block, shared by reserve and trim.\<close>

definition copy_used :: "AppendableBuffer \<Rightarrow> u8 list \<Rightarrow> u8 list" where
  "copy_used b fresh =
     (if ab_buf b \<noteq> None \<and> ab_size b \<noteq> 0
      then write_at fresh 0 (take (unat (ab_size b)) (ab_cells b)) else fresh)"

definition reserveBuffer ::
    "allocator \<Rightarrow> AppendableBuffer \<Rightarrow> usize \<Rightarrow> bool \<times> AppendableBuffer" where
  "reserveBuffer mem b required =
     (if required \<le> ab_allocated b then (True, b)
      else
        let capacity = grow_capacity (if ab_allocated b \<noteq> 0 then ab_allocated b else 256) required
        in case mem capacity of
             None \<Rightarrow> (False, b\<lparr>ab_failed := True\<rparr>)
           | Some fresh \<Rightarrow> (True, b\<lparr>ab_buf := Some (copy_used b fresh), ab_allocated := capacity\<rparr>))"

definition reserveAdditionalBuffer ::
    "allocator \<Rightarrow> AppendableBuffer \<Rightarrow> usize \<Rightarrow> bool \<times> AppendableBuffer" where
  "reserveAdditionalBuffer mem b additional =
     (if ab_size b > SIZE_MAX - additional then (False, b\<lparr>ab_failed := True\<rparr>)
      else reserveBuffer mem b (ab_size b + additional))"

definition reserveBufferElements ::
    "allocator \<Rightarrow> AppendableBuffer \<Rightarrow> usize \<Rightarrow> usize \<Rightarrow> bool \<times> AppendableBuffer" where
  "reserveBufferElements mem b elements elementSize =
     (if elements \<noteq> 0 \<and> elementSize > SIZE_MAX div elements then (False, b\<lparr>ab_failed := True\<rparr>)
      else reserveAdditionalBuffer mem b (elements * elementSize))"

text \<open>\<open>data\<close> is the source pointer, \<open>None\<close> for \<open>NULL\<close>; \<open>nbytes\<close> bytes of it are copied.\<close>

definition appendBuffer ::
    "allocator \<Rightarrow> AppendableBuffer \<Rightarrow> u8 list option \<Rightarrow> usize \<Rightarrow> bool \<times> AppendableBuffer" where
  "appendBuffer mem b data nbytes =
     (if nbytes = 0 then (True, b)
      else case data of
        None \<Rightarrow> (False, b\<lparr>ab_failed := True\<rparr>)
      | Some bytes \<Rightarrow>
          if ab_size b > SIZE_MAX - nbytes then (False, b\<lparr>ab_failed := True\<rparr>)
          else
            let required = ab_size b + nbytes
            in case reserveBuffer mem b required of
                 (False, b') \<Rightarrow> (False, b')
               | (True, b') \<Rightarrow>
                   (True, b'\<lparr>ab_buf := Some (write_at (ab_cells b') (unat (ab_size b'))
                                              (take (unat nbytes) bytes)),
                             ab_size := required\<rparr>))"

text \<open>\<open>None\<close> is a \<open>NULL\<close> buffer pointer.\<close>

definition trimBuffer ::
    "allocator \<Rightarrow> AppendableBuffer option \<Rightarrow> usize \<Rightarrow> bool \<times> AppendableBuffer option" where
  "trimBuffer mem buffer target =
     (case buffer of
        None \<Rightarrow> (False, None)
      | Some b \<Rightarrow>
          let targetCapacity = (if target < ab_size b then ab_size b else target)
          in if targetCapacity \<ge> ab_allocated b then (True, Some b)
             else if targetCapacity = 0 then (True, Some (b\<lparr>ab_buf := None, ab_allocated := 0\<rparr>))
             else (case mem targetCapacity of
                     None \<Rightarrow> (False, Some b)
                   | Some fresh \<Rightarrow>
                       (True, Some (b\<lparr>ab_buf := Some (copy_used b fresh),
                                      ab_allocated := targetCapacity\<rparr>))))"

definition freeAppendableBuffer :: "AppendableBuffer \<Rightarrow> AppendableBuffer" where
  "freeAppendableBuffer b =
     b\<lparr>ab_buf := None, ab_size := 0, ab_allocated := 0, ab_failed := False\<rparr>"

section \<open>Invariant and abstraction\<close>

definition ab_wf :: "AppendableBuffer \<Rightarrow> bool" where
  "ab_wf b \<longleftrightarrow> length (ab_cells b) = unat (ab_allocated b) \<and> ab_size b \<le> ab_allocated b"

definition ab_bytes :: "AppendableBuffer \<Rightarrow> u8 list" where
  "ab_bytes b = take (unat (ab_size b)) (ab_cells b)"

lemma ab_cells_simps [simp]:
  "ab_cells (b\<lparr>ab_buf := Some m\<rparr>) = m"
  "ab_cells (b\<lparr>ab_buf := None\<rparr>) = []"
  "ab_cells (b\<lparr>ab_size := n\<rparr>) = ab_cells b"
  "ab_cells (b\<lparr>ab_allocated := n\<rparr>) = ab_cells b"
  "ab_cells (b\<lparr>ab_failed := f\<rparr>) = ab_cells b"
  by (simp_all add: ab_cells_def)

lemma ab_wf_simps [simp]:
  "ab_wf (b\<lparr>ab_failed := f\<rparr>) = ab_wf b"
  "ab_bytes (b\<lparr>ab_failed := f\<rparr>) = ab_bytes b"
  by (simp_all add: ab_wf_def ab_bytes_def)

lemma ab_wf_empty [simp]: "ab_wf ab_empty" "ab_bytes ab_empty = []"
  by (simp_all add: ab_wf_def ab_bytes_def ab_empty_def ab_cells_def)

lemma length_ab_bytes [simp]: "ab_wf b \<Longrightarrow> length (ab_bytes b) = unat (ab_size b)"
  by (simp add: ab_wf_def ab_bytes_def word_le_nat_alt)

text \<open>Resetting the size to zero keeps the allocation: the start of a new picture.\<close>

lemma ab_wf_reset [simp]:
  "ab_wf b \<Longrightarrow> ab_wf (b\<lparr>ab_size := 0\<rparr>)" "ab_bytes (b\<lparr>ab_size := 0\<rparr>) = []"
  by (simp_all add: ab_wf_def ab_bytes_def)

lemma ab_wf_free [simp]:
  "ab_wf (freeAppendableBuffer b)" "ab_bytes (freeAppendableBuffer b) = []"
  by (simp_all add: ab_wf_def ab_bytes_def freeAppendableBuffer_def)

lemma copy_used_ok:
  assumes "ab_wf b" "length fresh = unat n" "ab_size b \<le> n"
  shows "length (copy_used b fresh) = unat n"
    and "take (unat (ab_size b)) (copy_used b fresh) = ab_bytes b"
proof -
  have le: "unat (ab_size b) \<le> unat n" "unat (ab_size b) \<le> length (ab_cells b)"
    using assms by (auto simp: ab_wf_def word_le_nat_alt)
  have empty: "ab_size b = 0" if "ab_buf b = None"
    using assms(1) that word_le_0_iff [of "ab_size b"]
    by (auto simp: ab_wf_def ab_cells_def unat_eq_0 simp flip: word_le_0_iff)
  show "length (copy_used b fresh) = unat n"
    using le assms(2) by (simp add: copy_used_def)
  show "take (unat (ab_size b)) (copy_used b fresh) = ab_bytes b"
    using le assms(2) empty by (auto simp: copy_used_def ab_bytes_def write_at_def)
qed

lemma reserveBuffer_ok:
  assumes "ab_wf b" "alloc_block mem" "reserveBuffer mem b n = (True, b')"
  shows "ab_wf b'" "ab_bytes b' = ab_bytes b" "ab_size b' = ab_size b"
    "ab_failed b' = ab_failed b" "n \<le> ab_allocated b'" "ab_allocated b \<le> ab_allocated b'"
proof -
  let ?cap = "grow_capacity (if ab_allocated b \<noteq> 0 then ab_allocated b else 256) n"
  have le: "n \<le> ?cap" "ab_allocated b \<le> ?cap"
    using grow_capacity_ge grow_capacity_mono by auto
  consider (same) "n \<le> ab_allocated b" "b' = b"
    | (grown) fresh where "mem ?cap = Some fresh"
        "b' = b\<lparr>ab_buf := Some (copy_used b fresh), ab_allocated := ?cap\<rparr>"
  proof (cases "n \<le> ab_allocated b")
    case True
    with assms(3) have "b' = b" by (simp add: reserveBuffer_def)
    with True show ?thesis by (rule same)
  next
    case False
    with assms(3) have "(case mem ?cap of None \<Rightarrow> (False, b\<lparr>ab_failed := True\<rparr>)
        | Some fresh \<Rightarrow> (True, b\<lparr>ab_buf := Some (copy_used b fresh), ab_allocated := ?cap\<rparr>)) =
        (True, b')"
      by (simp only: reserveBuffer_def Let_def if_False)
    then obtain fresh where "mem ?cap = Some fresh"
        "b' = b\<lparr>ab_buf := Some (copy_used b fresh), ab_allocated := ?cap\<rparr>"
      by (cases "mem ?cap") auto
    then show ?thesis by (rule grown)
  qed
  then have "ab_wf b' \<and> ab_bytes b' = ab_bytes b \<and> ab_size b' = ab_size b \<and>
    ab_failed b' = ab_failed b \<and> n \<le> ab_allocated b' \<and> ab_allocated b \<le> ab_allocated b'"
  proof cases
    case same
    with assms show ?thesis by simp
  next
    case grown
    have len: "length fresh = unat ?cap"
      using grown(1) assms(2) unfolding alloc_block_def by blast
    have "ab_size b \<le> ?cap"
      using assms(1) le(2) by (auto simp: ab_wf_def intro: order_trans)
    with copy_used_ok [OF assms(1) len] le grown(2) show ?thesis
      by (simp add: ab_wf_def ab_bytes_def)
  qed
  then show "ab_wf b'" "ab_bytes b' = ab_bytes b" "ab_size b' = ab_size b"
    "ab_failed b' = ab_failed b" "n \<le> ab_allocated b'" "ab_allocated b \<le> ab_allocated b'"
    by simp_all
qed

lemma reserveBuffer_fail:
  "reserveBuffer mem b n = (False, b') \<Longrightarrow> b' = b\<lparr>ab_failed := True\<rparr>"
  by (auto simp: reserveBuffer_def Let_def split: if_splits option.splits)

lemma appendBuffer_ok:
  assumes "ab_wf b" "alloc_block mem"
    and "unat nbytes \<le> length bytes"
    and ret: "appendBuffer mem b (Some bytes) nbytes = (True, b')"
  shows "ab_wf b'" "ab_bytes b' = ab_bytes b @ take (unat nbytes) bytes"
    "ab_failed b' = ab_failed b"
proof -
  have "ab_wf b' \<and> ab_bytes b' = ab_bytes b @ take (unat nbytes) bytes \<and> ab_failed b' = ab_failed b"
  proof (cases "nbytes = 0")
    case True
    with ret assms(1) show ?thesis by (simp add: appendBuffer_def)
  next
    case False
    with ret obtain b1 where lim: "\<not> ab_size b > SIZE_MAX - nbytes"
      and rb: "reserveBuffer mem b (ab_size b + nbytes) = (True, b1)"
      and b': "b' = b1\<lparr>ab_buf := Some (write_at (ab_cells b1) (unat (ab_size b1))
                   (take (unat nbytes) bytes)), ab_size := ab_size b + nbytes\<rparr>"
      by (auto simp: appendBuffer_def Let_def split: if_splits prod.splits bool.splits)
    note ok = reserveBuffer_ok [OF assms(1,2) rb]
    have sum: "unat (ab_size b + nbytes) = unat (ab_size b) + unat nbytes"
      using lim by (rule size_no_overflow)
    have room: "unat (ab_size b) + unat nbytes \<le> length (ab_cells b1)"
      using ok(1,5) sum by (simp add: ab_wf_def word_le_nat_alt)
    have chunk: "length (take (unat nbytes) bytes) = unat nbytes"
      using assms(3) by simp
    have "take (unat (ab_size b) + unat nbytes)
            (write_at (ab_cells b1) (unat (ab_size b)) (take (unat nbytes) bytes)) =
          take (unat (ab_size b)) (ab_cells b1) @ take (unat nbytes) bytes"
      using room chunk take_write_at_append [of "unat (ab_size b)" "take (unat nbytes) bytes"]
      by simp
    moreover have "take (unat (ab_size b)) (ab_cells b1) = ab_bytes b"
      using ok(2,3) by (simp add: ab_bytes_def)
    moreover have "length (ab_cells b1) = unat (ab_allocated b1)"
      using ok(1) by (simp add: ab_wf_def)
    ultimately show ?thesis
      using ok room chunk sum unfolding b'
      by (simp add: ab_wf_def ab_bytes_def word_le_nat_alt)
  qed
  then show "ab_wf b'" "ab_bytes b' = ab_bytes b @ take (unat nbytes) bytes"
    "ab_failed b' = ab_failed b"
    by simp_all
qed

text \<open>Every failing path leaves the bytes alone and sets \<open>failed\<close>.\<close>

lemma appendBuffer_fail:
  "appendBuffer mem b data nbytes = (False, b') \<Longrightarrow> b' = b\<lparr>ab_failed := True\<rparr>"
  by (auto simp: appendBuffer_def Let_def dest: reserveBuffer_fail
           split: if_splits option.splits prod.splits bool.splits)

lemma reserveAdditionalBuffer_ok:
  assumes "ab_wf b" "alloc_block mem" "reserveAdditionalBuffer mem b n = (True, b')"
  shows "ab_wf b'" "ab_bytes b' = ab_bytes b" "ab_size b' = ab_size b"
    "ab_failed b' = ab_failed b" "unat (ab_size b) + unat n \<le> unat (ab_allocated b')"
proof -
  have lim: "\<not> ab_size b > SIZE_MAX - n" and
    rb: "reserveBuffer mem b (ab_size b + n) = (True, b')"
    using assms(3) by (auto simp: reserveAdditionalBuffer_def split: if_splits)
  note ok = reserveBuffer_ok [OF assms(1,2) rb]
  then show "ab_wf b'" "ab_bytes b' = ab_bytes b" "ab_size b' = ab_size b"
    "ab_failed b' = ab_failed b" by simp_all
  show "unat (ab_size b) + unat n \<le> unat (ab_allocated b')"
    using ok(5) size_no_overflow [OF lim] by (simp add: word_le_nat_alt)
qed

lemma reserveAdditionalBuffer_fail:
  "reserveAdditionalBuffer mem b n = (False, b') \<Longrightarrow> b' = b\<lparr>ab_failed := True\<rparr>"
  by (auto simp: reserveAdditionalBuffer_def dest: reserveBuffer_fail split: if_splits)

lemma reserveBufferElements_ok:
  assumes "ab_wf b" "alloc_block mem" "reserveBufferElements mem b k w = (True, b')"
  shows "ab_wf b'" "ab_bytes b' = ab_bytes b" "ab_size b' = ab_size b"
    "ab_failed b' = ab_failed b"
    "unat (ab_size b) + unat k * unat w \<le> unat (ab_allocated b')"
proof -
  have lim: "k = 0 \<or> \<not> w > SIZE_MAX div k" and
    ra: "reserveAdditionalBuffer mem b (k * w) = (True, b')"
    using assms(3) by (auto simp: reserveBufferElements_def split: if_splits)
  note ok = reserveAdditionalBuffer_ok [OF assms(1,2) ra]
  then show "ab_wf b'" "ab_bytes b' = ab_bytes b" "ab_size b' = ab_size b"
    "ab_failed b' = ab_failed b" by simp_all
  have "unat (k * w) = unat k * unat w"
  proof (cases "k = 0")
    case False
    with lim have "unat w \<le> 18446744073709551615 div unat k"
      by (simp add: word_less_nat_alt unat_div)
    with False have "unat w * unat k \<le> 18446744073709551615"
      by (simp add: less_eq_div_iff_mult_less_eq unat_gt_0)
    then show ?thesis by (simp add: unat_word_ariths mult.commute)
  qed simp
  with ok(5) show "unat (ab_size b) + unat k * unat w \<le> unat (ab_allocated b')" by simp
qed

lemma reserveBufferElements_fail:
  "reserveBufferElements mem b k w = (False, b') \<Longrightarrow> b' = b\<lparr>ab_failed := True\<rparr>"
  by (auto simp: reserveBufferElements_def dest: reserveAdditionalBuffer_fail split: if_splits)

text \<open>After a reservation, appends that fit need no allocator.\<close>

lemma appendBuffer_reserved:
  assumes "unat (ab_size b) + unat nbytes \<le> unat (ab_allocated b)"
  shows "fst (appendBuffer mem b (Some bytes) nbytes)"
    and "ab_allocated (snd (appendBuffer mem b (Some bytes) nbytes)) = ab_allocated b"
    and "unat (ab_size (snd (appendBuffer mem b (Some bytes) nbytes))) = unat (ab_size b) + unat nbytes"
proof -
  have lim: "\<not> ab_size b > SIZE_MAX - nbytes"
    using assms unat_u64_less [of "ab_allocated b"]
    by (simp add: word_less_nat_alt size_max_minus)
  have sum: "unat (ab_size b + nbytes) = unat (ab_size b) + unat nbytes"
    using lim by (rule size_no_overflow)
  have "reserveBuffer mem b (ab_size b + nbytes) = (True, b)"
    using sum assms by (simp add: reserveBuffer_def word_le_nat_alt)
  with lim sum show "fst (appendBuffer mem b (Some bytes) nbytes)"
    and "ab_allocated (snd (appendBuffer mem b (Some bytes) nbytes)) = ab_allocated b"
    and "unat (ab_size (snd (appendBuffer mem b (Some bytes) nbytes))) = unat (ab_size b) + unat nbytes"
    by (auto simp: appendBuffer_def)
qed

lemma trimBuffer_ok:
  assumes "ab_wf b" "alloc_block mem" "trimBuffer mem (Some b) n = (r, Some b')"
  shows "ab_wf b'" "ab_bytes b' = ab_bytes b" "ab_failed b' = ab_failed b"
    "ab_allocated b' \<le> ab_allocated b"
    "r \<Longrightarrow> ab_allocated b' = min (ab_allocated b) (max n (ab_size b))"
proof -
  let ?t = "if n < ab_size b then ab_size b else n"
  have t: "?t = max n (ab_size b)" by (auto simp: max_def dest: less_imp_le)
  have st: "ab_size b \<le> ?t" by auto
  consider (keep) "?t \<ge> ab_allocated b" "r" "b' = b"
    | (free) "\<not> ?t \<ge> ab_allocated b" "?t = 0" "b' = b\<lparr>ab_buf := None, ab_allocated := 0\<rparr>" "r"
    | (fail) "\<not> ?t \<ge> ab_allocated b" "\<not> r" "b' = b"
    | (shrink) fresh where "\<not> ?t \<ge> ab_allocated b" "mem ?t = Some fresh" "r"
        "b' = b\<lparr>ab_buf := Some (copy_used b fresh), ab_allocated := ?t\<rparr>"
  proof (cases "?t \<ge> ab_allocated b \<or> ?t = 0")
    case True
    show ?thesis
    proof (cases "?t \<ge> ab_allocated b")
      case True
      with assms(3) have "r" "b' = b" by (simp_all add: trimBuffer_def Let_def)
      with True show ?thesis by (intro keep)
    next
      case False
      with \<open>?t \<ge> ab_allocated b \<or> ?t = 0\<close> have z: "?t = 0" by blast
      with False assms(3) have "b' = b\<lparr>ab_buf := None, ab_allocated := 0\<rparr>" "r"
        by (simp_all add: trimBuffer_def Let_def)
      with False z show ?thesis by (intro free)
    qed
  next
    case False
    then have *: "\<not> ?t \<ge> ab_allocated b" "?t \<noteq> 0" by blast+
    with assms(3) have r: "(case mem ?t of None \<Rightarrow> (False, Some b)
        | Some fresh \<Rightarrow> (True, Some (b\<lparr>ab_buf := Some (copy_used b fresh), ab_allocated := ?t\<rparr>))) =
        (r, Some b')"
      by (simp only: trimBuffer_def Let_def if_False option.case)
    show ?thesis
    proof (cases "mem ?t")
      case None
      with r have "\<not> r" "b' = b" by auto
      with * show ?thesis by (intro fail)
    next
      case (Some fresh)
      with r have "r" "b' = b\<lparr>ab_buf := Some (copy_used b fresh), ab_allocated := ?t\<rparr>" by auto
      with * Some show ?thesis by (intro shrink)
    qed
  qed
  then have "ab_wf b' \<and> ab_bytes b' = ab_bytes b \<and> ab_failed b' = ab_failed b \<and>
    ab_allocated b' \<le> ab_allocated b \<and>
    (r \<longrightarrow> ab_allocated b' = min (ab_allocated b) (max n (ab_size b)))"
  proof cases
    case keep
    with assms(1) t show ?thesis by (simp add: min_def)
  next
    case free
    then have "ab_size b = 0" using st by (auto split: if_splits)
    with free t show ?thesis by (simp add: ab_wf_def ab_bytes_def)
  next
    case fail
    with assms(1) show ?thesis by simp
  next
    case shrink
    then have "length fresh = unat ?t"
      using assms(2) unfolding alloc_block_def by blast
    note cu = copy_used_ok [OF assms(1) this st]
    have lt: "max n (ab_size b) < ab_allocated b"
      using shrink(1) by (simp only: t not_le)
    then have "min (ab_allocated b) (max n (ab_size b)) = max n (ab_size b)"
      by (intro min_absorb2 less_imp_le)
    with cu lt st shrink(4) show ?thesis
      unfolding t by (simp add: ab_wf_def ab_bytes_def less_imp_le)
  qed
  then show "ab_wf b'" "ab_bytes b' = ab_bytes b" "ab_failed b' = ab_failed b"
    "ab_allocated b' \<le> ab_allocated b"
    "r \<Longrightarrow> ab_allocated b' = min (ab_allocated b) (max n (ab_size b))"
    by simp_all
qed

section \<open>The byte sink interface\<close>

text \<open>
  The codec handlers append chunk after chunk, ignore the individual results and look
  at the \<open>failed\<close> flag once at the end. \<open>append_all\<close> is that protocol over any
  implementation of the sink, and the laws below are what makes it sound: the flag is
  sticky, and a clear flag at the end means that the bytes are exactly the old bytes
  followed by all the chunks.
\<close>

fun append_all :: "('s \<Rightarrow> u8 list \<Rightarrow> bool \<times> 's) \<Rightarrow> 's \<Rightarrow> u8 list list \<Rightarrow> 's" where
  "append_all app s [] = s"
| "append_all app s (c # cs) = append_all app (snd (app s c)) cs"

locale byte_sink =
  fixes wf :: "'s \<Rightarrow> bool"
    and bytes :: "'s \<Rightarrow> u8 list"
    and failed :: "'s \<Rightarrow> bool"
    and app :: "'s \<Rightarrow> u8 list \<Rightarrow> bool \<times> 's"
    and fits :: "u8 list \<Rightarrow> bool"
  assumes app_True: "wf s \<Longrightarrow> fits c \<Longrightarrow> app s c = (True, t) \<Longrightarrow>
      wf t \<and> bytes t = bytes s @ c \<and> failed t = failed s"
    and app_False: "wf s \<Longrightarrow> app s c = (False, t) \<Longrightarrow>
      wf t \<and> bytes t = bytes s \<and> failed t"
begin

lemma app_wf: "wf s \<Longrightarrow> fits c \<Longrightarrow> wf (snd (app s c))"
  using app_True app_False by (metis (full_types) prod.collapse)

lemma app_sticky: "wf s \<Longrightarrow> fits c \<Longrightarrow> failed s \<Longrightarrow> failed (snd (app s c))"
  using app_True app_False by (metis (full_types) prod.collapse)

lemma append_all_wf: "wf s \<Longrightarrow> \<forall>c\<in>set cs. fits c \<Longrightarrow> wf (append_all app s cs)"
  by (induction cs arbitrary: s) (auto simp: app_wf)

lemma append_all_sticky:
  "wf s \<Longrightarrow> \<forall>c\<in>set cs. fits c \<Longrightarrow> failed s \<Longrightarrow> failed (append_all app s cs)"
  by (induction cs arbitrary: s) (auto simp: app_wf app_sticky)

lemma append_all_complete:
  "wf s \<Longrightarrow> \<forall>c\<in>set cs. fits c \<Longrightarrow> \<not> failed (append_all app s cs) \<Longrightarrow>
   bytes (append_all app s cs) = bytes s @ concat cs"
proof (induction cs arbitrary: s)
  case Nil
  then show ?case by simp
next
  case (Cons c cs)
  obtain r t where rt: "app s c = (r, t)" by fastforce
  have "\<not> failed t"
    using Cons.prems rt append_all_sticky [of t cs] app_wf [of s c] by auto
  with rt Cons.prems have "wf t" "bytes t = bytes s @ c"
    using app_True [of s c t] app_False [of s c t] by (cases r; auto)+
  with Cons rt show ?case by simp
qed

end

definition append_chunk :: "allocator \<Rightarrow> AppendableBuffer \<Rightarrow> u8 list \<Rightarrow> bool \<times> AppendableBuffer" where
  "append_chunk mem b c = appendBuffer mem b (Some c) (of_nat (length c))"

definition chunk_fits :: "u8 list \<Rightarrow> bool" where
  "chunk_fits c \<longleftrightarrow> length c < 2 ^ 64"

lemma append_chunk_ok:
  assumes "ab_wf b" "alloc_block mem" "chunk_fits c" "append_chunk mem b c = (True, b')"
  shows "ab_wf b' \<and> ab_bytes b' = ab_bytes b @ c \<and> ab_failed b' = ab_failed b"
proof -
  have "unat (of_nat (length c) :: usize) = length c"
    using assms(3) by (simp add: chunk_fits_def unat_of_nat take_bit_nat_eq_self)
  with appendBuffer_ok [OF assms(1,2), of "of_nat (length c)" c b'] assms(4)
  show ?thesis by (simp add: append_chunk_def)
qed

lemma append_chunk_fail:
  "append_chunk mem b c = (False, b') \<Longrightarrow> b' = b\<lparr>ab_failed := True\<rparr>"
  by (auto simp: append_chunk_def dest: appendBuffer_fail)

text \<open>
  The buffer of the driver is a byte sink for every allocator that returns blocks of
  the requested length; the allocator's behaviour on failure is unconstrained.
\<close>

definition checked_alloc :: "allocator \<Rightarrow> allocator" where
  "checked_alloc mem n =
     (case mem n of None \<Rightarrow> None | Some b \<Rightarrow> if length b = unat n then Some b else None)"

lemma alloc_block_checked [simp]: "alloc_block (checked_alloc mem)"
  by (auto simp: alloc_block_def checked_alloc_def split: option.splits if_splits)

lemma checked_alloc_id: "alloc_block mem \<Longrightarrow> checked_alloc mem = mem"
  by (rule ext) (auto simp: alloc_block_def checked_alloc_def split: option.splits)

interpretation ab: byte_sink ab_wf ab_bytes ab_failed "append_chunk (checked_alloc mem)" chunk_fits
  for mem
  by unfold_locales
    (use append_chunk_ok [OF _ alloc_block_checked] append_chunk_fail in fastforce)+

section \<open>Properties\<close>

text \<open>Collecting a bitstream: after any sequence of \<open>appendBuffer\<close> calls, from any buffer and
  with any allocator, the buffer is well formed, and if its \<open>failed\<close> flag is clear then no
  earlier call failed and the bytes are the old bytes followed by all the chunks in order.
  So the handlers may ignore the result of each call and test the flag once.\<close>

theorem append_all_result:
  assumes "alloc_block mem" "ab_wf b" "\<forall>c \<in> set chunks. chunk_fits c"
    and "b' = append_all (append_chunk mem) b chunks"
  shows "ab_wf b' \<and> (ab_failed b \<longrightarrow> ab_failed b') \<and>
    (\<not> ab_failed b' \<longrightarrow> ab_bytes b' = ab_bytes b @ concat chunks)"
proof -
  have mem: "checked_alloc mem = mem" using assms(1) by (rule checked_alloc_id)
  show ?thesis
    using ab.append_all_wf [of b chunks mem] ab.append_all_sticky [of b chunks mem]
      ab.append_all_complete [of b chunks mem] assms
    by (simp_all add: mem)
qed

definition sample_buffer :: AppendableBuffer where
  "sample_buffer = \<lparr>ab_buf = Some [7, 0, 0, 0], ab_size = 1, ab_allocated = 4, ab_failed = False\<rparr>"

lemma append_all_result_witness:
  "ab_bytes (append_all (append_chunk (\<lambda>_. None)) sample_buffer [[1, 2], [3]]) = [7, 1, 2, 3]"
proof -
  let ?b = "append_all (append_chunk (\<lambda>_. None)) sample_buffer [[1, 2], [3]]"
  have "alloc_block (\<lambda>_. None)" by (simp add: alloc_block_def)
  moreover have "ab_wf sample_buffer" by (simp add: ab_wf_def sample_buffer_def ab_cells_def)
  moreover have "\<forall>c \<in> set [[1, 2], [3 :: u8]]. chunk_fits c" by (simp add: chunk_fits_def)
  moreover have "\<not> ab_failed ?b" by code_simp
  ultimately have "ab_bytes ?b = ab_bytes sample_buffer @ concat [[1, 2], [3]]"
    using append_all_result by blast
  then show ?thesis by (simp add: sample_buffer_def ab_bytes_def ab_cells_def)
qed

text \<open>A reservation of \<open>elements\<close> items of \<open>elementSize\<close> bytes is free of overflow: when it
  reports success the capacity really covers the used bytes plus the mathematical product,
  with the contents kept; when it fails only the \<open>failed\<close> flag changes. It never fails
  without a reason: an exact total that fits in \<open>size_t\<close> fails only when \<open>memalign\<close> does.\<close>

theorem reserveBufferElements_result:
  assumes "alloc_block mem" "ab_wf b"
    and "reserveBufferElements mem b elements elementSize = (r, b')"
  shows "if r then ab_wf b' \<and> ab_bytes b' = ab_bytes b \<and> ab_failed b' = ab_failed b \<and>
             unat (ab_size b) + unat elements * unat elementSize \<le> unat (ab_allocated b')
         else b' = b\<lparr>ab_failed := True\<rparr> \<and>
             (unat (ab_size b) + unat elements * unat elementSize < 2 ^ 64 \<longrightarrow>
              (\<exists>capacity. mem capacity = None))"
proof (cases r)
  case True
  then show ?thesis
    using reserveBufferElements_ok [OF assms(2,1)] assms(3) by simp
next
  case r: False
  have "\<exists>capacity. mem capacity = None"
    if small: "unat (ab_size b) + unat elements * unat elementSize < 2 ^ 64"
  proof -
  have prod: "unat (elements * elementSize) = unat elements * unat elementSize"
    using small by (simp add: unat_word_ariths)
  have "\<not> (elements \<noteq> 0 \<and> elementSize > SIZE_MAX div elements)"
  proof (intro notI, elim conjE)
    assume "elements \<noteq> 0" "elementSize > SIZE_MAX div elements"
    then have "18446744073709551615 div unat elements < unat elementSize" "0 < unat elements"
      by (simp_all add: word_less_nat_alt unat_div unat_gt_0)
    then have "18446744073709551615 < unat elementSize * unat elements"
      by (simp add: div_less_iff_less_mult)
    with small show False by (simp add: mult.commute)
  qed
  then have add: "reserveAdditionalBuffer mem b (elements * elementSize) = (False, b')"
    using assms(3) r by (auto simp: reserveBufferElements_def)
  have "\<not> ab_size b > SIZE_MAX - elements * elementSize"
    using small prod by (simp add: word_less_nat_alt size_max_minus)
  then have "reserveBuffer mem b (ab_size b + elements * elementSize) = (False, b')"
    using add by (simp add: reserveAdditionalBuffer_def)
  then show "\<exists>capacity. mem capacity = None"
    by (auto simp: reserveBuffer_def Let_def split: if_splits option.splits)
  qed
  with r assms(3) reserveBufferElements_fail show ?thesis by auto
qed

lemma reserveBufferElements_result_witness:
  "1 + 3 * 1 \<le> unat (ab_allocated (snd (reserveBufferElements (\<lambda>_. None) sample_buffer 3 1)))"
proof -
  have a: "alloc_block (\<lambda>_. None)" by (simp add: alloc_block_def)
  have w: "ab_wf sample_buffer" by (simp add: ab_wf_def sample_buffer_def ab_cells_def)
  have run: "reserveBufferElements (\<lambda>_. None) sample_buffer 3 1 = (True, sample_buffer)"
    by code_simp
  show ?thesis
    using reserveBufferElements_result [OF a w run] unfolding run
    by (simp add: sample_buffer_def)
qed

end
