(* ===== verification/CodecUtils.thy ===== *)
theory CodecUtils
  imports AppendBuffer
begin

text \<open>
  The helpers that all codecs share (\<open>src/codec-utils.c\<close>, \<open>src/decode-surfaces.c\<close>).

  \<open>codec_ctx\<close> is the part of \<open>NVContext\<close> (\<open>src/vabackend.h\<close>) that the buffer handlers
  read and write, \<open>CUVIDPICPARAMS\<close> the part of the picture parameters common to the
  codecs, with the codec's own block as the type parameter \<open>'c\<close>. A pointer that the
  code tests for \<open>NULL\<close> is an option. The slice parameter array that
  \<open>lastSliceParams\<close> points to is read only through its data range, so it is kept as
  the list of these ranges.
\<close>

record slice_range =
  slice_data_offset :: u32
  slice_data_size :: u32

record NVBuffer =
  nb_elements :: u32
  nb_elementSize :: usize
  nb_size :: usize
  nb_ptr :: "u8 list option"

record codec_ctx =
  cx_bitstreamBuffer :: AppendableBuffer
  cx_sliceOffsets :: AppendableBuffer
  cx_lastSliceParams :: "slice_range list"
  cx_lastSliceParamsCount :: u32
  cx_inputValidationFailed :: bool
  cx_decodeSurfaceReferenceHint :: u32
  cx_progressiveFrame :: bool

record 'c CUVIDPICPARAMS =
  pp_PicWidthInMbs :: int
  pp_FrameHeightInMbs :: int
  pp_CurrPicIdx :: int
  pp_field_pic_flag :: int
  pp_bottom_field_flag :: int
  pp_second_field :: int
  pp_nBitstreamDataLen :: u32
  pp_nNumSlices :: u32
  pp_ref_pic_flag :: int
  pp_intra_pic_flag :: int
  pp_codec :: 'c

abbreviation fail_input :: "codec_ctx \<Rightarrow> codec_ctx" where
  "fail_input ctx \<equiv> ctx\<lparr>cx_inputValidationFailed := True\<rparr>"

text \<open>The bytes behind the result pointer, the result, and the context.\<close>

definition nvValidateSliceRange ::
    "codec_ctx option \<Rightarrow> NVBuffer option \<Rightarrow> u32 \<Rightarrow> usize \<Rightarrow>
     u8 list option \<times> bool \<times> codec_ctx option" where
  "nvValidateSliceRange ctx buffer offset nbytes =
     (let fail = (None, False, map_option fail_input ctx)
      in case (ctx, buffer) of
           (Some _, Some b) \<Rightarrow>
             (case nb_ptr b of
                None \<Rightarrow> fail
              | Some bytes \<Rightarrow>
                  if u32_to_u64 offset > nb_size b \<or> nbytes > nb_size b - u32_to_u64 offset
                  then fail
                  else (Some (drop (unat offset) bytes), True, ctx))
         | _ \<Rightarrow> fail)"

definition nvAddCuvidSlices ::
    "codec_ctx option \<Rightarrow> 'c CUVIDPICPARAMS option \<Rightarrow> usize \<Rightarrow>
     bool \<times> codec_ctx option \<times> 'c CUVIDPICPARAMS option" where
  "nvAddCuvidSlices ctx picParams count =
     (let fail = (False, map_option fail_input ctx, picParams)
      in case (ctx, picParams) of
           (Some _, Some pp) \<Rightarrow>
             if count > u32_to_u64 UINT32_MAX \<or>
                count > u32_to_u64 (UINT32_MAX - pp_nNumSlices pp)
             then fail
             else (True, ctx, Some (pp\<lparr>pp_nNumSlices := pp_nNumSlices pp + u64_to_u32 count\<rparr>))
         | _ \<Rightarrow> fail)"

definition nvCanAppendCuvidBitstream ::
    "codec_ctx option \<Rightarrow> usize \<Rightarrow> bool \<times> codec_ctx option" where
  "nvCanAppendCuvidBitstream ctx additionalBytes =
     (case ctx of
        None \<Rightarrow> (False, None)
      | Some c \<Rightarrow>
          if ab_size (cx_bitstreamBuffer c) > u32_to_u64 UINT32_MAX \<or>
             additionalBytes > u32_to_u64 UINT32_MAX - ab_size (cx_bitstreamBuffer c)
          then (False, Some (fail_input c)) else (True, Some c))"

definition nvCommitCuvidBitstreamLength ::
    "codec_ctx option \<Rightarrow> 'c CUVIDPICPARAMS option \<Rightarrow>
     bool \<times> codec_ctx option \<times> 'c CUVIDPICPARAMS option" where
  "nvCommitCuvidBitstreamLength ctx picParams =
     (let fail = (False, map_option fail_input ctx, picParams)
      in case (ctx, picParams) of
           (Some c, Some pp) \<Rightarrow>
             if ab_size (cx_bitstreamBuffer c) > u32_to_u64 UINT32_MAX then fail
             else (True, ctx, Some (pp\<lparr>pp_nBitstreamDataLen :=
                                      u64_to_u32 (ab_size (cx_bitstreamBuffer c))\<rparr>))
         | _ \<Rightarrow> fail)"

record BufferSchema =
  sc_minElementSize :: usize
  sc_minElements :: u32
  sc_maxElements :: u32

definition nvValidateBufferSchema :: "NVBuffer option \<Rightarrow> BufferSchema option \<Rightarrow> bool" where
  "nvValidateBufferSchema buffer schema =
     (case (buffer, schema) of
        (Some b, Some sc) \<Rightarrow>
          \<not> (sc_minElementSize sc = 0 \<or>
             nb_elements b < sc_minElements sc \<or>
             (sc_maxElements sc \<noteq> 0 \<and> nb_elements b > sc_maxElements sc) \<or>
             nb_elementSize b < sc_minElementSize sc \<or>
             (nb_elements b \<noteq> 0 \<and> nb_elementSize b > SIZE_MAX div u32_to_u64 (nb_elements b)) \<or>
             nb_size b \<noteq> nb_elementSize b * u32_to_u64 (nb_elements b) \<or>
             (nb_size b \<noteq> 0 \<and> nb_ptr b = None))
      | _ \<Rightarrow> False)"

section \<open>Choosing a picture index\<close>

abbreviation NVD_MAX_DECODE_SURFACES :: u32 where "NVD_MAX_DECODE_SURFACES \<equiv> 32"

text \<open>The search loop from \<open>offset\<close> on; \<open>None\<close> is \<open>-1\<close>.\<close>

function select_from :: "u32 \<Rightarrow> u32 \<Rightarrow> u32 \<Rightarrow> nat \<Rightarrow> u32 option" where
  "select_from available start surfaceLimit offset =
     (if offset < unat surfaceLimit then
        let index = (start + of_nat offset) mod surfaceLimit
        in if available AND push_bit (unat index) 1 \<noteq> 0 then Some index
           else select_from available start surfaceLimit (Suc offset)
      else None)"
  by pat_completeness auto
termination by (relation "measure (\<lambda>(a, s, l, off). unat l - off)") auto

declare select_from.simps [simp del]

definition limit_mask :: "u32 \<Rightarrow> u32" where
  "limit_mask surfaceLimit =
     (if surfaceLimit = 32 then UINT32_MAX else push_bit (unat surfaceLimit) 1 - 1)"

definition nvdSelectPictureIndex :: "u32 \<Rightarrow> u32 \<Rightarrow> u32 \<Rightarrow> u32 \<Rightarrow> u32 \<Rightarrow> u32 option" where
  "nvdSelectPictureIndex allocatedCount surfaceLimit activeMask busyMask recycleCursor =
     (if surfaceLimit = 0 \<or> surfaceLimit > NVD_MAX_DECODE_SURFACES then None
      else if allocatedCount < surfaceLimit then Some allocatedCount
      else
        let available = limit_mask surfaceLimit AND NOT (activeMask OR busyMask)
        in if available = 0 then None
           else select_from available (recycleCursor mod surfaceLimit) surfaceLimit 0)"

section \<open>The VP8 frame header\<close>

definition b2u32 :: "bool \<Rightarrow> u32" where "b2u32 b = (if b then 1 else 0)"

definition vp8_frame_tag :: "bool \<Rightarrow> u8 \<Rightarrow> bool \<Rightarrow> u32 \<Rightarrow> u32" where
  "vp8_frame_tag keyFrame version showFrame firstPartitionSize =
     (if keyFrame then 0 else 1) OR push_bit 1 (ucast version) OR
     push_bit 4 (b2u32 showFrame) OR push_bit 5 firstPartitionSize"

text \<open>
  The header bytes; the empty list is the result 0. \<open>None\<close> as the destination is a
  \<open>NULL\<close> pointer.
\<close>

definition nvBuildVP8FrameHeader ::
    "unit option \<Rightarrow> bool \<Rightarrow> u8 \<Rightarrow> bool \<Rightarrow> u32 \<Rightarrow> u16 \<Rightarrow> u16 \<Rightarrow> u8 list" where
  "nvBuildVP8FrameHeader header keyFrame version showFrame firstPartitionSize w h =
     (if header = None \<or> version > 7 \<or> firstPartitionSize > 0x7FFFF \<or>
         (keyFrame \<and> (w > 0x3FFF \<or> h > 0x3FFF))
      then []
      else
        let frameTag = vp8_frame_tag keyFrame version showFrame firstPartitionSize;
            tag = [ucast frameTag, ucast (drop_bit 8 frameTag), ucast (drop_bit 16 frameTag)]
        in if \<not> keyFrame then tag
           else tag @ [0x9D, 0x01, 0x2A, ucast w, ucast (drop_bit 8 w),
                       ucast h, ucast (drop_bit 8 h)])"

section \<open>The number of decode surfaces\<close>

definition maxU32 :: "u32 \<Rightarrow> u32 \<Rightarrow> u32" where
  "maxU32 left right = (if left > right then left else right)"

definition nvdSelectDecodeSurfaceCount :: "u32 \<Rightarrow> u32 \<Rightarrow> u32 \<Rightarrow> u32 \<Rightarrow> u32 \<Rightarrow> u32 \<Rightarrow> u32" where
  "nvdSelectDecodeSurfaceCount codecDefault referenceHint clientTargets overrideCount min0 max0 =
     (let minimum = (if min0 = 0 then 1 else min0);
          maximum = (if max0 < minimum then minimum else max0);
          selected = (if overrideCount = 0
                      then maxU32 (maxU32 codecDefault referenceHint) clientTargets
                      else overrideCount);
          selected = (if selected < minimum then minimum else selected)
      in if selected > maximum then maximum else selected)"

section \<open>Slice data\<close>

text \<open>Little-endian bytes, as \<open>memcpy\<close> of an integer gives them.\<close>

definition le32 :: "u32 \<Rightarrow> u8 list" where
  "le32 w = [ucast w, ucast (drop_bit 8 w), ucast (drop_bit 16 w), ucast (drop_bit 24 w)]"

text \<open>
  The first loop of a slice data handler: every range is validated and the total is
  added up, each slice with the start code of \<open>prefix\<close> bytes in front. \<open>None\<close> is the
  early return.
\<close>

fun sum_slices :: "usize \<Rightarrow> codec_ctx \<Rightarrow> NVBuffer \<Rightarrow> slice_range list \<Rightarrow> usize \<Rightarrow>
    usize option \<times> codec_ctx" where
  "sum_slices prefix ctx buf [] bytes = (Some bytes, ctx)"
| "sum_slices prefix ctx buf (s # ss) bytes =
     (case nvValidateSliceRange (Some ctx) (Some buf) (slice_data_offset s)
             (u32_to_u64 (slice_data_size s)) of
        (_, False, ctx') \<Rightarrow> (None, case ctx' of Some c \<Rightarrow> c | None \<Rightarrow> ctx)
      | (_, True, _) \<Rightarrow>
          if bytes > SIZE_MAX - prefix \<or>
             u32_to_u64 (slice_data_size s) > SIZE_MAX - bytes - prefix
          then (None, ctx\<lparr>cx_bitstreamBuffer := (cx_bitstreamBuffer ctx)\<lparr>ab_failed := True\<rparr>\<rparr>)
          else sum_slices prefix ctx buf ss (bytes + (u32_to_u64 (slice_data_size s) + prefix)))"

text \<open>The second loop: offset, start code and bytes of each slice are appended.\<close>

definition append_slice ::
    "allocator \<Rightarrow> u8 list \<Rightarrow> NVBuffer \<Rightarrow> codec_ctx \<Rightarrow> slice_range \<Rightarrow> codec_ctx" where
  "append_slice mem prefix buf ctx s =
     (let offset = u64_to_u32 (ab_size (cx_bitstreamBuffer ctx));
          offs = snd (appendBuffer mem (cx_sliceOffsets ctx) (Some (le32 offset)) 4);
          bits = (if prefix = [] then cx_bitstreamBuffer ctx
                  else snd (appendBuffer mem (cx_bitstreamBuffer ctx) (Some prefix)
                              (of_nat (length prefix))));
          bits = snd (appendBuffer mem bits
                        (map_option (drop (unat (slice_data_offset s))) (nb_ptr buf))
                        (u32_to_u64 (slice_data_size s)))
      in ctx\<lparr>cx_sliceOffsets := offs, cx_bitstreamBuffer := bits\<rparr>)"

definition copySliceData ::
    "allocator \<Rightarrow> u8 list \<Rightarrow> codec_ctx \<Rightarrow> NVBuffer \<Rightarrow> 'c CUVIDPICPARAMS \<Rightarrow>
     codec_ctx \<times> 'c CUVIDPICPARAMS" where
  "copySliceData mem prefix ctx buf picParams =
     (let slices = take (unat (cx_lastSliceParamsCount ctx)) (cx_lastSliceParams ctx)
      in case sum_slices (of_nat (length prefix)) ctx buf slices 0 of
        (None, ctx1) \<Rightarrow> (ctx1, picParams)
      | (Some bytes, _) \<Rightarrow>
          (case nvCanAppendCuvidBitstream (Some ctx) bytes of
             (False, ctx2) \<Rightarrow> (case ctx2 of Some c \<Rightarrow> c | None \<Rightarrow> ctx, picParams)
           | (True, _) \<Rightarrow>
               (case reserveBufferElements mem (cx_sliceOffsets ctx)
                       (u32_to_u64 (cx_lastSliceParamsCount ctx)) 4 of
                  (False, offs) \<Rightarrow> (ctx\<lparr>cx_sliceOffsets := offs\<rparr>, picParams)
                | (True, offs) \<Rightarrow>
                    (case reserveAdditionalBuffer mem (cx_bitstreamBuffer ctx) bytes of
                       (False, bits) \<Rightarrow>
                         (ctx\<lparr>cx_sliceOffsets := offs, cx_bitstreamBuffer := bits\<rparr>, picParams)
                     | (True, bits) \<Rightarrow>
                         (let ctx3 = fold (\<lambda>s c. append_slice mem prefix buf c s) slices
                                (ctx\<lparr>cx_sliceOffsets := offs, cx_bitstreamBuffer := bits\<rparr>)
                          in case nvCommitCuvidBitstreamLength (Some ctx3) (Some picParams) of
                               (_, Some c, Some pp) \<Rightarrow> (c, pp)
                             | _ \<Rightarrow> (ctx3, picParams))))))"

section \<open>Correctness of the picture index choice\<close>

lemma bit_limit_mask: "L \<le> 32 \<Longrightarrow> bit (limit_mask L) i \<longleftrightarrow> i < unat L"
proof -
  assume "L \<le> 32"
  then have le: "unat L \<le> 32" by (simp add: word_le_nat_alt)
  have "limit_mask L = mask (unat L)"
  proof (cases "L = 32")
    case True
    then show ?thesis by (simp add: limit_mask_def mask_eq_exp_minus_1)
  next
    case False
    then show ?thesis by (simp add: limit_mask_def mask_eq_exp_minus_1 push_bit_eq_mult)
  qed
  then show ?thesis using le by (auto simp: bit_simps)
qed

lemma select_index_unat:
  assumes "s < (L :: u32)" "k < unat L" "L \<le> 32"
  shows "unat ((s + of_nat k) mod L) = (unat s + k) mod unat L"
proof -
  have n: "unat s < unat L" "unat L \<le> 32" using assms by (simp_all add: word_less_nat_alt word_le_nat_alt)
  then have k: "unat (of_nat k :: u32) = k" using assms(2) by (simp add: unat_of_nat take_bit_nat_eq_self)
  then have "unat (s + of_nat k) = unat s + k"
    using n assms(2) by (subst unat_add_no_overflow) simp_all
  then show ?thesis by (simp add: unat_mod_distrib)
qed

lemma select_from_spec:
  assumes "s < L" "L \<le> 32"
  shows "case select_from a s L off of
      None \<Rightarrow> \<forall>k. off \<le> k \<and> k < unat L \<longrightarrow> \<not> bit a ((unat s + k) mod unat L)
    | Some i \<Rightarrow> \<exists>k. off \<le> k \<and> k < unat L \<and> unat i = (unat s + k) mod unat L \<and> bit a (unat i) \<and>
        (\<forall>k'. off \<le> k' \<and> k' < k \<longrightarrow> \<not> bit a ((unat s + k') mod unat L))"
proof (induction "unat L - off" arbitrary: off)
  case 0
  then show ?case by (subst select_from.simps) auto
next
  case (Suc d)
  then have lt: "off < unat L" by simp
  let ?i = "(s + of_nat off) mod L"
  have u: "unat ?i = (unat s + off) mod unat L" by (rule select_index_unat [OF assms(1) lt assms(2)])
  show ?case
  proof (cases "bit a (unat ?i)")
    case True
    then have "select_from a s L off = Some ?i"
      using lt by (subst select_from.simps) (simp add: Let_def bit_iff_and_push_bit_not_eq_0)
    with True u lt show ?thesis by (auto intro!: exI [of _ off])
  next
    case False
    then have e: "select_from a s L off = select_from a s L (Suc off)"
      using lt by (subst select_from.simps) (simp add: Let_def bit_iff_and_push_bit_not_eq_0)
    have here: "\<not> bit a ((unat s + off) mod unat L)" using False u by simp
    have IH: "case select_from a s L (Suc off) of
      None \<Rightarrow> \<forall>k. Suc off \<le> k \<and> k < unat L \<longrightarrow> \<not> bit a ((unat s + k) mod unat L)
    | Some i \<Rightarrow> \<exists>k. Suc off \<le> k \<and> k < unat L \<and> unat i = (unat s + k) mod unat L \<and> bit a (unat i) \<and>
        (\<forall>k'. Suc off \<le> k' \<and> k' < k \<longrightarrow> \<not> bit a ((unat s + k') mod unat L))"
      using Suc(1) [of "Suc off"] Suc(2) lt by simp
    show ?thesis
    proof (cases "select_from a s L (Suc off)")
      case None
      have "off \<le> k \<Longrightarrow> k = off \<or> Suc off \<le> k" for k by linarith
      then have "\<forall>k. off \<le> k \<and> k < unat L \<longrightarrow> \<not> bit a ((unat s + k) mod unat L)"
        using IH here unfolding None option.case by blast
      with None e show ?thesis by simp
    next
      case (Some i)
      with IH obtain k where k: "Suc off \<le> k" "k < unat L" "unat i = (unat s + k) mod unat L"
        "bit a (unat i)" "\<forall>k'. Suc off \<le> k' \<and> k' < k \<longrightarrow> \<not> bit a ((unat s + k') mod unat L)" by auto
      have "\<forall>k'. off \<le> k' \<and> k' < k \<longrightarrow> \<not> bit a ((unat s + k') mod unat L)"
        using k(5) here by (metis Suc_leI le_neq_implies_less)
      with k Some e show ?thesis by (auto intro!: exI [of _ k])
    qed
  qed
qed

lemma cyclic_reaches:
  assumes "s < L" "i < (L::nat)"
  shows "\<exists>k < L. i = (s + k) mod L"
proof (cases "s \<le> i")
  case True
  with assms show ?thesis by (intro exI [of _ "i - s"]) simp
next
  case False
  with assms show ?thesis by (intro exI [of _ "L - s + i"]) simp
qed

lemma nvdSelectPictureIndex_spec:
  assumes "0 < surfaceLimit" "surfaceLimit \<le> 32" "L = unat surfaceLimit"
    and "start = unat recycleCursor mod L"
    and "free = (\<lambda>i. \<not> bit activeMask i \<and> \<not> bit busyMask i)"
  shows "case nvdSelectPictureIndex allocatedCount surfaceLimit activeMask busyMask recycleCursor of
      None \<Rightarrow> surfaceLimit \<le> allocatedCount \<and> (\<forall>i < L. \<not> free i)
    | Some index \<Rightarrow> unat index < L \<and>
        (if allocatedCount < surfaceLimit then index = allocatedCount
         else \<exists>k < L. unat index = (start + k) mod L \<and> free (unat index) \<and>
                (\<forall>k' < k. \<not> free ((start + k') mod L)))"
proof (cases "allocatedCount < surfaceLimit")
  case True
  with assms show ?thesis by (simp add: nvdSelectPictureIndex_def not_less [symmetric] word_less_nat_alt)
next
  case False
  let ?a = "limit_mask surfaceLimit AND NOT (activeMask OR busyMask)"
  let ?s = "recycleCursor mod surfaceLimit"
  have bits: "bit ?a i \<longleftrightarrow> i < L \<and> free i" if "i < 32" for i
    using that bit_limit_mask [OF assms(2)] assms(3,5) by (auto simp: bit_simps)
  have L: "0 < L" "L \<le> 32"
    using assms(1-3) by (simp_all add: word_less_nat_alt word_le_nat_alt)
  have bits': "bit ?a i \<longleftrightarrow> i < L \<and> free i" for i
    using bits L by (metis bit_and_iff bit_limit_mask assms(2,3) less_le_trans)
  have s: "?s < surfaceLimit" "unat ?s = start" "start < L"
    using assms(1,3,4) L by (simp_all add: word_less_nat_alt unat_mod_distrib)
  have sel: "nvdSelectPictureIndex allocatedCount surfaceLimit activeMask busyMask recycleCursor =
      (if ?a = 0 then None else select_from ?a ?s surfaceLimit 0)"
    using False assms(1,2) by (auto simp: nvdSelectPictureIndex_def Let_def not_less [symmetric])
  have none: "?a = 0 \<longleftrightarrow> (\<forall>i < L. \<not> free i)"
    using bits' L(2) by (auto simp: bit_eq_iff)
  note spec = select_from_spec [OF s(1) assms(2), where a = ?a and off = 0]
  show ?thesis
  proof (cases "?a = 0")
    case True
    with sel none False show ?thesis by simp
  next
    case nz: False
    show ?thesis
    proof (cases "select_from ?a ?s surfaceLimit 0")
      case None
      then have "\<forall>k < L. \<not> bit ?a ((start + k) mod L)" using spec s(2) assms(3) by simp
      then have "\<forall>i < L. \<not> bit ?a i" using cyclic_reaches [OF s(3)] by metis
      with none nz bits' show ?thesis by blast
    next
      case (Some index)
      with spec s(2) assms(3) obtain k where k: "k < L" "unat index = (start + k) mod L"
        "bit ?a (unat index)" "\<forall>k' < k. \<not> bit ?a ((start + k') mod L)" by auto
      have "\<forall>k' < k. \<not> free ((start + k') mod L)" using k(4) bits' L(1) by auto
      then show ?thesis using k(1-3) Some nz sel False bits' by (auto intro!: exI [of _ k])
    qed
  qed
qed

text \<open>The choice of a decoder picture index, once all indices of the pool have been handed out:
  the result is inside the pool, neither held by a reference picture nor busy, and it is the
  first such index in cyclic order from the recycle cursor; the function fails only when every
  index of the pool is referenced or busy. Before that, indices are handed out in order.\<close>

theorem select_picture_index:
  assumes "0 < surfaceLimit" "surfaceLimit \<le> 32" "L = unat surfaceLimit"
    and "start = unat recycleCursor mod L"
    and "free = (\<lambda>i. \<not> bit activeMask i \<and> \<not> bit busyMask i)"
  shows "case nvdSelectPictureIndex allocatedCount surfaceLimit activeMask busyMask recycleCursor of
      None \<Rightarrow> surfaceLimit \<le> allocatedCount \<and> (\<forall>i < L. \<not> free i)
    | Some index \<Rightarrow> unat index < L \<and>
        (if allocatedCount < surfaceLimit then index = allocatedCount
         else \<exists>k < L. unat index = (start + k) mod L \<and> free (unat index) \<and>
                (\<forall>k' < k. \<not> free ((start + k') mod L)))"
  using assms by (rule nvdSelectPictureIndex_spec)

text \<open>A pool of 4 with index 1 referenced and index 2 busy; the cursor is at 1.\<close>

lemma select_picture_index_witness:
  "case nvdSelectPictureIndex 4 4 2 4 1 of None \<Rightarrow> False
   | Some index \<Rightarrow> unat index < 4 \<and> \<not> bit (2 :: u32) (unat index)"
proof -
  have "nvdSelectPictureIndex 4 4 2 4 1 = Some 3" by code_simp
  then show ?thesis using select_picture_index [of 4, OF _ _ refl refl refl, of 4 2 4 1] by auto
qed

section \<open>Correctness of the slice data handlers\<close>

definition buf_ok :: "NVBuffer \<Rightarrow> bool" where
  "buf_ok buf \<longleftrightarrow> (case nb_ptr buf of None \<Rightarrow> nb_size buf = 0 | Some bytes \<Rightarrow> length bytes = unat (nb_size buf))"

definition slice_in :: "NVBuffer \<Rightarrow> slice_range \<Rightarrow> bool" where
  "slice_in buf s \<longleftrightarrow> nb_ptr buf \<noteq> None \<and>
     unat (slice_data_offset s) + unat (slice_data_size s) \<le> unat (nb_size buf)"

definition slice_bytes :: "u8 list \<Rightarrow> NVBuffer \<Rightarrow> slice_range \<Rightarrow> u8 list" where
  "slice_bytes prefix buf s =
     prefix @ take (unat (slice_data_size s)) (drop (unat (slice_data_offset s)) (the (nb_ptr buf)))"

fun slice_starts :: "nat \<Rightarrow> nat \<Rightarrow> slice_range list \<Rightarrow> nat list" where
  "slice_starts pos prefix [] = []"
| "slice_starts pos prefix (s # ss) =
     pos # slice_starts (pos + prefix + unat (slice_data_size s)) prefix ss"

lemma validate_ok:
  "nvValidateSliceRange (Some ctx) (Some buf) off n = (d, True, c) \<longleftrightarrow>
   (\<exists>bytes. nb_ptr buf = Some bytes \<and> d = Some (drop (unat off) bytes)) \<and> c = Some ctx \<and>
   unat off + unat n \<le> unat (nb_size buf)"
proof -
  have "u32_to_u64 off \<le> nb_size buf \<Longrightarrow>
      unat (nb_size buf - u32_to_u64 off) = unat (nb_size buf) - unat off"
    by (simp add: unat_sub_le)
  then show ?thesis
    by (auto simp: nvValidateSliceRange_def Let_def word_less_nat_alt word_le_nat_alt not_less
        split: option.splits)
qed

lemma validate_fail:
  assumes "nvValidateSliceRange (Some ctx) (Some buf) off n = (d, False, c)"
  shows "c = Some (fail_input ctx)" "d = None"
    "nb_ptr buf = None \<or> \<not> unat off + unat n \<le> unat (nb_size buf)"
proof -
  show "c = Some (fail_input ctx)" "d = None"
    using assms by (auto simp: nvValidateSliceRange_def Let_def split: option.splits if_splits)
  show "nb_ptr buf = None \<or> \<not> unat off + unat n \<le> unat (nb_size buf)"
    using assms validate_ok [of ctx buf off n] by (metis not_None_eq prod.inject)
qed

lemma sum_slices_ok:
  "sum_slices prefix ctx buf ss b0 = (Some bytes, ctx') \<Longrightarrow>
   (\<forall>s \<in> set ss. slice_in buf s) \<and>
   unat bytes = unat b0 + sum_list (map (\<lambda>s. unat (slice_data_size s) + unat prefix) ss)"
proof (induction ss arbitrary: b0)
  case Nil
  then show ?case by simp
next
  case (Cons s ss)
  let ?n = "u32_to_u64 (slice_data_size s)"
  obtain d r c where v: "nvValidateSliceRange (Some ctx) (Some buf) (slice_data_offset s) ?n = (d, r, c)"
    by (cases "nvValidateSliceRange (Some ctx) (Some buf) (slice_data_offset s) ?n")
  have r: r using Cons.prems v by (cases r) auto
  then have inn: "slice_in buf s" using v validate_ok by (auto simp: slice_in_def)
  have lim: "\<not> (b0 > SIZE_MAX - prefix \<or> ?n > SIZE_MAX - b0 - prefix)"
    using Cons.prems v r by (auto split: if_splits)
  then have rest: "sum_slices prefix ctx buf ss (b0 + (?n + prefix)) = (Some bytes, ctx')"
    using Cons.prems v r by simp
  have a: "unat b0 + unat prefix \<le> 18446744073709551615"
    using lim unat_u64_less [of prefix] by (simp add: word_less_nat_alt size_max_minus) linarith
  have "prefix \<le> SIZE_MAX - b0" using a by (simp add: word_le_nat_alt size_max_minus)
  then have "unat (SIZE_MAX - b0 - prefix) = 18446744073709551615 - unat b0 - unat prefix"
    by (simp add: unat_sub_le size_max_minus)
  then have b: "unat b0 + (unat ?n + unat prefix) < 18446744073709551616"
    using lim a by (simp add: word_less_nat_alt) linarith
  then have np: "unat (?n + prefix) = unat ?n + unat prefix" by (subst unat_add_no_overflow) simp_all
  have "unat (b0 + (?n + prefix)) = unat b0 + (unat ?n + unat prefix)"
    using b np by (subst unat_add_no_overflow) simp_all
  with Cons.IH [OF rest] inn show ?case by simp
qed

lemma sum_slices_fail:
  "sum_slices prefix ctx buf ss b0 = (None, ctx') \<Longrightarrow>
   ctx' = fail_input ctx \<or>
   ctx' = ctx\<lparr>cx_bitstreamBuffer := (cx_bitstreamBuffer ctx)\<lparr>ab_failed := True\<rparr>\<rparr>"
proof (induction ss arbitrary: b0)
  case (Cons s ss)
  let ?n = "u32_to_u64 (slice_data_size s)"
  obtain d r c where v: "nvValidateSliceRange (Some ctx) (Some buf) (slice_data_offset s) ?n = (d, r, c)"
    by (cases "nvValidateSliceRange (Some ctx) (Some buf) (slice_data_offset s) ?n")
  show ?case
  proof (cases r)
    case True
    with Cons v show ?thesis by (auto split: if_splits)
  next
    case False
    with v validate_fail(1) [of ctx buf _ ?n d c] have "c = Some (fail_input ctx)" by simp
    with Cons.prems v False show ?thesis by auto
  qed
qed simp

lemma append_fits:
  assumes "ab_wf b" "alloc_block mem" "unat n \<le> length bytes"
    and "unat (ab_size b) + unat n \<le> unat (ab_allocated b)"
  shows "\<exists>b'. appendBuffer mem b (Some bytes) n = (True, b') \<and> ab_wf b' \<and>
    ab_bytes b' = ab_bytes b @ take (unat n) bytes \<and> ab_failed b' = ab_failed b \<and>
    ab_allocated b' = ab_allocated b \<and> unat (ab_size b') = unat (ab_size b) + unat n"
proof -
  obtain r b' where run: "appendBuffer mem b (Some bytes) n = (r, b')"
    by (cases "appendBuffer mem b (Some bytes) n")
  note res = appendBuffer_reserved [OF assms(4), of mem bytes, unfolded run fst_conv snd_conv]
  have "appendBuffer mem b (Some bytes) n = (True, b')" using run res(1) by simp
  with appendBuffer_ok [OF assms(1-3) this] res(2,3) show ?thesis by auto
qed

lemma ab_bytes_size: "ab_wf b \<Longrightarrow> ab_bytes b' = ab_bytes b @ xs \<Longrightarrow> ab_wf b' \<Longrightarrow>
    unat (ab_size b') = unat (ab_size b) + length xs"
  by (metis length_ab_bytes length_append)

definition slices_total :: "nat \<Rightarrow> slice_range list \<Rightarrow> nat" where
  "slices_total prefix ss = sum_list (map (\<lambda>s. unat (slice_data_size s) + prefix) ss)"

lemma slices_total_simps [simp]:
  "slices_total prefix [] = 0"
  "slices_total prefix (s # ss) = unat (slice_data_size s) + prefix + slices_total prefix ss"
  by (simp_all add: slices_total_def)

lemma length_slice_bytes:
  "buf_ok buf \<Longrightarrow> slice_in buf s \<Longrightarrow>
   length (slice_bytes prefix buf s) = length prefix + unat (slice_data_size s)"
  by (auto simp: slice_bytes_def slice_in_def buf_ok_def)

lemma append_slice_ok:
  assumes ok: "buf_ok buf" "slice_in buf s" "alloc_block mem" "length prefix < 2 ^ 64"
    and offs: "ab_wf (cx_sliceOffsets ctx)"
      "unat (ab_size (cx_sliceOffsets ctx)) + 4 \<le> unat (ab_allocated (cx_sliceOffsets ctx))"
    and bits: "ab_wf (cx_bitstreamBuffer ctx)"
      "unat (ab_size (cx_bitstreamBuffer ctx)) + (unat (slice_data_size s) + length prefix)
         \<le> unat (ab_allocated (cx_bitstreamBuffer ctx))"
  shows "\<exists>o' b'. append_slice mem prefix buf ctx s = ctx\<lparr>cx_sliceOffsets := o', cx_bitstreamBuffer := b'\<rparr> \<and>
    ab_wf o' \<and> ab_bytes o' = ab_bytes (cx_sliceOffsets ctx) @
        le32 (of_nat (unat (ab_size (cx_bitstreamBuffer ctx)))) \<and>
    ab_failed o' = ab_failed (cx_sliceOffsets ctx) \<and>
    ab_allocated o' = ab_allocated (cx_sliceOffsets ctx) \<and>
    unat (ab_size o') = unat (ab_size (cx_sliceOffsets ctx)) + 4 \<and>
    ab_wf b' \<and> ab_bytes b' = ab_bytes (cx_bitstreamBuffer ctx) @ slice_bytes prefix buf s \<and>
    ab_failed b' = ab_failed (cx_bitstreamBuffer ctx) \<and>
    ab_allocated b' = ab_allocated (cx_bitstreamBuffer ctx) \<and>
    unat (ab_size b') = unat (ab_size (cx_bitstreamBuffer ctx)) + (unat (slice_data_size s) + length prefix)"
proof -
  let ?b = "cx_bitstreamBuffer ctx" and ?o = "cx_sliceOffsets ctx"
  let ?off = "u64_to_u32 (ab_size ?b)"
  obtain o' where o': "appendBuffer mem ?o (Some (le32 ?off)) 4 = (True, o')" "ab_wf o'"
    "ab_bytes o' = ab_bytes ?o @ le32 ?off" "ab_failed o' = ab_failed ?o"
    "ab_allocated o' = ab_allocated ?o" "unat (ab_size o') = unat (ab_size ?o) + 4"
    using append_fits [OF offs(1) ok(3), of 4 "le32 ?off"] offs(2) by (auto simp: le32_def)
  have pl: "unat (of_nat (length prefix) :: usize) = length prefix"
    using ok(4) by (simp add: unat_of_nat take_bit_nat_eq_self)
  have "\<exists>b1. (if prefix = [] then ?b else snd (appendBuffer mem ?b (Some prefix) (of_nat (length prefix)))) = b1 \<and>
      ab_wf b1 \<and> ab_bytes b1 = ab_bytes ?b @ prefix \<and> ab_failed b1 = ab_failed ?b \<and>
      ab_allocated b1 = ab_allocated ?b \<and> unat (ab_size b1) = unat (ab_size ?b) + length prefix"
  proof (cases "prefix = []")
    case True
    with bits(1) show ?thesis by simp
  next
    case False
    have "unat (ab_size ?b) + unat (of_nat (length prefix) :: usize) \<le> unat (ab_allocated ?b)"
      using bits(2) pl by simp
    from append_fits [OF bits(1) ok(3) _ this, of prefix] pl False show ?thesis by auto
  qed
  then obtain b1 where b1:
    "(if prefix = [] then ?b else snd (appendBuffer mem ?b (Some prefix) (of_nat (length prefix)))) = b1"
    "ab_wf b1" "ab_bytes b1 = ab_bytes ?b @ prefix" "ab_failed b1 = ab_failed ?b"
    "ab_allocated b1 = ab_allocated ?b" "unat (ab_size b1) = unat (ab_size ?b) + length prefix" by blast
  obtain bytes where bytes: "nb_ptr buf = Some bytes" "length bytes = unat (nb_size buf)"
    using ok(1,2) by (auto simp: slice_in_def buf_ok_def)
  let ?d = "drop (unat (slice_data_offset s)) bytes"
  have "unat (slice_data_size s) \<le> length ?d"
    using ok(2) bytes(2) by (simp add: slice_in_def) linarith
  moreover have "unat (ab_size b1) + unat (slice_data_size s) \<le> unat (ab_allocated b1)"
    using b1(5,6) bits(2) by simp
  ultimately obtain b' where b': "appendBuffer mem b1 (Some ?d) (u32_to_u64 (slice_data_size s)) = (True, b')"
    "ab_wf b'" "ab_bytes b' = ab_bytes b1 @ take (unat (slice_data_size s)) ?d"
    "ab_failed b' = ab_failed b1" "ab_allocated b' = ab_allocated b1"
    "unat (ab_size b') = unat (ab_size b1) + unat (slice_data_size s)"
    using append_fits [OF b1(2) ok(3), of "u32_to_u64 (slice_data_size s)" ?d] by auto
  have "append_slice mem prefix buf ctx s = ctx\<lparr>cx_sliceOffsets := o', cx_bitstreamBuffer := b'\<rparr>"
    unfolding append_slice_def Let_def b1(1) by (simp add: o'(1) b'(1) bytes(1))
  then show ?thesis
    using o' b' b1 bytes by (intro exI [of _ o'] exI [of _ b']) (simp add: slice_bytes_def)
qed

text \<open>All slices after the two reservations: nothing fails any more.\<close>

lemma append_slices_ok:
  assumes ok: "buf_ok buf" "alloc_block mem" "length prefix < 2 ^ 64"
  shows "\<forall>s \<in> set ss. slice_in buf s \<Longrightarrow>
    ab_wf (cx_sliceOffsets ctx) \<Longrightarrow> ab_wf (cx_bitstreamBuffer ctx) \<Longrightarrow>
    unat (ab_size (cx_sliceOffsets ctx)) + 4 * length ss \<le> unat (ab_allocated (cx_sliceOffsets ctx)) \<Longrightarrow>
    unat (ab_size (cx_bitstreamBuffer ctx)) + slices_total (length prefix) ss
      \<le> unat (ab_allocated (cx_bitstreamBuffer ctx)) \<Longrightarrow>
    \<exists>o' b'. fold (\<lambda>s c. append_slice mem prefix buf c s) ss ctx =
        ctx\<lparr>cx_sliceOffsets := o', cx_bitstreamBuffer := b'\<rparr> \<and> ab_wf o' \<and> ab_wf b' \<and>
      ab_failed o' = ab_failed (cx_sliceOffsets ctx) \<and>
      ab_failed b' = ab_failed (cx_bitstreamBuffer ctx) \<and>
      ab_bytes b' = ab_bytes (cx_bitstreamBuffer ctx) @ concat (map (slice_bytes prefix buf) ss) \<and>
      ab_bytes o' = ab_bytes (cx_sliceOffsets ctx) @ concat (map (\<lambda>p. le32 (of_nat p))
        (slice_starts (unat (ab_size (cx_bitstreamBuffer ctx))) (length prefix) ss))"
proof (induction ss arbitrary: ctx)
  case Nil
  then show ?case
    by (intro exI [of _ "cx_sliceOffsets ctx"] exI [of _ "cx_bitstreamBuffer ctx"]) simp
next
  case (Cons s ss)
  have "slice_in buf s" using Cons.prems(1) by simp
  from append_slice_ok [OF ok(1) this ok(2,3) Cons.prems(2) _ Cons.prems(3)] Cons.prems(4,5)
  obtain o1 b1 where s1: "append_slice mem prefix buf ctx s = ctx\<lparr>cx_sliceOffsets := o1, cx_bitstreamBuffer := b1\<rparr>"
    "ab_wf o1" "ab_bytes o1 = ab_bytes (cx_sliceOffsets ctx) @ le32 (of_nat (unat (ab_size (cx_bitstreamBuffer ctx))))"
    "ab_failed o1 = ab_failed (cx_sliceOffsets ctx)" "ab_allocated o1 = ab_allocated (cx_sliceOffsets ctx)"
    "unat (ab_size o1) = unat (ab_size (cx_sliceOffsets ctx)) + 4"
    "ab_wf b1" "ab_bytes b1 = ab_bytes (cx_bitstreamBuffer ctx) @ slice_bytes prefix buf s"
    "ab_failed b1 = ab_failed (cx_bitstreamBuffer ctx)"
    "ab_allocated b1 = ab_allocated (cx_bitstreamBuffer ctx)"
    "unat (ab_size b1) = unat (ab_size (cx_bitstreamBuffer ctx)) + (unat (slice_data_size s) + length prefix)"
    by auto
  let ?c = "ctx\<lparr>cx_sliceOffsets := o1, cx_bitstreamBuffer := b1\<rparr>"
  have "\<forall>s \<in> set ss. slice_in buf s" "ab_wf (cx_sliceOffsets ?c)" "ab_wf (cx_bitstreamBuffer ?c)"
    "unat (ab_size (cx_sliceOffsets ?c)) + 4 * length ss \<le> unat (ab_allocated (cx_sliceOffsets ?c))"
    "unat (ab_size (cx_bitstreamBuffer ?c)) + slices_total (length prefix) ss
      \<le> unat (ab_allocated (cx_bitstreamBuffer ?c))"
    using Cons.prems s1 by simp_all
  from Cons.IH [OF this] obtain o' b' where r:
    "fold (\<lambda>s c. append_slice mem prefix buf c s) ss ?c = ?c\<lparr>cx_sliceOffsets := o', cx_bitstreamBuffer := b'\<rparr>"
    "ab_wf o'" "ab_wf b'" "ab_failed o' = ab_failed o1" "ab_failed b' = ab_failed b1"
    "ab_bytes b' = ab_bytes b1 @ concat (map (slice_bytes prefix buf) ss)"
    "ab_bytes o' = ab_bytes o1 @ concat (map (\<lambda>p. le32 (of_nat p))
       (slice_starts (unat (ab_size b1)) (length prefix) ss))" by auto
  show ?case
    by (intro exI [of _ o'] exI [of _ b']) (use r s1 in \<open>simp add: ac_simps\<close>)
qed

lemma can_append_iff:
  "nvCanAppendCuvidBitstream (Some ctx) n = (True, c) \<longleftrightarrow>
   c = Some ctx \<and> unat (ab_size (cx_bitstreamBuffer ctx)) + unat n \<le> 4294967295"
proof -
  let ?m = "u32_to_u64 UINT32_MAX"
  have "ab_size (cx_bitstreamBuffer ctx) \<le> ?m \<Longrightarrow>
      unat (?m - ab_size (cx_bitstreamBuffer ctx)) = 4294967295 - unat (ab_size (cx_bitstreamBuffer ctx))"
    by (subst unat_sub_le) simp_all
  then show ?thesis
    by (auto simp: nvCanAppendCuvidBitstream_def word_less_nat_alt word_le_nat_alt not_less)
qed

lemma can_append_fail:
  "nvCanAppendCuvidBitstream (Some ctx) n = (False, c) \<Longrightarrow> c = Some (fail_input ctx)"
  by (auto simp: nvCanAppendCuvidBitstream_def split: if_splits)

text \<open>What a successful and what a failing call of a slice data handler leaves behind.\<close>

definition slices_appended ::
    "u8 list \<Rightarrow> NVBuffer \<Rightarrow> slice_range list \<Rightarrow> codec_ctx \<Rightarrow> 'c CUVIDPICPARAMS \<Rightarrow>
     codec_ctx \<Rightarrow> 'c CUVIDPICPARAMS \<Rightarrow> bool" where
  "slices_appended prefix buf slices ctx pp ctx' pp' \<longleftrightarrow>
     (\<forall>s \<in> set slices. slice_in buf s) \<and>
     ab_bytes (cx_bitstreamBuffer ctx') =
       ab_bytes (cx_bitstreamBuffer ctx) @ concat (map (slice_bytes prefix buf) slices) \<and>
     ab_bytes (cx_sliceOffsets ctx') = ab_bytes (cx_sliceOffsets ctx) @
       concat (map (\<lambda>p. le32 (of_nat p))
         (slice_starts (length (ab_bytes (cx_bitstreamBuffer ctx))) (length prefix) slices)) \<and>
     unat (pp_nBitstreamDataLen pp') = length (ab_bytes (cx_bitstreamBuffer ctx')) \<and>
     cx_inputValidationFailed ctx' = cx_inputValidationFailed ctx \<and>
     ab_failed (cx_bitstreamBuffer ctx') = ab_failed (cx_bitstreamBuffer ctx) \<and>
     ab_failed (cx_sliceOffsets ctx') = ab_failed (cx_sliceOffsets ctx)"

definition slices_rejected ::
    "codec_ctx \<Rightarrow> 'c CUVIDPICPARAMS \<Rightarrow> codec_ctx \<Rightarrow> 'c CUVIDPICPARAMS \<Rightarrow> bool" where
  "slices_rejected ctx pp ctx' pp' \<longleftrightarrow>
     (cx_inputValidationFailed ctx' \<or> ab_failed (cx_bitstreamBuffer ctx') \<or>
      ab_failed (cx_sliceOffsets ctx')) \<and>
     ab_bytes (cx_bitstreamBuffer ctx') = ab_bytes (cx_bitstreamBuffer ctx) \<and>
     ab_bytes (cx_sliceOffsets ctx') = ab_bytes (cx_sliceOffsets ctx) \<and> pp' = pp"

lemma copySliceData_cases:
  assumes run: "copySliceData mem prefix ctx buf pp = (ctx', pp')"
    and ok: "buf_ok buf" "alloc_block mem" "length prefix < 2 ^ 64"
    and wf: "ab_wf (cx_bitstreamBuffer ctx)" "ab_wf (cx_sliceOffsets ctx)"
    and slices: "slices = take (unat (cx_lastSliceParamsCount ctx)) (cx_lastSliceParams ctx)"
  shows "ab_wf (cx_bitstreamBuffer ctx') \<and> ab_wf (cx_sliceOffsets ctx') \<and>
    (slices_rejected ctx pp ctx' pp' \<or> slices_appended prefix buf slices ctx pp ctx' pp')"
proof -
  let ?b = "cx_bitstreamBuffer ctx" and ?o = "cx_sliceOffsets ctx"
  let ?n = "u32_to_u64 (cx_lastSliceParamsCount ctx)"
  obtain r c where ss: "sum_slices (of_nat (length prefix)) ctx buf slices 0 = (r, c)"
    by (cases "sum_slices (of_nat (length prefix)) ctx buf slices 0")
  show ?thesis
  proof (cases r)
    case None
    then have "ctx' = c" "pp' = pp"
      using run ss by (simp_all add: copySliceData_def slices [symmetric])
    moreover have "c = fail_input ctx \<or> c = ctx\<lparr>cx_bitstreamBuffer := ?b\<lparr>ab_failed := True\<rparr>\<rparr>"
      by (rule sum_slices_fail) (use ss None in simp)
    ultimately show ?thesis using wf by (auto simp: slices_rejected_def)
  next
    case (Some bytes)
    have pl: "unat (of_nat (length prefix) :: usize) = length prefix"
      using ok(3) by (simp add: unat_of_nat take_bit_nat_eq_self)
    have inn: "\<forall>s \<in> set slices. slice_in buf s"
      and total: "unat bytes = slices_total (length prefix) slices"
      using sum_slices_ok [of "of_nat (length prefix)" ctx buf slices 0 bytes c] ss Some pl
      by (simp_all add: slices_total_def)
    obtain ca c2 where ca: "nvCanAppendCuvidBitstream (Some ctx) bytes = (ca, c2)"
      by (cases "nvCanAppendCuvidBitstream (Some ctx) bytes")
    obtain r1 o1 where r1: "reserveBufferElements mem ?o ?n 4 = (r1, o1)"
      by (cases "reserveBufferElements mem ?o ?n 4")
    obtain r2 b1 where r2: "reserveAdditionalBuffer mem ?b bytes = (r2, b1)"
      by (cases "reserveAdditionalBuffer mem ?b bytes")
    note D = copySliceData_def Let_def slices [symmetric]
    consider (cases_ca) "\<not> ca" | (cases_r1) "ca" "\<not> r1" | (cases_r2) "ca" "r1" "\<not> r2" | (cases_all) "ca" "r1" "r2" by blast
    then show ?thesis
    proof cases
      case cases_ca
      then have c2: "c2 = Some (fail_input ctx)" using can_append_fail ca by simp
      have "ctx' = fail_input ctx" "pp' = pp"
        using run ss Some ca cases_ca c2 by (simp_all add: D)
      with wf show ?thesis by (simp add: slices_rejected_def)
    next
      case cases_r1
      then have "o1 = ?o\<lparr>ab_failed := True\<rparr>" using reserveBufferElements_fail r1 by simp
      moreover have "ctx' = ctx\<lparr>cx_sliceOffsets := o1\<rparr>" "pp' = pp"
        using run ss Some ca r1 cases_r1 by (simp_all add: D)
      ultimately show ?thesis using wf by (simp add: slices_rejected_def)
    next
      case cases_r2
      then have b1: "b1 = ?b\<lparr>ab_failed := True\<rparr>" using reserveAdditionalBuffer_fail r2 by simp
      have "ctx' = ctx\<lparr>cx_sliceOffsets := o1, cx_bitstreamBuffer := b1\<rparr>" "pp' = pp"
        using run ss Some ca r1 r2 cases_r2 by (simp_all add: D)
      moreover have "ab_wf o1" "ab_bytes o1 = ab_bytes ?o"
        using reserveBufferElements_ok [OF wf(2) ok(2)] r1 cases_r2 by simp_all
      ultimately show ?thesis using wf b1 by (simp add: slices_rejected_def)
    next
      case cases_all
      have r1t: "reserveBufferElements mem ?o ?n 4 = (True, o1)"
        and r2t: "reserveAdditionalBuffer mem ?b bytes = (True, b1)" using r1 r2 cases_all by simp_all
      note O = reserveBufferElements_ok [OF wf(2) ok(2) r1t]
      note B = reserveAdditionalBuffer_ok [OF wf(1) ok(2) r2t]
      let ?c = "ctx\<lparr>cx_sliceOffsets := o1, cx_bitstreamBuffer := b1\<rparr>"
      have len: "length slices \<le> unat (cx_lastSliceParamsCount ctx)" by (simp add: slices)
      have "ab_wf (cx_sliceOffsets ?c)" "ab_wf (cx_bitstreamBuffer ?c)"
        "unat (ab_size (cx_sliceOffsets ?c)) + 4 * length slices \<le> unat (ab_allocated (cx_sliceOffsets ?c))"
        "unat (ab_size (cx_bitstreamBuffer ?c)) + slices_total (length prefix) slices
          \<le> unat (ab_allocated (cx_bitstreamBuffer ?c))"
        using O B len total by simp_all
      from append_slices_ok [OF ok inn this] obtain o' b' where f:
        "fold (\<lambda>s c. append_slice mem prefix buf c s) slices ?c =
           ?c\<lparr>cx_sliceOffsets := o', cx_bitstreamBuffer := b'\<rparr>" "ab_wf o'" "ab_wf b'"
        "ab_failed o' = ab_failed ?o" "ab_failed b' = ab_failed ?b"
        "ab_bytes b' = ab_bytes ?b @ concat (map (slice_bytes prefix buf) slices)"
        "ab_bytes o' = ab_bytes ?o @ concat (map (\<lambda>p. le32 (of_nat p))
          (slice_starts (unat (ab_size ?b)) (length prefix) slices))"
        using O B by auto
      have lb: "length (concat (map (slice_bytes prefix buf) slices)) = slices_total (length prefix) slices"
        using inn by (induction slices) (simp_all add: length_slice_bytes [OF ok(1)] ac_simps)
      have sz: "unat (ab_size b') = unat (ab_size ?b) + unat bytes"
        using ab_bytes_size [OF wf(1) f(6) f(3)] lb total by simp
      then have le: "unat (ab_size b') \<le> 4294967295"
        using ca cases_all can_append_iff [of ctx bytes c2] by simp
      have commit: "nvCommitCuvidBitstreamLength (Some (ctx\<lparr>cx_sliceOffsets := o', cx_bitstreamBuffer := b'\<rparr>)) (Some pp) =
          (True, Some (ctx\<lparr>cx_sliceOffsets := o', cx_bitstreamBuffer := b'\<rparr>),
           Some (pp\<lparr>pp_nBitstreamDataLen := u64_to_u32 (ab_size b')\<rparr>))"
        using le by (simp add: nvCommitCuvidBitstreamLength_def word_less_nat_alt)
      have res: "ctx' = ctx\<lparr>cx_sliceOffsets := o', cx_bitstreamBuffer := b'\<rparr>"
        "pp' = pp\<lparr>pp_nBitstreamDataLen := u64_to_u32 (ab_size b')\<rparr>"
        using run ss Some ca r1 r2 cases_all by (simp_all add: D f(1) commit)
      then have "slices_appended prefix buf slices ctx pp ctx' pp'"
        using f le inn wf sz lb total by (simp add: slices_appended_def unat_u64_to_u32)
      with res f show ?thesis by simp
    qed
  qed
qed

section \<open>Properties of slice data, buffer schemas, headers and pools\<close>

text \<open>C18. A slice data handler (H.264 with a start code as \<open>prefix\<close>, MPEG-2 without one) is all or
  nothing: either a failure flag is set and no byte was added to the bitstream or to the
  slice offsets and the picture parameters are unchanged, or all slices lie inside the
  buffer, the bitstream grew by exactly the prefixed slices in order, the offsets grew by
  their little-endian start positions, the length was published, and no flag changed.\<close>

theorem slice_data_all_or_nothing:
  assumes "copySliceData mem prefix ctx buf pp = (ctx', pp')"
    and "buf_ok buf" "alloc_block mem" "length prefix < 2 ^ 64"
    and "ab_wf (cx_bitstreamBuffer ctx)" "ab_wf (cx_sliceOffsets ctx)"
  shows "slices_rejected ctx pp ctx' pp' \<or>
    slices_appended prefix buf (take (unat (cx_lastSliceParamsCount ctx)) (cx_lastSliceParams ctx))
      ctx pp ctx' pp'"
  using copySliceData_cases [OF assms refl] by blast

definition sample_ctx :: codec_ctx where
  "sample_ctx = \<lparr>cx_bitstreamBuffer = \<lparr>ab_buf = Some (replicate 16 0), ab_size = 0, ab_allocated = 16, ab_failed = False\<rparr>,
     cx_sliceOffsets = \<lparr>ab_buf = Some (replicate 8 0), ab_size = 0, ab_allocated = 8, ab_failed = False\<rparr>,
     cx_lastSliceParams = [\<lparr>slice_data_offset = 0, slice_data_size = 1\<rparr>,
                           \<lparr>slice_data_offset = 1, slice_data_size = 2\<rparr>],
     cx_lastSliceParamsCount = 2, cx_inputValidationFailed = False,
     cx_decodeSurfaceReferenceHint = 0, cx_progressiveFrame = False\<rparr>"

definition sample_slice_buffer :: NVBuffer where
  "sample_slice_buffer = \<lparr>nb_elements = 3, nb_elementSize = 1, nb_size = 3, nb_ptr = Some [0x65, 0x41, 0x42]\<rparr>"

definition sample_pic :: "unit CUVIDPICPARAMS" where
  "sample_pic = \<lparr>pp_PicWidthInMbs = 1, pp_FrameHeightInMbs = 1, pp_CurrPicIdx = 0, pp_field_pic_flag = 0,
     pp_bottom_field_flag = 0, pp_second_field = 0, pp_nBitstreamDataLen = 0, pp_nNumSlices = 2,
     pp_ref_pic_flag = 0, pp_intra_pic_flag = 1, pp_codec = ()\<rparr>"

lemma slice_data_all_or_nothing_witness:
  "slices_appended [0, 0, 1] sample_slice_buffer (cx_lastSliceParams sample_ctx) sample_ctx sample_pic
     (fst (copySliceData (\<lambda>_. None) [0, 0, 1] sample_ctx sample_slice_buffer sample_pic))
     (snd (copySliceData (\<lambda>_. None) [0, 0, 1] sample_ctx sample_slice_buffer sample_pic))"
proof -
  let ?r = "copySliceData (\<lambda>_. None) [0, 0, 1] sample_ctx sample_slice_buffer sample_pic"
  have run: "?r = (fst ?r, snd ?r)" by simp
  have b: "buf_ok sample_slice_buffer" by (simp add: buf_ok_def sample_slice_buffer_def)
  have m: "alloc_block (\<lambda>_. None)" by (simp add: alloc_block_def)
  have w: "ab_wf (cx_bitstreamBuffer sample_ctx)" "ab_wf (cx_sliceOffsets sample_ctx)"
    by (simp_all add: ab_wf_def sample_ctx_def ab_cells_def)
  have n: "take (unat (cx_lastSliceParamsCount sample_ctx)) (cx_lastSliceParams sample_ctx) =
      cx_lastSliceParams sample_ctx" by (simp add: sample_ctx_def)
  have "\<not> cx_inputValidationFailed (fst ?r)" "\<not> ab_failed (cx_bitstreamBuffer (fst ?r))"
    "\<not> ab_failed (cx_sliceOffsets (fst ?r))"
    by (simp_all add: copySliceData_def sum_slices.simps nvValidateSliceRange_def sample_ctx_def
        sample_slice_buffer_def nvCanAppendCuvidBitstream_def reserveBufferElements_def
        reserveAdditionalBuffer_def reserveBuffer_def append_slice_def appendBuffer_def le32_def
        nvCommitCuvidBitstreamLength_def Let_def)
  then show ?thesis
    using slice_data_all_or_nothing [OF run b m _ w] unfolding n by (simp add: slices_rejected_def)
qed

text \<open>A buffer that passes the schema check has a size that is the exact product of element size
  and count, an element at least as large as the structure the handler reads through the
  pointer, an admissible number of elements, and data whenever it is not empty.\<close>

theorem schema_validation:
  assumes "nvValidateBufferSchema (Some b) (Some sc)"
  shows "unat (nb_size b) = unat (nb_elementSize b) * unat (nb_elements b) \<and>
    unat (sc_minElementSize sc) \<le> unat (nb_elementSize b) \<and> sc_minElementSize sc \<noteq> 0 \<and>
    sc_minElements sc \<le> nb_elements b \<and>
    (sc_maxElements sc \<noteq> 0 \<longrightarrow> nb_elements b \<le> sc_maxElements sc) \<and>
    (nb_size b \<noteq> 0 \<longrightarrow> nb_ptr b \<noteq> None) \<and>
    (0 < sc_minElements sc \<longrightarrow> nb_ptr b \<noteq> None)"
proof -
  let ?n = "u32_to_u64 (nb_elements b)"
  have v: "nb_elements b = 0 \<or> \<not> nb_elementSize b > SIZE_MAX div ?n" "nb_size b = nb_elementSize b * ?n"
    "sc_minElementSize sc \<noteq> 0" "sc_minElements sc \<le> nb_elements b"
    "sc_minElementSize sc \<le> nb_elementSize b"
    "sc_maxElements sc \<noteq> 0 \<longrightarrow> nb_elements b \<le> sc_maxElements sc"
    "nb_size b \<noteq> 0 \<longrightarrow> nb_ptr b \<noteq> None"
    using assms by (auto simp: nvValidateBufferSchema_def not_less)
  have prod: "unat (nb_size b) = unat (nb_elementSize b) * unat (nb_elements b)"
  proof (cases "nb_elements b = 0")
    case False
    then have p: "0 < unat (nb_elements b)" by (simp add: unat_gt_0)
    have "unat (nb_elementSize b) \<le> 18446744073709551615 div unat (nb_elements b)"
      using v(1) False by (simp add: word_less_nat_alt unat_div)
    then have "unat (nb_elementSize b) * unat (nb_elements b) \<le> 18446744073709551615"
      using p by (simp add: less_eq_div_iff_mult_less_eq)
    then show ?thesis unfolding v(2) by (simp add: unat_word_ariths)
  qed (simp add: v(2))
  have "nb_size b \<noteq> 0" if "0 < sc_minElements sc"
  proof -
    have "0 < unat (nb_elements b)" using that v(4) by (simp add: word_less_nat_alt word_le_nat_alt)
    moreover have "0 < unat (nb_elementSize b)" using v(3,5) by (metis unat_gt_0 word_le_0_iff)
    ultimately have "unat (nb_size b) \<noteq> 0" using prod by simp
    then show ?thesis by (simp add: unat_eq_0)
  qed
  with prod v(3-7) show ?thesis by (auto simp: word_le_nat_alt)
qed

lemma schema_validation_witness:
  "unat (nb_size sample_slice_buffer) = unat (nb_elementSize sample_slice_buffer) * unat (nb_elements sample_slice_buffer)"
proof -
  have "nvValidateBufferSchema (Some sample_slice_buffer)
      (Some \<lparr>sc_minElementSize = 1, sc_minElements = 1, sc_maxElements = 0\<rparr>)"
    by (simp add: nvValidateBufferSchema_def sample_slice_buffer_def)
  from schema_validation [OF this] show ?thesis by blast
qed

lemma clamp_bounds:
  fixes lo hi s :: "'a::linorder"
  assumes "lo \<le> hi" "n = (if (if s < lo then lo else s) > hi then hi else if s < lo then lo else s)"
  shows "lo \<le> n" "n \<le> hi" "lo \<le> s \<Longrightarrow> s \<le> hi \<Longrightarrow> n = s" "s \<le> n \<or> n = hi"
  using assms by auto

text \<open>The number of decode surfaces lies between the (corrected) bounds; inside them an override
  wins, and without one the count is at least the codec default, the reference hint and the
  client's number of targets.\<close>

theorem decode_surface_count:
  assumes "n = nvdSelectDecodeSurfaceCount codecDefault hint targets override minimum maximum"
  shows "max 1 minimum \<le> n \<and> n \<le> max (max 1 minimum) maximum \<and> n \<noteq> 0 \<and>
    (override \<noteq> 0 \<and> max 1 minimum \<le> override \<and> override \<le> maximum \<longrightarrow> n = override) \<and>
    (override = 0 \<longrightarrow> (codecDefault \<le> n \<and> hint \<le> n \<and> targets \<le> n) \<or> n = max (max 1 minimum) maximum)"
proof -
  have one: "(1 :: u32) \<le> w \<longleftrightarrow> w \<noteq> 0" for w
    by (simp add: word_le_nat_alt Suc_le_eq unat_gt_0)
  have m: "(if minimum = 0 then 1 else minimum) = max 1 minimum"
    using one [of minimum] by (cases "minimum = 0") (simp_all add: max_absorb2)
  have "(if b < a then a else b) = max a b" for a b :: u32 by (auto simp: max_def)
  then have M: "(if maximum < max 1 minimum then max 1 minimum else maximum) = max (max 1 minimum) maximum"
    by blast
  have nz: "max 1 minimum \<noteq> 0" using one by (metis max.cobounded1)
  let ?lo = "max 1 minimum" and ?hi = "max (max 1 minimum) maximum"
  let ?sel = "if override = 0 then maxU32 (maxU32 codecDefault hint) targets else override"
  have n: "n = (if (if ?sel < ?lo then ?lo else ?sel) > ?hi then ?hi else if ?sel < ?lo then ?lo else ?sel)"
    unfolding assms nvdSelectDecodeSurfaceCount_def Let_def m M by (rule refl)
  have le: "?lo \<le> ?hi" by simp
  note C = clamp_bounds [OF le n]
  have "?lo \<le> n \<and> n \<le> ?hi" using C(1,2) by blast
  moreover from this nz have "n \<noteq> 0" by (metis word_le_0_iff)
  moreover have "override \<noteq> 0 \<and> ?lo \<le> override \<and> override \<le> maximum \<Longrightarrow> n = override"
    using C(3) by (simp add: le_max_iff_disj)
  moreover have "codecDefault \<le> n \<and> hint \<le> n \<and> targets \<le> n \<or> n = ?hi" if "override = 0"
  proof -
    let ?s = "maxU32 (maxU32 codecDefault hint) targets"
    have s: "codecDefault \<le> ?s" "hint \<le> ?s" "targets \<le> ?s" by (auto simp: maxU32_def)
    have "?s \<le> n \<or> n = ?hi" using C(4) that by simp
    with s show ?thesis by (metis order_trans)
  qed
  ultimately show ?thesis by blast
qed

lemma decode_surface_count_witness:
  "4 \<le> nvdSelectDecodeSurfaceCount 8 20 10 0 4 16 \<and> nvdSelectDecodeSurfaceCount 8 20 10 0 4 16 \<le> 16"
  using decode_surface_count [of _ 8 20 10 0 4 16, OF refl] by (simp add: max_def)

lemma bytes_of_24_bits:
  fixes t :: u32
  assumes "unat t < 16777216"
  shows "unat (ucast t :: u8) + 256 * unat (ucast (drop_bit 8 t) :: u8) +
         65536 * unat (ucast (drop_bit 16 t) :: u8) = unat t"
proof -
  have "n mod 256 + 256 * (n div 256 mod 256) + 65536 * (n div 65536 mod 256) = n"
    if "n < 16777216" for n :: nat
  proof -
    have "n div 65536 < 256" using that by (simp add: div_less_iff_less_mult)
    moreover have "n div 65536 = n div 256 div 256" by (simp add: div_mult2_eq [symmetric])
    moreover have "256 * (n div 256) + n mod 256 = n"
      "256 * (n div 256 div 256) + n div 256 mod 256 = n div 256" by (simp_all only: mult_div_mod_eq)
    ultimately show ?thesis by (simp only: mod_less)
  qed
  moreover have "unat t div 65536 < 256" using assms by (simp add: div_less_iff_less_mult)
  ultimately show ?thesis using assms
    by (simp add: unsigned_ucast_eq take_bit_eq_mod unat_drop_bit_eq drop_bit_nat_def)
qed

lemma bytes_of_16_bits:
  "unat (ucast w :: u8) + 256 * unat (ucast (drop_bit 8 w) :: u8) = unat (w :: u16)"
proof -
  have "unat w div 256 < 256" using unat_u16_less [of w] by (simp add: div_less_iff_less_mult)
  then show ?thesis
    by (simp add: unsigned_ucast_eq take_bit_eq_mod unat_drop_bit_eq drop_bit_nat_def)
qed

lemma or_plus:
  fixes a b :: "'a::len word"
  assumes "\<And>n. bit a n \<Longrightarrow> n < k" "\<And>n. bit b n \<Longrightarrow> k \<le> n"
  shows "a OR b = a + b"
  by (rule disjunctive_add [symmetric]) (use assms in \<open>meson not_le\<close>)

lemma vp8_frame_tag_value:
  assumes v: "\<not> version > 7" and p: "\<not> part > 0x7FFFF"
  shows "unat (vp8_frame_tag key version show part) =
    (if key then 0 else 1) + 2 * unat version + (if show then 16 else 0) + 32 * unat part"
proof -
  let ?K = "(if key then 0 else 1) :: u32" and ?V = "push_bit 1 (ucast version) :: u32"
  let ?S = "push_bit 4 (b2u32 show)" and ?P = "push_bit 5 part"
  have vn: "unat version \<le> 7" and pn: "unat part \<le> 524287"
    using v p by (simp_all add: word_less_nat_alt)
  have "take_bit 3 version = version"
    using vn by (intro word_unat_eq_iff [THEN iffD2]) (simp add: unsigned_take_bit_eq take_bit_nat_eq_self)
  then have vb: "bit version n \<Longrightarrow> n < 3" for n by (metis bit_take_bit_iff)
  have K: "bit ?K n \<Longrightarrow> n = 0" for n by (auto simp: bit_1_iff split: if_splits)
  have V: "1 \<le> n \<and> n \<le> 3" if "bit ?V n" for n
  proof -
    have "1 \<le> n" "bit version (n - 1)"
      using that by (auto simp only: bit_push_bit_iff bit_unsigned_iff)
    with vb show ?thesis by fastforce
  qed
  have S: "bit ?S n \<Longrightarrow> n = 4" for n by (auto simp: bit_simps b2u32_def split: if_splits)
  have P: "bit ?P n \<Longrightarrow> 5 \<le> n" for n by (auto simp: bit_simps)
  have e1: "?K OR ?V = ?K + ?V"
  proof (rule or_plus [of _ 1])
    show "n < 1" if "bit ?K n" for n using K [OF that] by simp
    show "1 \<le> n" if "bit ?V n" for n using V [OF that] by simp
  qed
  have e2: "(?K OR ?V) OR ?S = (?K OR ?V) + ?S"
  proof (rule or_plus [of _ 4])
    fix n assume "bit (?K OR ?V) n"
    then consider "bit ?K n" | "bit ?V n" unfolding bit_or_iff by blast
    then show "n < 4"
    proof cases
      case 1
      from K [OF this] show ?thesis by linarith
    next
      case 2
      from V [OF this] show ?thesis by linarith
    qed
  next
    show "4 \<le> n" if "bit ?S n" for n using S [OF that] by simp
  qed
  have e3: "((?K OR ?V) OR ?S) OR ?P = ((?K OR ?V) OR ?S) + ?P"
  proof (rule or_plus [of _ 5])
    fix n assume "bit ((?K OR ?V) OR ?S) n"
    then consider "bit ?K n" | "bit ?V n" | "bit ?S n" unfolding bit_or_iff by blast
    then show "n < 5"
    proof cases
      case 1
      from K [OF this] show ?thesis by linarith
    next
      case 2
      from V [OF this] show ?thesis by linarith
    next
      case 3
      from S [OF this] show ?thesis by linarith
    qed
  next
    show "5 \<le> n" if "bit ?P n" for n by (rule P [OF that])
  qed
  have tag: "vp8_frame_tag key version show part = ?K + ?V + ?S + ?P"
    unfolding vp8_frame_tag_def or.assoc [symmetric] e3 unfolding e2 unfolding e1 by (rule refl)
  have u: "unat ?K = (if key then 0 else 1)" "unat ?V = 2 * unat version"
    "unat ?S = (if show then 16 else 0)" "unat ?P = 32 * unat part"
    using vn pn by (simp_all add: push_bit_eq_mult unat_word_ariths unsigned_ucast_eq take_bit_eq_mod b2u32_def)
  have "unat (?K + ?V) = unat ?K + unat ?V"
    by (rule unat_add_no_overflow) (use vn u in \<open>simp split: if_splits\<close>)
  moreover have "unat (?K + ?V + ?S) = unat (?K + ?V) + unat ?S"
    by (rule unat_add_no_overflow) (use vn u calculation in \<open>simp split: if_splits\<close>)
  moreover have "unat (?K + ?V + ?S + ?P) = unat (?K + ?V + ?S) + unat ?P"
    by (rule unat_add_no_overflow) (use vn pn u calculation in \<open>simp split: if_splits\<close>)
  ultimately show ?thesis unfolding tag using u by simp
qed

text \<open>The VP8 header that the driver puts in front of a frame decodes back to its parameters: the
  24-bit frame tag carries the inverted key frame bit, the version, the show bit and the size
  of the first partition, and a key frame carries the start code and the 14-bit dimensions;
  the result is empty exactly when a parameter does not fit.\<close>

theorem vp8_header_roundtrip:
  assumes "h = nvBuildVP8FrameHeader (Some ()) key version show part w v"
  shows "(h = []) = (version > 7 \<or> part > 0x7FFFF \<or> key \<and> (w > 0x3FFF \<or> v > 0x3FFF)) \<and>
    (h \<noteq> [] \<longrightarrow>
      (let tag = unat (h ! 0) + 256 * unat (h ! 1) + 65536 * unat (h ! 2) in
        length h = (if key then 10 else 3) \<and>
        odd tag = (\<not> key) \<and> tag div 2 mod 8 = unat version \<and> odd (tag div 16) = show \<and>
        tag div 32 = unat part \<and>
        (key \<longrightarrow> take 3 (drop 3 h) = [0x9D, 0x01, 0x2A] \<and>
          unat (h ! 6) + 256 * unat (h ! 7) = unat w \<and> unat (h ! 8) + 256 * unat (h ! 9) = unat v)))"
proof (cases "version > 7 \<or> part > 0x7FFFF \<or> key \<and> (w > 0x3FFF \<or> v > 0x3FFF)")
  case True
  then show ?thesis unfolding assms by (auto simp: nvBuildVP8FrameHeader_def)
next
  case False
  let ?t = "vp8_frame_tag key version show part"
  have val: "unat ?t = (if key then 0 else 1) + 2 * unat version + (if show then 16 else 0) + 32 * unat part"
    using False by (intro vp8_frame_tag_value) simp_all
  have n: "unat version \<le> 7" "unat part \<le> 524287"
    using False by (simp_all add: word_less_nat_alt)
  have h: "h = [ucast ?t, ucast (drop_bit 8 ?t), ucast (drop_bit 16 ?t)] @
      (if key then [0x9D, 0x01, 0x2A, ucast w, ucast (drop_bit 8 w), ucast v, ucast (drop_bit 8 v)] else [])"
    using False unfolding assms by (auto simp: nvBuildVP8FrameHeader_def Let_def)
  have tag: "unat (h ! 0) + 256 * unat (h ! 1) + 65536 * unat (h ! 2) = unat ?t"
    unfolding h using bytes_of_24_bits [of ?t] val n by simp
  have arith: "odd t = (\<not> key) \<and> t div 2 mod 8 = a \<and> odd (t div 16) = show \<and> t div 32 = b"
    if "t = (if key then 0 else 1) + 2 * a + (if show then 16 else 0) + 32 * b" "a \<le> 7" for t a b :: nat
  proof -
    let ?k = "if key then 0 else 1 :: nat" and ?s = "if show then 1 else 0 :: nat"
    have "t = ?k + 2 * (a + 8 * (?s + 2 * b))" "?k < 2" using that by simp_all
    note d2 = div_mod_split [OF this]
    have "t = (?k + 2 * a) + 16 * (?s + 2 * b)" "?k + 2 * a < 16" using that by simp_all
    note d16 = div_mod_split [OF this]
    have "t = (?k + 2 * a + 16 * ?s) + 32 * b" "?k + 2 * a + 16 * ?s < 32" using that by simp_all
    note d32 = div_mod_split [OF this]
    from d2 d16 d32 have "t mod 2 = ?k" "t div 2 = a + 8 * (?s + 2 * b)" "t div 16 = ?s + 2 * b" "t div 32 = b"
      by blast+
    moreover have "t div 2 mod 8 = a"
      using div_mod_split [of "t div 2" a 8 "?s + 2 * b"] calculation(2) that(2) by simp
    ultimately show ?thesis by (simp add: odd_iff_mod_2_eq_one)
  qed
  have "length h = (if key then 10 else 3)" unfolding h by simp
  moreover have "key \<Longrightarrow> take 3 (drop 3 h) = [0x9D, 0x01, 0x2A] \<and>
      unat (h ! 6) + 256 * unat (h ! 7) = unat w \<and> unat (h ! 8) + 256 * unat (h ! 9) = unat v"
    unfolding h by (simp add: bytes_of_16_bits)
  moreover have "h \<noteq> []" unfolding h by simp
  ultimately show ?thesis
    using False arith [OF val n(1)] unfolding Let_def tag by simp
qed

lemma vp8_header_roundtrip_witness:
  "let h = nvBuildVP8FrameHeader (Some ()) True 0 True 1000 640 480
   in length h = 10 \<and> unat (h ! 6) + 256 * unat (h ! 7) = 640"
proof -
  let ?h = "nvBuildVP8FrameHeader (Some ()) True 0 True 1000 640 480"
  have "?h \<noteq> []" by (simp add: nvBuildVP8FrameHeader_def Let_def)
  with vp8_header_roundtrip [of ?h True 0 True 1000 640 480, OF refl] show ?thesis
    by (simp add: Let_def)
qed

end
