(* ===== verification/CodecH264.thy ===== *)
theory CodecH264
  imports CodecUtils
begin

text \<open>
  The H.264 buffer handlers (\<open>src/h264.c\<close>), and the VA profiles and CUVID codecs that
  all codec tables use.

  The VA structures of libva and the CUVID structures are records with the fields the
  handlers read or write; bit fields and small integers are \<open>int\<close>. The lookup of a
  surface's decoder index (\<open>pictureIdxFromSurfaceId\<close> of \<open>src/vabackend.c\<close>) changes
  reference masks of the context, so the handlers take it as the state transformer
  \<open>lookup\<close> over a state \<open>'s\<close> and run it in the order of the code.
\<close>

datatype VAProfile =
    VAProfileMPEG2Simple | VAProfileMPEG2Main
  | VAProfileMPEG4Simple | VAProfileMPEG4AdvancedSimple | VAProfileMPEG4Main
  | VAProfileH264ConstrainedBaseline | VAProfileH264Main | VAProfileH264High
  | VAProfileH264StereoHigh | VAProfileH264MultiviewHigh
  | VAProfileVC1Simple | VAProfileVC1Main | VAProfileVC1Advanced
  | VAProfileH263Baseline | VAProfileJPEGBaseline | VAProfileVP8Version0_3
  | VAProfileHEVCMain | VAProfileHEVCMain10 | VAProfileHEVCMain12
  | VAProfileHEVCMain444 | VAProfileHEVCMain444_10 | VAProfileHEVCMain444_12
  | VAProfileVP9Profile0 | VAProfileVP9Profile1 | VAProfileVP9Profile2 | VAProfileVP9Profile3
  | VAProfileAV1Profile0 | VAProfileAV1Profile1 | VAProfileNone | VAProfileOther nat

datatype cudaVideoCodec =
    cudaVideoCodec_MPEG1 | cudaVideoCodec_MPEG2 | cudaVideoCodec_MPEG4 | cudaVideoCodec_VC1
  | cudaVideoCodec_H264 | cudaVideoCodec_JPEG | cudaVideoCodec_HEVC | cudaVideoCodec_VP8
  | cudaVideoCodec_VP9 | cudaVideoCodec_AV1 | cudaVideoCodec_H264_SVC | cudaVideoCodec_H264_MVC
  | cudaVideoCodec_NONE

type_synonym 's index_lookup = "u32 \<Rightarrow> 's \<Rightarrow> int \<times> 's"

abbreviation flag :: "u32 \<Rightarrow> u32 \<Rightarrow> bool" where "flag flags m \<equiv> flags AND m \<noteq> 0"

definition c_bool :: "bool \<Rightarrow> int" where "c_bool b = (if b then 1 else 0)"

abbreviation VA_PICTURE_H264_INVALID :: u32 where "VA_PICTURE_H264_INVALID \<equiv> 1"
abbreviation VA_PICTURE_H264_TOP_FIELD :: u32 where "VA_PICTURE_H264_TOP_FIELD \<equiv> 2"
abbreviation VA_PICTURE_H264_BOTTOM_FIELD :: u32 where "VA_PICTURE_H264_BOTTOM_FIELD \<equiv> 4"
abbreviation VA_PICTURE_H264_LONG_TERM_REFERENCE :: u32 where
  "VA_PICTURE_H264_LONG_TERM_REFERENCE \<equiv> 16"

record VAPictureH264 =
  vp_picture_id :: u32
  vp_frame_idx :: int
  vp_flags :: u32
  vp_TopFieldOrderCnt :: int
  vp_BottomFieldOrderCnt :: int

record VAPictureParameterBufferH264 =
  h4_CurrPic :: VAPictureH264
  h4_ReferenceFrames :: "VAPictureH264 list"
  h4_picture_width_in_mbs_minus1 :: u16
  h4_picture_height_in_mbs_minus1 :: u16
  h4_bit_depth_luma_minus8 :: int
  h4_bit_depth_chroma_minus8 :: int
  h4_num_ref_frames :: u8
  h4_log2_max_frame_num_minus4 :: int
  h4_pic_order_cnt_type :: int
  h4_log2_max_pic_order_cnt_lsb_minus4 :: int
  h4_delta_pic_order_always_zero_flag :: int
  h4_frame_mbs_only_flag :: int
  h4_direct_8x8_inference_flag :: int
  h4_residual_colour_transform_flag :: int
  h4_mb_adaptive_frame_field_flag :: int
  h4_pic_init_qp_minus26 :: int
  h4_chroma_qp_index_offset :: int
  h4_second_chroma_qp_index_offset :: int
  h4_entropy_coding_mode_flag :: int
  h4_weighted_pred_flag :: int
  h4_weighted_bipred_idc :: int
  h4_transform_8x8_mode_flag :: int
  h4_field_pic_flag :: int
  h4_constrained_intra_pred_flag :: int
  h4_pic_order_present_flag :: int
  h4_deblocking_filter_control_present_flag :: int
  h4_redundant_pic_cnt_present_flag :: int
  h4_reference_pic_flag :: int
  h4_frame_num :: int

record CUVIDH264DPBENTRY =
  dpb_PicIdx :: int
  dpb_FrameIdx :: int
  dpb_is_long_term :: int
  dpb_not_existing :: int
  dpb_used_for_reference :: int
  dpb_FieldOrderCnt :: "int \<times> int"

record CUVIDH264PICPARAMS =
  c4_log2_max_frame_num_minus4 :: int
  c4_pic_order_cnt_type :: int
  c4_log2_max_pic_order_cnt_lsb_minus4 :: int
  c4_delta_pic_order_always_zero_flag :: int
  c4_frame_mbs_only_flag :: int
  c4_direct_8x8_inference_flag :: int
  c4_num_ref_frames :: int
  c4_residual_colour_transform_flag :: int
  c4_bit_depth_luma_minus8 :: int
  c4_bit_depth_chroma_minus8 :: int
  c4_entropy_coding_mode_flag :: int
  c4_pic_order_present_flag :: int
  c4_num_ref_idx_l0_active_minus1 :: int
  c4_num_ref_idx_l1_active_minus1 :: int
  c4_weighted_pred_flag :: int
  c4_weighted_bipred_idc :: int
  c4_pic_init_qp_minus26 :: int
  c4_deblocking_filter_control_present_flag :: int
  c4_redundant_pic_cnt_present_flag :: int
  c4_transform_8x8_mode_flag :: int
  c4_MbaffFrameFlag :: int
  c4_constrained_intra_pred_flag :: int
  c4_chroma_qp_index_offset :: int
  c4_second_chroma_qp_index_offset :: int
  c4_ref_pic_flag :: int
  c4_frame_num :: int
  c4_CurrFieldOrderCnt :: "int \<times> int"
  c4_dpb :: "CUVIDH264DPBENTRY list"
  c4_WeightScale4x4 :: "u8 list"
  c4_WeightScale8x8 :: "u8 list"

text \<open>One round of the reference frame loop.\<close>

definition h264_dpb_entry ::
    "'s index_lookup \<Rightarrow> 's \<Rightarrow> VAPictureH264 \<Rightarrow> CUVIDH264DPBENTRY \<Rightarrow> CUVIDH264DPBENTRY \<times> 's" where
  "h264_dpb_entry lookup s ref old =
     (if \<not> flag (vp_flags ref) VA_PICTURE_H264_INVALID then
        case lookup (vp_picture_id ref) s of
          (idx, s') \<Rightarrow>
            let tmp = (if flag (vp_flags ref) VA_PICTURE_H264_TOP_FIELD then 1 else 0) +
                      (if flag (vp_flags ref) VA_PICTURE_H264_BOTTOM_FIELD then 2 else 0)
            in (old\<lparr>dpb_PicIdx := idx, dpb_FrameIdx := vp_frame_idx ref,
                    dpb_FieldOrderCnt := (vp_TopFieldOrderCnt ref, vp_BottomFieldOrderCnt ref),
                    dpb_is_long_term :=
                      c_bool (flag (vp_flags ref) VA_PICTURE_H264_LONG_TERM_REFERENCE),
                    dpb_not_existing := 0,
                    dpb_used_for_reference := (if tmp = 0 then 3 else tmp)\<rparr>, s')
      else (old\<lparr>dpb_PicIdx := -1\<rparr>, s))"

fun h264_dpb ::
    "'s index_lookup \<Rightarrow> 's \<Rightarrow> VAPictureH264 list \<Rightarrow> CUVIDH264DPBENTRY list \<Rightarrow>
     CUVIDH264DPBENTRY list \<times> 's" where
  "h264_dpb lookup s (ref # refs) (old # olds) =
     (case h264_dpb_entry lookup s ref old of
        (e, s1) \<Rightarrow> (case h264_dpb lookup s1 refs olds of (es, s2) \<Rightarrow> (e # es, s2)))"
| "h264_dpb lookup s _ olds = (olds, s)"

definition copyH264PicParam ::
    "'s index_lookup \<Rightarrow> 's \<Rightarrow> codec_ctx \<Rightarrow> VAPictureParameterBufferH264 \<Rightarrow>
     CUVIDH264PICPARAMS CUVIDPICPARAMS \<Rightarrow>
     's \<times> codec_ctx \<times> CUVIDH264PICPARAMS CUVIDPICPARAMS" where
  "copyH264PicParam lookup s ctx buf pp =
     (let flags = vp_flags (h4_CurrPic buf);
          top = flag flags VA_PICTURE_H264_TOP_FIELD;
          bottom = flag flags VA_PICTURE_H264_BOTTOM_FIELD;
          field_pic = h4_field_pic_flag buf
      in case h264_dpb lookup s (h4_ReferenceFrames buf) (c4_dpb (pp_codec pp)) of
           (dpb, s') \<Rightarrow>
             (s',
              ctx\<lparr>cx_progressiveFrame := (field_pic = 0),
                  cx_decodeSurfaceReferenceHint := ucast (h4_num_ref_frames buf) + 2\<rparr>,
              pp\<lparr>pp_PicWidthInMbs := uint (h4_picture_width_in_mbs_minus1 buf) + 1,
                 pp_FrameHeightInMbs := uint (h4_picture_height_in_mbs_minus1 buf) + 1,
                 pp_field_pic_flag := field_pic,
                 pp_bottom_field_flag := c_bool bottom,
                 pp_second_field := c_bool (top \<and> bottom),
                 pp_ref_pic_flag := h4_reference_pic_flag buf,
                 pp_intra_pic_flag := 1,
                 pp_codec := (pp_codec pp)
                   \<lparr>c4_log2_max_frame_num_minus4 := h4_log2_max_frame_num_minus4 buf,
                    c4_pic_order_cnt_type := h4_pic_order_cnt_type buf,
                    c4_log2_max_pic_order_cnt_lsb_minus4 := h4_log2_max_pic_order_cnt_lsb_minus4 buf,
                    c4_delta_pic_order_always_zero_flag := h4_delta_pic_order_always_zero_flag buf,
                    c4_frame_mbs_only_flag := h4_frame_mbs_only_flag buf,
                    c4_direct_8x8_inference_flag := h4_direct_8x8_inference_flag buf,
                    c4_num_ref_frames := uint (h4_num_ref_frames buf),
                    c4_residual_colour_transform_flag := h4_residual_colour_transform_flag buf,
                    c4_bit_depth_luma_minus8 := h4_bit_depth_luma_minus8 buf,
                    c4_bit_depth_chroma_minus8 := h4_bit_depth_chroma_minus8 buf,
                    c4_entropy_coding_mode_flag := h4_entropy_coding_mode_flag buf,
                    c4_pic_order_present_flag := h4_pic_order_present_flag buf,
                    c4_weighted_pred_flag := h4_weighted_pred_flag buf,
                    c4_weighted_bipred_idc := h4_weighted_bipred_idc buf,
                    c4_pic_init_qp_minus26 := h4_pic_init_qp_minus26 buf,
                    c4_deblocking_filter_control_present_flag :=
                      h4_deblocking_filter_control_present_flag buf,
                    c4_redundant_pic_cnt_present_flag := h4_redundant_pic_cnt_present_flag buf,
                    c4_transform_8x8_mode_flag := h4_transform_8x8_mode_flag buf,
                    c4_MbaffFrameFlag :=
                      c_bool (h4_mb_adaptive_frame_field_flag buf \<noteq> 0 \<and> field_pic = 0),
                    c4_constrained_intra_pred_flag := h4_constrained_intra_pred_flag buf,
                    c4_chroma_qp_index_offset := h4_chroma_qp_index_offset buf,
                    c4_second_chroma_qp_index_offset := h4_second_chroma_qp_index_offset buf,
                    c4_ref_pic_flag := h4_reference_pic_flag buf,
                    c4_frame_num := h4_frame_num buf,
                    c4_CurrFieldOrderCnt := (vp_TopFieldOrderCnt (h4_CurrPic buf),
                                             vp_BottomFieldOrderCnt (h4_CurrPic buf)),
                    c4_dpb := dpb\<rparr>\<rparr>))"

record VASliceParameterBufferH264 =
  sp4_range :: slice_range
  sp4_slice_type :: int
  sp4_num_ref_idx_l0_active_minus1 :: int
  sp4_num_ref_idx_l1_active_minus1 :: int

text \<open>The part common to all slice parameter handlers: remember the array, count the slices.\<close>

definition copySliceParam ::
    "codec_ctx \<Rightarrow> slice_range list \<Rightarrow> u32 \<Rightarrow> 'c CUVIDPICPARAMS \<Rightarrow> codec_ctx \<times> 'c CUVIDPICPARAMS" where
  "copySliceParam ctx ranges elements pp =
     (let ctx1 = ctx\<lparr>cx_lastSliceParams := ranges, cx_lastSliceParamsCount := elements\<rparr>
      in case nvAddCuvidSlices (Some ctx1) (Some pp) (u32_to_u64 elements) of
           (_, Some c, Some p) \<Rightarrow> (c, p)
         | _ \<Rightarrow> (ctx1, pp))"

text \<open>The schema guarantees at least one slice; the handler reads the first.\<close>

definition copyH264SliceParam ::
    "codec_ctx \<Rightarrow> VASliceParameterBufferH264 list \<Rightarrow> u32 \<Rightarrow>
     CUVIDH264PICPARAMS CUVIDPICPARAMS \<Rightarrow> codec_ctx \<times> CUVIDH264PICPARAMS CUVIDPICPARAMS" where
  "copyH264SliceParam ctx bufs elements pp =
     (let buf = hd bufs;
          pp1 = pp\<lparr>pp_codec := (pp_codec pp)
                  \<lparr>c4_num_ref_idx_l0_active_minus1 := sp4_num_ref_idx_l0_active_minus1 buf,
                   c4_num_ref_idx_l1_active_minus1 := sp4_num_ref_idx_l1_active_minus1 buf\<rparr>\<rparr>;
          pp2 = (if sp4_slice_type buf \<noteq> 2 \<and> sp4_slice_type buf \<noteq> 4
                 then pp1\<lparr>pp_intra_pic_flag := 0\<rparr> else pp1)
      in copySliceParam ctx (map sp4_range bufs) elements pp2)"

definition copyH264SliceData ::
    "allocator \<Rightarrow> codec_ctx \<Rightarrow> NVBuffer \<Rightarrow> 'c CUVIDPICPARAMS \<Rightarrow> codec_ctx \<times> 'c CUVIDPICPARAMS" where
  "copyH264SliceData mem ctx buf pp = copySliceData mem [0, 0, 1] ctx buf pp"

definition copyH264IQMatrix ::
    "u8 list \<Rightarrow> u8 list \<Rightarrow> CUVIDH264PICPARAMS CUVIDPICPARAMS \<Rightarrow>
     CUVIDH264PICPARAMS CUVIDPICPARAMS" where
  "copyH264IQMatrix scalingList4x4 scalingList8x8 pp =
     pp\<lparr>pp_codec := (pp_codec pp)\<lparr>c4_WeightScale4x4 := scalingList4x4,
                                   c4_WeightScale8x8 := scalingList8x8\<rparr>\<rparr>"

definition computeH264CudaCodec :: "VAProfile \<Rightarrow> cudaVideoCodec" where
  "computeH264CudaCodec profile =
     (if profile = VAProfileH264ConstrainedBaseline \<or> profile = VAProfileH264Main \<or>
         profile = VAProfileH264High
      then cudaVideoCodec_H264 else cudaVideoCodec_NONE)"

definition h264SupportedProfiles :: "VAProfile list" where
  "h264SupportedProfiles =
     [VAProfileH264ConstrainedBaseline, VAProfileH264Main, VAProfileH264High]"

section \<open>The decoded picture buffer\<close>

text \<open>The lookups in the order in which the code makes them.\<close>

fun run_lookups :: "'s index_lookup \<Rightarrow> 's \<Rightarrow> u32 list \<Rightarrow> int list \<times> 's" where
  "run_lookups lookup s [] = ([], s)"
| "run_lookups lookup s (i # is) =
     (case lookup i s of (x, s1) \<Rightarrow> (case run_lookups lookup s1 is of (xs, s2) \<Rightarrow> (x # xs, s2)))"

definition valid_h264_ref :: "VAPictureH264 \<Rightarrow> bool" where
  "valid_h264_ref ref \<longleftrightarrow> \<not> flag (vp_flags ref) VA_PICTURE_H264_INVALID"

lemma h264_dpb_spec:
  "length olds = length refs \<Longrightarrow> h264_dpb lookup s refs olds = (dpb, s') \<Longrightarrow>
   length dpb = length refs \<and>
   run_lookups lookup s (map vp_picture_id (filter valid_h264_ref refs)) =
     (map (\<lambda>(r, e). dpb_PicIdx e) (filter (\<lambda>(r, e). valid_h264_ref r) (zip refs dpb)), s') \<and>
   (\<forall>i < length refs.
      (\<not> valid_h264_ref (refs ! i) \<longrightarrow> dpb_PicIdx (dpb ! i) = -1) \<and>
      (valid_h264_ref (refs ! i) \<longrightarrow> dpb_FrameIdx (dpb ! i) = vp_frame_idx (refs ! i) \<and>
         dpb_used_for_reference (dpb ! i) \<in> {1, 2, 3} \<and> dpb_not_existing (dpb ! i) = 0))"
proof (induction lookup s refs olds arbitrary: dpb s' rule: h264_dpb.induct)
  case (1 lookup s ref refs old olds)
  obtain e s1 where e: "h264_dpb_entry lookup s ref old = (e, s1)"
    by (cases "h264_dpb_entry lookup s ref old")
  obtain es s2 where r: "h264_dpb lookup s1 refs olds = (es, s2)"
    by (cases "h264_dpb lookup s1 refs olds")
  have d: "dpb = e # es" "s' = s2" using 1(3) e r by simp_all
  have l: "length olds = length refs" using 1(2) by simp
  note R = 1(1) [OF e [symmetric] l r]
  have E: "if valid_h264_ref ref then lookup (vp_picture_id ref) s = (dpb_PicIdx e, s1) \<and>
      dpb_FrameIdx e = vp_frame_idx ref \<and> dpb_used_for_reference e \<in> {1, 2, 3} \<and> dpb_not_existing e = 0
    else dpb_PicIdx e = -1 \<and> s1 = s"
    using e by (auto simp: h264_dpb_entry_def valid_h264_ref_def Let_def split: prod.splits if_splits)
  show ?case
  proof (intro conjI allI impI)
    show "length dpb = length (ref # refs)" using R d by simp
    show "run_lookups lookup s (map vp_picture_id (filter valid_h264_ref (ref # refs))) =
      (map (\<lambda>(r, e). dpb_PicIdx e) (filter (\<lambda>(r, e). valid_h264_ref r) (zip (ref # refs) dpb)), s')"
      using R d E by (auto split: if_splits)
    fix i assume i: "i < length (ref # refs)"
    show "\<not> valid_h264_ref ((ref # refs) ! i) \<Longrightarrow> dpb_PicIdx (dpb ! i) = -1"
      using i R d E by (cases i) auto
    show "valid_h264_ref ((ref # refs) ! i) \<Longrightarrow> dpb_FrameIdx (dpb ! i) = vp_frame_idx ((ref # refs) ! i)"
      "valid_h264_ref ((ref # refs) ! i) \<Longrightarrow> dpb_used_for_reference (dpb ! i) \<in> {1, 2, 3}"
      "valid_h264_ref ((ref # refs) ! i) \<Longrightarrow> dpb_not_existing (dpb ! i) = 0"
      using i R d E by (cases i; auto)+
  qed
qed auto

section \<open>Properties\<close>

text \<open>The decoded picture buffer of H.264: the decoder indices of the valid reference frames are
  looked up in the client's order, each entry stands at its frame's position with its frame
  number, is marked as used by a top, a bottom or both fields, never as unused, and an
  invalid frame gets index -1 without a lookup.\<close>

theorem h264_dpb_entries:
  assumes "length (c4_dpb (pp_codec pp)) = length (h4_ReferenceFrames buf)"
    and "copyH264PicParam lookup s ctx buf pp = (s', ctx', pp')"
    and "dpb = c4_dpb (pp_codec pp')" "refs = h4_ReferenceFrames buf"
  shows "length dpb = length refs \<and>
    run_lookups lookup s (map vp_picture_id (filter valid_h264_ref refs)) =
      (map (\<lambda>(r, e). dpb_PicIdx e) (filter (\<lambda>(r, e). valid_h264_ref r) (zip refs dpb)), s') \<and>
    (\<forall>i < length refs.
      if valid_h264_ref (refs ! i)
      then dpb_FrameIdx (dpb ! i) = vp_frame_idx (refs ! i) \<and>
           dpb_used_for_reference (dpb ! i) \<in> {1, 2, 3} \<and> dpb_not_existing (dpb ! i) = 0
      else dpb_PicIdx (dpb ! i) = -1)"
proof -
  obtain d t where r: "h264_dpb lookup s (h4_ReferenceFrames buf) (c4_dpb (pp_codec pp)) = (d, t)"
    by (cases "h264_dpb lookup s (h4_ReferenceFrames buf) (c4_dpb (pp_codec pp))")
  have "dpb = d" "s' = t" using assms(2,3) r by (auto simp: copyH264PicParam_def Let_def)
  with h264_dpb_spec [OF assms(1) r] assms(4) show ?thesis by simp
qed

definition h264_ref :: "u32 \<Rightarrow> int \<Rightarrow> u32 \<Rightarrow> VAPictureH264" where
  "h264_ref i idx flags = \<lparr>vp_picture_id = i, vp_frame_idx = idx, vp_flags = flags,
     vp_TopFieldOrderCnt = 0, vp_BottomFieldOrderCnt = 0\<rparr>"

definition sample_h264 :: VAPictureParameterBufferH264 where
  "sample_h264 = \<lparr>h4_CurrPic = h264_ref 9 0 0,
     h4_ReferenceFrames = [h264_ref 5 40 2, h264_ref VA_INVALID_ID 0 1],
     h4_picture_width_in_mbs_minus1 = 119, h4_picture_height_in_mbs_minus1 = 67,
     h4_bit_depth_luma_minus8 = 0, h4_bit_depth_chroma_minus8 = 0, h4_num_ref_frames = 4,
     h4_log2_max_frame_num_minus4 = 0, h4_pic_order_cnt_type = 0,
     h4_log2_max_pic_order_cnt_lsb_minus4 = 0, h4_delta_pic_order_always_zero_flag = 0,
     h4_frame_mbs_only_flag = 1, h4_direct_8x8_inference_flag = 1,
     h4_residual_colour_transform_flag = 0, h4_mb_adaptive_frame_field_flag = 0,
     h4_pic_init_qp_minus26 = 0, h4_chroma_qp_index_offset = 0, h4_second_chroma_qp_index_offset = 0,
     h4_entropy_coding_mode_flag = 1, h4_weighted_pred_flag = 0, h4_weighted_bipred_idc = 0,
     h4_transform_8x8_mode_flag = 1, h4_field_pic_flag = 0, h4_constrained_intra_pred_flag = 0,
     h4_pic_order_present_flag = 0, h4_deblocking_filter_control_present_flag = 1,
     h4_redundant_pic_cnt_present_flag = 0, h4_reference_pic_flag = 1, h4_frame_num = 41\<rparr>"

definition empty_h264 :: CUVIDH264PICPARAMS where
  "empty_h264 = \<lparr>c4_log2_max_frame_num_minus4 = 0, c4_pic_order_cnt_type = 0,
     c4_log2_max_pic_order_cnt_lsb_minus4 = 0, c4_delta_pic_order_always_zero_flag = 0,
     c4_frame_mbs_only_flag = 0, c4_direct_8x8_inference_flag = 0, c4_num_ref_frames = 0,
     c4_residual_colour_transform_flag = 0, c4_bit_depth_luma_minus8 = 0,
     c4_bit_depth_chroma_minus8 = 0, c4_entropy_coding_mode_flag = 0, c4_pic_order_present_flag = 0,
     c4_num_ref_idx_l0_active_minus1 = 0, c4_num_ref_idx_l1_active_minus1 = 0,
     c4_weighted_pred_flag = 0, c4_weighted_bipred_idc = 0, c4_pic_init_qp_minus26 = 0,
     c4_deblocking_filter_control_present_flag = 0, c4_redundant_pic_cnt_present_flag = 0,
     c4_transform_8x8_mode_flag = 0, c4_MbaffFrameFlag = 0, c4_constrained_intra_pred_flag = 0,
     c4_chroma_qp_index_offset = 0, c4_second_chroma_qp_index_offset = 0, c4_ref_pic_flag = 0,
     c4_frame_num = 0, c4_CurrFieldOrderCnt = (0, 0),
     c4_dpb = replicate 2 \<lparr>dpb_PicIdx = 0, dpb_FrameIdx = 0, dpb_is_long_term = 0,
       dpb_not_existing = 0, dpb_used_for_reference = 0, dpb_FieldOrderCnt = (0, 0)\<rparr>,
     c4_WeightScale4x4 = [], c4_WeightScale8x8 = []\<rparr>"

definition sample_h264_pic :: "CUVIDH264PICPARAMS CUVIDPICPARAMS" where
  "sample_h264_pic = \<lparr>pp_PicWidthInMbs = 0, pp_FrameHeightInMbs = 0, pp_CurrPicIdx = 0,
     pp_field_pic_flag = 0, pp_bottom_field_flag = 0, pp_second_field = 0, pp_nBitstreamDataLen = 0,
     pp_nNumSlices = 0, pp_ref_pic_flag = 0, pp_intra_pic_flag = 0, pp_codec = empty_h264\<rparr>"

lemma h264_dpb_entries_witness:
  "dpb_PicIdx (c4_dpb (pp_codec (snd (snd (copyH264PicParam (\<lambda>i s. (uint i, s)) ()
     sample_ctx sample_h264 sample_h264_pic)))) ! 1) = -1"
proof -
  let ?r = "copyH264PicParam (\<lambda>i s. (uint i, s)) () sample_ctx sample_h264 sample_h264_pic"
  have r: "?r = (fst ?r, fst (snd ?r), snd (snd ?r))" by (simp only: prod.collapse)
  have l: "length (c4_dpb (pp_codec sample_h264_pic)) = length (h4_ReferenceFrames sample_h264)"
    by (simp add: sample_h264_pic_def empty_h264_def sample_h264_def)
  have e: "1 < length (h4_ReferenceFrames sample_h264)"
    "\<not> valid_h264_ref (h4_ReferenceFrames sample_h264 ! 1)"
    by (simp_all add: sample_h264_def valid_h264_ref_def h264_ref_def)
  show ?thesis using h264_dpb_entries [OF l r refl refl] e by fastforce
qed

end
