(* ===== verification/CodecHevc.thy ===== *)
theory CodecHevc
  imports CodecH264 "HOL-Library.Multiset" "HOL-Library.Product_Lexorder"
begin

text \<open>
  The HEVC handlers (\<open>src/hevc.c\<close>): picture parameters with the reference picture sets,
  the insertion sort of these sets, the tile spacing, and the scaling lists. The VA and
  CUVID structures hold the fields that are not copied one to one; the plain copies of
  the picture parameters are left out. The arrays of CUVID are lists as long as what was
  written to them, so a list longer than the array is a write past its end.
\<close>

section \<open>Sorting a reference set\<close>

text \<open>
  The inner loop: elements greater than \<open>key\<close> move up by one. \<open>refs\<close> holds indices
  into \<open>POCV\<close>.
\<close>

definition outOfOrder :: "bool \<Rightarrow> bool \<Rightarrow> int list \<Rightarrow> nat \<Rightarrow> nat \<Rightarrow> bool" where
  "outOfOrder descending descendingTie POCV previous key =
     (let keyPOC = POCV ! key; previousPOC = POCV ! previous;
          pocOutOfOrder = (if descending then previousPOC < keyPOC else previousPOC > keyPOC);
          tieOutOfOrder = (previousPOC = keyPOC \<and>
            (if descendingTie then previous < key else previous > key))
      in pocOutOfOrder \<or> tieOutOfOrder)"

fun shift_up :: "(nat \<Rightarrow> nat \<Rightarrow> bool) \<Rightarrow> nat list \<Rightarrow> nat \<Rightarrow> nat \<Rightarrow> nat list" where
  "shift_up out refs 0 key = refs[0 := key]"
| "shift_up out refs (Suc j) key =
     (if out (refs ! j) key then shift_up out (refs[Suc j := refs ! j]) j key
      else refs[Suc j := key])"

function sort_from :: "(nat \<Rightarrow> nat \<Rightarrow> bool) \<Rightarrow> nat list \<Rightarrow> nat \<Rightarrow> nat \<Rightarrow> nat list" where
  "sort_from out refs i cnt =
     (if i < cnt then sort_from out (shift_up out refs i (refs ! i)) (Suc i) cnt else refs)"
  by pat_completeness auto
termination by (relation "measure (\<lambda>(out, refs, i, cnt). cnt - i)") auto

declare sort_from.simps [simp del]

definition sortReferenceSet :: "nat list \<Rightarrow> nat \<Rightarrow> int list \<Rightarrow> bool \<Rightarrow> bool \<Rightarrow> nat list" where
  "sortReferenceSet refs cnt POCV descending descendingTie =
     sort_from (outOfOrder descending descendingTie POCV) refs 1 cnt"

text \<open>The order that the two comparisons define.\<close>

definition ref_key :: "bool \<Rightarrow> bool \<Rightarrow> int list \<Rightarrow> nat \<Rightarrow> int \<times> int" where
  "ref_key descending descendingTie POCV r =
     ((if descending then - (POCV ! r) else POCV ! r), (if descendingTie then - int r else int r))"

lemma outOfOrder_key:
  "outOfOrder d t POCV a b \<longleftrightarrow> ref_key d t POCV b < ref_key d t POCV a"
  by (auto simp: outOfOrder_def ref_key_def Let_def less_prod_def)

lemma inj_ref_key: "inj (ref_key d t POCV)"
  by (rule injI) (auto simp: ref_key_def split: if_splits)

lemma shift_up_spec:
  fixes k :: "nat \<Rightarrow> 'k::linorder"
  assumes out: "\<And>a b. out a b \<longleftrightarrow> k b < k a"
  shows "j < length refs \<Longrightarrow> sorted (map k (take j refs)) \<Longrightarrow>
    \<exists>R. shift_up out refs j key = R @ drop (Suc j) refs \<and>
        mset R = add_mset key (mset (take j refs)) \<and> sorted (map k R)"
proof (induction j arbitrary: refs)
  case 0
  then show ?case by (intro exI [of _ "[key]"]) (cases refs; simp)
next
  case (Suc j)
  have tk: "take (Suc j) refs = take j refs @ [refs ! j]"
    using Suc.prems(1) by (simp add: take_Suc_conv_app_nth)
  have le: "\<forall>x \<in> set (take j refs). k x \<le> k (refs ! j)" and s: "sorted (map k (take j refs))"
    using Suc.prems(2) by (simp_all add: tk sorted_append)
  show ?case
  proof (cases "out (refs ! j) key")
    case True
    let ?refs = "refs[Suc j := refs ! j]"
    have "j < length ?refs" "sorted (map k (take j ?refs))" using Suc.prems(1) s by simp_all
    from Suc.IH [OF this] obtain R where R: "shift_up out ?refs j key = R @ drop (Suc j) ?refs"
      "mset R = add_mset key (mset (take j refs))" "sorted (map k R)" by auto
    have d: "drop (Suc j) ?refs = refs ! j # drop (Suc (Suc j)) refs"
      using Suc.prems(1) by (simp add: Cons_nth_drop_Suc [symmetric])
    have "set R = insert key (set (take j refs))" using arg_cong [OF R(2), of set_mset] by simp
    then have "\<forall>x \<in> set R. k x \<le> k (refs ! j)" using le True out by auto
    then have "sorted (map k (R @ [refs ! j]))" using R(3) by (simp add: sorted_append)
    moreover have "mset (R @ [refs ! j]) = add_mset key (mset (take (Suc j) refs))"
      using R(2) by (simp add: tk)
    moreover have "shift_up out refs (Suc j) key = (R @ [refs ! j]) @ drop (Suc (Suc j)) refs"
      using True R(1) d by simp
    ultimately show ?thesis by blast
  next
    case False
    then have ge: "k (refs ! j) \<le> k key" using out by (simp add: not_less)
    then have "sorted (map k (take (Suc j) refs @ [key]))"
      using s le by (auto simp: tk sorted_append intro: order_trans)
    moreover have "refs[Suc j := key] = (take (Suc j) refs @ [key]) @ drop (Suc (Suc j)) refs"
      using Suc.prems(1) by (simp add: upd_conv_take_nth_drop)
    ultimately show ?thesis using False by (intro exI [of _ "take (Suc j) refs @ [key]"]) simp
  qed
qed

lemma sort_from_spec:
  fixes k :: "nat \<Rightarrow> 'k::linorder"
  assumes out: "\<And>a b. out a b \<longleftrightarrow> k b < k a" and n: "n \<le> length refs" "i \<le> n"
    and s: "sorted (map k (take i refs))"
  shows "\<exists>R. sort_from out refs i n = R @ drop n refs \<and> mset R = mset (take n refs) \<and>
           sorted (map k R)"
  using n s
proof (induction "n - i" arbitrary: i refs)
  case 0
  then show ?case
    by (intro exI [of _ "take n refs"]) (subst sort_from.simps, simp)
next
  case (Suc d)
  then have i: "i < n" "i < length refs" by simp_all
  obtain R where R: "shift_up out refs i (refs ! i) = R @ drop (Suc i) refs"
    "mset R = add_mset (refs ! i) (mset (take i refs))" "sorted (map k R)"
    using shift_up_spec [where out = out and k = k, OF out i(2) Suc.prems(3)] by blast
  let ?r = "R @ drop (Suc i) refs"
  have lR: "length R = Suc i" using arg_cong [OF R(2), of size] i by simp
  have mR: "mset R = mset (take (Suc i) refs)"
    using R(2) i by (simp add: take_Suc_conv_app_nth)
  have "n \<le> length ?r" "Suc i \<le> n" "sorted (map k (take (Suc i) ?r))" "d = n - Suc i"
    using lR i Suc.prems R(3) Suc.hyps(2) by simp_all
  from Suc.hyps(1) [OF this(4,1,2,3)] obtain S where S: "sort_from out ?r (Suc i) n = S @ drop n ?r"
    "mset S = mset (take n ?r)" "sorted (map k S)" by blast
  have "drop n ?r = drop n refs" using lR i by (simp add: Suc_leI)
  moreover have "take n ?r = R @ take (n - Suc i) (drop (Suc i) refs)" using lR i by (simp add: Suc_leI)
  then have "mset (take n ?r) = mset (take (Suc i) refs) + mset (take (n - Suc i) (drop (Suc i) refs))"
    using mR by simp
  moreover have "take n refs = take (Suc i) refs @ take (n - Suc i) (drop (Suc i) refs)"
    using i by (metis Suc_leI le_add_diff_inverse take_add)
  ultimately show ?case
    using S R(1) i by (subst sort_from.simps) (intro exI [of _ S], simp)
qed

lemma sortReferenceSet_eq:
  assumes "cnt \<le> length refs"
  shows "sortReferenceSet refs cnt POCV d t =
    sort_key (ref_key d t POCV) (take cnt refs) @ drop cnt refs"
proof (cases "cnt = 0")
  case True
  then show ?thesis by (simp add: sortReferenceSet_def sort_from.simps)
next
  case False
  have "sorted (map (ref_key d t POCV) (take 1 refs))" by (cases refs) simp_all
  with sort_from_spec [where k = "ref_key d t POCV", OF outOfOrder_key assms, of 1] False
  obtain R where R: "sortReferenceSet refs cnt POCV d t = R @ drop cnt refs"
    "mset R = mset (take cnt refs)" "sorted (map (ref_key d t POCV) R)"
    by (auto simp: sortReferenceSet_def)
  have "sort_key (ref_key d t POCV) (take cnt refs) = R"
    by (rule sort_key_inj_key_eq) (use R inj_ref_key in \<open>auto intro: inj_on_subset\<close>)
  with R show ?thesis by simp
qed

section \<open>Picture parameters\<close>

abbreviation VA_PICTURE_HEVC_FIELD_PIC :: u32 where "VA_PICTURE_HEVC_FIELD_PIC \<equiv> 2"
abbreviation VA_PICTURE_HEVC_BOTTOM_FIELD :: u32 where "VA_PICTURE_HEVC_BOTTOM_FIELD \<equiv> 4"
abbreviation VA_PICTURE_HEVC_LONG_TERM_REFERENCE :: u32 where
  "VA_PICTURE_HEVC_LONG_TERM_REFERENCE \<equiv> 8"
abbreviation VA_PICTURE_HEVC_RPS_ST_CURR_BEFORE :: u32 where
  "VA_PICTURE_HEVC_RPS_ST_CURR_BEFORE \<equiv> 16"
abbreviation VA_PICTURE_HEVC_RPS_ST_CURR_AFTER :: u32 where
  "VA_PICTURE_HEVC_RPS_ST_CURR_AFTER \<equiv> 32"
abbreviation VA_PICTURE_HEVC_RPS_LT_CURR :: u32 where "VA_PICTURE_HEVC_RPS_LT_CURR \<equiv> 64"

record VAPictureHEVC =
  vh_picture_id :: u32
  vh_pic_order_cnt :: int
  vh_flags :: u32

record VAPictureParameterBufferHEVC =
  h5_CurrPic :: VAPictureHEVC
  h5_ReferenceFrames :: "VAPictureHEVC list"
  h5_pic_width_in_luma_samples :: u16
  h5_pic_height_in_luma_samples :: u16
  h5_sps_max_dec_pic_buffering_minus1 :: u8
  h5_IntraPicFlag :: int
  h5_tiles_enabled_flag :: int
  h5_num_tile_columns_minus1 :: u8
  h5_num_tile_rows_minus1 :: u8
  h5_column_width_minus1 :: "u16 list"
  h5_row_height_minus1 :: "u16 list"
  h5_st_rps_bits :: int

record CUVIDHEVCPICPARAMS =
  c5_tiles_enabled_flag :: int
  c5_uniform_spacing_flag :: int
  c5_num_tile_columns_minus1 :: nat
  c5_num_tile_rows_minus1 :: nat
  c5_column_width_minus1 :: "u16 list"
  c5_row_height_minus1 :: "u16 list"
  c5_NumBitsForShortTermRPSInSlice :: int
  c5_NumDeltaPocsOfRefRpsIdx :: nat
  c5_NumPocTotalCurr :: nat
  c5_NumPocStCurrBefore :: nat
  c5_NumPocStCurrAfter :: nat
  c5_NumPocLtCurr :: nat
  c5_CurrPicOrderCntVal :: int
  c5_RefPicIdx :: "int list"
  c5_PicOrderCntVal :: "int list"
  c5_IsLongTerm :: "bool list"
  c5_RefPicSetStCurrBefore :: "nat list"
  c5_RefPicSetStCurrAfter :: "nat list"
  c5_RefPicSetLtCurr :: "nat list"

text \<open>\<open>all_equal_from\<close> is the loop that compares neighbours up to index \<open>n\<close>.\<close>

definition neighbours_equal :: "u16 list \<Rightarrow> nat \<Rightarrow> bool" where
  "neighbours_equal xs n = (\<forall>i \<in> set [0..<n]. xs ! i = xs ! (i + 1))"

definition hevc_uniform_spacing :: "VAPictureParameterBufferHEVC \<Rightarrow> int" where
  "hevc_uniform_spacing buf =
     (if h5_tiles_enabled_flag buf \<noteq> 0 then
        (if \<not> neighbours_equal (h5_column_width_minus1 buf) (unat (h5_num_tile_columns_minus1 buf))
         then 0
         else if \<not> neighbours_equal (h5_row_height_minus1 buf) (unat (h5_num_tile_rows_minus1 buf))
         then 0 else 1)
      else 1)"

text \<open>One reference frame: index, order count, long-term flag, and the set it goes to.\<close>

definition hevc_ref ::
    "'s index_lookup \<Rightarrow> nat \<Rightarrow> VAPictureHEVC \<Rightarrow> CUVIDHEVCPICPARAMS \<times> 's \<Rightarrow>
     CUVIDHEVCPICPARAMS \<times> 's" where
  "hevc_ref lookup i pic st =
     (case st of (ppc, s) \<Rightarrow>
      case lookup (vh_picture_id pic) s of (idx, s') \<Rightarrow>
        let ppc1 = ppc\<lparr>c5_RefPicIdx := (c5_RefPicIdx ppc)[i := idx],
                       c5_PicOrderCntVal := (c5_PicOrderCntVal ppc)[i := vh_pic_order_cnt pic],
                       c5_IsLongTerm := (c5_IsLongTerm ppc)
                         [i := flag (vh_flags pic) VA_PICTURE_HEVC_LONG_TERM_REFERENCE]\<rparr>
        in if idx = -1 then (ppc1, s')
           else if flag (vh_flags pic) VA_PICTURE_HEVC_RPS_ST_CURR_BEFORE
             then (ppc1\<lparr>c5_RefPicSetStCurrBefore := c5_RefPicSetStCurrBefore ppc1 @ [i],
                        c5_NumPocStCurrBefore := c5_NumPocStCurrBefore ppc1 + 1\<rparr>, s')
           else if flag (vh_flags pic) VA_PICTURE_HEVC_RPS_ST_CURR_AFTER
             then (ppc1\<lparr>c5_RefPicSetStCurrAfter := c5_RefPicSetStCurrAfter ppc1 @ [i],
                        c5_NumPocStCurrAfter := c5_NumPocStCurrAfter ppc1 + 1\<rparr>, s')
           else if flag (vh_flags pic) VA_PICTURE_HEVC_RPS_LT_CURR
             then (ppc1\<lparr>c5_RefPicSetLtCurr := c5_RefPicSetLtCurr ppc1 @ [i],
                        c5_NumPocLtCurr := c5_NumPocLtCurr ppc1 + 1\<rparr>, s')
           else (ppc1, s'))"

fun hevc_refs ::
    "'s index_lookup \<Rightarrow> nat \<Rightarrow> VAPictureHEVC list \<Rightarrow> CUVIDHEVCPICPARAMS \<times> 's \<Rightarrow>
     CUVIDHEVCPICPARAMS \<times> 's" where
  "hevc_refs lookup i [] st = st"
| "hevc_refs lookup i (pic # pics) st = hevc_refs lookup (Suc i) pics (hevc_ref lookup i pic st)"

text \<open>The counts that follow the loop, and the two sorts.\<close>

definition hevc_finish_refs :: "CUVIDHEVCPICPARAMS \<Rightarrow> CUVIDHEVCPICPARAMS" where
  "hevc_finish_refs ppc =
     ppc\<lparr>c5_NumPocTotalCurr := c5_NumPocStCurrBefore ppc + c5_NumPocStCurrAfter ppc + c5_NumPocLtCurr ppc,
         c5_NumDeltaPocsOfRefRpsIdx :=
           length (filter (\<lambda>i. c5_RefPicIdx ppc ! i \<noteq> -1 \<and> \<not> c5_IsLongTerm ppc ! i) [0..<16]),
         c5_RefPicSetStCurrBefore := sortReferenceSet (c5_RefPicSetStCurrBefore ppc)
           (c5_NumPocStCurrBefore ppc) (c5_PicOrderCntVal ppc) True False,
         c5_RefPicSetStCurrAfter := sortReferenceSet (c5_RefPicSetStCurrAfter ppc)
           (c5_NumPocStCurrAfter ppc) (c5_PicOrderCntVal ppc) False True\<rparr>"

text \<open>
  The arrays of VA-API have 19 columns and 21 rows, the ones of CUVID 21 and 21
  (\<open>ARRAY_SIZE\<close> of fields declared in the two libraries' headers).
\<close>

definition copyHEVCPicParam ::
    "'s index_lookup \<Rightarrow> 's \<Rightarrow> codec_ctx \<Rightarrow> VAPictureParameterBufferHEVC \<Rightarrow>
     CUVIDHEVCPICPARAMS CUVIDPICPARAMS \<Rightarrow>
     's \<times> codec_ctx \<times> CUVIDHEVCPICPARAMS CUVIDPICPARAMS" where
  "copyHEVCPicParam lookup s ctx buf pp =
     (let field_pic = flag (vh_flags (h5_CurrPic buf)) VA_PICTURE_HEVC_FIELD_PIC;
          ctx1 = ctx\<lparr>cx_decodeSurfaceReferenceHint := ucast (h5_sps_max_dec_pic_buffering_minus1 buf) + 3,
                     cx_progressiveFrame := \<not> field_pic\<rparr>;
          pp1 = pp\<lparr>pp_PicWidthInMbs := uint (h5_pic_width_in_luma_samples buf) div 16,
                   pp_FrameHeightInMbs := uint (h5_pic_height_in_luma_samples buf) div 16,
                   pp_field_pic_flag := c_bool field_pic,
                   pp_bottom_field_flag :=
                     c_bool (flag (vh_flags (h5_CurrPic buf)) VA_PICTURE_HEVC_BOTTOM_FIELD),
                   pp_second_field := 0, pp_ref_pic_flag := 1,
                   pp_intra_pic_flag := h5_IntraPicFlag buf\<rparr>;
          tileColumnCount = unat (h5_num_tile_columns_minus1 buf) + 1;
          tileRowCount = unat (h5_num_tile_rows_minus1 buf) + 1
      in if tileColumnCount > 19 \<or> tileColumnCount > 21 \<or> tileRowCount > 21 \<or> tileRowCount > 21
         then (s, ctx1\<lparr>cx_inputValidationFailed := True\<rparr>, pp1)
         else
           let ppc = (pp_codec pp1)
                 \<lparr>c5_tiles_enabled_flag := h5_tiles_enabled_flag buf,
                  c5_uniform_spacing_flag := hevc_uniform_spacing buf,
                  c5_num_tile_columns_minus1 := unat (h5_num_tile_columns_minus1 buf),
                  c5_num_tile_rows_minus1 := unat (h5_num_tile_rows_minus1 buf),
                  c5_NumBitsForShortTermRPSInSlice := h5_st_rps_bits buf,
                  c5_NumPocStCurrBefore := 0, c5_NumPocStCurrAfter := 0, c5_NumPocLtCurr := 0,
                  c5_RefPicSetStCurrBefore := [], c5_RefPicSetStCurrAfter := [],
                  c5_RefPicSetLtCurr := [],
                  c5_CurrPicOrderCntVal := vh_pic_order_cnt (h5_CurrPic buf),
                  c5_column_width_minus1 := take tileColumnCount (h5_column_width_minus1 buf) @
                    drop tileColumnCount (c5_column_width_minus1 (pp_codec pp1)),
                  c5_row_height_minus1 := take tileRowCount (h5_row_height_minus1 buf) @
                    drop tileRowCount (c5_row_height_minus1 (pp_codec pp1)),
                  c5_RefPicIdx := replicate 16 (-1), c5_PicOrderCntVal := replicate 16 0,
                  c5_IsLongTerm := replicate 16 False\<rparr>
           in case hevc_refs lookup 0 (take 15 (h5_ReferenceFrames buf)) (ppc, s) of
                (ppc', s') \<Rightarrow> (s', ctx1, pp1\<lparr>pp_codec := hevc_finish_refs ppc'\<rparr>))"

section \<open>Slices, scaling lists, profiles\<close>

definition copyHEVCSliceParam ::
    "codec_ctx \<Rightarrow> slice_range list \<Rightarrow> u32 \<Rightarrow> 'c CUVIDPICPARAMS \<Rightarrow> codec_ctx \<times> 'c CUVIDPICPARAMS" where
  "copyHEVCSliceParam ctx ranges elements pp = copySliceParam ctx ranges elements pp"

definition copyHEVCSliceData ::
    "allocator \<Rightarrow> codec_ctx \<Rightarrow> NVBuffer \<Rightarrow> 'c CUVIDPICPARAMS \<Rightarrow> codec_ctx \<times> 'c CUVIDPICPARAMS" where
  "copyHEVCSliceData mem ctx buf pp = copySliceData mem [0, 0, 1] ctx buf pp"

definition ff_hevc_diag_scan4x4_x :: "nat list" where
  "ff_hevc_diag_scan4x4_x = [0, 0, 1, 0, 1, 2, 0, 1, 2, 3, 1, 2, 3, 2, 3, 3]"

definition ff_hevc_diag_scan4x4_y :: "nat list" where
  "ff_hevc_diag_scan4x4_y = [0, 1, 0, 2, 1, 0, 3, 2, 1, 0, 3, 2, 1, 3, 2, 3]"

definition ff_hevc_diag_scan8x8_x :: "nat list" where
  "ff_hevc_diag_scan8x8_x =
     [0, 0, 1, 0, 1, 2, 0, 1, 2, 3, 0, 1, 2, 3, 4, 0, 1, 2, 3, 4, 5, 0, 1, 2, 3, 4, 5, 6,
      0, 1, 2, 3, 4, 5, 6, 7, 1, 2, 3, 4, 5, 6, 7, 2, 3, 4, 5, 6, 7, 3, 4, 5, 6, 7,
      4, 5, 6, 7, 5, 6, 7, 6, 7, 7]"

definition ff_hevc_diag_scan8x8_y :: "nat list" where
  "ff_hevc_diag_scan8x8_y =
     [0, 1, 0, 2, 1, 0, 3, 2, 1, 0, 4, 3, 2, 1, 0, 5, 4, 3, 2, 1, 0, 6, 5, 4, 3, 2, 1, 0,
      7, 6, 5, 4, 3, 2, 1, 0, 7, 6, 5, 4, 3, 2, 1, 7, 6, 5, 4, 3, 2, 7, 6, 5, 4, 3,
      7, 6, 5, 4, 7, 6, 5, 7, 6, 7]"

definition scan4x4_pos :: "nat \<Rightarrow> nat" where
  "scan4x4_pos j = 4 * ff_hevc_diag_scan4x4_y ! j + ff_hevc_diag_scan4x4_x ! j"

definition scan8x8_pos :: "nat \<Rightarrow> nat" where
  "scan8x8_pos j = 8 * ff_hevc_diag_scan8x8_y ! j + ff_hevc_diag_scan8x8_x ! j"

record scaling_lists =
  sl_4x4 :: "u8 list list"
  sl_8x8 :: "u8 list list"
  sl_16x16 :: "u8 list list"
  sl_32x32 :: "u8 list list"
  sl_DC16x16 :: "u8 list"
  sl_DC32x32 :: "u8 list"

text \<open>Six matrices of each size, two of the largest.\<close>

definition copyHEVCIQMatrix :: "scaling_lists \<Rightarrow> scaling_lists" where
  "copyHEVCIQMatrix iq =
     \<lparr>sl_4x4 = map (\<lambda>i. map (\<lambda>j. sl_4x4 iq ! i ! scan4x4_pos j) [0..<16]) [0..<6],
      sl_8x8 = map (\<lambda>i. map (\<lambda>j. sl_8x8 iq ! i ! scan8x8_pos j) [0..<64]) [0..<6],
      sl_16x16 = map (\<lambda>i. map (\<lambda>j. sl_16x16 iq ! i ! scan8x8_pos j) [0..<64]) [0..<6],
      sl_32x32 = map (\<lambda>i. map (\<lambda>j. sl_32x32 iq ! i ! scan8x8_pos j) [0..<64]) [0..<2],
      sl_DC16x16 = map (\<lambda>i. sl_DC16x16 iq ! i) [0..<6],
      sl_DC32x32 = map (\<lambda>i. sl_DC32x32 iq ! i) [0..<2]\<rparr>"

definition computeHEVCCudaCodec :: "VAProfile \<Rightarrow> cudaVideoCodec" where
  "computeHEVCCudaCodec profile =
     (case profile of
        VAProfileHEVCMain \<Rightarrow> cudaVideoCodec_HEVC | VAProfileHEVCMain10 \<Rightarrow> cudaVideoCodec_HEVC
      | VAProfileHEVCMain12 \<Rightarrow> cudaVideoCodec_HEVC | VAProfileHEVCMain444 \<Rightarrow> cudaVideoCodec_HEVC
      | VAProfileHEVCMain444_10 \<Rightarrow> cudaVideoCodec_HEVC | VAProfileHEVCMain444_12 \<Rightarrow> cudaVideoCodec_HEVC
      | _ \<Rightarrow> cudaVideoCodec_NONE)"

definition hevcSupportedProfiles :: "VAProfile list" where
  "hevcSupportedProfiles = [VAProfileHEVCMain, VAProfileHEVCMain10, VAProfileHEVCMain12,
     VAProfileHEVCMain444, VAProfileHEVCMain444_10, VAProfileHEVCMain444_12]"

section \<open>The reference picture sets\<close>

text \<open>Which set a reference frame belongs to, by its flags in the order of the tests.\<close>

datatype ref_set = RefBefore | RefAfter | RefLong | RefNone

definition ref_set_of :: "VAPictureHEVC \<Rightarrow> ref_set" where
  "ref_set_of pic =
     (if flag (vh_flags pic) VA_PICTURE_HEVC_RPS_ST_CURR_BEFORE then RefBefore
      else if flag (vh_flags pic) VA_PICTURE_HEVC_RPS_ST_CURR_AFTER then RefAfter
      else if flag (vh_flags pic) VA_PICTURE_HEVC_RPS_LT_CURR then RefLong else RefNone)"

text \<open>What the loop over the frames from index \<open>i\<close> on has collected.\<close>

definition refs_collected :: "CUVIDHEVCPICPARAMS \<Rightarrow> bool" where
  "refs_collected ppc \<longleftrightarrow>
     c5_NumPocStCurrBefore ppc = length (c5_RefPicSetStCurrBefore ppc) \<and>
     c5_NumPocStCurrAfter ppc = length (c5_RefPicSetStCurrAfter ppc) \<and>
     c5_NumPocLtCurr ppc = length (c5_RefPicSetLtCurr ppc)"

lemma hevc_ref_collected: "refs_collected ppc \<Longrightarrow> refs_collected (fst (hevc_ref lookup i pic (ppc, s)))"
  by (auto simp: refs_collected_def hevc_ref_def Let_def split: prod.splits)

lemma hevc_refs_collected:
  "refs_collected ppc \<Longrightarrow> refs_collected (fst (hevc_refs lookup i pics (ppc, s)))"
proof (induction pics arbitrary: i ppc s)
  case (Cons pic pics)
  obtain p1 s1 where h: "hevc_ref lookup i pic (ppc, s) = (p1, s1)"
    by (cases "hevc_ref lookup i pic (ppc, s)")
  have "refs_collected p1" using hevc_ref_collected [OF Cons.prems, of lookup i pic s] h by simp
  with Cons.IH h show ?case by simp
qed simp

text \<open>The set of one class that the frames \<open>pics\<close>, numbered from \<open>i\<close>, add.\<close>

fun refs_of_class :: "ref_set \<Rightarrow> nat \<Rightarrow> VAPictureHEVC list \<Rightarrow> int list \<Rightarrow> nat list" where
  "refs_of_class c i (pic # pics) (idx # idxs) =
     (if idx \<noteq> -1 \<and> ref_set_of pic = c then [i] else []) @ refs_of_class c (Suc i) pics idxs"
| "refs_of_class c i _ _ = []"

lemma hevc_ref_sets:
  assumes "hevc_ref lookup i pic (ppc, s) = (ppc', s')" "lookup (vh_picture_id pic) s = (idx, s1)"
  shows "s' = s1"
    "c5_RefPicSetStCurrBefore ppc' = c5_RefPicSetStCurrBefore ppc @
       (if idx \<noteq> -1 \<and> ref_set_of pic = RefBefore then [i] else [])"
    "c5_RefPicSetStCurrAfter ppc' = c5_RefPicSetStCurrAfter ppc @
       (if idx \<noteq> -1 \<and> ref_set_of pic = RefAfter then [i] else [])"
    "c5_RefPicSetLtCurr ppc' = c5_RefPicSetLtCurr ppc @
       (if idx \<noteq> -1 \<and> ref_set_of pic = RefLong then [i] else [])"
    "c5_PicOrderCntVal ppc' = (c5_PicOrderCntVal ppc)[i := vh_pic_order_cnt pic]"
  using assms by (auto simp: hevc_ref_def ref_set_of_def Let_def split: if_splits)

lemma hevc_refs_sets:
  "hevc_refs lookup i pics (ppc, s) = (ppc', s') \<Longrightarrow>
   run_lookups lookup s (map vh_picture_id pics) = (idxs, s2) \<Longrightarrow>
   s' = s2 \<and>
   c5_RefPicSetStCurrBefore ppc' = c5_RefPicSetStCurrBefore ppc @ refs_of_class RefBefore i pics idxs \<and>
   c5_RefPicSetStCurrAfter ppc' = c5_RefPicSetStCurrAfter ppc @ refs_of_class RefAfter i pics idxs \<and>
   c5_RefPicSetLtCurr ppc' = c5_RefPicSetLtCurr ppc @ refs_of_class RefLong i pics idxs"
proof (induction pics arbitrary: i ppc s idxs ppc' s' s2)
  case Nil
  then show ?case by simp
next
  case (Cons pic pics)
  obtain p1 s1 where h: "hevc_ref lookup i pic (ppc, s) = (p1, s1)"
    by (cases "hevc_ref lookup i pic (ppc, s)")
  obtain idx s1' where l: "lookup (vh_picture_id pic) s = (idx, s1')"
    by (cases "lookup (vh_picture_id pic) s")
  note S = hevc_ref_sets [OF h l]
  obtain rest s3 where r: "run_lookups lookup s1 (map vh_picture_id pics) = (rest, s3)"
    by (cases "run_lookups lookup s1 (map vh_picture_id pics)")
  have i: "idxs = idx # rest" "s2 = s3" using Cons.prems(2) l r S(1) by simp_all
  have "hevc_refs lookup (Suc i) pics (p1, s1) = (ppc', s')" using Cons.prems(1) h by simp
  from Cons.IH [OF this r] S(2-4) i show ?case by simp
qed

section \<open>Properties\<close>


definition hevc_pic :: "u32 \<Rightarrow> int \<Rightarrow> u32 \<Rightarrow> VAPictureHEVC" where
  "hevc_pic i poc flags = \<lparr>vh_picture_id = i, vh_pic_order_cnt = poc, vh_flags = flags\<rparr>"

definition hevc_start :: CUVIDHEVCPICPARAMS where
  "hevc_start = \<lparr>c5_tiles_enabled_flag = 0, c5_uniform_spacing_flag = 1, c5_num_tile_columns_minus1 = 0,
     c5_num_tile_rows_minus1 = 0, c5_column_width_minus1 = [], c5_row_height_minus1 = [],
     c5_NumBitsForShortTermRPSInSlice = 0, c5_NumDeltaPocsOfRefRpsIdx = 0, c5_NumPocTotalCurr = 0,
     c5_NumPocStCurrBefore = 0, c5_NumPocStCurrAfter = 0, c5_NumPocLtCurr = 0,
     c5_CurrPicOrderCntVal = 8, c5_RefPicIdx = replicate 16 (-1), c5_PicOrderCntVal = replicate 16 0,
     c5_IsLongTerm = replicate 16 False, c5_RefPicSetStCurrBefore = [],
     c5_RefPicSetStCurrAfter = [], c5_RefPicSetLtCurr = []\<rparr>"


lemma refs_of_class_all:
  "length idxs = length pics \<Longrightarrow> \<forall>p \<in> set pics. ref_set_of p = c \<Longrightarrow> \<forall>x \<in> set idxs. x \<noteq> -1 \<Longrightarrow>
   length (refs_of_class c i pics idxs) = length pics"
proof (induction pics arbitrary: i idxs)
  case (Cons p pics)
  then show ?case by (cases idxs) auto
qed simp

lemma run_lookups_const: "run_lookups (\<lambda>i s. (0, s)) s is = (replicate (length is) 0, s)"
  by (induction "is") simp_all

text \<open>C28. The number of frames in a reference picture set is bounded only by the 15 frames of the
  picture parameters: a client that marks all of them for the set before the current picture
  makes the driver store 15 entries, while the array \<open>RefPicSetStCurrBefore\<close> of CUVID has 8.\<close>

theorem hevc_reference_set_can_exceed_array:
  "length (c5_RefPicSetStCurrBefore (hevc_finish_refs (fst
     (hevc_refs (\<lambda>i s. (0, s)) 0 (replicate 15 (hevc_pic 1 0 16)) (hevc_start, ()))))) = 15"
proof -
  let ?pics = "replicate 15 (hevc_pic 1 0 16)"
  obtain ppc s' where h: "hevc_refs (\<lambda>i s. (0, s)) 0 ?pics (hevc_start, ()) = (ppc, s')"
    by (cases "hevc_refs (\<lambda>i s. (0, s)) 0 ?pics (hevc_start, ())")
  have "refs_collected hevc_start" by (simp add: hevc_start_def refs_collected_def)
  from hevc_refs_collected [OF this, of "\<lambda>i s. (0, s)" 0 ?pics "()"] h
  have n: "c5_NumPocStCurrBefore ppc = length (c5_RefPicSetStCurrBefore ppc)"
    by (simp add: refs_collected_def)
  have "c5_RefPicSetStCurrBefore ppc = refs_of_class RefBefore 0 ?pics (replicate 15 0)"
    using hevc_refs_sets [OF h run_lookups_const] by (simp add: hevc_start_def)
  then have "length (c5_RefPicSetStCurrBefore ppc) = 15"
    by (simp add: refs_of_class_all hevc_pic_def ref_set_of_def)
  then show ?thesis by (simp add: h hevc_finish_refs_def n sortReferenceSet_eq)
qed

text \<open>The diagonal scans are bijections of the 16 and 64 positions, so the scaling lists that
  NVDEC gets are a reordering of the client's: no coefficient is lost or used twice.\<close>

theorem hevc_scaling_lists_permuted:
  assumes "length (sl_4x4 iq) = 6" "\<forall>l \<in> set (sl_4x4 iq). length l = 16"
    and "length (sl_8x8 iq) = 6" "\<forall>l \<in> set (sl_8x8 iq). length l = 64"
    and "i < 6"
  shows "mset (sl_4x4 (copyHEVCIQMatrix iq) ! i) = mset (sl_4x4 iq ! i) \<and>
    mset (sl_8x8 (copyHEVCIQMatrix iq) ! i) = mset (sl_8x8 iq ! i)"
proof -
  have perm: "mset (map (\<lambda>j. l ! pos j) [0..<n]) = mset l"
    if "mset (map pos [0..<n]) = mset [0..<n]" "length l = n" for l :: "u8 list" and pos n
  proof -
    have "mset (map (\<lambda>j. l ! pos j) [0..<n]) = image_mset (\<lambda>j. l ! j) (mset (map pos [0..<n]))"
      unfolding mset_map image_mset.compositionality comp_def by (rule refl)
    also have "\<dots> = mset (map (\<lambda>j. l ! j) [0..<n])" unfolding that(1) by (simp only: mset_map)
    also have "map (\<lambda>j. l ! j) [0..<n] = l" using that(2) by (metis map_nth)
    finally show ?thesis .
  qed
  have p4: "mset (map scan4x4_pos [0..<16]) = mset [0..<16]" by code_simp
  have p8: "mset (map scan8x8_pos [0..<64]) = mset [0..<64]" by code_simp
  have l: "length (sl_4x4 iq ! i) = 16" "length (sl_8x8 iq ! i) = 64" using assms by simp_all
  show ?thesis
    using perm [OF p4 l(1)] perm [OF p8 l(2)] assms(5) by (simp add: copyHEVCIQMatrix_def)
qed

definition counting_lists :: scaling_lists where
  "counting_lists = \<lparr>sl_4x4 = replicate 6 (map of_nat [0..<16]), sl_8x8 = replicate 6 (map of_nat [0..<64]),
     sl_16x16 = replicate 6 (map of_nat [0..<64]), sl_32x32 = replicate 2 (map of_nat [0..<64]),
     sl_DC16x16 = replicate 6 16, sl_DC32x32 = replicate 2 16\<rparr>"

lemma hevc_scaling_lists_permuted_witness:
  "mset (sl_4x4 (copyHEVCIQMatrix counting_lists) ! 0) = mset (sl_4x4 counting_lists ! 0)"
  by (rule hevc_scaling_lists_permuted [THEN conjunct1]) (simp_all add: counting_lists_def)

end
