(* ===== verification/CodecOthers.thy ===== *)
theory CodecOthers
  imports CodecHevc
begin

text \<open>
  The MPEG-2 and VC-1 handlers (\<open>src/mpeg2.c\<close>, \<open>src/vc1.c\<close>).
  \<open>ctx_size\<close> is the width and height of the context.
\<close>

section \<open>MPEG-2\<close>

definition ff_identity :: "nat list" where
  "ff_identity = [0..<64]"

definition ff_zigzag_direct :: "nat list" where
  "ff_zigzag_direct =
     [0, 1, 8, 16, 9, 2, 3, 10, 17, 24, 32, 25, 18, 11, 4, 5, 12, 19, 26, 33, 40, 48, 41, 34,
      27, 20, 13, 6, 7, 14, 21, 28, 35, 42, 49, 56, 57, 50, 43, 36, 29, 22, 15, 23, 30, 37, 44, 51,
      58, 59, 52, 45, 38, 31, 39, 46, 53, 60, 61, 54, 47, 55, 62, 63]"

definition ff_mpeg1_default_intra_matrix :: "u8 list" where
  "ff_mpeg1_default_intra_matrix =
     [8, 16, 19, 22, 26, 27, 29, 34, 16, 16, 22, 24, 27, 29, 34, 37,
      19, 22, 26, 27, 29, 34, 34, 38, 22, 22, 26, 27, 29, 34, 37, 40,
      22, 26, 27, 29, 32, 35, 40, 48, 26, 27, 29, 32, 35, 40, 48, 58,
      26, 27, 29, 34, 38, 46, 56, 69, 27, 29, 35, 38, 46, 56, 69, 83]"

definition ff_mpeg1_default_non_intra_matrix :: "u8 list" where
  "ff_mpeg1_default_non_intra_matrix = replicate 64 16"

record VAPictureParameterBufferMPEG2 =
  m2_horizontal_size :: u16
  m2_vertical_size :: u16
  m2_forward_reference_picture :: u32
  m2_backward_reference_picture :: u32
  m2_picture_coding_type :: int
  m2_f_code :: int
  m2_intra_dc_precision :: int
  m2_picture_structure :: int
  m2_top_field_first :: int
  m2_frame_pred_frame_dct :: int
  m2_concealment_motion_vectors :: int
  m2_q_scale_type :: int
  m2_intra_vlc_format :: int
  m2_alternate_scan :: int
  m2_progressive_frame :: int
  m2_is_first_field :: int

record CUVIDMPEG2PICPARAMS =
  c2_ForwardRefIdx :: int
  c2_BackwardRefIdx :: int
  c2_picture_coding_type :: int
  c2_full_pel_forward_vector :: int
  c2_full_pel_backward_vector :: int
  c2_f_code :: "int list list"
  c2_intra_dc_precision :: int
  c2_frame_pred_frame_dct :: int
  c2_concealment_motion_vectors :: int
  c2_q_scale_type :: int
  c2_intra_vlc_format :: int
  c2_alternate_scan :: int
  c2_top_field_first :: int
  c2_QuantMatrixIntra :: "u8 list"
  c2_QuantMatrixInter :: "u8 list"

definition copyMPEG2PicParam ::
    "'s index_lookup \<Rightarrow> 's \<Rightarrow> codec_ctx \<Rightarrow> VAPictureParameterBufferMPEG2 \<Rightarrow>
     CUVIDMPEG2PICPARAMS CUVIDPICPARAMS \<Rightarrow>
     's \<times> codec_ctx \<times> CUVIDMPEG2PICPARAMS CUVIDPICPARAMS" where
  "copyMPEG2PicParam lookup s ctx buf pp =
     (let field_pic = m2_picture_structure buf \<noteq> 3;
          ty = m2_picture_coding_type buf; fc = m2_f_code buf
      in case lookup (m2_forward_reference_picture buf) s of (fwd, s1) \<Rightarrow>
         case lookup (m2_backward_reference_picture buf) s1 of (bwd, s2) \<Rightarrow>
           (s2, ctx\<lparr>cx_progressiveFrame := (m2_progressive_frame buf \<noteq> 0)\<rparr>,
            pp\<lparr>pp_PicWidthInMbs := (uint (m2_horizontal_size buf) + 15) div 16,
               pp_FrameHeightInMbs := (uint (m2_vertical_size buf) + 15) div 16,
               pp_field_pic_flag := c_bool field_pic,
               pp_bottom_field_flag := c_bool (m2_picture_structure buf = 2),
               pp_second_field := c_bool (field_pic \<and> m2_is_first_field buf = 0),
               pp_intra_pic_flag := c_bool (ty = 1),
               pp_ref_pic_flag := c_bool (ty = 1 \<or> ty = 2),
               pp_codec := (pp_codec pp)
                 \<lparr>c2_ForwardRefIdx := fwd, c2_BackwardRefIdx := bwd,
                  c2_picture_coding_type := ty,
                  c2_full_pel_forward_vector := 0, c2_full_pel_backward_vector := 0,
                  c2_f_code := [[fc div 4096 mod 16, fc div 256 mod 16], [fc div 16 mod 16, fc mod 16]],
                  c2_intra_dc_precision := m2_intra_dc_precision buf,
                  c2_frame_pred_frame_dct := m2_frame_pred_frame_dct buf,
                  c2_concealment_motion_vectors := m2_concealment_motion_vectors buf,
                  c2_q_scale_type := m2_q_scale_type buf,
                  c2_intra_vlc_format := m2_intra_vlc_format buf,
                  c2_alternate_scan := m2_alternate_scan buf,
                  c2_top_field_first := m2_top_field_first buf\<rparr>\<rparr>))"

definition copyMPEG2SliceParam ::
    "codec_ctx \<Rightarrow> slice_range list \<Rightarrow> u32 \<Rightarrow> 'c CUVIDPICPARAMS \<Rightarrow> codec_ctx \<times> 'c CUVIDPICPARAMS" where
  "copyMPEG2SliceParam ctx ranges elements pp = copySliceParam ctx ranges elements pp"

definition copyMPEG2SliceData ::
    "allocator \<Rightarrow> codec_ctx \<Rightarrow> NVBuffer \<Rightarrow> 'c CUVIDPICPARAMS \<Rightarrow> codec_ctx \<times> 'c CUVIDPICPARAMS" where
  "copyMPEG2SliceData mem ctx buf pp = copySliceData mem [] ctx buf pp"

record VAIQMatrixBufferMPEG2 =
  iq_load_intra :: bool
  iq_load_non_intra :: bool
  iq_intra :: "u8 list"
  iq_non_intra :: "u8 list"

text \<open>The loop \<open>out[lookup[i]] = matrix[i]\<close>.\<close>

definition scatter :: "nat list \<Rightarrow> u8 list \<Rightarrow> u8 list \<Rightarrow> u8 list" where
  "scatter positions matrix out = fold (\<lambda>i o'. o'[positions ! i := matrix ! i]) [0..<64] out"

definition copyMPEG2IQMatrix ::
    "VAIQMatrixBufferMPEG2 \<Rightarrow> CUVIDMPEG2PICPARAMS CUVIDPICPARAMS \<Rightarrow>
     CUVIDMPEG2PICPARAMS CUVIDPICPARAMS" where
  "copyMPEG2IQMatrix iq pp =
     (let intra = (if iq_load_intra iq then (iq_intra iq, ff_zigzag_direct)
                   else (ff_mpeg1_default_intra_matrix, ff_identity));
          inter = (if iq_load_non_intra iq then (iq_non_intra iq, ff_zigzag_direct)
                   else (ff_mpeg1_default_non_intra_matrix, ff_identity))
      in pp\<lparr>pp_codec := (pp_codec pp)
           \<lparr>c2_QuantMatrixIntra := scatter (snd intra) (fst intra) (c2_QuantMatrixIntra (pp_codec pp)),
            c2_QuantMatrixInter := scatter (snd inter) (fst inter) (c2_QuantMatrixInter (pp_codec pp))\<rparr>\<rparr>)"

definition computeMPEG2CudaCodec :: "VAProfile \<Rightarrow> cudaVideoCodec" where
  "computeMPEG2CudaCodec profile =
     (case profile of
        VAProfileMPEG2Main \<Rightarrow> cudaVideoCodec_MPEG2
      | VAProfileMPEG2Simple \<Rightarrow> cudaVideoCodec_MPEG2
      | _ \<Rightarrow> cudaVideoCodec_NONE)"

definition mpeg2SupportedProfiles :: "VAProfile list" where
  "mpeg2SupportedProfiles = [VAProfileMPEG2Main, VAProfileMPEG2Simple]"

section \<open>VC-1\<close>

record VAPictureParameterBufferVC1 =
  v1_forward_reference_picture :: u32
  v1_backward_reference_picture :: u32
  v1_interlace :: bool
  v1_frame_coding_mode :: int
  v1_top_field_first :: bool
  v1_is_first_field :: bool
  v1_picture_type :: int
  v1_post_processing :: int
  v1_profile :: int

record CUVIDVC1PICPARAMS =
  cv_ForwardRefIdx :: int
  cv_BackwardRefIdx :: int
  cv_FrameWidth :: u32
  cv_FrameHeight :: u32
  cv_progressive_fcm :: int
  cv_profile :: int
  cv_postprocflag :: int
  cv_interlace :: int

text \<open>The plain copies of sequence and picture fields that follow line 46 are left out.\<close>

definition copyVC1PicParam ::
    "'s index_lookup \<Rightarrow> 's \<Rightarrow> codec_ctx \<Rightarrow> u32 \<times> u32 \<Rightarrow> VAPictureParameterBufferVC1 \<Rightarrow>
     CUVIDVC1PICPARAMS CUVIDPICPARAMS \<Rightarrow>
     's \<times> codec_ctx \<times> CUVIDVC1PICPARAMS CUVIDPICPARAMS" where
  "copyVC1PicParam lookup s ctx ctx_size buf pp =
     (let interlaced = (v1_frame_coding_mode buf = 2);
          field_mode = (v1_interlace buf \<and> interlaced);
          ty = v1_picture_type buf
      in case lookup (v1_forward_reference_picture buf) s of (fwd, s1) \<Rightarrow>
         case lookup (v1_backward_reference_picture buf) s1 of (bwd, s2) \<Rightarrow>
           (s2, ctx\<lparr>cx_progressiveFrame := \<not> interlaced\<rparr>,
            pp\<lparr>pp_PicWidthInMbs := uint ((fst ctx_size + 15) div 16),
               pp_FrameHeightInMbs := uint ((snd ctx_size + 15) div 16),
               pp_field_pic_flag := c_bool (v1_interlace buf \<and> interlaced),
               pp_bottom_field_flag :=
                 c_bool (field_mode \<and> \<not> (v1_top_field_first buf \<noteq> (\<not> v1_is_first_field buf))),
               pp_second_field := c_bool (\<not> v1_is_first_field buf),
               pp_intra_pic_flag :=
                 c_bool (if interlaced then ty = 0 \<or> ty = 7 else ty = 0 \<or> ty = 3),
               pp_ref_pic_flag :=
                 c_bool (if interlaced then ty = 0 \<or> ty = 3 else ty = 0 \<or> ty = 1 \<or> ty = 4),
               pp_codec := (pp_codec pp)
                 \<lparr>cv_ForwardRefIdx := fwd, cv_BackwardRefIdx := bwd,
                  cv_FrameWidth := fst ctx_size, cv_FrameHeight := snd ctx_size,
                  cv_progressive_fcm := c_bool (v1_frame_coding_mode buf = 0),
                  cv_profile := v1_profile buf,
                  cv_postprocflag := c_bool (v1_post_processing buf \<noteq> 0),
                  cv_interlace := c_bool (v1_interlace buf)\<rparr>\<rparr>))"

definition copyVC1SliceParam ::
    "codec_ctx \<Rightarrow> slice_range list \<Rightarrow> u32 \<Rightarrow> 'c CUVIDPICPARAMS \<Rightarrow> codec_ctx \<times> 'c CUVIDPICPARAMS" where
  "copyVC1SliceParam ctx ranges elements pp = copySliceParam ctx ranges elements pp"

definition copyVC1SliceData ::
    "allocator \<Rightarrow> codec_ctx \<Rightarrow> NVBuffer \<Rightarrow> 'c CUVIDPICPARAMS \<Rightarrow> codec_ctx \<times> 'c CUVIDPICPARAMS" where
  "copyVC1SliceData mem ctx buf pp = copySliceData mem [] ctx buf pp"

definition copyVC1BitPlane :: "codec_ctx \<Rightarrow> 'c CUVIDPICPARAMS \<Rightarrow> codec_ctx \<times> 'c CUVIDPICPARAMS" where
  "copyVC1BitPlane ctx pp = (ctx, pp)"

definition computeVC1CudaCodec :: "VAProfile \<Rightarrow> cudaVideoCodec" where
  "computeVC1CudaCodec profile =
     (if profile = VAProfileVC1Advanced \<or> profile = VAProfileVC1Main \<or> profile = VAProfileVC1Simple
      then cudaVideoCodec_VC1 else cudaVideoCodec_NONE)"

definition vc1SupportedProfiles :: "VAProfile list" where
  "vc1SupportedProfiles = [VAProfileVC1Simple, VAProfileVC1Main, VAProfileVC1Advanced]"

section \<open>The MPEG-2 quantisation matrices\<close>

lemma scatter_prefix:
  assumes "distinct ps" "\<forall>p \<in> set ps. p < length out" "n \<le> length ps"
  shows "length (fold (\<lambda>i o'. o'[ps ! i := m ! i]) [0..<n] out) = length out \<and>
    (\<forall>k < n. fold (\<lambda>i o'. o'[ps ! i := m ! i]) [0..<n] out ! (ps ! k) = m ! k)"
  using assms(3)
proof (induction n)
  case 0
  then show ?case by simp
next
  case (Suc n)
  let ?f = "fold (\<lambda>i o'. o'[ps ! i := m ! i]) [0..<n] out"
  have IH: "length ?f = length out" "\<forall>k < n. ?f ! (ps ! k) = m ! k" using Suc by simp_all
  have "?f[ps ! n := m ! n] ! (ps ! k) = m ! k" if "k < Suc n" for k
  proof (cases "k = n")
    case True
    then show ?thesis using IH(1) assms(2) Suc.prems by (simp add: nth_mem)
  next
    case False
    then have "ps ! k \<noteq> ps ! n"
      using that Suc.prems assms(1) by (simp add: nth_eq_iff_index_eq)
    with IH False that show ?thesis by simp
  qed
  with IH(1) show ?case by simp
qed

lemma zigzag_positions:
  "distinct ff_zigzag_direct" "length ff_zigzag_direct = 64" "\<forall>p \<in> set ff_zigzag_direct. p < 64"
  by (simp_all add: ff_zigzag_direct_def)

lemma identity_positions:
  "distinct ff_identity" "length ff_identity = 64" "\<forall>p \<in> set ff_identity. p < 64" "i < 64 \<Longrightarrow> ff_identity ! i = i"
  by (simp_all add: ff_identity_def)

lemma scatter_at:
  assumes "distinct ps" "length ps = 64" "\<forall>p \<in> set ps. p < 64" "length out = 64" "i < 64"
  shows "scatter ps m out ! (ps ! i) = m ! i"
  using scatter_prefix [of ps out 64 m] assms by (simp add: scatter_def)

text \<open>The MPEG-2 quantisation matrices reach the decoder in raster order: a matrix that the client
  loads is moved from zigzag to raster position entry by entry, each raster position receives
  exactly one entry, and a matrix that is not loaded is the default of the standard.\<close>

theorem mpeg2_quant_matrices:
  assumes "length (c2_QuantMatrixIntra (pp_codec pp)) = 64" "length (c2_QuantMatrixInter (pp_codec pp)) = 64"
    and "i < 64"
  shows "let q = pp_codec (copyMPEG2IQMatrix iq pp) in
    (if iq_load_intra iq then c2_QuantMatrixIntra q ! (ff_zigzag_direct ! i) = iq_intra iq ! i
     else c2_QuantMatrixIntra q ! i = ff_mpeg1_default_intra_matrix ! i) \<and>
    (if iq_load_non_intra iq then c2_QuantMatrixInter q ! (ff_zigzag_direct ! i) = iq_non_intra iq ! i
     else c2_QuantMatrixInter q ! i = 16) \<and>
    bij_betw ((!) ff_zigzag_direct) {..<64} {..<64}"
proof -
  have b: "bij_betw ((!) ff_zigzag_direct) {..<64} {..<64}"
  proof -
    have all: "set ff_zigzag_direct = {..<64}"
    proof (rule card_subset_eq)
      show "set ff_zigzag_direct \<subseteq> {..<64}" using zigzag_positions(3) by auto
      show "card (set ff_zigzag_direct) = card {..<64 :: nat}"
        using distinct_card [OF zigzag_positions(1)] zigzag_positions(2) by simp
    qed simp
    have "bij_betw ((!) ff_zigzag_direct) {..<64} (set ff_zigzag_direct)"
      by (rule bij_betw_nth [OF zigzag_positions(1) _ refl]) (simp only: zigzag_positions(2))
    then show ?thesis unfolding all .
  qed
  let ?c = "pp_codec pp"
  have q: "c2_QuantMatrixIntra (pp_codec (copyMPEG2IQMatrix iq pp)) =
      (if iq_load_intra iq then scatter ff_zigzag_direct (iq_intra iq) (c2_QuantMatrixIntra ?c)
       else scatter ff_identity ff_mpeg1_default_intra_matrix (c2_QuantMatrixIntra ?c))"
    "c2_QuantMatrixInter (pp_codec (copyMPEG2IQMatrix iq pp)) =
      (if iq_load_non_intra iq then scatter ff_zigzag_direct (iq_non_intra iq) (c2_QuantMatrixInter ?c)
       else scatter ff_identity ff_mpeg1_default_non_intra_matrix (c2_QuantMatrixInter ?c))"
    by (simp_all add: copyMPEG2IQMatrix_def)
  have I: "scatter ff_identity m out ! i = m ! i" if "length out = 64" for m out
    using scatter_at [OF identity_positions(1-3) that assms(3), of m]
    unfolding identity_positions(4) [OF assms(3)] .
  have "ff_mpeg1_default_non_intra_matrix ! i = 16"
    unfolding ff_mpeg1_default_non_intra_matrix_def using assms(3) by (rule nth_replicate)
  then show ?thesis
    unfolding Let_def q
    using b scatter_at [OF zigzag_positions assms(1,3)] scatter_at [OF zigzag_positions assms(2,3)]
      I [OF assms(1)] I [OF assms(2)]
    by (cases "iq_load_intra iq"; cases "iq_load_non_intra iq") (simp_all only: if_True if_False simp_thms)
qed

definition sample_mpeg2 :: "CUVIDMPEG2PICPARAMS CUVIDPICPARAMS" where
  "sample_mpeg2 = \<lparr>pp_PicWidthInMbs = 1, pp_FrameHeightInMbs = 1, pp_CurrPicIdx = 0, pp_field_pic_flag = 0,
     pp_bottom_field_flag = 0, pp_second_field = 0, pp_nBitstreamDataLen = 0, pp_nNumSlices = 2,
     pp_ref_pic_flag = 0, pp_intra_pic_flag = 0,
     pp_codec = \<lparr>c2_ForwardRefIdx = 0, c2_BackwardRefIdx = 0, c2_picture_coding_type = 1,
       c2_full_pel_forward_vector = 0, c2_full_pel_backward_vector = 0, c2_f_code = [],
       c2_intra_dc_precision = 0, c2_frame_pred_frame_dct = 0, c2_concealment_motion_vectors = 0,
       c2_q_scale_type = 0, c2_intra_vlc_format = 0, c2_alternate_scan = 0, c2_top_field_first = 0,
       c2_QuantMatrixIntra = replicate 64 0, c2_QuantMatrixInter = replicate 64 0\<rparr>\<rparr>"

lemma mpeg2_quant_matrices_witness:
  "c2_QuantMatrixIntra (pp_codec (copyMPEG2IQMatrix
      \<lparr>iq_load_intra = True, iq_load_non_intra = False, iq_intra = map of_nat [0..<64], iq_non_intra = []\<rparr>
      sample_mpeg2)) ! 8 = 2"
proof -
  have "length (c2_QuantMatrixIntra (pp_codec sample_mpeg2)) = 64"
    "length (c2_QuantMatrixInter (pp_codec sample_mpeg2)) = 64" "(2 :: nat) < 64"
    by (simp_all add: sample_mpeg2_def)
  from mpeg2_quant_matrices [OF this, of "\<lparr>iq_load_intra = True, iq_load_non_intra = False,
      iq_intra = map of_nat [0..<64], iq_non_intra = []\<rparr>"]
  show ?thesis by (simp add: Let_def ff_zigzag_direct_def)
qed

end
