(* ===== verification/CodecVp8.thy ===== *)
theory CodecVp8
  imports CodecOthers
begin

text \<open>
  The VP8 handlers (\<open>src/vp8.c\<close>). A VP8 frame reaches the driver without its frame tag and
  key frame header, so the slice data handler writes a header in front of every slice.
\<close>

section \<open>VP8\<close>

record VAPictureParameterBufferVP8 =
  p8_frame_width :: u32
  p8_frame_height :: u32
  p8_last_ref_frame :: u32
  p8_golden_ref_frame :: u32
  p8_alt_ref_frame :: u32
  p8_key_frame :: int
  p8_version :: u8
  p8_segmentation_enabled :: bool
  p8_update_segment_feature_data :: int

record CUVIDVP8PICPARAMS =
  c8_width :: u32
  c8_height :: u32
  c8_first_partition_size :: u32
  c8_LastRefIdx :: int
  c8_GoldenRefIdx :: int
  c8_AltRefIdx :: int
  c8_frame_type :: int
  c8_version :: u8
  c8_show_frame :: int
  c8_update_mb_segmentation_data :: int

definition copyVP8PicParam ::
    "'s index_lookup \<Rightarrow> 's \<Rightarrow> VAPictureParameterBufferVP8 \<Rightarrow> CUVIDVP8PICPARAMS CUVIDPICPARAMS \<Rightarrow>
     's \<times> CUVIDVP8PICPARAMS CUVIDPICPARAMS" where
  "copyVP8PicParam lookup s buf pp =
     (case lookup (p8_last_ref_frame buf) s of (last_idx, s1) \<Rightarrow>
      case lookup (p8_golden_ref_frame buf) s1 of (golden, s2) \<Rightarrow>
      case lookup (p8_alt_ref_frame buf) s2 of (alt, s3) \<Rightarrow>
        (s3, pp\<lparr>pp_PicWidthInMbs := uint ((p8_frame_width buf + 15) div 16),
                pp_FrameHeightInMbs := uint ((p8_frame_height buf + 15) div 16),
                pp_codec := (pp_codec pp)
                  \<lparr>c8_width := p8_frame_width buf, c8_height := p8_frame_height buf,
                   c8_LastRefIdx := last_idx, c8_GoldenRefIdx := golden, c8_AltRefIdx := alt,
                   c8_frame_type := p8_key_frame buf, c8_version := p8_version buf,
                   c8_show_frame := 1,
                   c8_update_mb_segmentation_data :=
                     (if p8_segmentation_enabled buf then p8_update_segment_feature_data buf else 0)\<rparr>\<rparr>))"

text \<open>\<open>partition_size\<close> and \<open>macroblock_offset\<close> are those of the first slice parameters.\<close>

definition copyVP8SliceParam ::
    "codec_ctx \<Rightarrow> u32 \<Rightarrow> u32 \<Rightarrow> slice_range list \<Rightarrow> u32 \<Rightarrow> CUVIDVP8PICPARAMS CUVIDPICPARAMS \<Rightarrow>
     codec_ctx \<times> CUVIDVP8PICPARAMS CUVIDPICPARAMS" where
  "copyVP8SliceParam ctx partition_size macroblock_offset ranges elements pp =
     copySliceParam ctx ranges elements
       (pp\<lparr>pp_codec := (pp_codec pp)
          \<lparr>c8_first_partition_size := partition_size + (macroblock_offset + 7) div 8\<rparr>\<rparr>)"

definition vp8_header_of :: "CUVIDVP8PICPARAMS CUVIDPICPARAMS \<Rightarrow> u8 list" where
  "vp8_header_of pp =
     (let v = pp_codec pp
      in nvBuildVP8FrameHeader (Some ()) (c8_frame_type v = 0) (c8_version v) (c8_show_frame v \<noteq> 0)
           (c8_first_partition_size v) (ucast (c8_width v)) (ucast (c8_height v)))"

text \<open>One iteration of the loop; False is the early return.\<close>

definition copyVP8Slice ::
    "allocator \<Rightarrow> NVBuffer \<Rightarrow> CUVIDVP8PICPARAMS CUVIDPICPARAMS \<Rightarrow> slice_range \<Rightarrow> codec_ctx \<Rightarrow>
     bool \<times> codec_ctx" where
  "copyVP8Slice mem buf pp s ctx =
     (case nvValidateSliceRange (Some ctx) (Some buf) (slice_data_offset s)
             (u32_to_u64 (slice_data_size s)) of
        (_, False, ctx') \<Rightarrow> (False, case ctx' of Some c \<Rightarrow> c | None \<Rightarrow> ctx)
      | (_, True, _) \<Rightarrow>
          (let header = vp8_header_of pp; n = of_nat (length header) :: usize
           in if n = 0 \<or> u32_to_u64 (slice_data_size s) > u32_to_u64 UINT32_MAX - n \<or>
                 \<not> fst (nvCanAppendCuvidBitstream (Some ctx) (n + u32_to_u64 (slice_data_size s)))
              then (False, fail_input ctx)
              else (True, append_slice mem header buf ctx s)))"

fun copyVP8Slices ::
    "allocator \<Rightarrow> NVBuffer \<Rightarrow> CUVIDVP8PICPARAMS CUVIDPICPARAMS \<Rightarrow> slice_range list \<Rightarrow> codec_ctx \<Rightarrow>
     bool \<times> codec_ctx" where
  "copyVP8Slices mem buf pp [] ctx = (True, ctx)"
| "copyVP8Slices mem buf pp (s # ss) ctx =
     (case copyVP8Slice mem buf pp s ctx of
        (False, ctx') \<Rightarrow> (False, ctx')
      | (True, ctx') \<Rightarrow> copyVP8Slices mem buf pp ss ctx')"

definition copyVP8SliceData ::
    "allocator \<Rightarrow> codec_ctx \<Rightarrow> NVBuffer \<Rightarrow> CUVIDVP8PICPARAMS CUVIDPICPARAMS \<Rightarrow>
     codec_ctx \<times> CUVIDVP8PICPARAMS CUVIDPICPARAMS" where
  "copyVP8SliceData mem ctx buf pp =
     (case copyVP8Slices mem buf pp (take (unat (cx_lastSliceParamsCount ctx)) (cx_lastSliceParams ctx)) ctx of
        (False, ctx') \<Rightarrow> (ctx', pp)
      | (True, ctx') \<Rightarrow>
          (case nvCommitCuvidBitstreamLength (Some ctx') (Some pp) of
             (_, Some c, Some p) \<Rightarrow> (c, p)
           | _ \<Rightarrow> (ctx', pp)))"

definition ignoreVP8Buffer :: "codec_ctx \<Rightarrow> 'c CUVIDPICPARAMS \<Rightarrow> codec_ctx \<times> 'c CUVIDPICPARAMS" where
  "ignoreVP8Buffer ctx pp = (ctx, pp)"

definition computeVP8CudaCodec :: "VAProfile \<Rightarrow> cudaVideoCodec" where
  "computeVP8CudaCodec profile =
     (if profile = VAProfileVP8Version0_3 then cudaVideoCodec_VP8 else cudaVideoCodec_NONE)"

definition vp8SupportedProfiles :: "VAProfile list" where
  "vp8SupportedProfiles = [VAProfileVP8Version0_3]"

section \<open>VP8 frames are rebuilt with their headers\<close>

lemma vp8_header_length: "length (vp8_header_of pp) < 2 ^ 64"
  by (simp add: vp8_header_of_def nvBuildVP8FrameHeader_def Let_def)

text \<open>
  One appended slice without a reservation: an append may fail and then marks its buffer, so
  the result is complete as soon as no buffer is marked.
\<close>

lemma append_any:
  assumes "ab_wf b" "alloc_block mem" "unat n \<le> length bytes"
  shows "ab_wf (snd (appendBuffer mem b (Some bytes) n)) \<and>
    (\<not> ab_failed (snd (appendBuffer mem b (Some bytes) n)) \<longrightarrow>
      \<not> ab_failed b \<and> ab_bytes (snd (appendBuffer mem b (Some bytes) n)) = ab_bytes b @ take (unat n) bytes)"
proof -
  obtain r b' where run: "appendBuffer mem b (Some bytes) n = (r, b')"
    by (cases "appendBuffer mem b (Some bytes) n")
  show ?thesis
  proof (cases r)
    case True
    with run have "appendBuffer mem b (Some bytes) n = (True, b')" by simp
    from appendBuffer_ok [OF assms this] run show ?thesis by simp
  next
    case False
    with run have "appendBuffer mem b (Some bytes) n = (False, b')" by simp
    from appendBuffer_fail [OF this] run assms(1) show ?thesis by simp
  qed
qed

lemma append_slice_any:
  assumes ok: "buf_ok buf" "slice_in buf s" "alloc_block mem" "length prefix < 2 ^ 64" "prefix \<noteq> []"
    and wf: "ab_wf (cx_sliceOffsets ctx)" "ab_wf (cx_bitstreamBuffer ctx)"
    and c: "c = append_slice mem prefix buf ctx s"
  shows "ab_wf (cx_sliceOffsets c) \<and> ab_wf (cx_bitstreamBuffer c) \<and>
    cx_inputValidationFailed c = cx_inputValidationFailed ctx \<and>
    (\<not> ab_failed (cx_bitstreamBuffer c) \<longrightarrow> \<not> ab_failed (cx_bitstreamBuffer ctx) \<and>
      ab_bytes (cx_bitstreamBuffer c) = ab_bytes (cx_bitstreamBuffer ctx) @ slice_bytes prefix buf s) \<and>
    (\<not> ab_failed (cx_sliceOffsets c) \<longrightarrow> \<not> ab_failed (cx_sliceOffsets ctx) \<and>
      ab_bytes (cx_sliceOffsets c) = ab_bytes (cx_sliceOffsets ctx) @
        le32 (of_nat (length (ab_bytes (cx_bitstreamBuffer ctx)))))"
proof -
  let ?b = "cx_bitstreamBuffer ctx" and ?o = "cx_sliceOffsets ctx"
  let ?off = "le32 (u64_to_u32 (ab_size ?b))"
  have pl: "unat (of_nat (length prefix) :: usize) = length prefix"
    using ok(4) by (simp add: unat_of_nat take_bit_nat_eq_self)
  obtain bytes where bytes: "nb_ptr buf = Some bytes" "length bytes = unat (nb_size buf)"
    using ok(1,2) by (auto simp: slice_in_def buf_ok_def)
  let ?d = "drop (unat (slice_data_offset s)) bytes"
  let ?o' = "snd (appendBuffer mem ?o (Some ?off) 4)"
  let ?b1 = "snd (appendBuffer mem ?b (Some prefix) (of_nat (length prefix)))"
  let ?b2 = "snd (appendBuffer mem ?b1 (Some ?d) (u32_to_u64 (slice_data_size s)))"
  have C: "c = ctx\<lparr>cx_sliceOffsets := ?o', cx_bitstreamBuffer := ?b2\<rparr>"
    using ok(5) by (simp add: c append_slice_def Let_def bytes(1))
  have O: "ab_wf ?o' \<and> (\<not> ab_failed ?o' \<longrightarrow> \<not> ab_failed ?o \<and> ab_bytes ?o' = ab_bytes ?o @ ?off)"
    using append_any [OF wf(1) ok(3), of 4 ?off] by (simp add: le32_def)
  have B1: "ab_wf ?b1 \<and> (\<not> ab_failed ?b1 \<longrightarrow> \<not> ab_failed ?b \<and> ab_bytes ?b1 = ab_bytes ?b @ prefix)"
    using append_any [OF wf(2) ok(3), of "of_nat (length prefix)" prefix] pl by simp
  have "unat (slice_data_size s) \<le> length ?d"
    using ok(2) bytes(2) by (simp add: slice_in_def) linarith
  then have B2: "ab_wf ?b2 \<and> (\<not> ab_failed ?b2 \<longrightarrow> \<not> ab_failed ?b1 \<and>
      ab_bytes ?b2 = ab_bytes ?b1 @ take (unat (slice_data_size s)) ?d)"
    using append_any [OF conjunct1 [OF B1] ok(3), of "u32_to_u64 (slice_data_size s)" ?d] by simp
  have len: "u64_to_u32 (ab_size ?b) = of_nat (length (ab_bytes ?b))"
    using wf(2) by simp
  show ?thesis unfolding C using O B1 B2 len bytes(1) by (simp add: slice_bytes_def)
qed

definition vp8_failed :: "codec_ctx \<Rightarrow> bool" where
  "vp8_failed c \<longleftrightarrow> cx_inputValidationFailed c \<or> ab_failed (cx_bitstreamBuffer c) \<or> ab_failed (cx_sliceOffsets c)"

lemma copyVP8Slices_result:
  assumes ok: "buf_ok buf" "alloc_block mem"
  shows "copyVP8Slices mem buf pp ss ctx = (r, ctx') \<Longrightarrow>
    ab_wf (cx_sliceOffsets ctx) \<Longrightarrow> ab_wf (cx_bitstreamBuffer ctx) \<Longrightarrow>
    ab_wf (cx_sliceOffsets ctx') \<and> ab_wf (cx_bitstreamBuffer ctx') \<and>
    (vp8_failed ctx' \<or>
      r \<and> \<not> vp8_failed ctx \<and> (ss \<noteq> [] \<longrightarrow> vp8_header_of pp \<noteq> []) \<and> (\<forall>s \<in> set ss. slice_in buf s) \<and>
      ab_bytes (cx_bitstreamBuffer ctx') =
        ab_bytes (cx_bitstreamBuffer ctx) @ concat (map (slice_bytes (vp8_header_of pp) buf) ss) \<and>
      ab_bytes (cx_sliceOffsets ctx') = ab_bytes (cx_sliceOffsets ctx) @
        concat (map (\<lambda>p. le32 (of_nat p))
          (slice_starts (length (ab_bytes (cx_bitstreamBuffer ctx))) (length (vp8_header_of pp)) ss)))"
proof (induction ss arbitrary: ctx)
  case Nil
  then show ?case by auto
next
  case (Cons s ss)
  let ?h = "vp8_header_of pp" and ?n = "u32_to_u64 (slice_data_size s)"
  obtain d v c where val: "nvValidateSliceRange (Some ctx) (Some buf) (slice_data_offset s) ?n = (d, v, c)"
    by (cases "nvValidateSliceRange (Some ctx) (Some buf) (slice_data_offset s) ?n")
  consider (bad) "\<not> v" | (rej) "v" "of_nat (length ?h) = (0 :: usize) \<or>
      ?n > u32_to_u64 UINT32_MAX - of_nat (length ?h) \<or>
      \<not> fst (nvCanAppendCuvidBitstream (Some ctx) (of_nat (length ?h) + ?n))"
    | (go) "v" "\<not> (of_nat (length ?h) = (0 :: usize) \<or>
      ?n > u32_to_u64 UINT32_MAX - of_nat (length ?h) \<or>
      \<not> fst (nvCanAppendCuvidBitstream (Some ctx) (of_nat (length ?h) + ?n)))" by blast
  then show ?case
  proof cases
    case bad
    then have "c = Some (fail_input ctx)" using val validate_fail(1) [of ctx buf _ ?n d c] by simp
    with bad val Cons.prems show ?thesis by (auto simp: copyVP8Slice_def vp8_failed_def)
  next
    case rej
    then have "copyVP8Slice mem buf pp s ctx = (False, fail_input ctx)"
      using val by (simp add: copyVP8Slice_def Let_def)
    with Cons.prems show ?thesis by (auto simp: vp8_failed_def)
  next
    case go
    let ?c = "append_slice mem ?h buf ctx s"
    have step: "copyVP8Slice mem buf pp s ctx = (True, ?c)"
      using val go by (simp add: copyVP8Slice_def Let_def)
    have ne: "?h \<noteq> []" using go(2) by auto
    have inn: "slice_in buf s" using val go(1) validate_ok by (auto simp: slice_in_def)
    note A = append_slice_any [OF ok(1) inn ok(2) vp8_header_length ne Cons.prems(2,3) refl]
    have "copyVP8Slices mem buf pp ss ?c = (r, ctx')" using Cons.prems(1) step by simp
    from Cons.IH [OF this] A
    have IH: "ab_wf (cx_sliceOffsets ctx')" "ab_wf (cx_bitstreamBuffer ctx')"
      "vp8_failed ctx' \<or> r \<and> \<not> vp8_failed ?c \<and> (\<forall>s \<in> set ss. slice_in buf s) \<and>
        ab_bytes (cx_bitstreamBuffer ctx') = ab_bytes (cx_bitstreamBuffer ?c) @ concat (map (slice_bytes ?h buf) ss) \<and>
        ab_bytes (cx_sliceOffsets ctx') = ab_bytes (cx_sliceOffsets ?c) @
          concat (map (\<lambda>p. le32 (of_nat p))
            (slice_starts (length (ab_bytes (cx_bitstreamBuffer ?c))) (length ?h) ss))"
      by blast+
    show ?thesis
    proof (cases "vp8_failed ctx'")
      case True
      with IH(1,2) show ?thesis by blast
    next
      case False
      with IH(3) have N: "\<not> vp8_failed ?c" by blast
      then have B: "ab_bytes (cx_bitstreamBuffer ?c) = ab_bytes (cx_bitstreamBuffer ctx) @ slice_bytes ?h buf s"
        "ab_bytes (cx_sliceOffsets ?c) = ab_bytes (cx_sliceOffsets ctx) @
          le32 (of_nat (length (ab_bytes (cx_bitstreamBuffer ctx))))" "\<not> vp8_failed ctx"
        using A by (auto simp: vp8_failed_def)
      have L: "length (ab_bytes (cx_bitstreamBuffer ?c)) =
          length (ab_bytes (cx_bitstreamBuffer ctx)) + length ?h + unat (slice_data_size s)"
        unfolding B(1) using length_slice_bytes [OF ok(1) inn] by simp
      have "\<forall>s \<in> set (s # ss). slice_in buf s" using IH(3) False inn by simp
      moreover have "ab_bytes (cx_bitstreamBuffer ctx') =
          ab_bytes (cx_bitstreamBuffer ctx) @ concat (map (slice_bytes ?h buf) (s # ss))"
        using IH(3) False B(1) by simp
      moreover have "ab_bytes (cx_sliceOffsets ctx') = ab_bytes (cx_sliceOffsets ctx) @
          concat (map (\<lambda>p. le32 (of_nat p))
            (slice_starts (length (ab_bytes (cx_bitstreamBuffer ctx))) (length ?h) (s # ss)))"
        using IH(3) False B(2) L by simp
      ultimately show ?thesis using IH False ne B(3) by blast
    qed
  qed
qed

text \<open>C29. A VP8 picture after the slice data handler either carries a failure flag, so that it is
  never submitted, or its bitstream grew by every slice with a frame header in front, the
  offsets name the starts of the headers, every slice lies inside the client's buffer, and the
  committed length is the length of the bitstream.\<close>

theorem vp8_slices_rebuilt:
  assumes run: "copyVP8SliceData mem ctx buf pp = (ctx', pp')"
    and ok: "buf_ok buf" "alloc_block mem"
    and wf: "ab_wf (cx_sliceOffsets ctx)" "ab_wf (cx_bitstreamBuffer ctx)"
    and ss: "ss = take (unat (cx_lastSliceParamsCount ctx)) (cx_lastSliceParams ctx)"
  shows "vp8_failed ctx' \<or>
    \<not> vp8_failed ctx \<and> (\<forall>s \<in> set ss. slice_in buf s) \<and> vp8_header_of pp' = vp8_header_of pp \<and>
    ab_bytes (cx_bitstreamBuffer ctx') =
      ab_bytes (cx_bitstreamBuffer ctx) @ concat (map (slice_bytes (vp8_header_of pp) buf) ss) \<and>
    ab_bytes (cx_sliceOffsets ctx') = ab_bytes (cx_sliceOffsets ctx) @
      concat (map (\<lambda>p. le32 (of_nat p))
        (slice_starts (length (ab_bytes (cx_bitstreamBuffer ctx))) (length (vp8_header_of pp)) ss)) \<and>
    unat (pp_nBitstreamDataLen pp') = length (ab_bytes (cx_bitstreamBuffer ctx'))"
proof -
  obtain r c where loop: "copyVP8Slices mem buf pp ss ctx = (r, c)"
    by (cases "copyVP8Slices mem buf pp ss ctx")
  note L = copyVP8Slices_result [OF ok loop wf]
  show ?thesis
  proof (cases r)
    case False
    with loop run have "ctx' = c" by (simp add: copyVP8SliceData_def ss [symmetric])
    with L False show ?thesis by blast
  next
    case True
    show ?thesis
    proof (cases "ab_size (cx_bitstreamBuffer c) > u32_to_u64 UINT32_MAX")
      case big: True
      with run loop True have "ctx' = fail_input c"
        by (simp add: copyVP8SliceData_def ss [symmetric] nvCommitCuvidBitstreamLength_def)
      then show ?thesis by (simp add: vp8_failed_def)
    next
      case False
      have e: "ctx' = c" "pp' = pp\<lparr>pp_nBitstreamDataLen := u64_to_u32 (ab_size (cx_bitstreamBuffer c))\<rparr>"
        using run loop True False
        by (auto simp: copyVP8SliceData_def ss [symmetric] nvCommitCuvidBitstreamLength_def)
      have "unat (ab_size (cx_bitstreamBuffer c)) \<le> 4294967295"
        using False by (simp add: word_less_nat_alt)
      then have "unat (pp_nBitstreamDataLen pp') = length (ab_bytes (cx_bitstreamBuffer ctx'))"
        using L by (simp add: e unat_u64_to_u32)
      moreover have "vp8_header_of pp' = vp8_header_of pp" by (simp add: e vp8_header_of_def)
      ultimately show ?thesis using L e(1) by blast
    qed
  qed
qed

definition sample_vp8 :: "CUVIDVP8PICPARAMS CUVIDPICPARAMS" where
  "sample_vp8 = \<lparr>pp_PicWidthInMbs = 1, pp_FrameHeightInMbs = 1, pp_CurrPicIdx = 0, pp_field_pic_flag = 0,
     pp_bottom_field_flag = 0, pp_second_field = 0, pp_nBitstreamDataLen = 0, pp_nNumSlices = 2,
     pp_ref_pic_flag = 0, pp_intra_pic_flag = 0,
     pp_codec = \<lparr>c8_width = 16, c8_height = 16, c8_first_partition_size = 0, c8_LastRefIdx = 0,
       c8_GoldenRefIdx = 0, c8_AltRefIdx = 0, c8_frame_type = 1, c8_version = 0, c8_show_frame = 1,
       c8_update_mb_segmentation_data = 0\<rparr>\<rparr>"

lemma sample_vp8_header: "vp8_header_of sample_vp8 = [17, 0, 0]"
  by (simp add: vp8_header_of_def sample_vp8_def nvBuildVP8FrameHeader_def vp8_frame_tag_def b2u32_def
      Let_def)

lemma vp8_slices_rebuilt_witness:
  "ab_bytes (cx_bitstreamBuffer (fst (copyVP8SliceData (\<lambda>_. None) sample_ctx sample_slice_buffer sample_vp8)))
     = [17, 0, 0, 0x65, 17, 0, 0, 0x41, 0x42]"
proof -
  let ?r = "copyVP8SliceData (\<lambda>_. None) sample_ctx sample_slice_buffer sample_vp8"
  have run: "?r = (fst ?r, snd ?r)" by simp
  have b: "buf_ok sample_slice_buffer" by (simp add: buf_ok_def sample_slice_buffer_def)
  have m: "alloc_block (\<lambda>_. None)" by (simp add: alloc_block_def)
  have w: "ab_wf (cx_sliceOffsets sample_ctx)" "ab_wf (cx_bitstreamBuffer sample_ctx)"
    by (simp_all add: ab_wf_def sample_ctx_def ab_cells_def)
  have "\<not> vp8_failed (fst ?r)"
    by (simp add: vp8_failed_def copyVP8SliceData_def copyVP8Slices.simps copyVP8Slice_def sample_vp8_header
        nvValidateSliceRange_def sample_ctx_def sample_slice_buffer_def nvCanAppendCuvidBitstream_def
        append_slice_def appendBuffer_def reserveBuffer_def le32_def nvCommitCuvidBitstreamLength_def Let_def)
  with vp8_slices_rebuilt [OF run b m w refl] show ?thesis
    by (simp add: sample_vp8_header slice_bytes_def sample_ctx_def sample_slice_buffer_def ab_bytes_def)
qed

end
