(* ===== verification/CodecVp9.thy ===== *)
theory CodecVp9
  imports CodecOthers Color
begin

text \<open>
  The VP9 and MPEG-4 handlers (\<open>src/vp9.c\<close>, \<open>src/mpeg4.c\<close>; the latter is declared as a
  disabled codec, and its picture parameters, which take a logarithm of the floating-point
  library, are left out).

  GStreamer's VP9 parser is a parameter: \<open>gp_new\<close> is the result of creating one,
  \<open>gp_parse\<close> its step on the bytes of a frame, with the frame header on success.
\<close>

section \<open>VP9\<close>

record VADecPictureParameterBufferVP9 =
  p9_frame_width :: u16
  p9_frame_height :: u16
  p9_reference_frames :: "u32 list"
  p9_last_ref_frame :: nat
  p9_golden_ref_frame :: nat
  p9_alt_ref_frame :: nat
  p9_last_ref_frame_sign_bias :: int
  p9_golden_ref_frame_sign_bias :: int
  p9_alt_ref_frame_sign_bias :: int
  p9_profile :: int
  p9_bit_depth :: int
  p9_frame_context_idx :: int
  p9_frame_type :: int
  p9_show_frame :: int
  p9_error_resilient_mode :: int
  p9_frame_parallel_decoding_mode :: int
  p9_subsampling_x :: int
  p9_subsampling_y :: int
  p9_intra_only :: int
  p9_allow_high_precision_mv :: int
  p9_refresh_frame_context :: int
  p9_filter_level :: int
  p9_sharpness_level :: int
  p9_log2_tile_columns :: int
  p9_log2_tile_rows :: int
  p9_segmentation_enabled :: int
  p9_segmentation_update_map :: int
  p9_segmentation_temporal_update :: int
  p9_reset_frame_context :: int
  p9_mcomp_filter_type :: int
  p9_frame_header_length_in_bytes :: int
  p9_first_partition_size :: int
  p9_mb_segment_tree_probs :: "u8 list"
  p9_segment_pred_probs :: "u8 list"

datatype GstVp9ColorSpace =
    GST_VP9_CS_UNKNOWN | GST_VP9_CS_BT_601 | GST_VP9_CS_BT_709 | GST_VP9_CS_SMPTE_170
  | GST_VP9_CS_SMPTE_240 | GST_VP9_CS_BT_2020 | GST_VP9_CS_RESERVED_2 | GST_VP9_CS_SRGB

record CUVIDVP9PICPARAMS =
  c9_width :: u16
  c9_height :: u16
  c9_LastRefIdx :: int
  c9_GoldenRefIdx :: int
  c9_AltRefIdx :: int
  c9_profile :: int
  c9_frameContextIdx :: int
  c9_frameType :: int
  c9_showFrame :: int
  c9_errorResilient :: int
  c9_frameParallelDecoding :: int
  c9_subSamplingX :: int
  c9_subSamplingY :: int
  c9_intraOnly :: int
  c9_allow_high_precision_mv :: int
  c9_refreshEntropyProbs :: int
  c9_bitDepthMinus8Luma :: int
  c9_bitDepthMinus8Chroma :: int
  c9_loopFilterLevel :: int
  c9_loopFilterSharpness :: int
  c9_log2_tile_columns :: int
  c9_log2_tile_rows :: int
  c9_segmentEnabled :: int
  c9_segmentMapUpdate :: int
  c9_segmentMapTemporalUpdate :: int
  c9_resetFrameContext :: int
  c9_mcomp_filter_type :: int
  c9_frameTagSize :: int
  c9_offsetToDctParts :: int
  c9_mb_segment_tree_probs :: "u8 list"
  c9_activeRefIdx :: "nat list"
  c9_refFrameSignBias :: "int list"
  c9_segment_pred_probs :: "u8 list"
  c9_segmentFeatureEnable :: "int list list"
  c9_segmentFeatureData :: "int list list"
  c9_segmentFeatureMode :: int
  c9_modeRefLfEnabled :: int
  c9_mbModeLfDelta :: "int list"
  c9_mbRefLfDelta :: "int list"
  c9_qpYAc :: int
  c9_qpYDc :: int
  c9_qpChDc :: int
  c9_qpChAc :: int
  c9_colorSpace :: GstVp9ColorSpace

text \<open>
  The reference selectors are three-bit fields that index the eight reference frames. The
  loops over seven and three probabilities overwrite those entries.
\<close>

definition copyVP9PicParam ::
    "'s index_lookup \<Rightarrow> 's \<Rightarrow> VADecPictureParameterBufferVP9 \<Rightarrow> CUVIDVP9PICPARAMS CUVIDPICPARAMS \<Rightarrow>
     's \<times> CUVIDVP9PICPARAMS CUVIDPICPARAMS" where
  "copyVP9PicParam lookup s buf pp =
     (let c = pp_codec pp
      in case lookup (p9_reference_frames buf ! p9_last_ref_frame buf) s of (last_idx, s1) \<Rightarrow>
         case lookup (p9_reference_frames buf ! p9_golden_ref_frame buf) s1 of (golden, s2) \<Rightarrow>
         case lookup (p9_reference_frames buf ! p9_alt_ref_frame buf) s2 of (alt, s3) \<Rightarrow>
           (s3, pp\<lparr>pp_PicWidthInMbs := (uint (p9_frame_width buf) + 15) div 16,
                   pp_FrameHeightInMbs := (uint (p9_frame_height buf) + 15) div 16,
                   pp_codec := c
                     \<lparr>c9_width := p9_frame_width buf,
                      c9_height := p9_frame_height buf,
                      c9_LastRefIdx := last_idx,
                      c9_GoldenRefIdx := golden,
                      c9_AltRefIdx := alt,
                      c9_profile := p9_profile buf,
                      c9_frameContextIdx := p9_frame_context_idx buf,
                      c9_frameType := p9_frame_type buf,
                      c9_showFrame := p9_show_frame buf,
                      c9_errorResilient := p9_error_resilient_mode buf,
                      c9_frameParallelDecoding := p9_frame_parallel_decoding_mode buf,
                      c9_subSamplingX := p9_subsampling_x buf,
                      c9_subSamplingY := p9_subsampling_y buf,
                      c9_intraOnly := p9_intra_only buf,
                      c9_allow_high_precision_mv := p9_allow_high_precision_mv buf,
                      c9_refreshEntropyProbs := p9_refresh_frame_context buf,
                      c9_bitDepthMinus8Luma := p9_bit_depth buf - 8,
                      c9_bitDepthMinus8Chroma := p9_bit_depth buf - 8,
                      c9_loopFilterLevel := p9_filter_level buf,
                      c9_loopFilterSharpness := p9_sharpness_level buf,
                      c9_log2_tile_columns := p9_log2_tile_columns buf,
                      c9_log2_tile_rows := p9_log2_tile_rows buf,
                      c9_segmentEnabled := p9_segmentation_enabled buf,
                      c9_segmentMapUpdate := p9_segmentation_update_map buf,
                      c9_segmentMapTemporalUpdate := p9_segmentation_temporal_update buf,
                      c9_resetFrameContext := p9_reset_frame_context buf,
                      c9_mcomp_filter_type := p9_mcomp_filter_type buf,
                      c9_frameTagSize := p9_frame_header_length_in_bytes buf,
                      c9_offsetToDctParts := p9_first_partition_size buf,
                      c9_mb_segment_tree_probs := take 7 (p9_mb_segment_tree_probs buf) @ drop 7 (c9_mb_segment_tree_probs c),
                      c9_activeRefIdx :=
                        [p9_last_ref_frame buf, p9_golden_ref_frame buf, p9_alt_ref_frame buf] @
                        drop 3 (c9_activeRefIdx c),
                      c9_refFrameSignBias := (c9_refFrameSignBias c)
                        [1 := p9_last_ref_frame_sign_bias buf, 2 := p9_golden_ref_frame_sign_bias buf,
                         3 := p9_alt_ref_frame_sign_bias buf],
                      c9_segment_pred_probs := take 3 (p9_segment_pred_probs buf) @ drop 3 (c9_segment_pred_probs c)\<rparr>\<rparr>))"

definition vp9ColorStandard :: "GstVp9ColorSpace \<Rightarrow> VAProcColorStandardType" where
  "vp9ColorStandard colorSpace =
     (case colorSpace of
        GST_VP9_CS_BT_601 \<Rightarrow> VAProcColorStandardBT601
      | GST_VP9_CS_BT_709 \<Rightarrow> VAProcColorStandardBT709
      | GST_VP9_CS_SMPTE_170 \<Rightarrow> VAProcColorStandardSMPTE170M
      | GST_VP9_CS_SMPTE_240 \<Rightarrow> VAProcColorStandardSMPTE240M
      | GST_VP9_CS_BT_2020 \<Rightarrow> VAProcColorStandardBT2020
      | _ \<Rightarrow> VAProcColorStandardNone)"

record GstVp9SegmentationData =
  gs_alternate_quantizer_enabled :: int
  gs_alternate_loop_filter_enabled :: int
  gs_reference_frame_enabled :: int
  gs_reference_skip :: int
  gs_alternate_quantizer :: int
  gs_alternate_loop_filter :: int
  gs_reference_frame :: int

record GstVp9FrameHdr =
  gh_segmentation :: "GstVp9SegmentationData list"
  gh_abs_delta :: int
  gh_mode_ref_delta_enabled :: int
  gh_mode_deltas :: "int list"
  gh_ref_deltas :: "int list"
  gh_y_ac_qi :: int
  gh_y_dc_delta :: int
  gh_uv_dc_delta :: int
  gh_uv_ac_delta :: int

text \<open>
  \<open>codecData\<close> of the context: absent, or the VP9 context with its parser when it has one.
  The parser's state \<open>'p\<close> gives the colour space and the range after a frame.
\<close>

record 'p VP9Context =
  v9_parser :: "'p option"

definition vp9_alloc_failed :: "codec_ctx \<Rightarrow> codec_ctx" where
  "vp9_alloc_failed ctx =
     ctx\<lparr>cx_bitstreamBuffer := (cx_bitstreamBuffer ctx)\<lparr>ab_failed := True\<rparr>\<rparr>"

definition getVP9Context ::
    "bool \<Rightarrow> 'p option \<Rightarrow> codec_ctx \<Rightarrow> 'p VP9Context option \<Rightarrow>
     'p option \<times> codec_ctx \<times> 'p VP9Context option" where
  "getVP9Context calloc_ok gst_new ctx codecData =
     (let data = (if codecData = None \<and> calloc_ok then Some \<lparr>v9_parser = None\<rparr> else codecData)
      in case data of
           None \<Rightarrow> (None, vp9_alloc_failed ctx, None)
         | Some d \<Rightarrow>
             (case v9_parser d of
                Some p \<Rightarrow> (Some p, ctx, Some d)
              | None \<Rightarrow>
                  (case gst_new of
                     None \<Rightarrow> (None, vp9_alloc_failed ctx, Some d)
                   | Some p \<Rightarrow> (Some p, ctx, Some (d\<lparr>v9_parser := Some p\<rparr>)))))"

definition vp9_header_params :: "GstVp9FrameHdr \<Rightarrow> GstVp9ColorSpace \<Rightarrow> CUVIDVP9PICPARAMS \<Rightarrow> CUVIDVP9PICPARAMS" where
  "vp9_header_params hdr colorSpace c =
     c\<lparr>c9_segmentFeatureEnable := map (\<lambda>d. [gs_alternate_quantizer_enabled d,
            gs_alternate_loop_filter_enabled d, gs_reference_frame_enabled d, gs_reference_skip d])
            (take 8 (gh_segmentation hdr)),
       c9_segmentFeatureData := map (\<lambda>d. [gs_alternate_quantizer d, gs_alternate_loop_filter d,
            gs_reference_frame d, 0]) (take 8 (gh_segmentation hdr)),
       c9_segmentFeatureMode := gh_abs_delta hdr,
       c9_modeRefLfEnabled := gh_mode_ref_delta_enabled hdr,
       c9_mbModeLfDelta := take 2 (gh_mode_deltas hdr),
       c9_mbRefLfDelta := take 4 (gh_ref_deltas hdr),
       c9_qpYAc := gh_y_ac_qi hdr, c9_qpYDc := gh_y_dc_delta hdr,
       c9_qpChDc := gh_uv_dc_delta hdr, c9_qpChAc := gh_uv_ac_delta hdr,
       c9_colorSpace := colorSpace\<rparr>"

record 'p gst_parser =
  gp_calloc_ok :: bool
  gp_new :: "'p option"
  gp_parse :: "'p \<Rightarrow> u8 list \<Rightarrow> 'p \<times> GstVp9FrameHdr option"
  gp_color_space :: "'p \<Rightarrow> GstVp9ColorSpace"
  gp_full_range :: "'p \<Rightarrow> bool"

text \<open>The result adds the colour metadata of the render target.\<close>

definition parseExtraInfo ::
    "'p gst_parser \<Rightarrow> 'p VP9Context option \<Rightarrow> codec_ctx \<Rightarrow> u8 list \<Rightarrow> color_meta option \<Rightarrow>
     CUVIDVP9PICPARAMS CUVIDPICPARAMS \<Rightarrow>
     'p VP9Context option \<times> codec_ctx \<times> color_meta option \<times> CUVIDVP9PICPARAMS CUVIDPICPARAMS" where
  "parseExtraInfo gst codecData ctx bytes target pp =
     (case getVP9Context (gp_calloc_ok gst) (gp_new gst) ctx codecData of
        (None, ctx1, data) \<Rightarrow> (data, fail_input ctx1, target, pp)
      | (Some parser, ctx1, data) \<Rightarrow>
          (case gp_parse gst parser bytes of
             (parser', None) \<Rightarrow> (Some \<lparr>v9_parser = Some parser'\<rparr>, fail_input ctx1, target, pp)
           | (parser', Some hdr) \<Rightarrow>
               (Some \<lparr>v9_parser = Some parser'\<rparr>, ctx1,
                nvSurfaceSetColorMetadata target (vp9ColorStandard (gp_color_space gst parser'))
                  (gp_full_range gst parser'),
                pp\<lparr>pp_codec := vp9_header_params hdr (gp_color_space gst parser') (pp_codec pp)\<rparr>)))"

definition destroyVP9Context :: "'p VP9Context option \<Rightarrow> 'p VP9Context option" where
  "destroyVP9Context codecData = map_option (\<lambda>d. d\<lparr>v9_parser := None\<rparr>) codecData"

definition copyVP9SliceParam ::
    "codec_ctx \<Rightarrow> slice_range list \<Rightarrow> u32 \<Rightarrow> 'c CUVIDPICPARAMS \<Rightarrow> codec_ctx \<times> 'c CUVIDPICPARAMS" where
  "copyVP9SliceParam ctx ranges elements pp = copySliceParam ctx ranges elements pp"

text \<open>
  The slices are appended as for the other codecs; the header parser runs on the appended
  bytes unless the handler returned early, which \<open>copySliceData_ok\<close> tells.
\<close>

definition copySliceData_ok :: "allocator \<Rightarrow> codec_ctx \<Rightarrow> NVBuffer \<Rightarrow> bool" where
  "copySliceData_ok mem ctx buf =
     (case sum_slices 0 ctx buf (take (unat (cx_lastSliceParamsCount ctx)) (cx_lastSliceParams ctx)) 0 of
        (None, _) \<Rightarrow> False
      | (Some bytes, _) \<Rightarrow>
          fst (nvCanAppendCuvidBitstream (Some ctx) bytes) \<and>
          fst (reserveBufferElements mem (cx_sliceOffsets ctx) (u32_to_u64 (cx_lastSliceParamsCount ctx)) 4) \<and>
          fst (reserveAdditionalBuffer mem (cx_bitstreamBuffer ctx) bytes))"

definition copyVP9SliceData ::
    "allocator \<Rightarrow> 'p gst_parser \<Rightarrow> 'p VP9Context option \<Rightarrow> codec_ctx \<Rightarrow> NVBuffer \<Rightarrow> color_meta option \<Rightarrow>
     CUVIDVP9PICPARAMS CUVIDPICPARAMS \<Rightarrow>
     'p VP9Context option \<times> codec_ctx \<times> color_meta option \<times> CUVIDVP9PICPARAMS CUVIDPICPARAMS" where
  "copyVP9SliceData mem gst codecData ctx buf target pp =
     (let slices = take (unat (cx_lastSliceParamsCount ctx)) (cx_lastSliceParams ctx);
          frameBytes = sum_list (map (\<lambda>s. u32_to_u64 (slice_data_size s)) slices)
      in case copySliceData mem [] ctx buf pp of
           (ctx1, pp1) \<Rightarrow>
             if copySliceData_ok mem ctx buf \<and> frameBytes \<le> u32_to_u64 UINT32_MAX
             then parseExtraInfo gst codecData ctx1
                    (take (unat frameBytes)
                      (drop (unat (ab_size (cx_bitstreamBuffer ctx))) (ab_cells (cx_bitstreamBuffer ctx1))))
                    target pp1
             else (codecData, ctx1, target, pp1))"

definition computeVP9CudaCodec :: "VAProfile \<Rightarrow> cudaVideoCodec" where
  "computeVP9CudaCodec profile =
     (case profile of
        VAProfileVP9Profile0 \<Rightarrow> cudaVideoCodec_VP9
      | VAProfileVP9Profile1 \<Rightarrow> cudaVideoCodec_VP9
      | VAProfileVP9Profile2 \<Rightarrow> cudaVideoCodec_VP9
      | VAProfileVP9Profile3 \<Rightarrow> cudaVideoCodec_VP9
      | _ \<Rightarrow> cudaVideoCodec_NONE)"

definition vp9SupportedProfiles :: "VAProfile list" where
  "vp9SupportedProfiles =
     [VAProfileVP9Profile0, VAProfileVP9Profile1, VAProfileVP9Profile2, VAProfileVP9Profile3]"

section \<open>MPEG-4\<close>

record CUVIDMPEG4PICPARAMS =
  cm4_QuantMatrixIntra :: "u8 list"
  cm4_QuantMatrixInter :: "u8 list"

definition copyMPEG4SliceParam ::
    "codec_ctx \<Rightarrow> slice_range list \<Rightarrow> u32 \<Rightarrow> 'c CUVIDPICPARAMS \<Rightarrow> codec_ctx \<times> 'c CUVIDPICPARAMS" where
  "copyMPEG4SliceParam ctx ranges elements pp = copySliceParam ctx ranges elements pp"

definition copyMPEG4SliceData ::
    "allocator \<Rightarrow> codec_ctx \<Rightarrow> NVBuffer \<Rightarrow> 'c CUVIDPICPARAMS \<Rightarrow> codec_ctx \<times> 'c CUVIDPICPARAMS" where
  "copyMPEG4SliceData mem ctx buf pp = copySliceData mem [] ctx buf pp"

definition copyMPEG4IQMatrix ::
    "u8 list \<Rightarrow> u8 list \<Rightarrow> CUVIDMPEG4PICPARAMS CUVIDPICPARAMS \<Rightarrow> CUVIDMPEG4PICPARAMS CUVIDPICPARAMS" where
  "copyMPEG4IQMatrix intra_quant_mat non_intra_quant_mat pp =
     pp\<lparr>pp_codec := (pp_codec pp)\<lparr>cm4_QuantMatrixIntra := take 64 intra_quant_mat,
                                   cm4_QuantMatrixInter := take 64 non_intra_quant_mat\<rparr>\<rparr>"

definition computeMPEG4CudaCodec :: "VAProfile \<Rightarrow> cudaVideoCodec" where
  "computeMPEG4CudaCodec profile =
     (case profile of
        VAProfileH263Baseline \<Rightarrow> cudaVideoCodec_MPEG4
      | VAProfileMPEG4Main \<Rightarrow> cudaVideoCodec_MPEG4
      | VAProfileMPEG4Simple \<Rightarrow> cudaVideoCodec_MPEG4
      | VAProfileMPEG4AdvancedSimple \<Rightarrow> cudaVideoCodec_MPEG4
      | _ \<Rightarrow> cudaVideoCodec_NONE)"

definition mpeg4SupportProfiles :: "VAProfile list" where
  "mpeg4SupportProfiles =
     [VAProfileH263Baseline, VAProfileMPEG4Main, VAProfileMPEG4Simple, VAProfileMPEG4AdvancedSimple]"

end
