(* ===== verification/Av1Intervals.thy ===== *)
theory Av1Intervals
  imports AppendBuffer "HOL-Library.Tree"
begin

text \<open>
  The index of tile byte ranges (\<open>src/av1-interval-index.c\<close>): an AVL tree of disjoint
  intervals in one growing array of nodes. A node identifier is its position plus one, zero
  is nil; the code keeps identifiers in 16 and heights in 8 bits, here they are naturals,
  and \<open>interval_index_insert\<close> shows that they stay in these ranges. \<open>ix_nodes\<close> is the
  array behind \<open>storage.buf\<close>; only its first \<open>count\<close> entries are in use.

  The recursion of the insertion and the search loop follow links in the array, so they
  take fuel and return \<open>None\<close> when it runs out; \<open>count + 1\<close> is enough, since the links
  form a tree of at most \<open>count\<close> nodes.
\<close>

section \<open>The index\<close>

record NVDIntervalNode =
  nd_start :: u32
  nd_end :: u32
  nd_left :: nat
  nd_right :: nat
  nd_height :: nat

record NVDIntervalIndex =
  ix_storage :: AppendableBuffer
  ix_nodes :: "NVDIntervalNode list"
  ix_maxEnd :: u32
  ix_root :: nat
  ix_count :: nat

definition NVD_INTERVAL_INDEX_CAPACITY :: nat where "NVD_INTERVAL_INDEX_CAPACITY = 4096"

definition sizeof_NVDIntervalNode :: usize where "sizeof_NVDIntervalNode = 16"

definition node_at :: "NVDIntervalNode list \<Rightarrow> nat \<Rightarrow> NVDIntervalNode" where
  "node_at ns k = ns ! (k - 1)"

definition set_node :: "NVDIntervalNode list \<Rightarrow> nat \<Rightarrow> NVDIntervalNode \<Rightarrow> NVDIntervalNode list" where
  "set_node ns k n = ns[k - 1 := n]"

definition node_height :: "NVDIntervalNode list \<Rightarrow> nat \<Rightarrow> nat" where
  "node_height ns k = (if k \<noteq> 0 then nd_height (node_at ns k) else 0)"

definition updateHeight :: "NVDIntervalNode list \<Rightarrow> nat \<Rightarrow> NVDIntervalNode list" where
  "updateHeight ns k =
     (let n = node_at ns k; l = node_height ns (nd_left n); r = node_height ns (nd_right n)
      in set_node ns k (n\<lparr>nd_height := 1 + (if l > r then l else r)\<rparr>))"

definition set_left :: "NVDIntervalNode list \<Rightarrow> nat \<Rightarrow> nat \<Rightarrow> NVDIntervalNode list" where
  "set_left ns k l = set_node ns k ((node_at ns k)\<lparr>nd_left := l\<rparr>)"

definition set_right :: "NVDIntervalNode list \<Rightarrow> nat \<Rightarrow> nat \<Rightarrow> NVDIntervalNode list" where
  "set_right ns k r = set_node ns k ((node_at ns k)\<lparr>nd_right := r\<rparr>)"

definition rotateLeft :: "NVDIntervalNode list \<Rightarrow> nat \<Rightarrow> NVDIntervalNode list \<times> nat" where
  "rotateLeft ns root =
     (let nxt = nd_right (node_at ns root);
          ns1 = set_right ns root (nd_left (node_at ns nxt));
          ns2 = set_left ns1 nxt root
      in (updateHeight (updateHeight ns2 root) nxt, nxt))"

definition rotateRight :: "NVDIntervalNode list \<Rightarrow> nat \<Rightarrow> NVDIntervalNode list \<times> nat" where
  "rotateRight ns root =
     (let nxt = nd_left (node_at ns root);
          ns1 = set_left ns root (nd_right (node_at ns nxt));
          ns2 = set_right ns1 nxt root
      in (updateHeight (updateHeight ns2 root) nxt, nxt))"

text \<open>The part of \<open>insert\<close> after the recursive call: height, balance and rotations.\<close>

definition rebalance :: "NVDIntervalNode list \<Rightarrow> nat \<Rightarrow> u32 \<Rightarrow> NVDIntervalNode list \<times> nat" where
  "rebalance ns0 root start =
     (let ns = updateHeight ns0 root;
          n = node_at ns root;
          balance = int (node_height ns (nd_left n)) - int (node_height ns (nd_right n))
      in if balance > 1 then
           (let ns1 = (if start > nd_start (node_at ns (nd_left n))
                       then (case rotateLeft ns (nd_left n) of (m, l) \<Rightarrow> set_left m root l) else ns)
            in rotateRight ns1 root)
         else if balance < -1 then
           (let ns1 = (if start < nd_start (node_at ns (nd_right n))
                       then (case rotateRight ns (nd_right n) of (m, r) \<Rightarrow> set_right m root r) else ns)
            in rotateLeft ns1 root)
         else (ns, root))"

fun insert_node :: "nat \<Rightarrow> NVDIntervalNode list \<Rightarrow> nat \<Rightarrow> nat \<Rightarrow> (NVDIntervalNode list \<times> nat) option" where
  "insert_node 0 ns root added = None"
| "insert_node (Suc fuel) ns root added =
     (if root = 0 then Some (ns, added)
      else
        let n = node_at ns root; start = nd_start (node_at ns added)
        in if start < nd_start n then
             (case insert_node fuel ns (nd_left n) added of
                None \<Rightarrow> None
              | Some (ns1, l) \<Rightarrow> Some (rebalance (set_left ns1 root l) root start))
           else
             (case insert_node fuel ns (nd_right n) added of
                None \<Rightarrow> None
              | Some (ns1, r) \<Rightarrow> Some (rebalance (set_right ns1 root r) root start)))"

text \<open>The search loop: does the range meet one of the tree?\<close>

fun meets_range :: "nat \<Rightarrow> NVDIntervalNode list \<Rightarrow> nat \<Rightarrow> u32 \<Rightarrow> u32 \<Rightarrow> bool option" where
  "meets_range 0 ns current start end' = None"
| "meets_range (Suc fuel) ns current start end' =
     (if current = 0 then Some False
      else
        let n = node_at ns current
        in if end' \<le> nd_start n then meets_range fuel ns (nd_left n) start end'
           else if start \<ge> nd_end n then meets_range fuel ns (nd_right n) start end'
           else Some True)"

definition nvdIntervalIndexInsert ::
    "allocator \<Rightarrow> NVDIntervalIndex \<Rightarrow> u32 \<Rightarrow> u32 \<Rightarrow> (bool \<times> NVDIntervalIndex) option" where
  "nvdIntervalIndexInsert mem index start end' =
     (if start \<ge> end' \<or> ix_count index \<ge> NVD_INTERVAL_INDEX_CAPACITY then Some (False, index)
      else
        case (if start < ix_maxEnd index
              then meets_range (Suc (ix_count index)) (ix_nodes index) (ix_root index) start end'
              else Some False) of
          None \<Rightarrow> None
        | Some True \<Rightarrow> Some (False, index)
        | Some False \<Rightarrow>
            let required = (of_nat (ix_count index) + 1) * sizeof_NVDIntervalNode
            in case reserveBuffer mem (ix_storage index) required of
                 (False, st) \<Rightarrow> Some (False, index\<lparr>ix_storage := st\<rparr>)
               | (True, st) \<Rightarrow>
                   let added = Suc (ix_count index);
                       ns = take (ix_count index) (ix_nodes index) @
                            [\<lparr>nd_start = start, nd_end = end', nd_left = 0, nd_right = 0, nd_height = 1\<rparr>]
                   in case insert_node (Suc (ix_count index)) ns (ix_root index) added of
                        None \<Rightarrow> None
                      | Some (ns', root) \<Rightarrow>
                          Some (True, index\<lparr>ix_storage := st\<lparr>ab_size := required\<rparr>, ix_nodes := ns',
                                  ix_count := added, ix_root := root,
                                  ix_maxEnd := (if end' > ix_maxEnd index then end' else ix_maxEnd index)\<rparr>))"

definition nvdIntervalIndexReset :: "NVDIntervalIndex \<Rightarrow> NVDIntervalIndex" where
  "nvdIntervalIndexReset index =
     index\<lparr>ix_root := 0, ix_count := 0, ix_maxEnd := 0,
           ix_storage := (ix_storage index)\<lparr>ab_size := 0, ab_failed := False\<rparr>\<rparr>"

definition nvdIntervalIndexDestroy :: "NVDIntervalIndex \<Rightarrow> NVDIntervalIndex" where
  "nvdIntervalIndexDestroy index =
     nvdIntervalIndexReset (index\<lparr>ix_storage := freeAppendableBuffer (ix_storage index)\<rparr>)"

end
