(* ===== verification/CodecAv1Params.thy ===== *)
theory CodecAv1Params
  imports CodecOthers Color Av1Intervals
begin

text \<open>
  The AV1 picture parameters (\<open>src/av1.c\<close>). The records follow the nested structures of
  VA-API; the flat \<open>CUVIDAV1PICPARAMS\<close> is split along the comment sections of its header
  (sequence, frame, tiles, CDEF, quantisation, segmentation, loop filter, restoration, film
  grain, references). Fields that are only copied are \<open>int\<close>, as in the other codecs;
  those that the code computes with keep their width. An array is a list whose length is the
  \<open>ARRAY_SIZE\<close> of the code.
\<close>

section \<open>VA-API side\<close>

record VA_AV1_seq_info =
  vs_use_128x128_superblock :: bool
  vs_enable_filter_intra :: int
  vs_enable_intra_edge_filter :: int
  vs_enable_interintra_compound :: int
  vs_enable_masked_compound :: int
  vs_enable_dual_filter :: int
  vs_enable_order_hint :: bool
  vs_enable_jnt_comp :: int
  vs_enable_cdef :: int
  vs_mono_chrome :: int
  vs_color_range :: bool
  vs_subsampling_x :: int
  vs_subsampling_y :: int
  vs_film_grain_params_present :: int

record VA_AV1_pic_info =
  vp_frame_type :: int
  vp_show_frame :: int
  vp_disable_cdf_update :: int
  vp_allow_screen_content_tools :: int
  vp_force_integer_mv :: bool
  vp_allow_intrabc :: int
  vp_use_superres :: bool
  vp_allow_high_precision_mv :: int
  vp_is_motion_mode_switchable :: int
  vp_use_ref_frame_mvs :: int
  vp_disable_frame_end_update_cdf :: int
  vp_uniform_tile_spacing_flag :: bool
  vp_allow_warped_motion :: int

record VA_AV1_mode_control =
  vm_delta_q_present_flag :: int
  vm_log2_delta_q_res :: int
  vm_delta_lf_present_flag :: int
  vm_log2_delta_lf_res :: int
  vm_delta_lf_multi :: int
  vm_tx_mode :: int
  vm_reference_select :: int
  vm_reduced_tx_set_used :: int
  vm_skip_mode_present :: bool

record VA_AV1_quant =
  vq_base_qindex :: int
  vq_y_dc_delta_q :: int
  vq_u_dc_delta_q :: int
  vq_v_dc_delta_q :: int
  vq_u_ac_delta_q :: int
  vq_v_ac_delta_q :: int
  vq_using_qmatrix :: int
  vq_qm_y :: int
  vq_qm_u :: int
  vq_qm_v :: int

record VA_AV1_seg =
  vg_enabled :: int
  vg_update_map :: int
  vg_update_data :: int
  vg_temporal_update :: int
  vg_feature_mask :: "u8 list"
  vg_feature_data :: "int list list"

record VA_AV1_loop =
  vl_filter_level :: "int list"
  vl_filter_level_u :: int
  vl_filter_level_v :: int
  vl_sharpness_level :: int
  vl_mode_ref_delta_enabled :: int
  vl_mode_ref_delta_update :: int
  vl_ref_deltas :: "int list"
  vl_mode_deltas :: "int list"

record VA_AV1_restoration =
  vr_yframe_restoration_type :: nat
  vr_cbframe_restoration_type :: nat
  vr_crframe_restoration_type :: nat
  vr_lr_unit_shift :: u32
  vr_lr_uv_shift :: u32

record VA_AV1_film_grain =
  vf_apply_grain :: bool
  vf_chroma_scaling_from_luma :: int
  vf_grain_scaling_minus_8 :: int
  vf_ar_coeff_lag :: int
  vf_ar_coeff_shift_minus_6 :: int
  vf_grain_scale_shift :: int
  vf_overlap_flag :: int
  vf_clip_to_restricted_range :: int
  vf_grain_seed :: int
  vf_num_y_points :: nat
  vf_points_y :: "int list \<times> int list"
  vf_num_cb_points :: nat
  vf_points_cb :: "int list \<times> int list"
  vf_num_cr_points :: nat
  vf_points_cr :: "int list \<times> int list"
  vf_ar_coeffs_y :: "int list"
  vf_ar_coeffs_cb :: "int list"
  vf_ar_coeffs_cr :: "int list"
  vf_cb :: "int \<times> int \<times> int"
  vf_cr :: "int \<times> int \<times> int"

record VA_AV1_wm =
  vw_invalid :: bool
  vw_wmtype :: nat
  vw_wmmat :: "int list"

definition VAAV1TransformationIdentity :: nat where "VAAV1TransformationIdentity = 0"

record VADecPictureParameterBufferAV1 =
  va_profile :: int
  va_order_hint_bits_minus_1 :: nat
  va_bit_depth_idx :: nat
  va_matrix_coefficients :: u8
  va_seq :: VA_AV1_seq_info
  va_current_display_picture :: u32
  va_frame_width_minus1 :: u16
  va_frame_height_minus1 :: u16
  va_ref_frame_map :: "u32 list"
  va_ref_frame_idx :: "nat list"
  va_primary_ref_frame :: nat
  va_order_hint :: int
  va_seg :: VA_AV1_seg
  va_grain :: VA_AV1_film_grain
  va_tile_cols :: u8
  va_tile_rows :: u8
  va_width_in_sbs_minus_1 :: "u16 list"
  va_height_in_sbs_minus_1 :: "u16 list"
  va_context_update_tile_id :: u16
  va_pic :: VA_AV1_pic_info
  va_superres_scale_denominator :: u8
  va_interp_filter :: int
  va_loop :: VA_AV1_loop
  va_quant :: VA_AV1_quant
  va_mode :: VA_AV1_mode_control
  va_cdef_damping_minus_3 :: int
  va_cdef_bits :: nat
  va_cdef_y_strengths :: "u8 list"
  va_cdef_uv_strengths :: "u8 list"
  va_lr :: VA_AV1_restoration
  va_wm :: "VA_AV1_wm list"

section \<open>NVDEC side\<close>

record CUVID_AV1_seq =
  cs_profile :: int
  cs_use_128x128_superblock :: bool
  cs_subsampling_x :: int
  cs_subsampling_y :: int
  cs_mono_chrome :: int
  cs_bit_depth_minus8 :: int
  cs_enable_filter_intra :: int
  cs_enable_intra_edge_filter :: int
  cs_enable_interintra_compound :: int
  cs_enable_masked_compound :: int
  cs_enable_dual_filter :: int
  cs_enable_order_hint :: bool
  cs_order_hint_bits_minus1 :: nat
  cs_enable_jnt_comp :: int
  cs_enable_superres :: bool
  cs_enable_cdef :: int
  cs_enable_restoration :: bool
  cs_enable_fgs :: int

record CUVID_AV1_frame =
  cf_frame_type :: int
  cf_show_frame :: int
  cf_disable_cdf_update :: int
  cf_allow_screen_content_tools :: int
  cf_force_integer_mv :: bool
  cf_coded_denom :: int
  cf_allow_intrabc :: int
  cf_allow_high_precision_mv :: int
  cf_interp_filter :: int
  cf_switchable_motion_mode :: int
  cf_use_ref_frame_mvs :: int
  cf_disable_frame_end_update_cdf :: int
  cf_delta_q_present :: int
  cf_delta_q_res :: int
  cf_using_qmatrix :: int
  cf_use_superres :: bool
  cf_tx_mode :: int
  cf_reference_mode :: int
  cf_allow_warped_motion :: int
  cf_reduced_tx_set :: int
  cf_skip_mode :: bool

record CUVID_AV1_quant =
  cq_base_qindex :: int
  cq_qp_y_dc_delta_q :: int
  cq_qp_u_dc_delta_q :: int
  cq_qp_v_dc_delta_q :: int
  cq_qp_u_ac_delta_q :: int
  cq_qp_v_ac_delta_q :: int
  cq_qm_y :: int
  cq_qm_u :: int
  cq_qm_v :: int

record CUVID_AV1_seg =
  cg_enabled :: int
  cg_update_map :: int
  cg_update_data :: int
  cg_temporal_update :: int
  cg_feature_mask :: "u8 list"
  cg_feature_data :: "int list list"

record CUVID_AV1_loop =
  cl_level :: "int list"
  cl_level_u :: int
  cl_level_v :: int
  cl_sharpness :: int
  cl_delta_enabled :: int
  cl_delta_update :: int
  cl_ref_deltas :: "int list"
  cl_mode_deltas :: "int list"
  cl_delta_lf_present :: int
  cl_delta_lf_res :: int
  cl_delta_lf_multi :: int

record CUVID_AV1_grain =
  cr_apply_grain :: bool
  cr_overlap_flag :: int
  cr_scaling_shift_minus8 :: int
  cr_chroma_scaling_from_luma :: int
  cr_ar_coeff_lag :: int
  cr_ar_coeff_shift_minus6 :: int
  cr_grain_scale_shift :: int
  cr_clip_to_restricted_range :: int
  cr_num_y_points :: nat
  cr_num_cb_points :: nat
  cr_num_cr_points :: nat
  cr_random_seed :: int
  cr_cb :: "int \<times> int \<times> int"
  cr_cr :: "int \<times> int \<times> int"
  cr_scaling_points_y :: "(int \<times> int) list"
  cr_scaling_points_cb :: "(int \<times> int) list"
  cr_scaling_points_cr :: "(int \<times> int) list"
  cr_ar_coeffs_y :: "int list"
  cr_ar_coeffs_cb :: "int list"
  cr_ar_coeffs_cr :: "int list"

record CUVID_AV1_ref =
  cx_index :: int
  cx_width :: u32
  cx_height :: u32

record CUVIDAV1PICPARAMS =
  ca_width :: u32
  ca_height :: u32
  ca_frame_offset :: int
  ca_decodePicIdx :: int
  ca_seq :: CUVID_AV1_seq
  ca_frame :: CUVID_AV1_frame
  ca_num_tile_cols :: u32
  ca_num_tile_rows :: u32
  ca_context_update_tile_id :: u32
  ca_tile_widths :: "u16 list"
  ca_tile_heights :: "u16 list"
  ca_cdef_damping_minus_3 :: int
  ca_cdef_bits :: nat
  ca_cdef_y_strength :: "u8 list"
  ca_cdef_uv_strength :: "u8 list"
  ca_SkipModeFrame0 :: int
  ca_SkipModeFrame1 :: int
  ca_quant :: CUVID_AV1_quant
  ca_seg :: CUVID_AV1_seg
  ca_coded_lossless :: bool
  ca_loop :: CUVID_AV1_loop
  ca_lr_type :: "nat list"
  ca_lr_unit_size :: "u32 list"
  ca_grain :: CUVID_AV1_grain
  ca_ref_frame_map :: "int list"
  ca_primary_ref_frame :: int
  ca_ref_frame :: "CUVID_AV1_ref list"
  ca_global_motion :: "VA_AV1_wm list"

end
