(* ===== verification/Av1IntervalsTree.thy ===== *)
theory Av1IntervalsTree
  imports Av1Intervals
begin

text \<open>
  Correctness of the interval index: insertion on trees (\<open>tins\<close>) keeps order and balance,
  the node array represents a tree, and the operations on the array refine those on the
  tree. \<open>S\<close> and \<open>E\<close> give start and end of a node.
\<close>

section \<open>AVL trees of node identifiers\<close>

fun rotL :: "nat tree \<Rightarrow> nat tree" where
  "rotL (Node a x (Node b y c)) = Node (Node a x b) y c"
| "rotL t = t"

fun rotR :: "nat tree \<Rightarrow> nat tree" where
  "rotR (Node (Node a x b) y c) = Node a x (Node b y c)"
| "rotR t = t"

fun root_of :: "nat tree \<Rightarrow> nat" where
  "root_of Leaf = 0"
| "root_of (Node l x r) = x"

fun tbal :: "(nat \<Rightarrow> u32) \<Rightarrow> u32 \<Rightarrow> nat tree \<Rightarrow> nat tree" where
  "tbal S s Leaf = Leaf"
| "tbal S s (Node l x r) =
     (if height l > height r + 1 then rotR (Node (if s > S (root_of l) then rotL l else l) x r)
      else if height r > height l + 1 then rotL (Node l x (if s < S (root_of r) then rotR r else r))
      else Node l x r)"

fun tins :: "(nat \<Rightarrow> u32) \<Rightarrow> nat \<Rightarrow> nat tree \<Rightarrow> nat tree" where
  "tins S a Leaf = Node Leaf a Leaf"
| "tins S a (Node l x r) =
     tbal S (S a) (if S a < S x then Node (tins S a l) x r else Node l x (tins S a r))"

fun avl :: "nat tree \<Rightarrow> bool" where
  "avl Leaf = True"
| "avl (Node l x r) \<longleftrightarrow> height l \<le> height r + 1 \<and> height r \<le> height l + 1 \<and> avl l \<and> avl r"

fun bst_by :: "(nat \<Rightarrow> u32) \<Rightarrow> nat tree \<Rightarrow> bool" where
  "bst_by S Leaf = True"
| "bst_by S (Node l x r) \<longleftrightarrow>
     bst_by S l \<and> bst_by S r \<and> (\<forall>y \<in> set_tree l. S y < S x) \<and> (\<forall>y \<in> set_tree r. S x < S y)"

lemma rot_set [simp]: "set_tree (rotL t) = set_tree t" "set_tree (rotR t) = set_tree t"
  by (cases t rule: rotL.cases; auto) (cases t rule: rotR.cases; auto)

lemma rot_bst: "bst_by S t \<Longrightarrow> bst_by S (rotL t)" "bst_by S t \<Longrightarrow> bst_by S (rotR t)"
  by (cases t rule: rotL.cases; fastforce) (cases t rule: rotR.cases; fastforce)

lemma tbal_set [simp]: "set_tree (tbal S s t) = set_tree t"
  by (cases t) auto

lemma tbal_bst: "bst_by S t \<Longrightarrow> bst_by S (tbal S s t)"
  by (cases t) (auto intro!: rot_bst)

lemma tins_set: "set_tree (tins S a t) = insert a (set_tree t)"
  by (induction t) auto

lemma tins_bst: "bst_by S t \<Longrightarrow> \<forall>y \<in> set_tree t. S y \<noteq> S a \<Longrightarrow> bst_by S (tins S a t)"
proof (induction t)
  case Leaf
  then show ?case by simp
next
  case (Node l x r)
  then have "bst_by S (if S a < S x then Node (tins S a l) x r else Node l x (tins S a r))"
    by (auto simp: tins_set not_less intro: order_le_neq_trans)
  then show ?case by (simp add: tbal_bst)
qed

text \<open>Insertion keeps the balance; the last part tells on which side a tree that grew is higher.\<close>

definition grown :: "(nat \<Rightarrow> u32) \<Rightarrow> nat \<Rightarrow> nat tree \<Rightarrow> nat tree \<Rightarrow> bool" where
  "grown S a t t' \<longleftrightarrow> avl t' \<and>
     (height t' = height t \<or>
      height t' = height t + 1 \<and>
      (t \<noteq> Leaf \<longrightarrow> (\<exists>l x r. t' = Node l x r \<and> x \<in> set_tree t \<and>
         (if S a < S x then height l = height r + 1 \<and> a \<in> set_tree l
          else height r = height l + 1 \<and> a \<in> set_tree r))))"

lemma grown_rotR:
  fixes S :: "nat \<Rightarrow> u32"
  assumes t: "avl l0" "avl r" "height l0 = height r + 1"
    and g: "avl l" "l = Node ll y lr" "height l = height l0 + 1"
    and side: "if s < S y then height ll = height lr + 1 else height lr = height ll + 1" "s \<noteq> S y"
  shows "avl (rotR (Node (if s > S y then rotL l else l) x r)) \<and>
    height (rotR (Node (if s > S y then rotL l else l) x r)) = height l"
proof (cases "s < S y")
  case True
  then have "height ll = height lr + 1" using side(1) by simp
  moreover have "\<not> s > S y" using True by (simp add: not_less order.strict_implies_order)
  ultimately show ?thesis using g t by auto
next
  case False
  then have h: "height lr = height ll + 1" and gt: "s > S y" using side by auto
  then obtain a z b where lr: "lr = Node a z b" by (cases lr) auto
  then show ?thesis using g t h gt by (auto simp: max_def split: if_splits)
qed

lemma grown_rotL:
  fixes S :: "nat \<Rightarrow> u32"
  assumes t: "avl r0" "avl l" "height r0 = height l + 1"
    and g: "avl r" "r = Node rl y rr" "height r = height r0 + 1"
    and side: "if s < S y then height rl = height rr + 1 else height rr = height rl + 1" "s \<noteq> S y"
  shows "avl (rotL (Node l x (if s < S y then rotR r else r))) \<and>
    height (rotL (Node l x (if s < S y then rotR r else r))) = height r"
proof (cases "s < S y")
  case False
  then have "height rr = height rl + 1" using side(1) by auto
  then show ?thesis using g t False by auto
next
  case True
  then have h: "height rl = height rr + 1" using side by auto
  then obtain a z b where rl: "rl = Node a z b" by (cases rl) auto
  then show ?thesis using g t h True by (auto simp: max_def split: if_splits)
qed

lemma tins_grown:
  "avl t \<Longrightarrow> \<forall>y \<in> set_tree t. S y \<noteq> S a \<Longrightarrow> grown S a t (tins S a t)"
proof (induction t)
  case Leaf
  then show ?case by (simp add: grown_def)
next
  case (Node l x r)
  have ne: "S x \<noteq> S a" using Node.prems by simp
  have h0: "t = Leaf \<or> 1 \<le> height t" for t :: "nat tree" by (cases t) auto
  have bal: "height l \<le> height r + 1" "height r \<le> height l + 1" "avl l" "avl r"
    using Node.prems by simp_all
  show ?case
  proof (cases "S a < S x")
    case True
    let ?l = "tins S a l"
    have g: "grown S a l ?l" using Node by simp
    have a: "a \<in> set_tree ?l" by (simp add: tins_set)
    have e: "tins S a (Node l x r) = tbal S (S a) (Node ?l x r)" using True by simp
    consider (same) "height ?l = height l" | (fit) "height ?l = height l + 1" "height l \<le> height r"
      | (over) "height ?l = height l + 1" "height l = height r + 1"
      using g bal(1) by (auto simp: grown_def) linarith
    then show ?thesis
    proof cases
      case same
      then show ?thesis using g bal unfolding e by (auto simp: grown_def)
    next
      case fit
      then show ?thesis using g bal True a h0 [of l] h0 [of r] h0 [of ?l] unfolding e by (auto simp: grown_def)
    next
      case over
      then have "l \<noteq> Leaf" by auto
      with g over(1) obtain ll y lr where l: "?l = Node ll y lr" and y: "y \<in> set_tree l"
        and side': "if S a < S y then height ll = height lr + 1 \<and> a \<in> set_tree ll
          else height lr = height ll + 1 \<and> a \<in> set_tree lr"
        unfolding grown_def by force
      from side' have side: "if S a < S y then height ll = height lr + 1 else height lr = height ll + 1"
        by (simp split: if_splits)
      have "S a \<noteq> S y" using y Node.prems by auto
      note G = grown_rotR [where s = "S a" and S = S and x = x, OF bal(3,4) over(2) _ l over(1) side this]
      have ro: "root_of ?l = y" by (simp add: l)
      have gt: "height r + 1 < height ?l" using over by simp
      have "avl (tins S a (Node l x r)) \<and> height (tins S a (Node l x r)) = height ?l"
        unfolding e tbal.simps ro if_P [OF gt] using G g by (simp only: grown_def)
      moreover have "height ?l = height (Node l x r)" using over by simp
      ultimately show ?thesis unfolding grown_def by simp
    qed
  next
    case False
    let ?r = "tins S a r"
    have g: "grown S a r ?r" using Node by simp
    have a: "a \<in> set_tree ?r" by (simp add: tins_set)
    have e: "tins S a (Node l x r) = tbal S (S a) (Node l x ?r)" using False by simp
    consider (same) "height ?r = height r" | (fit) "height ?r = height r + 1" "height r \<le> height l"
      | (over) "height ?r = height r + 1" "height r = height l + 1"
      using g bal(2) by (auto simp: grown_def) linarith
    then show ?thesis
    proof cases
      case same
      then show ?thesis using g bal unfolding e by (auto simp: grown_def)
    next
      case fit
      then show ?thesis using g bal False a h0 [of l] h0 [of r] h0 [of ?r] unfolding e by (auto simp: grown_def)
    next
      case over
      then have "r \<noteq> Leaf" by auto
      with g over(1) obtain rl y rr where r: "?r = Node rl y rr" and y: "y \<in> set_tree r"
        and side': "if S a < S y then height rl = height rr + 1 \<and> a \<in> set_tree rl
          else height rr = height rl + 1 \<and> a \<in> set_tree rr"
        unfolding grown_def by force
      from side' have side: "if S a < S y then height rl = height rr + 1 else height rr = height rl + 1"
        by (simp split: if_splits)
      have "S a \<noteq> S y" using y Node.prems by auto
      note G = grown_rotL [where s = "S a" and S = S and x = x, OF bal(4,3) over(2) _ r over(1) side this]
      have ro: "root_of ?r = y" by (simp add: r)
      have gt: "height l + 1 < height ?r" and ngt: "\<not> height ?r + 1 < height l" using over by simp_all
      have "avl (tins S a (Node l x r)) \<and> height (tins S a (Node l x r)) = height ?r"
        unfolding e tbal.simps ro if_P [OF gt] if_not_P [OF ngt] using G g by (simp only: grown_def)
      moreover have "height ?r = height (Node l x r)" using over by simp
      ultimately show ?thesis unfolding grown_def by simp
    qed
  qed
qed

lemma avl_height: "avl t \<Longrightarrow> 2 ^ (height t div 2) \<le> size t + 1"
proof (induction t)
  case Leaf
  then show ?case by simp
next
  case (Node l x r)
  let ?h = "height (Node l x r)"
  show ?case
  proof (cases "?h = 1")
    case True
    then show ?thesis by simp
  next
    case False
    then have h2: "2 \<le> ?h" by (cases l; cases r) auto
    have "(?h - 2) div 2 \<le> height l div 2" "(?h - 2) div 2 \<le> height r div 2"
      using Node.prems by (auto intro!: div_le_mono)
    then have p: "(2 :: nat) ^ ((?h - 2) div 2) \<le> 2 ^ (height l div 2)"
      "(2 :: nat) ^ ((?h - 2) div 2) \<le> 2 ^ (height r div 2)" by (auto intro!: power_increasing)
    have q: "2 ^ (height l div 2) \<le> size l + 1" "2 ^ (height r div 2) \<le> size r + 1"
      using Node by simp_all
    have "?h div 2 = Suc ((?h - 2) div 2)" using h2 by (simp add: le_div_geq)
    then have "(2 :: nat) ^ (?h div 2) = 2 * 2 ^ ((?h - 2) div 2)" by (simp only: power_Suc)
    also have "\<dots> \<le> size (Node l x r) + 1"
      using order_trans [OF p(1) q(1)] order_trans [OF p(2) q(2)] by (simp only: tree.size)
    finally show ?thesis .
  qed
qed

section \<open>The node array represents a tree\<close>

abbreviation start_of :: "NVDIntervalNode list \<Rightarrow> nat \<Rightarrow> u32" where
  "start_of ns i \<equiv> nd_start (node_at ns i)"

abbreviation end_of :: "NVDIntervalNode list \<Rightarrow> nat \<Rightarrow> u32" where
  "end_of ns i \<equiv> nd_end (node_at ns i)"

fun rep :: "NVDIntervalNode list \<Rightarrow> nat \<Rightarrow> nat tree \<Rightarrow> bool" where
  "rep ns k Leaf \<longleftrightarrow> k = 0"
| "rep ns k (Node l i r) \<longleftrightarrow>
     k = i \<and> 0 < i \<and> i \<le> length ns \<and> nd_height (node_at ns i) = height (Node l i r) \<and>
     rep ns (nd_left (node_at ns i)) l \<and> rep ns (nd_right (node_at ns i)) r"

text \<open>What an operation on the array leaves alone: all intervals, and the nodes outside \<open>A\<close>.\<close>

definition keeps :: "nat set \<Rightarrow> NVDIntervalNode list \<Rightarrow> NVDIntervalNode list \<Rightarrow> bool" where
  "keeps A ns ns' \<longleftrightarrow> length ns' = length ns \<and>
     (\<forall>i > 0. start_of ns' i = start_of ns i \<and> end_of ns' i = end_of ns i) \<and>
     (\<forall>i > 0. i \<notin> A \<longrightarrow> node_at ns' i = node_at ns i)"

lemma keeps_refl [simp]: "keeps A ns ns"
  by (simp add: keeps_def)

lemma keeps_trans: "keeps A ns ns1 \<Longrightarrow> keeps B ns1 ns2 \<Longrightarrow> keeps (A \<union> B) ns ns2"
  by (simp add: keeps_def)

lemma keeps_mono: "keeps A ns ns' \<Longrightarrow> A \<subseteq> B \<Longrightarrow> keeps B ns ns'"
  by (auto simp: keeps_def)

lemma keeps_length: "keeps A ns ns' \<Longrightarrow> length ns' = length ns"
  by (simp add: keeps_def)

lemma keeps_start: "keeps A ns ns' \<Longrightarrow> 0 < i \<Longrightarrow> start_of ns' i = start_of ns i"
  by (simp add: keeps_def)

lemma node_at_set_node:
  assumes "0 < k" "k \<le> length ns" "0 < j"
  shows "node_at (set_node ns k n) j = (if j = k then n else node_at ns j)"
proof -
  have "j \<noteq> k \<Longrightarrow> j - 1 \<noteq> k - 1" using assms by simp
  then show ?thesis using assms by (auto simp: node_at_def set_node_def)
qed

lemma length_set_node [simp]: "length (set_node ns k n) = length ns"
  by (simp add: set_node_def)

lemma rep_pos: "rep ns k t \<Longrightarrow> i \<in> set_tree t \<Longrightarrow> 0 < i \<and> i \<le> length ns"
  by (induction t arbitrary: k) auto

lemma rep_frame:
  "rep ns k t \<Longrightarrow> length ns' = length ns \<Longrightarrow> \<forall>i \<in> set_tree t. node_at ns' i = node_at ns i \<Longrightarrow>
   rep ns' k t"
  by (induction t arbitrary: k) auto

lemma rep_keeps: "rep ns k t \<Longrightarrow> keeps A ns ns' \<Longrightarrow> A \<inter> set_tree t = {} \<Longrightarrow> rep ns' k t"
proof -
  assume r: "rep ns k t" and K: "keeps A ns ns'" and A: "A \<inter> set_tree t = {}"
  have "node_at ns' i = node_at ns i" if "i \<in> set_tree t" for i
  proof -
    have "0 < i" "i \<notin> A" using rep_pos [OF r that] that A by auto
    with K show ?thesis by (simp add: keeps_def)
  qed
  with rep_frame [OF r keeps_length [OF K]] show "rep ns' k t" by blast
qed

lemma rep_root: "rep ns k t \<Longrightarrow> t \<noteq> Leaf \<Longrightarrow> k = root_of t \<and> 0 < k"
  by (cases t) auto

lemma rep_zero: "rep ns k t \<Longrightarrow> k = 0 \<longleftrightarrow> t = Leaf"
  by (cases t) auto

lemma rep_height: "rep ns k t \<Longrightarrow> node_height ns k = height t"
  by (cases t) (auto simp: node_height_def)

lemma set_left_keeps: "0 < k \<Longrightarrow> k \<le> length ns \<Longrightarrow> keeps {k} ns (set_left ns k l)"
  and set_right_keeps: "0 < k \<Longrightarrow> k \<le> length ns \<Longrightarrow> keeps {k} ns (set_right ns k r)"
  and update_keeps: "0 < k \<Longrightarrow> k \<le> length ns \<Longrightarrow> keeps {k} ns (updateHeight ns k)"
  by (simp_all add: keeps_def set_left_def set_right_def updateHeight_def Let_def node_at_set_node)

lemma links_simps:
  assumes "0 < k" "k \<le> length ns"
  shows "nd_left (node_at (set_left ns k l) k) = l" "nd_right (node_at (set_left ns k l) k) = nd_right (node_at ns k)"
    "nd_right (node_at (set_right ns k l) k) = l" "nd_left (node_at (set_right ns k l) k) = nd_left (node_at ns k)"
    "nd_left (node_at (updateHeight ns k) k) = nd_left (node_at ns k)"
    "nd_right (node_at (updateHeight ns k) k) = nd_right (node_at ns k)"
  using assms by (simp_all add: set_left_def set_right_def updateHeight_def Let_def node_at_set_node)

text \<open>\<open>updateHeight\<close> completes a node whose children are represented.\<close>

lemma update_rep:
  assumes "0 < x" "x \<le> length ns" "rep ns (nd_left (node_at ns x)) l" "rep ns (nd_right (node_at ns x)) r"
    and "x \<notin> set_tree l" "x \<notin> set_tree r"
  shows "rep (updateHeight ns x) x (Node l x r)"
proof -
  note K = update_keeps [OF assms(1,2)]
  have "rep (updateHeight ns x) (nd_left (node_at ns x)) l" "rep (updateHeight ns x) (nd_right (node_at ns x)) r"
    using rep_keeps [OF assms(3) K] rep_keeps [OF assms(4) K] assms(5,6) by auto
  moreover have "nd_height (node_at (updateHeight ns x) x) = height (Node l x r)"
    using assms(1,2) by (simp add: updateHeight_def Let_def node_at_set_node rep_height [OF assms(3)]
        rep_height [OF assms(4)] max_def)
  ultimately show ?thesis
    using assms(1,2) by (simp add: links_simps [OF assms(1,2)] keeps_length [OF K])
qed

text \<open>The rotations, on a root whose own height need not be up to date.\<close>

lemma rotateRight_rep:
  assumes y: "0 < y" "y \<le> length ns" and x: "0 < x" "x \<le> length ns" "x \<noteq> y"
    and lx: "nd_left (node_at ns y) = x"
    and a: "rep ns (nd_left (node_at ns x)) a" and b: "rep ns (nd_right (node_at ns x)) b"
    and c: "rep ns (nd_right (node_at ns y)) c"
    and d: "{x, y} \<inter> (set_tree a \<union> set_tree b \<union> set_tree c) = {}"
  shows "case rotateRight ns y of (ns', k) \<Rightarrow> rep ns' k (Node a x (Node b y c)) \<and> keeps {x, y} ns ns'"
proof -
  let ?n1 = "set_left ns y (nd_right (node_at ns x))"
  let ?n2 = "set_right ?n1 x y"
  let ?n3 = "updateHeight ?n2 y"
  let ?n4 = "updateHeight ?n3 x"
  have run: "rotateRight ns y = (?n4, x)" by (simp add: rotateRight_def Let_def lx)
  have K1: "keeps {y} ns ?n1" by (rule set_left_keeps [OF y])
  have y1: "y \<le> length ?n1" "x \<le> length ?n1" using y x keeps_length [OF K1] by simp_all
  have K2: "keeps {x} ?n1 ?n2" by (rule set_right_keeps [OF x(1) y1(2)])
  have y2: "y \<le> length ?n2" "x \<le> length ?n2" using y1 keeps_length [OF K2] by simp_all
  have K3: "keeps {y} ?n2 ?n3" by (rule update_keeps [OF y(1) y2(1)])
  have y3: "x \<le> length ?n3" using y2 keeps_length [OF K3] by simp
  have K4: "keeps {x} ?n3 ?n4" by (rule update_keeps [OF x(1) y3])
  have K12: "keeps {x, y} ns ?n2" by (rule keeps_mono [OF keeps_trans [OF K1 K2]]) simp
  have K123: "keeps {x, y} ns ?n3" by (rule keeps_mono [OF keeps_trans [OF K12 K3]]) simp
  have ny: "nd_left (node_at ?n2 y) = nd_right (node_at ns x)" "nd_right (node_at ?n2 y) = nd_right (node_at ns y)"
    using K2 y x links_simps [OF y] by (simp_all add: keeps_def)
  have nx: "nd_left (node_at ?n2 x) = nd_left (node_at ns x)" "nd_right (node_at ?n2 x) = y"
    using K1 x links_simps [OF x(1) y1(2)] by (simp_all add: keeps_def)
  have r3: "rep ?n3 y (Node b y c)"
  proof (rule update_rep [OF y(1) y2(1)])
    show "rep ?n2 (nd_left (node_at ?n2 y)) b" unfolding ny by (rule rep_keeps [OF b K12]) (use d in auto)
    show "rep ?n2 (nd_right (node_at ?n2 y)) c" unfolding ny by (rule rep_keeps [OF c K12]) (use d in auto)
  qed (use d in auto)
  have nx3: "node_at ?n3 x = node_at ?n2 x" using K3 x by (simp add: keeps_def)
  have "rep ?n4 x (Node a x (Node b y c))"
  proof (rule update_rep [OF x(1) y3])
    show "rep ?n3 (nd_left (node_at ?n3 x)) a"
      unfolding nx3 nx by (rule rep_keeps [OF a K123]) (use d in auto)
    show "rep ?n3 (nd_right (node_at ?n3 x)) (Node b y c)" unfolding nx3 nx by (rule r3)
  qed (use d x in auto)
  moreover have "keeps {x, y} ns ?n4" by (rule keeps_mono [OF keeps_trans [OF K123 K4]]) simp
  ultimately show ?thesis unfolding run by simp
qed

lemma rotateLeft_rep:
  assumes x: "0 < x" "x \<le> length ns" and y: "0 < y" "y \<le> length ns" "y \<noteq> x"
    and ry: "nd_right (node_at ns x) = y"
    and b: "rep ns (nd_left (node_at ns y)) b" and c: "rep ns (nd_right (node_at ns y)) c"
    and a: "rep ns (nd_left (node_at ns x)) a"
    and d: "{x, y} \<inter> (set_tree a \<union> set_tree b \<union> set_tree c) = {}"
  shows "case rotateLeft ns x of (ns', k) \<Rightarrow> rep ns' k (Node (Node a x b) y c) \<and> keeps {x, y} ns ns'"
proof -
  let ?n1 = "set_right ns x (nd_left (node_at ns y))"
  let ?n2 = "set_left ?n1 y x"
  let ?n3 = "updateHeight ?n2 x"
  let ?n4 = "updateHeight ?n3 y"
  have run: "rotateLeft ns x = (?n4, y)" by (simp add: rotateLeft_def Let_def ry)
  have K1: "keeps {x} ns ?n1" by (rule set_right_keeps [OF x])
  have y1: "y \<le> length ?n1" "x \<le> length ?n1" using y x keeps_length [OF K1] by simp_all
  have K2: "keeps {y} ?n1 ?n2" by (rule set_left_keeps [OF y(1) y1(1)])
  have y2: "y \<le> length ?n2" "x \<le> length ?n2" using y1 keeps_length [OF K2] by simp_all
  have K3: "keeps {x} ?n2 ?n3" by (rule update_keeps [OF x(1) y2(2)])
  have y3: "y \<le> length ?n3" using y2 keeps_length [OF K3] by simp
  have K4: "keeps {y} ?n3 ?n4" by (rule update_keeps [OF y(1) y3])
  have K12: "keeps {x, y} ns ?n2" by (rule keeps_mono [OF keeps_trans [OF K1 K2]]) simp
  have K123: "keeps {x, y} ns ?n3" by (rule keeps_mono [OF keeps_trans [OF K12 K3]]) simp
  have nx: "nd_right (node_at ?n2 x) = nd_left (node_at ns y)" "nd_left (node_at ?n2 x) = nd_left (node_at ns x)"
    using K2 x y links_simps [OF x] by (simp_all add: keeps_def)
  have ny: "nd_right (node_at ?n2 y) = nd_right (node_at ns y)" "nd_left (node_at ?n2 y) = x"
    using K1 y links_simps [OF y(1) y1(1)] by (simp_all add: keeps_def)
  have r3: "rep ?n3 x (Node a x b)"
  proof (rule update_rep [OF x(1) y2(2)])
    show "rep ?n2 (nd_left (node_at ?n2 x)) a" unfolding nx by (rule rep_keeps [OF a K12]) (use d in auto)
    show "rep ?n2 (nd_right (node_at ?n2 x)) b" unfolding nx by (rule rep_keeps [OF b K12]) (use d in auto)
  qed (use d in auto)
  have ny3: "node_at ?n3 y = node_at ?n2 y" using K3 y by (simp add: keeps_def)
  have "rep ?n4 y (Node (Node a x b) y c)"
  proof (rule update_rep [OF y(1) y3])
    show "rep ?n3 (nd_left (node_at ?n3 y)) (Node a x b)" unfolding ny3 ny by (rule r3)
    show "rep ?n3 (nd_right (node_at ?n3 y)) c"
      unfolding ny3 ny by (rule rep_keeps [OF c K123]) (use d in auto)
  qed (use d y in auto)
  moreover have "keeps {x, y} ns ?n4" by (rule keeps_mono [OF keeps_trans [OF K123 K4]]) simp
  ultimately show ?thesis unfolding run by simp
qed

text \<open>A tree with a root can be rotated where it stands.\<close>

lemma rotateRight_tree:
  assumes "0 < y" "y \<le> length ns" "rep ns (nd_left (node_at ns y)) (Node a x b)"
    "rep ns (nd_right (node_at ns y)) c" "bst_by S (Node (Node a x b) y c)"
  shows "case rotateRight ns y of (ns', k) \<Rightarrow> rep ns' k (Node a x (Node b y c)) \<and> keeps {x, y} ns ns'"
proof (rule rotateRight_rep [OF assms(1,2)])
  show "0 < x" "x \<le> length ns" "nd_left (node_at ns y) = x"
    "rep ns (nd_left (node_at ns x)) a" "rep ns (nd_right (node_at ns x)) b"
    using assms(3) by auto
  show "{x, y} \<inter> (set_tree a \<union> set_tree b \<union> set_tree c) = {}" "x \<noteq> y" using assms(5) by auto
qed (rule assms(4))

lemma rotateLeft_tree:
  assumes "0 < x" "x \<le> length ns" "rep ns (nd_right (node_at ns x)) (Node b y c)"
    "rep ns (nd_left (node_at ns x)) a" "bst_by S (Node a x (Node b y c))"
  shows "case rotateLeft ns x of (ns', k) \<Rightarrow> rep ns' k (Node (Node a x b) y c) \<and> keeps {x, y} ns ns'"
proof (rule rotateLeft_rep [OF assms(1,2)])
  show "0 < y" "y \<le> length ns" "nd_right (node_at ns x) = y"
    "rep ns (nd_left (node_at ns y)) b" "rep ns (nd_right (node_at ns y)) c"
    using assms(3) by auto
  show "{x, y} \<inter> (set_tree a \<union> set_tree b \<union> set_tree c) = {}" "y \<noteq> x" using assms(5) by auto
qed (rule assms(4))

lemma bst_by_distinct:
  assumes "bst_by S (Node l x r)"
  shows "x \<notin> set_tree l" "x \<notin> set_tree r" "set_tree l \<inter> set_tree r = {}"
  using assms by fastforce+

lemma run_keeps:
  assumes "case q of (ns', k) \<Rightarrow> rep ns' k t \<and> keeps B n0 ns'" "keeps A ns n0" "A \<union> B \<subseteq> C"
  shows "case q of (ns', k) \<Rightarrow> rep ns' k t \<and> keeps C ns ns'"
  using assms(1) by (auto intro: keeps_mono [OF keeps_trans [OF assms(2)] assms(3)])

lemma rebalance_rep:
  assumes x: "0 < x" "x \<le> length ns"
    and l: "rep ns (nd_left (node_at ns x)) l" and r: "rep ns (nd_right (node_at ns x)) r"
    and bst: "bst_by S (Node l x r)" and S: "\<forall>i > 0. S i = start_of ns i"
    and gl: "\<And>ll y. height l > height r + 1 \<Longrightarrow> l = Node ll y Leaf \<Longrightarrow> \<not> s > S y"
    and gr: "\<And>rr y. height r > height l + 1 \<Longrightarrow> r = Node Leaf y rr \<Longrightarrow> \<not> s < S y"
  shows "case rebalance ns x s of (ns', k) \<Rightarrow>
    rep ns' k (tbal S s (Node l x r)) \<and> keeps (insert x (set_tree l \<union> set_tree r)) ns ns'"
proof -
  let ?n0 = "updateHeight ns x"
  note dis = bst_by_distinct [OF bst]
  have K0: "keeps {x} ns ?n0" by (rule update_keeps [OF x])
  have rep0: "rep ?n0 x (Node l x r)" by (rule update_rep [OF x l r dis(1,2)])
  then have x0: "x \<le> length ?n0" and l0: "rep ?n0 (nd_left (node_at ?n0 x)) l"
    and r0: "rep ?n0 (nd_right (node_at ?n0 x)) r" by simp_all
  have h: "node_height ?n0 (nd_left (node_at ?n0 x)) = height l"
    "node_height ?n0 (nd_right (node_at ?n0 x)) = height r"
    by (rule rep_height [OF l0], rule rep_height [OF r0])
  have S0: "S i = start_of ?n0 i" if "0 < i" for i using S keeps_start [OF K0 that] that by simp
  consider (left) "height l > height r + 1" | (right) "height r > height l + 1" "\<not> height l > height r + 1"
    | (none) "\<not> height l > height r + 1" "\<not> height r > height l + 1" by blast
  then show ?thesis
  proof cases
    case none
    then have "rebalance ns x s = (?n0, x)" unfolding rebalance_def Let_def h by simp
    then show ?thesis using none rep0 keeps_mono [OF K0] by simp
  next
    case left
    then obtain ll y lr where le: "l = Node ll y lr" by (cases l) auto
    have y: "nd_left (node_at ?n0 x) = y" "0 < y" "y \<le> length ?n0" using l0 le by auto
    have c: "int (height l) - int (height r) > 1" using left by simp
    show ?thesis
    proof (cases "s > S y")
      case False
      have run: "rebalance ns x s = rotateRight ?n0 x"
        unfolding rebalance_def Let_def h if_P [OF c] unfolding y using False S0 [OF y(2)] by simp
      have f: "case rotateRight ?n0 x of (ns', k) \<Rightarrow> rep ns' k (Node ll y (Node lr x r)) \<and> keeps {y, x} ?n0 ns'"
        using rotateRight_tree [OF x(1) x0 _ r0, of ll y lr S] l0 bst le by simp
      have t: "tbal S s (Node l x r) = Node ll y (Node lr x r)" using left False by (simp add: le)
      show ?thesis unfolding t run by (rule run_keeps [OF f K0]) (simp add: le)
    next
      case True
      with gl left le obtain a z b where lr: "lr = Node a z b" by (cases lr) blast+
      let ?q = "rotateLeft ?n0 y"
      have "bst_by S (Node ll y (Node a z b))" using bst le lr by simp
      with rotateLeft_tree [OF y(2,3), of a z b ll S] l0 y le lr
      have q: "rep (fst ?q) (snd ?q) (Node (Node ll y a) z b)" "keeps {y, z} ?n0 (fst ?q)"
        by (auto split: prod.splits)
      let ?n2 = "set_left (fst ?q) x (snd ?q)"
      have x1: "x \<le> length (fst ?q)" using x0 keeps_length [OF q(2)] by simp
      have K2: "keeps {x} (fst ?q) ?n2" by (rule set_left_keeps [OF x(1) x1])
      have x2: "x \<le> length ?n2" using x1 keeps_length [OF K2] by simp
      have run: "rebalance ns x s = rotateRight ?n2 x"
        unfolding rebalance_def Let_def h if_P [OF c] unfolding y using True S0 [OF y(2)] by (simp add: split_def)
      have nx: "node_at (fst ?q) x = node_at ?n0 x"
        using q(2) x(1) dis(1) le lr by (auto simp: keeps_def)
      have "rep ?n2 (nd_left (node_at ?n2 x)) (Node (Node ll y a) z b)"
        unfolding links_simps [OF x(1) x1] by (rule rep_keeps [OF q(1) K2]) (use dis le lr in auto)
      moreover have "rep ?n2 (nd_right (node_at ?n2 x)) r"
        unfolding links_simps [OF x(1) x1] nx
        by (rule rep_keeps [OF rep_keeps [OF r0 q(2)] K2]) (use dis le lr in auto)
      moreover have "bst_by S (Node (Node (Node ll y a) z b) x r)" using bst le lr by fastforce
      ultimately have f: "case rotateRight ?n2 x of (ns', k) \<Rightarrow>
          rep ns' k (Node (Node ll y a) z (Node b x r)) \<and> keeps {z, x} ?n2 ns'"
        by (rule rotateRight_tree [OF x(1) x2])
      have t: "tbal S s (Node l x r) = Node (Node ll y a) z (Node b x r)" using left True by (simp add: le lr)
      show ?thesis unfolding t run
        by (rule run_keeps [OF f keeps_trans [OF keeps_trans [OF K0 q(2)] K2]]) (auto simp: le lr)
    qed
  next
    case right
    then obtain rl y rr where re: "r = Node rl y rr" by (cases r) auto
    have y: "nd_right (node_at ?n0 x) = y" "0 < y" "y \<le> length ?n0" using r0 re by auto
    have c: "int (height l) - int (height r) < -1" "\<not> int (height l) - int (height r) > 1" using right by simp_all
    show ?thesis
    proof (cases "s < S y")
      case False
      have run: "rebalance ns x s = rotateLeft ?n0 x"
        unfolding rebalance_def Let_def h if_P [OF c(1)] if_not_P [OF c(2)] unfolding y using False S0 [OF y(2)] by simp
      have f: "case rotateLeft ?n0 x of (ns', k) \<Rightarrow> rep ns' k (Node (Node l x rl) y rr) \<and> keeps {x, y} ?n0 ns'"
        using rotateLeft_tree [OF x(1) x0 _ l0, of rl y rr S] r0 bst re by simp
      have t: "tbal S s (Node l x r) = Node (Node l x rl) y rr" using right False by (simp add: re)
      show ?thesis unfolding t run by (rule run_keeps [OF f K0]) (simp add: re)
    next
      case True
      with gr right re obtain a z b where rl: "rl = Node a z b" by (cases rl) blast+
      let ?q = "rotateRight ?n0 y"
      have "bst_by S (Node (Node a z b) y rr)" using bst re rl by simp
      with rotateRight_tree [OF y(2,3), of a z b rr S] r0 y re rl
      have q: "rep (fst ?q) (snd ?q) (Node a z (Node b y rr))" "keeps {z, y} ?n0 (fst ?q)"
        by (auto split: prod.splits)
      let ?n2 = "set_right (fst ?q) x (snd ?q)"
      have x1: "x \<le> length (fst ?q)" using x0 keeps_length [OF q(2)] by simp
      have K2: "keeps {x} (fst ?q) ?n2" by (rule set_right_keeps [OF x(1) x1])
      have x2: "x \<le> length ?n2" using x1 keeps_length [OF K2] by simp
      have run: "rebalance ns x s = rotateLeft ?n2 x"
        unfolding rebalance_def Let_def h if_P [OF c(1)] if_not_P [OF c(2)] unfolding y using True S0 [OF y(2)] by (simp add: split_def)
      have nx: "node_at (fst ?q) x = node_at ?n0 x"
        using q(2) x(1) dis(2) re rl by (auto simp: keeps_def)
      have "rep ?n2 (nd_right (node_at ?n2 x)) (Node a z (Node b y rr))"
        unfolding links_simps [OF x(1) x1] by (rule rep_keeps [OF q(1) K2]) (use dis re rl in auto)
      moreover have "rep ?n2 (nd_left (node_at ?n2 x)) l"
        unfolding links_simps [OF x(1) x1] nx
        by (rule rep_keeps [OF rep_keeps [OF l0 q(2)] K2]) (use dis re rl in auto)
      moreover have "bst_by S (Node l x (Node a z (Node b y rr)))" using bst re rl by fastforce
      ultimately have f: "case rotateLeft ?n2 x of (ns', k) \<Rightarrow>
          rep ns' k (Node (Node l x a) z (Node b y rr)) \<and> keeps {x, z} ?n2 ns'"
        by (rule rotateLeft_tree [OF x(1) x2])
      have t: "tbal S s (Node l x r) = Node (Node l x a) z (Node b y rr)" using right True by (simp add: re rl)
      show ?thesis unfolding t run
        by (rule run_keeps [OF f keeps_trans [OF keeps_trans [OF K0 q(2)] K2]]) (auto simp: re rl)
    qed
  qed
qed

text \<open>The side conditions of \<open>rebalance\<close> after an insertion into the left or right subtree.\<close>

lemma grown_left:
  assumes "grown S a l l'" "height l \<le> h + 1" "height l' > h + 1" "l' = Node ll y Leaf"
  shows "\<not> S a > S y"
proof
  assume gt: "S a > S y"
  have "height l' = height l + 1" "l \<noteq> Leaf" using assms(1-3) by (auto simp: grown_def)
  with assms(1,4) gt show False by (auto simp: grown_def split: if_splits)
qed

lemma grown_right:
  assumes "grown S a r r'" "height r \<le> h + 1" "height r' > h + 1" "r' = Node Leaf y rr"
  shows "\<not> S a < S y"
proof
  assume lt: "S a < S y"
  have "height r' = height r + 1" "r \<noteq> Leaf" using assms(1-3) by (auto simp: grown_def)
  with assms(1,4) lt show False by (auto simp: grown_def split: if_splits)
qed

text \<open>The insertion on the array refines the one on trees, and terminates.\<close>

definition fresh_node :: "NVDIntervalNode list \<Rightarrow> nat \<Rightarrow> bool" where
  "fresh_node ns a \<longleftrightarrow> 0 < a \<and> a \<le> length ns \<and>
     nd_left (node_at ns a) = 0 \<and> nd_right (node_at ns a) = 0 \<and> nd_height (node_at ns a) = 1"

lemma insert_node_rep:
  "rep ns root t \<Longrightarrow> bst_by S t \<Longrightarrow> avl t \<Longrightarrow> \<forall>y \<in> set_tree t. S y \<noteq> S a \<Longrightarrow> fresh_node ns a \<Longrightarrow>
   \<forall>i > 0. S i = start_of ns i \<Longrightarrow> height t < fuel \<Longrightarrow>
   \<exists>q. insert_node fuel ns root a = Some q \<and>
     (case q of (ns', k) \<Rightarrow> rep ns' k (tins S a t) \<and> keeps (insert a (set_tree t)) ns ns')"
proof (induction t arbitrary: root fuel)
  case Leaf
  then obtain f where "fuel = Suc f" by (cases fuel) auto
  then show ?case using Leaf by (auto simp: fresh_node_def)
next
  case (Node l x r)
  then obtain f where f: "fuel = Suc f" "height l < f" "height r < f" by (cases fuel) auto
  have x: "root = x" "0 < x" "x \<le> length ns" and l: "rep ns (nd_left (node_at ns x)) l"
    and r: "rep ns (nd_right (node_at ns x)) r" using Node.prems(1) by auto
  have bst: "bst_by S l" "bst_by S r" and bal: "avl l" "avl r" "height l \<le> height r + 1" "height r \<le> height l + 1"
    using Node.prems by simp_all
  have ne: "\<forall>y \<in> set_tree l. S y \<noteq> S a" "\<forall>y \<in> set_tree r. S y \<noteq> S a" "S x \<noteq> S a" "x \<noteq> a" "a \<notin> set_tree l" "a \<notin> set_tree r"
    using Node.prems(4) by auto
  note dis = bst_by_distinct [OF Node.prems(2)]
  have a0: "0 < a" using Node.prems(5) by (simp add: fresh_node_def)
  have Sx: "start_of ns x = S x" "start_of ns a = S a" using Node.prems(6) x a0 by auto
  show ?case
  proof (cases "S a < S x")
    case True
    from Node.IH(1) [OF l bst(1) bal(1) ne(1) Node.prems(5,6) f(2)]
    obtain ns1 k where i: "insert_node f ns (nd_left (node_at ns x)) a = Some (ns1, k)"
      and k: "rep ns1 k (tins S a l)" and K1: "keeps (insert a (set_tree l)) ns ns1" by auto
    let ?n2 = "set_left ns1 x k"
    have x1: "x \<le> length ns1" using x keeps_length [OF K1] by simp
    have K2: "keeps {x} ns1 ?n2" by (rule set_left_keeps [OF x(2) x1])
    have x2: "x \<le> length ?n2" using x1 keeps_length [OF K2] by simp
    have run: "insert_node fuel ns root a = Some (rebalance ?n2 x (S a))"
      using True x Sx i by (simp add: f Let_def)
    have nx: "node_at ns1 x = node_at ns x" using K1 x(2) dis(1) ne(4) by (auto simp: keeps_def)
    note K = keeps_trans [OF K1 K2]
    have "case rebalance ?n2 x (S a) of (ns', k) \<Rightarrow> rep ns' k (tbal S (S a) (Node (tins S a l) x r)) \<and>
        keeps (insert x (set_tree (tins S a l) \<union> set_tree r)) ?n2 ns'"
    proof (rule rebalance_rep [OF x(2) x2])
      show "rep ?n2 (nd_left (node_at ?n2 x)) (tins S a l)"
        unfolding links_simps [OF x(2) x1] by (rule rep_keeps [OF k K2]) (use dis ne in \<open>auto simp: tins_set\<close>)
      show "rep ?n2 (nd_right (node_at ?n2 x)) r"
        unfolding links_simps [OF x(2) x1] nx by (rule rep_keeps [OF r K]) (use dis ne in auto)
      show "bst_by S (Node (tins S a l) x r)"
        using tins_bst [OF bst(1) ne(1)] Node.prems(2) True by (auto simp: tins_set)
      show "\<forall>i > 0. S i = start_of ?n2 i" using Node.prems(6) keeps_start [OF K] by simp
      show "\<not> S a > S y" if "height (tins S a l) > height r + 1" "tins S a l = Node ll y Leaf" for ll y
        by (rule grown_left [OF tins_grown [OF bal(1) ne(1)] bal(3) that])
      show "\<not> S a < S y" if "height r > height (tins S a l) + 1" for y
        using that bal(4) tins_grown [OF bal(1) ne(1)] by (auto simp: grown_def)
    qed
    then have "case rebalance ?n2 x (S a) of (ns', k) \<Rightarrow> rep ns' k (tbal S (S a) (Node (tins S a l) x r)) \<and>
        keeps (insert a (set_tree (Node l x r))) ns ns'"
      by (rule run_keeps [OF _ K]) (auto simp: tins_set)
    moreover have "tins S a (Node l x r) = tbal S (S a) (Node (tins S a l) x r)" using True by simp
    ultimately show ?thesis unfolding run by (intro exI conjI) (rule refl, simp only:)
  next
    case False
    from Node.IH(2) [OF r bst(2) bal(2) ne(2) Node.prems(5,6) f(3)]
    obtain ns1 k where i: "insert_node f ns (nd_right (node_at ns x)) a = Some (ns1, k)"
      and k: "rep ns1 k (tins S a r)" and K1: "keeps (insert a (set_tree r)) ns ns1" by auto
    let ?n2 = "set_right ns1 x k"
    have gt: "S x < S a" using False ne(3) by auto
    have x1: "x \<le> length ns1" using x keeps_length [OF K1] by simp
    have K2: "keeps {x} ns1 ?n2" by (rule set_right_keeps [OF x(2) x1])
    have x2: "x \<le> length ?n2" using x1 keeps_length [OF K2] by simp
    have run: "insert_node fuel ns root a = Some (rebalance ?n2 x (S a))"
      using False x Sx i by (simp add: f Let_def)
    have nx: "node_at ns1 x = node_at ns x" using K1 x(2) dis(2) ne(4) by (auto simp: keeps_def)
    note K = keeps_trans [OF K1 K2]
    have "case rebalance ?n2 x (S a) of (ns', k) \<Rightarrow> rep ns' k (tbal S (S a) (Node l x (tins S a r))) \<and>
        keeps (insert x (set_tree l \<union> set_tree (tins S a r))) ?n2 ns'"
    proof (rule rebalance_rep [OF x(2) x2])
      show "rep ?n2 (nd_right (node_at ?n2 x)) (tins S a r)"
        unfolding links_simps [OF x(2) x1] by (rule rep_keeps [OF k K2]) (use dis ne in \<open>auto simp: tins_set\<close>)
      show "rep ?n2 (nd_left (node_at ?n2 x)) l"
        unfolding links_simps [OF x(2) x1] nx by (rule rep_keeps [OF l K]) (use dis ne in auto)
      show "bst_by S (Node l x (tins S a r))"
        using tins_bst [OF bst(2) ne(2)] Node.prems(2) gt by (auto simp: tins_set)
      show "\<forall>i > 0. S i = start_of ?n2 i" using Node.prems(6) keeps_start [OF K] by simp
      show "\<not> S a < S y" if "height (tins S a r) > height l + 1" "tins S a r = Node Leaf y rr" for rr y
        by (rule grown_right [OF tins_grown [OF bal(2) ne(2)] bal(4) that])
      show "\<not> S a > S y" if "height l > height (tins S a r) + 1" for y
        using that bal(3) tins_grown [OF bal(2) ne(2)] by (auto simp: grown_def)
    qed
    then have "case rebalance ?n2 x (S a) of (ns', k) \<Rightarrow> rep ns' k (tbal S (S a) (Node l x (tins S a r))) \<and>
        keeps (insert a (set_tree (Node l x r))) ns ns'"
      by (rule run_keeps [OF _ K]) (auto simp: tins_set)
    moreover have "tins S a (Node l x r) = tbal S (S a) (Node l x (tins S a r))" using False by simp
    ultimately show ?thesis unfolding run by (intro exI conjI) (rule refl, simp only:)
  qed
qed

section \<open>The search\<close>

fun apart :: "(nat \<Rightarrow> u32) \<Rightarrow> (nat \<Rightarrow> u32) \<Rightarrow> nat tree \<Rightarrow> bool" where
  "apart S E Leaf = True"
| "apart S E (Node l x r) \<longleftrightarrow> apart S E l \<and> apart S E r \<and> S x < E x \<and>
     (\<forall>y \<in> set_tree l. E y \<le> S x) \<and> (\<forall>y \<in> set_tree r. E x \<le> S y)"

lemma apart_nonempty: "apart S E t \<Longrightarrow> i \<in> set_tree t \<Longrightarrow> S i < E i"
  by (induction t) auto

lemma apart_bst: "apart S E t \<Longrightarrow> bst_by S t"
proof (induction t)
  case Leaf
  then show ?case by simp
next
  case (Node l x r)
  have "S y < S x" if "y \<in> set_tree l" for y
    using Node.prems apart_nonempty [of S E l, OF _ that] that by fastforce
  moreover have "S x < S y" if "y \<in> set_tree r" for y
    using Node.prems that by fastforce
  ultimately show ?case using Node by simp
qed

lemma meets_range_iff:
  "rep ns k t \<Longrightarrow> apart (start_of ns) (end_of ns) t \<Longrightarrow> height t < fuel \<Longrightarrow>
   meets_range fuel ns k s e = Some (\<exists>i \<in> set_tree t. s < end_of ns i \<and> start_of ns i < e)"
proof (induction t arbitrary: k fuel)
  case Leaf
  then obtain f where "fuel = Suc f" by (cases fuel) auto
  then show ?case using Leaf by simp
next
  case (Node l x r)
  then obtain f where f: "fuel = Suc f" "height l < f" "height r < f" by (cases fuel) auto
  have k: "k = x" "0 < x" and l: "rep ns (nd_left (node_at ns x)) l"
    and r: "rep ns (nd_right (node_at ns x)) r" using Node.prems(1) by auto
  have al: "apart (start_of ns) (end_of ns) l" "\<forall>y \<in> set_tree l. end_of ns y \<le> start_of ns x"
    and ar: "apart (start_of ns) (end_of ns) r" "\<forall>y \<in> set_tree r. end_of ns x \<le> start_of ns y"
    and x: "start_of ns x < end_of ns x" using Node.prems(2) by auto
  consider (left) "e \<le> start_of ns x" | (right) "\<not> e \<le> start_of ns x" "end_of ns x \<le> s"
    | (hit) "\<not> e \<le> start_of ns x" "\<not> end_of ns x \<le> s" by blast
  then show ?case
  proof cases
    case left
    have "\<not> start_of ns i < e" if "i \<in> insert x (set_tree r)" for i
      using that left x ar(2) by (auto simp: not_less intro: order_trans)
    then show ?thesis using left k f Node.IH(1) [OF l al(1) f(2)] by (auto simp: Let_def)
  next
    case right
    have "\<not> s < end_of ns i" if "i \<in> insert x (set_tree l)" for i
      using that right x al(2) by (auto simp: not_less intro: order_trans)
    then show ?thesis using right k f Node.IH(2) [OF r ar(1) f(3)] by (auto simp: Let_def)
  next
    case hit
    then show ?thesis using k f by (auto simp: Let_def)
  qed
qed

section \<open>The invariant of the index\<close>

definition ix_intervals :: "NVDIntervalIndex \<Rightarrow> (u32 \<times> u32) set" where
  "ix_intervals index =
     (\<lambda>i. (start_of (ix_nodes index) i, end_of (ix_nodes index) i)) ` {1 .. ix_count index}"

definition index_tree :: "NVDIntervalIndex \<Rightarrow> nat tree \<Rightarrow> bool" where
  "index_tree index t \<longleftrightarrow>
     rep (ix_nodes index) (ix_root index) t \<and> set_tree t = {1 .. ix_count index} \<and> avl t \<and>
     apart (start_of (ix_nodes index)) (end_of (ix_nodes index)) t \<and>
     (\<forall>i \<in> set_tree t. end_of (ix_nodes index) i \<le> ix_maxEnd index) \<and>
     ix_count index \<le> NVD_INTERVAL_INDEX_CAPACITY \<and>
     ab_size (ix_storage index) = of_nat (ix_count index) * sizeof_NVDIntervalNode"

definition interval_index_ok :: "NVDIntervalIndex \<Rightarrow> bool" where
  "interval_index_ok index \<longleftrightarrow> (\<exists>t. index_tree index t)"

lemma bst_by_size: "bst_by S t \<Longrightarrow> size t = card (set_tree t)"
proof (induction t)
  case Leaf
  then show ?case by simp
next
  case (Node l x r)
  note dis = bst_by_distinct [OF Node.prems]
  have "card (set_tree l \<union> set_tree r) = card (set_tree l) + card (set_tree r)"
    by (rule card_Un_disjoint) (simp_all add: dis)
  then show ?case using Node dis by simp
qed

lemma height_le_size: "height t \<le> size (t :: nat tree)"
  by (induction t) auto

lemma index_tree_size:
  assumes "index_tree index t"
  shows "size t = ix_count index" "height t \<le> ix_count index"
proof -
  have "bst_by (start_of (ix_nodes index)) t" using assms by (auto simp: index_tree_def intro: apart_bst)
  then have "size t = card {1 .. ix_count index}" using bst_by_size assms by (metis index_tree_def)
  then show "size t = ix_count index" by simp
  then show "height t \<le> ix_count index" using height_le_size [of t] by simp
qed

lemma rep_range: "rep ns k t \<Longrightarrow> k \<in> insert 0 (set_tree t)"
  by (cases t) auto

lemma rep_members:
  "rep ns k t \<Longrightarrow> i \<in> set_tree t \<Longrightarrow>
   nd_height (node_at ns i) \<le> height t \<and> nd_left (node_at ns i) \<in> insert 0 (set_tree t) \<and>
   nd_right (node_at ns i) \<in> insert 0 (set_tree t)"
proof (induction t arbitrary: k)
  case Leaf
  then show ?case by simp
next
  case (Node l x r)
  have l: "rep ns (nd_left (node_at ns x)) l" and r: "rep ns (nd_right (node_at ns x)) r"
    and h: "nd_height (node_at ns x) = height (Node l x r)" using Node.prems(1) by auto
  consider "i = x" | "i \<in> set_tree l" | "i \<in> set_tree r" using Node.prems(2) by auto
  then show ?case
  proof cases
    case 1
    then show ?thesis using h rep_range [OF l] rep_range [OF r] by auto
  next
    case 2
    then show ?thesis using Node.IH(1) [OF l] by fastforce
  next
    case 3
    then show ?thesis using Node.IH(2) [OF r] by fastforce
  qed
qed

lemma apart_iff:
  "apart S E t \<longleftrightarrow> bst_by S t \<and> (\<forall>i \<in> set_tree t. S i < E i) \<and>
     (\<forall>i \<in> set_tree t. \<forall>j \<in> set_tree t. S i < S j \<longrightarrow> E i \<le> S j)"
proof
  assume ap: "apart S E t"
  have "E i \<le> S j" if "i \<in> set_tree t" "j \<in> set_tree t" "S i < S j" for i j
    using ap that
  proof (induction t)
    case Leaf
    then show ?case by simp
  next
    case (Node l x r)
    have p: "S y < E y" if "y \<in> insert x (set_tree l \<union> set_tree r)" for y
      using apart_nonempty [OF Node.prems(1)] that by simp
    have lr: "\<forall>y \<in> set_tree l. E y \<le> S x" "\<forall>y \<in> set_tree r. E x \<le> S y" "S x < E x"
      using Node.prems(1) by simp_all
    have ll: "i \<in> set_tree l \<Longrightarrow> j \<in> set_tree l \<Longrightarrow> E i \<le> S j" and rr: "i \<in> set_tree r \<Longrightarrow> j \<in> set_tree r \<Longrightarrow> E i \<le> S j"
      using Node by simp_all
    have "E i \<le> S j" if "i \<in> set_tree l" "j \<in> set_tree r"
      using lr that by (metis order.strict_implies_order order_trans)
    moreover have False if "i \<in> set_tree r" "j \<in> set_tree l"
      using lr that p [of j] Node.prems(4) by (meson insertI2 UnI1 less_le_not_le less_trans not_less order_trans)
    moreover have False if "i = x" "j \<in> set_tree l"
      using lr that p [of j] Node.prems(4) by (meson insertI2 UnI1 less_le_not_le less_trans not_less order_trans)
    moreover have False if "j = x" "i \<in> set_tree r"
      using lr that Node.prems(4) by (meson less_le_not_le less_trans not_less order_trans)
    ultimately show ?case using Node.prems(2-4) ll rr lr by auto
  qed
  then show "bst_by S t \<and> (\<forall>i \<in> set_tree t. S i < E i) \<and>
     (\<forall>i \<in> set_tree t. \<forall>j \<in> set_tree t. S i < S j \<longrightarrow> E i \<le> S j)"
    using apart_bst [OF ap] apart_nonempty [OF ap] by blast
next
  show "bst_by S t \<and> (\<forall>i \<in> set_tree t. S i < E i) \<and>
     (\<forall>i \<in> set_tree t. \<forall>j \<in> set_tree t. S i < S j \<longrightarrow> E i \<le> S j) \<Longrightarrow> apart S E t"
    by (induction t) auto
qed

lemma apart_cong:
  "apart S E t \<Longrightarrow> \<forall>i \<in> set_tree t. S' i = S i \<and> E' i = E i \<Longrightarrow> apart S' E' t"
  by (induction t) auto

lemma rep_extend:
  "rep ns k t \<Longrightarrow> \<forall>i \<in> set_tree t. node_at ns' i = node_at ns i \<and> i \<le> length ns' \<Longrightarrow> rep ns' k t"
  by (induction t arbitrary: k) auto

text \<open>Adding a fresh node for an interval that meets no other one.\<close>

lemma insert_node_apart:
  assumes r: "rep ns root t" and avl: "avl t" and ap: "apart (start_of ns) (end_of ns) t"
    and a: "fresh_node ns a" "start_of ns a < end_of ns a"
    and free: "\<forall>i \<in> set_tree t. end_of ns i \<le> start_of ns a \<or> end_of ns a \<le> start_of ns i"
    and fuel: "height t < fuel"
  shows "\<exists>ns' k t'. insert_node fuel ns root a = Some (ns', k) \<and> rep ns' k t' \<and> avl t' \<and>
    set_tree t' = insert a (set_tree t) \<and> apart (start_of ns') (end_of ns') t' \<and>
    keeps (insert a (set_tree t)) ns ns'"
proof -
  let ?S = "start_of ns" and ?E = "end_of ns"
  let ?t = "tins ?S a t"
  have bst: "bst_by ?S t" and lt: "\<forall>i \<in> set_tree t. ?S i < ?E i"
    and pw: "\<forall>i \<in> set_tree t. \<forall>j \<in> set_tree t. ?S i < ?S j \<longrightarrow> ?E i \<le> ?S j"
    using ap by (simp_all add: apart_iff)
  have ne: "\<forall>y \<in> set_tree t. ?S y \<noteq> ?S a"
    using free apart_nonempty [OF ap] a(2) by (metis not_less)
  from insert_node_rep [of ns root t ?S a fuel, OF r bst avl ne a(1) _ fuel]
  obtain ns' k where q: "insert_node fuel ns root a = Some (ns', k)" "rep ns' k ?t"
    and K: "keeps (insert a (set_tree t)) ns ns'" by auto
  have p: "?E i \<le> ?S a" if "i \<in> set_tree t" "?S i < ?S a" for i
    using free that a(2) by (metis less_trans not_less)
  have p': "?E a \<le> ?S i" if "i \<in> set_tree t" "?S a < ?S i" for i
    using free that apart_nonempty [OF ap that(1)] by (metis less_trans not_less)
  have "?E i \<le> ?S j" if "i \<in> insert a (set_tree t)" "j \<in> insert a (set_tree t)" "?S i < ?S j" for i j
  proof -
    consider "i = a" "j = a" | "i = a" "j \<in> set_tree t" | "i \<in> set_tree t" "j = a" | "i \<in> set_tree t" "j \<in> set_tree t"
      using \<open>i \<in> insert a (set_tree t)\<close> \<open>j \<in> insert a (set_tree t)\<close> by blast
    then show ?thesis
    proof cases
      case 1
      then show ?thesis using \<open>?S i < ?S j\<close> by simp
    next
      case 2
      then show ?thesis using p' \<open>?S i < ?S j\<close> by simp
    next
      case 3
      then show ?thesis using p \<open>?S i < ?S j\<close> by simp
    next
      case 4
      then show ?thesis using pw \<open>?S i < ?S j\<close> by simp
    qed
  qed
  moreover have "\<forall>i \<in> insert a (set_tree t). ?S i < ?E i" using lt a(2) by simp
  moreover have "bst_by ?S ?t" by (rule tins_bst [OF bst ne])
  ultimately have ap': "apart ?S ?E ?t" unfolding apart_iff tins_set by (intro conjI ballI impI) (assumption | blast)+
  have same: "start_of ns' i = ?S i \<and> end_of ns' i = ?E i" if "i \<in> set_tree ?t" for i
    using K rep_pos [OF q(2) that] by (simp add: keeps_def)
  have "apart (start_of ns') (end_of ns') ?t"
    by (rule apart_cong [OF ap']) (simp add: same)
  moreover have "avl ?t" using tins_grown [OF avl ne] by (simp add: grown_def)
  ultimately show ?thesis using q K by (auto simp: tins_set)
qed

section \<open>Insertion into the index\<close>

lemma index_tree_meets:
  assumes t: "index_tree index t"
  shows "(if s < ix_maxEnd index
      then meets_range (Suc (ix_count index)) (ix_nodes index) (ix_root index) s e else Some False) =
    Some (\<exists>(a, b) \<in> ix_intervals index. s < b \<and> a < e)"
proof -
  let ?ns = "ix_nodes index"
  have set: "set_tree t = {1 .. ix_count index}" and m: "\<forall>i \<in> set_tree t. end_of ?ns i \<le> ix_maxEnd index"
    and r: "rep ?ns (ix_root index) t" and ap: "apart (start_of ?ns) (end_of ?ns) t"
    using t by (simp_all add: index_tree_def)
  have "height t < Suc (ix_count index)" using index_tree_size [OF t] by simp
  note q = meets_range_iff [where s = s and e = e, OF r ap this]
  have e: "(\<exists>(a, b) \<in> ix_intervals index. s < b \<and> a < e) \<longleftrightarrow>
      (\<exists>i \<in> set_tree t. s < end_of ?ns i \<and> start_of ?ns i < e)"
    unfolding ix_intervals_def set by auto
  show ?thesis
  proof (cases "s < ix_maxEnd index")
    case True
    then show ?thesis unfolding e q by simp
  next
    case False
    then have "\<not> s < end_of ?ns i" if "i \<in> set_tree t" for i
      using m that by (meson not_less order_trans)
    then show ?thesis unfolding e using False by auto
  qed
qed

definition appended :: "NVDIntervalIndex \<Rightarrow> u32 \<Rightarrow> u32 \<Rightarrow> NVDIntervalNode list" where
  "appended index s e = take (ix_count index) (ix_nodes index) @
     [\<lparr>nd_start = s, nd_end = e, nd_left = 0, nd_right = 0, nd_height = 1\<rparr>]"

lemma appended_nodes:
  assumes "ix_count index \<le> length (ix_nodes index)"
  shows "length (appended index s e) = Suc (ix_count index)"
    "i \<in> {1 .. ix_count index} \<Longrightarrow> node_at (appended index s e) i = node_at (ix_nodes index) i"
    "node_at (appended index s e) (Suc (ix_count index)) =
       \<lparr>nd_start = s, nd_end = e, nd_left = 0, nd_right = 0, nd_height = 1\<rparr>"
  using assms by (auto simp: appended_def node_at_def nth_append)

lemma index_tree_length:
  assumes "index_tree index t"
  shows "ix_count index \<le> length (ix_nodes index)"
proof (cases "ix_count index = 0")
  case False
  then have "ix_count index \<in> set_tree t" using assms by (simp add: index_tree_def)
  then show ?thesis using rep_pos assms by (auto simp: index_tree_def)
qed simp

lemma index_tree_add:
  assumes t: "index_tree index t" and se: "s < e" and c: "ix_count index < NVD_INTERVAL_INDEX_CAPACITY"
    and free: "\<not> (\<exists>(a, b) \<in> ix_intervals index. s < b \<and> a < e)"
    and size: "ab_size st = (of_nat (ix_count index) + 1) * sizeof_NVDIntervalNode"
  shows "\<exists>ns' root t'.
    insert_node (Suc (ix_count index)) (appended index s e) (ix_root index) (Suc (ix_count index)) = Some (ns', root) \<and>
    (let index' = index\<lparr>ix_storage := st, ix_nodes := ns', ix_count := Suc (ix_count index), ix_root := root,
                        ix_maxEnd := (if e > ix_maxEnd index then e else ix_maxEnd index)\<rparr>
     in index_tree index' t' \<and> ix_intervals index' = insert (s, e) (ix_intervals index))"
proof -
  let ?ns = "appended index s e" and ?a = "Suc (ix_count index)"
  note app = appended_nodes [OF index_tree_length [OF t], where s = s and e = e]
  have set: "set_tree t = {1 .. ix_count index}" and m: "\<forall>i \<in> set_tree t. end_of (ix_nodes index) i \<le> ix_maxEnd index"
    and r: "rep (ix_nodes index) (ix_root index) t" and avl: "avl t"
    and ap: "apart (start_of (ix_nodes index)) (end_of (ix_nodes index)) t"
    using t by (simp_all add: index_tree_def)
  have r1: "rep ?ns (ix_root index) t" by (rule rep_extend [OF r]) (use app set in auto)
  have ap1: "apart (start_of ?ns) (end_of ?ns) t" by (rule apart_cong [OF ap]) (use app set in auto)
  have fr: "fresh_node ?ns ?a" "start_of ?ns ?a < end_of ?ns ?a"
    using app(1,3) se by (simp_all add: fresh_node_def)
  have fe: "\<forall>i \<in> set_tree t. end_of ?ns i \<le> start_of ?ns ?a \<or> end_of ?ns ?a \<le> start_of ?ns i"
    using free app(2,3) unfolding set ix_intervals_def by (auto simp: not_less)
  have h: "height t < Suc (ix_count index)" using index_tree_size [OF t] by simp
  obtain ns' k t' where i: "insert_node (Suc (ix_count index)) ?ns (ix_root index) ?a = Some (ns', k)"
    and r': "rep ns' k t'" and avl': "avl t'" and set': "set_tree t' = insert ?a (set_tree t)"
    and ap': "apart (start_of ns') (end_of ns') t'" and K: "keeps (insert ?a (set_tree t)) ?ns ns'"
    using insert_node_apart [OF r1 avl ap1 fr fe h] by blast
  have old: "start_of ns' i = start_of (ix_nodes index) i \<and> end_of ns' i = end_of (ix_nodes index) i"
    if "i \<in> {1 .. ix_count index}" for i
    using K app(2) [OF that] that by (simp add: keeps_def)
  have new: "start_of ns' ?a = s \<and> end_of ns' ?a = e"
    using K app(3) by (simp add: keeps_def)
  have set1: "set_tree t' = {1 .. ?a}" unfolding set' set by auto
  let ?m = "if e > ix_maxEnd index then e else ix_maxEnd index"
  have m': "end_of ns' j \<le> ?m" if "j \<in> set_tree t'" for j
  proof (cases "j = ?a")
    case True
    then show ?thesis using new by (simp add: not_less)
  next
    case False
    then have j: "j \<in> {1 .. ix_count index}" using that set1 by auto
    then have "end_of ns' j \<le> ix_maxEnd index" using old [OF j] m set by auto
    then show ?thesis by auto
  qed
  let ?i = "index\<lparr>ix_storage := st, ix_nodes := ns', ix_count := ?a, ix_root := k, ix_maxEnd := ?m\<rparr>"
  have "of_nat ?a * sizeof_NVDIntervalNode = ab_size st" using size by (simp add: algebra_simps)
  then have T: "index_tree ?i t'"
    using r' avl' ap' set1 m' c unfolding index_tree_def by simp
  have "{1 .. ?a} = insert ?a {1 .. ix_count index}" by auto
  moreover have "(\<lambda>i. (start_of ns' i, end_of ns' i)) ` {1 .. ix_count index} = ix_intervals index"
    unfolding ix_intervals_def using old by (intro image_cong) auto
  ultimately have "ix_intervals ?i = insert (s, e) (ix_intervals index)"
    using new by (simp add: ix_intervals_def)
  with i T show ?thesis unfolding Let_def by blast
qed

lemma index_tree_storage:
  assumes "index_tree index t" "ab_size st = ab_size (ix_storage index)"
  shows "index_tree (index\<lparr>ix_storage := st\<rparr>) t"
    "ix_intervals (index\<lparr>ix_storage := st\<rparr>) = ix_intervals index"
  using assms by (simp_all add: index_tree_def ix_intervals_def)

text \<open>An emptied index satisfies the invariant.\<close>

lemma interval_index_reset:
  "interval_index_ok (nvdIntervalIndexReset index) \<and> ix_intervals (nvdIntervalIndexReset index) = {}"
proof -
  have "index_tree (nvdIntervalIndexReset index) Leaf"
    by (simp add: index_tree_def nvdIntervalIndexReset_def)
  then show ?thesis
    by (auto simp: interval_index_ok_def ix_intervals_def nvdIntervalIndexReset_def)
qed

lemma interval_index_destroy:
  "interval_index_ok (nvdIntervalIndexDestroy index) \<and> ix_intervals (nvdIntervalIndexDestroy index) = {}"
  unfolding nvdIntervalIndexDestroy_def by (rule interval_index_reset)

lemma nvdIntervalIndexInsert_spec:
  assumes "interval_index_ok index"
  shows "\<exists>ok index'. nvdIntervalIndexInsert mem index s e = Some (ok, index') \<and>
    interval_index_ok index' \<and>
    (ok \<longleftrightarrow> s < e \<and> ix_count index < NVD_INTERVAL_INDEX_CAPACITY \<and>
       (\<forall>(a, b) \<in> ix_intervals index. b \<le> s \<or> e \<le> a) \<and>
       fst (reserveBuffer mem (ix_storage index) ((of_nat (ix_count index) + 1) * sizeof_NVDIntervalNode))) \<and>
    ix_intervals index' = (if ok then insert (s, e) (ix_intervals index) else ix_intervals index)"
proof -
  obtain t where t: "index_tree index t" using assms by (auto simp: interval_index_ok_def)
  let ?req = "(of_nat (ix_count index) + 1) * sizeof_NVDIntervalNode"
  let ?hit = "\<exists>(a, b) \<in> ix_intervals index. s < b \<and> a < e"
  have free: "(\<forall>(a, b) \<in> ix_intervals index. b \<le> s \<or> e \<le> a) \<longleftrightarrow> \<not> ?hit" by (auto simp: not_less)
  note run = nvdIntervalIndexInsert_def [of mem index s e] index_tree_meets [OF t, of s e]
  obtain res st0 where rb: "reserveBuffer mem (ix_storage index) ?req = (res, st0)" by fastforce
  consider (bad) "s \<ge> e \<or> ix_count index \<ge> NVD_INTERVAL_INDEX_CAPACITY"
    | (hit) "s < e" "ix_count index < NVD_INTERVAL_INDEX_CAPACITY" ?hit
    | (full) st where "s < e" "ix_count index < NVD_INTERVAL_INDEX_CAPACITY" "\<not> ?hit"
        "reserveBuffer mem (ix_storage index) ?req = (False, st)"
    | (add) st where "s < e" "ix_count index < NVD_INTERVAL_INDEX_CAPACITY" "\<not> ?hit"
        "reserveBuffer mem (ix_storage index) ?req = (True, st)"
  proof (cases "s \<ge> e \<or> ix_count index \<ge> NVD_INTERVAL_INDEX_CAPACITY")
    case False
    then have lt: "s < e" "ix_count index < NVD_INTERVAL_INDEX_CAPACITY" by auto
    show thesis
    proof (cases ?hit)
      case True
      show thesis by (rule hit [OF lt True])
    next
      case no: False
      show thesis
      proof (cases res)
        case True
        with rb show thesis by (intro add [OF lt no]) simp
      next
        case False
        with rb show thesis by (intro full [OF lt no]) simp
      qed
    qed
  qed (rule bad)
  then show ?thesis
  proof cases
    case bad
    then have "nvdIntervalIndexInsert mem index s e = Some (False, index)" by (simp add: run(1))
    then show ?thesis using assms bad by (auto simp: not_less)
  next
    case hit
    then have "nvdIntervalIndexInsert mem index s e = Some (False, index)"
      unfolding run by (simp only: not_less [symmetric] simp_thms if_False option.case bool.case)
    then show ?thesis unfolding free using assms hit(3) by (intro exI [of _ False] exI [of _ index]) simp
  next
    case full
    then have r: "nvdIntervalIndexInsert mem index s e = Some (False, index\<lparr>ix_storage := st\<rparr>)"
      unfolding run Let_def by (simp only: not_less [symmetric] simp_thms if_False option.case bool.case prod.case)
    have "ab_size st = ab_size (ix_storage index)" using reserveBuffer_fail [OF full(4)] by simp
    note T = index_tree_storage [OF t this]
    show ?thesis unfolding r free full(4) using T by (auto simp: interval_index_ok_def)
  next
    case add
    let ?i = "\<lambda>ns' root. index\<lparr>ix_storage := st\<lparr>ab_size := ?req\<rparr>, ix_nodes := ns',
        ix_count := Suc (ix_count index), ix_root := root,
        ix_maxEnd := (if e > ix_maxEnd index then e else ix_maxEnd index)\<rparr>"
    from index_tree_add [OF t add(1-3), of "st\<lparr>ab_size := ?req\<rparr>"]
    obtain ns' root t' where i: "insert_node (Suc (ix_count index)) (appended index s e) (ix_root index)
          (Suc (ix_count index)) = Some (ns', root)"
      and T: "index_tree (?i ns' root) t'"
      and I: "ix_intervals (?i ns' root) = insert (s, e) (ix_intervals index)"
      unfolding Let_def by auto
    have n: "\<not> (s \<ge> e \<or> ix_count index \<ge> NVD_INTERVAL_INDEX_CAPACITY)" and H: "?hit = False"
      using add(1-3) by auto
    have r: "nvdIntervalIndexInsert mem index s e = Some (True, ?i ns' root)"
      unfolding run(1) if_not_P [OF n] run(2) H Let_def add(4) option.case bool.case prod.case
        i [unfolded appended_def] by (rule refl)
    show ?thesis unfolding r free add(4) using T I add(1-3)
      by (intro exI [of _ True] exI [of _ "?i ns' root"] conjI) (simp_all only: fst_conv simp_thms if_True interval_index_ok_def, blast)
  qed
qed

text \<open>C16. 
  The tile index registers a byte range exactly when it is not empty, meets no registered
  range, fewer than 4096 are registered and the storage can be had; otherwise the set of
  ranges is as before. The search loop and the recursive insertion always end, and the index
  stays a balanced search tree.
\<close>

theorem interval_index_insert:
  assumes "interval_index_ok index"
  shows "\<exists>ok index'. nvdIntervalIndexInsert mem index s e = Some (ok, index') \<and>
    interval_index_ok index' \<and>
    (ok \<longleftrightarrow> s < e \<and> ix_count index < NVD_INTERVAL_INDEX_CAPACITY \<and>
       (\<forall>(a, b) \<in> ix_intervals index. b \<le> s \<or> e \<le> a) \<and>
       fst (reserveBuffer mem (ix_storage index) ((of_nat (ix_count index) + 1) * sizeof_NVDIntervalNode))) \<and>
    ix_intervals index' = (if ok then insert (s, e) (ix_intervals index) else ix_intervals index)"
  using assms by (rule nvdIntervalIndexInsert_spec)

text \<open>
  In an index kept by these operations the node identifiers fit the 16 bits and the heights
  the 8 bits that the C structure gives them, so the wider naturals of the model never hide a
  wrap-around: with at most 4096 nodes no height exceeds 25.
\<close>

theorem interval_index_widths:
  assumes "interval_index_ok index"
  shows "ix_root index \<le> 4096 \<and> ix_count index \<le> 4096 \<and>
    (\<forall>i \<in> {1 .. ix_count index}. nd_height (node_at (ix_nodes index) i) \<le> 25 \<and>
       nd_left (node_at (ix_nodes index) i) \<le> 4096 \<and> nd_right (node_at (ix_nodes index) i) \<le> 4096)"
proof -
  obtain t where t: "index_tree index t" using assms by (auto simp: interval_index_ok_def)
  then have c: "ix_count index \<le> 4096" and set: "set_tree t = {1 .. ix_count index}" and avl: "avl t"
    and r: "rep (ix_nodes index) (ix_root index) t"
    by (simp_all add: index_tree_def NVD_INTERVAL_INDEX_CAPACITY_def)
  have "\<not> 13 \<le> height t div 2"
  proof
    assume "13 \<le> height t div 2"
    then have "(2 :: nat) ^ 13 \<le> 2 ^ (height t div 2)" by (rule power_increasing) simp
    with avl_height [OF avl] index_tree_size(1) [OF t] c show False by simp
  qed
  then have h: "height t \<le> 25" by simp
  have "ix_root index \<le> 4096" using rep_range [OF r] set c by auto
  moreover have "nd_height (node_at (ix_nodes index) i) \<le> 25 \<and>
      nd_left (node_at (ix_nodes index) i) \<le> 4096 \<and> nd_right (node_at (ix_nodes index) i) \<le> 4096"
    if "i \<in> {1 .. ix_count index}" for i
    using rep_members [OF r, of i] that set h c by auto
  ultimately show ?thesis using c by blast
qed

text \<open>An index with the range from 10 to 20.\<close>

definition index_example :: NVDIntervalIndex where
  "index_example =
     \<lparr>ix_storage = \<lparr>ab_buf = Some (replicate 256 0), ab_size = 16, ab_allocated = 256, ab_failed = False\<rparr>,
      ix_nodes = [\<lparr>nd_start = 10, nd_end = 20, nd_left = 0, nd_right = 0, nd_height = 1\<rparr>],
      ix_maxEnd = 20, ix_root = 1, ix_count = 1\<rparr>"

lemma index_example_ok: "interval_index_ok index_example"
proof -
  have "index_tree index_example (Node Leaf 1 Leaf)"
    by (simp add: index_tree_def index_example_def node_at_def NVD_INTERVAL_INDEX_CAPACITY_def
        sizeof_NVDIntervalNode_def)
  then show ?thesis by (auto simp: interval_index_ok_def)
qed

lemma index_example_intervals: "ix_intervals index_example = {(10, 20)}"
  by (simp add: ix_intervals_def index_example_def node_at_def)

lemma interval_index_insert_witness:
  "(\<exists>index'. nvdIntervalIndexInsert (\<lambda>_. None) index_example 15 30 = Some (False, index') \<and>
      ix_intervals index' = {(10, 20)}) \<and>
   (\<exists>index'. nvdIntervalIndexInsert (\<lambda>_. None) index_example 20 30 = Some (True, index') \<and>
      ix_intervals index' = {(20, 30), (10, 20)})"
proof (rule conjI)
  have st: "fst (reserveBuffer (\<lambda>_. None) (ix_storage index_example)
      ((of_nat (ix_count index_example) + 1) * sizeof_NVDIntervalNode))"
    by (simp add: index_example_def reserveBuffer_def sizeof_NVDIntervalNode_def)
  have c: "ix_count index_example < NVD_INTERVAL_INDEX_CAPACITY"
    by (simp add: index_example_def NVD_INTERVAL_INDEX_CAPACITY_def)
  show "\<exists>index'. nvdIntervalIndexInsert (\<lambda>_. None) index_example 15 30 = Some (False, index') \<and>
      ix_intervals index' = {(10, 20)}"
    using interval_index_insert [OF index_example_ok, of "\<lambda>_. None" 15 30]
    by (auto simp: index_example_intervals)
  show "\<exists>index'. nvdIntervalIndexInsert (\<lambda>_. None) index_example 20 30 = Some (True, index') \<and>
      ix_intervals index' = {(20, 30), (10, 20)}"
    using interval_index_insert [OF index_example_ok, of "\<lambda>_. None" 20 30] st c
    by (auto simp: index_example_intervals)
qed

lemma interval_index_widths_witness:
  "nd_height (node_at (ix_nodes index_example) 1) \<le> 25"
  using interval_index_widths [OF index_example_ok] by (simp add: index_example_def)

end
