(* ===== verification/CodecAv1.thy ===== *)
theory CodecAv1
  imports CodecAv1Params Av1IntervalsTree
begin

text \<open>
  The AV1 handlers (\<open>src/av1.c\<close>): picture parameters, skip mode references, tile sizes, the
  table of tile offsets and the removal of leading OBUs from the bitstream.

  \<open>av1_ctx\<close> is the part of \<open>NVContext\<close> that they use. Surfaces live in a store indexed by
  address, \<open>a1_ids\<close> finds the address of a surface identifier, \<open>a1_renderTarget\<close> and
  \<open>a1_displayTarget\<close> are addresses, so that a reference frame that is the render target
  itself is one surface. The slice parameters that \<open>lastSliceParams\<close> points to are kept as
  a list, \<open>None\<close> for \<open>NULL\<close>.
\<close>

section \<open>State\<close>

record VASliceParameterBufferAV1 =
  sa_slice_data_size :: u32
  sa_slice_data_offset :: u32
  sa_tile_row :: u16
  sa_tile_column :: u16

record av1_surface =
  as_width :: u32
  as_height :: u32
  as_pictureIdx :: int
  as_order_hint :: int
  as_color :: color_meta

record av1_ctx =
  a1_base :: codec_ctx
  a1_width :: u32
  a1_height :: u32
  a1_surfaces :: "nat \<Rightarrow> av1_surface"
  a1_ids :: "u32 \<Rightarrow> nat option"
  a1_renderTarget :: nat
  a1_displayTarget :: nat
  a1_sequenceEnableRestoration :: bool
  a1_sliceParams :: "VASliceParameterBufferAV1 list option"
  a1_TileOffsetsSeen :: u32
  a1_TileIntervals :: NVDIntervalIndex
  a1_TileSeen :: "u64 list"
  a1_TileMinOffset :: u32
  a1_TileMaxEnd :: u32
  a1_BitstreamCompacted :: bool
  a1_bitstreamDataOffset :: usize

abbreviation fail_av1 :: "av1_ctx \<Rightarrow> av1_ctx" where
  "fail_av1 ctx \<equiv> ctx\<lparr>a1_base := fail_input (a1_base ctx)\<rparr>"

abbreviation a1_bits :: "av1_ctx \<Rightarrow> AppendableBuffer" where
  "a1_bits ctx \<equiv> cx_bitstreamBuffer (a1_base ctx)"

abbreviation a1_offs :: "av1_ctx \<Rightarrow> AppendableBuffer" where
  "a1_offs ctx \<equiv> cx_sliceOffsets (a1_base ctx)"

abbreviation set_bits :: "av1_ctx \<Rightarrow> AppendableBuffer \<Rightarrow> av1_ctx" where
  "set_bits ctx b \<equiv> ctx\<lparr>a1_base := (a1_base ctx)\<lparr>cx_bitstreamBuffer := b\<rparr>\<rparr>"

abbreviation set_offs :: "av1_ctx \<Rightarrow> AppendableBuffer \<Rightarrow> av1_ctx" where
  "set_offs ctx b \<equiv> ctx\<lparr>a1_base := (a1_base ctx)\<lparr>cx_sliceOffsets := b\<rparr>\<rparr>"

section \<open>Numbers\<close>

definition get_relative_dist :: "CUVIDAV1PICPARAMS \<Rightarrow> int \<Rightarrow> int \<Rightarrow> int" where
  "get_relative_dist pps ref_hint order_hint =
     (if \<not> cs_enable_order_hint (ca_seq pps) then 0
      else let diff = ref_hint - order_hint;
               m = 2 ^ cs_order_hint_bits_minus1 (ca_seq pps)
           in and diff (m - 1) - and diff m)"

text \<open>The loop stops at 32 at the latest, where the shifted one no longer fits.\<close>

function tile_log2_from :: "nat \<Rightarrow> u32 \<Rightarrow> nat" where
  "tile_log2_from k numTiles =
     (if k < 32 \<and> push_bit k 1 < numTiles then tile_log2_from (Suc k) numTiles else k)"
  by pat_completeness auto
termination by (relation "measure (\<lambda>(k, n). 32 - k)") auto

declare tile_log2_from.simps [simp del]

definition av1_calc_tile_log2 :: "u32 \<Rightarrow> nat" where
  "av1_calc_tile_log2 numTiles = tile_log2_from 0 numTiles"

definition av1_align_power2 :: "u32 \<Rightarrow> u32 \<Rightarrow> u32" where
  "av1_align_power2 v alignment = and (v + alignment - 1) (not (alignment - 1))"

definition av1_frame_width :: "VADecPictureParameterBufferAV1 \<Rightarrow> u32" where
  "av1_frame_width buf =
     (let width = ucast (va_frame_width_minus1 buf) + 1;
          d = va_superres_scale_denominator buf
      in if vp_use_superres (va_pic buf) \<and> d \<noteq> 8
         then ucast ((u32_to_u64 width * 8 + ucast d div 2) div ucast d) else width)"

definition av1_superblock_count :: "u32 \<Rightarrow> bool \<Rightarrow> u32" where
  "av1_superblock_count pixels use128x128Superblock =
     (let mibSizeLog2 = (if use128x128Superblock then 5 else 4);
          miCount = av1_align_power2 (drop_bit 2 (av1_align_power2 pixels 8)) (push_bit mibSizeLog2 1)
      in drop_bit mibSizeLog2 miCount)"

text \<open>The loop from tile \<open>i\<close> on; \<open>sizes\<close> is the array it writes.\<close>

fun fill_tiles :: "u32 \<Rightarrow> nat \<Rightarrow> nat \<Rightarrow> u32 \<Rightarrow> u16 list \<Rightarrow> u16 list" where
  "fill_tiles tileSize i 0 remaining sizes = sizes"
| "fill_tiles tileSize i (Suc k) remaining sizes =
     (let size = (if k = 0 then remaining else min tileSize remaining)
      in fill_tiles tileSize (Suc i) k (remaining - size) (sizes[i := ucast size]))"

definition fill_uniform_tile_sizes :: "u16 list \<Rightarrow> u32 \<Rightarrow> u32 \<Rightarrow> u16 list" where
  "fill_uniform_tile_sizes sizes numTiles numSuperblocks =
     (let tileLog2 = av1_calc_tile_log2 numTiles;
          tileSize = drop_bit tileLog2 (numSuperblocks + push_bit tileLog2 1 - 1)
      in fill_tiles tileSize 0 (unat numTiles) numSuperblocks sizes)"

section \<open>The OBU walk\<close>

text \<open>At most eight bytes; the result is the position after the last byte read and the value.\<close>

fun leb128_from :: "nat \<Rightarrow> u8 list \<Rightarrow> nat \<Rightarrow> nat \<Rightarrow> u64 \<Rightarrow> (nat \<times> u64) option" where
  "leb128_from 0 buf pos i ret = None"
| "leb128_from (Suc k) buf pos i ret =
     (if pos < length buf then
        let byte = buf ! pos; ret = or ret (push_bit (i * 7) (ucast (and byte 0x7f)))
        in if and byte 0x80 = 0 then Some (Suc pos, ret) else leb128_from k buf (Suc pos) (Suc i) ret
      else None)"

definition av1_read_leb128 :: "u8 list \<Rightarrow> nat \<Rightarrow> (nat \<times> u64) option" where
  "av1_read_leb128 buf pos = leb128_from 8 buf pos 0 0"

text \<open>
  One OBU at \<open>pos\<close>: its type, the start of its payload and its end; \<open>None\<close> is the
  \<open>break\<close> on a truncated or oversized unit. \<open>buf\<close> holds the \<open>size\<close> used bytes.
\<close>

definition obu_at :: "u8 list \<Rightarrow> nat \<Rightarrow> (u8 \<times> nat \<times> nat) option" where
  "obu_at buf pos =
     (let header = buf ! pos;
          obuType = and (drop_bit 3 header) 0x0f;
          hasExtension = and header 0x04 \<noteq> 0;
          hasSize = and header 0x02 \<noteq> 0;
          p1 = Suc pos
      in if hasExtension \<and> p1 \<ge> length buf then None
         else let p2 = (if hasExtension then Suc p1 else p1)
              in case (if hasSize then av1_read_leb128 buf p2 else Some (p2, of_nat (length buf - p2))) of
                   None \<Rightarrow> None
                 | Some (p3, payloadSize) \<Rightarrow>
                     if unat payloadSize > length buf - p3 then None
                     else Some (obuType, p3, p3 + unat payloadSize))"

lemma leb128_pos: "leb128_from n buf pos i ret = Some (p, v) \<Longrightarrow> pos < p \<and> p \<le> length buf"
proof (induction n arbitrary: pos i ret)
  case (Suc n)
  show ?case using Suc.prems Suc.IH [of "Suc pos"] by (fastforce simp: Let_def split: if_splits)
qed simp

lemma obu_at_bounds:
  assumes "obu_at buf pos = Some (ty, s, e)" "pos < length buf"
  shows "pos < s" "s \<le> e" "e \<le> length buf"
proof -
  have "pos < s \<and> s \<le> e \<and> e \<le> length buf"
    using assms leb128_pos [of 8 buf]
    by (fastforce simp: obu_at_def Let_def av1_read_leb128_def split: if_splits option.splits)
  then show "pos < s" "s \<le> e" "e \<le> length buf" by simp_all
qed

function obu_walk :: "u8 list \<Rightarrow> nat \<Rightarrow> nat \<Rightarrow> nat \<Rightarrow> u8 \<Rightarrow> nat" where
  "obu_walk buf tileOffset pos previousObuStart previousObuType =
     (if pos < length buf then
        case obu_at buf pos of
          None \<Rightarrow> 0
        | Some (obuType, payloadStart, obuEnd) \<Rightarrow>
            if payloadStart \<le> tileOffset \<and> tileOffset < obuEnd
            then (if obuType = 4 \<and> previousObuType = 3 then previousObuStart else pos)
            else obu_walk buf tileOffset obuEnd pos obuType
      else 0)"
  by pat_completeness auto
termination
proof (relation "measure (\<lambda>(buf, t, pos, q, ty). length buf - pos)")
  show "((buf, tileOffset, e, pos, ty), buf, tileOffset, pos, prev, prevTy)
      \<in> measure (\<lambda>(buf, t, pos, q, ty). length buf - pos)"
    if "pos < length buf" "obu_at buf pos = Some x" "(ty, y) = x" "(s, e) = y"
      "\<not> (s \<le> tileOffset \<and> tileOffset < e)"
    for buf :: "u8 list" and tileOffset pos prev s e :: nat and prevTy ty :: u8 and x y
    using obu_at_bounds [of buf pos ty s e] that by auto
qed simp

declare obu_walk.simps [simp del]

definition av1_find_obu_start_for_tile :: "u8 list \<Rightarrow> u32 \<Rightarrow> nat" where
  "av1_find_obu_start_for_tile buf tileOffset = obu_walk buf (unat tileOffset) 0 0 0"

section \<open>Compaction of the bitstream\<close>

text \<open>The offsets are an array of 32-bit integers in the bytes of \<open>sliceOffsets\<close>.\<close>

definition read32 :: "u8 list \<Rightarrow> nat \<Rightarrow> u32" where
  "read32 cells i =
     or (ucast (cells ! (4 * i)))
       (or (push_bit 8 (ucast (cells ! (4 * i + 1))))
         (or (push_bit 16 (ucast (cells ! (4 * i + 2)))) (push_bit 24 (ucast (cells ! (4 * i + 3))))))"

definition write32 :: "AppendableBuffer \<Rightarrow> nat \<Rightarrow> u32 \<Rightarrow> AppendableBuffer" where
  "write32 b i v = b\<lparr>ab_buf := Some (write_at (ab_cells b) (4 * i) (le32 v))\<rparr>"

definition lower_offset :: "nat \<Rightarrow> nat \<Rightarrow> AppendableBuffer \<Rightarrow> AppendableBuffer" where
  "lower_offset start i b =
     (let v = read32 (ab_cells b) i
      in if unat v \<ge> start then write32 b i (v - of_nat start) else b)"

definition compactAV1BitstreamToCurrentFrame ::
    "av1_ctx \<Rightarrow> CUVIDAV1PICPARAMS CUVIDPICPARAMS \<Rightarrow> av1_ctx \<times> CUVIDAV1PICPARAMS CUVIDPICPARAMS" where
  "compactAV1BitstreamToCurrentFrame ctx pp =
     (if a1_BitstreamCompacted ctx \<or> ab_buf (a1_bits ctx) = None \<or> a1_TileOffsetsSeen ctx = 0
      then (ctx, pp)
      else if u32_to_u64 (a1_TileMaxEnd ctx) > ab_size (a1_bits ctx) \<or>
              a1_TileMinOffset ctx \<ge> a1_TileMaxEnd ctx
      then (ctx, pp)
      else
        let start = av1_find_obu_start_for_tile (take (unat (ab_size (a1_bits ctx))) (ab_cells (a1_bits ctx)))
                      (a1_TileMinOffset ctx);
            end' = unat (a1_TileMaxEnd ctx)
        in if start = 0 \<or> start \<ge> end' then (ctx, pp)
           else
             let numOffsets = pp_nNumSlices pp * 2;
                 offs = fold (lower_offset start) [0 ..< unat numOffsets] (a1_offs ctx);
                 compactBytes = of_nat (end' - start);
                 ctx1 = (set_offs ctx offs)\<lparr>a1_bitstreamDataOffset := of_nat start\<rparr>;
                 ctx2 = set_bits ctx1 ((a1_bits ctx1)\<lparr>ab_size := compactBytes\<rparr>)
             in (ctx2\<lparr>a1_BitstreamCompacted := True\<rparr>,
                 pp\<lparr>pp_nBitstreamDataLen := u64_to_u32 compactBytes\<rparr>))"

section \<open>Tile offsets\<close>

abbreviation NVD_MAX_AV1_TILES :: u32 where "NVD_MAX_AV1_TILES \<equiv> 4096"

definition ensureAV1SliceOffsetStorage :: "allocator \<Rightarrow> av1_ctx \<Rightarrow> u32 \<Rightarrow> bool \<times> av1_ctx" where
  "ensureAV1SliceOffsetStorage mem ctx numSlices =
     (if numSlices > UINT32_MAX div (2 * 4)
      then (False, set_offs ctx ((a1_offs ctx)\<lparr>ab_failed := True, ab_size := 0\<rparr>))
      else
        let requiredSize = u32_to_u64 numSlices * 2 * 4; oldSize = ab_size (a1_offs ctx)
        in if requiredSize = 0 then (True, set_offs ctx ((a1_offs ctx)\<lparr>ab_size := 0\<rparr>))
           else case reserveBuffer mem (a1_offs ctx) requiredSize of (ok, offs) \<Rightarrow>
             if \<not> ok \<or> ab_buf offs = None \<or> ab_allocated offs < requiredSize
             then (False, set_offs ctx (offs\<lparr>ab_failed := True, ab_size := 0\<rparr>))
             else
               let offs1 = (if requiredSize > oldSize
                            then offs\<lparr>ab_buf := Some (write_at (ab_cells offs) (unat oldSize)
                                         (replicate (unat (requiredSize - oldSize)) 0))\<rparr>
                            else offs)
               in (True, set_offs ctx (offs1\<lparr>ab_size := requiredSize\<rparr>)))"

definition getAV1SliceTileIndex :: "CUVIDAV1PICPARAMS \<Rightarrow> VASliceParameterBufferAV1 \<Rightarrow> u32 option" where
  "getAV1SliceTileIndex pps s =
     (if ucast (sa_tile_row s) \<ge> ca_num_tile_rows pps \<or> ucast (sa_tile_column s) \<ge> ca_num_tile_cols pps
      then None
      else Some (ucast (sa_tile_row s) * ca_num_tile_cols pps + ucast (sa_tile_column s)))"

text \<open>
  One iteration of the loop over the slice parameters: the first component is False for the
  early return. The outer \<open>None\<close> would be a search or insertion that does not end.
\<close>

definition setAV1SliceOffset ::
    "allocator \<Rightarrow> CUVIDAV1PICPARAMS \<Rightarrow> u32 \<Rightarrow> int \<Rightarrow> usize \<Rightarrow> VASliceParameterBufferAV1 \<Rightarrow> av1_ctx \<Rightarrow>
     (bool \<times> av1_ctx) option" where
  "setAV1SliceOffset mem pps numSlices offsetAdjustment sliceDataSize s ctx =
     (let fail = Some (False, fail_av1 ctx) in
      if u32_to_u64 (sa_slice_data_offset s) > sliceDataSize \<or>
         u32_to_u64 (sa_slice_data_size s) > sliceDataSize - u32_to_u64 (sa_slice_data_offset s)
      then fail
      else case getAV1SliceTileIndex pps s of
        None \<Rightarrow> fail
      | Some tileIndex \<Rightarrow>
          if tileIndex \<ge> numSlices then fail
          else
            let cell = unat (drop_bit 6 tileIndex);
                tileBit = push_bit (unat (and tileIndex 63)) (1 :: u64)
            in if and (a1_TileSeen ctx ! cell) tileBit \<noteq> 0 then fail
            else
              let adjustedOffset = offsetAdjustment + uint (sa_slice_data_offset s)
              in if adjustedOffset < 0 \<or> adjustedOffset > uint UINT32_MAX \<or>
                    sa_slice_data_size s > UINT32_MAX - of_int adjustedOffset
              then fail
              else
                let offset = of_int adjustedOffset; end' = offset + sa_slice_data_size s
                in if offset = end' then fail
                else case nvdIntervalIndexInsert mem (a1_TileIntervals ctx) offset end' of
                  None \<Rightarrow> None
                | Some (False, index) \<Rightarrow>
                    let ctx1 = ctx\<lparr>a1_TileIntervals := index\<rparr>
                    in if ab_failed (ix_storage index)
                       then Some (False, set_offs ctx1 ((a1_offs ctx1)\<lparr>ab_failed := True\<rparr>))
                       else Some (False, fail_av1 ctx1)
                | Some (True, index) \<Rightarrow>
                    let offs = write32 (write32 (a1_offs ctx) (unat (tileIndex * 2)) offset)
                                 (unat (tileIndex * 2 + 1)) end'
                    in Some (True, (set_offs ctx offs)
                         \<lparr>a1_TileIntervals := index,
                          a1_TileSeen := (a1_TileSeen ctx)[cell := or (a1_TileSeen ctx ! cell) tileBit],
                          a1_TileMinOffset := (if offset < a1_TileMinOffset ctx then offset else a1_TileMinOffset ctx),
                          a1_TileMaxEnd := (if end' > a1_TileMaxEnd ctx then end' else a1_TileMaxEnd ctx),
                          a1_TileOffsetsSeen := a1_TileOffsetsSeen ctx + 1\<rparr>))"

fun set_slice_offsets ::
    "allocator \<Rightarrow> CUVIDAV1PICPARAMS \<Rightarrow> u32 \<Rightarrow> int \<Rightarrow> usize \<Rightarrow> VASliceParameterBufferAV1 list \<Rightarrow> av1_ctx \<Rightarrow>
     (bool \<times> av1_ctx) option" where
  "set_slice_offsets mem pps n adj nbytes [] ctx = Some (True, ctx)"
| "set_slice_offsets mem pps n adj nbytes (s # ss) ctx =
     (case setAV1SliceOffset mem pps n adj nbytes s ctx of
        None \<Rightarrow> None
      | Some (False, ctx1) \<Rightarrow> Some (False, ctx1)
      | Some (True, ctx1) \<Rightarrow> set_slice_offsets mem pps n adj nbytes ss ctx1)"

definition setAV1SliceOffsets ::
    "allocator \<Rightarrow> av1_ctx \<Rightarrow> CUVIDAV1PICPARAMS CUVIDPICPARAMS \<Rightarrow> VASliceParameterBufferAV1 list \<Rightarrow> u32 \<Rightarrow>
     int \<Rightarrow> usize \<Rightarrow> (av1_ctx \<times> CUVIDAV1PICPARAMS CUVIDPICPARAMS) option" where
  "setAV1SliceOffsets mem ctx pp sliceParams count' offsetAdjustment sliceDataSize =
     (let pps = pp_codec pp;
          numSlices = (if pp_nNumSlices pp = 0
                       then max count' (ca_num_tile_cols pps * ca_num_tile_rows pps) else pp_nNumSlices pp);
          pp1 = pp\<lparr>pp_nNumSlices := numSlices\<rparr>
      in if numSlices > NVD_MAX_AV1_TILES then Some (fail_av1 ctx, pp1)
         else case ensureAV1SliceOffsetStorage mem ctx numSlices of
           (False, ctx1) \<Rightarrow> Some (ctx1, pp1)
         | (True, ctx1) \<Rightarrow>
             (case set_slice_offsets mem pps numSlices offsetAdjustment sliceDataSize
                     (take (unat count') sliceParams) ctx1 of
                None \<Rightarrow> None
              | Some (False, ctx2) \<Rightarrow> Some (ctx2, pp1)
              | Some (True, ctx2) \<Rightarrow>
                  Some (if ab_size (a1_bits ctx2) > 0 \<and> a1_TileOffsetsSeen ctx2 \<ge> numSlices
                        then compactAV1BitstreamToCurrentFrame ctx2 pp1 else (ctx2, pp1))))"

text \<open>The parameters of a buffer, \<open>None\<close> for a \<open>NULL\<close> pointer, and its element count.\<close>

definition copyAV1SliceParam ::
    "allocator \<Rightarrow> av1_ctx \<Rightarrow> VASliceParameterBufferAV1 list option \<Rightarrow> u32 \<Rightarrow>
     CUVIDAV1PICPARAMS CUVIDPICPARAMS \<Rightarrow> (av1_ctx \<times> CUVIDAV1PICPARAMS CUVIDPICPARAMS) option" where
  "copyAV1SliceParam mem ctx params elements pp =
     (let ctx1 = ctx\<lparr>a1_sliceParams := params,
                     a1_base := (a1_base ctx)\<lparr>cx_lastSliceParamsCount := elements\<rparr>\<rparr>
      in case params of
           Some sliceParams \<Rightarrow>
             if ab_size (a1_bits ctx) > 0
             then map_option (\<lambda>(c, p). (c\<lparr>a1_sliceParams := None,
                                          a1_base := (a1_base c)\<lparr>cx_lastSliceParamsCount := 0\<rparr>\<rparr>, p))
                    (setAV1SliceOffsets mem ctx1 pp sliceParams elements 0 (ab_size (a1_bits ctx)))
             else Some (ctx1, pp)
         | None \<Rightarrow> Some (ctx1, pp))"

text \<open>The common end of the slice data handler: append, commit the length, compact when complete.\<close>

definition appendAV1Data ::
    "allocator \<Rightarrow> av1_ctx \<Rightarrow> NVBuffer \<Rightarrow> CUVIDAV1PICPARAMS CUVIDPICPARAMS \<Rightarrow>
     av1_ctx \<times> CUVIDAV1PICPARAMS CUVIDPICPARAMS" where
  "appendAV1Data mem ctx buf pp =
     (let ctx1 = set_bits ctx (snd (appendBuffer mem (a1_bits ctx) (nb_ptr buf) (nb_size buf)));
          (ctx2, pp2) = (case nvCommitCuvidBitstreamLength (Some (a1_base ctx1)) (Some pp) of
                           (_, Some b, Some p) \<Rightarrow> (ctx1\<lparr>a1_base := b\<rparr>, p)
                         | _ \<Rightarrow> (ctx1, pp))
      in if a1_TileOffsetsSeen ctx2 \<ge> pp_nNumSlices pp2
         then compactAV1BitstreamToCurrentFrame ctx2 pp2 else (ctx2, pp2))"

definition copyAV1SliceData ::
    "allocator \<Rightarrow> av1_ctx \<Rightarrow> NVBuffer \<Rightarrow> CUVIDAV1PICPARAMS CUVIDPICPARAMS \<Rightarrow>
     (av1_ctx \<times> CUVIDAV1PICPARAMS CUVIDPICPARAMS) option" where
  "copyAV1SliceData mem ctx buf pp =
     (case nvCanAppendCuvidBitstream (Some (a1_base ctx)) (nb_size buf) of
        (False, b) \<Rightarrow> Some (case b of Some b \<Rightarrow> ctx\<lparr>a1_base := b\<rparr> | None \<Rightarrow> ctx, pp)
      | (True, _) \<Rightarrow>
          if cx_lastSliceParamsCount (a1_base ctx) = 0 then Some (appendAV1Data mem ctx buf pp)
          else map_option (\<lambda>(c, p). appendAV1Data mem c buf p)
                 (setAV1SliceOffsets mem ctx pp (case a1_sliceParams ctx of Some ps \<Rightarrow> ps | None \<Rightarrow> [])
                    (cx_lastSliceParamsCount (a1_base ctx)) (uint (ab_size (a1_bits ctx))) (nb_size buf)))"

definition computeAV1CudaCodec :: "VAProfile \<Rightarrow> cudaVideoCodec" where
  "computeAV1CudaCodec profile =
     (if profile = VAProfileAV1Profile0 \<or> profile = VAProfileAV1Profile1
      then cudaVideoCodec_AV1 else cudaVideoCodec_NONE)"

definition av1SupportedProfiles :: "VAProfile list" where
  "av1SupportedProfiles = [VAProfileAV1Profile0, VAProfileAV1Profile1]"

end
