(* ===== verification/CodecAv1Pic.thy ===== *)
theory CodecAv1Pic
  imports CodecAv1 CodecH264
begin

text \<open>
  The AV1 picture parameter handler (\<open>copyAV1PicParam\<close> of \<open>src/av1.c\<close>), its validation and
  the choice of the skip mode references. The handler is split along the groups of the
  parameters; the lookup of a picture index is a parameter that threads the rest of the
  driver's state, as for the other codecs.
\<close>

section \<open>Validation\<close>

definition validateAV1PictureParams ::
    "VADecPictureParameterBufferAV1 \<Rightarrow> CUVIDAV1PICPARAMS \<Rightarrow> bool" where
  "validateAV1PictureParams buf pps =
     (let cols = unat (va_tile_cols buf); rows = unat (va_tile_rows buf);
          g = va_grain buf; pg = ca_grain pps; d = va_superres_scale_denominator buf
      in if va_bit_depth_idx buf \<ge> 3 \<or>
            (vs_enable_order_hint (va_seq buf) \<and> va_order_hint_bits_minus_1 buf > 7) \<or>
            (vp_use_superres (va_pic buf) \<and> (d < 9 \<or> d > 16)) \<or>
            va_tile_cols buf = 0 \<or> va_tile_rows buf = 0 \<or>
            cols > length (va_width_in_sbs_minus_1 buf) \<or> cols > length (ca_tile_widths pps) \<or>
            rows > length (va_height_in_sbs_minus_1 buf) \<or> rows > length (ca_tile_heights pps) \<or>
            (ucast (va_tile_cols buf) :: u32) > UINT32_MAX div ucast (va_tile_rows buf) \<or>
            (ucast (va_context_update_tile_id buf) :: u32)
              \<ge> ucast (va_tile_cols buf) * ucast (va_tile_rows buf) \<or>
            va_cdef_bits buf > 3 \<or>
            2 ^ va_cdef_bits buf > length (va_cdef_y_strengths buf) \<or>
            2 ^ va_cdef_bits buf > length (va_cdef_uv_strengths buf) \<or>
            2 ^ va_cdef_bits buf > length (ca_cdef_y_strength pps) \<or>
            2 ^ va_cdef_bits buf > length (ca_cdef_uv_strength pps) \<or>
            va_primary_ref_frame buf > 7 \<or>
            vf_num_y_points g > length (fst (vf_points_y g)) \<or>
            vf_num_y_points g > length (cr_scaling_points_y pg) \<or>
            vf_num_cb_points g > length (fst (vf_points_cb g)) \<or>
            vf_num_cb_points g > length (cr_scaling_points_cb pg) \<or>
            vf_num_cr_points g > length (fst (vf_points_cr g)) \<or>
            vf_num_cr_points g > length (cr_scaling_points_cr pg) \<or>
            vr_lr_uv_shift (va_lr buf) > 1 + vr_lr_unit_shift (va_lr buf)
         then False
         else list_all (\<lambda>i. i < length (ca_ref_frame_map pps)) (va_ref_frame_idx buf))"

section \<open>Skip mode\<close>

text \<open>The order hints of the eight reference frames, zero where there is none.\<close>

definition ref_order_hints :: "av1_ctx \<Rightarrow> VADecPictureParameterBufferAV1 \<Rightarrow> int list" where
  "ref_order_hints ctx buf =
     map (\<lambda>i. case a1_ids ctx (va_ref_frame_map buf ! i) of
                None \<Rightarrow> 0
              | Some r \<Rightarrow> (let surf = a1_surfaces ctx r
                          in if as_pictureIdx surf \<noteq> -1 then as_order_hint surf else 0)) [0 ..< 8]"

record skip_refs =
  sk_forwardIdx :: int
  sk_forwardHint :: int
  sk_backwardIdx :: int
  sk_backwardHint :: int

definition skip_step :: "CUVIDAV1PICPARAMS \<Rightarrow> int \<Rightarrow> nat \<times> int \<Rightarrow> skip_refs \<Rightarrow> skip_refs" where
  "skip_step pps order_hint ir r =
     (case ir of (i, refHint) \<Rightarrow>
        if get_relative_dist pps refHint order_hint < 0 then
          (if sk_forwardIdx r < 0 \<or> get_relative_dist pps refHint (sk_forwardHint r) > 0
           then r\<lparr>sk_forwardIdx := int i, sk_forwardHint := refHint\<rparr> else r)
        else if get_relative_dist pps refHint order_hint > 0 then
          (if sk_backwardIdx r < 0 \<or> get_relative_dist pps refHint (sk_backwardHint r) < 0
           then r\<lparr>sk_backwardIdx := int i, sk_backwardHint := refHint\<rparr> else r)
        else r)"

definition second_step :: "CUVIDAV1PICPARAMS \<Rightarrow> int \<Rightarrow> nat \<times> int \<Rightarrow> int \<times> int \<Rightarrow> int \<times> int" where
  "second_step pps forwardHint ir r =
     (case ir of (i, refHint) \<Rightarrow>
        if get_relative_dist pps refHint forwardHint < 0 \<and>
           (fst r < 0 \<or> get_relative_dist pps refHint (snd r) > 0)
        then (int i, refHint) else r)"

text \<open>The two skip mode frames, both zero when skip mode is not allowed.\<close>

definition skip_mode_frames :: "CUVIDAV1PICPARAMS \<Rightarrow> int list \<Rightarrow> int \<Rightarrow> int \<times> int" where
  "skip_mode_frames pps hints order_hint =
     (let refs = enumerate 0 hints;
          r = fold (skip_step pps order_hint) refs
                \<lparr>sk_forwardIdx = -1, sk_forwardHint = 0, sk_backwardIdx = -1, sk_backwardHint = 0\<rparr>
      in if sk_forwardIdx r < 0 then (0, 0)
         else if sk_backwardIdx r \<ge> 0 then
           (min (sk_forwardIdx r) (sk_backwardIdx r) + 1, max (sk_forwardIdx r) (sk_backwardIdx r) + 1)
         else
           let s = fst (fold (second_step pps (sk_forwardHint r)) refs (-1, 0))
           in if s < 0 then (0, 0) else (min (sk_forwardIdx r) s + 1, max (sk_forwardIdx r) s + 1))"

section \<open>The groups of the parameters\<close>

definition av1_seq_of :: "bool \<Rightarrow> VADecPictureParameterBufferAV1 \<Rightarrow> CUVID_AV1_seq" where
  "av1_seq_of restoration buf =
     (let s = va_seq buf
      in \<lparr>cs_profile = va_profile buf,
          cs_use_128x128_superblock = vs_use_128x128_superblock s,
          cs_subsampling_x = vs_subsampling_x s,
          cs_subsampling_y = vs_subsampling_y s,
          cs_mono_chrome = vs_mono_chrome s,
          cs_bit_depth_minus8 = [0, 2, 4] ! va_bit_depth_idx buf,
          cs_enable_filter_intra = vs_enable_filter_intra s,
          cs_enable_intra_edge_filter = vs_enable_intra_edge_filter s,
          cs_enable_interintra_compound = vs_enable_interintra_compound s,
          cs_enable_masked_compound = vs_enable_masked_compound s,
          cs_enable_dual_filter = vs_enable_dual_filter s,
          cs_enable_order_hint = vs_enable_order_hint s,
          cs_order_hint_bits_minus1 = (if vs_enable_order_hint s then va_order_hint_bits_minus_1 buf else 0),
          cs_enable_jnt_comp = vs_enable_jnt_comp s,
          cs_enable_superres = vp_use_superres (va_pic buf),
          cs_enable_cdef = vs_enable_cdef s,
          cs_enable_restoration = restoration,
          cs_enable_fgs = vs_film_grain_params_present s\<rparr>)"

definition av1_frame_of :: "bool \<Rightarrow> VADecPictureParameterBufferAV1 \<Rightarrow> CUVID_AV1_frame" where
  "av1_frame_of intra buf =
     (let p = va_pic buf; m = va_mode buf
      in \<lparr>cf_frame_type = vp_frame_type p,
          cf_show_frame = vp_show_frame p,
          cf_disable_cdf_update = vp_disable_cdf_update p,
          cf_allow_screen_content_tools = vp_allow_screen_content_tools p,
          cf_force_integer_mv = (vp_force_integer_mv p \<or> intra),
          cf_coded_denom = (if vp_use_superres p then uint (va_superres_scale_denominator buf) - 9 else 0),
          cf_allow_intrabc = vp_allow_intrabc p,
          cf_allow_high_precision_mv = vp_allow_high_precision_mv p,
          cf_interp_filter = va_interp_filter buf,
          cf_switchable_motion_mode = vp_is_motion_mode_switchable p,
          cf_use_ref_frame_mvs = vp_use_ref_frame_mvs p,
          cf_disable_frame_end_update_cdf = vp_disable_frame_end_update_cdf p,
          cf_delta_q_present = vm_delta_q_present_flag m,
          cf_delta_q_res = vm_log2_delta_q_res m,
          cf_using_qmatrix = vq_using_qmatrix (va_quant buf),
          cf_use_superres = vp_use_superres p,
          cf_tx_mode = vm_tx_mode m,
          cf_reference_mode = vm_reference_select m,
          cf_allow_warped_motion = vp_allow_warped_motion p,
          cf_reduced_tx_set = vm_reduced_tx_set_used m,
          cf_skip_mode = vm_skip_mode_present m\<rparr>)"

definition av1_quant_of :: "VA_AV1_quant \<Rightarrow> CUVID_AV1_quant" where
  "av1_quant_of q =
     \<lparr>cq_base_qindex = vq_base_qindex q, cq_qp_y_dc_delta_q = vq_y_dc_delta_q q,
      cq_qp_u_dc_delta_q = vq_u_dc_delta_q q, cq_qp_v_dc_delta_q = vq_v_dc_delta_q q,
      cq_qp_u_ac_delta_q = vq_u_ac_delta_q q, cq_qp_v_ac_delta_q = vq_v_ac_delta_q q,
      cq_qm_y = vq_qm_y q, cq_qm_u = vq_qm_u q, cq_qm_v = vq_qm_v q\<rparr>"

definition av1_seg_of :: "VA_AV1_seg \<Rightarrow> CUVID_AV1_seg" where
  "av1_seg_of g =
     \<lparr>cg_enabled = vg_enabled g, cg_update_map = vg_update_map g, cg_update_data = vg_update_data g,
      cg_temporal_update = vg_temporal_update g, cg_feature_mask = take 8 (vg_feature_mask g),
      cg_feature_data = map (take 8) (take 8 (vg_feature_data g))\<rparr>"

definition av1_loop_of :: "VA_AV1_mode_control \<Rightarrow> VA_AV1_loop \<Rightarrow> CUVID_AV1_loop" where
  "av1_loop_of m l =
     \<lparr>cl_level = [vl_filter_level l ! 0, vl_filter_level l ! 1],
      cl_level_u = vl_filter_level_u l, cl_level_v = vl_filter_level_v l,
      cl_sharpness = vl_sharpness_level l,
      cl_delta_enabled = vl_mode_ref_delta_enabled l, cl_delta_update = vl_mode_ref_delta_update l,
      cl_ref_deltas = take 8 (vl_ref_deltas l),
      cl_mode_deltas = [vl_mode_deltas l ! 0, vl_mode_deltas l ! 1],
      cl_delta_lf_present = vm_delta_lf_present_flag m, cl_delta_lf_res = vm_log2_delta_lf_res m,
      cl_delta_lf_multi = vm_delta_lf_multi m\<rparr>"

text \<open>The scalar film grain parameters always, the tables only when grain is applied.\<close>

definition av1_grain_of :: "VA_AV1_film_grain \<Rightarrow> CUVID_AV1_grain \<Rightarrow> CUVID_AV1_grain" where
  "av1_grain_of f old =
     (let points = (\<lambda>n p. zip (take n (fst p)) (take n (snd p)));
          tab = (\<lambda>new old. if vf_apply_grain f then new else old)
      in \<lparr>cr_apply_grain = vf_apply_grain f,
          cr_overlap_flag = vf_overlap_flag f,
          cr_scaling_shift_minus8 = vf_grain_scaling_minus_8 f,
          cr_chroma_scaling_from_luma = vf_chroma_scaling_from_luma f,
          cr_ar_coeff_lag = vf_ar_coeff_lag f,
          cr_ar_coeff_shift_minus6 = vf_ar_coeff_shift_minus_6 f,
          cr_grain_scale_shift = vf_grain_scale_shift f,
          cr_clip_to_restricted_range = vf_clip_to_restricted_range f,
          cr_num_y_points = vf_num_y_points f,
          cr_num_cb_points = vf_num_cb_points f,
          cr_num_cr_points = vf_num_cr_points f,
          cr_random_seed = vf_grain_seed f,
          cr_cb = vf_cb f,
          cr_cr = vf_cr f,
          cr_scaling_points_y =
            (if vf_apply_grain f then points 14 (vf_points_y f) else cr_scaling_points_y old),
          cr_scaling_points_cb =
            (if vf_apply_grain f then points 10 (vf_points_cb f) else cr_scaling_points_cb old),
          cr_scaling_points_cr =
            (if vf_apply_grain f then points 10 (vf_points_cr f) else cr_scaling_points_cr old),
          cr_ar_coeffs_y = tab (take 24 (vf_ar_coeffs_y f)) (cr_ar_coeffs_y old),
          cr_ar_coeffs_cb = tab (take 25 (vf_ar_coeffs_cb f)) (cr_ar_coeffs_cb old),
          cr_ar_coeffs_cr = tab (take 25 (vf_ar_coeffs_cr f)) (cr_ar_coeffs_cr old)\<rparr>)"

definition cdef_strength :: "u8 \<Rightarrow> u8" where
  "cdef_strength s = or (and (drop_bit 2 s) 0x0f) (push_bit 4 (and s 0x03))"

definition cdef_strengths :: "nat \<Rightarrow> u8 list \<Rightarrow> u8 list \<Rightarrow> u8 list" where
  "cdef_strengths n new old = map cdef_strength (take n new) @ drop n old"

definition av1_coded_lossless :: "VA_AV1_quant \<Rightarrow> VA_AV1_seg \<Rightarrow> bool" where
  "av1_coded_lossless q g =
     (if vq_y_dc_delta_q q \<noteq> 0 \<or> vq_u_dc_delta_q q \<noteq> 0 \<or> vq_v_dc_delta_q q \<noteq> 0 \<or>
         vq_u_ac_delta_q q \<noteq> 0 \<or> vq_v_ac_delta_q q \<noteq> 0
      then False
      else list_all (\<lambda>i. \<not> ((and (vg_feature_mask g ! i) 1 \<noteq> 0 \<and>
                             vq_base_qindex q + vg_feature_data g ! i ! 0 \<noteq> 0) \<or>
                            vq_base_qindex q \<noteq> 0)) [0 ..< 8])"

definition av1_tiles_of ::
    "VADecPictureParameterBufferAV1 \<Rightarrow> CUVIDAV1PICPARAMS \<Rightarrow> u16 list \<times> u16 list" where
  "av1_tiles_of buf pps =
     (let sb = vs_use_128x128_superblock (va_seq buf);
          cols = ucast (va_tile_cols buf); rows = ucast (va_tile_rows buf)
      in if vp_uniform_tile_spacing_flag (va_pic buf) then
           (fill_uniform_tile_sizes (ca_tile_widths pps) cols (av1_superblock_count (av1_frame_width buf) sb),
            fill_uniform_tile_sizes (ca_tile_heights pps) rows
              (av1_superblock_count (ucast (va_frame_height_minus1 buf) + 1) sb))
         else
           (map (\<lambda>w. 1 + w) (take (unat cols) (va_width_in_sbs_minus_1 buf)) @
              drop (unat cols) (ca_tile_widths pps),
            map (\<lambda>h. 1 + h) (take (unat rows) (va_height_in_sbs_minus_1 buf)) @
              drop (unat rows) (ca_tile_heights pps)))"

definition av1_ref_of ::
    "av1_ctx \<Rightarrow> VADecPictureParameterBufferAV1 \<Rightarrow> int list \<Rightarrow> nat \<Rightarrow> CUVID_AV1_ref \<Rightarrow> CUVID_AV1_ref" where
  "av1_ref_of ctx buf idx_map i old =
     (let ref_idx = va_ref_frame_idx buf ! i; r = old\<lparr>cx_index := idx_map ! ref_idx\<rparr>
      in case a1_ids ctx (va_ref_frame_map buf ! ref_idx) of
           None \<Rightarrow> r
         | Some a \<Rightarrow> r\<lparr>cx_width := as_width (a1_surfaces ctx a), cx_height := as_height (a1_surfaces ctx a)\<rparr>)"

definition av1_motion_of :: "VA_AV1_wm \<Rightarrow> VA_AV1_wm" where
  "av1_motion_of w =
     \<lparr>vw_invalid = (vw_invalid w \<or> vw_wmtype w = VAAV1TransformationIdentity),
      vw_wmtype = vw_wmtype w, vw_wmmat = take 6 (vw_wmmat w)\<rparr>"

definition update_surface :: "av1_ctx \<Rightarrow> nat \<Rightarrow> (av1_surface \<Rightarrow> av1_surface) \<Rightarrow> av1_ctx" where
  "update_surface ctx r f = ctx\<lparr>a1_surfaces := (a1_surfaces ctx)(r := f (a1_surfaces ctx r))\<rparr>"

definition set_color_metadata :: "av1_ctx \<Rightarrow> nat \<Rightarrow> VAProcColorStandardType \<Rightarrow> bool \<Rightarrow> av1_ctx" where
  "set_color_metadata ctx r std full =
     update_surface ctx r (\<lambda>s. case nvSurfaceSetColorMetadata (Some (as_color s)) std full of
                                 Some c \<Rightarrow> s\<lparr>as_color := c\<rparr> | None \<Rightarrow> s)"

text \<open>The redirection of the output to the display surface when film grain is applied.\<close>

definition av1_display_redirect ::
    "av1_ctx \<Rightarrow> VADecPictureParameterBufferAV1 \<Rightarrow> int \<Rightarrow> av1_ctx \<times> int \<times> int" where
  "av1_display_redirect ctx buf currPicIdx =
     (if vf_apply_grain (va_grain buf) then
        case a1_ids ctx (va_current_display_picture buf) of
          None \<Rightarrow> (ctx, currPicIdx, currPicIdx)
        | Some display \<Rightarrow>
            if display \<noteq> a1_renderTarget ctx \<and> as_pictureIdx (a1_surfaces ctx display) \<ge> 0
            then (ctx\<lparr>a1_displayTarget := display\<rparr>, as_pictureIdx (a1_surfaces ctx display),
                  as_pictureIdx (a1_surfaces ctx (a1_renderTarget ctx)))
            else (ctx, currPicIdx, currPicIdx)
      else (ctx, currPicIdx, currPicIdx))"

text \<open>The tile state of a new picture.\<close>

definition av1_reset_tiles :: "av1_ctx \<Rightarrow> av1_ctx" where
  "av1_reset_tiles ctx =
     ctx\<lparr>a1_TileOffsetsSeen := 0, a1_TileIntervals := nvdIntervalIndexReset (a1_TileIntervals ctx),
         a1_TileSeen := replicate (length (a1_TileSeen ctx)) 0, a1_TileMinOffset := UINT32_MAX,
         a1_TileMaxEnd := 0, a1_BitstreamCompacted := False\<rparr>"

definition copyAV1PicParam ::
    "'s index_lookup \<Rightarrow> 's \<Rightarrow> av1_ctx \<Rightarrow> VADecPictureParameterBufferAV1 \<Rightarrow>
     CUVIDAV1PICPARAMS CUVIDPICPARAMS \<Rightarrow> 's \<times> av1_ctx \<times> CUVIDAV1PICPARAMS CUVIDPICPARAMS" where
  "copyAV1PicParam lookup s ctx buf pp =
     (let pps = pp_codec pp; lr = va_lr buf in
      if \<not> validateAV1PictureParams buf pps then (s, fail_av1 ctx, pp)
      else
        let intra = (vp_frame_type (va_pic buf) = 0 \<or> vp_frame_type (va_pic buf) = 2);
            restoration = (vr_yframe_restoration_type lr \<noteq> 0 \<or> vr_cbframe_restoration_type lr \<noteq> 0 \<or>
                           vr_crframe_restoration_type lr \<noteq> 0 \<or> a1_sequenceEnableRestoration ctx);
            ctx1 = update_surface (av1_reset_tiles (ctx\<lparr>a1_sequenceEnableRestoration := restoration\<rparr>))
                     (a1_renderTarget ctx) (\<lambda>r. r\<lparr>as_order_hint := va_order_hint buf\<rparr>);
            seq = av1_seq_of restoration buf;
            skip = (if vm_skip_mode_present (va_mode buf)
                    then skip_mode_frames (pps\<lparr>ca_seq := seq\<rparr>)
                           (map (\<lambda>k. ref_order_hints ctx1 buf ! k) (take 7 (va_ref_frame_idx buf)))
                           (va_order_hint buf)
                    else (0, 0));
            (idx_map, s1) = run_lookups lookup s (take 8 (va_ref_frame_map buf));
            (ctx2, currPicIdx, decodePicIdx) = av1_display_redirect ctx1 buf (pp_CurrPicIdx pp);
            std = nvColorStandardFromMatrixCoefficients (va_matrix_coefficients buf);
            full = vs_color_range (va_seq buf);
            ctx3 = set_color_metadata ctx2 (a1_renderTarget ctx2) std full;
            ctx4 = (if a1_displayTarget ctx3 \<noteq> a1_renderTarget ctx3
                    then set_color_metadata ctx3 (a1_displayTarget ctx3) std full else ctx3);
            tiles = av1_tiles_of buf pps; bits = va_cdef_bits buf;
            uv_size = 1 + vr_lr_unit_shift lr - vr_lr_uv_shift lr
        in (s1, ctx4,
            pp\<lparr>pp_PicWidthInMbs := uint ((a1_width ctx + 15) div 16),
               pp_FrameHeightInMbs := uint ((a1_height ctx + 15) div 16),
               pp_intra_pic_flag := of_bool intra, pp_ref_pic_flag := 1,
               pp_CurrPicIdx := currPicIdx,
               pp_nNumSlices := ucast (va_tile_cols buf) * ucast (va_tile_rows buf),
               pp_codec :=
                 \<lparr>ca_width = a1_width ctx, ca_height = a1_height ctx,
                  ca_frame_offset = va_order_hint buf, ca_decodePicIdx = decodePicIdx,
                  ca_seq = seq, ca_frame = av1_frame_of intra buf,
                  ca_num_tile_cols = ucast (va_tile_cols buf), ca_num_tile_rows = ucast (va_tile_rows buf),
                  ca_context_update_tile_id = ucast (va_context_update_tile_id buf),
                  ca_tile_widths = fst tiles, ca_tile_heights = snd tiles,
                  ca_cdef_damping_minus_3 = va_cdef_damping_minus_3 buf, ca_cdef_bits = bits,
                  ca_cdef_y_strength = cdef_strengths (2 ^ bits) (va_cdef_y_strengths buf) (ca_cdef_y_strength pps),
                  ca_cdef_uv_strength = cdef_strengths (2 ^ bits) (va_cdef_uv_strengths buf) (ca_cdef_uv_strength pps),
                  ca_SkipModeFrame0 = fst skip, ca_SkipModeFrame1 = snd skip,
                  ca_quant = av1_quant_of (va_quant buf), ca_seg = av1_seg_of (va_seg buf),
                  ca_coded_lossless = av1_coded_lossless (va_quant buf) (va_seg buf),
                  ca_loop = av1_loop_of (va_mode buf) (va_loop buf),
                  ca_lr_type = map (\<lambda>t. [0, 1, 2, 3] ! t)
                    [vr_yframe_restoration_type lr, vr_cbframe_restoration_type lr, vr_crframe_restoration_type lr],
                  ca_lr_unit_size = [1 + vr_lr_unit_shift lr, uv_size, uv_size],
                  ca_grain = av1_grain_of (va_grain buf) (ca_grain pps),
                  ca_ref_frame_map = idx_map,
                  ca_primary_ref_frame =
                    (if va_primary_ref_frame buf = 7 then -1
                     else idx_map ! (va_ref_frame_idx buf ! va_primary_ref_frame buf)),
                  ca_ref_frame =
                    map (\<lambda>i. av1_ref_of ctx4 buf idx_map i (ca_ref_frame pps ! i)) [0 ..< 7],
                  ca_global_motion = map av1_motion_of (take 7 (va_wm buf))\<rparr>\<rparr>))"

end
