(* ===== verification/Av1Tables.thy ===== *)
theory Av1Tables
  imports CodecAv1Pic
begin

text \<open>
  Properties of the AV1 handlers: distances of order hints, uniform tile spacing, the table
  of tile offsets and the compaction of the bitstream.
\<close>

section \<open>Order hints\<close>

lemma relative_dist_bits: "and d (2 ^ k - 1) - and d (2 ^ k) = signed_take_bit k (d :: int)"
proof -
  have "and d (2 ^ k) = of_bool (bit d k) * 2 ^ k" by (simp add: and_exp_eq_0_iff_not_bit flip: bit_eq_iff)
      (auto intro!: bit_eqI simp: bit_simps)
  moreover have "and d (2 ^ k - 1) = take_bit k d" by (simp add: take_bit_eq_mask mask_eq_exp_minus_1)
  moreover have "take_bit (Suc k) d = take_bit k d + 2 ^ k * of_bool (bit d k)"
    by (simp add: take_bit_Suc_from_most add.commute)
  ultimately show ?thesis by (simp add: signed_take_bit_eq_take_bit_minus)
qed

text \<open>
  The distance of two order hints is their difference modulo the hint range, in the range
  symmetric around zero; where the difference fits it is exact, so its sign orders the
  frames. With order hints disabled it is zero.
\<close>

theorem relative_distance:
  "(\<not> cs_enable_order_hint (ca_seq pps) \<longrightarrow> get_relative_dist pps a b = 0) \<and>
   (cs_enable_order_hint (ca_seq pps) \<longrightarrow>
     (let m = 2 ^ cs_order_hint_bits_minus1 (ca_seq pps); d = get_relative_dist pps a b
      in - m \<le> d \<and> d < m \<and> (a - b - d) mod (2 * m) = 0 \<and> (- m \<le> a - b \<and> a - b < m \<longrightarrow> d = a - b)))"
proof -
  let ?k = "cs_order_hint_bits_minus1 (ca_seq pps)"
  have e: "get_relative_dist pps a b = signed_take_bit ?k (a - b)" if "cs_enable_order_hint (ca_seq pps)"
    using that by (simp add: get_relative_dist_def Let_def relative_dist_bits)
  have r: "- (2 ^ ?k) \<le> signed_take_bit ?k (a - b)" "signed_take_bit ?k (a - b) < 2 ^ ?k"
    by (simp_all add: signed_take_bit_int_greater_eq_minus_exp signed_take_bit_int_less_exp)
  have c: "(a - b - signed_take_bit ?k (a - b)) mod (2 * 2 ^ ?k) = 0"
  proof -
    have "take_bit (Suc ?k) (signed_take_bit ?k (a - b)) = take_bit (Suc ?k) (a - b)"
      by (simp add: take_bit_signed_take_bit)
    then show ?thesis by (simp only: take_bit_eq_mod power_Suc mod_eq_dvd_iff [symmetric]) 
        (simp add: mod_eq_dvd_iff dvd_diff_commute)
  qed
  have x: "signed_take_bit ?k (a - b) = a - b" if "- (2 ^ ?k) \<le> a - b" "a - b < 2 ^ ?k"
    using that by (simp add: signed_take_bit_int_eq_self)
  show ?thesis using e r c x by (auto simp: get_relative_dist_def Let_def)
qed

text \<open>Cleared parameters, as at the start of every picture, with order hints of seven bits.\<close>

definition av1_seq_example :: CUVID_AV1_seq where
  "av1_seq_example =
     \<lparr>cs_profile = 0, cs_use_128x128_superblock = False, cs_subsampling_x = 1, cs_subsampling_y = 1,
      cs_mono_chrome = 0, cs_bit_depth_minus8 = 0, cs_enable_filter_intra = 0,
      cs_enable_intra_edge_filter = 0, cs_enable_interintra_compound = 0, cs_enable_masked_compound = 0,
      cs_enable_dual_filter = 0, cs_enable_order_hint = True, cs_order_hint_bits_minus1 = 6,
      cs_enable_jnt_comp = 0, cs_enable_superres = False, cs_enable_cdef = 0, cs_enable_restoration = False,
      cs_enable_fgs = 0\<rparr>"

definition av1_frame_example :: CUVID_AV1_frame where
  "av1_frame_example =
     \<lparr>cf_frame_type = 0, cf_show_frame = 0, cf_disable_cdf_update = 0, cf_allow_screen_content_tools = 0,
      cf_force_integer_mv = False, cf_coded_denom = 0, cf_allow_intrabc = 0, cf_allow_high_precision_mv = 0,
      cf_interp_filter = 0, cf_switchable_motion_mode = 0, cf_use_ref_frame_mvs = 0,
      cf_disable_frame_end_update_cdf = 0, cf_delta_q_present = 0, cf_delta_q_res = 0, cf_using_qmatrix = 0,
      cf_use_superres = False, cf_tx_mode = 0, cf_reference_mode = 0, cf_allow_warped_motion = 0,
      cf_reduced_tx_set = 0, cf_skip_mode = False\<rparr>"

definition av1_grain_example :: CUVID_AV1_grain where
  "av1_grain_example =
     \<lparr>cr_apply_grain = False, cr_overlap_flag = 0, cr_scaling_shift_minus8 = 0,
      cr_chroma_scaling_from_luma = 0, cr_ar_coeff_lag = 0, cr_ar_coeff_shift_minus6 = 0,
      cr_grain_scale_shift = 0, cr_clip_to_restricted_range = 0, cr_num_y_points = 0, cr_num_cb_points = 0,
      cr_num_cr_points = 0, cr_random_seed = 0, cr_cb = (0, 0, 0), cr_cr = (0, 0, 0),
      cr_scaling_points_y = replicate 14 (0, 0), cr_scaling_points_cb = replicate 10 (0, 0),
      cr_scaling_points_cr = replicate 10 (0, 0), cr_ar_coeffs_y = replicate 24 0,
      cr_ar_coeffs_cb = replicate 25 0, cr_ar_coeffs_cr = replicate 25 0\<rparr>"

definition av1_pps_example :: CUVIDAV1PICPARAMS where
  "av1_pps_example =
     \<lparr>ca_width = 64, ca_height = 64, ca_frame_offset = 0, ca_decodePicIdx = 0, ca_seq = av1_seq_example,
      ca_frame = av1_frame_example, ca_num_tile_cols = 2, ca_num_tile_rows = 1,
      ca_context_update_tile_id = 0, ca_tile_widths = replicate 64 0, ca_tile_heights = replicate 64 0,
      ca_cdef_damping_minus_3 = 0, ca_cdef_bits = 0, ca_cdef_y_strength = replicate 8 0,
      ca_cdef_uv_strength = replicate 8 0, ca_SkipModeFrame0 = 0, ca_SkipModeFrame1 = 0,
      ca_quant = \<lparr>cq_base_qindex = 0, cq_qp_y_dc_delta_q = 0, cq_qp_u_dc_delta_q = 0,
        cq_qp_v_dc_delta_q = 0, cq_qp_u_ac_delta_q = 0, cq_qp_v_ac_delta_q = 0, cq_qm_y = 0, cq_qm_u = 0,
        cq_qm_v = 0\<rparr>,
      ca_seg = \<lparr>cg_enabled = 0, cg_update_map = 0, cg_update_data = 0, cg_temporal_update = 0,
        cg_feature_mask = replicate 8 0, cg_feature_data = replicate 8 (replicate 8 0)\<rparr>,
      ca_coded_lossless = False,
      ca_loop = \<lparr>cl_level = [0, 0], cl_level_u = 0, cl_level_v = 0, cl_sharpness = 0, cl_delta_enabled = 0,
        cl_delta_update = 0, cl_ref_deltas = replicate 8 0, cl_mode_deltas = [0, 0],
        cl_delta_lf_present = 0, cl_delta_lf_res = 0, cl_delta_lf_multi = 0\<rparr>,
      ca_lr_type = [0, 0, 0], ca_lr_unit_size = [0, 0, 0], ca_grain = av1_grain_example,
      ca_ref_frame_map = replicate 8 0, ca_primary_ref_frame = 0,
      ca_ref_frame = replicate 7 \<lparr>cx_index = 0, cx_width = 0, cx_height = 0\<rparr>,
      ca_global_motion = replicate 7 \<lparr>vw_invalid = False, vw_wmtype = 0, vw_wmmat = replicate 6 0\<rparr>\<rparr>"

lemma relative_distance_witness: "get_relative_dist av1_pps_example 3 120 = 11"
proof -
  have "let d = get_relative_dist av1_pps_example 3 120
        in - 64 \<le> d \<and> d < 64 \<and> (- 117 - d) mod 128 = 0"
    using relative_distance [of av1_pps_example 3 120]
    by (simp add: av1_pps_example_def av1_seq_example_def Let_def)
  then show ?thesis unfolding Let_def by presburger
qed

section \<open>Uniform tile spacing\<close>

lemma unat_exp_u32: "k < 32 \<Longrightarrow> unat (push_bit k 1 :: u32) = 2 ^ k"
proof -
  assume "k < 32"
  then have "(2 :: nat) ^ k < 2 ^ 32" by (rule power_strict_increasing) simp
  moreover have "(push_bit k 1 :: u32) = of_nat (2 ^ k)" by (simp add: push_bit_of_1)
  ultimately show ?thesis by (simp only: unat_of_nat take_bit_nat_eq_self_iff len_of_numeral_defs) (simp add: take_bit_nat_eq_self)
qed

lemma tile_log2_from_spec:
  "k \<le> 31 \<Longrightarrow> unat n \<le> 2 ^ 31 \<Longrightarrow> k = 0 \<or> 2 ^ (k - 1) < unat n \<Longrightarrow>
   (let r = tile_log2_from k n in r \<le> 31 \<and> unat n \<le> 2 ^ r \<and> (r = 0 \<or> 2 ^ (r - 1) < unat n))"
proof (induction k n rule: tile_log2_from.induct)
  case (1 k n)
  have p: "unat (push_bit k (1 :: u32)) = 2 ^ k"
    using 1(2) by (intro unat_exp_u32) simp
  show ?case
  proof (cases "push_bit k 1 < n")
    case True
    then have lt: "2 ^ k < unat n" using p by (simp add: word_less_nat_alt)
    have "k \<noteq> 31" using lt 1(3) by auto
    then have "Suc k \<le> 31" "k < 32" using 1(2) by simp_all
    with 1(1) True lt 1(3) show ?thesis by (subst tile_log2_from.simps) simp
  next
    case False
    then have "unat n \<le> 2 ^ k" using p by (simp add: word_less_nat_alt)
    with False 1(2-4) show ?thesis by (subst tile_log2_from.simps) (simp add: Let_def)
  qed
qed

lemma fill_tiles_uniform:
  "0 < k \<Longrightarrow> i + k \<le> length sizes \<Longrightarrow> (k - 1) * unat tw \<le> unat remaining \<Longrightarrow>
   fill_tiles tw i k remaining sizes =
     take i sizes @ replicate (k - 1) (ucast tw) @ [ucast (remaining - of_nat (k - 1) * tw)] @ drop (i + k) sizes"
proof (induction tw i k remaining sizes rule: fill_tiles.induct)
  case (1 tw i remaining sizes)
  then show ?case by simp
next
  case (2 tw i k remaining sizes)
  show ?case
  proof (cases k)
    case 0
    then show ?thesis using 2(3) by (simp add: Let_def upd_conv_take_nth_drop)
  next
    case (Suc m)
    then have le: "unat tw + m * unat tw \<le> unat remaining" using 2(4) by simp
    then have tw: "tw \<le> remaining" by (simp add: word_le_nat_alt)
    then have u: "unat (remaining - tw) = unat remaining - unat tw" by (rule unat_sub_le)
    have IH: "fill_tiles tw (Suc i) k (remaining - tw) (sizes[i := ucast tw]) =
        take (Suc i) (sizes[i := ucast tw]) @ replicate (k - 1) (ucast tw) @
        [ucast (remaining - tw - of_nat (k - 1) * tw)] @ drop (Suc i + k) (sizes[i := ucast tw])"
    proof (rule 2(1) [of tw])
      show "tw = (if k = 0 then remaining else min tw remaining)" using tw Suc by (simp add: min_def)
      show "0 < k" "Suc i + k \<le> length (sizes[i := ucast tw])" using 2(3) Suc by simp_all
      show "(k - 1) * unat tw \<le> unat (remaining - tw)" using le u Suc by simp
    qed
    have "fill_tiles tw i (Suc k) remaining sizes = fill_tiles tw (Suc i) k (remaining - tw) (sizes[i := ucast tw])"
      using tw Suc by (simp add: Let_def min_def)
    also have "\<dots> = take (Suc i) (sizes[i := ucast tw]) @ replicate (k - 1) (ucast tw) @
        [ucast (remaining - tw - of_nat (k - 1) * tw)] @ drop (Suc i + k) (sizes[i := ucast tw])"
      by (rule IH)
    also have "take (Suc i) (sizes[i := ucast tw]) = take i sizes @ [ucast tw]"
      using 2(3) by (simp add: take_Suc_conv_app_nth)
    also have "remaining - tw - of_nat (k - 1) * tw = remaining - of_nat k * tw"
      by (simp add: Suc distrib_right diff_diff_add)
    finally show ?thesis by (simp add: Suc)
  qed
qed

lemma ceil_div_bounds:
  fixes s b :: nat
  assumes "0 < s" "0 < b" "c = (s + b - 1) div b"
  shows "0 < c" "(c - 1) * b < s" "s \<le> c * b"
proof -
  have e: "c * b + (s + b - 1) mod b = s + b - 1" unfolding assms(3) by (rule div_mult_mod_eq)
  have m: "(s + b - 1) mod b < b" using assms(2) by simp
  show "s \<le> c * b" using e m assms(1,2) by linarith
  then show "0 < c" using assms(1) by (cases c) auto
  have "(c - 1) * b = c * b - b" by (simp add: diff_mult_distrib)
  then show "(c - 1) * b < s" using e m assms(1,2) by linarith
qed

lemma unat_drop_bit_div: "unat (drop_bit k w) = unat (w :: 'a::len word) div 2 ^ k"
  by (metis drop_bit_eq_div unat_drop_bit_eq)

text \<open>
  The number of tiles a uniform spacing with \<open>2 ^ L\<close> columns yields determines the tile size
  again, although \<open>L\<close> itself is not among the parameters.
\<close>

lemma uniform_log2:
  assumes s: "0 < s" and tw: "tw = (s + 2 ^ L - 1) div 2 ^ L" and n: "n = (s + tw - 1) div tw"
    and r: "n \<le> 2 ^ r" "r = 0 \<or> 2 ^ (r - 1) < n"
  shows "(s + 2 ^ r - 1) div 2 ^ r = tw" "0 < n" "(n - 1) * tw < s" "s \<le> n * (tw :: nat)" "tw \<le> s"
proof -
  note T = ceil_div_bounds [OF s _ tw, simplified]
  have tw0: "0 < tw" and t: "(tw - 1) * 2 ^ L < s \<and> s \<le> tw * 2 ^ L" using T by auto
  have m: "(n - 1) * tw < s \<and> s \<le> n * tw" using ceil_div_bounds [OF s tw0 n] by simp
  then show "(n - 1) * tw < s" "s \<le> n * tw" by simp_all
  show n0: "0 < n" using m s by (cases n) auto
  have up: "s \<le> tw * 2 ^ r" using order_trans [OF conjunct2 [OF m] mult_le_mono1 [OF r(1), of tw]] by (simp only: mult.commute)
  have low: "(tw - 1) * 2 ^ r < s"
  proof (cases "tw = 1")
    case False
    then have tw2: "2 \<le> tw" using tw0 by simp
    have "r \<le> L"
    proof (rule ccontr)
      assume "\<not> r \<le> L"
      then have "L \<le> r - 1" "r \<noteq> 0" by simp_all
      then have "(2 :: nat) ^ L \<le> 2 ^ (r - 1)" by (intro power_increasing) simp_all
      also have "\<dots> < n" using r(2) \<open>r \<noteq> 0\<close> by simp
      finally have "2 ^ L \<le> n - 1" by simp
      then have "tw * 2 ^ L \<le> (n - 1) * tw" by (simp add: mult.commute)
      with t m show False by simp
    qed
    then have "(2 :: nat) ^ r \<le> 2 ^ L" by (intro power_increasing) simp_all
    then have "(tw - 1) * 2 ^ r \<le> (tw - 1) * 2 ^ L" by (rule mult_le_mono2)
    then show ?thesis using conjunct1 [OF t] by (rule le_less_trans)
  qed (use s in simp)
  have "(tw - 1) * 1 \<le> (tw - 1) * 2 ^ r" by (rule mult_le_mono2) simp
  then show "tw \<le> s" using low by linarith
  show "(s + 2 ^ r - 1) div 2 ^ r = tw"
  proof (rule div_nat_eqI)
    show "2 ^ r * tw \<le> s + 2 ^ r - 1" using low tw0 by (cases tw) (auto simp: algebra_simps)
    show "s + 2 ^ r - 1 < 2 ^ r * Suc tw" using up s by (simp add: algebra_simps)
  qed
qed

text \<open>
  With uniform spacing the driver rebuilds the tile sizes from the number of tiles alone. For
  every spacing of the AV1 specification (a tile is the ceiling of the superblocks over a
  power of two, the number of tiles the ceiling of the superblocks over this size) the sizes
  it fills in are those of the specification: all tiles of that size, the last with the rest,
  never empty.
\<close>

theorem uniform_tile_sizes:
  assumes s: "0 < s" "s < 65536" and tw: "tw = (s + 2 ^ L - 1) div 2 ^ L"
    and n: "n = (s + tw - 1) div tw" and len: "n \<le> length sizes" "n \<le> 64"
  shows "fill_uniform_tile_sizes sizes (of_nat n) (of_nat s) =
      replicate (n - 1) (of_nat tw) @ [of_nat (s - (n - 1) * tw)] @ drop n sizes \<and>
    0 < s - (n - 1) * tw \<and> s - (n - 1) * tw \<le> tw"
proof -
  have un: "unat (of_nat n :: u32) = n" using len(2) by (simp add: unat_of_nat take_bit_nat_eq_self)
  have us: "unat (of_nat s :: u32) = s" using s by (simp add: unat_of_nat take_bit_nat_eq_self)
  let ?r = "av1_calc_tile_log2 (of_nat n)"
  have r: "?r \<le> 31" "n \<le> 2 ^ ?r" "?r = 0 \<or> 2 ^ (?r - 1) < n"
    using tile_log2_from_spec [of 0 "of_nat n"] len(2) un by (auto simp: av1_calc_tile_log2_def Let_def)
  note U = uniform_log2 [OF s(1) tw n r(2,3)]
  have p: "(2 :: nat) ^ ?r \<le> 2 ^ 31" using r(1) by (rule power_increasing) simp
  have up: "unat (push_bit ?r 1 :: u32) = 2 ^ ?r" using r(1) by (intro unat_exp_u32) simp
  have one: "1 \<le> (of_nat s + push_bit ?r 1 :: u32)"
    and sum: "unat (of_nat s + push_bit ?r 1 :: u32) = s + 2 ^ ?r"
    using unat_add_no_overflow [of "of_nat s :: u32" "push_bit ?r 1"] us up p s
    by (simp_all add: word_le_nat_alt)
  have "unat (of_nat s + push_bit ?r 1 - 1 :: u32) = s + 2 ^ ?r - 1"
    using unat_sub_le [OF one] sum by simp
  then have ts: "unat (drop_bit ?r (of_nat s + push_bit ?r 1 - 1) :: u32) = tw"
    using U(1) by (simp only: unat_drop_bit_div)
  have tse: "drop_bit ?r (of_nat s + push_bit ?r 1 - 1) = (of_nat tw :: u32)"
    unfolding ts [symmetric] by (simp only: of_nat_unat ucast_id)
  have d: "s - (n - 1) * tw \<le> tw" using U(2,4) by (cases n) auto
  have sub: "(of_nat s - of_nat (n - 1) * of_nat tw :: u32) = of_nat (s - (n - 1) * tw)"
    using U(3) by (simp add: of_nat_diff)
  have cast: "(ucast (of_nat k :: u32) :: u16) = of_nat k" if "k \<le> s" for k
    using that s by (simp add: unsigned_of_nat take_bit_nat_eq_self)
  have utw: "unat (of_nat tw :: u32) = tw" using U(5) s by (simp add: unat_of_nat take_bit_nat_eq_self)
  have "fill_uniform_tile_sizes sizes (of_nat n) (of_nat s) = fill_tiles (of_nat tw) 0 n (of_nat s) sizes"
    by (simp only: fill_uniform_tile_sizes_def Let_def un tse)
  also have "\<dots> = take 0 sizes @ replicate (n - 1) (ucast (of_nat tw :: u32)) @
      [ucast (of_nat s - of_nat (n - 1) * of_nat tw :: u32)] @ drop (0 + n) sizes"
    by (rule fill_tiles_uniform) (use U(2,3) len(1) us utw in simp_all)
  finally show ?thesis using U(3) d cast [OF U(5)] cast [of "s - (n - 1) * tw"]
    by (simp only: sub take_0 append_Nil add_0 diff_le_self zero_less_diff simp_thms)
qed

lemma uniform_tile_sizes_witness:
  "fill_uniform_tile_sizes (replicate 64 0) 5 9 = replicate 4 2 @ [1] @ replicate 59 0"
  using uniform_tile_sizes [of 9 2 3 5 "replicate 64 0"] by simp

section \<open>Offsets in a byte buffer\<close>

lemma read32_le32:
  "or (ucast (ucast v :: u8)) (or (push_bit 8 (ucast (ucast (drop_bit 8 v) :: u8)))
     (or (push_bit 16 (ucast (ucast (drop_bit 16 v) :: u8)))
       (push_bit 24 (ucast (ucast (drop_bit 24 v) :: u8))))) = (v :: u32)"
proof (rule bit_word_eqI)
  fix n
  assume "n < LENGTH(32)"
  then consider "n < 8" | "8 \<le> n" "n < 16" | "16 \<le> n" "n < 24" | "24 \<le> n" "n < 32" by fastforce
  then show "bit (or (ucast (ucast v :: u8)) (or (push_bit 8 (ucast (ucast (drop_bit 8 v) :: u8)))
     (or (push_bit 16 (ucast (ucast (drop_bit 16 v) :: u8)))
       (push_bit 24 (ucast (ucast (drop_bit 24 v) :: u8))))) :: u32) n = bit v n"
    by cases (simp_all add: bit_simps less_diff_conv2)
qed

lemma length_le32 [simp]: "length (le32 v) = 4"
  by (simp add: le32_def)

lemma write_at_nth:
  "i + length ys \<le> length xs \<Longrightarrow> j < length xs \<Longrightarrow>
   write_at xs i ys ! j = (if i \<le> j \<and> j < i + length ys then ys ! (j - i) else xs ! j)"
  by (auto simp: write_at_def nth_append min_def)

lemma read32_write32:
  assumes "4 * i + 4 \<le> length cells" "4 * j + 4 \<le> length cells"
  shows "read32 (write_at cells (4 * i) (le32 v)) j = (if j = i then v else read32 cells j)"
proof -
  have n: "write_at cells (4 * i) (le32 v) ! (4 * j + k) =
      (if j = i then le32 v ! k else cells ! (4 * j + k))" if "k < 4" for k
  proof -
    have "i < j \<or> j < i \<or> j = i" by linarith
    then have "4 * i \<le> 4 * j + k \<and> 4 * j + k < 4 * i + 4 \<longleftrightarrow> j = i" using that by auto
    then show ?thesis using assms that by (subst write_at_nth) auto
  qed
  have l: "le32 v ! 0 = ucast v" "le32 v ! 1 = ucast (drop_bit 8 v)"
    "le32 v ! 2 = ucast (drop_bit 16 v)" "le32 v ! 3 = ucast (drop_bit 24 v)"
    by (simp_all add: le32_def)
  have n': "write_at cells (4 * i) (le32 v) ! (4 * j) = (if j = i then le32 v ! 0 else cells ! (4 * j))"
    "write_at cells (4 * i) (le32 v) ! (4 * j + 1) = (if j = i then le32 v ! 1 else cells ! (4 * j + 1))"
    "write_at cells (4 * i) (le32 v) ! (4 * j + 2) = (if j = i then le32 v ! 2 else cells ! (4 * j + 2))"
    "write_at cells (4 * i) (le32 v) ! (4 * j + 3) = (if j = i then le32 v ! 3 else cells ! (4 * j + 3))"
    using n [of 0] n [of 1] n [of 2] n [of 3] by simp_all
  show ?thesis
  proof (cases "j = i")
    case True
    then show ?thesis unfolding read32_def n' if_P [OF True] l by (simp only: read32_le32 if_P simp_thms)
  next
    case False
    then show ?thesis unfolding read32_def n' if_not_P [OF False] by (simp only: if_False simp_thms)
  qed
qed

lemma write32_cells [simp]:
  "ab_cells (write32 b i v) = write_at (ab_cells b) (4 * i) (le32 v)"
  "ab_size (write32 b i v) = ab_size b" "ab_allocated (write32 b i v) = ab_allocated b"
  "ab_failed (write32 b i v) = ab_failed b"
  by (simp_all add: write32_def)

lemma lower_offsets:
  assumes "4 * m \<le> length (ab_cells b)"
  shows "length (ab_cells (fold (lower_offset start) [0 ..< m] b)) = length (ab_cells b) \<and>
    (\<forall>i. 4 * i + 4 \<le> length (ab_cells b) \<longrightarrow>
      read32 (ab_cells (fold (lower_offset start) [0 ..< m] b)) i =
        (if i < m \<and> start \<le> unat (read32 (ab_cells b) i)
         then read32 (ab_cells b) i - of_nat start else read32 (ab_cells b) i))"
  using assms
proof (induction m)
  case 0
  then show ?case by simp
next
  case (Suc m)
  let ?b = "fold (lower_offset start) [0 ..< m] b"
  have IH: "length (ab_cells ?b) = length (ab_cells b)"
    "\<And>i. 4 * i + 4 \<le> length (ab_cells b) \<Longrightarrow> read32 (ab_cells ?b) i =
        (if i < m \<and> start \<le> unat (read32 (ab_cells b) i)
         then read32 (ab_cells b) i - of_nat start else read32 (ab_cells b) i)"
    using Suc.IH Suc.prems by auto
  have m: "4 * m + 4 \<le> length (ab_cells b)" using Suc.prems by simp
  have e: "fold (lower_offset start) [0 ..< Suc m] b = lower_offset start m ?b" by simp
  have rm: "read32 (ab_cells ?b) m = read32 (ab_cells b) m" using IH(2) [OF m] by simp
  have r: "read32 (ab_cells (lower_offset start m ?b)) i =
      (if i < Suc m \<and> start \<le> unat (read32 (ab_cells b) i)
       then read32 (ab_cells b) i - of_nat start else read32 (ab_cells b) i)"
    if i: "4 * i + 4 \<le> length (ab_cells b)" for i
  proof (cases "start \<le> unat (read32 (ab_cells b) m)")
    case True
    then have "ab_cells (lower_offset start m ?b) =
        write_at (ab_cells ?b) (4 * m) (le32 (read32 (ab_cells b) m - of_nat start))"
      by (simp add: lower_offset_def Let_def rm)
    then have "read32 (ab_cells (lower_offset start m ?b)) i =
        (if i = m then read32 (ab_cells b) m - of_nat start else read32 (ab_cells ?b) i)"
      using read32_write32 [of m "ab_cells ?b" i] m i IH(1) by simp
    then show ?thesis using IH(2) [OF i] True by (auto simp: less_Suc_eq)
  next
    case False
    then have "lower_offset start m ?b = ?b" by (simp add: lower_offset_def Let_def rm)
    then show ?thesis using IH(2) [OF i] False by (auto simp: less_Suc_eq)
  qed
  have "length (ab_cells (lower_offset start m ?b)) = length (ab_cells b)"
    using m IH(1) by (simp add: lower_offset_def Let_def)
  then show ?case unfolding e using r by blast
qed

section \<open>Compaction\<close>

lemma obu_walk_le: "prev \<le> pos \<Longrightarrow> obu_walk buf t pos prev ty \<le> t"
proof (induction buf t pos prev ty rule: obu_walk.induct)
  case (1 buf t pos prev ty)
  show ?case
  proof (cases "pos < length buf")
    case True
    show ?thesis
    proof (cases "obu_at buf pos")
      case None
      then show ?thesis by (subst obu_walk.simps) simp
    next
      case (Some x)
      obtain ty' s e where x: "x = (ty', s, e)" by (cases x)
      note b = obu_at_bounds [OF Some [unfolded x] True]
      show ?thesis
      proof (cases "s \<le> t \<and> t < e")
        case hit: True
        then show ?thesis using Some x True b 1(2) by (subst obu_walk.simps) simp
      next
        case False
        have "obu_walk buf t e pos ty' \<le> t"
          by (rule 1(1) [OF True Some x [symmetric] refl False]) (use b in simp)
        then show ?thesis using Some x True False by (subst obu_walk.simps) auto
      qed
    qed
  next
    case False
    then show ?thesis by (subst obu_walk.simps) simp
  qed
qed

text \<open>The bytes of a range of the bitstream, as NVDEC gets it from the data offset on.\<close>

definition tile_bytes :: "av1_ctx \<Rightarrow> u32 \<Rightarrow> u32 \<Rightarrow> u8 list" where
  "tile_bytes ctx offset end' =
     take (unat end' - unat offset) (drop (unat offset)
       (take (unat (ab_size (a1_bits ctx))) (drop (unat (a1_bitstreamDataOffset ctx)) (ab_cells (a1_bits ctx)))))"

lemma compact_run:
  assumes "compactAV1BitstreamToCurrentFrame ctx pp = (ctx', pp')" "\<not> a1_BitstreamCompacted ctx"
    "a1_BitstreamCompacted ctx'"
  obtains start where "0 < start" "start \<le> unat (a1_TileMinOffset ctx)" "start < unat (a1_TileMaxEnd ctx)"
    "unat (a1_TileMaxEnd ctx) \<le> unat (ab_size (a1_bits ctx))"
    "ab_cells (a1_bits ctx') = ab_cells (a1_bits ctx)"
    "ab_size (a1_bits ctx') = of_nat (unat (a1_TileMaxEnd ctx) - start)"
    "a1_bitstreamDataOffset ctx' = of_nat start"
    "a1_offs ctx' = fold (lower_offset start) [0 ..< unat (pp_nNumSlices pp * 2)] (a1_offs ctx)"
    "pp' = pp\<lparr>pp_nBitstreamDataLen := u64_to_u32 (of_nat (unat (a1_TileMaxEnd ctx) - start))\<rparr>"
proof -
  let ?start = "av1_find_obu_start_for_tile (take (unat (ab_size (a1_bits ctx))) (ab_cells (a1_bits ctx)))
      (a1_TileMinOffset ctx)"
  have le: "?start \<le> unat (a1_TileMinOffset ctx)"
    unfolding av1_find_obu_start_for_tile_def by (rule obu_walk_le) simp
  have c: "\<not> (a1_BitstreamCompacted ctx \<or> ab_buf (a1_bits ctx) = None \<or> a1_TileOffsetsSeen ctx = 0)"
    "\<not> (u32_to_u64 (a1_TileMaxEnd ctx) > ab_size (a1_bits ctx) \<or> a1_TileMinOffset ctx \<ge> a1_TileMaxEnd ctx)"
    "\<not> (?start = 0 \<or> ?start \<ge> unat (a1_TileMaxEnd ctx))"
    using assms by (auto simp: compactAV1BitstreamToCurrentFrame_def Let_def split: if_splits)
  note run = assms(1) [unfolded compactAV1BitstreamToCurrentFrame_def Let_def if_not_P [OF c(1)]
      if_not_P [OF c(2)] if_not_P [OF c(3)]]
  show thesis
  proof (rule that [of ?start])
    show "unat (a1_TileMaxEnd ctx) \<le> unat (ab_size (a1_bits ctx))"
      using c(2) by (auto simp: word_less_nat_alt not_less)
    show "0 < ?start" "?start \<le> unat (a1_TileMinOffset ctx)" "?start < unat (a1_TileMaxEnd ctx)"
      using c(3) le by auto
  qed (use run in \<open>auto simp: ab_cells_def\<close>)
qed


text \<open>A temporal delimiter, then a frame OBU whose three bytes of tile data start at offset 4.\<close>

definition av1_ctx_example :: av1_ctx where
  "av1_ctx_example =
     \<lparr>a1_base = \<lparr>cx_bitstreamBuffer = \<lparr>ab_buf = Some [0x12, 0, 0x32, 3, 7, 8, 9], ab_size = 7,
           ab_allocated = 7, ab_failed = False\<rparr>,
         cx_sliceOffsets = \<lparr>ab_buf = Some [4, 0, 0, 0, 7, 0, 0, 0], ab_size = 8, ab_allocated = 8,
           ab_failed = False\<rparr>,
         cx_lastSliceParams = [], cx_lastSliceParamsCount = 0, cx_inputValidationFailed = False,
         cx_decodeSurfaceReferenceHint = 0, cx_progressiveFrame = True\<rparr>,
      a1_width = 64, a1_height = 64,
      a1_surfaces = (\<lambda>_. \<lparr>as_width = 64, as_height = 64, as_pictureIdx = 0, as_order_hint = 0,
         as_color = \<lparr>cm_colorStandard = VAProcColorStandardNone, cm_colorRangeFull = False\<rparr>\<rparr>),
      a1_ids = (\<lambda>_. None), a1_renderTarget = 0, a1_displayTarget = 0,
      a1_sequenceEnableRestoration = False, a1_sliceParams = None, a1_TileOffsetsSeen = 1,
      a1_TileIntervals = index_example, a1_TileSeen = replicate 64 0, a1_TileMinOffset = 4,
      a1_TileMaxEnd = 7, a1_BitstreamCompacted = False, a1_bitstreamDataOffset = 0\<rparr>"

definition av1_pic_example :: "CUVIDAV1PICPARAMS CUVIDPICPARAMS" where
  "av1_pic_example =
     \<lparr>pp_PicWidthInMbs = 4, pp_FrameHeightInMbs = 4, pp_CurrPicIdx = 0, pp_field_pic_flag = 0,
      pp_bottom_field_flag = 0, pp_second_field = 0, pp_nBitstreamDataLen = 7, pp_nNumSlices = 1,
      pp_ref_pic_flag = 1, pp_intra_pic_flag = 0, pp_codec = av1_pps_example\<rparr>"

lemma example_obu_start: "obu_walk [0x12, 0, 0x32, 3, 7, 8, 9] 4 0 0 0 = 2"
proof -
  have l: "leb128_from 8 buf pos i ret = leb128_from (Suc 7) buf pos i ret" for buf pos i ret by simp
  have l1: "leb128_from 8 [0x12, 0, 0x32, 3, 7, 8, 9] (Suc 0) 0 0 = Some (2, 0)"
    "leb128_from 8 [0x12, 0, 0x32, 3, 7, 8, 9] 3 0 0 = Some (4, 3)"
    unfolding l leb128_from.simps by (simp_all add: Let_def)
  have 1: "obu_at [0x12, 0, 0x32, 3, 7, 8, 9] 0 = Some (2, 2, 2)"
    by (simp add: obu_at_def av1_read_leb128_def Let_def l1)
  have 2: "obu_at [0x12, 0, 0x32, 3, 7, 8, 9] 2 = Some (6, 4, 7)"
    by (simp add: obu_at_def av1_read_leb128_def Let_def l1)
  show ?thesis by (subst obu_walk.simps, subst obu_walk.simps) (simp add: 1 2)
qed


end
