(* ===== verification/Av1TileTable.thy ===== *)
theory Av1TileTable
  imports Av1Tables
begin

text \<open>
  The table of tile offsets of an AV1 picture: its invariant, and that every accepted slice
  parameter fills exactly its tile's slot with a range that meets no other tile's.
\<close>

section \<open>The invariant\<close>

definition tile_seen :: "av1_ctx \<Rightarrow> nat \<Rightarrow> bool" where
  "tile_seen ctx t \<longleftrightarrow> bit (a1_TileSeen ctx ! (t div 64)) (t mod 64)"

abbreviation tile_lo :: "av1_ctx \<Rightarrow> nat \<Rightarrow> u32" where
  "tile_lo ctx t \<equiv> read32 (ab_cells (a1_offs ctx)) (2 * t)"

abbreviation tile_hi :: "av1_ctx \<Rightarrow> nat \<Rightarrow> u32" where
  "tile_hi ctx t \<equiv> read32 (ab_cells (a1_offs ctx)) (2 * t + 1)"

definition tile_table :: "nat \<Rightarrow> av1_ctx \<Rightarrow> bool" where
  "tile_table n ctx \<longleftrightarrow>
     interval_index_ok (a1_TileIntervals ctx) \<and> length (a1_TileSeen ctx) = 64 \<and> n \<le> 4096 \<and>
     8 * n \<le> length (ab_cells (a1_offs ctx)) \<and>
     (\<forall>t < 4096. tile_seen ctx t \<longrightarrow> t < n) \<and>
     unat (a1_TileOffsetsSeen ctx) = card {t. t < n \<and> tile_seen ctx t} \<and>
     (\<forall>t < n. tile_seen ctx t \<longrightarrow>
        (tile_lo ctx t, tile_hi ctx t) \<in> ix_intervals (a1_TileIntervals ctx) \<and> tile_lo ctx t < tile_hi ctx t \<and>
        a1_TileMinOffset ctx \<le> tile_lo ctx t \<and> tile_hi ctx t \<le> a1_TileMaxEnd ctx) \<and>
     (\<forall>t < n. \<forall>u < n. tile_seen ctx t \<longrightarrow> tile_seen ctx u \<longrightarrow> t \<noteq> u \<longrightarrow>
        tile_hi ctx t \<le> tile_lo ctx u \<or> tile_hi ctx u \<le> tile_lo ctx t)"

text \<open>The reset at the start of the picture parameters gives an empty table.\<close>

lemma tile_table_reset:
  assumes "length (a1_TileSeen ctx) = 64" "n \<le> 4096" "8 * n \<le> length (ab_cells (a1_offs ctx))"
  shows "tile_table n (av1_reset_tiles ctx) \<and> (\<forall>t < 4096. \<not> tile_seen (av1_reset_tiles ctx) t)"
proof -
  have "\<not> tile_seen (av1_reset_tiles ctx) t" if "t < 4096" for t
    using that assms(1) by (simp add: tile_seen_def av1_reset_tiles_def less_mult_imp_div_less)
  then show ?thesis
    using assms interval_index_reset [of "a1_TileIntervals ctx"]
    by (auto simp: tile_table_def av1_reset_tiles_def)
qed

lemma and_bit_iff: "k < 64 \<Longrightarrow> and w (push_bit k 1) \<noteq> 0 \<longleftrightarrow> bit (w :: u64) k"
proof -
  assume k: "k < 64"
  have "bit (and w (push_bit k 1)) j \<longleftrightarrow> bit w k \<and> j = k" for j
    using k by (auto simp: bit_simps)
  then show ?thesis by (metis bit_0_eq bot_apply bot_bool_def bit_eq_iff bit_0)
qed

lemma or_bit_iff: "k < 64 \<Longrightarrow> bit (or w (push_bit k 1)) j \<longleftrightarrow> bit (w :: u64) j \<or> j = k"
  by (auto simp: bit_simps)

lemma tile_bit:
  fixes t :: u32
  shows "unat (drop_bit 6 t) = unat t div 64" "unat (and t 63) = unat t mod 64"
proof -
  show "unat (drop_bit 6 t) = unat t div 64" by (simp only: unat_drop_bit_div) simp
  have "and t 63 = take_bit 6 t" by (simp add: take_bit_eq_mask mask_eq_exp_minus_1)
  then have "unat (and t 63) = unat (take_bit 6 t)" by simp
  also have "\<dots> = take_bit 6 (unat t)" by (simp only: unsigned_take_bit_eq)
  also have "\<dots> = unat t mod 64" by (simp only: take_bit_eq_mod) simp
  finally show "unat (and t 63) = unat t mod 64" .
qed

section \<open>One slice parameter\<close>

lemma uint_of_int_u32: "0 \<le> a \<Longrightarrow> a \<le> 4294967295 \<Longrightarrow> uint (of_int a :: u32) = a"
  by (simp add: unsigned_of_int take_bit_int_eq_self)

text \<open>What an accepted slice parameter does to the table.\<close>

definition slot_filled :: "CUVIDAV1PICPARAMS \<Rightarrow> int \<Rightarrow> av1_ctx \<Rightarrow> VASliceParameterBufferAV1 \<Rightarrow> bool" where
  "slot_filled pps adj ctx s \<longleftrightarrow>
     (case getAV1SliceTileIndex pps s of
        None \<Rightarrow> False
      | Some t \<Rightarrow> tile_seen ctx (unat t) \<and>
          uint (tile_lo ctx (unat t)) = adj + uint (sa_slice_data_offset s) \<and>
          uint (tile_hi ctx (unat t)) = adj + uint (sa_slice_data_offset s) + uint (sa_slice_data_size s))"

lemma setAV1SliceOffset_accept:
  assumes "setAV1SliceOffset mem pps n adj bytes s ctx = Some (True, ctx')"
  obtains t offset index where "getAV1SliceTileIndex pps s = Some t" "t < n"
    "and (a1_TileSeen ctx ! unat (drop_bit 6 t)) (push_bit (unat (and t 63)) 1) = 0"
    "uint offset = adj + uint (sa_slice_data_offset s)"
    "unat (sa_slice_data_size s) \<le> unat (UINT32_MAX - offset)" "0 < sa_slice_data_size s"
    "nvdIntervalIndexInsert mem (a1_TileIntervals ctx) offset (offset + sa_slice_data_size s) = Some (True, index)"
    "ctx' = (set_offs ctx (write32 (write32 (a1_offs ctx) (unat (t * 2)) offset) (unat (t * 2 + 1))
        (offset + sa_slice_data_size s)))
      \<lparr>a1_TileIntervals := index,
       a1_TileSeen := (a1_TileSeen ctx)[unat (drop_bit 6 t) :=
         or (a1_TileSeen ctx ! unat (drop_bit 6 t)) (push_bit (unat (and t 63)) 1)],
       a1_TileMinOffset := (if offset < a1_TileMinOffset ctx then offset else a1_TileMinOffset ctx),
       a1_TileMaxEnd := (if offset + sa_slice_data_size s > a1_TileMaxEnd ctx
         then offset + sa_slice_data_size s else a1_TileMaxEnd ctx),
       a1_TileOffsetsSeen := a1_TileOffsetsSeen ctx + 1\<rparr>"
proof -
  obtain t where t: "getAV1SliceTileIndex pps s = Some t"
    using assms by (auto simp: setAV1SliceOffset_def Let_def split: option.splits if_splits)
  let ?a = "adj + uint (sa_slice_data_offset s)"
  have c: "\<not> (u32_to_u64 (sa_slice_data_offset s) > bytes \<or>
         u32_to_u64 (sa_slice_data_size s) > bytes - u32_to_u64 (sa_slice_data_offset s))"
    using assms by (auto simp: setAV1SliceOffset_def Let_def split: if_splits)
  note r1 = assms [unfolded setAV1SliceOffset_def Let_def if_not_P [OF c] t option.case]
  have d: "\<not> t \<ge> n" "\<not> and (a1_TileSeen ctx ! unat (drop_bit 6 t)) (push_bit (unat (and t 63)) 1) \<noteq> 0"
    "\<not> (?a < 0 \<or> ?a > uint UINT32_MAX \<or> sa_slice_data_size s > UINT32_MAX - of_int ?a)"
    "\<not> of_int ?a = of_int ?a + sa_slice_data_size s"
    using r1 by (auto split: if_splits)
  note r2 = r1 [unfolded if_not_P [OF d(1)] if_not_P [OF d(2)] if_not_P [OF d(3)] if_not_P [OF d(4)]]
  obtain index where i: "nvdIntervalIndexInsert mem (a1_TileIntervals ctx) (of_int ?a)
      (of_int ?a + sa_slice_data_size s) = Some (True, index)"
    using r2 by (auto split: option.splits prod.splits bool.splits if_splits)
  have a: "0 \<le> ?a" "?a \<le> uint UINT32_MAX" using d(3) by auto
  show thesis
  proof (rule that [OF t])
    show "t < n" "and (a1_TileSeen ctx ! unat (drop_bit 6 t)) (push_bit (unat (and t 63)) 1) = 0"
      using d(1,2) by simp_all
    show "uint (of_int ?a :: u32) = ?a" by (rule uint_of_int_u32) (use a in simp_all)
    show "unat (sa_slice_data_size s) \<le> unat (UINT32_MAX - of_int ?a)"
      using d(3) by (simp add: word_less_nat_alt not_less)
    show "0 < sa_slice_data_size s" using d(4) by (simp add: word_gt_0)
  qed (rule i, use r2 [unfolded i option.case prod.case bool.case] in \<open>simp only: option.inject prod.inject simp_thms\<close>)
qed

lemma slot_positions:
  fixes t :: u32
  assumes "unat t < 4096"
  shows "unat (t * 2) = 2 * unat t" "unat (t * 2 + 1) = 2 * unat t + 1"
  using assms by (simp_all add: unat_word_ariths)

lemma tile_seen_update:
  assumes "length seen = 64" "T < 4096" "u < 4096"
  shows "bit (seen[T div 64 := or (seen ! (T div 64)) (push_bit (T mod 64) (1 :: u64))] ! (u div 64)) (u mod 64) \<longleftrightarrow>
    bit (seen ! (u div 64)) (u mod 64) \<or> u = T"
proof -
  have d: "T div 64 < 64" "u div 64 < 64" using assms(2,3) by (simp_all add: less_mult_imp_div_less)
  have e: "u = T \<longleftrightarrow> u div 64 = T div 64 \<and> u mod 64 = T mod 64" by (metis div_mult_mod_eq)
  show ?thesis
  proof (cases "u div 64 = T div 64")
    case True
    then show ?thesis using d assms(1) e by (simp add: or_bit_iff [unfolded push_bit_of_1])
  next
    case False
    then show ?thesis using e by auto
  qed
qed

lemma tile_table_accept:
  assumes table: "tile_table (unat n) ctx" and run: "setAV1SliceOffset mem pps n adj bytes s ctx = Some (True, ctx')"
  obtains T where "getAV1SliceTileIndex pps s = Some (of_nat T)" "T < unat n" "\<not> tile_seen ctx T"
    "\<forall>u < 4096. tile_seen ctx' u \<longleftrightarrow> tile_seen ctx u \<or> u = T"
    "\<forall>u < unat n. u \<noteq> T \<longrightarrow> tile_lo ctx' u = tile_lo ctx u \<and> tile_hi ctx' u = tile_hi ctx u"
    "tile_table (unat n) ctx'" "slot_filled pps adj ctx' s"
proof -
  obtain t offset index where t: "getAV1SliceTileIndex pps s = Some t" "t < n"
    and clear: "and (a1_TileSeen ctx ! unat (drop_bit 6 t)) (push_bit (unat (and t 63)) 1) = 0"
    and off: "uint offset = adj + uint (sa_slice_data_offset s)"
      "unat (sa_slice_data_size s) \<le> unat (UINT32_MAX - offset)" "0 < sa_slice_data_size s"
    and ins: "nvdIntervalIndexInsert mem (a1_TileIntervals ctx) offset (offset + sa_slice_data_size s) = Some (True, index)"
    and c': "ctx' = (set_offs ctx (write32 (write32 (a1_offs ctx) (unat (t * 2)) offset) (unat (t * 2 + 1))
        (offset + sa_slice_data_size s)))
      \<lparr>a1_TileIntervals := index,
       a1_TileSeen := (a1_TileSeen ctx)[unat (drop_bit 6 t) :=
         or (a1_TileSeen ctx ! unat (drop_bit 6 t)) (push_bit (unat (and t 63)) 1)],
       a1_TileMinOffset := (if offset < a1_TileMinOffset ctx then offset else a1_TileMinOffset ctx),
       a1_TileMaxEnd := (if offset + sa_slice_data_size s > a1_TileMaxEnd ctx
         then offset + sa_slice_data_size s else a1_TileMaxEnd ctx),
       a1_TileOffsetsSeen := a1_TileOffsetsSeen ctx + 1\<rparr>"
    by (rule setAV1SliceOffset_accept [OF run])
  define T where "T = unat t"
  define hi where "hi = offset + sa_slice_data_size s"
  have n: "unat n \<le> 4096" and len: "length (a1_TileSeen ctx) = 64"
    and L: "8 * unat n \<le> length (ab_cells (a1_offs ctx))" and iok: "interval_index_ok (a1_TileIntervals ctx)"
    and below: "\<forall>u < 4096. tile_seen ctx u \<longrightarrow> u < unat n"
    and num: "unat (a1_TileOffsetsSeen ctx) = card {u. u < unat n \<and> tile_seen ctx u}"
    and slots: "\<forall>u < unat n. tile_seen ctx u \<longrightarrow>
        (tile_lo ctx u, tile_hi ctx u) \<in> ix_intervals (a1_TileIntervals ctx) \<and> tile_lo ctx u < tile_hi ctx u \<and>
        a1_TileMinOffset ctx \<le> tile_lo ctx u \<and> tile_hi ctx u \<le> a1_TileMaxEnd ctx"
    and dis: "\<forall>t < unat n. \<forall>u < unat n. tile_seen ctx t \<longrightarrow> tile_seen ctx u \<longrightarrow> t \<noteq> u \<longrightarrow>
        tile_hi ctx t \<le> tile_lo ctx u \<or> tile_hi ctx u \<le> tile_lo ctx t"
    using table by (simp_all add: tile_table_def)
  have T: "T < unat n" "T < 4096" using t(2) n by (simp_all add: T_def word_less_nat_alt)
  note pos = slot_positions [of t, folded T_def, OF T(2)]
  note b = tile_bit [of t, folded T_def]
  have hiv: "unat hi = unat offset + unat (sa_slice_data_size s)" and lt: "offset < hi"
  proof -
    have "offset \<le> UINT32_MAX" using unat_u32_less [of offset] by (simp add: word_le_nat_alt)
    then have "unat (UINT32_MAX - offset) = 4294967295 - unat offset" by (simp only: unat_sub_le unat_max_word32)
    then have "unat (sa_slice_data_size s) \<le> 4294967295 - unat offset"
      using off(2) by simp
    then have "unat offset + unat (sa_slice_data_size s) < 2 ^ LENGTH(32)"
      using unat_u32_less [of offset] by simp
    then show "unat hi = unat offset + unat (sa_slice_data_size s)"
      unfolding hi_def by (rule unat_add_no_overflow)
    then show "offset < hi" using off(3) by (simp add: word_less_nat_alt)
  qed
  have spec: "interval_index_ok index \<and> (\<forall>(a, b) \<in> ix_intervals (a1_TileIntervals ctx). b \<le> offset \<or> hi \<le> a) \<and>
      ix_intervals index = insert (offset, hi) (ix_intervals (a1_TileIntervals ctx))"
    using nvdIntervalIndexInsert_spec [OF iok, of mem offset hi] ins by (auto simp: hi_def)
  have new: "\<not> tile_seen ctx T"
    using clear and_bit_iff [of "T mod 64" "a1_TileSeen ctx ! (T div 64)"] by (auto simp: tile_seen_def b)
  have seen: "tile_seen ctx' u \<longleftrightarrow> tile_seen ctx u \<or> u = T" if "u < 4096" for u
    using tile_seen_update [OF len T(2) that] by (simp add: tile_seen_def c' b)
  have cells: "ab_cells (a1_offs ctx') = write_at (write_at (ab_cells (a1_offs ctx)) (4 * (2 * T)) (le32 offset))
      (4 * (2 * T + 1)) (le32 hi)" by (simp add: c' pos hi_def)
  have L': "length (ab_cells (a1_offs ctx')) = length (ab_cells (a1_offs ctx))"
    using T L unfolding cells by simp
  have rd: "read32 (ab_cells (a1_offs ctx')) i =
      (if i = 2 * T + 1 then hi else if i = 2 * T then offset else read32 (ab_cells (a1_offs ctx)) i)"
    if "i < 2 * unat n" for i
    unfolding cells using that T L by (subst read32_write32, simp, simp, subst read32_write32) simp_all
  have lo_T: "tile_lo ctx' T = offset" "tile_hi ctx' T = hi" using rd [of "2 * T"] rd [of "2 * T + 1"] T by simp_all
  have old: "tile_lo ctx' u = tile_lo ctx u \<and> tile_hi ctx' u = tile_hi ctx u" if "u < unat n" "u \<noteq> T" for u
  proof -
    have "2 * u \<noteq> 2 * T + 1" "2 * u \<noteq> 2 * T" "2 * u + 1 \<noteq> 2 * T + 1" "2 * u + 1 \<noteq> 2 * T"
      using that(2) by presburger+
    then show ?thesis using rd [of "2 * u"] rd [of "2 * u + 1"] that(1) by simp
  qed
  have set: "{u. u < unat n \<and> tile_seen ctx' u} = insert T {u. u < unat n \<and> tile_seen ctx u}"
    using seen T n by auto
  have fin: "finite {u. u < unat n \<and> tile_seen ctx u}" by simp
  have "card {u. u < unat n \<and> tile_seen ctx u} \<le> card {..< unat n}" by (rule card_mono) auto
  then have "unat (a1_TileOffsetsSeen ctx) \<le> 4096" using num n by simp
  then have "unat (a1_TileOffsetsSeen ctx') = Suc (unat (a1_TileOffsetsSeen ctx))"
    by (simp add: c' unat_word_ariths)
  then have num': "unat (a1_TileOffsetsSeen ctx') = card {u. u < unat n \<and> tile_seen ctx' u}"
    using num new fin by (simp add: set)
  have slot': "(tile_lo ctx' u, tile_hi ctx' u) \<in> ix_intervals (a1_TileIntervals ctx') \<and> tile_lo ctx' u < tile_hi ctx' u \<and>
      a1_TileMinOffset ctx' \<le> tile_lo ctx' u \<and> tile_hi ctx' u \<le> a1_TileMaxEnd ctx'"
    if u: "u < unat n" "tile_seen ctx' u" for u
  proof (cases "u = T")
    case True
    have "(offset, hi) \<in> ix_intervals (a1_TileIntervals ctx')" using spec by (simp add: c')
    then show ?thesis using True lo_T lt by (auto simp: c' hi_def [symmetric] not_less)
  next
    case False
    then have s: "tile_seen ctx u" using u seen n by auto
    note S = slots [rule_format, OF u(1) s]
    have "(tile_lo ctx u, tile_hi ctx u) \<in> ix_intervals (a1_TileIntervals ctx')" using spec S by (simp add: c')
    moreover have "a1_TileMinOffset ctx' \<le> tile_lo ctx u" "tile_hi ctx u \<le> a1_TileMaxEnd ctx'"
      using S by (auto simp: c' not_less intro: order_trans)
    ultimately show ?thesis using old [OF u(1) False] S by simp
  qed
  have apartT: "tile_hi ctx u \<le> offset \<or> hi \<le> tile_lo ctx u" if "u < unat n" "tile_seen ctx u" for u
    using spec slots [rule_format, OF that] by blast
  have dis': "tile_hi ctx' u \<le> tile_lo ctx' v \<or> tile_hi ctx' v \<le> tile_lo ctx' u"
    if uv: "u < unat n" "v < unat n" "tile_seen ctx' u" "tile_seen ctx' v" "u \<noteq> v" for u v
  proof -
    have s: "u \<noteq> T \<Longrightarrow> tile_seen ctx u" "v \<noteq> T \<Longrightarrow> tile_seen ctx v" using uv seen n by auto
    consider "u = T" "v \<noteq> T" | "u \<noteq> T" "v = T" | "u \<noteq> T" "v \<noteq> T" using uv(5) by blast
    then show ?thesis
    proof cases
      case 1
      then show ?thesis using lo_T old [OF uv(2) 1(2)] apartT [OF uv(2) s(2) [OF 1(2)]] by auto
    next
      case 2
      then show ?thesis using lo_T old [OF uv(1) 2(1)] apartT [OF uv(1) s(1) [OF 2(1)]] by auto
    next
      case 3
      then show ?thesis using old [OF uv(1) 3(1)] old [OF uv(2) 3(2)]
          dis [rule_format, OF uv(1,2) s(1) [OF 3(1)] s(2) [OF 3(2)] uv(5)] by simp
    qed
  qed
  have "tile_table (unat n) ctx'"
    unfolding tile_table_def
  proof (intro conjI allI impI)
    show "interval_index_ok (a1_TileIntervals ctx')" using spec by (simp add: c')
    show "length (a1_TileSeen ctx') = 64" using len by (simp add: c')
    show "unat n \<le> 4096" by (rule n)
    show "8 * unat n \<le> length (ab_cells (a1_offs ctx'))" using L L' by simp
    show "u < unat n" if "u < 4096" "tile_seen ctx' u" for u using that seen below T by auto
    show "unat (a1_TileOffsetsSeen ctx') = card {u. u < unat n \<and> tile_seen ctx' u}" by (rule num')
  qed (use slot' dis' in blast)+
  moreover have "slot_filled pps adj ctx' s"
  proof -
    have "uint hi = uint offset + uint (sa_slice_data_size s)"
      using hiv by (metis of_nat_add uint_nat)
    then show ?thesis using t(1) seen [OF T(2)] lo_T off(1) by (simp add: slot_filled_def T_def [symmetric])
  qed
  moreover have "of_nat T = t" by (simp add: T_def)
  ultimately show thesis using that [of T] t(1) T(1) new seen old by blast
qed

lemma tile_table_reject:
  assumes table: "tile_table (unat n) ctx" and run: "setAV1SliceOffset mem pps n adj bytes s ctx = Some (False, ctx')"
  shows "tile_table (unat n) ctx' \<and> (cx_inputValidationFailed (a1_base ctx') \<or> ab_failed (a1_offs ctx'))"
proof -
  have iok: "interval_index_ok (a1_TileIntervals ctx)" using table by (simp add: tile_table_def)
  have "ctx' = fail_av1 ctx \<or> (\<exists>offset end' index.
      nvdIntervalIndexInsert mem (a1_TileIntervals ctx) offset end' = Some (False, index) \<and>
      (ctx' = set_offs (ctx\<lparr>a1_TileIntervals := index\<rparr>) ((a1_offs ctx)\<lparr>ab_failed := True\<rparr>) \<or>
       ctx' = fail_av1 (ctx\<lparr>a1_TileIntervals := index\<rparr>)))"
    using run unfolding setAV1SliceOffset_def Let_def
    by (auto split: option.splits if_splits prod.splits bool.splits)
  then consider (input) "ctx' = fail_av1 ctx"
    | (index) offset end' index where
      "nvdIntervalIndexInsert mem (a1_TileIntervals ctx) offset end' = Some (False, index)"
      "ctx' = set_offs (ctx\<lparr>a1_TileIntervals := index\<rparr>) ((a1_offs ctx)\<lparr>ab_failed := True\<rparr>) \<or>
       ctx' = fail_av1 (ctx\<lparr>a1_TileIntervals := index\<rparr>)" by blast
  then show ?thesis
  proof cases
    case input
    then show ?thesis using table by (simp add: tile_table_def tile_seen_def)
  next
    case index
    have A: "interval_index_ok index" "ix_intervals index = ix_intervals (a1_TileIntervals ctx)"
      using nvdIntervalIndexInsert_spec [OF iok, of mem offset end'] index(1) by auto
    from index(2) show ?thesis
    proof (elim disjE)
      assume e: "ctx' = set_offs (ctx\<lparr>a1_TileIntervals := index\<rparr>) ((a1_offs ctx)\<lparr>ab_failed := True\<rparr>)"
      show ?thesis using table A unfolding e by (simp add: tile_table_def tile_seen_def)
    next
      assume e: "ctx' = fail_av1 (ctx\<lparr>a1_TileIntervals := index\<rparr>)"
      show ?thesis using table A unfolding e by (simp add: tile_table_def tile_seen_def)
    qed
  qed
qed

lemma setAV1SliceOffset_ends:
  assumes "tile_table n ctx"
  obtains r ctx' where "setAV1SliceOffset mem pps k adj bytes s ctx = Some (r, ctx')"
proof -
  have iok: "interval_index_ok (a1_TileIntervals ctx)" using assms by (simp add: tile_table_def)
  have no: "(nvdIntervalIndexInsert mem (a1_TileIntervals ctx) a b = None) = False" for a b
    using nvdIntervalIndexInsert_spec [OF iok, of mem a b] by auto
  have "setAV1SliceOffset mem pps k adj bytes s ctx \<noteq> None"
    unfolding setAV1SliceOffset_def Let_def by (auto simp: no split: option.splits prod.splits bool.splits)
  then show thesis using that by auto
qed

section \<open>All slice parameters of a buffer\<close>

lemma slot_filled_kept:
  assumes "slot_filled pps adj ctx s" "tile_table n ctx"
    "\<And>u. u < 4096 \<Longrightarrow> tile_seen ctx u \<Longrightarrow> tile_seen ctx' u"
    "\<And>u. u < n \<Longrightarrow> tile_seen ctx u \<Longrightarrow> tile_lo ctx' u = tile_lo ctx u \<and> tile_hi ctx' u = tile_hi ctx u"
    "\<And>t. getAV1SliceTileIndex pps s = Some t \<Longrightarrow> unat t < n"
  shows "slot_filled pps adj ctx' s"
proof -
  obtain t where t: "getAV1SliceTileIndex pps s = Some t" "tile_seen ctx (unat t)"
    using assms(1) by (auto simp: slot_filled_def split: option.splits)
  have "unat t < n" "unat t < 4096" using assms(5) [OF t(1)] assms(2) by (auto simp: tile_table_def)
  then show ?thesis using assms(1) t assms(3) [of "unat t"] assms(4) [of "unat t"] by (simp add: slot_filled_def)
qed

lemma set_slice_offsets_spec:
  "tile_table (unat n) ctx \<Longrightarrow>
   \<exists>r ctx'. set_slice_offsets mem pps n adj bytes ss ctx = Some (r, ctx') \<and> tile_table (unat n) ctx' \<and>
     (\<not> r \<longrightarrow> cx_inputValidationFailed (a1_base ctx') \<or> ab_failed (a1_offs ctx')) \<and>
     (r \<longrightarrow> (\<forall>s \<in> set ss. slot_filled pps adj ctx' s) \<and>
        (\<forall>u < unat n. tile_seen ctx u \<longrightarrow> tile_seen ctx' u \<and>
           tile_lo ctx' u = tile_lo ctx u \<and> tile_hi ctx' u = tile_hi ctx u) \<and>
        (\<forall>u < unat n. tile_seen ctx' u \<longrightarrow> tile_seen ctx u \<or>
           (\<exists>s \<in> set ss. getAV1SliceTileIndex pps s = Some (of_nat u))) \<and>
        distinct (map (getAV1SliceTileIndex pps) ss) \<and>
        (\<forall>s \<in> set ss. \<exists>T < unat n. getAV1SliceTileIndex pps s = Some (of_nat T) \<and> \<not> tile_seen ctx T))"
proof (induction ss arbitrary: ctx)
  case Nil
  then show ?case by (intro exI [of _ True] exI [of _ ctx]) simp
next
  case (Cons s ss)
  obtain r1 c1 where r1: "setAV1SliceOffset mem pps n adj bytes s ctx = Some (r1, c1)"
    by (rule setAV1SliceOffset_ends [OF Cons.prems])
  show ?case
  proof (cases r1)
    case False
    with r1 have "setAV1SliceOffset mem pps n adj bytes s ctx = Some (False, c1)" by simp
    from tile_table_reject [OF Cons.prems this] show ?thesis using r1 False
      by (intro exI [of _ False] exI [of _ c1]) simp
  next
    case True
    with r1 have acc: "setAV1SliceOffset mem pps n adj bytes s ctx = Some (True, c1)" by simp
    obtain T where T: "getAV1SliceTileIndex pps s = Some (of_nat T)" "T < unat n" "\<not> tile_seen ctx T"
      and seen': "\<forall>u < 4096. tile_seen c1 u \<longleftrightarrow> tile_seen ctx u \<or> u = T"
      and keep': "\<forall>u < unat n. u \<noteq> T \<longrightarrow> tile_lo c1 u = tile_lo ctx u \<and> tile_hi c1 u = tile_hi ctx u"
      and table: "tile_table (unat n) c1" and filled: "slot_filled pps adj c1 s"
      by (rule tile_table_accept [OF Cons.prems acc])
    note seen = seen' [rule_format] and keep = keep' [rule_format]
    have n: "unat n \<le> 4096" using table by (simp add: tile_table_def)
    have inj: "a = b" if "(of_nat a :: u32) = of_nat b" "a < unat n" "b < unat n" for a b
    proof -
      have "unat (of_nat a :: u32) = a" "unat (of_nat b :: u32) = b"
        using that(2,3) n by (simp_all add: unat_of_nat take_bit_nat_eq_self)
      with that(1) show ?thesis by metis
    qed
    have uT: "unat (of_nat T :: u32) = T" using T(2) n by (simp add: unat_of_nat take_bit_nat_eq_self)
    obtain r2 c2 where r2: "set_slice_offsets mem pps n adj bytes ss c1 = Some (r2, c2)"
      and t2: "tile_table (unat n) c2"
      and f2: "\<not> r2 \<longrightarrow> cx_inputValidationFailed (a1_base c2) \<or> ab_failed (a1_offs c2)"
      and ok2: "r2 \<longrightarrow> (\<forall>s \<in> set ss. slot_filled pps adj c2 s) \<and>
        (\<forall>u < unat n. tile_seen c1 u \<longrightarrow> tile_seen c2 u \<and>
           tile_lo c2 u = tile_lo c1 u \<and> tile_hi c2 u = tile_hi c1 u) \<and>
        (\<forall>u < unat n. tile_seen c2 u \<longrightarrow> tile_seen c1 u \<or>
           (\<exists>s \<in> set ss. getAV1SliceTileIndex pps s = Some (of_nat u))) \<and>
        distinct (map (getAV1SliceTileIndex pps) ss) \<and>
        (\<forall>s \<in> set ss. \<exists>T < unat n. getAV1SliceTileIndex pps s = Some (of_nat T) \<and> \<not> tile_seen c1 T)"
      using Cons.IH [OF table] by blast
    have run: "set_slice_offsets mem pps n adj bytes (s # ss) ctx = Some (r2, c2)" using acc r2 by simp
    show ?thesis
    proof (cases r2)
      case False
      then show ?thesis using run t2 f2 by blast
    next
      case True
      have mono: "\<And>u. u < unat n \<Longrightarrow> tile_seen c1 u \<Longrightarrow> tile_seen c2 u \<and>
           tile_lo c2 u = tile_lo c1 u \<and> tile_hi c2 u = tile_hi c1 u"
        and rev: "\<And>u. u < unat n \<Longrightarrow> tile_seen c2 u \<Longrightarrow> tile_seen c1 u \<or>
           (\<exists>s \<in> set ss. getAV1SliceTileIndex pps s = Some (of_nat u))"
        and fill: "\<forall>s \<in> set ss. slot_filled pps adj c2 s" and dist: "distinct (map (getAV1SliceTileIndex pps) ss)"
        and fresh: "\<forall>s \<in> set ss. \<exists>T < unat n. getAV1SliceTileIndex pps s = Some (of_nat T) \<and> \<not> tile_seen c1 T"
        using ok2 True by simp_all
      have below: "tile_seen c1 u \<Longrightarrow> u < 4096 \<Longrightarrow> u < unat n" for u using table by (simp add: tile_table_def)
      have A: "slot_filled pps adj c2 s"
        by (rule slot_filled_kept [OF filled table]) (use mono below T(1,2) uT in auto)
      have B: "tile_seen c2 u \<and> tile_lo c2 u = tile_lo ctx u \<and> tile_hi c2 u = tile_hi ctx u"
        if "u < unat n" "tile_seen ctx u" for u
      proof -
        have "u \<noteq> T" using that(2) T(3) by blast
        moreover have "tile_seen c1 u" using seen that n by simp
        ultimately show ?thesis using keep [OF that(1)] mono [OF that(1)] by simp
      qed
      have C: "tile_seen ctx u \<or> (\<exists>s \<in> set (s # ss). getAV1SliceTileIndex pps s = Some (of_nat u))"
        if "u < unat n" "tile_seen c2 u" for u
        using rev [OF that] seen [of u] that(1) n T(1) by auto
      have D: "\<exists>T' < unat n. getAV1SliceTileIndex pps s' = Some (of_nat T') \<and> \<not> tile_seen ctx T' \<and> T' \<noteq> T"
        if "s' \<in> set ss" for s'
        using fresh [rule_format, OF that] seen n by fastforce
      have E: "getAV1SliceTileIndex pps s \<notin> getAV1SliceTileIndex pps ` set ss"
        using D T(1,2) inj by fastforce
      have F: "\<exists>T' < unat n. getAV1SliceTileIndex pps s' = Some (of_nat T') \<and> \<not> tile_seen ctx T'"
        if "s' \<in> set (s # ss)" for s' using that D T by auto
      show ?thesis using run True t2 A fill B C E dist F by (intro exI [of _ True] exI [of _ c2]) simp
    qed
  qed
qed

text \<open>When as many offsets were accepted as there are tiles, every tile has its range.\<close>

lemma tile_table_complete:
  assumes "tile_table n ctx" "unat (a1_TileOffsetsSeen ctx) = n" "t < n"
  shows "tile_seen ctx t"
proof -
  have "card {t. t < n \<and> tile_seen ctx t} = card {..< n}" using assms by (simp add: tile_table_def)
  then have "{t. t < n \<and> tile_seen ctx t} = {..< n}" by (intro card_subset_eq) auto
  then show ?thesis using assms(3) by auto
qed

text \<open>C19. 
  The tile table: whatever slice parameters a client sends, the loop ends with a well-formed
  table. Either a failure is flagged, or each parameter filled the slot of a tile not seen
  before, with its range at the adjusted offset; and once as many offsets were accepted as
  the picture has tiles, every tile has a non-empty range and no two ranges meet.
\<close>

theorem tile_offsets_accepted:
  assumes "tile_table (unat n) ctx"
  shows "\<exists>r ctx'. set_slice_offsets mem pps n adj nbytes ss ctx = Some (r, ctx') \<and> tile_table (unat n) ctx' \<and>
    (\<not> r \<longrightarrow> cx_inputValidationFailed (a1_base ctx') \<or> ab_failed (a1_offs ctx')) \<and>
    (r \<longrightarrow> (\<forall>s \<in> set ss. slot_filled pps adj ctx' s) \<and> distinct (map (getAV1SliceTileIndex pps) ss) \<and>
       (\<forall>s \<in> set ss. \<exists>T < unat n. getAV1SliceTileIndex pps s = Some (of_nat T) \<and> \<not> tile_seen ctx T)) \<and>
    (a1_TileOffsetsSeen ctx' = n \<longrightarrow>
       (\<forall>t < unat n. tile_seen ctx' t \<and> tile_lo ctx' t < tile_hi ctx' t \<and>
          (\<forall>u < unat n. t \<noteq> u \<longrightarrow> tile_hi ctx' t \<le> tile_lo ctx' u \<or> tile_hi ctx' u \<le> tile_lo ctx' t)))"
proof -
  obtain r ctx' where run: "set_slice_offsets mem pps n adj nbytes ss ctx = Some (r, ctx')"
    and table: "tile_table (unat n) ctx'"
    and fail: "\<not> r \<longrightarrow> cx_inputValidationFailed (a1_base ctx') \<or> ab_failed (a1_offs ctx')"
    and ok: "r \<longrightarrow> (\<forall>s \<in> set ss. slot_filled pps adj ctx' s) \<and> distinct (map (getAV1SliceTileIndex pps) ss) \<and>
       (\<forall>s \<in> set ss. \<exists>T < unat n. getAV1SliceTileIndex pps s = Some (of_nat T) \<and> \<not> tile_seen ctx T)"
    using set_slice_offsets_spec [OF assms, of mem pps adj nbytes ss] by blast
  have "tile_seen ctx' t" if "a1_TileOffsetsSeen ctx' = n" "t < unat n" for t
    by (rule tile_table_complete [OF table]) (use that in simp_all)
  then have "\<forall>t < unat n. tile_seen ctx' t \<and> tile_lo ctx' t < tile_hi ctx' t \<and>
      (\<forall>u < unat n. t \<noteq> u \<longrightarrow> tile_hi ctx' t \<le> tile_lo ctx' u \<or> tile_hi ctx' u \<le> tile_lo ctx' t)"
    if "a1_TileOffsetsSeen ctx' = n" using that table by (simp add: tile_table_def)
  then show ?thesis using run table fail ok by blast
qed

lemma tile_offsets_accepted_witness:
  "\<exists>r ctx'. set_slice_offsets (\<lambda>_. None) av1_pps_example 1 0 7
       [\<lparr>sa_slice_data_size = 3, sa_slice_data_offset = 4, sa_tile_row = 0, sa_tile_column = 0\<rparr>]
       (av1_reset_tiles av1_ctx_example) = Some (r, ctx') \<and> tile_table (unat (1 :: u32)) ctx'"
proof -
  have "tile_table (unat (1 :: u32)) (av1_reset_tiles av1_ctx_example)"
    using tile_table_reset [of av1_ctx_example 1] by (simp add: av1_ctx_example_def ab_cells_def)
  from tile_offsets_accepted [OF this, of "\<lambda>_. None" av1_pps_example 0 7] show ?thesis by blast
qed

end
