(* ===== verification/DriverStore.thy ===== *)
theory DriverStore
  imports CodecH264 Color ResolveQueue
begin

text \<open>
  Surfaces and contexts of the driver (\<open>NVSurface\<close>, \<open>NVContext\<close> of \<open>src/vabackend.h\<close>) and
  the completion state of a surface (\<open>setSurfaceResolving\<close>, \<open>failSurfaceResolve\<close>,
  \<open>waitSurfaceResolved\<close> of \<open>src/vabackend.c\<close>).

  \<open>NVStore\<close> holds all surfaces and contexts by address; the identifier maps stand for the
  object table, whose own model is \<open>ObjectTable\<close>. Each function is one critical section of the
  code. \<open>sf_syncImage\<close> is the address of the image that \<open>surfaceSyncBackingImage\<close> finds,
  \<open>None\<close> when there is none or its synchronisation is not initialised, and
  \<open>st_imageResolving\<close> the resolving flag of an image. \<open>pic_codec\<close> is the part of a context
  that the codec handlers write.
\<close>

record NVSurface =
  sf_width :: u32
  sf_height :: u32
  sf_pictureIdx :: int
  sf_context :: "nat option"
  sf_contextId :: u32
  sf_resolving :: bool
  sf_submittedGeneration :: u64
  sf_completedGeneration :: u64
  sf_completionStatus :: VAStatus
  sf_decodeFailed :: bool
  sf_exported :: bool
  sf_external :: bool
  sf_syncImage :: "nat option"
  sf_format :: "int \<times> int \<times> int"
  sf_progressiveFrame :: bool
  sf_topFieldFirst :: bool
  sf_secondField :: int
  sf_color :: color_meta

record pic_codec =
  pk_bitstreamBuffer :: AppendableBuffer
  pk_sliceOffsets :: AppendableBuffer
  pk_lastSliceParams :: bool
  pk_lastSliceParamsCount :: u32
  pk_inputValidationFailed :: bool
  pk_bitstreamDataOffset :: usize
  pk_displayTarget :: "nat option"
  pk_TileOffsetsSeen :: u32
  pk_nNumSlices :: u32
  pk_CurrPicIdx :: int
  pk_bottom_field_flag :: int
  pk_second_field :: int

datatype NVDPictureState =
  NVD_PICTURE_IDLE | NVD_PICTURE_BUILDING | NVD_PICTURE_FAILED | NVD_PICTURE_SUBMITTED

record NVContext =
  cn_id :: u32
  cn_profile :: VAProfile
  cn_videoProc :: bool
  cn_width :: u32
  cn_height :: u32
  cn_cudaCodec :: cudaVideoCodec
  cn_destroying :: bool
  cn_mutexInitialized :: bool
  cn_decoder :: bool
  cn_decoderFormat :: "int \<times> int \<times> int"
  cn_surfaceCount :: u32
  cn_clientRenderTargetCount :: u32
  cn_decodeSurfaceReferenceHint :: u32
  cn_hostBufferUnderuseFrames :: u32
  cn_resolveThreadStarted :: bool
  cn_currentPictureId :: u32
  cn_pictureIndexOwners :: "nat option list"
  cn_activeReferenceMask :: u32
  cn_buildingReferenceMask :: u32
  cn_pictureIndexRecycleCursor :: u32
  cn_renderTarget :: "nat option"
  cn_pictureState :: NVDPictureState
  cn_pictureFailure :: VAStatus
  cn_codec :: pic_codec
  cn_sliceParamsBuffer :: AppendableBuffer

record ResolveJob =
  jb_surface :: nat
  jb_generation :: u64
  jb_pictureIdx :: int
  jb_progressiveFrame :: bool
  jb_topFieldFirst :: bool
  jb_secondField :: bool
  jb_decodeStatus :: VAStatus
  jb_shared :: bool

record NVStore =
  st_surface :: "nat \<Rightarrow> NVSurface"
  st_context :: "nat \<Rightarrow> NVContext"
  st_surfaceIds :: "u32 \<Rightarrow> nat option"
  st_contextIds :: "u32 \<Rightarrow> nat option"
  st_imageResolving :: "nat \<Rightarrow> bool"
  st_cudaWorkUnsafe :: bool
  st_decodeSurfacesMaximum :: u32
  st_decodeSurfacesMinimum :: u32
  st_decodeSurfacesAuto :: bool
  st_decodeSurfacesOverride :: u32
  st_hostBufferTrimThresholdBytes :: u64
  st_hostBufferTrimFrames :: u32

definition upd_surface :: "NVStore \<Rightarrow> nat \<Rightarrow> (NVSurface \<Rightarrow> NVSurface) \<Rightarrow> NVStore" where
  "upd_surface st s f = st\<lparr>st_surface := (st_surface st)(s := f (st_surface st s))\<rparr>"

definition upd_context :: "NVStore \<Rightarrow> nat \<Rightarrow> (NVContext \<Rightarrow> NVContext) \<Rightarrow> NVStore" where
  "upd_context st c f = st\<lparr>st_context := (st_context st)(c := f (st_context st c))\<rparr>"

lemma upd_simps [simp]:
  "st_surface (upd_surface st s f) = (st_surface st)(s := f (st_surface st s))"
  "st_context (upd_surface st s f) = st_context st"
  "st_surface (upd_context st c g) = st_surface st"
  "st_context (upd_context st c g) = (st_context st)(c := g (st_context st c))"
  "st_surfaceIds (upd_surface st s f) = st_surfaceIds st" "st_contextIds (upd_surface st s f) = st_contextIds st"
  "st_surfaceIds (upd_context st c g) = st_surfaceIds st" "st_contextIds (upd_context st c g) = st_contextIds st"
  "st_imageResolving (upd_surface st s f) = st_imageResolving st"
  "st_imageResolving (upd_context st c g) = st_imageResolving st"
  "st_cudaWorkUnsafe (upd_surface st s f) = st_cudaWorkUnsafe st"
  "st_cudaWorkUnsafe (upd_context st c g) = st_cudaWorkUnsafe st"
  by (simp_all add: upd_surface_def upd_context_def)

section \<open>Completion of a surface\<close>

definition setSurfaceBackingImageResolving :: "NVStore \<Rightarrow> nat \<Rightarrow> bool \<Rightarrow> NVStore" where
  "setSurfaceBackingImageResolving st s resolving =
     (case sf_syncImage (st_surface st s) of
        None \<Rightarrow> st
      | Some img \<Rightarrow> st\<lparr>st_imageResolving := (st_imageResolving st)(img := resolving)\<rparr>)"

definition setSurfaceResolving :: "NVStore \<Rightarrow> nat option \<Rightarrow> bool \<Rightarrow> NVStore" where
  "setSurfaceResolving st surface resolving =
     (case surface of
        None \<Rightarrow> st
      | Some s \<Rightarrow>
          upd_surface (setSurfaceBackingImageResolving st s resolving) s (\<lambda>sf.
            if resolving
            then sf\<lparr>sf_submittedGeneration := (if sf_submittedGeneration sf \<noteq> UINT64_MAX
                      then sf_submittedGeneration sf + 1 else sf_submittedGeneration sf),
                    sf_decodeFailed := False, sf_completionStatus := VA_STATUS_SUCCESS,
                    sf_resolving := True\<rparr>
            else sf\<lparr>sf_completedGeneration := sf_submittedGeneration sf,
                    sf_completionStatus := (if sf_decodeFailed sf then VA_STATUS_ERROR_DECODING_ERROR
                      else VA_STATUS_SUCCESS),
                    sf_resolving := False\<rparr>))"

definition failSurfaceResolve :: "NVStore \<Rightarrow> nat option \<Rightarrow> VAStatus \<Rightarrow> NVStore" where
  "failSurfaceResolve st surface status =
     (case surface of
        None \<Rightarrow> st
      | Some s \<Rightarrow>
          upd_surface (setSurfaceBackingImageResolving st s False) s (\<lambda>sf.
            sf\<lparr>sf_decodeFailed := True,
               sf_completionStatus := (if status = VA_STATUS_SUCCESS
                 then VA_STATUS_ERROR_OPERATION_FAILED else status),
               sf_completedGeneration := sf_submittedGeneration sf, sf_resolving := False\<rparr>))"

text \<open>Waiting as an attempt: the thread sleeps as long as the surface or its image is busy.\<close>

definition surface_resolved :: "NVStore \<Rightarrow> nat \<Rightarrow> bool" where
  "surface_resolved st s \<longleftrightarrow> \<not> sf_resolving (st_surface st s) \<and>
     (case sf_syncImage (st_surface st s) of None \<Rightarrow> True | Some img \<Rightarrow> \<not> st_imageResolving st img)"

definition waitSurfaceResolved :: "NVStore \<Rightarrow> nat option \<Rightarrow> unit attempt" where
  "waitSurfaceResolved st surface =
     (case surface of None \<Rightarrow> Return () | Some s \<Rightarrow> if surface_resolved st s then Return () else Wait)"

lemma completion_store [simp]:
  "st_context (setSurfaceBackingImageResolving st s b) = st_context st"
  "st_surface (setSurfaceBackingImageResolving st s b) = st_surface st"
  "st_context (setSurfaceResolving st o' b) = st_context st"
  "st_context (failSurfaceResolve st o' v) = st_context st"
  "st_surfaceIds (setSurfaceBackingImageResolving st s b) = st_surfaceIds st"
  "st_surfaceIds (setSurfaceResolving st o' b) = st_surfaceIds st"
  "st_surfaceIds (failSurfaceResolve st o' v) = st_surfaceIds st"
  "st_contextIds (setSurfaceBackingImageResolving st s b) = st_contextIds st"
  "st_contextIds (setSurfaceResolving st o' b) = st_contextIds st"
  "st_contextIds (failSurfaceResolve st o' v) = st_contextIds st"
  "st_cudaWorkUnsafe (setSurfaceBackingImageResolving st s b) = st_cudaWorkUnsafe st"
  "st_cudaWorkUnsafe (setSurfaceResolving st o' b) = st_cudaWorkUnsafe st"
  "st_cudaWorkUnsafe (failSurfaceResolve st o' v) = st_cudaWorkUnsafe st"
  by (simp_all add: setSurfaceBackingImageResolving_def setSurfaceResolving_def failSurfaceResolve_def
      split: option.splits)

text \<open>Which surfaces are marked busy afterwards.\<close>

lemma resolving_simps [simp]:
  "sf_resolving (st_surface (setSurfaceResolving st (Some s) b) t) =
     (if t = s then b else sf_resolving (st_surface st t))"
  "sf_resolving (st_surface (failSurfaceResolve st (Some s) v) t) =
     (if t = s then False else sf_resolving (st_surface st t))"
  "setSurfaceResolving st None b = st" "failSurfaceResolve st None v = st"
  by (simp_all add: setSurfaceResolving_def failSurfaceResolve_def)

end
