(* ===== verification/DecoderSetup.thy ===== *)
theory DecoderSetup
  imports DriverStore
begin

text \<open>
  The lazily created decoder of a context: the number of its decode surfaces and its creation
  parameters (\<open>defaultDecodeSurfaceCount\<close>, \<open>selectContextDecodeSurfaceCount\<close>,
  \<open>createDecoderForContext\<close>, \<open>recreateDecoderForSurface\<close> of \<open>src/vabackend.c\<close>).

  A surface format is the triple of output format, chroma format and bit depth.
  \<open>decoder_results\<close> is what the CUDA driver answers: entering and leaving the context, and
  the creation from the given parameters. Statistics and logging are left out.
\<close>

definition defaultDecodeSurfaceCount :: "cudaVideoCodec \<Rightarrow> u32" where
  "defaultDecodeSurfaceCount codec =
     (case codec of
        cudaVideoCodec_H264 \<Rightarrow> 20
      | cudaVideoCodec_HEVC \<Rightarrow> 20
      | cudaVideoCodec_VP9 \<Rightarrow> 10
      | cudaVideoCodec_AV1 \<Rightarrow> 32
      | cudaVideoCodec_JPEG \<Rightarrow> 2
      | _ \<Rightarrow> 8)"

definition selectContextDecodeSurfaceCount :: "NVStore \<Rightarrow> nat \<Rightarrow> u32" where
  "selectContextDecodeSurfaceCount st c =
     (let cn = st_context st c;
          automatic = nvdSelectDecodeSurfaceCount (defaultDecodeSurfaceCount (cn_cudaCodec cn))
            (cn_decodeSurfaceReferenceHint cn) (cn_clientRenderTargetCount cn) 0
            (st_decodeSurfacesMinimum st) (st_decodeSurfacesMaximum st)
      in if st_decodeSurfacesAuto st then automatic
         else
           let overrideCount = (if st_decodeSurfacesOverride st \<noteq> 0 then st_decodeSurfacesOverride st else 32)
           in nvdSelectDecodeSurfaceCount automatic 0 0 overrideCount
                (st_decodeSurfacesMinimum st) (st_decodeSurfacesMaximum st))"

abbreviation cudaVideoChromaFormat_420 :: int where "cudaVideoChromaFormat_420 \<equiv> 1"
abbreviation cudaVideoChromaFormat_422 :: int where "cudaVideoChromaFormat_422 \<equiv> 2"

text \<open>\<open>ROUND_UP(n, 2)\<close> of \<open>src/direct/nv-driver.h\<close>.\<close>

definition round_up_2 :: "u32 \<Rightarrow> u32" where
  "round_up_2 n = (n + 2 - 1) div 2 * 2"

record CUVIDDECODECREATEINFO =
  di_CodecType :: cudaVideoCodec
  di_displayRight :: u32
  di_displayBottom :: u32
  di_ChromaFormat :: int
  di_OutputFormat :: int
  di_bitDepthMinus8 :: int
  di_ulNumDecodeSurfaces :: u32
  di_ulWidth :: u32
  di_ulHeight :: u32

record decoder_results =
  dr_push :: bool
  dr_pop :: bool
  dr_create :: "CUVIDDECODECREATEINFO \<Rightarrow> bool"

definition decoder_info :: "NVContext \<Rightarrow> CUVIDDECODECREATEINFO" where
  "decoder_info cn =
     (case cn_decoderFormat cn of (fmt, chroma, depth) \<Rightarrow>
       \<lparr>di_CodecType = cn_cudaCodec cn,
        di_displayRight = (if chroma = cudaVideoChromaFormat_422 \<or> chroma = cudaVideoChromaFormat_420
                           then round_up_2 (cn_width cn) else cn_width cn),
        di_displayBottom = (if chroma = cudaVideoChromaFormat_420
                            then round_up_2 (cn_height cn) else cn_height cn),
        di_ChromaFormat = chroma, di_OutputFormat = fmt, di_bitDepthMinus8 = depth - 8,
        di_ulNumDecodeSurfaces = cn_surfaceCount cn,
        di_ulWidth = cn_width cn, di_ulHeight = cn_height cn\<rparr>)"

definition createDecoderForContext :: "decoder_results \<Rightarrow> nat \<Rightarrow> NVStore \<Rightarrow> VAStatus \<times> NVStore" where
  "createDecoderForContext res c st =
     (if cn_decoder (st_context st c) then (VA_STATUS_SUCCESS, st)
      else
        let surfaceCount = selectContextDecodeSurfaceCount st c;
            st1 = upd_context st c (\<lambda>cn. cn\<lparr>cn_surfaceCount := surfaceCount\<rparr>);
            cn = st_context st1 c
        in if cn_currentPictureId cn > surfaceCount then (VA_STATUS_ERROR_MAX_NUM_EXCEEDED, st1)
           else if \<not> dr_push res then (VA_STATUS_ERROR_OPERATION_FAILED, st1)
           else if \<not> dr_create res (decoder_info cn) \<or> \<not> dr_pop res
           then (VA_STATUS_ERROR_ALLOCATION_FAILED, st1)
           else (VA_STATUS_SUCCESS, upd_context st1 c (\<lambda>cn. cn\<lparr>cn_decoder := True\<rparr>)))"

definition recreateDecoderForSurface :: "nat \<Rightarrow> nat \<Rightarrow> NVStore \<Rightarrow> VAStatus \<times> NVStore" where
  "recreateDecoderForSurface c s st =
     (let matches = (cn_decoderFormat (st_context st c) = sf_format (st_surface st s))
      in if cn_decoder (st_context st c)
         then (if matches then (VA_STATUS_SUCCESS, st) else (VA_STATUS_ERROR_OPERATION_FAILED, st))
         else (VA_STATUS_SUCCESS,
               upd_context st c (\<lambda>cn. cn\<lparr>cn_decoderFormat := sf_format (st_surface st s)\<rparr>)))"

end
