(* ===== verification/PictureIndex.thy ===== *)
theory PictureIndex
  imports DriverStore
begin

text \<open>
  The picture indices of a decoder (\<open>pictureIdxFromSurfaceId\<close>,
  \<open>releaseContextPictureIndices\<close>, \<open>releaseSurfacePictureIndex\<close>, \<open>assignSurfacePictureIndex\<close>,
  \<open>assignAV1SurfacePictureIndex\<close> of \<open>src/vabackend.c\<close>). A context owns the indices of its
  decoder: \<open>pictureIndexOwners\<close> maps an index to the surface that has it.
\<close>

section \<open>Operations\<close>

definition contextPointerIsLiveLocked :: "NVStore \<Rightarrow> nat option \<Rightarrow> bool" where
  "contextPointerIsLiveLocked st nvCtx =
     (case nvCtx of
        None \<Rightarrow> False
      | Some c \<Rightarrow> cn_id (st_context st c) \<noteq> VA_INVALID_ID \<and>
                  st_contextIds st (cn_id (st_context st c)) = Some c)"

definition markContextDestroying :: "NVStore \<Rightarrow> nat \<Rightarrow> NVStore" where
  "markContextDestroying st c =
     (if contextPointerIsLiveLocked st (Some c)
      then upd_context st c (\<lambda>cn. cn\<lparr>cn_destroying := True\<rparr>) else st)"

definition pictureIdxFromSurfaceId :: "nat option \<Rightarrow> u32 \<Rightarrow> NVStore \<Rightarrow> int \<times> NVStore" where
  "pictureIdxFromSurfaceId current surfId st =
     (case current of
        None \<Rightarrow> (-1, st)
      | Some c \<Rightarrow>
          if surfId = VA_INVALID_ID then (-1, st)
          else case st_surfaceIds st surfId of
            None \<Rightarrow> (-1, st)
          | Some s \<Rightarrow>
              let sf = st_surface st s; cn = st_context st c; idx = sf_pictureIdx sf
              in if \<not> contextPointerIsLiveLocked st current \<or> cn_destroying cn \<or>
                    sf_context sf \<noteq> current \<or> sf_contextId sf \<noteq> cn_id cn \<or>
                    \<not> cn_mutexInitialized cn \<or> idx < 0 \<or> idx \<ge> 32
                 then (-1, st)
                 else if cn_pictureIndexOwners cn ! nat idx = Some s
                 then (idx, if cn_cudaCodec cn \<noteq> cudaVideoCodec_AV1
                            then upd_context st c (\<lambda>cn. cn\<lparr>cn_buildingReferenceMask :=
                                   or (cn_buildingReferenceMask cn) (push_bit (nat idx) 1)\<rparr>)
                            else st)
                 else (-1, st))"

definition detach_surface :: "nat \<Rightarrow> NVSurface \<Rightarrow> NVSurface" where
  "detach_surface c sf =
     (if sf_context sf = Some c
      then sf\<lparr>sf_context := None, sf_contextId := VA_INVALID_ID, sf_pictureIdx := -1\<rparr> else sf)"

text \<open>The loop over the object table visits the surfaces that have an identifier.\<close>

definition releaseContextPictureIndices :: "NVStore \<Rightarrow> nat \<Rightarrow> NVStore" where
  "releaseContextPictureIndices st c =
     (if \<not> cn_mutexInitialized (st_context st c) then st
      else upd_context
             (st\<lparr>st_surface := (\<lambda>s. if s \<in> ran (st_surfaceIds st)
                                  then detach_surface c (st_surface st s) else st_surface st s)\<rparr>)
             c (\<lambda>cn. cn\<lparr>cn_pictureIndexOwners := replicate 32 None,
                        cn_activeReferenceMask := 0, cn_buildingReferenceMask := 0\<rparr>))"

definition releaseSurfacePictureIndex :: "NVStore \<Rightarrow> nat option \<Rightarrow> NVStore" where
  "releaseSurfacePictureIndex st surface =
     (case surface of
        None \<Rightarrow> st
      | Some s \<Rightarrow>
          let sf = st_surface st s
          in case sf_context sf of
               None \<Rightarrow> upd_surface st s (\<lambda>sf. sf\<lparr>sf_context := None, sf_contextId := VA_INVALID_ID,
                                                sf_pictureIdx := -1\<rparr>)
             | Some c \<Rightarrow>
                 let cn = st_context st c; idx = sf_pictureIdx sf
                 in if \<not> contextPointerIsLiveLocked st (Some c) \<or> cn_id cn \<noteq> sf_contextId sf \<or>
                       cn_destroying cn \<or> \<not> cn_mutexInitialized cn
                    then upd_surface st s (detach_surface c)
                    else upd_surface
                           (if idx \<ge> 0 \<and> idx < 32 \<and> cn_pictureIndexOwners cn ! nat idx = Some s
                            then upd_context st c (\<lambda>cn. cn
                              \<lparr>cn_pictureIndexOwners := (cn_pictureIndexOwners cn)[nat idx := None],
                               cn_activeReferenceMask := and (cn_activeReferenceMask cn) (not (push_bit (nat idx) 1)),
                               cn_buildingReferenceMask := and (cn_buildingReferenceMask cn) (not (push_bit (nat idx) 1))\<rparr>)
                            else st)
                           s (detach_surface c))"

text \<open>The indices below the limit whose owner is still being resolved.\<close>

definition busy_mask :: "NVStore \<Rightarrow> nat option list \<Rightarrow> u32 \<Rightarrow> u32" where
  "busy_mask st owners limit =
     fold (\<lambda>i mask. case owners ! i of
                      None \<Rightarrow> mask
                    | Some s \<Rightarrow> if sf_resolving (st_surface st s) then or mask (push_bit i 1) else mask)
       [0 ..< unat limit] 0"

text \<open>The end of both assignments: the surface takes over the index.\<close>

definition take_index :: "NVStore \<Rightarrow> nat \<Rightarrow> nat \<Rightarrow> u32 \<Rightarrow> u32 \<Rightarrow> u32 \<Rightarrow> NVStore" where
  "take_index st c s selected currentId limit =
     upd_context
       (upd_surface st s (\<lambda>sf. sf\<lparr>sf_pictureIdx := int (unat selected), sf_context := Some c,
                                  sf_contextId := cn_id (st_context st c)\<rparr>))
       c (\<lambda>cn. cn\<lparr>cn_pictureIndexOwners := (cn_pictureIndexOwners cn)[unat selected := Some s],
                  cn_currentPictureId := currentId,
                  cn_pictureIndexRecycleCursor := (selected + 1) mod limit\<rparr>)"

definition has_index :: "NVStore \<Rightarrow> nat \<Rightarrow> nat \<Rightarrow> u32 \<Rightarrow> bool" where
  "has_index st c s limit \<longleftrightarrow>
     (let idx = sf_pictureIdx (st_surface st s)
      in idx \<ge> 0 \<and> idx < int (unat limit) \<and> cn_pictureIndexOwners (st_context st c) ! nat idx = Some s)"

definition bad_assignment :: "NVStore \<Rightarrow> nat \<Rightarrow> u32 \<Rightarrow> bool" where
  "bad_assignment st c limit \<longleftrightarrow> limit = 0 \<or> limit > 32 \<or> \<not> cn_mutexInitialized (st_context st c) \<or>
     cn_destroying (st_context st c)"

text \<open>One round of the loop: \<open>Wait\<close> when a busy index has to become free first.\<close>

definition assignSurfacePictureIndex :: "NVStore \<Rightarrow> nat \<Rightarrow> nat \<Rightarrow> u32 \<Rightarrow> (int \<times> NVStore) attempt" where
  "assignSurfacePictureIndex st c s limit =
     (let cn = st_context st c; owners = cn_pictureIndexOwners cn in
      if bad_assignment st c limit then Return (-1, st)
      else if has_index st c s limit then Return (sf_pictureIdx (st_surface st s), st)
      else
        case nvdSelectPictureIndex (cn_currentPictureId cn) limit (cn_activeReferenceMask cn)
               (busy_mask st owners limit) (cn_pictureIndexRecycleCursor cn) of
          None \<Rightarrow>
            (case nvdSelectPictureIndex (cn_currentPictureId cn) limit (cn_activeReferenceMask cn) 0
                    (cn_pictureIndexRecycleCursor cn) of
               None \<Rightarrow> Return (-1, st)
             | Some w \<Rightarrow> if owners ! unat w = None then Return (-1, st) else Wait)
        | Some selected \<Rightarrow>
            let st1 = (case owners ! unat selected of
                         None \<Rightarrow> st
                       | Some p \<Rightarrow>
                           if p \<noteq> s then upd_surface st p (\<lambda>sf.
                             if sf_pictureIdx sf = int (unat selected) then sf\<lparr>sf_pictureIdx := -1\<rparr> else sf)
                           else st)
            in Return (int (unat selected),
                 take_index st1 c s selected
                   (if selected = cn_currentPictureId cn then cn_currentPictureId cn + 1
                    else cn_currentPictureId cn) limit))"

fun free_index_from :: "nat option list \<Rightarrow> u32 \<Rightarrow> u32 \<Rightarrow> u32 list \<Rightarrow> u32 option" where
  "free_index_from owners cursor limit [] = None"
| "free_index_from owners cursor limit (off # offs) =
     (let candidate = (cursor + off) mod limit
      in if owners ! unat candidate = None then Some candidate
         else free_index_from owners cursor limit offs)"

definition assignAV1SurfacePictureIndex :: "NVStore \<Rightarrow> nat \<Rightarrow> nat \<Rightarrow> u32 \<Rightarrow> int \<times> NVStore" where
  "assignAV1SurfacePictureIndex st c s limit =
     (let cn = st_context st c in
      if bad_assignment st c limit then (-1, st)
      else if has_index st c s limit then (sf_pictureIdx (st_surface st s), st)
      else
        case free_index_from (cn_pictureIndexOwners cn) (cn_pictureIndexRecycleCursor cn) limit
               (map of_nat [0 ..< unat limit]) of
          None \<Rightarrow> (-1, st)
        | Some selected \<Rightarrow>
            (int (unat selected),
             take_index st c s selected
               (if cn_currentPictureId cn \<le> selected then selected + 1 else cn_currentPictureId cn) limit))"

end
