(* ===== verification/Blit.thy ===== *)
theory Blit
  imports PictureIndex Formats
begin

text \<open>
  The video processing operation on a pair of surfaces (\<open>copySurfaceBackingImage\<close> of
  \<open>src/vabackend.c\<close>). The call blocks until its source is resolved, so it is an attempt
  that is repeated after each wake-up.

  \<open>blit_env\<close> holds what the code gets from outside: the images of the two surfaces after the
  backend realised them (\<open>None\<close>: realising failed), the outcome of the colour conversion, of
  each CUDA copy and of the synchronisation calls on mapped buffers, and of entering and
  leaving the CUDA context. Pixels are the subject of \<open>VideoProc\<close>.
\<close>

record VARectangle =
  rect_x :: int
  rect_y :: int
  rect_width :: u16
  rect_height :: u16

record VAProcPipelineParameterBuffer =
  pr_surface :: u32
  pr_surface_region :: "VARectangle option"
  pr_output_region :: "VARectangle option"
  pr_color :: VAProcPipelineColor

record blit_env =
  be_push :: bool
  be_pop :: bool
  be_realise :: "nat \<Rightarrow> bool"
  be_image :: "nat \<Rightarrow> BackingImage option"
  be_metadata :: "BackingImage \<Rightarrow> color_image"
  be_convert :: "BackingImage \<Rightarrow> BackingImage \<Rightarrow> u16 \<Rightarrow> u16 \<Rightarrow> ColorMatrix \<Rightarrow> VideoProcSampleInfo \<Rightarrow> bool"
  be_readStart :: bool
  be_readEnd :: bool
  be_writeStart :: bool
  be_writeEnd :: bool
  be_memcpy :: "nat \<Rightarrow> bool"

definition full_region :: "NVSurface \<Rightarrow> VARectangle" where
  "full_region sf = \<lparr>rect_x = 0, rect_y = 0, rect_width = ucast (sf_width sf), rect_height = ucast (sf_height sf)\<rparr>"

definition unsupported_regions :: "VARectangle \<Rightarrow> VARectangle \<Rightarrow> NVSurface \<Rightarrow> NVSurface \<Rightarrow> bool" where
  "unsupported_regions srcRegion dstRegion src dst \<longleftrightarrow>
     rect_x srcRegion \<noteq> 0 \<or> rect_y srcRegion \<noteq> 0 \<or> rect_x dstRegion \<noteq> 0 \<or> rect_y dstRegion \<noteq> 0 \<or>
     rect_width srcRegion = 0 \<or> rect_height srcRegion = 0 \<or>
     rect_width dstRegion = 0 \<or> rect_height dstRegion = 0 \<or>
     rect_width srcRegion \<noteq> rect_width dstRegion \<or> rect_height srcRegion \<noteq> rect_height dstRegion \<or>
     ucast (rect_width srcRegion) > sf_width src \<or> ucast (rect_height srcRegion) > sf_height src \<or>
     ucast (rect_width dstRegion) > sf_width dst \<or> ucast (rect_height dstRegion) > sf_height dst"

text \<open>The copy of the planes: the access to mapped buffers, the loop, the end of the accesses.\<close>

definition copy_planes :: "blit_env \<Rightarrow> BackingImage \<Rightarrow> BackingImage \<Rightarrow> bool" where
  "copy_planes env srcImg dstImg =
     (let externalHostSource = nvBackingImageHasExternalHostMemory (Some srcImg);
          externalHostDestination = nvBackingImageHasExternalHostMemory (Some dstImg);
          sourceAccessStarted = (externalHostSource \<and> be_readStart env);
          destinationAccessStarted = ((sourceAccessStarted \<or> \<not> externalHostSource) \<and>
            externalHostDestination \<and> be_writeStart env);
          copyFailed = ((externalHostSource \<and> \<not> sourceAccessStarted) \<or>
            (externalHostDestination \<and> \<not> destinationAccessStarted));
          copyFailed = (copyFailed \<or>
            \<not> list_all (be_memcpy env) [0 ..< unat (fi_numPlanes (formatsInfo (bi_format srcImg)))]);
          copyFailed = (copyFailed \<or> (destinationAccessStarted \<and> \<not> be_writeEnd env));
          copyFailed = (copyFailed \<or> (sourceAccessStarted \<and> \<not> be_readEnd env))
      in \<not> copyFailed)"

text \<open>From entering the CUDA context to leaving it: whether the pixels were written.\<close>

definition blit_pixels ::
    "blit_env \<Rightarrow> VAProcPipelineParameterBuffer \<Rightarrow> color_meta \<Rightarrow> u16 \<Rightarrow> u16 \<Rightarrow> BackingImage \<Rightarrow> BackingImage \<Rightarrow> bool" where
  "blit_pixels env pipeline srcColor w h srcImg dstImg =
     (if bi_format srcImg \<in> {NV_FORMAT_NV12, NV_FORMAT_P010, NV_FORMAT_P012} \<and> bi_format dstImg = NV_FORMAT_ARGB
      then
        let colorStandard = effectiveSurfaceColorStandard (Some srcColor) (pr_color pipeline);
            fullRange = effectiveSurfaceColorRangeFull (Some srcColor) (pr_color pipeline);
            matrix = colorMatrixForStandard colorStandard (ucast w) fullRange;
            sampleInfo = videoProcSampleInfoForFormat (bi_format srcImg) fullRange
        in be_convert env srcImg dstImg w h matrix sampleInfo \<and> be_pop env
      else if bi_format srcImg \<noteq> bi_format dstImg then False
      else copy_planes env srcImg dstImg \<and> be_pop env)"

text \<open>The metadata of the destination after a successful copy.\<close>

definition blit_done :: "NVStore \<Rightarrow> nat \<Rightarrow> nat \<Rightarrow> NVStore" where
  "blit_done st s d =
     setSurfaceResolving
       (upd_surface (releaseSurfacePictureIndex st (Some d)) d (\<lambda>sf.
          let src = st_surface (releaseSurfacePictureIndex st (Some d)) s
          in sf\<lparr>sf_progressiveFrame := sf_progressiveFrame src, sf_topFieldFirst := sf_topFieldFirst src,
                sf_secondField := sf_secondField src, sf_decodeFailed := sf_decodeFailed src,
                sf_color := the (nvSurfaceCopyColorMetadata (Some (sf_color sf)) (Some (sf_color src)))\<rparr>))
       (Some d) False"

definition copySurfaceBackingImage ::
    "blit_env \<Rightarrow> nat option \<Rightarrow> nat option \<Rightarrow> VAProcPipelineParameterBuffer \<Rightarrow> NVStore \<Rightarrow> (bool \<times> NVStore) attempt" where
  "copySurfaceBackingImage env src dst pipeline st =
     (case (src, dst) of
        (Some s, Some d) \<Rightarrow>
          if s = d then Return (False, setSurfaceResolving st dst False)
          else
            let srcRegion = (case pr_surface_region pipeline of Some r \<Rightarrow> r | None \<Rightarrow> full_region (st_surface st s));
                dstRegion = (case pr_output_region pipeline of Some r \<Rightarrow> r | None \<Rightarrow> full_region (st_surface st d));
                w = rect_width srcRegion; h = rect_height srcRegion
            in if unsupported_regions srcRegion dstRegion (st_surface st s) (st_surface st d)
               then Return (False, setSurfaceResolving st dst False)
               else if waitSurfaceResolved st src = Wait then Wait
               else if \<not> be_push env then Return (False, setSurfaceResolving st dst False)
               else if \<not> (be_realise env s \<and> be_realise env d) then Return (False, setSurfaceResolving st dst False)
               else if \<not> videoProcImageRangeValid (be_image env s) (ucast w) (ucast h) \<or>
                       \<not> videoProcImageRangeValid (be_image env d) (ucast (rect_width dstRegion)) (ucast (rect_height dstRegion))
               then Return (False, setSurfaceResolving st dst False)
               else
                 let srcImg = the (be_image env s); dstImg = the (be_image env d);
                     st1 = upd_surface st s (\<lambda>sf. sf\<lparr>sf_color :=
                             the (nvSurfaceCopyColorMetadataFromBackingImage (Some (sf_color sf))
                                    (Some (be_metadata env srcImg)))\<rparr>)
                 in if \<not> blit_pixels env pipeline (sf_color (st_surface st1 s)) w h srcImg dstImg
                    then Return (False, setSurfaceResolving st1 dst False)
                    else Return (True, blit_done st1 s d)
      | _ \<Rightarrow> Return (False, setSurfaceResolving st dst False))"

end
