(* ===== verification/Picture.thy ===== *)
theory Picture
  imports DecoderSetup Blit
begin

text \<open>
  The picture calls of the driver: \<open>vaBeginPicture\<close>, \<open>vaRenderPicture\<close>, \<open>vaEndPicture\<close>,
  \<open>vaSyncSurface\<close>, \<open>vaQuerySurfaceStatus\<close> (\<open>nvBeginPicture\<close> to \<open>nvQuerySurfaceStatus\<close> of
  \<open>src/vabackend.c\<close>), and the work of the resolve thread on one job.

  A call that blocks is split at the point where it sleeps; \<open>PictureWorld\<close> composes the parts.
  \<open>picture_env\<close> holds the answers of CUDA, of the allocator and of the codec of a context. A
  codec handler reads the whole store and writes what \<open>picture_view\<close> lists: the codec part
  of its context, the building reference mask, the reference hint, and the frame type and
  colour of surfaces. Logging, timing and statistics are left out.
\<close>

section \<open>Parameters\<close>

record picture_buffer =
  pb_buffer :: NVBuffer
  pb_ownerContextId :: u32
  pb_bufferType :: int
  pb_pipeline :: VAProcPipelineParameterBuffer

record picture_view =
  pv_codec :: pic_codec
  pv_buildingReferenceMask :: u32
  pv_decodeSurfaceReferenceHint :: u32
  pv_progressiveFrame :: "nat \<Rightarrow> bool"
  pv_color :: "nat \<Rightarrow> color_meta"

record NVCodec =
  cd_handlers :: "int \<Rightarrow> (NVStore \<Rightarrow> nat \<Rightarrow> NVBuffer \<Rightarrow> picture_view) option"
  cd_schemas :: "int \<Rightarrow> BufferSchema"
  cd_beginPicture :: "(NVStore \<Rightarrow> nat \<Rightarrow> picture_view) option"

record picture_env =
  pe_codec :: "nat \<Rightarrow> NVCodec"
  pe_bufferTypeMax :: int
  pe_pipelineSize :: usize
  pe_alloc :: allocator
  pe_blit :: blit_env
  pe_decoder :: decoder_results
  pe_push :: bool
  pe_pop :: bool
  pe_decode :: bool
  pe_calloc :: bool

abbreviation VASliceParameterBufferType :: int where "VASliceParameterBufferType \<equiv> 4"
abbreviation VAProcPipelineParameterBufferType :: int where "VAProcPipelineParameterBufferType \<equiv> 41"

definition apply_view :: "nat \<Rightarrow> picture_view \<Rightarrow> NVStore \<Rightarrow> NVStore" where
  "apply_view c v st =
     upd_context
       (st\<lparr>st_surface := (\<lambda>s. (st_surface st s)\<lparr>sf_progressiveFrame := pv_progressiveFrame v s,
                                             sf_color := pv_color v s\<rparr>)\<rparr>)
       c (\<lambda>cn. cn\<lparr>cn_codec := pv_codec v, cn_buildingReferenceMask := pv_buildingReferenceMask v,
                 cn_decodeSurfaceReferenceHint := pv_decodeSurfaceReferenceHint v\<rparr>)"

definition renderTarget :: "NVStore \<Rightarrow> nat \<Rightarrow> nat option" where
  "renderTarget st c = cn_renderTarget (st_context st c)"

definition displayTarget :: "NVStore \<Rightarrow> nat \<Rightarrow> nat option" where
  "displayTarget st c = pk_displayTarget (cn_codec (st_context st c))"

section \<open>Cancelling and resetting a picture\<close>

definition cancelCurrentPictureResolve :: "nat \<Rightarrow> NVStore \<Rightarrow> NVStore" where
  "cancelCurrentPictureResolve c st =
     (let st1 = failSurfaceResolve st (displayTarget st c) VA_STATUS_ERROR_DECODING_ERROR
      in if renderTarget st c \<noteq> displayTarget st c
         then failSurfaceResolve st1 (renderTarget st c) VA_STATUS_ERROR_DECODING_ERROR else st1)"

definition resetPictureBuild :: "nat \<Rightarrow> bool \<Rightarrow> NVStore \<Rightarrow> NVStore" where
  "resetPictureBuild c cancelResolve st =
     upd_context (if cancelResolve then cancelCurrentPictureResolve c st else st) c (\<lambda>cn.
       cn\<lparr>cn_codec := (cn_codec cn)
            \<lparr>pk_bitstreamBuffer := (pk_bitstreamBuffer (cn_codec cn))\<lparr>ab_size := 0, ab_failed := False\<rparr>,
             pk_sliceOffsets := (pk_sliceOffsets (cn_codec cn))\<lparr>ab_size := 0, ab_failed := False\<rparr>,
             pk_lastSliceParams := False, pk_lastSliceParamsCount := 0,
             pk_inputValidationFailed := False, pk_displayTarget := None\<rparr>,
          cn_sliceParamsBuffer := (cn_sliceParamsBuffer cn)\<lparr>ab_size := 0, ab_failed := False\<rparr>,
          cn_renderTarget := None, cn_pictureState := NVD_PICTURE_IDLE,
          cn_pictureFailure := VA_STATUS_SUCCESS\<rparr>)"

text \<open>The two completions that the error paths of the end of a picture share.\<close>

definition completeTargets :: "nat \<Rightarrow> NVStore \<Rightarrow> NVStore" where
  "completeTargets c st =
     (let st1 = setSurfaceResolving st (displayTarget st c) False
      in if renderTarget st c \<noteq> displayTarget st c
         then setSurfaceResolving st1 (renderTarget st c) False else st1)"

section \<open>Beginning a picture\<close>

text \<open>The objects of the call, up to the wait for the surface.\<close>

definition begin_lookup :: "u32 \<Rightarrow> u32 \<Rightarrow> NVStore \<Rightarrow> VAStatus + nat \<times> nat" where
  "begin_lookup ctx target st =
     (if st_cudaWorkUnsafe st then Inl VA_STATUS_ERROR_OPERATION_FAILED
      else case st_contextIds st ctx of
        None \<Rightarrow> Inl VA_STATUS_ERROR_INVALID_CONTEXT
      | Some c \<Rightarrow>
          (case st_surfaceIds st target of
             None \<Rightarrow> Inl VA_STATUS_ERROR_INVALID_SURFACE
           | Some s \<Rightarrow> Inr (c, s)))"

text \<open>A picture index for a surface that has none; the Boolean is whether it has one now.\<close>

definition begin_index :: "nat \<Rightarrow> nat \<Rightarrow> NVStore \<Rightarrow> (bool \<times> NVStore) attempt" where
  "begin_index c s st =
     (if sf_pictureIdx (st_surface st s) = -1
      then
        let cn = st_context st c;
            surfaceLimit = (if cn_decoder cn then cn_surfaceCount cn else st_decodeSurfacesMaximum st)
        in if cn_cudaCodec cn = cudaVideoCodec_AV1
           then (case assignAV1SurfacePictureIndex st c s surfaceLimit of (i, st') \<Rightarrow> Return (\<not> i < 0, st'))
           else (case assignSurfacePictureIndex st c s surfaceLimit of
                   Wait \<Rightarrow> Wait
                 | Return (i, st') \<Rightarrow> Return (\<not> i < 0, st'))
      else Return (True, st))"

text \<open>The new build: everything from the marking of the surface to the codec's own start.\<close>

definition begin_codec :: "NVContext \<Rightarrow> int \<Rightarrow> nat \<Rightarrow> pic_codec" where
  "begin_codec cn idx s =
     (let pk = cn_codec cn;
          fresh = (cn_profile cn \<noteq> VAProfileAV1Profile0 \<and> cn_profile cn \<noteq> VAProfileAV1Profile1)
      in pk\<lparr>pk_bitstreamBuffer := (pk_bitstreamBuffer pk)\<lparr>ab_failed := False\<rparr>,
            pk_sliceOffsets := (pk_sliceOffsets pk)\<lparr>ab_failed := False\<rparr>,
            pk_lastSliceParams := (if fresh then False else pk_lastSliceParams pk),
            pk_lastSliceParamsCount := (if fresh then 0 else pk_lastSliceParamsCount pk),
            pk_inputValidationFailed := False, pk_bitstreamDataOffset := 0,
            pk_displayTarget := Some s, pk_nNumSlices := 0, pk_CurrPicIdx := idx,
            pk_bottom_field_flag := 0, pk_second_field := 0\<rparr>)"

definition begin_build :: "picture_env \<Rightarrow> nat \<Rightarrow> nat \<Rightarrow> NVStore \<Rightarrow> NVStore" where
  "begin_build env c s st =
     (let st1 = setSurfaceResolving st (Some s) True;
          st2 = upd_context st1 c (\<lambda>cn. cn
            \<lparr>cn_sliceParamsBuffer := (cn_sliceParamsBuffer cn)\<lparr>ab_failed := False,
               ab_size := (if cn_profile cn \<noteq> VAProfileAV1Profile0 \<and> cn_profile cn \<noteq> VAProfileAV1Profile1
                           then 0 else ab_size (cn_sliceParamsBuffer cn))\<rparr>,
             cn_buildingReferenceMask := (if cn_cudaCodec cn \<noteq> cudaVideoCodec_AV1 then 0
                                          else cn_buildingReferenceMask cn),
             cn_renderTarget := Some s,
             cn_codec := begin_codec cn (sf_pictureIdx (st_surface st1 s)) s\<rparr>);
          st3 = upd_surface st2 s (\<lambda>sf. sf\<lparr>sf_progressiveFrame := True,
                  sf_color := the (nvSurfaceResetColorMetadata (Some (sf_color sf)))\<rparr>)
      in case cd_beginPicture (pe_codec env c) of
           None \<Rightarrow> st3
         | Some f \<Rightarrow> apply_view c (f st3 c) st3)"

definition begin_after_wait ::
    "picture_env \<Rightarrow> nat \<Rightarrow> nat \<Rightarrow> NVStore \<Rightarrow> (VAStatus \<times> NVStore) attempt" where
  "begin_after_wait env c s st =
     (if cn_videoProc (st_context st c)
      then Return (VA_STATUS_SUCCESS,
             upd_context (setSurfaceResolving st (Some s) True) c (\<lambda>cn. cn\<lparr>cn_renderTarget := Some s\<rparr>))
      else
        let owner = sf_context (st_surface st s);
            st1 = (if owner \<noteq> None \<and> owner \<noteq> Some c then releaseSurfacePictureIndex st (Some s) else st)
        in case recreateDecoderForSurface c s st1 of
             (decoderStatus, st2) \<Rightarrow>
               if decoderStatus \<noteq> VA_STATUS_SUCCESS then Return (decoderStatus, st2)
               else case begin_index c s st2 of
                      Wait \<Rightarrow> Wait
                    | Return (False, st3) \<Rightarrow> Return (VA_STATUS_ERROR_MAX_NUM_EXCEEDED, st3)
                    | Return (True, st3) \<Rightarrow> Return (VA_STATUS_SUCCESS, begin_build env c s st3))"

definition nvBeginPictureImpl ::
    "picture_env \<Rightarrow> u32 \<Rightarrow> u32 \<Rightarrow> NVStore \<Rightarrow> (VAStatus \<times> NVStore) attempt" where
  "nvBeginPictureImpl env ctx target st =
     (case begin_lookup ctx target st of
        Inl status \<Rightarrow> Return (status, st)
      | Inr (c, s) \<Rightarrow>
          if waitSurfaceResolved st (Some s) = Wait then Wait else begin_after_wait env c s st)"

definition begin_enter :: "nat \<Rightarrow> NVStore \<Rightarrow> NVStore" where
  "begin_enter c st = upd_context st c (\<lambda>cn. cn\<lparr>cn_pictureState := NVD_PICTURE_BUILDING\<rparr>)"

definition begin_leave :: "nat \<Rightarrow> VAStatus \<Rightarrow> NVStore \<Rightarrow> NVStore" where
  "begin_leave c status st = (if status \<noteq> VA_STATUS_SUCCESS then resetPictureBuild c True st else st)"

definition nvBeginPicture ::
    "picture_env \<Rightarrow> u32 \<Rightarrow> u32 \<Rightarrow> NVStore \<Rightarrow> (VAStatus \<times> NVStore) attempt" where
  "nvBeginPicture env ctx target st =
     (case st_contextIds st ctx of
        None \<Rightarrow> Return (VA_STATUS_ERROR_INVALID_CONTEXT, st)
      | Some c \<Rightarrow>
          if cn_pictureState (st_context st c) \<noteq> NVD_PICTURE_IDLE
          then Return (VA_STATUS_ERROR_OPERATION_FAILED, st)
          else case nvBeginPictureImpl env ctx target (begin_enter c st) of
                 Wait \<Rightarrow> Wait
               | Return (status, st') \<Rightarrow> Return (status, begin_leave c status st'))"

section \<open>Rendering buffers\<close>

definition isValidBufferType :: "int \<Rightarrow> int \<Rightarrow> bool" where
  "isValidBufferType typeMax type \<longleftrightarrow> type \<ge> 0 \<and> type < typeMax"

text \<open>
  The loop of a video processing context. \<open>Blocked\<close> is the wait for the source of the first
  of the remaining buffers, with the flag \<open>processed\<close> at that point.
\<close>

datatype render_result = Rendered VAStatus | Blocked "picture_buffer option list" bool

fun render_videoproc ::
    "picture_env \<Rightarrow> nat \<Rightarrow> u32 \<Rightarrow> picture_buffer option list \<Rightarrow> bool \<Rightarrow> NVStore \<Rightarrow> render_result \<times> NVStore" where
  "render_videoproc env c ctx [] processed st =
     (Rendered VA_STATUS_SUCCESS,
      if \<not> processed then setSurfaceResolving st (renderTarget st c) False else st)"
| "render_videoproc env c ctx (None # bufs) processed st =
     (Rendered VA_STATUS_ERROR_INVALID_BUFFER, cancelCurrentPictureResolve c st)"
| "render_videoproc env c ctx (Some b # bufs) processed st =
     (if pb_ownerContextId b \<noteq> ctx
      then (Rendered VA_STATUS_ERROR_INVALID_BUFFER, cancelCurrentPictureResolve c st)
      else if pb_bufferType b \<noteq> VAProcPipelineParameterBufferType \<or> nb_elements (pb_buffer b) \<noteq> 1 \<or>
              nb_elementSize (pb_buffer b) < pe_pipelineSize env \<or> nb_ptr (pb_buffer b) = None
      then (Rendered VA_STATUS_ERROR_INVALID_PARAMETER, cancelCurrentPictureResolve c st)
      else case copySurfaceBackingImage (pe_blit env) (st_surfaceIds st (pr_surface (pb_pipeline b)))
                  (renderTarget st c) (pb_pipeline b) st of
             Wait \<Rightarrow> (Blocked (Some b # bufs) processed, st)
           | Return (copied, st') \<Rightarrow>
               if \<not> copied then (Rendered VA_STATUS_ERROR_OPERATION_FAILED, st')
               else render_videoproc env c ctx bufs True st')"

text \<open>One buffer of a decode context: the errors mark the input invalid or cancel the picture.\<close>

definition markInvalid :: "nat \<Rightarrow> NVStore \<Rightarrow> NVStore" where
  "markInvalid c st = upd_context st c (\<lambda>cn. cn\<lparr>cn_codec := (cn_codec cn)\<lparr>pk_inputValidationFailed := True\<rparr>\<rparr>)"

definition reject_buffer :: "nat \<Rightarrow> NVStore \<Rightarrow> NVStore" where
  "reject_buffer c st = cancelCurrentPictureResolve c (markInvalid c st)"

definition buffers_failed :: "NVContext \<Rightarrow> bool" where
  "buffers_failed cn \<longleftrightarrow> ab_failed (pk_bitstreamBuffer (cn_codec cn)) \<or>
     ab_failed (pk_sliceOffsets (cn_codec cn)) \<or> ab_failed (cn_sliceParamsBuffer cn)"

text \<open>The call of the handler: slice parameters are copied into the context first.\<close>

definition call_handler ::
    "picture_env \<Rightarrow> nat \<Rightarrow> picture_buffer \<Rightarrow> (NVStore \<Rightarrow> nat \<Rightarrow> NVBuffer \<Rightarrow> picture_view) \<Rightarrow> NVStore \<Rightarrow> bool \<times> NVStore" where
  "call_handler env c b f st =
     (if pb_bufferType b = VASliceParameterBufferType
      then case appendBuffer (pe_alloc env) ((cn_sliceParamsBuffer (st_context st c))\<lparr>ab_size := 0\<rparr>)
                  (nb_ptr (pb_buffer b)) (nb_size (pb_buffer b)) of
             (appended, params) \<Rightarrow>
               (let st1 = upd_context st c (\<lambda>cn. cn\<lparr>cn_sliceParamsBuffer := params\<rparr>)
                in if \<not> appended then (False, st1)
                   else (True, apply_view c (f st1 c ((pb_buffer b)\<lparr>nb_ptr := ab_buf params\<rparr>)) st1))
      else (True, apply_view c (f st c (pb_buffer b)) st))"

definition render_buffer ::
    "picture_env \<Rightarrow> nat \<Rightarrow> u32 \<Rightarrow> picture_buffer option \<Rightarrow> NVStore \<Rightarrow> VAStatus \<times> NVStore" where
  "render_buffer env c ctx buf st =
     (case buf of
        None \<Rightarrow> (VA_STATUS_ERROR_INVALID_BUFFER, reject_buffer c st)
      | Some b \<Rightarrow>
          if nb_ptr (pb_buffer b) = None then (VA_STATUS_ERROR_INVALID_BUFFER, reject_buffer c st)
          else if pb_ownerContextId b \<noteq> ctx then (VA_STATUS_ERROR_INVALID_BUFFER, reject_buffer c st)
          else if \<not> isValidBufferType (pe_bufferTypeMax env) (pb_bufferType b)
          then (VA_STATUS_ERROR_UNSUPPORTED_BUFFERTYPE, reject_buffer c st)
          else case cd_handlers (pe_codec env c) (pb_bufferType b) of
                 None \<Rightarrow> (VA_STATUS_ERROR_UNSUPPORTED_BUFFERTYPE, reject_buffer c st)
               | Some f \<Rightarrow>
                   if \<not> nvValidateBufferSchema (Some (pb_buffer b))
                          (Some (cd_schemas (pe_codec env c) (pb_bufferType b)))
                   then (VA_STATUS_ERROR_INVALID_PARAMETER, reject_buffer c st)
                   else (case call_handler env c b f st of
                     (False, st1) \<Rightarrow> (VA_STATUS_ERROR_ALLOCATION_FAILED, cancelCurrentPictureResolve c st1)
                   | (True, st1) \<Rightarrow>
                       if pk_inputValidationFailed (cn_codec (st_context st1 c))
                       then (VA_STATUS_ERROR_INVALID_PARAMETER, completeTargets c st1)
                       else if buffers_failed (st_context st1 c)
                       then (VA_STATUS_ERROR_ALLOCATION_FAILED, cancelCurrentPictureResolve c st1)
                       else (VA_STATUS_SUCCESS, st1)))"

fun render_decode ::
    "picture_env \<Rightarrow> nat \<Rightarrow> u32 \<Rightarrow> picture_buffer option list \<Rightarrow> NVStore \<Rightarrow> VAStatus \<times> NVStore" where
  "render_decode env c ctx [] st = (VA_STATUS_SUCCESS, st)"
| "render_decode env c ctx (b # bufs) st =
     (case render_buffer env c ctx b st of
        (status, st') \<Rightarrow> if status \<noteq> VA_STATUS_SUCCESS then (status, st')
                        else render_decode env c ctx bufs st')"

text \<open>\<open>bufs\<close> is \<open>None\<close> for a negative count or a missing array.\<close>

definition nvRenderPictureImpl ::
    "picture_env \<Rightarrow> u32 \<Rightarrow> picture_buffer option list option \<Rightarrow> NVStore \<Rightarrow> render_result \<times> NVStore" where
  "nvRenderPictureImpl env ctx bufs st =
     (case st_contextIds st ctx of
        None \<Rightarrow> (Rendered VA_STATUS_ERROR_INVALID_CONTEXT, st)
      | Some c \<Rightarrow>
          if st_cudaWorkUnsafe st
          then (Rendered VA_STATUS_ERROR_OPERATION_FAILED, cancelCurrentPictureResolve c st)
          else case bufs of
            None \<Rightarrow> (Rendered VA_STATUS_ERROR_INVALID_PARAMETER, cancelCurrentPictureResolve c st)
          | Some bs \<Rightarrow>
              if cn_videoProc (st_context st c) then render_videoproc env c ctx bs False st
              else (case render_decode env c ctx bs st of (status, st') \<Rightarrow> (Rendered status, st')))"

definition render_leave :: "nat \<Rightarrow> VAStatus \<Rightarrow> NVStore \<Rightarrow> NVStore" where
  "render_leave c status st =
     (if status \<noteq> VA_STATUS_SUCCESS
      then cancelCurrentPictureResolve c (upd_context st c (\<lambda>cn. cn\<lparr>cn_pictureState := NVD_PICTURE_FAILED,
                                                              cn_pictureFailure := status\<rparr>))
      else st)"

text \<open>The whole call; a blocked call goes on with \<open>render_videoproc\<close> from where it stopped.\<close>

definition nvRenderPicture ::
    "picture_env \<Rightarrow> u32 \<Rightarrow> picture_buffer option list option \<Rightarrow> NVStore \<Rightarrow> render_result \<times> NVStore" where
  "nvRenderPicture env ctx bufs st =
     (case st_contextIds st ctx of
        None \<Rightarrow> (Rendered VA_STATUS_ERROR_INVALID_CONTEXT, st)
      | Some c \<Rightarrow>
          if cn_pictureState (st_context st c) \<noteq> NVD_PICTURE_BUILDING
          then (Rendered VA_STATUS_ERROR_OPERATION_FAILED, st)
          else case nvRenderPictureImpl env ctx bufs st of
                 (Rendered status, st') \<Rightarrow> (Rendered status, render_leave c status st')
               | (Blocked rest processed, st') \<Rightarrow> (Blocked rest processed, st'))"

section \<open>Trimming the host buffers\<close>

definition hostBufferIsUnderused :: "AppendableBuffer \<Rightarrow> usize \<Rightarrow> u64 \<Rightarrow> bool" where
  "hostBufferIsUnderused buffer used threshold \<longleftrightarrow>
     threshold \<noteq> 0 \<and> ab_allocated buffer > threshold \<and> used \<le> ab_allocated buffer div 4"

definition hostBufferTrimTarget :: "usize \<Rightarrow> u64 \<Rightarrow> usize" where
  "hostBufferTrimTarget used threshold =
     (let target = (if used \<le> SIZE_MAX div 2 then used * 2 else used);
          floor64 = threshold div 8;
          floor64 = (if floor64 < 256 then 256 else floor64);
          floor = (if floor64 > SIZE_MAX then SIZE_MAX else floor64)
      in if target < floor then floor else target)"

definition trim_if :: "allocator \<Rightarrow> bool \<Rightarrow> AppendableBuffer \<Rightarrow> usize \<Rightarrow> AppendableBuffer" where
  "trim_if mem underused buffer target =
     (if underused then the (snd (trimBuffer mem (Some buffer) target)) else buffer)"

definition maybeTrimContextHostBuffers ::
    "allocator \<Rightarrow> u64 \<Rightarrow> u32 \<Rightarrow> NVContext \<Rightarrow> usize \<Rightarrow> usize \<Rightarrow> usize \<Rightarrow> NVContext" where
  "maybeTrimContextHostBuffers mem threshold frames cn bitstreamBytes sliceOffsetBytes sliceParamBytes =
     (let bits = pk_bitstreamBuffer (cn_codec cn);
          offs = pk_sliceOffsets (cn_codec cn);
          params = cn_sliceParamsBuffer cn;
          bitstreamUnderused = hostBufferIsUnderused bits bitstreamBytes threshold;
          offsetsUnderused = hostBufferIsUnderused offs sliceOffsetBytes threshold;
          paramsUnderused = hostBufferIsUnderused params sliceParamBytes threshold
      in if \<not> bitstreamUnderused \<and> \<not> offsetsUnderused \<and> \<not> paramsUnderused
         then cn\<lparr>cn_hostBufferUnderuseFrames := 0\<rparr>
         else
           let underuse = (if cn_hostBufferUnderuseFrames cn < UINT32_MAX
                           then cn_hostBufferUnderuseFrames cn + 1 else cn_hostBufferUnderuseFrames cn)
           in if frames \<noteq> 0 \<and> underuse < frames then cn\<lparr>cn_hostBufferUnderuseFrames := underuse\<rparr>
              else cn\<lparr>cn_codec := (cn_codec cn)
                        \<lparr>pk_bitstreamBuffer := trim_if mem bitstreamUnderused bits
                           (hostBufferTrimTarget bitstreamBytes threshold),
                         pk_sliceOffsets := trim_if mem offsetsUnderused offs
                           (hostBufferTrimTarget sliceOffsetBytes threshold)\<rparr>,
                      cn_sliceParamsBuffer := trim_if mem paramsUnderused params
                        (hostBufferTrimTarget sliceParamBytes threshold),
                      cn_hostBufferUnderuseFrames := 0\<rparr>)"

section \<open>Ending a picture\<close>

definition upd_codec :: "nat \<Rightarrow> (pic_codec \<Rightarrow> pic_codec) \<Rightarrow> NVStore \<Rightarrow> NVStore" where
  "upd_codec c f st = upd_context st c (\<lambda>cn. cn\<lparr>cn_codec := f (cn_codec cn)\<rparr>)"

definition dropBitstream :: "nat \<Rightarrow> NVStore \<Rightarrow> NVStore" where
  "dropBitstream c = upd_codec c (\<lambda>pk. pk
     \<lparr>pk_bitstreamBuffer := (pk_bitstreamBuffer pk)\<lparr>ab_size := 0\<rparr>,
      pk_sliceOffsets := (pk_sliceOffsets pk)\<lparr>ab_size := 0\<rparr>\<rparr>)"

definition clearBufferFailures :: "nat \<Rightarrow> NVStore \<Rightarrow> NVStore" where
  "clearBufferFailures c st = upd_context st c (\<lambda>cn. cn
     \<lparr>cn_codec := (cn_codec cn)
        \<lparr>pk_bitstreamBuffer := (pk_bitstreamBuffer (cn_codec cn))\<lparr>ab_failed := False\<rparr>,
         pk_sliceOffsets := (pk_sliceOffsets (cn_codec cn))\<lparr>ab_failed := False\<rparr>\<rparr>,
      cn_sliceParamsBuffer := (cn_sliceParamsBuffer cn)\<lparr>ab_failed := False\<rparr>\<rparr>)"

text \<open>Every AV1 tile must have been given its offset.\<close>

definition checkAV1Tiles :: "nat \<Rightarrow> NVStore \<Rightarrow> NVStore" where
  "checkAV1Tiles c st =
     (let cn = st_context st c; pk = cn_codec cn
      in if cn_cudaCodec cn = cudaVideoCodec_AV1 \<and> \<not> buffers_failed cn \<and>
            (pk_nNumSlices pk = 0 \<or> pk_TileOffsetsSeen pk \<noteq> pk_nNumSlices pk)
         then markInvalid c st else st)"

definition submittedSurface :: "NVStore \<Rightarrow> nat \<Rightarrow> nat option" where
  "submittedSurface st c = (case displayTarget st c of Some s \<Rightarrow> Some s | None \<Rightarrow> renderTarget st c)"

text \<open>The snapshot of the surface that the job carries, and what the surface keeps.\<close>

definition make_job :: "nat \<Rightarrow> NVSurface \<Rightarrow> VAStatus \<Rightarrow> ResolveJob" where
  "make_job s sf status =
     \<lparr>jb_surface = s, jb_generation = sf_submittedGeneration sf, jb_pictureIdx = sf_pictureIdx sf,
      jb_progressiveFrame = sf_progressiveFrame sf, jb_topFieldFirst = sf_topFieldFirst sf,
      jb_secondField = sf_secondField sf \<noteq> 0, jb_decodeStatus = status,
      jb_shared = sf_exported sf \<or> sf_external sf\<rparr>"

definition prepare_surface :: "nat \<Rightarrow> NVContext \<Rightarrow> VAStatus \<Rightarrow> NVSurface \<Rightarrow> NVSurface" where
  "prepare_surface c cn status sf =
     sf\<lparr>sf_context := Some c, sf_contextId := cn_id cn,
        sf_topFieldFirst := (pk_bottom_field_flag (cn_codec cn) = 0),
        sf_secondField := pk_second_field (cn_codec cn),
        sf_decodeFailed := status \<noteq> VA_STATUS_SUCCESS\<rparr>"

definition activate_references :: "nat \<Rightarrow> VAStatus \<Rightarrow> NVStore \<Rightarrow> NVStore" where
  "activate_references c status st =
     (case renderTarget st c of
        None \<Rightarrow> st
      | Some r \<Rightarrow>
          let idx = sf_pictureIdx (st_surface st r)
          in if status = VA_STATUS_SUCCESS \<and> cn_cudaCodec (st_context st c) \<noteq> cudaVideoCodec_AV1 \<and>
                idx \<ge> 0 \<and> idx < 32
             then upd_context st c (\<lambda>cn. cn\<lparr>cn_activeReferenceMask :=
                    or (cn_buildingReferenceMask cn) (push_bit (nat idx) 1)\<rparr>)
             else st)"

text \<open>From the accepted decode to the job; \<open>Inr\<close> is the job to push, with the status so far.\<close>

definition end_job :: "picture_env \<Rightarrow> nat \<Rightarrow> NVStore \<Rightarrow> (VAStatus + nat \<times> ResolveJob \<times> VAStatus) \<times> NVStore" where
  "end_job env c st =
     (let status = (if pe_decode env then VA_STATUS_SUCCESS else VA_STATUS_ERROR_DECODING_ERROR);
          surface = submittedSurface st c;
          st1 = (if surface \<noteq> renderTarget st c
                 then setSurfaceResolving (setSurfaceResolving st surface True) (renderTarget st c) False
                 else st)
      in if \<not> pe_calloc env
         then (Inl VA_STATUS_ERROR_ALLOCATION_FAILED,
               let st2 = failSurfaceResolve st1 surface VA_STATUS_ERROR_ALLOCATION_FAILED
               in if surface \<noteq> renderTarget st c
                  then failSurfaceResolve st2 (renderTarget st c) VA_STATUS_ERROR_ALLOCATION_FAILED else st2)
         else case surface of
           None \<Rightarrow> (Inl VA_STATUS_ERROR_OPERATION_FAILED, st1)
         | Some s \<Rightarrow>
             let st2 = upd_surface st1 s (prepare_surface c (st_context st1 c) status)
             in (Inr (s, make_job s (st_surface st2 s) status, status), activate_references c status st2))"

text \<open>
  \<open>nvEndPictureImpl\<close> up to the push of the job. No picture is built without a render target, so
  the missing surface of \<open>end_job\<close> does not occur (the code would dereference it).
\<close>

definition end_submit ::
    "picture_env \<Rightarrow> nat \<Rightarrow> NVStore \<Rightarrow> (VAStatus + nat \<times> ResolveJob \<times> VAStatus) \<times> NVStore" where
  "end_submit env c st =
     (if st_cudaWorkUnsafe st
      then (Inl VA_STATUS_ERROR_OPERATION_FAILED,
            failSurfaceResolve st (renderTarget st c) VA_STATUS_ERROR_OPERATION_FAILED)
      else if cn_videoProc (st_context st c)
      then (Inl VA_STATUS_SUCCESS, setSurfaceResolving st (renderTarget st c) False)
      else
        let st1 = checkAV1Tiles c st
        in if pk_inputValidationFailed (cn_codec (st_context st1 c))
           then (Inl VA_STATUS_ERROR_INVALID_PARAMETER,
                 completeTargets c (upd_codec c (\<lambda>pk. pk\<lparr>pk_inputValidationFailed := False\<rparr>) (dropBitstream c st1)))
           else if buffers_failed (st_context st1 c)
           then (Inl VA_STATUS_ERROR_ALLOCATION_FAILED,
                 completeTargets c (clearBufferFailures c (dropBitstream c st1)))
           else (case createDecoderForContext (pe_decoder env) c st1 of (decoderStatus, st2) \<Rightarrow>
             if decoderStatus \<noteq> VA_STATUS_SUCCESS
             then (Inl decoderStatus, completeTargets c (dropBitstream c st2))
             else
               let bitstreamBytes = ab_size (pk_bitstreamBuffer (cn_codec (st_context st2 c)));
                   sliceOffsetBytes = ab_size (pk_sliceOffsets (cn_codec (st_context st2 c)));
                   sliceParamBytes = ab_size (cn_sliceParamsBuffer (st_context st2 c));
                   st3 = dropBitstream c st2
               in if \<not> pe_push env \<or> \<not> pe_pop env
                  then (Inl VA_STATUS_ERROR_OPERATION_FAILED,
                        setSurfaceResolving st3 (submittedSurface st3 c) False)
                  else end_job env c (upd_context st3 c (\<lambda>cn.
                         maybeTrimContextHostBuffers (pe_alloc env) (st_hostBufferTrimThresholdBytes st3)
                           (st_hostBufferTrimFrames st3) cn bitstreamBytes sliceOffsetBytes sliceParamBytes))))"

text \<open>After the push: \<open>Inr\<close> when the surface is shared and has to be resolved before the return.\<close>

definition end_pushed :: "nat \<Rightarrow> nat \<Rightarrow> VAStatus \<Rightarrow> bool \<Rightarrow> NVStore \<Rightarrow> (VAStatus + nat) \<times> NVStore" where
  "end_pushed c s status pushed st =
     (if \<not> pushed
      then (Inl VA_STATUS_ERROR_OPERATION_FAILED, failSurfaceResolve st (Some s) VA_STATUS_ERROR_OPERATION_FAILED)
      else
        let st1 = upd_context st c (\<lambda>cn. cn\<lparr>cn_pictureState := NVD_PICTURE_SUBMITTED\<rparr>);
            sf = st_surface st1 s
        in (if sf_exported sf \<or> sf_external sf then Inr s else Inl status, st1))"

definition end_leave :: "nat \<Rightarrow> NVStore \<Rightarrow> NVStore" where
  "end_leave c st =
     (let submitted = (cn_pictureState (st_context st c) = NVD_PICTURE_SUBMITTED)
      in resetPictureBuild c (\<not> cn_videoProc (st_context st c) \<and> \<not> submitted) st)"

text \<open>The entry of the call: an answer without a submission, or the picture to submit.\<close>

definition end_enter :: "u32 \<Rightarrow> NVStore \<Rightarrow> (VAStatus \<times> NVStore) + nat" where
  "end_enter ctx st =
     (case st_contextIds st ctx of
        None \<Rightarrow> Inl (VA_STATUS_ERROR_INVALID_CONTEXT, st)
      | Some c \<Rightarrow>
          (case cn_pictureState (st_context st c) of
             NVD_PICTURE_IDLE \<Rightarrow> Inl (VA_STATUS_ERROR_OPERATION_FAILED, st)
           | NVD_PICTURE_SUBMITTED \<Rightarrow> Inl (VA_STATUS_ERROR_OPERATION_FAILED, st)
           | NVD_PICTURE_FAILED \<Rightarrow>
               Inl (cn_pictureFailure (st_context st c), resetPictureBuild c True st)
           | NVD_PICTURE_BUILDING \<Rightarrow> Inr c))"

section \<open>Waiting for a surface and asking for its state\<close>

definition nvSyncSurface :: "u32 \<Rightarrow> NVStore \<Rightarrow> VAStatus attempt" where
  "nvSyncSurface target st =
     (case st_surfaceIds st target of
        None \<Rightarrow> Return VA_STATUS_ERROR_INVALID_SURFACE
      | Some s \<Rightarrow>
          (case waitSurfaceResolved st (Some s) of
             Wait \<Rightarrow> Wait
           | Return _ \<Rightarrow> Return (sf_completionStatus (st_surface st s))))"

datatype VASurfaceStatus = VASurfaceRendering | VASurfaceReady

definition nvQuerySurfaceStatus :: "u32 \<Rightarrow> NVStore \<Rightarrow> VAStatus + VASurfaceStatus" where
  "nvQuerySurfaceStatus target st =
     (case st_surfaceIds st target of
        None \<Rightarrow> Inl VA_STATUS_ERROR_INVALID_SURFACE
      | Some s \<Rightarrow> Inr (if sf_resolving (st_surface st s) then VASurfaceRendering else VASurfaceReady))"

section \<open>The resolve thread and one job\<close>

record resolve_results =
  rs_map :: bool
  rs_export :: bool
  rs_sync :: bool
  rs_unmap :: bool

text \<open>Whether the frame failed, and whether GPU work is left in an unknown state.\<close>

definition resolve_frame :: "resolve_results \<Rightarrow> ResolveJob \<Rightarrow> bool \<Rightarrow> bool \<times> bool" where
  "resolve_frame res job unsafe =
     (let failed = (jb_decodeStatus job \<noteq> VA_STATUS_SUCCESS \<or> unsafe)
      in if failed \<or> \<not> rs_map res then (True, unsafe)
         else
           let failed = (\<not> rs_export res);
               unsafe = (unsafe \<or> (failed \<and> \<not> rs_sync res));
               failed = (failed \<or> (\<not> unsafe \<and> \<not> rs_unmap res))
           in (failed, unsafe))"

text \<open>The surface afterwards, and whether the job is of its current generation.\<close>

definition resolve_check :: "resolve_results \<Rightarrow> ResolveJob \<Rightarrow> NVStore \<Rightarrow> bool \<times> NVStore" where
  "resolve_check res job st =
     (case resolve_frame res job (st_cudaWorkUnsafe st) of (failed, unsafe) \<Rightarrow>
        let st1 = st\<lparr>st_cudaWorkUnsafe := unsafe\<rparr>;
            currentGeneration = (sf_submittedGeneration (st_surface st1 (jb_surface job)) = jb_generation job)
        in (currentGeneration,
            if currentGeneration
            then upd_surface st1 (jb_surface job) (\<lambda>sf. sf\<lparr>sf_decodeFailed := failed \<or> unsafe\<rparr>) else st1))"

text \<open>The cancelled jobs of a queue, failed one after the other.\<close>

definition failJobs :: "ResolveJob option list \<Rightarrow> NVStore \<Rightarrow> NVStore" where
  "failJobs jobs st =
     fold (\<lambda>job st. case job of
             None \<Rightarrow> st
           | Some j \<Rightarrow> failSurfaceResolve st (Some (jb_surface j)) VA_STATUS_ERROR_OPERATION_FAILED) jobs st"

end
