(* ===== verification/PictureWorld.thy ===== *)
theory PictureWorld
  imports Picture
begin

text \<open>
  Picture calls, resolve threads and the destruction of a context in every interleaving
  (\<open>nvBeginPicture\<close>, \<open>nvRenderPicture\<close>, \<open>nvEndPicture\<close>, \<open>resolveSurfaces\<close>, \<open>destroyContext\<close> of
  \<open>src/vabackend.c\<close>).

  A world is the store with, for every context, its resolve queue, the position of its resolve
  thread (\<open>resolve_worker\<close>) and the picture call that holds its \<open>pictureMutex\<close>
  (\<open>picture_call\<close>). A step is the code between two points where a thread can block or where
  another thread sees the state of a surface: a call that waits for a surface passes the wait in
  one step and goes on in the next, so that another context may take the surface in between.
  The answers of CUDA, of the codec and of the allocator are chosen anew in every step.
  \<open>w_destroying\<close> is the context whose destruction holds the lifetime lock exclusively.
\<close>

datatype resolve_worker =
  NotStarted | Starting | Popping | Resolving ResolveJob | Completing nat | Finished

datatype picture_call =
  NoCall
| BeginWaiting nat
| BeginRunning nat
| RenderWaiting u32 "picture_buffer option list" bool
| EndPushing nat ResolveJob push_call VAStatus
| EndWaiting nat

record PictureWorld =
  w_store :: NVStore
  w_queue :: "nat \<Rightarrow> ResolveJob ResolveQueue"
  w_worker :: "nat \<Rightarrow> resolve_worker"
  w_call :: "nat \<Rightarrow> picture_call"
  w_destroying :: "nat option"

definition at_call :: "nat \<Rightarrow> picture_call \<Rightarrow> NVStore \<Rightarrow> PictureWorld \<Rightarrow> PictureWorld" where
  "at_call c call st w = w\<lparr>w_store := st, w_call := (w_call w)(c := call)\<rparr>"

definition at_worker :: "nat \<Rightarrow> resolve_worker \<Rightarrow> NVStore \<Rightarrow> PictureWorld \<Rightarrow> PictureWorld" where
  "at_worker c r st w = w\<lparr>w_store := st, w_worker := (w_worker w)(c := r)\<rparr>"

definition set_queue :: "nat \<Rightarrow> ResolveJob ResolveQueue \<Rightarrow> PictureWorld \<Rightarrow> PictureWorld" where
  "set_queue c q w = w\<lparr>w_queue := (w_queue w)(c := q)\<rparr>"

text \<open>A rendering that ran until it ended or blocked.\<close>

definition after_render :: "nat \<Rightarrow> u32 \<Rightarrow> render_result \<times> NVStore \<Rightarrow> PictureWorld \<Rightarrow> PictureWorld" where
  "after_render c ctx r w =
     (case r of
        (Rendered status, st) \<Rightarrow> at_call c NoCall (render_leave c status st) w
      | (Blocked rest processed, st) \<Rightarrow> at_call c (RenderWaiting ctx rest processed) st w)"

definition after_submit ::
    "nat \<Rightarrow> (VAStatus + nat \<times> ResolveJob \<times> VAStatus) \<times> NVStore \<Rightarrow> PictureWorld \<Rightarrow> PictureWorld" where
  "after_submit c r w =
     (case r of
        (Inl status, st) \<Rightarrow> at_call c NoCall (end_leave c st) w
      | (Inr (s, job, status), st) \<Rightarrow> at_call c (EndPushing s job push_call_start status) st w)"

text \<open>One attempt to push the job of a call.\<close>

definition try_push ::
    "(u64 \<times> u64) option \<Rightarrow> (u64 \<times> u64) option \<Rightarrow> bool \<Rightarrow> nat \<Rightarrow> nat \<Rightarrow> ResolveJob \<Rightarrow> push_call \<Rightarrow> VAStatus \<Rightarrow>
     PictureWorld \<Rightarrow> PictureWorld" where
  "try_push clock clock2 timed c s job pc status w =
     (case push_attempt clock clock2 timed (w_queue w c) pc (Some job) of
        (Wait, q, pc') \<Rightarrow> set_queue c q (at_call c (EndPushing s job pc' status) (w_store w) w)
      | (Return (pushed, _), q, _) \<Rightarrow>
          set_queue c q
            (case end_pushed c s status pushed (w_store w) of
               (Inl _, st) \<Rightarrow> at_call c NoCall (end_leave c st) w
             | (Inr shared, st) \<Rightarrow> at_call c (EndWaiting shared) st w))"

text \<open>One attempt of the resolve thread to take a job; without one it releases the decoder and ends.\<close>

definition worker_exit :: "nat \<Rightarrow> NVStore \<Rightarrow> NVStore" where
  "worker_exit c st =
     (if st_cudaWorkUnsafe st then st else upd_context st c (\<lambda>cn. cn\<lparr>cn_decoder := False\<rparr>))"

definition try_pop :: "bool \<Rightarrow> nat \<Rightarrow> PictureWorld \<Rightarrow> PictureWorld" where
  "try_pop synchronized c w =
     (case pop_attempt (w_queue w c) of
        (Wait, q) \<Rightarrow> set_queue c q w
      | (Return None, q) \<Rightarrow>
          (let st = w_store w; st1 = st\<lparr>st_cudaWorkUnsafe := st_cudaWorkUnsafe st \<or> \<not> synchronized\<rparr>
           in set_queue c q (at_worker c Finished (worker_exit c st1) w))
      | (Return (Some None), q) \<Rightarrow> set_queue c q w
      | (Return (Some (Some job)), q) \<Rightarrow> set_queue c q (at_worker c (Resolving job) (w_store w) w))"

text \<open>The start of the resolve thread in its CUDA context; when that fails it cancels the queue.\<close>

definition worker_start :: "bool \<Rightarrow> nat \<Rightarrow> PictureWorld \<Rightarrow> PictureWorld" where
  "worker_start entered c w =
     (if entered then at_worker c Popping (w_store w) w
      else case resolveQueueCancel (w_queue w c) RESOLVE_QUEUE_CAPACITY of
        (_, jobs, q) \<Rightarrow> set_queue c q (at_worker c Finished (failJobs jobs (w_store w)) w))"

definition worker_check :: "resolve_results \<Rightarrow> nat \<Rightarrow> ResolveJob \<Rightarrow> PictureWorld \<Rightarrow> PictureWorld" where
  "worker_check res c job w =
     (case resolve_check res job (w_store w) of
        (current, st) \<Rightarrow> at_worker c (if current then Completing (jb_surface job) else Popping) st w)"

text \<open>
  \<open>destroyContext\<close>: up to the join, and after it. The destruction of the decoder may fail
  (\<open>destroyed\<close> is the answer of CUDA), which keeps the context.
\<close>

definition destroy_begin :: "nat \<Rightarrow> PictureWorld \<Rightarrow> PictureWorld" where
  "destroy_begin c w =
     (let st = markContextDestroying (w_store w) c
      in if cn_resolveThreadStarted (st_context st c)
         then case resolveQueueCancel (w_queue w c) RESOLVE_QUEUE_CAPACITY of
                (_, jobs, q) \<Rightarrow> set_queue c q (w\<lparr>w_store := failJobs jobs st, w_destroying := Some c\<rparr>)
         else w\<lparr>w_store := st, w_destroying := Some c\<rparr>)"

definition destroy_finish :: "bool \<Rightarrow> nat \<Rightarrow> NVStore \<Rightarrow> bool \<times> NVStore" where
  "destroy_finish destroyed c st =
     (let st1 = upd_context st c (\<lambda>cn. cn\<lparr>cn_resolveThreadStarted := False\<rparr>)
      in if st_cudaWorkUnsafe st1 then (False, st1)
         else if cn_decoder (st_context st1 c) \<and> \<not> destroyed then (False, st1)
         else
           let st2 = upd_context st1 c (\<lambda>cn. cn\<lparr>cn_decoder := False\<rparr>);
               st3 = releaseContextPictureIndices st2 c
           in (True, upd_context st3 c (\<lambda>cn. cn
                 \<lparr>cn_codec := (cn_codec cn)
                    \<lparr>pk_sliceOffsets := freeAppendableBuffer (pk_sliceOffsets (cn_codec cn)),
                     pk_bitstreamBuffer := freeAppendableBuffer (pk_bitstreamBuffer (cn_codec cn))\<rparr>,
                  cn_sliceParamsBuffer := freeAppendableBuffer (cn_sliceParamsBuffer cn),
                  cn_mutexInitialized := False\<rparr>)))"

text \<open>\<open>nvDestroyContext\<close> removes the identifier of a destroyed context.\<close>

definition destroy_end :: "bool \<Rightarrow> nat \<Rightarrow> PictureWorld \<Rightarrow> PictureWorld" where
  "destroy_end destroyed c w =
     (case destroy_finish destroyed c (w_store w) of
        (False, st) \<Rightarrow> w\<lparr>w_store := st, w_destroying := None\<rparr>
      | (True, st) \<Rightarrow>
          w\<lparr>w_store := st\<lparr>st_contextIds := (\<lambda>k. if st_contextIds st k = Some c then None
                                                 else st_contextIds st k)\<rparr>,
            w_queue := (w_queue w)(c := resolveQueueDestroy (w_queue w c)), w_destroying := None\<rparr>)"

inductive picture_step :: "PictureWorld \<Rightarrow> PictureWorld \<Rightarrow> bool" where
  begin_error: "w_destroying w = None \<Longrightarrow> w_call w c = NoCall \<Longrightarrow> st_contextIds (w_store w) ctx = Some c \<Longrightarrow>
    cn_pictureState (st_context (w_store w) c) = NVD_PICTURE_IDLE \<Longrightarrow>
    begin_lookup ctx target (begin_enter c (w_store w)) = Inl status \<Longrightarrow>
    picture_step w (at_call c NoCall (begin_leave c status (begin_enter c (w_store w))) w)"
| begin_wait: "w_destroying w = None \<Longrightarrow> w_call w c = NoCall \<Longrightarrow> st_contextIds (w_store w) ctx = Some c \<Longrightarrow>
    cn_pictureState (st_context (w_store w) c) = NVD_PICTURE_IDLE \<Longrightarrow>
    begin_lookup ctx target (begin_enter c (w_store w)) = Inr (c, s) \<Longrightarrow>
    picture_step w (at_call c (BeginWaiting s) (begin_enter c (w_store w)) w)"
| begin_resolved: "w_call w c = BeginWaiting s \<Longrightarrow> waitSurfaceResolved (w_store w) (Some s) \<noteq> Wait \<Longrightarrow>
    picture_step w (at_call c (BeginRunning s) (w_store w) w)"
| begin_run: "w_call w c = BeginRunning s \<Longrightarrow> begin_after_wait env c s (w_store w) = Return (status, st) \<Longrightarrow>
    picture_step w (at_call c NoCall (begin_leave c status st) w)"
| render: "w_destroying w = None \<Longrightarrow> w_call w c = NoCall \<Longrightarrow> st_contextIds (w_store w) ctx = Some c \<Longrightarrow>
    cn_pictureState (st_context (w_store w) c) = NVD_PICTURE_BUILDING \<Longrightarrow>
    picture_step w (after_render c ctx (nvRenderPictureImpl env ctx bufs (w_store w)) w)"
| render_resume: "w_call w c = RenderWaiting ctx bufs processed \<Longrightarrow>
    picture_step w (after_render c ctx (render_videoproc env c ctx bufs processed (w_store w)) w)"
| end_failed: "w_destroying w = None \<Longrightarrow> w_call w c = NoCall \<Longrightarrow>
    st_contextIds (w_store w) ctx = Some c \<Longrightarrow> end_enter ctx (w_store w) = Inl (status, st) \<Longrightarrow>
    picture_step w (w\<lparr>w_store := st\<rparr>)"
| end_submit: "w_destroying w = None \<Longrightarrow> w_call w c = NoCall \<Longrightarrow> end_enter ctx (w_store w) = Inr c \<Longrightarrow>
    picture_step w (after_submit c (end_submit env c (w_store w)) w)"
| end_push: "w_call w c = EndPushing s job pc status \<Longrightarrow>
    picture_step w (try_push clock clock2 timed c s job pc status w)"
| end_shared: "w_call w c = EndWaiting s \<Longrightarrow> waitSurfaceResolved (w_store w) (Some s) \<noteq> Wait \<Longrightarrow>
    picture_step w (at_call c NoCall (end_leave c (w_store w)) w)"
| worker_start: "w_worker w c = Starting \<Longrightarrow> picture_step w (worker_start entered c w)"
| worker_pop: "w_worker w c = Popping \<Longrightarrow> picture_step w (try_pop synchronized c w)"
| worker_check: "w_worker w c = Resolving job \<Longrightarrow> picture_step w (worker_check res c job w)"
| worker_complete: "w_worker w c = Completing s \<Longrightarrow>
    picture_step w (at_worker c Popping (setSurfaceResolving (w_store w) (Some s) False) w)"
| destroy_begin: "w_destroying w = None \<Longrightarrow> \<forall>d. w_call w d = NoCall \<Longrightarrow>
    st_contextIds (w_store w) ctx = Some c \<Longrightarrow> picture_step w (destroy_begin c w)"
| destroy_end: "w_destroying w = Some c \<Longrightarrow>
    cn_resolveThreadStarted (st_context (w_store w) c) \<longrightarrow> w_worker w c = Finished \<Longrightarrow>
    picture_step w (destroy_end destroyed c w)"

end
