(* ===== verification/PictureMoves.thy ===== *)
theory PictureMoves
  imports PictureWorld
begin

text \<open>
  What the picture calls do to the surfaces: \<open>moves c X st st'\<close> says that a step of context
  \<open>c\<close> marks only surfaces of \<open>X\<close> busy and gives only these a new generation, that a busy
  image still belongs to a busy surface, and that the picture states of all other contexts are
  kept. The lemmas establish it for each function of \<open>Picture\<close>, and say which surfaces
  are certainly not busy afterwards.
\<close>

section \<open>Moves\<close>

abbreviation busy :: "NVStore \<Rightarrow> nat \<Rightarrow> bool" where "busy st s \<equiv> sf_resolving (st_surface st s)"
abbreviation gen :: "NVStore \<Rightarrow> nat \<Rightarrow> u64" where "gen st s \<equiv> sf_submittedGeneration (st_surface st s)"
abbreviation sync :: "NVStore \<Rightarrow> nat \<Rightarrow> nat option" where "sync st s \<equiv> sf_syncImage (st_surface st s)"
abbreviation pstate :: "NVStore \<Rightarrow> nat \<Rightarrow> NVDPictureState" where "pstate st c \<equiv> cn_pictureState (st_context st c)"
abbreviation started :: "NVStore \<Rightarrow> nat \<Rightarrow> bool" where "started st c \<equiv> cn_resolveThreadStarted (st_context st c)"
abbreviation videoProc :: "NVStore \<Rightarrow> nat \<Rightarrow> bool" where "videoProc st c \<equiv> cn_videoProc (st_context st c)"

definition images_ok :: "NVStore \<Rightarrow> bool" where
  "images_ok st \<longleftrightarrow> (\<forall>img. st_imageResolving st img \<longrightarrow> (\<exists>t. sync st t = Some img \<and> busy st t))"

definition moves :: "nat \<Rightarrow> nat set \<Rightarrow> NVStore \<Rightarrow> NVStore \<Rightarrow> bool" where
  "moves c X st st' \<longleftrightarrow>
     (\<forall>t. sync st' t = sync st t) \<and>
     (\<forall>t. t \<notin> X \<longrightarrow> gen st' t = gen st t \<and> (busy st' t \<longrightarrow> busy st t)) \<and>
     (images_ok st \<longrightarrow> images_ok st') \<and>
     st_contextIds st' = st_contextIds st \<and>
     (\<forall>d. videoProc st' d = videoProc st d \<and> started st' d = started st d) \<and>
     (\<forall>d. d \<noteq> c \<longrightarrow> pstate st' d = pstate st d \<and> renderTarget st' d = renderTarget st d)"

text \<open>The picture state and the target of the context itself.\<close>

definition keeps_call :: "nat \<Rightarrow> NVStore \<Rightarrow> NVStore \<Rightarrow> bool" where
  "keeps_call c st st' \<longleftrightarrow> pstate st' c = pstate st c \<and> renderTarget st' c = renderTarget st c"

lemma moves_refl [intro, simp]: "moves c X st st" by (simp add: moves_def)

lemma untouched_refl [intro, simp]: "keeps_call c st st" by (simp add: keeps_call_def)

lemma moves_trans: "moves c X st st' \<Longrightarrow> moves c X st' st'' \<Longrightarrow> moves c X st st''"
  unfolding moves_def by force

lemma moves_mono: "moves c X st st' \<Longrightarrow> X \<subseteq> Y \<Longrightarrow> moves c Y st st'"
  unfolding moves_def by blast

lemma moves_calm: "moves c {} st st' \<Longrightarrow> moves c X st st'"
  by (erule moves_mono) simp

lemma untouched_trans: "keeps_call c st st' \<Longrightarrow> keeps_call c st' st'' \<Longrightarrow> keeps_call c st st''"
  by (simp add: keeps_call_def)

lemma moves_calls: "moves c X st st' \<Longrightarrow> videoProc st' d = videoProc st d" "moves c X st st' \<Longrightarrow> started st' d = started st d"
  "moves c X st st' \<Longrightarrow> st_contextIds st' = st_contextIds st"
  "moves c X st st' \<Longrightarrow> d \<noteq> c \<Longrightarrow> pstate st' d = pstate st d \<and> renderTarget st' d = renderTarget st d"
  by (simp_all add: moves_def)

lemma moves_surfaces: "moves c X st st' \<Longrightarrow> t \<notin> X \<Longrightarrow> busy st' t \<Longrightarrow> busy st t"
  "moves c X st st' \<Longrightarrow> t \<notin> X \<Longrightarrow> gen st' t = gen st t"
  "moves c X st st' \<Longrightarrow> sync st' t = sync st t"
  "moves c X st st' \<Longrightarrow> images_ok st \<Longrightarrow> images_ok st'"
  by (simp_all add: moves_def)

text \<open>The stores that agree on all of this.\<close>

definition same_busy :: "NVStore \<Rightarrow> NVStore \<Rightarrow> bool" where
  "same_busy st st' \<longleftrightarrow> (\<forall>t. sync st' t = sync st t \<and> gen st' t = gen st t \<and> busy st' t = busy st t) \<and>
     st_imageResolving st' = st_imageResolving st"

lemma moves_quiet:
  assumes "same_busy st st'" "st_contextIds st' = st_contextIds st"
    "\<And>d. videoProc st' d = videoProc st d" "\<And>d. started st' d = started st d"
    "\<And>d. d \<noteq> c \<Longrightarrow> pstate st' d = pstate st d \<and> renderTarget st' d = renderTarget st d"
  shows "moves c X st st'"
  using assms by (auto simp: moves_def same_busy_def images_ok_def)

section \<open>The completion of a surface\<close>

lemma sync_completion [simp]:
  "sync (setSurfaceBackingImageResolving st s b) t = sync st t"
  "sync (setSurfaceResolving st x b) t = sync st t" "sync (failSurfaceResolve st x v) t = sync st t"
  by (simp_all add: setSurfaceBackingImageResolving_def setSurfaceResolving_def failSurfaceResolve_def
      split: option.splits)

lemma gen_completion [simp]:
  "gen (setSurfaceResolving st x False) t = gen st t" "gen (failSurfaceResolve st x v) t = gen st t"
  "t \<noteq> s \<Longrightarrow> gen (setSurfaceResolving st (Some s) b) t = gen st t"
  by (simp_all add: setSurfaceResolving_def failSurfaceResolve_def split: option.splits)

lemma busy_completion [simp]:
  "busy (setSurfaceResolving st x False) t \<longleftrightarrow> busy st t \<and> x \<noteq> Some t"
  "busy (failSurfaceResolve st x v) t \<longleftrightarrow> busy st t \<and> x \<noteq> Some t"
  by (cases x; auto)+

lemma image_completion:
  "st_imageResolving (setSurfaceResolving st (Some s) b) img =
     (if sync st s = Some img then b else st_imageResolving st img)"
  "st_imageResolving (failSurfaceResolve st (Some s) v) img =
     (if sync st s = Some img then False else st_imageResolving st img)"
  by (auto simp: setSurfaceResolving_def failSurfaceResolve_def upd_surface_def
      setSurfaceBackingImageResolving_def split: option.splits)

lemma target_completion [simp]:
  "renderTarget (setSurfaceResolving st x b) c = renderTarget st c"
  "displayTarget (setSurfaceResolving st x b) c = displayTarget st c"
  "renderTarget (failSurfaceResolve st x v) c = renderTarget st c"
  "displayTarget (failSurfaceResolve st x v) c = displayTarget st c"
  by (simp_all add: renderTarget_def displayTarget_def)

lemma images_ok_clear:
  assumes "images_ok st" "\<And>t. sync st' t = sync st t" "\<And>t. busy st' t \<longleftrightarrow> busy st t \<and> t \<noteq> s"
    "\<And>img. st_imageResolving st' img \<Longrightarrow> st_imageResolving st img \<and> sync st s \<noteq> Some img"
  shows "images_ok st'"
  unfolding images_ok_def
proof (intro allI impI)
  fix img
  assume "st_imageResolving st' img"
  then have i: "st_imageResolving st img" "sync st s \<noteq> Some img" using assms(4) by auto
  then obtain t where "sync st t = Some img" "busy st t" using assms(1) by (auto simp: images_ok_def)
  then show "\<exists>t. sync st' t = Some img \<and> busy st' t" using assms(2,3) i by metis
qed

lemma moves_clear [intro, simp]: "moves c X st (setSurfaceResolving st x False)"
proof (cases x)
  case None
  then show ?thesis by simp
next
  case (Some s)
  have "images_ok st \<longrightarrow> images_ok (setSurfaceResolving st (Some s) False)"
    by (intro impI, rule images_ok_clear [where st = st and s = s])
      (auto simp: image_completion split: if_splits)
  then show ?thesis using Some by (auto simp: moves_def)
qed

lemma moves_fail [intro, simp]: "moves c X st (failSurfaceResolve st x v)"
proof (cases x)
  case None
  then show ?thesis by simp
next
  case (Some s)
  have "images_ok st \<longrightarrow> images_ok (failSurfaceResolve st (Some s) v)"
    by (intro impI, rule images_ok_clear [where st = st and s = s])
      (auto simp: image_completion split: if_splits)
  then show ?thesis using Some by (auto simp: moves_def)
qed

lemma moves_mark: "moves c {s} st (setSurfaceResolving st (Some s) True)"
proof -
  have "images_ok (setSurfaceResolving st (Some s) True)" if ok: "images_ok st"
    unfolding images_ok_def
  proof (intro allI impI)
    fix img
    assume "st_imageResolving (setSurfaceResolving st (Some s) True) img"
    then consider "sync st s = Some img" | "st_imageResolving st img"
      by (auto simp: image_completion split: if_splits)
    then show "\<exists>t. sync (setSurfaceResolving st (Some s) True) t = Some img \<and>
        busy (setSurfaceResolving st (Some s) True) t"
    proof cases
      case 1
      then show ?thesis by (intro exI [of _ s]) simp
    next
      case 2
      then obtain t where "sync st t = Some img" "busy st t" using ok by (auto simp: images_ok_def)
      then show ?thesis by (intro exI [of _ t]) simp
    qed
  qed
  then show ?thesis by (auto simp: moves_def)
qed

lemma keeps_completion [intro, simp]:
  "keeps_call c st (setSurfaceResolving st x b)" "keeps_call c st (failSurfaceResolve st x v)"
  by (simp_all add: keeps_call_def)

section \<open>Steps that touch no completion state\<close>

text \<open>Both facts about a step that keeps the call of its context.\<close>

definition calm :: "NVStore \<Rightarrow> NVStore \<Rightarrow> bool" where
  "calm st st' \<longleftrightarrow> same_busy st st' \<and> st_contextIds st' = st_contextIds st \<and>
     (\<forall>d. videoProc st' d = videoProc st d \<and> started st' d = started st d \<and> pstate st' d = pstate st d \<and> renderTarget st' d = renderTarget st d)"

lemma calm_refl [intro, simp]: "calm st st" by (simp add: calm_def same_busy_def)

lemma calm_trans: "calm st st' \<Longrightarrow> calm st' st'' \<Longrightarrow> calm st st''"
  by (simp add: calm_def same_busy_def)

lemma calm_moves: "calm st st' \<Longrightarrow> moves c X st st'"
  by (rule moves_quiet) (simp_all add: calm_def)

lemma calm_keeps: "calm st st' \<Longrightarrow> keeps_call c st st'"
  by (simp add: calm_def keeps_call_def)

lemma calm_busy: "calm st st' \<Longrightarrow> busy st' t = busy st t" "calm st st' \<Longrightarrow> gen st' t = gen st t"
  by (simp_all add: calm_def same_busy_def)

lemma calm_context:
  assumes "\<And>cn. cn_videoProc (f cn) = cn_videoProc cn" "\<And>cn. cn_resolveThreadStarted (f cn) = cn_resolveThreadStarted cn"
    "\<And>cn. cn_pictureState (f cn) = cn_pictureState cn"
    "\<And>cn. cn_renderTarget (f cn) = cn_renderTarget cn"
  shows "calm st (upd_context st c f)"
  using assms by (simp add: calm_def same_busy_def renderTarget_def)

lemma calm_surface:
  assumes "\<And>sf. sf_resolving (f sf) = sf_resolving sf" "\<And>sf. sf_syncImage (f sf) = sf_syncImage sf"
    "\<And>sf. sf_submittedGeneration (f sf) = sf_submittedGeneration sf"
  shows "calm st (upd_surface st s f)"
  using assms by (simp add: calm_def same_busy_def renderTarget_def)

lemma moves_context:
  assumes "\<And>cn. cn_videoProc (f cn) = cn_videoProc cn"
    "\<And>cn. cn_resolveThreadStarted (f cn) = cn_resolveThreadStarted cn"
  shows "moves c X st (upd_context st c f)"
  using assms by (intro moves_quiet) (simp_all add: same_busy_def renderTarget_def)

lemma calm_view: "calm st (apply_view c v st)"
  by (simp add: calm_def same_busy_def apply_view_def renderTarget_def)

lemma calm_release: "calm st (releaseSurfacePictureIndex st s)"
proof (cases s)
  case None
  then show ?thesis by (simp add: releaseSurfacePictureIndex_def)
next
  case (Some x)
  show ?thesis
    unfolding Some releaseSurfacePictureIndex_def Let_def option.case
    by (cases "sf_context (st_surface st x)")
      (auto simp: calm_def same_busy_def renderTarget_def detach_surface_def)
qed

lemma calm_recreate: "recreateDecoderForSurface c s st = (status, st') \<Longrightarrow> calm st st'"
  by (auto simp: recreateDecoderForSurface_def Let_def calm_def same_busy_def renderTarget_def split: if_splits)

lemma calm_take: "calm st (take_index st c s w i limit)"
  by (auto simp: calm_def same_busy_def renderTarget_def take_index_def)

lemma calm_assign: "assignSurfacePictureIndex st c s limit = Return (i, st') \<Longrightarrow> calm st st'"
  unfolding assignSurfacePictureIndex_def Let_def
  by (auto split: if_splits option.splits attempt.splits intro!: calm_trans [OF _ calm_take] calm_surface)

lemma calm_assign_av1: "assignAV1SurfacePictureIndex st c s limit = (i, st') \<Longrightarrow> calm st st'"
  unfolding assignAV1SurfacePictureIndex_def Let_def
  by (auto split: if_splits option.splits intro!: calm_take)

lemma calm_index: "begin_index c s st = Return (ok, st') \<Longrightarrow> calm st st'"
  unfolding begin_index_def Let_def
  by (auto split: if_splits prod.splits attempt.splits dest: calm_assign calm_assign_av1)

lemma calm_create: "createDecoderForContext res c st = (status, st') \<Longrightarrow> calm st st'"
  unfolding createDecoderForContext_def Let_def
  by (auto split: if_splits simp: calm_def same_busy_def renderTarget_def)

lemma calm_codec [intro, simp]: "calm st (upd_codec c f st)" "calm st (markInvalid c st)"
  "calm st (dropBitstream c st)" "calm st (clearBufferFailures c st)"
  by (simp_all add: upd_codec_def markInvalid_def dropBitstream_def clearBufferFailures_def calm_context)

lemma calm_tiles [intro, simp]: "calm st (checkAV1Tiles c st)"
  by (simp add: checkAV1Tiles_def Let_def)

lemma calm_handler: "call_handler env c b f st = (ok, st') \<Longrightarrow> calm st st'"
  unfolding call_handler_def Let_def
  by (auto split: if_splits prod.splits intro!: calm_view calm_context calm_trans [OF calm_context calm_view])

lemma trim_fields [simp]:
  "cn_resolveThreadStarted (maybeTrimContextHostBuffers mem th fr cn a b d) = cn_resolveThreadStarted cn"
  "cn_videoProc (maybeTrimContextHostBuffers mem th fr cn a b d) = cn_videoProc cn"
  "cn_pictureState (maybeTrimContextHostBuffers mem th fr cn a b d) = cn_pictureState cn"
  "cn_renderTarget (maybeTrimContextHostBuffers mem th fr cn a b d) = cn_renderTarget cn"
  by (simp_all add: maybeTrimContextHostBuffers_def Let_def)

lemma calm_references: "calm st (activate_references c status st)"
  by (auto simp: activate_references_def Let_def intro!: calm_context split: option.splits)

lemma calm_prepare: "calm st (upd_surface st s (prepare_surface c cn status))"
  by (rule calm_surface) (simp_all add: prepare_surface_def)

lemma calm_markDestroying: "calm st (markContextDestroying st c)"
  by (simp add: markContextDestroying_def calm_context)

lemma calm_worker_exit: "calm st (worker_exit c st)"
  by (simp add: worker_exit_def calm_context)

lemma calm_unsafe: "calm st (st\<lparr>st_cudaWorkUnsafe := b\<rparr>)"
  by (simp add: calm_def same_busy_def renderTarget_def)

lemma calm_releaseContext: "calm st (releaseContextPictureIndices st c)"
  by (auto simp: calm_def same_busy_def renderTarget_def releaseContextPictureIndices_def detach_surface_def)

section \<open>The picture calls\<close>

lemma cancel_effect [simp]:
  "busy (cancelCurrentPictureResolve c st) t \<longleftrightarrow>
     busy st t \<and> renderTarget st c \<noteq> Some t \<and> displayTarget st c \<noteq> Some t"
  "renderTarget (cancelCurrentPictureResolve c st) d = renderTarget st d"
  "st_context (cancelCurrentPictureResolve c st) = st_context st"
  by (auto simp: cancelCurrentPictureResolve_def Let_def)

lemma moves_cancel [intro, simp]: "moves c X st (cancelCurrentPictureResolve d st)"
  by (auto simp: cancelCurrentPictureResolve_def Let_def intro: moves_trans [OF moves_fail moves_fail])

lemma complete_effect [simp]:
  "busy (completeTargets c st) t \<longleftrightarrow>
     busy st t \<and> renderTarget st c \<noteq> Some t \<and> displayTarget st c \<noteq> Some t"
  "renderTarget (completeTargets c st) d = renderTarget st d"
  "st_context (completeTargets c st) = st_context st"
  by (auto simp: completeTargets_def Let_def)

lemma moves_complete [intro, simp]: "moves c X st (completeTargets d st)"
  by (auto simp: completeTargets_def Let_def intro: moves_trans [OF moves_clear moves_clear])

lemma keeps_cancel [intro, simp]: "keeps_call c st (cancelCurrentPictureResolve d st)"
  "keeps_call c st (completeTargets d st)"
  by (simp_all add: keeps_call_def)

lemma reset_effect [simp]:
  "busy (resetPictureBuild c b st) t \<longleftrightarrow>
     busy st t \<and> (b \<longrightarrow> renderTarget st c \<noteq> Some t \<and> displayTarget st c \<noteq> Some t)"
  "pstate (resetPictureBuild c b st) c = NVD_PICTURE_IDLE"
  "renderTarget (resetPictureBuild c b st) c = None"
  "displayTarget (resetPictureBuild c b st) c = None"
  by (auto simp: resetPictureBuild_def renderTarget_def displayTarget_def)

lemma moves_reset [intro, simp]: "moves c X st (resetPictureBuild c b st)"
  unfolding resetPictureBuild_def by (rule moves_trans [OF _ moves_context]) auto

lemma calm_step: "moves c X st st' \<Longrightarrow> calm st' st'' \<Longrightarrow> moves c X st st''"
  by (blast intro: moves_trans calm_moves)

lemma after_calm: "calm st st' \<Longrightarrow> moves c X st' st'' \<Longrightarrow> moves c X st st''"
  by (blast intro: moves_trans calm_moves)

lemma keeps_after_calm: "calm st st' \<Longrightarrow> keeps_call c st' st'' \<Longrightarrow> keeps_call c st st''"
  by (blast intro: untouched_trans calm_keeps)

lemma blit_effect:
  assumes "copySurfaceBackingImage env src dst pipeline st = Return (ok, st')"
  shows "moves c X st st' \<and> keeps_call c st st' \<and> (\<forall>d. dst = Some d \<longrightarrow> \<not> busy st' d)"
proof -
  have clear: "moves c X st (setSurfaceResolving st0 y False) \<and> keeps_call c st (setSurfaceResolving st0 y False)"
    if "calm st st0" for st0 y
    using that by (auto intro: after_calm keeps_after_calm)
  have color: "calm st (upd_surface st s (\<lambda>sf. sf\<lparr>sf_color := f sf\<rparr>))" for s f
    by (rule calm_surface) simp_all
  have blitted: "moves c X st (blit_done st0 s d) \<and> keeps_call c st (blit_done st0 s d) \<and> \<not> busy (blit_done st0 s d) d"
    if "calm st st0" for st0 s d
    unfolding blit_done_def Let_def
    by (rule conjI [OF clear [THEN conjunct1] conjI [OF clear [THEN conjunct2]]],
        (rule calm_trans [OF that calm_trans [OF calm_release calm_surface]], simp_all)+)
  show ?thesis
    using assms unfolding copySurfaceBackingImage_def Let_def
    by (auto split: option.splits if_splits simp: clear blitted [OF color] clear [OF color])
qed

abbreviation safe :: "nat \<Rightarrow> NVStore \<Rightarrow> NVStore \<Rightarrow> bool" where
  "safe c st st' \<equiv> moves c {} st st' \<and> keeps_call c st st'"

lemma safe_trans: "safe c st st' \<Longrightarrow> safe c st' st'' \<Longrightarrow> safe c st st''"
  by (blast intro: moves_trans untouched_trans)

lemma calm_safe: "calm st st' \<Longrightarrow> safe c st st'"
  by (simp add: calm_moves calm_keeps)

lemma render_videoproc_safe:
  "render_videoproc env c ctx bufs processed st = (r, st') \<Longrightarrow> safe c st st'"
proof (induction env c ctx bufs processed st rule: render_videoproc.induct)
  case (1 env c ctx processed st)
  then show ?case by (auto split: if_splits)
next
  case (2 env c ctx bufs processed st)
  then show ?case by auto
next
  case (3 env c ctx b bufs processed st)
  show ?case
  proof (cases "copySurfaceBackingImage (pe_blit env) (st_surfaceIds st (pr_surface (pb_pipeline b)))
                  (renderTarget st c) (pb_pipeline b) st")
    case Wait
    then show ?thesis using 3(2) by (auto split: if_splits)
  next
    case (Return x)
    obtain ok st1 where x: "x = (ok, st1)" by (cases x)
    have s: "safe c st st1" using blit_effect [OF Return [unfolded x]] by blast
    have "\<And>r' st''. pb_ownerContextId b = ctx \<Longrightarrow> \<not> (pb_bufferType b \<noteq> VAProcPipelineParameterBufferType \<or> nb_elements (pb_buffer b) \<noteq> 1 \<or>
              nb_elementSize (pb_buffer b) < pe_pipelineSize env \<or> nb_ptr (pb_buffer b) = None) \<Longrightarrow>
        ok \<Longrightarrow> render_videoproc env c ctx bufs True st1 = (r, st') \<Longrightarrow> safe c st1 st'"
      using 3(1) [OF _ _ Return x [symmetric]] by blast
    then show ?thesis using 3(2) Return x s
      by (auto split: if_splits intro: safe_trans [THEN conjunct1] safe_trans [THEN conjunct2])
  qed
qed

lemma reject_safe: "safe c st (reject_buffer c st)"
  unfolding reject_buffer_def by (auto intro: after_calm keeps_after_calm)

lemma render_buffer_safe: "render_buffer env c ctx buf st = (status, st') \<Longrightarrow> safe c st st'"
  unfolding render_buffer_def
  by (auto split: option.splits if_splits prod.splits bool.splits simp: reject_safe
      dest!: calm_handler intro: calm_moves calm_keeps after_calm keeps_after_calm)

lemma render_decode_safe: "render_decode env c ctx bufs st = (status, st') \<Longrightarrow> safe c st st'"
proof (induction bufs arbitrary: st)
  case (Cons b bufs)
  obtain r st1 where r: "render_buffer env c ctx b st = (r, st1)" by fastforce
  then show ?case using Cons.prems Cons.IH [of st1] render_buffer_safe [OF r]
    by (auto split: if_splits intro: safe_trans [THEN conjunct1] safe_trans [THEN conjunct2])
qed simp

lemma render_impl_safe:
  "st_contextIds st ctx = Some c \<Longrightarrow> nvRenderPictureImpl env ctx bufs st = (r, st') \<Longrightarrow> safe c st st'"
  unfolding nvRenderPictureImpl_def
  by (auto split: option.splits if_splits prod.splits dest: render_videoproc_safe render_decode_safe)

lemma render_leave_effect:
  "moves c {} st (render_leave c status st)"
  "status \<noteq> VA_STATUS_SUCCESS \<Longrightarrow> pstate (render_leave c status st) c = NVD_PICTURE_FAILED"
  "status = VA_STATUS_SUCCESS \<Longrightarrow> render_leave c status st = st"
  "status \<noteq> VA_STATUS_SUCCESS \<Longrightarrow> renderTarget st c = Some t \<Longrightarrow> \<not> busy (render_leave c status st) t"
  by (auto simp: render_leave_def renderTarget_def intro: moves_trans [OF moves_context moves_cancel])

lemma begin_enter_effect: "moves c X st (begin_enter c st)" "pstate (begin_enter c st) c = NVD_PICTURE_BUILDING"
  "renderTarget (begin_enter c st) d = renderTarget st d" "busy (begin_enter c st) t = busy st t"
  "gen (begin_enter c st) t = gen st t"
  by (auto simp: begin_enter_def renderTarget_def intro: moves_context)

lemma begin_build_effect:
  "moves c {s} st (begin_build env c s st)" "renderTarget (begin_build env c s st) c = Some s"
  "pstate (begin_build env c s st) c = pstate st c"
proof -
  let ?m = "setSurfaceResolving st (Some s) True"
  define f :: "NVContext \<Rightarrow> NVContext" where "f = (\<lambda>cn. cn
            \<lparr>cn_sliceParamsBuffer := (cn_sliceParamsBuffer cn)\<lparr>ab_failed := False,
               ab_size := (if cn_profile cn \<noteq> VAProfileAV1Profile0 \<and> cn_profile cn \<noteq> VAProfileAV1Profile1
                           then 0 else ab_size (cn_sliceParamsBuffer cn))\<rparr>,
             cn_buildingReferenceMask := (if cn_cudaCodec cn \<noteq> cudaVideoCodec_AV1 then 0
                                          else cn_buildingReferenceMask cn),
             cn_renderTarget := Some s,
             cn_codec := begin_codec cn (sf_pictureIdx (st_surface ?m s)) s\<rparr>)"
  define g :: "NVSurface \<Rightarrow> NVSurface" where "g = (\<lambda>sf. sf\<lparr>sf_progressiveFrame := True,
                  sf_color := the (nvSurfaceResetColorMetadata (Some (sf_color sf)))\<rparr>)"
  let ?b = "upd_surface (upd_context ?m c f) s g"
  have b: "begin_build env c s st =
      (case cd_beginPicture (pe_codec env c) of None \<Rightarrow> ?b | Some h \<Rightarrow> apply_view c (h ?b c) ?b)"
    by (simp only: begin_build_def Let_def f_def g_def)
  have g: "calm (upd_context ?m c f) ?b" by (rule calm_surface) (simp_all add: g_def)
  have m: "moves c {s} st ?b"
    by (rule calm_step [OF moves_trans [OF moves_mark moves_context] g]) (simp_all add: f_def)
  have t: "renderTarget ?b c = Some s" "pstate ?b c = pstate st c" by (simp_all add: f_def renderTarget_def)
  have e: "calm ?b (begin_build env c s st)"
    unfolding b by (auto split: option.splits intro: calm_view)
  show "moves c {s} st (begin_build env c s st)" by (rule calm_step [OF m e])
  show "renderTarget (begin_build env c s st) c = Some s" "pstate (begin_build env c s st) c = pstate st c"
    using calm_keeps [OF e, of c] t by (simp_all add: keeps_call_def)
qed

lemma begin_after_wait_effect:
  assumes "begin_after_wait env c s st = Return (status, st')"
  shows "(status \<noteq> VA_STATUS_SUCCESS \<longrightarrow> safe c st st') \<and>
    (status = VA_STATUS_SUCCESS \<longrightarrow> moves c {s} st st' \<and> renderTarget st' c = Some s \<and> pstate st' c = pstate st c)"
proof (cases "videoProc st c")
  case True
  then have r: "status = VA_STATUS_SUCCESS"
    "st' = upd_context (setSurfaceResolving st (Some s) True) c (\<lambda>cn. cn\<lparr>cn_renderTarget := Some s\<rparr>)"
    using assms by (auto simp: begin_after_wait_def)
  have "moves c {s} st st'" unfolding r by (rule moves_trans [OF moves_mark moves_context]) simp_all
  then show ?thesis using r by (simp add: renderTarget_def)
next
  case False
  define st1 where "st1 = (if sf_context (st_surface st s) \<noteq> None \<and> sf_context (st_surface st s) \<noteq> Some c
    then releaseSurfacePictureIndex st (Some s) else st)"
  have c1: "calm st st1" by (simp add: st1_def calm_release)
  obtain ds st2 where r2: "recreateDecoderForSurface c s st1 = (ds, st2)" by fastforce
  note c2 = calm_trans [OF c1 calm_recreate [OF r2]]
  have run: "Return (status, st') = (if ds \<noteq> VA_STATUS_SUCCESS then Return (ds, st2)
      else case begin_index c s st2 of Wait \<Rightarrow> Wait
           | Return (False, st3) \<Rightarrow> Return (VA_STATUS_ERROR_MAX_NUM_EXCEEDED, st3)
           | Return (True, st3) \<Rightarrow> Return (VA_STATUS_SUCCESS, begin_build env c s st3))"
    using assms False r2 unfolding begin_after_wait_def Let_def st1_def [symmetric] by simp
  show ?thesis
  proof (cases "ds = VA_STATUS_SUCCESS")
    case False
    then show ?thesis using run calm_safe [OF c2] by auto
  next
    case True
    then obtain ok st3 where i: "begin_index c s st2 = Return (ok, st3)"
      using run by (auto split: attempt.splits)
    note c3 = calm_trans [OF c2 calm_index [OF i]]
    show ?thesis
      using True run i calm_safe [OF c3] begin_build_effect [where c = c and s = s and st = st3 and env = env] after_calm [OF c3] calm_keeps [OF c3, of c]
      by (cases ok) (auto simp: keeps_call_def)
  qed
qed

lemma begin_leave_effect: "moves c X st (begin_leave c status st)"
  "status = VA_STATUS_SUCCESS \<Longrightarrow> begin_leave c status st = st"
  "status \<noteq> VA_STATUS_SUCCESS \<Longrightarrow> pstate (begin_leave c status st) c = NVD_PICTURE_IDLE"
  by (simp_all add: begin_leave_def)

lemma end_leave_effect: "moves c X st (end_leave c st)" "pstate (end_leave c st) c = NVD_PICTURE_IDLE"
  "busy (end_leave c st) t \<Longrightarrow> busy st t"
  "pstate st c \<noteq> NVD_PICTURE_SUBMITTED \<Longrightarrow> \<not> videoProc st c \<Longrightarrow> renderTarget st c = Some t \<Longrightarrow>
     \<not> busy (end_leave c st) t"
  "gen (end_leave c st) t = gen st t"
  by (auto simp: end_leave_def Let_def dest: moves_surfaces(1) [OF moves_reset])
    (metis empty_iff moves_reset moves_surfaces(2))

text \<open>
  The submission: without a job it leaves no surface busy that was not, and completes the target of
  a video processing context; with a job it marks at most the job's surface.
\<close>

definition submit_error :: "nat \<Rightarrow> NVStore \<Rightarrow> NVStore \<Rightarrow> bool" where
  "submit_error c st st' \<longleftrightarrow> keeps_call c st st' \<and> (\<exists>X. moves c X st st' \<and> (\<forall>t \<in> X. \<not> busy st' t)) \<and>
     (videoProc st c \<longrightarrow> (\<forall>t. renderTarget st c = Some t \<longrightarrow> \<not> busy st' t))"

definition submit_job :: "nat \<Rightarrow> NVStore \<Rightarrow> nat \<Rightarrow> ResolveJob \<Rightarrow> NVStore \<Rightarrow> bool" where
  "submit_job c st s job st' \<longleftrightarrow> keeps_call c st st' \<and> moves c {s} st st' \<and> \<not> videoProc st c \<and>
     jb_surface job = s \<and> jb_generation job = gen st' s \<and>
     (\<forall>t. renderTarget st c = Some t \<longrightarrow> t \<noteq> s \<longrightarrow> \<not> busy st' t)"

lemma submit_error_safe:
  "safe c st st' \<Longrightarrow> (videoProc st c \<Longrightarrow> \<forall>t. renderTarget st c = Some t \<longrightarrow> \<not> busy st' t) \<Longrightarrow> submit_error c st st'"
  unfolding submit_error_def by blast

lemma submittedSurface_same [simp]:
  "submittedSurface (setSurfaceResolving st x b) c = submittedSurface st c"
  by (simp add: submittedSurface_def split: option.splits)

lemma end_job_effect:
  assumes run: "end_job env c st = (r, st')" and dec: "\<not> videoProc st c"
  shows "case r of Inl v \<Rightarrow> submit_error c st st' | Inr (s, job, v) \<Rightarrow> submit_job c st s job st'"
proof -
  let ?sub = "submittedSurface st c" and ?rt = "renderTarget st c"
  define st1 where "st1 = (if ?sub \<noteq> ?rt
    then setSurfaceResolving (setSurfaceResolving st ?sub True) ?rt False else st)"
  define v where "v = (if pe_decode env then VA_STATUS_SUCCESS else VA_STATUS_ERROR_DECODING_ERROR)"
  have k1: "keeps_call c st st1" by (auto simp: st1_def intro: untouched_trans)
  have m1: "moves c (set_option ?sub) st st1"
    by (cases ?sub) (auto simp: st1_def intro: moves_trans [OF moves_mark moves_clear])
  have t1: "?rt = Some t \<Longrightarrow> ?sub \<noteq> Some t \<Longrightarrow> \<not> busy st1 t" for t by (auto simp: st1_def)
  have rt1: "renderTarget st1 c = ?rt" using k1 by (simp add: keeps_call_def)
  show ?thesis
  proof (cases "pe_calloc env")
    case False
    define st2 where "st2 = (if ?sub \<noteq> ?rt
      then failSurfaceResolve (failSurfaceResolve st1 ?sub VA_STATUS_ERROR_ALLOCATION_FAILED) ?rt VA_STATUS_ERROR_ALLOCATION_FAILED
      else failSurfaceResolve st1 ?sub VA_STATUS_ERROR_ALLOCATION_FAILED)"
    have r: "r = Inl VA_STATUS_ERROR_ALLOCATION_FAILED" "st' = st2"
      using run False unfolding end_job_def Let_def st1_def [symmetric] st2_def by (auto split: if_splits)
    have "safe c st1 st2" by (auto simp: st2_def intro: moves_trans untouched_trans)
    moreover have "\<forall>t \<in> set_option ?sub. \<not> busy st2 t" by (auto simp: st2_def)
    ultimately have "submit_error c st st2"
      using m1 k1 dec unfolding submit_error_def by (blast intro: moves_trans moves_calm untouched_trans)
    then show ?thesis using r by simp
  next
    case True
    note calloc = True
    show ?thesis
    proof (cases ?sub)
      case None
      then have r: "r = Inl VA_STATUS_ERROR_OPERATION_FAILED" "st' = st1"
        using run calloc unfolding end_job_def Let_def st1_def [symmetric] by auto
      have "submit_error c st st1" using m1 k1 dec None unfolding submit_error_def by force
      then show ?thesis using r by simp
    next
      case (Some s)
      define st2 where "st2 = upd_surface st1 s (prepare_surface c (st_context st1 c) v)"
      have r: "r = Inr (s, make_job s (st_surface st2 s) v, v)" "st' = activate_references c v st2"
        using run calloc Some unfolding end_job_def Let_def st1_def [symmetric] v_def [symmetric] st2_def by auto
      have q: "calm st1 st'"
        unfolding r st2_def by (rule calm_trans [OF calm_prepare calm_references])
      have g: "gen st' s = gen st2 s" using calm_busy(2) [OF calm_references] by (simp add: r)
      have "submit_job c st s (make_job s (st_surface st2 s) v) st'"
        unfolding submit_job_def
      proof (intro conjI allI impI)
        show "keeps_call c st st'" by (rule untouched_trans [OF k1 calm_keeps [OF q]])
        show "moves c {s} st st'" using m1 calm_moves [OF q, of c "{s}"] Some by (auto intro: moves_trans)
        show "\<not> videoProc st c" by (rule dec)
        show "jb_surface (make_job s (st_surface st2 s) v) = s"
          "jb_generation (make_job s (st_surface st2 s) v) = gen st' s" by (simp_all add: make_job_def g)
        fix t assume "?rt = Some t" "t \<noteq> s"
        then show "\<not> busy st' t" using t1 Some calm_busy(1) [OF q] by simp
      qed
      then show ?thesis using r by simp
    qed
  qed
qed

lemma calm_fields: "calm st st1 \<Longrightarrow> videoProc st1 c = videoProc st c" "calm st st1 \<Longrightarrow> renderTarget st1 c = renderTarget st c"
  by (simp_all add: calm_def)

lemma submit_error_calm:
  assumes q: "calm st st1" and e: "submit_error c st1 st'"
  shows "submit_error c st st'"
proof -
  obtain X where X: "moves c X st1 st'" "\<forall>t \<in> X. \<not> busy st' t" and k: "keeps_call c st1 st'"
    and v: "videoProc st1 c \<longrightarrow> (\<forall>t. renderTarget st1 c = Some t \<longrightarrow> \<not> busy st' t)"
    using e unfolding submit_error_def by blast
  show ?thesis
    unfolding submit_error_def
    using after_calm [OF q X(1)] keeps_after_calm [OF q k] X(2) v unfolding calm_fields [OF q] by blast
qed

lemma submit_job_calm:
  assumes q: "calm st st1" and e: "submit_job c st1 s job st'"
  shows "submit_job c st s job st'"
  using e after_calm [OF q, of c "{s}" st'] keeps_after_calm [OF q, of c st']
  unfolding submit_job_def calm_fields [OF q] by blast

lemma end_submit_effect:
  assumes run: "end_submit env c st = (r, st')"
  shows "case r of Inl v \<Rightarrow> submit_error c st st' | Inr (s, job, v) \<Rightarrow> submit_job c st s job st'"
proof (cases "st_cudaWorkUnsafe st \<or> videoProc st c")
  case True
  then consider "st_cudaWorkUnsafe st" | "\<not> st_cudaWorkUnsafe st" "videoProc st c" by blast
  then obtain v where v: "r = Inl v" "safe c st st'" "\<forall>t. renderTarget st c = Some t \<longrightarrow> \<not> busy st' t"
    by cases (use run in \<open>auto simp: end_submit_def\<close>)
  then show ?thesis using submit_error_safe [of c st st'] by simp
next
  case False
  then have dec: "\<not> videoProc st c" and us: "\<not> st_cudaWorkUnsafe st" by simp_all
  define st1 where "st1 = checkAV1Tiles c st"
  have c1: "calm st st1" by (simp add: st1_def)
  have err: "submit_error c st (completeTargets c st2)" "submit_error c st (setSurfaceResolving st2 x False)"
    if "calm st st2" for st2 x
    by (rule submit_error_safe [OF conjI [OF after_calm [OF that] keeps_after_calm [OF that]]], use dec in simp_all)+
  obtain ds st2 where d: "createDecoderForContext (pe_decoder env) c st1 = (ds, st2)" by fastforce
  note c2 = calm_trans [OF c1 calm_create [OF d]]
  define st3 where "st3 = dropBitstream c st2"
  define st4 where "st4 = upd_context st3 c (\<lambda>cn.
                         maybeTrimContextHostBuffers (pe_alloc env) (st_hostBufferTrimThresholdBytes st3)
                           (st_hostBufferTrimFrames st3) cn (ab_size (pk_bitstreamBuffer (cn_codec (st_context st2 c))))
                           (ab_size (pk_sliceOffsets (cn_codec (st_context st2 c)))) (ab_size (cn_sliceParamsBuffer (st_context st2 c))))"
  have c3: "calm st st3" unfolding st3_def by (rule calm_trans [OF c2 calm_codec(3)])
  have c4: "calm st st4" unfolding st4_def by (rule calm_trans [OF c3 calm_context]) simp_all
  have dec4: "\<not> videoProc st4 c" using c4 dec by (simp add: calm_def)
  have run': "(r, st') = (if pk_inputValidationFailed (cn_codec (st_context st1 c))
           then (Inl VA_STATUS_ERROR_INVALID_PARAMETER,
                 completeTargets c (upd_codec c (\<lambda>pk. pk\<lparr>pk_inputValidationFailed := False\<rparr>) (dropBitstream c st1)))
           else if buffers_failed (st_context st1 c)
           then (Inl VA_STATUS_ERROR_ALLOCATION_FAILED,
                 completeTargets c (clearBufferFailures c (dropBitstream c st1)))
           else if ds \<noteq> VA_STATUS_SUCCESS then (Inl ds, completeTargets c st3)
           else if \<not> pe_push env \<or> \<not> pe_pop env
                then (Inl VA_STATUS_ERROR_OPERATION_FAILED, setSurfaceResolving st3 (submittedSurface st3 c) False)
                else end_job env c st4)"
    using run [symmetric] unfolding end_submit_def Let_def st1_def [symmetric] if_not_P [OF us] if_not_P [OF dec]
      d prod.case st3_def st4_def .
  show ?thesis
  proof (cases "(r, st') = end_job env c st4")
    case True
    show ?thesis using end_job_effect [OF True [symmetric] dec4]
      by (cases r) (auto intro: submit_error_calm [OF c4] submit_job_calm [OF c4])
  next
    case False
    have d1: "calm st (upd_codec c f (dropBitstream c st1))" "calm st (clearBufferFailures c (dropBitstream c st1))" for f
      by (blast intro: calm_trans [OF c1] calm_trans [OF calm_codec(3)] calm_codec)+
    have "(\<exists>v. r = Inl v) \<and> submit_error c st st'"
      using run' False err [OF c3] err [OF d1(1)] err [OF d1(2)] by (auto split: if_splits)
    then show ?thesis by auto
  qed
qed

end
