(* ===== verification/PictureInv.thy ===== *)
theory PictureInv
  imports PictureMoves
begin

text \<open>
  Who has to complete a surface that is marked busy. \<open>owned\<close>: the picture that is being built
  for it, a job of its current generation on its way through a resolve queue, or the resolve
  thread that is about to complete it. The invariant \<open>world_ok\<close> holds in every reachable
  world, so a thread that waits for a surface never waits for nothing; the exception is the
  destruction of a context in the middle of a picture, which leaves its target busy for good.
\<close>

section \<open>Owners\<close>

definition alive :: "resolve_worker \<Rightarrow> bool" where
  "alive r \<longleftrightarrow> r \<noteq> NotStarted \<and> r \<noteq> Finished"

definition building_call :: "picture_call \<Rightarrow> bool" where
  "building_call call \<longleftrightarrow> (case call of NoCall \<Rightarrow> True | RenderWaiting _ _ _ \<Rightarrow> True | _ \<Rightarrow> False)"

definition target_of :: "PictureWorld \<Rightarrow> nat \<Rightarrow> nat option" where
  "target_of w c =
     (if building_call (w_call w c) \<and> pstate (w_store w) c = NVD_PICTURE_BUILDING \<and>
         c \<in> ran (st_contextIds (w_store w))
      then renderTarget (w_store w) c else None)"

definition worker_job :: "PictureWorld \<Rightarrow> nat \<Rightarrow> ResolveJob \<Rightarrow> bool" where
  "worker_job w c job \<longleftrightarrow> (alive (w_worker w c) \<and> Some job \<in> set (rq_list (w_queue w c))) \<or>
     w_worker w c = Resolving job"

definition call_job :: "PictureWorld \<Rightarrow> nat \<Rightarrow> ResolveJob \<Rightarrow> bool" where
  "call_job w c job \<longleftrightarrow> (\<exists>s pc v. w_call w c = EndPushing s job pc v)"

definition current_job :: "NVStore \<Rightarrow> nat \<Rightarrow> ResolveJob \<Rightarrow> bool" where
  "current_job st s job \<longleftrightarrow> jb_surface job = s \<and> jb_generation job = gen st s"

definition owned :: "PictureWorld \<Rightarrow> nat \<Rightarrow> bool" where
  "owned w s \<longleftrightarrow>
     (\<exists>c. target_of w c = Some s) \<or>
     (\<exists>c job. (worker_job w c job \<or> call_job w c job) \<and> current_job (w_store w) s job) \<or>
     (\<exists>c. w_worker w c = Completing s)"

definition threads_ok :: "PictureWorld \<Rightarrow> bool" where
  "threads_ok w \<longleftrightarrow>
     (\<forall>c. rq_wf (w_queue w c) \<and>
          (alive (w_worker w c) \<longrightarrow> rq_initialized (w_queue w c) \<and> started (w_store w) c) \<and>
          (w_worker w c = Finished \<longrightarrow> rq_exiting (w_queue w c)) \<and>
          (w_worker w c = NotStarted \<longrightarrow> videoProc (w_store w) c) \<and>
          (\<forall>s job pc v. w_call w c = EndPushing s job pc v \<longrightarrow>
             \<not> videoProc (w_store w) c \<and> jb_surface job = s) \<and>
          (w_call w c \<noteq> NoCall \<longrightarrow> c \<in> ran (st_contextIds (w_store w))) \<and>
          (\<forall>s. w_call w c = BeginWaiting s \<or> w_call w c = BeginRunning s \<longrightarrow>
             pstate (w_store w) c = NVD_PICTURE_BUILDING) \<and>
          (w_destroying w = Some c \<longrightarrow> (\<forall>d. w_call w d = NoCall) \<and>
             pstate (w_store w) c \<noteq> NVD_PICTURE_BUILDING))"

definition world_ok :: "PictureWorld \<Rightarrow> bool" where
  "world_ok w \<longleftrightarrow> threads_ok w \<and> images_ok (w_store w) \<and> (\<forall>s. busy (w_store w) s \<longrightarrow> owned w s)"

lemma ownedI:
  "target_of w c = Some s \<Longrightarrow> owned w s"
  "worker_job w c job \<Longrightarrow> current_job (w_store w) s job \<Longrightarrow> owned w s"
  "call_job w c job \<Longrightarrow> current_job (w_store w) s job \<Longrightarrow> owned w s"
  "w_worker w c = Completing s \<Longrightarrow> owned w s"
  unfolding owned_def by blast+

lemma world_simps [simp]:
  "w_store (at_call c call st w) = st" "w_call (at_call c call st w) = (w_call w)(c := call)"
  "w_queue (at_call c call st w) = w_queue w" "w_worker (at_call c call st w) = w_worker w"
  "w_destroying (at_call c call st w) = w_destroying w"
  "w_store (at_worker c r st w) = st" "w_call (at_worker c r st w) = w_call w"
  "w_queue (at_worker c r st w) = w_queue w" "w_worker (at_worker c r st w) = (w_worker w)(c := r)"
  "w_destroying (at_worker c r st w) = w_destroying w"
  "w_store (set_queue c q w) = w_store w" "w_call (set_queue c q w) = w_call w"
  "w_queue (set_queue c q w) = (w_queue w)(c := q)" "w_worker (set_queue c q w) = w_worker w"
  "w_destroying (set_queue c q w) = w_destroying w"
  by (simp_all add: at_call_def at_worker_def set_queue_def)

lemma set_queue_same [simp]: "set_queue c (w_queue w c) w = w"
  by (simp add: set_queue_def)

lemma threads_okD:
  assumes "threads_ok w"
  shows "rq_wf (w_queue w c)" "alive (w_worker w c) \<Longrightarrow> rq_initialized (w_queue w c)"
    "alive (w_worker w c) \<Longrightarrow> started (w_store w) c"
    "w_worker w c = Finished \<Longrightarrow> rq_exiting (w_queue w c)"
    "w_worker w c = NotStarted \<Longrightarrow> videoProc (w_store w) c"
    "w_call w c = EndPushing s job pc v \<Longrightarrow> \<not> videoProc (w_store w) c \<and> jb_surface job = s"
    "w_destroying w = Some d \<Longrightarrow> w_call w c = NoCall"
    "w_call w c \<noteq> NoCall \<Longrightarrow> c \<in> ran (st_contextIds (w_store w))"
    "w_call w c = BeginWaiting s \<or> w_call w c = BeginRunning s \<Longrightarrow> pstate (w_store w) c = NVD_PICTURE_BUILDING"
    "w_destroying w = Some c \<Longrightarrow> pstate (w_store w) c \<noteq> NVD_PICTURE_BUILDING"
  using assms unfolding threads_ok_def by blast+

section \<open>A step of a picture call\<close>

text \<open>What a step of the call in context \<open>c\<close> has to show: the surfaces it loses or marks have an owner.\<close>

lemma call_step_owned:
  assumes ok: "world_ok w" and m: "moves c X (w_store w) st'"
    and w': "w_call w' = (w_call w)(c := call')" "w_store w' = st'" "w_worker w' = w_worker w"
      "w_queue w' = (w_queue w)(c := q)"
    and q: "alive (w_worker w c) \<Longrightarrow> set (rq_list (w_queue w c)) \<subseteq> set (rq_list q)"
    and new: "\<And>t. t \<in> X \<Longrightarrow> busy st' t \<Longrightarrow> owned w' t"
    and target: "\<And>t. target_of w c = Some t \<Longrightarrow> busy st' t \<Longrightarrow> owned w' t"
    and pushing: "\<And>job. call_job w c job \<Longrightarrow> current_job st' (jb_surface job) job \<Longrightarrow>
      busy st' (jb_surface job) \<Longrightarrow> owned w' (jb_surface job)"
    and b: "busy st' t"
  shows "owned w' t"
proof (cases "t \<in> X")
  case True
  then show ?thesis using new b by blast
next
  case False
  have old: "busy (w_store w) t" and g: "gen st' t = gen (w_store w) t"
    using moves_surfaces(1,2) [OF m False] b by blast+
  have cur: "current_job (w_store w') t job" if "current_job (w_store w) t job" for job
    using that g w'(2) by (simp add: current_job_def)
  have "owned w t" using ok old by (simp add: world_ok_def)
  then consider d where "target_of w d = Some t" | d job where "worker_job w d job" "current_job (w_store w) t job"
    | d job where "call_job w d job" "current_job (w_store w) t job" | d where "w_worker w d = Completing t"
    unfolding owned_def by blast
  then show ?thesis
  proof cases
    case 1
    show ?thesis
    proof (cases "d = c")
      case True
      then show ?thesis using target 1 b by blast
    next
      case False
      then have "target_of w' d = Some t"
        using 1 w' moves_calls(3,4) [OF m] by (simp add: target_of_def split: if_splits)
      then show ?thesis by (rule ownedI)
    qed
  next
    case 2
    have "worker_job w' d job" using 2(1) q w' by (auto simp: worker_job_def)
    then show ?thesis using cur [OF 2(2)] by (rule ownedI)
  next
    case 3
    show ?thesis
    proof (cases "d = c")
      case True
      moreover have "jb_surface job = t" using 3(2) by (simp add: current_job_def)
      ultimately show ?thesis using pushing [of job] 3 cur [OF 3(2)] b w'(2) by simp
    next
      case False
      then have "call_job w' d job" using 3(1) w'(1) by (simp add: call_job_def)
      then show ?thesis using cur [OF 3(2)] by (rule ownedI)
    qed
  next
    case 4
    then show ?thesis using w'(3) ownedI(4) by metis
  qed
qed

lemma call_step_threads:
  assumes ok: "threads_ok w" and m: "moves c X (w_store w) st'" and d: "w_destroying w = None"
    and w': "w_call w' = (w_call w)(c := call')" "w_store w' = st'" "w_worker w' = w_worker w"
      "w_queue w' = (w_queue w)(c := q)" "w_destroying w' = None"
    and q: "rq_wf q" "rq_initialized q = rq_initialized (w_queue w c)" "rq_exiting (w_queue w c) \<Longrightarrow> rq_exiting q"
    and push: "\<And>s job pc v. call' = EndPushing s job pc v \<Longrightarrow> \<not> videoProc st' c \<and> jb_surface job = s"
    and live: "call' \<noteq> NoCall \<Longrightarrow> c \<in> ran (st_contextIds (w_store w))"
    and build: "\<And>s. call' = BeginWaiting s \<or> call' = BeginRunning s \<Longrightarrow> pstate st' c = NVD_PICTURE_BUILDING"
  shows "threads_ok w'"
  unfolding threads_ok_def w' d moves_calls(1,2,3) [OF m]
proof (intro allI)
  fix x
  note k = ok [unfolded threads_ok_def, rule_format, of x]
  show "rq_wf (((w_queue w)(c := q)) x) \<and>
     (alive (w_worker w x) \<longrightarrow> rq_initialized (((w_queue w)(c := q)) x) \<and> started (w_store w) x) \<and>
     (w_worker w x = Finished \<longrightarrow> rq_exiting (((w_queue w)(c := q)) x)) \<and>
     (w_worker w x = NotStarted \<longrightarrow> videoProc (w_store w) x) \<and>
     (\<forall>s job pc v. ((w_call w)(c := call')) x = EndPushing s job pc v \<longrightarrow>
        \<not> videoProc (w_store w) x \<and> jb_surface job = s) \<and>
     (((w_call w)(c := call')) x \<noteq> NoCall \<longrightarrow> x \<in> ran (st_contextIds (w_store w))) \<and>
     (\<forall>s. ((w_call w)(c := call')) x = BeginWaiting s \<or> ((w_call w)(c := call')) x = BeginRunning s \<longrightarrow>
        pstate st' x = NVD_PICTURE_BUILDING) \<and>
     (None = Some x \<longrightarrow> (\<forall>d. ((w_call w)(c := call')) d = NoCall) \<and> pstate st' x \<noteq> NVD_PICTURE_BUILDING)"
  proof (cases "x = c")
    case True
    have v: "call' = EndPushing s job pc v \<Longrightarrow> \<not> videoProc (w_store w) c \<and> jb_surface job = s" for s job pc v
      using push moves_calls(1) [OF m, of c] by metis
    show ?thesis
      unfolding True fun_upd_same
    proof (intro conjI allI impI)
      note k = k [unfolded True]
      show "rq_wf q" by (rule q(1))
      show "rq_initialized q" "started (w_store w) c" if "alive (w_worker w c)"
        using that k q(2) by simp_all
      show "rq_exiting q" if "w_worker w c = Finished" using that k q(3) by simp
      show "videoProc (w_store w) c" if "w_worker w c = NotStarted" using that k by simp
      fix s job pc v
      assume "call' = EndPushing s job pc v"
      from v [OF this] show "\<not> videoProc (w_store w) c" "jb_surface job = s" by simp_all
    next
      fix s
      assume "call' = BeginWaiting s \<or> call' = BeginRunning s"
      then show "pstate st' c = NVD_PICTURE_BUILDING" by (rule build)
    next
      assume "call' \<noteq> NoCall"
      then show "c \<in> ran (st_contextIds (w_store w))" by (rule live)
    qed simp_all
  next
    case False
    show ?thesis
      unfolding fun_upd_other [OF False] moves_calls(4) [OF m False, THEN conjunct1]
      using k by (elim conjE) (intro conjI; assumption | simp only: option.distinct simp_thms)
  qed
qed

lemma call_step:
  assumes ok: "world_ok w" and m: "moves c X (w_store w) st'" and d: "w_destroying w = None"
    and new: "\<And>t. t \<in> X \<Longrightarrow> busy st' t \<Longrightarrow> owned (at_call c call' st' w) t"
    and target: "\<And>t. target_of w c = Some t \<Longrightarrow> busy st' t \<Longrightarrow> owned (at_call c call' st' w) t"
    and pushing: "\<And>job. call_job w c job \<Longrightarrow> busy st' (jb_surface job) \<Longrightarrow> owned (at_call c call' st' w) (jb_surface job)"
    and push: "\<And>s job pc v. call' = EndPushing s job pc v \<Longrightarrow> \<not> videoProc st' c \<and> jb_surface job = s"
    and live: "call' \<noteq> NoCall \<Longrightarrow> c \<in> ran (st_contextIds (w_store w))"
    and build: "\<And>s. call' = BeginWaiting s \<or> call' = BeginRunning s \<Longrightarrow> pstate st' c = NVD_PICTURE_BUILDING"
  shows "world_ok (at_call c call' st' w)"
proof -
  have t: "threads_ok w" using ok by (simp add: world_ok_def)
  have q: "(w_queue w)(c := w_queue w c) = w_queue w" by simp
  have "threads_ok (at_call c call' st' w)"
    by (rule call_step_threads [OF t m d, where call' = call' and q = "w_queue w c"])
      (use threads_okD(1) [OF t] d push live build in simp_all)
  moreover have "images_ok st'" using ok moves_surfaces(4) [OF m] by (simp add: world_ok_def)
  moreover have "owned (at_call c call' st' w) s" if "busy st' s" for s
    by (rule call_step_owned [OF ok m, where call' = call' and q = "w_queue w c", OF _ _ _ _ _ _ _ _ that])
      (use new target pushing in simp_all)
  ultimately show ?thesis by (simp add: world_ok_def)
qed

lemma no_target: "\<not> building_call (w_call w c) \<Longrightarrow> target_of w c = None"
  "pstate (w_store w) c \<noteq> NVD_PICTURE_BUILDING \<Longrightarrow> target_of w c = None"
  by (simp_all add: target_of_def)

lemma no_call_job: "(\<And>s job pc v. w_call w c \<noteq> EndPushing s job pc v) \<Longrightarrow> \<not> call_job w c job"
  by (simp add: call_job_def)

lemma building_simps [simp]:
  "building_call NoCall" "building_call (RenderWaiting ctx bufs p)" "\<not> building_call (BeginWaiting s)"
  "\<not> building_call (BeginRunning s)" "\<not> building_call (EndPushing s job pc v)" "\<not> building_call (EndWaiting s)"
  by (simp_all add: building_call_def)

lemma in_call: "world_ok w \<Longrightarrow> w_call w c \<noteq> NoCall \<Longrightarrow> w_destroying w = None"
  using threads_okD(7) [of w] by (cases "w_destroying w") (auto simp: world_ok_def)

lemma step_begin:
  assumes ok: "world_ok w" and d: "w_destroying w = None" and n: "w_call w c = NoCall"
    and x: "st_contextIds (w_store w) ctx = Some c" and idle: "pstate (w_store w) c = NVD_PICTURE_IDLE"
  shows "world_ok (at_call c NoCall (begin_leave c status (begin_enter c (w_store w))) w)"
    "world_ok (at_call c (BeginWaiting s) (begin_enter c (w_store w)) w)"
proof -
  have m: "moves c {} (w_store w) (begin_leave c status (begin_enter c (w_store w)))"
    by (rule moves_trans [OF begin_enter_effect(1) begin_leave_effect(1)])
  show "world_ok (at_call c NoCall (begin_leave c status (begin_enter c (w_store w))) w)"
    by (rule call_step [OF ok m d]) (use n idle in \<open>simp_all add: no_target no_call_job\<close>)
  show "world_ok (at_call c (BeginWaiting s) (begin_enter c (w_store w)) w)"
    by (rule call_step [OF ok begin_enter_effect(1) [where X = "{}"] d])
      (use n idle x in \<open>auto simp: no_target no_call_job begin_enter_effect intro: ranI\<close>)
qed

lemma step_begin_resolved:
  assumes ok: "world_ok w" and n: "w_call w c = BeginWaiting s"
  shows "world_ok (at_call c (BeginRunning s) (w_store w) w)"
proof -
  have t: "threads_ok w" using ok by (simp add: world_ok_def)
  have d: "w_destroying w = None" using in_call [OF ok, of c] n by simp
  show ?thesis
    by (rule call_step [OF ok moves_refl [where X = "{}"] d])
      (use n threads_okD(8,9) [OF t, of c] in \<open>simp_all add: no_target no_call_job\<close>)
qed

lemma step_begin_run:
  assumes ok: "world_ok w" and n: "w_call w c = BeginRunning s"
    and run: "begin_after_wait env c s (w_store w) = Return (status, st)"
  shows "world_ok (at_call c NoCall (begin_leave c status st) w)"
proof -
  have t: "threads_ok w" using ok by (simp add: world_ok_def)
  have d: "w_destroying w = None" using in_call [OF ok, of c] n by simp
  have old: "target_of w c = None" "\<And>job. \<not> call_job w c job" using n by (simp_all add: no_target no_call_job)
  note e = begin_after_wait_effect [OF run]
  show ?thesis
  proof (cases "status = VA_STATUS_SUCCESS")
    case False
    then have "moves c {} (w_store w) (begin_leave c status st)"
      using e by (blast intro: moves_trans begin_leave_effect)
    then show ?thesis by (rule call_step [OF ok _ d]) (use old in simp_all)
  next
    case True
    then have m: "moves c {s} (w_store w) st" and g: "renderTarget st c = Some s" "pstate st c = NVD_PICTURE_BUILDING"
      using e threads_okD(9) [OF t, of c s] n by auto
    have l: "begin_leave c status st = st" using True by (simp add: begin_leave_effect)
    have "target_of (at_call c NoCall st w) c = Some s"
      using g threads_okD(8) [OF t, of c] n moves_calls(3) [OF m] by (simp add: target_of_def)
    then have "owned (at_call c NoCall st w) s" by (rule ownedI)
    then show ?thesis
      unfolding l by (intro call_step [OF ok m d]) (use old in simp_all)
  qed
qed

lemma step_render:
  assumes ok: "world_ok w" and d: "w_destroying w = None" and b: "building_call (w_call w c)"
    and x: "c \<in> ran (st_contextIds (w_store w))" and r: "safe c (w_store w) (snd r)"
  shows "world_ok (after_render c ctx r w)"
proof -
  obtain res st where rs: "r = (res, st)" by (cases r)
  then have s: "moves c {} (w_store w) st" "keeps_call c (w_store w) st" using r by simp_all
  have j: "\<not> call_job w c job" for job using b by (auto simp: call_job_def)
  have kept: "target_of (at_call c call st w) c = target_of w c" if "building_call call" for call
    using that b s(2) moves_calls(3) [OF s(1)] by (simp add: target_of_def keeps_call_def)
  show ?thesis
  proof (cases res)
    case (Blocked rest processed)
    have "owned (at_call c (RenderWaiting ctx rest processed) st w) t" if "target_of w c = Some t" for t
      by (rule ownedI(1) [where c = c]) (simp add: kept that)
    then show ?thesis
      unfolding rs after_render_def Blocked prod.case render_result.case
      by (intro call_step [OF ok s(1) d]) (use j x in simp_all)
  next
    case (Rendered status)
    note m = moves_trans [OF s(1) render_leave_effect(1)]
    have "owned (at_call c NoCall (render_leave c status st) w) t"
      if "target_of w c = Some t" "busy (render_leave c status st) t" for t
    proof (cases "status = VA_STATUS_SUCCESS")
      case True
      then show ?thesis
        by (intro ownedI(1) [where c = c]) (simp add: kept that render_leave_effect)
    next
      case False
      have "renderTarget st c = Some t"
        using that(1) s(2) by (simp add: target_of_def keeps_call_def split: if_splits)
      then show ?thesis using render_leave_effect(4) [OF False] that(2) by blast
    qed
    then show ?thesis
      unfolding rs after_render_def Rendered prod.case render_result.case
      by (intro call_step [OF ok m d]) (use j in simp_all)
  qed
qed

lemma step_end_failed:
  assumes ok: "world_ok w" and d: "w_destroying w = None" and n: "w_call w c = NoCall"
    and e: "end_enter ctx (w_store w) = Inl (status, st)" and x: "st_contextIds (w_store w) ctx = Some c"
  shows "world_ok (w\<lparr>w_store := st\<rparr>)"
proof -
  have w: "w\<lparr>w_store := st\<rparr> = at_call c NoCall st w"
  proof -
    have "(w_call w)(c := NoCall) = w_call w" using n by auto
    then show ?thesis by (cases w) (simp add: at_call_def)
  qed
  consider "st = w_store w" | "pstate (w_store w) c = NVD_PICTURE_FAILED" "st = resetPictureBuild c True (w_store w)"
    using e x by (auto simp: end_enter_def split: NVDPictureState.splits)
  then show ?thesis
  proof cases
    case 1
    then show ?thesis using ok by simp
  next
    case 2
    show ?thesis
      unfolding w unfolding 2(2)
      by (rule call_step [OF ok moves_reset [where X = "{}"] d]) (use n 2(1) in \<open>simp_all add: no_target no_call_job\<close>)
  qed
qed

lemma step_end_submit:
  assumes ok: "world_ok w" and d: "w_destroying w = None" and n: "w_call w c = NoCall"
    and x: "c \<in> ran (st_contextIds (w_store w))" and b: "pstate (w_store w) c = NVD_PICTURE_BUILDING"
  shows "world_ok (after_submit c (end_submit env c (w_store w)) w)"
proof -
  obtain r st where r: "end_submit env c (w_store w) = (r, st)" by fastforce
  have j: "\<not> call_job w c job" for job using n by (simp add: call_job_def)
  show ?thesis
  proof (cases r)
    case (Inl status)
    then have e: "submit_error c (w_store w) st" using end_submit_effect [OF r] by simp
    then obtain X where m: "moves c X (w_store w) st" and X: "\<forall>t \<in> X. \<not> busy st t"
      and k: "keeps_call c (w_store w) st"
      and v: "videoProc (w_store w) c \<Longrightarrow> \<forall>t. renderTarget (w_store w) c = Some t \<longrightarrow> \<not> busy st t"
      unfolding submit_error_def by blast
    have b': "pstate st c \<noteq> NVD_PICTURE_SUBMITTED" "renderTarget st c = renderTarget (w_store w) c"
      using k b by (simp_all add: keeps_call_def)
    have vp: "videoProc st c = videoProc (w_store w) c" by (rule moves_calls(1) [OF m])
    have gone: "\<not> busy (end_leave c st) t" if "target_of w c = Some t" for t
    proof (cases "videoProc (w_store w) c")
      case True
      then show ?thesis using v that end_leave_effect(3) [of c st t] by (auto simp: target_of_def split: if_splits)
    next
      case False
      have "renderTarget st c = Some t" using that b'(2) by (auto simp: target_of_def split: if_splits)
      then show ?thesis using end_leave_effect(4) [OF b'(1)] False vp by simp
    qed
    have gX: "\<not> busy (end_leave c st) t" if "t \<in> X" for t
      using X that end_leave_effect(3) [of c st t] by blast
    show ?thesis
      unfolding r after_submit_def Inl prod.case sum.case
      by (rule call_step [OF ok moves_trans [OF m end_leave_effect(1)] d]) (use gone gX j in auto)
  next
    case (Inr y)
    obtain s job status where y: "y = (s, job, status)" by (cases y)
    have e: "submit_job c (w_store w) s job st" using end_submit_effect [OF r] Inr y by simp
    let ?w = "at_call c (EndPushing s job push_call_start status) st w"
    have job: "owned ?w s"
      by (rule ownedI(3) [where c = c and job = job]) (use e in \<open>simp_all add: call_job_def current_job_def submit_job_def\<close>)
    have m: "moves c {s} (w_store w) st" using e by (simp add: submit_job_def)
    have t: "owned ?w t" if "target_of w c = Some t" "busy st t" for t
    proof -
      have "renderTarget (w_store w) c = Some t" using that(1) by (simp add: target_of_def split: if_splits)
      then have "t = s" using e that(2) unfolding submit_job_def by blast
      then show ?thesis using job by simp
    qed
    show ?thesis
      unfolding r after_submit_def Inr y prod.case sum.case
      by (rule call_step [OF ok m d])
        (use job t j x e moves_calls(1) [OF m, of c] in \<open>simp_all add: submit_job_def\<close>)
  qed
qed

lemma step_end_shared:
  assumes ok: "world_ok w" and n: "w_call w c = EndWaiting s"
  shows "world_ok (at_call c NoCall (end_leave c (w_store w)) w)"
proof -
  have d: "w_destroying w = None" using in_call [OF ok, of c] n by simp
  show ?thesis
    by (rule call_step [OF ok end_leave_effect(1) [where X = "{}"] d])
      (use n in \<open>simp_all add: no_target no_call_job\<close>)
qed

text \<open>The push changes the queue as well.\<close>

lemma call_step_queue:
  assumes ok: "world_ok w" and m: "moves c X (w_store w) st'" and d: "w_destroying w = None"
    and w': "w' = set_queue c q (at_call c call' st' w)"
    and q: "rq_wf q" "rq_initialized q = rq_initialized (w_queue w c)" "rq_exiting (w_queue w c) \<Longrightarrow> rq_exiting q"
      "set (rq_list (w_queue w c)) \<subseteq> set (rq_list q)"
    and new: "\<And>t. t \<in> X \<Longrightarrow> busy st' t \<Longrightarrow> owned w' t"
    and target: "\<And>t. target_of w c = Some t \<Longrightarrow> busy st' t \<Longrightarrow> owned w' t"
    and pushing: "\<And>job. call_job w c job \<Longrightarrow> current_job st' (jb_surface job) job \<Longrightarrow>
      busy st' (jb_surface job) \<Longrightarrow> owned w' (jb_surface job)"
    and push: "\<And>s job pc v. call' = EndPushing s job pc v \<Longrightarrow> \<not> videoProc st' c \<and> jb_surface job = s"
    and live: "call' \<noteq> NoCall \<Longrightarrow> c \<in> ran (st_contextIds (w_store w))"
    and build: "\<And>s. call' = BeginWaiting s \<or> call' = BeginRunning s \<Longrightarrow> pstate st' c = NVD_PICTURE_BUILDING"
  shows "world_ok w'"
proof -
  have t: "threads_ok w" using ok by (simp add: world_ok_def)
  have f: "w_call w' = (w_call w)(c := call')" "w_store w' = st'" "w_worker w' = w_worker w"
      "w_queue w' = (w_queue w)(c := q)" "w_destroying w' = None"
    using d by (simp_all add: w')
  have "threads_ok w'" by (rule call_step_threads [OF t m d f q(1-3) push live build])
  moreover have "images_ok st'" using ok moves_surfaces(4) [OF m] by (simp add: world_ok_def)
  moreover have "owned w' s" if "busy st' s" for s
    by (rule call_step_owned [OF ok m f(1-4) q(4) new target pushing that])
  ultimately show ?thesis using f by (simp add: world_ok_def)
qed

lemma step_push:
  assumes ok: "world_ok w" and n: "w_call w c = EndPushing s job pc status"
  shows "world_ok (try_push clock clock2 timed c s job pc status w)"
proof -
  have t: "threads_ok w" using ok by (simp add: world_ok_def)
  have d: "w_destroying w = None" using in_call [OF ok, of c] n by simp
  have x: "c \<in> ran (st_contextIds (w_store w))" using threads_okD(8) [OF t, of c] n by simp
  have dec: "\<not> videoProc (w_store w) c" "jb_surface job = s" using threads_okD(6) [OF t n] by simp_all
  have j: "call_job w c job' \<longleftrightarrow> job' = job" for job' using n by (auto simp: call_job_def)
  have nt: "target_of w c = None" using n by (simp add: no_target)
  obtain r q pc' where p: "push_attempt clock clock2 timed (w_queue w c) pc (Some job) = (r, q, pc')"
    by (cases "push_attempt clock clock2 timed (w_queue w c) pc (Some job)") auto
  note pq = push_attempt_cases [OF threads_okD(1) [OF t] p]
  show ?thesis
  proof (cases r)
    case Wait
    let ?w = "set_queue c q (at_call c (EndPushing s job pc' status) (w_store w) w)"
    have "owned ?w (jb_surface job')" if "call_job w c job'" "current_job (w_store w) (jb_surface job') job'" for job'
      by (rule ownedI(3) [where c = c and job = job]) (use that j in \<open>auto simp: call_job_def\<close>)
    then show ?thesis
      unfolding try_push_def p Wait prod.case attempt.case
      by (intro call_step_queue [OF ok moves_refl [where X = "{}"] d refl]) (use pq Wait nt dec x in auto)
  next
    case (Return y)
    obtain pushed stamp where y: "y = (pushed, stamp)" by (cases y)
    let ?e = "end_pushed c s status pushed (w_store w)"
    show ?thesis
    proof (cases pushed)
      case False
      let ?f = "failSurfaceResolve (w_store w) (Some s) VA_STATUS_ERROR_OPERATION_FAILED"
      have e: "?e = (Inl VA_STATUS_ERROR_OPERATION_FAILED, ?f)" using False by (simp add: end_pushed_def)
      have nb: "\<not> busy (end_leave c ?f) s" using end_leave_effect(3) [of c ?f s] by auto
      show ?thesis
        unfolding try_push_def p Return y e prod.case attempt.case sum.case
        by (rule call_step_queue [OF ok moves_trans [OF moves_fail end_leave_effect(1), where X = "{}"] d refl])
          (use pq Return y False nt nb j dec in auto)
    next
      case True
      then have pp: "rq_list q = rq_list (w_queue w c) @ [Some job]" "\<not> rq_exiting (w_queue w c)" "rq_wf q"
          "rq_initialized q = rq_initialized (w_queue w c)"
        using pq Return y by simp_all
      have al: "alive (w_worker w c)"
        using threads_okD(4,5) [OF t, of c] pp(2) dec(1) by (auto simp: alive_def)
      let ?s = "upd_context (w_store w) c (\<lambda>cn. cn\<lparr>cn_pictureState := NVD_PICTURE_SUBMITTED\<rparr>)"
      have m: "moves c {} (w_store w) ?s" by (rule moves_context) simp_all
      define r' where "r' = (if sf_exported (st_surface ?s s) \<or> sf_external (st_surface ?s s) then Inr s else Inl status)"
      have e: "?e = (r', ?s)" using True by (simp add: end_pushed_def r'_def Let_def)
      have own: "owned (set_queue c q (at_call c call st w)) (jb_surface job')"
        if "call_job w c job'" "current_job st (jb_surface job') job'" for call st job'
        by (rule ownedI(2) [where c = c and job = job])
          (use that j al pp(1) in \<open>auto simp: worker_job_def\<close>)
      show ?thesis
      proof (cases r')
        case (Inl v)
        show ?thesis
          unfolding try_push_def p Return y e prod.case attempt.case Inl sum.case
          by (rule call_step_queue [OF ok moves_trans [OF m end_leave_effect(1)] d refl])
            (use pp nt own in auto)
      next
        case (Inr sh)
        show ?thesis
          unfolding try_push_def p Return y e prod.case attempt.case Inr sum.case
          by (rule call_step_queue [OF ok m d refl]) (use pp nt own x in auto)
      qed
    qed
  qed
qed

section \<open>A step of a resolve thread\<close>

lemma worker_step:
  assumes ok: "world_ok w" and s: "safe c (w_store w) st'"
    and w': "w' = set_queue c q (at_worker c r st' w)"
    and q: "rq_wf q" "alive r \<Longrightarrow> rq_initialized q \<and> started (w_store w) c" "r = Finished \<Longrightarrow> rq_exiting q"
      "r = NotStarted \<Longrightarrow> videoProc (w_store w) c"
    and jobs: "\<And>job. worker_job w c job \<Longrightarrow> current_job st' (jb_surface job) job \<Longrightarrow>
      busy st' (jb_surface job) \<Longrightarrow> owned w' (jb_surface job)"
    and completing: "\<And>t. w_worker w c = Completing t \<Longrightarrow> busy st' t \<Longrightarrow> owned w' t"
  shows "world_ok w'"
proof -
  have t: "threads_ok w" using ok by (simp add: world_ok_def)
  note m = conjunct1 [OF s] and k = conjunct2 [OF s]
  have same: "pstate st' d = pstate (w_store w) d" "renderTarget st' d = renderTarget (w_store w) d" for d
    using moves_calls(4) [OF m, of d] k by (cases "d = c"; simp add: keeps_call_def)+
  have f: "w_call w' = w_call w" "w_store w' = st'" "w_worker w' = (w_worker w)(c := r)"
      "w_queue w' = (w_queue w)(c := q)" "w_destroying w' = w_destroying w"
    by (simp_all add: w')
  have "threads_ok w'"
    unfolding threads_ok_def f moves_calls(1,2,3) [OF m] same
  proof (intro allI)
    fix x
    note k = t [unfolded threads_ok_def, rule_format, of x]
    show "rq_wf (((w_queue w)(c := q)) x) \<and>
       (alive (((w_worker w)(c := r)) x) \<longrightarrow> rq_initialized (((w_queue w)(c := q)) x) \<and> started (w_store w) x) \<and>
       (((w_worker w)(c := r)) x = Finished \<longrightarrow> rq_exiting (((w_queue w)(c := q)) x)) \<and>
       (((w_worker w)(c := r)) x = NotStarted \<longrightarrow> videoProc (w_store w) x) \<and>
       (\<forall>s job pc v. w_call w x = EndPushing s job pc v \<longrightarrow> \<not> videoProc (w_store w) x \<and> jb_surface job = s) \<and>
       (w_call w x \<noteq> NoCall \<longrightarrow> x \<in> ran (st_contextIds (w_store w))) \<and>
       (\<forall>s. w_call w x = BeginWaiting s \<or> w_call w x = BeginRunning s \<longrightarrow>
          pstate (w_store w) x = NVD_PICTURE_BUILDING) \<and>
       (w_destroying w = Some x \<longrightarrow> (\<forall>d. w_call w d = NoCall) \<and> pstate (w_store w) x \<noteq> NVD_PICTURE_BUILDING)"
    proof (cases "x = c")
      case True
      show ?thesis
        unfolding True fun_upd_same
        using k [unfolded True] q by (elim conjE) (intro conjI; blast)
    next
      case False
      show ?thesis unfolding fun_upd_other [OF False] by (rule k)
    qed
  qed
  moreover have "images_ok st'" using ok moves_surfaces(4) [OF m] by (simp add: world_ok_def)
  moreover have "owned w' t" if b: "busy st' t" for t
  proof -
    have old: "busy (w_store w) t" and g: "gen st' t = gen (w_store w) t"
      using moves_surfaces(1,2) [OF m, of t] b by simp_all
    have cur: "current_job (w_store w') t job" if "current_job (w_store w) t job" for job
      using that g f(2) by (simp add: current_job_def)
    have "owned w t" using ok old by (simp add: world_ok_def)
    then consider d where "target_of w d = Some t" | d job where "worker_job w d job" "current_job (w_store w) t job"
      | d job where "call_job w d job" "current_job (w_store w) t job" | d where "w_worker w d = Completing t"
      unfolding owned_def by blast
    then show ?thesis
    proof cases
      case 1
      then have "target_of w' d = Some t" using f same moves_calls(3) [OF m] by (simp add: target_of_def split: if_splits)
      then show ?thesis by (rule ownedI)
    next
      case 2
      show ?thesis
      proof (cases "d = c")
        case True
        have "jb_surface job = t" using 2(2) by (simp add: current_job_def)
        then show ?thesis using jobs [of job] 2(1) True cur [OF 2(2)] b f(2) by simp
      next
        case False
        then have "worker_job w' d job" using 2(1) f by (simp add: worker_job_def)
        then show ?thesis using cur [OF 2(2)] by (rule ownedI)
      qed
    next
      case 3
      then have "call_job w' d job" using f by (simp add: call_job_def)
      then show ?thesis using cur [OF 3(2)] by (rule ownedI)
    next
      case 4
      show ?thesis
      proof (cases "d = c")
        case True
        then show ?thesis using completing 4 b by blast
      next
        case False
        then have "w_worker w' d = Completing t" using 4 f by simp
        then show ?thesis by (rule ownedI)
      qed
    qed
  qed
  ultimately show ?thesis using f by (simp add: world_ok_def)
qed

lemma failJobs_effect:
  "safe c st (failJobs jobs st)"
  "busy (failJobs jobs st) t \<longleftrightarrow> busy st t \<and> (\<forall>j. Some j \<in> set jobs \<longrightarrow> jb_surface j \<noteq> t)"
proof (induction jobs arbitrary: st)
  case (Cons x jobs)
  case 1
  have "safe c st (case x of None \<Rightarrow> st | Some j \<Rightarrow> failSurfaceResolve st (Some (jb_surface j)) VA_STATUS_ERROR_OPERATION_FAILED)"
    by (simp split: option.splits)
  from safe_trans [OF this Cons.IH(1)] show ?case by (simp add: failJobs_def)
  case 2
  show ?case using Cons.IH(2) by (auto simp: failJobs_def split: option.splits)
qed (simp_all add: failJobs_def)

lemma step_worker_start:
  assumes ok: "world_ok w" and n: "w_worker w c = Starting"
  shows "world_ok (worker_start entered c w)"
proof -
  have t: "threads_ok w" using ok by (simp add: world_ok_def)
  have al: "alive (w_worker w c)" using n by (simp add: alive_def)
  note q = threads_okD(1) [OF t, of c] threads_okD(2,3) [OF t al]
  show ?thesis
  proof (cases entered)
    case True
    have e: "worker_start entered c w = set_queue c (w_queue w c) (at_worker c Popping (w_store w) w)"
      using True by (simp add: worker_start_def set_queue_def at_worker_def)
    have "owned (worker_start entered c w) (jb_surface job)"
      if "worker_job w c job" "current_job (w_store w) (jb_surface job) job" for job
      by (rule ownedI(2) [where c = c and job = job]) (use that n in \<open>auto simp: worker_job_def alive_def e\<close>)
    then show ?thesis
      by (intro worker_step [OF ok _ e]) (use q n in simp_all)
  next
    case False
    obtain q' where c: "resolveQueueCancel (w_queue w c) RESOLVE_QUEUE_CAPACITY =
        (of_nat (min (unat (rq_count (w_queue w c))) (unat RESOLVE_QUEUE_CAPACITY)),
         take (unat RESOLVE_QUEUE_CAPACITY) (rq_list (w_queue w c)), q')"
      and q': "rq_wf q'" "rq_exiting q'"
      using cancel_ok [OF q(1,2)] by metis
    have tk: "take (unat RESOLVE_QUEUE_CAPACITY) (rq_list (w_queue w c)) = rq_list (w_queue w c)"
      using q(1) by (intro take_all) (simp add: rq_wf_def)
    let ?st = "failJobs (rq_list (w_queue w c)) (w_store w)"
    have e: "worker_start entered c w = set_queue c q' (at_worker c Finished ?st w)"
      using False c tk by (simp add: worker_start_def)
    show ?thesis
      by (rule worker_step [OF ok failJobs_effect(1) e])
        (use q' n in \<open>auto simp: worker_job_def failJobs_effect(2) alive_def\<close>)
  qed
qed

lemma step_worker_pop:
  assumes ok: "world_ok w" and n: "w_worker w c = Popping"
  shows "world_ok (try_pop synchronized c w)"
proof -
  have t: "threads_ok w" using ok by (simp add: world_ok_def)
  have al: "alive (w_worker w c)" using n by (simp add: alive_def)
  note q = threads_okD(1) [OF t, of c] threads_okD(2,3) [OF t al]
  obtain r q' where p: "pop_attempt (w_queue w c) = (r, q')" by fastforce
  note pq = pop_attempt_cases [OF q(1) p]
  have wj: "worker_job w c job \<longleftrightarrow> Some job \<in> set (rq_list (w_queue w c))" for job
    using n by (simp add: worker_job_def alive_def)
  show ?thesis
  proof (cases r)
    case Wait
    then show ?thesis using pq p ok by (simp add: try_pop_def)
  next
    case (Return x)
    show ?thesis
    proof (cases x)
      case None
      let ?st1 = "(w_store w)\<lparr>st_cudaWorkUnsafe := st_cudaWorkUnsafe (w_store w) \<or> \<not> synchronized\<rparr>"
      have e: "try_pop synchronized c w = set_queue c q' (at_worker c Finished (worker_exit c ?st1) w)"
        using p Return None by (simp add: try_pop_def Let_def)
      have cs: "safe c (w_store w) (worker_exit c ?st1)"
        by (rule calm_safe [OF calm_trans [OF calm_unsafe calm_worker_exit]])
      show ?thesis
        by (rule worker_step [OF ok cs e]) (use pq Return None q n wj in \<open>simp_all add: alive_def\<close>)
    next
      case (Some item)
      then have l: "rq_list (w_queue w c) = item # rq_list q'" "rq_wf q'" "rq_exiting q' = rq_exiting (w_queue w c)"
        "rq_initialized q' = rq_initialized (w_queue w c)" using pq Return by simp_all
      define r' where "r' = (case item of None \<Rightarrow> Popping | Some job \<Rightarrow> Resolving job)"
      have al': "alive r'" by (simp add: r'_def alive_def split: option.splits)
      have e: "try_pop synchronized c w = set_queue c q' (at_worker c r' (w_store w) w)"
      proof (cases item)
        case None
        have "at_worker c Popping (w_store w) w = w"
        proof -
          have "(w_worker w)(c := Popping) = w_worker w" using n by auto
          then show ?thesis by (cases w) (simp add: at_worker_def)
        qed
        then show ?thesis using None p Return Some by (simp add: try_pop_def r'_def)
      qed (use p Return Some in \<open>simp add: try_pop_def r'_def\<close>)
      have "owned (try_pop synchronized c w) (jb_surface job)"
        if "worker_job w c job" "current_job (w_store w) (jb_surface job) job" for job
      proof (rule ownedI(2) [where c = c and job = job])
        show "worker_job (try_pop synchronized c w) c job"
          using that(1) l(1) al' unfolding wj e by (auto simp: worker_job_def r'_def)
      qed (use that(2) e in simp)
      then show ?thesis
        by (intro worker_step [OF ok _ e]) (use l q al' n in \<open>auto simp: r'_def split: option.splits\<close>)
    qed
  qed
qed

lemma check_effect: "resolve_check res job st = (b, st') \<Longrightarrow> calm st st' \<and> b = (gen st' (jb_surface job) = jb_generation job)"
proof -
  assume r: "resolve_check res job st = (b, st')"
  obtain failed unsafe where f: "resolve_frame res job (st_cudaWorkUnsafe st) = (failed, unsafe)" by fastforce
  let ?st1 = "st\<lparr>st_cudaWorkUnsafe := unsafe\<rparr>"
  have b: "b = (gen ?st1 (jb_surface job) = jb_generation job)" and
    st': "st' = (if b then upd_surface ?st1 (jb_surface job) (\<lambda>sf. sf\<lparr>sf_decodeFailed := failed \<or> unsafe\<rparr>) else ?st1)"
    using r f by (auto simp: resolve_check_def Let_def)
  have "calm ?st1 st'" unfolding st' by (simp add: calm_surface)
  then show ?thesis using calm_trans [OF calm_unsafe [where st = st and b = unsafe], of st'] b calm_busy(2) [of ?st1 st'] by simp
qed

lemma step_worker_check:
  assumes ok: "world_ok w" and n: "w_worker w c = Resolving job"
  shows "world_ok (worker_check res c job w)"
proof -
  have t: "threads_ok w" using ok by (simp add: world_ok_def)
  have al: "alive (w_worker w c)" using n by (simp add: alive_def)
  note q = threads_okD(1) [OF t, of c] threads_okD(2,3) [OF t al]
  obtain b st' where r: "resolve_check res job (w_store w) = (b, st')" by fastforce
  note e = check_effect [OF r]
  let ?r = "if b then Completing (jb_surface job) else Popping"
  have w: "worker_check res c job w = set_queue c (w_queue w c) (at_worker c ?r st' w)"
    using r by (simp add: worker_check_def set_queue_def at_worker_def)
  have "owned (worker_check res c job w) (jb_surface job')"
    if "worker_job w c job'" "current_job st' (jb_surface job') job'" for job'
  proof (cases "job' = job")
    case True
    then have b using that(2) e by (simp add: current_job_def)
    then show ?thesis by (intro ownedI(4) [where c = c]) (simp add: w True)
  next
    case False
    then show ?thesis
      using that n by (intro ownedI(2) [where c = c and job = job']) (auto simp: w worker_job_def alive_def)
  qed
  then show ?thesis
    by (intro worker_step [OF ok calm_safe w]) (use e q n in \<open>auto simp: alive_def\<close>)
qed

lemma step_worker_complete:
  assumes ok: "world_ok w" and n: "w_worker w c = Completing s"
  shows "world_ok (at_worker c Popping (setSurfaceResolving (w_store w) (Some s) False) w)"
proof -
  have t: "threads_ok w" using ok by (simp add: world_ok_def)
  have al: "alive (w_worker w c)" using n by (simp add: alive_def)
  note q = threads_okD(1) [OF t, of c] threads_okD(2,3) [OF t al]
  let ?st = "setSurfaceResolving (w_store w) (Some s) False"
  have w: "at_worker c Popping ?st w = set_queue c (w_queue w c) (at_worker c Popping ?st w)"
    by (simp add: set_queue_def at_worker_def)
  have "owned (at_worker c Popping ?st w) (jb_surface job)"
    if "worker_job w c job" "current_job ?st (jb_surface job) job" for job
    using that n by (intro ownedI(2) [where c = c and job = job]) (auto simp: worker_job_def alive_def)
  then show ?thesis
    by (intro worker_step [OF ok _ w]) (use q n in simp_all)
qed

section \<open>The destruction of a context\<close>

lemma owned_destroying [simp]: "owned (w\<lparr>w_destroying := d\<rparr>) s = owned w s"
  by (simp add: owned_def target_of_def worker_job_def call_job_def)

lemma destroying_ok:
  assumes ok: "world_ok w" and d: "d = Some c \<Longrightarrow> (\<forall>x. w_call w x = NoCall) \<and> pstate (w_store w) c \<noteq> NVD_PICTURE_BUILDING"
    and n: "\<And>x. d = Some x \<Longrightarrow> x = c"
  shows "world_ok (w\<lparr>w_destroying := d\<rparr>)"
proof -
  have f: "w_call (w\<lparr>w_destroying := d\<rparr>) = w_call w" "w_store (w\<lparr>w_destroying := d\<rparr>) = w_store w"
    "w_worker (w\<lparr>w_destroying := d\<rparr>) = w_worker w" "w_queue (w\<lparr>w_destroying := d\<rparr>) = w_queue w"
    "w_destroying (w\<lparr>w_destroying := d\<rparr>) = d" by simp_all
  have "threads_ok (w\<lparr>w_destroying := d\<rparr>)"
    unfolding threads_ok_def f
  proof (intro allI)
    fix x
    have "threads_ok w" using ok by (simp add: world_ok_def)
    note k = this [unfolded threads_ok_def, rule_format, of x]
    have "d = Some x \<longrightarrow> (\<forall>d. w_call w d = NoCall) \<and> pstate (w_store w) x \<noteq> NVD_PICTURE_BUILDING"
      using d n by blast
    then show "rq_wf (w_queue w x) \<and>
          (alive (w_worker w x) \<longrightarrow> rq_initialized (w_queue w x) \<and> started (w_store w) x) \<and>
          (w_worker w x = Finished \<longrightarrow> rq_exiting (w_queue w x)) \<and>
          (w_worker w x = NotStarted \<longrightarrow> videoProc (w_store w) x) \<and>
          (\<forall>s job pc v. w_call w x = EndPushing s job pc v \<longrightarrow>
             \<not> videoProc (w_store w) x \<and> jb_surface job = s) \<and>
          (w_call w x \<noteq> NoCall \<longrightarrow> x \<in> ran (st_contextIds (w_store w))) \<and>
          (\<forall>s. w_call w x = BeginWaiting s \<or> w_call w x = BeginRunning s \<longrightarrow>
             pstate (w_store w) x = NVD_PICTURE_BUILDING) \<and>
          (d = Some x \<longrightarrow> (\<forall>d. w_call w d = NoCall) \<and>
             pstate (w_store w) x \<noteq> NVD_PICTURE_BUILDING)"
      using k by (elim conjE) (intro conjI; assumption)
  qed
  then show ?thesis using ok unfolding world_ok_def owned_destroying f(2) by blast
qed

lemma step_destroy_begin:
  assumes ok: "world_ok w" and d: "w_destroying w = None" "\<forall>d. w_call w d = NoCall"
    and p: "pstate (w_store w) c \<noteq> NVD_PICTURE_BUILDING"
  shows "world_ok (destroy_begin c w)"
proof -
  have t: "threads_ok w" using ok by (simp add: world_ok_def)
  let ?st = "markContextDestroying (w_store w) c"
  have s: "safe c (w_store w) ?st" by (rule calm_safe [OF calm_markDestroying])
  have p': "pstate st c \<noteq> NVD_PICTURE_BUILDING" if "safe c (w_store w) st" for st
    using that p by (simp add: keeps_call_def)
  have same: "w\<lparr>w_store := st\<rparr> = set_queue c (w_queue w c) (at_worker c (w_worker w c) st w)" for st
    by (cases w) (simp add: set_queue_def at_worker_def)
  show ?thesis
  proof (cases "started ?st c")
    case False
    then have ns: "\<not> alive (w_worker w c)"
      using threads_okD(3) [OF t, of c] calm_markDestroying [of "w_store w" c] by (auto simp: calm_def)
    have "world_ok (w\<lparr>w_store := ?st\<rparr>)"
      by (rule worker_step [OF ok s same])
        (use threads_okD(1,4,5) [OF t, of c] ns in \<open>auto simp: worker_job_def alive_def\<close>)
    then have "world_ok ((w\<lparr>w_store := ?st\<rparr>)\<lparr>w_destroying := Some c\<rparr>)"
      by (rule destroying_ok) (use d p' [OF s] in simp_all)
    then show ?thesis using False by (simp add: destroy_begin_def Let_def)
  next
    case True
    show ?thesis
    proof (cases "rq_initialized (w_queue w c)")
      case init: True
      note q = threads_okD(1) [OF t, of c]
      obtain q' where c: "resolveQueueCancel (w_queue w c) RESOLVE_QUEUE_CAPACITY =
          (of_nat (min (unat (rq_count (w_queue w c))) (unat RESOLVE_QUEUE_CAPACITY)),
           take (unat RESOLVE_QUEUE_CAPACITY) (rq_list (w_queue w c)), q')"
        and q': "rq_wf q'" "rq_exiting q'" "rq_initialized q'" "rq_list q' = []"
        using cancel_ok [OF q init] by metis
      have tk: "take (unat RESOLVE_QUEUE_CAPACITY) (rq_list (w_queue w c)) = rq_list (w_queue w c)"
        using q by (intro take_all) (simp add: rq_wf_def)
      let ?f = "failJobs (rq_list (w_queue w c)) ?st"
      note sf = safe_trans [OF s failJobs_effect(1), where jobs1 = "rq_list (w_queue w c)"]
      let ?w = "set_queue c q' (at_worker c (w_worker w c) ?f w)"
      have "owned ?w (jb_surface job)"
        if "worker_job w c job" "busy ?f (jb_surface job)" "current_job ?f (jb_surface job) job" for job
      proof (rule ownedI(2) [where c = c and job = job])
        have "w_worker w c = Resolving job" using that(1,2) by (auto simp: worker_job_def failJobs_effect(2))
        then show "worker_job ?w c job" by (simp add: worker_job_def)
      qed (use that(3) in simp)
      moreover have "owned ?w x" if "w_worker w c = Completing x" for x
        using that by (intro ownedI(4) [where c = c]) simp
      ultimately have "world_ok ?w"
        by (intro worker_step [OF ok sf refl]) (use q' threads_okD(3,5) [OF t, of c] in simp_all)
      then have "world_ok (?w\<lparr>w_destroying := Some c\<rparr>)"
        by (rule destroying_ok) (use d p' [OF sf] in simp_all)
      moreover have "destroy_begin c w = ?w\<lparr>w_destroying := Some c\<rparr>"
      proof -
        have "w\<lparr>w_store := ?f, w_destroying := Some c\<rparr> = (at_worker c (w_worker w c) ?f w)\<lparr>w_destroying := Some c\<rparr>"
          by (cases w) (simp add: at_worker_def)
        then show ?thesis using True c tk by (simp add: destroy_begin_def Let_def set_queue_def)
      qed
      ultimately show ?thesis by simp
    next
      case False
      then have ns: "\<not> alive (w_worker w c)" using threads_okD(2) [OF t, of c] by blast
      have c: "resolveQueueCancel (w_queue w c) RESOLVE_QUEUE_CAPACITY = (0, [], w_queue w c)"
        using False by (simp add: resolveQueueCancel_def)
      have "world_ok (w\<lparr>w_store := ?st\<rparr>)"
        by (rule worker_step [OF ok s same])
          (use threads_okD(1,4,5) [OF t, of c] ns in \<open>auto simp: worker_job_def alive_def\<close>)
      then have "world_ok ((w\<lparr>w_store := ?st\<rparr>)\<lparr>w_destroying := Some c\<rparr>)"
        by (rule destroying_ok) (use d p' [OF s] in simp_all)
      moreover have "destroy_begin c w = (w\<lparr>w_store := ?st\<rparr>)\<lparr>w_destroying := Some c\<rparr>"
        using True c by (simp add: destroy_begin_def Let_def failJobs_def set_queue_def)
      ultimately show ?thesis by simp
    qed
  qed
qed

lemma rq_destroy [simp]: "rq_wf (resolveQueueDestroy q) = rq_wf q" "rq_list (resolveQueueDestroy q) = rq_list q"
  "rq_exiting (resolveQueueDestroy q) = rq_exiting q"
  by (simp_all add: resolveQueueDestroy_def rq_wf_def rq_list_def)

definition finishing :: "nat \<Rightarrow> NVStore \<Rightarrow> NVStore \<Rightarrow> bool" where
  "finishing c st st' \<longleftrightarrow> same_busy st st' \<and> st_contextIds st' = st_contextIds st \<and>
     (\<forall>d. videoProc st' d = videoProc st d \<and> pstate st' d = pstate st d \<and> renderTarget st' d = renderTarget st d \<and>
          (d \<noteq> c \<longrightarrow> started st' d = started st d))"

lemma finishing_trans: "finishing c st st' \<Longrightarrow> finishing c st' st'' \<Longrightarrow> finishing c st st''"
  by (simp add: finishing_def same_busy_def)

lemma finishing_context:
  assumes "\<And>cn. cn_videoProc (f cn) = cn_videoProc cn" "\<And>cn. cn_pictureState (f cn) = cn_pictureState cn"
    "\<And>cn. cn_renderTarget (f cn) = cn_renderTarget cn"
  shows "finishing c st (upd_context st c f)"
  using assms by (simp add: finishing_def same_busy_def renderTarget_def)

lemma finishing_calm: "calm st st' \<Longrightarrow> finishing c st st'"
  by (simp add: finishing_def calm_def)

lemma finish_effect:
  assumes "destroy_finish destroyed c st = (b, st')"
  shows "finishing c st st'"
proof -
  define g :: "NVContext \<Rightarrow> NVContext" where "g = (\<lambda>cn. cn
                 \<lparr>cn_codec := (cn_codec cn)
                    \<lparr>pk_sliceOffsets := freeAppendableBuffer (pk_sliceOffsets (cn_codec cn)),
                     pk_bitstreamBuffer := freeAppendableBuffer (pk_bitstreamBuffer (cn_codec cn))\<rparr>,
                  cn_sliceParamsBuffer := freeAppendableBuffer (cn_sliceParamsBuffer cn),
                  cn_mutexInitialized := False\<rparr>)"
  define st1 where "st1 = upd_context st c (\<lambda>cn. cn\<lparr>cn_resolveThreadStarted := False\<rparr>)"
  define st2 where "st2 = upd_context st1 c (\<lambda>cn. cn\<lparr>cn_decoder := False\<rparr>)"
  have f1: "finishing c st st1" unfolding st1_def by (rule finishing_context) simp_all
  have f2: "finishing c st1 st2" unfolding st2_def by (rule finishing_context) simp_all
  have f3: "finishing c st2 (releaseContextPictureIndices st2 c)" by (rule finishing_calm [OF calm_releaseContext])
  have fg: "finishing c s0 (upd_context s0 c g)" for s0 by (rule finishing_context) (simp_all add: g_def)
  have "(b, st') = (if st_cudaWorkUnsafe st1 then (False, st1)
         else if cn_decoder (st_context st1 c) \<and> \<not> destroyed then (False, st1)
         else (True, upd_context (releaseContextPictureIndices st2 c) c g))"
    using assms [symmetric] unfolding destroy_finish_def Let_def st1_def [symmetric] st2_def [symmetric] g_def [symmetric] .
  then consider "st' = st1" | "st' = upd_context (releaseContextPictureIndices st2 c) c g"
    by (auto split: if_splits)
  then show ?thesis
    by cases (use f1 finishing_trans [OF f1 finishing_trans [OF f2 finishing_trans [OF f3 fg]]] in simp_all)
qed

lemma step_destroy_end:
  assumes ok: "world_ok w" and d: "w_destroying w = Some c"
    and fin: "started (w_store w) c \<longrightarrow> w_worker w c = Finished"
  shows "world_ok (destroy_end destroyed c w)"
proof -
  have t: "threads_ok w" using ok by (simp add: world_ok_def)
  have na: "\<not> alive (w_worker w c)"
  proof
    assume "alive (w_worker w c)"
    then show False using fin threads_okD(3) [OF t, of c] unfolding alive_def by blast
  qed
  have calls: "w_call w x = NoCall" for x by (rule threads_okD(7) [OF t d])
  have np: "pstate (w_store w) c \<noteq> NVD_PICTURE_BUILDING" by (rule threads_okD(10) [OF t d])
  obtain b st where f: "destroy_finish destroyed c (w_store w) = (b, st)" by fastforce
  note e = finish_effect [OF f, unfolded finishing_def]
  define w' where "w' = destroy_end destroyed c w"
  have w': "w_call w' = w_call w" "w_worker w' = w_worker w" "w_destroying w' = None"
      "w_queue w' = (if b then (w_queue w)(c := resolveQueueDestroy (w_queue w c)) else w_queue w)"
      "w_store w' = (if b then st\<lparr>st_contextIds := (\<lambda>k. if st_contextIds st k = Some c then None
                                                 else st_contextIds st k)\<rparr> else st)"
    using f by (cases b; simp add: w'_def destroy_end_def)+
  have sb: "same_busy (w_store w) (w_store w')" using e by (auto simp: w' same_busy_def)
  have vp: "videoProc (w_store w') x = videoProc (w_store w) x" "pstate (w_store w') x = pstate (w_store w) x"
    "renderTarget (w_store w') x = renderTarget (w_store w) x" "x \<noteq> c \<Longrightarrow> started (w_store w') x = started (w_store w) x" for x
    using e by (auto simp: w' renderTarget_def)
  have "threads_ok w'"
    unfolding threads_ok_def
  proof (intro allI)
    fix x
    note k = t [unfolded threads_ok_def, rule_format, of x]
    have q: "rq_wf (w_queue w' x)" "rq_exiting (w_queue w' x) = rq_exiting (w_queue w x)"
      using k by (auto simp: w')
    have i: "rq_initialized (w_queue w' x) \<and> started (w_store w') x" if "alive (w_worker w' x)"
      using that k na vp(4) [of x] by (cases "x = c") (auto simp: w')
    show "rq_wf (w_queue w' x) \<and>
          (alive (w_worker w' x) \<longrightarrow> rq_initialized (w_queue w' x) \<and> started (w_store w') x) \<and>
          (w_worker w' x = Finished \<longrightarrow> rq_exiting (w_queue w' x)) \<and>
          (w_worker w' x = NotStarted \<longrightarrow> videoProc (w_store w') x) \<and>
          (\<forall>s job pc v. w_call w' x = EndPushing s job pc v \<longrightarrow>
             \<not> videoProc (w_store w') x \<and> jb_surface job = s) \<and>
          (w_call w' x \<noteq> NoCall \<longrightarrow> x \<in> ran (st_contextIds (w_store w'))) \<and>
          (\<forall>s. w_call w' x = BeginWaiting s \<or> w_call w' x = BeginRunning s \<longrightarrow>
             pstate (w_store w') x = NVD_PICTURE_BUILDING) \<and>
          (w_destroying w' = Some x \<longrightarrow> (\<forall>d. w_call w' d = NoCall) \<and>
             pstate (w_store w') x \<noteq> NVD_PICTURE_BUILDING)"
    proof (intro conjI)
      show "alive (w_worker w' x) \<longrightarrow> rq_initialized (w_queue w' x) \<and> started (w_store w') x" using i by blast
      show "w_worker w' x = Finished \<longrightarrow> rq_exiting (w_queue w' x)"
        unfolding w'(2) q(2) using k by (elim conjE) assumption
      show "w_worker w' x = NotStarted \<longrightarrow> videoProc (w_store w') x"
        unfolding w'(2) vp(1) using k by (elim conjE) assumption
    qed (simp_all add: q(1) w'(1,3) calls)
  qed
  moreover have "images_ok (w_store w')" using ok sb by (auto simp: world_ok_def images_ok_def same_busy_def)
  moreover have "owned w' s" if "busy (w_store w') s" for s
  proof -
    have "owned w s" using ok that sb by (simp add: world_ok_def same_busy_def)
    then consider x where "target_of w x = Some s" | x job where "worker_job w x job" "current_job (w_store w) s job"
      | x where "w_worker w x = Completing s"
      unfolding owned_def call_job_def calls by auto
    then show ?thesis
    proof cases
      case 1
      then have x: "x \<noteq> c" "x \<in> ran (st_contextIds (w_store w))" using np by (auto simp: target_of_def split: if_splits)
      then obtain k where "st_contextIds (w_store w) k = Some x" by (auto simp: ran_def)
      then have "st_contextIds (w_store w') k = Some x" using e x(1) by (simp add: w')
      then have "x \<in> ran (st_contextIds (w_store w'))" by (rule ranI)
      then have "target_of w' x = Some s" using 1 vp w'(1) by (simp add: target_of_def split: if_splits)
      then show ?thesis by (rule ownedI)
    next
      case 2
      have "worker_job w' x job" using 2(1) by (auto simp: worker_job_def w')
      moreover have "current_job (w_store w') s job" using 2(2) sb by (simp add: current_job_def same_busy_def)
      ultimately show ?thesis by (rule ownedI)
    next
      case 3
      then show ?thesis using w'(2) ownedI(4) by metis
    qed
  qed
  ultimately show ?thesis unfolding w'_def world_ok_def by blast
qed

section \<open>Every reachable world\<close>

text \<open>
  The start: no surface is busy, no picture is built, every queue is fresh, and every decode
  context has its resolve thread.
\<close>

definition world_start :: "PictureWorld \<Rightarrow> bool" where
  "world_start w \<longleftrightarrow>
     w_destroying w = None \<and>
     (\<forall>s. \<not> busy (w_store w) s) \<and> (\<forall>img. \<not> st_imageResolving (w_store w) img) \<and>
     (\<forall>c. w_call w c = NoCall \<and> w_queue w c = snd (resolveQueueInit True True True) \<and>
          w_worker w c = (if videoProc (w_store w) c then NotStarted else Starting) \<and>
          started (w_store w) c = (\<not> videoProc (w_store w) c))"

text \<open>A step that does not destroy a context in the middle of a picture.\<close>

definition orderly :: "PictureWorld \<Rightarrow> PictureWorld \<Rightarrow> bool" where
  "orderly w w' \<longleftrightarrow>
     (case w_destroying w' of None \<Rightarrow> True | Some c \<Rightarrow> pstate (w_store w) c \<noteq> NVD_PICTURE_BUILDING)"

inductive picture_reach :: "PictureWorld \<Rightarrow> bool" where
  start: "world_start w \<Longrightarrow> picture_reach w"
| step: "picture_reach w \<Longrightarrow> picture_step w w' \<Longrightarrow> orderly w w' \<Longrightarrow> picture_reach w'"

lemma start_ok: "world_start w \<Longrightarrow> world_ok w"
  by (auto simp: world_start_def world_ok_def threads_ok_def images_ok_def alive_def rq_wf_def resolveQueueInit_def)

lemma destroy_begin_destroying: "w_destroying (destroy_begin c w) = Some c"
  by (simp add: destroy_begin_def Let_def split: prod.splits)

lemma end_enter_context:
  "end_enter ctx st = Inr c \<Longrightarrow> st_contextIds st ctx = Some c \<and> pstate st c = NVD_PICTURE_BUILDING"
  by (auto simp: end_enter_def split: option.splits NVDPictureState.splits)

lemma step_ok: "picture_step w w' \<Longrightarrow> world_ok w \<Longrightarrow> orderly w w' \<Longrightarrow> world_ok w'"
proof (induction rule: picture_step.induct)
  case (begin_error w c ctx target status)
  then show ?case by (intro step_begin(1))
next
  case (begin_wait w c ctx target s)
  then show ?case by (intro step_begin(2))
next
  case (begin_resolved w c s)
  then show ?case by (intro step_begin_resolved)
next
  case (begin_run w c s env status st)
  then show ?case by (intro step_begin_run)
next
  case (render w c ctx env bufs)
  obtain r st where r: "nvRenderPictureImpl env ctx bufs (w_store w) = (r, st)" by fastforce
  show ?case
    by (rule step_render) (use render render_impl_safe [OF _ r] r in \<open>auto intro: ranI\<close>)
next
  case (render_resume w c ctx bufs processed env)
  obtain r st where r: "render_videoproc env c ctx bufs processed (w_store w) = (r, st)" by fastforce
  have t: "threads_ok w" using render_resume by (simp add: world_ok_def)
  show ?case
    by (rule step_render)
      (use render_resume render_videoproc_safe [OF r] r in_call [of w c] threads_okD(8) [OF t, of c] in auto)
next
  case (end_failed w c ctx status st)
  then show ?case by (intro step_end_failed)
next
  case (end_submit w c ctx env)
  then show ?case using end_enter_context [OF end_submit(3)] by (intro step_end_submit) (auto intro: ranI)
next
  case (end_push w c s job pc status clock clock2 timed)
  then show ?case by (intro step_push)
next
  case (end_shared w c s)
  then show ?case by (intro step_end_shared)
next
  case (worker_start w c entered)
  then show ?case by (intro step_worker_start)
next
  case (worker_pop w c synchronized)
  then show ?case by (intro step_worker_pop)
next
  case (worker_check w c job res)
  then show ?case by (intro step_worker_check)
next
  case (worker_complete w c s)
  then show ?case by (intro step_worker_complete)
next
  case (destroy_begin w ctx c)
  then show ?case by (intro step_destroy_begin) (simp_all add: orderly_def destroy_begin_destroying)
next
  case (destroy_end w c destroyed)
  then show ?case by (intro step_destroy_end)
qed

lemma reach_ok: "picture_reach w \<Longrightarrow> world_ok w"
  by (induction rule: picture_reach.induct) (auto intro: start_ok step_ok)


end
