(* ===== verification/PictureIndexInv.thy ===== *)
theory PictureIndexInv
  imports PictureIndex
begin

text \<open>
  Correctness of the picture indices: in every live context an index has one owner and a
  surface one index, an index is only reassigned when its owner is neither a reference nor
  still being resolved, and a waiting assignment always waits for a surface in progress.
\<close>

section \<open>Busy owners\<close>

lemma bit_push_1: "i < 32 \<Longrightarrow> bit (push_bit i 1 :: u32) j \<longleftrightarrow> j = i"
  by (auto simp: bit_simps)

lemma busy_fold:
  assumes "n \<le> 32"
  shows "bit (fold (\<lambda>i mask. case owners ! i of None \<Rightarrow> mask
          | Some s \<Rightarrow> if sf_resolving (st_surface st s) then or mask (push_bit i 1) else mask) [0 ..< n] (0 :: u32)) j \<longleftrightarrow>
      j < n \<and> (case owners ! j of None \<Rightarrow> False | Some s \<Rightarrow> sf_resolving (st_surface st s))"
  using assms
proof (induction n)
  case 0
  then show ?case by simp
next
  case (Suc n)
  then show ?case
    by (cases "owners ! n") (auto simp: bit_or_iff bit_push_1 [unfolded push_bit_of_1] push_bit_of_1 less_Suc_eq split: option.splits)
qed

lemma busy_mask_bit:
  assumes "unat limit \<le> 32"
  shows "bit (busy_mask st owners limit) j \<longleftrightarrow>
    j < unat limit \<and> (\<exists>s. owners ! j = Some s \<and> sf_resolving (st_surface st s))"
  unfolding busy_mask_def using busy_fold [OF assms] by (auto split: option.splits)

section \<open>The invariant\<close>

definition index_table :: "NVStore \<Rightarrow> nat \<Rightarrow> bool" where
  "index_table st c \<longleftrightarrow>
     (let owners = cn_pictureIndexOwners (st_context st c) in
      length owners = 32 \<and>
      (\<forall>i < 32. \<forall>s. owners ! i = Some s \<longrightarrow>
         sf_pictureIdx (st_surface st s) = int i \<and> sf_context (st_surface st s) = Some c) \<and>
      (\<forall>s. sf_context (st_surface st s) = Some c \<longrightarrow>
         sf_contextId (st_surface st s) = cn_id (st_context st c) \<and>
         (sf_pictureIdx (st_surface st s) \<ge> 0 \<longrightarrow> sf_pictureIdx (st_surface st s) < 32 \<and>
            owners ! nat (sf_pictureIdx (st_surface st s)) = Some s)))"

definition usable :: "NVStore \<Rightarrow> nat \<Rightarrow> bool" where
  "usable st c \<longleftrightarrow> contextPointerIsLiveLocked st (Some c) \<and> \<not> cn_destroying (st_context st c) \<and>
     cn_mutexInitialized (st_context st c)"

definition index_tables :: "NVStore \<Rightarrow> bool" where
  "index_tables st \<longleftrightarrow> (\<forall>c. usable st c \<longrightarrow> index_table st c)"

lemma index_table_cong:
  assumes "index_table st c" "\<And>s. st_surface st' s = st_surface st s"
    "cn_pictureIndexOwners (st_context st' c) = cn_pictureIndexOwners (st_context st c)"
    "cn_id (st_context st' c) = cn_id (st_context st c)"
  shows "index_table st' c"
  using assms(1) by (simp add: index_table_def assms(2-4))

lemma index_table_owner:
  "index_table st c \<Longrightarrow> i < 32 \<Longrightarrow> cn_pictureIndexOwners (st_context st c) ! i = Some s \<Longrightarrow>
   sf_pictureIdx (st_surface st s) = int i \<and> sf_context (st_surface st s) = Some c"
  by (simp add: index_table_def Let_def)

lemma index_table_index:
  "index_table st c \<Longrightarrow> sf_context (st_surface st s) = Some c \<Longrightarrow> 0 \<le> sf_pictureIdx (st_surface st s) \<Longrightarrow>
   sf_pictureIdx (st_surface st s) < 32 \<and>
   cn_pictureIndexOwners (st_context st c) ! nat (sf_pictureIdx (st_surface st s)) = Some s"
  by (simp add: index_table_def Let_def)

lemma index_table_length: "index_table st c \<Longrightarrow> length (cn_pictureIndexOwners (st_context st c)) = 32"
  by (simp add: index_table_def Let_def)

lemma index_table_id:
  "index_table st c \<Longrightarrow> sf_context (st_surface st s) = Some c \<Longrightarrow>
   sf_contextId (st_surface st s) = cn_id (st_context st c)"
  by (simp add: index_table_def Let_def)

lemma index_tableI:
  assumes "length (cn_pictureIndexOwners (st_context st c)) = 32"
    "\<And>i s. i < 32 \<Longrightarrow> cn_pictureIndexOwners (st_context st c) ! i = Some s \<Longrightarrow>
       sf_pictureIdx (st_surface st s) = int i \<and> sf_context (st_surface st s) = Some c"
    "\<And>s. sf_context (st_surface st s) = Some c \<Longrightarrow> sf_contextId (st_surface st s) = cn_id (st_context st c)"
    "\<And>s. sf_context (st_surface st s) = Some c \<Longrightarrow> 0 \<le> sf_pictureIdx (st_surface st s) \<Longrightarrow>
       sf_pictureIdx (st_surface st s) < 32 \<and>
       cn_pictureIndexOwners (st_context st c) ! nat (sf_pictureIdx (st_surface st s)) = Some s"
  shows "index_table st c"
  using assms by (simp add: index_table_def Let_def)

section \<open>Taking an index\<close>

text \<open>
  The surface \<open>s\<close> has no index and belongs to no other context; the previous owner of the
  index, if any, has lost it before.
\<close>

definition unowned :: "NVStore \<Rightarrow> nat \<Rightarrow> nat \<Rightarrow> bool" where
  "unowned st c s \<longleftrightarrow> sf_pictureIdx (st_surface st s) = -1 \<and>
     (sf_context (st_surface st s) = None \<or> sf_context (st_surface st s) = Some c)"

definition displace :: "NVStore \<Rightarrow> nat option \<Rightarrow> nat \<Rightarrow> u32 \<Rightarrow> NVStore" where
  "displace st owner s selected =
     (case owner of
        None \<Rightarrow> st
      | Some p \<Rightarrow> if p \<noteq> s then upd_surface st p (\<lambda>sf.
            if sf_pictureIdx sf = int (unat selected) then sf\<lparr>sf_pictureIdx := -1\<rparr> else sf) else st)"

lemma displace_simps [simp]:
  "st_context (displace st owner s k) = st_context st"
  "st_contextIds (displace st owner s k) = st_contextIds st"
  "sf_context (st_surface (displace st owner s k) t) = sf_context (st_surface st t)"
  "sf_contextId (st_surface (displace st owner s k) t) = sf_contextId (st_surface st t)"
  by (auto simp: displace_def split: option.splits)

lemma take_index_tables:
  assumes tables: "index_tables st" and use': "usable st c" "unowned st c s"
    and sel: "unat selected < 32"
    and st1: "st1 = displace st (cn_pictureIndexOwners (st_context st c) ! unat selected) s selected"
  shows "index_tables (take_index st1 c s selected currentId limit)"
  unfolding index_tables_def
proof (intro allI impI)
  let ?st = "take_index st1 c s selected currentId limit"
  fix d
  assume "usable ?st d"
  then have ud: "usable st d"
    by (auto simp: usable_def contextPointerIsLiveLocked_def take_index_def st1 split: if_splits)
  then have T: "index_table st d" using tables by (simp add: index_tables_def)
  have idx: "sf_pictureIdx (st_surface st1 t) =
      (if cn_pictureIndexOwners (st_context st c) ! unat selected = Some t \<and> t \<noteq> s \<and>
          sf_pictureIdx (st_surface st t) = int (unat selected) then -1 else sf_pictureIdx (st_surface st t))" for t
    by (auto simp: st1 displace_def split: option.splits)
  show "index_table ?st d"
  proof (cases "d = c")
    case True
    note Tc = T [unfolded True]
    have new: "st_surface ?st s = (st_surface st1 s)\<lparr>sf_pictureIdx := int (unat selected), sf_context := Some c,
        sf_contextId := cn_id (st_context st c)\<rparr>" "t \<noteq> s \<Longrightarrow> st_surface ?st t = st_surface st1 t" for t
      by (simp_all add: take_index_def st1)
    have ow: "cn_pictureIndexOwners (st_context ?st c) =
        (cn_pictureIndexOwners (st_context st c))[unat selected := Some s]"
      and idc: "cn_id (st_context ?st c) = cn_id (st_context st c)"
      by (simp_all add: take_index_def st1)
    have lost: "sf_pictureIdx (st_surface st1 t) \<noteq> int (unat selected)"
      if "t \<noteq> s" "sf_context (st_surface st t) = Some c" for t
    proof
      assume e: "sf_pictureIdx (st_surface st1 t) = int (unat selected)"
      then have "sf_pictureIdx (st_surface st t) = int (unat selected)" using idx [of t] by (auto split: if_splits)
      with index_table_index [OF Tc that(2)]
      have "cn_pictureIndexOwners (st_context st c) ! unat selected = Some t" by simp
      moreover have "int (unat selected) \<noteq> -1" by linarith
      ultimately show False using e idx [of t] that(1) \<open>sf_pictureIdx (st_surface st t) = int (unat selected)\<close> by simp
    qed
    show ?thesis unfolding True
    proof (rule index_tableI)
      show "length (cn_pictureIndexOwners (st_context ?st c)) = 32" unfolding ow using index_table_length [OF Tc] by simp
    next
      fix i t
      assume i: "i < 32" "cn_pictureIndexOwners (st_context ?st c) ! i = Some t"
      show "sf_pictureIdx (st_surface ?st t) = int i \<and> sf_context (st_surface ?st t) = Some c"
      proof (cases "i = unat selected")
        case True
        then have "t = s" using i index_table_length [OF Tc] by (simp add: ow)
        then show ?thesis using True by (simp add: new(1))
      next
        case False
        then have o: "cn_pictureIndexOwners (st_context st c) ! i = Some t" using i ow by simp
        note O = index_table_owner [OF Tc i(1) o]
        have "t \<noteq> s" using O use'(2) by (auto simp: unowned_def)
        moreover have "int i \<noteq> int (unat selected)" using False by (simp only: of_nat_eq_iff simp_thms)
        ultimately show ?thesis using O idx [of t] False new(2) [of t] by (simp add: st1)
      qed
    next
      fix t
      assume "sf_context (st_surface ?st t) = Some c"
      then show "sf_contextId (st_surface ?st t) = cn_id (st_context ?st c)"
        unfolding idc using index_table_id [OF Tc, of t] new by (cases "t = s") (simp_all add: st1)
    next
      fix t
      assume t: "sf_context (st_surface ?st t) = Some c" "0 \<le> sf_pictureIdx (st_surface ?st t)"
      show "sf_pictureIdx (st_surface ?st t) < 32 \<and>
          cn_pictureIndexOwners (st_context ?st c) ! nat (sf_pictureIdx (st_surface ?st t)) = Some t"
      proof (cases "t = s")
        case True
        moreover have "int (unat selected) < 32" using sel by linarith
        ultimately show ?thesis using sel index_table_length [OF Tc] by (simp add: ow new(1))
      next
        case False
        then have c: "sf_context (st_surface st t) = Some c" and p: "0 \<le> sf_pictureIdx (st_surface st1 t)"
          using t new(2) [OF False] by (simp_all add: st1)
        then have "sf_pictureIdx (st_surface st t) = sf_pictureIdx (st_surface st1 t)" using idx [of t] by (auto split: if_splits)
        moreover have "nat (sf_pictureIdx (st_surface st1 t)) \<noteq> unat selected"
          using lost [OF False c] p by (metis int_nat_eq)
        ultimately show ?thesis
          using index_table_index [OF Tc c] p new(2) [OF False] by (simp add: ow)
      qed
    qed
  next
    case False
    have Tc: "index_table st c" using tables use'(1) by (simp add: index_tables_def)
    have ctx: "st_context ?st d = st_context st d" using False by (simp add: take_index_def st1)
    have own: "sf_context (st_surface st p) = Some c"
      if "cn_pictureIndexOwners (st_context st c) ! unat selected = Some p" for p
      using index_table_owner [OF Tc sel that] by simp
    have other: "sf_context (st_surface ?st t) = Some d \<longleftrightarrow> sf_context (st_surface st t) = Some d" for t
      using False use'(2) by (auto simp: take_index_def st1 unowned_def)
    have same: "st_surface ?st t = st_surface st t" if "sf_context (st_surface st t) = Some d" for t
      using that False use'(2) own [of t]
      by (auto simp: take_index_def st1 displace_def unowned_def split: option.splits)
    show ?thesis
    proof (rule index_tableI, unfold ctx)
      show "length (cn_pictureIndexOwners (st_context st d)) = 32" by (rule index_table_length [OF T])
    next
      fix i t
      assume i: "i < 32" "cn_pictureIndexOwners (st_context st d) ! i = Some t"
      note O = index_table_owner [OF T i]
      then show "sf_pictureIdx (st_surface ?st t) = int i \<and> sf_context (st_surface ?st t) = Some d"
        using same [of t] by simp
    next
      fix t
      assume "sf_context (st_surface ?st t) = Some d"
      then have d: "sf_context (st_surface st t) = Some d" by (simp only: other)
      show "sf_contextId (st_surface ?st t) = cn_id (st_context st d)"
        using index_table_id [OF T d] same [OF d] by simp
      assume "0 \<le> sf_pictureIdx (st_surface ?st t)"
      then show "sf_pictureIdx (st_surface ?st t) < 32 \<and>
          cn_pictureIndexOwners (st_context st d) ! nat (sf_pictureIdx (st_surface ?st t)) = Some t"
        using index_table_index [OF T d] same [OF d] by simp
    qed
  qed
qed

section \<open>The steps of the driver\<close>

lemma assign_accept:
  assumes "assignSurfacePictureIndex st c s limit = Return (idx, st')" "unowned st c s"
  shows "st' = st \<and> idx = -1 \<or>
    (\<exists>selected currentId.
       nvdSelectPictureIndex (cn_currentPictureId (st_context st c)) limit (cn_activeReferenceMask (st_context st c))
         (busy_mask st (cn_pictureIndexOwners (st_context st c)) limit)
         (cn_pictureIndexRecycleCursor (st_context st c)) = Some selected \<and>
       idx = int (unat selected) \<and> \<not> bad_assignment st c limit \<and>
       st' = take_index (displace st (cn_pictureIndexOwners (st_context st c) ! unat selected) s selected)
               c s selected currentId limit)"
proof -
  have no: "\<not> has_index st c s limit" using assms(2) by (simp add: has_index_def unowned_def Let_def)
  show ?thesis
  proof (cases "bad_assignment st c limit")
    case True
    then show ?thesis using assms(1) by (simp add: assignSurfacePictureIndex_def Let_def)
  next
    case False
    note run = assms(1) [unfolded assignSurfacePictureIndex_def Let_def if_not_P [OF False] if_not_P [OF no]]
    show ?thesis
    proof (cases "nvdSelectPictureIndex (cn_currentPictureId (st_context st c)) limit
        (cn_activeReferenceMask (st_context st c)) (busy_mask st (cn_pictureIndexOwners (st_context st c)) limit)
        (cn_pictureIndexRecycleCursor (st_context st c))")
      case None
      then show ?thesis using run by (auto split: option.splits if_splits)
    next
      case (Some selected)
      then show ?thesis using run False unfolding displace_def by auto
    qed
  qed
qed

lemma free_index_from_spec:
  "free_index_from owners cursor limit offs = Some k \<Longrightarrow> owners ! unat k = None \<and> (\<exists>off. k = (cursor + off) mod limit)"
  by (induction offs) (auto simp: Let_def split: if_splits)

lemma assignAV1_accept:
  assumes "assignAV1SurfacePictureIndex st c s limit = (idx, st')" "unowned st c s"
  shows "st' = st \<and> idx = -1 \<or>
    (\<exists>selected currentId. idx = int (unat selected) \<and> selected < limit \<and> \<not> bad_assignment st c limit \<and>
       cn_pictureIndexOwners (st_context st c) ! unat selected = None \<and>
       st' = take_index st c s selected currentId limit)"
proof -
  have no: "\<not> has_index st c s limit" using assms(2) by (simp add: has_index_def unowned_def Let_def)
  show ?thesis
  proof (cases "bad_assignment st c limit")
    case True
    then show ?thesis using assms(1) by (simp add: assignAV1SurfacePictureIndex_def Let_def)
  next
    case False
    then have l: "0 < limit" by (simp add: bad_assignment_def word_gt_0)
    note run = assms(1) [unfolded assignAV1SurfacePictureIndex_def Let_def if_not_P [OF False] if_not_P [OF no]]
    show ?thesis
    proof (cases "free_index_from (cn_pictureIndexOwners (st_context st c))
        (cn_pictureIndexRecycleCursor (st_context st c)) limit (map of_nat [0 ..< unat limit])")
      case None
      then show ?thesis using run by simp
    next
      case (Some selected)
      from free_index_from_spec [OF Some] l
      have "selected < limit" "cn_pictureIndexOwners (st_context st c) ! unat selected = None"
        by (auto simp: word_mod_less_divisor)
      then show ?thesis using run Some False by auto
    qed
  qed
qed

text \<open>
  The client and the driver change the indices in these ways: an assignment to a surface
  without index that is free or already of this context, the detachment of a surface, the
  teardown of a context whose surfaces all have identifiers, and the lookup of a reference.
\<close>

inductive index_step :: "NVStore \<Rightarrow> NVStore \<Rightarrow> bool" where
  assign: "usable st c \<Longrightarrow> unowned st c s \<Longrightarrow>
     assignSurfacePictureIndex st c s limit = Return (idx, st') \<Longrightarrow> index_step st st'"
| assign_av1: "usable st c \<Longrightarrow> unowned st c s \<Longrightarrow>
     assignAV1SurfacePictureIndex st c s limit = (idx, st') \<Longrightarrow> index_step st st'"
| release: "index_step st (releaseSurfacePictureIndex st (Some s))"
| destroying: "index_step st (markContextDestroying st c)"
| release_context: "(\<And>s. sf_context (st_surface st s) = Some c \<Longrightarrow> s \<in> ran (st_surfaceIds st)) \<Longrightarrow>
     index_step st (releaseContextPictureIndices st c)"
| lookup: "pictureIdxFromSurfaceId (Some c) surfId st = (idx, st') \<Longrightarrow> index_step st st'"

lemma release_tables:
  assumes tables: "index_tables st"
  shows "index_tables (releaseSurfacePictureIndex st (Some s))"
  unfolding index_tables_def
proof (intro allI impI)
  let ?st = "releaseSurfacePictureIndex st (Some s)"
  let ?sf = "st_surface st s"
  fix d
  assume ud: "usable ?st d"
  have ids: "st_contextIds ?st = st_contextIds st"
    by (auto simp: releaseSurfacePictureIndex_def Let_def split: option.splits)
  have cn: "cn_id (st_context ?st e) = cn_id (st_context st e) \<and>
      cn_destroying (st_context ?st e) = cn_destroying (st_context st e) \<and>
      cn_mutexInitialized (st_context ?st e) = cn_mutexInitialized (st_context st e)" for e
    by (auto simp: releaseSurfacePictureIndex_def Let_def split: option.splits)
  have u: "usable st d" using ud by (simp add: usable_def contextPointerIsLiveLocked_def ids cn)
  then have T: "index_table st d" using tables by (simp add: index_tables_def)
  have other: "t \<noteq> s \<Longrightarrow> st_surface ?st t = st_surface st t" for t
    by (auto simp: releaseSurfacePictureIndex_def Let_def split: option.splits)
  have gone: "sf_context (st_surface ?st s) = None"
    by (auto simp: releaseSurfacePictureIndex_def Let_def detach_surface_def split: option.splits)
  have own: "cn_pictureIndexOwners (st_context ?st d) =
      (if sf_context ?sf = Some d \<and> 0 \<le> sf_pictureIdx ?sf
       then (cn_pictureIndexOwners (st_context st d))[nat (sf_pictureIdx ?sf) := None]
       else cn_pictureIndexOwners (st_context st d))"
  proof (cases "sf_context ?sf = Some d")
    case True
    have "\<not> (\<not> contextPointerIsLiveLocked st (Some d) \<or> cn_id (st_context st d) \<noteq> sf_contextId ?sf \<or>
        cn_destroying (st_context st d) \<or> \<not> cn_mutexInitialized (st_context st d))"
      using u index_table_id [OF T True] by (simp add: usable_def)
    then show ?thesis
      using True index_table_index [OF T True] by (auto simp: releaseSurfacePictureIndex_def Let_def)
  next
    case False
    then show ?thesis by (auto simp: releaseSurfacePictureIndex_def Let_def split: option.splits)
  qed
  show "index_table ?st d"
  proof (rule index_tableI)
    show "length (cn_pictureIndexOwners (st_context ?st d)) = 32" using index_table_length [OF T] by (simp add: own)
  next
    fix i t
    assume i: "i < 32" "cn_pictureIndexOwners (st_context ?st d) ! i = Some t"
    have o: "cn_pictureIndexOwners (st_context st d) ! i = Some t"
      and n: "\<not> (sf_context ?sf = Some d \<and> 0 \<le> sf_pictureIdx ?sf \<and> i = nat (sf_pictureIdx ?sf))"
    proof -
      show n: "\<not> (sf_context ?sf = Some d \<and> 0 \<le> sf_pictureIdx ?sf \<and> i = nat (sf_pictureIdx ?sf))"
      proof
        assume e: "sf_context ?sf = Some d \<and> 0 \<le> sf_pictureIdx ?sf \<and> i = nat (sf_pictureIdx ?sf)"
        then have "cn_pictureIndexOwners (st_context ?st d) ! i = None"
          using i(1) index_table_length [OF T] by (simp add: own)
        then show False using i(2) by simp
      qed
      show "cn_pictureIndexOwners (st_context st d) ! i = Some t" using i n by (auto simp: own split: if_splits)
    qed
    note O = index_table_owner [OF T i(1) o]
    have "t \<noteq> s" using O n by auto
    then show "sf_pictureIdx (st_surface ?st t) = int i \<and> sf_context (st_surface ?st t) = Some d"
      using O other by simp
  next
    fix t
    assume t: "sf_context (st_surface ?st t) = Some d"
    then have ne: "t \<noteq> s" using gone by auto
    then have c: "sf_context (st_surface st t) = Some d" using t other by simp
    show "sf_contextId (st_surface ?st t) = cn_id (st_context ?st d)"
      using index_table_id [OF T c] other [OF ne] cn by simp
    assume p: "0 \<le> sf_pictureIdx (st_surface ?st t)"
    then have "0 \<le> sf_pictureIdx (st_surface st t)" using other [OF ne] by simp
    note I = index_table_index [OF T c this]
    have "nat (sf_pictureIdx (st_surface st t)) \<noteq> nat (sf_pictureIdx ?sf)"
      if "sf_context ?sf = Some d" "0 \<le> sf_pictureIdx ?sf"
      using I index_table_index [OF T that] ne by auto
    then show "sf_pictureIdx (st_surface ?st t) < 32 \<and>
        cn_pictureIndexOwners (st_context ?st d) ! nat (sf_pictureIdx (st_surface ?st t)) = Some t"
      using I other [OF ne] by (auto simp: own)
  qed
qed

lemma release_context_tables:
  assumes tables: "index_tables st" and ids: "\<And>s. sf_context (st_surface st s) = Some c \<Longrightarrow> s \<in> ran (st_surfaceIds st)"
  shows "index_tables (releaseContextPictureIndices st c)"
proof (cases "cn_mutexInitialized (st_context st c)")
  case False
  then show ?thesis using tables by (simp add: releaseContextPictureIndices_def)
next
  case True
  let ?st = "releaseContextPictureIndices st c"
  have sf: "st_surface ?st s = (if s \<in> ran (st_surfaceIds st) then detach_surface c (st_surface st s) else st_surface st s)" for s
    using True by (simp add: releaseContextPictureIndices_def)
  have none: "sf_context (st_surface ?st s) \<noteq> Some c" for s
    using ids [of s] by (auto simp: sf detach_surface_def)
  have other: "sf_context (st_surface ?st s) = Some d \<longleftrightarrow> sf_context (st_surface st s) = Some d" if "d \<noteq> c" for s d
    using that by (auto simp: sf detach_surface_def)
  have same: "st_surface ?st s = st_surface st s" if "sf_context (st_surface st s) = Some d" "d \<noteq> c" for s d
    using that by (auto simp: sf detach_surface_def)
  show ?thesis unfolding index_tables_def
  proof (intro allI impI)
    fix d
    assume ud: "usable ?st d"
    show "index_table ?st d"
    proof (cases "d = c")
      case True
      then show ?thesis using none \<open>cn_mutexInitialized (st_context st c)\<close>
        by (auto simp: index_table_def releaseContextPictureIndices_def Let_def)
    next
      case False
      have cn: "st_context ?st d = st_context st d" using False True by (simp add: releaseContextPictureIndices_def)
      have "usable st d" using ud True False
        by (simp add: usable_def contextPointerIsLiveLocked_def releaseContextPictureIndices_def)
      then have T: "index_table st d" using tables by (simp add: index_tables_def)
      show ?thesis
      proof (rule index_tableI, unfold cn)
        show "length (cn_pictureIndexOwners (st_context st d)) = 32" by (rule index_table_length [OF T])
      next
        fix i t
        assume i: "i < 32" "cn_pictureIndexOwners (st_context st d) ! i = Some t"
        note O = index_table_owner [OF T i]
        then show "sf_pictureIdx (st_surface ?st t) = int i \<and> sf_context (st_surface ?st t) = Some d"
          using same [of t d] False by simp
      next
        fix t
        assume "sf_context (st_surface ?st t) = Some d"
        then have d: "sf_context (st_surface st t) = Some d" using other [OF False] by simp
        show "sf_contextId (st_surface ?st t) = cn_id (st_context st d)"
          using index_table_id [OF T d] same [OF d False] by simp
        assume "0 \<le> sf_pictureIdx (st_surface ?st t)"
        then show "sf_pictureIdx (st_surface ?st t) < 32 \<and>
            cn_pictureIndexOwners (st_context st d) ! nat (sf_pictureIdx (st_surface ?st t)) = Some t"
          using index_table_index [OF T d] same [OF d False] by simp
      qed
    qed
  qed
qed

lemma context_flag_tables:
  assumes tables: "index_tables st" and st': "\<And>s. st_surface st' s = st_surface st s" "st_contextIds st' = st_contextIds st"
    "\<And>d. cn_pictureIndexOwners (st_context st' d) = cn_pictureIndexOwners (st_context st d) \<and>
       cn_id (st_context st' d) = cn_id (st_context st d) \<and>
       (cn_destroying (st_context st d) \<longrightarrow> cn_destroying (st_context st' d)) \<and>
       cn_mutexInitialized (st_context st' d) = cn_mutexInitialized (st_context st d)"
  shows "index_tables st'"
  unfolding index_tables_def
proof (intro allI impI)
  fix d
  assume "usable st' d"
  then have "usable st d" using st'(2,3) by (auto simp: usable_def contextPointerIsLiveLocked_def)
  then have "index_table st d" using tables by (simp add: index_tables_def)
  then show "index_table st' d" by (rule index_table_cong) (use st' in auto)
qed

lemma lookup_store:
  assumes "pictureIdxFromSurfaceId (Some c) surfId st = (idx, st')"
  shows "st' = st \<or> st' = upd_context st c (\<lambda>cn. cn\<lparr>cn_buildingReferenceMask :=
    or (cn_buildingReferenceMask cn) (push_bit (nat idx) 1)\<rparr>)"
  using assms by (auto simp: pictureIdxFromSurfaceId_def Let_def split: if_splits option.splits)

lemma good_limit:
  assumes "\<not> bad_assignment st c limit"
  shows "0 < limit" "limit \<le> 32" "unat limit \<le> 32"
proof -
  show "0 < limit" "limit \<le> 32" using assms by (auto simp: bad_assignment_def word_gt_0)
  then show "unat limit \<le> 32" by (simp add: word_le_nat_alt)
qed

lemma selected_below:
  assumes "nvdSelectPictureIndex n limit active busy cursor = Some k" "\<not> bad_assignment st c limit"
  shows "unat k < unat limit" "unat limit \<le> 32"
proof -
  have l: "0 < limit" "limit \<le> 32" using assms(2) by (auto simp: bad_assignment_def word_gt_0)
  show "unat k < unat limit"
    using nvdSelectPictureIndex_spec [OF l refl refl refl, of n active busy cursor] assms(1) by simp
  show "unat limit \<le> 32" using l(2) by (simp add: word_le_nat_alt)
qed

lemma index_step_tables:
  assumes "index_step st st'" "index_tables st"
  shows "index_tables st'"
  using assms
proof (induction rule: index_step.induct)
  case (assign st c s limit idx st')
  from assign_accept [OF assign(3,2)] show ?case
  proof (elim disjE exE conjE)
    fix k cid
    assume k: "nvdSelectPictureIndex (cn_currentPictureId (st_context st c)) limit
        (cn_activeReferenceMask (st_context st c)) (busy_mask st (cn_pictureIndexOwners (st_context st c)) limit)
        (cn_pictureIndexRecycleCursor (st_context st c)) = Some k"
      and b: "\<not> bad_assignment st c limit"
      and st': "st' = take_index (displace st (cn_pictureIndexOwners (st_context st c) ! unat k) s k) c s k cid limit"
    show ?case unfolding st'
      by (rule take_index_tables [OF assign.prems assign(1,2) _ refl]) (use selected_below [OF k b] in simp)
  qed (use assign.prems in simp)
next
  case (assign_av1 st c s limit idx st')
  from assignAV1_accept [OF assign_av1(3,2)] show ?case
  proof (elim disjE exE conjE)
    fix k cid
    assume k: "k < limit" "cn_pictureIndexOwners (st_context st c) ! unat k = None"
      and b: "\<not> bad_assignment st c limit" and st': "st' = take_index st c s k cid limit"
    have "unat k < 32" using k(1) b by (auto simp: bad_assignment_def word_less_nat_alt)
    moreover have "st = displace st (cn_pictureIndexOwners (st_context st c) ! unat k) s k"
      by (simp add: displace_def k(2))
    ultimately show ?case unfolding st' by (rule take_index_tables [OF assign_av1.prems assign_av1(1,2)])
  qed (use assign_av1.prems in simp)
next
  case (release st s)
  then show ?case by (rule release_tables)
next
  case (destroying st c)
  then show ?case by (rule context_flag_tables) (simp_all add: markContextDestroying_def)
next
  case (release_context st c)
  then show ?case by (intro release_context_tables)
next
  case (lookup c surfId st idx st')
  from lookup_store [OF lookup(1)] show ?case
  proof
    assume e: "st' = upd_context st c (\<lambda>cn. cn\<lparr>cn_buildingReferenceMask :=
      or (cn_buildingReferenceMask cn) (push_bit (nat idx) 1)\<rparr>)"
    show ?thesis unfolding e by (rule context_flag_tables [OF lookup(2)]) simp_all
  qed (use lookup in simp)
qed

lemma index_steps_tables: "index_step\<^sup>*\<^sup>* st st' \<Longrightarrow> index_tables st \<Longrightarrow> index_tables st'"
  by (induction rule: rtranclp_induct) (auto intro: index_step_tables)


text \<open>
  Once the pool is handed out, an assignment takes an index below the limit that no reference
  picture uses and whose previous owner, which loses it, is not being resolved; the surface
  then owns it. If the assignment has to wait, some surface whose index is not a reference is
  being resolved, so the wait is for a job in progress.
\<close>

theorem picture_index_reuse:
  assumes un: "unowned st c s" and full: "limit \<le> cn_currentPictureId (st_context st c)"
    and len: "length (cn_pictureIndexOwners (st_context st c)) = 32"
  shows "(case assignSurfacePictureIndex st c s limit of
      Wait \<Rightarrow> \<exists>i < unat limit. \<exists>w. cn_pictureIndexOwners (st_context st c) ! i = Some w \<and>
                sf_resolving (st_surface st w) \<and> \<not> bit (cn_activeReferenceMask (st_context st c)) i
    | Return (idx, st') \<Rightarrow> idx = -1 \<and> st' = st \<or>
        0 \<le> idx \<and> idx < int (unat limit) \<and> \<not> bit (cn_activeReferenceMask (st_context st c)) (nat idx) \<and>
        (\<forall>p. cn_pictureIndexOwners (st_context st c) ! nat idx = Some p \<longrightarrow>
           \<not> sf_resolving (st_surface st p) \<and> (p \<noteq> s \<longrightarrow> sf_pictureIdx (st_surface st' p) \<noteq> idx)) \<and>
        sf_pictureIdx (st_surface st' s) = idx \<and> sf_context (st_surface st' s) = Some c \<and>
        cn_pictureIndexOwners (st_context st' c) ! nat idx = Some s)"
proof -
  let ?cn = "st_context st c" let ?owners = "cn_pictureIndexOwners ?cn"
  let ?sel = "\<lambda>busy. nvdSelectPictureIndex (cn_currentPictureId ?cn) limit (cn_activeReferenceMask ?cn) busy
      (cn_pictureIndexRecycleCursor ?cn)"
  let ?busy = "busy_mask st ?owners limit"
  have no: "\<not> has_index st c s limit" using un by (simp add: has_index_def unowned_def Let_def)
  have nfull: "\<not> cn_currentPictureId ?cn < limit" using full by simp
  show ?thesis
  proof (cases "assignSurfacePictureIndex st c s limit")
    case Wait
    have ok: "\<not> bad_assignment st c limit" using Wait by (auto simp: assignSurfacePictureIndex_def Let_def split: if_splits)
    note l = good_limit [OF ok]
    note spec = nvdSelectPictureIndex_spec [OF l(1,2) refl refl refl, of "cn_currentPictureId ?cn"
        "cn_activeReferenceMask ?cn" _ "cn_pictureIndexRecycleCursor ?cn"]
    note run = Wait [unfolded assignSurfacePictureIndex_def Let_def if_not_P [OF ok] if_not_P [OF no]]
    have none: "?sel ?busy = None" using run by (auto split: option.splits)
    obtain k where k: "?sel 0 = Some k" using run none by (auto split: option.splits)
    have kl: "unat k < unat limit" "\<not> bit (cn_activeReferenceMask ?cn) (unat k)"
      using spec [of 0] k nfull by auto
    have "bit ?busy (unat k)" using spec [of ?busy] none kl by auto
    then show ?thesis using Wait kl unfolding busy_mask_bit [OF l(3)] by auto
  next
    case (Return x)
    obtain idx st' where x: "x = (idx, st')" by (cases x)
    from assign_accept [OF Return [unfolded x] un]
    consider "st' = st \<and> idx = -1"
      | (took) k cid where "?sel ?busy = Some k" "idx = int (unat k)" "\<not> bad_assignment st c limit"
        "st' = take_index (displace st (?owners ! unat k) s k) c s k cid limit" by auto
    then show ?thesis
    proof cases
      case 1
      then show ?thesis by (simp add: Return x)
    next
      case took
      note l = good_limit [OF took(3)]
      note spec = nvdSelectPictureIndex_spec [OF l(1,2) refl refl refl, of "cn_currentPictureId ?cn"
          "cn_activeReferenceMask ?cn" ?busy "cn_pictureIndexRecycleCursor ?cn"]
      have kl: "unat k < unat limit" "\<not> bit (cn_activeReferenceMask ?cn) (unat k)" "\<not> bit ?busy (unat k)"
        using spec took(1) nfull by auto
      have n: "nat idx = unat k" using took(2) by simp
      have "int (unat k) < int (unat limit)" using kl(1) by linarith
      moreover have "\<not> sf_resolving (st_surface st p)" if "?owners ! unat k = Some p" for p
        using kl that unfolding busy_mask_bit [OF l(3)] by auto
      moreover have "sf_pictureIdx (st_surface st' p) \<noteq> int (unat k)" if "?owners ! unat k = Some p" "p \<noteq> s" for p
      proof -
        have "int (unat k) \<noteq> -1" by linarith
        then show ?thesis using that took(4) by (auto simp: take_index_def displace_def)
      qed
      moreover have "sf_pictureIdx (st_surface st' s) = int (unat k)" "sf_context (st_surface st' s) = Some c"
        "cn_pictureIndexOwners (st_context st' c) ! unat k = Some s"
        using took(4) kl(1) l(3) len by (simp_all add: take_index_def) 
      ultimately show ?thesis using kl(2) unfolding Return x n attempt.case prod.case took(2) by simp
    qed
  qed
qed

section \<open>An example\<close>

text \<open>
  One context with a decoder of two indices, owned by the surfaces 0 and 1; the index of
  surface 0 is a reference.
\<close>

definition surface_example :: "nat \<Rightarrow> NVSurface" where
  "surface_example s =
     \<lparr>sf_width = 64, sf_height = 64, sf_pictureIdx = (if s < 2 then int s else -1), sf_context = (if s < 2 then Some 0 else None),
      sf_contextId = (if s < 2 then 5 else VA_INVALID_ID), sf_resolving = False,
      sf_submittedGeneration = 0, sf_completedGeneration = 0, sf_completionStatus = VA_STATUS_SUCCESS,
      sf_decodeFailed = False, sf_exported = False, sf_external = False, sf_syncImage = None,
      sf_format = (0, 1, 8), sf_progressiveFrame = True, sf_topFieldFirst = True, sf_secondField = 0,
      sf_color = \<lparr>cm_colorStandard = VAProcColorStandardNone, cm_colorRangeFull = False\<rparr>\<rparr>"

definition codec_example :: pic_codec where
  "codec_example =
     \<lparr>pk_bitstreamBuffer = ab_empty, pk_sliceOffsets = ab_empty, pk_lastSliceParams = False,
      pk_lastSliceParamsCount = 0, pk_inputValidationFailed = False, pk_bitstreamDataOffset = 0,
      pk_displayTarget = None, pk_TileOffsetsSeen = 0, pk_nNumSlices = 0, pk_CurrPicIdx = 0,
      pk_bottom_field_flag = 0, pk_second_field = 0\<rparr>"

definition context_example :: NVContext where
  "context_example =
     \<lparr>cn_id = 5, cn_profile = VAProfileH264Main, cn_videoProc = False,
      cn_width = 64, cn_height = 64, cn_cudaCodec = cudaVideoCodec_H264,
      cn_destroying = False, cn_mutexInitialized = True, cn_decoder = True, cn_decoderFormat = (0, 1, 8),
      cn_surfaceCount = 2, cn_clientRenderTargetCount = 2, cn_decodeSurfaceReferenceHint = 0,
      cn_hostBufferUnderuseFrames = 0, cn_resolveThreadStarted = True, cn_currentPictureId = 2,
      cn_pictureIndexOwners = [Some 0, Some 1] @ replicate 30 None, cn_activeReferenceMask = 1,
      cn_buildingReferenceMask = 0, cn_pictureIndexRecycleCursor = 0, cn_renderTarget = None,
      cn_pictureState = NVD_PICTURE_IDLE, cn_pictureFailure = VA_STATUS_SUCCESS, cn_codec = codec_example,
      cn_sliceParamsBuffer = ab_empty\<rparr>"

definition store_example :: NVStore where
  "store_example =
     \<lparr>st_surface = surface_example, st_context = (\<lambda>_. context_example),
      st_surfaceIds = (\<lambda>k. if k < 3 then Some (unat k) else None),
      st_contextIds = (\<lambda>k. if k = 5 then Some 0 else None), st_imageResolving = (\<lambda>_. False),
      st_cudaWorkUnsafe = False, st_decodeSurfacesMaximum = 32, st_decodeSurfacesMinimum = 1,
      st_decodeSurfacesAuto = True, st_decodeSurfacesOverride = 0, st_hostBufferTrimThresholdBytes = 0,
      st_hostBufferTrimFrames = 0\<rparr>"

lemma store_example_tables: "index_tables store_example"
proof -
  have o: "cn_pictureIndexOwners context_example ! i = (if i < 2 then Some i else None)" if "i < 32" for i
    using that by (auto simp: context_example_def nth_append nth_Cons' less_2_cases_iff)
  have "index_table store_example 0"
  proof (rule index_tableI)
    show "length (cn_pictureIndexOwners (st_context store_example 0)) = 32"
      by (simp add: store_example_def context_example_def)
  next
    fix i s
    assume "i < 32" "cn_pictureIndexOwners (st_context store_example 0) ! i = Some s"
    then show "sf_pictureIdx (st_surface store_example s) = int i \<and> sf_context (st_surface store_example s) = Some 0"
      using o [of i] by (auto simp: store_example_def surface_example_def split: if_splits)
  next
    fix s
    assume "sf_context (st_surface store_example s) = Some 0"
    then have "s < 2" by (simp add: store_example_def surface_example_def split: if_splits)
    then show "sf_contextId (st_surface store_example s) = cn_id (st_context store_example 0)"
      "sf_pictureIdx (st_surface store_example s) < 32 \<and>
        cn_pictureIndexOwners (st_context store_example 0) ! nat (sf_pictureIdx (st_surface store_example s)) = Some s"
      using o [of s] by (auto simp: store_example_def surface_example_def context_example_def)
  qed
  then show ?thesis
    by (auto simp: index_tables_def usable_def contextPointerIsLiveLocked_def store_example_def split: if_splits)
qed


lemma picture_index_reuse_witness: "assignSurfacePictureIndex store_example 0 2 2 \<noteq> Wait"
proof -
  have h: "unowned store_example 0 2" "2 \<le> cn_currentPictureId (st_context store_example 0)"
    "length (cn_pictureIndexOwners (st_context store_example 0)) = 32"
    by (simp_all add: unowned_def store_example_def surface_example_def context_example_def)
  have "\<not> sf_resolving (st_surface store_example w)" for w
    by (simp add: store_example_def surface_example_def)
  then show ?thesis
    using picture_index_reuse [OF h] by (cases "assignSurfacePictureIndex store_example 0 2 2") auto
qed

end
