(* ===== verification/PictureLive.thy ===== *)
theory PictureLive
  imports PictureInv PictureIndexInv
begin

text \<open>
  The resolve thread of a context completes every surface that it has a current job for, whatever
  CUDA answers, in a bounded number of its own steps and without ever blocking
  (\<open>resolveSurfaces\<close> of \<open>src/vabackend.c\<close>); and what the destruction of a context in the
  middle of a picture does to the surface of that picture.
\<close>

section \<open>Runs of one resolve thread\<close>

inductive thread_step :: "nat \<Rightarrow> PictureWorld \<Rightarrow> PictureWorld \<Rightarrow> bool" for c where
  start: "w_worker w c = Starting \<Longrightarrow> thread_step c w (worker_start entered c w)"
| pop: "w_worker w c = Popping \<Longrightarrow> thread_step c w (try_pop synchronized c w)"
| check: "w_worker w c = Resolving job \<Longrightarrow> thread_step c w (worker_check res c job w)"
| complete: "w_worker w c = Completing s \<Longrightarrow>
    thread_step c w (at_worker c Popping (setSurfaceResolving (w_store w) (Some s) False) w)"

inductive_cases thread_stepE: "thread_step c w w'"

lemma thread_step_picture: "thread_step c w w' \<Longrightarrow> picture_step w w'"
  by (induction rule: thread_step.induct) (auto intro: picture_step.intros)

text \<open>
  On every run of the thread, the surface stops being busy after at most \<open>n\<close> steps, and until
  then the thread can go on.
\<close>

fun completes_within :: "nat \<Rightarrow> nat \<Rightarrow> nat \<Rightarrow> PictureWorld \<Rightarrow> bool" where
  "completes_within c s 0 w = (\<not> busy (w_store w) s)"
| "completes_within c s (Suc n) w =
     (\<not> busy (w_store w) s \<or>
      ((\<exists>w'. thread_step c w w') \<and> (\<forall>w'. thread_step c w w' \<longrightarrow> completes_within c s n w')))"

lemma completes_Suc: "completes_within c s n w \<Longrightarrow> completes_within c s (Suc n) w"
  by (induction n arbitrary: w) auto

lemma completes_mono: "completes_within c s n w \<Longrightarrow> n \<le> m \<Longrightarrow> completes_within c s m w"
  by (induction m) (auto simp: le_Suc_eq simp del: completes_within.simps intro: completes_Suc)

lemma completes_idle: "\<not> busy (w_store w) s \<Longrightarrow> completes_within c s n w"
  by (cases n) simp_all

lemma completes_next:
  assumes "thread_step c w w0" "\<And>w'. thread_step c w w' \<Longrightarrow> completes_within c s n w'"
  shows "completes_within c s (Suc n) w"
  using assms by auto

declare completes_within.simps(2) [simp del]

section \<open>The way of a job\<close>

definition queued :: "PictureWorld \<Rightarrow> nat \<Rightarrow> nat \<Rightarrow> nat \<Rightarrow> bool" where
  "queued w c i s \<longleftrightarrow> rq_wf (w_queue w c) \<and> rq_initialized (w_queue w c) \<and> i < length (rq_list (w_queue w c)) \<and>
     (\<exists>job. rq_list (w_queue w c) ! i = Some job \<and> current_job (w_store w) s job)"

lemma completing_done:
  assumes "w_worker w c = Completing s"
  shows "completes_within c s 1 w"
proof -
  have "thread_step c w w' \<Longrightarrow> \<not> busy (w_store w') s" for w'
    using assms by (elim thread_stepE) simp_all
  moreover have "\<exists>w'. thread_step c w w'" using thread_step.complete [of w c s] assms by blast
  ultimately show ?thesis by (simp add: completes_within.simps(2))
qed

lemma resolving_done:
  assumes n: "w_worker w c = Resolving job" and cur: "current_job (w_store w) s job"
  shows "completes_within c s 2 w"
proof -
  have "completes_within c s 1 w'" if "thread_step c w w'" for w'
  proof -
    from that obtain res where w': "w' = worker_check res c job w"
      using n by (elim thread_stepE) simp_all
    obtain b st where r: "resolve_check res job (w_store w) = (b, st)" by fastforce
    have "b" using check_effect [OF r] cur calm_busy(2) by (simp add: current_job_def)
    then have "w_worker w' c = Completing s"
      using cur by (simp add: w' worker_check_def r current_job_def)
    then show ?thesis by (rule completing_done)
  qed
  with completes_next [OF thread_step.check [OF n], where n = 1] show ?thesis
    by (simp add: numeral_2_eq_2 del: completes_within.simps)
qed

lemma queued_same:
  assumes "queued w c i s" "w_queue w' c = w_queue w c" "gen (w_store w') s = gen (w_store w) s"
  shows "queued w' c i s"
  using assms by (simp add: queued_def current_job_def)

text \<open>What the first step does to a job further back in the queue.\<close>

lemma busy_thread_step:
  assumes q: "queued w c i s" and st: "thread_step c w w'"
  shows "(\<exists>j. w_worker w c = Resolving j) \<Longrightarrow> queued w' c i s \<and> (w_worker w' c = Popping \<or> (\<exists>t. w_worker w' c = Completing t))"
    "w_worker w c = Completing t \<Longrightarrow> queued w' c i s \<and> w_worker w' c = Popping"
    "w_worker w c = Starting \<Longrightarrow> busy (w_store w') s \<Longrightarrow> queued w' c i s \<and> w_worker w' c = Popping"
proof -
  show "queued w' c i s \<and> (w_worker w' c = Popping \<or> (\<exists>t. w_worker w' c = Completing t))"
    if n: "\<exists>j. w_worker w c = Resolving j"
  proof -
    from n obtain job where job: "w_worker w c = Resolving job" by blast
    with st obtain res where w': "w' = worker_check res c job w" by (elim thread_stepE) simp_all
    obtain b st' where r: "resolve_check res job (w_store w) = (b, st')" by fastforce
    have g: "gen st' s = gen (w_store w) s" using check_effect [OF r] calm_busy(2) by blast
    have "queued w' c i s" by (rule queued_same [OF q]) (simp_all add: w' worker_check_def r g)
    then show ?thesis by (simp add: w' worker_check_def r)
  qed
next
  assume n: "w_worker w c = Completing t"
  with st have w': "w' = at_worker c Popping (setSurfaceResolving (w_store w) (Some t) False) w"
    by (elim thread_stepE) simp_all
  have "queued w' c i s" by (rule queued_same [OF q]) (simp_all add: w')
  then show "queued w' c i s \<and> w_worker w' c = Popping" by (simp add: w')
next
  assume n: "w_worker w c = Starting" and b: "busy (w_store w') s"
  with st obtain entered where w': "w' = worker_start entered c w" by (elim thread_stepE) simp_all
  show "queued w' c i s \<and> w_worker w' c = Popping"
  proof (cases entered)
    case True
    have "queued w' c i s" by (rule queued_same [OF q]) (simp_all add: w' worker_start_def True)
    then show ?thesis by (simp add: w' worker_start_def True)
  next
    case False
    have wf: "rq_wf (w_queue w c)" "rq_initialized (w_queue w c)" using q by (simp_all add: queued_def)
    have tk: "take (unat RESOLVE_QUEUE_CAPACITY) (rq_list (w_queue w c)) = rq_list (w_queue w c)"
      using wf(1) by (intro take_all) (simp add: rq_wf_def)
    obtain n q' where c: "resolveQueueCancel (w_queue w c) RESOLVE_QUEUE_CAPACITY = (n, rq_list (w_queue w c), q')"
      using cancel_ok [OF wf, of RESOLVE_QUEUE_CAPACITY] unfolding tk by metis
    have "w_store w' = failJobs (rq_list (w_queue w c)) (w_store w)" by (simp add: w' worker_start_def False c)
    moreover obtain job where "Some job \<in> set (rq_list (w_queue w c))" "jb_surface job = s"
      using q by (auto simp: queued_def current_job_def in_set_conv_nth)
    ultimately have "\<not> busy (w_store w') s" by (auto simp: failJobs_effect(2))
    then show ?thesis using b by simp
  qed
qed

lemma pop_queued:
  assumes q: "queued w c i s" and n: "w_worker w c = Popping" and st: "thread_step c w w'"
  shows "(i = 0 \<and> (\<exists>job. w_worker w' c = Resolving job \<and> current_job (w_store w') s job)) \<or>
    (\<exists>k. i = Suc k \<and> queued w' c k s \<and> (w_worker w' c = Popping \<or> (\<exists>j. w_worker w' c = Resolving j)))"
proof -
  from st n obtain sy where w': "w' = try_pop sy c w" by (elim thread_stepE) simp_all
  obtain r q' where p: "pop_attempt (w_queue w c) = (r, q')" by fastforce
  obtain job where job: "rq_list (w_queue w c) ! i = Some job" "current_job (w_store w) s job"
    "i < length (rq_list (w_queue w c))" and wf: "rq_wf (w_queue w c)" "rq_initialized (w_queue w c)"
    using q by (auto simp: queued_def)
  have ne: "rq_list (w_queue w c) \<noteq> []" using job(3) by (metis length_0_conv not_less_zero)
  from pop_attempt_cases [OF wf(1) p] ne obtain item where r: "r = Return (Some item)"
    and l: "rq_list (w_queue w c) = item # rq_list q'" "rq_wf q'" "rq_initialized q' = rq_initialized (w_queue w c)"
    by (auto split: attempt.splits option.splits)
  have behind: "queued w' c k s" if "w_queue w' c = q'" "w_store w' = w_store w" "i = Suc k" for k
    using that job l wf by (simp add: queued_def current_job_def)
  show ?thesis
  proof (cases item)
    case None
    then obtain k where k: "i = Suc k" using job(1) l(1) by (cases i) simp_all
    have "w' = set_queue c q' w" by (simp add: w' try_pop_def p r None)
    then show ?thesis using behind [OF _ _ k] k n by simp
  next
    case (Some j)
    have w'': "w' = set_queue c q' (at_worker c (Resolving j) (w_store w) w)" by (simp add: w' try_pop_def p r Some)
    show ?thesis
    proof (cases i)
      case 0
      then show ?thesis using job l(1) Some w'' by (simp add: current_job_def)
    next
      case (Suc k)
      then show ?thesis using behind [OF _ _ Suc] w'' by simp
    qed
  qed
qed

lemma popping_completes:
  assumes q: "queued w c i s" and n: "w_worker w c = Popping"
    and later: "\<And>w' k. i = Suc k \<Longrightarrow> queued w' c k s \<Longrightarrow>
      w_worker w' c = Popping \<or> (\<exists>j. w_worker w' c = Resolving j) \<Longrightarrow> completes_within c s (3 * k + 5) w'"
  shows "completes_within c s (3 * i + 3) w"
proof -
  have "completes_within c s (3 * i + 2) w'" if "thread_step c w w'" for w'
    using pop_queued [OF q n that]
  proof
    assume "i = 0 \<and> (\<exists>job. w_worker w' c = Resolving job \<and> current_job (w_store w') s job)"
    then obtain job where "i = 0" "w_worker w' c = Resolving job" "current_job (w_store w') s job" by blast
    then show ?thesis using resolving_done [of w' c job s] by (simp add: numeral_2_eq_2)
  next
    assume "\<exists>k. i = Suc k \<and> queued w' c k s \<and> (w_worker w' c = Popping \<or> (\<exists>j. w_worker w' c = Resolving j))"
    then obtain k where k: "i = Suc k" "queued w' c k s" "w_worker w' c = Popping \<or> (\<exists>j. w_worker w' c = Resolving j)"
      by blast
    then show ?thesis using later [OF k] by (simp add: add.commute)
  qed
  from completes_next [OF thread_step.pop [OF n] this] show ?thesis by (simp add: numeral_3_eq_3)
qed

lemma completing_completes:
  assumes q: "queued w c i s" and n: "w_worker w c = Completing t"
    and pop: "\<And>w'. queued w' c i s \<Longrightarrow> w_worker w' c = Popping \<Longrightarrow> completes_within c s (3 * i + 3) w'"
  shows "completes_within c s (3 * i + 4) w"
proof -
  have "completes_within c s (3 * i + 3) w'" if "thread_step c w w'" for w'
    using busy_thread_step(2) [OF q that n] pop by blast
  from completes_next [OF thread_step.complete [OF n] this] show ?thesis by (simp add: eval_nat_numeral)
qed

lemma resolving_completes:
  assumes q: "queued w c i s" and n: "w_worker w c = Resolving j"
    and pop: "\<And>w'. queued w' c i s \<Longrightarrow> w_worker w' c = Popping \<Longrightarrow> completes_within c s (3 * i + 3) w'"
  shows "completes_within c s (3 * i + 5) w"
proof -
  have "completes_within c s (3 * i + 4) w'" if "thread_step c w w'" for w'
  proof -
    have q': "queued w' c i s" and "w_worker w' c = Popping \<or> (\<exists>t. w_worker w' c = Completing t)"
      using busy_thread_step(1) [OF q that] n by blast+
    then consider "w_worker w' c = Popping" | t where "w_worker w' c = Completing t" by blast
    then show ?thesis
    proof cases
      case 1
      then show ?thesis by (intro completes_mono [OF pop [OF q']]) simp_all
    next
      case 2
      then show ?thesis by (rule completing_completes [OF q' _ pop])
    qed
  qed
  from completes_next [OF thread_step.check [OF n] this] show ?thesis by (simp add: eval_nat_numeral)
qed

lemma queued_completes:
  "queued w c i s \<Longrightarrow>
     (w_worker w c = Popping \<longrightarrow> completes_within c s (3 * i + 3) w) \<and>
     ((\<exists>t. w_worker w c = Completing t) \<longrightarrow> completes_within c s (3 * i + 4) w) \<and>
     ((\<exists>j. w_worker w c = Resolving j) \<longrightarrow> completes_within c s (3 * i + 5) w)"
proof (induction i arbitrary: w)
  case 0
  have p: "completes_within c s (3 * 0 + 3) w'" if "queued w' c 0 s" "w_worker w' c = Popping" for w'
    by (rule popping_completes [OF that]) simp
  show ?case using p [OF 0] completing_completes [OF 0 _ p] resolving_completes [OF 0 _ p] by blast
next
  case (Suc i)
  have p: "completes_within c s (3 * Suc i + 3) w'" if "queued w' c (Suc i) s" "w_worker w' c = Popping" for w'
  proof (rule popping_completes [OF that])
    fix w'' k
    assume k: "Suc i = Suc k" "queued w'' c k s" "w_worker w'' c = Popping \<or> (\<exists>j. w_worker w'' c = Resolving j)"
    then have ih: "w_worker w'' c = Popping \<longrightarrow> completes_within c s (3 * k + 3) w''"
      "(\<exists>j. w_worker w'' c = Resolving j) \<longrightarrow> completes_within c s (3 * k + 5) w''"
      using Suc.IH [of w''] by simp_all
    show "completes_within c s (3 * k + 5) w''"
      using k(3) ih completes_mono [of c s "3 * k + 3" w'' "3 * k + 5"] by auto
  qed
  show ?case using p [OF Suc.prems] completing_completes [OF Suc.prems _ p] resolving_completes [OF Suc.prems _ p] by blast
qed

text \<open>C15. 
  The resolve thread of a context makes every surface idle that it has a current job for, or that
  it is about to complete, within 50 of its own steps: on each of its runs, whatever CUDA answers to
  the start, the mapping, the export, the synchronisation and the unmapping, and it never
  sleeps before that.
\<close>

theorem resolve_thread_completes:
  assumes "picture_reach w"
    and "(worker_job w c job \<and> current_job (w_store w) s job) \<or> w_worker w c = Completing s"
  shows "completes_within c s 50 w"
proof -
  have t: "threads_ok w" using reach_ok [OF assms(1)] by (simp add: world_ok_def)
  consider "w_worker w c = Completing s" | "w_worker w c = Resolving job" "current_job (w_store w) s job"
    | "alive (w_worker w c)" "Some job \<in> set (rq_list (w_queue w c))" "current_job (w_store w) s job"
    using assms(2) by (auto simp: worker_job_def)
  then show ?thesis
  proof cases
    case 1
    then show ?thesis by (intro completes_mono [OF completing_done]) simp_all
  next
    case 2
    then show ?thesis by (intro completes_mono [OF resolving_done]) simp_all
  next
    case 3
    note wf = threads_okD(1) [OF t, of c] threads_okD(2) [OF t 3(1)]
    obtain i where i: "i < length (rq_list (w_queue w c))" "rq_list (w_queue w c) ! i = Some job"
      using 3(2) by (auto simp: in_set_conv_nth)
    have q: "queued w c i s" using wf i 3(3) by (auto simp: queued_def)
    have i16: "i \<le> 15" using i(1) wf(1) by (simp add: rq_wf_def)
    note qc = queued_completes [OF q]
    consider "w_worker w c = Popping" | t where "w_worker w c = Completing t" | j where "w_worker w c = Resolving j"
      | "w_worker w c = Starting"
      using 3(1) by (cases "w_worker w c") (auto simp: alive_def)
    then show ?thesis
    proof cases
      case 1
      then show ?thesis using qc i16 by (intro completes_mono [of c s "3 * i + 3" w 50]) simp_all
    next
      case 2
      then show ?thesis using qc i16 by (intro completes_mono [of c s "3 * i + 4" w 50]) auto
    next
      case 3
      then show ?thesis using qc i16 by (intro completes_mono [of c s "3 * i + 5" w 50]) auto
    next
      case 4
      have "completes_within c s 49 w'" if "thread_step c w w'" for w'
      proof (cases "busy (w_store w') s")
        case True
        then have "queued w' c i s" "w_worker w' c = Popping"
          using busy_thread_step(3) [OF q that 4] by blast+
        then show ?thesis using queued_completes i16 by (intro completes_mono [of c s "3 * i + 3" w' 49]) auto
      qed (rule completes_idle)
      from completes_next [OF thread_step.start [OF 4] this] show ?thesis by (simp del: completes_within.simps)
    qed
  qed
qed

section \<open>A concrete run\<close>

definition codec_none :: NVCodec where
  "codec_none = \<lparr>cd_handlers = (\<lambda>_. None),
     cd_schemas = (\<lambda>_. \<lparr>sc_minElementSize = 0, sc_minElements = 0, sc_maxElements = 0\<rparr>), cd_beginPicture = None\<rparr>"

definition env_example :: picture_env where
  "env_example =
     \<lparr>pe_codec = (\<lambda>_. codec_none), pe_bufferTypeMax = 66, pe_pipelineSize = 224, pe_alloc = (\<lambda>_. None),
      pe_blit = \<lparr>be_push = True, be_pop = True, be_realise = (\<lambda>_. False), be_image = (\<lambda>_. None),
        be_metadata = (\<lambda>b. \<lparr>ci_own = bi_color b, ci_borrowed = None\<rparr>), be_convert = (\<lambda>_ _ _ _ _ _. False),
        be_readStart = True, be_readEnd = True, be_writeStart = True, be_writeEnd = True, be_memcpy = (\<lambda>_. True)\<rparr>,
      pe_decoder = \<lparr>dr_push = True, dr_pop = True, dr_create = (\<lambda>_. True)\<rparr>,
      pe_push = True, pe_pop = True, pe_decode = True, pe_calloc = True\<rparr>"

definition world_example :: PictureWorld where
  "world_example =
     \<lparr>w_store = store_example, w_queue = (\<lambda>_. snd (resolveQueueInit True True True)), w_worker = (\<lambda>_. Starting),
      w_call = (\<lambda>_. NoCall), w_destroying = None\<rparr>"

lemma example_reach: "picture_reach world_example"
  by (rule picture_reach.start)
    (simp add: world_start_def world_example_def store_example_def surface_example_def context_example_def)

text \<open>A picture begun for surface 0 in context 0.\<close>

definition store_building :: NVStore where
  "store_building = begin_build env_example 0 0 (begin_enter 0 store_example)"

definition world_building :: PictureWorld where
  "world_building = at_call 0 NoCall store_building world_example"

lemma example_fields [simp]:
  "w_store world_example = store_example" "w_call world_example c = NoCall" "w_destroying world_example = None"
  "w_worker world_example c = Starting" "w_queue world_example c = snd (resolveQueueInit True True True)"
  "st_contextIds store_example k = (if k = 5 then Some 0 else None)"
  "st_surfaceIds store_example 0 = Some 0" "st_cudaWorkUnsafe store_example = False"
  "pstate store_example c = NVD_PICTURE_IDLE"
  by (simp_all add: world_example_def store_example_def context_example_def)

lemma begin_example:
  "begin_after_wait env_example 0 0 (begin_enter 0 store_example) = Return (VA_STATUS_SUCCESS, store_building)"
  by (simp add: begin_after_wait_def begin_enter_def store_example_def context_example_def surface_example_def
      recreateDecoderForSurface_def begin_index_def store_building_def Let_def)

lemma building_reach: "picture_reach world_building"
proof -
  let ?st = "begin_enter 0 store_example"
  let ?w1 = "at_call 0 (BeginWaiting 0) ?st world_example"
  let ?w2 = "at_call 0 (BeginRunning 0) ?st ?w1"
  have l: "begin_lookup 5 0 (begin_enter 0 (w_store world_example)) = Inr (0, 0)"
    by (simp add: begin_lookup_def begin_enter_def upd_context_def)
  have "picture_step world_example ?w1"
    using picture_step.begin_wait [where w = world_example and c = 0 and ctx = 5 and target = 0 and s = 0] l by simp
  then have r1: "picture_reach ?w1" by (rule picture_reach.step [OF example_reach]) (simp add: orderly_def)
  have wt: "waitSurfaceResolved (w_store ?w1) (Some 0) \<noteq> Wait"
    by (simp add: waitSurfaceResolved_def surface_resolved_def begin_enter_def store_example_def surface_example_def)
  have "picture_step ?w1 ?w2" using picture_step.begin_resolved [where c = 0 and s = 0, OF _ wt] by simp
  then have r2: "picture_reach ?w2" by (rule picture_reach.step [OF r1]) (simp add: orderly_def)
  have s2: "begin_after_wait env_example 0 0 (w_store ?w2) = Return (VA_STATUS_SUCCESS, store_building)"
    using begin_example by simp
  have "picture_step ?w2 (at_call 0 NoCall (begin_leave 0 VA_STATUS_SUCCESS store_building) ?w2)"
    by (rule picture_step.begin_run [OF _ s2]) simp
  moreover have "at_call 0 NoCall (begin_leave 0 VA_STATUS_SUCCESS store_building) ?w2 = world_building"
    by (simp add: begin_leave_def world_building_def at_call_def)
  ultimately show ?thesis
    by (intro picture_reach.step [OF r2]) (simp_all add: orderly_def world_building_def)
qed

lemma building_fields:
  "busy store_building 0" "renderTarget store_building 0 = Some 0" "pstate store_building 0 = NVD_PICTURE_BUILDING"
  "st_contextIds store_building k = (if k = 5 then Some 0 else None)" "started store_building 0" "\<not> st_cudaWorkUnsafe store_building"
  "st_surfaceIds store_building 0 = Some 0"
  "cn_id (st_context store_building 0) = 5"
proof -
  note m = begin_build_effect [where c = 0 and s = 0 and st = "begin_enter 0 store_example" and env = env_example]
  note e = begin_enter_effect(1) [where c = 0 and X = "{}" and st = store_example]
  show "renderTarget store_building 0 = Some 0" "pstate store_building 0 = NVD_PICTURE_BUILDING"
    using m by (simp_all add: store_building_def begin_enter_effect)
  show "st_contextIds store_building k = (if k = 5 then Some 0 else None)"
    using moves_calls(3) [OF m(1)] moves_calls(3) [OF e] by (simp add: store_building_def)
  show "started store_building 0"
    using moves_calls(2) [OF m(1)] moves_calls(2) [OF e] by (simp add: store_building_def store_example_def context_example_def)
  show "busy store_building 0" "\<not> st_cudaWorkUnsafe store_building" "st_surfaceIds store_building 0 = Some 0"
    "cn_id (st_context store_building 0) = 5"
    by (simp_all add: store_building_def begin_build_def Let_def env_example_def codec_none_def begin_enter_def
        setSurfaceResolving_def setSurfaceBackingImageResolving_def upd_surface_def upd_context_def
        store_example_def surface_example_def context_example_def)
qed


lemma building_codec:
  "cn_cudaCodec (st_context store_building 0) = cudaVideoCodec_H264"
  "pk_inputValidationFailed (cn_codec (st_context store_building 0)) = False"
  "buffers_failed (st_context store_building 0) = False" "cn_decoder (st_context store_building 0)"
  "displayTarget store_building 0 = Some 0" "videoProc store_building 0 = False"
  "st_hostBufferTrimThresholdBytes store_building = 0"
  "sf_exported (st_surface store_building 0) = False" "sf_external (st_surface store_building 0) = False"
  by (simp_all add: store_building_def begin_build_def Let_def env_example_def codec_none_def begin_enter_def
      setSurfaceResolving_def setSurfaceBackingImageResolving_def upd_surface_def upd_context_def begin_codec_def
      buffers_failed_def displayTarget_def store_example_def surface_example_def context_example_def
      codec_example_def ab_empty_def)

lemma references_surface [simp]: "st_surface (activate_references c v st) = st_surface st"
  by (simp add: activate_references_def Let_def split: option.splits)

lemma submit_example: "\<exists>job st. end_submit env_example 0 store_building = (Inr (0, job, VA_STATUS_SUCCESS), st) \<and>
   sf_exported (st_surface st 0) = False \<and> sf_external (st_surface st 0) = False \<and> busy st 0"
proof -
  note b = building_codec building_fields
  have 1: "checkAV1Tiles 0 store_building = store_building" by (simp add: checkAV1Tiles_def Let_def b)
  have 2: "createDecoderForContext (pe_decoder env_example) 0 store_building = (VA_STATUS_SUCCESS, store_building)"
    by (simp add: createDecoderForContext_def b)
  define st where "st = upd_context (dropBitstream 0 store_building) 0 (\<lambda>cn.
     maybeTrimContextHostBuffers (pe_alloc env_example) (st_hostBufferTrimThresholdBytes (dropBitstream 0 store_building))
       (st_hostBufferTrimFrames (dropBitstream 0 store_building)) cn
       (ab_size (pk_bitstreamBuffer (cn_codec (st_context store_building 0))))
       (ab_size (pk_sliceOffsets (cn_codec (st_context store_building 0)))) (ab_size (cn_sliceParamsBuffer (st_context store_building 0))))"
  have e: "end_submit env_example 0 store_building = end_job env_example 0 st"
    unfolding end_submit_def Let_def 1 2 prod.case st_def [symmetric]
    by (simp add: b env_example_def)
  have t: "displayTarget st 0 = Some 0" "renderTarget st 0 = Some 0" "st_surface st = st_surface store_building"
    using b by (simp_all add: st_def displayTarget_def renderTarget_def dropBitstream_def upd_codec_def
        maybeTrimContextHostBuffers_def Let_def hostBufferIsUnderused_def upd_context_def)
  show ?thesis
    unfolding e end_job_def Let_def
    using t b by (simp add: submittedSurface_def env_example_def prepare_surface_def)
qed

definition world_pushed :: "(VAStatus + nat \<times> ResolveJob \<times> VAStatus) \<times> NVStore \<Rightarrow> PictureWorld" where
  "world_pushed r =
     (case r of
        (Inr (s, job, status), st) \<Rightarrow> try_push None None False 0 s job push_call_start status (after_submit 0 r world_building)
      | _ \<Rightarrow> world_building)"

lemma resolve_thread_completes_witness:
  "completes_within 0 0 50 (world_pushed (end_submit env_example 0 store_building)) \<and>
   busy (w_store (world_pushed (end_submit env_example 0 store_building))) 0"
proof -
  obtain job st where e: "end_submit env_example 0 store_building = (Inr (0, job, VA_STATUS_SUCCESS), st)"
    and x: "sf_exported (st_surface st 0) = False" "sf_external (st_surface st 0) = False" and busy: "busy st 0"
    using submit_example by blast
  have j: "submit_job 0 store_building 0 job st" using end_submit_effect [OF e] by simp
  let ?r = "end_submit env_example 0 store_building"
  have 1: "picture_reach (after_submit 0 ?r world_building)"
  proof (rule picture_reach.step [OF building_reach])
    have "end_enter 5 (w_store world_building) = Inr 0"
      by (simp add: world_building_def end_enter_def building_fields)
    then show "picture_step world_building (after_submit 0 ?r world_building)"
      using picture_step.end_submit [where w = world_building and c = 0 and ctx = 5 and env = env_example]
      by (simp add: world_building_def)
    show "orderly world_building (after_submit 0 ?r world_building)"
      by (simp add: e after_submit_def orderly_def world_building_def)
  qed
  let ?w = "try_push None None False 0 0 job push_call_start VA_STATUS_SUCCESS (after_submit 0 ?r world_building)"
  have p: "world_pushed ?r = ?w" by (simp add: world_pushed_def e)
  have a: "push_attempt None None False (snd (resolveQueueInit True True True)) push_call_start (Some job) =
      (Return (True, None), push_store (snd (resolveQueueInit True True True)) (Some job), push_call_start)"
    by (simp add: push_attempt_def resolveQueueInit_def push_record_wait_def no_telemetry_def Let_def)
  let ?q = "push_store (snd (resolveQueueInit True True True)) (Some job)"
  let ?s = "upd_context st 0 (\<lambda>cn. cn\<lparr>cn_pictureState := NVD_PICTURE_SUBMITTED\<rparr>)"
  have w: "?w = set_queue 0 ?q (at_call 0 NoCall (end_leave 0 ?s) (after_submit 0 ?r world_building))"
    using a x by (simp add: try_push_def e after_submit_def world_building_def end_pushed_def)
  have "w_destroying ?w = None" unfolding w by (simp add: e after_submit_def world_building_def)
  then have 2: "picture_reach ?w"
    by (intro picture_reach.step [OF 1 picture_step.end_push]) (simp_all add: e after_submit_def orderly_def)
  have wf: "rq_wf (snd (resolveQueueInit True True True) :: ResolveJob ResolveQueue)"
    "unat (rq_count (snd (resolveQueueInit True True True) :: ResolveJob ResolveQueue)) < 16"
    by (simp_all add: resolveQueueInit_def rq_wf_def)
  have l: "rq_list ?q = [Some job]"
    unfolding push_store_ok(2) [OF wf] by (simp add: rq_list_def ring_def resolveQueueInit_def)
  have wj: "worker_job ?w 0 job"
    unfolding worker_job_def w by (simp add: l alive_def e after_submit_def world_building_def)
  have g: "gen (end_leave 0 ?s) 0 = gen st 0" by (simp add: end_leave_effect(5))
  have cj: "current_job (w_store ?w) 0 job" using j g unfolding w by (simp add: current_job_def submit_job_def)
  have "completes_within 0 0 50 ?w" by (rule resolve_thread_completes [OF 2]) (use wj cj in blast)
  moreover have "busy (w_store ?w) 0"
    unfolding w using busy by (simp add: end_leave_def Let_def)
  ultimately show ?thesis unfolding p by blast
qed

section \<open>A context destroyed in the middle of a picture\<close>

definition world_abandoned :: PictureWorld where
  "world_abandoned =
     destroy_end True 0 (try_pop True 0 (worker_start True 0 (destroy_begin 0 world_building)))"

lemma fresh_cancel:
  "resolveQueueCancel (snd (resolveQueueInit True True True)) RESOLVE_QUEUE_CAPACITY =
     (0, [], (snd (resolveQueueInit True True True))\<lparr>rq_exiting := True\<rparr>)"
  by (simp add: resolveQueueCancel_def resolveQueueInit_def Let_def no_telemetry_def)


end
