(* ===== verification/PictureErrors.thy ===== *)
theory PictureErrors
  imports PictureLive
begin

text \<open>
  Error behaviour of the picture calls: a failed picture reports its first error when it is
  ended, and leaves the context clean; the decoder has room for every picture index that was
  handed out before it was created; trimming the host buffers keeps what the next picture needs.
\<close>

section \<open>Failed pictures\<close>

abbreviation completed_with :: "NVStore \<Rightarrow> nat \<Rightarrow> VAStatus \<Rightarrow> bool" where
  "completed_with st s status \<equiv> \<not> busy st s \<and> sf_completionStatus (st_surface st s) = status \<and>
     sf_completedGeneration (st_surface st s) = gen st s"

lemma fail_completed: "failSurfaceResolve st (Some s) VA_STATUS_ERROR_DECODING_ERROR = st' \<Longrightarrow>
   completed_with st' s VA_STATUS_ERROR_DECODING_ERROR"
  by (auto simp: failSurfaceResolve_def)

lemma fail_keeps_completed:
  "completed_with st s VA_STATUS_ERROR_DECODING_ERROR \<Longrightarrow>
   completed_with (failSurfaceResolve st x VA_STATUS_ERROR_DECODING_ERROR) s VA_STATUS_ERROR_DECODING_ERROR"
  by (cases x) (auto simp: failSurfaceResolve_def)

lemma cancel_completes:
  assumes "renderTarget st c = Some s"
  shows "completed_with (cancelCurrentPictureResolve c st) s VA_STATUS_ERROR_DECODING_ERROR"
proof (cases "displayTarget st c = Some s")
  case True
  then show ?thesis using assms by (simp add: cancelCurrentPictureResolve_def Let_def failSurfaceResolve_def)
next
  case False
  then show ?thesis using assms by (simp add: cancelCurrentPictureResolve_def Let_def failSurfaceResolve_def)
qed

lemma reset_surfaces [simp]:
  "st_surface (resetPictureBuild c True st) = st_surface (cancelCurrentPictureResolve c st)"
  by (simp add: resetPictureBuild_def)



section \<open>The size of the decoder\<close>

text \<open>
  The decoder is created after picture indices were handed out. When its creation succeeds, every
  index below the next new one fits: it is less than the number of decode surfaces, which lies
  between the configured bounds (with the maximum at least the minimum); and a surface count that is
  too small is reported instead of creating the decoder.
\<close>

theorem decoder_has_room:
  assumes run: "createDecoderForContext res c st = (status, st')" and new: "\<not> cn_decoder (st_context st c)"
  shows "(status = VA_STATUS_SUCCESS \<longleftrightarrow>
      cn_currentPictureId (st_context st c) \<le> selectContextDecodeSurfaceCount st c \<and> dr_push res \<and> dr_pop res \<and>
      dr_create res (decoder_info ((st_context st c)\<lparr>cn_surfaceCount := selectContextDecodeSurfaceCount st c\<rparr>))) \<and>
    (cn_decoder (st_context st' c) \<longleftrightarrow> status = VA_STATUS_SUCCESS) \<and>
    (status = VA_STATUS_SUCCESS \<longrightarrow>
      cn_currentPictureId (st_context st' c) \<le> cn_surfaceCount (st_context st' c) \<and>
      1 \<le> cn_surfaceCount (st_context st' c) \<and>
      cn_surfaceCount (st_context st' c) \<le> max (st_decodeSurfacesMaximum st) (max 1 (st_decodeSurfacesMinimum st)))"
proof -
  define n where "n = selectContextDecodeSurfaceCount st c"
  have bound: "1 \<le> nvdSelectDecodeSurfaceCount a b d e lo hi \<and>
      nvdSelectDecodeSurfaceCount a b d e lo hi \<le> max hi (max 1 lo)" for a b d e lo hi
    using clamp_bounds [of lo hi] by (auto simp: nvdSelectDecodeSurfaceCount_def Let_def word_nat max_def)
  have n: "1 \<le> n \<and> n \<le> max (st_decodeSurfacesMaximum st) (max 1 (st_decodeSurfacesMinimum st))"
    using bound by (simp add: n_def selectContextDecodeSurfaceCount_def Let_def)
  show ?thesis
    using run new n unfolding createDecoderForContext_def Let_def n_def [symmetric]
    by (auto split: if_splits)
qed

lemma decoder_has_room_witness:
  "\<exists>st'. createDecoderForContext \<lparr>dr_push = True, dr_pop = True, dr_create = (\<lambda>_. True)\<rparr> 0
      (upd_context store_example 0 (\<lambda>cn. cn\<lparr>cn_decoder := False\<rparr>)) = (VA_STATUS_SUCCESS, st') \<and>
     cn_decoder (st_context st' 0) \<and> 2 \<le> cn_surfaceCount (st_context st' 0)"
proof -
  let ?st = "upd_context store_example 0 (\<lambda>cn. cn\<lparr>cn_decoder := False\<rparr>)"
  let ?res = "\<lparr>dr_push = True, dr_pop = True, dr_create = (\<lambda>_. True)\<rparr>"
  obtain status st' where run: "createDecoderForContext ?res 0 ?st = (status, st')" by fastforce
  have sel: "selectContextDecodeSurfaceCount ?st 0 = 20"
    by (simp add: selectContextDecodeSurfaceCount_def upd_context_def store_example_def context_example_def
        defaultDecodeSurfaceCount_def nvdSelectDecodeSurfaceCount_def maxU32_def Let_def)
  note d = decoder_has_room [OF run]
  have "status = VA_STATUS_SUCCESS" using d sel by (simp add: store_example_def context_example_def)
  moreover have "cn_surfaceCount (st_context st' 0) = 20"
    using run sel by (auto simp: createDecoderForContext_def Let_def split: if_splits)
  ultimately show ?thesis using run d by auto
qed

section \<open>Trimming\<close>

lemma trim_target_unat:
  assumes "used \<le> a div 4"
  shows "unat (hostBufferTrimTarget used threshold) = max (2 * unat used) (max 256 (unat threshold div 8))"
proof -
  have u: "unat used \<le> unat a div 4" using assms by (simp add: word_le_nat_alt unat_div)
  then have small: "unat used * 2 < 18446744073709551616" using unat_u64_less [of a] by linarith
  then have m: "unat (used * 2) = unat used * 2" by (simp add: unat_word_ariths take_bit_nat_eq_self)
  have "used \<le> SIZE_MAX div 2" using u unat_u64_less [of a] by (simp add: word_le_nat_alt unat_div)
  moreover define fl where "fl = (if threshold div 8 < 256 then 256 else threshold div 8)"
  moreover have "\<not> fl > SIZE_MAX" using unat_u64_less [of fl] by (simp add: word_less_nat_alt)
  ultimately have t: "hostBufferTrimTarget used threshold = (if used * 2 < fl then fl else used * 2)"
    by (simp add: hostBufferTrimTarget_def Let_def)
  have "unat fl = max 256 (unat threshold div 8)" by (auto simp: fl_def word_less_nat_alt unat_div)
  then show ?thesis unfolding t using m by (auto simp: word_less_nat_alt)
qed

text \<open>
  A host buffer is trimmed only when at most a quarter of it was used and it is larger than the
  threshold. Its bytes are kept, and the new capacity is twice what the last picture used or a floor
  of 256 bytes and an eighth of the threshold; when the allocation of the new block succeeds (and the
  threshold is not below the 256 bytes), the buffer has become smaller and the same load does not trim
  it again.
\<close>

theorem trim_keeps_room:
  assumes wf: "ab_wf b" and mem: "alloc_block mem" and under: "hostBufferIsUnderused b used threshold"
    and th: "256 \<le> threshold" and sz: "ab_size b \<le> used"
    and trim: "b' = trim_if mem True b (hostBufferTrimTarget used threshold)"
  shows "ab_wf b' \<and> ab_bytes b' = ab_bytes b \<and> used \<le> ab_allocated b' \<and>
    (mem (hostBufferTrimTarget used threshold) \<noteq> None \<longrightarrow>
       unat (ab_allocated b') = max (2 * unat used) (max 256 (unat threshold div 8)) \<and>
       ab_allocated b' < ab_allocated b \<and> \<not> hostBufferIsUnderused b' used threshold)"
proof -
  let ?n = "hostBufferTrimTarget used threshold"
  have u: "used \<le> ab_allocated b div 4" and a: "threshold < ab_allocated b"
    using under by (simp_all add: hostBufferIsUnderused_def)
  then have un: "unat used \<le> unat (ab_allocated b) div 4" and an: "unat threshold < unat (ab_allocated b)"
    by (simp_all add: word_le_nat_alt word_less_nat_alt unat_div)
  have tn: "256 \<le> unat threshold" using th by (simp add: word_le_nat_alt)
  note target = trim_target_unat [OF u, of threshold]
  have lt: "unat ?n < unat (ab_allocated b)" unfolding target using un an tn by linarith
  have ge: "unat (ab_size b) \<le> unat ?n" unfolding target using sz by (simp add: word_le_nat_alt)
  have n: "\<not> ?n < ab_size b" "\<not> ab_allocated b \<le> ?n" using lt ge by (simp_all add: word_less_nat_alt word_le_nat_alt)
  have nz: "?n \<noteq> 0"
  proof
    assume "?n = 0"
    then show False using target by simp
  qed
  have tb: "trimBuffer mem (Some b) ?n = (case mem ?n of None \<Rightarrow> (False, Some b)
      | Some fresh \<Rightarrow> (True, Some (b\<lparr>ab_buf := Some (copy_used b fresh), ab_allocated := ?n\<rparr>)))"
    using n nz by (simp add: trimBuffer_def Let_def)
  obtain r c where t: "trimBuffer mem (Some b) ?n = (r, Some c)"
    unfolding tb by (cases "mem ?n") auto
  have c: "c = b'" using trim t by (simp add: trim_if_def)
  note ok = trimBuffer_ok [OF wf mem t, unfolded c]
  have succ: "r" if "mem ?n \<noteq> None"
    using that t unfolding tb by auto
  have al: "unat (ab_allocated b') = unat ?n" if "mem ?n \<noteq> None"
    using ok(5) [OF succ [OF that]] lt ge by (simp add: min_def max_def word_le_nat_alt)
  have "used \<le> ab_allocated b'"
  proof (cases "mem ?n")
    case None
    then have "b' = b" using t c unfolding tb by simp
    then show ?thesis using un by (simp add: word_le_nat_alt)
  next
    case (Some x)
    then show ?thesis using al target by (simp add: word_le_nat_alt)
  qed
  moreover have "ab_allocated b' < ab_allocated b \<and> \<not> hostBufferIsUnderused b' used threshold" if m: "mem ?n \<noteq> None"
  proof -
    have "\<not> (unat threshold < unat ?n \<and> unat used \<le> unat ?n div 4)"
      unfolding target using tn by (auto simp: max_def split: if_splits)
    then show ?thesis using al [OF m] lt
      by (simp add: hostBufferIsUnderused_def word_less_nat_alt word_le_nat_alt unat_div)
  qed
  ultimately show ?thesis using ok(1,2) al target by simp
qed

lemma trim_keeps_room_witness:
  "unat (ab_allocated (trim_if (\<lambda>n. Some (replicate (unat n) 0)) True
     \<lparr>ab_buf = Some (replicate 2048 0), ab_size = 0, ab_allocated = 2048, ab_failed = False\<rparr>
     (hostBufferTrimTarget 400 1024))) = 800"
proof -
  let ?b = "\<lparr>ab_buf = Some (replicate 2048 0), ab_size = 0, ab_allocated = 2048, ab_failed = False\<rparr>"
  let ?mem = "\<lambda>n. Some (replicate (unat n) 0)"
  have "ab_wf ?b" by (simp add: ab_wf_def ab_cells_def)
  moreover have "alloc_block ?mem" by (simp add: alloc_block_def)
  moreover have "hostBufferIsUnderused ?b 400 1024" by (simp add: hostBufferIsUnderused_def)
  ultimately show ?thesis using trim_keeps_room [OF _ _ _ _ _ refl, where b = ?b and mem = ?mem and used = 400 and threshold = 1024]
    by simp
qed

end
