(* ===== verification/Jpeg.thy ===== *)
theory Jpeg
  imports CodecH264
begin

text \<open>
  The JPEG codec (\<open>src/jpeg.c\<close>): VA-API delivers a JPEG picture as separate parameter buffers,
  and the driver rebuilds a complete JPEG file from them for NVDEC.

  A write pointer into the frame is the list of the bytes written so far, \<open>ptr\<close>; the bytes reach
  the buffer by \<open>write_at\<close> at the offset of the frame, also those of an attempt that fails. The
  arrays of the VA-API structures are lists of their declared lengths (\<open>jpeg_shapes\<close> in
  \<open>JpegFrame\<close>). \<open>jpeg_ctx\<close> is \<open>codec_ctx\<close> with the codec data and the slice parameters as
  this codec reads them; \<open>calloc\<close> is a parameter (\<open>calloc_ok\<close>).
\<close>

section \<open>Data\<close>

record jpeg_frame_component =
  fc_component_id :: u8
  fc_h_sampling_factor :: u8
  fc_v_sampling_factor :: u8
  fc_quantiser_table_selector :: u8

record VAPictureParameterBufferJPEGBaseline =
  pj_picture_width :: u16
  pj_picture_height :: u16
  pj_components :: "jpeg_frame_component list"
  pj_num_components :: u8

record VAIQMatrixBufferJPEGBaseline =
  qj_load_quantiser_table :: "u8 list"
  qj_quantiser_table :: "u8 list list"

record jpeg_huffman_table =
  ht_num_dc_codes :: "u8 list"
  ht_dc_values :: "u8 list"
  ht_num_ac_codes :: "u8 list"
  ht_ac_values :: "u8 list"

record VAHuffmanTableBufferJPEGBaseline =
  hj_load_huffman_table :: "u8 list"
  hj_huffman_table :: "jpeg_huffman_table list"

record jpeg_scan_component =
  sj_component_selector :: u8
  sj_dc_table_selector :: u8
  sj_ac_table_selector :: u8

record VASliceParameterBufferJPEGBaseline =
  sj_slice_data_size :: u32
  sj_slice_data_offset :: u32
  sj_slice_data_flag :: u32
  sj_components :: "jpeg_scan_component list"
  sj_num_components :: u8
  sj_restart_interval :: u16

record JPEGContext =
  jc_picParams :: VAPictureParameterBufferJPEGBaseline
  jc_iqMatrix :: VAIQMatrixBufferJPEGBaseline
  jc_huffmanTable :: VAHuffmanTableBufferJPEGBaseline
  jc_hasPicParams :: bool
  jc_hasIQMatrix :: bool
  jc_hasHuffmanTable :: bool
  jc_validQuantTablesMask :: u8
  jc_validHuffmanDcMask :: u8
  jc_validHuffmanAcMask :: u8

abbreviation JPEG_SOI :: u8 where "JPEG_SOI \<equiv> 0xD8"
abbreviation JPEG_EOI :: u8 where "JPEG_EOI \<equiv> 0xD9"
abbreviation JPEG_APP0 :: u8 where "JPEG_APP0 \<equiv> 0xE0"
abbreviation JPEG_DQT :: u8 where "JPEG_DQT \<equiv> 0xDB"
abbreviation JPEG_SOF0 :: u8 where "JPEG_SOF0 \<equiv> 0xC0"
abbreviation JPEG_DHT :: u8 where "JPEG_DHT \<equiv> 0xC4"
abbreviation JPEG_DRI :: u8 where "JPEG_DRI \<equiv> 0xDD"
abbreviation JPEG_SOS :: u8 where "JPEG_SOS \<equiv> 0xDA"
abbreviation JPEG_MARKER :: u8 where "JPEG_MARKER \<equiv> 0xFF"
abbreviation VA_SLICE_DATA_FLAG_ALL :: u32 where "VA_SLICE_DATA_FLAG_ALL \<equiv> 0"

definition jfifHeader :: "u8 list" where
  "jfifHeader =
     [JPEG_MARKER, JPEG_SOI, JPEG_MARKER, JPEG_APP0, 0x00, 0x10, 0x4A, 0x46, 0x49, 0x46, 0x00,
      0x01, 0x01, 0x00, 0x00, 0x01, 0x00, 0x01, 0x00, 0x00]"

definition dcLuminanceBits :: "u8 list" where
  "dcLuminanceBits =
   [0, 1, 5, 1, 1, 1, 1, 1, 1, 0, 0, 0, 0, 0, 0, 0]"

definition dcLuminanceVals :: "u8 list" where
  "dcLuminanceVals =
   [0, 1, 2, 3, 4, 5, 6, 7, 8, 9, 10, 11]"

definition dcChrominanceBits :: "u8 list" where
  "dcChrominanceBits =
   [0, 3, 1, 1, 1, 1, 1, 1, 1, 1, 1, 0, 0, 0, 0, 0]"

definition dcChrominanceVals :: "u8 list" where
  "dcChrominanceVals =
   [0, 1, 2, 3, 4, 5, 6, 7, 8, 9, 10, 11]"

definition acLuminanceBits :: "u8 list" where
  "acLuminanceBits =
   [0, 2, 1, 3, 3, 2, 4, 3, 5, 5, 4, 4, 0, 0, 1, 125]"

definition acLuminanceVals :: "u8 list" where
  "acLuminanceVals =
   [1, 2, 3, 0, 4, 17, 5, 18, 33, 49, 65, 6, 19, 81, 97, 7, 34, 113, 20, 50, 129, 145, 161, 8,
    35, 66, 177, 193, 21, 82, 209, 240, 36, 51, 98, 114, 130, 9, 10, 22, 23, 24, 25, 26, 37, 38,
    39, 40, 41, 42, 52, 53, 54, 55, 56, 57, 58, 67, 68, 69, 70, 71, 72, 73, 74, 83, 84, 85, 86,
    87, 88, 89, 90, 99, 100, 101, 102, 103, 104, 105, 106, 115, 116, 117, 118, 119, 120, 121,
    122, 131, 132, 133, 134, 135, 136, 137, 138, 146, 147, 148, 149, 150, 151, 152, 153, 154,
    162, 163, 164, 165, 166, 167, 168, 169, 170, 178, 179, 180, 181, 182, 183, 184, 185, 186,
    194, 195, 196, 197, 198, 199, 200, 201, 202, 210, 211, 212, 213, 214, 215, 216, 217, 218,
    225, 226, 227, 228, 229, 230, 231, 232, 233, 234, 241, 242, 243, 244, 245, 246, 247, 248,
    249, 250]"

definition acChrominanceBits :: "u8 list" where
  "acChrominanceBits =
   [0, 2, 1, 2, 4, 4, 3, 4, 7, 5, 4, 4, 0, 1, 2, 119]"

definition acChrominanceVals :: "u8 list" where
  "acChrominanceVals =
   [0, 1, 2, 3, 17, 4, 5, 33, 49, 6, 18, 65, 81, 7, 97, 113, 19, 34, 50, 129, 8, 20, 66, 145,
    161, 177, 193, 9, 35, 51, 82, 240, 21, 98, 114, 209, 10, 22, 36, 52, 225, 37, 241, 23, 24,
    25, 26, 38, 39, 40, 41, 42, 53, 54, 55, 56, 57, 58, 67, 68, 69, 70, 71, 72, 73, 74, 83, 84,
    85, 86, 87, 88, 89, 90, 99, 100, 101, 102, 103, 104, 105, 106, 115, 116, 117, 118, 119, 120,
    121, 122, 130, 131, 132, 133, 134, 135, 136, 137, 138, 146, 147, 148, 149, 150, 151, 152,
    153, 154, 162, 163, 164, 165, 166, 167, 168, 169, 170, 178, 179, 180, 181, 182, 183, 184,
    185, 186, 194, 195, 196, 197, 198, 199, 200, 201, 202, 210, 211, 212, 213, 214, 215, 216,
    217, 218, 226, 227, 228, 229, 230, 231, 232, 233, 234, 242, 243, 244, 245, 246, 247, 248,
    249, 250]"

section \<open>Segment writers\<close>

definition write16be :: "u16 \<Rightarrow> u8 list" where
  "write16be value = [ucast (drop_bit 8 value AND 0xFF), ucast (value AND 0xFF)]"

definition componentInFrame :: "VAPictureParameterBufferJPEGBaseline \<Rightarrow> u8 \<Rightarrow> bool" where
  "componentInFrame pic componentId \<longleftrightarrow>
     list_ex (\<lambda>c. fc_component_id c = componentId) (take (unat (pj_num_components pic)) (pj_components pic))"

definition bit_mask :: "u8 \<Rightarrow> u8" where "bit_mask t = push_bit (unat t) 1"

fun used_mask :: "jpeg_frame_component list \<Rightarrow> u8 \<Rightarrow> u8 option" where
  "used_mask [] usedMask = Some usedMask"
| "used_mask (c # cs) usedMask =
     (if fc_quantiser_table_selector c \<ge> 4 then None
      else used_mask cs (usedMask OR bit_mask (fc_quantiser_table_selector c)))"

definition getUsedQuantTablesMask :: "VAPictureParameterBufferJPEGBaseline \<Rightarrow> u8 option" where
  "getUsedQuantTablesMask pic = used_mask (take (unat (pj_num_components pic)) (pj_components pic)) 0"

definition quant_sum :: "u8 list \<Rightarrow> u32" where
  "quant_sum table = fold (\<lambda>q acc. acc + ucast q) (take 64 table) 0"

definition dqt_segment :: "u8 \<Rightarrow> u8 list \<Rightarrow> u8 list" where
  "dqt_segment t table = [JPEG_MARKER, JPEG_DQT] @ write16be 67 @ [t] @ take 64 table"

fun write_dqt_tables :: "VAIQMatrixBufferJPEGBaseline \<Rightarrow> u8 \<Rightarrow> u8 list \<Rightarrow> u8 list \<Rightarrow> bool \<times> u8 list" where
  "write_dqt_tables iq usedMask [] ptr = (True, ptr)"
| "write_dqt_tables iq usedMask (t # ts) ptr =
     (if usedMask AND bit_mask t = 0 then write_dqt_tables iq usedMask ts ptr
      else if quant_sum (qj_quantiser_table iq ! unat t) = 0 then (False, ptr)
      else write_dqt_tables iq usedMask ts (ptr @ dqt_segment t (qj_quantiser_table iq ! unat t)))"

definition writeDQT ::
    "u8 list \<Rightarrow> VAIQMatrixBufferJPEGBaseline \<Rightarrow> VAPictureParameterBufferJPEGBaseline \<Rightarrow> u8 \<Rightarrow> bool \<times> u8 list" where
  "writeDQT ptr iq pic validMask =
     (case getUsedQuantTablesMask pic of
        None \<Rightarrow> (False, ptr)
      | Some usedMask \<Rightarrow>
          if validMask AND usedMask \<noteq> usedMask then (False, ptr)
          else write_dqt_tables iq usedMask [0, 1, 2, 3] ptr)"

definition writeDRI :: "u8 list \<Rightarrow> u16 \<Rightarrow> u8 list" where
  "writeDRI ptr restartInterval =
     ptr @ [JPEG_MARKER, JPEG_DRI] @ write16be 4 @ write16be restartInterval"

definition writeSOF0 :: "u8 list \<Rightarrow> VAPictureParameterBufferJPEGBaseline \<Rightarrow> u8 list" where
  "writeSOF0 ptr pic =
     ptr @ [JPEG_MARKER, JPEG_SOF0] @ write16be (2 + 1 + 2 + 2 + 1 + ucast (pj_num_components pic) * 3) @
     [8] @ write16be (pj_picture_height pic) @ write16be (pj_picture_width pic) @ [pj_num_components pic] @
     concat (map (\<lambda>c. [fc_component_id c, push_bit 4 (fc_h_sampling_factor c) OR fc_v_sampling_factor c,
                        fc_quantiser_table_selector c])
               (take (unat (pj_num_components pic)) (pj_components pic)))"

definition writeDHT :: "u8 list \<Rightarrow> u8 list \<Rightarrow> u8 list \<Rightarrow> u8 \<Rightarrow> u8 \<Rightarrow> u32 \<Rightarrow> u8 list" where
  "writeDHT ptr bits vals tableClass tableId numVals =
     ptr @ [JPEG_MARKER, JPEG_DHT] @ write16be (ucast (2 + 1 + 16 + numVals)) @
     [push_bit 4 tableClass OR tableId] @ take 16 bits @ take (unat numVals) vals"

definition writeStandardHuffmanTables :: "u8 list \<Rightarrow> u8 list" where
  "writeStandardHuffmanTables ptr =
     (let ptr = writeDHT ptr dcLuminanceBits dcLuminanceVals 0 0 12;
          ptr = writeDHT ptr dcChrominanceBits dcChrominanceVals 0 1 12;
          ptr = writeDHT ptr acLuminanceBits acLuminanceVals 1 0 162
      in writeDHT ptr acChrominanceBits acChrominanceVals 1 1 162)"

fun count_codes :: "u8 list \<Rightarrow> u32 \<Rightarrow> u32 \<Rightarrow> u32 option" where
  "count_codes [] maxVals acc = Some acc"
| "count_codes (c # cs) maxVals acc =
     (if acc + ucast c > maxVals then None else count_codes cs maxVals (acc + ucast c))"

definition countHuffValues :: "u8 list \<Rightarrow> u32 \<Rightarrow> u32 option" where
  "countHuffValues codes maxVals = count_codes (take 16 codes) maxVals 0"

text \<open>One table of one class: nothing when it is not required, \<open>False\<close> when it is unusable.\<close>

definition write_va_table ::
    "u8 \<Rightarrow> u8 \<Rightarrow> u8 \<Rightarrow> u8 list \<Rightarrow> u8 list \<Rightarrow> u8 \<Rightarrow> u32 \<Rightarrow> u8 list \<Rightarrow> bool \<times> u8 list" where
  "write_va_table requiredMask validMask tableIdx codes values tableClass maxVals ptr =
     (if requiredMask AND bit_mask tableIdx \<noteq> 0
      then if validMask AND bit_mask tableIdx = 0 then (False, ptr)
           else (case countHuffValues codes maxVals of
                   None \<Rightarrow> (False, ptr)
                 | Some numValues \<Rightarrow>
                     if numValues = 0 then (False, ptr)
                     else (True, writeDHT ptr codes values tableClass tableIdx numValues))
      else (True, ptr))"

fun write_va_tables ::
    "VAHuffmanTableBufferJPEGBaseline \<Rightarrow> u8 \<Rightarrow> u8 \<Rightarrow> u8 \<Rightarrow> u8 \<Rightarrow> u8 list \<Rightarrow> u8 list \<Rightarrow> bool \<times> u8 list" where
  "write_va_tables huffman requiredDcMask requiredAcMask validDcMask validAcMask [] ptr = (True, ptr)"
| "write_va_tables huffman requiredDcMask requiredAcMask validDcMask validAcMask (t # ts) ptr =
     (let table = hj_huffman_table huffman ! unat t
      in case write_va_table requiredDcMask validDcMask t (ht_num_dc_codes table) (ht_dc_values table) 0 12 ptr of
           (False, ptr) \<Rightarrow> (False, ptr)
         | (True, ptr) \<Rightarrow>
             (case write_va_table requiredAcMask validAcMask t (ht_num_ac_codes table) (ht_ac_values table) 1 162 ptr of
                (False, ptr) \<Rightarrow> (False, ptr)
              | (True, ptr) \<Rightarrow>
                  write_va_tables huffman requiredDcMask requiredAcMask validDcMask validAcMask ts ptr))"

definition writeVAHuffmanTables ::
    "u8 list \<Rightarrow> VAHuffmanTableBufferJPEGBaseline \<Rightarrow> u8 \<Rightarrow> u8 \<Rightarrow> u8 \<Rightarrow> u8 \<Rightarrow> bool \<times> u8 list" where
  "writeVAHuffmanTables ptr huffman requiredDcMask requiredAcMask validDcMask validAcMask =
     write_va_tables huffman requiredDcMask requiredAcMask validDcMask validAcMask [0, 1] ptr"

definition writeSOS :: "u8 list \<Rightarrow> VASliceParameterBufferJPEGBaseline \<Rightarrow> u8 list" where
  "writeSOS ptr sl =
     ptr @ [JPEG_MARKER, JPEG_SOS] @ write16be (2 + 1 + ucast (sj_num_components sl) * 2 + 3) @
     [sj_num_components sl] @
     concat (map (\<lambda>c. [sj_component_selector c, push_bit 4 (sj_dc_table_selector c) OR sj_ac_table_selector c])
               (take (unat (sj_num_components sl)) (sj_components sl))) @
     [0, 63, 0]"

section \<open>Slices\<close>

fun collect_selectors ::
    "VAPictureParameterBufferJPEGBaseline \<Rightarrow> jpeg_scan_component list \<Rightarrow> u8 \<Rightarrow> u8 \<Rightarrow> (u8 \<times> u8) option" where
  "collect_selectors pic [] requiredDcMask requiredAcMask = Some (requiredDcMask, requiredAcMask)"
| "collect_selectors pic (c # cs) requiredDcMask requiredAcMask =
     (if \<not> componentInFrame pic (sj_component_selector c) then None
      else if sj_dc_table_selector c > 1 \<or> sj_ac_table_selector c > 1 then None
      else collect_selectors pic cs (requiredDcMask OR bit_mask (sj_dc_table_selector c))
             (requiredAcMask OR bit_mask (sj_ac_table_selector c)))"

definition validateSliceAndCollectHuffmanUsage ::
    "VAPictureParameterBufferJPEGBaseline \<Rightarrow> VASliceParameterBufferJPEGBaseline \<Rightarrow> u8 \<Rightarrow> u8 \<Rightarrow> (u8 \<times> u8) option" where
  "validateSliceAndCollectHuffmanUsage pic sl requiredDcMask requiredAcMask =
     (if sj_num_components sl = 0 \<or> sj_num_components sl > 4 then None
      else collect_selectors pic (take (unat (sj_num_components sl)) (sj_components sl))
             requiredDcMask requiredAcMask)"

text \<open>The first loop over the slices: total size and the masks of the Huffman tables in use.\<close>

fun validate_slices ::
    "VAPictureParameterBufferJPEGBaseline \<Rightarrow> u32 \<Rightarrow> VASliceParameterBufferJPEGBaseline list \<Rightarrow>
     u64 \<Rightarrow> u8 \<Rightarrow> u8 \<Rightarrow> (u64 \<times> u8 \<times> u8) option" where
  "validate_slices pic sliceDataSize [] totalEcsSize requiredDcMask requiredAcMask =
     Some (totalEcsSize, requiredDcMask, requiredAcMask)"
| "validate_slices pic sliceDataSize (sl # slices) totalEcsSize requiredDcMask requiredAcMask =
     (if sj_slice_data_flag sl \<noteq> VA_SLICE_DATA_FLAG_ALL then None
      else case validateSliceAndCollectHuffmanUsage pic sl requiredDcMask requiredAcMask of
        None \<Rightarrow> None
      | Some (dcMask, acMask) \<Rightarrow>
          if sj_slice_data_offset sl > sliceDataSize then None
          else if sj_slice_data_size sl > sliceDataSize - sj_slice_data_offset sl then None
          else if UINT64_MAX - totalEcsSize < ucast (sj_slice_data_size sl) then None
          else validate_slices pic sliceDataSize slices
                 (totalEcsSize + ucast (sj_slice_data_size sl)) dcMask acMask)"

definition scan_components :: "VASliceParameterBufferJPEGBaseline \<Rightarrow> jpeg_scan_component list" where
  "scan_components sl = take (unat (sj_num_components sl)) (sj_components sl)"

text \<open>The second loop: whether all slices share the scan header and the restart interval.\<close>

definition same_sos_header :: "VASliceParameterBufferJPEGBaseline list \<Rightarrow> bool" where
  "same_sos_header slices \<longleftrightarrow>
     list_all (\<lambda>sl. sj_num_components sl = sj_num_components (slices ! 0) \<and>
                       scan_components sl = scan_components (slices ! 0)) (drop 1 slices)"

definition same_restart_interval :: "VASliceParameterBufferJPEGBaseline list \<Rightarrow> bool" where
  "same_restart_interval slices \<longleftrightarrow>
     list_all (\<lambda>sl. sj_restart_interval sl = sj_restart_interval (slices ! 0)) (drop 1 slices)"

definition ecs_bytes :: "u8 list \<Rightarrow> VASliceParameterBufferJPEGBaseline \<Rightarrow> u8 list" where
  "ecs_bytes sliceData sl =
     take (unat (sj_slice_data_size sl)) (drop (unat (sj_slice_data_offset sl)) sliceData)"

definition write_scans ::
    "VASliceParameterBufferJPEGBaseline list \<Rightarrow> u8 list \<Rightarrow> u8 list \<Rightarrow> u8 list" where
  "write_scans slices sliceData ptr =
     (if same_sos_header slices
      then fold (\<lambda>sl ptr. ptr @ ecs_bytes sliceData sl) slices (writeSOS ptr (slices ! 0))
      else fold (\<lambda>sl ptr.
             let ptr = (if \<not> same_restart_interval slices \<and> sj_restart_interval sl \<noteq> 0
                        then writeDRI ptr (sj_restart_interval sl) else ptr)
             in writeSOS ptr sl @ ecs_bytes sliceData sl) slices ptr)"

definition write_eoi :: "u8 list \<Rightarrow> u8 list" where
  "write_eoi ptr =
     (if length ptr \<ge> 2 \<and> ptr ! (length ptr - 2) = JPEG_MARKER \<and> ptr ! (length ptr - 1) = JPEG_EOI
      then ptr else ptr @ [JPEG_MARKER, JPEG_EOI])"

section \<open>The reconstructed frame\<close>

text \<open>The estimate that the frame buffer is reserved for.\<close>

definition jpeg_max_size :: "u8 \<Rightarrow> u32 \<Rightarrow> u64 \<Rightarrow> u64" where
  "jpeg_max_size num_components sliceCount totalEcsSize =
     (let dqtSize = 4 * (2 + 2 + 1 + 64);
          sof0Size = 2 + 2 + 1 + 2 + 2 + 1 + ucast num_components * 3;
          dhtSize = 2 * ((2 + 2 + 1 + 16 + 12) + (2 + 2 + 1 + 16 + 162));
          driSize = ucast sliceCount * (2 + 2 + 2);
          sosSize = ucast sliceCount * (2 + 2 + 1 + 4 * 2 + 3)
      in of_nat (length jfifHeader) + dqtSize + sof0Size + dhtSize + driSize + sosSize + totalEcsSize + 2)"

text \<open>Everything from the JFIF header to the end marker; \<open>False\<close> is the failure of \<open>writeDQT\<close>.\<close>

definition jpeg_frame ::
    "JPEGContext \<Rightarrow> VASliceParameterBufferJPEGBaseline list \<Rightarrow> u8 list \<Rightarrow> u8 \<Rightarrow> u8 \<Rightarrow> bool \<times> u8 list" where
  "jpeg_frame jpegCtx slices sliceData requiredDcMask requiredAcMask =
     (case writeDQT jfifHeader (jc_iqMatrix jpegCtx) (jc_picParams jpegCtx) (jc_validQuantTablesMask jpegCtx) of
        (False, ptr) \<Rightarrow> (False, ptr)
      | (True, ptr) \<Rightarrow>
          let ptr = writeSOF0 ptr (jc_picParams jpegCtx);
              useVAHuffman = (jc_hasHuffmanTable jpegCtx \<and>
                jc_validHuffmanDcMask jpegCtx AND requiredDcMask = requiredDcMask \<and>
                jc_validHuffmanAcMask jpegCtx AND requiredAcMask = requiredAcMask);
              ptr = (if useVAHuffman
                     then (case writeVAHuffmanTables ptr (jc_huffmanTable jpegCtx) requiredDcMask requiredAcMask
                                  (jc_validHuffmanDcMask jpegCtx) (jc_validHuffmanAcMask jpegCtx) of
                             (True, tmp) \<Rightarrow> tmp
                           | (False, _) \<Rightarrow> writeStandardHuffmanTables ptr)
                     else writeStandardHuffmanTables ptr);
              ptr = (if same_restart_interval slices \<and> sj_restart_interval (slices ! 0) \<noteq> 0
                     then writeDRI ptr (sj_restart_interval (slices ! 0)) else ptr)
          in (True, write_eoi (write_scans slices sliceData ptr)))"

definition put_bytes :: "AppendableBuffer \<Rightarrow> usize \<Rightarrow> u8 list \<Rightarrow> AppendableBuffer" where
  "put_bytes b offset bytes = b\<lparr>ab_buf := Some (write_at (ab_cells b) (unat offset) bytes)\<rparr>"

definition reconstructJPEG ::
    "allocator \<Rightarrow> JPEGContext \<Rightarrow> VASliceParameterBufferJPEGBaseline list \<Rightarrow> u32 \<Rightarrow> u8 list \<Rightarrow> u32 \<Rightarrow>
     AppendableBuffer \<Rightarrow> bool \<times> AppendableBuffer" where
  "reconstructJPEG mem jpegCtx sliceParams sliceCount sliceData sliceDataSize output =
     (let pic = jc_picParams jpegCtx in
      if \<not> jc_hasPicParams jpegCtx \<or> \<not> jc_hasIQMatrix jpegCtx then (False, output)
      else if pj_picture_width pic = 0 \<or> pj_picture_height pic = 0 then (False, output)
      else if pj_num_components pic = 0 \<or> pj_num_components pic > 4 then (False, output)
      else case getUsedQuantTablesMask pic of
        None \<Rightarrow> (False, output)
      | Some usedQuantMask \<Rightarrow>
          if jc_validQuantTablesMask jpegCtx AND usedQuantMask \<noteq> usedQuantMask then (False, output)
          else if sliceCount = 0 then (False, output)
          else
            let slices = take (unat sliceCount) sliceParams
            in case validate_slices pic sliceDataSize slices 0 0 0 of
                 None \<Rightarrow> (False, output)
               | Some (totalEcsSize, requiredDcMask, requiredAcMask) \<Rightarrow>
                   let maxSize64 = jpeg_max_size (pj_num_components pic) sliceCount totalEcsSize
                   in if maxSize64 > SIZE_MAX then (False, output)
                      else
                        let frameOffset = ab_size output
                        in case reserveAdditionalBuffer mem output maxSize64 of
                             (False, out) \<Rightarrow> (False, out)
                           | (True, out) \<Rightarrow>
                               (case jpeg_frame jpegCtx slices sliceData requiredDcMask requiredAcMask of
                                  (False, ptr) \<Rightarrow> (False, put_bytes out frameOffset ptr)
                                | (True, ptr) \<Rightarrow>
                                    let frameSize64 = of_nat (length ptr) :: u64;
                                        out = put_bytes out frameOffset ptr
                                    in if frameSize64 > ucast UINT32_MAX then (False, out)
                                       else if frameOffset > ucast (UINT32_MAX - u64_to_u32 frameSize64)
                                       then (False, out)
                                       else (True, out\<lparr>ab_size := frameOffset + frameSize64\<rparr>)))"

section \<open>The buffer handlers\<close>

record jpeg_ctx =
  jx_ctx :: codec_ctx
  jx_lastSliceParams :: "VASliceParameterBufferJPEGBaseline list option"
  jx_codecData :: "JPEGContext option"

definition zero_pic_params :: VAPictureParameterBufferJPEGBaseline where
  "zero_pic_params =
     \<lparr>pj_picture_width = 0, pj_picture_height = 0,
      pj_components = replicate 255 \<lparr>fc_component_id = 0, fc_h_sampling_factor = 0, fc_v_sampling_factor = 0,
                                     fc_quantiser_table_selector = 0\<rparr>,
      pj_num_components = 0\<rparr>"

definition zero_jpeg_context :: JPEGContext where
  "zero_jpeg_context =
     \<lparr>jc_picParams = zero_pic_params,
      jc_iqMatrix = \<lparr>qj_load_quantiser_table = replicate 4 0, qj_quantiser_table = replicate 4 (replicate 64 0)\<rparr>,
      jc_huffmanTable = \<lparr>hj_load_huffman_table = replicate 2 0,
        hj_huffman_table = replicate 2 \<lparr>ht_num_dc_codes = replicate 16 0, ht_dc_values = replicate 12 0,
                                        ht_num_ac_codes = replicate 16 0, ht_ac_values = replicate 162 0\<rparr>\<rparr>,
      jc_hasPicParams = False, jc_hasIQMatrix = False, jc_hasHuffmanTable = False,
      jc_validQuantTablesMask = 0, jc_validHuffmanDcMask = 0, jc_validHuffmanAcMask = 0\<rparr>"

definition getJPEGContext :: "bool \<Rightarrow> jpeg_ctx \<Rightarrow> bool \<Rightarrow> jpeg_ctx" where
  "getJPEGContext calloc_ok ctx createIfMissing =
     (if jx_codecData ctx = None \<and> createIfMissing
      then if calloc_ok then ctx\<lparr>jx_codecData := Some zero_jpeg_context\<rparr>
           else ctx\<lparr>jx_ctx := (jx_ctx ctx)\<lparr>cx_bitstreamBuffer :=
                  (cx_bitstreamBuffer (jx_ctx ctx))\<lparr>ab_failed := True\<rparr>\<rparr>\<rparr>
      else ctx)"

definition resetJPEGPictureState :: "jpeg_ctx \<Rightarrow> jpeg_ctx" where
  "resetJPEGPictureState ctx =
     ctx\<lparr>jx_codecData := map_option (\<lambda>j. j\<lparr>jc_picParams := zero_pic_params, jc_hasPicParams := False\<rparr>) (jx_codecData ctx),
         jx_lastSliceParams := None,
         jx_ctx := (jx_ctx ctx)\<lparr>cx_lastSliceParamsCount := 0\<rparr>\<rparr>"

definition jpegBeginPicture :: "jpeg_ctx \<Rightarrow> jpeg_ctx" where
  "jpegBeginPicture ctx = resetJPEGPictureState ctx"

definition copyJPEGPicParam ::
    "bool \<Rightarrow> jpeg_ctx \<Rightarrow> VAPictureParameterBufferJPEGBaseline \<Rightarrow> 'c CUVIDPICPARAMS \<Rightarrow> jpeg_ctx \<times> 'c CUVIDPICPARAMS" where
  "copyJPEGPicParam calloc_ok ctx buf picParams =
     (let ctx = getJPEGContext calloc_ok ctx True
      in (ctx\<lparr>jx_codecData := map_option (\<lambda>j. j\<lparr>jc_picParams := buf,
              jc_hasPicParams := pj_picture_width buf \<noteq> 0 \<and> pj_picture_height buf \<noteq> 0 \<and>
                pj_num_components buf > 0 \<and> pj_num_components buf \<le> 4\<rparr>) (jx_codecData ctx)\<rparr>,
          picParams\<lparr>pp_PicWidthInMbs := (uint (pj_picture_width buf) + 15) div 16,
                    pp_FrameHeightInMbs := (uint (pj_picture_height buf) + 15) div 16,
                    pp_field_pic_flag := 0, pp_bottom_field_flag := 0, pp_second_field := 0,
                    pp_intra_pic_flag := 1, pp_ref_pic_flag := 0\<rparr>))"

fun load_quant_tables :: "VAIQMatrixBufferJPEGBaseline \<Rightarrow> u8 list \<Rightarrow> JPEGContext \<Rightarrow> JPEGContext" where
  "load_quant_tables buf [] j = j"
| "load_quant_tables buf (t # ts) j =
     load_quant_tables buf ts
       (if qj_load_quantiser_table buf ! unat t \<noteq> 0
        then j\<lparr>jc_iqMatrix := (jc_iqMatrix j)\<lparr>qj_quantiser_table :=
                 (qj_quantiser_table (jc_iqMatrix j))[unat t := qj_quantiser_table buf ! unat t]\<rparr>,
               jc_validQuantTablesMask := jc_validQuantTablesMask j OR bit_mask t\<rparr>
        else j)"

definition copyJPEGIQMatrix ::
    "bool \<Rightarrow> jpeg_ctx \<Rightarrow> VAIQMatrixBufferJPEGBaseline \<Rightarrow> 'c CUVIDPICPARAMS \<Rightarrow> jpeg_ctx \<times> 'c CUVIDPICPARAMS" where
  "copyJPEGIQMatrix calloc_ok ctx buf picParams =
     (let ctx = getJPEGContext calloc_ok ctx True
      in (ctx\<lparr>jx_codecData := map_option (\<lambda>j.
              let j = load_quant_tables buf [0, 1, 2, 3] j
              in j\<lparr>jc_hasIQMatrix := jc_validQuantTablesMask j \<noteq> 0\<rparr>) (jx_codecData ctx)\<rparr>,
          picParams))"

fun load_huffman_tables :: "VAHuffmanTableBufferJPEGBaseline \<Rightarrow> u8 list \<Rightarrow> JPEGContext \<Rightarrow> JPEGContext" where
  "load_huffman_tables buf [] j = j"
| "load_huffman_tables buf (t # ts) j =
     load_huffman_tables buf ts
       (if hj_load_huffman_table buf ! unat t \<noteq> 0
        then j\<lparr>jc_huffmanTable := (jc_huffmanTable j)\<lparr>hj_huffman_table :=
                 (hj_huffman_table (jc_huffmanTable j))[unat t := hj_huffman_table buf ! unat t]\<rparr>,
               jc_validHuffmanDcMask := jc_validHuffmanDcMask j OR bit_mask t,
               jc_validHuffmanAcMask := jc_validHuffmanAcMask j OR bit_mask t\<rparr>
        else j)"

definition copyJPEGHuffmanTable ::
    "bool \<Rightarrow> jpeg_ctx \<Rightarrow> VAHuffmanTableBufferJPEGBaseline \<Rightarrow> 'c CUVIDPICPARAMS \<Rightarrow> jpeg_ctx \<times> 'c CUVIDPICPARAMS" where
  "copyJPEGHuffmanTable calloc_ok ctx buf picParams =
     (let ctx = getJPEGContext calloc_ok ctx True
      in (ctx\<lparr>jx_codecData := map_option (\<lambda>j.
              let j = load_huffman_tables buf [0, 1] j
              in j\<lparr>jc_hasHuffmanTable :=
                     (jc_validHuffmanDcMask j OR jc_validHuffmanAcMask j) \<noteq> 0\<rparr>) (jx_codecData ctx)\<rparr>,
          picParams))"

definition copyJPEGSliceParam ::
    "jpeg_ctx \<Rightarrow> VASliceParameterBufferJPEGBaseline list \<Rightarrow> NVBuffer \<Rightarrow> 'c CUVIDPICPARAMS \<Rightarrow>
     jpeg_ctx \<times> 'c CUVIDPICPARAMS" where
  "copyJPEGSliceParam ctx slices buf picParams =
     (ctx\<lparr>jx_lastSliceParams := Some slices,
          jx_ctx := (jx_ctx ctx)\<lparr>cx_lastSliceParamsCount := nb_elements buf\<rparr>\<rparr>, picParams)"

definition copyJPEGSliceData ::
    "allocator \<Rightarrow> jpeg_ctx \<Rightarrow> NVBuffer \<Rightarrow> 'c CUVIDPICPARAMS \<Rightarrow> jpeg_ctx \<times> 'c CUVIDPICPARAMS" where
  "copyJPEGSliceData mem ctx buf picParams =
     (let cx = jx_ctx ctx in
      case jx_codecData ctx of
        None \<Rightarrow> (if \<not> ab_failed (cx_bitstreamBuffer cx) then ctx\<lparr>jx_ctx := fail_input cx\<rparr> else ctx, picParams)
      | Some jpegCtx \<Rightarrow>
          if jx_lastSliceParams ctx = None \<or> cx_lastSliceParamsCount cx = 0
          then (ctx\<lparr>jx_ctx := fail_input cx\<rparr>, picParams)
          else if nb_size buf > ucast UINT32_MAX then (ctx\<lparr>jx_ctx := fail_input cx\<rparr>, picParams)
          else if ab_size (cx_bitstreamBuffer cx) > ucast UINT32_MAX
          then (ctx\<lparr>jx_ctx := fail_input cx\<rparr>, picParams)
          else
            let offset = u64_to_u32 (ab_size (cx_bitstreamBuffer cx))
            in case appendBuffer mem (cx_sliceOffsets cx) (Some (le32 offset)) 4 of
                 (False, offs) \<Rightarrow> (ctx\<lparr>jx_ctx := cx\<lparr>cx_sliceOffsets := offs\<rparr>\<rparr>, picParams)
               | (True, offs) \<Rightarrow>
                   (case reconstructJPEG mem jpegCtx (the (jx_lastSliceParams ctx)) (cx_lastSliceParamsCount cx)
                           (case nb_ptr buf of Some bytes \<Rightarrow> bytes | None \<Rightarrow> []) (u64_to_u32 (nb_size buf))
                           (cx_bitstreamBuffer cx) of
                      (False, out) \<Rightarrow>
                        let cx = cx\<lparr>cx_bitstreamBuffer := out,
                                    cx_sliceOffsets := offs\<lparr>ab_size := ab_size offs - 4\<rparr>\<rparr>
                        in (ctx\<lparr>jx_ctx := if \<not> ab_failed out then fail_input cx else cx\<rparr>, picParams)
                    | (True, out) \<Rightarrow>
                        let cx = cx\<lparr>cx_bitstreamBuffer := out, cx_sliceOffsets := offs\<rparr>
                        in case nvCommitCuvidBitstreamLength (Some cx) (Some (picParams\<lparr>pp_nNumSlices := 1\<rparr>)) of
                             (_, Some c, Some pp) \<Rightarrow> (ctx\<lparr>jx_ctx := c\<rparr>, pp)
                           | _ \<Rightarrow> (ctx\<lparr>jx_ctx := cx\<rparr>, picParams)))"

definition computeJPEGCudaCodec :: "VAProfile \<Rightarrow> cudaVideoCodec" where
  "computeJPEGCudaCodec profile =
     (if profile = VAProfileJPEGBaseline then cudaVideoCodec_JPEG else cudaVideoCodec_NONE)"

definition jpegSupportedProfiles :: "VAProfile list" where
  "jpegSupportedProfiles = [VAProfileJPEGBaseline]"

end
