(* ===== verification/JpegFrame.thy ===== *)
theory JpegFrame
  imports Jpeg
begin

text \<open>
  What the JPEG reconstruction of \<open>Jpeg\<close> promises: the frame fits into the reserved space, and a
  reader of JPEG files finds in it the tables, headers and scan data of the picture.

  \<open>parse_segments\<close> reads marker segments (marker, big-endian length, payload) up to the start of
  the first scan; \<open>added\<close> says that a writer appended segments of at most so many bytes.
\<close>

section \<open>Reading marker segments\<close>

definition seg_bytes :: "u8 \<times> u8 list \<Rightarrow> u8 list" where
  "seg_bytes s = [JPEG_MARKER, fst s] @ write16be (of_nat (length (snd s) + 2)) @ snd s"

function parse_segments :: "u8 list \<Rightarrow> ((u8 \<times> u8 list) list \<times> u8 list) option" where
  "parse_segments bytes =
     (if length bytes < 4 \<or> bytes ! 0 \<noteq> JPEG_MARKER then None
      else
        let n = unat (bytes ! 2) * 256 + unat (bytes ! 3);
            rest = drop 4 bytes
        in if n < 2 \<or> length rest < n - 2 then None
           else if bytes ! 1 = JPEG_SOS then Some ([(JPEG_SOS, take (n - 2) rest)], drop (n - 2) rest)
           else map_option (\<lambda>(segs, tail). ((bytes ! 1, take (n - 2) rest) # segs, tail))
                  (parse_segments (drop (n - 2) rest)))"
  by pat_completeness auto
termination by (relation "measure length") auto

declare parse_segments.simps [simp del]

definition header_ok :: "u8 \<times> u8 list \<Rightarrow> bool" where
  "header_ok s \<longleftrightarrow> fst s \<noteq> JPEG_SOS \<and> length (snd s) \<le> 65533"

lemma length_write16be [simp]: "length (write16be v) = 2"
  by (simp add: write16be_def)

lemma length_seg_bytes [simp]: "length (seg_bytes s) = length (snd s) + 4"
  by (simp add: seg_bytes_def)

lemma low_byte: "(ucast (v AND 0xFF) :: u8) = ucast (v :: u16)"
proof -
  have m: "(0xFF :: u16) = mask 8" by (simp add: mask_eq_exp_minus_1)
  show ?thesis unfolding m by (rule bit_word_eqI) (auto simp: bit_simps)
qed

lemma unat_write16be: "unat (write16be v ! 0) * 256 + unat (write16be v ! 1) = unat v"
  using bytes_of_16_bits [of v] by (simp add: write16be_def low_byte)

lemma seg_bytes_nth [simp]:
  "(seg_bytes s @ t) ! 0 = JPEG_MARKER" "(seg_bytes s @ t) ! Suc 0 = fst s" "drop 4 (seg_bytes s) = snd s"
  by (simp_all add: seg_bytes_def write16be_def)

lemma unat_u16_of_nat: "k < 65536 \<Longrightarrow> unat (of_nat k :: u16) = k"
  by (simp add: unat_of_nat take_bit_nat_eq_self)

lemma seg_length_field:
  assumes "length (snd s) \<le> 65533"
  shows "unat ((seg_bytes s @ t) ! 2) * 256 + unat ((seg_bytes s @ t) ! 3) = length (snd s) + 2"
proof -
  have "(seg_bytes s @ t) ! 2 = write16be (of_nat (length (snd s) + 2)) ! 0"
    "(seg_bytes s @ t) ! 3 = write16be (of_nat (length (snd s) + 2)) ! 1"
    by (simp_all add: seg_bytes_def write16be_def)
  moreover have "unat (of_nat (length (snd s) + 2) :: u16) = length (snd s) + 2"
    by (rule unat_u16_of_nat) (use assms in simp)
  ultimately show ?thesis using unat_write16be [of "of_nat (length (snd s) + 2)"] by simp
qed

lemma parse_header:
  assumes "header_ok s"
  shows "parse_segments (seg_bytes s @ t) = map_option (\<lambda>(segs, tail). (s # segs, tail)) (parse_segments t)"
  using assms seg_length_field [of s t]
  by (subst parse_segments.simps) (cases s, auto simp: header_ok_def Let_def)

lemma parse_scan:
  assumes "fst s = JPEG_SOS" "length (snd s) \<le> 65533"
  shows "parse_segments (seg_bytes s @ t) = Some ([s], t)"
  using assms seg_length_field [of s t]
  by (subst parse_segments.simps) (cases s, auto simp: Let_def)

lemma parse_headers:
  assumes "list_all header_ok segs" "fst s = JPEG_SOS" "length (snd s) \<le> 65533"
  shows "parse_segments (concat (map seg_bytes segs) @ seg_bytes s @ t) = Some (segs @ [s], t)"
  using assms(1) by (induction segs) (simp_all add: parse_header parse_scan assms(2,3))

section \<open>Writers append segments\<close>

definition added :: "nat \<Rightarrow> (u8 \<times> u8 list) list \<Rightarrow> u8 list \<Rightarrow> u8 list \<Rightarrow> bool" where
  "added k segs ptr ptr' \<longleftrightarrow>
     ptr' = ptr @ concat (map seg_bytes segs) \<and> list_all header_ok segs \<and>
     length (concat (map seg_bytes segs)) \<le> k"

lemma added_none [simp]: "added k [] ptr ptr"
  by (simp add: added_def)

lemma added_trans: "added k s p p1 \<Longrightarrow> added l t p1 p2 \<Longrightarrow> added (k + l) (s @ t) p p2"
  by (simp add: added_def)

lemma added_mono: "added k s p p1 \<Longrightarrow> k \<le> l \<Longrightarrow> added l s p p1"
  by (simp add: added_def)

lemma added_one: "header_ok s \<Longrightarrow> length (snd s) + 4 \<le> k \<Longrightarrow> added k [s] p (p @ seg_bytes s)"
  by (simp add: added_def)

definition dqt_of :: "u8 list list \<Rightarrow> u8 \<Rightarrow> u8 \<times> u8 list" where
  "dqt_of tables t = (JPEG_DQT, t # tables ! unat t)"

definition sof_of :: "VAPictureParameterBufferJPEGBaseline \<Rightarrow> u8 \<times> u8 list" where
  "sof_of pic =
     (JPEG_SOF0, [8] @ write16be (pj_picture_height pic) @ write16be (pj_picture_width pic) @ [pj_num_components pic] @
        concat (map (\<lambda>c. [fc_component_id c, push_bit 4 (fc_h_sampling_factor c) OR fc_v_sampling_factor c,
                           fc_quantiser_table_selector c])
                  (take (unat (pj_num_components pic)) (pj_components pic))))"

definition dht_of :: "u8 \<Rightarrow> u8 \<Rightarrow> u8 list \<Rightarrow> u8 list \<Rightarrow> u8 \<times> u8 list" where
  "dht_of tableClass tableId bits vals = (JPEG_DHT, (push_bit 4 tableClass OR tableId) # bits @ vals)"

definition dri_of :: "u16 \<Rightarrow> u8 \<times> u8 list" where
  "dri_of restartInterval = (JPEG_DRI, write16be restartInterval)"

definition sos_of :: "VASliceParameterBufferJPEGBaseline \<Rightarrow> u8 \<times> u8 list" where
  "sos_of sl =
     (JPEG_SOS, [sj_num_components sl] @
        concat (map (\<lambda>c. [sj_component_selector c, push_bit 4 (sj_dc_table_selector c) OR sj_ac_table_selector c])
                  (scan_components sl)) @ [0, 63, 0])"

definition jfif_seg :: "u8 \<times> u8 list" where
  "jfif_seg = (JPEG_APP0, [0x4A, 0x46, 0x49, 0x46, 0x00, 0x01, 0x01, 0x00, 0x00, 0x01, 0x00, 0x01, 0x00, 0x00])"

lemma length_concat_const: "(\<And>x. x \<in> set xs \<Longrightarrow> length (f x) = k) \<Longrightarrow> length (concat (map f xs)) = length xs * k"
  by (induction xs) simp_all

lemma jfif_header_seg: "jfifHeader = [JPEG_MARKER, JPEG_SOI] @ seg_bytes jfif_seg" "header_ok jfif_seg"
  "length jfifHeader = 20"
  by (simp_all add: jfifHeader_def seg_bytes_def jfif_seg_def write16be_def header_ok_def)

lemma dqt_segment_seg:
  "length (tables ! unat t) = 64 \<Longrightarrow> dqt_segment t (tables ! unat t) = seg_bytes (dqt_of tables t)"
  "length (tables ! unat t) = 64 \<Longrightarrow> header_ok (dqt_of tables t)"
  by (simp_all add: dqt_segment_def seg_bytes_def dqt_of_def header_ok_def)

lemma writeDRI_seg: "writeDRI ptr r = ptr @ seg_bytes (dri_of r)" "header_ok (dri_of r)"
  by (simp_all add: writeDRI_def seg_bytes_def dri_of_def header_ok_def)

lemma unat_ucast_u8_u16 [simp]: "unat (ucast (n :: u8) :: u16) = unat n"
  using unat_u8_less [of n] by (simp add: unsigned_ucast_eq take_bit_eq_mod)

lemma writeSOF0_seg:
  assumes "unat (pj_num_components pic) \<le> length (pj_components pic)"
  shows "writeSOF0 ptr pic = ptr @ seg_bytes (sof_of pic)" "header_ok (sof_of pic)"
    "length (snd (sof_of pic)) = 6 + 3 * unat (pj_num_components pic)"
proof -
  show l: "length (snd (sof_of pic)) = 6 + 3 * unat (pj_num_components pic)"
    using assms by (simp add: sof_of_def length_concat_const [where k = 3])
  then show "header_ok (sof_of pic)"
    using unat_u8_less [of "pj_num_components pic"] by (simp add: header_ok_def sof_of_def)
  have "2 + 1 + 2 + 2 + 1 + ucast (pj_num_components pic) * 3 = (of_nat (length (snd (sof_of pic)) + 2) :: u16)"
    unfolding l by simp
  then show "writeSOF0 ptr pic = ptr @ seg_bytes (sof_of pic)"
    by (simp add: writeSOF0_def seg_bytes_def) (simp add: sof_of_def)
qed

lemma scan_components_length:
  "unat (sj_num_components sl) \<le> length (sj_components sl) \<Longrightarrow>
   length (scan_components sl) = unat (sj_num_components sl)"
  by (simp add: scan_components_def)

lemma writeSOS_seg:
  assumes "unat (sj_num_components sl) \<le> length (sj_components sl)"
  shows "writeSOS ptr sl = ptr @ seg_bytes (sos_of sl)" "fst (sos_of sl) = JPEG_SOS"
    "length (snd (sos_of sl)) = 4 + 2 * unat (sj_num_components sl)" "length (snd (sos_of sl)) \<le> 65533"
proof -
  show l: "length (snd (sos_of sl)) = 4 + 2 * unat (sj_num_components sl)"
    using scan_components_length [OF assms]
    by (simp add: sos_of_def length_concat_const [where k = 2])
  then show "length (snd (sos_of sl)) \<le> 65533"
    using unat_u8_less [of "sj_num_components sl"] by simp
  show "fst (sos_of sl) = JPEG_SOS" by (simp add: sos_of_def)
  have "2 + 1 + ucast (sj_num_components sl) * 2 + 3 = (of_nat (length (snd (sos_of sl)) + 2) :: u16)"
    unfolding l by simp
  then show "writeSOS ptr sl = ptr @ seg_bytes (sos_of sl)"
    by (simp add: writeSOS_def seg_bytes_def) (simp add: sos_of_def scan_components_def)
qed

lemma writeDHT_seg:
  assumes "16 \<le> length bits" "unat numVals \<le> length vals" "unat numVals \<le> 162"
  shows "writeDHT ptr bits vals tableClass tableId numVals =
      ptr @ seg_bytes (dht_of tableClass tableId (take 16 bits) (take (unat numVals) vals))"
    "header_ok (dht_of tableClass tableId (take 16 bits) (take (unat numVals) vals))"
    "length (snd (dht_of tableClass tableId (take 16 bits) (take (unat numVals) vals))) = 17 + unat numVals"
proof -
  show l: "length (snd (dht_of tableClass tableId (take 16 bits) (take (unat numVals) vals))) = 17 + unat numVals"
    using assms by (simp add: dht_of_def)
  then show "header_ok (dht_of tableClass tableId (take 16 bits) (take (unat numVals) vals))"
    using assms(3) by (simp add: header_ok_def dht_of_def)
  have "unat (2 + 1 + 16 + numVals) = 19 + unat numVals"
    using assms(3) unat_add_no_overflow [of "19 :: u32" numVals] by simp
  then have "unat (ucast (2 + 1 + 16 + numVals) :: u16) = 19 + unat numVals"
    using assms(3) by (simp add: unsigned_ucast_eq take_bit_eq_mod)
  moreover have "unat (of_nat (17 + unat numVals + 2) :: u16) = 19 + unat numVals"
    using assms(3) by (simp add: unat_u16_of_nat del: of_nat_add)
  ultimately have "(ucast (2 + 1 + 16 + numVals) :: u16) =
      of_nat (length (snd (dht_of tableClass tableId (take 16 bits) (take (unat numVals) vals))) + 2)"
    unfolding l by (simp only: word_unat_eq_iff)
  then show "writeDHT ptr bits vals tableClass tableId numVals =
      ptr @ seg_bytes (dht_of tableClass tableId (take 16 bits) (take (unat numVals) vals))"
    by (simp add: writeDHT_def seg_bytes_def) (simp add: dht_of_def)
qed

lemma writeDHT_added:
  assumes "length bits = 16" "unat numVals \<le> length vals" "unat numVals \<le> n" "n \<le> 162"
  shows "added (21 + n) [dht_of tableClass tableId bits (take (unat numVals) vals)] ptr
           (writeDHT ptr bits vals tableClass tableId numVals)"
proof -
  have t: "16 \<le> length bits" "unat numVals \<le> 162" "take 16 bits = bits" using assms by simp_all
  show ?thesis
    unfolding writeDHT_seg(1) [OF t(1) assms(2) t(2)] t(3)
    by (rule added_one) (use writeDHT_seg(2,3) [OF t(1) assms(2) t(2)] t(3) assms(3) in simp_all)
qed

section \<open>Masks\<close>

lemma bit_bit_mask: "bit (bit_mask t) i \<longleftrightarrow> i = unat t \<and> i < 8"
  by (auto simp: bit_mask_def bit_simps)

lemma and_bit_mask: 
  assumes "unat t < 8"
  shows "m AND bit_mask t = 0 \<longleftrightarrow> \<not> bit m (unat t)"
proof
  assume "m AND bit_mask t = 0"
  then have "\<not> bit (m AND bit_mask t) (unat t)" by simp
  then show "\<not> bit m (unat t)" using assms by (simp add: bit_simps bit_bit_mask)
next
  assume "\<not> bit m (unat t)"
  then show "m AND bit_mask t = 0" by (intro bit_word_eqI) (auto simp: bit_simps bit_bit_mask)
qed

lemma mask_subset: "m AND u = (u :: u8) \<longleftrightarrow> (\<forall>i. bit u i \<longrightarrow> bit m i)"
proof
  assume m: "m AND u = u"
  show "\<forall>i. bit u i \<longrightarrow> bit m i" by (metis m bit_and_iff)
next
  assume "\<forall>i. bit u i \<longrightarrow> bit m i"
  then show "m AND u = u" by (intro bit_word_eqI) (auto simp: bit_simps)
qed

lemma used_mask_bits:
  assumes "used_mask cs m = Some u"
  shows "(\<forall>c \<in> set cs. unat (fc_quantiser_table_selector c) < 4 \<and> bit u (unat (fc_quantiser_table_selector c))) \<and>
    (\<forall>i. bit m i \<longrightarrow> bit u i)"
  using assms
proof (induction cs arbitrary: m)
  case (Cons c cs)
  from Cons.prems have s: "\<not> 4 \<le> fc_quantiser_table_selector c"
    and u: "used_mask cs (m OR bit_mask (fc_quantiser_table_selector c)) = Some u"
    by (auto split: if_splits)
  have "unat (fc_quantiser_table_selector c) < 4" using s by (simp add: word_nat)
  then show ?case using Cons.IH [OF u] by (auto simp: bit_simps bit_bit_mask)
qed simp

section \<open>The tables of a frame\<close>

definition jpeg_shapes :: "JPEGContext \<Rightarrow> bool" where
  "jpeg_shapes j \<longleftrightarrow>
     length (pj_components (jc_picParams j)) = 255 \<and>
     length (qj_quantiser_table (jc_iqMatrix j)) = 4 \<and>
     (\<forall>t \<in> set (qj_quantiser_table (jc_iqMatrix j)). length t = 64) \<and>
     length (hj_huffman_table (jc_huffmanTable j)) = 2 \<and>
     (\<forall>h \<in> set (hj_huffman_table (jc_huffmanTable j)).
        length (ht_num_dc_codes h) = 16 \<and> length (ht_dc_values h) = 12 \<and>
        length (ht_num_ac_codes h) = 16 \<and> length (ht_ac_values h) = 162)"

lemma write_dqt_added:
  assumes "\<And>t. t \<in> set ts \<Longrightarrow> length (qj_quantiser_table iq ! unat t) = 64"
    and "write_dqt_tables iq usedMask ts ptr = (ok, ptr')"
  obtains ts' where "added (69 * length ts) (map (dqt_of (qj_quantiser_table iq)) ts') ptr ptr'"
    "ok \<Longrightarrow> ts' = filter (\<lambda>t. usedMask AND bit_mask t \<noteq> 0) ts"
  using assms
proof (induction ts arbitrary: ptr thesis)
  case Nil
  then show ?case by simp
next
  case (Cons t ts)
  note shape = Cons.prems(2)
  show ?case
  proof (cases "usedMask AND bit_mask t = 0")
    case True
    then have "write_dqt_tables iq usedMask ts ptr = (ok, ptr')" using Cons.prems(3) by simp
    then obtain ts' where "added (69 * length ts) (map (dqt_of (qj_quantiser_table iq)) ts') ptr ptr'"
      "ok \<Longrightarrow> ts' = filter (\<lambda>t. usedMask AND bit_mask t \<noteq> 0) ts"
      using Cons.IH shape by (metis list.set_intros(2))
    then show ?thesis using True Cons.prems(1) [of ts'] by (simp add: added_mono)
  next
    case used: False
    show ?thesis
    proof (cases "quant_sum (qj_quantiser_table iq ! unat t) = 0")
      case True
      then show ?thesis using used Cons.prems(1) [of "[]"] Cons.prems(3) by simp
    next
      case False
      define p1 where "p1 = ptr @ dqt_segment t (qj_quantiser_table iq ! unat t)"
      have l: "length (qj_quantiser_table iq ! unat t) = 64" using shape by simp
      have a: "added 69 [dqt_of (qj_quantiser_table iq) t] ptr p1"
        unfolding p1_def dqt_segment_seg(1) [OF l]
        by (rule added_one [OF dqt_segment_seg(2) [OF l]]) (simp add: dqt_of_def l)
      have "write_dqt_tables iq usedMask ts p1 = (ok, ptr')"
        using Cons.prems(3) used False by (simp add: p1_def)
      then obtain ts' where t: "added (69 * length ts) (map (dqt_of (qj_quantiser_table iq)) ts') p1 ptr'"
        "ok \<Longrightarrow> ts' = filter (\<lambda>t. usedMask AND bit_mask t \<noteq> 0) ts"
        using Cons.IH shape by (metis list.set_intros(2))
      show ?thesis
        using added_trans [OF a t(1)] t(2) used Cons.prems(1) [of "t # ts'"] by simp
    qed
  qed
qed

lemma count_codes_le: "count_codes cs m acc = Some k \<Longrightarrow> acc \<le> m \<Longrightarrow> k \<le> m"
  by (induction cs arbitrary: acc) (auto split: if_splits)

definition tables_for :: "u8 \<Rightarrow> u8 \<Rightarrow> u8 \<Rightarrow> (u8 \<times> u8 list) list \<Rightarrow> bool" where
  "tables_for tableClass required t segs \<longleftrightarrow>
     (bit required (unat t) \<longrightarrow> (\<exists>bits vals. dht_of tableClass t bits vals \<in> set segs))"

lemma tables_for_append:
  "tables_for k m t s \<Longrightarrow> tables_for k m t (s @ s')" "tables_for k m t s' \<Longrightarrow> tables_for k m t (s @ s')"
  by (auto simp: tables_for_def)

lemma write_va_table_added:
  assumes run: "write_va_table required valid t codes values tableClass maxVals ptr = (ok, ptr')"
    and shape: "length codes = 16" "length values = unat maxVals" "unat maxVals \<le> 162" "unat t < 8"
  obtains segs where "added (21 + unat maxVals) segs ptr ptr'" "ok \<Longrightarrow> tables_for tableClass required t segs"
proof (cases "required AND bit_mask t \<noteq> 0 \<and> valid AND bit_mask t \<noteq> 0")
  case False
  then have "ptr' = ptr" "ok \<Longrightarrow> required AND bit_mask t = 0"
    using run by (auto simp: write_va_table_def split: if_splits)
  then show thesis using that [of "[]"] and_bit_mask [OF shape(4)] by (auto simp: tables_for_def)
next
  case need: True
  show thesis
  proof (cases "countHuffValues codes maxVals = None \<or> countHuffValues codes maxVals = Some 0")
    case True
    then have "ptr' = ptr" "\<not> ok" using run need by (auto simp: write_va_table_def)
    then show thesis using that [of "[]"] by simp
  next
    case False
    then obtain k where k: "countHuffValues codes maxVals = Some k" "k \<noteq> 0" by auto
    then have r: "ptr' = writeDHT ptr codes values tableClass t k" using run need by (auto simp: write_va_table_def)
    have "k \<le> maxVals" using k(1) by (auto simp: countHuffValues_def intro: count_codes_le)
    then have le: "unat k \<le> unat maxVals" by (simp add: word_nat)
    show thesis
      by (rule that [of "[dht_of tableClass t codes (take (unat k) values)]"])
        (use writeDHT_added [OF shape(1) _ le shape(3)] le shape(2) in \<open>auto simp: r tables_for_def\<close>)
  qed
qed

lemma write_va_step:
  assumes run: "write_va_tables hf dc ac vdc vac (t # ts) ptr = (ok, ptr')" and t: "unat t < 8"
    and shape: "length (ht_num_dc_codes h) = 16" "length (ht_dc_values h) = 12"
      "length (ht_num_ac_codes h) = 16" "length (ht_ac_values h) = 162" "h = hj_huffman_table hf ! unat t"
  obtains segs p1 where "added 216 segs ptr p1" "\<not> ok \<and> ptr' = p1 \<or> write_va_tables hf dc ac vdc vac ts p1 = (ok, ptr')"
    "ptr' \<noteq> p1 \<or> ok \<Longrightarrow> tables_for 0 dc t segs \<and> tables_for 1 ac t segs"
proof -
  obtain ok1 p1 where r1: "write_va_table dc vdc t (ht_num_dc_codes h) (ht_dc_values h) 0 12 ptr = (ok1, p1)"
    by force
  obtain s1 where s1: "added (21 + unat (12 :: u32)) s1 ptr p1" "ok1 \<Longrightarrow> tables_for 0 dc t s1"
    by (rule write_va_table_added [OF r1]) (use shape t in auto)
  obtain ok2 p2 where r2: "write_va_table ac vac t (ht_num_ac_codes h) (ht_ac_values h) 1 162 p1 = (ok2, p2)"
    by force
  obtain s2 where s2: "added (21 + unat (162 :: u32)) s2 p1 p2" "ok2 \<Longrightarrow> tables_for 1 ac t s2"
    by (rule write_va_table_added [OF r2]) (use shape t in auto)
  have a: "added 216 (s1 @ s2) ptr p2" using added_trans [OF s1(1) s2(1)] by simp
  show thesis
  proof (cases ok1)
    case False
    have "added 216 s1 ptr p1" using added_mono [OF s1(1)] by simp
    then show thesis using False run r1 shape(5) by (intro that [of s1 p1]) (auto simp: Let_def)
  next
    case ok1: True
    show thesis
      using run r1 r2 shape(5) ok1 s1(2) s2(2) a
      by (cases ok2; intro that [of "s1 @ s2" p2]) (auto simp: Let_def intro: tables_for_append)
  qed
qed

lemma shapes_table:
  assumes "jpeg_shapes j" "i < 2"
  defines "h \<equiv> hj_huffman_table (jc_huffmanTable j) ! i"
  shows "length (ht_num_dc_codes h) = 16" "length (ht_dc_values h) = 12"
    "length (ht_num_ac_codes h) = 16" "length (ht_ac_values h) = 162"
proof -
  have "h \<in> set (hj_huffman_table (jc_huffmanTable j))" using assms by (simp add: jpeg_shapes_def)
  then show "length (ht_num_dc_codes h) = 16" "length (ht_dc_values h) = 12"
    "length (ht_num_ac_codes h) = 16" "length (ht_ac_values h) = 162"
    using assms(1) by (auto simp: jpeg_shapes_def)
qed

definition all_tables :: "u8 \<Rightarrow> u8 \<Rightarrow> (u8 \<times> u8 list) list \<Rightarrow> bool" where
  "all_tables dc ac segs \<longleftrightarrow>
     tables_for 0 dc 0 segs \<and> tables_for 1 ac 0 segs \<and> tables_for 0 dc 1 segs \<and> tables_for 1 ac 1 segs"

lemma va_huffman_added:
  assumes "writeVAHuffmanTables ptr (jc_huffmanTable j) dc ac vdc vac = (True, ptr')" and "jpeg_shapes j"
  obtains segs where "added 432 segs ptr ptr'" "all_tables dc ac segs"
proof -
  have run: "write_va_tables (jc_huffmanTable j) dc ac vdc vac (0 # [1]) ptr = (True, ptr')"
    using assms(1) by (simp add: writeVAHuffmanTables_def)
  obtain s1 p1 where s1: "added 216 s1 ptr p1" "write_va_tables (jc_huffmanTable j) dc ac vdc vac [1] p1 = (True, ptr')"
    "tables_for 0 dc 0 s1" "tables_for 1 ac 0 s1"
    by (rule write_va_step [OF run, of "hj_huffman_table (jc_huffmanTable j) ! 0"])
      (use shapes_table [OF assms(2), of 0] in simp_all)
  obtain s2 p2 where s2: "added 216 s2 p1 p2" "p2 = ptr'" "tables_for 0 dc 1 s2" "tables_for 1 ac 1 s2"
    by (rule write_va_step [OF s1(2), of "hj_huffman_table (jc_huffmanTable j) ! 1"])
      (use shapes_table [OF assms(2), of 1] in simp_all)
  show thesis
    by (rule that [of "s1 @ s2"])
      (use added_trans [OF s1(1) s2(1)] s1 s2 in \<open>auto simp: all_tables_def intro: tables_for_append\<close>)
qed

lemma standard_lengths [simp]:
  "length dcLuminanceBits = 16" "length dcLuminanceVals = 12" "length dcChrominanceBits = 16"
  "length dcChrominanceVals = 12" "length acLuminanceBits = 16" "length acLuminanceVals = 162"
  "length acChrominanceBits = 16" "length acChrominanceVals = 162"
  by (simp_all add: dcLuminanceBits_def dcLuminanceVals_def dcChrominanceBits_def dcChrominanceVals_def
      acLuminanceBits_def acLuminanceVals_def acChrominanceBits_def acChrominanceVals_def)

lemma standard_huffman_added:
  obtains segs where "added 432 segs ptr (writeStandardHuffmanTables ptr)" "all_tables dc ac segs"
proof -
  note d = writeDHT_added [where n = 12 and numVals = "12 :: u32"]
    and a = writeDHT_added [where n = 162 and numVals = "162 :: u32"]
  obtain p1 p2 p3 where p: "p1 = writeDHT ptr dcLuminanceBits dcLuminanceVals 0 0 12"
    "p2 = writeDHT p1 dcChrominanceBits dcChrominanceVals 0 1 12"
    "p3 = writeDHT p2 acLuminanceBits acLuminanceVals 1 0 162" by simp
  let ?s = "[dht_of 0 0 dcLuminanceBits dcLuminanceVals, dht_of 0 1 dcChrominanceBits dcChrominanceVals,
    dht_of 1 0 acLuminanceBits acLuminanceVals, dht_of 1 1 acChrominanceBits acChrominanceVals]"
  have w: "added 33 [dht_of 0 0 dcLuminanceBits dcLuminanceVals] ptr p1"
    "added 33 [dht_of 0 1 dcChrominanceBits dcChrominanceVals] p1 p2"
    "added 183 [dht_of 1 0 acLuminanceBits acLuminanceVals] p2 p3"
    "added 183 [dht_of 1 1 acChrominanceBits acChrominanceVals] p3 (writeStandardHuffmanTables ptr)"
    using d [of dcLuminanceBits dcLuminanceVals 0 0 ptr] d [of dcChrominanceBits dcChrominanceVals 0 1 p1]
      a [of acLuminanceBits acLuminanceVals 1 0 p2] a [of acChrominanceBits acChrominanceVals 1 1 p3]
    by (simp_all add: p writeStandardHuffmanTables_def)
  have "added 432 ?s ptr (writeStandardHuffmanTables ptr)"
    using added_trans [OF added_trans [OF w(1,2)] added_trans [OF w(3,4)]] by simp
  moreover have "all_tables dc ac ?s" unfolding all_tables_def tables_for_def list.set by blast
  ultimately show thesis by (rule that)
qed

section \<open>Slices\<close>

definition slice_ok :: "VAPictureParameterBufferJPEGBaseline \<Rightarrow> u32 \<Rightarrow> u8 \<Rightarrow> u8 \<Rightarrow> VASliceParameterBufferJPEGBaseline \<Rightarrow> bool" where
  "slice_ok pic dataSize dc ac sl \<longleftrightarrow>
     0 < unat (sj_num_components sl) \<and> unat (sj_num_components sl) \<le> 4 \<and>
     unat (sj_slice_data_offset sl) + unat (sj_slice_data_size sl) \<le> unat dataSize \<and>
     (\<forall>c \<in> set (scan_components sl). componentInFrame pic (sj_component_selector c) \<and>
        unat (sj_dc_table_selector c) \<le> 1 \<and> unat (sj_ac_table_selector c) \<le> 1 \<and>
        bit dc (unat (sj_dc_table_selector c)) \<and> bit ac (unat (sj_ac_table_selector c)))"

lemma unat_le_one_cases: "unat (t :: u8) \<le> 1 \<Longrightarrow> t = 0 \<or> t = 1"
  using word_unat_eq_iff [of t 0] word_unat_eq_iff [of t 1] by fastforce

definition covers :: "u8 \<Rightarrow> u8 \<Rightarrow> bool" where
  "covers m m' \<longleftrightarrow> (\<forall>i. bit m i \<longrightarrow> bit m' i)"

lemma slice_ok_covers: "slice_ok pic n dc ac sl \<Longrightarrow> covers dc dc' \<Longrightarrow> covers ac ac' \<Longrightarrow> slice_ok pic n dc' ac' sl"
  by (auto simp: slice_ok_def covers_def)

lemma covers_or: "covers m (m OR x)" "covers (m OR x) m' \<Longrightarrow> covers m m'" "covers m m" "covers a b \<Longrightarrow> covers b d \<Longrightarrow> covers a d"
  by (auto simp: covers_def bit_simps)

lemma collect_selectors_ok:
  assumes "collect_selectors pic cs dc ac = Some (dc', ac')"
  shows "covers dc dc' \<and> covers ac ac' \<and>
    (\<forall>c \<in> set cs. componentInFrame pic (sj_component_selector c) \<and>
        unat (sj_dc_table_selector c) \<le> 1 \<and> unat (sj_ac_table_selector c) \<le> 1 \<and>
        bit dc' (unat (sj_dc_table_selector c)) \<and> bit ac' (unat (sj_ac_table_selector c)))"
  using assms
proof (induction cs arbitrary: dc ac)
  case (Cons c cs)
  from Cons.prems have c: "componentInFrame pic (sj_component_selector c)"
    "\<not> sj_dc_table_selector c > 1" "\<not> sj_ac_table_selector c > 1"
    and r: "collect_selectors pic cs (dc OR bit_mask (sj_dc_table_selector c)) (ac OR bit_mask (sj_ac_table_selector c)) = Some (dc', ac')"
    by (auto split: if_splits)
  note ih = Cons.IH [OF r]
  have s: "unat (sj_dc_table_selector c) \<le> 1" "unat (sj_ac_table_selector c) \<le> 1"
    using c(2,3) by (simp_all add: word_nat)
  have "bit dc' (unat (sj_dc_table_selector c))" "bit ac' (unat (sj_ac_table_selector c))"
    using ih s by (auto simp: covers_def bit_simps bit_bit_mask)
  then show ?case using ih c(1) s covers_or(2) by auto
qed (simp add: covers_or)

definition ecs_total :: "VASliceParameterBufferJPEGBaseline list \<Rightarrow> nat" where
  "ecs_total slices = sum_list (map (\<lambda>sl. unat (sj_slice_data_size sl)) slices)"

lemma validate_slices_ok:
  assumes "validate_slices pic n slices bytes dc ac = Some (bytes', dc', ac')"
  shows "unat bytes' = unat bytes + ecs_total slices \<and> covers dc dc' \<and> covers ac ac' \<and>
    (\<forall>sl \<in> set slices. slice_ok pic n dc' ac' sl)"
  using assms
proof (induction slices arbitrary: bytes dc ac)
  case (Cons sl slices)
  obtain dc1 ac1 where v: "validateSliceAndCollectHuffmanUsage pic sl dc ac = Some (dc1, ac1)"
    and o: "\<not> sj_slice_data_offset sl > n" "\<not> sj_slice_data_size sl > n - sj_slice_data_offset sl"
    and u: "\<not> UINT64_MAX - bytes < ucast (sj_slice_data_size sl)"
    and r: "validate_slices pic n slices (bytes + ucast (sj_slice_data_size sl)) dc1 ac1 = Some (bytes', dc', ac')"
    using Cons.prems by (auto split: if_splits option.splits)
  note ih = Cons.IH [OF r]
  have "unat bytes + unat (sj_slice_data_size sl) < 2 ^ 64"
    using u unat_u64_less [of bytes] by (simp add: word_nat size_max_minus)
  then have t: "unat (bytes + ucast (sj_slice_data_size sl)) = unat bytes + unat (sj_slice_data_size sl)"
    by (subst unat_add_no_overflow) simp_all
  have m: "\<not> (sj_num_components sl = 0 \<or> sj_num_components sl > 4)"
    and cs: "collect_selectors pic (scan_components sl) dc ac = Some (dc1, ac1)"
    using v by (auto simp: validateSliceAndCollectHuffmanUsage_def scan_components_def split: if_splits)
  have "unat (sj_slice_data_offset sl) + unat (sj_slice_data_size sl) \<le> unat n"
    using o unat_sub_le [of "sj_slice_data_offset sl" n] by (simp add: word_nat not_less)
  then have "slice_ok pic n dc1 ac1 sl"
    using m collect_selectors_ok [OF cs] by (auto simp: slice_ok_def word_nat)
  then have "slice_ok pic n dc' ac' sl" using ih by (auto intro: slice_ok_covers)
  then show ?case
    using ih t collect_selectors_ok [OF cs] covers_or(4) by (auto simp: ecs_total_def)
qed (simp add: ecs_total_def covers_or)

lemma length_ecs_bytes:
  "slice_ok pic n dc ac sl \<Longrightarrow> unat n \<le> length data \<Longrightarrow>
   length (ecs_bytes data sl) = unat (sj_slice_data_size sl)"
  by (auto simp: ecs_bytes_def slice_ok_def min_def)

lemma fold_append: "fold (\<lambda>x p. p @ f x) xs p = p @ concat (map f xs)"
  by (induction xs arbitrary: p) simp_all

lemma write_scans_same:
  "same_sos_header slices \<Longrightarrow>
   write_scans slices data p = writeSOS p (slices ! 0) @ concat (map (ecs_bytes data) slices)"
  by (simp add: write_scans_def fold_append)

lemma length_ecs_total:
  assumes "\<And>sl. sl \<in> set slices \<Longrightarrow> slice_ok pic n dc ac sl" "unat n \<le> length data"
  shows "length (concat (map (ecs_bytes data) slices)) = ecs_total slices"
proof -
  have "map length (map (ecs_bytes data) slices) = map (\<lambda>sl. unat (sj_slice_data_size sl)) slices"
    using length_ecs_bytes [OF assms(1) assms(2)] by simp
  then show ?thesis unfolding ecs_total_def length_concat by metis
qed

definition slice_shape :: "VASliceParameterBufferJPEGBaseline \<Rightarrow> bool" where
  "slice_shape sl \<longleftrightarrow> length (sj_components sl) = 4"

lemma length_writeSOS:
  assumes "slice_ok pic n dc ac sl" "slice_shape sl"
  shows "length (writeSOS p sl) \<le> length p + 16"
proof -
  have "unat (sj_num_components sl) \<le> length (sj_components sl)" "unat (sj_num_components sl) \<le> 4"
    using assms by (simp_all add: slice_ok_def slice_shape_def)
  then show ?thesis using writeSOS_seg(1,3) [of sl] by simp
qed

lemma length_writeDRI: "length (writeDRI p r) = length p + 6"
  by (simp add: writeDRI_def)

lemma length_separate_scans:
  assumes "\<And>sl. sl \<in> set slices \<Longrightarrow> slice_ok pic n dc ac sl \<and> slice_shape sl" "unat n \<le> length data"
  shows "length (fold (\<lambda>sl ptr. let ptr = (if dri \<and> sj_restart_interval sl \<noteq> 0
      then writeDRI ptr (sj_restart_interval sl) else ptr) in writeSOS ptr sl @ ecs_bytes data sl) slices p) \<le>
    length p + (if dri then 22 else 16) * length slices + ecs_total slices"
  using assms(1)
proof (induction slices arbitrary: p)
  case (Cons sl slices)
  define q where "q = (if dri \<and> sj_restart_interval sl \<noteq> 0 then writeDRI p (sj_restart_interval sl) else p)"
  have q: "length q \<le> length p + (if dri then 6 else 0)" by (simp add: q_def length_writeDRI)
  have "length (writeSOS q sl @ ecs_bytes data sl) \<le> length q + 16 + unat (sj_slice_data_size sl)"
    using length_writeSOS [of "pic" n dc ac sl q] length_ecs_bytes [of pic n dc ac sl data] Cons.prems [of sl] assms(2)
    by simp
  then show ?case
    using Cons.IH [of "writeSOS q sl @ ecs_bytes data sl"] Cons.prems q
    by (auto simp: Let_def q_def [symmetric] ecs_total_def split: if_splits)
qed (simp add: ecs_total_def)

lemma length_write_scans:
  assumes "\<And>sl. sl \<in> set slices \<Longrightarrow> slice_ok pic n dc ac sl \<and> slice_shape sl" "unat n \<le> length data"
    and "slices \<noteq> []"
  shows "length (write_scans slices data p) \<le>
    length p + (if same_restart_interval slices then 16 else 22) * length slices + ecs_total slices"
proof (cases "same_sos_header slices")
  case True
  have "0 < length slices" using assms(3) by simp
  moreover have "length (writeSOS p (slices ! 0)) \<le> length p + 16"
    using assms(1) [of "slices ! 0"] assms(3) length_writeSOS [of pic n dc ac "slices ! 0" p] by simp
  moreover have "length (concat (map (ecs_bytes data) slices)) = ecs_total slices"
    using length_ecs_total assms(1,2) by blast
  ultimately show ?thesis
    unfolding write_scans_same [OF True] length_append by (cases "length slices") simp_all
next
  case False
  show ?thesis
    using length_separate_scans [where slices = slices and pic = pic and n = n and dc = dc and ac = ac and data = data
      and dri = "\<not> same_restart_interval slices" and p = p, OF assms(1,2)] False
    by (simp add: write_scans_def split: if_splits)
qed

lemma length_write_eoi: "length (write_eoi p) \<le> length p + 2"
  by (simp add: write_eoi_def)

section \<open>The frame\<close>

definition frame_headers ::
    "JPEGContext \<Rightarrow> VASliceParameterBufferJPEGBaseline list \<Rightarrow> u8 \<Rightarrow> (u8 \<times> u8 list) list \<Rightarrow> (u8 \<times> u8 list) list" where
  "frame_headers j slices used huffman =
     jfif_seg # map (dqt_of (qj_quantiser_table (jc_iqMatrix j))) (filter (\<lambda>t. used AND bit_mask t \<noteq> 0) [0, 1, 2, 3]) @
     [sof_of (jc_picParams j)] @ huffman @
     (if same_restart_interval slices \<and> sj_restart_interval (slices ! 0) \<noteq> 0
      then [dri_of (sj_restart_interval (slices ! 0))] else [])"

lemma jpeg_frame_segments:
  assumes shapes: "jpeg_shapes j" and run: "jpeg_frame j slices data dc ac = (ok, ptr)"
    and slices: "slices \<noteq> []" "\<And>sl. sl \<in> set slices \<Longrightarrow> slice_ok (jc_picParams j) n dc ac sl \<and> slice_shape sl"
    and data: "unat n \<le> length data"
  shows "length ptr \<le> 740 + 3 * unat (pj_num_components (jc_picParams j)) + 22 * length slices + ecs_total slices"
    and "ok \<Longrightarrow> \<exists>used huffman. getUsedQuantTablesMask (jc_picParams j) = Some used \<and> all_tables dc ac huffman \<and>
           list_all header_ok (frame_headers j slices used huffman) \<and>
           ptr = write_eoi (write_scans slices data
             ([JPEG_MARKER, JPEG_SOI] @ concat (map seg_bytes (frame_headers j slices used huffman))))"
proof -
  define pic where "pic = jc_picParams j"
  define iq where "iq = jc_iqMatrix j"
  have tables: "length (qj_quantiser_table iq ! unat t) = 64" if "t \<in> set [0, 1, 2, 3 :: u8]" for t
  proof -
    have "qj_quantiser_table iq ! unat t \<in> set (qj_quantiser_table iq)"
      using that shapes by (intro nth_mem) (auto simp: jpeg_shapes_def iq_def)
    then show ?thesis using shapes by (simp add: jpeg_shapes_def iq_def)
  qed
  obtain ok1 p1 where r1: "writeDQT jfifHeader iq pic (jc_validQuantTablesMask j) = (ok1, p1)" by force
  obtain ts where d: "added 276 (map (dqt_of (qj_quantiser_table iq)) ts) jfifHeader p1"
    and used: "ok1 \<Longrightarrow> \<exists>used. getUsedQuantTablesMask pic = Some used \<and> ts = filter (\<lambda>t. used AND bit_mask t \<noteq> 0) [0, 1, 2, 3]"
  proof (cases "\<exists>u. getUsedQuantTablesMask pic = Some u \<and> jc_validQuantTablesMask j AND u = u")
    case False
    then have "p1 = jfifHeader" "\<not> ok1" using r1 by (auto simp: writeDQT_def split: option.splits if_splits)
    then show thesis using that [of "[]"] by simp
  next
    case True
    then obtain u where u: "getUsedQuantTablesMask pic = Some u" "jc_validQuantTablesMask j AND u = u" by blast
    have "write_dqt_tables iq u [0, 1, 2, 3] jfifHeader = (ok1, p1)"
      using r1 u by (simp add: writeDQT_def)
    then obtain ts where "added (69 * length [0, 1, 2, 3 :: u8]) (map (dqt_of (qj_quantiser_table iq)) ts) jfifHeader p1"
      "ok1 \<Longrightarrow> ts = filter (\<lambda>t. u AND bit_mask t \<noteq> 0) [0, 1, 2, 3]"
      using write_dqt_added [OF tables] by blast
    then show thesis using that [of ts] u by auto
  qed
  have l1: "length p1 \<le> 296" using d by (simp add: added_def jfif_header_seg(3))
  have stage: "length ptr \<le> 740 + 3 * unat (pj_num_components pic) + 22 * length slices + ecs_total slices \<and>
      (ok \<longrightarrow> (\<exists>used huffman. getUsedQuantTablesMask pic = Some used \<and> all_tables dc ac huffman \<and>
           list_all header_ok (frame_headers j slices used huffman) \<and>
           ptr = write_eoi (write_scans slices data
             ([JPEG_MARKER, JPEG_SOI] @ concat (map seg_bytes (frame_headers j slices used huffman))))))"
  proof (cases ok1)
    case False
    then show ?thesis using run r1 l1 by (simp add: jpeg_frame_def pic_def iq_def)
  next
    case True
    obtain used where u: "getUsedQuantTablesMask pic = Some used" "ts = filter (\<lambda>t. used AND bit_mask t \<noteq> 0) [0, 1, 2, 3]"
      using used True by blast
    have comps: "unat (pj_num_components pic) \<le> length (pj_components pic)"
      using shapes unat_u8_less [of "pj_num_components pic"] by (simp add: jpeg_shapes_def pic_def)
    define p2 where "p2 = writeSOF0 p1 pic"
    have f: "added (10 + 3 * unat (pj_num_components pic)) [sof_of pic] p1 p2"
      unfolding p2_def writeSOF0_seg(1) [OF comps]
      by (rule added_one) (use writeSOF0_seg(2,3) [OF comps] in simp_all)
    define p3 where "p3 = (if jc_hasHuffmanTable j \<and> jc_validHuffmanDcMask j AND dc = dc \<and> jc_validHuffmanAcMask j AND ac = ac
      then (case writeVAHuffmanTables p2 (jc_huffmanTable j) dc ac (jc_validHuffmanDcMask j) (jc_validHuffmanAcMask j) of
              (True, tmp) \<Rightarrow> tmp | (False, _) \<Rightarrow> writeStandardHuffmanTables p2)
      else writeStandardHuffmanTables p2)"
    obtain hs where h: "added 432 hs p2 p3" "all_tables dc ac hs"
    proof (cases "p3 = writeStandardHuffmanTables p2")
      case True
      then show thesis using standard_huffman_added [of p2 dc ac] that by metis
    next
      case False
      then have "writeVAHuffmanTables p2 (jc_huffmanTable j) dc ac (jc_validHuffmanDcMask j) (jc_validHuffmanAcMask j) = (True, p3)"
        by (auto simp: p3_def split: prod.splits bool.splits if_splits)
      then show thesis using va_huffman_added [OF _ shapes] that by metis
    qed
    define dri where "dri = (if same_restart_interval slices \<and> sj_restart_interval (slices ! 0) \<noteq> 0
      then [dri_of (sj_restart_interval (slices ! 0))] else [])"
    define p4 where "p4 = (if same_restart_interval slices \<and> sj_restart_interval (slices ! 0) \<noteq> 0
      then writeDRI p3 (sj_restart_interval (slices ! 0)) else p3)"
    have r: "added (if same_restart_interval slices then 6 else 0) dri p3 p4"
      using added_one [OF writeDRI_seg(2)] by (simp add: p4_def dri_def writeDRI_seg(1) dri_of_def)
    note all = added_trans [OF added_trans [OF added_trans [OF d f] h(1)] r]
    have p: "p4 = [JPEG_MARKER, JPEG_SOI] @ concat (map seg_bytes (frame_headers j slices used hs))"
      "list_all header_ok (frame_headers j slices used hs)"
      using all jfif_header_seg(1,2) by (simp_all add: added_def frame_headers_def u(2) dri_def pic_def iq_def)
    have "length p4 \<le> 738 + 3 * unat (pj_num_components pic) + (if same_restart_interval slices then 6 else 0)"
      using all by (simp add: added_def jfif_header_seg(3) split: if_splits)
    moreover have "0 < length slices" using slices(1) by simp
    moreover note length_write_scans [OF slices(2) data slices(1), of p4]
      length_write_eoi [of "write_scans slices data p4"]
    moreover have "jpeg_frame j slices data dc ac = (True, write_eoi (write_scans slices data p4))"
      using r1 True by (simp only: jpeg_frame_def pic_def iq_def p2_def p3_def p4_def Let_def prod.case bool.case)
    then have o: "ok" "ptr = write_eoi (write_scans slices data p4)" using run by simp_all
    ultimately have "length ptr \<le> 740 + 3 * unat (pj_num_components pic) + 22 * length slices + ecs_total slices"
      unfolding o(2) by (cases "length slices") (simp_all split: if_splits)
    then show ?thesis using u(1) h(2) p o by blast
  qed
  then show "length ptr \<le> 740 + 3 * unat (pj_num_components (jc_picParams j)) + 22 * length slices + ecs_total slices"
    unfolding pic_def by simp
  assume ok
  then show "\<exists>used huffman. getUsedQuantTablesMask (jc_picParams j) = Some used \<and> all_tables dc ac huffman \<and>
           list_all header_ok (frame_headers j slices used huffman) \<and>
           ptr = write_eoi (write_scans slices data
             ([JPEG_MARKER, JPEG_SOI] @ concat (map seg_bytes (frame_headers j slices used huffman))))"
    using stage unfolding pic_def by blast
qed

section \<open>The size estimate\<close>

lemma ecs_total_le:
  "(\<And>sl. sl \<in> set slices \<Longrightarrow> slice_ok pic n dc ac sl) \<Longrightarrow> ecs_total slices \<le> length slices * unat n"
  by (induction slices) (force simp: ecs_total_def slice_ok_def)+

lemma unat_jpeg_max_size:
  assumes "unat sliceCount < 2 ^ 31" "unat bytes \<le> 2 ^ 63"
  shows "unat (jpeg_max_size num sliceCount bytes) = 740 + 3 * unat num + 22 * unat sliceCount + unat bytes"
proof -
  have "jpeg_max_size num sliceCount bytes = of_nat (740 + 3 * unat num + 22 * unat sliceCount + unat bytes)"
    by (simp add: jpeg_max_size_def Let_def jfif_header_seg(3))
  moreover have "740 + 3 * unat num + 22 * unat sliceCount + unat bytes < 2 ^ 64"
    using assms unat_u8_less [of num] by simp
  ultimately show ?thesis by (simp add: unat_of_nat take_bit_nat_eq_self del: of_nat_add of_nat_mult)
qed

lemma put_bytes_ok:
  assumes "ab_wf b" "unat (ab_size b) + length xs \<le> unat (ab_allocated b)"
  shows "ab_wf (put_bytes b (ab_size b) xs)" "ab_bytes (put_bytes b (ab_size b) xs) = ab_bytes b"
    "ab_wf (put_bytes b (ab_size b) xs\<lparr>ab_size := ab_size b + of_nat (length xs)\<rparr>)"
    "ab_bytes (put_bytes b (ab_size b) xs\<lparr>ab_size := ab_size b + of_nat (length xs)\<rparr>) = ab_bytes b @ xs"
proof -
  have l: "length (ab_cells b) = unat (ab_allocated b)" using assms(1) by (simp add: ab_wf_def)
  have n: "unat (of_nat (length xs) :: u64) = length xs"
    using assms(2) unat_u64_less [of "ab_allocated b"] by (simp add: unat_of_nat take_bit_nat_eq_self)
  have s: "unat (ab_size b + of_nat (length xs)) = unat (ab_size b) + length xs"
    using assms(2) unat_u64_less [of "ab_allocated b"] n by (subst unat_add_no_overflow) simp_all
  show "ab_wf (put_bytes b (ab_size b) xs)" "ab_bytes (put_bytes b (ab_size b) xs) = ab_bytes b"
    using assms l by (simp_all add: ab_wf_def ab_bytes_def put_bytes_def)
  show "ab_wf (put_bytes b (ab_size b) xs\<lparr>ab_size := ab_size b + of_nat (length xs)\<rparr>)"
    "ab_bytes (put_bytes b (ab_size b) xs\<lparr>ab_size := ab_size b + of_nat (length xs)\<rparr>) = ab_bytes b @ xs"
    using assms l s by (simp_all add: ab_wf_def ab_bytes_def put_bytes_def word_le_nat_alt)
qed

section \<open>Reconstruction\<close>

text \<open>What an accepted picture is rebuilt to.\<close>

definition jpeg_rebuilt ::
    "JPEGContext \<Rightarrow> VASliceParameterBufferJPEGBaseline list \<Rightarrow> u32 \<Rightarrow> u8 list \<Rightarrow> u8 list \<Rightarrow> bool" where
  "jpeg_rebuilt j slices dataSize data frame \<longleftrightarrow>
     slices \<noteq> [] \<and> length frame \<le> 740 + 3 * unat (pj_num_components (jc_picParams j)) + 22 * length slices + ecs_total slices \<and>
     (\<exists>dc ac used huffman. getUsedQuantTablesMask (jc_picParams j) = Some used \<and> all_tables dc ac huffman \<and>
        (\<forall>sl \<in> set slices. slice_ok (jc_picParams j) dataSize dc ac sl \<and> slice_shape sl) \<and>
        list_all header_ok (frame_headers j slices used huffman) \<and>
        frame = write_eoi (write_scans slices data
          ([JPEG_MARKER, JPEG_SOI] @ concat (map seg_bytes (frame_headers j slices used huffman)))))"

lemma reconstruct_cases:
  assumes run: "reconstructJPEG mem j params n data dataSize out = (ok, out')"
  obtains (rejected) "\<not> ok" "out' = out"
  | (started) bytes dc ac out1 ok1
    where "n \<noteq> 0" "validate_slices (jc_picParams j) dataSize (take (unat n) params) 0 0 0 = Some (bytes, dc, ac)"
      "reserveAdditionalBuffer mem out (jpeg_max_size (pj_num_components (jc_picParams j)) n bytes) = (ok1, out1)"
      "\<not> ok1 \<and> \<not> ok \<and> out' = out1 \<or>
       ok1 \<and> (\<exists>ok2 ptr. jpeg_frame j (take (unat n) params) data dc ac = (ok2, ptr) \<and> (ok \<longrightarrow> ok2) \<and>
         out' = (if ok then put_bytes out1 (ab_size out) ptr\<lparr>ab_size := ab_size out + of_nat (length ptr)\<rparr>
                 else put_bytes out1 (ab_size out) ptr))"
  using run unfolding reconstructJPEG_def Let_def
  by (auto split: if_splits option.splits prod.splits bool.splits)

lemma reconstruct_spec:
  assumes run: "reconstructJPEG mem j params n data dataSize out = (ok, out')"
    and wf: "ab_wf out" "alloc_block mem" "jpeg_shapes j"
    and params: "list_all slice_shape params" "unat n \<le> length params" "unat n < 2 ^ 31"
    and data: "unat dataSize \<le> length data"
  shows "ab_wf out' \<and> (if ok then \<exists>frame. ab_bytes out' = ab_bytes out @ frame \<and>
    jpeg_rebuilt j (take (unat n) params) dataSize data frame else ab_bytes out' = ab_bytes out)"
  using run
proof (cases rule: reconstruct_cases)
  case rejected
  then show ?thesis using wf(1) by simp
next
  case (started bytes dc ac out1 ok1)
  define slices where "slices = take (unat n) params"
  have l: "length slices = unat n" using params(2) by (simp add: slices_def)
  have ne: "slices \<noteq> []" using started(1) l by (auto simp: unat_eq_0)
  have v: "unat bytes = ecs_total slices" "\<And>sl. sl \<in> set slices \<Longrightarrow> slice_ok (jc_picParams j) dataSize dc ac sl"
    using validate_slices_ok [OF started(2)] by (simp_all add: slices_def)
  have shape: "\<And>sl. sl \<in> set slices \<Longrightarrow> slice_ok (jc_picParams j) dataSize dc ac sl \<and> slice_shape sl"
    using v(2) params(1) by (auto simp: list_all_iff slices_def dest: in_set_takeD)
  have "ecs_total slices \<le> unat n * unat dataSize" using ecs_total_le [where slices = slices, OF v(2)] l by simp
  also have "\<dots> \<le> 2 ^ 31 * 2 ^ 32"
    by (rule mult_le_mono) (use params(3) unat_u32_less [of dataSize] in simp_all)
  finally have "unat bytes \<le> 2 ^ 63" using v(1) by simp
  note size = unat_jpeg_max_size [OF params(3) this, of "pj_num_components (jc_picParams j)"]
  show ?thesis
  proof (cases ok1)
    case False
    then have "out1 = out\<lparr>ab_failed := True\<rparr>"
      using started(3) by (auto simp: reserveAdditionalBuffer_fail)
    then show ?thesis using started(4) False wf(1) by auto
  next
    case True
    then have res: "reserveAdditionalBuffer mem out (jpeg_max_size (pj_num_components (jc_picParams j)) n bytes) = (True, out1)"
      using started(3) by simp
    note r = reserveAdditionalBuffer_ok [OF wf(1,2) res]
    obtain ok2 ptr where f: "jpeg_frame j slices data dc ac = (ok2, ptr)" "ok \<Longrightarrow> ok2"
      "out' = (if ok then put_bytes out1 (ab_size out) ptr\<lparr>ab_size := ab_size out + of_nat (length ptr)\<rparr>
               else put_bytes out1 (ab_size out) ptr)"
      using started(4) True by (auto simp: slices_def)
    note seg = jpeg_frame_segments [where n = dataSize, OF wf(3) f(1) ne _ data, OF shape]
    have "unat (ab_size out1) + length ptr \<le> unat (ab_allocated out1)"
      using seg(1) r(3,5) size v(1) l by simp
    note p = put_bytes_ok [OF r(1) this, unfolded r(2,3)]
    show ?thesis
    proof (cases ok)
      case True
      have "jpeg_rebuilt j slices dataSize data ptr"
        unfolding jpeg_rebuilt_def using ne seg(1) seg(2) [OF _ f(2) [OF True]] shape by blast
      then show ?thesis using p f(3) True by (auto simp: slices_def)
    next
      case False
      then show ?thesis using p f(3) by simp
    qed
  qed
qed

lemma write_eoi_tail: "write_eoi (p @ 0 # e) = p @ 0 # write_eoi e"
proof (cases "2 \<le> length e")
  case True
  have nth: "(p @ 0 # e) ! (length p + Suc k) = e ! k" for k by (simp add: nth_append)
  have "length (p @ 0 # e) - 2 = length p + Suc (length e - 2)"
    "length (p @ 0 # e) - 1 = length p + Suc (length e - 1)"
    using True by simp_all
  then have "(p @ 0 # e) ! (length (p @ 0 # e) - 2) = e ! (length e - 2)"
    "(p @ 0 # e) ! (length (p @ 0 # e) - 1) = e ! (length e - 1)"
    by (simp_all only: nth)
  then show ?thesis using True by (simp add: write_eoi_def)
next
  case False
  then consider "e = []" | x where "e = [x]" by (cases e; cases "tl e") auto
  then show ?thesis by cases (simp_all add: write_eoi_def nth_append)
qed

lemma sos_ends: "\<exists>p. seg_bytes (sos_of sl) = p @ [0]"
  by (simp add: seg_bytes_def sos_of_def)

section \<open>A sample picture\<close>

definition sample_jpeg :: JPEGContext where
  "sample_jpeg = zero_jpeg_context
     \<lparr>jc_picParams := zero_pic_params
        \<lparr>pj_picture_width := 16, pj_picture_height := 16, pj_num_components := 1,
         pj_components := replicate 255 \<lparr>fc_component_id = 1, fc_h_sampling_factor = 1, fc_v_sampling_factor = 1,
                                         fc_quantiser_table_selector = 0\<rparr>\<rparr>,
      jc_iqMatrix := \<lparr>qj_load_quantiser_table = [1, 0, 0, 0], qj_quantiser_table = replicate 4 (replicate 64 1)\<rparr>,
      jc_hasPicParams := True, jc_hasIQMatrix := True, jc_validQuantTablesMask := 1\<rparr>"

definition sample_scan :: VASliceParameterBufferJPEGBaseline where
  "sample_scan =
     \<lparr>sj_slice_data_size = 3, sj_slice_data_offset = 0, sj_slice_data_flag = 0,
      sj_components = replicate 4 \<lparr>sj_component_selector = 1, sj_dc_table_selector = 0, sj_ac_table_selector = 1\<rparr>,
      sj_num_components = 1, sj_restart_interval = 2\<rparr>"

abbreviation sample_memory :: allocator where "sample_memory \<equiv> \<lambda>n. Some (replicate (unat n) 0)"

lemma sample_jpeg_ok: "jpeg_shapes sample_jpeg" "list_all slice_shape [sample_scan]" "alloc_block sample_memory"
  by (simp_all add: sample_jpeg_def zero_jpeg_context_def zero_pic_params_def jpeg_shapes_def sample_scan_def
      slice_shape_def alloc_block_def)

lemma sample_size: "ab_size ab_empty = 0"
  by (simp add: ab_empty_def)

lemma sample_reserve: "fst (reserveAdditionalBuffer sample_memory ab_empty n)"
  by (simp add: reserveAdditionalBuffer_def reserveBuffer_def ab_empty_def Let_def)

lemma sample_frame: "\<exists>ptr. jpeg_frame sample_jpeg [sample_scan] [7, 8, 9] 1 2 = (True, ptr)"
proof -
  have "quant_sum (replicate 64 1) = 64"
    by (simp add: quant_sum_def eval_nat_numeral)
  then show ?thesis
    by (simp add: jpeg_frame_def writeDQT_def getUsedQuantTablesMask_def sample_jpeg_def zero_jpeg_context_def
        zero_pic_params_def bit_mask_def Let_def)
qed

lemma sample_validated:
  "validate_slices (jc_picParams sample_jpeg) 3 [sample_scan] 0 0 0 = Some (3, 1, 2)"
  "getUsedQuantTablesMask (jc_picParams sample_jpeg) = Some 1"
  by (simp_all add: sample_jpeg_def zero_jpeg_context_def zero_pic_params_def sample_scan_def
      validateSliceAndCollectHuffmanUsage_def componentInFrame_def bit_mask_def getUsedQuantTablesMask_def)

lemma sample_reconstructed:
  "\<exists>out. reconstructJPEG sample_memory sample_jpeg [sample_scan] 1 [7, 8, 9] 3 ab_empty = (True, out)"
proof -
  obtain ptr where f: "jpeg_frame sample_jpeg [sample_scan] [7, 8, 9] 1 2 = (True, ptr)" using sample_frame by blast
  have v: "\<And>sl. sl \<in> set [sample_scan] \<Longrightarrow> slice_ok (jc_picParams sample_jpeg) 3 1 2 sl \<and> slice_shape sl"
    using validate_slices_ok [OF sample_validated(1)] sample_jpeg_ok(2) by simp
  have "length ptr \<le> 740 + 3 * unat (pj_num_components (jc_picParams sample_jpeg)) + 22 * length [sample_scan] +
      ecs_total [sample_scan]"
    by (rule jpeg_frame_segments(1) [OF sample_jpeg_ok(1) f _ v]) simp_all
  then have l: "length ptr < 1000"
    by (simp add: sample_jpeg_def zero_jpeg_context_def zero_pic_params_def sample_scan_def ecs_total_def)
  then have n: "unat (of_nat (length ptr) :: u64) = length ptr" by (simp add: unat_of_nat take_bit_nat_eq_self)
  have c: "pj_num_components (jc_picParams sample_jpeg) = 1" "pj_picture_width (jc_picParams sample_jpeg) = 16"
    "pj_picture_height (jc_picParams sample_jpeg) = 16" "jc_hasPicParams sample_jpeg" "jc_hasIQMatrix sample_jpeg"
    "jc_validQuantTablesMask sample_jpeg = 1"
    by (simp_all add: sample_jpeg_def zero_jpeg_context_def zero_pic_params_def)
  have u: "\<not> (of_nat (length ptr) :: u64) > ucast UINT32_MAX" using l n by (simp add: word_nat)
  have m: "\<not> SIZE_MAX < jpeg_max_size 1 1 3"
    using unat_u64_less [of "jpeg_max_size 1 1 3"] by (simp add: word_nat)
  obtain out where "reserveAdditionalBuffer sample_memory ab_empty (jpeg_max_size 1 1 3) = (True, out)"
    using sample_reserve [of "jpeg_max_size 1 1 3"] by (cases "reserveAdditionalBuffer sample_memory ab_empty (jpeg_max_size 1 1 3)") simp
  then show ?thesis
    using f m u by (simp add: reconstructJPEG_def c sample_validated sample_size Let_def del: validate_slices.simps)
qed

section \<open>The properties\<close>

text \<open>C6. 
  The frame that \<open>reconstructJPEG\<close> writes stays inside the space that its size estimate
  reserves, whatever tables, slices and entropy-coded bytes the client passes: the buffer is well
  formed afterwards (a write beyond the allocation would break this), an accepted picture appends
  at most 740 + 3 components + 22 slices + scan bytes, and a rejected one leaves the bytes in use
  unchanged. The arrays have their declared lengths, the slice data buffer holds the size it is
  given with, and there are fewer than \<open>2 ^ 31\<close> slices (beyond that the estimate could wrap).
\<close>

theorem jpeg_frame_fits:
  assumes "reconstructJPEG mem j params n data dataSize out = (ok, out')"
    and "ab_wf out" "alloc_block mem" "jpeg_shapes j"
    and "list_all slice_shape params" "unat n \<le> length params" "unat n < 2 ^ 31"
    and "unat dataSize \<le> length data"
  shows "ab_wf out' \<and>
    (if ok then \<exists>frame. ab_bytes out' = ab_bytes out @ frame \<and>
        length frame \<le> 740 + 3 * unat (pj_num_components (jc_picParams j)) + 22 * unat n +
          ecs_total (take (unat n) params)
     else ab_bytes out' = ab_bytes out)"
  using reconstruct_spec [OF assms] assms(6) by (auto simp: jpeg_rebuilt_def min_def split: if_splits)


lemma jpeg_frame_fits_witness:
  "ab_wf (snd (reconstructJPEG sample_memory sample_jpeg [sample_scan] 1 [7, 8, 9] 3 ab_empty))"
  using jpeg_frame_fits [of sample_memory sample_jpeg "[sample_scan]" 1 "[7, 8, 9]" 3 ab_empty, OF prod.collapse [symmetric]]
    sample_jpeg_ok
  by simp


end
