(* ===== verification/VaObjects.thy ===== *)
theory VaObjects
  imports ObjectTableInv Formats Picture
begin

text \<open>
  Buffers and images of the VA-API (\<open>src/vabackend.c\<close>): the pool that recycles buffer memory
  (\<open>allocateBufferMemory\<close>, \<open>releaseBufferMemory\<close>, \<open>destroyBufferPool\<close>), the calls on buffers and
  images, and the object helpers that all calls share.

  \<open>vo_table\<close> is the object table; the payload of an object is its address, and
  \<open>vo_buffers\<close>, \<open>vo_images\<close> hold what stands there. \<open>vo_heap\<close> is the memory of buffers that the
  allocator has handed out and not got back, by address. A list of \<open>vo_pool\<close> is the chain
  of free blocks of one class; the link that the code stores in the first bytes of a free block is the
  order of this list. The answers of the allocators are in \<open>va_alloc\<close>: \<open>al_payload\<close>,
  \<open>al_payload2\<close> the addresses of new objects, \<open>al_memalign\<close> a new block with the bytes it happens to
  hold. Locks, logging and statistics are left out; a call is one step.
\<close>

section \<open>State\<close>

abbreviation OBJECT_TYPE_CONFIG :: u8 where "OBJECT_TYPE_CONFIG \<equiv> 0"
abbreviation OBJECT_TYPE_CONTEXT :: u8 where "OBJECT_TYPE_CONTEXT \<equiv> 1"
abbreviation OBJECT_TYPE_SURFACE :: u8 where "OBJECT_TYPE_SURFACE \<equiv> 2"
abbreviation OBJECT_TYPE_BUFFER :: u8 where "OBJECT_TYPE_BUFFER \<equiv> 3"
abbreviation OBJECT_TYPE_IMAGE :: u8 where "OBJECT_TYPE_IMAGE \<equiv> 4"
abbreviation VAImageBufferType :: int where "VAImageBufferType \<equiv> 9"

record VaBuffer =
  vb_elements :: u32
  vb_elementSize :: usize
  vb_size :: usize
  vb_bufferType :: int
  vb_ownerContextId :: u32
  vb_imageOwned :: bool
  vb_ptr :: "u64 option"
  vb_capacity :: usize
  vb_poolClass :: int

record NVImage =
  vi_width :: u32
  vi_height :: u32
  vi_format :: NVFormat
  vi_imageBuffer :: nat
  vi_imageBufferId :: u32

record VAImage =
  im_image_id :: u32
  im_buf :: u32
  im_fourcc :: u32
  im_width :: u32
  im_height :: u32
  im_data_size :: u32
  im_num_planes :: u32
  im_pitches :: "u32 list"
  im_offsets :: "u32 list"

record va_alloc =
  al_realloc :: "usize \<Rightarrow> bool"
  al_calloc :: "usize \<Rightarrow> bool"
  al_payload :: nat
  al_payload2 :: nat
  al_memalign :: "usize \<Rightarrow> (u64 \<times> u8 list) option"

record VaObjects =
  vo_table :: "nat NVDObjectTable"
  vo_terminating :: bool
  vo_buffers :: "nat \<Rightarrow> VaBuffer"
  vo_images :: "nat \<Rightarrow> NVImage"
  vo_heap :: "u64 \<Rightarrow> u8 list option"
  vo_pool :: "u64 list list"
  vo_poolCounts :: "u32 list"
  vo_poolBytes :: u64
  vo_poolMaxBytes :: u64

definition upd_buffer :: "nat \<Rightarrow> (VaBuffer \<Rightarrow> VaBuffer) \<Rightarrow> VaObjects \<Rightarrow> VaObjects" where
  "upd_buffer p f d = d\<lparr>vo_buffers := (vo_buffers d)(p := f (vo_buffers d p))\<rparr>"

section \<open>Object helpers\<close>

definition allocateObject :: "va_alloc \<Rightarrow> nat \<Rightarrow> u8 \<Rightarrow> usize \<Rightarrow> VaObjects \<Rightarrow> nat NVDObject option \<times> VaObjects" where
  "allocateObject al payload type allocatePtrSize d =
     (if vo_terminating d then (None, d)
      else case nvdObjectTableAllocate (al_realloc al) (al_calloc al) payload (vo_table d) type allocatePtrSize of
             (newObj, t) \<Rightarrow> (newObj, d\<lparr>vo_table := t\<rparr>))"

definition getObject :: "u8 \<Rightarrow> u32 \<Rightarrow> VaObjects \<Rightarrow> nat NVDObject option" where
  "getObject type i d =
     (if i \<noteq> VA_INVALID_ID \<and> \<not> vo_terminating d then nvdObjectTableGet (vo_table d) type i else None)"

definition getObjectPtr :: "u8 \<Rightarrow> u32 \<Rightarrow> VaObjects \<Rightarrow> nat option" where
  "getObjectPtr type i d =
     (if i \<noteq> VA_INVALID_ID
      then (case getObject type i d of Some o' \<Rightarrow> obj_payload o' | None \<Rightarrow> None)
      else None)"

definition deleteObject :: "u32 \<Rightarrow> VaObjects \<Rightarrow> VaObjects" where
  "deleteObject i d =
     (if i = VA_INVALID_ID then d else d\<lparr>vo_table := snd (nvdObjectTableRemove (vo_table d) i)\<rparr>)"

section \<open>Buffer memory\<close>

definition checkedMultiplySize :: "usize \<Rightarrow> usize \<Rightarrow> usize option" where
  "checkedMultiplySize l r = (if l \<noteq> 0 \<and> r > SIZE_MAX div l then None else Some (l * r))"

definition checkedAddSize :: "usize \<Rightarrow> usize \<Rightarrow> usize option" where
  "checkedAddSize l r = (if l > SIZE_MAX - r then None else Some (l + r))"

definition bufferPoolClassSizes :: "usize list" where
  "bufferPoolClassSizes =
     [4 * 1024, 8 * 1024, 16 * 1024, 32 * 1024, 64 * 1024, 128 * 1024, 256 * 1024, 512 * 1024,
      1024 * 1024, 2 * 1024 * 1024, 4 * 1024 * 1024]"

fun class_from :: "int \<Rightarrow> usize list \<Rightarrow> usize \<Rightarrow> int" where
  "class_from i [] n = -1"
| "class_from i (c # cs) n = (if n \<le> c then i else class_from (i + 1) cs n)"

definition bufferPoolClassForSize :: "usize \<Rightarrow> int" where
  "bufferPoolClassForSize n = class_from 0 bufferPoolClassSizes n"

definition pool_take :: "int \<Rightarrow> usize \<Rightarrow> VaObjects \<Rightarrow> u64 option \<times> VaObjects" where
  "pool_take poolClass capacity d =
     (if poolClass \<ge> 0
      then case vo_pool d ! nat poolClass of
             [] \<Rightarrow> (None, d)
           | block # rest \<Rightarrow>
               (Some block,
                d\<lparr>vo_pool := (vo_pool d)[nat poolClass := rest],
                  vo_poolCounts := (vo_poolCounts d)[nat poolClass := vo_poolCounts d ! nat poolClass - 1],
                  vo_poolBytes := vo_poolBytes d - capacity\<rparr>)
      else (None, d))"

definition allocateBufferMemory :: "va_alloc \<Rightarrow> nat \<Rightarrow> usize \<Rightarrow> VaObjects \<Rightarrow> bool \<times> VaObjects" where
  "allocateBufferMemory al buffer n d =
     (let d = upd_buffer buffer (\<lambda>b. b\<lparr>vb_ptr := None, vb_capacity := 0, vb_poolClass := -1\<rparr>) d
      in if n = 0 then (True, d)
         else
           let poolClass = bufferPoolClassForSize n;
               capacity = (if poolClass \<ge> 0 then bufferPoolClassSizes ! nat poolClass else n)
           in case pool_take poolClass capacity d of
                (Some block, d) \<Rightarrow>
                  (True, upd_buffer buffer (\<lambda>b. b\<lparr>vb_ptr := Some block, vb_capacity := capacity,
                                                  vb_poolClass := poolClass\<rparr>) d)
              | (None, d) \<Rightarrow>
                  (case al_memalign al capacity of
                     None \<Rightarrow> (False, d)
                   | Some (block, junk) \<Rightarrow>
                       (True, upd_buffer buffer (\<lambda>b. b\<lparr>vb_ptr := Some block, vb_capacity := capacity,
                                                       vb_poolClass := poolClass\<rparr>)
                                (d\<lparr>vo_heap := (vo_heap d)(block \<mapsto> junk)\<rparr>))))"

definition pool_put :: "nat \<Rightarrow> u64 \<Rightarrow> VaObjects \<Rightarrow> bool \<times> VaObjects" where
  "pool_put buffer block d =
     (let b = vo_buffers d buffer; poolClass = vb_poolClass b
      in if poolClass \<ge> 0 \<and> poolClass < 11 \<and> vo_poolCounts d ! nat poolClass < 16 \<and>
            vb_capacity b \<le> vo_poolMaxBytes d \<and> vo_poolBytes d \<le> vo_poolMaxBytes d - vb_capacity b
         then (True, d\<lparr>vo_pool := (vo_pool d)[nat poolClass := block # vo_pool d ! nat poolClass],
                       vo_poolCounts := (vo_poolCounts d)[nat poolClass := vo_poolCounts d ! nat poolClass + 1],
                       vo_poolBytes := vo_poolBytes d + vb_capacity b\<rparr>)
         else (False, d))"

definition releaseBufferMemory :: "nat option \<Rightarrow> VaObjects \<Rightarrow> VaObjects" where
  "releaseBufferMemory buffer d =
     (case buffer of
        None \<Rightarrow> d
      | Some p \<Rightarrow>
          (case vb_ptr (vo_buffers d p) of
             None \<Rightarrow> d
           | Some block \<Rightarrow>
               (case pool_put p block d of (pooled, d) \<Rightarrow>
                  upd_buffer p (\<lambda>b. b\<lparr>vb_ptr := None, vb_capacity := 0, vb_poolClass := -1\<rparr>)
                    (if pooled then d else d\<lparr>vo_heap := (vo_heap d)(block := None)\<rparr>))))"

definition destroyBufferPool :: "bool \<Rightarrow> VaObjects \<Rightarrow> VaObjects" where
  "destroyBufferPool mutexInitialized d =
     (if \<not> mutexInitialized then d
      else d\<lparr>vo_heap := vo_heap d |` (- set (concat (vo_pool d))),
             vo_pool := replicate 11 [], vo_poolCounts := replicate 11 0, vo_poolBytes := 0\<rparr>)"

text \<open>The bytes behind a pointer that was handed out.\<close>

definition set_memory :: "u64 option \<Rightarrow> u8 list \<Rightarrow> VaObjects \<Rightarrow> VaObjects" where
  "set_memory ptr bytes d =
     (case ptr of
        None \<Rightarrow> d
      | Some a \<Rightarrow> d\<lparr>vo_heap := (vo_heap d)(a := map_option (\<lambda>m. write_at m 0 bytes) (vo_heap d a))\<rparr>)"

section \<open>Buffer calls\<close>

abbreviation sizeof_NVBuffer :: usize where "sizeof_NVBuffer \<equiv> 72"
abbreviation sizeof_NVImage :: usize where "sizeof_NVImage \<equiv> 32"

text \<open>From the allocation of the object to the copy of the client's bytes.\<close>

definition create_buffer_object ::
    "va_alloc \<Rightarrow> u32 \<Rightarrow> int \<Rightarrow> u32 \<Rightarrow> usize \<Rightarrow> usize \<Rightarrow> u8 list option \<Rightarrow> VaObjects \<Rightarrow> VAStatus \<times> u32 \<times> VaObjects" where
  "create_buffer_object al context type num_elements elementSize bufferSize data d =
     (case allocateObject al (al_payload al) OBJECT_TYPE_BUFFER sizeof_NVBuffer d of
        (None, d) \<Rightarrow> (VA_STATUS_ERROR_ALLOCATION_FAILED, VA_INVALID_ID, d)
      | (Some bufferObject, d) \<Rightarrow>
          let buf = al_payload al;
              d = upd_buffer buf (\<lambda>b. b\<lparr>vb_bufferType := type, vb_ownerContextId := context,
                    vb_imageOwned := False, vb_elements := num_elements,
                    vb_elementSize := elementSize, vb_size := bufferSize\<rparr>) d
          in case allocateBufferMemory al buf bufferSize d of
               (False, d) \<Rightarrow>
                 (VA_STATUS_ERROR_ALLOCATION_FAILED, VA_INVALID_ID, deleteObject (obj_id bufferObject) d)
             | (True, d) \<Rightarrow>
                 (VA_STATUS_SUCCESS, obj_id bufferObject,
                  if bufferSize = 0 then d
                  else set_memory (vb_ptr (vo_buffers d buf))
                         (case data of Some bytes \<Rightarrow> take (unat bufferSize) bytes
                                     | None \<Rightarrow> replicate (unat bufferSize) 0) d))"

text \<open>
  \<open>nvCreateBuffer\<close> returns the status and the ID written to \<open>buf_id\<close>; \<open>hasBufId\<close> is \<open>False\<close> for a
  \<open>NULL\<close> out pointer. \<open>data\<close> are the bytes behind the client's pointer.
\<close>

definition nvCreateBuffer ::
    "va_alloc \<Rightarrow> int \<Rightarrow> bool \<Rightarrow> u32 \<Rightarrow> int \<Rightarrow> u32 \<Rightarrow> u32 \<Rightarrow> u8 list option \<Rightarrow> VaObjects \<Rightarrow>
     VAStatus \<times> u32 \<times> VaObjects" where
  "nvCreateBuffer al typeMax hasBufId context type n num_elements data d =
     (if \<not> hasBufId then (VA_STATUS_ERROR_INVALID_PARAMETER, VA_INVALID_ID, d)
      else if getObjectPtr OBJECT_TYPE_CONTEXT context d = None
      then (VA_STATUS_ERROR_INVALID_CONTEXT, VA_INVALID_ID, d)
      else if \<not> isValidBufferType typeMax type
      then (VA_STATUS_ERROR_UNSUPPORTED_BUFFERTYPE, VA_INVALID_ID, d)
      else
        let elementSize = ucast n
        in case checkedMultiplySize elementSize (ucast num_elements) of
             None \<Rightarrow> (VA_STATUS_ERROR_INVALID_PARAMETER, VA_INVALID_ID, d)
           | Some bufferSize \<Rightarrow>
               create_buffer_object al context type num_elements elementSize bufferSize data d)"

text \<open>\<open>Inr\<close> is the pointer that is written to \<open>pbuf\<close>.\<close>

definition nvMapBuffer :: "bool \<Rightarrow> u32 \<Rightarrow> VaObjects \<Rightarrow> VAStatus + u64 option" where
  "nvMapBuffer hasPbuf buf_id d =
     (if \<not> hasPbuf then Inl VA_STATUS_ERROR_INVALID_PARAMETER
      else case getObjectPtr OBJECT_TYPE_BUFFER buf_id d of
             None \<Rightarrow> Inl VA_STATUS_ERROR_INVALID_BUFFER
           | Some p \<Rightarrow> Inr (vb_ptr (vo_buffers d p)))"

definition nvUnmapBuffer :: "u32 \<Rightarrow> VaObjects \<Rightarrow> VAStatus" where
  "nvUnmapBuffer buf_id d =
     (if getObjectPtr OBJECT_TYPE_BUFFER buf_id d \<noteq> None then VA_STATUS_SUCCESS
      else VA_STATUS_ERROR_INVALID_BUFFER)"

definition nvDestroyBuffer :: "u32 \<Rightarrow> VaObjects \<Rightarrow> VAStatus \<times> VaObjects" where
  "nvDestroyBuffer buffer_id d =
     (case getObjectPtr OBJECT_TYPE_BUFFER buffer_id d of
        None \<Rightarrow> (VA_STATUS_ERROR_INVALID_BUFFER, d)
      | Some p \<Rightarrow>
          if vb_imageOwned (vo_buffers d p) then (VA_STATUS_ERROR_OPERATION_FAILED, d)
          else (VA_STATUS_SUCCESS, deleteObject buffer_id (releaseBufferMemory (Some p) d)))"

section \<open>Image calls\<close>

text \<open>The two loops over the planes: the sizes with their sum, and the pitches.\<close>

fun plane_sizes ::
    "u32 \<Rightarrow> u32 \<Rightarrow> u32 \<Rightarrow> NVFormatPlane list \<Rightarrow> usize \<Rightarrow> usize list \<Rightarrow> (usize list \<times> usize) option" where
  "plane_sizes bppc width height [] imageSize sizes = Some (sizes, imageSize)"
| "plane_sizes bppc width height (p # ps) imageSize sizes =
     (case checkedMultiplySize (ucast (nvPlaneExtent width (fp_ss_x p))) (ucast (nvPlaneExtent height (fp_ss_y p))) of
        None \<Rightarrow> None
      | Some planePixels \<Rightarrow>
          (case checkedMultiplySize (ucast bppc) (ucast (fp_channelCount p)) of
             None \<Rightarrow> None
           | Some bytesPerSample \<Rightarrow>
               (case checkedMultiplySize planePixels bytesPerSample of
                  None \<Rightarrow> None
                | Some planeSize \<Rightarrow>
                    (case checkedAddSize imageSize planeSize of
                       None \<Rightarrow> None
                     | Some imageSize \<Rightarrow> plane_sizes bppc width height ps imageSize (sizes @ [planeSize])))))"

fun plane_pitches :: "u32 \<Rightarrow> u32 \<Rightarrow> NVFormatPlane list \<Rightarrow> usize list \<Rightarrow> usize list option" where
  "plane_pitches bppc width [] pitches = Some pitches"
| "plane_pitches bppc width (p # ps) pitches =
     (case checkedMultiplySize (ucast bppc) (ucast (fp_channelCount p)) of
        None \<Rightarrow> None
      | Some bytesPerSample \<Rightarrow>
          (case checkedMultiplySize (ucast (nvPlaneExtent width (fp_ss_x p))) bytesPerSample of
             None \<Rightarrow> None
           | Some pitch \<Rightarrow>
               if pitch > ucast UINT32_MAX then None else plane_pitches bppc width ps (pitches @ [pitch])))"

text \<open>The entry of an array of three that starts out zero.\<close>

definition entry3 :: "usize list \<Rightarrow> nat \<Rightarrow> usize" where
  "entry3 xs i = (if i < length xs then xs ! i else 0)"

text \<open>The checks of the format, and the sizes and pitches of the planes with the total size.\<close>

definition image_layout ::
    "u32 option \<Rightarrow> int \<Rightarrow> int \<Rightarrow> bool \<Rightarrow> VAStatus + usize list \<times> usize \<times> usize list" where
  "image_layout fourcc width height hasImage =
     (case fourcc of
        None \<Rightarrow> Inl VA_STATUS_ERROR_INVALID_PARAMETER
      | Some fcc \<Rightarrow>
        if \<not> hasImage \<or> width \<le> 0 \<or> height \<le> 0 then Inl VA_STATUS_ERROR_INVALID_PARAMETER
        else
          let nvFormat = nvFormatFromVaFormat fcc; fmtInfo = formatsInfo nvFormat
          in if nvFormat = NV_FORMAT_NONE then Inl VA_STATUS_ERROR_INVALID_IMAGE_FORMAT
             else if fi_numPlanes fmtInfo = 0 \<or> fi_numPlanes fmtInfo > 3 \<or> fi_bppc fmtInfo = 0
             then Inl VA_STATUS_ERROR_INVALID_IMAGE_FORMAT
             else
               let planes = take (unat (fi_numPlanes fmtInfo)) (fi_plane fmtInfo)
               in case plane_sizes (fi_bppc fmtInfo) (of_int width) (of_int height) planes 0 [] of
                    None \<Rightarrow> Inl VA_STATUS_ERROR_INVALID_PARAMETER
                  | Some (planeSizes, imageSize) \<Rightarrow>
                      (case plane_pitches (fi_bppc fmtInfo) (of_int width) planes [] of
                         None \<Rightarrow> Inl VA_STATUS_ERROR_INVALID_PARAMETER
                       | Some planePitches \<Rightarrow>
                         if imageSize = 0 \<or> imageSize > ucast UINT32_MAX
                         then Inl VA_STATUS_ERROR_INVALID_PARAMETER
                         else Inr (planeSizes, imageSize, planePitches)))"

text \<open>The image object, the object of its buffer and the memory; \<open>Inr\<close> are the two IDs.\<close>

definition create_image_objects ::
    "va_alloc \<Rightarrow> NVFormat \<Rightarrow> u32 \<Rightarrow> u32 \<Rightarrow> usize \<Rightarrow> VaObjects \<Rightarrow> (VAStatus + u32 \<times> u32) \<times> VaObjects" where
  "create_image_objects al nvFormat width height imageSize d =
     (case allocateObject al (al_payload al) OBJECT_TYPE_IMAGE sizeof_NVImage d of
        (None, d) \<Rightarrow> (Inl VA_STATUS_ERROR_ALLOCATION_FAILED, d)
      | (Some imageObj, d) \<Rightarrow>
          (case allocateObject al (al_payload2 al) OBJECT_TYPE_BUFFER sizeof_NVBuffer d of
             (None, d) \<Rightarrow> (Inl VA_STATUS_ERROR_ALLOCATION_FAILED, deleteObject (obj_id imageObj) d)
           | (Some imageBufferObject, d) \<Rightarrow>
               let imageBuffer = al_payload2 al;
                   d = upd_buffer imageBuffer (\<lambda>b. b\<lparr>vb_bufferType := VAImageBufferType,
                         vb_ownerContextId := VA_INVALID_ID, vb_imageOwned := True,
                         vb_size := imageSize, vb_elementSize := imageSize, vb_elements := 1\<rparr>) d
               in case allocateBufferMemory al imageBuffer imageSize d of
                    (False, d) \<Rightarrow>
                      (Inl VA_STATUS_ERROR_ALLOCATION_FAILED,
                       deleteObject (obj_id imageObj) (deleteObject (obj_id imageBufferObject) d))
                  | (True, d) \<Rightarrow>
                      let d = set_memory (vb_ptr (vo_buffers d imageBuffer)) (replicate (unat imageSize) 0) d;
                          img = \<lparr>vi_width = width, vi_height = height, vi_format = nvFormat,
                                 vi_imageBuffer = imageBuffer, vi_imageBufferId = obj_id imageBufferObject\<rparr>
                      in (Inr (obj_id imageObj, obj_id imageBufferObject),
                          d\<lparr>vo_images := (vo_images d)(al_payload al := img)\<rparr>)))"

text \<open>
  \<open>fourcc\<close> is the client's format, \<open>None\<close> for \<open>NULL\<close>. The result is the status and what is
  written to \<open>image\<close> on success.
\<close>

definition nvCreateImage ::
    "va_alloc \<Rightarrow> u32 option \<Rightarrow> int \<Rightarrow> int \<Rightarrow> bool \<Rightarrow> VaObjects \<Rightarrow> (VAStatus + VAImage) \<times> VaObjects" where
  "nvCreateImage al fourcc width height hasImage d =
     (case image_layout fourcc width height hasImage of
        Inl status \<Rightarrow> (Inl status, d)
      | Inr (planeSizes, imageSize, planePitches) \<Rightarrow>
          let nvFormat = nvFormatFromVaFormat (the fourcc)
          in case create_image_objects al nvFormat (of_int width) (of_int height) imageSize d of
               (Inl status, d) \<Rightarrow> (Inl status, d)
             | (Inr (imageId, bufferId), d) \<Rightarrow>
                 (Inr \<lparr>im_image_id = imageId, im_buf = bufferId, im_fourcc = the fourcc,
                       im_width = of_int width, im_height = of_int height, im_data_size = ucast imageSize,
                       im_num_planes = fi_numPlanes (formatsInfo nvFormat),
                       im_pitches = map (\<lambda>i. ucast (entry3 planePitches i)) [0, 1, 2],
                       im_offsets = [0, ucast (entry3 planeSizes 0),
                         ucast (entry3 planeSizes 0 + entry3 planeSizes 1)]\<rparr>, d))"

definition nvDestroyImage :: "u32 \<Rightarrow> VaObjects \<Rightarrow> VAStatus \<times> VaObjects" where
  "nvDestroyImage imageId d =
     (case getObjectPtr OBJECT_TYPE_IMAGE imageId d of
        None \<Rightarrow> (VA_STATUS_ERROR_INVALID_IMAGE, d)
      | Some p \<Rightarrow>
          let img = vo_images d p;
              d = (if getObjectPtr OBJECT_TYPE_BUFFER (vi_imageBufferId img) d \<noteq> None
                   then deleteObject (vi_imageBufferId img) (releaseBufferMemory (Some (vi_imageBuffer img)) d)
                   else d)
          in (VA_STATUS_SUCCESS, deleteObject imageId d))"

section \<open>Teardown\<close>

text \<open>The search from the end of the table, and the loop of \<open>deleteAllObjects\<close>.\<close>

fun last_live :: "'o NVDObjectTable \<Rightarrow> nat \<Rightarrow> 'o NVDObject option" where
  "last_live t 0 = None"
| "last_live t (Suc i) =
     (case nvdObjectTableAt t (of_nat i) of Some object \<Rightarrow> Some object | None \<Rightarrow> last_live t i)"

partial_function (option) deleteAllObjects :: "VaObjects \<Rightarrow> VaObjects option" where
  "deleteAllObjects d =
     (if tab_liveCount (vo_table d) = 0 then Some d
      else
        case last_live (vo_table d) (unat (tab_capacity (vo_table d))) of
          None \<Rightarrow> Some d
        | Some candidate \<Rightarrow>
            (case nvdObjectTableRemove (vo_table d) (obj_id candidate) of
               (None, t) \<Rightarrow> Some (d\<lparr>vo_table := t\<rparr>)
             | (Some object, t) \<Rightarrow>
                 deleteAllObjects
                   (if obj_type object = OBJECT_TYPE_BUFFER
                    then releaseBufferMemory (obj_payload object) (d\<lparr>vo_table := t\<rparr>)
                    else d\<lparr>vo_table := t\<rparr>)))"

end
