(* ===== verification/VaMemory.thy ===== *)
theory VaMemory
  imports VaObjects
begin

text \<open>
  The memory of buffers. \<open>memory_ok d L\<close> says that the buffers at the addresses \<open>L\<close> and the pool
  own the memory that is handed out, each block exactly once, and that the pool keeps its limits:
  16 blocks of a class and \<open>vo_poolMaxBytes\<close> in total.
\<close>

definition pool_blocks :: "VaObjects \<Rightarrow> u64 set" where
  "pool_blocks d = set (concat (vo_pool d))"

definition pooled_bytes :: "u64 list list \<Rightarrow> nat" where
  "pooled_bytes pool = (\<Sum>k<11. length (pool ! k) * unat (bufferPoolClassSizes ! k))"

definition pool_ok :: "VaObjects \<Rightarrow> bool" where
  "pool_ok d \<longleftrightarrow>
     length (vo_pool d) = 11 \<and> length (vo_poolCounts d) = 11 \<and> distinct (concat (vo_pool d)) \<and>
     (\<forall>k<11. unat (vo_poolCounts d ! k) = length (vo_pool d ! k) \<and> length (vo_pool d ! k) \<le> 16 \<and>
        (\<forall>a \<in> set (vo_pool d ! k). map_option length (vo_heap d a) = Some (unat (bufferPoolClassSizes ! k)))) \<and>
     unat (vo_poolBytes d) = pooled_bytes (vo_pool d) \<and> vo_poolBytes d \<le> vo_poolMaxBytes d"

definition buffer_ok :: "VaObjects \<Rightarrow> nat \<Rightarrow> bool" where
  "buffer_ok d p \<longleftrightarrow>
     (let b = vo_buffers d p in
      case vb_ptr b of
        None \<Rightarrow> vb_size b = 0
      | Some a \<Rightarrow> map_option length (vo_heap d a) = Some (unat (vb_capacity b)) \<and> vb_size b \<le> vb_capacity b \<and>
          (vb_poolClass b = -1 \<or>
           0 \<le> vb_poolClass b \<and> vb_poolClass b < 11 \<and> vb_capacity b = bufferPoolClassSizes ! nat (vb_poolClass b)))"

definition memory_ok :: "VaObjects \<Rightarrow> nat set \<Rightarrow> bool" where
  "memory_ok d L \<longleftrightarrow>
     pool_ok d \<and> (\<forall>p \<in> L. buffer_ok d p) \<and>
     (\<forall>p \<in> L. \<forall>q \<in> L. \<forall>a. vb_ptr (vo_buffers d p) = Some a \<longrightarrow> vb_ptr (vo_buffers d q) = Some a \<longrightarrow> p = q) \<and>
     (\<forall>p \<in> L. \<forall>a. vb_ptr (vo_buffers d p) = Some a \<longrightarrow> a \<notin> pool_blocks d) \<and>
     (\<forall>a. vo_heap d a \<noteq> None \<longleftrightarrow> a \<in> pool_blocks d \<or> (\<exists>p \<in> L. vb_ptr (vo_buffers d p) = Some a))"

section \<open>Size classes\<close>

lemma class_from_range:
  "class_from i cs n = k \<Longrightarrow> k = -1 \<or> (i \<le> k \<and> k < i + int (length cs) \<and> n \<le> cs ! nat (k - i))"
proof (induction cs arbitrary: i)
  case (Cons c cs)
  show ?case
  proof (cases "n \<le> c")
    case False
    then have "class_from (i + 1) cs n = k" using Cons.prems by simp
    from Cons.IH [OF this] show ?thesis
    proof
      assume k: "i + 1 \<le> k \<and> k < i + 1 + int (length cs) \<and> n \<le> cs ! nat (k - (i + 1))"
      then have "nat (k - i) = Suc (nat (k - (i + 1)))" by linarith
      then show ?thesis using k by simp
    qed simp
  qed (use Cons.prems in auto)
qed simp

lemma class_for_size:
  "bufferPoolClassForSize n = -1 \<or>
   (0 \<le> bufferPoolClassForSize n \<and> bufferPoolClassForSize n < 11 \<and>
    n \<le> bufferPoolClassSizes ! nat (bufferPoolClassForSize n))"
  using class_from_range [of 0 bufferPoolClassSizes n "bufferPoolClassForSize n"]
  by (simp add: bufferPoolClassForSize_def bufferPoolClassSizes_def)

lemma class_size_pos: "k < 11 \<Longrightarrow> 0 < unat (bufferPoolClassSizes ! k)"
  by (simp add: bufferPoolClassSizes_def less_Suc_eq numeral_eq_Suc) auto

section \<open>The chains of the pool\<close>

lemma pooled_bytes_update:
  assumes "k < 11" "length pool = 11"
  shows "pooled_bytes (pool[k := x]) + length (pool ! k) * unat (bufferPoolClassSizes ! k) =
         pooled_bytes pool + length x * unat (bufferPoolClassSizes ! k)"
proof -
  have "pooled_bytes (pool[k := x]) = length x * unat (bufferPoolClassSizes ! k) +
      (\<Sum>i\<in>{..<11} - {k}. length (pool ! i) * unat (bufferPoolClassSizes ! i))"
    unfolding pooled_bytes_def using assms by (subst sum.remove [of _ k]) (auto intro!: sum.cong)
  moreover have "pooled_bytes pool = length (pool ! k) * unat (bufferPoolClassSizes ! k) +
      (\<Sum>i\<in>{..<11} - {k}. length (pool ! i) * unat (bufferPoolClassSizes ! i))"
    unfolding pooled_bytes_def using assms by (subst sum.remove [of _ k]) auto
  ultimately show ?thesis by simp
qed

lemma concat_update:
  assumes "k < length pool"
  shows "set (concat (pool[k := x])) = set (concat (take k pool)) \<union> set x \<union> set (concat (drop (Suc k) pool))"
    "set (concat pool) = set (concat (take k pool)) \<union> set (pool ! k) \<union> set (concat (drop (Suc k) pool))"
    "distinct (concat (pool[k := x])) \<longleftrightarrow> distinct (concat (take k pool)) \<and> distinct x \<and>
       distinct (concat (drop (Suc k) pool)) \<and>
       set (concat (take k pool)) \<inter> set x = {} \<and> set (concat (take k pool)) \<inter> set (concat (drop (Suc k) pool)) = {} \<and>
       set x \<inter> set (concat (drop (Suc k) pool)) = {}"
proof -
  have u: "pool[k := x] = take k pool @ x # drop (Suc k) pool" for x
    using assms by (rule upd_conv_take_nth_drop)
  show "set (concat (pool[k := x])) = set (concat (take k pool)) \<union> set x \<union> set (concat (drop (Suc k) pool))"
    unfolding u by (simp add: Un_assoc)
  show "distinct (concat (pool[k := x])) \<longleftrightarrow> distinct (concat (take k pool)) \<and> distinct x \<and>
       distinct (concat (drop (Suc k) pool)) \<and>
       set (concat (take k pool)) \<inter> set x = {} \<and> set (concat (take k pool)) \<inter> set (concat (drop (Suc k) pool)) = {} \<and>
       set x \<inter> set (concat (drop (Suc k) pool)) = {}"
    unfolding u by auto
  have "concat pool = concat (pool[k := pool ! k])" by simp
  then show "set (concat pool) = set (concat (take k pool)) \<union> set (pool ! k) \<union> set (concat (drop (Suc k) pool))"
    unfolding u by (simp add: Un_assoc)
qed

lemma pool_pop:
  assumes "k < length pool" "pool ! k = a # rest" "distinct (concat pool)"
  shows "set (concat (pool[k := rest])) = set (concat pool) - {a}" "distinct (concat (pool[k := rest]))"
    "a \<in> set (concat pool)"
proof -
  have d: "distinct (concat (pool[k := a # rest]))" using assms by (metis list_update_id)
  note c = concat_update [OF assms(1)]
  show "a \<in> set (concat pool)" using c(2) assms(2) by simp
  show "set (concat (pool[k := rest])) = set (concat pool) - {a}"
    using d unfolding c assms(2) by auto
  show "distinct (concat (pool[k := rest]))" using d unfolding c by auto
qed

lemma pool_push:
  assumes "k < length pool" "a \<notin> set (concat pool)" "distinct (concat pool)"
  shows "set (concat (pool[k := a # pool ! k])) = insert a (set (concat pool))"
    "distinct (concat (pool[k := a # pool ! k]))"
proof -
  have d: "distinct (concat (pool[k := pool ! k]))" using assms(3) by simp
  note c = concat_update [OF assms(1)]
  show "set (concat (pool[k := a # pool ! k])) = insert a (set (concat pool))"
    unfolding c by auto
  show "distinct (concat (pool[k := a # pool ! k]))" using d assms(2) unfolding c by auto
qed

section \<open>Taking and giving blocks\<close>

lemma upd_buffer_simps [simp]:
  "vo_buffers (upd_buffer p f d) q = (if q = p then f (vo_buffers d p) else vo_buffers d q)"
  "vo_table (upd_buffer p f d) = vo_table d" "vo_terminating (upd_buffer p f d) = vo_terminating d"
  "vo_images (upd_buffer p f d) = vo_images d" "vo_heap (upd_buffer p f d) = vo_heap d"
  "vo_pool (upd_buffer p f d) = vo_pool d" "vo_poolCounts (upd_buffer p f d) = vo_poolCounts d"
  "vo_poolBytes (upd_buffer p f d) = vo_poolBytes d" "vo_poolMaxBytes (upd_buffer p f d) = vo_poolMaxBytes d"
  by (simp_all add: upd_buffer_def)

lemma pool_ok_cong:
  assumes "vo_pool d' = vo_pool d" "vo_poolCounts d' = vo_poolCounts d" "vo_poolBytes d' = vo_poolBytes d"
    "vo_poolMaxBytes d' = vo_poolMaxBytes d"
    "\<And>a. a \<in> pool_blocks d \<Longrightarrow> map_option length (vo_heap d' a) = map_option length (vo_heap d a)"
  shows "pool_ok d' = pool_ok d"
proof -
  have h: "map_option length (vo_heap d' a) = map_option length (vo_heap d a)"
    if "length (vo_pool d) = 11" "k < 11" "a \<in> set (vo_pool d ! k)" for k a
    by (rule assms(5)) (use that in \<open>auto simp: pool_blocks_def intro: bexI [OF _ nth_mem]\<close>)
  show ?thesis
  proof (cases "length (vo_pool d) = 11")
    case True
    have "(\<forall>k<11. unat (vo_poolCounts d ! k) = length (vo_pool d ! k) \<and> length (vo_pool d ! k) \<le> 16 \<and>
        (\<forall>a \<in> set (vo_pool d ! k). map_option length (vo_heap d' a) = Some (unat (bufferPoolClassSizes ! k)))) \<longleftrightarrow>
      (\<forall>k<11. unat (vo_poolCounts d ! k) = length (vo_pool d ! k) \<and> length (vo_pool d ! k) \<le> 16 \<and>
        (\<forall>a \<in> set (vo_pool d ! k). map_option length (vo_heap d a) = Some (unat (bufferPoolClassSizes ! k))))"
      by (intro all_cong1 imp_cong refl conj_cong ball_cong) (simp only: h [OF True])
    then show ?thesis unfolding pool_ok_def assms(1-4) by simp
  next
    case False
    then show ?thesis unfolding pool_ok_def assms(1) by simp
  qed
qed

lemma memory_ok_pool: "memory_ok d L \<Longrightarrow> pool_ok d"
  by (simp add: memory_ok_def)

lemma memory_ok_cong:
  assumes "vo_pool d' = vo_pool d" "vo_poolCounts d' = vo_poolCounts d" "vo_poolBytes d' = vo_poolBytes d"
    "vo_poolMaxBytes d' = vo_poolMaxBytes d" "vo_heap d' = vo_heap d"
    and b: "\<And>q. q \<in> L \<Longrightarrow> vo_buffers d' q = vo_buffers d q"
  shows "memory_ok d' L = memory_ok d L"
proof -
  have "pool_ok d' = pool_ok d" by (rule pool_ok_cong) (simp_all add: assms)
  moreover have "buffer_ok d' q = buffer_ok d q" if "q \<in> L" for q
    unfolding buffer_ok_def b [OF that] assms(5) by (rule refl)
  ultimately show ?thesis
    unfolding memory_ok_def pool_blocks_def assms(1,5) using b by (simp cong: ball_cong bex_cong)
qed

lemma memory_ok_other:
  assumes "memory_ok d L" "p \<notin> L"
  shows "memory_ok (upd_buffer p f d) L"
proof -
  have "memory_ok (upd_buffer p f d) L = memory_ok d L"
    by (rule memory_ok_cong) (use assms(2) in auto)
  then show ?thesis using assms(1) by simp
qed

lemma pool_ok_length: "pool_ok d \<Longrightarrow> length (vo_pool d) = 11" "pool_ok d \<Longrightarrow> length (vo_poolCounts d) = 11"
  "pool_ok d \<Longrightarrow> distinct (concat (vo_pool d))"
  by (simp_all add: pool_ok_def)

text \<open>A block from the pool leaves it and is nobody's; everything else stays.\<close>

lemma pool_take_ok:
  assumes ok: "pool_ok d" and run: "pool_take k (bufferPoolClassSizes ! nat k) d = (Some a, d')" and k: "k < 11"
  shows "pool_ok d'" "pool_blocks d' = pool_blocks d - {a}" "a \<in> pool_blocks d"
    "map_option length (vo_heap d a) = Some (unat (bufferPoolClassSizes ! nat k))"
    "\<exists>pool counts bytes. d' = d\<lparr>vo_pool := pool, vo_poolCounts := counts, vo_poolBytes := bytes\<rparr>"
proof -
  obtain rest where k0: "0 \<le> k" and p: "vo_pool d ! nat k = a # rest"
    and d': "d' = d\<lparr>vo_pool := (vo_pool d)[nat k := rest],
        vo_poolCounts := (vo_poolCounts d)[nat k := vo_poolCounts d ! nat k - 1],
        vo_poolBytes := vo_poolBytes d - bufferPoolClassSizes ! nat k\<rparr>"
    using run by (auto simp: pool_take_def split: if_splits list.splits)
  have kn: "nat k < 11" using k k0 by simp
  note l = pool_ok_length [OF ok]
  have kl: "nat k < length (vo_pool d)" using kn l by simp
  note pop = pool_pop [OF kl p l(3)]
  have at: "\<forall>j<11. unat (vo_poolCounts d ! j) = length (vo_pool d ! j) \<and> length (vo_pool d ! j) \<le> 16 \<and>
        (\<forall>a \<in> set (vo_pool d ! j). map_option length (vo_heap d a) = Some (unat (bufferPoolClassSizes ! j)))"
    using ok by (simp add: pool_ok_def)
  then have c: "unat (vo_poolCounts d ! nat k) = Suc (length rest)" "length rest \<le> 15"
    and rest: "\<forall>b \<in> set rest. map_option length (vo_heap d b) = Some (unat (bufferPoolClassSizes ! nat k))"
    using kn p by auto
  show a: "map_option length (vo_heap d a) = Some (unat (bufferPoolClassSizes ! nat k))" using at kn p by auto
  have c1: "unat (vo_poolCounts d ! nat k - 1) = length rest"
    using c(1) unat_sub_le [of 1 "vo_poolCounts d ! nat k"] by (simp add: word_le_nat_alt)
  have sum: "pooled_bytes ((vo_pool d)[nat k := rest]) + unat (bufferPoolClassSizes ! nat k) = unat (vo_poolBytes d)"
    using pooled_bytes_update [OF kn l(1), of rest] p ok by (simp add: pool_ok_def)
  then have b: "unat (vo_poolBytes d - bufferPoolClassSizes ! nat k) = pooled_bytes ((vo_pool d)[nat k := rest])"
    using unat_sub_le [of "bufferPoolClassSizes ! nat k" "vo_poolBytes d"] by (simp add: word_le_nat_alt)
  then have le: "vo_poolBytes d - bufferPoolClassSizes ! nat k \<le> vo_poolMaxBytes d"
    using sum ok by (simp add: pool_ok_def word_le_nat_alt)
  have all: "\<forall>j<11. unat (vo_poolCounts d' ! j) = length (vo_pool d' ! j) \<and> length (vo_pool d' ! j) \<le> 16 \<and>
        (\<forall>a \<in> set (vo_pool d' ! j). map_option length (vo_heap d' a) = Some (unat (bufferPoolClassSizes ! j)))"
  proof (intro allI impI)
    fix j :: nat assume j: "j < 11"
    show "unat (vo_poolCounts d' ! j) = length (vo_pool d' ! j) \<and> length (vo_pool d' ! j) \<le> 16 \<and>
        (\<forall>a \<in> set (vo_pool d' ! j). map_option length (vo_heap d' a) = Some (unat (bufferPoolClassSizes ! j)))"
      using at j c(2) c1 rest l kn by (cases "j = nat k") (simp_all add: d')
  qed
  show "pool_ok d'"
    unfolding pool_ok_def using all l pop(2) b le by (simp add: d')
  show "pool_blocks d' = pool_blocks d - {a}" "a \<in> pool_blocks d"
    using pop by (simp_all add: pool_blocks_def d')
  show "\<exists>pool counts bytes. d' = d\<lparr>vo_pool := pool, vo_poolCounts := counts, vo_poolBytes := bytes\<rparr>"
    using d' by blast
qed

lemma memory_okD:
  assumes "memory_ok d L"
  shows "pool_ok d" "p \<in> L \<Longrightarrow> buffer_ok d p"
    "p \<in> L \<Longrightarrow> q \<in> L \<Longrightarrow> vb_ptr (vo_buffers d p) = Some a \<Longrightarrow> vb_ptr (vo_buffers d q) = Some a \<Longrightarrow> p = q"
    "p \<in> L \<Longrightarrow> vb_ptr (vo_buffers d p) = Some a \<Longrightarrow> a \<notin> pool_blocks d"
    "vo_heap d a \<noteq> None \<longleftrightarrow> a \<in> pool_blocks d \<or> (\<exists>p \<in> L. vb_ptr (vo_buffers d p) = Some a)"
  using assms unfolding memory_ok_def by blast+

lemma buffer_ok_cong:
  "vo_buffers d' q = vo_buffers d q \<Longrightarrow>
   (\<And>a. vb_ptr (vo_buffers d q) = Some a \<Longrightarrow> vo_heap d' a = vo_heap d a) \<Longrightarrow> buffer_ok d' q = buffer_ok d q"
  by (cases "vb_ptr (vo_buffers d q)") (simp_all add: buffer_ok_def)

lemma memory_ok_give:
  assumes ok: "memory_ok d L" and p: "p \<notin> L" and pool: "pool_ok d'" "pool_blocks d' = pool_blocks d - {a}"
    and a: "\<And>q. q \<in> L \<Longrightarrow> vb_ptr (vo_buffers d q) \<noteq> Some a"
    and heap: "\<And>b. b \<noteq> a \<Longrightarrow> vo_heap d' b = vo_heap d b"
    and same: "\<And>q. q \<in> L \<Longrightarrow> vo_buffers d' q = vo_buffers d q"
    and new: "vb_ptr (vo_buffers d' p) = Some a" "buffer_ok d' p"
  shows "memory_ok d' (insert p L)"
  unfolding memory_ok_def
proof (intro conjI ballI allI impI)
  show "pool_ok d'" by (rule pool(1))
next
  fix q assume q: "q \<in> insert p L"
  show "buffer_ok d' q"
  proof (cases "q = p")
    case False
    then have "q \<in> L" using q by simp
    have "vo_heap d' b = vo_heap d b" if "vb_ptr (vo_buffers d q) = Some b" for b
      using a [OF \<open>q \<in> L\<close>] that heap [of b] by auto
    then show ?thesis using buffer_ok_cong [OF same [OF \<open>q \<in> L\<close>]] memory_okD(2) [OF ok \<open>q \<in> L\<close>] by simp
  qed (use new in simp)
next
  fix q r b
  assume "q \<in> insert p L" "r \<in> insert p L"
    and "vb_ptr (vo_buffers d' q) = Some b" "vb_ptr (vo_buffers d' r) = Some b"
  then show "q = r" using same new(1) a memory_okD(3) [OF ok] by (metis insert_iff option.inject)
next
  fix q b assume "q \<in> insert p L" "vb_ptr (vo_buffers d' q) = Some b"
  then show "b \<notin> pool_blocks d'" using same new(1) pool(2) memory_okD(4) [OF ok] by (metis Diff_iff insertI1 insert_iff option.inject)
next
  fix b
  have h: "vo_heap d' a \<noteq> None" using new by (auto simp: buffer_ok_def Let_def)
  show "vo_heap d' b \<noteq> None \<longleftrightarrow> b \<in> pool_blocks d' \<or> (\<exists>q \<in> insert p L. vb_ptr (vo_buffers d' q) = Some b)"
  proof (cases "b = a")
    case True
    then show ?thesis using h new(1) by auto
  next
    case False
    then show ?thesis using heap [OF False] memory_okD(5) [OF ok, of b] pool(2) new(1) same by auto
  qed
qed

lemma memory_ok_empty:
  assumes ok: "memory_ok d L" and p: "p \<notin> L" and new: "vb_ptr (vo_buffers d p) = None" "vb_size (vo_buffers d p) = 0"
  shows "memory_ok d (insert p L)"
  unfolding memory_ok_def
proof (intro conjI ballI allI impI)
  show "pool_ok d" by (rule memory_okD(1) [OF ok])
next
  fix q assume "q \<in> insert p L"
  then show "buffer_ok d q" using memory_okD(2) [OF ok] new by (auto simp: buffer_ok_def)
next
  fix q r b
  assume "q \<in> insert p L" "r \<in> insert p L"
    and "vb_ptr (vo_buffers d q) = Some b" "vb_ptr (vo_buffers d r) = Some b"
  then show "q = r" using memory_okD(3) [OF ok] new(1) by auto
next
  fix q b assume "q \<in> insert p L" "vb_ptr (vo_buffers d q) = Some b"
  then show "b \<notin> pool_blocks d" using memory_okD(4) [OF ok] new(1) by auto
next
  fix b
  show "vo_heap d b \<noteq> None \<longleftrightarrow> b \<in> pool_blocks d \<or> (\<exists>q \<in> insert p L. vb_ptr (vo_buffers d q) = Some b)"
    using memory_okD(5) [OF ok, of b] new(1) by auto
qed

lemma memory_ok_take:
  assumes ok: "memory_ok d L" and p: "p \<in> L" and ptr: "vb_ptr (vo_buffers d p) = Some a"
    and pool: "pool_ok d'" "\<And>b. b \<noteq> a \<Longrightarrow> b \<in> pool_blocks d' \<longleftrightarrow> b \<in> pool_blocks d"
    and heap: "\<And>b. b \<noteq> a \<Longrightarrow> vo_heap d' b = vo_heap d b" "vo_heap d' a \<noteq> None \<longleftrightarrow> a \<in> pool_blocks d'"
    and same: "\<And>q. q \<noteq> p \<Longrightarrow> vo_buffers d' q = vo_buffers d q"
  shows "memory_ok d' (L - {p})"
  unfolding memory_ok_def
proof (intro conjI ballI allI impI)
  have other: "vb_ptr (vo_buffers d q) \<noteq> Some a" if "q \<in> L - {p}" for q
    using memory_okD(3) [OF ok _ p _ ptr] that by auto
  show "pool_ok d'" by (rule pool(1))
  {
    fix q assume q: "q \<in> L - {p}"
    have "vo_heap d' b = vo_heap d b" if "vb_ptr (vo_buffers d q) = Some b" for b
      using other [OF q] that heap(1) [of b] by auto
    then show "buffer_ok d' q" using buffer_ok_cong [of d' q d] same memory_okD(2) [OF ok] q by simp
  }
  {
    fix q b assume q: "q \<in> L - {p}" "vb_ptr (vo_buffers d' q) = Some b"
    then show "b \<notin> pool_blocks d'" using same [of q] other memory_okD(4) [OF ok] pool(2) by (metis Diff_iff singletonI)
  }
  {
    fix b
    show "vo_heap d' b \<noteq> None \<longleftrightarrow> b \<in> pool_blocks d' \<or> (\<exists>q \<in> L - {p}. vb_ptr (vo_buffers d' q) = Some b)"
    proof (cases "b = a")
      case True
      then show ?thesis using heap(2) same other by auto
    next
      case False
      then show ?thesis using heap(1) memory_okD(5) [OF ok, of b] pool(2) ptr same by auto
    qed
  }
  fix q r b
  assume "q \<in> L - {p}" "r \<in> L - {p}" "vb_ptr (vo_buffers d' q) = Some b" "vb_ptr (vo_buffers d' r) = Some b"
  then show "q = r" using same memory_okD(3) [OF ok] by auto
qed

section \<open>Allocation and release\<close>

definition fresh_block :: "va_alloc \<Rightarrow> VaObjects \<Rightarrow> bool" where
  "fresh_block al d \<longleftrightarrow>
     (\<forall>n a junk. al_memalign al n = Some (a, junk) \<longrightarrow> vo_heap d a = None \<and> length junk = unat n)"

text \<open>What an operation on buffer memory leaves alone.\<close>

definition same_objects :: "VaObjects \<Rightarrow> VaObjects \<Rightarrow> bool" where
  "same_objects d d' \<longleftrightarrow> vo_table d' = vo_table d \<and> vo_terminating d' = vo_terminating d \<and> vo_images d' = vo_images d"

lemma same_objects_trans: "same_objects d d1 \<Longrightarrow> same_objects d1 d2 \<Longrightarrow> same_objects d d2"
  by (simp add: same_objects_def)

definition same_buffer :: "VaBuffer \<Rightarrow> VaBuffer \<Rightarrow> bool" where
  "same_buffer b b' \<longleftrightarrow>
     vb_elements b' = vb_elements b \<and> vb_elementSize b' = vb_elementSize b \<and> vb_size b' = vb_size b \<and>
     vb_bufferType b' = vb_bufferType b \<and> vb_ownerContextId b' = vb_ownerContextId b \<and>
     vb_imageOwned b' = vb_imageOwned b"

lemma allocate_memory_frame:
  assumes "allocateBufferMemory al p n d = (ok, d')"
  shows "same_objects d d'" "\<And>q. q \<noteq> p \<Longrightarrow> vo_buffers d' q = vo_buffers d q"
    "same_buffer (vo_buffers d p) (vo_buffers d' p)"
  using assms
  by (auto simp: allocateBufferMemory_def Let_def pool_take_def same_objects_def same_buffer_def
      split: if_splits option.splits list.splits prod.splits)

lemma allocate_memory:
  assumes ok: "memory_ok d L" and p: "p \<notin> L" and n: "vb_size (vo_buffers d p) = n" and fresh: "fresh_block al d"
    and run: "allocateBufferMemory al p n d = (r, d')"
  shows "if r then memory_ok d' (insert p L) else memory_ok d' L"
proof -
  define d0 where "d0 = upd_buffer p (\<lambda>b. b\<lparr>vb_ptr := None, vb_capacity := 0, vb_poolClass := -1\<rparr>) d"
  have ok0: "memory_ok d0 L" unfolding d0_def by (rule memory_ok_other [OF ok p])
  have n0: "vb_size (vo_buffers d0 p) = n" by (simp add: d0_def n)
  show ?thesis
  proof (cases "n = 0")
    case True
    then have "r" "d' = d0" using run by (simp_all add: allocateBufferMemory_def d0_def)
    then show ?thesis using memory_ok_empty [OF ok0 p] n0 True by (simp add: d0_def)
  next
    case False
    define k where "k = bufferPoolClassForSize n"
    define cap where "cap = (if k \<ge> 0 then bufferPoolClassSizes ! nat k else n)"
    have k: "k = -1 \<or> 0 \<le> k \<and> k < 11 \<and> n \<le> cap"
      using class_for_size [of n] by (auto simp: k_def cap_def)
    have cap: "n \<le> cap" "0 \<le> k \<Longrightarrow> cap = bufferPoolClassSizes ! nat k" using k by (auto simp: cap_def)
    obtain blk d1 where t: "pool_take k cap d0 = (blk, d1)" by force
    define fin where "fin a = upd_buffer p (\<lambda>b. b\<lparr>vb_ptr := Some a, vb_capacity := cap, vb_poolClass := k\<rparr>)" for a
    have run': "(r, d') = (case (blk, d1) of (Some block, d) \<Rightarrow> (True, fin block d)
        | (None, d) \<Rightarrow> (case al_memalign al cap of None \<Rightarrow> (False, d)
            | Some (block, junk) \<Rightarrow> (True, fin block (d\<lparr>vo_heap := (vo_heap d)(block \<mapsto> junk)\<rparr>))))"
      using run False unfolding allocateBufferMemory_def Let_def d0_def [symmetric] k_def [symmetric]
        cap_def [symmetric] t fin_def by simp
    show ?thesis
    proof (cases blk)
      case (Some a)
      have k0: "0 \<le> k" using t Some by (auto simp: pool_take_def split: if_splits)
      have take: "pool_take k (bufferPoolClassSizes ! nat k) d0 = (Some a, d1)" using t Some cap(2) [OF k0] by simp
      note pt = pool_take_ok [OF memory_okD(1) [OF ok0] take]
      have k11: "k < 11" using k k0 by auto
      obtain pool counts bytes where d1: "d1 = d0\<lparr>vo_pool := pool, vo_poolCounts := counts, vo_poolBytes := bytes\<rparr>"
        using pt(5) [OF k11] by blast
      have d': "r" "d' = fin a d1" using run' Some by simp_all
      have "memory_ok d' (insert p L)"
      proof (rule memory_ok_give [OF ok0 p])
        have "pool_ok d' = pool_ok d1" unfolding d'(2) fin_def by (rule pool_ok_cong) simp_all
        then show "pool_ok d'" using pt(1) [OF k11] by simp
        show "pool_blocks d' = pool_blocks d0 - {a}"
          using pt(2) [OF k11] unfolding d'(2) fin_def pool_blocks_def by simp
        show "vb_ptr (vo_buffers d0 q) \<noteq> Some a" if "q \<in> L" for q
          using memory_okD(4) [OF ok0 that] pt(3) [OF k11] by blast
        show "vo_heap d' b = vo_heap d0 b" for b unfolding d'(2) fin_def d1 by simp
        show "vo_buffers d' q = vo_buffers d0 q" if "q \<in> L" for q
          unfolding d'(2) fin_def d1 using that p by auto
        show "vb_ptr (vo_buffers d' p) = Some a" unfolding d'(2) fin_def by simp
        show "buffer_ok d' p"
          using pt(4) [OF k11] cap k0 k11 n0 unfolding d'(2) fin_def d1 by (simp add: buffer_ok_def)
      qed
      then show ?thesis using d'(1) by simp
    next
      case None
      have d1: "d1 = d0" using t None by (auto simp: pool_take_def split: if_splits list.splits)
      show ?thesis
      proof (cases "al_memalign al cap")
        case None
        then show ?thesis using run' \<open>blk = None\<close> ok0 d1 by simp
      next
        case (Some m)
        obtain a junk where m: "m = (a, junk)" by force
        have f: "vo_heap d0 a = None" "length junk = unat cap"
          using fresh Some m by (auto simp: fresh_block_def d0_def)
        have d': "r" "d' = fin a (d0\<lparr>vo_heap := (vo_heap d0)(a \<mapsto> junk)\<rparr>)" using run' None Some m d1 by simp_all
        have na: "a \<notin> pool_blocks d0" "\<And>q. q \<in> L \<Longrightarrow> vb_ptr (vo_buffers d0 q) \<noteq> Some a"
          using f(1) memory_okD(5) [OF ok0, of a] by auto
        have "memory_ok d' (insert p L)"
        proof (rule memory_ok_give [OF ok0 p])
          have "pool_ok d' = pool_ok d0"
            unfolding d'(2) fin_def by (rule pool_ok_cong) (use na(1) in auto)
          then show "pool_ok d'" using memory_okD(1) [OF ok0] by simp
          show "pool_blocks d' = pool_blocks d0 - {a}"
            using na(1) unfolding d'(2) fin_def pool_blocks_def by simp
          show "vb_ptr (vo_buffers d0 q) \<noteq> Some a" if "q \<in> L" for q by (rule na(2) [OF that])
          show "vo_heap d' b = vo_heap d0 b" if "b \<noteq> a" for b unfolding d'(2) fin_def using that by simp
          show "vo_buffers d' q = vo_buffers d0 q" if "q \<in> L" for q
            unfolding d'(2) fin_def using that p by auto
          show "vb_ptr (vo_buffers d' p) = Some a" unfolding d'(2) fin_def by simp
          show "buffer_ok d' p"
            using f(2) cap k n0 unfolding d'(2) fin_def by (auto simp: buffer_ok_def)
        qed
        then show ?thesis using d'(1) by simp
      qed
    qed
  qed
qed

lemma release_memory_frame:
  shows "same_objects d (releaseBufferMemory b d)" "Some q \<noteq> b \<Longrightarrow> vo_buffers (releaseBufferMemory b d) q = vo_buffers d q"
    "same_buffer (vo_buffers d q) (vo_buffers (releaseBufferMemory b d) q)"
  by (auto simp: releaseBufferMemory_def pool_put_def Let_def same_objects_def same_buffer_def
      split: option.splits prod.splits if_splits)

lemma release_none: "vb_ptr (vo_buffers d p) = None \<Longrightarrow> releaseBufferMemory (Some p) d = d"
  by (simp add: releaseBufferMemory_def)

lemma release_memory:
  assumes ok: "memory_ok d L" and p: "p \<in> L"
  shows "memory_ok (releaseBufferMemory (Some p) d) (L - {p})"
proof (cases "vb_ptr (vo_buffers d p)")
  case None
  have "memory_ok d (L - {p})"
    unfolding memory_ok_def
  proof (intro conjI ballI allI impI)
    show "pool_ok d" by (rule memory_okD(1) [OF ok])
    show "buffer_ok d q" if "q \<in> L - {p}" for q using memory_okD(2) [OF ok] that by simp
    show "vo_heap d a \<noteq> None \<longleftrightarrow> a \<in> pool_blocks d \<or> (\<exists>q \<in> L - {p}. vb_ptr (vo_buffers d q) = Some a)" for a
      using memory_okD(5) [OF ok, of a] None by auto
  qed (use memory_okD(3,4) [OF ok] in auto)
  then show ?thesis by (simp add: release_none None)
next
  case (Some a)
  define b where "b = vo_buffers d p"
  define k where "k = vb_poolClass b"
  have "buffer_ok d p" by (rule memory_okD(2) [OF ok p])
  then have h: "map_option length (vo_heap d a) = Some (unat (vb_capacity b))"
    and cls: "k = -1 \<or> 0 \<le> k \<and> k < 11 \<and> vb_capacity b = bufferPoolClassSizes ! nat k"
    using Some by (auto simp: buffer_ok_def b_def k_def Let_def)
  have na: "a \<notin> pool_blocks d" by (rule memory_okD(4) [OF ok p Some])
  obtain pooled d1 where put: "pool_put p a d = (pooled, d1)" by force
  define d2 where "d2 = (if pooled then d1 else d1\<lparr>vo_heap := (vo_heap d1)(a := None)\<rparr>)"
  have d': "releaseBufferMemory (Some p) d = upd_buffer p (\<lambda>b. b\<lparr>vb_ptr := None, vb_capacity := 0, vb_poolClass := -1\<rparr>) d2"
    by (simp add: releaseBufferMemory_def Some put d2_def)
  note pok = memory_okD(1) [OF ok]
  note l = pool_ok_length [OF pok]
  have main: "pool_ok d2 \<and> (\<forall>b. b \<noteq> a \<longrightarrow> (b \<in> pool_blocks d2 \<longleftrightarrow> b \<in> pool_blocks d)) \<and>
      (\<forall>b. b \<noteq> a \<longrightarrow> vo_heap d2 b = vo_heap d b) \<and> (vo_heap d2 a \<noteq> None \<longleftrightarrow> a \<in> pool_blocks d2) \<and>
      vo_buffers d2 = vo_buffers d"
  proof (cases pooled)
    case False
    have d1: "d1 = d" using put False by (auto simp: pool_put_def Let_def split: if_splits)
    have "pool_ok d2 = pool_ok d" unfolding d2_def d1 using False na by (intro pool_ok_cong) auto
    then show ?thesis using False pok na by (simp add: d2_def d1 pool_blocks_def)
  next
    case True
    have g: "0 \<le> k" "k < 11" "vo_poolCounts d ! nat k < 16" "vb_capacity b \<le> vo_poolMaxBytes d"
        "vo_poolBytes d \<le> vo_poolMaxBytes d - vb_capacity b"
      and d1: "d1 = d\<lparr>vo_pool := (vo_pool d)[nat k := a # vo_pool d ! nat k],
        vo_poolCounts := (vo_poolCounts d)[nat k := vo_poolCounts d ! nat k + 1],
        vo_poolBytes := vo_poolBytes d + vb_capacity b\<rparr>"
      using put True by (auto simp: pool_put_def Let_def b_def k_def split: if_splits)
    have kn: "nat k < 11" "nat k < length (vo_pool d)" using g l by simp_all
    have cap: "vb_capacity b = bufferPoolClassSizes ! nat k" using cls g(1) by auto
    have na': "a \<notin> set (concat (vo_pool d))" using na by (simp add: pool_blocks_def)
    note push = pool_push [OF kn(2) na' l(3)]
    have at: "\<forall>j<11. unat (vo_poolCounts d ! j) = length (vo_pool d ! j) \<and> length (vo_pool d ! j) \<le> 16 \<and>
        (\<forall>a \<in> set (vo_pool d ! j). map_option length (vo_heap d a) = Some (unat (bufferPoolClassSizes ! j)))"
      using pok by (simp add: pool_ok_def)
    have c: "unat (vo_poolCounts d ! nat k) < 16" using g(3) by (simp add: word_less_nat_alt)
    then have c1: "unat (vo_poolCounts d ! nat k + 1) = Suc (unat (vo_poolCounts d ! nat k))"
      by (subst unat_add_no_overflow) simp_all
    have le: "unat (vo_poolBytes d) + unat (vb_capacity b) \<le> unat (vo_poolMaxBytes d)"
      using g(4,5) unat_sub_le [OF g(4)] by (simp add: word_le_nat_alt)
    then have b1: "unat (vo_poolBytes d + vb_capacity b) = unat (vo_poolBytes d) + unat (vb_capacity b)"
      using unat_u64_less [of "vo_poolMaxBytes d"] by (subst unat_add_no_overflow) simp_all
    have sum: "pooled_bytes (vo_pool d1) = unat (vo_poolBytes d1)"
      using pooled_bytes_update [OF kn(1) l(1), of "a # vo_pool d ! nat k"] pok b1 cap by (simp add: d1 pool_ok_def)
    have all: "\<forall>j<11. unat (vo_poolCounts d1 ! j) = length (vo_pool d1 ! j) \<and> length (vo_pool d1 ! j) \<le> 16 \<and>
        (\<forall>a \<in> set (vo_pool d1 ! j). map_option length (vo_heap d1 a) = Some (unat (bufferPoolClassSizes ! j)))"
    proof (intro allI impI)
      fix j :: nat assume j: "j < 11"
      show "unat (vo_poolCounts d1 ! j) = length (vo_pool d1 ! j) \<and> length (vo_pool d1 ! j) \<le> 16 \<and>
        (\<forall>a \<in> set (vo_pool d1 ! j). map_option length (vo_heap d1 a) = Some (unat (bufferPoolClassSizes ! j)))"
        using at j c c1 h cap l kn by (cases "j = nat k") (auto simp: d1)
    qed
    have "pool_ok d1"
      unfolding pool_ok_def using all l push(2) sum le b1 by (simp add: d1 word_le_nat_alt)
    moreover have "pool_blocks d1 = insert a (pool_blocks d)" using push(1) by (simp add: d1 pool_blocks_def)
    moreover have "vo_heap d a \<noteq> None" using h by auto
    ultimately show ?thesis using True by (simp add: d2_def d1)
  qed
  show ?thesis
    unfolding d'
  proof (rule memory_ok_take [OF ok p Some])
    let ?d = "upd_buffer p (\<lambda>b. b\<lparr>vb_ptr := None, vb_capacity := 0, vb_poolClass := -1\<rparr>) d2"
    have "pool_ok ?d = pool_ok d2" by (rule pool_ok_cong) simp_all
    then show "pool_ok ?d" using main by simp
  qed (use main in \<open>auto simp: pool_blocks_def\<close>)
qed

lemma set_memory_simps [simp]:
  "vo_buffers (set_memory ptr bytes d) = vo_buffers d" "same_objects d (set_memory ptr bytes d)"
  "vo_pool (set_memory ptr bytes d) = vo_pool d" "vo_poolCounts (set_memory ptr bytes d) = vo_poolCounts d"
  "vo_poolBytes (set_memory ptr bytes d) = vo_poolBytes d"
  "vo_poolMaxBytes (set_memory ptr bytes d) = vo_poolMaxBytes d"
  by (simp_all add: set_memory_def same_objects_def split: option.split)

lemma set_memory_length:
  assumes "\<And>m. ptr = Some a \<Longrightarrow> vo_heap d a = Some m \<Longrightarrow> length bytes \<le> length m"
  shows "map_option length (vo_heap (set_memory ptr bytes d) a) = map_option length (vo_heap d a)"
  using assms by (cases ptr; cases "vo_heap d a") (auto simp: set_memory_def)

lemma set_memory_ok:
  assumes ok: "memory_ok d L" and len: "\<And>a m. ptr = Some a \<Longrightarrow> vo_heap d a = Some m \<Longrightarrow> length bytes \<le> length m"
  shows "memory_ok (set_memory ptr bytes d) L"
proof -
  let ?d = "set_memory ptr bytes d"
  have m: "map_option length (vo_heap ?d a) = map_option length (vo_heap d a)" for a
    by (rule set_memory_length) (rule len)
  then have n: "vo_heap ?d a \<noteq> None \<longleftrightarrow> vo_heap d a \<noteq> None" for a by (metis map_option_is_None)
  have "pool_ok ?d = pool_ok d" by (rule pool_ok_cong) (simp_all add: m)
  moreover have "buffer_ok ?d p = buffer_ok d p" for p unfolding buffer_ok_def set_memory_simps m by (rule refl)
  ultimately show ?thesis using ok unfolding memory_ok_def n pool_blocks_def set_memory_simps by simp
qed

lemma destroy_pool:
  assumes "memory_ok d L"
  shows "memory_ok (destroyBufferPool init d) L" "same_objects d (destroyBufferPool init d)"
    "vo_buffers (destroyBufferPool init d) = vo_buffers d"
proof -
  show "same_objects d (destroyBufferPool init d)" "vo_buffers (destroyBufferPool init d) = vo_buffers d"
    by (simp_all add: destroyBufferPool_def same_objects_def)
  let ?d = "destroyBufferPool True d"
  have pool: "pool_blocks ?d = {}" "pool_ok ?d"
    by (simp_all add: destroyBufferPool_def pool_blocks_def pool_ok_def pooled_bytes_def)
  have heap: "vo_heap ?d a = (if a \<in> pool_blocks d then None else vo_heap d a)" for a
    by (simp add: destroyBufferPool_def pool_blocks_def restrict_map_def)
  have b: "vo_buffers ?d = vo_buffers d" by (simp add: destroyBufferPool_def)
  have "memory_ok ?d L"
    unfolding memory_ok_def
  proof (intro conjI ballI allI impI)
    show "pool_ok ?d" by (rule pool(2))
    show "buffer_ok ?d p" if "p \<in> L" for p
    proof -
      have "buffer_ok ?d p = buffer_ok d p"
        by (rule buffer_ok_cong) (use memory_okD(4) [OF assms that] in \<open>auto simp: b heap\<close>)
      then show ?thesis using memory_okD(2) [OF assms that] by simp
    qed
    show "vo_heap ?d a \<noteq> None \<longleftrightarrow> a \<in> pool_blocks ?d \<or> (\<exists>p \<in> L. vb_ptr (vo_buffers ?d p) = Some a)" for a
      using memory_okD(5) [OF assms, of a] memory_okD(4) [OF assms, of _ a] by (auto simp: heap pool(1) b)
  qed (use memory_okD(3) [OF assms] pool(1) b in auto)
  then show "memory_ok (destroyBufferPool init d) L" using assms by (cases init) (simp_all add: destroyBufferPool_def)
qed

end
