(* ===== verification/VaSession.thy ===== *)
theory VaSession
  imports VaMemory
begin

text \<open>
  Sequences of calls on buffers and images. \<open>va_ok\<close> is the invariant: every object has a payload of
  its own, the memory of buffers is owned exactly once (\<open>memory_ok\<close>), and images and the buffers
  marked as theirs belong to each other. \<open>va_step\<close> is one call, with every answer of the
  allocators that is fresh; objects of other types come and go in between.
\<close>

section \<open>Live objects\<close>

definition found :: "VaObjects \<Rightarrow> nat NVDObject set" where
  "found d = {ob. \<exists>i. tab_find (vo_table d) i = Some ob}"

definition payloads :: "VaObjects \<Rightarrow> nat set" where
  "payloads d = {p. \<exists>ob \<in> found d. obj_payload ob = Some p}"

definition live :: "VaObjects \<Rightarrow> u8 \<Rightarrow> nat set" where
  "live d ty = {p. \<exists>ob \<in> found d. obj_type ob = ty \<and> obj_payload ob = Some p}"

definition own_payloads :: "VaObjects \<Rightarrow> bool" where
  "own_payloads d \<longleftrightarrow>
     (\<forall>i j ob ob' p. tab_find (vo_table d) i = Some ob \<longrightarrow> tab_find (vo_table d) j = Some ob' \<longrightarrow>
        obj_payload ob = Some p \<longrightarrow> obj_payload ob' = Some p \<longrightarrow> same_id i j)"

definition image_ok :: "VaObjects \<Rightarrow> nat \<Rightarrow> bool" where
  "image_ok d q \<longleftrightarrow>
     vi_imageBufferId (vo_images d q) \<noteq> VA_INVALID_ID \<and>
     vb_imageOwned (vo_buffers d (vi_imageBuffer (vo_images d q))) \<and>
     (\<exists>ob. tab_find (vo_table d) (vi_imageBufferId (vo_images d q)) = Some ob \<and> obj_type ob = OBJECT_TYPE_BUFFER \<and>
           obj_payload ob = Some (vi_imageBuffer (vo_images d q)))"

definition images_ok :: "VaObjects \<Rightarrow> bool" where
  "images_ok d \<longleftrightarrow>
     (\<forall>q \<in> live d OBJECT_TYPE_IMAGE. image_ok d q) \<and>
     (\<forall>q \<in> live d OBJECT_TYPE_IMAGE. \<forall>r \<in> live d OBJECT_TYPE_IMAGE.
        vi_imageBuffer (vo_images d q) = vi_imageBuffer (vo_images d r) \<longrightarrow> q = r) \<and>
     (\<forall>p \<in> live d OBJECT_TYPE_BUFFER. vb_imageOwned (vo_buffers d p) \<longrightarrow>
        (\<exists>q \<in> live d OBJECT_TYPE_IMAGE. vi_imageBuffer (vo_images d q) = p))"

definition va_ok :: "VaObjects \<Rightarrow> bool" where
  "va_ok d \<longleftrightarrow> table_ok (vo_table d) \<and> own_payloads d \<and> memory_ok d (live d OBJECT_TYPE_BUFFER) \<and> images_ok d"

lemma same_id_sym: "same_id i j \<Longrightarrow> same_id j i" and same_id_trans: "same_id i j \<Longrightarrow> same_id j k \<Longrightarrow> same_id i k"
  and same_id_refl [simp]: "same_id i i"
  by (simp_all add: same_id_def)

lemma find_same_id: "same_id i j \<Longrightarrow> tab_find t i = tab_find t j"
  by (simp add: same_id_def tab_find_def)

lemma live_payloads: "p \<in> live d ty \<Longrightarrow> p \<in> payloads d"
  by (auto simp: live_def payloads_def)

lemma live_unique:
  assumes "own_payloads d" "p \<in> live d ty" "p \<in> live d ty'"
  shows "ty = ty'"
proof -
  obtain i ob j ob' where o: "tab_find (vo_table d) i = Some ob" "obj_type ob = ty" "obj_payload ob = Some p"
    "tab_find (vo_table d) j = Some ob'" "obj_type ob' = ty'" "obj_payload ob' = Some p"
    using assms(2,3) unfolding live_def found_def by blast
  then have "same_id i j" using assms(1) unfolding own_payloads_def by blast
  from find_same_id [OF this, of "vo_table d"] show ?thesis using o by simp
qed

lemma same_live:
  assumes "vo_table d' = vo_table d"
  shows "live d' = live d" "payloads d' = payloads d" "own_payloads d' = own_payloads d"
  by (simp_all add: fun_eq_iff live_def found_def payloads_def own_payloads_def assms)

section \<open>Lookup\<close>

lemma getObjectPtr_Some:
  assumes "getObjectPtr ty i d = Some p"
  obtains ob where "tab_find (vo_table d) i = Some ob" "obj_type ob = ty" "obj_payload ob = Some p" "i \<noteq> VA_INVALID_ID"
    "\<not> vo_terminating d" "p \<in> live d ty"
proof -
  obtain ob where g: "nvdObjectTableGet (vo_table d) ty i = Some ob" "obj_payload ob = Some p" "i \<noteq> VA_INVALID_ID"
    "\<not> vo_terminating d"
    using assms by (auto simp: getObjectPtr_def getObject_def split: if_splits option.splits)
  then have "tab_find (vo_table d) i = Some ob" "obj_type ob = ty"
    by (auto simp: get_find split: option.splits if_splits)
  then show thesis using that g(2-4) unfolding live_def found_def by blast
qed

lemma getObjectPtr_find:
  "tab_find (vo_table d) i = Some ob \<Longrightarrow> obj_type ob = ty \<Longrightarrow> i \<noteq> VA_INVALID_ID \<Longrightarrow> \<not> vo_terminating d \<Longrightarrow>
   getObjectPtr ty i d = obj_payload ob"
  by (simp add: getObjectPtr_def getObject_def get_find)

section \<open>Allocation and deletion of objects\<close>

lemma allocateObject_none:
  assumes "table_ok (vo_table d)" "allocateObject al p ty n d = (None, d')"
  shows "\<exists>t. d' = d\<lparr>vo_table := t\<rparr> \<and> table_ok t \<and> (\<forall>j. tab_find t j = tab_find (vo_table d) j)"
proof (cases "vo_terminating d")
  case True
  then show ?thesis using assms by (intro exI [of _ "vo_table d"]) (simp add: allocateObject_def)
next
  case False
  obtain fl where inv: "tab_inv (vo_table d) fl" using assms(1) by (auto simp: table_ok_def)
  obtain t where t: "nvdObjectTableAllocate (al_realloc al) (al_calloc al) p (vo_table d) ty n = (None, t)"
    "d' = d\<lparr>vo_table := t\<rparr>"
    using assms(2) False by (auto simp: allocateObject_def split: prod.splits)
  then show ?thesis using allocate_run [OF inv t(1)] by (auto simp: table_ok_def)
qed

lemma allocateObject_some:
  assumes "table_ok (vo_table d)" "allocateObject al p ty n d = (Some ob, d')" "n \<noteq> 0"
  shows "\<exists>t. d' = d\<lparr>vo_table := t\<rparr> \<and> table_ok t \<and> obj_type ob = ty \<and> obj_payload ob = Some p \<and>
    tab_find (vo_table d) (obj_id ob) = None \<and> obj_id ob \<noteq> VA_INVALID_ID \<and> \<not> vo_terminating d \<and>
    (\<forall>j. tab_find t j = (if same_id j (obj_id ob) then Some ob else tab_find (vo_table d) j))"
proof -
  obtain fl where inv: "tab_inv (vo_table d) fl" using assms(1) by (auto simp: table_ok_def)
  obtain t where t: "nvdObjectTableAllocate (al_realloc al) (al_calloc al) p (vo_table d) ty n = (Some ob, t)"
    "d' = d\<lparr>vo_table := t\<rparr>" and nt: "\<not> vo_terminating d"
    using assms(2) by (auto simp: allocateObject_def split: prod.splits if_splits)
  note run = allocate_run [OF inv t(1)]
  obtain fl' where inv': "tab_inv t fl'" using run by auto
  have "tab_find t (obj_id ob) = Some ob" using run by simp
  from tab_find_SomeD(3) [OF inv' this] show ?thesis using run t(2) nt assms(3) by (auto simp: table_ok_def)
qed

lemma deleteObject_find:
  assumes "table_ok (vo_table d)" "i \<noteq> VA_INVALID_ID"
  shows "\<exists>t. deleteObject i d = d\<lparr>vo_table := t\<rparr> \<and> table_ok t \<and>
    (\<forall>j. tab_find t j = (if same_id j i then None else tab_find (vo_table d) j))"
proof -
  obtain fl where inv: "tab_inv (vo_table d) fl" using assms(1) by (auto simp: table_ok_def)
  obtain r t where t: "nvdObjectTableRemove (vo_table d) i = (r, t)" by force
  show ?thesis using remove_find(2,3) [OF inv t] assms(2) t by (auto simp: deleteObject_def table_ok_def)
qed

lemma live_new:
  assumes "\<forall>j. tab_find (vo_table d') j = (if same_id j (obj_id ob) then Some ob else tab_find (vo_table d) j)"
    and "tab_find (vo_table d) (obj_id ob) = None" "obj_type ob = ty" "obj_payload ob = Some p"
  shows "live d' ty' = (if ty' = ty then insert p (live d ty') else live d ty')" "payloads d' = insert p (payloads d)"
    "own_payloads d \<Longrightarrow> p \<notin> payloads d \<Longrightarrow> own_payloads d'"
proof -
  have old: "tab_find (vo_table d) j = Some o' \<Longrightarrow> tab_find (vo_table d') j = Some o'" for j o'
    using assms(1,2) find_same_id [of j "obj_id ob" "vo_table d"] by auto
  have new: "tab_find (vo_table d') j = Some o' \<Longrightarrow> tab_find (vo_table d) j = Some o' \<or> o' = ob \<and> same_id j (obj_id ob)" for j o'
    using assms(1) by (auto split: if_splits)
  have self: "tab_find (vo_table d') (obj_id ob) = Some ob" using assms(1) by simp
  have f: "found d' = insert ob (found d)" unfolding found_def using old new self by blast
  show "live d' ty' = (if ty' = ty then insert p (live d ty') else live d ty')"
    unfolding live_def f using assms(3,4) by auto
  show "payloads d' = insert p (payloads d)"
    unfolding payloads_def f using assms(4) by auto
  assume o: "own_payloads d" "p \<notin> payloads d"
  show "own_payloads d'"
    unfolding own_payloads_def
  proof (intro allI impI)
    fix i j oi oj q
    assume h: "tab_find (vo_table d') i = Some oi" "tab_find (vo_table d') j = Some oj"
      "obj_payload oi = Some q" "obj_payload oj = Some q"
    have np: "tab_find (vo_table d) k = Some o' \<Longrightarrow> obj_payload o' \<noteq> Some p" for k o'
      using o(2) unfolding payloads_def found_def by blast
    from new [OF h(1)] show "same_id i j"
    proof
      assume i: "tab_find (vo_table d) i = Some oi"
      then have "q \<noteq> p" using np h(3) by blast
      then have "tab_find (vo_table d) j = Some oj" using new [OF h(2)] h(4) assms(4) by auto
      then show ?thesis using o(1) i h(3,4) unfolding own_payloads_def by blast
    next
      assume i: "oi = ob \<and> same_id i (obj_id ob)"
      then have "q = p" using h(3) assms(4) by simp
      then have "same_id j (obj_id ob)" using new [OF h(2)] np h(4) by blast
      then show ?thesis using i same_id_sym same_id_trans by blast
    qed
  qed
qed

lemma live_delete:
  assumes "\<forall>j. tab_find (vo_table d') j = (if same_id j i then None else tab_find (vo_table d) j)"
    and "tab_find (vo_table d) i = Some ob" "obj_payload ob = Some p" "own_payloads d"
  shows "live d' ty = live d ty - {p}" "payloads d' = payloads d - {p}" "own_payloads d'"
proof -
  have keep: "tab_find (vo_table d') j = Some o' \<longleftrightarrow> tab_find (vo_table d) j = Some o' \<and> obj_payload o' \<noteq> Some p"
    if "obj_payload o' \<noteq> None" for j o'
  proof (cases "same_id j i")
    case True
    then show ?thesis using assms(1,2,3) find_same_id [OF True, of "vo_table d"] by auto
  next
    case False
    then show ?thesis using assms unfolding own_payloads_def by (metis (no_types, lifting))
  qed
  have f: "o' \<in> found d' \<longleftrightarrow> o' \<in> found d \<and> obj_payload o' \<noteq> Some p" if "obj_payload o' \<noteq> None" for o'
    unfolding found_def using keep [OF that] by blast
  show "live d' ty = live d ty - {p}"
  proof (intro set_eqI)
    fix q
    show "q \<in> live d' ty \<longleftrightarrow> q \<in> live d ty - {p}"
      unfolding live_def using f by (auto; blast)
  qed
  show "payloads d' = payloads d - {p}"
  proof (intro set_eqI)
    fix q
    show "q \<in> payloads d' \<longleftrightarrow> q \<in> payloads d - {p}"
      unfolding payloads_def using f by (auto; blast)
  qed
  show "own_payloads d'"
    unfolding own_payloads_def
  proof (intro allI impI)
    fix a b oa ob' q
    assume h: "tab_find (vo_table d') a = Some oa" "tab_find (vo_table d') b = Some ob'"
      "obj_payload oa = Some q" "obj_payload ob' = Some q"
    then have "tab_find (vo_table d) a = Some oa" "tab_find (vo_table d) b = Some ob'" using keep by auto
    then show "same_id a b" using assms(4) h(3,4) unfolding own_payloads_def by blast
  qed
qed

section \<open>The invariant is kept\<close>

definition fresh_alloc :: "va_alloc \<Rightarrow> VaObjects \<Rightarrow> bool" where
  "fresh_alloc al d \<longleftrightarrow> al_payload al \<notin> payloads d \<and> al_payload2 al \<notin> payloads d \<and>
     al_payload al \<noteq> al_payload2 al \<and> fresh_block al d"

definition same_finds :: "VaObjects \<Rightarrow> VaObjects \<Rightarrow> bool" where
  "same_finds d d' \<longleftrightarrow> (\<forall>j. tab_find (vo_table d') j = tab_find (vo_table d) j)"

lemma same_finds_live:
  assumes "same_finds d d'"
  shows "live d' = live d" "payloads d' = payloads d" "own_payloads d' = own_payloads d"
  using assms by (simp_all add: fun_eq_iff same_finds_def live_def found_def payloads_def own_payloads_def)

lemma va_okD:
  assumes "va_ok d"
  shows "table_ok (vo_table d)" "own_payloads d" "memory_ok d (live d OBJECT_TYPE_BUFFER)" "images_ok d"
  using assms by (simp_all add: va_ok_def)

lemma images_okD:
  assumes "images_ok d"
  shows "q \<in> live d OBJECT_TYPE_IMAGE \<Longrightarrow> image_ok d q"
    "q \<in> live d OBJECT_TYPE_IMAGE \<Longrightarrow> r \<in> live d OBJECT_TYPE_IMAGE \<Longrightarrow>
      vi_imageBuffer (vo_images d q) = vi_imageBuffer (vo_images d r) \<Longrightarrow> q = r"
    "p \<in> live d OBJECT_TYPE_BUFFER \<Longrightarrow> vb_imageOwned (vo_buffers d p) \<Longrightarrow>
      \<exists>q \<in> live d OBJECT_TYPE_IMAGE. vi_imageBuffer (vo_images d q) = p"
  using assms unfolding images_ok_def by blast+

lemma image_buffer_live: "image_ok d q \<Longrightarrow> vi_imageBuffer (vo_images d q) \<in> live d OBJECT_TYPE_BUFFER"
  unfolding image_ok_def live_def found_def by blast

lemma image_ok_cong:
  assumes "vo_images d' q = vo_images d q"
    and "vb_imageOwned (vo_buffers d' (vi_imageBuffer (vo_images d q))) = vb_imageOwned (vo_buffers d (vi_imageBuffer (vo_images d q)))"
    and "tab_find (vo_table d') (vi_imageBufferId (vo_images d q)) = tab_find (vo_table d) (vi_imageBufferId (vo_images d q))"
  shows "image_ok d' q = image_ok d q"
  unfolding image_ok_def assms by (rule refl)

lemma images_ok_transfer:
  assumes ok: "images_ok d" and l: "live d' OBJECT_TYPE_IMAGE = live d OBJECT_TYPE_IMAGE"
    and im: "vo_images d' = vo_images d"
    and t: "\<And>q. q \<in> live d OBJECT_TYPE_IMAGE \<Longrightarrow>
      tab_find (vo_table d') (vi_imageBufferId (vo_images d q)) = tab_find (vo_table d) (vi_imageBufferId (vo_images d q))"
    and own: "\<And>p. p \<in> live d OBJECT_TYPE_BUFFER \<Longrightarrow> vb_imageOwned (vo_buffers d' p) = vb_imageOwned (vo_buffers d p)"
    and new: "\<And>p. p \<in> live d' OBJECT_TYPE_BUFFER \<Longrightarrow> p \<in> live d OBJECT_TYPE_BUFFER \<or> \<not> vb_imageOwned (vo_buffers d' p)"
  shows "images_ok d'"
proof -
  have "image_ok d' q" if q: "q \<in> live d OBJECT_TYPE_IMAGE" for q
  proof -
    have i: "image_ok d q" by (rule images_okD(1) [OF ok q])
    have "image_ok d' q = image_ok d q"
      by (rule image_ok_cong) (use im own image_buffer_live [OF i] t [OF q] in simp_all)
    then show ?thesis using i by simp
  qed
  moreover have "\<exists>q \<in> live d OBJECT_TYPE_IMAGE. vi_imageBuffer (vo_images d q) = p"
    if "p \<in> live d' OBJECT_TYPE_BUFFER" "vb_imageOwned (vo_buffers d' p)" for p
    using new [OF that(1)] own images_okD(3) [OF ok] that(2) by metis
  ultimately show ?thesis unfolding images_ok_def l im using images_okD(2) [OF ok] by blast
qed

lemma va_ok_same_finds:
  assumes ok: "va_ok d" and f: "same_finds d d'" "table_ok (vo_table d')" "vo_images d' = vo_images d"
    and mem: "memory_ok d' (live d OBJECT_TYPE_BUFFER)"
    and own: "\<And>p. p \<in> live d OBJECT_TYPE_BUFFER \<Longrightarrow> vb_imageOwned (vo_buffers d' p) = vb_imageOwned (vo_buffers d p)"
  shows "va_ok d'"
proof -
  note l = same_finds_live [OF f(1)]
  have "images_ok d'"
    by (rule images_ok_transfer [OF va_okD(4) [OF ok]]) (use l f own in \<open>auto simp: same_finds_def\<close>)
  then show ?thesis using va_okD [OF ok] f(2) mem unfolding va_ok_def l by simp
qed

lemma memory_ok_table: "memory_ok (d\<lparr>vo_table := t\<rparr>) L = memory_ok d L"
  by (rule memory_ok_cong) simp_all

lemma new_delete_finds:
  assumes "\<forall>j. tab_find (vo_table d1) j = (if same_id j i then Some ob else tab_find (vo_table d) j)"
    and "tab_find (vo_table d) i = None" "vo_table d2 = vo_table d1"
    and "\<forall>j. tab_find (vo_table d3) j = (if same_id j i then None else tab_find (vo_table d2) j)"
  shows "same_finds d d3"
  unfolding same_finds_def
proof
  fix j
  show "tab_find (vo_table d3) j = tab_find (vo_table d) j"
    using assms find_same_id [of j i "vo_table d"] by (cases "same_id j i") simp_all
qed

text \<open>The memory of a new buffer object, with the bytes that are put there.\<close>

lemma new_buffer_memory:
  assumes m: "memory_ok d L" and p: "p \<notin> L" and fresh: "fresh_block al d" and f: "vb_size (f (vo_buffers d p)) = n"
    and run: "allocateBufferMemory al p n (upd_buffer p f d) = (r, d')"
  shows "if r then memory_ok d' (insert p L) else memory_ok d' L"
    "r \<Longrightarrow> length bytes \<le> unat n \<Longrightarrow> memory_ok (set_memory (vb_ptr (vo_buffers d' p)) bytes d') (insert p L)"
    "vo_table d' = vo_table d" "vo_images d' = vo_images d" "vo_terminating d' = vo_terminating d"
    "\<And>q. q \<noteq> p \<Longrightarrow> vo_buffers d' q = vo_buffers d q" "same_buffer (f (vo_buffers d p)) (vo_buffers d' p)"
proof -
  note fr = allocate_memory_frame [OF run]
  show "vo_table d' = vo_table d" "vo_images d' = vo_images d" "vo_terminating d' = vo_terminating d"
    "\<And>q. q \<noteq> p \<Longrightarrow> vo_buffers d' q = vo_buffers d q" and s: "same_buffer (f (vo_buffers d p)) (vo_buffers d' p)"
    using fr by (simp_all add: same_objects_def)
  show mem: "if r then memory_ok d' (insert p L) else memory_ok d' L"
    by (rule allocate_memory [OF memory_ok_other [OF m p] p _ _ run]) (use f fresh in \<open>simp_all add: fresh_block_def\<close>)
  assume r: r and len: "length bytes \<le> unat n"
  have m': "memory_ok d' (insert p L)" using mem r by simp
  have b: "buffer_ok d' p" by (rule memory_okD(2) [OF m']) simp
  have "vb_size (vo_buffers d' p) = n" using s f by (simp add: same_buffer_def)
  then have "length bytes \<le> length mm" if "vb_ptr (vo_buffers d' p) = Some a" "vo_heap d' a = Some mm" for a mm
    using b that len by (simp add: buffer_ok_def word_le_nat_alt Let_def)
  from set_memory_ok [OF m' this] show "memory_ok (set_memory (vb_ptr (vo_buffers d' p)) bytes d') (insert p L)" by simp
qed

lemma set_memory_objects [simp]:
  "vo_table (set_memory ptr bytes d) = vo_table d" "vo_images (set_memory ptr bytes d) = vo_images d"
  "vo_terminating (set_memory ptr bytes d) = vo_terminating d"
  by (simp_all add: set_memory_def split: option.split)

text \<open>A new object leaves what is found under the ID of an image's buffer.\<close>

lemma image_buffer_kept:
  assumes "image_ok d q" "tab_find (vo_table d) i = None"
    and "\<forall>j. tab_find t j = (if same_id j i then x else tab_find (vo_table d) j)"
  shows "tab_find t (vi_imageBufferId (vo_images d q)) = tab_find (vo_table d) (vi_imageBufferId (vo_images d q))"
proof -
  have "\<not> same_id (vi_imageBufferId (vo_images d q)) i"
    using assms(1,2) find_same_id [of "vi_imageBufferId (vo_images d q)" i "vo_table d"] by (auto simp: image_ok_def)
  then show ?thesis using assms(3) by simp
qed

lemma create_buffer_object_ok:
  assumes ok: "va_ok d" and fresh: "fresh_alloc al d"
    and run: "create_buffer_object al c ty num es bs data d = (st, i, d')"
  shows "va_ok d'"
proof -
  note o = va_okD [OF ok]
  define p where "p = al_payload al"
  define L where "L = live d OBJECT_TYPE_BUFFER"
  have pf: "p \<notin> payloads d" and pL: "p \<notin> L" and fb: "fresh_block al d"
    using fresh live_payloads by (auto simp: fresh_alloc_def p_def L_def)
  obtain r d1 where a: "allocateObject al p OBJECT_TYPE_BUFFER sizeof_NVBuffer d = (r, d1)" by force
  show ?thesis
  proof (cases r)
    case None
    then obtain t where t: "d1 = d\<lparr>vo_table := t\<rparr>" "table_ok t" "\<forall>j. tab_find t j = tab_find (vo_table d) j"
      using allocateObject_none [OF o(1)] a by blast
    have "d' = d1" using run a None by (simp add: create_buffer_object_def p_def)
    then show ?thesis
      by (intro va_ok_same_finds [OF ok]) (use t o(3) in \<open>simp_all add: same_finds_def memory_ok_table\<close>)
  next
    case (Some ob)
    then obtain t where t: "d1 = d\<lparr>vo_table := t\<rparr>" "table_ok t" "obj_type ob = OBJECT_TYPE_BUFFER" "obj_payload ob = Some p"
      "tab_find (vo_table d) (obj_id ob) = None" "obj_id ob \<noteq> VA_INVALID_ID"
      "\<forall>j. tab_find t j = (if same_id j (obj_id ob) then Some ob else tab_find (vo_table d) j)"
      using allocateObject_some [OF o(1), of al p OBJECT_TYPE_BUFFER sizeof_NVBuffer ob d1] a by auto
    define f :: "VaBuffer \<Rightarrow> VaBuffer" where "f = (\<lambda>b. b\<lparr>vb_bufferType := ty, vb_ownerContextId := c,
      vb_imageOwned := False, vb_elements := num, vb_elementSize := es, vb_size := bs\<rparr>)"
    obtain ok3 d3 where m: "allocateBufferMemory al p bs (upd_buffer p f d1) = (ok3, d3)" by force
    have m1: "memory_ok d1 L" using o(3) by (simp add: t(1) memory_ok_table L_def)
    have f1: "fresh_block al d1" "vb_size (f (vo_buffers d1 p)) = bs" using fb by (simp_all add: fresh_block_def t(1) f_def)
    note mem = new_buffer_memory [OF m1 pL f1 m]
    have np: "q \<in> L \<Longrightarrow> q \<noteq> p" for q using pL by auto
    show ?thesis
    proof (cases ok3)
      case False
      obtain t' where t': "deleteObject (obj_id ob) d3 = d3\<lparr>vo_table := t'\<rparr>" "table_ok t'"
        "\<forall>j. tab_find t' j = (if same_id j (obj_id ob) then None else tab_find (vo_table d3) j)"
        using deleteObject_find [of d3 "obj_id ob"] t(1,2,6) mem(3) by auto
      have d': "d' = d3\<lparr>vo_table := t'\<rparr>"
        using run a Some m False t'(1) by (simp add: create_buffer_object_def p_def [symmetric] f_def)
      have "same_finds d d'"
        by (rule new_delete_finds [where i = "obj_id ob" and ob = ob and ?d1.0 = d1 and ?d2.0 = d3])
          (use t t' mem(3) d' in simp_all)
      then show ?thesis
        by (intro va_ok_same_finds [OF ok])
          (use mem False t'(2) np in \<open>auto simp: d' memory_ok_table L_def t(1)\<close>)
    next
      case True
      obtain bytes where b: "length bytes \<le> unat bs"
        and d': "d' = (if bs = 0 then d3 else set_memory (vb_ptr (vo_buffers d3 p)) bytes d3)"
        using run a Some m True by (cases data) (force simp: create_buffer_object_def p_def [symmetric] f_def)+
      have m4: "memory_ok d' (insert p L)" using mem(1) mem(2) [OF True b] True by (simp add: d')
      have tab4: "vo_table d' = t" "vo_images d' = vo_images d" "vo_buffers d' = vo_buffers d3"
        using mem(3,4) by (simp_all add: d' t(1))
      have nf: "\<forall>j. tab_find (vo_table d') j = (if same_id j (obj_id ob) then Some ob else tab_find (vo_table d) j)"
        using t(7) tab4 by simp
      note ln = live_new [OF nf t(5,3,4)]
      have "images_ok d'"
      proof (rule images_ok_transfer [OF o(4) _ tab4(2) image_buffer_kept [OF images_okD(1) [OF o(4)] t(5) nf]])
        show "live d' OBJECT_TYPE_IMAGE = live d OBJECT_TYPE_IMAGE" using ln(1) [of OBJECT_TYPE_IMAGE] by simp
        show "vb_imageOwned (vo_buffers d' q) = vb_imageOwned (vo_buffers d q)" if "q \<in> live d OBJECT_TYPE_BUFFER" for q
          using tab4(3) mem(6) np that by (simp add: L_def t(1))
        show "q \<in> live d OBJECT_TYPE_BUFFER \<or> \<not> vb_imageOwned (vo_buffers d' q)" if "q \<in> live d' OBJECT_TYPE_BUFFER" for q
          using that ln(1) [of OBJECT_TYPE_BUFFER] tab4(3) mem(7) by (auto simp: same_buffer_def f_def)
      qed
      then show ?thesis
        unfolding va_ok_def using m4 ln(1) [of OBJECT_TYPE_BUFFER] ln(3) [OF o(2) pf] tab4(1) t(2)
        by (simp add: L_def)
    qed
  qed
qed

lemma create_buffer_ok:
  assumes "va_ok d" "fresh_alloc al d" "nvCreateBuffer al tm h c ty n num data d = (st, i, d')"
  shows "va_ok d'"
  using assms create_buffer_object_ok [OF assms(1,2)]
  by (auto simp: nvCreateBuffer_def Let_def split: if_splits option.splits)

text \<open>A live buffer object is released and deleted; what remains is as before.\<close>

lemma delete_buffer:
  assumes ok: "va_ok d" and f: "tab_find (vo_table d) i = Some ob" "obj_type ob = OBJECT_TYPE_BUFFER" "obj_payload ob = Some p"
    and i: "i \<noteq> VA_INVALID_ID"
  defines "d' \<equiv> deleteObject i (releaseBufferMemory (Some p) d)"
  shows "table_ok (vo_table d')" "own_payloads d'" "memory_ok d' (live d' OBJECT_TYPE_BUFFER)"
    "live d' ty = live d ty - {p}" "vo_images d' = vo_images d" "vo_terminating d' = vo_terminating d"
    "\<And>q. q \<noteq> p \<Longrightarrow> vo_buffers d' q = vo_buffers d q"
    "\<forall>j. tab_find (vo_table d') j = (if same_id j i then None else tab_find (vo_table d) j)"
proof -
  note o = va_okD [OF ok]
  define d1 where "d1 = releaseBufferMemory (Some p) d"
  have s: "vo_table d1 = vo_table d" "vo_images d1 = vo_images d" "vo_terminating d1 = vo_terminating d"
    using release_memory_frame(1) [of d "Some p"] by (simp_all add: d1_def same_objects_def)
  have pL: "p \<in> live d OBJECT_TYPE_BUFFER" using f unfolding live_def found_def by blast
  obtain t where t: "d' = d1\<lparr>vo_table := t\<rparr>" "table_ok t"
    "\<forall>j. tab_find t j = (if same_id j i then None else tab_find (vo_table d1) j)"
    using deleteObject_find [of d1 i] o(1) i s(1) by (auto simp: d'_def d1_def)
  show find: "\<forall>j. tab_find (vo_table d') j = (if same_id j i then None else tab_find (vo_table d) j)"
    using t s(1) by simp
  note l = live_delete [OF find f(1,3) o(2)]
  show "table_ok (vo_table d')" "own_payloads d'" "live d' ty = live d ty - {p}"
    "vo_images d' = vo_images d" "vo_terminating d' = vo_terminating d"
    using t l s by simp_all
  have "memory_ok d1 (live d OBJECT_TYPE_BUFFER - {p})" unfolding d1_def by (rule release_memory [OF o(3) pL])
  then show "memory_ok d' (live d' OBJECT_TYPE_BUFFER)" unfolding l(1) by (simp add: t(1) memory_ok_table)
  show "vo_buffers d' q = vo_buffers d q" if "q \<noteq> p" for q
    using that release_memory_frame(2) [of q "Some p" d] by (simp add: t(1) d1_def)
qed

lemma destroy_buffer_ok:
  assumes ok: "va_ok d" and run: "nvDestroyBuffer i d = (st, d')"
  shows "va_ok d'"
proof (cases "getObjectPtr OBJECT_TYPE_BUFFER i d")
  case None
  then show ?thesis using ok run by (simp add: nvDestroyBuffer_def)
next
  case (Some p)
  obtain ob where f: "tab_find (vo_table d) i = Some ob" "obj_type ob = OBJECT_TYPE_BUFFER" "obj_payload ob = Some p"
    "i \<noteq> VA_INVALID_ID" "p \<in> live d OBJECT_TYPE_BUFFER"
    by (rule getObjectPtr_Some [OF Some]) blast
  show ?thesis
  proof (cases "vb_imageOwned (vo_buffers d p)")
    case True
    then show ?thesis using ok run Some by (simp add: nvDestroyBuffer_def)
  next
    case False
    then have d': "d' = deleteObject i (releaseBufferMemory (Some p) d)"
      using run Some by (simp add: nvDestroyBuffer_def)
    note db = delete_buffer [OF ok f(1-4), folded d']
    note o = va_okD [OF ok]
    have img: "vi_imageBuffer (vo_images d q) \<noteq> p" if "q \<in> live d OBJECT_TYPE_IMAGE" for q
      using images_okD(1) [OF o(4) that] False by (auto simp: image_ok_def)
    have "p \<notin> live d OBJECT_TYPE_IMAGE" using live_unique [OF o(2) f(5), of OBJECT_TYPE_IMAGE] by auto
    then have li: "live d' OBJECT_TYPE_IMAGE = live d OBJECT_TYPE_IMAGE" using db(4) [of OBJECT_TYPE_IMAGE] by auto
    have "images_ok d'"
    proof (rule images_ok_transfer [OF o(4) li db(5)])
      show "tab_find (vo_table d') (vi_imageBufferId (vo_images d q)) = tab_find (vo_table d) (vi_imageBufferId (vo_images d q))"
        if "q \<in> live d OBJECT_TYPE_IMAGE" for q
      proof -
        have "\<not> same_id (vi_imageBufferId (vo_images d q)) i"
          using images_okD(1) [OF o(4) that] img [OF that] f(1,3)
            find_same_id [of "vi_imageBufferId (vo_images d q)" i "vo_table d"] by (auto simp: image_ok_def)
        then show ?thesis using db(8) by simp
      qed
      show "vb_imageOwned (vo_buffers d' q) = vb_imageOwned (vo_buffers d q)" if "q \<in> live d OBJECT_TYPE_BUFFER" for q
        using db(7) [of q] release_memory_frame(3) [where q = q and b = "Some p" and d = d] False
        by (cases "q = p") (auto simp: d' same_buffer_def deleteObject_def)
    qed (use db(4) in auto)
    then show ?thesis using db(1-3) by (simp add: va_ok_def)
  qed
qed

lemma destroy_image_ok:
  assumes ok: "va_ok d" and run: "nvDestroyImage i d = (st, d')"
  shows "va_ok d'"
proof (cases "getObjectPtr OBJECT_TYPE_IMAGE i d")
  case None
  then show ?thesis using ok run by (simp add: nvDestroyImage_def)
next
  case (Some q)
  note o = va_okD [OF ok]
  obtain oi where fi: "tab_find (vo_table d) i = Some oi" "obj_type oi = OBJECT_TYPE_IMAGE" "obj_payload oi = Some q"
    "i \<noteq> VA_INVALID_ID" "\<not> vo_terminating d" "q \<in> live d OBJECT_TYPE_IMAGE"
    by (rule getObjectPtr_Some [OF Some]) blast
  define p where "p = vi_imageBuffer (vo_images d q)"
  define bi where "bi = vi_imageBufferId (vo_images d q)"
  obtain ob where fb: "tab_find (vo_table d) bi = Some ob" "obj_type ob = OBJECT_TYPE_BUFFER" "obj_payload ob = Some p"
    "bi \<noteq> VA_INVALID_ID"
    using images_okD(1) [OF o(4) fi(6)] by (auto simp: image_ok_def p_def bi_def)
  have "getObjectPtr OBJECT_TYPE_BUFFER bi d \<noteq> None"
    using getObjectPtr_find [OF fb(1,2,4) fi(5)] fb(3) by simp
  define d1 where "d1 = deleteObject bi (releaseBufferMemory (Some p) d)"
  have d': "d' = deleteObject i d1"
    using run Some \<open>getObjectPtr OBJECT_TYPE_BUFFER bi d \<noteq> None\<close>
    by (simp add: nvDestroyImage_def d1_def p_def bi_def Let_def)
  note db = delete_buffer [OF ok fb, folded d1_def]
  have pL: "p \<in> live d OBJECT_TYPE_BUFFER" using fb unfolding live_def found_def by blast
  have qp: "q \<noteq> p" using live_unique [OF o(2) fi(6), of OBJECT_TYPE_BUFFER] pL by auto
  have "\<not> same_id i bi" using fi(1,3) fb(1,3) qp find_same_id [of i bi "vo_table d"] by auto
  then have f1: "tab_find (vo_table d1) i = Some oi" using db(8) fi(1) by simp
  obtain t where t: "d' = d1\<lparr>vo_table := t\<rparr>" "table_ok t"
    "\<forall>j. tab_find t j = (if same_id j i then None else tab_find (vo_table d1) j)"
    using deleteObject_find [OF db(1) fi(4)] d' by auto
  have find: "\<forall>j. tab_find (vo_table d') j = (if same_id j i then None else tab_find (vo_table d1) j)" using t by simp
  note l = live_delete [OF find f1 fi(3) db(2)]
  have lb: "live d' OBJECT_TYPE_BUFFER = live d OBJECT_TYPE_BUFFER - {p}" "live d1 OBJECT_TYPE_BUFFER = live d OBJECT_TYPE_BUFFER - {p}"
    using l(1) db(4) live_unique [OF o(2) fi(6), of OBJECT_TYPE_BUFFER] by auto
  have li: "live d' OBJECT_TYPE_IMAGE = live d OBJECT_TYPE_IMAGE - {q}"
    using l(1) db(4) live_unique [OF o(2) pL, of OBJECT_TYPE_IMAGE] by auto
  have mem: "memory_ok d' (live d' OBJECT_TYPE_BUFFER)" using db(3) lb by (simp add: t(1) memory_ok_table)
  have other: "vi_imageBuffer (vo_images d r) \<noteq> p" if "r \<in> live d OBJECT_TYPE_IMAGE" "r \<noteq> q" for r
    using images_okD(2) [OF o(4) that(1) fi(6)] that(2) by (auto simp: p_def)
  have "images_ok d'"
    unfolding images_ok_def li lb
  proof (intro conjI ballI impI)
    fix r assume r: "r \<in> live d OBJECT_TYPE_IMAGE - {q}"
    then have ro: "image_ok d r" "vi_imageBuffer (vo_images d r) \<noteq> p"
      using images_okD(1) [OF o(4)] other by simp_all
    obtain obr where obr: "tab_find (vo_table d) (vi_imageBufferId (vo_images d r)) = Some obr"
      "obj_type obr = OBJECT_TYPE_BUFFER" "obj_payload obr = Some (vi_imageBuffer (vo_images d r))"
      using ro(1) unfolding image_ok_def by blast
    have n: "\<not> same_id (vi_imageBufferId (vo_images d r)) bi" "\<not> same_id (vi_imageBufferId (vo_images d r)) i"
      using obr fb(1,3) fi(1,2) ro(2) find_same_id [of "vi_imageBufferId (vo_images d r)" bi "vo_table d"]
        find_same_id [of "vi_imageBufferId (vo_images d r)" i "vo_table d"] by auto
    have "image_ok d' r = image_ok d r"
      by (rule image_ok_cong) (use db(5,7,8) n t ro(2) in auto)
    then show "image_ok d' r" using ro(1) by simp
  next
    fix r s assume "r \<in> live d OBJECT_TYPE_IMAGE - {q}" "s \<in> live d OBJECT_TYPE_IMAGE - {q}"
      "vi_imageBuffer (vo_images d' r) = vi_imageBuffer (vo_images d' s)"
    then show "r = s" using images_okD(2) [OF o(4)] db(5) by (auto simp: t(1))
  next
    fix b assume b: "b \<in> live d OBJECT_TYPE_BUFFER - {p}" "vb_imageOwned (vo_buffers d' b)"
    then have "vb_imageOwned (vo_buffers d b)" using db(7) [of b] by (simp add: t(1))
    then obtain r where "r \<in> live d OBJECT_TYPE_IMAGE" "vi_imageBuffer (vo_images d r) = b"
      using images_okD(3) [OF o(4)] b(1) by blast
    then show "\<exists>r \<in> live d OBJECT_TYPE_IMAGE - {q}. vi_imageBuffer (vo_images d' r) = b"
      using b(1) db(5) by (auto simp: t(1) p_def)
  qed
  then show ?thesis using t(1,2) l(3) mem by (simp add: va_ok_def)
qed

lemma finds_trans: "same_finds d d1 \<Longrightarrow> same_finds d1 d2 \<Longrightarrow> same_finds d d2"
  by (simp add: same_finds_def)

lemma image_layout_size: "image_layout f w h b = Inr (ps, n, pp) \<Longrightarrow> n \<noteq> 0"
  by (auto simp: image_layout_def Let_def split: option.splits if_splits)

text \<open>The objects of a new image: both are there with their memory, or nothing is.\<close>

lemma create_image_objects_ok:
  assumes ok: "va_ok d" and fresh: "fresh_alloc al d" and run: "create_image_objects al fmt w h n d = (r, d')"
  shows "va_ok d'"
proof -
  note o = va_okD [OF ok]
  define p where "p = al_payload al"
  define b where "b = al_payload2 al"
  define L where "L = live d OBJECT_TYPE_BUFFER"
  have pf: "p \<notin> payloads d" "b \<notin> payloads d" "b \<noteq> p" and bL: "b \<notin> L" and fb: "fresh_block al d"
    using fresh live_payloads by (auto simp: fresh_alloc_def p_def b_def L_def)
  obtain r1 d1 where a1: "allocateObject al p OBJECT_TYPE_IMAGE sizeof_NVImage d = (r1, d1)" by force
  show ?thesis
  proof (cases r1)
    case None
    then obtain t where t: "d1 = d\<lparr>vo_table := t\<rparr>" "table_ok t" "\<forall>j. tab_find t j = tab_find (vo_table d) j"
      using allocateObject_none [OF o(1)] a1 by blast
    have "d' = d1" using run a1 None by (simp add: create_image_objects_def p_def)
    then show ?thesis
      by (intro va_ok_same_finds [OF ok]) (use t o(3) in \<open>simp_all add: same_finds_def memory_ok_table\<close>)
  next
    case (Some oi)
    then obtain t where t: "d1 = d\<lparr>vo_table := t\<rparr>" "table_ok t" "obj_type oi = OBJECT_TYPE_IMAGE" "obj_payload oi = Some p"
      "tab_find (vo_table d) (obj_id oi) = None" "obj_id oi \<noteq> VA_INVALID_ID"
      "\<forall>j. tab_find t j = (if same_id j (obj_id oi) then Some oi else tab_find (vo_table d) j)"
      using allocateObject_some [OF o(1), of al p OBJECT_TYPE_IMAGE sizeof_NVImage oi d1] a1 by auto
    have find1: "\<forall>j. tab_find (vo_table d1) j = (if same_id j (obj_id oi) then Some oi else tab_find (vo_table d) j)"
      using t(1,7) by simp
    note l1 = live_new [OF find1 t(5,3,4)]
    obtain r2 d2 where a2: "allocateObject al b OBJECT_TYPE_BUFFER sizeof_NVBuffer d1 = (r2, d2)" by force
    have tok1: "table_ok (vo_table d1)" by (simp add: t)
    show ?thesis
    proof (cases r2)
      case None
      obtain t2 where t2: "d2 = d1\<lparr>vo_table := t2\<rparr>" "table_ok t2" "\<forall>j. tab_find t2 j = tab_find (vo_table d1) j"
        using allocateObject_none [OF tok1] a2 None by blast
      obtain t3 where t3: "deleteObject (obj_id oi) d2 = d2\<lparr>vo_table := t3\<rparr>" "table_ok t3"
        "\<forall>j. tab_find t3 j = (if same_id j (obj_id oi) then None else tab_find (vo_table d2) j)"
        using deleteObject_find [of d2 "obj_id oi"] t2 t(6) by auto
      have d': "d' = d2\<lparr>vo_table := t3\<rparr>"
        using run a1 a2 Some None t3(1) by (simp add: create_image_objects_def p_def [symmetric] b_def [symmetric])
      have "\<forall>j. tab_find (vo_table d2) j = (if same_id j (obj_id oi) then Some oi else tab_find (vo_table d) j)"
        using t2 find1 by simp
      then have "same_finds d d'"
        by (rule new_delete_finds [where i = "obj_id oi" and ob = oi and ?d1.0 = d2 and ?d2.0 = d2])
          (use t t3 d' in simp_all)
      then show ?thesis
        by (intro va_ok_same_finds [OF ok]) (use t3(2) o(3) in \<open>simp_all add: d' t2(1) t(1) memory_ok_table\<close>)
    next
      case (Some ob)
      then obtain t2 where t2: "d2 = d1\<lparr>vo_table := t2\<rparr>" "table_ok t2" "obj_type ob = OBJECT_TYPE_BUFFER" "obj_payload ob = Some b"
        "tab_find (vo_table d1) (obj_id ob) = None" "obj_id ob \<noteq> VA_INVALID_ID"
        "\<forall>j. tab_find t2 j = (if same_id j (obj_id ob) then Some ob else tab_find (vo_table d1) j)"
        using allocateObject_some [OF tok1, of al b OBJECT_TYPE_BUFFER sizeof_NVBuffer ob d2] a2 by auto
      define f :: "VaBuffer \<Rightarrow> VaBuffer" where "f = (\<lambda>b. b\<lparr>vb_bufferType := VAImageBufferType,
        vb_ownerContextId := VA_INVALID_ID, vb_imageOwned := True, vb_size := n, vb_elementSize := n, vb_elements := 1\<rparr>)"
      obtain ok3 d3 where m: "allocateBufferMemory al b n (upd_buffer b f d2) = (ok3, d3)" by force
      have m2: "memory_ok d2 L" using o(3) by (simp add: t(1) t2(1) memory_ok_table L_def)
      have f2: "fresh_block al d2" "vb_size (f (vo_buffers d2 b)) = n" using fb by (simp_all add: fresh_block_def t(1) t2(1) f_def)
      note mem = new_buffer_memory [OF m2 bL f2 m]
      have nb: "q \<in> L \<Longrightarrow> q \<noteq> b" for q using bL by auto
      show ?thesis
      proof (cases ok3)
        case False
        have tok3: "table_ok (vo_table d3)" using mem(3) t2(1,2) by simp
        obtain t4 where t4: "deleteObject (obj_id ob) d3 = d3\<lparr>vo_table := t4\<rparr>" "table_ok t4"
          "\<forall>j. tab_find t4 j = (if same_id j (obj_id ob) then None else tab_find (vo_table d3) j)"
          using deleteObject_find [OF tok3 t2(6)] by auto
        define d4 where "d4 = d3\<lparr>vo_table := t4\<rparr>"
        obtain t5 where t5: "deleteObject (obj_id oi) d4 = d4\<lparr>vo_table := t5\<rparr>" "table_ok t5"
          "\<forall>j. tab_find t5 j = (if same_id j (obj_id oi) then None else tab_find (vo_table d4) j)"
          using deleteObject_find [of d4 "obj_id oi"] t4(2) t(6) by (auto simp: d4_def)
        have d': "d' = d4\<lparr>vo_table := t5\<rparr>"
          using run a1 a2 Some \<open>r1 = Some oi\<close> m False t4(1) t5(1)
          by (simp add: create_image_objects_def p_def [symmetric] b_def [symmetric] f_def d4_def)
        have s4: "same_finds d1 d4"
          by (rule new_delete_finds [where i = "obj_id ob" and ob = ob and ?d1.0 = d2 and ?d2.0 = d3])
            (use t2 t4 mem(3) in \<open>simp_all add: d4_def\<close>)
        then have "\<forall>j. tab_find (vo_table d4) j = (if same_id j (obj_id oi) then Some oi else tab_find (vo_table d) j)"
          using find1 by (simp add: same_finds_def)
        then have "same_finds d d'"
          by (rule new_delete_finds [where i = "obj_id oi" and ob = oi and ?d1.0 = d4 and ?d2.0 = d4])
            (use t t5 d' in simp_all)
        then show ?thesis
          by (intro va_ok_same_finds [OF ok])
            (use mem False t5(2) nb in \<open>auto simp: d' d4_def memory_ok_table L_def t(1) t2(1)\<close>)
      next
        case True
        define img where "img = \<lparr>vi_width = w, vi_height = h, vi_format = fmt, vi_imageBuffer = b, vi_imageBufferId = obj_id ob\<rparr>"
        define d4 where "d4 = set_memory (vb_ptr (vo_buffers d3 b)) (replicate (unat n) 0) d3"
        have d': "d' = d4\<lparr>vo_images := (vo_images d4)(p := img)\<rparr>"
          using run a1 a2 Some \<open>r1 = Some oi\<close> m True
          by (simp add: create_image_objects_def p_def [symmetric] b_def [symmetric] f_def d4_def img_def)
        have m4: "memory_ok d4 (insert b L)" unfolding d4_def by (rule mem(2) [OF True]) simp
        have find2: "\<forall>j. tab_find (vo_table d') j = (if same_id j (obj_id ob) then Some ob else tab_find (vo_table d1) j)"
          using t2(1,7) mem(3) by (simp add: d' d4_def)
        note l2 = live_new [OF find2 t2(5,3,4)]
        have lb: "live d' OBJECT_TYPE_BUFFER = insert b L" and li: "live d' OBJECT_TYPE_IMAGE = insert p (live d OBJECT_TYPE_IMAGE)"
          using l1(1) l2(1) by (simp_all add: L_def)
        have own: "own_payloads d'" using l2(3) l1(2,3) o(2) pf by auto
        have mem': "memory_ok d' (insert b L)"
          by (rule memory_ok_cong [THEN iffD2, OF _ _ _ _ _ _ m4]) (simp_all add: d')
        have bufs: "vo_buffers d' q = vo_buffers d q" if "q \<noteq> b" for q
          using mem(6) [OF that] by (simp add: d' d4_def t(1) t2(1))
        have ownb: "vb_imageOwned (vo_buffers d' b)" using mem(7) by (simp add: d' d4_def same_buffer_def f_def)
        have imgs: "vo_images d' q = (if q = p then img else vo_images d q)" for q
          using mem(4) by (simp add: d' d4_def t(1) t2(1))
        have pI: "q \<noteq> p" if "q \<in> live d OBJECT_TYPE_IMAGE" for q using pf(1) live_payloads [OF that] by auto
        have old: "image_ok d q" "vi_imageBuffer (vo_images d q) \<in> L" "vi_imageBuffer (vo_images d q) \<noteq> b"
          if "q \<in> live d OBJECT_TYPE_IMAGE" for q
          using images_okD(1) [OF o(4) that] image_buffer_live nb by (auto simp: L_def)
        have "images_ok d'"
          unfolding images_ok_def lb li
        proof (intro conjI ballI impI)
          fix q assume q: "q \<in> insert p (live d OBJECT_TYPE_IMAGE)"
          show "image_ok d' q"
          proof (cases "q = p")
            case True
            have "tab_find (vo_table d') (obj_id ob) = Some ob" using find2 by simp
            then show ?thesis using True t2(3,4,6) ownb by (simp add: image_ok_def imgs img_def)
          next
            case False
            then have q': "q \<in> live d OBJECT_TYPE_IMAGE" using q by simp
            have k1: "tab_find (vo_table d1) (vi_imageBufferId (vo_images d q)) = tab_find (vo_table d) (vi_imageBufferId (vo_images d q))"
              by (rule image_buffer_kept [OF old(1) [OF q'] t(5) find1])
            have i1: "image_ok d1 q = image_ok d q" by (rule image_ok_cong) (use k1 in \<open>simp_all add: t(1)\<close>)
            have k2: "tab_find (vo_table d') (vi_imageBufferId (vo_images d1 q)) = tab_find (vo_table d1) (vi_imageBufferId (vo_images d1 q))"
              by (rule image_buffer_kept [OF _ t2(5) find2]) (use i1 old(1) [OF q'] in simp)
            have "image_ok d' q = image_ok d q"
              by (rule image_ok_cong) (use k1 k2 False bufs old(3) [OF q'] in \<open>simp_all add: imgs t(1)\<close>)
            then show ?thesis using old(1) [OF q'] by simp
          qed
        next
          fix q s assume "q \<in> insert p (live d OBJECT_TYPE_IMAGE)" "s \<in> insert p (live d OBJECT_TYPE_IMAGE)"
            "vi_imageBuffer (vo_images d' q) = vi_imageBuffer (vo_images d' s)"
          then show "q = s" using images_okD(2) [OF o(4)] old(3) pI by (auto simp: imgs img_def split: if_splits)
        next
          fix c assume c: "c \<in> insert b L" "vb_imageOwned (vo_buffers d' c)"
          show "\<exists>q \<in> insert p (live d OBJECT_TYPE_IMAGE). vi_imageBuffer (vo_images d' q) = c"
          proof (cases "c = b")
            case True
            then show ?thesis by (simp add: imgs img_def)
          next
            case False
            then have "c \<in> live d OBJECT_TYPE_BUFFER" "vb_imageOwned (vo_buffers d c)"
              using c bufs by (simp_all add: L_def)
            then obtain q where "q \<in> live d OBJECT_TYPE_IMAGE" "vi_imageBuffer (vo_images d q) = c"
              using images_okD(3) [OF o(4)] by blast
            then show ?thesis using pI by (auto simp: imgs)
          qed
        qed
        then show ?thesis using own mem' lb mem(3) t2(1,2) by (simp add: va_ok_def d' d4_def)
      qed
    qed
  qed
qed

end
