(* ===== verification/VaReach.thy ===== *)
theory VaReach
  imports VaSession
begin

text \<open>
  Reachable states of the buffer and image calls, and what holds in all of them: \<open>va_step\<close> is one
  call, with every fresh answer of the allocators, a write through a mapped pointer, the creation or
  deletion of an object of another type, or the release of the pool; \<open>va_reach\<close> starts from a new driver.
\<close>

lemma create_image_ok:
  assumes "va_ok d" "fresh_alloc al d" "nvCreateImage al f w h b d = (r, d')"
  shows "va_ok d'"
proof (cases "image_layout f w h b")
  case (Inl a)
  then show ?thesis using assms by (simp add: nvCreateImage_def)
next
  case (Inr x)
  obtain ps n pp where x: "x = (ps, n, pp)" using prod_cases3 by blast
  obtain r1 d1 where c: "create_image_objects al (nvFormatFromVaFormat (the f)) (of_int w) (of_int h) n d = (r1, d1)" by force
  have "d' = d1" using assms(3) Inr x c by (auto simp: nvCreateImage_def Let_def split: sum.splits)
  then show ?thesis using create_image_objects_ok [OF assms(1,2) c] by simp
qed

abbreviation other_type :: "u8 \<Rightarrow> bool" where
  "other_type ty \<equiv> ty \<noteq> OBJECT_TYPE_BUFFER \<and> ty \<noteq> OBJECT_TYPE_IMAGE"

lemma va_ok_other:
  assumes ok: "va_ok d" and d': "d' = d\<lparr>vo_table := t\<rparr>" "table_ok t" "own_payloads d'"
    and live: "live d' OBJECT_TYPE_BUFFER = live d OBJECT_TYPE_BUFFER" "live d' OBJECT_TYPE_IMAGE = live d OBJECT_TYPE_IMAGE"
    and find: "\<And>j ob. tab_find (vo_table d) j = Some ob \<Longrightarrow> obj_type ob = OBJECT_TYPE_BUFFER \<Longrightarrow> tab_find t j = Some ob"
  shows "va_ok d'"
proof -
  note o = va_okD [OF ok]
  have "images_ok d'"
  proof (rule images_ok_transfer [OF o(4) live(2)])
    show "tab_find (vo_table d') (vi_imageBufferId (vo_images d q)) = tab_find (vo_table d) (vi_imageBufferId (vo_images d q))"
      if "q \<in> live d OBJECT_TYPE_IMAGE" for q
      using images_okD(1) [OF o(4) that] find unfolding image_ok_def by (auto simp: d'(1))
  qed (use live in \<open>auto simp: d'(1)\<close>)
  moreover have "memory_ok d' (live d' OBJECT_TYPE_BUFFER)"
    unfolding live(1) using o(3) by (simp add: d'(1) memory_ok_table)
  ultimately show ?thesis using d' by (simp add: va_ok_def)
qed

lemma create_other_ok:
  assumes ok: "va_ok d" and ty: "other_type ty" and n: "n \<noteq> 0" and p: "p \<notin> payloads d"
    and run: "allocateObject al p ty n d = (r, d')"
  shows "va_ok d'"
proof -
  note o = va_okD [OF ok]
  show ?thesis
  proof (cases r)
    case None
    then obtain t where t: "d' = d\<lparr>vo_table := t\<rparr>" "table_ok t" "\<forall>j. tab_find t j = tab_find (vo_table d) j"
      using allocateObject_none [OF o(1)] run by blast
    then show ?thesis
      by (intro va_ok_same_finds [OF ok]) (use o(3) in \<open>simp_all add: same_finds_def memory_ok_table\<close>)
  next
    case (Some ob)
    obtain t where t: "d' = d\<lparr>vo_table := t\<rparr>" "table_ok t" "obj_type ob = ty" "obj_payload ob = Some p"
      "tab_find (vo_table d) (obj_id ob) = None"
      "\<forall>j. tab_find t j = (if same_id j (obj_id ob) then Some ob else tab_find (vo_table d) j)"
      using allocateObject_some [OF o(1) run [unfolded Some] n] by blast
    have find: "\<forall>j. tab_find (vo_table d') j = (if same_id j (obj_id ob) then Some ob else tab_find (vo_table d) j)"
      using t(1,6) by simp
    note l = live_new [OF find t(5,3,4)]
    show ?thesis
    proof (rule va_ok_other [OF ok t(1,2) l(3) [OF o(2) p]])
      show "tab_find t j = Some o'" if "tab_find (vo_table d) j = Some o'" for j o'
        using that t(5,6) find_same_id [of j "obj_id ob" "vo_table d"] by auto
    qed (use l(1) ty in auto)
  qed
qed

lemma delete_other_ok:
  assumes ok: "va_ok d" and f: "tab_find (vo_table d) i = Some ob" "other_type (obj_type ob)" "obj_payload ob = Some p"
    and i: "i \<noteq> VA_INVALID_ID"
  shows "va_ok (deleteObject i d)"
proof -
  note o = va_okD [OF ok]
  obtain t where t: "deleteObject i d = d\<lparr>vo_table := t\<rparr>" "table_ok t"
    "\<forall>j. tab_find t j = (if same_id j i then None else tab_find (vo_table d) j)"
    using deleteObject_find [OF o(1) i] by blast
  have find: "\<forall>j. tab_find (vo_table (deleteObject i d)) j = (if same_id j i then None else tab_find (vo_table d) j)"
    using t by simp
  note l = live_delete [OF find f(1,3) o(2)]
  have p: "p \<in> live d (obj_type ob)" using f unfolding live_def found_def by blast
  then have np: "p \<notin> live d OBJECT_TYPE_BUFFER" "p \<notin> live d OBJECT_TYPE_IMAGE"
    using live_unique [OF o(2) p] f(2) by blast+
  show ?thesis
  proof (rule va_ok_other [OF ok t(1,2) l(3)])
    show "tab_find t j = Some o'" if "tab_find (vo_table d) j = Some o'" "obj_type o' = OBJECT_TYPE_BUFFER" for j o'
      using that t(3) f(1,2) find_same_id [of j i "vo_table d"] by auto
  qed (use l(1) np in auto)
qed

section \<open>Steps\<close>

definition va_new :: "u64 \<Rightarrow> VaObjects \<Rightarrow> bool" where
  "va_new limit d \<longleftrightarrow>
     vo_table d = nvdObjectTableInit \<and> \<not> vo_terminating d \<and> vo_heap d = (\<lambda>a. None) \<and>
     vo_pool d = replicate 11 [] \<and> vo_poolCounts d = replicate 11 0 \<and> vo_poolBytes d = 0 \<and> vo_poolMaxBytes d = limit"

inductive va_step :: "VaObjects \<Rightarrow> VaObjects \<Rightarrow> bool" where
  create_buffer: "fresh_alloc al d \<Longrightarrow> nvCreateBuffer al tm h c ty n num data d = (st, i, d') \<Longrightarrow> va_step d d'"
| destroy_buffer: "nvDestroyBuffer i d = (st, d') \<Longrightarrow> va_step d d'"
| create_image: "fresh_alloc al d \<Longrightarrow> nvCreateImage al fcc w ht hi d = (r, d') \<Longrightarrow> va_step d d'"
| destroy_image: "nvDestroyImage i d = (st, d') \<Longrightarrow> va_step d d'"
| write_buffer: "nvMapBuffer True i d = Inr (Some a) \<Longrightarrow> vo_heap d a = Some m \<Longrightarrow> length m' = length m \<Longrightarrow>
    va_step d (d\<lparr>vo_heap := (vo_heap d)(a \<mapsto> m')\<rparr>)"
| create_other: "other_type ty \<Longrightarrow> n \<noteq> 0 \<Longrightarrow> p \<notin> payloads d \<Longrightarrow> allocateObject al p ty n d = (ob, d') \<Longrightarrow> va_step d d'"
| delete_other: "getObject ty i d = Some ob \<Longrightarrow> other_type ty \<Longrightarrow> obj_payload ob \<noteq> None \<Longrightarrow> va_step d (deleteObject i d)"

inductive va_reach :: "u64 \<Rightarrow> VaObjects \<Rightarrow> bool" for limit where
  start: "va_new limit d \<Longrightarrow> va_reach limit d"
| step: "va_reach limit d \<Longrightarrow> va_step d d' \<Longrightarrow> va_reach limit d'"

lemma tab_find_init: "tab_find nvdObjectTableInit i = None"
  by (simp add: tab_find_def nvdObjectTableInit_def split: prod.splits)

lemma va_new_ok:
  assumes "va_new limit d"
  shows "va_ok d"
proof -
  have l: "live d ty = {}" for ty using assms by (simp add: va_new_def live_def found_def tab_find_init)
  have "table_ok (vo_table d)" using assms tab_inv_init by (auto simp: va_new_def table_ok_def)
  moreover have "own_payloads d" using assms by (simp add: va_new_def own_payloads_def tab_find_init)
  moreover have "pool_ok d"
    using assms by (simp add: va_new_def pool_ok_def pooled_bytes_def)
  moreover have "pool_blocks d = {}" using assms by (simp add: va_new_def pool_blocks_def)
  ultimately show ?thesis using assms by (simp add: va_ok_def l memory_ok_def images_ok_def va_new_def)
qed

lemma write_ok:
  assumes ok: "va_ok d" and m: "vo_heap d a = Some m" "length m' = length m"
  shows "va_ok (d\<lparr>vo_heap := (vo_heap d)(a \<mapsto> m')\<rparr>)"
proof -
  let ?d = "d\<lparr>vo_heap := (vo_heap d)(a \<mapsto> m')\<rparr>"
  note o = va_okD [OF ok]
  have h: "map_option length (vo_heap ?d b) = map_option length (vo_heap d b)" for b using m by simp
  have n: "vo_heap ?d b \<noteq> None \<longleftrightarrow> vo_heap d b \<noteq> None" for b using m by simp
  have "pool_ok ?d = pool_ok d" by (rule pool_ok_cong) (simp_all add: m)
  moreover have "buffer_ok ?d p = buffer_ok d p" for p unfolding buffer_ok_def h by simp
  moreover have "pool_blocks ?d = pool_blocks d" by (simp add: pool_blocks_def)
  ultimately have "memory_ok ?d L = memory_ok d L" for L unfolding memory_ok_def n by simp
  then show ?thesis
    by (intro va_ok_same_finds [OF ok]) (use o in \<open>simp_all add: same_finds_def\<close>)
qed

lemma va_step_ok: "va_step d d' \<Longrightarrow> va_ok d \<Longrightarrow> va_ok d'"
proof (induction rule: va_step.induct)
  case (delete_other ty i d ob)
  have "tab_find (vo_table d) i = Some ob" "obj_type ob = ty" "i \<noteq> VA_INVALID_ID"
    using delete_other(1) by (auto simp: getObject_def get_find split: if_splits option.splits)
  then show ?case using delete_other_ok [of d i ob] delete_other by blast
qed (blast intro: create_buffer_ok destroy_buffer_ok create_image_ok destroy_image_ok write_ok create_other_ok)+

lemma va_reach_ok: "va_reach limit d \<Longrightarrow> va_ok d"
  by (induction rule: va_reach.induct) (blast intro: va_new_ok va_step_ok)+

section \<open>Teardown\<close>

lemma last_live_None:
  "last_live t n = None \<Longrightarrow> n \<le> unat (tab_capacity t) \<Longrightarrow> k < n \<Longrightarrow> slot_object (tab_slots t ! k) = None"
proof (induction n)
  case (Suc i)
  have i: "unat (of_nat i :: u32) = i"
    using Suc.prems(2) unat_u32_less [of "tab_capacity t"] by (simp add: unat_of_nat take_bit_nat_eq_self)
  then have "nvdObjectTableAt t (of_nat i) = slot_object (tab_slots t ! i)"
    using Suc.prems(2) by (simp add: nvdObjectTableAt_def word_less_nat_alt)
  then show ?case using Suc by (cases "k = i") (auto split: option.splits)
qed simp

lemma last_live_Some:
  "last_live t n = Some ob \<Longrightarrow> n \<le> unat (tab_capacity t) \<Longrightarrow> \<exists>k<n. slot_object (tab_slots t ! k) = Some ob"
proof (induction n)
  case (Suc i)
  have i: "unat (of_nat i :: u32) = i"
    using Suc.prems(2) unat_u32_less [of "tab_capacity t"] by (simp add: unat_of_nat take_bit_nat_eq_self)
  then have a: "nvdObjectTableAt t (of_nat i) = slot_object (tab_slots t ! i)"
    using Suc.prems(2) by (simp add: nvdObjectTableAt_def word_less_nat_alt)
  show ?case
  proof (cases "slot_object (tab_slots t ! i)")
    case None
    then show ?thesis using Suc a by (auto intro: less_SucI)
  next
    case (Some o')
    then show ?thesis using Suc.prems a by (intro exI [of _ i]) simp
  qed
qed simp

text \<open>A slot with an object is found under the ID of the object.\<close>

lemma slot_object_find:
  assumes inv: "tab_inv t fl" and k: "k < unat (tab_capacity t)" "slot_object (tab_slots t ! k) = Some ob"
  shows "tab_find t (obj_id ob) = Some ob"
proof -
  note len = tab_invD(3) [OF inv]
  have k': "k < length (tab_slots t)" using k(1) len by simp
  have "slot_ok k (slot_view (tab_slots t ! k))"
    using views_okD(3) [OF tab_invD(2) [OF inv]] k' by (metis length_map nth_map)
  then have ok: "obj_id ob = makeId (slot_generation (tab_slots t ! k)) (of_nat k)" "slot_generation (tab_slots t ! k) \<noteq> 0"
    using k(2) by (simp_all add: slot_ok_def slot_view_def)
  have "length (tab_slots t) \<le> 32768" using views_okD(2) [OF tab_invD(2) [OF inv]] by simp
  then have u: "unat (of_nat k :: u32) = k" using k' by (simp add: unat_of_nat take_bit_nat_eq_self)
  have "decodeId (obj_id ob) = (slot_generation (tab_slots t ! k), of_nat k, True)"
    unfolding ok(1) by (subst decode_makeId) (use u k' ok(2) \<open>length (tab_slots t) \<le> 32768\<close> in simp_all)
  then show ?thesis using k u ok(2) by (simp add: tab_find_def word_less_nat_alt)
qed

lemma live_count_zero:
  assumes inv: "tab_inv t fl" and e: "tab_liveCount t = 0"
  shows "tab_find t j = None"
proof -
  note v = views_okD [OF tab_invD(2) [OF inv]]
  have "filter (\<lambda>v. fst v \<noteq> None) (map slot_view (tab_slots t)) = []" using v(4) e by (metis length_0_conv unat_0)
  then have s: "\<forall>x \<in> set (tab_slots t). slot_object x = None" by (simp add: filter_empty_conv slot_view_def)
  show ?thesis
    using s tab_find_view [OF tab_invD(3) [OF inv], of j] by (auto simp: Let_def slot_view_def split: if_splits)
qed

lemma live_count_pos:
  assumes inv: "tab_inv t fl" and e: "tab_liveCount t \<noteq> 0"
  shows "\<exists>ob. last_live t (unat (tab_capacity t)) = Some ob \<and> tab_find t (obj_id ob) = Some ob"
proof -
  note v = views_okD [OF tab_invD(2) [OF inv]]
  have "last_live t (unat (tab_capacity t)) \<noteq> None"
  proof
    assume "last_live t (unat (tab_capacity t)) = None"
    from last_live_None [OF this order_refl]
    have "filter (\<lambda>v. fst v \<noteq> None) (map slot_view (tab_slots t)) = []"
      using tab_invD(3) [OF inv] by (auto simp: filter_empty_conv slot_view_def in_set_conv_nth)
    then show False using v(4) e by (simp add: unat_eq_zero)
  qed
  then obtain ob where ob: "last_live t (unat (tab_capacity t)) = Some ob" by blast
  from last_live_Some [OF this order_refl] show ?thesis using ob slot_object_find [OF inv] by blast
qed

lemma remove_count:
  assumes inv: "tab_inv t fl" and f: "tab_find t i = Some ob" and run: "nvdObjectTableRemove t i = (r, t')"
  shows "Suc (unat (tab_liveCount t')) = unat (tab_liveCount t)"
proof -
  let ?k = "unat (i AND 0x7FFF)"
  obtain t2 where t2: "nvdObjectTableRemove t i = (Some ob, t2)" "tab_inv t2 (fl @ [?k])"
    "map slot_view (tab_slots t2) = (map slot_view (tab_slots t))[?k := (None, next_generation (fst (decodeId i)))]"
    using remove_run [OF inv f] by blast
  have k: "?k < length (map slot_view (tab_slots t))" "fst (map slot_view (tab_slots t) ! ?k) \<noteq> None"
    using f tab_find_view [OF tab_invD(3) [OF inv], of i] by (auto simp: Let_def split: if_splits)
  have "unat (tab_liveCount t2) = length (filter (\<lambda>v. fst v \<noteq> None) (map slot_view (tab_slots t2)))"
    "unat (tab_liveCount t) = length (filter (\<lambda>v. fst v \<noteq> None) (map slot_view (tab_slots t)))"
    using views_okD(4) [OF tab_invD(2) [OF t2(2)]] views_okD(4) [OF tab_invD(2) [OF inv]] by simp_all
  then show ?thesis
    using length_filter_update [OF k(1), of "\<lambda>v. fst v \<noteq> None" "(None, next_generation (fst (decodeId i)))"] k(2) t2(1,3) run
    by simp
qed

lemma delete_all:
  assumes "table_ok (vo_table d)" "own_payloads d" "memory_ok d (live d OBJECT_TYPE_BUFFER)"
  shows "\<exists>d'. deleteAllObjects d = Some d' \<and> memory_ok d' {} \<and> tab_liveCount (vo_table d') = 0 \<and>
    (\<forall>j. tab_find (vo_table d') j = None)"
  using assms
proof (induction "unat (tab_liveCount (vo_table d))" arbitrary: d rule: less_induct)
  case less
  obtain fl where inv: "tab_inv (vo_table d) fl" using less.prems(1) by (auto simp: table_ok_def)
  show ?case
  proof (cases "tab_liveCount (vo_table d) = 0")
    case True
    have "live d OBJECT_TYPE_BUFFER = {}" using live_count_zero [OF inv True] by (simp add: live_def found_def)
    then show ?thesis using True less.prems(3) live_count_zero [OF inv True] by (simp add: deleteAllObjects.simps)
  next
    case False
    obtain ob where ob: "last_live (vo_table d) (unat (tab_capacity (vo_table d))) = Some ob"
      "tab_find (vo_table d) (obj_id ob) = Some ob" using live_count_pos [OF inv False] by blast
    obtain t where rem: "nvdObjectTableRemove (vo_table d) (obj_id ob) = (Some ob, t)"
      using remove_run [OF inv ob(2)] by blast
    define d1 where "d1 = d\<lparr>vo_table := t\<rparr>"
    define d2 where "d2 = (if obj_type ob = OBJECT_TYPE_BUFFER then releaseBufferMemory (obj_payload ob) d1 else d1)"
    have t2: "vo_table d2 = t"
      using release_memory_frame(1) [of d1 "obj_payload ob"] by (simp add: d2_def d1_def same_objects_def)
    have find: "\<forall>j. tab_find (vo_table d2) j = (if same_id j (obj_id ob) then None else tab_find (vo_table d) j)"
      using remove_find(3) [OF inv rem] t2 by simp
    have "memory_ok d2 (live d2 OBJECT_TYPE_BUFFER) \<and> own_payloads d2"
    proof (cases "obj_payload ob")
      case None
      have f: "tab_find (vo_table d2) j = Some o' \<longleftrightarrow> tab_find (vo_table d) j = Some o'" if "obj_payload o' \<noteq> None" for j o'
        using find ob(2) None that find_same_id [of j "obj_id ob" "vo_table d"] by auto
      have "live d2 ty = live d ty" for ty unfolding live_def found_def using f by (auto; blast)
      moreover have "own_payloads d2" using less.prems(2) f unfolding own_payloads_def by (metis option.distinct(1))
      moreover have "d2 = d1" using None by (simp add: d2_def releaseBufferMemory_def)
      ultimately show ?thesis using less.prems(3) by (simp add: d1_def memory_ok_table)
    next
      case (Some p)
      note l = live_delete [OF find ob(2) Some less.prems(2)]
      have m1: "memory_ok d1 (live d OBJECT_TYPE_BUFFER)" using less.prems(3) by (simp add: d1_def memory_ok_table)
      have pl: "p \<in> live d (obj_type ob)" using ob(2) Some unfolding live_def found_def by blast
      have "memory_ok d2 (live d OBJECT_TYPE_BUFFER - {p})"
      proof (cases "obj_type ob = OBJECT_TYPE_BUFFER")
        case True
        then show ?thesis using release_memory [OF m1] pl Some by (simp add: d2_def)
      next
        case False
        then have "p \<notin> live d OBJECT_TYPE_BUFFER" using live_unique [OF less.prems(2) pl] by blast
        then show ?thesis using m1 False by (simp add: d2_def)
      qed
      then show ?thesis using l(1,3) by simp
    qed
    moreover have "table_ok (vo_table d2)" using remove_find(2) [OF inv rem] t2 by (simp add: table_ok_def)
    moreover have "unat (tab_liveCount (vo_table d2)) < unat (tab_liveCount (vo_table d))"
      using remove_count [OF inv ob(2) rem] t2 by simp
    ultimately obtain d' where "deleteAllObjects d2 = Some d'" "memory_ok d' {}" "tab_liveCount (vo_table d') = 0"
      "\<forall>j. tab_find (vo_table d') j = None" using less.hyps by blast
    moreover have "deleteAllObjects d = deleteAllObjects d2"
      by (subst deleteAllObjects.simps) (simp add: False ob(1) rem d2_def d1_def)
    ultimately show ?thesis by auto
  qed
qed

end
