(* ===== verification/VaProps.thy ===== *)
theory VaProps
  imports VaReach
begin

text \<open>
  The properties of the buffer and image calls, and the driver state they are tried on: a new driver
  in which a context and a buffer of four bytes have been created.
\<close>

section \<open>A driver with one context and one buffer\<close>

definition demo_start :: VaObjects where
  "demo_start = \<lparr>vo_table = nvdObjectTableInit, vo_terminating = False,
     vo_buffers = (\<lambda>p. \<lparr>vb_elements = 0, vb_elementSize = 0, vb_size = 0, vb_bufferType = 0, vb_ownerContextId = 0,
       vb_imageOwned = False, vb_ptr = None, vb_capacity = 0, vb_poolClass = 0\<rparr>),
     vo_images = (\<lambda>p. \<lparr>vi_width = 0, vi_height = 0, vi_format = NV_FORMAT_NONE, vi_imageBuffer = 0, vi_imageBufferId = 0\<rparr>),
     vo_heap = (\<lambda>a. None), vo_pool = replicate 11 [], vo_poolCounts = replicate 11 0, vo_poolBytes = 0,
     vo_poolMaxBytes = 67108864\<rparr>"

definition demo_alloc :: "nat \<Rightarrow> va_alloc" where
  "demo_alloc p = \<lparr>al_realloc = (\<lambda>n. True), al_calloc = (\<lambda>n. True), al_payload = p, al_payload2 = Suc p,
     al_memalign = (\<lambda>n. Some (of_nat (4096 * p), replicate (unat n) 0xAA))\<rparr>"

definition demo_slots :: "nat NVDObjectSlot list" where
  "demo_slots = map (fresh_slot 4096) [0..<4096]"

definition demo_object :: "nat \<Rightarrow> u8 \<Rightarrow> nat NVDObject" where
  "demo_object k ty = \<lparr>obj_id = makeId 1 (of_nat k), obj_type = ty, obj_payload = Some (Suc k)\<rparr>"

definition demo_slot :: "nat \<Rightarrow> u8 \<Rightarrow> nat NVDObjectSlot" where
  "demo_slot k ty = \<lparr>slot_object = Some (demo_object k ty), slot_nextFree = NVD_OBJECT_SLOT_NONE, slot_generation = 1\<rparr>"

lemma demo_slots_simps:
  "length demo_slots = 4096" "k < 4096 \<Longrightarrow> demo_slots ! k = fresh_slot 4096 k"
  by (simp_all add: demo_slots_def del: upt_rec_numeral)

definition demo_table :: "u8 list \<Rightarrow> nat NVDObjectTable" where
  "demo_table types = \<lparr>tab_slots = map (\<lambda>(k, ty). demo_slot k ty) (enumerate 0 types) @ drop (length types) demo_slots,
     tab_capacity = 4096, tab_freeHead = of_nat (length types), tab_freeTail = 4095, tab_liveCount = of_nat (length types)\<rparr>"

lemma fresh_slot_generation: "slot_generation (fresh_slot c k) = 1"
  by (simp add: fresh_slot_def)

lemma demo_growTable:
  "growTable (\<lambda>n. True) nvdObjectTableInit = (True, demo_table [])"
  by (simp add: growTable_def nvdObjectTableInit_def grown_capacity_def Let_def demo_table_def demo_slots_def
      enumerate_simps del: upt_rec_numeral)

lemma demo_allocate_head:
  assumes n: "length types < 4000" and sz: "sz \<noteq> 0"
  shows "allocate_head (\<lambda>n. True) (Suc (length types)) (demo_table types) ty sz =
    (Some (demo_object (length types) ty), demo_table (types @ [ty]))"
proof -
  let ?n = "length types" and ?xs = "map (\<lambda>(k, ty). demo_slot k ty) (enumerate 0 types)"
  have u: "unat (of_nat ?n :: u32) = ?n" using n by (simp add: unat_of_nat take_bit_nat_eq_self)
  have u1: "unat (1 + of_nat ?n :: u32) = Suc ?n" using n u by (subst unat_add_no_overflow) simp_all
  have l: "length ?xs = ?n" by simp
  have d: "drop ?n demo_slots = fresh_slot 4096 ?n # drop (Suc ?n) demo_slots"
    using n by (simp add: Cons_nth_drop_Suc [symmetric] demo_slots_simps)
  have nth: "(?xs @ drop ?n demo_slots) ! ?n = fresh_slot 4096 ?n"
    unfolding d using l by (metis nth_append_length)
  have upd: "(?xs @ drop ?n demo_slots)[?n := x] = ?xs @ x # drop (Suc ?n) demo_slots" for x
    unfolding d using l by (metis list_update_length)
  have nx: "slot_nextFree (fresh_slot 4096 ?n) = 1 + of_nat ?n" "(1 :: u32) + of_nat ?n \<noteq> NVD_OBJECT_SLOT_NONE"
    using n u1 by (auto simp: fresh_slot_def word_unat_eq_iff)
  have pop: "free_list_pop (demo_table types) = (demo_table types)\<lparr>tab_freeHead := 1 + of_nat ?n\<rparr>"
    using nx(2) by (simp add: free_list_pop_def demo_table_def u nth nx(1) Let_def)
  have slot: "(fresh_slot 4096 ?n)\<lparr>slot_object := Some (demo_object ?n ty), slot_nextFree := NVD_OBJECT_SLOT_NONE\<rparr> =
      demo_slot ?n ty"
    by (simp add: fresh_slot_def demo_slot_def)
  show ?thesis
    unfolding allocate_head_def Let_def pop
    using sz slot
    by (simp add: fresh_slot_generation demo_table_def u nth upd demo_object_def enumerate_append_eq add.commute)
qed

lemma demo_allocate:
  assumes "length types < 4000" "ty < 7" "sz \<noteq> 0" "sz < 1000"
  shows "nvdObjectTableAllocate (\<lambda>n. True) (\<lambda>n. True) (Suc (length types))
      (if types = [] then nvdObjectTableInit else demo_table types) ty sz =
    (Some (demo_object (length types) ty), demo_table (types @ [ty]))"
proof -
  have h: "unat (of_nat (length types) :: u32) = length types"
    using assms(1) by (simp add: unat_of_nat take_bit_nat_eq_self)
  have sz: "\<not> sz > SIZE_MAX - 16" "\<not> ty \<ge> 7" using assms(2,4) by (simp_all add: word_less_nat_alt not_le)
  have "nvdObjectTableAllocate (\<lambda>n. True) (\<lambda>n. True) (Suc (length types))
      (if types = [] then nvdObjectTableInit else demo_table types) ty sz =
    allocate_head (\<lambda>n. True) (Suc (length types)) (demo_table types) ty sz"
  proof (cases "types = []")
    case True
    have "tab_freeHead (nvdObjectTableInit :: nat NVDObjectTable) = NVD_OBJECT_SLOT_NONE" by (simp add: nvdObjectTableInit_def)
    then show ?thesis unfolding nvdObjectTableAllocate_def using sz True demo_growTable by simp
  next
    case False
    have "tab_freeHead (demo_table types) \<noteq> NVD_OBJECT_SLOT_NONE"
      using h assms(1) by (auto simp: demo_table_def word_unat_eq_iff)
    then show ?thesis unfolding nvdObjectTableAllocate_def using sz False by simp
  qed
  also have "\<dots> = (Some (demo_object (length types) ty), demo_table (types @ [ty]))"
    by (rule demo_allocate_head [OF assms(1,3)])
  finally show ?thesis .
qed


definition demo_context :: VaObjects where
  "demo_context = demo_start\<lparr>vo_table := demo_table [OBJECT_TYPE_CONTEXT]\<rparr>"

definition demo_buffer :: VaObjects where
  "demo_buffer = demo_start\<lparr>vo_table := demo_table [OBJECT_TYPE_CONTEXT, OBJECT_TYPE_BUFFER],
     vo_buffers := (vo_buffers demo_start)(2 := \<lparr>vb_elements = 1, vb_elementSize = 4, vb_size = 4, vb_bufferType = 0,
       vb_ownerContextId = makeId 1 0, vb_imageOwned = False, vb_ptr = Some 8192, vb_capacity = 4096, vb_poolClass = 0\<rparr>),
     vo_heap := [8192 \<mapsto> [1, 2, 3, 4] @ replicate 4092 0xAA]\<rparr>"

lemma demo_context_run:
  "allocateObject (demo_alloc 1) 1 OBJECT_TYPE_CONTEXT 100 demo_start = (Some (demo_object 0 OBJECT_TYPE_CONTEXT), demo_context)"
  using demo_allocate [of "[]" OBJECT_TYPE_CONTEXT 100]
  by (simp add: allocateObject_def demo_start_def demo_context_def demo_alloc_def)

lemma demo_find:
  assumes "k < length types" "length types < 4000"
  shows "tab_find (demo_table types) (makeId 1 (of_nat k)) = Some (demo_object k (types ! k))"
proof -
  have u: "unat (of_nat k :: u32) = k" using assms by (simp add: unat_of_nat take_bit_nat_eq_self)
  have "decodeId (makeId 1 (of_nat k)) = (1, of_nat k, True)"
    by (subst decode_makeId) (use u assms in simp_all)
  moreover have "tab_slots (demo_table types) ! k = demo_slot k (types ! k)"
    using assms(1) by (simp add: demo_table_def nth_append nth_enumerate_eq)
  ultimately show ?thesis
    using u assms by (simp add: tab_find_def demo_table_def demo_slot_def word_less_nat_alt)
qed

lemma demo_context_found: "getObjectPtr OBJECT_TYPE_CONTEXT (makeId 1 0) demo_context = Some 1"
proof -
  have "makeId 1 0 \<noteq> VA_INVALID_ID" by (rule makeId_canonical) simp
  moreover have "tab_find (vo_table demo_context) (makeId 1 0) = Some (demo_object 0 OBJECT_TYPE_CONTEXT)"
    using demo_find [of 0 "[OBJECT_TYPE_CONTEXT]"] by (simp add: demo_context_def)
  ultimately have "getObjectPtr OBJECT_TYPE_CONTEXT (makeId 1 0) demo_context = obj_payload (demo_object 0 OBJECT_TYPE_CONTEXT)"
    by (intro getObjectPtr_find) (simp_all add: demo_object_def demo_context_def demo_start_def)
  then show ?thesis by (simp add: demo_object_def)
qed

lemma demo_buffer_run:
  "nvCreateBuffer (demo_alloc 2) 64 True (makeId 1 0) 0 4 1 (Some [1, 2, 3, 4]) demo_context =
     (VA_STATUS_SUCCESS, makeId 1 1, demo_buffer)"
proof -
  have t: "nvdObjectTableAllocate (\<lambda>n. True) (\<lambda>n. True) 2 (demo_table [OBJECT_TYPE_CONTEXT]) OBJECT_TYPE_BUFFER sizeof_NVBuffer =
      (Some (demo_object 1 OBJECT_TYPE_BUFFER), demo_table [OBJECT_TYPE_CONTEXT, OBJECT_TYPE_BUFFER])"
    using demo_allocate [of "[OBJECT_TYPE_CONTEXT]" OBJECT_TYPE_BUFFER sizeof_NVBuffer] by (simp add: numeral_2_eq_2 [symmetric])
  have a: "allocateObject (demo_alloc 2) 2 OBJECT_TYPE_BUFFER sizeof_NVBuffer demo_context =
      (Some (demo_object 1 OBJECT_TYPE_BUFFER), demo_start\<lparr>vo_table := demo_table [OBJECT_TYPE_CONTEXT, OBJECT_TYPE_BUFFER]\<rparr>)"
    using t by (simp add: allocateObject_def demo_context_def demo_start_def demo_alloc_def)
  have p: "al_payload (demo_alloc 2) = 2" by (simp add: demo_alloc_def)
  have m: "al_memalign (demo_alloc 2) 4096 = Some (8192, replicate 4096 0xAA)" by (simp add: demo_alloc_def)
  have c: "checkedMultiplySize 4 1 = Some 4" by (simp add: checkedMultiplySize_def)
  have k: "bufferPoolClassForSize 4 = 0" by (simp add: bufferPoolClassForSize_def bufferPoolClassSizes_def)
  have k0: "bufferPoolClassSizes ! 0 = 4096" by (simp add: bufferPoolClassSizes_def)
  have w: "write_at (replicate 4096 0xAA) 0 [1, 2, 3, 4] = [1, 2, 3, 4 :: u8] @ replicate 4092 0xAA"
    by (simp add: write_at_def)
  show ?thesis
    unfolding nvCreateBuffer_def create_buffer_object_def p
    by (simp add: demo_context_found isValidBufferType_def c a allocateBufferMemory_def k k0 pool_take_def m
        set_memory_def w upd_buffer_def Let_def demo_start_def demo_buffer_def demo_object_def fun_upd_def cong: if_cong)
qed


lemma demo_reach:
  "va_reach 67108864 demo_context" "va_reach 67108864 demo_buffer" "fresh_alloc (demo_alloc 2) demo_context"
proof -
  have new: "va_new 67108864 demo_start" by (simp add: va_new_def demo_start_def)
  have p: "payloads demo_start = {}"
    by (simp add: payloads_def found_def demo_start_def tab_find_init)
  have s: "va_step demo_start demo_context"
    by (rule va_step.create_other [OF _ _ _ demo_context_run]) (simp_all add: p)
  from va_reach.step [OF va_reach.start [OF new] s] show r: "va_reach 67108864 demo_context" .
  have "table_ok (vo_table demo_start)" using va_okD(1) [OF va_new_ok [OF new]] .
  from allocateObject_some [OF this demo_context_run] obtain t where
    t: "demo_context = demo_start\<lparr>vo_table := t\<rparr>" "tab_find (vo_table demo_start) (obj_id (demo_object 0 OBJECT_TYPE_CONTEXT)) = None"
      "\<forall>j. tab_find t j = (if same_id j (obj_id (demo_object 0 OBJECT_TYPE_CONTEXT))
        then Some (demo_object 0 OBJECT_TYPE_CONTEXT) else tab_find (vo_table demo_start) j)" by auto
  have "payloads demo_context = insert 1 (payloads demo_start)"
  proof (rule live_new(2) [OF _ t(2) refl])
    have "vo_table demo_context = t" unfolding t(1) by simp
    then show "\<forall>j. tab_find (vo_table demo_context) j = (if same_id j (obj_id (demo_object 0 OBJECT_TYPE_CONTEXT))
        then Some (demo_object 0 OBJECT_TYPE_CONTEXT) else tab_find (vo_table demo_start) j)" using t(3) by simp
  qed (simp add: demo_object_def)
  moreover have "vo_heap demo_context = (\<lambda>a. None)" by (simp add: demo_context_def demo_start_def)
  ultimately show f: "fresh_alloc (demo_alloc 2) demo_context"
    using p by (auto simp: fresh_alloc_def fresh_block_def demo_alloc_def)
  show "va_reach 67108864 demo_buffer"
    by (rule va_reach.step [OF r va_step.create_buffer [OF f demo_buffer_run]])
qed

lemma demo_buffer_live: "2 \<in> live demo_buffer OBJECT_TYPE_BUFFER" "vb_ptr (vo_buffers demo_buffer 2) = Some 8192"
  "getObjectPtr OBJECT_TYPE_BUFFER (makeId 1 1) demo_buffer = Some 2"
proof -
  have f: "tab_find (vo_table demo_buffer) (makeId 1 1) = Some (demo_object 1 OBJECT_TYPE_BUFFER)"
    using demo_find [of 1 "[OBJECT_TYPE_CONTEXT, OBJECT_TYPE_BUFFER]"] by (simp add: demo_buffer_def)
  then show "2 \<in> live demo_buffer OBJECT_TYPE_BUFFER"
    unfolding live_def found_def by (auto simp: demo_object_def intro!: exI [of _ "demo_object 1 OBJECT_TYPE_BUFFER"])
  show "vb_ptr (vo_buffers demo_buffer 2) = Some 8192" by (simp add: demo_buffer_def)
  have "makeId 1 1 \<noteq> VA_INVALID_ID" by (rule makeId_canonical) simp
  from getObjectPtr_find [OF f _ this, of OBJECT_TYPE_BUFFER]
  show "getObjectPtr OBJECT_TYPE_BUFFER (makeId 1 1) demo_buffer = Some 2"
    by (simp add: demo_object_def demo_buffer_def demo_start_def)
qed

section \<open>Ownership of memory\<close>

text \<open>C2. In every state that calls on buffers and images can reach, no two live buffers share a
  block and no live buffer's block is in the pool; a block is long enough for its buffer; and the memory
  handed out is exactly the pool and the blocks of the live buffers, so that nothing leaks and
  nothing is freed or pooled twice. The pool holds at most 16 blocks of a class and stays within its byte limit.\<close>

theorem buffer_memory_exclusive:
  assumes "va_reach limit d"
  shows "inj_on (\<lambda>p. vb_ptr (vo_buffers d p)) {p \<in> live d OBJECT_TYPE_BUFFER. vb_ptr (vo_buffers d p) \<noteq> None} \<and>
    (\<forall>p \<in> live d OBJECT_TYPE_BUFFER. \<forall>a. vb_ptr (vo_buffers d p) = Some a \<longrightarrow>
      a \<notin> set (concat (vo_pool d)) \<and> (\<exists>m. vo_heap d a = Some m \<and> unat (vb_size (vo_buffers d p)) \<le> length m)) \<and>
    {a. vo_heap d a \<noteq> None} =
      set (concat (vo_pool d)) \<union> {a. \<exists>p \<in> live d OBJECT_TYPE_BUFFER. vb_ptr (vo_buffers d p) = Some a} \<and>
    distinct (concat (vo_pool d)) \<and> (\<forall>k<11. length (vo_pool d ! k) \<le> 16) \<and>
    unat (vo_poolBytes d) = pooled_bytes (vo_pool d) \<and> vo_poolBytes d \<le> vo_poolMaxBytes d"
proof (intro conjI ballI allI impI)
  note m = va_okD(3) [OF va_reach_ok [OF assms]]
  note pool = memory_okD(1) [OF m]
  show "inj_on (\<lambda>p. vb_ptr (vo_buffers d p)) {p \<in> live d OBJECT_TYPE_BUFFER. vb_ptr (vo_buffers d p) \<noteq> None}"
    by (rule inj_onI) (use memory_okD(3) [OF m] in auto)
  show "distinct (concat (vo_pool d))" "k < 11 \<Longrightarrow> length (vo_pool d ! k) \<le> 16"
    "unat (vo_poolBytes d) = pooled_bytes (vo_pool d)" "vo_poolBytes d \<le> vo_poolMaxBytes d" for k
    using pool by (simp_all add: pool_ok_def)
  show "{a. vo_heap d a \<noteq> None} =
      set (concat (vo_pool d)) \<union> {a. \<exists>p \<in> live d OBJECT_TYPE_BUFFER. vb_ptr (vo_buffers d p) = Some a}"
    using memory_okD(5) [OF m] by (auto simp: pool_blocks_def)
  fix p a
  assume p: "p \<in> live d OBJECT_TYPE_BUFFER" "vb_ptr (vo_buffers d p) = Some a"
  from memory_okD(2) [OF m p(1)] p(2)
  show "a \<notin> set (concat (vo_pool d))" "\<exists>m. vo_heap d a = Some m \<and> unat (vb_size (vo_buffers d p)) \<le> length m"
    using memory_okD(4) [OF m p] by (auto simp: buffer_ok_def pool_blocks_def word_le_nat_alt Let_def)
qed

lemma buffer_memory_exclusive_witness:
  "(\<exists>m. vo_heap demo_buffer 8192 = Some m \<and> unat (vb_size (vo_buffers demo_buffer 2)) \<le> length m) \<and>
   {a. vo_heap demo_buffer a \<noteq> None} = {a. \<exists>p \<in> live demo_buffer OBJECT_TYPE_BUFFER. vb_ptr (vo_buffers demo_buffer p) = Some a}"
proof -
  have e: "set (concat (vo_pool demo_buffer)) = {}" by (simp add: demo_buffer_def demo_start_def)
  note h = buffer_memory_exclusive [OF demo_reach(2), unfolded e Un_empty_left]
  show ?thesis using h demo_buffer_live(1,2) by blast
qed

text \<open>C4. Termination releases everything: from every reachable state the loop that deletes all
  objects ends, with an empty table, and once the pool is destroyed no block of buffer memory is left allocated.\<close>

theorem teardown_frees_all:
  assumes "va_reach limit d"
  shows "\<exists>d'. deleteAllObjects (d\<lparr>vo_terminating := True\<rparr>) = Some d' \<and> tab_liveCount (vo_table d') = 0 \<and>
    vo_heap (destroyBufferPool True d') = (\<lambda>a. None)"
proof -
  let ?d = "d\<lparr>vo_terminating := True\<rparr>"
  note o = va_okD [OF va_reach_ok [OF assms]]
  have l: "live ?d = live d" "own_payloads ?d = own_payloads d" by (rule same_live; simp)+
  have "memory_ok ?d (live d OBJECT_TYPE_BUFFER) = memory_ok d (live d OBJECT_TYPE_BUFFER)"
    by (rule memory_ok_cong) simp_all
  then obtain d' where d': "deleteAllObjects ?d = Some d'" "memory_ok d' {}" "tab_liveCount (vo_table d') = 0"
    using delete_all [of ?d] o l by auto
  have m: "memory_ok (destroyBufferPool True d') {}" by (rule destroy_pool(1) [OF d'(2)])
  have "pool_blocks (destroyBufferPool True d') = {}" by (simp add: pool_blocks_def destroyBufferPool_def)
  then have "vo_heap (destroyBufferPool True d') a = None" for a using memory_okD(5) [OF m, of a] by auto
  then show ?thesis using d'(1,3) by blast
qed

lemma teardown_frees_all_witness:
  "vo_heap demo_buffer 8192 \<noteq> None \<and>
   (\<exists>d'. deleteAllObjects (demo_buffer\<lparr>vo_terminating := True\<rparr>) = Some d' \<and>
      vo_heap (destroyBufferPool True d') = (\<lambda>a. None))"
  using teardown_frees_all [OF demo_reach(2)] by (auto simp: demo_buffer_def)


section \<open>What a buffer holds\<close>

lemma allocate_heap_frame:
  assumes "allocateBufferMemory al p n d = (r, d')" "vb_ptr (vo_buffers d' p) \<noteq> Some b"
  shows "vo_heap d' b = vo_heap d b"
  using assms
  by (auto simp: allocateBufferMemory_def Let_def pool_take_def split: if_splits option.splits list.splits prod.splits)

lemma set_memory_heap:
  "vo_heap (set_memory (Some a) bytes d) b = (if b = a then map_option (\<lambda>m. write_at m 0 bytes) (vo_heap d a) else vo_heap d b)"
  by (simp add: set_memory_def)

text \<open>A created buffer: its ID, its bytes, and what stays as it was.\<close>

lemma create_buffer_object_result:
  assumes ok: "va_ok d" and fresh: "fresh_alloc al d" and bs: "bs \<noteq> 0"
    and run: "create_buffer_object al c ty num es bs (Some data) d = (VA_STATUS_SUCCESS, i, d')"
  shows "\<exists>ob a m. obj_id ob = i \<and> i \<noteq> VA_INVALID_ID \<and> obj_type ob = OBJECT_TYPE_BUFFER \<and> obj_payload ob = Some (al_payload al) \<and>
    \<not> vo_terminating d' \<and> vb_ptr (vo_buffers d' (al_payload al)) = Some a \<and> vo_heap d' a = Some m \<and>
    take (length (take (unat bs) data)) m = take (unat bs) data \<and> tab_find (vo_table d) i = None \<and>
    (\<forall>j. tab_find (vo_table d') j = (if same_id j i then Some ob else tab_find (vo_table d) j)) \<and>
    (\<forall>b. b \<noteq> a \<longrightarrow> vo_heap d' b = vo_heap d b) \<and> (\<forall>q. q \<noteq> al_payload al \<longrightarrow> vo_buffers d' q = vo_buffers d q)"
proof -
  define p where "p = al_payload al"
  obtain r d1 where a: "allocateObject al p OBJECT_TYPE_BUFFER sizeof_NVBuffer d = (r, d1)" by force
  obtain ob where ob: "r = Some ob" using run a by (cases r) (simp_all add: create_buffer_object_def p_def)
  obtain t where t: "d1 = d\<lparr>vo_table := t\<rparr>" "obj_type ob = OBJECT_TYPE_BUFFER" "obj_payload ob = Some p"
    "tab_find (vo_table d) (obj_id ob) = None" "obj_id ob \<noteq> VA_INVALID_ID" "\<not> vo_terminating d"
    "\<forall>j. tab_find t j = (if same_id j (obj_id ob) then Some ob else tab_find (vo_table d) j)"
    using allocateObject_some [OF va_okD(1) [OF ok], of al p OBJECT_TYPE_BUFFER sizeof_NVBuffer ob d1] a ob by auto
  define f :: "VaBuffer \<Rightarrow> VaBuffer" where "f = (\<lambda>b. b\<lparr>vb_bufferType := ty, vb_ownerContextId := c,
    vb_imageOwned := False, vb_elements := num, vb_elementSize := es, vb_size := bs\<rparr>)"
  obtain ok3 d3 where m: "allocateBufferMemory al p bs (upd_buffer p f d1) = (ok3, d3)" by force
  note fr = allocate_memory_frame [OF m]
  have ok3: "ok3" using run a ob m by (cases ok3) (simp_all add: create_buffer_object_def p_def [symmetric] f_def)
  define bytes where "bytes = take (unat bs) data"
  have i: "i = obj_id ob" and d': "d' = set_memory (vb_ptr (vo_buffers d3 p)) bytes d3"
    using run a ob m ok3 bs by (simp_all add: create_buffer_object_def p_def [symmetric] f_def bytes_def)
  have bufs: "vo_buffers d' = vo_buffers d3" by (simp add: d')
  have find: "\<forall>j. tab_find (vo_table d') j = (if same_id j (obj_id ob) then Some ob else tab_find (vo_table d) j)"
    using t(7) fr(1) by (simp add: d' same_objects_def t(1))
  have "p \<in> live d' OBJECT_TYPE_BUFFER" using live_new(1) [OF find t(4,2,3)] by simp
  moreover have "va_ok d'" by (rule create_buffer_object_ok [OF ok fresh run])
  ultimately have b: "buffer_ok d' p" using memory_okD(2) va_okD(3) by blast
  have "vb_size (vo_buffers d' p) = bs" using fr(3) by (simp add: bufs same_buffer_def f_def)
  then obtain x mx where x: "vb_ptr (vo_buffers d' p) = Some x" "vo_heap d' x = Some mx" "unat bs \<le> length mx"
    using b bs by (auto simp: buffer_ok_def word_le_nat_alt Let_def split: option.splits)
  have x3: "vb_ptr (vo_buffers d3 p) = Some x" using x(1) by (simp add: bufs)
  then obtain m3 where m3: "vo_heap d3 x = Some m3" "mx = write_at m3 0 bytes"
    using x(2) by (auto simp: d' set_memory_heap)
  have "take (length bytes) mx = bytes" unfolding m3(2) by (simp add: write_at_def)
  moreover have "vo_heap d' y = vo_heap d y" if "y \<noteq> x" for y
    using that allocate_heap_frame [OF m, of y] x3 by (simp add: d' set_memory_heap t(1))
  moreover have "vo_buffers d' q = vo_buffers d q" if "q \<noteq> p" for q
    using that fr(2) [OF that] by (simp add: bufs t(1))
  moreover have "\<not> vo_terminating d'" using t(6) fr(1) by (simp add: d' same_objects_def t(1))
  ultimately show ?thesis
    using t x find unfolding i p_def [symmetric] bytes_def [symmetric] by blast
qed

lemma create_buffer_size:
  assumes "nvCreateBuffer al tm True c ty n num data d = (VA_STATUS_SUCCESS, i, d')"
  shows "create_buffer_object al c ty num (ucast n) (ucast n * ucast num) data d = (VA_STATUS_SUCCESS, i, d')"
    "unat (ucast n * ucast num :: usize) = unat n * unat num"
proof -
  have s: "checkedMultiplySize (ucast n) (ucast num) = None \<or> checkedMultiplySize (ucast n) (ucast num) = Some (ucast n * ucast num)"
    by (simp add: checkedMultiplySize_def)
  then show "create_buffer_object al c ty num (ucast n) (ucast n * ucast num) data d = (VA_STATUS_SUCCESS, i, d')"
    using assms by (auto simp: nvCreateBuffer_def Let_def split: if_splits)
  have "unat n * unat num < 2 ^ 32 * 2 ^ 32"
    by (rule mult_strict_mono) (use unat_u32_less [of n] unat_u32_less [of num] in simp_all)
  then show "unat (ucast n * ucast num :: usize) = unat n * unat num"
    by (simp add: unat_word_ariths unsigned_ucast_eq take_bit_eq_mod)
qed

text \<open>C30. A buffer that \<open>vaCreateBuffer\<close> fills holds the client's bytes behind the pointer
  that \<open>vaMapBuffer\<close> returns for its ID, and every other buffer that could be mapped before keeps its pointer and its contents.\<close>

theorem created_buffer_holds_data:
  assumes "va_reach limit d" "fresh_alloc al d" "0 < unat n * unat num" "length data = unat n * unat num"
    and run: "nvCreateBuffer al tm True c ty n num (Some data) d = (VA_STATUS_SUCCESS, i, d')"
  shows "(\<exists>a m. nvMapBuffer True i d' = Inr (Some a) \<and> vo_heap d' a = Some m \<and> take (length data) m = data) \<and>
    (\<forall>j a m. nvMapBuffer True j d = Inr (Some a) \<longrightarrow> vo_heap d a = Some m \<longrightarrow>
      nvMapBuffer True j d' = Inr (Some a) \<and> vo_heap d' a = Some m)"
proof -
  note ok = va_reach_ok [OF assms(1)]
  note run' = create_buffer_size [OF run]
  have bs: "(ucast n * ucast num :: usize) \<noteq> 0" using run'(2) assms(3) by (metis unat_0 less_irrefl)
  define p where "p = al_payload al"
  obtain ob a m where r: "obj_id ob = i" "i \<noteq> VA_INVALID_ID" "obj_type ob = OBJECT_TYPE_BUFFER" "obj_payload ob = Some p"
    "\<not> vo_terminating d'" "vb_ptr (vo_buffers d' p) = Some a" "vo_heap d' a = Some m" "take (length data) m = data"
    "tab_find (vo_table d) i = None" "\<forall>j. tab_find (vo_table d') j = (if same_id j i then Some ob else tab_find (vo_table d) j)"
    "\<forall>b. b \<noteq> a \<longrightarrow> vo_heap d' b = vo_heap d b" "\<forall>q. q \<noteq> p \<longrightarrow> vo_buffers d' q = vo_buffers d q"
    using create_buffer_object_result [OF ok assms(2) bs run'(1)] run'(2) assms(4) by (auto simp: p_def)
  have "getObjectPtr OBJECT_TYPE_BUFFER i d' = Some p"
    using getObjectPtr_find [of d' i ob OBJECT_TYPE_BUFFER] r by simp
  then have map: "nvMapBuffer True i d' = Inr (Some a)" using r(6) by (simp add: nvMapBuffer_def)
  note mem = va_okD(3) [OF create_buffer_ok [OF ok assms(2) run]]
  have new: "\<forall>j. tab_find (vo_table d') j = (if same_id j (obj_id ob) then Some ob else tab_find (vo_table d) j)"
    and fr: "tab_find (vo_table d) (obj_id ob) = None" using r(1,9,10) by simp_all
  note ln = live_new(1) [OF new fr r(3,4), of OBJECT_TYPE_BUFFER]
  have "nvMapBuffer True j d' = Inr (Some b) \<and> vo_heap d' b = Some mb"
    if j: "nvMapBuffer True j d = Inr (Some b)" "vo_heap d b = Some mb" for j b mb
  proof -
    obtain q where q: "getObjectPtr OBJECT_TYPE_BUFFER j d = Some q" "vb_ptr (vo_buffers d q) = Some b"
      using j(1) by (auto simp: nvMapBuffer_def split: option.splits)
    obtain oq where oq: "tab_find (vo_table d) j = Some oq" "obj_type oq = OBJECT_TYPE_BUFFER" "obj_payload oq = Some q"
      "j \<noteq> VA_INVALID_ID" "q \<in> live d OBJECT_TYPE_BUFFER"
      by (rule getObjectPtr_Some [OF q(1)]) blast
    have "q \<noteq> p" using assms(2) live_payloads [OF oq(5)] by (auto simp: fresh_alloc_def p_def)
    then have bq: "vb_ptr (vo_buffers d' q) = Some b" using r(12) q(2) by simp
    have "b \<noteq> a" using memory_okD(3) [OF mem, of q p b] bq r(6) ln oq(5) \<open>q \<noteq> p\<close> by auto
    moreover have "tab_find (vo_table d') j = Some oq"
      using r(9,10) oq(1) find_same_id [of j i "vo_table d"] by auto
    then have "getObjectPtr OBJECT_TYPE_BUFFER j d' = Some q"
      using getObjectPtr_find [of d' j oq OBJECT_TYPE_BUFFER] oq r(5) by simp
    ultimately show ?thesis using bq r(11) j(2) by (simp add: nvMapBuffer_def)
  qed
  then show ?thesis using map r(7,8) by blast
qed

lemma created_buffer_holds_data_witness:
  "\<exists>a m. nvMapBuffer True (makeId 1 1) demo_buffer = Inr (Some a) \<and> vo_heap demo_buffer a = Some m \<and>
     take (length [1, 2, 3, 4 :: u8]) m = [1, 2, 3, 4]"
  by (rule conjunct1 [OF created_buffer_holds_data [OF demo_reach(1,3) _ _ demo_buffer_run]]) simp_all


section \<open>Images\<close>

lemma getObjectPtr_gone:
  "tab_find (vo_table d) i = None \<Longrightarrow> getObjectPtr ty i d = None"
  by (simp add: getObjectPtr_def getObject_def get_find)

text \<open>C31. An image keeps its buffer: while the image lives, \<open>vaDestroyBuffer\<close> refuses the buffer and
  changes nothing and the buffer can be mapped; \<open>vaDestroyImage\<close> succeeds and removes both.\<close>

theorem image_keeps_buffer:
  assumes "va_reach limit d" "getObjectPtr OBJECT_TYPE_IMAGE i d = Some q"
  shows "nvDestroyBuffer (vi_imageBufferId (vo_images d q)) d = (VA_STATUS_ERROR_OPERATION_FAILED, d) \<and>
    nvMapBuffer True (vi_imageBufferId (vo_images d q)) d = Inr (vb_ptr (vo_buffers d (vi_imageBuffer (vo_images d q)))) \<and>
    (\<exists>d'. nvDestroyImage i d = (VA_STATUS_SUCCESS, d') \<and> getObjectPtr OBJECT_TYPE_IMAGE i d' = None \<and>
      getObjectPtr OBJECT_TYPE_BUFFER (vi_imageBufferId (vo_images d q)) d' = None)"
proof -
  note ok = va_reach_ok [OF assms(1)]
  note o = va_okD [OF ok]
  let ?bi = "vi_imageBufferId (vo_images d q)" and ?p = "vi_imageBuffer (vo_images d q)"
  obtain oi where fi: "tab_find (vo_table d) i = Some oi" "i \<noteq> VA_INVALID_ID" "\<not> vo_terminating d" "q \<in> live d OBJECT_TYPE_IMAGE"
    by (rule getObjectPtr_Some [OF assms(2)]) blast
  obtain ob where fb: "tab_find (vo_table d) ?bi = Some ob" "obj_type ob = OBJECT_TYPE_BUFFER" "obj_payload ob = Some ?p"
    "?bi \<noteq> VA_INVALID_ID" and own: "vb_imageOwned (vo_buffers d ?p)"
    using images_okD(1) [OF o(4) fi(4)] by (auto simp: image_ok_def)
  have get: "getObjectPtr OBJECT_TYPE_BUFFER ?bi d = Some ?p"
    using getObjectPtr_find [OF fb(1,2,4) fi(3)] fb(3) by simp
  define d1 where "d1 = deleteObject ?bi (releaseBufferMemory (Some ?p) d)"
  note db = delete_buffer [OF ok fb, folded d1_def]
  obtain t where t: "deleteObject i d1 = d1\<lparr>vo_table := t\<rparr>"
    "\<forall>j. tab_find t j = (if same_id j i then None else tab_find (vo_table d1) j)"
    using deleteObject_find [OF db(1) fi(2)] by auto
  have run: "nvDestroyImage i d = (VA_STATUS_SUCCESS, deleteObject i d1)"
    using assms(2) get by (simp add: nvDestroyImage_def d1_def Let_def)
  have "tab_find (vo_table (deleteObject i d1)) i = None" "tab_find (vo_table (deleteObject i d1)) ?bi = None"
    using t db(8) by simp_all
  then show ?thesis using get own run by (simp add: nvDestroyBuffer_def nvMapBuffer_def getObjectPtr_gone)
qed

definition demo_image :: VaObjects where
  "demo_image = demo_start\<lparr>vo_table := demo_table [OBJECT_TYPE_IMAGE, OBJECT_TYPE_BUFFER],
     vo_buffers := (vo_buffers demo_start)(2 := \<lparr>vb_elements = 1, vb_elementSize = 6, vb_size = 6,
       vb_bufferType = VAImageBufferType, vb_ownerContextId = VA_INVALID_ID, vb_imageOwned = True, vb_ptr = Some 4096,
       vb_capacity = 4096, vb_poolClass = 0\<rparr>),
     vo_images := (vo_images demo_start)(1 := \<lparr>vi_width = 2, vi_height = 2, vi_format = NV_FORMAT_NV12,
       vi_imageBuffer = 2, vi_imageBufferId = makeId 1 1\<rparr>),
     vo_heap := [4096 \<mapsto> replicate 6 0 @ replicate 4090 0xAA]\<rparr>"

lemma demo_image_layout: "image_layout (Some VA_FOURCC_NV12) 2 2 True = Inr ([4, 2], 6, [2, 2])"
  by code_simp

lemma demo_image_objects:
  "create_image_objects (demo_alloc 1) NV_FORMAT_NV12 2 2 6 demo_start = (Inr (makeId 1 0, makeId 1 1), demo_image)"
proof -
  let ?t1 = "demo_table [OBJECT_TYPE_IMAGE]" and ?t2 = "demo_table [OBJECT_TYPE_IMAGE, OBJECT_TYPE_BUFFER]"
  have t: "nvdObjectTableAllocate (\<lambda>n. True) (\<lambda>n. True) 1 nvdObjectTableInit OBJECT_TYPE_IMAGE sizeof_NVImage =
      (Some (demo_object 0 OBJECT_TYPE_IMAGE), ?t1)"
    "nvdObjectTableAllocate (\<lambda>n. True) (\<lambda>n. True) 2 ?t1 OBJECT_TYPE_BUFFER sizeof_NVBuffer =
      (Some (demo_object 1 OBJECT_TYPE_BUFFER), ?t2)"
    using demo_allocate [of "[]" OBJECT_TYPE_IMAGE sizeof_NVImage]
      demo_allocate [of "[OBJECT_TYPE_IMAGE]" OBJECT_TYPE_BUFFER sizeof_NVBuffer]
    by (simp_all add: numeral_2_eq_2 [symmetric])
  have a: "allocateObject (demo_alloc 1) 1 OBJECT_TYPE_IMAGE sizeof_NVImage demo_start =
      (Some (demo_object 0 OBJECT_TYPE_IMAGE), demo_start\<lparr>vo_table := ?t1\<rparr>)"
    "allocateObject (demo_alloc 1) 2 OBJECT_TYPE_BUFFER sizeof_NVBuffer (demo_start\<lparr>vo_table := ?t1\<rparr>) =
      (Some (demo_object 1 OBJECT_TYPE_BUFFER), demo_start\<lparr>vo_table := ?t2\<rparr>)"
    using t by (simp_all add: allocateObject_def demo_start_def demo_alloc_def)
  have p: "al_payload (demo_alloc 1) = 1" "al_payload2 (demo_alloc 1) = 2" by (simp_all add: demo_alloc_def)
  have m: "al_memalign (demo_alloc 1) 4096 = Some (4096, replicate 4096 0xAA)" by (simp add: demo_alloc_def)
  have k: "bufferPoolClassForSize 6 = 0" by (simp add: bufferPoolClassForSize_def bufferPoolClassSizes_def)
  have k0: "bufferPoolClassSizes ! 0 = 4096" by (simp add: bufferPoolClassSizes_def)
  have w: "write_at (replicate 4096 0xAA) 0 (replicate 6 0) = replicate 6 (0 :: u8) @ replicate 4090 0xAA"
    by (simp add: write_at_def)
  show ?thesis
    unfolding create_image_objects_def p a prod.case option.case Let_def
    by (simp add: allocateBufferMemory_def k k0 pool_take_def m
        set_memory_def w upd_buffer_def Let_def demo_start_def demo_image_def demo_object_def fun_upd_def cong: if_cong del: One_nat_def)
qed

lemma demo_image_reach:
  "va_reach 67108864 demo_image" "getObjectPtr OBJECT_TYPE_IMAGE (makeId 1 0) demo_image = Some 1"
proof -
  have new: "va_new 67108864 demo_start" by (simp add: va_new_def demo_start_def)
  have f: "fresh_alloc (demo_alloc 1) demo_start"
    by (simp add: fresh_alloc_def fresh_block_def demo_alloc_def payloads_def found_def demo_start_def tab_find_init)
  have "nvFormatFromVaFormat VA_FOURCC_NV12 = NV_FORMAT_NV12" by code_simp
  then obtain r where "nvCreateImage (demo_alloc 1) (Some VA_FOURCC_NV12) 2 2 True demo_start = (r, demo_image)"
    by (simp add: nvCreateImage_def demo_image_layout demo_image_objects del: One_nat_def)
  from va_reach.step [OF va_reach.start [OF new] va_step.create_image [OF f this]]
  show "va_reach 67108864 demo_image" .
  have "tab_find (vo_table demo_image) (makeId 1 0) = Some (demo_object 0 OBJECT_TYPE_IMAGE)"
    using demo_find [of 0 "[OBJECT_TYPE_IMAGE, OBJECT_TYPE_BUFFER]"] by (simp add: demo_image_def)
  moreover have "makeId 1 0 \<noteq> VA_INVALID_ID" by (rule makeId_canonical) simp
  ultimately show "getObjectPtr OBJECT_TYPE_IMAGE (makeId 1 0) demo_image = Some 1"
    using getObjectPtr_find [of demo_image "makeId 1 0"] by (simp add: demo_object_def demo_image_def demo_start_def)
qed

lemma image_keeps_buffer_witness:
  "nvDestroyBuffer (makeId 1 1) demo_image = (VA_STATUS_ERROR_OPERATION_FAILED, demo_image) \<and>
   nvMapBuffer True (makeId 1 1) demo_image = Inr (Some 4096)"
proof -
  have e: "vi_imageBufferId (vo_images demo_image 1) = makeId 1 1"
    "vb_ptr (vo_buffers demo_image (vi_imageBuffer (vo_images demo_image 1))) = Some 4096"
    by (simp_all add: demo_image_def)
  show ?thesis using image_keeps_buffer [OF demo_image_reach] unfolding e by blast
qed

end
