(* ===== verification/Config.thy ===== *)
theory Config
  imports CodecHevc CodecOthers CodecVp8 CodecVp9 CodecAv1 Jpeg VaObjects
begin

text \<open>
  Profiles and configurations (\<open>src/vabackend.c\<close>): which codec serves a profile, the list of
  profiles that the GPU supports, the attributes of a profile, and the calls that create, query and destroy a
  configuration.

  \<open>nvd_codecs\<close> is the linker section of the codecs; the linker chooses its order, so the
  functions take the list. \<open>decoder_caps\<close> is the answer of \<open>cuvidGetDecoderCaps\<close> for a codec, a bit
  depth and a chroma format, \<open>None\<close> for a CUDA error. The model is that of libva 1.20 or newer.
\<close>

section \<open>Codecs and profiles\<close>

record NVCodecEntry =
  nc_computeCudaCodec :: "VAProfile \<Rightarrow> cudaVideoCodec"
  nc_supportedProfiles :: "VAProfile list"

definition nvd_codecs :: "NVCodecEntry list" where
  "nvd_codecs =
     [\<lparr>nc_computeCudaCodec = computeH264CudaCodec, nc_supportedProfiles = h264SupportedProfiles\<rparr>,
      \<lparr>nc_computeCudaCodec = computeHEVCCudaCodec, nc_supportedProfiles = hevcSupportedProfiles\<rparr>,
      \<lparr>nc_computeCudaCodec = computeMPEG2CudaCodec, nc_supportedProfiles = mpeg2SupportedProfiles\<rparr>,
      \<lparr>nc_computeCudaCodec = computeVC1CudaCodec, nc_supportedProfiles = vc1SupportedProfiles\<rparr>,
      \<lparr>nc_computeCudaCodec = computeVP8CudaCodec, nc_supportedProfiles = vp8SupportedProfiles\<rparr>,
      \<lparr>nc_computeCudaCodec = computeVP9CudaCodec, nc_supportedProfiles = vp9SupportedProfiles\<rparr>,
      \<lparr>nc_computeCudaCodec = computeAV1CudaCodec, nc_supportedProfiles = av1SupportedProfiles\<rparr>,
      \<lparr>nc_computeCudaCodec = computeJPEGCudaCodec, nc_supportedProfiles = jpegSupportedProfiles\<rparr>]"

fun vaToCuCodec :: "NVCodecEntry list \<Rightarrow> VAProfile \<Rightarrow> cudaVideoCodec" where
  "vaToCuCodec [] profile = cudaVideoCodec_NONE"
| "vaToCuCodec (c # cs) profile =
     (let cvc = nc_computeCudaCodec c profile
      in if cvc \<noteq> cudaVideoCodec_NONE then cvc else vaToCuCodec cs profile)"

text \<open>The search of \<open>nvCreateContext\<close>, which goes on after a match.\<close>

fun select_codec :: "NVCodecEntry list \<Rightarrow> VAProfile \<Rightarrow> NVCodecEntry option \<Rightarrow> NVCodecEntry option" where
  "select_codec [] profile selected = selected"
| "select_codec (c # cs) profile selected =
     select_codec cs profile (if profile \<in> set (nc_supportedProfiles c) then Some c else selected)"

abbreviation cudaVideoChromaFormat_444 :: int where "cudaVideoChromaFormat_444 \<equiv> 3"
abbreviation cudaVideoSurfaceFormat_NV12 :: int where "cudaVideoSurfaceFormat_NV12 \<equiv> 0"
abbreviation cudaVideoSurfaceFormat_P016 :: int where "cudaVideoSurfaceFormat_P016 \<equiv> 1"
abbreviation cudaVideoSurfaceFormat_YUV444 :: int where "cudaVideoSurfaceFormat_YUV444 \<equiv> 2"
abbreviation cudaVideoSurfaceFormat_YUV444_16Bit :: int where "cudaVideoSurfaceFormat_YUV444_16Bit \<equiv> 3"

record CUVIDDECODECAPS =
  dc_bIsSupported :: bool
  dc_nMaxWidth :: u32
  dc_nMaxHeight :: u32

type_synonym decoder_caps = "cudaVideoCodec \<Rightarrow> int \<Rightarrow> int \<Rightarrow> CUVIDDECODECAPS option"

definition doesGPUSupportCodec :: "decoder_caps \<Rightarrow> cudaVideoCodec \<Rightarrow> int \<Rightarrow> int \<Rightarrow> bool" where
  "doesGPUSupportCodec caps codec bitDepth chromaFormat =
     (case caps codec (bitDepth - 8) chromaFormat of None \<Rightarrow> False | Some c \<Rightarrow> dc_bIsSupported c)"

record NVCaps =
  nd_supports16BitSurface :: bool
  nd_supports444Surface :: bool
  nd_profiles :: "VAProfile list"

definition driverSupportsProfile :: "NVCaps \<Rightarrow> VAProfile \<Rightarrow> bool" where
  "driverSupportsProfile drv profile \<longleftrightarrow> profile \<in> set (nd_profiles drv)"

definition profileDecodeTuple :: "NVCodecEntry list \<Rightarrow> VAProfile \<Rightarrow> int \<times> int \<times> bool" where
  "profileDecodeTuple codecs profile =
     (let (bitDepth, chromaFormat) =
        (case profile of
           VAProfileHEVCMain10 \<Rightarrow> (10, cudaVideoChromaFormat_420)
         | VAProfileVP9Profile2 \<Rightarrow> (10, cudaVideoChromaFormat_420)
         | VAProfileHEVCMain12 \<Rightarrow> (12, cudaVideoChromaFormat_420)
         | VAProfileHEVCMain444 \<Rightarrow> (8, cudaVideoChromaFormat_444)
         | VAProfileVP9Profile1 \<Rightarrow> (8, cudaVideoChromaFormat_444)
         | VAProfileAV1Profile1 \<Rightarrow> (8, cudaVideoChromaFormat_444)
         | VAProfileHEVCMain444_10 \<Rightarrow> (10, cudaVideoChromaFormat_444)
         | VAProfileVP9Profile3 \<Rightarrow> (10, cudaVideoChromaFormat_444)
         | VAProfileHEVCMain444_12 \<Rightarrow> (12, cudaVideoChromaFormat_444)
         | _ \<Rightarrow> (8, cudaVideoChromaFormat_420))
      in (bitDepth, chromaFormat, vaToCuCodec codecs profile \<noteq> cudaVideoCodec_NONE))"

text \<open>\<open>push\<close> and \<open>pop\<close> are the outcomes of entering and leaving the CUDA context.\<close>

definition queryProfileDecodeCaps ::
    "NVCodecEntry list \<Rightarrow> decoder_caps \<Rightarrow> bool \<Rightarrow> bool \<Rightarrow> VAProfile \<Rightarrow> VAStatus + CUVIDDECODECAPS" where
  "queryProfileDecodeCaps codecs caps push pop profile =
     (case profileDecodeTuple codecs profile of (bitDepth, chromaFormat, valid) \<Rightarrow>
        if \<not> valid then Inl VA_STATUS_ERROR_UNSUPPORTED_PROFILE
        else if \<not> push then Inl VA_STATUS_ERROR_OPERATION_FAILED
        else case caps (vaToCuCodec codecs profile) (bitDepth - 8) chromaFormat of
               None \<Rightarrow> Inl VA_STATUS_ERROR_OPERATION_FAILED
             | Some c \<Rightarrow>
                 if \<not> pop then Inl VA_STATUS_ERROR_OPERATION_FAILED
                 else if dc_bIsSupported c then Inr c else Inl VA_STATUS_ERROR_UNSUPPORTED_PROFILE)"

section \<open>The profiles of the GPU\<close>

definition nvQueryConfigProfiles :: "bool \<Rightarrow> NVCaps \<Rightarrow> VAStatus + VAProfile list" where
  "nvQueryConfigProfiles hasPointers drv =
     (if hasPointers then Inr (nd_profiles drv) else Inl VA_STATUS_ERROR_INVALID_PARAMETER)"

text \<open>The profiles that are written before the filter runs.\<close>

definition candidate_profiles :: "decoder_caps \<Rightarrow> bool \<Rightarrow> bool \<Rightarrow> VAProfile list" where
  "candidate_profiles caps supports16 supports444 =
     (let gpu = doesGPUSupportCodec caps;
          add = (\<lambda>codec depth chroma ps. if gpu codec depth chroma then ps else []);
          c420 = cudaVideoChromaFormat_420; c444 = cudaVideoChromaFormat_444
      in add cudaVideoCodec_MPEG2 8 c420 [VAProfileMPEG2Simple, VAProfileMPEG2Main] @
         add cudaVideoCodec_MPEG4 8 c420 [VAProfileMPEG4Simple, VAProfileMPEG4AdvancedSimple, VAProfileMPEG4Main] @
         add cudaVideoCodec_VC1 8 c420 [VAProfileVC1Simple, VAProfileVC1Main, VAProfileVC1Advanced] @
         add cudaVideoCodec_H264 8 c420 [VAProfileH264Main, VAProfileH264High, VAProfileH264ConstrainedBaseline] @
         add cudaVideoCodec_JPEG 8 c420 [VAProfileJPEGBaseline] @
         add cudaVideoCodec_H264_SVC 8 c420 [VAProfileH264StereoHigh] @
         add cudaVideoCodec_H264_MVC 8 c420 [VAProfileH264MultiviewHigh] @
         add cudaVideoCodec_HEVC 8 c420 [VAProfileHEVCMain] @
         add cudaVideoCodec_VP8 8 c420 [VAProfileVP8Version0_3] @
         add cudaVideoCodec_VP9 8 c420 [VAProfileVP9Profile0] @
         add cudaVideoCodec_AV1 8 c420 [VAProfileAV1Profile0] @
         (if supports16
          then add cudaVideoCodec_HEVC 10 c420 [VAProfileHEVCMain10] @
               add cudaVideoCodec_HEVC 12 c420 [VAProfileHEVCMain12] @
               add cudaVideoCodec_VP9 10 c420 [VAProfileVP9Profile2]
          else []) @
         (if supports444
          then add cudaVideoCodec_HEVC 8 c444 [VAProfileHEVCMain444] @
               add cudaVideoCodec_VP9 8 c444 [VAProfileVP9Profile1] @
               add cudaVideoCodec_AV1 8 c444 [VAProfileAV1Profile1] @
               (if supports16
                then add cudaVideoCodec_HEVC 10 c444 [VAProfileHEVCMain444_10] @
                     add cudaVideoCodec_HEVC 12 c444 [VAProfileHEVCMain444_12] @
                     add cudaVideoCodec_VP9 10 c444 [VAProfileVP9Profile3]
                else [])
          else []))"

text \<open>
  The filter in place: the entries behind an unsupported profile move down by one
  (\<open>move_entries_down\<close>), the count drops, and the same index is looked at again. The list holds the
  first \<open>profiles\<close> entries of the array.
\<close>

fun move_entries_down :: "'a list \<Rightarrow> nat list \<Rightarrow> 'a list" where
  "move_entries_down xs [] = xs"
| "move_entries_down xs (x # rest) = move_entries_down (xs[x := xs ! (x + 1)]) rest"

lemma length_move_down [simp]: "length (move_entries_down xs is) = length xs"
  by (induction xs "is" rule: move_entries_down.induct) simp_all

function filter_profiles :: "(VAProfile \<Rightarrow> bool) \<Rightarrow> VAProfile list \<Rightarrow> nat \<Rightarrow> VAProfile list" where
  "filter_profiles supported xs i =
     (if i < length xs
      then if \<not> supported (xs ! i)
           then filter_profiles supported (take (length xs - 1) (move_entries_down xs [i..<length xs - 1])) i
           else filter_profiles supported xs (Suc i)
      else xs)"
  by pat_completeness auto

termination
  by (relation "measure (\<lambda>(supported, xs, i). length xs - i)") auto

declare filter_profiles.simps [simp del]

definition nvQueryConfigProfiles2 ::
    "NVCodecEntry list \<Rightarrow> decoder_caps \<Rightarrow> bool \<Rightarrow> bool \<Rightarrow> bool \<Rightarrow> bool \<Rightarrow> VAStatus + VAProfile list" where
  "nvQueryConfigProfiles2 codecs caps push pop supports16 supports444 =
     (if \<not> push then Inl VA_STATUS_ERROR_OPERATION_FAILED
      else
        let profiles = filter_profiles (\<lambda>p. vaToCuCodec codecs p \<noteq> cudaVideoCodec_NONE)
                         (candidate_profiles caps supports16 supports444) 0 @ [VAProfileNone]
        in if \<not> pop then Inl VA_STATUS_ERROR_OPERATION_FAILED else Inr profiles)"


section \<open>Attributes of a profile\<close>

datatype VAEntrypoint = VAEntrypointVLD | VAEntrypointVideoProc | VAEntrypointOther nat

datatype VAConfigAttribType =
  VAConfigAttribRTFormat | VAConfigAttribMaxPictureWidth | VAConfigAttribMaxPictureHeight | VAConfigAttribOther nat

type_synonym VAConfigAttrib = "VAConfigAttribType \<times> u32"

abbreviation VA_RT_FORMAT_YUV420 :: u32 where "VA_RT_FORMAT_YUV420 \<equiv> 0x1"
abbreviation VA_RT_FORMAT_YUV444 :: u32 where "VA_RT_FORMAT_YUV444 \<equiv> 0x4"
abbreviation VA_RT_FORMAT_YUV420_10 :: u32 where "VA_RT_FORMAT_YUV420_10 \<equiv> 0x100"
abbreviation VA_RT_FORMAT_YUV444_10 :: u32 where "VA_RT_FORMAT_YUV444_10 \<equiv> 0x400"
abbreviation VA_RT_FORMAT_YUV420_12 :: u32 where "VA_RT_FORMAT_YUV420_12 \<equiv> 0x1000"
abbreviation VA_RT_FORMAT_YUV444_12 :: u32 where "VA_RT_FORMAT_YUV444_12 \<equiv> 0x4000"
abbreviation VA_RT_FORMAT_RGB32 :: u32 where "VA_RT_FORMAT_RGB32 \<equiv> 0x20000"

definition nvQueryConfigEntrypoints :: "bool \<Rightarrow> NVCaps \<Rightarrow> VAProfile \<Rightarrow> VAStatus + VAEntrypoint list" where
  "nvQueryConfigEntrypoints hasPointers drv profile =
     (if \<not> hasPointers then Inl VA_STATUS_ERROR_INVALID_PARAMETER
      else if \<not> driverSupportsProfile drv profile then Inl VA_STATUS_ERROR_UNSUPPORTED_PROFILE
      else if profile = VAProfileNone then Inr [VAEntrypointVideoProc]
      else Inr [VAEntrypointVLD])"

text \<open>The value that the \<open>switch\<close> with its falls through builds, and the bits that the driver's limits take out.\<close>

definition profile_rt_formats :: "VAProfile \<Rightarrow> u32" where
  "profile_rt_formats profile =
     (let yuv420_10 = VA_RT_FORMAT_YUV420_10;
          yuv420_12 = VA_RT_FORMAT_YUV420_12 OR yuv420_10;
          yuv444 = VA_RT_FORMAT_YUV444;
          yuv444_10 = VA_RT_FORMAT_YUV444_10 OR VA_RT_FORMAT_YUV420_10 OR yuv444;
          yuv444_12 = VA_RT_FORMAT_YUV444_12 OR VA_RT_FORMAT_YUV420_12 OR yuv444_10
      in VA_RT_FORMAT_YUV420 OR
         (case profile of
            VAProfileHEVCMain12 \<Rightarrow> yuv420_12 | VAProfileVP9Profile2 \<Rightarrow> yuv420_12
          | VAProfileHEVCMain10 \<Rightarrow> yuv420_10 | VAProfileAV1Profile0 \<Rightarrow> yuv420_10
          | VAProfileHEVCMain444_12 \<Rightarrow> yuv444_12 | VAProfileVP9Profile3 \<Rightarrow> yuv444_12
          | VAProfileHEVCMain444_10 \<Rightarrow> yuv444_10 | VAProfileAV1Profile1 \<Rightarrow> yuv444_10
          | VAProfileHEVCMain444 \<Rightarrow> yuv444 | VAProfileVP9Profile1 \<Rightarrow> yuv444
          | _ \<Rightarrow> 0))"

definition limit_rt_formats :: "NVCaps \<Rightarrow> u32 \<Rightarrow> u32" where
  "limit_rt_formats drv v =
     (let v = (if nd_supports16BitSurface drv then v
               else v AND NOT (VA_RT_FORMAT_YUV420_10 OR VA_RT_FORMAT_YUV420_12 OR VA_RT_FORMAT_YUV444_10 OR
                               VA_RT_FORMAT_YUV444_12))
      in if nd_supports444Surface drv then v
         else v AND NOT (VA_RT_FORMAT_YUV444 OR VA_RT_FORMAT_YUV444_10 OR VA_RT_FORMAT_YUV444_12))"

definition vpp_rt_formats :: "NVCaps \<Rightarrow> u32" where
  "vpp_rt_formats drv =
     VA_RT_FORMAT_YUV420 OR VA_RT_FORMAT_RGB32 OR (if nd_supports16BitSurface drv then VA_RT_FORMAT_YUV420_10 else 0)"

text \<open>
  The loop over the attributes: \<open>queried\<close> are the capabilities once they have been asked for. An
  error ends it with the attributes written so far.
\<close>

fun get_attributes ::
    "(VAStatus + CUVIDDECODECAPS) \<Rightarrow> u32 \<Rightarrow> VAConfigAttrib list \<Rightarrow> CUVIDDECODECAPS option \<Rightarrow>
     VAStatus \<times> VAConfigAttrib list" where
  "get_attributes ask rt [] queried = (VA_STATUS_SUCCESS, [])"
| "get_attributes ask rt ((type, v) # rest) queried =
     (let size = (\<lambda>sel.
        (case (case queried of Some c \<Rightarrow> Inr c | None \<Rightarrow> ask) of
           Inl status \<Rightarrow> (status, (type, v) # rest)
         | Inr c \<Rightarrow> (case get_attributes ask rt rest (Some c) of (status, out) \<Rightarrow> (status, (type, sel c) # out))))
      in case type of
           VAConfigAttribRTFormat \<Rightarrow>
             (case get_attributes ask rt rest queried of (status, out) \<Rightarrow> (status, (type, rt) # out))
         | VAConfigAttribMaxPictureWidth \<Rightarrow> size dc_nMaxWidth
         | VAConfigAttribMaxPictureHeight \<Rightarrow> size dc_nMaxHeight
         | VAConfigAttribOther _ \<Rightarrow>
             (case get_attributes ask rt rest queried of (status, out) \<Rightarrow> (status, (type, v) # out)))"

text \<open>\<open>attribs\<close> is \<open>None\<close> when \<open>num_attribs\<close> is negative or the pointer is missing.\<close>

definition nvGetConfigAttributes ::
    "NVCodecEntry list \<Rightarrow> decoder_caps \<Rightarrow> bool \<Rightarrow> bool \<Rightarrow> NVCaps \<Rightarrow> VAProfile \<Rightarrow> VAEntrypoint \<Rightarrow>
     VAConfigAttrib list option \<Rightarrow> VAStatus \<times> VAConfigAttrib list" where
  "nvGetConfigAttributes codecs caps push pop drv profile entrypoint attribs =
     (case attribs of
        None \<Rightarrow> (VA_STATUS_ERROR_INVALID_PARAMETER, [])
      | Some attrib_list \<Rightarrow>
          if entrypoint = VAEntrypointVideoProc \<and> profile = VAProfileNone
          then (VA_STATUS_SUCCESS,
                map (\<lambda>(type, v). (type, if type = VAConfigAttribRTFormat then vpp_rt_formats drv else v)) attrib_list)
          else if entrypoint \<noteq> VAEntrypointVLD then (VA_STATUS_ERROR_UNSUPPORTED_ENTRYPOINT, attrib_list)
          else if \<not> driverSupportsProfile drv profile \<or> vaToCuCodec codecs profile = cudaVideoCodec_NONE
          then (VA_STATUS_ERROR_UNSUPPORTED_PROFILE, attrib_list)
          else get_attributes (queryProfileDecodeCaps codecs caps push pop profile)
                 (limit_rt_formats drv (profile_rt_formats profile)) attrib_list None)"

section \<open>Configurations\<close>

record NVConfig =
  nf_profile :: VAProfile
  nf_entrypoint :: VAEntrypoint
  nf_surfaceFormat :: int
  nf_chromaFormat :: int
  nf_bitDepth :: int
  nf_cudaCodec :: cudaVideoCodec

text \<open>The value of the first attribute of that type; 0 when there is none.\<close>

fun requested_rt_format :: "VAConfigAttrib list \<Rightarrow> u32" where
  "requested_rt_format [] = 0"
| "requested_rt_format ((type, v) # rest) = (if type = VAConfigAttribRTFormat then v else requested_rt_format rest)"

definition set_format :: "int \<Rightarrow> int \<Rightarrow> NVConfig \<Rightarrow> NVConfig" where
  "set_format surfaceFormat bitDepth cfg = cfg\<lparr>nf_surfaceFormat := surfaceFormat, nf_bitDepth := bitDepth\<rparr>"

definition set_format444 :: "int \<Rightarrow> int \<Rightarrow> NVConfig \<Rightarrow> NVConfig" where
  "set_format444 surfaceFormat bitDepth cfg =
     cfg\<lparr>nf_surfaceFormat := surfaceFormat, nf_chromaFormat := cudaVideoChromaFormat_444, nf_bitDepth := bitDepth\<rparr>"

text \<open>The three \<open>switch\<close> statements that choose the surface format, one after the other.\<close>

definition choose_16bit :: "u32 \<Rightarrow> NVConfig \<Rightarrow> NVConfig" where
  "choose_16bit rtFormat cfg =
     (let by_format =
        (if rtFormat \<noteq> 0
         then if rtFormat AND VA_RT_FORMAT_YUV420_12 \<noteq> 0 then set_format cudaVideoSurfaceFormat_P016 12 cfg
              else if rtFormat AND VA_RT_FORMAT_YUV420_10 \<noteq> 0 then set_format cudaVideoSurfaceFormat_P016 10 cfg
              else cfg
         else if nf_profile cfg = VAProfileVP9Profile2 then set_format cudaVideoSurfaceFormat_P016 10 cfg
         else cfg)
      in case nf_profile cfg of
           VAProfileHEVCMain10 \<Rightarrow> set_format cudaVideoSurfaceFormat_P016 10 cfg
         | VAProfileHEVCMain12 \<Rightarrow> set_format cudaVideoSurfaceFormat_P016 12 cfg
         | VAProfileVP9Profile2 \<Rightarrow> by_format
         | VAProfileAV1Profile0 \<Rightarrow> by_format
         | _ \<Rightarrow> cfg)"

definition choose_444 :: "NVConfig \<Rightarrow> NVConfig" where
  "choose_444 cfg =
     (if nf_profile cfg \<in> {VAProfileHEVCMain444, VAProfileVP9Profile1, VAProfileAV1Profile1}
      then set_format444 cudaVideoSurfaceFormat_YUV444 8 cfg else cfg)"

definition choose_444_16bit :: "u32 \<Rightarrow> NVConfig \<Rightarrow> NVConfig" where
  "choose_444_16bit rtFormat cfg =
     (let by_format =
        (if rtFormat \<noteq> 0
         then if rtFormat AND VA_RT_FORMAT_YUV444_12 \<noteq> 0 then set_format444 cudaVideoSurfaceFormat_YUV444_16Bit 12 cfg
              else if rtFormat AND VA_RT_FORMAT_YUV444_10 \<noteq> 0 then set_format444 cudaVideoSurfaceFormat_YUV444_16Bit 10 cfg
              else if rtFormat AND VA_RT_FORMAT_YUV444 \<noteq> 0 then set_format444 cudaVideoSurfaceFormat_YUV444 8 cfg
              else cfg
         else if nf_profile cfg = VAProfileVP9Profile3 then set_format444 cudaVideoSurfaceFormat_YUV444_16Bit 10 cfg
         else cfg)
      in case nf_profile cfg of
           VAProfileHEVCMain444_10 \<Rightarrow> set_format444 cudaVideoSurfaceFormat_YUV444_16Bit 10 cfg
         | VAProfileHEVCMain444_12 \<Rightarrow> set_format444 cudaVideoSurfaceFormat_YUV444_16Bit 12 cfg
         | VAProfileVP9Profile3 \<Rightarrow> by_format
         | VAProfileAV1Profile1 \<Rightarrow> by_format
         | _ \<Rightarrow> cfg)"

definition decode_config :: "NVCaps \<Rightarrow> VAProfile \<Rightarrow> VAEntrypoint \<Rightarrow> cudaVideoCodec \<Rightarrow> u32 \<Rightarrow> NVConfig" where
  "decode_config drv profile entrypoint cudaCodec rtFormat =
     (let cfg = \<lparr>nf_profile = profile, nf_entrypoint = entrypoint, nf_surfaceFormat = cudaVideoSurfaceFormat_NV12,
                 nf_chromaFormat = cudaVideoChromaFormat_420, nf_bitDepth = 8, nf_cudaCodec = cudaCodec\<rparr>;
          cfg = (if nd_supports16BitSurface drv then choose_16bit rtFormat cfg else cfg);
          cfg = (if nd_supports444Surface drv then choose_444 cfg else cfg)
      in if nd_supports444Surface drv \<and> nd_supports16BitSurface drv then choose_444_16bit rtFormat cfg else cfg)"

definition vpp_config :: "VAProfile \<Rightarrow> VAEntrypoint \<Rightarrow> NVConfig" where
  "vpp_config profile entrypoint =
     \<lparr>nf_profile = profile, nf_entrypoint = entrypoint, nf_surfaceFormat = cudaVideoSurfaceFormat_NV12,
      nf_chromaFormat = cudaVideoChromaFormat_420, nf_bitDepth = 8, nf_cudaCodec = cudaVideoCodec_NONE\<rparr>"

text \<open>The configurations by address, beside the objects.\<close>

record VaConfigs =
  cs_objects :: VaObjects
  cs_configs :: "nat \<Rightarrow> NVConfig"

abbreviation sizeof_NVConfig :: usize where "sizeof_NVConfig \<equiv> 24"

definition new_config :: "va_alloc \<Rightarrow> NVConfig \<Rightarrow> VaConfigs \<Rightarrow> VAStatus \<times> u32 \<times> VaConfigs" where
  "new_config al cfg st =
     (case allocateObject al (al_payload al) OBJECT_TYPE_CONFIG sizeof_NVConfig (cs_objects st) of
        (None, d) \<Rightarrow> (VA_STATUS_ERROR_ALLOCATION_FAILED, VA_INVALID_ID, st\<lparr>cs_objects := d\<rparr>)
      | (Some obj, d) \<Rightarrow>
          (VA_STATUS_SUCCESS, obj_id obj,
           st\<lparr>cs_objects := d, cs_configs := (cs_configs st)(al_payload al := cfg)\<rparr>))"

definition nvCreateConfig ::
    "va_alloc \<Rightarrow> NVCodecEntry list \<Rightarrow> NVCaps \<Rightarrow> VAProfile \<Rightarrow> VAEntrypoint \<Rightarrow> VAConfigAttrib list \<Rightarrow> bool \<Rightarrow> VaConfigs \<Rightarrow>
     VAStatus \<times> u32 \<times> VaConfigs" where
  "nvCreateConfig al codecs drv profile entrypoint attrib_list hasConfigId st =
     (if \<not> hasConfigId then (VA_STATUS_ERROR_INVALID_PARAMETER, VA_INVALID_ID, st)
      else
        let cudaCodec = vaToCuCodec codecs profile
        in if entrypoint = VAEntrypointVideoProc \<and> profile = VAProfileNone
           then new_config al (vpp_config profile entrypoint) st
           else if \<not> driverSupportsProfile drv profile
           then (VA_STATUS_ERROR_UNSUPPORTED_PROFILE, VA_INVALID_ID, st)
           else if cudaCodec = cudaVideoCodec_NONE
           then (VA_STATUS_ERROR_UNSUPPORTED_PROFILE, VA_INVALID_ID, st)
           else if entrypoint \<noteq> VAEntrypointVLD
           then (VA_STATUS_ERROR_UNSUPPORTED_ENTRYPOINT, VA_INVALID_ID, st)
           else new_config al (decode_config drv profile entrypoint cudaCodec (requested_rt_format attrib_list)) st)"

definition deleteObjectTyped :: "u8 \<Rightarrow> u32 \<Rightarrow> VaObjects \<Rightarrow> bool \<times> VaObjects" where
  "deleteObjectTyped type i d =
     (if i = VA_INVALID_ID then (False, d)
      else case nvdObjectTableRemoveTyped (vo_table d) type i of (object, t) \<Rightarrow> (object \<noteq> None, d\<lparr>vo_table := t\<rparr>))"

definition nvDestroyConfig :: "u32 \<Rightarrow> VaConfigs \<Rightarrow> VAStatus \<times> VaConfigs" where
  "nvDestroyConfig config_id st =
     (case deleteObjectTyped OBJECT_TYPE_CONFIG config_id (cs_objects st) of
        (deleted, d) \<Rightarrow>
          (if deleted then VA_STATUS_SUCCESS else VA_STATUS_ERROR_INVALID_CONFIG, st\<lparr>cs_objects := d\<rparr>))"

text \<open>\<open>Inr\<close>: the profile, the entry point and the list with one attribute.\<close>

definition nvQueryConfigAttributes ::
    "NVCaps \<Rightarrow> bool \<Rightarrow> u32 \<Rightarrow> VaConfigs \<Rightarrow> VAStatus + VAProfile \<times> VAEntrypoint \<times> VAConfigAttrib list" where
  "nvQueryConfigAttributes drv hasPointers config_id st =
     (if \<not> hasPointers then Inl VA_STATUS_ERROR_INVALID_PARAMETER
      else case getObjectPtr OBJECT_TYPE_CONFIG config_id (cs_objects st) of
             None \<Rightarrow> Inl VA_STATUS_ERROR_INVALID_CONFIG
           | Some p \<Rightarrow>
               let cfg = cs_configs st p
               in if nf_entrypoint cfg = VAEntrypointVideoProc
                  then Inr (nf_profile cfg, nf_entrypoint cfg, [(VAConfigAttribRTFormat, vpp_rt_formats drv)])
                  else Inr (nf_profile cfg, nf_entrypoint cfg,
                            [(VAConfigAttribRTFormat, limit_rt_formats drv (profile_rt_formats (nf_profile cfg)))]))"

end
