(* ===== verification/ConfigProps.thy ===== *)
theory ConfigProps
  imports Config VaProps
begin

text \<open>
  What holds of profiles and configurations: one codec serves a profile whatever order the linker
  puts the codecs in, the list of profiles is the filtered list of candidates, and a configuration has a surface
  format that the driver announces for its profile.
\<close>

section \<open>One codec for a profile\<close>

lemma vaToCuCodec_unique:
  "(\<And>c. c \<in> set cs \<Longrightarrow> nc_computeCudaCodec c p \<noteq> cudaVideoCodec_NONE \<Longrightarrow> nc_computeCudaCodec c p = x) \<Longrightarrow>
   vaToCuCodec cs p = (if \<exists>c \<in> set cs. nc_computeCudaCodec c p \<noteq> cudaVideoCodec_NONE then x else cudaVideoCodec_NONE)"
  by (induction cs) (auto simp: Let_def)

lemma select_codec_Some:
  "select_codec cs p s = Some c \<Longrightarrow> s = Some c \<or> c \<in> set cs \<and> p \<in> set (nc_supportedProfiles c)"
  by (induction cs arbitrary: s) (fastforce split: if_splits)+

lemma select_codec_None:
  "select_codec cs p s = None \<longleftrightarrow> s = None \<and> (\<forall>c \<in> set cs. p \<notin> set (nc_supportedProfiles c))"
  by (induction cs arbitrary: s) auto

lemmas codec_tables =
  nvd_codecs_def computeH264CudaCodec_def computeHEVCCudaCodec_def computeMPEG2CudaCodec_def computeVC1CudaCodec_def
  computeVP8CudaCodec_def computeVP9CudaCodec_def computeAV1CudaCodec_def computeJPEGCudaCodec_def
  h264SupportedProfiles_def hevcSupportedProfiles_def mpeg2SupportedProfiles_def vc1SupportedProfiles_def
  vp8SupportedProfiles_def vp9SupportedProfiles_def av1SupportedProfiles_def jpegSupportedProfiles_def

text \<open>A codec of the section answers for exactly the profiles that it lists.\<close>

lemma nvd_codecs_agree:
  "c \<in> set nvd_codecs \<Longrightarrow> nc_computeCudaCodec c p \<noteq> cudaVideoCodec_NONE \<longleftrightarrow> p \<in> set (nc_supportedProfiles c)"
  by (cases p) (auto simp: codec_tables)

lemma nvd_codecs_value:
  "c \<in> set nvd_codecs \<Longrightarrow> nc_computeCudaCodec c p \<noteq> cudaVideoCodec_NONE \<Longrightarrow> nc_computeCudaCodec c p = vaToCuCodec nvd_codecs p"
  by (cases p) (auto simp: codec_tables)


text \<open>Whatever order the linker gives the codecs, a profile has the same decoder; the codec whose handlers
  a context of that profile runs decodes with it, and exactly the profiles that some codec lists have one.\<close>

theorem codec_of_profile:
  assumes "set codecs = set nvd_codecs"
  shows "vaToCuCodec codecs profile = vaToCuCodec nvd_codecs profile \<and>
    (vaToCuCodec codecs profile \<noteq> cudaVideoCodec_NONE \<longleftrightarrow> select_codec codecs profile None \<noteq> None) \<and>
    (\<forall>c. select_codec codecs profile None = Some c \<longrightarrow>
      c \<in> set codecs \<and> nc_computeCudaCodec c profile = vaToCuCodec codecs profile)"
proof -
  let ?x = "vaToCuCodec nvd_codecs profile"
  have v: "vaToCuCodec codecs profile =
      (if \<exists>c \<in> set codecs. nc_computeCudaCodec c profile \<noteq> cudaVideoCodec_NONE then ?x else cudaVideoCodec_NONE)"
    "?x = (if \<exists>c \<in> set nvd_codecs. nc_computeCudaCodec c profile \<noteq> cudaVideoCodec_NONE then ?x else cudaVideoCodec_NONE)"
    by (rule vaToCuCodec_unique; use nvd_codecs_value assms in simp)+
  then have e: "vaToCuCodec codecs profile = ?x" unfolding assms by simp
  have some: "?x \<noteq> cudaVideoCodec_NONE \<longleftrightarrow> (\<exists>c \<in> set codecs. profile \<in> set (nc_supportedProfiles c))"
    using v(2) nvd_codecs_agree [of _ profile] nvd_codecs_value [of _ profile] assms by metis
  have "c \<in> set codecs \<and> nc_computeCudaCodec c profile = ?x" if "select_codec codecs profile None = Some c" for c
    using select_codec_Some [OF that] nvd_codecs_agree nvd_codecs_value assms by auto
  then show ?thesis using e some select_codec_None [of codecs profile None] by auto
qed

lemma codec_of_profile_witness:
  "vaToCuCodec (rev nvd_codecs) VAProfileVP9Profile2 = cudaVideoCodec_VP9 \<and>
   select_codec (rev nvd_codecs) VAProfileVP9Profile2 None \<noteq> None"
proof -
  have x: "vaToCuCodec nvd_codecs VAProfileVP9Profile2 = cudaVideoCodec_VP9" by (simp add: codec_tables)
  have "cudaVideoCodec_VP9 \<noteq> cudaVideoCodec_NONE" by simp
  then show ?thesis using codec_of_profile [of "rev nvd_codecs" VAProfileVP9Profile2] unfolding x by (metis set_rev)
qed

section \<open>The list of profiles\<close>

lemma move_down_nth:
  "m < length xs \<Longrightarrow> j < length xs \<Longrightarrow> move_entries_down xs [i..<m] ! j = (if i \<le> j \<and> j < m then xs ! Suc j else xs ! j)"
proof (induction "m - i" arbitrary: xs i)
  case (Suc k)
  then have i: "i < m" by simp
  have "move_entries_down xs [i..<m] = move_entries_down (xs[i := xs ! Suc i]) [Suc i..<m]" by (simp add: upt_conv_Cons i)
  moreover have "move_entries_down (xs[i := xs ! Suc i]) [Suc i..<m] ! j =
      (if Suc i \<le> j \<and> j < m then xs[i := xs ! Suc i] ! Suc j else xs[i := xs ! Suc i] ! j)"
    using Suc.hyps(2) Suc.prems by (intro Suc.hyps(1)) simp_all
  ultimately show ?case using i Suc.prems by (auto simp: nth_list_update)
qed auto

lemma move_down_removes:
  assumes "i < length xs"
  shows "take (length xs - 1) (move_entries_down xs [i..<length xs - 1]) = take i xs @ drop (Suc i) xs"
proof (rule nth_equalityI)
  fix j assume j: "j < length (take (length xs - 1) (move_entries_down xs [i..<length xs - 1]))"
  then have j': "j < length xs - 1" by simp
  have "move_entries_down xs [i..<length xs - 1] ! j = (if i \<le> j \<and> j < length xs - 1 then xs ! Suc j else xs ! j)"
    by (rule move_down_nth) (use assms j' in linarith)+
  then show "take (length xs - 1) (move_entries_down xs [i..<length xs - 1]) ! j = (take i xs @ drop (Suc i) xs) ! j"
    using assms j' by (simp add: nth_append)
qed (use assms in simp)

lemma filter_profiles_filter:
  "filter_profiles supported xs i = take i xs @ filter supported (drop i xs)"
proof (induction supported xs i rule: filter_profiles.induct)
  case (1 supported xs i)
  show ?case
  proof (cases "i < length xs")
    case True
    have d: "drop i xs = xs ! i # drop (Suc i) xs" using True by (simp add: Cons_nth_drop_Suc)
    have t: "take (Suc i) xs = take i xs @ [xs ! i]" using True by (rule take_Suc_conv_app_nth)
    note removed = move_down_removes [OF True, unfolded One_nat_def]
    show ?thesis
    proof (cases "supported (xs ! i)")
      case False
      then have "filter_profiles supported xs i = filter_profiles supported (take i xs @ drop (Suc i) xs) i"
        using True by (subst filter_profiles.simps) (simp add: removed)
      also have "\<dots> = take i xs @ filter supported (drop (Suc i) xs)"
        using 1(1) [OF True False] True by (simp add: removed)
      finally show ?thesis using False by (simp add: d)
    next
      case sup: True
      have "filter_profiles supported xs i = filter_profiles supported xs (Suc i)"
        using True sup by (subst filter_profiles.simps) simp
      then show ?thesis using 1(2) [OF True] sup by (simp add: d t)
    qed
  qed (subst filter_profiles.simps, simp)
qed

lemma length_if: "length xs \<le> n \<Longrightarrow> length (if b then xs else []) \<le> n"
  by simp

lemma candidates_length: "length (candidate_profiles caps s16 s444) \<le> 27"
proof -
  have "length (candidate_profiles caps s16 s444) \<le>
      2 + (3 + (3 + (3 + (1 + (1 + (1 + (1 + (1 + (1 + (1 + ((1 + (1 + 1)) + (1 + (1 + (1 + (1 + (1 + 1))))))))))))))))"
    unfolding candidate_profiles_def Let_def length_append
    by (intro add_mono length_if) (simp_all add: length_if del: One_nat_def)
  then show ?thesis by simp
qed

text \<open>C32. The list of profiles is the list of candidates without those that no codec decodes, whatever the
  order of the codecs, followed by the video processing profile; it fits the 32 entries of the array, also
  before the filter runs. The loop with its shifting of entries always ends.\<close>

theorem profile_list_filtered:
  assumes "nvQueryConfigProfiles2 codecs caps push pop s16 s444 = Inr profiles"
  shows "profiles = filter (\<lambda>p. vaToCuCodec codecs p \<noteq> cudaVideoCodec_NONE) (candidate_profiles caps s16 s444) @ [VAProfileNone] \<and>
    length (candidate_profiles caps s16 s444) \<le> 32 \<and> length profiles \<le> 32"
proof -
  have p: "profiles = filter (\<lambda>p. vaToCuCodec codecs p \<noteq> cudaVideoCodec_NONE) (candidate_profiles caps s16 s444) @ [VAProfileNone]"
    using assms by (auto simp: nvQueryConfigProfiles2_def filter_profiles_filter Let_def split: if_splits)
  have l: "length (filter (\<lambda>p. vaToCuCodec codecs p \<noteq> cudaVideoCodec_NONE) (candidate_profiles caps s16 s444)) \<le> 27"
    by (rule order_trans [OF length_filter_le candidates_length])
  then have "length profiles \<le> 28" unfolding p by (simp del: length_filter_le)
  then show ?thesis using p candidates_length [of caps s16 s444] by linarith
qed

lemma profile_list_filtered_witness:
  "\<exists>profiles. nvQueryConfigProfiles2 nvd_codecs (\<lambda>codec depth chroma. if codec = cudaVideoCodec_VC1 \<or> codec = cudaVideoCodec_MPEG4
      then Some \<lparr>dc_bIsSupported = True, dc_nMaxWidth = 2048, dc_nMaxHeight = 1024\<rparr> else None) True True False False = Inr profiles \<and>
    profiles = [VAProfileVC1Simple, VAProfileVC1Main, VAProfileVC1Advanced, VAProfileNone]"
proof -
  let ?caps = "\<lambda>codec depth chroma. if codec = cudaVideoCodec_VC1 \<or> codec = cudaVideoCodec_MPEG4
      then Some \<lparr>dc_bIsSupported = True, dc_nMaxWidth = 2048, dc_nMaxHeight = 1024\<rparr> else None"
  obtain ps where ps: "nvQueryConfigProfiles2 nvd_codecs ?caps True True False False = Inr ps"
    by (simp add: nvQueryConfigProfiles2_def Let_def)
  have "ps = filter (\<lambda>p. vaToCuCodec nvd_codecs p \<noteq> cudaVideoCodec_NONE) (candidate_profiles ?caps False False) @ [VAProfileNone]"
    using profile_list_filtered [OF ps] by blast
  also have "candidate_profiles ?caps False False = [VAProfileMPEG4Simple, VAProfileMPEG4AdvancedSimple, VAProfileMPEG4Main,
      VAProfileVC1Simple, VAProfileVC1Main, VAProfileVC1Advanced]"
    by (simp add: candidate_profiles_def Let_def doesGPUSupportCodec_def)
  finally show ?thesis using ps by (simp add: codec_tables)
qed


section \<open>The format of a configuration\<close>

text \<open>The surface formats that a configuration may have, and the RT format bit that each belongs to.\<close>

definition config_rt_format :: "NVConfig \<Rightarrow> u32 option" where
  "config_rt_format cfg =
     map_of [((cudaVideoSurfaceFormat_NV12, cudaVideoChromaFormat_420, 8), VA_RT_FORMAT_YUV420),
             ((cudaVideoSurfaceFormat_P016, cudaVideoChromaFormat_420, 10), VA_RT_FORMAT_YUV420_10),
             ((cudaVideoSurfaceFormat_P016, cudaVideoChromaFormat_420, 12), VA_RT_FORMAT_YUV420_12),
             ((cudaVideoSurfaceFormat_YUV444, cudaVideoChromaFormat_444, 8), VA_RT_FORMAT_YUV444),
             ((cudaVideoSurfaceFormat_YUV444_16Bit, cudaVideoChromaFormat_444, 10), VA_RT_FORMAT_YUV444_10),
             ((cudaVideoSurfaceFormat_YUV444_16Bit, cudaVideoChromaFormat_444, 12), VA_RT_FORMAT_YUV444_12)]
       (nf_surfaceFormat cfg, nf_chromaFormat cfg, nf_bitDepth cfg)"

lemma config_rt_format_simps:
  "config_rt_format \<lparr>nf_profile = p, nf_entrypoint = e, nf_surfaceFormat = 0, nf_chromaFormat = 1, nf_bitDepth = 8, nf_cudaCodec = c\<rparr> = Some VA_RT_FORMAT_YUV420"
  "config_rt_format \<lparr>nf_profile = p, nf_entrypoint = e, nf_surfaceFormat = 1, nf_chromaFormat = 1, nf_bitDepth = 10, nf_cudaCodec = c\<rparr> = Some VA_RT_FORMAT_YUV420_10"
  "config_rt_format \<lparr>nf_profile = p, nf_entrypoint = e, nf_surfaceFormat = 1, nf_chromaFormat = 1, nf_bitDepth = 12, nf_cudaCodec = c\<rparr> = Some VA_RT_FORMAT_YUV420_12"
  "config_rt_format \<lparr>nf_profile = p, nf_entrypoint = e, nf_surfaceFormat = 2, nf_chromaFormat = 3, nf_bitDepth = 8, nf_cudaCodec = c\<rparr> = Some VA_RT_FORMAT_YUV444"
  "config_rt_format \<lparr>nf_profile = p, nf_entrypoint = e, nf_surfaceFormat = 3, nf_chromaFormat = 3, nf_bitDepth = 10, nf_cudaCodec = c\<rparr> = Some VA_RT_FORMAT_YUV444_10"
  "config_rt_format \<lparr>nf_profile = p, nf_entrypoint = e, nf_surfaceFormat = 3, nf_chromaFormat = 3, nf_bitDepth = 12, nf_cudaCodec = c\<rparr> = Some VA_RT_FORMAT_YUV444_12"
  by (simp_all add: config_rt_format_def)

lemma and_subset:
  fixes r v m :: u32
  assumes "r AND NOT v = 0" "r AND m \<noteq> 0"
  shows "m AND v \<noteq> 0"
proof
  assume mv: "m AND v = 0"
  have "r AND m = 0"
  proof (rule bit_eqI)
    fix n
    have "\<not> (bit r n \<and> n < 32 \<and> \<not> bit v n)" using arg_cong [OF assms(1), of "\<lambda>w. bit w n"] by (simp add: bit_simps)
    moreover have "\<not> (bit m n \<and> bit v n)" using arg_cong [OF mv, of "\<lambda>w. bit w n"] by (simp add: bit_simps)
    moreover have "bit r n \<Longrightarrow> n < 32" using bit_imp_le_length [of r n] by simp
    ultimately show "bit (r AND m) n = bit (0 :: u32) n" by (auto simp: bit_simps)
  qed
  then show False using assms(2) by simp
qed

text \<open>The format that the three choices arrive at is announced, if the request was.\<close>

lemma decode_config_announced:
  assumes "rt AND NOT (limit_rt_formats drv (profile_rt_formats p)) = 0"
  shows "\<exists>f. config_rt_format (decode_config drv p e c rt) = Some f \<and> f AND limit_rt_formats drv (profile_rt_formats p) \<noteq> 0"
  using and_subset [OF assms, of VA_RT_FORMAT_YUV420_12] and_subset [OF assms, of VA_RT_FORMAT_YUV444_12]
    and_subset [OF assms, of VA_RT_FORMAT_YUV420_10] and_subset [OF assms, of VA_RT_FORMAT_YUV444_10]
    and_subset [OF assms, of VA_RT_FORMAT_YUV444]
  apply (cases "nd_supports16BitSurface drv"; cases "nd_supports444Surface drv"; cases p)
  apply (auto simp: decode_config_def choose_16bit_def choose_444_def choose_444_16bit_def set_format_def set_format444_def
      Let_def config_rt_format_simps limit_rt_formats_def profile_rt_formats_def)
  done


abbreviation config_tuple :: "NVConfig \<Rightarrow> int \<times> int \<times> int" where
  "config_tuple cfg \<equiv> (nf_surfaceFormat cfg, nf_chromaFormat cfg, nf_bitDepth cfg)"

lemma choices:
  "config_tuple (choose_16bit rt cfg) \<in> {config_tuple cfg, (cudaVideoSurfaceFormat_P016, nf_chromaFormat cfg, 10),
     (cudaVideoSurfaceFormat_P016, nf_chromaFormat cfg, 12)}"
  "config_tuple (choose_444 cfg) \<in> {config_tuple cfg, (cudaVideoSurfaceFormat_YUV444, cudaVideoChromaFormat_444, 8)}"
  "config_tuple (choose_444_16bit rt cfg) \<in>
     {config_tuple cfg, (cudaVideoSurfaceFormat_YUV444, cudaVideoChromaFormat_444, 8),
      (cudaVideoSurfaceFormat_YUV444_16Bit, cudaVideoChromaFormat_444, 10),
      (cudaVideoSurfaceFormat_YUV444_16Bit, cudaVideoChromaFormat_444, 12)}"
  by (simp_all add: choose_16bit_def choose_444_def choose_444_16bit_def set_format_def set_format444_def Let_def
      split: VAProfile.split)

lemma config_rt_format_tuple:
  assumes "config_tuple cfg \<in> {(cudaVideoSurfaceFormat_NV12, cudaVideoChromaFormat_420, 8),
    (cudaVideoSurfaceFormat_P016, cudaVideoChromaFormat_420, 10), (cudaVideoSurfaceFormat_P016, cudaVideoChromaFormat_420, 12),
    (cudaVideoSurfaceFormat_YUV444, cudaVideoChromaFormat_444, 8), (cudaVideoSurfaceFormat_YUV444_16Bit, cudaVideoChromaFormat_444, 10),
    (cudaVideoSurfaceFormat_YUV444_16Bit, cudaVideoChromaFormat_444, 12)}"
  shows "\<exists>f. config_rt_format cfg = Some f"
  using assms by (auto simp: config_rt_format_def)

lemma decode_config_typed: "\<exists>f. config_rt_format (decode_config drv p e c rt) = Some f"
proof -
  define c0 where "c0 = \<lparr>nf_profile = p, nf_entrypoint = e, nf_surfaceFormat = cudaVideoSurfaceFormat_NV12,
    nf_chromaFormat = cudaVideoChromaFormat_420, nf_bitDepth = 8, nf_cudaCodec = c\<rparr>"
  define c1 where "c1 = (if nd_supports16BitSurface drv then choose_16bit rt c0 else c0)"
  define c2 where "c2 = (if nd_supports444Surface drv then choose_444 c1 else c1)"
  define c3 where "c3 = (if nd_supports444Surface drv \<and> nd_supports16BitSurface drv then choose_444_16bit rt c2 else c2)"
  have d: "decode_config drv p e c rt = c3"
    unfolding decode_config_def Let_def c3_def c2_def c1_def c0_def by (rule refl)
  have t0: "config_tuple c0 = (cudaVideoSurfaceFormat_NV12, cudaVideoChromaFormat_420, 8)" by (simp add: c0_def)
  have t1: "config_tuple c1 \<in> {config_tuple c0, (cudaVideoSurfaceFormat_P016, cudaVideoChromaFormat_420, 10),
      (cudaVideoSurfaceFormat_P016, cudaVideoChromaFormat_420, 12)}"
    using choices(1) [of rt c0] t0 unfolding c1_def by (cases "nd_supports16BitSurface drv") simp_all
  have t2: "config_tuple c2 \<in> {config_tuple c1, (cudaVideoSurfaceFormat_YUV444, cudaVideoChromaFormat_444, 8)}"
    using choices(2) [of c1] unfolding c2_def by (cases "nd_supports444Surface drv") simp_all
  have t3: "config_tuple c3 \<in> {config_tuple c2, (cudaVideoSurfaceFormat_YUV444, cudaVideoChromaFormat_444, 8),
      (cudaVideoSurfaceFormat_YUV444_16Bit, cudaVideoChromaFormat_444, 10),
      (cudaVideoSurfaceFormat_YUV444_16Bit, cudaVideoChromaFormat_444, 12)}"
    using choices(3) [of rt c2] unfolding c3_def
    by (cases "nd_supports444Surface drv \<and> nd_supports16BitSurface drv") simp_all
  have chain: "x3 \<in> {x2, d, e, f} \<Longrightarrow> x2 \<in> {x1, d} \<Longrightarrow> x1 \<in> {a, b, c} \<Longrightarrow> x3 \<in> {a, b, c, d, e, f}"
    for x1 x2 x3 a b c d e f :: "int \<times> int \<times> int" by blast
  show ?thesis unfolding d by (rule config_rt_format_tuple) (rule chain [OF t3 t2 t1 [unfolded t0]])
qed

lemma choice_fields [simp]:
  "nf_profile (choose_16bit rt cfg) = nf_profile cfg" "nf_entrypoint (choose_16bit rt cfg) = nf_entrypoint cfg"
  "nf_cudaCodec (choose_16bit rt cfg) = nf_cudaCodec cfg"
  "nf_profile (choose_444 cfg) = nf_profile cfg" "nf_entrypoint (choose_444 cfg) = nf_entrypoint cfg"
  "nf_cudaCodec (choose_444 cfg) = nf_cudaCodec cfg"
  "nf_profile (choose_444_16bit rt cfg) = nf_profile cfg" "nf_entrypoint (choose_444_16bit rt cfg) = nf_entrypoint cfg"
  "nf_cudaCodec (choose_444_16bit rt cfg) = nf_cudaCodec cfg"
  by (simp_all add: choose_16bit_def choose_444_def choose_444_16bit_def set_format_def set_format444_def Let_def
      split: VAProfile.split)

lemma decode_config_fields:
  "nf_profile (decode_config drv p e c rt) = p" "nf_entrypoint (decode_config drv p e c rt) = e"
  "nf_cudaCodec (decode_config drv p e c rt) = c"
  by (simp_all add: decode_config_def Let_def)

lemma new_config_result:
  assumes "table_ok (vo_table (cs_objects st))" "new_config al cfg st = (VA_STATUS_SUCCESS, i, st')"
  shows "getObjectPtr OBJECT_TYPE_CONFIG i (cs_objects st') = Some (al_payload al) \<and> cs_configs st' (al_payload al) = cfg"
proof -
  obtain ob d where a: "allocateObject al (al_payload al) OBJECT_TYPE_CONFIG sizeof_NVConfig (cs_objects st) = (Some ob, d)"
    "i = obj_id ob" "st' = st\<lparr>cs_objects := d, cs_configs := (cs_configs st)(al_payload al := cfg)\<rparr>"
    using assms(2) by (auto simp: new_config_def split: prod.splits option.splits)
  obtain t where t: "d = (cs_objects st)\<lparr>vo_table := t\<rparr>" "obj_type ob = OBJECT_TYPE_CONFIG" "obj_payload ob = Some (al_payload al)"
    "obj_id ob \<noteq> VA_INVALID_ID" "\<not> vo_terminating (cs_objects st)"
    "\<forall>j. tab_find t j = (if same_id j (obj_id ob) then Some ob else tab_find (vo_table (cs_objects st)) j)"
    using allocateObject_some [OF assms(1) a(1)] by auto
  have "getObjectPtr OBJECT_TYPE_CONFIG (obj_id ob) d = obj_payload ob"
    by (rule getObjectPtr_find) (use t in simp_all)
  then show ?thesis using a(2,3) t(3) by simp
qed

text \<open>C7. The configuration that a decoding \<open>vaCreateConfig\<close> creates is found under the ID that it returns,
  has the profile, the entry point and the codec of the request and one of the six surface formats that go
  together. If the requested RT formats are among those that the driver announces for the profile, so is the
  format of the configuration; and \<open>vaQueryConfigAttributes\<close> reports what \<open>vaGetConfigAttributes\<close> announced.\<close>

theorem created_config_well_typed:
  assumes "table_ok (vo_table (cs_objects st))"
    and "nvCreateConfig al codecs drv p VAEntrypointVLD attribs True st = (VA_STATUS_SUCCESS, i, st')"
  shows "\<exists>c f. getObjectPtr OBJECT_TYPE_CONFIG i (cs_objects st') = Some c \<and>
    nf_profile (cs_configs st' c) = p \<and> nf_entrypoint (cs_configs st' c) = VAEntrypointVLD \<and>
    nf_cudaCodec (cs_configs st' c) = vaToCuCodec codecs p \<and> vaToCuCodec codecs p \<noteq> cudaVideoCodec_NONE \<and>
    config_rt_format (cs_configs st' c) = Some f \<and>
    (requested_rt_format attribs AND NOT (limit_rt_formats drv (profile_rt_formats p)) = 0 \<longrightarrow>
      f AND limit_rt_formats drv (profile_rt_formats p) \<noteq> 0) \<and>
    (\<exists>v. nvGetConfigAttributes codecs caps push pop drv p VAEntrypointVLD (Some [(VAConfigAttribRTFormat, x)]) =
           (VA_STATUS_SUCCESS, [(VAConfigAttribRTFormat, v)]) \<and>
         nvQueryConfigAttributes drv True i st' = Inr (p, VAEntrypointVLD, [(VAConfigAttribRTFormat, v)]))"
proof -
  let ?cfg = "decode_config drv p VAEntrypointVLD (vaToCuCodec codecs p) (requested_rt_format attribs)"
  have c: "driverSupportsProfile drv p" "vaToCuCodec codecs p \<noteq> cudaVideoCodec_NONE"
    "new_config al ?cfg st = (VA_STATUS_SUCCESS, i, st')"
    using assms(2) by (auto simp: nvCreateConfig_def Let_def split: if_splits)
  have r: "getObjectPtr OBJECT_TYPE_CONFIG i (cs_objects st') = Some (al_payload al)" "cs_configs st' (al_payload al) = ?cfg"
    using new_config_result [OF assms(1) c(3)] by simp_all
  obtain f where f: "config_rt_format ?cfg = Some f" using decode_config_typed by blast
  have a: "f AND limit_rt_formats drv (profile_rt_formats p) \<noteq> 0"
    if "requested_rt_format attribs AND NOT (limit_rt_formats drv (profile_rt_formats p)) = 0"
    using decode_config_announced [OF that, of VAEntrypointVLD "vaToCuCodec codecs p"] f by auto
  have q: "nvQueryConfigAttributes drv True i st' =
      Inr (p, VAEntrypointVLD, [(VAConfigAttribRTFormat, limit_rt_formats drv (profile_rt_formats p))])"
    by (simp add: nvQueryConfigAttributes_def r decode_config_fields)
  have g: "nvGetConfigAttributes codecs caps push pop drv p VAEntrypointVLD (Some [(VAConfigAttribRTFormat, x)]) =
      (VA_STATUS_SUCCESS, [(VAConfigAttribRTFormat, limit_rt_formats drv (profile_rt_formats p))])"
    using c(1,2) by (simp add: nvGetConfigAttributes_def)
  show ?thesis using r f a q g c(2) decode_config_fields by metis
qed

definition demo_caps :: NVCaps where
  "demo_caps = \<lparr>nd_supports16BitSurface = True, nd_supports444Surface = True,
     nd_profiles = [VAProfileVP9Profile2, VAProfileAV1Profile0, VAProfileNone]\<rparr>"

definition demo_configs :: VaConfigs where
  "demo_configs = \<lparr>cs_objects = demo_start, cs_configs = (\<lambda>p. vpp_config VAProfileNone VAEntrypointVideoProc)\<rparr>"

lemma demo_config_created:
  "\<exists>st'. nvCreateConfig (demo_alloc 1) nvd_codecs demo_caps p VAEntrypointVLD attribs True demo_configs =
     (VA_STATUS_SUCCESS, makeId 1 0, st') \<and>
     cs_configs st' 1 = decode_config demo_caps p VAEntrypointVLD (vaToCuCodec nvd_codecs p) (requested_rt_format attribs)"
  if "p \<in> {VAProfileVP9Profile2, VAProfileAV1Profile0}"
proof -
  have p: "al_payload (demo_alloc 1) = 1" by (simp add: demo_alloc_def)
  have "allocateObject (demo_alloc 1) 1 OBJECT_TYPE_CONFIG sizeof_NVConfig demo_start =
      (Some (demo_object 0 OBJECT_TYPE_CONFIG), demo_start\<lparr>vo_table := demo_table [OBJECT_TYPE_CONFIG]\<rparr>)"
    using demo_allocate [of "[]" OBJECT_TYPE_CONFIG sizeof_NVConfig]
    by (simp add: allocateObject_def demo_start_def demo_alloc_def)
  moreover have "vaToCuCodec nvd_codecs p \<noteq> cudaVideoCodec_NONE" "driverSupportsProfile demo_caps p"
    using that by (auto simp: codec_tables driverSupportsProfile_def demo_caps_def)
  ultimately show ?thesis
    by (simp add: nvCreateConfig_def new_config_def p demo_configs_def demo_object_def Let_def del: One_nat_def)
qed

lemma created_config_well_typed_witness:
  "\<exists>st' c f. nvCreateConfig (demo_alloc 1) nvd_codecs demo_caps VAProfileVP9Profile2 VAEntrypointVLD
      [(VAConfigAttribRTFormat, VA_RT_FORMAT_YUV420_12)] True demo_configs = (VA_STATUS_SUCCESS, makeId 1 0, st') \<and>
    getObjectPtr OBJECT_TYPE_CONFIG (makeId 1 0) (cs_objects st') = Some c \<and>
    config_rt_format (cs_configs st' c) = Some f \<and> f AND limit_rt_formats demo_caps (profile_rt_formats VAProfileVP9Profile2) \<noteq> 0"
proof -
  let ?a = "[(VAConfigAttribRTFormat, VA_RT_FORMAT_YUV420_12)]"
  obtain st' where st: "nvCreateConfig (demo_alloc 1) nvd_codecs demo_caps VAProfileVP9Profile2 VAEntrypointVLD ?a True demo_configs =
      (VA_STATUS_SUCCESS, makeId 1 0, st')"
    using demo_config_created by blast
  have ok: "table_ok (vo_table (cs_objects demo_configs))"
    using tab_inv_init by (auto simp: demo_configs_def demo_start_def table_ok_def)
  have "requested_rt_format ?a AND NOT (limit_rt_formats demo_caps (profile_rt_formats VAProfileVP9Profile2)) = 0"
    by (simp add: limit_rt_formats_def profile_rt_formats_def demo_caps_def)
  then show ?thesis using created_config_well_typed [OF ok st] st by metis
qed

text \<open>
  The condition on the request is not checked by the code: AV1 profile 0 announces no 12-bit format,
  but a request for one is accepted and gives a 12-bit configuration.
\<close>

lemma config_accepts_unannounced_format:
  "\<exists>st'. nvCreateConfig (demo_alloc 1) nvd_codecs demo_caps VAProfileAV1Profile0 VAEntrypointVLD
      [(VAConfigAttribRTFormat, VA_RT_FORMAT_YUV420_12)] True demo_configs = (VA_STATUS_SUCCESS, makeId 1 0, st') \<and>
    config_rt_format (cs_configs st' 1) = Some VA_RT_FORMAT_YUV420_12 \<and>
    VA_RT_FORMAT_YUV420_12 AND limit_rt_formats demo_caps (profile_rt_formats VAProfileAV1Profile0) = 0"
proof -
  have "config_rt_format (decode_config demo_caps VAProfileAV1Profile0 VAEntrypointVLD c VA_RT_FORMAT_YUV420_12) =
      Some VA_RT_FORMAT_YUV420_12" for c
    by (simp add: decode_config_def choose_16bit_def choose_444_def choose_444_16bit_def set_format_def
        Let_def config_rt_format_simps demo_caps_def)
  moreover have "VA_RT_FORMAT_YUV420_12 AND limit_rt_formats demo_caps (profile_rt_formats VAProfileAV1Profile0) = 0"
    by (simp add: limit_rt_formats_def profile_rt_formats_def demo_caps_def)
  ultimately show ?thesis
    using demo_config_created [of VAProfileAV1Profile0 "[(VAConfigAttribRTFormat, VA_RT_FORMAT_YUV420_12)]"] by auto
qed

end
