(* ===== verification/SurfaceImport.thy ===== *)
theory SurfaceImport
  imports Formats
begin

text \<open>
  The description of an imported surface (\<open>src/surface-import.c\<close>, \<open>src/surface-import.h\<close>): the attributes
  of \<open>vaCreateSurfaces2\<close> are read into an \<open>ImportedSurface\<close>, from a PRIME or a PRIME_2 descriptor.
  A pointer of an attribute is an address; \<open>read_prime\<close> and \<open>read_prime2\<close> are the client's
  structures behind it. Arrays of four are lists of length four.
\<close>

section \<open>Data\<close>

abbreviation INT_MAX :: int where "INT_MAX \<equiv> 2147483647"
abbreviation DRM_FORMAT_MOD_INVALID :: u64 where "DRM_FORMAT_MOD_INVALID \<equiv> 0x00FFFFFFFFFFFFFF"
abbreviation NVD_MAX_IMPORTED_PLANES :: u32 where "NVD_MAX_IMPORTED_PLANES \<equiv> 4"
abbreviation NVD_MAX_LEGACY_SURFACE_BUFFERS :: u32 where "NVD_MAX_LEGACY_SURFACE_BUFFERS \<equiv> 1024"
abbreviation VA_SURFACE_ATTRIB_MEM_TYPE_DRM_PRIME :: u32 where "VA_SURFACE_ATTRIB_MEM_TYPE_DRM_PRIME \<equiv> 0x20000000"
abbreviation VA_SURFACE_ATTRIB_MEM_TYPE_DRM_PRIME_2 :: u32 where "VA_SURFACE_ATTRIB_MEM_TYPE_DRM_PRIME_2 \<equiv> 0x40000000"
abbreviation VA_SURFACE_EXTBUF_DESC_ENABLE_TILING :: u32 where "VA_SURFACE_EXTBUF_DESC_ENABLE_TILING \<equiv> 1"

record ImportedObject =
  io_fd :: int
  io_size :: u64
  io_modifier :: u64

record ImportedPlane =
  ip_objectIndex :: u32
  ip_offset :: u32
  ip_pitch :: u32

record ImportedSurface =
  is_requested :: bool
  is_valid :: bool
  is_legacyPrime :: bool
  is_memoryType :: u32
  is_pixelFormat :: u32
  is_width :: u32
  is_height :: u32
  is_dataSize :: u64
  is_numObjects :: u32
  is_numPlanes :: u32
  is_legacyBuffers :: "u64 list option"
  is_numLegacyBuffers :: u32
  is_objects :: "ImportedObject list"
  is_planes :: "ImportedPlane list"

record VASurfaceAttribExternalBuffers =
  eb_pixel_format :: u32
  eb_width :: u32
  eb_height :: u32
  eb_data_size :: u32
  eb_num_planes :: u32
  eb_pitches :: "u32 list"
  eb_offsets :: "u32 list"
  eb_buffers :: "u64 list option"
  eb_num_buffers :: u32
  eb_flags :: u32

record VADRMPRIMEObject =
  po_fd :: int
  po_size :: u32
  po_modifier :: u64

record VADRMPRIMELayer =
  pl_drm_format :: u32
  pl_num_planes :: u32
  pl_object_index :: "u32 list"
  pl_offset :: "u32 list"
  pl_pitch :: "u32 list"

record VADRMPRIMESurfaceDescriptor =
  pd_fourcc :: u32
  pd_width :: u32
  pd_height :: u32
  pd_num_objects :: u32
  pd_objects :: "VADRMPRIMEObject list"
  pd_num_layers :: u32
  pd_layers :: "VADRMPRIMELayer list"

datatype VAGenericValue = VAInteger int | VAPointer "nat option" | VAGenericOther

datatype VASurfaceAttribType =
  VASurfaceAttribMemoryType | VASurfaceAttribExternalBufferDescriptor | VASurfaceAttribPixelFormat | VASurfaceAttribOther nat

type_synonym VASurfaceAttrib = "VASurfaceAttribType \<times> VAGenericValue"

section \<open>Parsing\<close>

definition importedSurfaceInit :: ImportedSurface where
  "importedSurfaceInit =
     \<lparr>is_requested = False, is_valid = False, is_legacyPrime = False, is_memoryType = 0, is_pixelFormat = 0,
      is_width = 0, is_height = 0, is_dataSize = 0, is_numObjects = 0, is_numPlanes = 0, is_legacyBuffers = None,
      is_numLegacyBuffers = 0,
      is_objects = replicate 4 \<lparr>io_fd = -1, io_size = 0, io_modifier = DRM_FORMAT_MOD_INVALID\<rparr>,
      is_planes = replicate 4 \<lparr>ip_objectIndex = 0, ip_offset = 0, ip_pitch = 0\<rparr>\<rparr>"

definition addObjectSize :: "ImportedSurface \<Rightarrow> u64 \<Rightarrow> bool \<times> ImportedSurface" where
  "addObjectSize imported n =
     (if UINT64_MAX - is_dataSize imported < n then (False, imported)
      else (True, imported\<lparr>is_dataSize := is_dataSize imported + n\<rparr>))"

definition prime_plane :: "VASurfaceAttribExternalBuffers \<Rightarrow> nat \<Rightarrow> ImportedPlane" where
  "prime_plane ext i = \<lparr>ip_objectIndex = 0, ip_offset = eb_offsets ext ! i, ip_pitch = eb_pitches ext ! i\<rparr>"

definition parsePrimeDescriptor :: "VASurfaceAttribExternalBuffers \<Rightarrow> ImportedSurface \<Rightarrow> ImportedSurface" where
  "parsePrimeDescriptor ext imported =
     (let imported = imported\<lparr>
            is_pixelFormat := (if eb_pixel_format ext \<noteq> 0 then eb_pixel_format ext else is_pixelFormat imported),
            is_width := eb_width ext, is_height := eb_height ext, is_dataSize := ucast (eb_data_size ext),
            is_numPlanes := eb_num_planes ext, is_numObjects := 1, is_legacyPrime := True,
            is_legacyBuffers := eb_buffers ext, is_numLegacyBuffers := eb_num_buffers ext\<rparr>
      in if eb_num_planes ext = 0 \<or> eb_num_planes ext > NVD_MAX_IMPORTED_PLANES \<or>
            eb_num_buffers ext = 0 \<or> eb_num_buffers ext > NVD_MAX_LEGACY_SURFACE_BUFFERS \<or>
            eb_buffers ext = None \<or> eb_flags ext AND VA_SURFACE_EXTBUF_DESC_ENABLE_TILING \<noteq> 0
         then imported
         else if \<exists>b \<in> set (take (unat (eb_num_buffers ext)) (the (eb_buffers ext))). uint b > INT_MAX
         then imported
         else
           let n = unat (eb_num_planes ext)
           in imported\<lparr>
                is_objects := (is_objects imported)[0 := \<lparr>io_fd = uint (the (eb_buffers ext) ! 0),
                  io_size = ucast (eb_data_size ext), io_modifier = DRM_FORMAT_MOD_LINEAR\<rparr>],
                is_planes := map (prime_plane ext) [0..<n] @ drop n (is_planes imported),
                is_valid := True\<rparr>)"

text \<open>The loop over the objects: \<open>False\<close> is the early return.\<close>

fun prime2_objects :: "VADRMPRIMEObject list \<Rightarrow> nat \<Rightarrow> nat \<Rightarrow> ImportedSurface \<Rightarrow> bool \<times> ImportedSurface" where
  "prime2_objects objs i 0 imported = (True, imported)"
| "prime2_objects objs i (Suc n) imported =
     (let ob = objs ! i
      in if po_fd ob < 0 then (False, imported)
         else case addObjectSize imported (ucast (po_size ob)) of
                (False, imported) \<Rightarrow> (False, imported)
              | (True, imported) \<Rightarrow>
                  prime2_objects objs (Suc i) n
                    (imported\<lparr>is_objects := (is_objects imported)[i := \<lparr>io_fd = po_fd ob, io_size = ucast (po_size ob),
                                                                    io_modifier = po_modifier ob\<rparr>]\<rparr>))"

text \<open>The inner and the outer loop over the planes of the layers, with the running \<open>planeIndex\<close>; \<open>False\<close> is the early return.\<close>

fun layer_planes ::
    "VADRMPRIMELayer \<Rightarrow> u32 \<Rightarrow> nat \<Rightarrow> nat \<Rightarrow> u32 \<Rightarrow> ImportedPlane list \<Rightarrow> bool \<times> u32 \<times> ImportedPlane list" where
  "layer_planes layer numObjects plane 0 planeIndex planes = (True, planeIndex, planes)"
| "layer_planes layer numObjects plane (Suc n) planeIndex planes =
     (if planeIndex \<ge> NVD_MAX_IMPORTED_PLANES \<or> pl_object_index layer ! plane \<ge> numObjects
      then (False, planeIndex, planes)
      else layer_planes layer numObjects (Suc plane) n (planeIndex + 1)
             (planes[unat planeIndex := \<lparr>ip_objectIndex = pl_object_index layer ! plane,
                ip_offset = pl_offset layer ! plane, ip_pitch = pl_pitch layer ! plane\<rparr>]))"

fun prime2_layers ::
    "VADRMPRIMELayer list \<Rightarrow> u32 \<Rightarrow> u32 \<Rightarrow> ImportedPlane list \<Rightarrow> bool \<times> u32 \<times> ImportedPlane list" where
  "prime2_layers [] numObjects planeIndex planes = (True, planeIndex, planes)"
| "prime2_layers (layer # rest) numObjects planeIndex planes =
     (if pl_num_planes layer = 0 \<or> pl_num_planes layer > 4 then (False, planeIndex, planes)
      else case layer_planes layer numObjects 0 (unat (pl_num_planes layer)) planeIndex planes of
             (False, planeIndex, planes) \<Rightarrow> (False, planeIndex, planes)
           | (True, planeIndex, planes) \<Rightarrow> prime2_layers rest numObjects planeIndex planes)"

definition parsePrime2Descriptor :: "VADRMPRIMESurfaceDescriptor \<Rightarrow> ImportedSurface \<Rightarrow> ImportedSurface" where
  "parsePrime2Descriptor desc imported =
     (let imported = imported\<lparr>is_pixelFormat := pd_fourcc desc, is_width := pd_width desc,
            is_height := pd_height desc, is_numObjects := pd_num_objects desc\<rparr>
      in if pd_num_layers desc = 0 \<or> pd_num_layers desc > 4 \<or>
            pd_num_objects desc = 0 \<or> pd_num_objects desc > NVD_MAX_IMPORTED_OBJECTS
         then imported
         else case prime2_objects (pd_objects desc) 0 (unat (pd_num_objects desc)) imported of
                (False, imported) \<Rightarrow> imported
              | (True, imported) \<Rightarrow>
                  (case prime2_layers (take (unat (pd_num_layers desc)) (pd_layers desc)) (pd_num_objects desc)
                          0 (is_planes imported) of
                     (False, planeIndex, planes) \<Rightarrow> imported\<lparr>is_planes := planes\<rparr>
                   | (True, planeIndex, planes) \<Rightarrow>
                       imported\<lparr>is_planes := planes, is_numPlanes := planeIndex, is_valid := planeIndex > 0\<rparr>))"

fun read_attributes ::
    "VASurfaceAttrib list \<Rightarrow> nat option \<Rightarrow> ImportedSurface \<Rightarrow> nat option \<times> ImportedSurface" where
  "read_attributes [] ext imported = (ext, imported)"
| "read_attributes ((type, v) # rest) ext imported =
     (case (type, v) of
        (VASurfaceAttribMemoryType, VAInteger i) \<Rightarrow>
          read_attributes rest ext (imported\<lparr>is_memoryType := of_int i\<rparr>)
      | (VASurfaceAttribExternalBufferDescriptor, VAPointer p) \<Rightarrow> read_attributes rest p imported
      | (VASurfaceAttribPixelFormat, VAInteger i) \<Rightarrow>
          read_attributes rest ext (imported\<lparr>is_pixelFormat := of_int i\<rparr>)
      | _ \<Rightarrow> read_attributes rest ext imported)"

definition parseSurfaceImportAttributes ::
    "(nat \<Rightarrow> VASurfaceAttribExternalBuffers) \<Rightarrow> (nat \<Rightarrow> VADRMPRIMESurfaceDescriptor) \<Rightarrow>
     VASurfaceAttrib list option \<Rightarrow> ImportedSurface" where
  "parseSurfaceImportAttributes read_prime read_prime2 attribList =
     (case attribList of
        None \<Rightarrow> importedSurfaceInit
      | Some attribs \<Rightarrow>
          (case read_attributes attribs None importedSurfaceInit of
             (None, imported) \<Rightarrow> imported
           | (Some p, imported) \<Rightarrow>
               let imported = imported\<lparr>is_requested := True\<rparr>
               in if is_memoryType imported AND VA_SURFACE_ATTRIB_MEM_TYPE_DRM_PRIME_2 \<noteq> 0
                  then parsePrime2Descriptor (read_prime2 p) imported
                  else if is_memoryType imported AND VA_SURFACE_ATTRIB_MEM_TYPE_DRM_PRIME \<noteq> 0
                  then parsePrimeDescriptor (read_prime p) imported
                  else imported))"

definition importedSurfaceSelectIndex :: "ImportedSurface \<Rightarrow> u32 \<Rightarrow> u32 \<Rightarrow> ImportedSurface option" where
  "importedSurfaceSelectIndex imported surfaceIndex numSurfaces =
     (if \<not> is_valid imported \<or> surfaceIndex \<ge> numSurfaces then None
      else if \<not> is_legacyPrime imported then (if numSurfaces = 1 then Some imported else None)
      else if is_numLegacyBuffers imported \<noteq> numSurfaces \<or>
              uint (the (is_legacyBuffers imported) ! unat surfaceIndex) > INT_MAX then None
      else Some (imported\<lparr>is_objects := (is_objects imported)
                  [0 := (is_objects imported ! 0)\<lparr>io_fd := uint (the (is_legacyBuffers imported) ! unat surfaceIndex)\<rparr>]\<rparr>))"

end
