(* ===== verification/SurfaceImportProps.thy ===== *)
theory SurfaceImportProps
  imports SurfaceImport
begin

text \<open>
  What a description of an imported surface that is marked valid guarantees: the code that
  imports the memory indexes its arrays with these values.
\<close>

definition layer_plane :: "VADRMPRIMELayer \<Rightarrow> nat \<Rightarrow> ImportedPlane" where
  "layer_plane layer k = \<lparr>ip_objectIndex = pl_object_index layer ! k, ip_offset = pl_offset layer ! k, ip_pitch = pl_pitch layer ! k\<rparr>"

text \<open>The planes of all layers in order.\<close>

definition all_planes :: "VADRMPRIMELayer list \<Rightarrow> ImportedPlane list" where
  "all_planes layers = concat (map (\<lambda>l. map (layer_plane l) [0..<unat (pl_num_planes l)]) layers)"

lemma layer_planes_result:
  "layer_planes layer m k n i ps = (True, i', ps') \<Longrightarrow> length ps = 4 \<Longrightarrow> unat i \<le> 4 \<Longrightarrow>
   unat i' \<le> 4 \<and> unat i' = unat i + n \<and> length ps' = 4 \<and>
   take (unat i') ps' = take (unat i) ps @ map (layer_plane layer) [k..<k + n] \<and>
   (\<forall>p \<in> set (map (layer_plane layer) [k..<k + n]). ip_objectIndex p < m)"
proof (induction n arbitrary: k i ps)
  case (Suc n)
  let ?ps = "ps[unat i := layer_plane layer k]"
  have g: "i < 4" "pl_object_index layer ! k < m"
    and run: "layer_planes layer m (Suc k) n (i + 1) ?ps = (True, i', ps')"
    using Suc.prems(1) by (auto simp: layer_plane_def not_le split: if_splits)
  have i: "unat i < 4" using g(1) by (simp add: word_less_nat_alt)
  then have i1: "unat (i + 1) = Suc (unat i)" by (subst unat_add_no_overflow) simp_all
  have r: "unat i' \<le> 4 \<and> unat i' = unat (i + 1) + n \<and> length ps' = 4 \<and>
     take (unat i') ps' = take (unat (i + 1)) ?ps @ map (layer_plane layer) [Suc k..<Suc k + n] \<and>
     (\<forall>p \<in> set (map (layer_plane layer) [Suc k..<Suc k + n]). ip_objectIndex p < m)"
    by (rule Suc.IH [OF run]) (use i i1 Suc.prems(2) in simp_all)
  have t: "take (Suc (unat i)) ?ps = take (unat i) ps @ [layer_plane layer k]"
    using i Suc.prems(2) by (simp add: take_Suc_conv_app_nth)
  have u: "[k..<k + Suc n] = k # [Suc k..<Suc k + n]" by (simp add: upt_conv_Cons)
  have x: "ip_objectIndex (layer_plane layer k) < m" using g(2) by (simp add: layer_plane_def)
  define xs where "xs = map (layer_plane layer) [Suc k..<Suc k + n]"
  show ?case using r i1 t x unfolding u list.map xs_def [symmetric] by auto
qed simp

lemma prime2_layers_result:
  "prime2_layers layers m i ps = (True, i', ps') \<Longrightarrow> length ps = 4 \<Longrightarrow> unat i \<le> 4 \<Longrightarrow>
   unat i' \<le> 4 \<and> unat i' = unat i + length (all_planes layers) \<and> length ps' = 4 \<and>
   take (unat i') ps' = take (unat i) ps @ all_planes layers \<and> (\<forall>p \<in> set (all_planes layers). ip_objectIndex p < m)"
proof (induction layers arbitrary: i ps)
  case (Cons layer rest)
  obtain j qs where l: "layer_planes layer m 0 (unat (pl_num_planes layer)) i ps = (True, j, qs)"
    and r: "prime2_layers rest m j qs = (True, i', ps')"
    using Cons.prems(1) by (auto split: if_splits prod.splits bool.splits)
  note L = layer_planes_result [OF l Cons.prems(2,3)]
  have "unat i' \<le> 4 \<and> unat i' = unat j + length (all_planes rest) \<and> length ps' = 4 \<and>
     take (unat i') ps' = take (unat j) qs @ all_planes rest \<and> (\<forall>p \<in> set (all_planes rest). ip_objectIndex p < m)"
    by (rule Cons.IH [OF r]) (use L in simp_all)
  then show ?case using L by (auto simp: all_planes_def)
qed (simp add: all_planes_def)

lemma prime2_objects_result:
  "prime2_objects objs k n imp = (True, imp') \<Longrightarrow> k + n \<le> 4 \<Longrightarrow> length (is_objects imp) = 4 \<Longrightarrow>
   length (is_objects imp') = 4 \<and> (\<forall>i. k \<le> i \<and> i < k + n \<longrightarrow> io_fd (is_objects imp' ! i) = po_fd (objs ! i) \<and>
     io_size (is_objects imp' ! i) = ucast (po_size (objs ! i)) \<and> 0 \<le> po_fd (objs ! i)) \<and>
   (\<forall>i<k. is_objects imp' ! i = is_objects imp ! i) \<and>
   unat (is_dataSize imp') = unat (is_dataSize imp) + (\<Sum>i = k..<k + n. unat (po_size (objs ! i))) \<and>
   imp' = imp\<lparr>is_objects := is_objects imp', is_dataSize := is_dataSize imp'\<rparr>"
proof (induction n arbitrary: k imp)
  case (Suc n)
  let ?ob = "\<lparr>io_fd = po_fd (objs ! k), io_size = ucast (po_size (objs ! k)), io_modifier = po_modifier (objs ! k)\<rparr>"
  let ?d = "is_dataSize imp + ucast (po_size (objs ! k))"
  let ?imp = "imp\<lparr>is_dataSize := ?d, is_objects := (is_objects imp)[k := ?ob]\<rparr>"
  have g: "0 \<le> po_fd (objs ! k)" "\<not> UINT64_MAX - is_dataSize imp < ucast (po_size (objs ! k))"
    and run: "prime2_objects objs (Suc k) n ?imp = (True, imp')"
    using Suc.prems(1) by (auto simp: addObjectSize_def Let_def not_less split: if_splits)
  have d: "unat ?d = unat (is_dataSize imp) + unat (po_size (objs ! k))"
  proof -
    have "unat (ucast (po_size (objs ! k)) :: u64) = unat (po_size (objs ! k))" by (simp add: unsigned_ucast_eq take_bit_nat_eq_self [OF less_trans [OF unat_u32_less]])
    moreover have "unat (ucast (po_size (objs ! k)) :: u64) \<le> unat (UINT64_MAX - is_dataSize imp)"
      using g(2) by (simp add: word_le_nat_alt not_less)
    moreover have "unat (UINT64_MAX - is_dataSize imp) = 2 ^ 64 - 1 - unat (is_dataSize imp)"
      using unat_u64_less [of "is_dataSize imp"] by (subst unat_sub_le) (simp_all add: word_le_nat_alt)
    ultimately show ?thesis using unat_u64_less [of "is_dataSize imp"] by (subst unat_add_no_overflow) simp_all
  qed
  have IH: "length (is_objects imp') = 4 \<and> (\<forall>i. Suc k \<le> i \<and> i < Suc k + n \<longrightarrow> io_fd (is_objects imp' ! i) = po_fd (objs ! i) \<and>
     io_size (is_objects imp' ! i) = ucast (po_size (objs ! i)) \<and> 0 \<le> po_fd (objs ! i)) \<and>
   (\<forall>i<Suc k. is_objects imp' ! i = is_objects ?imp ! i) \<and>
   unat (is_dataSize imp') = unat (is_dataSize ?imp) + (\<Sum>i = Suc k..<Suc k + n. unat (po_size (objs ! i))) \<and>
   imp' = ?imp\<lparr>is_objects := is_objects imp', is_dataSize := is_dataSize imp'\<rparr>"
    by (rule Suc.IH [OF run]) (use Suc.prems(2,3) in simp_all)
  have s: "(\<Sum>i = k..<k + Suc n. unat (po_size (objs ! i))) = unat (po_size (objs ! k)) + (\<Sum>i = Suc k..<Suc k + n. unat (po_size (objs ! i)))"
    by (simp add: sum.atLeast_Suc_lessThan)
  have k: "k < 4" using Suc.prems(2) by simp
  have ob: "is_objects imp' ! k = ?ob" using IH k Suc.prems(3) by simp
  show ?case
  proof (intro conjI allI impI)
    show "length (is_objects imp') = 4" using IH by blast
    show "unat (is_dataSize imp') = unat (is_dataSize imp) + (\<Sum>i = k..<k + Suc n. unat (po_size (objs ! i)))"
      using IH d s by simp
    show "imp' = imp\<lparr>is_objects := is_objects imp', is_dataSize := is_dataSize imp'\<rparr>"
      by (rule trans [OF conjunct2 [OF conjunct2 [OF conjunct2 [OF conjunct2 [OF IH]]]]]) simp
    show "is_objects imp' ! i = is_objects imp ! i" if "i < k" for i using IH that by simp
    fix i assume i: "k \<le> i \<and> i < k + Suc n"
    have "io_fd (is_objects imp' ! i) = po_fd (objs ! i) \<and> io_size (is_objects imp' ! i) = ucast (po_size (objs ! i)) \<and> 0 \<le> po_fd (objs ! i)"
      using IH i ob g(1) by (cases "i = k") simp_all
    then show "io_fd (is_objects imp' ! i) = po_fd (objs ! i)" "io_size (is_objects imp' ! i) = ucast (po_size (objs ! i))"
      "0 \<le> po_fd (objs ! i)" by simp_all
  qed
qed auto

section \<open>A valid description\<close>

lemma read_attributes_init:
  "read_attributes attribs ext imp = (e, imp') \<Longrightarrow>
   is_objects imp' = is_objects imp \<and> is_planes imp' = is_planes imp \<and> is_valid imp' = is_valid imp \<and>
   is_dataSize imp' = is_dataSize imp \<and> is_legacyPrime imp' = is_legacyPrime imp"
  by (induction attribs ext imp rule: read_attributes.induct)
    (auto split: VASurfaceAttribType.splits VAGenericValue.splits)

lemma word_eq_0_less: "(0 < (w :: u32)) = (0 < unat w)"
  by (simp add: word_less_nat_alt)

text \<open>What a legacy PRIME descriptor must be like to be accepted, and what it gives.\<close>

lemma parsePrimeDescriptor_valid:
  assumes "is_valid (parsePrimeDescriptor ext imp)" "\<not> is_valid imp" "length (is_objects imp) = 4" "length (is_planes imp) = 4"
  shows "\<exists>bs. eb_buffers ext = Some bs \<and> 0 < unat (eb_num_planes ext) \<and> unat (eb_num_planes ext) \<le> 4 \<and>
    0 < unat (eb_num_buffers ext) \<and> unat (eb_num_buffers ext) \<le> 1024 \<and>
    (\<forall>b \<in> set (take (unat (eb_num_buffers ext)) bs). uint b \<le> INT_MAX) \<and>
    parsePrimeDescriptor ext imp = imp\<lparr>
      is_pixelFormat := (if eb_pixel_format ext \<noteq> 0 then eb_pixel_format ext else is_pixelFormat imp),
      is_width := eb_width ext, is_height := eb_height ext, is_dataSize := ucast (eb_data_size ext),
      is_numPlanes := eb_num_planes ext, is_numObjects := 1, is_legacyPrime := True,
      is_legacyBuffers := Some bs, is_numLegacyBuffers := eb_num_buffers ext,
      is_objects := (is_objects imp)[0 := \<lparr>io_fd = uint (bs ! 0), io_size = ucast (eb_data_size ext), io_modifier = DRM_FORMAT_MOD_LINEAR\<rparr>],
      is_planes := map (prime_plane ext) [0..<unat (eb_num_planes ext)] @ drop (unat (eb_num_planes ext)) (is_planes imp),
      is_valid := True\<rparr>"
proof -
  have g: "\<not> (eb_num_planes ext = 0 \<or> eb_num_planes ext > NVD_MAX_IMPORTED_PLANES \<or>
            eb_num_buffers ext = 0 \<or> eb_num_buffers ext > NVD_MAX_LEGACY_SURFACE_BUFFERS \<or>
            eb_buffers ext = None \<or> eb_flags ext AND VA_SURFACE_EXTBUF_DESC_ENABLE_TILING \<noteq> 0)"
    (is "\<not> ?g") using assms(1,2) by (rule_tac notI) (simp add: parsePrimeDescriptor_def)
  have h: "\<not> (\<exists>b \<in> set (take (unat (eb_num_buffers ext)) (the (eb_buffers ext))). uint b > INT_MAX)"
    (is "\<not> ?h") using assms(1,2) by (rule_tac notI) (simp add: parsePrimeDescriptor_def if_not_P [OF g])
  obtain bs where bs: "eb_buffers ext = Some bs" using g by auto
  have "0 < unat (eb_num_planes ext)" "0 < unat (eb_num_buffers ext)"
    "unat (eb_num_planes ext) \<le> 4" "unat (eb_num_buffers ext) \<le> 1024"
    using g by (auto simp: unat_gt_0 not_less word_le_nat_alt)
  moreover have "\<forall>b \<in> set (take (unat (eb_num_buffers ext)) bs). uint b \<le> INT_MAX" using h bs by auto
  ultimately show ?thesis
    unfolding parsePrimeDescriptor_def Let_def if_not_P [OF g] if_not_P [OF h] by (simp add: bs)
qed

text \<open>The same for PRIME_2.\<close>

lemma parsePrime2Descriptor_valid:
  assumes "is_valid (parsePrime2Descriptor desc imp)" "\<not> is_valid imp" "length (is_objects imp) = 4" "length (is_planes imp) = 4"
    and "is_dataSize imp = 0" "\<not> is_legacyPrime imp"
  defines "imp' \<equiv> parsePrime2Descriptor desc imp" and "n \<equiv> unat (pd_num_objects desc)"
    and "layers \<equiv> take (unat (pd_num_layers desc)) (pd_layers desc)"
  shows "0 < n \<and> n \<le> 4 \<and> is_numObjects imp' = pd_num_objects desc \<and> length (is_objects imp') = 4 \<and>
    (\<forall>i<n. io_fd (is_objects imp' ! i) = po_fd (pd_objects desc ! i) \<and> 0 \<le> po_fd (pd_objects desc ! i)) \<and>
    unat (is_dataSize imp') = (\<Sum>i<n. unat (po_size (pd_objects desc ! i))) \<and>
    0 < unat (is_numPlanes imp') \<and> unat (is_numPlanes imp') \<le> 4 \<and> length (is_planes imp') = 4 \<and>
    take (unat (is_numPlanes imp')) (is_planes imp') = all_planes layers \<and> length (all_planes layers) = unat (is_numPlanes imp') \<and>
    (\<forall>p \<in> set (all_planes layers). ip_objectIndex p < pd_num_objects desc) \<and> \<not> is_legacyPrime imp'"
proof -
  let ?i = "imp\<lparr>is_pixelFormat := pd_fourcc desc, is_width := pd_width desc, is_height := pd_height desc,
    is_numObjects := pd_num_objects desc\<rparr>"
  have g: "\<not> (pd_num_layers desc = 0 \<or> pd_num_layers desc > 4 \<or> pd_num_objects desc = 0 \<or> pd_num_objects desc > NVD_MAX_IMPORTED_OBJECTS)"
    using assms(1,2) by (auto simp: parsePrime2Descriptor_def Let_def split: if_splits)
  have n: "0 < n" "n \<le> 4" using g by (auto simp: n_def not_less word_le_nat_alt unat_gt_0)
  obtain b imp1 where o: "prime2_objects (pd_objects desc) 0 n ?i = (b, imp1)" by force
  have run: "imp' = (case (b, imp1) of (False, imported) \<Rightarrow> imported
      | (True, imported) \<Rightarrow> (case prime2_layers layers (pd_num_objects desc) 0 (is_planes imported) of
          (False, planeIndex, planes) \<Rightarrow> imported\<lparr>is_planes := planes\<rparr>
        | (True, planeIndex, planes) \<Rightarrow>
            imported\<lparr>is_planes := planes, is_numPlanes := planeIndex, is_valid := planeIndex > 0\<rparr>))"
    using g o unfolding imp'_def parsePrime2Descriptor_def Let_def n_def layers_def by simp
  have keep: "prime2_objects os k m i0 = (b0, i1) \<Longrightarrow> is_valid i1 = is_valid i0" for os k m i0 b0 i1
    by (induction os k m i0 rule: prime2_objects.induct) (auto simp: addObjectSize_def Let_def split: if_splits)
  have b: "b" using run assms(1,2) keep [OF o] unfolding imp'_def [symmetric] by (cases b) auto
  have o': "prime2_objects (pd_objects desc) 0 n ?i = (True, imp1)" using o b by simp
  note O = prime2_objects_result [OF o']
  have O': "length (is_objects imp1) = 4" "\<forall>i<n. io_fd (is_objects imp1 ! i) = po_fd (pd_objects desc ! i) \<and> 0 \<le> po_fd (pd_objects desc ! i)"
    "unat (is_dataSize imp1) = (\<Sum>i<n. unat (po_size (pd_objects desc ! i)))"
    "imp1 = ?i\<lparr>is_objects := is_objects imp1, is_dataSize := is_dataSize imp1\<rparr>"
    using O n(2) assms(3,5) by (simp_all add: lessThan_atLeast0)
  obtain c pi ps where l: "prime2_layers layers (pd_num_objects desc) 0 (is_planes imp1) = (c, pi, ps)" by (metis prod_cases3)
  have pl: "is_planes imp1 = is_planes imp" "\<not> is_valid imp1" "\<not> is_legacyPrime imp1" "is_numObjects imp1 = pd_num_objects desc"
    by (subst O'(4); use assms(2,6) in simp)+
  have c: "c" using run b l pl(2) assms(1) unfolding imp'_def [symmetric] by (cases c) auto
  have imp': "imp' = imp1\<lparr>is_planes := ps, is_numPlanes := pi, is_valid := pi > 0\<rparr>" using run b c l by simp
  have l': "prime2_layers layers (pd_num_objects desc) 0 (is_planes imp) = (True, pi, ps)" using l c pl(1) by simp
  have "0 < pi" using assms(1) unfolding imp'_def [symmetric] imp' by simp
  then show ?thesis
    using prime2_layers_result [OF l' assms(4)] n O'(1-3) pl unfolding imp' by (auto simp: word_eq_0_less)
qed



definition demo_layer :: VADRMPRIMELayer where
  "demo_layer = \<lparr>pl_drm_format = DRM_FORMAT_R8, pl_num_planes = 1, pl_object_index = [0, 0, 0, 0], pl_offset = [4096, 0, 0, 0], pl_pitch = [256, 0, 0, 0]\<rparr>"

definition demo_descriptor :: VADRMPRIMESurfaceDescriptor where
  "demo_descriptor = \<lparr>pd_fourcc = VA_FOURCC_NV12, pd_width = 64, pd_height = 64, pd_num_objects = 1,
     pd_objects = [\<lparr>po_fd = 5, po_size = 65536, po_modifier = 0\<rparr>], pd_num_layers = 2, pd_layers = [demo_layer, demo_layer]\<rparr>"

definition demo_import :: ImportedSurface where
  "demo_import = parseSurfaceImportAttributes (\<lambda>p. undefined) (\<lambda>p. demo_descriptor)
     (Some [(VASurfaceAttribMemoryType, VAInteger 0x40000000), (VASurfaceAttribExternalBufferDescriptor, VAPointer (Some 1))])"


end
