(* ===== verification/BackingCache.thy ===== *)
theory BackingCache
  imports Formats
begin

text \<open>
  The images behind the surfaces and the cache of detached images of the direct backend
  (\<open>src/direct/direct-export-buf.c\<close>): an image that a surface gives up stays in memory, because a client may
  still show it, on a list from the oldest to the newest, until the limits of the cache or a failed allocation
  make the driver free the oldest ones that no imported image borrows.

  An image and a surface are addresses. \<open>ic_image\<close> is the image itself, where \<open>bi_borrowed\<close> is the address of
  the image it borrows from; \<open>ic_link\<close> holds its surface, its serial and the links of the list;
  \<open>ic_backing\<close> is \<open>backingImage\<close> of a surface. \<open>ic_images\<close> is the pointer array \<open>drv->images\<close> (its operations are those of
  \<open>ListArray\<close>, on lists), \<open>ic_alive\<close> the images that were allocated and not freed. CUDA handles, file
  descriptors and statistics are left out. A loop that follows links may not end, so it returns an option.
\<close>

record image_link =
  lk_surface :: "nat option"
  lk_detachedSerial :: u64
  lk_detachedPrev :: "nat option"
  lk_detachedNext :: "nat option"

record ImageCache =
  ic_image :: "nat \<Rightarrow> BackingImage"
  ic_link :: "nat \<Rightarrow> image_link"
  ic_backing :: "nat \<Rightarrow> nat option"
  ic_images :: "nat list"
  ic_alive :: "nat set"
  ic_detachedHead :: "nat option"
  ic_detachedTail :: "nat option"
  ic_detachedBytes :: u64
  ic_detachedCount :: u32
  ic_detachedSerial :: u64
  ic_maxDetachedImages :: u32
  ic_maxDetachedBytes :: u64
  ic_memoryBudget :: u64
  ic_scratchY :: u64
  ic_scratchUV :: u64
  ic_scratchArgb :: u64
  ic_cudaWorkUnsafe :: bool

definition upd_link :: "nat \<Rightarrow> (image_link \<Rightarrow> image_link) \<Rightarrow> ImageCache \<Rightarrow> ImageCache" where
  "upd_link i f ic = ic\<lparr>ic_link := (ic_link ic)(i := f (ic_link ic i))\<rparr>"

definition upd_image :: "nat \<Rightarrow> (BackingImage \<Rightarrow> BackingImage) \<Rightarrow> ImageCache \<Rightarrow> ImageCache" where
  "upd_image i f ic = ic\<lparr>ic_image := (ic_image ic)(i := f (ic_image ic i))\<rparr>"

definition no_links :: image_link where
  "no_links = \<lparr>lk_surface = None, lk_detachedSerial = 0, lk_detachedPrev = None, lk_detachedNext = None\<rparr>"

section \<open>The list of detached images\<close>

definition backingImageMemorySize :: "BackingImage \<Rightarrow> u64" where
  "backingImageMemorySize img =
     (if bi_totalSize img \<noteq> 0 then bi_totalSize img
      else fold (\<lambda>i n. n + u32_to_u64 (bi_size img ! i)) [0..<unat (fi_numPlanes (formatsInfo (bi_format img)))] 0)"

definition backingImageCanPrune :: "ImageCache \<Rightarrow> nat \<Rightarrow> bool" where
  "backingImageCanPrune ic img \<longleftrightarrow>
     lk_surface (ic_link ic img) = None \<and> bi_borrowCount (ic_image ic img) = 0"

definition linkDetachedBackingImageLocked :: "nat \<Rightarrow> ImageCache \<Rightarrow> ImageCache" where
  "linkDetachedBackingImageLocked img ic =
     (let ic = upd_link img (\<lambda>l. l\<lparr>lk_detachedPrev := ic_detachedTail ic, lk_detachedNext := None\<rparr>) ic;
          ic = (case ic_detachedTail ic of
                  Some t \<Rightarrow> upd_link t (\<lambda>l. l\<lparr>lk_detachedNext := Some img\<rparr>) ic
                | None \<Rightarrow> ic\<lparr>ic_detachedHead := Some img\<rparr>)
      in ic\<lparr>ic_detachedTail := Some img,
            ic_detachedBytes := ic_detachedBytes ic + backingImageMemorySize (ic_image ic img),
            ic_detachedCount := ic_detachedCount ic + 1\<rparr>)"

definition unlinkDetachedBackingImageLocked :: "nat \<Rightarrow> ImageCache \<Rightarrow> ImageCache" where
  "unlinkDetachedBackingImageLocked img ic =
     (let l = ic_link ic img;
          ic = (case lk_detachedPrev l of
                  Some p \<Rightarrow> upd_link p (\<lambda>m. m\<lparr>lk_detachedNext := lk_detachedNext l\<rparr>) ic
                | None \<Rightarrow> ic\<lparr>ic_detachedHead := lk_detachedNext l\<rparr>);
          ic = (case lk_detachedNext l of
                  Some n \<Rightarrow> upd_link n (\<lambda>m. m\<lparr>lk_detachedPrev := lk_detachedPrev l\<rparr>) ic
                | None \<Rightarrow> ic\<lparr>ic_detachedTail := lk_detachedPrev l\<rparr>);
          bytes = backingImageMemorySize (ic_image ic img);
          ic = ic\<lparr>ic_detachedBytes := (if ic_detachedBytes ic \<ge> bytes then ic_detachedBytes ic - bytes else 0),
                  ic_detachedCount := (if ic_detachedCount ic > 0 then ic_detachedCount ic - 1
                                       else ic_detachedCount ic)\<rparr>
      in upd_link img (\<lambda>m. m\<lparr>lk_detachedPrev := None, lk_detachedNext := None, lk_detachedSerial := 0\<rparr>) ic)"

definition detachedBackingImagesOverLimit :: "u64 \<Rightarrow> u32 \<Rightarrow> ImageCache \<Rightarrow> bool" where
  "detachedBackingImagesOverLimit bytes n ic =
     (if n = 0 then False
      else if ic_maxDetachedImages ic = 0 \<or> ic_maxDetachedBytes ic = 0 then True
      else
        let scratch = ic_scratchY ic + ic_scratchUV ic + ic_scratchArgb ic;
            budgetExceeded = (ic_memoryBudget ic \<noteq> 0 \<and>
              (bytes > ic_memoryBudget ic \<or> scratch > ic_memoryBudget ic - bytes))
        in n > ic_maxDetachedImages ic \<or> bytes > ic_maxDetachedBytes ic \<or> budgetExceeded)"

section \<open>Freeing an image\<close>

definition release_borrow :: "nat \<Rightarrow> ImageCache \<Rightarrow> ImageCache" where
  "release_borrow img ic =
     (case bi_borrowed (ic_image ic img) of
        None \<Rightarrow> ic
      | Some b \<Rightarrow>
          upd_image img (\<lambda>m. m\<lparr>bi_borrowed := None\<rparr>)
            (upd_image b (\<lambda>m. m\<lparr>bi_borrowCount := (if bi_borrowCount m \<noteq> 0 then bi_borrowCount m - 1 else 0)\<rparr>) ic))"

definition forget_surface :: "nat \<Rightarrow> ImageCache \<Rightarrow> ImageCache" where
  "forget_surface img ic =
     (case lk_surface (ic_link ic img) of
        Some s \<Rightarrow> ic\<lparr>ic_backing := (ic_backing ic)(s := None)\<rparr>
      | None \<Rightarrow> ic)"

definition free_image :: "nat \<Rightarrow> ImageCache \<Rightarrow> ImageCache" where
  "free_image img ic = ic\<lparr>ic_alive := ic_alive ic - {img}\<rparr>"

definition nvDestroyImportedBackingImage :: "nat \<Rightarrow> ImageCache \<Rightarrow> ImageCache" where
  "nvDestroyImportedBackingImage img ic =
     (if ic_cudaWorkUnsafe ic then ic
      else free_image img (release_borrow img (forget_surface img ic)))"

definition destroyBackingImage :: "nat \<Rightarrow> ImageCache \<Rightarrow> ImageCache" where
  "destroyBackingImage img ic =
     (if ic_cudaWorkUnsafe ic then ic
      else if bi_isExternalBuffer (ic_image ic img) then nvDestroyImportedBackingImage img ic
      else free_image img (release_borrow img (forget_surface img ic)))"

section \<open>Pruning\<close>

partial_function (option) first_prunable :: "ImageCache \<Rightarrow> nat option \<Rightarrow> nat option option" where
  "first_prunable ic img =
     (case img of
        None \<Rightarrow> Some None
      | Some i \<Rightarrow>
          if backingImageCanPrune ic i then Some (Some i)
          else first_prunable ic (lk_detachedNext (ic_link ic i)))"

definition remove_image_at :: "nat \<Rightarrow> ImageCache \<Rightarrow> ImageCache" where
  "remove_image_at k ic = ic\<lparr>ic_images := take k (ic_images ic) @ drop (Suc k) (ic_images ic)\<rparr>"

definition pruneOldestDetachedBackingImageLocked :: "ImageCache \<Rightarrow> (bool \<times> ImageCache) option" where
  "pruneOldestDetachedBackingImageLocked ic =
     (case first_prunable ic (ic_detachedHead ic) of
        None \<Rightarrow> None
      | Some None \<Rightarrow> Some (False, ic)
      | Some (Some img) \<Rightarrow>
          (case find (\<lambda>k. ic_images ic ! k = img) [0..<length (ic_images ic)] of
             None \<Rightarrow> Some (False, ic)
           | Some pruneIndex \<Rightarrow>
               Some (True, remove_image_at pruneIndex
                             (destroyBackingImage img (unlinkDetachedBackingImageLocked img ic)))))"

partial_function (option) prune_while :: "(ImageCache \<Rightarrow> bool) \<Rightarrow> ImageCache \<Rightarrow> ImageCache option" where
  "prune_while over ic =
     (if over ic
      then case pruneOldestDetachedBackingImageLocked ic of
             None \<Rightarrow> None
           | Some r \<Rightarrow> if fst r then prune_while over (snd r) else Some (snd r)
      else Some ic)"

definition over_limits :: "ImageCache \<Rightarrow> bool" where
  "over_limits ic = detachedBackingImagesOverLimit (ic_detachedBytes ic) (ic_detachedCount ic) ic"

definition pruneDetachedBackingImagesToLimits :: "ImageCache \<Rightarrow> ImageCache option" where
  "pruneDetachedBackingImagesToLimits ic = prune_while over_limits ic"

definition over_budget :: "u64 \<Rightarrow> ImageCache \<Rightarrow> bool" where
  "over_budget extraGpuBytes ic \<longleftrightarrow>
     extraGpuBytes > ic_memoryBudget ic \<or>
     ic_detachedBytes ic + (ic_scratchY ic + ic_scratchUV ic + ic_scratchArgb ic) > ic_memoryBudget ic - extraGpuBytes"

definition direct_pruneToMemoryBudget :: "u64 \<Rightarrow> ImageCache \<Rightarrow> (bool \<times> ImageCache) option" where
  "direct_pruneToMemoryBudget extraGpuBytes ic =
     (if ic_memoryBudget ic = 0 then Some (True, ic)
      else case prune_while (over_budget extraGpuBytes) ic of
             None \<Rightarrow> None
           | Some ic \<Rightarrow> Some (\<not> over_budget extraGpuBytes ic, ic))"

section \<open>Attaching and detaching\<close>

definition direct_attachBackingImageToSurface :: "nat \<Rightarrow> nat \<Rightarrow> ImageCache \<Rightarrow> ImageCache" where
  "direct_attachBackingImageToSurface surface img ic =
     upd_link img (\<lambda>l. l\<lparr>lk_surface := Some surface, lk_detachedSerial := 0\<rparr>)
       (ic\<lparr>ic_backing := (ic_backing ic)(surface := Some img)\<rparr>)"

text \<open>From the detached serial to the end of the critical section.\<close>

definition detach_image :: "nat \<Rightarrow> nat \<Rightarrow> ImageCache \<Rightarrow> ImageCache" where
  "detach_image surface img ic =
     (let serial = ic_detachedSerial ic + 1;
          ic = upd_link img (\<lambda>l. l\<lparr>lk_surface := None, lk_detachedSerial := serial\<rparr>)
                 (ic\<lparr>ic_detachedSerial := serial\<rparr>);
          ic = linkDetachedBackingImageLocked img ic
      in ic\<lparr>ic_backing := (ic_backing ic)(surface := None)\<rparr>)"

definition direct_detachBackingImageFromSurface :: "nat \<Rightarrow> ImageCache \<Rightarrow> ImageCache option" where
  "direct_detachBackingImageFromSurface surface ic =
     (case ic_backing ic surface of
        None \<Rightarrow> Some ic
      | Some img \<Rightarrow>
          if bi_isExternalBuffer (ic_image ic img) \<or> bi_borrowedCudaResources (ic_image ic img)
          then let ic = destroyBackingImage img ic
               in Some (ic\<lparr>ic_backing := (ic_backing ic)(surface := None)\<rparr>)
          else pruneDetachedBackingImagesToLimits (detach_image surface img ic))"

text \<open>
  The allocation of an image for a surface: \<open>answer n A\<close> is the \<open>n\<close>-th answer of the allocator when the images \<open>A\<close> are
  allocated, the address and the image or \<open>None\<close> for a failure. After a failure the oldest detached image is freed
  before the next attempt.
\<close>

partial_function (option) allocate_with_reclaim ::
    "(nat \<Rightarrow> nat set \<Rightarrow> (nat \<times> BackingImage) option) \<Rightarrow> nat \<Rightarrow> ImageCache \<Rightarrow> ((nat \<times> BackingImage) option \<times> ImageCache) option" where
  "allocate_with_reclaim answer n ic =
     (case answer n (ic_alive ic) of
        Some img \<Rightarrow> Some (Some img, ic)
      | None \<Rightarrow>
          (case pruneOldestDetachedBackingImageLocked ic of
             None \<Rightarrow> None
           | Some r \<Rightarrow> if fst r then allocate_with_reclaim answer (Suc n) (snd r) else Some (None, snd r)))"

definition new_image :: "nat \<Rightarrow> BackingImage \<Rightarrow> ImageCache \<Rightarrow> ImageCache" where
  "new_image img m ic =
     ic\<lparr>ic_image := (ic_image ic)(img := m), ic_link := (ic_link ic)(img := no_links),
        ic_alive := insert img (ic_alive ic)\<rparr>"

definition direct_realiseSurface ::
    "(nat \<Rightarrow> nat set \<Rightarrow> (nat \<times> BackingImage) option) \<Rightarrow> bool \<Rightarrow> nat \<Rightarrow> ImageCache \<Rightarrow> (bool \<times> ImageCache) option" where
  "direct_realiseSurface answer added surface ic =
     (if ic_backing ic surface \<noteq> None then Some (True, ic)
      else case allocate_with_reclaim answer 0 ic of
             None \<Rightarrow> None
           | Some (None, ic) \<Rightarrow> Some (False, ic)
           | Some (Some (img, m), ic) \<Rightarrow>
               let ic = direct_attachBackingImageToSurface surface img (new_image img m ic)
               in if added then Some (True, ic\<lparr>ic_images := ic_images ic @ [img]\<rparr>)
                  else Some (False, destroyBackingImage img
                              (upd_link img (\<lambda>l. l\<lparr>lk_surface := None\<rparr>)
                                (ic\<lparr>ic_backing := (ic_backing ic)(surface := None)\<rparr>))))"

text \<open>
  An imported image: a new structure for a surface without one, that may borrow the memory of an image \<open>b\<close> of
  the driver (\<open>createImportedBackingImageImpl\<close> and its caller).
\<close>

definition import_image :: "nat \<Rightarrow> nat \<Rightarrow> BackingImage \<Rightarrow> nat option \<Rightarrow> ImageCache \<Rightarrow> ImageCache" where
  "import_image surface img m borrow ic =
     (let ic = new_image img (m\<lparr>bi_borrowed := borrow, bi_borrowedCudaResources := (borrow \<noteq> None)\<rparr>) ic;
          ic = (case borrow of
                  None \<Rightarrow> ic
                | Some b \<Rightarrow> upd_image b (\<lambda>m. m\<lparr>bi_borrowCount := bi_borrowCount m + 1\<rparr>) ic)
      in upd_link img (\<lambda>l. l\<lparr>lk_surface := Some surface\<rparr>)
           (ic\<lparr>ic_backing := (ic_backing ic)(surface := Some img)\<rparr>))"

text \<open>The loop of \<open>direct_destroyAllBackingImage\<close>, from the last image of the array to the first.\<close>

fun destroy_all :: "nat \<Rightarrow> ImageCache \<Rightarrow> ImageCache" where
  "destroy_all 0 ic = ic"
| "destroy_all (Suc k) ic =
     (let it = ic_images ic ! k;
          ic = (if lk_detachedSerial (ic_link ic it) \<noteq> 0 then unlinkDetachedBackingImageLocked it ic else ic)
      in destroy_all k (remove_image_at k (destroyBackingImage it ic)))"

definition direct_destroyAllBackingImage :: "ImageCache \<Rightarrow> ImageCache" where
  "direct_destroyAllBackingImage ic = destroy_all (length (ic_images ic)) ic"

end
