(* ===== verification/BackingCacheInv.thy ===== *)
theory BackingCacheInv
  imports BackingCache
begin

text \<open>
  Correctness of the cache of detached images: the links form the list of exactly the images
  without a surface, in the order in which they were detached, with their number and bytes; and
  an image that an imported one borrows is never freed. \<open>seg lk p xs q\<close> says that the links along \<open>xs\<close> are
  right, between a predecessor \<open>p\<close> and a successor \<open>q\<close>.
\<close>

section \<open>Linked lists\<close>

definition first_of :: "'a option \<Rightarrow> 'a list \<Rightarrow> 'a option" where
  "first_of q xs = (case xs of [] \<Rightarrow> q | x # _ \<Rightarrow> Some x)"

definition last_of :: "'a option \<Rightarrow> 'a list \<Rightarrow> 'a option" where
  "last_of p xs = (if xs = [] then p else Some (last xs))"

lemma first_of_simps [simp]: "first_of q [] = q" "first_of q (x # xs) = Some x"
  by (simp_all add: first_of_def)

lemma last_of_simps [simp]:
  "last_of p [] = p" "last_of p (x # xs) = last_of (Some x) xs" "last_of p (xs @ [x]) = Some x"
  by (simp_all add: last_of_def)

lemma first_of_append [simp]: "first_of q (xs @ ys) = first_of (first_of q ys) xs"
  by (cases xs) simp_all

lemma last_of_append [simp]: "last_of p (xs @ ys) = last_of (last_of p xs) ys"
  by (simp add: last_of_def)

fun seg :: "(nat \<Rightarrow> image_link) \<Rightarrow> nat option \<Rightarrow> nat list \<Rightarrow> nat option \<Rightarrow> bool" where
  "seg lk p [] q \<longleftrightarrow> True"
| "seg lk p (x # xs) q \<longleftrightarrow>
     lk_detachedPrev (lk x) = p \<and> lk_detachedNext (lk x) = first_of q xs \<and> seg lk (Some x) xs q"

lemma seg_append: "seg lk p (xs @ ys) q \<longleftrightarrow> seg lk p xs (first_of q ys) \<and> seg lk (last_of p xs) ys q"
  by (induction xs arbitrary: p) auto

lemma seg_cong:
  "seg lk p xs q \<Longrightarrow> (\<And>x. x \<in> set xs \<Longrightarrow> lk_detachedPrev (lk' x) = lk_detachedPrev (lk x) \<and>
     lk_detachedNext (lk' x) = lk_detachedNext (lk x)) \<Longrightarrow> seg lk' p xs q"
  by (induction xs arbitrary: p) auto

text \<open>Giving the last element of a segment another successor, and the first another predecessor.\<close>

lemma seg_set_next:
  assumes "seg lk p (xs @ [x]) q" "x \<notin> set xs"
    and "\<And>y. y \<in> set xs \<Longrightarrow> lk_detachedPrev (lk' y) = lk_detachedPrev (lk y) \<and> lk_detachedNext (lk' y) = lk_detachedNext (lk y)"
    and "lk_detachedPrev (lk' x) = lk_detachedPrev (lk x)" "lk_detachedNext (lk' x) = q'"
  shows "seg lk' p (xs @ [x]) q'"
  using assms seg_cong [of lk p xs "Some x" lk'] by (simp add: seg_append)

lemma seg_set_prev:
  assumes "seg lk p (x # xs) q" "x \<notin> set xs"
    and "\<And>y. y \<in> set xs \<Longrightarrow> lk_detachedPrev (lk' y) = lk_detachedPrev (lk y) \<and> lk_detachedNext (lk' y) = lk_detachedNext (lk y)"
    and "lk_detachedNext (lk' x) = lk_detachedNext (lk x)" "lk_detachedPrev (lk' x) = p'"
  shows "seg lk' p' (x # xs) q"
  using assms seg_cong [of lk "Some x" xs q lk'] by simp

definition detached_list :: "ImageCache \<Rightarrow> nat list \<Rightarrow> bool" where
  "detached_list ic L \<longleftrightarrow> distinct L \<and> seg (ic_link ic) None L None \<and>
     ic_detachedHead ic = first_of None L \<and> ic_detachedTail ic = last_of None L"

lemma upd_link_simps [simp]:
  "ic_link (upd_link i f ic) = (ic_link ic)(i := f (ic_link ic i))"
  "ic_image (upd_link i f ic) = ic_image ic" "ic_backing (upd_link i f ic) = ic_backing ic"
  "ic_images (upd_link i f ic) = ic_images ic" "ic_alive (upd_link i f ic) = ic_alive ic"
  "ic_detachedHead (upd_link i f ic) = ic_detachedHead ic" "ic_detachedTail (upd_link i f ic) = ic_detachedTail ic"
  "ic_detachedBytes (upd_link i f ic) = ic_detachedBytes ic" "ic_detachedCount (upd_link i f ic) = ic_detachedCount ic"
  "ic_detachedSerial (upd_link i f ic) = ic_detachedSerial ic" "ic_cudaWorkUnsafe (upd_link i f ic) = ic_cudaWorkUnsafe ic"
  by (simp_all add: upd_link_def)

text \<open>The limits of the cache, which no operation changes.\<close>

definition limits_of :: "ImageCache \<Rightarrow> u32 \<times> u64 \<times> u64 \<times> u64 \<times> u64 \<times> u64" where
  "limits_of ic = (ic_maxDetachedImages ic, ic_maxDetachedBytes ic, ic_memoryBudget ic, ic_scratchY ic,
     ic_scratchUV ic, ic_scratchArgb ic)"

definition unlinked :: "nat \<Rightarrow> ImageCache \<Rightarrow> nat list \<Rightarrow> ImageCache \<Rightarrow> bool" where
  "unlinked x ic L' ic' \<longleftrightarrow> detached_list ic' L' \<and>
     (\<forall>i. lk_surface (ic_link ic' i) = lk_surface (ic_link ic i)) \<and>
     (\<forall>i. lk_detachedSerial (ic_link ic' i) = (if i = x then 0 else lk_detachedSerial (ic_link ic i))) \<and>
     ic_image ic' = ic_image ic \<and> ic_backing ic' = ic_backing ic \<and> ic_images ic' = ic_images ic \<and>
     ic_alive ic' = ic_alive ic \<and> ic_detachedSerial ic' = ic_detachedSerial ic \<and>
     ic_cudaWorkUnsafe ic' = ic_cudaWorkUnsafe ic \<and> limits_of ic' = limits_of ic"

lemma unlink_list:
  assumes d: "detached_list ic (xs @ x # ys)"
  shows "unlinked x ic (xs @ ys) (unlinkDetachedBackingImageLocked x ic)"
    "ic_detachedBytes (unlinkDetachedBackingImageLocked x ic) =
       (if ic_detachedBytes ic \<ge> backingImageMemorySize (ic_image ic x)
        then ic_detachedBytes ic - backingImageMemorySize (ic_image ic x) else 0)"
    "ic_detachedCount (unlinkDetachedBackingImageLocked x ic) =
       (if ic_detachedCount ic > 0 then ic_detachedCount ic - 1 else ic_detachedCount ic)"
proof -
  have dist: "distinct (xs @ x # ys)" and head: "ic_detachedHead ic = first_of None (xs @ x # ys)"
    and tail: "ic_detachedTail ic = last_of None (xs @ x # ys)"
    and sx: "seg (ic_link ic) None xs (Some x)" and sy: "seg (ic_link ic) (Some x) ys None"
    and prev: "lk_detachedPrev (ic_link ic x) = last_of None xs"
    and nxt: "lk_detachedNext (ic_link ic x) = first_of None ys"
    using d by (auto simp: detached_list_def seg_append)
  let ?u = "unlinkDetachedBackingImageLocked x ic"
  consider "xs = []" "ys = []" | y ys' where "xs = []" "ys = y # ys'"
    | xs' p where "xs = xs' @ [p]" "ys = []" | xs' p y ys' where "xs = xs' @ [p]" "ys = y # ys'"
    by (metis list.exhaust rev_exhaust)
  then have "unlinked x ic (xs @ ys) ?u \<and> ic_detachedBytes ?u =
       (if ic_detachedBytes ic \<ge> backingImageMemorySize (ic_image ic x)
        then ic_detachedBytes ic - backingImageMemorySize (ic_image ic x) else 0) \<and>
     ic_detachedCount ?u = (if ic_detachedCount ic > 0 then ic_detachedCount ic - 1 else ic_detachedCount ic)"
  proof cases
    case 1
    then show ?thesis using dist head tail prev nxt
      by (simp add: unlinked_def detached_list_def unlinkDetachedBackingImageLocked_def Let_def limits_of_def upd_link_def)
  next
    case 2
    have "seg (ic_link ?u) None (y # ys') None"
      by (rule seg_set_prev [OF sy [unfolded 2]])
        (use dist prev nxt 2 in \<open>auto simp: unlinkDetachedBackingImageLocked_def Let_def\<close>)
    then show ?thesis using dist head tail prev nxt 2
      by (simp add: unlinked_def detached_list_def unlinkDetachedBackingImageLocked_def Let_def limits_of_def upd_link_def)
  next
    case 3
    have "seg (ic_link ?u) None (xs' @ [p]) None"
      by (rule seg_set_next [OF sx [unfolded 3]])
        (use dist prev nxt 3 in \<open>auto simp: unlinkDetachedBackingImageLocked_def Let_def\<close>)
    then show ?thesis using dist head tail prev nxt 3
      by (simp add: unlinked_def detached_list_def unlinkDetachedBackingImageLocked_def Let_def limits_of_def upd_link_def)
  next
    case 4
    have "seg (ic_link ?u) None (xs' @ [p]) (Some y)"
      by (rule seg_set_next [OF sx [unfolded 4]])
        (use dist prev nxt 4 in \<open>auto simp: unlinkDetachedBackingImageLocked_def Let_def\<close>)
    moreover have "seg (ic_link ?u) (Some p) (y # ys') None"
      by (rule seg_set_prev [OF sy [unfolded 4]])
        (use dist prev nxt 4 in \<open>auto simp: unlinkDetachedBackingImageLocked_def Let_def\<close>)
    ultimately have "seg (ic_link ?u) None (xs @ ys) None" using 4 by (simp add: seg_append)
    then show ?thesis using dist head tail prev nxt 4
      by (simp add: unlinked_def detached_list_def unlinkDetachedBackingImageLocked_def Let_def limits_of_def upd_link_def)
  qed
  then show "unlinked x ic (xs @ ys) ?u"
    "ic_detachedBytes ?u = (if ic_detachedBytes ic \<ge> backingImageMemorySize (ic_image ic x)
        then ic_detachedBytes ic - backingImageMemorySize (ic_image ic x) else 0)"
    "ic_detachedCount ?u = (if ic_detachedCount ic > 0 then ic_detachedCount ic - 1 else ic_detachedCount ic)"
    by simp_all
qed

lemma link_list:
  assumes d: "detached_list ic L" and x: "x \<notin> set L"
  defines "ic' \<equiv> linkDetachedBackingImageLocked x ic"
  shows "detached_list ic' (L @ [x])"
    "\<And>i. lk_surface (ic_link ic' i) = lk_surface (ic_link ic i)"
    "\<And>i. lk_detachedSerial (ic_link ic' i) = lk_detachedSerial (ic_link ic i)"
    "ic_image ic' = ic_image ic" "ic_backing ic' = ic_backing ic" "ic_images ic' = ic_images ic"
    "ic_alive ic' = ic_alive ic" "ic_detachedSerial ic' = ic_detachedSerial ic"
    "ic_cudaWorkUnsafe ic' = ic_cudaWorkUnsafe ic" "limits_of ic' = limits_of ic"
    "ic_detachedBytes ic' = ic_detachedBytes ic + backingImageMemorySize (ic_image ic x)"
    "ic_detachedCount ic' = ic_detachedCount ic + 1"
proof -
  have dist: "distinct L" and head: "ic_detachedHead ic = first_of None L"
    and tail: "ic_detachedTail ic = last_of None L" and s: "seg (ic_link ic) None L None"
    using d by (auto simp: detached_list_def)
  have "detached_list ic' (L @ [x]) \<and> (\<forall>i. lk_surface (ic_link ic' i) = lk_surface (ic_link ic i)) \<and>
    (\<forall>i. lk_detachedSerial (ic_link ic' i) = lk_detachedSerial (ic_link ic i)) \<and>
    ic_image ic' = ic_image ic \<and> ic_backing ic' = ic_backing ic \<and> ic_images ic' = ic_images ic \<and>
    ic_alive ic' = ic_alive ic \<and> ic_detachedSerial ic' = ic_detachedSerial ic \<and>
    ic_cudaWorkUnsafe ic' = ic_cudaWorkUnsafe ic \<and> limits_of ic' = limits_of ic \<and>
    ic_detachedBytes ic' = ic_detachedBytes ic + backingImageMemorySize (ic_image ic x) \<and>
    ic_detachedCount ic' = ic_detachedCount ic + 1"
  proof (cases L rule: rev_exhaust)
    case Nil
    then show ?thesis using head tail
      by (simp add: ic'_def detached_list_def linkDetachedBackingImageLocked_def Let_def limits_of_def upd_link_def)
  next
    case (snoc L' t)
    have "seg (ic_link ic') None (L' @ [t]) (Some x)"
      by (rule seg_set_next [OF s [unfolded snoc]])
        (use dist tail x snoc in \<open>auto simp: ic'_def linkDetachedBackingImageLocked_def Let_def\<close>)
    then show ?thesis using dist head tail x snoc
      by (auto simp: ic'_def detached_list_def linkDetachedBackingImageLocked_def Let_def limits_of_def upd_link_def seg_append)
  qed
  then show "detached_list ic' (L @ [x])"
    "\<And>i. lk_surface (ic_link ic' i) = lk_surface (ic_link ic i)"
    "\<And>i. lk_detachedSerial (ic_link ic' i) = lk_detachedSerial (ic_link ic i)"
    "ic_image ic' = ic_image ic" "ic_backing ic' = ic_backing ic" "ic_images ic' = ic_images ic"
    "ic_alive ic' = ic_alive ic" "ic_detachedSerial ic' = ic_detachedSerial ic"
    "ic_cudaWorkUnsafe ic' = ic_cudaWorkUnsafe ic" "limits_of ic' = limits_of ic"
    "ic_detachedBytes ic' = ic_detachedBytes ic + backingImageMemorySize (ic_image ic x)"
    "ic_detachedCount ic' = ic_detachedCount ic + 1" by blast+
qed

text \<open>The search along the list ends, with the first image that can be freed.\<close>

lemma first_prunable_seg:
  "seg (ic_link ic) p xs q \<Longrightarrow>
   first_prunable ic (first_of q xs) =
     (case find (backingImageCanPrune ic) xs of Some i \<Rightarrow> Some (Some i) | None \<Rightarrow> first_prunable ic q)"
proof (induction xs arbitrary: p)
  case (Cons x xs)
  then show ?case using Cons.IH [of "Some x"] by (simp add: first_prunable.simps [of ic "Some x"])
qed simp

lemma first_prunable_list:
  assumes "detached_list ic L"
  shows "first_prunable ic (ic_detachedHead ic) = Some (find (backingImageCanPrune ic) L)"
  using assms first_prunable_seg [of ic None L None]
  by (auto simp: detached_list_def first_prunable.simps [of ic None] split: option.splits)

section \<open>The invariant\<close>

abbreviation image_size :: "ImageCache \<Rightarrow> nat \<Rightarrow> nat" where
  "image_size ic i \<equiv> unat (backingImageMemorySize (ic_image ic i))"

abbreviation own_image :: "BackingImage \<Rightarrow> bool" where
  "own_image m \<equiv> \<not> bi_isExternalBuffer m \<and> \<not> bi_borrowedCudaResources m \<and> bi_borrowed m = None"

text \<open>The images that borrow from \<open>b\<close>.\<close>

definition borrowers :: "ImageCache \<Rightarrow> nat \<Rightarrow> nat set" where
  "borrowers ic b = {m \<in> ic_alive ic. bi_borrowed (ic_image ic m) = Some b}"

definition listed_images :: "ImageCache \<Rightarrow> nat list \<Rightarrow> bool" where
  "listed_images ic L \<longleftrightarrow> distinct (ic_images ic) \<and> set (ic_images ic) \<subseteq> ic_alive ic \<and> length (ic_images ic) < 2 ^ 30 \<and>
     set L = {i \<in> set (ic_images ic). lk_surface (ic_link ic i) = None} \<and>
     (\<forall>i \<in> set (ic_images ic). own_image (ic_image ic i) \<and> image_size ic i < 2 ^ 34)"

definition detached_order :: "ImageCache \<Rightarrow> nat list \<Rightarrow> bool" where
  "detached_order ic L \<longleftrightarrow>
     sorted_wrt (\<lambda>i j. lk_detachedSerial (ic_link ic i) < lk_detachedSerial (ic_link ic j)) L \<and>
     (\<forall>i \<in> set L. lk_detachedSerial (ic_link ic i) \<le> ic_detachedSerial ic) \<and>
     (\<forall>i \<in> set (ic_images ic). lk_detachedSerial (ic_link ic i) \<noteq> 0 \<longleftrightarrow> i \<in> set L)"

definition detached_sums :: "ImageCache \<Rightarrow> nat list \<Rightarrow> bool" where
  "detached_sums ic L \<longleftrightarrow> unat (ic_detachedBytes ic) = sum_list (map (image_size ic) L) \<and>
     unat (ic_detachedCount ic) = length L"

definition surfaces_linked :: "ImageCache \<Rightarrow> bool" where
  "surfaces_linked ic \<longleftrightarrow>
     (\<forall>s i. ic_backing ic s = Some i \<longleftrightarrow> i \<in> ic_alive ic \<and> lk_surface (ic_link ic i) = Some s) \<and>
     (\<forall>i \<in> ic_alive ic - set (ic_images ic). bi_isExternalBuffer (ic_image ic i) \<and> lk_surface (ic_link ic i) \<noteq> None)"

definition borrows_counted :: "ImageCache \<Rightarrow> bool" where
  "borrows_counted ic \<longleftrightarrow> finite (ic_alive ic) \<and>
     (\<forall>m \<in> ic_alive ic. \<forall>b. bi_borrowed (ic_image ic m) = Some b \<longrightarrow> b \<in> set (ic_images ic)) \<and>
     (\<forall>b \<in> set (ic_images ic). unat (bi_borrowCount (ic_image ic b)) = card (borrowers ic b))"

definition cache_inv :: "ImageCache \<Rightarrow> nat list \<Rightarrow> bool" where
  "cache_inv ic L \<longleftrightarrow> \<not> ic_cudaWorkUnsafe ic \<and> detached_list ic L \<and> listed_images ic L \<and> detached_order ic L \<and>
     detached_sums ic L \<and> surfaces_linked ic \<and> borrows_counted ic"

lemma cache_invD:
  assumes "cache_inv ic L"
  shows "\<not> ic_cudaWorkUnsafe ic" "detached_list ic L" "listed_images ic L" "detached_order ic L"
    "detached_sums ic L" "surfaces_linked ic" "borrows_counted ic"
  using assms by (simp_all add: cache_inv_def)

lemma cache_bounds:
  assumes "cache_inv ic L" and L': "set L' \<subseteq> set (ic_images ic)" "distinct L'"
  shows "length L' < 2 ^ 30" "sum_list (map (image_size ic) L') < 2 ^ 64"
proof -
  note l = cache_invD(3) [OF assms(1), unfolded listed_images_def]
  have "card (set L') \<le> card (set (ic_images ic))" by (rule card_mono) (use L' in auto)
  then have n: "length L' \<le> length (ic_images ic)" using L'(2) l by (simp add: distinct_card)
  then show "length L' < 2 ^ 30" using l by simp
  have "sum_list (map (image_size ic) L') \<le> sum_list (map (\<lambda>_. 2 ^ 34) L')"
    by (rule sum_list_mono) (use l L' in \<open>auto intro: less_imp_le\<close>)
  also have "\<dots> = length L' * 2 ^ 34" by (simp add: sum_list_triv)
  also have "\<dots> < 2 ^ 30 * 2 ^ 34" using n l by simp
  finally show "sum_list (map (image_size ic) L') < 2 ^ 64" by simp
qed

section \<open>Freeing the oldest image\<close>

text \<open>\<open>freed ic F ic'\<close>: the images of \<open>F\<close> are gone, and nothing else has changed that matters.\<close>

definition freed :: "ImageCache \<Rightarrow> nat set \<Rightarrow> ImageCache \<Rightarrow> bool" where
  "freed ic F ic' \<longleftrightarrow> ic_images ic' = filter (\<lambda>i. i \<notin> F) (ic_images ic) \<and> ic_alive ic' = ic_alive ic - F \<and>
     ic_image ic' = ic_image ic \<and> ic_backing ic' = ic_backing ic \<and>
     (\<forall>i. lk_surface (ic_link ic' i) = lk_surface (ic_link ic i)) \<and>
     ic_detachedSerial ic' = ic_detachedSerial ic \<and> limits_of ic' = limits_of ic"

lemma freed_refl: "freed ic {} ic" by (simp add: freed_def)

lemma freed_length: "freed ic F ic' \<Longrightarrow> length (ic_images ic') \<le> length (ic_images ic)"
  unfolding freed_def by (metis length_filter_le)

lemma freed_trans: "freed ic F ic1 \<Longrightarrow> freed ic1 G ic2 \<Longrightarrow> freed ic (F \<union> G) ic2"
  by (auto simp: freed_def intro: filter_cong)

lemma find_index_distinct:
  assumes "distinct xs" "k < length xs"
  shows "find (\<lambda>j. xs ! j = xs ! k) [0..<length xs] = Some k"
  using assms by (auto simp: find_Some_iff nth_eq_iff_index_eq intro!: exI [of _ k])

lemma remove_nth_filter:
  "distinct xs \<Longrightarrow> k < length xs \<Longrightarrow> take k xs @ drop (Suc k) xs = filter (\<lambda>i. i \<noteq> xs ! k) xs"
proof -
  assume d: "distinct xs" and k: "k < length xs"
  have x: "xs = take k xs @ xs ! k # drop (Suc k) xs" using k by (simp add: id_take_nth_drop)
  have "distinct (take k xs @ xs ! k # drop (Suc k) xs)" using d x by simp
  then have "filter (\<lambda>i. i \<noteq> xs ! k) (take k xs) = take k xs" "filter (\<lambda>i. i \<noteq> xs ! k) (drop (Suc k) xs) = drop (Suc k) xs"
    by (auto intro!: filter_True)
  then have "filter (\<lambda>i. i \<noteq> xs ! k) (take k xs @ xs ! k # drop (Suc k) xs) = take k xs @ drop (Suc k) xs"
    by simp
  then show ?thesis using x by simp
qed

lemma prune_none:
  assumes inv: "cache_inv ic L" and n: "find (backingImageCanPrune ic) L = None"
  shows "pruneOldestDetachedBackingImageLocked ic = Some (False, ic)"
  using first_prunable_list [OF cache_invD(2) [OF inv]] n
  by (simp add: pruneOldestDetachedBackingImageLocked_def)

lemma prune_one:
  assumes inv: "cache_inv ic (xs @ x # ys)" and p: "backingImageCanPrune ic x"
    and first: "\<forall>y \<in> set xs. \<not> backingImageCanPrune ic y"
  shows "\<exists>ic'. pruneOldestDetachedBackingImageLocked ic = Some (True, ic') \<and> cache_inv ic' (xs @ ys) \<and> freed ic {x} ic'"
proof -
  let ?L = "xs @ x # ys"
  note l = cache_invD(3) [OF inv, unfolded listed_images_def]
  let ?u = "unlinkDetachedBackingImageLocked x ic"
  note u = unlink_list [OF cache_invD(2) [OF inv]]
  note uu = u(1) [unfolded unlinked_def]
  have xi: "x \<in> set (ic_images ic)" "lk_surface (ic_link ic x) = None" "x \<in> ic_alive ic" using l by auto
  have own: "own_image (ic_image ic x)" using l xi by blast
  obtain k where k: "k < length (ic_images ic)" "ic_images ic ! k = x" using xi(1) by (auto simp: in_set_conv_nth)
  have fk: "find (\<lambda>j. ic_images ic ! j = x) [0..<length (ic_images ic)] = Some k"
    using find_index_distinct [of "ic_images ic" k] l k by simp
  have ff: "find (backingImageCanPrune ic) ?L = Some x"
  proof -
    have "find (backingImageCanPrune ic) xs = None" using first by (simp add: find_None_iff)
    then have "find (backingImageCanPrune ic) (xs @ x # ys) = find (backingImageCanPrune ic) (x # ys)"
      by (induction xs) (auto split: if_splits)
    then show ?thesis using p by simp
  qed
  define ic' where "ic' = remove_image_at k (destroyBackingImage x ?u)"
  have destroy: "destroyBackingImage x ?u = free_image x ?u"
    using uu own xi cache_invD(1) [OF inv]
    by (simp add: destroyBackingImage_def forget_surface_def release_borrow_def)
  have run: "pruneOldestDetachedBackingImageLocked ic = Some (True, ic')"
    using first_prunable_list [OF cache_invD(2) [OF inv]] ff fk
    by (simp add: pruneOldestDetachedBackingImageLocked_def ic'_def)
  have f: "ic_link ic' = ic_link ?u" "ic_image ic' = ic_image ic" "ic_backing ic' = ic_backing ic"
    "ic_images ic' = filter (\<lambda>i. i \<noteq> x) (ic_images ic)" "ic_alive ic' = ic_alive ic - {x}"
    "ic_detachedSerial ic' = ic_detachedSerial ic" "\<not> ic_cudaWorkUnsafe ic'" "limits_of ic' = limits_of ic"
    "ic_detachedHead ic' = ic_detachedHead ?u" "ic_detachedTail ic' = ic_detachedTail ?u"
    "ic_detachedBytes ic' = ic_detachedBytes ?u" "ic_detachedCount ic' = ic_detachedCount ?u"
    using uu l k remove_nth_filter [of "ic_images ic" k] cache_invD(1) [OF inv]
    unfolding ic'_def destroy by (simp_all add: remove_image_at_def free_image_def limits_of_def)
  have fr: "freed ic {x} ic'" using f uu by (simp add: freed_def)
  have dl: "detached_list ic' (xs @ ys)" using uu f by (simp add: detached_list_def)
  have dist: "distinct (xs @ x # ys)" using cache_invD(2) [OF inv] by (simp add: detached_list_def)
  have size: "image_size ic' = image_size ic" using f by simp
  have "listed_images ic' (xs @ ys)"
    using l dist f uu le_less_trans [OF length_filter_le] unfolding listed_images_def by auto
  moreover have "detached_order ic' (xs @ ys)"
  proof -
    note o = cache_invD(4) [OF inv, unfolded detached_order_def]
    have "lk_detachedSerial (ic_link ic' i) = lk_detachedSerial (ic_link ic i)" if "i \<noteq> x" for i
      using that uu f(1) by simp
    moreover have "x \<notin> set (xs @ ys)" using dist by simp
    moreover have "sorted_wrt (\<lambda>i j. lk_detachedSerial (ic_link ic i) < lk_detachedSerial (ic_link ic j)) (xs @ ys)"
      using o by (simp add: sorted_wrt_append)
    ultimately have "sorted_wrt (\<lambda>i j. lk_detachedSerial (ic_link ic' i) < lk_detachedSerial (ic_link ic' j)) (xs @ ys)"
      by (metis (no_types, lifting) sorted_wrt_mono_rel)
    then show ?thesis using o dist f uu by (auto simp: detached_order_def)
  qed
  moreover have "detached_sums ic' (xs @ ys)"
  proof -
    have s: "unat (ic_detachedBytes ic) = sum_list (map (image_size ic) (xs @ x # ys))"
      "unat (ic_detachedCount ic) = length (xs @ x # ys)"
      using cache_invD(5) [OF inv] by (simp_all add: detached_sums_def)
    have b: "backingImageMemorySize (ic_image ic x) \<le> ic_detachedBytes ic" using s(1) by (simp add: word_le_nat_alt)
    have c: "1 \<le> ic_detachedCount ic" using s(2) by (simp add: word_le_nat_alt)
    have "ic_detachedCount ic > 0" using s(2) by (simp add: word_less_nat_alt)
    then show ?thesis using s b c f u(2,3) unat_sub [OF b] unat_sub [OF c]
      by (simp add: detached_sums_def size)
  qed
  moreover have "surfaces_linked ic'"
    using cache_invD(6) [OF inv] xi f uu by (auto simp: surfaces_linked_def)
  moreover have "borrows_counted ic'"
  proof -
    note b = cache_invD(7) [OF inv, unfolded borrows_counted_def]
    have "card (borrowers ic x) = 0" using b xi(1) p by (metis backingImageCanPrune_def unat_0)
    moreover have "finite (borrowers ic x)" using b by (simp add: borrowers_def)
    ultimately have "borrowers ic x = {}" by simp
    then have none: "bi_borrowed (ic_image ic m) \<noteq> Some x" if "m \<in> ic_alive ic" for m
      using that unfolding borrowers_def by blast
    have same: "borrowers ic' e = borrowers ic e" for e
      using own unfolding borrowers_def f(2,5) by auto
    show ?thesis
      unfolding borrows_counted_def f(2,4,5) same
    proof (intro conjI ballI allI impI)
      show "finite (ic_alive ic - {x})" using b by simp
      show "e \<in> set (filter (\<lambda>i. i \<noteq> x) (ic_images ic))"
        if "m \<in> ic_alive ic - {x}" "bi_borrowed (ic_image ic m) = Some e" for m e
        using that none [of m] b by auto
      show "unat (bi_borrowCount (ic_image ic e)) = card (borrowers ic e)"
        if "e \<in> set (filter (\<lambda>i. i \<noteq> x) (ic_images ic))" for e using that b by simp
    qed
  qed
  ultimately show ?thesis using run fr dl f(7) by (auto simp: cache_inv_def)
qed

lemma canPrune_freed: "freed ic F ic' \<Longrightarrow> backingImageCanPrune ic' = backingImageCanPrune ic"
  by (simp add: freed_def backingImageCanPrune_def fun_eq_iff)

lemma find_split:
  assumes "find P L = Some x"
  shows "\<exists>xs ys. L = xs @ x # ys \<and> (\<forall>y \<in> set xs. \<not> P y) \<and> P x"
proof -
  obtain i where i: "i < length L" "P (L ! i)" "x = L ! i" "\<forall>j < i. \<not> P (L ! j)"
    using assms by (auto simp: find_Some_iff)
  show ?thesis
  proof (intro exI conjI)
    show "L = take i L @ x # drop (Suc i) L" using i by (simp add: id_take_nth_drop)
    show "\<forall>y \<in> set (take i L). \<not> P y" using i by (auto simp: in_set_conv_nth)
    show "P x" using i by simp
  qed
qed

text \<open>
  Pruning takes the images that no one borrows from the old end of the list: the first \<open>k\<close> images
  lose those, the rest is kept; it stops within the limits or when nothing is left to free.
\<close>

abbreviation kept :: "ImageCache \<Rightarrow> nat \<Rightarrow> nat list \<Rightarrow> nat list" where
  "kept ic k L \<equiv> filter (\<lambda>i. \<not> backingImageCanPrune ic i) (take k L) @ drop k L"

abbreviation dropped :: "ImageCache \<Rightarrow> nat \<Rightarrow> nat list \<Rightarrow> nat list" where
  "dropped ic k L \<equiv> filter (backingImageCanPrune ic) (take k L)"

lemma kept_after_one:
  assumes "\<forall>y \<in> set xs. \<not> backingImageCanPrune ic y" "backingImageCanPrune ic x"
  shows "kept ic (Suc (max k (length xs))) (xs @ x # ys) = kept ic k (xs @ ys)"
    "set (dropped ic (Suc (max k (length xs))) (xs @ x # ys)) = insert x (set (dropped ic k (xs @ ys)))"
proof -
  have xs: "filter (\<lambda>i. \<not> backingImageCanPrune ic i) xs = xs" "filter (backingImageCanPrune ic) xs = []"
    using assms(1) by (simp_all add: filter_empty_conv)
  have t: "filter (\<lambda>i. \<not> backingImageCanPrune ic i) (take k xs) = take k xs" "filter (backingImageCanPrune ic) (take k xs) = []"
    using assms(1) by (auto simp: filter_empty_conv dest: in_set_takeD intro!: filter_True)
  show "kept ic (Suc (max k (length xs))) (xs @ x # ys) = kept ic k (xs @ ys)"
  proof (cases "k \<le> length xs")
    case True
    then show ?thesis using assms(2) xs t by (simp add: max_def)
  next
    case False
    then obtain j where k: "k = length xs + j" by (metis nat_le_iff_add nle_le)
    have m: "Suc (max k (length xs)) = length xs + Suc j" using k by simp
    show ?thesis unfolding m k using assms(2) xs by simp
  qed
  show "set (dropped ic (Suc (max k (length xs))) (xs @ x # ys)) = insert x (set (dropped ic k (xs @ ys)))"
  proof (cases "k \<le> length xs")
    case True
    then show ?thesis using assms(2) xs t by (simp add: max_def)
  next
    case False
    then obtain j where k: "k = length xs + j" by (metis nat_le_iff_add nle_le)
    have m: "Suc (max k (length xs)) = length xs + Suc j" using k by simp
    show ?thesis unfolding m k using assms(2) xs by simp
  qed
qed

lemma prune_while_list:
  "cache_inv ic L \<Longrightarrow>
   \<exists>ic' k. prune_while over ic = Some ic' \<and> cache_inv ic' (kept ic k L) \<and> freed ic (set (dropped ic k L)) ic' \<and>
     (\<not> over ic' \<or> (\<forall>i \<in> set (kept ic k L). \<not> backingImageCanPrune ic i))"
proof (induction "length L" arbitrary: ic L)
  case 0
  then have "pruneOldestDetachedBackingImageLocked ic = Some (False, ic)" using prune_none by simp
  then show ?case using 0 freed_refl
    by (intro exI [of _ ic] exI [of _ 0]) (simp add: prune_while.simps [of over ic])
next
  case (Suc n)
  show ?case
  proof (cases "over ic")
    case False
    then show ?thesis using Suc.prems freed_refl
      by (intro exI [of _ ic] exI [of _ 0]) (simp add: prune_while.simps [of over ic])
  next
    case over: True
    show ?thesis
    proof (cases "find (backingImageCanPrune ic) L")
      case None
      then have "\<forall>i \<in> set L. \<not> backingImageCanPrune ic i" by (auto simp: find_None_iff)
      then show ?thesis using Suc.prems prune_none [OF Suc.prems None] freed_refl
        by (intro exI [of _ ic] exI [of _ 0]) (simp add: prune_while.simps [of over ic])
    next
      case (Some x)
      then obtain xs ys where L: "L = xs @ x # ys" and xs: "\<forall>y \<in> set xs. \<not> backingImageCanPrune ic y"
        and x: "backingImageCanPrune ic x" using find_split [OF Some] by blast
      obtain ic1 where run: "pruneOldestDetachedBackingImageLocked ic = Some (True, ic1)"
        and inv1: "cache_inv ic1 (xs @ ys)" and fr: "freed ic {x} ic1"
        using prune_one [OF Suc.prems [unfolded L] x xs] by blast
      note same = canPrune_freed [OF fr]
      have "n = length (xs @ ys)" using Suc.hyps(2) L by simp
      from Suc.hyps(1) [OF this inv1] obtain ic' k where k: "prune_while over ic1 = Some ic'"
        "cache_inv ic' (kept ic k (xs @ ys))" "freed ic1 (set (dropped ic k (xs @ ys))) ic'"
        "\<not> over ic' \<or> (\<forall>i \<in> set (kept ic k (xs @ ys)). \<not> backingImageCanPrune ic i)"
        unfolding same by blast
      define K where "K = Suc (max k (length xs))"
      note K = kept_after_one [OF xs x, of k ys, folded K_def L]
      have w: "prune_while over ic = Some ic'" using over run k(1) by (simp add: prune_while.simps [of over ic])
      have f: "freed ic (set (dropped ic K L)) ic'" using freed_trans [OF fr k(3)] unfolding K(2) by simp
      show ?thesis
      proof (intro exI conjI)
        show "prune_while over ic = Some ic'" by (rule w)
        show "cache_inv ic' (kept ic K L)" using k(2) unfolding K(1) .
        show "freed ic (set (dropped ic K L)) ic'" by (rule f)
        show "\<not> over ic' \<or> (\<forall>i \<in> set (kept ic K L). \<not> backingImageCanPrune ic i)" using k(4) unfolding K(1) .
      qed
    qed
  qed
qed

section \<open>Every operation keeps the invariant\<close>

text \<open>Only what the images in memory look like matters.\<close>

lemma cache_inv_cong:
  assumes inv: "cache_inv ic L"
    and im: "\<And>i. i \<in> ic_alive ic \<Longrightarrow> ic_image ic' i = ic_image ic i"
    and lk: "\<And>i. i \<in> ic_alive ic \<Longrightarrow> ic_link ic' i = ic_link ic i"
    and f: "ic_backing ic' = ic_backing ic" "ic_images ic' = ic_images ic" "ic_alive ic' = ic_alive ic"
      "ic_detachedHead ic' = ic_detachedHead ic" "ic_detachedTail ic' = ic_detachedTail ic"
      "ic_detachedBytes ic' = ic_detachedBytes ic" "ic_detachedCount ic' = ic_detachedCount ic"
      "ic_detachedSerial ic' = ic_detachedSerial ic" "ic_cudaWorkUnsafe ic' = ic_cudaWorkUnsafe ic"
  shows "cache_inv ic' L"
proof -
  note l = cache_invD(3) [OF inv, unfolded listed_images_def]
  have alive: "i \<in> ic_alive ic" if "i \<in> set (ic_images ic)" for i using that l by blast
  have La: "i \<in> ic_alive ic" if "i \<in> set L" for i using that l by blast
  have "detached_list ic' L"
    using cache_invD(2) [OF inv] seg_cong [of "ic_link ic" None L None "ic_link ic'"] lk La
    by (simp add: detached_list_def f)
  moreover have "listed_images ic' L"
    using l alive im lk unfolding listed_images_def f by auto
  moreover have "detached_order ic' L"
  proof -
    note o = cache_invD(4) [OF inv, unfolded detached_order_def]
    have "sorted_wrt (\<lambda>i j. lk_detachedSerial (ic_link ic' i) < lk_detachedSerial (ic_link ic' j)) L"
      by (rule sorted_wrt_mono_rel [OF _ conjunct1 [OF o]]) (use lk La in simp)
    then show ?thesis using o lk La alive by (simp add: detached_order_def f)
  qed
  moreover have "detached_sums ic' L"
  proof -
    have "map (image_size ic') L = map (image_size ic) L" by (rule map_cong) (use im La in simp_all)
    then show ?thesis using cache_invD(5) [OF inv] unfolding detached_sums_def f by metis
  qed
  moreover have "surfaces_linked ic'"
  proof -
    note s = cache_invD(6) [OF inv, unfolded surfaces_linked_def]
    show ?thesis unfolding surfaces_linked_def f
    proof (intro conjI allI ballI)
      show "(ic_backing ic s = Some i) = (i \<in> ic_alive ic \<and> lk_surface (ic_link ic' i) = Some s)" for s i
        using s lk [of i] by metis
    qed (use s lk im in auto)
  qed
  moreover have "borrows_counted ic'"
  proof -
    note b = cache_invD(7) [OF inv, unfolded borrows_counted_def]
    have "borrowers ic' e = borrowers ic e" for e unfolding borrowers_def f using im by auto
    then show ?thesis using b im alive by (simp add: borrows_counted_def f)
  qed
  ultimately show ?thesis using cache_invD(1) [OF inv] by (simp add: cache_inv_def f)
qed

lemma detach_image_inv:
  assumes inv: "cache_inv ic L" and s: "ic_backing ic s = Some i" and own: "\<not> bi_isExternalBuffer (ic_image ic i)"
    and serial: "ic_detachedSerial ic \<noteq> UINT64_MAX"
  shows "cache_inv (detach_image s i ic) (L @ [i])"
    "ic_image (detach_image s i ic) = ic_image ic" "ic_images (detach_image s i ic) = ic_images ic"
    "ic_alive (detach_image s i ic) = ic_alive ic" "ic_backing (detach_image s i ic) = (ic_backing ic)(s := None)"
    "\<And>j. lk_surface (ic_link (detach_image s i ic) j) = (if j = i then None else lk_surface (ic_link ic j))"
    "limits_of (detach_image s i ic) = limits_of ic"
proof -
  let ?serial = "ic_detachedSerial ic + 1"
  define ic1 where "ic1 = upd_link i (\<lambda>l. l\<lparr>lk_surface := None, lk_detachedSerial := ?serial\<rparr>)
                            (ic\<lparr>ic_detachedSerial := ?serial\<rparr>)"
  define ic2 where "ic2 = linkDetachedBackingImageLocked i ic1"
  have d: "detach_image s i ic = ic2\<lparr>ic_backing := (ic_backing ic2)(s := None)\<rparr>"
    by (simp add: detach_image_def ic1_def ic2_def Let_def)
  note l = cache_invD(3) [OF inv, unfolded listed_images_def]
  note sl = cache_invD(6) [OF inv, unfolded surfaces_linked_def]
  have i: "i \<in> ic_alive ic" "lk_surface (ic_link ic i) = Some s" using s sl by blast+
  then have ii: "i \<in> set (ic_images ic)" using sl own by blast
  have iL: "i \<notin> set L" using l i by simp
  have "seg (ic_link ic1) None L None"
    by (rule seg_cong [of "ic_link ic"]) (use cache_invD(2) [OF inv] iL in \<open>auto simp: ic1_def detached_list_def\<close>)
  then have "detached_list ic1 L"
    using cache_invD(2) [OF inv] by (simp add: detached_list_def) (simp add: ic1_def)
  note lk = link_list [OF this iL, folded ic2_def]
  have f1: "ic_image ic1 = ic_image ic" "ic_images ic1 = ic_images ic" "ic_alive ic1 = ic_alive ic"
    "ic_backing ic1 = ic_backing ic" "limits_of ic1 = limits_of ic" "ic_detachedSerial ic1 = ?serial"
    "ic_detachedBytes ic1 = ic_detachedBytes ic" "ic_detachedCount ic1 = ic_detachedCount ic"
    "\<not> ic_cudaWorkUnsafe ic1"
    using cache_invD(1) [OF inv] by (simp_all add: ic1_def limits_of_def upd_link_def)
  have surf: "lk_surface (ic_link ic2 j) = (if j = i then None else lk_surface (ic_link ic j))" for j
    using lk(2) by (simp add: ic1_def)
  have ser: "lk_detachedSerial (ic_link ic2 j) = (if j = i then ?serial else lk_detachedSerial (ic_link ic j))" for j
    using lk(3) by (simp add: ic1_def)
  have "unat (ic_detachedSerial ic) + 1 < 2 ^ 64"
  proof -
    have "unat (ic_detachedSerial ic) \<noteq> unat UINT64_MAX" using serial by (simp only: word_unat_eq_iff) simp
    then show ?thesis using unat_u64_less [of "ic_detachedSerial ic"] by simp
  qed
  then have us: "unat ?serial = unat (ic_detachedSerial ic) + 1" by (simp add: unat_add_no_overflow)
  let ?d = "detach_image s i ic"
  have f: "ic_image ?d = ic_image ic" "ic_images ?d = ic_images ic" "ic_alive ?d = ic_alive ic"
    "ic_backing ?d = (ic_backing ic)(s := None)" "limits_of ?d = limits_of ic" "ic_link ?d = ic_link ic2"
    "ic_detachedSerial ?d = ?serial" "\<not> ic_cudaWorkUnsafe ?d"
    "ic_detachedBytes ?d = ic_detachedBytes ic + backingImageMemorySize (ic_image ic i)"
    "ic_detachedCount ?d = ic_detachedCount ic + 1"
    unfolding d using f1 lk by (simp_all add: limits_of_def)
  show "ic_image ?d = ic_image ic" "ic_images ?d = ic_images ic" "ic_alive ?d = ic_alive ic"
    "ic_backing ?d = (ic_backing ic)(s := None)" "limits_of ?d = limits_of ic" by (fact f)+
  show "lk_surface (ic_link ?d j) = (if j = i then None else lk_surface (ic_link ic j))" for j
    using surf f(6) by simp
  have "detached_list ?d (L @ [i])" using lk(1) unfolding d by (simp add: detached_list_def)
  moreover have "listed_images ?d (L @ [i])"
    using l ii iL unfolding listed_images_def f(1-3,6) surf by auto
  moreover have "detached_order ?d (L @ [i])"
  proof -
    note o = cache_invD(4) [OF inv, unfolded detached_order_def]
    have "sorted_wrt (\<lambda>i j. lk_detachedSerial (ic_link ic2 i) < lk_detachedSerial (ic_link ic2 j)) L"
      by (rule sorted_wrt_mono_rel [OF _ conjunct1 [OF o]]) (use iL ser in auto)
    moreover have old: "lk_detachedSerial (ic_link ic2 j) < ?serial" if "j \<in> set L" for j
    proof -
      have "lk_detachedSerial (ic_link ic j) \<le> ic_detachedSerial ic" "j \<noteq> i" using o that iL by auto
      then show ?thesis using us by (simp add: ser word_less_nat_alt word_le_nat_alt)
    qed
    moreover have "?serial \<noteq> 0" using us by (metis Suc_eq_plus1 nat.distinct(1) unat_0)
    moreover have "\<forall>j \<in> set (L @ [i]). lk_detachedSerial (ic_link ic2 j) \<le> ?serial"
      using old [THEN less_imp_le] ser [of i] by simp
    moreover have "\<forall>j \<in> set (ic_images ic). lk_detachedSerial (ic_link ic2 j) \<noteq> 0 \<longleftrightarrow> j \<in> set (L @ [i])"
      using o \<open>?serial \<noteq> 0\<close> by (simp add: ser)
    ultimately show ?thesis
      using ser [of i] unfolding detached_order_def f(2,6,7) by (simp add: sorted_wrt_append)
  qed
  moreover have "detached_sums ?d (L @ [i])"
  proof -
    note sums = cache_invD(5) [OF inv, unfolded detached_sums_def]
    have "set (L @ [i]) \<subseteq> set (ic_images ic)" using l ii by auto
    moreover have "distinct (L @ [i])" using cache_invD(2) [OF inv] iL by (simp add: detached_list_def)
    ultimately have b: "length (L @ [i]) < 2 ^ 30" "sum_list (map (image_size ic) (L @ [i])) < 2 ^ 64"
      using cache_bounds [OF inv] by blast+
    have "unat (ic_detachedBytes ic + backingImageMemorySize (ic_image ic i)) =
        unat (ic_detachedBytes ic) + image_size ic i"
      by (rule unat_add_no_overflow) (use sums b in simp)
    moreover have "unat (ic_detachedCount ic + 1) = unat (ic_detachedCount ic) + unat (1 :: u32)"
      by (rule unat_add_no_overflow) (use sums b in simp)
    ultimately show ?thesis using sums by (simp add: detached_sums_def f)
  qed
  moreover have "surfaces_linked ?d"
    unfolding surfaces_linked_def f(1-4,6) surf
  proof (intro conjI allI ballI)
    show "(((ic_backing ic)(s := None)) t = Some j) \<longleftrightarrow>
        j \<in> ic_alive ic \<and> (if j = i then None else lk_surface (ic_link ic j)) = Some t" for t j
      using sl s by (cases "t = s"; cases "j = i") (auto, metis option.inject)
  qed (use sl ii in auto)
  moreover have "borrows_counted ?d"
  proof -
    have "borrowers ?d = borrowers ic" by (simp add: borrowers_def f fun_eq_iff)
    then show ?thesis using cache_invD(7) [OF inv] by (simp add: borrows_counted_def f)
  qed
  ultimately show "cache_inv ?d (L @ [i])" using f(8) by (simp add: cache_inv_def)
qed

lemma no_image_of_surface:
  assumes "surfaces_linked ic" "ic_backing ic s = None" "j \<in> ic_alive ic"
  shows "lk_surface (ic_link ic j) \<noteq> Some s"
proof
  assume "lk_surface (ic_link ic j) = Some s"
  then have "ic_backing ic s = Some j" using assms(1,3) unfolding surfaces_linked_def by blast
  then show False using assms(2) by simp
qed

text \<open>A new image of the driver, attached to a surface; whether or not it can be added to the array.\<close>

definition fresh_image :: "nat \<Rightarrow> BackingImage \<Rightarrow> ImageCache \<Rightarrow> bool" where
  "fresh_image img m ic \<longleftrightarrow> img \<notin> ic_alive ic \<and> own_image m \<and> bi_borrowCount m = 0 \<and>
     unat (backingImageMemorySize m) < 2 ^ 34"

definition allocator_ok :: "(nat \<Rightarrow> nat set \<Rightarrow> (nat \<times> BackingImage) option) \<Rightarrow> bool" where
  "allocator_ok answer \<longleftrightarrow>
     (\<forall>n c img m. answer n (ic_alive c) = Some (img, m) \<longrightarrow> fresh_image img m c)"

lemma allocator_okD: "allocator_ok answer \<Longrightarrow> answer n (ic_alive c) = Some (img, m) \<Longrightarrow> fresh_image img m c"
  by (simp add: allocator_ok_def)

lemma attach_new_inv:
  assumes inv: "cache_inv ic L" and s: "ic_backing ic s = None" and new: "fresh_image img m ic"
    and room: "length (ic_images ic) + 1 < 2 ^ 30"
  defines "ic1 \<equiv> direct_attachBackingImageToSurface s img (new_image img m ic)"
  shows "cache_inv (ic1\<lparr>ic_images := ic_images ic1 @ [img]\<rparr>) L"
proof -
  let ?c = "ic1\<lparr>ic_images := ic_images ic1 @ [img]\<rparr>"
  note l = cache_invD(3) [OF inv, unfolded listed_images_def]
  note n = new [unfolded fresh_image_def]
  have iL: "img \<notin> set L" "img \<notin> set (ic_images ic)" using l n by auto
  have f: "ic_image ?c = (ic_image ic)(img := m)"
    "ic_link ?c = (ic_link ic)(img := no_links\<lparr>lk_surface := Some s, lk_detachedSerial := 0\<rparr>)"
    "ic_backing ?c = (ic_backing ic)(s := Some img)" "ic_images ?c = ic_images ic @ [img]"
    "ic_alive ?c = insert img (ic_alive ic)" "ic_detachedHead ?c = ic_detachedHead ic"
    "ic_detachedTail ?c = ic_detachedTail ic" "ic_detachedBytes ?c = ic_detachedBytes ic"
    "ic_detachedCount ?c = ic_detachedCount ic" "ic_detachedSerial ?c = ic_detachedSerial ic"
    "ic_cudaWorkUnsafe ?c = ic_cudaWorkUnsafe ic"
    by (simp_all add: ic1_def direct_attachBackingImageToSurface_def new_image_def upd_link_def)
  have "seg (ic_link ?c) None L None"
    by (rule seg_cong [of "ic_link ic"]) (use cache_invD(2) [OF inv] iL in \<open>auto simp: f detached_list_def\<close>)
  then have "detached_list ?c L" using cache_invD(2) [OF inv] by (simp add: detached_list_def f)
  moreover have "listed_images ?c L"
    using l n iL room unfolding listed_images_def f by (auto split: if_splits)
  moreover have "detached_order ?c L"
  proof -
    note o = cache_invD(4) [OF inv, unfolded detached_order_def]
    have "sorted_wrt (\<lambda>i j. lk_detachedSerial (ic_link ?c i) < lk_detachedSerial (ic_link ?c j)) L"
      by (rule sorted_wrt_mono_rel [OF _ conjunct1 [OF o]]) (use iL in \<open>auto simp: f\<close>)
    then show ?thesis using o iL by (auto simp: detached_order_def f)
  qed
  moreover have "detached_sums ?c L"
  proof -
    have "map (image_size ?c) L = map (image_size ic) L" by (rule map_cong) (use iL in \<open>auto simp: f\<close>)
    then show ?thesis using cache_invD(5) [OF inv] unfolding detached_sums_def f by metis
  qed
  moreover have "surfaces_linked ?c"
  proof -
    note sl = cache_invD(6) [OF inv, unfolded surfaces_linked_def]
    show ?thesis unfolding surfaces_linked_def f
    proof (intro conjI allI ballI)
      show "(((ic_backing ic)(s := Some img)) t = Some j) \<longleftrightarrow> j \<in> insert img (ic_alive ic) \<and>
          lk_surface (((ic_link ic)(img := no_links\<lparr>lk_surface := Some s, lk_detachedSerial := 0\<rparr>)) j) = Some t" for t j
        using sl s n no_image_of_surface [OF cache_invD(6) [OF inv] s, of j] by (cases "t = s"; cases "j = img") auto
    qed (use sl n in auto)
  qed
  moreover have "borrows_counted ?c"
  proof -
    note b = cache_invD(7) [OF inv, unfolded borrows_counted_def]
    have same: "borrowers ?c e = borrowers ic e" for e using n by (auto simp: borrowers_def f)
    have "borrowers ic img = {}" using b iL(2) by (auto simp: borrowers_def)
    then show ?thesis using b n iL unfolding borrows_counted_def same f by (auto split: if_splits)
  qed
  ultimately show ?thesis using cache_invD(1) [OF inv] f(11) by (simp add: cache_inv_def)
qed

lemma attach_new_rollback_inv:
  assumes inv: "cache_inv ic L" and s: "ic_backing ic s = None" and new: "fresh_image img m ic"
  defines "ic1 \<equiv> direct_attachBackingImageToSurface s img (new_image img m ic)"
  shows "cache_inv (destroyBackingImage img (upd_link img (\<lambda>l. l\<lparr>lk_surface := None\<rparr>)
           (ic1\<lparr>ic_backing := (ic_backing ic1)(s := None)\<rparr>))) L"
  by (rule cache_inv_cong [OF inv])
    (use cache_invD(1) [OF inv] s new in \<open>auto simp: ic1_def direct_attachBackingImageToSurface_def new_image_def
      upd_link_def destroyBackingImage_def fresh_image_def forget_surface_def release_borrow_def free_image_def\<close>)

text \<open>An imported image comes, and goes.\<close>

definition importable :: "nat \<Rightarrow> BackingImage \<Rightarrow> nat option \<Rightarrow> ImageCache \<Rightarrow> bool" where
  "importable img m borrow ic \<longleftrightarrow> img \<notin> ic_alive ic \<and> bi_isExternalBuffer m \<and>
     (\<forall>b. borrow = Some b \<longrightarrow> b \<in> set (ic_images ic) \<and> bi_borrowCount (ic_image ic b) \<noteq> UINT32_MAX)"

lemma import_inv:
  assumes inv: "cache_inv ic L" and s: "ic_backing ic s = None" and new: "importable img m borrow ic"
  shows "cache_inv (import_image s img m borrow ic) L"
proof -
  let ?c = "import_image s img m borrow ic"
  let ?m = "m\<lparr>bi_borrowed := borrow, bi_borrowedCudaResources := (borrow \<noteq> None)\<rparr>"
  note l = cache_invD(3) [OF inv, unfolded listed_images_def]
  note n = new [unfolded importable_def]
  have iL: "img \<notin> set L" "img \<notin> set (ic_images ic)" using l n by auto
  have b_img: "b \<noteq> img" if "borrow = Some b" for b using that n iL by auto
  have f: "ic_link ?c = (ic_link ic)(img := no_links\<lparr>lk_surface := Some s\<rparr>)"
    "ic_backing ?c = (ic_backing ic)(s := Some img)" "ic_images ?c = ic_images ic"
    "ic_alive ?c = insert img (ic_alive ic)" "ic_detachedHead ?c = ic_detachedHead ic"
    "ic_detachedTail ?c = ic_detachedTail ic" "ic_detachedBytes ?c = ic_detachedBytes ic"
    "ic_detachedCount ?c = ic_detachedCount ic" "ic_detachedSerial ?c = ic_detachedSerial ic"
    "ic_cudaWorkUnsafe ?c = ic_cudaWorkUnsafe ic"
    by (simp_all add: import_image_def new_image_def upd_link_def upd_image_def Let_def split: option.splits)
  have im: "ic_image ?c i = (if i = img then ?m
      else if borrow = Some i then (ic_image ic i)\<lparr>bi_borrowCount := bi_borrowCount (ic_image ic i) + 1\<rparr>
      else ic_image ic i)" for i
    using b_img by (auto simp: import_image_def new_image_def upd_link_def upd_image_def Let_def split: option.splits)
  have size: "image_size ?c i = image_size ic i" if "i \<noteq> img" for i
    using that by (simp add: im backingImageMemorySize_def)
  have "seg (ic_link ?c) None L None"
    by (rule seg_cong [of "ic_link ic"]) (use cache_invD(2) [OF inv] iL in \<open>auto simp: f detached_list_def\<close>)
  then have "detached_list ?c L" using cache_invD(2) [OF inv] by (simp add: detached_list_def f)
  moreover have "listed_images ?c L"
  proof -
    have "own_image (ic_image ?c i) \<and> image_size ?c i < 2 ^ 34" if "i \<in> set (ic_images ic)" for i
    proof -
      have "i \<noteq> img" using that iL by auto
      moreover have "own_image (ic_image ic i) \<and> image_size ic i < 2 ^ 34" using that l by blast
      ultimately show ?thesis using size [of i] by (simp add: im)
    qed
    moreover have "{i \<in> set (ic_images ic). lk_surface (ic_link ?c i) = None} =
        {i \<in> set (ic_images ic). lk_surface (ic_link ic i) = None}" using iL by (auto simp: f)
    moreover have "set (ic_images ic) \<subseteq> insert img (ic_alive ic)" using l by blast
    ultimately show ?thesis using l unfolding listed_images_def f(3,4) by simp
  qed
  moreover have "detached_order ?c L"
  proof -
    note o = cache_invD(4) [OF inv, unfolded detached_order_def]
    have "sorted_wrt (\<lambda>i j. lk_detachedSerial (ic_link ?c i) < lk_detachedSerial (ic_link ?c j)) L"
      by (rule sorted_wrt_mono_rel [OF _ conjunct1 [OF o]]) (use iL in \<open>auto simp: f\<close>)
    then show ?thesis using o iL by (auto simp: detached_order_def f)
  qed
  moreover have "detached_sums ?c L"
  proof -
    have "map (image_size ?c) L = map (image_size ic) L" by (rule map_cong [OF refl]) (metis size iL(1))
    then show ?thesis using cache_invD(5) [OF inv] unfolding detached_sums_def f by metis
  qed
  moreover have "surfaces_linked ?c"
  proof -
    note sl = cache_invD(6) [OF inv, unfolded surfaces_linked_def]
    show ?thesis unfolding surfaces_linked_def f(1-4)
    proof (intro conjI allI ballI)
      show "(((ic_backing ic)(s := Some img)) t = Some j) \<longleftrightarrow> j \<in> insert img (ic_alive ic) \<and>
          lk_surface (((ic_link ic)(img := no_links\<lparr>lk_surface := Some s\<rparr>)) j) = Some t" for t j
        using sl s n no_image_of_surface [OF cache_invD(6) [OF inv] s, of j] by (cases "t = s"; cases "j = img") auto
      show "bi_isExternalBuffer (ic_image ?c i)" if "i \<in> insert img (ic_alive ic) - set (ic_images ic)" for i
        using that sl n by (auto simp: im)
    qed (use sl in auto)
  qed
  moreover have "borrows_counted ?c"
  proof -
    note b = cache_invD(7) [OF inv, unfolded borrows_counted_def]
    have bor: "borrowers ?c e = (if borrow = Some e then insert img (borrowers ic e) else borrowers ic e)" for e
      using n b_img by (auto simp: borrowers_def f im)
    have fin: "finite (borrowers ic e)" "img \<notin> borrowers ic e" for e using b n by (auto simp: borrowers_def)
    show ?thesis unfolding borrows_counted_def f(3,4)
    proof (intro conjI ballI allI impI)
      show "finite (insert img (ic_alive ic))" using b by simp
      show "e \<in> set (ic_images ic)" if "i \<in> insert img (ic_alive ic)" "bi_borrowed (ic_image ?c i) = Some e" for i e
        using that n b by (auto simp: im split: if_splits)
      show "unat (bi_borrowCount (ic_image ?c e)) = card (borrowers ?c e)" if e: "e \<in> set (ic_images ic)" for e
      proof (cases "borrow = Some e")
        case True
        have "unat (bi_borrowCount (ic_image ic e)) \<noteq> unat UINT32_MAX"
          using n True by (simp only: word_unat_eq_iff [symmetric]) simp
        then have "unat (bi_borrowCount (ic_image ic e)) + unat (1 :: u32) < 2 ^ 32"
          using unat_u32_less [of "bi_borrowCount (ic_image ic e)"] by simp
        then have "unat (bi_borrowCount (ic_image ic e) + 1) = unat (bi_borrowCount (ic_image ic e)) + 1"
          by (subst unat_add_no_overflow) simp_all
        moreover have "bi_borrowCount (ic_image ?c e) = bi_borrowCount (ic_image ic e) + 1"
          using im [of e] True b_img [OF True] by simp
        moreover have "borrowers ?c e = insert img (borrowers ic e)" using bor [of e] True by simp
        ultimately show ?thesis using b e fin [of e] by simp
      next
        case False
        then show ?thesis using b e iL by (auto simp: im bor)
      qed
    qed
  qed
  ultimately show ?thesis using cache_invD(1) [OF inv] f(10) by (simp add: cache_inv_def)
qed

lemma detach_external_inv:
  assumes inv: "cache_inv ic L" and s: "ic_backing ic s = Some i"
    and ext: "bi_isExternalBuffer (ic_image ic i) \<or> bi_borrowedCudaResources (ic_image ic i)"
  defines "c \<equiv> (destroyBackingImage i ic)\<lparr>ic_backing := (ic_backing (destroyBackingImage i ic))(s := None)\<rparr>"
  shows "cache_inv c L"
proof -
  note l = cache_invD(3) [OF inv, unfolded listed_images_def]
  note sl = cache_invD(6) [OF inv, unfolded surfaces_linked_def]
  note b = cache_invD(7) [OF inv, unfolded borrows_counted_def]
  have i: "i \<in> ic_alive ic" "lk_surface (ic_link ic i) = Some s" using s sl by blast+
  have ni: "i \<notin> set (ic_images ic)" using l ext by blast
  have iL: "i \<notin> set L" using l ni by auto
  define e where "e = bi_borrowed (ic_image ic i)"
  have e_img: "b \<in> set (ic_images ic)" "b \<noteq> i" if "e = Some b" for b
    using that b i(1) ni by (auto simp: e_def)
  have f: "ic_link c = ic_link ic" "ic_backing c = (ic_backing ic)(s := None)" "ic_images c = ic_images ic"
    "ic_alive c = ic_alive ic - {i}" "ic_detachedHead c = ic_detachedHead ic"
    "ic_detachedTail c = ic_detachedTail ic" "ic_detachedBytes c = ic_detachedBytes ic"
    "ic_detachedCount c = ic_detachedCount ic" "ic_detachedSerial c = ic_detachedSerial ic"
    "ic_cudaWorkUnsafe c = ic_cudaWorkUnsafe ic"
    using cache_invD(1) [OF inv] i(2)
    by (simp_all add: c_def destroyBackingImage_def nvDestroyImportedBackingImage_def free_image_def
        release_borrow_def forget_surface_def upd_image_def split: option.splits)
  have im: "ic_image c j = (if e = Some j
      then (ic_image ic j)\<lparr>bi_borrowCount := (if bi_borrowCount (ic_image ic j) \<noteq> 0 then bi_borrowCount (ic_image ic j) - 1 else 0)\<rparr>
      else ic_image ic j)" if "j \<noteq> i" for j
    using cache_invD(1) [OF inv] i(2) that
    by (auto simp: c_def destroyBackingImage_def nvDestroyImportedBackingImage_def free_image_def e_def
        release_borrow_def forget_surface_def upd_image_def split: option.splits)
  have img: "own_image (ic_image c j) = own_image (ic_image ic j)" "image_size c j = image_size ic j"
    "bi_borrowed (ic_image c j) = bi_borrowed (ic_image ic j)"
    "bi_isExternalBuffer (ic_image c j) = bi_isExternalBuffer (ic_image ic j)" if "j \<noteq> i" for j
    using im [OF that] by (simp_all add: backingImageMemorySize_def)
  have "detached_list c L" using cache_invD(2) [OF inv] by (simp add: detached_list_def f)
  moreover have "listed_images c L"
  proof -
    have "own_image (ic_image c j) \<and> image_size c j < 2 ^ 34" if "j \<in> set (ic_images ic)" for j
    proof -
      have "j \<noteq> i" using that ni by auto
      then show ?thesis using img [of j] l that by auto
    qed
    then show ?thesis using l ni unfolding listed_images_def f by auto
  qed
  moreover have "detached_order c L" using cache_invD(4) [OF inv] by (simp add: detached_order_def f)
  moreover have "detached_sums c L"
  proof -
    have "map (image_size c) L = map (image_size ic) L" by (rule map_cong [OF refl]) (metis img(2) iL)
    then show ?thesis using cache_invD(5) [OF inv] unfolding detached_sums_def f by metis
  qed
  moreover have "surfaces_linked c"
    unfolding surfaces_linked_def f(1-4)
  proof (intro conjI allI ballI)
    show "(((ic_backing ic)(s := None)) t = Some j) \<longleftrightarrow> j \<in> ic_alive ic - {i} \<and> lk_surface (ic_link ic j) = Some t" for t j
      using sl s i by (cases "t = s"; cases "j = i") (auto, metis option.inject)
  qed (use sl img(4) in auto)
  moreover have "borrows_counted c"
    unfolding borrows_counted_def f(3,4)
  proof (intro conjI ballI allI impI)
    show "finite (ic_alive ic - {i})" using b by simp
    show "x \<in> set (ic_images ic)" if "m \<in> ic_alive ic - {i}" "bi_borrowed (ic_image c m) = Some x" for m x
      using that img(3) [of m] b by auto
    show "unat (bi_borrowCount (ic_image c x)) = card (borrowers c x)" if x: "x \<in> set (ic_images ic)" for x
    proof -
      have xi: "x \<noteq> i" using x ni by auto
      have bor: "borrowers c x = borrowers ic x - {i}" using img(3) by (auto simp: borrowers_def f)
      have fin: "finite (borrowers ic x)" using b by (simp add: borrowers_def)
      have c: "unat (bi_borrowCount (ic_image ic x)) = card (borrowers ic x)" using b x by blast
      show ?thesis
      proof (cases "e = Some x")
        case True
        then have mem: "i \<in> borrowers ic x" using i by (simp add: borrowers_def e_def)
        then have pos: "0 < card (borrowers ic x)" using fin by (auto simp: card_gt_0_iff)
        then have nz: "bi_borrowCount (ic_image ic x) \<noteq> 0" using c by auto
        have one: "1 \<le> bi_borrowCount (ic_image ic x)" using pos c by (simp add: word_le_nat_alt)
        show ?thesis using True im [OF xi] nz c unat_sub [OF one] card_Diff_singleton [OF mem] by (simp add: bor)
      next
        case False
        then have "i \<notin> borrowers ic x" by (simp add: borrowers_def e_def)
        then show ?thesis using False im [OF xi] c by (simp add: bor)
      qed
    qed
  qed
  ultimately show ?thesis using cache_invD(1) [OF inv] f(10) by (simp add: cache_inv_def)
qed

section \<open>Reachable caches\<close>

text \<open>
  The allocator's images are new, of the driver's own, and smaller than 16 GiB; an image is added to the array only
  while it holds fewer than \<open>2 ^ 30\<close>; serials do not run out. The GPU's work is not of unknown
  completion, after which the driver frees nothing any more.
\<close>

inductive cache_step :: "ImageCache \<Rightarrow> ImageCache \<Rightarrow> bool" where
  Detach: "ic_detachedSerial ic \<noteq> UINT64_MAX \<Longrightarrow> direct_detachBackingImageFromSurface s ic = Some ic' \<Longrightarrow>
    cache_step ic ic'"
| Realise: "allocator_ok answer \<Longrightarrow>
    (added \<Longrightarrow> length (ic_images ic) + 1 < 2 ^ 30) \<Longrightarrow>
    direct_realiseSurface answer added s ic = Some (r, ic') \<Longrightarrow> cache_step ic ic'"
| Import: "ic_backing ic s = None \<Longrightarrow> importable img m borrow ic \<Longrightarrow> cache_step ic (import_image s img m borrow ic)"
| Budget: "direct_pruneToMemoryBudget n ic = Some (r, ic') \<Longrightarrow> cache_step ic ic'"
| Scratch: "cache_step ic (ic\<lparr>ic_scratchY := y, ic_scratchUV := uv, ic_scratchArgb := argb\<rparr>)"

definition new_cache :: "u32 \<Rightarrow> u64 \<Rightarrow> u64 \<Rightarrow> ImageCache" where
  "new_cache maxImages maxBytes budget =
     \<lparr>ic_image = \<lambda>_. undefined, ic_link = \<lambda>_. no_links, ic_backing = \<lambda>_. None, ic_images = [], ic_alive = {},
      ic_detachedHead = None, ic_detachedTail = None, ic_detachedBytes = 0, ic_detachedCount = 0,
      ic_detachedSerial = 0, ic_maxDetachedImages = maxImages, ic_maxDetachedBytes = maxBytes,
      ic_memoryBudget = budget, ic_scratchY = 0, ic_scratchUV = 0, ic_scratchArgb = 0, ic_cudaWorkUnsafe = False\<rparr>"

inductive cache_reach :: "ImageCache \<Rightarrow> bool" where
  Start: "cache_reach (new_cache maxImages maxBytes budget)"
| Step: "cache_reach ic \<Longrightarrow> cache_step ic ic' \<Longrightarrow> cache_reach ic'"

lemma new_cache_inv: "cache_inv (new_cache a b c) []"
  by (simp add: cache_inv_def new_cache_def detached_list_def listed_images_def detached_order_def
      detached_sums_def surfaces_linked_def borrows_counted_def)

lemma detach_inv:
  assumes inv: "cache_inv ic L" and serial: "ic_detachedSerial ic \<noteq> UINT64_MAX"
  shows "\<exists>ic' L'. direct_detachBackingImageFromSurface s ic = Some ic' \<and> cache_inv ic' L'"
proof (cases "ic_backing ic s")
  case None
  then show ?thesis using inv by (auto simp: direct_detachBackingImageFromSurface_def)
next
  case (Some i)
  show ?thesis
  proof (cases "bi_isExternalBuffer (ic_image ic i) \<or> bi_borrowedCudaResources (ic_image ic i)")
    case True
    then show ?thesis using detach_external_inv [OF inv Some True] Some
      by (auto simp: direct_detachBackingImageFromSurface_def Let_def)
  next
    case False
    then have "\<not> bi_isExternalBuffer (ic_image ic i)" by simp
    from prune_while_list [OF detach_image_inv(1) [OF inv Some this serial]] obtain ic' L'
      where "pruneDetachedBackingImagesToLimits (detach_image s i ic) = Some ic'" "cache_inv ic' L'"
      unfolding pruneDetachedBackingImagesToLimits_def by blast
    then show ?thesis using False Some by (auto simp: direct_detachBackingImageFromSurface_def)
  qed
qed

text \<open>Reclaiming for an allocation: it ends, with an image, or with nothing left to free.\<close>

lemma allocate_with_reclaim_list:
  "cache_inv ic L \<Longrightarrow> allocator_ok answer \<Longrightarrow>
   \<exists>r ic' k. allocate_with_reclaim answer n ic = Some (r, ic') \<and> cache_inv ic' (kept ic k L) \<and>
     freed ic (set (dropped ic k L)) ic' \<and>
     (case r of Some (img, m) \<Rightarrow> fresh_image img m ic'
              | None \<Rightarrow> (\<forall>i \<in> set (kept ic k L). \<not> backingImageCanPrune ic i))"
proof (induction "length L" arbitrary: ic L n)
  case base: 0
  show ?case
  proof (cases "answer n (ic_alive ic)")
    case None
    then show ?thesis using base prune_none [of ic L] freed_refl
      by (intro exI [of _ None] exI [of _ ic] exI [of _ 0]) (simp add: allocate_with_reclaim.simps [of answer n ic])
  next
    case (Some a)
    obtain img m where a: "a = (img, m)" by (cases a)
    show ?thesis using Some base.prems(1) allocator_okD [OF base.prems(2), of n ic img m] freed_refl unfolding a
      by (intro exI [of _ "Some a"] exI [of _ ic] exI [of _ 0]) (simp add: a allocate_with_reclaim.simps [of answer n ic])
  qed
next
  case (Suc l)
  note inv = Suc.prems(1) and fresh = Suc.prems(2)
  show ?case
  proof (cases "answer n (ic_alive ic)")
    case (Some a)
    obtain img m where a: "a = (img, m)" by (cases a)
    show ?thesis using Some inv allocator_okD [OF fresh, of n ic img m] freed_refl unfolding a
      by (intro exI [of _ "Some a"] exI [of _ ic] exI [of _ 0]) (simp add: a allocate_with_reclaim.simps [of answer n ic])
  next
    case fail: None
    show ?thesis
    proof (cases "find (backingImageCanPrune ic) L")
      case None
      then have "\<forall>i \<in> set L. \<not> backingImageCanPrune ic i" by (auto simp: find_None_iff)
      then show ?thesis using inv prune_none [OF inv None] freed_refl fail
        by (intro exI [of _ None] exI [of _ ic] exI [of _ 0]) (simp add: allocate_with_reclaim.simps [of answer n ic])
    next
      case (Some x)
      obtain xs ys where L: "L = xs @ x # ys" and xs: "\<forall>y \<in> set xs. \<not> backingImageCanPrune ic y"
        and x: "backingImageCanPrune ic x" using find_split [OF Some] by blast
      obtain ic1 where run: "pruneOldestDetachedBackingImageLocked ic = Some (True, ic1)"
        and inv1: "cache_inv ic1 (xs @ ys)" and fr: "freed ic {x} ic1"
        using prune_one [OF inv [unfolded L] x xs] by blast
      note same = canPrune_freed [OF fr]
      have "l = length (xs @ ys)" using Suc.hyps(2) L by simp
      from Suc.hyps(1) [OF this inv1 fresh, of "Suc n"] obtain r ic' k where
        k: "allocate_with_reclaim answer (Suc n) ic1 = Some (r, ic')" "cache_inv ic' (kept ic k (xs @ ys))"
          "freed ic1 (set (dropped ic k (xs @ ys))) ic'"
          "case r of Some (img, m) \<Rightarrow> fresh_image img m ic'
             | None \<Rightarrow> (\<forall>i \<in> set (kept ic k (xs @ ys)). \<not> backingImageCanPrune ic i)"
        unfolding same by blast
      define K where "K = Suc (max k (length xs))"
      note K = kept_after_one [OF xs x, of k ys, folded K_def L]
      show ?thesis
      proof (intro exI conjI)
        show "allocate_with_reclaim answer n ic = Some (r, ic')"
          using fail run k(1) by (simp add: allocate_with_reclaim.simps [of answer n ic])
        show "cache_inv ic' (kept ic K L)" using k(2) unfolding K(1) .
        show "freed ic (set (dropped ic K L)) ic'" using freed_trans [OF fr k(3)] unfolding K(2) by simp
        show "case r of Some (img, m) \<Rightarrow> fresh_image img m ic'
             | None \<Rightarrow> (\<forall>i \<in> set (kept ic K L). \<not> backingImageCanPrune ic i)" using k(4) unfolding K(1) .
      qed
    qed
  qed
qed

lemma realise_inv:
  assumes inv: "cache_inv ic L"
    and fresh: "allocator_ok answer"
    and room: "added \<Longrightarrow> length (ic_images ic) + 1 < 2 ^ 30"
  shows "\<exists>r ic' L'. direct_realiseSurface answer added s ic = Some (r, ic') \<and> cache_inv ic' L'"
proof (cases "ic_backing ic s")
  case (Some i)
  then show ?thesis using inv by (auto simp: direct_realiseSurface_def)
next
  case None
  obtain r ic1 k where a: "allocate_with_reclaim answer 0 ic = Some (r, ic1)" "cache_inv ic1 (kept ic k L)"
      "freed ic (set (dropped ic k L)) ic1"
      "case r of Some (img, m) \<Rightarrow> fresh_image img m ic1
         | None \<Rightarrow> (\<forall>i \<in> set (kept ic k L). \<not> backingImageCanPrune ic i)"
    using allocate_with_reclaim_list [where answer = answer and n = 0, OF inv fresh] by blast
  have s: "ic_backing ic1 s = None" using a(3) None by (simp add: freed_def)
  have n: "length (ic_images ic1) + 1 < 2 ^ 30" if added
    using room [OF that] freed_length [OF a(3)] by simp
  show ?thesis
  proof (cases r)
    case r: None
    then have "direct_realiseSurface answer added s ic = Some (False, ic1)"
      using a(1) None by (simp add: direct_realiseSurface_def)
    then show ?thesis using a(2) by blast
  next
    case (Some im)
    then obtain img m where r: "r = Some (img, m)" by (cases im) auto
    then have f: "fresh_image img m ic1" using a(4) by simp
    show ?thesis
    proof (cases added)
      case True
      then show ?thesis using attach_new_inv [OF a(2) s f n [OF True]] a(1) r None
        unfolding direct_realiseSurface_def by (simp add: Let_def) blast
    next
      case False
      then show ?thesis using attach_new_rollback_inv [OF a(2) s f] a(1) r None
        unfolding direct_realiseSurface_def by (simp add: Let_def) blast
    qed
  qed
qed

lemma cache_step_inv:
  assumes "cache_step ic ic'" "cache_inv ic L"
  shows "\<exists>L'. cache_inv ic' L'"
  using assms(1)
proof cases
  case (Detach s)
  then show ?thesis using detach_inv [OF assms(2), of s] by auto
next
  case (Realise answer added s r)
  then show ?thesis using realise_inv [OF assms(2), of answer added s] by auto
next
  case (Import s img m borrow)
  then show ?thesis using import_inv [OF assms(2), of s img m borrow] by auto
next
  case (Budget n r)
  show ?thesis
  proof (cases "ic_memoryBudget ic = 0")
    case True
    then show ?thesis using Budget assms(2) by (auto simp: direct_pruneToMemoryBudget_def)
  next
    case False
    obtain ic1 k where "prune_while (over_budget n) ic = Some ic1" "cache_inv ic1 (kept ic k L)"
      using prune_while_list [OF assms(2)] by blast
    then show ?thesis using Budget False by (auto simp: direct_pruneToMemoryBudget_def)
  qed
next
  case (Scratch y uv argb)
  have "cache_inv ic' L" unfolding Scratch by (rule cache_inv_cong [OF assms(2)]) simp_all
  then show ?thesis by blast
qed

lemma cache_reach_inv: "cache_reach ic \<Longrightarrow> \<exists>L. cache_inv ic L"
  by (induction rule: cache_reach.induct) (use new_cache_inv cache_step_inv in blast)+

end
