(* ===== verification/BackingCacheProps.thy ===== *)
theory BackingCacheProps
  imports BackingCacheInv
begin

text \<open>
  The properties of the cache of detached images, and the cache they are tried on: a driver that
  keeps one detached image, with two images of 4 KiB, one detached and one that a surface shows.
\<close>

section \<open>What holds of the cache\<close>

abbreviation borrowed_image :: "ImageCache \<Rightarrow> nat \<Rightarrow> bool" where
  "borrowed_image ic i \<equiv> bi_borrowCount (ic_image ic i) \<noteq> 0"

lemma canPrune_detached:
  assumes "cache_inv ic L" "i \<in> set L"
  shows "backingImageCanPrune ic i \<longleftrightarrow> \<not> borrowed_image ic i"
  using cache_invD(3) [OF assms(1)] assms(2) by (auto simp: backingImageCanPrune_def listed_images_def)

lemma kept_borrowed:
  assumes "cache_inv ic L"
  shows "kept ic k L = filter (borrowed_image ic) (take k L) @ drop k L"
    "set (dropped ic k L) = {i \<in> set (take k L). \<not> borrowed_image ic i}"
  using canPrune_detached [OF assms] by (auto dest: in_set_takeD intro!: filter_cong)

lemma borrowed_alive:
  assumes "cache_inv ic L" "m \<in> ic_alive ic" "bi_borrowed (ic_image ic m) = Some b"
  shows "b \<in> set (ic_images ic) \<and> b \<in> ic_alive ic \<and> borrowed_image ic b"
proof -
  note bc = cache_invD(7) [OF assms(1), unfolded borrows_counted_def]
  have b: "b \<in> set (ic_images ic)" using bc assms(2,3) by blast
  moreover have "b \<in> ic_alive ic" using b cache_invD(3) [OF assms(1)] by (auto simp: listed_images_def)
  moreover have "m \<in> borrowers ic b" "finite (borrowers ic b)" using assms(2,3) bc by (simp_all add: borrowers_def)
  then have "card (borrowers ic b) \<noteq> 0" by auto
  then have "borrowed_image ic b" using bc b by (metis unat_0)
  ultimately show ?thesis by blast
qed

lemma within_limits:
  assumes "\<not> over_limits ic" "ic_detachedCount ic \<noteq> 0"
  shows "unat (ic_detachedCount ic) \<le> unat (ic_maxDetachedImages ic) \<and>
    unat (ic_detachedBytes ic) \<le> unat (ic_maxDetachedBytes ic) \<and>
    (ic_memoryBudget ic = 0 \<or> unat (ic_detachedBytes ic) +
       unat (ic_scratchY ic + ic_scratchUV ic + ic_scratchArgb ic) \<le> unat (ic_memoryBudget ic))"
proof -
  let ?sc = "ic_scratchY ic + ic_scratchUV ic + ic_scratchArgb ic"
  have o: "ic_detachedCount ic \<le> ic_maxDetachedImages ic" "ic_detachedBytes ic \<le> ic_maxDetachedBytes ic"
    "ic_memoryBudget ic = 0 \<or> (ic_detachedBytes ic \<le> ic_memoryBudget ic \<and> ?sc \<le> ic_memoryBudget ic - ic_detachedBytes ic)"
    using assms by (auto simp: over_limits_def detachedBackingImagesOverLimit_def Let_def not_less split: if_splits)
  have "ic_memoryBudget ic = 0 \<or> unat (ic_detachedBytes ic) + unat ?sc \<le> unat (ic_memoryBudget ic)"
    using o(3)
  proof
    assume b: "ic_detachedBytes ic \<le> ic_memoryBudget ic \<and> ?sc \<le> ic_memoryBudget ic - ic_detachedBytes ic"
    then have "unat ?sc \<le> unat (ic_memoryBudget ic) - unat (ic_detachedBytes ic)"
      using unat_sub [of "ic_detachedBytes ic" "ic_memoryBudget ic"] by (simp only: word_le_nat_alt)
    then show ?thesis using b unfolding word_le_nat_alt by linarith
  qed simp
  then show ?thesis using o(1,2) by (simp add: word_le_nat_alt)
qed




section \<open>The end of the driver\<close>

lemma unlink_frame:
  "ic_image (unlinkDetachedBackingImageLocked x ic) = ic_image ic"
  "ic_images (unlinkDetachedBackingImageLocked x ic) = ic_images ic"
  "ic_alive (unlinkDetachedBackingImageLocked x ic) = ic_alive ic"
  "ic_cudaWorkUnsafe (unlinkDetachedBackingImageLocked x ic) = ic_cudaWorkUnsafe ic"
  by (simp_all add: unlinkDetachedBackingImageLocked_def Let_def split: option.splits)

lemma destroy_own:
  assumes "own_image (ic_image ic i)" "\<not> ic_cudaWorkUnsafe ic"
  shows "ic_image (destroyBackingImage i ic) = ic_image ic" "ic_images (destroyBackingImage i ic) = ic_images ic"
    "ic_alive (destroyBackingImage i ic) = ic_alive ic - {i}"
    "ic_cudaWorkUnsafe (destroyBackingImage i ic) = ic_cudaWorkUnsafe ic"
  using assms
  by (simp_all add: destroyBackingImage_def free_image_def release_borrow_def forget_surface_def split: option.splits)

lemma destroy_all_alive:
  "k = length (ic_images ic) \<Longrightarrow> \<not> ic_cudaWorkUnsafe ic \<Longrightarrow> list_all (\<lambda>i. own_image (ic_image ic i)) (ic_images ic) \<Longrightarrow>
   ic_images (destroy_all k ic) = [] \<and> ic_alive (destroy_all k ic) = ic_alive ic - set (ic_images ic)"
proof (induction k ic rule: destroy_all.induct)
  case (2 k ic)
  let ?it = "ic_images ic ! k"
  define ic1 where "ic1 = (if lk_detachedSerial (ic_link ic ?it) \<noteq> 0 then unlinkDetachedBackingImageLocked ?it ic else ic)"
  define ic2 where "ic2 = remove_image_at k (destroyBackingImage ?it ic1)"
  have f1: "ic_image ic1 = ic_image ic" "ic_images ic1 = ic_images ic" "ic_alive ic1 = ic_alive ic" "\<not> ic_cudaWorkUnsafe ic1"
    using 2(3) by (simp_all add: ic1_def unlink_frame)
  have "own_image (ic_image ic1 ?it)" using 2(2,4) f1 by (simp add: list_all_length)
  note d = destroy_own [OF this f1(4)]
  have imgs: "ic_images ic = take k (ic_images ic) @ [?it]" using 2(2) by (simp add: take_Suc_conv_app_nth [symmetric])
  have f2: "ic_image ic2 = ic_image ic" "ic_images ic2 = take k (ic_images ic)" "ic_alive ic2 = ic_alive ic - {?it}"
    "\<not> ic_cudaWorkUnsafe ic2"
    using d f1 2(2) by (simp_all add: ic2_def remove_image_at_def)
  have "destroy_all (Suc k) ic = destroy_all k ic2" by (simp add: ic1_def ic2_def Let_def)
  moreover have "k = length (ic_images ic2)" using f2 2(2) by simp
  moreover have "list_all (\<lambda>i. own_image (ic_image ic2 i)) (ic_images ic2)"
    using 2(4) imgs unfolding f2 by (metis list_all_append)
  ultimately have "ic_images (destroy_all (Suc k) ic) = [] \<and>
      ic_alive (destroy_all (Suc k) ic) = ic_alive ic2 - set (ic_images ic2)"
    using 2(1) [OF refl ic1_def] f2(4) unfolding ic2_def by (simp add: Let_def)
  moreover have "set (ic_images ic) = insert ?it (set (take k (ic_images ic)))" by (subst imgs) simp
  ultimately show ?case unfolding f2 by auto
qed simp


section \<open>A driver to try them on\<close>

definition small_image :: BackingImage where
  "small_image = \<lparr>bi_arrays = [1, 1, 0], bi_width = 64, bi_height = 32, bi_fourcc = 0, bi_fds = [3, -1, -1, -1],
     bi_st = replicate 4 (0, 0), bi_offsets = replicate 4 0, bi_strides = replicate 4 64, bi_mods = replicate 4 0,
     bi_size = [2048, 2048, 0, 0], bi_objectSize = [4096, 0, 0, 0], bi_planeObjectIndex = [0, 0, 0, 0],
     bi_numObjects = 1, bi_numPlanes = 2, bi_format = NV_FORMAT_NV12,
     bi_color = \<lparr>cm_colorStandard = VAProcColorStandardNone, cm_colorRangeFull = False\<rparr>, bi_totalSize = 4096,
     bi_isSingleBuffer = True, bi_isExternalBuffer = False, bi_borrowedCudaResources = False, bi_borrowed = None,
     bi_borrowCount = 0, bi_externalMappings = replicate 4 0, bi_externalMappingSize = replicate 4 0,
     bi_externalDevicePtrs = replicate 4 0, bi_externalDeviceSize = replicate 4 0\<rparr>"

definition alloc_at :: "nat \<Rightarrow> nat \<Rightarrow> nat set \<Rightarrow> (nat \<times> BackingImage) option" where
  "alloc_at img n A = (if img \<in> A then None else Some (img, small_image))"

definition cache0 :: ImageCache where "cache0 = new_cache 1 8192 0"
definition cache1 :: ImageCache where
  "cache1 = snd (the (direct_realiseSurface (alloc_at 10) True 1 cache0))"
definition cache2 :: ImageCache where
  "cache2 = snd (the (direct_realiseSurface (alloc_at 20) True 2 cache1))"
definition cache3 :: ImageCache where "cache3 = the (direct_detachBackingImageFromSurface 1 cache2)"
definition cache4 :: ImageCache where
  "cache4 = import_image 5 30 (small_image\<lparr>bi_isExternalBuffer := True\<rparr>) (Some 20) cache3"

lemma alloc_at_ok: "allocator_ok (alloc_at img)"
  by (auto simp: allocator_ok_def alloc_at_def fresh_image_def small_image_def backingImageMemorySize_def split: if_splits)

lemma realise_first:
  assumes "ic_backing ic s = None" "img \<notin> ic_alive ic"
  defines "c \<equiv> direct_attachBackingImageToSurface s img (new_image img small_image ic)"
  shows "direct_realiseSurface (alloc_at img) True s ic = Some (True, c\<lparr>ic_images := ic_images c @ [img]\<rparr>)"
  using assms(1,2)
  by (simp add: c_def direct_realiseSurface_def alloc_at_def allocate_with_reclaim.simps [of "alloc_at img" 0 ic] Let_def)

lemma cache1: "direct_realiseSurface (alloc_at 10) True 1 cache0 = Some (True, cache1)"
    "ic_images cache1 = [10]" "ic_backing cache1 = [1 \<mapsto> 10]" "ic_alive cache1 = {10}"
  using realise_first [of cache0 1 10]
  by (simp_all add: cache1_def cache0_def new_cache_def direct_attachBackingImageToSurface_def new_image_def)

lemma cache2: "direct_realiseSurface (alloc_at 20) True 2 cache1 = Some (True, cache2)"
    "ic_images cache2 = [10, 20]" "ic_backing cache2 = [1 \<mapsto> 10, 2 \<mapsto> 20]" "ic_alive cache2 = {10, 20}"
  using realise_first [of cache1 2 20] cache1
  by (simp_all add: cache2_def direct_attachBackingImageToSurface_def new_image_def insert_commute)

lemma cache2_reach: "cache_reach cache2"
proof -
  have "cache_reach cache0" unfolding cache0_def by (rule Start)
  moreover have "cache_step cache0 cache1"
    by (rule Realise [OF alloc_at_ok _ cache1(1)]) (simp add: cache0_def new_cache_def)
  moreover have "cache_step cache1 cache2"
    by (rule Realise [OF alloc_at_ok _ cache2(1)]) (simp add: cache1)
  ultimately show ?thesis using cache_reach.Step by blast
qed

lemma cache2_images: "ic_image cache2 10 = small_image" "ic_image cache2 20 = small_image"
    "ic_detachedSerial cache2 = 0" "ic_link cache2 20 = no_links\<lparr>lk_surface := Some 2\<rparr>"
    "ic_maxDetachedImages cache2 = 1" "ic_maxDetachedBytes cache2 = 8192" "ic_memoryBudget cache2 = 0"
    "ic_detachedTail cache2 = None" "ic_detachedCount cache2 = 0" "ic_detachedBytes cache2 = 0"
  using realise_first [of cache0 1 10] realise_first [of cache1 2 20] cache1
  by (simp_all add: cache2_def cache1_def cache0_def new_cache_def direct_attachBackingImageToSurface_def
      new_image_def upd_link_def no_links_def)

lemma cache3_run: "direct_detachBackingImageFromSurface 1 cache2 = Some (detach_image 1 10 cache2)"
proof -
  have "\<not> over_limits (detach_image 1 10 cache2)"
    using cache2_images
    by (simp add: over_limits_def detachedBackingImagesOverLimit_def detach_image_def Let_def upd_link_def
        linkDetachedBackingImageLocked_def backingImageMemorySize_def small_image_def)
  then show ?thesis using cache2(3) cache2_images(1)
    by (simp add: direct_detachBackingImageFromSurface_def small_image_def pruneDetachedBackingImagesToLimits_def
        prune_while.simps [of over_limits "detach_image 1 10 cache2"] del: One_nat_def)
qed

lemma cache3: "cache3 = detach_image 1 10 cache2" "direct_detachBackingImageFromSurface 1 cache2 = Some cache3"
  using cache3_run by (simp_all add: cache3_def)

lemma cache3_fields: "ic_images cache3 = [10, 20]" "ic_backing cache3 = [2 \<mapsto> 20]" "ic_alive cache3 = {10, 20}"
    "ic_image cache3 = ic_image cache2" "ic_detachedSerial cache3 = 1" "ic_detachedCount cache3 = 1"
  using cache2 cache2_images
  by (auto simp: cache3(1) detach_image_def Let_def upd_link_def linkDetachedBackingImageLocked_def)

lemma cache3_reach: "cache_reach cache3"
  using cache2_reach Detach [OF _ cache3(2)] cache2_images(3) cache_reach.Step by fastforce

lemma cache4_reach: "cache_reach cache4"
proof -
  have "cache_step cache3 cache4"
    unfolding cache4_def by (rule Import)
      (use cache3_fields cache2_images in \<open>simp_all add: importable_def small_image_def\<close>)
  then show ?thesis using cache3_reach cache_reach.Step by blast
qed

lemma cache4_fields: "ic_alive cache4 = {10, 20, 30}" "bi_borrowed (ic_image cache4 30) = Some 20"
    "bi_isExternalBuffer (ic_image cache4 30)" "\<not> bi_isExternalBuffer (ic_image cache4 10)"
    "\<not> bi_isExternalBuffer (ic_image cache4 20)"
  using cache3_fields cache2_images
  by (auto simp: cache4_def import_image_def new_image_def upd_link_def upd_image_def Let_def small_image_def)





end
