(* ===== verification/GpuLayout.thy ===== *)
theory GpuLayout
  imports Formats
begin

text \<open>
  The block-linear layout of an image in video memory (\<open>calculate_log2_gobs_per_block_y\<close>,
  \<open>calculate_unified_image_layout\<close>, \<open>alloc_image\<close> and \<open>alloc_buffer\<close> of \<open>src/direct/nv-driver.c\<close>, and the comparison with it in
  \<open>direct_importBackingImage\<close>). A GOB is 64 bytes wide and 8 rows high; a block is \<open>2 ^ k\<close> GOBs high.

  \<open>modifier k\<close> is the DRM modifier of block height \<open>k\<close> (a macro of libdrm over three properties of the GPU).
  The exponents that are always zero are left out. Memory and descriptors are not part of the layout: of the
  allocation functions only the sizes are modelled.
\<close>

section \<open>Block height\<close>

abbreviation GOB_WIDTH_IN_BYTES :: u64 where "GOB_WIDTH_IN_BYTES \<equiv> 64"
abbreviation GOB_HEIGHT_IN_BYTES :: u64 where "GOB_HEIGHT_IN_BYTES \<equiv> 8"
abbreviation SINGLE_BUFFER_PLANE_ALIGNMENT :: u64 where "SINGLE_BUFFER_PLANE_ALIGNMENT \<equiv> 65536"
abbreviation INT32_MAX :: u64 where "INT32_MAX \<equiv> 0x7FFFFFFF"

definition ROUND_UP :: "u64 \<Rightarrow> u64 \<Rightarrow> u64" where
  "ROUND_UP n s = ((n + s - 1) div s) * s"

text \<open>The two loops, each over the exponent: the cap against waste, and the halving of the proposed block.\<close>

fun cap_block_height :: "u64 \<Rightarrow> nat \<Rightarrow> nat" where
  "cap_block_height heightAndOneHalf 0 = 0"
| "cap_block_height heightAndOneHalf (Suc k) =
     (if GOB_HEIGHT_IN_BYTES * push_bit (Suc k) 1 > heightAndOneHalf
      then cap_block_height heightAndOneHalf k else Suc k)"

fun halve_block_height :: "u32 \<Rightarrow> u32 \<Rightarrow> nat \<Rightarrow> nat" where
  "halve_block_height height proposedBlockSize 0 = 0"
| "halve_block_height height proposedBlockSize (Suc k) =
     (if proposedBlockSize \<ge> height
      then if k = 0 then 0 else halve_block_height height (proposedBlockSize div 2) k
      else Suc k)"

definition calculate_log2_gobs_per_block_y :: "u32 \<Rightarrow> nat" where
  "calculate_log2_gobs_per_block_y height =
     (let log2 = cap_block_height (u32_to_u64 height + u32_to_u64 height div 2) 4
      in if log2 > 0 then halve_block_height height (push_bit (log2 - 1) 8) log2 else log2)"

section \<open>The planes of an image\<close>

record NVDriverImage =
  di_width :: u32
  di_height :: u32
  di_mods :: u64
  di_memorySize :: u32
  di_offset :: u32
  di_pitch :: u32
  di_fourcc :: u32
  di_log2Y :: nat

text \<open>Pitch and aligned height of a plane.\<close>

definition plane_pitch :: "u32 \<Rightarrow> u32 \<Rightarrow> NVFormatPlane \<Rightarrow> u64" where
  "plane_pitch width bppc p =
     ROUND_UP (u32_to_u64 (nvPlaneExtent width (fp_ss_x p)) * u32_to_u64 (fp_channelCount p * bppc)) GOB_WIDTH_IN_BYTES"

definition plane_aligned_height :: "u32 \<Rightarrow> NVFormatPlane \<Rightarrow> nat \<Rightarrow> u64" where
  "plane_aligned_height height p log2Y =
     ROUND_UP (u32_to_u64 (nvPlaneExtent height (fp_ss_y p))) (push_bit log2Y GOB_HEIGHT_IN_BYTES)"

fun layout_planes ::
    "(nat \<Rightarrow> u64) \<Rightarrow> u32 \<Rightarrow> u32 \<Rightarrow> u32 \<Rightarrow> (NVFormatPlane \<times> nat) list \<Rightarrow> u64 \<Rightarrow> NVDriverImage list \<Rightarrow>
     (NVDriverImage list \<times> u64) option" where
  "layout_planes modifier width height bppc [] offset images = Some (images, offset)"
| "layout_planes modifier width height bppc ((p, log2Y) # planes) offset images =
     (let widthInBytes = plane_pitch width bppc p;
          alignedHeight = plane_aligned_height height p log2Y
      in if widthInBytes > INT32_MAX \<or> alignedHeight > u32_to_u64 UINT32_MAX \<or> offset > INT32_MAX \<or>
            widthInBytes * alignedHeight > u32_to_u64 UINT32_MAX
         then None
         else
           let image = \<lparr>di_width = nvPlaneExtent width (fp_ss_x p), di_height = nvPlaneExtent height (fp_ss_y p),
                 di_mods = modifier log2Y, di_memorySize = u64_to_u32 (widthInBytes * alignedHeight),
                 di_offset = u64_to_u32 offset, di_pitch = u64_to_u32 widthInBytes, di_fourcc = fp_fourcc p,
                 di_log2Y = log2Y\<rparr>;
               offset = ROUND_UP (offset + u32_to_u64 (di_memorySize image)) SINGLE_BUFFER_PLANE_ALIGNMENT
           in if offset > u32_to_u64 UINT32_MAX then None
              else layout_planes modifier width height bppc planes offset (images @ [image]))"

definition calculate_unified_image_layout ::
    "(nat \<Rightarrow> u64) \<Rightarrow> u32 \<Rightarrow> u32 \<Rightarrow> u32 \<Rightarrow> NVFormatPlane list \<Rightarrow> bool \<Rightarrow> (NVDriverImage list \<times> u32) option" where
  "calculate_unified_image_layout modifier width height bppc planes unifyBlockHeight =
     (if width = 0 \<or> height = 0 \<or> bppc = 0 \<or> bppc > 2 \<or> length planes = 0 \<or> length planes > 3 then None
      else if list_ex (\<lambda>p. fp_ss_x p > 1 \<or> fp_ss_y p > 1 \<or> fp_channelCount p = 0 \<or> fp_channelCount p > 4) planes
      then None
      else
        let perPlaneLog2Y = map (\<lambda>p. calculate_log2_gobs_per_block_y (nvPlaneExtent height (fp_ss_y p))) planes;
            unifiedLog2Y = fold (\<lambda>k m. if k > m then k else m) (tl perPlaneLog2Y) (hd perPlaneLog2Y)
        in case layout_planes modifier width height bppc
                  (zip planes (if unifyBlockHeight then map (\<lambda>_. unifiedLog2Y) planes else perPlaneLog2Y)) 0 [] of
             None \<Rightarrow> None
           | Some (images, offset) \<Rightarrow> Some (images, u64_to_u32 offset))"

section \<open>Sizes of allocations\<close>

text \<open>The size that is requested from the kernel driver, a multiple of 64 KiB.\<close>

definition allocation_size :: "u32 \<Rightarrow> u32 option" where
  "allocation_size totalSize =
     (let allocationSize64 = (u32_to_u64 totalSize + 65535) AND NOT 65535
      in if allocationSize64 > u32_to_u64 UINT32_MAX then None else Some (u64_to_u32 allocationSize64))"

definition alloc_image :: "(nat \<Rightarrow> u64) \<Rightarrow> u32 \<Rightarrow> u32 \<Rightarrow> u8 \<Rightarrow> u8 \<Rightarrow> u32 \<Rightarrow> (NVDriverImage \<times> u32) option" where
  "alloc_image modifier width height channels bitsPerChannel fourcc =
     (if width = 0 \<or> height = 0 \<or> channels = 0 \<or> channels > 4 \<or> (bitsPerChannel \<noteq> 8 \<and> bitsPerChannel \<noteq> 16) then None
      else
        let bytesPerPixel = ucast channels * (ucast bitsPerChannel div 8) :: u32;
            log2Y = calculate_log2_gobs_per_block_y height;
            widthInBytes64 = ROUND_UP (u32_to_u64 width * u32_to_u64 bytesPerPixel) GOB_WIDTH_IN_BYTES;
            alignedHeight64 = ROUND_UP (u32_to_u64 height) (push_bit log2Y GOB_HEIGHT_IN_BYTES)
        in if widthInBytes64 > INT32_MAX \<or> alignedHeight64 > u32_to_u64 UINT32_MAX \<or>
              widthInBytes64 * alignedHeight64 > u32_to_u64 UINT32_MAX
           then None
           else
             let widthInBytes = u64_to_u32 widthInBytes64; alignedHeight = u64_to_u32 alignedHeight64;
                 imageSizeInBytes = widthInBytes * alignedHeight
             in case allocation_size imageSizeInBytes of
                  None \<Rightarrow> None
                | Some allocationSize \<Rightarrow>
                    Some (\<lparr>di_width = width, di_height = height, di_mods = modifier log2Y,
                           di_memorySize = imageSizeInBytes, di_offset = 0, di_pitch = widthInBytes,
                           di_fourcc = fourcc, di_log2Y = log2Y\<rparr>, allocationSize))"

text \<open>
  The comparison of an imported image with the layout that the driver itself would have used: only such memory is
  read as block-linear. The result is the layout and its size.
\<close>

definition native_layout :: "(nat \<Rightarrow> u64) \<Rightarrow> BackingImage \<Rightarrow> bool \<Rightarrow> (NVDriverImage list \<times> u32) option" where
  "native_layout modifier img legacyPrime =
     (let fmt = formatsInfo (bi_format img)
      in if bi_numObjects img \<noteq> 1 then None
         else case calculate_unified_image_layout modifier (bi_width img) (bi_height img) (fi_bppc fmt)
                     (take (unat (fi_numPlanes fmt)) (fi_plane fmt)) True of
                None \<Rightarrow> None
              | Some (planes, n) \<Rightarrow>
                  if bi_objectSize img ! 0 \<noteq> u32_to_u64 n \<or>
                     (\<not> legacyPrime \<and> bi_mods img ! 0 \<noteq> di_mods (planes ! 0)) then None
                  else if list_all (\<lambda>i. bi_planeObjectIndex img ! i = 0 \<and>
                            bi_offsets img ! i = sint (di_offset (planes ! i)) \<and>
                            bi_strides img ! i = sint (di_pitch (planes ! i))) [0..<unat (fi_numPlanes fmt)]
                  then Some (planes, n) else None)"

end
