(* ===== verification/GpuLayoutProps.thy ===== *)
theory GpuLayoutProps
  imports GpuLayout
begin

text \<open>
  What the layout of an image in video memory guarantees: every plane has room for its rows, the planes are
  aligned and do not overlap, nothing wraps around, and an imported image is taken for block-linear memory only if it has
  exactly this layout.
\<close>

section \<open>Rounding\<close>

lemma unat_ROUND_UP:
  assumes s: "0 < unat s" and b: "unat n + unat s < 2 ^ 64"
  shows "unat (ROUND_UP n s) = (unat n + unat s - 1) div unat s * unat s"
proof -
  have a: "unat (n + s) = unat n + unat s" using b by (simp add: unat_add_no_overflow)
  have "1 \<le> n + s" using s a by (simp add: word_le_nat_alt)
  then have m: "unat (n + s - 1) = unat n + unat s - 1" using a by (simp add: unat_sub)
  have d: "unat ((n + s - 1) div s) = (unat n + unat s - 1) div unat s" by (simp add: unat_div_distrib m)
  have "(unat n + unat s - 1) div unat s * unat s \<le> unat n + unat s - 1" by simp
  then have "unat ((n + s - 1) div s) * unat s < 2 ^ 64" using b by (simp only: d)
  then have "unat ((n + s - 1) div s * s) = unat ((n + s - 1) div s) * unat s"
    by (simp add: unat_word_ariths)
  then show ?thesis unfolding ROUND_UP_def d .
qed

lemma round_up_nat:
  fixes n s :: nat
  assumes "0 < s"
  shows "n \<le> (n + s - 1) div s * s" "(n + s - 1) div s * s < n + s" "(n + s - 1) div s * s mod s = 0"
proof -
  have m: "(n + s - 1) mod s < s" using assms by simp
  have e: "(n + s - 1) div s * s + (n + s - 1) mod s = n + s - 1" by simp
  from m e assms show "n \<le> (n + s - 1) div s * s" by linarith
  from e assms show "(n + s - 1) div s * s < n + s" by linarith
  show "(n + s - 1) div s * s mod s = 0" by simp
qed

lemma ROUND_UP_bounds:
  assumes "0 < unat s" "unat n + unat s < 2 ^ 64"
  shows "unat n \<le> unat (ROUND_UP n s)" "unat (ROUND_UP n s) < unat n + unat s" "unat (ROUND_UP n s) mod unat s = 0"
  using round_up_nat [OF assms(1), of "unat n"] by (simp_all only: unat_ROUND_UP [OF assms])

section \<open>Block height\<close>

text \<open>The cap leaves a block of at most one and a half times the height, so the second loop has nothing to do.\<close>

lemma cap_block_height_le: "cap_block_height h k \<le> k"
  by (induction h k rule: cap_block_height.induct) auto

lemma unat_block: "k \<le> 4 \<Longrightarrow> unat (GOB_HEIGHT_IN_BYTES * push_bit k 1) = 8 * 2 ^ k"
proof -
  assume "k \<le> 4"
  then have "k \<in> {0, 1, 2, 3, 4}" by auto
  then show ?thesis by auto
qed

lemma cap_block_height_fits:
  "k \<le> 4 \<Longrightarrow> cap_block_height h k = j \<Longrightarrow> 0 < j \<Longrightarrow> 8 * 2 ^ j \<le> unat h"
proof (induction h k rule: cap_block_height.induct)
  case (2 h k)
  show ?case
  proof (cases "GOB_HEIGHT_IN_BYTES * push_bit (Suc k) 1 > h")
    case True
    then show ?thesis using 2 by simp
  next
    case False
    then have "j = Suc k" using 2(3) by simp
    moreover have "unat (GOB_HEIGHT_IN_BYTES * push_bit (Suc k) 1) \<le> unat h" using False by (simp only: word_le_nat_alt not_less)
    ultimately show ?thesis using unat_block [OF 2(2)] by simp
  qed
qed simp

lemma cap_block_height_largest:
  "k \<le> 4 \<Longrightarrow> cap_block_height h k = j \<Longrightarrow> j < i \<Longrightarrow> i \<le> k \<Longrightarrow> unat h < 8 * 2 ^ i"
proof (induction h k rule: cap_block_height.induct)
  case (2 h k)
  show ?case
  proof (cases "GOB_HEIGHT_IN_BYTES * push_bit (Suc k) 1 > h")
    case True
    then have "unat h < unat (GOB_HEIGHT_IN_BYTES * push_bit (Suc k) 1)" by (simp only: word_less_nat_alt)
    then have "unat h < 8 * 2 ^ Suc k" using unat_block [OF 2(2)] by simp
    then show ?thesis using 2 True by (cases "i = Suc k") auto
  qed (use 2 in auto)
qed simp

text \<open>The block height of a plane: the largest of at most 16 GOBs that exceeds the plane by no more than half, or one GOB.\<close>

lemma block_height:
  assumes "k = calculate_log2_gobs_per_block_y h"
  shows "k \<le> 4" "0 < k \<Longrightarrow> 8 * 2 ^ k \<le> unat h + unat h div 2"
    "k < i \<Longrightarrow> i \<le> 4 \<Longrightarrow> unat h + unat h div 2 < 8 * 2 ^ i"
proof -
  define c where "c = cap_block_height (u32_to_u64 h + u32_to_u64 h div 2) 4"
  have u: "unat (u32_to_u64 h + u32_to_u64 h div 2) = unat h + unat h div 2"
  proof -
    have "unat (u32_to_u64 h div 2) = unat h div 2" by (simp add: unat_div_distrib)
    moreover have "unat h + unat h div 2 < 2 ^ 64" using unat_u32_less [of h] by simp
    ultimately show ?thesis by (subst unat_add_no_overflow) simp_all
  qed
  have c4: "c \<le> 4" using cap_block_height_le by (simp add: c_def)
  have fits: "8 * 2 ^ c \<le> unat h + unat h div 2" if "0 < c"
    using cap_block_height_fits [OF _ c_def [symmetric] that] u by simp
  have "k = c"
  proof (cases c)
    case 0
    then show ?thesis using assms by (simp add: calculate_log2_gobs_per_block_y_def c_def Let_def)
  next
    case (Suc j)
    have j: "j \<in> {0, 1, 2, 3}" using c4 Suc by auto
    have "0 < (2 :: nat) ^ j" "unat h div 2 * 2 \<le> unat h" by simp_all
    moreover have "16 * 2 ^ j \<le> unat h + unat h div 2" using fits Suc by simp
    ultimately have "8 * 2 ^ j < unat h" by linarith
    then have "\<not> push_bit j 8 \<ge> h" using j by (auto simp: word_le_nat_alt)
    then show ?thesis using assms Suc by (simp add: calculate_log2_gobs_per_block_y_def c_def [symmetric] Let_def)
  qed
  then show "k \<le> 4" "0 < k \<Longrightarrow> 8 * 2 ^ k \<le> unat h + unat h div 2"
    "k < i \<Longrightarrow> i \<le> 4 \<Longrightarrow> unat h + unat h div 2 < 8 * 2 ^ i"
    using c4 fits cap_block_height_largest [OF _ c_def [symmetric], of i] u by auto
qed

section \<open>The planes\<close>

text \<open>The bytes that a row of a plane needs, and its rows.\<close>

abbreviation row_bytes :: "u32 \<Rightarrow> u32 \<Rightarrow> NVFormatPlane \<Rightarrow> nat" where
  "row_bytes width bppc p \<equiv> unat (nvPlaneExtent width (fp_ss_x p)) * (unat (fp_channelCount p) * unat bppc)"

abbreviation rows :: "u32 \<Rightarrow> NVFormatPlane \<Rightarrow> nat" where
  "rows height p \<equiv> unat (nvPlaneExtent height (fp_ss_y p))"

definition plane_fits :: "(nat \<Rightarrow> u64) \<Rightarrow> u32 \<Rightarrow> u32 \<Rightarrow> u32 \<Rightarrow> NVFormatPlane \<Rightarrow> nat \<Rightarrow> NVDriverImage \<Rightarrow> bool" where
  "plane_fits modifier width height bppc p k im \<longleftrightarrow>
     unat (di_pitch im) mod 64 = 0 \<and> row_bytes width bppc p \<le> unat (di_pitch im) \<and> unat (di_pitch im) < 2 ^ 31 \<and>
     (\<exists>aligned. unat (di_memorySize im) = unat (di_pitch im) * aligned \<and> aligned mod (8 * 2 ^ k) = 0 \<and>
        rows height p \<le> aligned) \<and> unat (di_offset im) < 2 ^ 31 \<and> di_mods im = modifier k \<and> di_log2Y im = k"

fun laid_out ::
    "(nat \<Rightarrow> u64) \<Rightarrow> u32 \<Rightarrow> u32 \<Rightarrow> u32 \<Rightarrow> (NVFormatPlane \<times> nat) list \<Rightarrow> nat \<Rightarrow> NVDriverImage list \<Rightarrow> nat \<Rightarrow> bool" where
  "laid_out modifier width height bppc [] off [] end' \<longleftrightarrow> end' = off"
| "laid_out modifier width height bppc ((p, k) # ps) off (im # ims) end' \<longleftrightarrow>
     plane_fits modifier width height bppc p k im \<and> unat (di_offset im) = off \<and>
     (\<exists>next'. off + unat (di_memorySize im) \<le> next' \<and> next' mod 65536 = 0 \<and>
        laid_out modifier width height bppc ps next' ims end')"
| "laid_out modifier width height bppc _ _ _ _ \<longleftrightarrow> False"

lemma unat_le_imp_u64_to_u32: "unat w \<le> 4294967295 \<Longrightarrow> unat (u64_to_u32 w) = unat w"
  by (simp add: unat_u64_to_u32)

lemma layout_planes_laid_out:
  "layout_planes modifier width height bppc ps off images = Some (res, off') \<Longrightarrow> unat bppc \<le> 2 \<Longrightarrow>
   \<forall>(p, k) \<in> set ps. unat (fp_channelCount p) \<le> 4 \<and> k \<le> 4 \<Longrightarrow>
   \<exists>new. res = images @ new \<and> laid_out modifier width height bppc ps (unat off) new (unat off') \<and>
     (ps \<noteq> [] \<longrightarrow> unat off' < 2 ^ 32)"
proof (induction modifier width height bppc ps off images rule: layout_planes.induct)
  case (2 modifier width height bppc p k ps off images)
  let ?w = "plane_pitch width bppc p" and ?a = "plane_aligned_height height p k"
  let ?im = "\<lparr>di_width = nvPlaneExtent width (fp_ss_x p), di_height = nvPlaneExtent height (fp_ss_y p),
                 di_mods = modifier k, di_memorySize = u64_to_u32 (?w * ?a),
                 di_offset = u64_to_u32 off, di_pitch = u64_to_u32 ?w, di_fourcc = fp_fourcc p,
                 di_log2Y = k\<rparr>"
  let ?next = "ROUND_UP (off + u32_to_u64 (di_memorySize ?im)) SINGLE_BUFFER_PLANE_ALIGNMENT"
  have g: "\<not> (?w > INT32_MAX \<or> ?a > u32_to_u64 UINT32_MAX \<or> off > INT32_MAX \<or> ?w * ?a > u32_to_u64 UINT32_MAX)"
    "\<not> ?next > u32_to_u64 UINT32_MAX"
    "layout_planes modifier width height bppc ps ?next (images @ [?im]) = Some (res, off')"
    using 2(2) by (simp_all add: Let_def split: if_splits)
  have ch: "unat (fp_channelCount p) \<le> 4" "k \<le> 4" using 2(4) by auto
  have b2: "unat bppc \<le> 2" by (rule 2(3))
  have max: "unat (u32_to_u64 UINT32_MAX) = 4294967295" by simp
  have lim: "unat ?w \<le> 2147483647" "unat ?a \<le> 4294967295" "unat off \<le> 2147483647" "unat (?w * ?a) \<le> 4294967295"
    "unat ?next \<le> 4294967295"
    using g(1,2) max by (simp_all add: not_less word_le_nat_alt)
  have cb: "unat (fp_channelCount p) * unat bppc \<le> 8" using mult_le_mono [OF ch(1) b2] by simp
  then have cb': "unat (fp_channelCount p * bppc) = unat (fp_channelCount p) * unat bppc" by (simp add: unat_word_ariths)
  have rb: "row_bytes width bppc p \<le> 4294967296 * 8"
    by (rule mult_le_mono) (use unat_u32_less [of "nvPlaneExtent width (fp_ss_x p)"] cb in simp_all)
  have "unat (u32_to_u64 (nvPlaneExtent width (fp_ss_x p)) * u32_to_u64 (fp_channelCount p * bppc)) = row_bytes width bppc p"
    using rb cb' by (simp add: unat_word_ariths)
  then have w: "row_bytes width bppc p \<le> unat ?w" "unat ?w mod 64 = 0"
    using ROUND_UP_bounds [of GOB_WIDTH_IN_BYTES "u32_to_u64 (nvPlaneExtent width (fp_ss_x p)) * u32_to_u64 (fp_channelCount p * bppc)"] rb
    by (simp_all add: plane_pitch_def)
  have k8: "unat (push_bit k GOB_HEIGHT_IN_BYTES) = 8 * 2 ^ k"
  proof -
    have "k \<in> {0, 1, 2, 3, 4}" using ch by auto
    then show ?thesis by auto
  qed
  have k128: "8 * 2 ^ k \<le> (128 :: nat)" using power_increasing [OF ch(2), of "2 :: nat"] by simp
  have a: "rows height p \<le> unat ?a" "unat ?a mod (8 * 2 ^ k) = 0"
    using ROUND_UP_bounds [of "push_bit k GOB_HEIGHT_IN_BYTES" "u32_to_u64 (nvPlaneExtent height (fp_ss_y p))"]
      unat_u32_less [of "nvPlaneExtent height (fp_ss_y p)"] k8 k128
    by (simp_all add: plane_aligned_height_def)
  have prod: "unat (?w * ?a) = unat ?w * unat ?a"
  proof -
    have "unat ?w * unat ?a \<le> 2147483647 * 4294967295" by (rule mult_le_mono [OF lim(1,2)])
    then show ?thesis by (simp add: unat_word_ariths)
  qed
  have im: "unat (di_pitch ?im) = unat ?w" "unat (di_memorySize ?im) = unat ?w * unat ?a" "unat (di_offset ?im) = unat off"
    using lim prod by (simp_all add: unat_le_imp_u64_to_u32)
  have fits: "plane_fits modifier width height bppc p k ?im"
    unfolding plane_fits_def using im w a lim by auto
  have sum: "unat (off + u32_to_u64 (di_memorySize ?im)) = unat off + unat (di_memorySize ?im)"
    by (rule unat_add_no_overflow [THEN trans]) (use lim prod im in simp_all)
  have "unat off + unat (di_memorySize ?im) + 65536 < 2 ^ 64" using lim prod im by simp
  then have n: "unat off + unat (di_memorySize ?im) \<le> unat ?next" "unat ?next mod 65536 = 0"
    using ROUND_UP_bounds [of SINGLE_BUFFER_PLANE_ALIGNMENT "off + u32_to_u64 (di_memorySize ?im)"] unfolding sum
    by (simp_all del: NVDriverImage.select_convs)
  obtain new where new: "res = (images @ [?im]) @ new" "laid_out modifier width height bppc ps (unat ?next) new (unat off')"
    "ps \<noteq> [] \<longrightarrow> unat off' < 2 ^ 32"
    using 2(1) [OF refl refl g(1) refl refl g(2) g(3) b2] 2(4) by auto
  have "unat off' < 2 ^ 32"
  proof (cases ps)
    case Nil
    then have "off' = ?next" using g(3) by simp
    then show ?thesis using lim(5) by simp
  qed (use new(3) in simp)
  then show ?case using new fits im n by (intro exI [of _ "?im # new"]) auto
qed simp

lemma laid_out_planes:
  "laid_out modifier width height bppc ps off ims end' \<Longrightarrow> off mod 65536 = 0 \<Longrightarrow>
   length ims = length ps \<and> end' mod 65536 = 0 \<and>
   (\<forall>i < length ps. plane_fits modifier width height bppc (fst (ps ! i)) (snd (ps ! i)) (ims ! i) \<and>
      unat (di_offset (ims ! i)) mod 65536 = 0 \<and>
      unat (di_offset (ims ! i)) + unat (di_memorySize (ims ! i)) \<le>
        (if Suc i < length ps then unat (di_offset (ims ! Suc i)) else end'))"
proof (induction modifier width height bppc ps off ims end' rule: laid_out.induct)
  case (2 modifier width height bppc p k ps off im ims end')
  obtain n where n: "off + unat (di_memorySize im) \<le> n" "n mod 65536 = 0"
    "laid_out modifier width height bppc ps n ims end'" and fits: "plane_fits modifier width height bppc p k im"
    and off: "unat (di_offset im) = off" using 2(2) by auto
  note IH = 2(1) [OF n(3,2)]
  have first: "n = (if ps \<noteq> [] then unat (di_offset (ims ! 0)) else end')"
    using n(3) by (cases ps; cases ims) auto
  show ?case
  proof (intro conjI allI impI)
    fix i assume i: "i < length ((p, k) # ps)"
    show "plane_fits modifier width height bppc (fst (((p, k) # ps) ! i)) (snd (((p, k) # ps) ! i)) ((im # ims) ! i)"
      "unat (di_offset ((im # ims) ! i)) mod 65536 = 0"
      "unat (di_offset ((im # ims) ! i)) + unat (di_memorySize ((im # ims) ! i)) \<le>
        (if Suc i < length ((p, k) # ps) then unat (di_offset ((im # ims) ! Suc i)) else end')"
      using IH i n(1) fits off 2(3) first by (cases i; auto)+
  qed (use IH in auto)
qed auto

lemma fold_larger:
  fixes a :: nat
  defines "larger \<equiv> \<lambda>k m. if k > m then k else (m :: nat)"
  shows "fold larger xs a \<in> set (a # xs) \<and> (\<forall>k \<in> set (a # xs). k \<le> fold larger xs a)"
proof (induction xs arbitrary: a)
  case (Cons x xs)
  have "larger x a = x \<or> larger x a = a" "x \<le> larger x a" "a \<le> larger x a" by (auto simp: larger_def)
  then show ?case using Cons [of "larger x a"] by auto
qed simp

lemma layout_facts:
  assumes "calculate_unified_image_layout modifier width height bppc planes unify = Some (images, totalSize)"
  shows "length images = length planes \<and>
    (\<forall>i < length planes. \<exists>k. plane_fits modifier width height bppc (planes ! i) k (images ! i) \<and>
       unat (di_offset (images ! i)) mod 65536 = 0 \<and>
       unat (di_offset (images ! i)) + unat (di_memorySize (images ! i)) \<le>
         (if Suc i < length planes then unat (di_offset (images ! Suc i)) else unat totalSize) \<and>
       (if unify then calculate_log2_gobs_per_block_y (nvPlaneExtent height (fp_ss_y (planes ! i))) \<le> k \<and>
                      di_mods (images ! i) = di_mods (images ! 0)
        else k = calculate_log2_gobs_per_block_y (nvPlaneExtent height (fp_ss_y (planes ! i)))))"
proof -
  define own where "own = map (\<lambda>p. calculate_log2_gobs_per_block_y (nvPlaneExtent height (fp_ss_y p))) planes"
  define m where "m = fold (\<lambda>k m. if k > m then k else m) (tl own) (hd own)"
  define ks where "ks = (if unify then map (\<lambda>_. m) planes else own)"
  obtain off' where lay: "layout_planes modifier width height bppc (zip planes ks) 0 [] = Some (images, off')"
    and totalSize: "totalSize = u64_to_u32 off'" and g: "\<not> bppc > 2" "planes \<noteq> []"
    "list_all (\<lambda>p. \<not> (fp_ss_x p > 1 \<or> fp_ss_y p > 1 \<or> fp_channelCount p = 0 \<or> fp_channelCount p > 4)) planes"
    using assms
    by (auto simp: calculate_unified_image_layout_def Let_def own_def [symmetric] m_def [symmetric] ks_def
        list_ex_iff list_all_iff split: if_splits option.splits)
  have own: "own \<noteq> []" "length own = length planes" using g by (simp_all add: own_def)
  have mm: "m \<in> set own \<and> (\<forall>k \<in> set own. k \<le> m)"
    using fold_larger [of "tl own" "hd own"] own(1) unfolding m_def by simp
  have own4: "k \<le> 4" if "k \<in> set own" for k using that block_height(1) by (auto simp: own_def)
  have m: "k \<le> m" if "k \<in> set own" for k using that by (simp add: mm)
  have m4: "m \<le> 4" using mm own4 by blast
  have len: "length ks = length planes" using own by (simp add: ks_def)
  have b: "unat bppc \<le> 2" using g(1) by (simp add: word_less_nat_alt)
  have small: "\<forall>(p, k) \<in> set (zip planes ks). unat (fp_channelCount p) \<le> 4 \<and> k \<le> 4"
  proof safe
    fix p k assume pk: "(p, k) \<in> set (zip planes ks)"
    have "p \<in> set planes" using set_zip_leftD [OF pk] .
    then show "unat (fp_channelCount p) \<le> 4" using g(3) by (auto simp: list_all_iff word_less_nat_alt)
    have "k \<in> set ks" using set_zip_rightD [OF pk] .
    then show "k \<le> 4" using own4 m4 by (auto simp: ks_def split: if_splits)
  qed
  have "zip planes ks \<noteq> []" using g(2) len by (cases planes; cases ks) auto
  then obtain "laid_out modifier width height bppc (zip planes ks) 0 images (unat off')" "unat off' < 2 ^ 32"
    using layout_planes_laid_out [OF lay b small] by auto
  note lo = laid_out_planes [OF this(1) mod_0] and this(2)
  have t: "unat totalSize = unat off'" using \<open>unat off' < 2 ^ 32\<close> unfolding totalSize by (simp add: unat_le_imp_u64_to_u32)
  have n: "length (zip planes ks) = length planes" using len by simp
  have z: "zip planes ks ! i = (planes ! i, ks ! i)" if "i < length planes" for i using that len by simp
  have fits: "plane_fits modifier width height bppc (planes ! i) (ks ! i) (images ! i)" if "i < length planes" for i
    using lo that z [OF that] n by auto
  have mods: "di_mods (images ! i) = modifier (ks ! i)" if "i < length planes" for i
    using fits [OF that] by (simp add: plane_fits_def)
  have "0 < length planes" using g by simp
  show ?thesis
  proof (intro conjI allI impI)
    show "length images = length planes" using lo n by simp
    fix i assume i: "i < length planes"
    have k: "if unify then calculate_log2_gobs_per_block_y (nvPlaneExtent height (fp_ss_y (planes ! i))) \<le> ks ! i \<and>
                      di_mods (images ! i) = di_mods (images ! 0)
        else ks ! i = calculate_log2_gobs_per_block_y (nvPlaneExtent height (fp_ss_y (planes ! i)))"
      using i m [of "own ! i"] own mods [OF i] mods [OF \<open>0 < length planes\<close>] by (auto simp: ks_def own_def)
    show "\<exists>k. plane_fits modifier width height bppc (planes ! i) k (images ! i) \<and>
       unat (di_offset (images ! i)) mod 65536 = 0 \<and>
       unat (di_offset (images ! i)) + unat (di_memorySize (images ! i)) \<le>
         (if Suc i < length planes then unat (di_offset (images ! Suc i)) else unat totalSize) \<and>
       (if unify then calculate_log2_gobs_per_block_y (nvPlaneExtent height (fp_ss_y (planes ! i))) \<le> k \<and>
                      di_mods (images ! i) = di_mods (images ! 0)
        else k = calculate_log2_gobs_per_block_y (nvPlaneExtent height (fp_ss_y (planes ! i))))"
    proof (intro exI conjI)
      show "unat (di_offset (images ! i)) mod 65536 = 0"
        "unat (di_offset (images ! i)) + unat (di_memorySize (images ! i)) \<le>
         (if Suc i < length planes then unat (di_offset (images ! Suc i)) else unat totalSize)"
        using lo i unfolding t n by blast+
    qed (fact fits [OF i], fact k)
  qed
qed


text \<open>Memory that is read as block-linear lies in the object it was imported from.\<close>

lemma native_layout_in_object:
  assumes run: "native_layout modifier img legacy = Some (planes, n)" and i: "i < length planes"
  shows "0 \<le> bi_offsets img ! i \<and> bi_planeObjectIndex img ! i = 0 \<and>
    nat (bi_offsets img ! i) + unat (di_memorySize (planes ! i)) \<le> unat (bi_objectSize img ! 0)"
proof -
  let ?ps = "take (unat (fi_numPlanes (formatsInfo (bi_format img)))) (fi_plane (formatsInfo (bi_format img)))"
  have lay: "calculate_unified_image_layout modifier (bi_width img) (bi_height img) (fi_bppc (formatsInfo (bi_format img)))
      ?ps True = Some (planes, n)"
    and n: "bi_objectSize img ! 0 = u32_to_u64 n"
    and all: "\<forall>i < unat (fi_numPlanes (formatsInfo (bi_format img))). bi_planeObjectIndex img ! i = 0 \<and>
      bi_offsets img ! i = sint (di_offset (planes ! i)) \<and> bi_strides img ! i = sint (di_pitch (planes ! i))"
    using run by (auto simp: native_layout_def Let_def list_all_iff split: if_splits option.splits prod.splits)
  note f = layout_facts [OF lay]
  have len: "length planes = length ?ps" using f by blast
  then have "i < unat (fi_numPlanes (formatsInfo (bi_format img)))" using i by simp
  then have p: "bi_planeObjectIndex img ! i = 0" "bi_offsets img ! i = sint (di_offset (planes ! i))" using all by blast+
  have chain: "unat (di_offset (planes ! j)) + unat (di_memorySize (planes ! j)) \<le>
         (if Suc j < length planes then unat (di_offset (planes ! Suc j)) else unat n)" if "j < length planes" for j
    using f that unfolding len by blast
  have "j < length planes \<Longrightarrow> unat (di_offset (planes ! j)) + unat (di_memorySize (planes ! j)) \<le> unat n" for j
  proof (induction "length planes - j" arbitrary: j)
    case (Suc d)
    show ?case
    proof (cases "Suc j < length planes")
      case True
      then have "unat (di_offset (planes ! Suc j)) + unat (di_memorySize (planes ! Suc j)) \<le> unat n"
        using Suc by (intro Suc.hyps(1)) simp_all
      then show ?thesis using chain [OF Suc.prems] True by simp
    next
      case False
      then show ?thesis using chain [OF Suc.prems] by simp
    qed
  qed simp
  from this [OF i] have e: "unat (di_offset (planes ! i)) + unat (di_memorySize (planes ! i)) \<le> unat n" .
  obtain k where "plane_fits modifier (bi_width img) (bi_height img) (fi_bppc (formatsInfo (bi_format img))) (?ps ! i) k (planes ! i)"
    using f len i by auto
  then have small: "unat (di_offset (planes ! i)) < 2 ^ 31" by (simp add: plane_fits_def)
  have "sint (di_offset (planes ! i)) = int (unat (di_offset (planes ! i)))"
  proof -
    have "int (unat (di_offset (planes ! i))) < int (2 ^ 31)" using small by (simp only: of_nat_less_iff)
    then have "uint (di_offset (planes ! i)) < 2 ^ 31" by simp
    then show ?thesis unfolding sint_uint
      by (subst signed_take_bit_int_eq_self) (simp_all add: order_trans [OF _ unsigned_greater_eq])
  qed
  then show ?thesis using p n e by simp
qed


end
