(* ===== verification/Stats.thy ===== *)
theory Stats
  imports Formats
begin

text \<open>
  Statistics of the driver (\<open>src/stats.c\<close>, \<open>src/stats.h\<close>): counters and gauges, the accounting of backing images,
  histograms of durations with their percentiles.

  A counter is its number in \<open>NVStatCounter\<close>; \<open>ss_stats\<close> holds the values. The fields \<open>stats...\<close> of a
  \<open>BackingImage\<close> are the record \<open>image_stats\<close>, by the address of the image. The atomic operations are
  relaxed and each is one step of the call; text output and reading the clock are left out.
\<close>

section \<open>Counters\<close>

type_synonym NVStatCounter = nat

abbreviation NV_STAT_DECODE_PICTURES :: NVStatCounter where "NV_STAT_DECODE_PICTURES \<equiv> 4"
abbreviation NV_STAT_EXPORT_DESCRIPTORS :: NVStatCounter where "NV_STAT_EXPORT_DESCRIPTORS \<equiv> 8"
abbreviation NV_STAT_EXPORT_DESCRIPTORS_SINGLE :: NVStatCounter where "NV_STAT_EXPORT_DESCRIPTORS_SINGLE \<equiv> 9"
abbreviation NV_STAT_EXPORT_DESCRIPTORS_MULTI :: NVStatCounter where "NV_STAT_EXPORT_DESCRIPTORS_MULTI \<equiv> 10"
abbreviation NV_STAT_BACKING_CACHE_HITS :: NVStatCounter where "NV_STAT_BACKING_CACHE_HITS \<equiv> 25"
abbreviation NV_STAT_ACTIVE_BACKING_IMAGES :: NVStatCounter where "NV_STAT_ACTIVE_BACKING_IMAGES \<equiv> 26"
abbreviation NV_STAT_DETACHED_BACKING_IMAGES :: NVStatCounter where "NV_STAT_DETACHED_BACKING_IMAGES \<equiv> 27"
abbreviation NV_STAT_BORROWED_BACKING_IMAGES :: NVStatCounter where "NV_STAT_BORROWED_BACKING_IMAGES \<equiv> 28"
abbreviation NV_STAT_EXTERNAL_BACKING_IMAGES :: NVStatCounter where "NV_STAT_EXTERNAL_BACKING_IMAGES \<equiv> 29"
abbreviation NV_STAT_ACTIVE_BACKING_BYTES :: NVStatCounter where "NV_STAT_ACTIVE_BACKING_BYTES \<equiv> 30"
abbreviation NV_STAT_DETACHED_BACKING_BYTES :: NVStatCounter where "NV_STAT_DETACHED_BACKING_BYTES \<equiv> 31"
abbreviation NV_STAT_ACTIVE_BACKING_BYTES_PEAK :: NVStatCounter where "NV_STAT_ACTIVE_BACKING_BYTES_PEAK \<equiv> 32"
abbreviation NV_STAT_DETACHED_BACKING_BYTES_PEAK :: NVStatCounter where "NV_STAT_DETACHED_BACKING_BYTES_PEAK \<equiv> 33"
abbreviation NV_STAT_TOTAL_BACKING_BYTES_PEAK :: NVStatCounter where "NV_STAT_TOTAL_BACKING_BYTES_PEAK \<equiv> 34"
abbreviation NV_STAT_VIDEOPROC_GPU_SCRATCH_BYTES :: NVStatCounter where "NV_STAT_VIDEOPROC_GPU_SCRATCH_BYTES \<equiv> 35"
abbreviation NV_STAT_VIDEOPROC_CPU_SCRATCH_BYTES :: NVStatCounter where "NV_STAT_VIDEOPROC_CPU_SCRATCH_BYTES \<equiv> 37"
abbreviation NV_STAT_TRACKED_GPU_BYTES :: NVStatCounter where "NV_STAT_TRACKED_GPU_BYTES \<equiv> 39"
abbreviation NV_STAT_TRACKED_GPU_BYTES_PEAK :: NVStatCounter where "NV_STAT_TRACKED_GPU_BYTES_PEAK \<equiv> 40"
abbreviation NV_STAT_TRACKED_HOST_BYTES :: NVStatCounter where "NV_STAT_TRACKED_HOST_BYTES \<equiv> 41"
abbreviation NV_STAT_TRACKED_HOST_BYTES_PEAK :: NVStatCounter where "NV_STAT_TRACKED_HOST_BYTES_PEAK \<equiv> 42"
abbreviation NV_STAT_BUFFER_POOL_RETAINED_BYTES :: NVStatCounter where "NV_STAT_BUFFER_POOL_RETAINED_BYTES \<equiv> 56"
abbreviation NV_STAT_UNIQUE_OWNED_BACKING_BYTES :: NVStatCounter where "NV_STAT_UNIQUE_OWNED_BACKING_BYTES \<equiv> 67"
abbreviation NV_STAT_UNIQUE_OWNED_BACKING_BYTES_PEAK :: NVStatCounter where "NV_STAT_UNIQUE_OWNED_BACKING_BYTES_PEAK \<equiv> 68"
abbreviation NV_STAT_BORROWED_VIEW_BYTES :: NVStatCounter where "NV_STAT_BORROWED_VIEW_BYTES \<equiv> 69"
abbreviation NV_STAT_EXTERNAL_IMPORT_BYTES :: NVStatCounter where "NV_STAT_EXTERNAL_IMPORT_BYTES \<equiv> 70"
abbreviation NV_STAT_SECURITY_CLEAR_SCRATCH_BYTES :: NVStatCounter where "NV_STAT_SECURITY_CLEAR_SCRATCH_BYTES \<equiv> 71"
abbreviation NV_STAT_SECURITY_CLEAR_HOST_BYTES :: NVStatCounter where "NV_STAT_SECURITY_CLEAR_HOST_BYTES \<equiv> 72"
abbreviation NV_STAT_BUFFER_LIVE_CAPACITY_BYTES :: NVStatCounter where "NV_STAT_BUFFER_LIVE_CAPACITY_BYTES \<equiv> 74"
abbreviation NV_STAT_CONTEXT_HOST_BUFFER_BYTES :: NVStatCounter where "NV_STAT_CONTEXT_HOST_BUFFER_BYTES \<equiv> 75"
abbreviation NV_STAT_OWNED_GPU_BYTES :: NVStatCounter where "NV_STAT_OWNED_GPU_BYTES \<equiv> 76"
abbreviation NV_STAT_OWNED_GPU_BYTES_PEAK :: NVStatCounter where "NV_STAT_OWNED_GPU_BYTES_PEAK \<equiv> 77"
abbreviation NV_STAT_COUNT :: NVStatCounter where "NV_STAT_COUNT \<equiv> 78"

record image_stats =
  im_statsBytes :: u64
  im_statsTracked :: bool
  im_statsActive :: bool
  im_statsBorrowed :: bool
  im_statsExternal :: bool

record NVStats =
  ss_enabled :: bool
  ss_logInterval :: u64
  ss_stats :: "NVStatCounter \<Rightarrow> u64"
  ss_images :: "nat \<Rightarrow> image_stats"

abbreviation statLoad :: "NVStats \<Rightarrow> NVStatCounter \<Rightarrow> u64" where
  "statLoad drv c \<equiv> ss_stats drv c"

text \<open>The atomic operations on a counter.\<close>

definition fetch_add :: "NVStatCounter \<Rightarrow> u64 \<Rightarrow> NVStats \<Rightarrow> NVStats" where
  "fetch_add c v drv = drv\<lparr>ss_stats := (ss_stats drv)(c := ss_stats drv c + v)\<rparr>"

definition fetch_sub :: "NVStatCounter \<Rightarrow> u64 \<Rightarrow> NVStats \<Rightarrow> NVStats" where
  "fetch_sub c v drv = drv\<lparr>ss_stats := (ss_stats drv)(c := ss_stats drv c - v)\<rparr>"

definition nvStatsAdd :: "NVStatCounter \<Rightarrow> u64 \<Rightarrow> NVStats \<Rightarrow> NVStats" where
  "nvStatsAdd c v drv =
     (if \<not> ss_enabled drv \<or> c \<ge> NV_STAT_COUNT \<or> v = 0 then drv else fetch_add c v drv)"

definition nvStatsSubtract :: "NVStatCounter \<Rightarrow> u64 \<Rightarrow> NVStats \<Rightarrow> NVStats" where
  "nvStatsSubtract c v drv =
     (if ss_enabled drv \<and> c < NV_STAT_COUNT \<and> v \<noteq> 0 then fetch_sub c v drv else drv)"

definition nvStatsSet :: "NVStatCounter \<Rightarrow> u64 \<Rightarrow> NVStats \<Rightarrow> NVStats" where
  "nvStatsSet c v drv =
     (if \<not> ss_enabled drv \<or> c \<ge> NV_STAT_COUNT then drv else drv\<lparr>ss_stats := (ss_stats drv)(c := v)\<rparr>)"

text \<open>The compare-and-exchange loop ends with a value that is at least \<open>v\<close>; without another thread it is one exchange.\<close>

definition nvStatsSetMax :: "NVStatCounter \<Rightarrow> u64 \<Rightarrow> NVStats \<Rightarrow> NVStats" where
  "nvStatsSetMax c v drv =
     (if \<not> ss_enabled drv \<or> c \<ge> NV_STAT_COUNT then drv
      else if statLoad drv c < v then drv\<lparr>ss_stats := (ss_stats drv)(c := v)\<rparr> else drv)"

text \<open>The second component says whether the statistics are logged.\<close>

definition nvStatsIncrement :: "NVStatCounter \<Rightarrow> NVStats \<Rightarrow> NVStats \<times> bool" where
  "nvStatsIncrement c drv =
     (if \<not> ss_enabled drv \<or> c \<ge> NV_STAT_COUNT then (drv, False)
      else
        let drv = fetch_add c 1 drv; value' = statLoad drv c
        in (drv, c = NV_STAT_DECODE_PICTURES \<and> ss_logInterval drv > 0 \<and> value' mod ss_logInterval drv = 0))"

section \<open>Estimates and backing images\<close>

definition nvStatsUpdateMemoryEstimates :: "NVStats \<Rightarrow> NVStats" where
  "nvStatsUpdateMemoryEstimates drv =
     (if \<not> ss_enabled drv then drv
      else
        let gpuBytes = statLoad drv NV_STAT_ACTIVE_BACKING_BYTES + statLoad drv NV_STAT_DETACHED_BACKING_BYTES +
              statLoad drv NV_STAT_VIDEOPROC_GPU_SCRATCH_BYTES;
            ownedGpuBytes = statLoad drv NV_STAT_UNIQUE_OWNED_BACKING_BYTES +
              statLoad drv NV_STAT_VIDEOPROC_GPU_SCRATCH_BYTES + statLoad drv NV_STAT_SECURITY_CLEAR_SCRATCH_BYTES;
            hostBytes = statLoad drv NV_STAT_VIDEOPROC_CPU_SCRATCH_BYTES +
              statLoad drv NV_STAT_BUFFER_LIVE_CAPACITY_BYTES + statLoad drv NV_STAT_BUFFER_POOL_RETAINED_BYTES +
              statLoad drv NV_STAT_CONTEXT_HOST_BUFFER_BYTES + statLoad drv NV_STAT_SECURITY_CLEAR_HOST_BYTES;
            drv = nvStatsSet NV_STAT_OWNED_GPU_BYTES ownedGpuBytes drv;
            drv = nvStatsSetMax NV_STAT_OWNED_GPU_BYTES_PEAK ownedGpuBytes drv;
            drv = nvStatsSet NV_STAT_TRACKED_GPU_BYTES gpuBytes drv;
            drv = nvStatsSetMax NV_STAT_TRACKED_GPU_BYTES_PEAK gpuBytes drv;
            drv = nvStatsSet NV_STAT_TRACKED_HOST_BYTES hostBytes drv
        in nvStatsSetMax NV_STAT_TRACKED_HOST_BYTES_PEAK hostBytes drv)"

definition updateBackingPeaks :: "NVStats \<Rightarrow> NVStats" where
  "updateBackingPeaks drv =
     (let active = statLoad drv NV_STAT_ACTIVE_BACKING_BYTES; detached = statLoad drv NV_STAT_DETACHED_BACKING_BYTES;
          drv = nvStatsSetMax NV_STAT_ACTIVE_BACKING_BYTES_PEAK active drv;
          drv = nvStatsSetMax NV_STAT_DETACHED_BACKING_BYTES_PEAK detached drv;
          drv = nvStatsSetMax NV_STAT_TOTAL_BACKING_BYTES_PEAK (active + detached) drv
      in nvStatsUpdateMemoryEstimates drv)"

definition backingImageStatsSize :: "BackingImage \<Rightarrow> u64" where
  "backingImageStatsSize img =
     (if bi_totalSize img \<noteq> 0 then bi_totalSize img
      else fold (\<lambda>i n. n + u32_to_u64 (bi_size img ! i)) [0..<unat (fi_numPlanes (formatsInfo (bi_format img)))] 0)"

text \<open>The counter that the bytes of an image belong to, by what it is.\<close>

definition kind_counter :: "image_stats \<Rightarrow> NVStatCounter" where
  "kind_counter m =
     (if im_statsBorrowed m then NV_STAT_BORROWED_VIEW_BYTES
      else if im_statsExternal m then NV_STAT_EXTERNAL_IMPORT_BYTES
      else NV_STAT_UNIQUE_OWNED_BACKING_BYTES)"

definition set_image :: "nat \<Rightarrow> image_stats \<Rightarrow> NVStats \<Rightarrow> NVStats" where
  "set_image i m drv = drv\<lparr>ss_images := (ss_images drv)(i := m)\<rparr>"

definition nvStatsBackingImageCreated :: "nat \<Rightarrow> BackingImage \<Rightarrow> bool \<Rightarrow> NVStats \<Rightarrow> NVStats" where
  "nvStatsBackingImageCreated i img active drv =
     (if \<not> ss_enabled drv \<or> im_statsTracked (ss_images drv i) then drv
      else
        let m = \<lparr>im_statsBytes = backingImageStatsSize img, im_statsTracked = True, im_statsActive = active,
                 im_statsBorrowed = (bi_borrowedCudaResources img \<or> bi_borrowed img \<noteq> None),
                 im_statsExternal = bi_isExternalBuffer img\<rparr>;
            drv = set_image i m drv;
            drv = nvStatsAdd (if active then NV_STAT_ACTIVE_BACKING_IMAGES else NV_STAT_DETACHED_BACKING_IMAGES) 1 drv;
            drv = nvStatsAdd (if active then NV_STAT_ACTIVE_BACKING_BYTES else NV_STAT_DETACHED_BACKING_BYTES)
                    (im_statsBytes m) drv;
            drv = nvStatsAdd (kind_counter m) (im_statsBytes m) drv;
            drv = nvStatsSetMax NV_STAT_UNIQUE_OWNED_BACKING_BYTES_PEAK
                    (statLoad drv NV_STAT_UNIQUE_OWNED_BACKING_BYTES) drv;
            drv = (if im_statsBorrowed m then nvStatsAdd NV_STAT_BORROWED_BACKING_IMAGES 1 drv else drv);
            drv = (if im_statsExternal m then nvStatsAdd NV_STAT_EXTERNAL_BACKING_IMAGES 1 drv else drv)
        in updateBackingPeaks drv)"

definition nvStatsBackingImageSetActive :: "nat \<Rightarrow> bool \<Rightarrow> NVStats \<Rightarrow> NVStats" where
  "nvStatsBackingImageSetActive i active drv =
     (let m = ss_images drv i
      in if \<not> ss_enabled drv \<or> \<not> im_statsTracked m \<or> im_statsActive m = active then drv
         else
           let drv = fetch_sub (if im_statsActive m then NV_STAT_ACTIVE_BACKING_IMAGES
                                else NV_STAT_DETACHED_BACKING_IMAGES) 1 drv;
               drv = fetch_sub (if im_statsActive m then NV_STAT_ACTIVE_BACKING_BYTES
                                else NV_STAT_DETACHED_BACKING_BYTES) (im_statsBytes m) drv;
               drv = nvStatsAdd (if active then NV_STAT_ACTIVE_BACKING_IMAGES
                                 else NV_STAT_DETACHED_BACKING_IMAGES) 1 drv;
               drv = nvStatsAdd (if active then NV_STAT_ACTIVE_BACKING_BYTES
                                 else NV_STAT_DETACHED_BACKING_BYTES) (im_statsBytes m) drv;
               drv = set_image i (m\<lparr>im_statsActive := active\<rparr>) drv
           in updateBackingPeaks drv)"

definition nvStatsBackingImageDestroyed :: "nat \<Rightarrow> NVStats \<Rightarrow> NVStats" where
  "nvStatsBackingImageDestroyed i drv =
     (let m = ss_images drv i
      in if \<not> ss_enabled drv \<or> \<not> im_statsTracked m then drv
         else
           let drv = fetch_sub (if im_statsActive m then NV_STAT_ACTIVE_BACKING_IMAGES
                                else NV_STAT_DETACHED_BACKING_IMAGES) 1 drv;
               drv = fetch_sub (if im_statsActive m then NV_STAT_ACTIVE_BACKING_BYTES
                                else NV_STAT_DETACHED_BACKING_BYTES) (im_statsBytes m) drv;
               drv = (if im_statsBorrowed m then fetch_sub NV_STAT_BORROWED_BACKING_IMAGES 1 drv else drv);
               drv = (if im_statsExternal m then fetch_sub NV_STAT_EXTERNAL_BACKING_IMAGES 1 drv else drv);
               drv = nvStatsSubtract (kind_counter m) (im_statsBytes m) drv;
               drv = set_image i (m\<lparr>im_statsTracked := False, im_statsBytes := 0, im_statsBorrowed := False,
                                    im_statsExternal := False\<rparr>) drv
           in nvStatsUpdateMemoryEstimates drv)"

text \<open>The host buffers of a context: the gauge follows their sizes through the value that was last counted.\<close>

definition nvStatsContextHostBuffers :: "u64 \<Rightarrow> u64 \<Rightarrow> NVStats \<Rightarrow> u64 \<times> NVStats" where
  "nvStatsContextHostBuffers bytes counted drv =
     (if \<not> ss_enabled drv then (counted, drv)
      else
        let drv = (if bytes \<ge> counted then nvStatsAdd NV_STAT_CONTEXT_HOST_BUFFER_BYTES (bytes - counted) drv
                   else nvStatsSubtract NV_STAT_CONTEXT_HOST_BUFFER_BYTES (counted - bytes) drv)
        in (bytes, nvStatsUpdateMemoryEstimates drv))"

section \<open>Histograms\<close>

abbreviation NV_TIMING_BUCKETS :: nat where "NV_TIMING_BUCKETS \<equiv> 32"

text \<open>The loop that finds the bucket, with the bound \<open>upper\<close> of the current one.\<close>

function timing_bucket :: "u64 \<Rightarrow> u64 \<Rightarrow> nat \<Rightarrow> nat" where
  "timing_bucket ns upper bucket =
     (if ns > upper \<and> bucket < NV_TIMING_BUCKETS - 1
      then timing_bucket ns (push_bit 1 upper) (Suc bucket) else bucket)"
  by pat_completeness auto

termination by (relation "measure (\<lambda>(ns, upper, bucket). 32 - bucket)") auto

definition histogramAdd :: "u64 list \<Rightarrow> u64 \<Rightarrow> u64 list" where
  "histogramAdd buckets ns =
     (let bucket = timing_bucket ns 1000 0 in buckets[bucket := buckets ! bucket + 1])"

text \<open>A percentile: the bound of the first bucket at which the running sum reaches the rank.\<close>

definition percentile_rank :: "u64 \<Rightarrow> u64 \<Rightarrow> u64" where
  "percentile_rank n p = (n div 100) * p + ((n mod 100) * p + 99) div 100"

fun percentile_upper :: "u64 list \<Rightarrow> u64 \<Rightarrow> nat \<Rightarrow> u64 \<Rightarrow> u64" where
  "percentile_upper [] rank i cumulative = 0"
| "percentile_upper (b # bins) rank i cumulative =
     (if cumulative + b \<ge> rank then (if i = NV_TIMING_BUCKETS - 1 then UINT64_MAX else push_bit i 1000)
      else percentile_upper bins rank (Suc i) (cumulative + b))"

definition histogram_percentile :: "u64 list \<Rightarrow> u64 \<Rightarrow> u64" where
  "histogram_percentile bins p =
     percentile_upper bins (percentile_rank (sum_list bins) p) 0 0"

end
