(* ===== verification/StatsProps.thy ===== *)
theory StatsProps
  imports Stats
begin

text \<open>
  The gauges of the statistics are exact: whatever images are created, attached, detached and destroyed, the counters
  hold the numbers and bytes of the images that exist; and a percentile of a histogram is the percentile of the
  observed durations up to the width of a bucket.
\<close>

section \<open>Gauges of backing images\<close>

text \<open>What one image contributes to a gauge.\<close>

definition weight :: "NVStatCounter \<Rightarrow> image_stats \<Rightarrow> u64" where
  "weight c m =
     (if \<not> im_statsTracked m then 0
      else if c = NV_STAT_ACTIVE_BACKING_IMAGES then (if im_statsActive m then 1 else 0)
      else if c = NV_STAT_DETACHED_BACKING_IMAGES then (if im_statsActive m then 0 else 1)
      else if c = NV_STAT_BORROWED_BACKING_IMAGES then (if im_statsBorrowed m then 1 else 0)
      else if c = NV_STAT_EXTERNAL_BACKING_IMAGES then (if im_statsExternal m then 1 else 0)
      else if c = NV_STAT_ACTIVE_BACKING_BYTES then (if im_statsActive m then im_statsBytes m else 0)
      else if c = NV_STAT_DETACHED_BACKING_BYTES then (if im_statsActive m then 0 else im_statsBytes m)
      else if c = kind_counter m then im_statsBytes m else 0)"

definition image_gauges :: "NVStatCounter set" where
  "image_gauges = {NV_STAT_ACTIVE_BACKING_IMAGES, NV_STAT_DETACHED_BACKING_IMAGES, NV_STAT_BORROWED_BACKING_IMAGES,
     NV_STAT_EXTERNAL_BACKING_IMAGES, NV_STAT_ACTIVE_BACKING_BYTES, NV_STAT_DETACHED_BACKING_BYTES,
     NV_STAT_UNIQUE_OWNED_BACKING_BYTES, NV_STAT_BORROWED_VIEW_BYTES, NV_STAT_EXTERNAL_IMPORT_BYTES}"

definition tracked_images :: "NVStats \<Rightarrow> nat set" where
  "tracked_images drv = {i. im_statsTracked (ss_images drv i)}"

definition gauges_ok :: "NVStats \<Rightarrow> bool" where
  "gauges_ok drv \<longleftrightarrow> finite (tracked_images drv) \<and>
     (\<forall>c \<in> image_gauges. ss_stats drv c = (\<Sum>i \<in> tracked_images drv. weight c (ss_images drv i)))"

lemma counter_simps [simp]:
  "ss_images (fetch_add c v drv) = ss_images drv" "ss_enabled (fetch_add c v drv) = ss_enabled drv"
  "ss_images (fetch_sub c v drv) = ss_images drv" "ss_enabled (fetch_sub c v drv) = ss_enabled drv"
  "ss_images (nvStatsAdd c v drv) = ss_images drv" "ss_enabled (nvStatsAdd c v drv) = ss_enabled drv"
  "ss_images (nvStatsSubtract c v drv) = ss_images drv" "ss_enabled (nvStatsSubtract c v drv) = ss_enabled drv"
  "ss_images (nvStatsSet c v drv) = ss_images drv" "ss_enabled (nvStatsSet c v drv) = ss_enabled drv"
  "ss_images (nvStatsSetMax c v drv) = ss_images drv" "ss_enabled (nvStatsSetMax c v drv) = ss_enabled drv"
  "ss_images (set_image i m drv) = (ss_images drv)(i := m)" "ss_enabled (set_image i m drv) = ss_enabled drv"
  "ss_stats (set_image i m drv) = ss_stats drv"
  "ss_stats (fetch_add c v drv) = (ss_stats drv)(c := ss_stats drv c + v)"
  "ss_stats (fetch_sub c v drv) = (ss_stats drv)(c := ss_stats drv c - v)"
  by (simp_all add: fetch_add_def fetch_sub_def nvStatsAdd_def nvStatsSubtract_def nvStatsSet_def nvStatsSetMax_def
      set_image_def)

lemma stats_add [simp]:
  "ss_enabled drv \<Longrightarrow> c < NV_STAT_COUNT \<Longrightarrow> ss_stats (nvStatsAdd c v drv) = (ss_stats drv)(c := ss_stats drv c + v)"
  "ss_enabled drv \<Longrightarrow> c < NV_STAT_COUNT \<Longrightarrow> ss_stats (nvStatsSubtract c v drv) = (ss_stats drv)(c := ss_stats drv c - v)"
  by (auto simp: nvStatsAdd_def nvStatsSubtract_def)

lemma stats_other [simp]:
  "c \<noteq> d \<Longrightarrow> ss_stats (nvStatsAdd c v drv) d = ss_stats drv d"
  "c \<noteq> d \<Longrightarrow> ss_stats (nvStatsSubtract c v drv) d = ss_stats drv d"
  "c \<noteq> d \<Longrightarrow> ss_stats (nvStatsSet c v drv) d = ss_stats drv d"
  "c \<noteq> d \<Longrightarrow> ss_stats (nvStatsSetMax c v drv) d = ss_stats drv d"
  by (simp_all add: nvStatsAdd_def nvStatsSubtract_def nvStatsSet_def nvStatsSetMax_def)

lemma estimates_frame [simp]:
  "ss_images (nvStatsUpdateMemoryEstimates drv) = ss_images drv" "ss_images (updateBackingPeaks drv) = ss_images drv"
  "ss_enabled (nvStatsUpdateMemoryEstimates drv) = ss_enabled drv" "ss_enabled (updateBackingPeaks drv) = ss_enabled drv"
  by (simp_all add: nvStatsUpdateMemoryEstimates_def updateBackingPeaks_def Let_def)

lemma estimates_gauges [simp]:
  assumes "c \<in> image_gauges"
  shows "ss_stats (nvStatsUpdateMemoryEstimates drv) c = ss_stats drv c" "ss_stats (updateBackingPeaks drv) c = ss_stats drv c"
proof -
  have c: "c \<notin> {32, 33, 34, 39, 40, 41, 42, 76, 77}" using assms by (auto simp: image_gauges_def)
  then show "ss_stats (nvStatsUpdateMemoryEstimates d) c = ss_stats d c" for d
    by (simp add: nvStatsUpdateMemoryEstimates_def Let_def)
  then show "ss_stats (updateBackingPeaks drv) c = ss_stats drv c"
    using c by (simp add: updateBackingPeaks_def Let_def)
qed

text \<open>What a call does to the images.\<close>

definition new_image_stats :: "BackingImage \<Rightarrow> bool \<Rightarrow> image_stats" where
  "new_image_stats img active =
     \<lparr>im_statsBytes = backingImageStatsSize img, im_statsTracked = True, im_statsActive = active,
      im_statsBorrowed = (bi_borrowedCudaResources img \<or> bi_borrowed img \<noteq> None),
      im_statsExternal = bi_isExternalBuffer img\<rparr>"

lemma stats_calls_images:
  "ss_enabled drv \<Longrightarrow> \<not> im_statsTracked (ss_images drv i) \<Longrightarrow>
   ss_images (nvStatsBackingImageCreated i img active drv) = (ss_images drv)(i := new_image_stats img active)"
  "ss_enabled drv \<Longrightarrow> im_statsTracked (ss_images drv i) \<Longrightarrow> im_statsActive (ss_images drv i) \<noteq> active \<Longrightarrow>
   ss_images (nvStatsBackingImageSetActive i active drv) = (ss_images drv)(i := (ss_images drv i)\<lparr>im_statsActive := active\<rparr>)"
  "ss_enabled drv \<Longrightarrow> im_statsTracked (ss_images drv i) \<Longrightarrow>
   ss_images (nvStatsBackingImageDestroyed i drv) = (ss_images drv)(i := (ss_images drv i)\<lparr>im_statsTracked := False,
     im_statsBytes := 0, im_statsBorrowed := False, im_statsExternal := False\<rparr>)"
  by (simp_all add: nvStatsBackingImageCreated_def nvStatsBackingImageSetActive_def nvStatsBackingImageDestroyed_def
      new_image_stats_def Let_def)

lemma stats_calls_enabled:
  "ss_enabled (nvStatsBackingImageCreated i img active drv) = ss_enabled drv"
  "ss_enabled (nvStatsBackingImageSetActive i active drv) = ss_enabled drv"
  "ss_enabled (nvStatsBackingImageDestroyed i drv) = ss_enabled drv"
  by (simp_all add: nvStatsBackingImageCreated_def nvStatsBackingImageSetActive_def nvStatsBackingImageDestroyed_def Let_def)

text \<open>A call that replaces one image and moves every gauge by the difference keeps the gauges exact.\<close>

lemma gauges_replace:
  assumes ok: "gauges_ok drv" and im: "ss_images drv' = (ss_images drv)(i := m)"
    and c: "\<And>c. c \<in> image_gauges \<Longrightarrow> ss_stats drv' c = ss_stats drv c - weight c (ss_images drv i) + weight c m"
  shows "gauges_ok drv'"
proof -
  let ?T = "tracked_images drv" and ?T' = "tracked_images drv'"
  have fin: "finite ?T" using ok by (simp add: gauges_ok_def)
  have T': "?T' \<subseteq> insert i ?T" by (auto simp: tracked_images_def im)
  have fin': "finite ?T'" using fin T' finite_subset by blast
  have untracked: "weight c x = 0" if "\<not> im_statsTracked x" for c x using that by (simp add: weight_def)
  have s: "(\<Sum>j \<in> ?T. weight c (ss_images drv j)) = weight c (ss_images drv i) + (\<Sum>j \<in> ?T - {i}. weight c (ss_images drv j))" for c
  proof (cases "i \<in> ?T")
    case True
    show ?thesis using sum.remove [OF fin True, of "\<lambda>j. weight c (ss_images drv j)"] .
  next
    case False
    then have "\<not> im_statsTracked (ss_images drv i)" "?T - {i} = ?T" by (auto simp: tracked_images_def)
    then show ?thesis using untracked [of "ss_images drv i" c] by simp
  qed
  have s': "(\<Sum>j \<in> ?T'. weight c (ss_images drv' j)) = weight c m + (\<Sum>j \<in> ?T' - {i}. weight c (ss_images drv' j))" for c
  proof (cases "i \<in> ?T'")
    case True
    show ?thesis using sum.remove [OF fin' True, of "\<lambda>j. weight c (ss_images drv' j)"] by (simp add: im)
  next
    case False
    then have "\<not> im_statsTracked m" "?T' - {i} = ?T'" by (auto simp: tracked_images_def im)
    then show ?thesis using untracked [of m c] by simp
  qed
  have rest: "(\<Sum>j \<in> ?T' - {i}. weight c (ss_images drv' j)) = (\<Sum>j \<in> ?T - {i}. weight c (ss_images drv j))" for c
    by (rule sum.cong) (auto simp: tracked_images_def im)
  show ?thesis
    unfolding gauges_ok_def
  proof (intro conjI ballI)
    fix d assume d: "d \<in> image_gauges"
    have "ss_stats drv d = (\<Sum>j \<in> ?T. weight d (ss_images drv j))" using ok d by (simp add: gauges_ok_def)
    then show "ss_stats drv' d = (\<Sum>j \<in> ?T'. weight d (ss_images drv' j))"
      unfolding c [OF d] s s' rest by simp
  qed (fact fin')
qed

lemma gauges_same:
  assumes "gauges_ok drv" "ss_images drv' = ss_images drv" "\<And>c. c \<in> image_gauges \<Longrightarrow> ss_stats drv' c = ss_stats drv c"
  shows "gauges_ok drv'"
  using assms by (simp add: gauges_ok_def tracked_images_def)

lemma created_gauges:
  assumes ok: "gauges_ok drv"
  shows "gauges_ok (nvStatsBackingImageCreated i img active drv)"
proof (cases "\<not> ss_enabled drv \<or> im_statsTracked (ss_images drv i)")
  case True
  then show ?thesis using ok by (auto simp: nvStatsBackingImageCreated_def)
next
  case False
  then have en: "ss_enabled drv" and ut: "\<not> im_statsTracked (ss_images drv i)" by auto
  let ?m = "new_image_stats img active"
  show ?thesis
  proof (rule gauges_replace [OF ok, where i = i and m = ?m])
    show "ss_images (nvStatsBackingImageCreated i img active drv) = (ss_images drv)(i := ?m)"
      by (rule stats_calls_images(1) [OF en ut])
    have w: "weight c (ss_images drv i) = 0" for c using ut by (simp add: weight_def)
    fix c assume c: "c \<in> image_gauges"
    show "ss_stats (nvStatsBackingImageCreated i img active drv) c =
        ss_stats drv c - weight c (ss_images drv i) + weight c ?m"
      using c en ut unfolding w
      by (cases active; cases "bi_borrowedCudaResources img \<or> bi_borrowed img \<noteq> None"; cases "bi_isExternalBuffer img")
        (auto simp: nvStatsBackingImageCreated_def new_image_stats_def Let_def image_gauges_def weight_def kind_counter_def)
  qed
qed

lemma set_active_gauges:
  assumes ok: "gauges_ok drv"
  shows "gauges_ok (nvStatsBackingImageSetActive i active drv)"
proof (cases "\<not> ss_enabled drv \<or> \<not> im_statsTracked (ss_images drv i) \<or> im_statsActive (ss_images drv i) = active")
  case True
  then show ?thesis using ok by (auto simp: nvStatsBackingImageSetActive_def)
next
  case False
  then have en: "ss_enabled drv" and t: "im_statsTracked (ss_images drv i)" "im_statsActive (ss_images drv i) \<longleftrightarrow> \<not> active" by auto
  let ?m = "(ss_images drv i)\<lparr>im_statsActive := active\<rparr>"
  show ?thesis
  proof (rule gauges_replace [OF ok, where i = i and m = ?m])
    show "ss_images (nvStatsBackingImageSetActive i active drv) = (ss_images drv)(i := ?m)"
      by (rule stats_calls_images(2) [OF en t(1)]) (use t(2) in simp)
    fix c assume c: "c \<in> image_gauges"
    show "ss_stats (nvStatsBackingImageSetActive i active drv) c =
        ss_stats drv c - weight c (ss_images drv i) + weight c ?m"
      using c en t
      by (cases active)
        (auto simp: nvStatsBackingImageSetActive_def Let_def image_gauges_def weight_def kind_counter_def)
  qed
qed

lemma destroyed_gauges:
  assumes ok: "gauges_ok drv"
  shows "gauges_ok (nvStatsBackingImageDestroyed i drv)"
proof (cases "\<not> ss_enabled drv \<or> \<not> im_statsTracked (ss_images drv i)")
  case True
  then show ?thesis using ok by (auto simp: nvStatsBackingImageDestroyed_def Let_def)
next
  case False
  then have en: "ss_enabled drv" and t: "im_statsTracked (ss_images drv i)" by auto
  let ?m = "(ss_images drv i)\<lparr>im_statsTracked := False, im_statsBytes := 0, im_statsBorrowed := False, im_statsExternal := False\<rparr>"
  show ?thesis
  proof (rule gauges_replace [OF ok, where i = i and m = ?m])
    show "ss_images (nvStatsBackingImageDestroyed i drv) = (ss_images drv)(i := ?m)"
      by (rule stats_calls_images(3) [OF en t])
    have w: "weight c ?m = 0" for c by (simp add: weight_def)
    fix c assume c: "c \<in> image_gauges"
    show "ss_stats (nvStatsBackingImageDestroyed i drv) c =
        ss_stats drv c - weight c (ss_images drv i) + weight c ?m"
      using c en t unfolding w
      by (cases "im_statsActive (ss_images drv i)"; cases "im_statsBorrowed (ss_images drv i)"; cases "im_statsExternal (ss_images drv i)")
        (auto simp: nvStatsBackingImageDestroyed_def Let_def image_gauges_def weight_def kind_counter_def)
  qed
qed

section \<open>Every sequence of calls\<close>

inductive stats_step :: "NVStats \<Rightarrow> NVStats \<Rightarrow> bool" where
  Created: "stats_step drv (nvStatsBackingImageCreated i img active drv)"
| SetActive: "stats_step drv (nvStatsBackingImageSetActive i active drv)"
| Destroyed: "stats_step drv (nvStatsBackingImageDestroyed i drv)"
| Add: "c \<notin> image_gauges \<Longrightarrow> stats_step drv (nvStatsAdd c v drv)"
| Subtract: "c \<notin> image_gauges \<Longrightarrow> stats_step drv (nvStatsSubtract c v drv)"
| Set: "c \<notin> image_gauges \<Longrightarrow> stats_step drv (nvStatsSet c v drv)"
| SetMax: "c \<notin> image_gauges \<Longrightarrow> stats_step drv (nvStatsSetMax c v drv)"
| Increment: "c \<notin> image_gauges \<Longrightarrow> stats_step drv (fst (nvStatsIncrement c drv))"
| HostBuffers: "stats_step drv (snd (nvStatsContextHostBuffers bytes counted drv))"
| Estimates: "stats_step drv (nvStatsUpdateMemoryEstimates drv)"

definition new_stats :: "bool \<Rightarrow> u64 \<Rightarrow> NVStats" where
  "new_stats enabled interval = \<lparr>ss_enabled = enabled, ss_logInterval = interval, ss_stats = \<lambda>_. 0,
     ss_images = \<lambda>_. \<lparr>im_statsBytes = 0, im_statsTracked = False, im_statsActive = False, im_statsBorrowed = False,
                      im_statsExternal = False\<rparr>\<rparr>"

inductive stats_reach :: "NVStats \<Rightarrow> bool" where
  Start: "stats_reach (new_stats enabled interval)"
| Step: "stats_reach drv \<Longrightarrow> stats_step drv drv' \<Longrightarrow> stats_reach drv'"

lemma stats_step_gauges: "stats_step drv drv' \<Longrightarrow> gauges_ok drv \<Longrightarrow> gauges_ok drv'"
proof (induction rule: stats_step.induct)
  case (Increment c drv)
  show ?case by (rule gauges_same [OF Increment(2)]) (use Increment(1) in \<open>auto simp: nvStatsIncrement_def Let_def\<close>)
next
  case (HostBuffers drv bytes counted)
  show ?case
  proof (rule gauges_same [OF HostBuffers])
    show "ss_stats (snd (nvStatsContextHostBuffers bytes counted drv)) c = ss_stats drv c" if c: "c \<in> image_gauges" for c
    proof -
      have "NV_STAT_CONTEXT_HOST_BUFFER_BYTES \<noteq> c" using c by (auto simp: image_gauges_def)
      then show ?thesis using c by (simp add: nvStatsContextHostBuffers_def Let_def)
    qed
  qed (simp add: nvStatsContextHostBuffers_def Let_def)
next
  case (Add c drv v)
  then show ?case by (intro gauges_same [OF Add(2)]) (simp, metis stats_other(1))
next
  case (Subtract c drv v)
  then show ?case by (intro gauges_same [OF Subtract(2)]) (simp, metis stats_other(2))
next
  case (Set c drv v)
  then show ?case by (intro gauges_same [OF Set(2)]) (simp, metis stats_other(3))
next
  case (SetMax c drv v)
  then show ?case by (intro gauges_same [OF SetMax(2)]) (simp, metis stats_other(4))
next
  case (Estimates drv)
  then show ?case by (intro gauges_same [OF Estimates]) auto
qed (simp_all add: created_gauges set_active_gauges destroyed_gauges)

lemma stats_reach_gauges: "stats_reach drv \<Longrightarrow> gauges_ok drv"
proof (induction rule: stats_reach.induct)
  case (Start enabled interval)
  then show ?case by (simp add: gauges_ok_def tracked_images_def new_stats_def)
next
  case (Step drv drv')
  then show ?case using stats_step_gauges by blast
qed

lemma count_images: "finite T \<Longrightarrow> (\<Sum>i \<in> T. if P i then 1 else 0) = (of_nat (card {i \<in> T. P i}) :: u64)"
  by (simp add: sum.If_cases Int_def)

lemma sum_images: "finite T \<Longrightarrow> (\<Sum>i \<in> T. if P i then f i else 0) = (\<Sum>i \<in> {i \<in> T. P i}. f i :: u64)"
  by (simp add: sum.If_cases Int_def)

text \<open>C38. The gauges of backing images are exact in every reachable state, modulo the width of a counter: the numbers and
  bytes of active and of detached images, the numbers of borrowed and external ones, and the bytes that are uniquely owned,
  borrowed or imported, are those of the images that are tracked. A call for an image that is not tracked, or is tracked
  already, counts nothing twice.\<close>

theorem image_gauges_exact:
  assumes "stats_reach drv"
  shows "ss_stats drv NV_STAT_ACTIVE_BACKING_IMAGES = of_nat (card {i \<in> tracked_images drv. im_statsActive (ss_images drv i)}) \<and>
    ss_stats drv NV_STAT_DETACHED_BACKING_IMAGES = of_nat (card {i \<in> tracked_images drv. \<not> im_statsActive (ss_images drv i)}) \<and>
    ss_stats drv NV_STAT_BORROWED_BACKING_IMAGES = of_nat (card {i \<in> tracked_images drv. im_statsBorrowed (ss_images drv i)}) \<and>
    ss_stats drv NV_STAT_EXTERNAL_BACKING_IMAGES = of_nat (card {i \<in> tracked_images drv. im_statsExternal (ss_images drv i)}) \<and>
    ss_stats drv NV_STAT_ACTIVE_BACKING_BYTES =
      (\<Sum>i \<in> {i \<in> tracked_images drv. im_statsActive (ss_images drv i)}. im_statsBytes (ss_images drv i)) \<and>
    ss_stats drv NV_STAT_DETACHED_BACKING_BYTES =
      (\<Sum>i \<in> {i \<in> tracked_images drv. \<not> im_statsActive (ss_images drv i)}. im_statsBytes (ss_images drv i)) \<and>
    ss_stats drv NV_STAT_BORROWED_VIEW_BYTES =
      (\<Sum>i \<in> {i \<in> tracked_images drv. im_statsBorrowed (ss_images drv i)}. im_statsBytes (ss_images drv i)) \<and>
    ss_stats drv NV_STAT_EXTERNAL_IMPORT_BYTES =
      (\<Sum>i \<in> {i \<in> tracked_images drv. \<not> im_statsBorrowed (ss_images drv i) \<and> im_statsExternal (ss_images drv i)}.
         im_statsBytes (ss_images drv i)) \<and>
    ss_stats drv NV_STAT_UNIQUE_OWNED_BACKING_BYTES =
      (\<Sum>i \<in> {i \<in> tracked_images drv. \<not> im_statsBorrowed (ss_images drv i) \<and> \<not> im_statsExternal (ss_images drv i)}.
         im_statsBytes (ss_images drv i))"
proof -
  let ?T = "tracked_images drv"
  have ok: "gauges_ok drv" by (rule stats_reach_gauges [OF assms])
  have fin: "finite ?T" using ok by (simp add: gauges_ok_def)
  have g: "ss_stats drv c = (\<Sum>i \<in> ?T. weight c (ss_images drv i))" if "c \<in> image_gauges" for c
    using ok that by (simp add: gauges_ok_def)
  have w: "(\<Sum>i \<in> ?T. weight c (ss_images drv i)) = (\<Sum>i \<in> ?T. if P i then f i else 0)"
    if "\<And>i. im_statsTracked (ss_images drv i) \<Longrightarrow> weight c (ss_images drv i) = (if P i then f i else 0)" for c P f
    by (rule sum.cong) (use that in \<open>auto simp: tracked_images_def\<close>)
  have n: "ss_stats drv c = of_nat (card {i \<in> ?T. P i})"
    if "c \<in> image_gauges" "\<And>i. im_statsTracked (ss_images drv i) \<Longrightarrow> weight c (ss_images drv i) = (if P i then 1 else 0)" for c P
    using g [OF that(1)] w [OF that(2)] count_images [OF fin] by simp
  have b: "ss_stats drv c = (\<Sum>i \<in> {i \<in> ?T. P i}. im_statsBytes (ss_images drv i))"
    if "c \<in> image_gauges"
      "\<And>i. im_statsTracked (ss_images drv i) \<Longrightarrow> weight c (ss_images drv i) = (if P i then im_statsBytes (ss_images drv i) else 0)" for c P
    using g [OF that(1)] w [OF that(2)] sum_images [OF fin] by simp
  show ?thesis
    by (intro conjI n b) (simp_all add: image_gauges_def weight_def kind_counter_def)
qed

text \<open>Two images are created, one is detached and the other destroyed.\<close>

definition sample_stats :: NVStats where
  "sample_stats =
     nvStatsBackingImageDestroyed 1 (nvStatsBackingImageSetActive 2 False
       (nvStatsBackingImageCreated 2 (sample_import\<lparr>bi_totalSize := 4096\<rparr>) True
         (nvStatsBackingImageCreated 1 (sample_import\<lparr>bi_totalSize := 1024\<rparr>) True (new_stats True 0))))"

lemma image_gauges_exact_witness:
  "ss_stats sample_stats NV_STAT_ACTIVE_BACKING_BYTES = 0 \<and>
   ss_stats sample_stats NV_STAT_DETACHED_BACKING_BYTES = 4096 \<and>
   ss_stats sample_stats NV_STAT_DETACHED_BACKING_IMAGES = 1"
proof -
  have reach: "stats_reach sample_stats"
    unfolding sample_stats_def
    by (rule stats_reach.Step [OF stats_reach.Step [OF stats_reach.Step [OF stats_reach.Step [OF stats_reach.Start
          stats_step.Created] stats_step.Created] stats_step.SetActive] stats_step.Destroyed])
  define d0 where "d0 = new_stats True 0"
  define d1 where "d1 = nvStatsBackingImageCreated 1 (sample_import\<lparr>bi_totalSize := 1024\<rparr>) True d0"
  define d2 where "d2 = nvStatsBackingImageCreated 2 (sample_import\<lparr>bi_totalSize := 4096\<rparr>) True d1"
  define d3 where "d3 = nvStatsBackingImageSetActive 2 False d2"
  have s: "sample_stats = nvStatsBackingImageDestroyed 1 d3" by (simp only: sample_stats_def d0_def d1_def d2_def d3_def)
  have en: "ss_enabled d0" "ss_enabled d1" "ss_enabled d2" "ss_enabled d3"
    by (simp_all add: d1_def d2_def d3_def stats_calls_enabled) (simp_all add: d0_def new_stats_def)
  let ?m = "\<lambda>n. new_image_stats (sample_import\<lparr>bi_totalSize := n\<rparr>) True"
  have i0: "\<not> im_statsTracked (ss_images d0 i)" for i by (simp add: d0_def new_stats_def)
  have i1: "ss_images d1 = (ss_images d0)(1 := ?m 1024)" unfolding d1_def by (rule stats_calls_images(1) [OF en(1) i0])
  have i2: "ss_images d2 = (ss_images d1)(2 := ?m 4096)"
    unfolding d2_def by (rule stats_calls_images(1) [OF en(2)]) (simp add: i1 i0)
  have i3: "ss_images d3 = (ss_images d2)(2 := (?m 4096)\<lparr>im_statsActive := False\<rparr>)"
    unfolding d3_def by (subst stats_calls_images(2) [OF en(3)]) (simp_all add: i2 new_image_stats_def)
  have i4: "ss_images sample_stats = (ss_images d3)(1 := (?m 1024)\<lparr>im_statsTracked := False, im_statsBytes := 0,
      im_statsBorrowed := False, im_statsExternal := False\<rparr>)"
    unfolding s by (subst stats_calls_images(3) [OF en(4)]) (simp_all add: i1 i2 i3 new_image_stats_def)
  have images: "im_statsTracked (ss_images sample_stats i) = (i = 2)"
    "im_statsActive (ss_images sample_stats 2) = False" "im_statsBytes (ss_images sample_stats 2) = 4096" for i
    using i0 by (simp_all add: i1 i2 i3 i4 new_image_stats_def backingImageStatsSize_def)
  then have "tracked_images sample_stats = {2}" by (auto simp: tracked_images_def)
  moreover have "{i \<in> {2}. P i} = (if P 2 then {2} else {})" for P :: "nat \<Rightarrow> bool" by auto
  ultimately show ?thesis using image_gauges_exact [OF reach] images by simp
qed

section \<open>Percentiles\<close>

lemma unat_upper: "k \<le> 31 \<Longrightarrow> unat (push_bit k 1000 :: u64) = 1000 * 2 ^ k"
proof -
  assume k: "k \<le> 31"
  have "1000 * 2 ^ k \<le> (1000 * 2 ^ 31 :: nat)" using power_increasing [OF k, of "2 :: nat"] by simp
  then have "(1000 * 2 ^ k :: nat) < 2 ^ 64" by (rule le_less_trans) simp
  moreover have "push_bit k 1000 = (of_nat (1000 * 2 ^ k) :: u64)" by (simp add: push_bit_eq_mult)
  ultimately show ?thesis by (simp only: unat_of_nat take_bit_nat_eq_self) simp
qed

declare timing_bucket.simps [simp del]

text \<open>The bucket of a duration: the first whose bound is not exceeded, or the last.\<close>

lemma timing_bucket_from:
  "k \<le> 31 \<Longrightarrow> timing_bucket ns (push_bit k 1000) k = b \<Longrightarrow>
   k \<le> b \<and> b \<le> 31 \<and> (b < 31 \<longrightarrow> unat ns \<le> 1000 * 2 ^ b) \<and> (k < b \<longrightarrow> 1000 * 2 ^ (b - 1) < unat ns)"
proof (induction "31 - k" arbitrary: k)
  case 0
  then have "k = 31" by simp
  moreover have "timing_bucket ns (push_bit 31 1000) 31 = 31" by (subst timing_bucket.simps) simp
  ultimately show ?case using 0(3) by simp
next
  case (Suc d)
  have u: "unat (push_bit k 1000 :: u64) = 1000 * 2 ^ k" by (rule unat_upper [OF Suc.prems(1)])
  show ?case
  proof (cases "ns > push_bit k 1000")
    case True
    have s: "push_bit 1 (push_bit k 1000) = (push_bit (Suc k) 1000 :: u64)" by (simp only: push_bit_push_bit plus_1_eq_Suc)
    have k: "k < 31" and d: "d = 31 - Suc k" and le: "Suc k \<le> 31" using Suc.hyps(2) by simp_all
    then have "timing_bucket ns (push_bit k 1000) k = timing_bucket ns (push_bit 1 (push_bit k 1000)) (Suc k)"
      using True by (subst timing_bucket.simps) simp
    then have step: "timing_bucket ns (push_bit (Suc k) 1000) (Suc k) = b" using Suc.prems(2) unfolding s by simp
    have IH: "Suc k \<le> b" "b \<le> 31" "b < 31 \<longrightarrow> unat ns \<le> 1000 * 2 ^ b" "Suc k < b \<longrightarrow> 1000 * 2 ^ (b - 1) < unat ns"
      using Suc.hyps(1) [OF d le step] by blast+
    have lower: "1000 * 2 ^ k < unat ns" using True u by (simp only: word_less_nat_alt)
    have "1000 * 2 ^ (b - 1) < unat ns"
    proof (cases "Suc k < b")
      case False
      then have "b - 1 = k" using IH(1) by simp
      then show ?thesis using lower by (simp only:)
    qed (use IH(4) in blast)
    moreover have "k \<le> b" using IH(1) by simp
    ultimately show ?thesis using IH(2,3) by blast
  next
    case False
    then have "b = k" using Suc.prems(2) by (simp add: timing_bucket.simps [of ns "push_bit k 1000" k])
    moreover have "unat ns \<le> 1000 * 2 ^ k" using False u by (simp only: word_less_nat_alt not_less)
    ultimately show ?thesis using Suc.prems(1) by simp
  qed
qed

abbreviation bucket_of :: "u64 \<Rightarrow> nat" where "bucket_of ns \<equiv> timing_bucket ns 1000 0"

lemma bucket_of:
  "bucket_of ns \<le> 31" "bucket_of ns < 31 \<Longrightarrow> unat ns \<le> 1000 * 2 ^ bucket_of ns"
  "0 < bucket_of ns \<Longrightarrow> 1000 * 2 ^ (bucket_of ns - 1) < unat ns"
  using timing_bucket_from [of 0 ns "bucket_of ns"] by auto

lemma bucket_of_le:
  assumes "j < 31"
  shows "bucket_of ns \<le> j \<longleftrightarrow> unat ns \<le> 1000 * 2 ^ j"
proof
  assume "bucket_of ns \<le> j"
  then have "unat ns \<le> 1000 * 2 ^ bucket_of ns" "(2 :: nat) ^ bucket_of ns \<le> 2 ^ j"
    using bucket_of(2) [of ns] assms by (auto intro: power_increasing)
  then show "unat ns \<le> 1000 * 2 ^ j" by (meson le_trans mult_le_mono2)
next
  assume ns: "unat ns \<le> 1000 * 2 ^ j"
  show "bucket_of ns \<le> j"
  proof (rule ccontr)
    assume "\<not> bucket_of ns \<le> j"
    then have "j \<le> bucket_of ns - 1" "0 < bucket_of ns" by auto
    then have "(2 :: nat) ^ j \<le> 2 ^ (bucket_of ns - 1)" "1000 * 2 ^ (bucket_of ns - 1) < unat ns"
      using bucket_of(3) by (auto intro: power_increasing)
    then show False using ns by linarith
  qed
qed

lemma bucket_of_less: "i < 31 \<Longrightarrow> bucket_of ns < Suc i \<longleftrightarrow> unat ns \<le> 1000 * 2 ^ i"
  by (simp only: less_Suc_eq_le bucket_of_le)

text \<open>A histogram counts the durations of each bucket.\<close>

definition observed :: "u64 list \<Rightarrow> nat \<Rightarrow> nat" where
  "observed xs b = length (filter (\<lambda>ns. bucket_of ns = b) xs)"

lemma histogram_counts: "foldl histogramAdd (replicate 32 0) xs = map (\<lambda>b. of_nat (observed xs b)) [0..<32]"
proof (induction xs rule: rev_induct)
  case Nil
  then show ?case by (simp add: observed_def map_replicate_const)
next
  case (snoc ns xs)
  have b: "bucket_of ns < 32" using bucket_of(1) [of ns] by simp
  have "foldl histogramAdd (replicate 32 0) (xs @ [ns]) = histogramAdd (map (\<lambda>b. of_nat (observed xs b)) [0..<32]) ns"
    using snoc by simp
  also have "\<dots> = map (\<lambda>b. of_nat (observed (xs @ [ns]) b)) [0..<32]"
    by (rule nth_equalityI) (use b in \<open>auto simp: histogramAdd_def Let_def observed_def nth_list_update\<close>)
  finally show ?case .
qed

lemma observed_sum: "j \<le> 32 \<Longrightarrow> (\<Sum>b < j. observed xs b) = length (filter (\<lambda>ns. bucket_of ns < j) xs)"
proof (induction xs)
  case (Cons ns xs)
  have "observed (ns # xs) b = observed xs b + (if b = bucket_of ns then 1 else 0)" for b
    by (simp add: observed_def)
  then have "(\<Sum>b < j. observed (ns # xs) b) = (\<Sum>b < j. observed xs b) + (if bucket_of ns < j then 1 else 0)"
    by (simp add: sum.distrib)
  then show ?case using Cons by simp
qed (simp add: observed_def)

lemma percentile_upper_finds:
  "unat cumulative < unat rank \<Longrightarrow> unat rank \<le> unat cumulative + (\<Sum>b = i..<i + length bins. c b) \<Longrightarrow>
   unat cumulative + (\<Sum>b = i..<i + length bins. c b) < 2 ^ 64 \<Longrightarrow> bins = map (\<lambda>b. of_nat (c b)) [i..<i + length bins] \<Longrightarrow>
   \<exists>j. i \<le> j \<and> j < i + length bins \<and>
     percentile_upper bins rank i cumulative = (if j = 31 then UINT64_MAX else push_bit j 1000) \<and>
     unat cumulative + (\<Sum>b = i..<j. c b) < unat rank \<and> unat rank \<le> unat cumulative + (\<Sum>b = i..<Suc j. c b)"
proof (induction bins rank i cumulative rule: percentile_upper.induct)
  case (2 b bins rank i cumulative)
  let ?n = "i + length (b # bins)"
  have map: "map (\<lambda>b. of_nat (c b)) [i..<?n] = of_nat (c i) # map (\<lambda>b. of_nat (c b)) [Suc i..<Suc i + length bins]"
  proof -
    have "[i..<?n] = i # [Suc i..<?n]" by (rule upt_conv_Cons) simp
    moreover have "?n = Suc i + length bins" by simp
    ultimately show ?thesis by (simp only: list.map)
  qed
  have b: "b = of_nat (c i)" and bins: "bins = map (\<lambda>b. of_nat (c b)) [Suc i..<Suc i + length bins]"
    using 2(5) unfolding map by auto
  have split: "(\<Sum>b = i..<?n. c b) = c i + (\<Sum>b = Suc i..<Suc i + length bins. c b)"
    by (simp add: sum.atLeast_Suc_lessThan)
  have ci: "c i < 2 ^ 64" using 2(4) unfolding split by simp
  then have ub: "unat b = c i" by (simp add: b unat_of_nat)
  have add: "unat (cumulative + b) = unat cumulative + c i"
    by (rule unat_add_no_overflow [THEN trans]) (use 2(4) split ub in simp_all)
  show ?case
  proof (cases "cumulative + b \<ge> rank")
    case True
    then have "unat rank \<le> unat cumulative + c i" using add by (simp only: word_le_nat_alt)
    then show ?thesis using True 2(2) by (intro exI [of _ i]) simp
  next
    case False
    then have lt: "unat (cumulative + b) < unat rank" by (simp only: word_le_nat_alt not_le)
    obtain j where j: "Suc i \<le> j" "j < Suc i + length bins"
      "percentile_upper bins rank (Suc i) (cumulative + b) = (if j = 31 then UINT64_MAX else push_bit j 1000)"
      "unat (cumulative + b) + (\<Sum>b = Suc i..<j. c b) < unat rank"
      "unat rank \<le> unat (cumulative + b) + (\<Sum>b = Suc i..<Suc j. c b)"
      using 2(1) [OF False lt _ _ bins] 2(3,4) unfolding split add by (auto simp: add.assoc)
    have "(\<Sum>b = i..<j. c b) = c i + (\<Sum>b = Suc i..<j. c b)" "(\<Sum>b = i..<Suc j. c b) = c i + (\<Sum>b = Suc i..<Suc j. c b)"
      using j(1) by (simp_all add: sum.atLeast_Suc_lessThan)
    then show ?thesis using j False unfolding add by (intro exI [of _ j]) simp
  qed
qed simp

lemma rank_split: "(q * p) * 100 + (m * p + 99) = (q * 100 + m) * p + (99 :: nat)"
  by (simp add: algebra_simps)

lemma percentile_rank:
  assumes "unat p \<le> 100"
  shows "unat (percentile_rank n p) = (unat n * unat p + 99) div 100"
proof -
  let ?q = "unat n div 100" and ?m = "unat n mod 100"
  have q: "unat (n div 100) = ?q" and m: "unat (n mod 100) = ?m" by (simp_all add: unat_div_distrib unat_mod_distrib)
  have mp: "?m * unat p \<le> 99 * 100" by (rule mult_le_mono) (use assms in auto)
  have "?q * unat p + (?m * unat p + 99) div 100 = (?q * unat p * 100 + (?m * unat p + 99)) div 100" by simp
  also have "?q * unat p * 100 + (?m * unat p + 99) = (?q * 100 + ?m) * unat p + 99" by (rule rank_split)
  also have "?q * 100 + ?m = unat n" by simp
  finally have s: "?q * unat p + (?m * unat p + 99) div 100 = (unat n * unat p + 99) div 100" .
  have "(unat n * unat p + 99) div 100 \<le> (unat n * 100 + 99) div 100" by (rule div_le_mono) (use assms in simp)
  then have le: "?q * unat p + (?m * unat p + 99) div 100 \<le> unat n" unfolding s by simp
  then have qp2: "?q * unat p < 2 ^ 64" using unat_u64_less [of n] by simp
  have a: "unat (n mod 100 * p + 99) = ?m * unat p + 99"
    using mp by (simp add: unat_word_ariths m)
  have b: "unat ((n mod 100 * p + 99) div 100) = (?m * unat p + 99) div 100" by (simp add: unat_div_distrib a)
  have c: "unat (n div 100 * p) = ?q * unat p"
    using unat_mult_lem [of "n div 100" p, unfolded q] qp2 by simp
  have "unat (percentile_rank n p) = ?q * unat p + (?m * unat p + 99) div 100"
    unfolding percentile_rank_def using le unat_u64_less [of n] b c by (subst unat_add_no_overflow) simp_all
  then show ?thesis unfolding s .
qed

text \<open>A percentile that is logged is the percentile of the durations up to a bucket: at least \<open>p\<close> percent of the durations,
  rounded up, do not exceed the value; and unless the value is the first bound of a microsecond, fewer do not
  exceed its half, or for the unbounded last bucket the largest bound.\<close>

theorem percentile_within_bucket:
  assumes n: "0 < length xs" "length xs < 2 ^ 64" and p: "0 < unat p" "unat p \<le> 100"
  defines "rank \<equiv> (length xs * unat p + 99) div 100"
    and "u \<equiv> histogram_percentile (foldl histogramAdd (replicate 32 0) xs) p"
  shows "rank \<le> length (filter (\<lambda>ns. ns \<le> u) xs) \<and>
    (u = 1000 \<or> length (filter (\<lambda>ns. unat ns \<le> (if u = UINT64_MAX then 1000 * 2 ^ 30 else unat u div 2)) xs) < rank)"
proof -
  let ?bins = "map (\<lambda>b. of_nat (observed xs b)) [0..<32] :: u64 list"
  have below: "(\<Sum>b = 0..<j. observed xs b) = length (filter (\<lambda>ns. bucket_of ns < j) xs)" if "j \<le> 32" for j
    using observed_sum [OF that, of xs] by (simp add: atLeast0LessThan)
  have "filter (\<lambda>ns. bucket_of ns < 32) xs = xs" 
    by (rule filter_True) (use bucket_of(1) in \<open>auto intro: le_less_trans [of _ 31]\<close>)
  then have all: "(\<Sum>b = 0..<32. observed xs b) = length xs" using below [of 32] by simp
  have "sum_list ?bins = of_nat (\<Sum>b = 0..<32. observed xs b)"
    by (simp only: of_nat_sum sum_set_upt_conv_sum_list_nat [symmetric] set_upt)
  then have sum: "unat (sum_list ?bins) = length xs" using all n(2) by (simp add: unat_of_nat take_bit_nat_eq_self)
  define r where "r = percentile_rank (sum_list ?bins) p"
  have r: "unat r = rank" by (simp only: r_def percentile_rank [OF p(2)] sum rank_def)
  have "length xs * 1 \<le> length xs * unat p" "length xs * unat p \<le> length xs * 100" using p by simp_all
  then have r0: "0 < rank" "rank \<le> length xs" using n(1) unfolding rank_def by linarith+
  have u: "u = percentile_upper ?bins r 0 0" by (simp only: u_def histogram_percentile_def histogram_counts r_def)
  have "\<exists>j. 0 \<le> j \<and> j < 0 + length ?bins \<and>
      percentile_upper ?bins r 0 0 = (if j = 31 then UINT64_MAX else push_bit j 1000) \<and>
      unat (0 :: u64) + (\<Sum>b = 0..<j. observed xs b) < unat r \<and> unat r \<le> unat (0 :: u64) + (\<Sum>b = 0..<Suc j. observed xs b)"
  proof (rule percentile_upper_finds)
    show "unat (0 :: u64) < unat r" using r0(1) r by simp
  qed (use r0(2) r n(2) all in \<open>simp_all only: length_map length_upt add_0 minus_nat.diff_0 unat_0\<close>)
  then obtain j where j: "j < 32" "u = (if j = 31 then UINT64_MAX else push_bit j 1000)"
    "(\<Sum>b = 0..<j. observed xs b) < rank" "rank \<le> (\<Sum>b = 0..<Suc j. observed xs b)"
    unfolding r u [symmetric] by (auto simp del: sum.op_ivl_Suc)
  have le: "rank \<le> length (filter (\<lambda>ns. bucket_of ns < Suc j) xs)" using j(1,4) below [of "Suc j"] by simp
  have lt: "length (filter (\<lambda>ns. bucket_of ns < j) xs) < rank" using j(1,3) below [of j] by simp
  show ?thesis
  proof (cases "j = 31")
    case True
    then have um: "u = UINT64_MAX" using j(2) by simp
    have j: "j = Suc 30" and less: "(30 :: nat) < 31" using True by simp_all
    have "length (filter (\<lambda>ns. unat ns \<le> 1000 * 2 ^ 30) xs) < rank"
      using lt unfolding j by (simp only: bucket_of_less [OF less])
    moreover have "filter (\<lambda>ns. ns \<le> u) xs = xs"
    proof (intro filter_True ballI)
      show "ns \<le> u" for ns using unat_u64_less [of ns] unfolding um by (simp add: word_le_nat_alt)
    qed
    ultimately show ?thesis using r0(2) um by (simp only: if_True simp_thms)
  next
    case False
    then have j30: "j \<le> 30" "j < 31" using j(1) by auto
    have uj: "unat u = 1000 * 2 ^ j" using j(2) False unat_upper [of j] j30 by simp
    have "(1000 * 2 ^ j :: nat) \<le> 1000 * 2 ^ 30" using power_increasing [OF j30(1), of "2 :: nat"] by simp
    then have um: "u \<noteq> UINT64_MAX" using uj by auto
    have first: "rank \<le> length (filter (\<lambda>ns. ns \<le> u) xs)"
      using le by (simp only: bucket_of_less [OF j30(2)] word_le_nat_alt uj)
    show ?thesis
    proof (cases j)
      case 0
      then have "u = 1000" using j(2) by simp
      then show ?thesis using first by simp
    next
      case (Suc i)
      have i: "i < 31" using Suc j30 by simp
      have half: "unat u div 2 = 1000 * 2 ^ i" unfolding uj Suc by simp
      have "length (filter (\<lambda>ns. unat ns \<le> unat u div 2) xs) < rank"
        using lt unfolding Suc by (simp only: bucket_of_less [OF i] half)
      then show ?thesis using first um by (simp only: if_False simp_thms)
    qed
  qed
qed

lemma percentile_within_bucket_witness:
  "length (filter (\<lambda>ns. ns \<le> 4000) [500, 1500, 3000, 3500 :: u64]) \<ge> (4 * 50 + 99) div 100 \<and>
   histogram_percentile (foldl histogramAdd (replicate 32 0) [500, 1500, 3000, 3500]) 95 = 4000 \<and>
   length (filter (\<lambda>ns. unat ns \<le> 2000) [500, 1500, 3000, 3500 :: u64]) < (4 * 95 + 99) div 100"
proof -
  have h: "histogram_percentile (foldl histogramAdd (replicate 32 0) [500, 1500, 3000, 3500]) 95 = 4000" by code_simp
  show ?thesis
    using percentile_within_bucket [of "[500, 1500, 3000, 3500]" 95] h by simp
qed

end
