(* ===== verification/SurfaceExport.thy ===== *)
theory SurfaceExport
  imports SurfaceImport BackingCache Stats DriverStore
begin

text \<open>
  The export of a surface as DMA-BUF descriptors (\<open>nvExportSurfaceHandle\<close> of \<open>src/vabackend.c\<close>,
  \<open>direct_fillExportDescriptor\<close> of \<open>src/direct/direct-export-buf.c\<close>, \<open>egl_fillExportDescriptor\<close> of
  \<open>src/export-buf.c\<close>).

  \<open>fd_table\<close> are the open file descriptors of the process with what they refer to. \<open>next t\<close> is the
  descriptor that \<open>fcntl (F_DUPFD_CLOEXEC)\<close> gives when the table is \<open>t\<close>, negative for a failure. The images and which
  image a surface has are those of \<open>BackingCache\<close>, under the same addresses of surfaces as in \<open>NVStore\<close>.
\<close>

section \<open>File descriptors\<close>

text \<open>\<open>of_seek_end\<close> is what \<open>lseek (SEEK_END)\<close> answers, negative when it fails.\<close>

record open_file =
  of_id :: file_id
  of_st_size :: int
  of_seek_end :: int

type_synonym fd_table = "int \<Rightarrow> open_file option"

definition close_fd :: "int \<Rightarrow> fd_table \<Rightarrow> fd_table" where
  "close_fd fd t = t(fd := None)"

definition nvDupFdCloexec :: "(fd_table \<Rightarrow> int) \<Rightarrow> int \<Rightarrow> fd_table \<Rightarrow> int \<times> fd_table" where
  "nvDupFdCloexec next fd t =
     (case t fd of
        None \<Rightarrow> (-1, t)
      | Some f \<Rightarrow> let n = next t in if n < 0 then (-1, t) else (n, t(n \<mapsto> f)))"

definition fstat :: "fd_table \<Rightarrow> int \<Rightarrow> file_id option" where
  "fstat t fd = map_option of_id (t fd)"

section \<open>Descriptors\<close>

abbreviation DRM_FORMAT_BGRA8888 :: u32 where "DRM_FORMAT_BGRA8888 \<equiv> 0x34324142"
abbreviation DRM_FORMAT_BGRX8888 :: u32 where "DRM_FORMAT_BGRX8888 \<equiv> 0x34325842"
abbreviation DRM_FORMAT_RGBA8888 :: u32 where "DRM_FORMAT_RGBA8888 \<equiv> 0x34324152"
abbreviation DRM_FORMAT_RGBX8888 :: u32 where "DRM_FORMAT_RGBX8888 \<equiv> 0x34325852"
abbreviation DRM_FORMAT_ABGR8888 :: u32 where "DRM_FORMAT_ABGR8888 \<equiv> 0x34324241"
abbreviation DRM_FORMAT_XBGR8888 :: u32 where "DRM_FORMAT_XBGR8888 \<equiv> 0x34324258"
abbreviation DRM_FORMAT_XRGB8888 :: u32 where "DRM_FORMAT_XRGB8888 \<equiv> 0x34325258"
abbreviation DRM_FORMAT_NV12 :: u32 where "DRM_FORMAT_NV12 \<equiv> 0x3231564E"

definition rgbDrmFormat :: "u32 \<Rightarrow> u32" where
  "rgbDrmFormat fourcc =
     (if fourcc = VA_FOURCC_ARGB then DRM_FORMAT_BGRA8888
      else if fourcc = VA_FOURCC_XRGB then DRM_FORMAT_BGRX8888
      else if fourcc = VA_FOURCC_ABGR then DRM_FORMAT_RGBA8888
      else if fourcc = VA_FOURCC_XBGR then DRM_FORMAT_RGBX8888
      else if fourcc = VA_FOURCC_RGBA then DRM_FORMAT_ABGR8888
      else if fourcc = VA_FOURCC_RGBX then DRM_FORMAT_XBGR8888
      else if fourcc = VA_FOURCC_BGRA then DRM_FORMAT_ARGB8888
      else if fourcc = VA_FOURCC_BGRX then DRM_FORMAT_XRGB8888 else 0)"

definition zero_object :: VADRMPRIMEObject where
  "zero_object = \<lparr>po_fd = 0, po_size = 0, po_modifier = 0\<rparr>"

definition zero_layer :: VADRMPRIMELayer where
  "zero_layer = \<lparr>pl_drm_format = 0, pl_num_planes = 0, pl_object_index = replicate 4 0, pl_offset = replicate 4 0,
     pl_pitch = replicate 4 0\<rparr>"

definition zero_descriptor :: VADRMPRIMESurfaceDescriptor where
  "zero_descriptor = \<lparr>pd_fourcc = 0, pd_width = 0, pd_height = 0, pd_num_objects = 0, pd_objects = replicate 4 zero_object,
     pd_num_layers = 0, pd_layers = replicate 4 zero_layer\<rparr>"

text \<open>Closing the descriptors of the first objects after a failure.\<close>

definition close_objects :: "nat \<Rightarrow> VADRMPRIMEObject list \<Rightarrow> fd_table \<Rightarrow> VADRMPRIMEObject list \<times> fd_table" where
  "close_objects n objs t =
     (map (\<lambda>j. if j < n then (objs ! j)\<lparr>po_fd := -1\<rparr> else objs ! j) [0..<length objs],
      fold (\<lambda>j. close_fd (po_fd (objs ! j))) [0..<n] t)"

definition export_layer :: "u32 \<Rightarrow> BackingImage \<Rightarrow> nat \<Rightarrow> VADRMPRIMELayer \<Rightarrow> VADRMPRIMELayer" where
  "export_layer drmFormat img i layer =
     layer\<lparr>pl_drm_format := drmFormat, pl_num_planes := 1,
           pl_object_index := (pl_object_index layer)[0 := bi_planeObjectIndex img ! i],
           pl_offset := (pl_offset layer)[0 := of_int (bi_offsets img ! i)],
           pl_pitch := (pl_pitch layer)[0 := of_int (bi_strides img ! i)]\<rparr>"

section \<open>The direct backend\<close>

text \<open>The loop over the objects: the second list of the pair are the objects of the descriptor.\<close>

fun export_objects ::
    "(fd_table \<Rightarrow> int) \<Rightarrow> BackingImage \<Rightarrow> nat \<Rightarrow> nat \<Rightarrow> VADRMPRIMEObject list \<Rightarrow> fd_table \<Rightarrow>
     bool \<times> VADRMPRIMEObject list \<times> fd_table" where
  "export_objects next img i 0 objs t = (True, objs, t)"
| "export_objects next img i (Suc n) objs t =
     (case nvDupFdCloexec next (bi_fds img ! i) t of
        (fd, t) \<Rightarrow>
          if fd < 0 then (False, close_objects i (objs[i := (objs ! i)\<lparr>po_fd := fd\<rparr>]) t)
          else export_objects next img (Suc i) n
                 (objs[i := \<lparr>po_fd = fd, po_size = ucast (bi_objectSize img ! i), po_modifier = bi_mods img ! i\<rparr>]) t)"

definition exportable_image :: "bool \<Rightarrow> BackingImage \<Rightarrow> bool" where
  "exportable_image cudaWorkUnsafe img \<longleftrightarrow>
     \<not> (cudaWorkUnsafe \<or> bi_numObjects img = 0 \<or> bi_numObjects img > 4 \<or>
        bi_numPlanes img \<noteq> fi_numPlanes (formatsInfo (bi_format img))) \<and>
     (\<forall>i \<in> set [0..<unat (bi_numObjects img)].
        \<not> (bi_objectSize img ! i = 0 \<or> bi_objectSize img ! i > u32_to_u64 UINT32_MAX)) \<and>
     (\<forall>i \<in> set [0..<unat (bi_numPlanes img)].
        \<not> (bi_planeObjectIndex img ! i \<ge> bi_numObjects img \<or> bi_offsets img ! i < 0 \<or> bi_strides img ! i \<le> 0))"

definition plane_drm_format :: "BackingImage \<Rightarrow> nat \<Rightarrow> u32" where
  "plane_drm_format img i =
     (if bi_format img = NV_FORMAT_ARGB then rgbDrmFormat (bi_fourcc img)
      else fp_fourcc (fi_plane (formatsInfo (bi_format img)) ! i))"

text \<open>\<open>width\<close> and \<open>height\<close> are those of the surface.\<close>

definition direct_fillExportDescriptor ::
    "(fd_table \<Rightarrow> int) \<Rightarrow> bool \<Rightarrow> u32 \<Rightarrow> u32 \<Rightarrow> BackingImage \<Rightarrow> NVStats \<Rightarrow> fd_table \<Rightarrow>
     bool \<times> VADRMPRIMESurfaceDescriptor \<times> NVStats \<times> fd_table" where
  "direct_fillExportDescriptor next cudaWorkUnsafe width height img stats t =
     (if \<not> exportable_image cudaWorkUnsafe img then (False, zero_descriptor, stats, t)
      else
        let numPlanes = fi_numPlanes (formatsInfo (bi_format img));
            desc = zero_descriptor\<lparr>pd_fourcc := bi_fourcc img, pd_width := width, pd_height := height,
                     pd_num_layers := numPlanes, pd_num_objects := bi_numObjects img\<rparr>;
            stats = fst (nvStatsIncrement NV_STAT_EXPORT_DESCRIPTORS stats);
            stats = fst (nvStatsIncrement (if bi_numObjects img = 1 then NV_STAT_EXPORT_DESCRIPTORS_SINGLE
                                           else NV_STAT_EXPORT_DESCRIPTORS_MULTI) stats)
        in case export_objects next img 0 (unat (bi_numObjects img)) (pd_objects desc) t of
             (False, objs, t) \<Rightarrow> (False, desc\<lparr>pd_objects := objs, pd_num_objects := 0\<rparr>, stats, t)
           | (True, objs, t) \<Rightarrow>
               (True,
                desc\<lparr>pd_objects := objs,
                     pd_layers := map (\<lambda>i. if i < unat (bi_numPlanes img)
                                           then export_layer (plane_drm_format img i) img i (pd_layers desc ! i)
                                           else pd_layers desc ! i) [0..<length (pd_layers desc)]\<rparr>,
                stats, t))"

section \<open>The EGL backend\<close>

text \<open>The loop over the planes computes the bytes that each object must have; \<open>None\<close> is the early return.\<close>

fun egl_required :: "u64 \<Rightarrow> BackingImage \<Rightarrow> nat \<Rightarrow> nat \<Rightarrow> u64 list \<Rightarrow> u64 list option" where
  "egl_required bpp img plane 0 required = Some required"
| "egl_required bpp img plane (Suc n) required =
     (let object = bi_planeObjectIndex img ! plane;
          rows = u32_to_u64 (if plane = 0 then bi_height img else nvPlaneExtent (bi_height img) 1);
          rowBytes = u32_to_u64 (bi_width img) * bpp;
          offset = of_int (bi_offsets img ! plane) :: u64;
          stride = of_int (bi_strides img ! plane) :: u64
      in if object \<ge> bi_numObjects img \<or> bi_offsets img ! plane < 0 \<or> bi_strides img ! plane \<le> 0 \<or>
            rowBytes > stride \<or> rows = 0 \<or> rows - 1 > (UINT64_MAX - offset - rowBytes) div stride
         then None
         else
           let end = offset + (rows - 1) * stride + rowBytes
           in egl_required bpp img (Suc plane) n
                (if end > required ! unat object then required[unat object := end] else required))"

definition stat_size :: "open_file option \<Rightarrow> u64" where
  "stat_size f = (case f of Some s \<Rightarrow> if of_st_size s > 0 then of_int (of_st_size s) else 0 | None \<Rightarrow> 0)"

text \<open>The loop over the objects; a failure leaves the descriptors that are open to \<open>close_objects\<close>.\<close>

fun egl_objects ::
    "(fd_table \<Rightarrow> int) \<Rightarrow> BackingImage \<Rightarrow> u64 list \<Rightarrow> nat \<Rightarrow> nat \<Rightarrow> VADRMPRIMEObject list \<Rightarrow> fd_table \<Rightarrow>
     bool \<times> nat \<times> VADRMPRIMEObject list \<times> fd_table" where
  "egl_objects next img required i 0 objs t = (True, i, objs, t)"
| "egl_objects next img required i (Suc n) objs t =
     (let objectSize = bi_objectSize img ! i;
          objectSize = (if objectSize = 0 then stat_size (t (bi_fds img ! i)) else objectSize);
          objectSize = (if objectSize = 0 then required ! i else objectSize)
      in if objectSize < required ! i \<or> objectSize > u32_to_u64 UINT32_MAX then (False, i, objs, t)
         else case nvDupFdCloexec next (bi_fds img ! i) t of
                (fd, t) \<Rightarrow>
                  if fd < 0 then (False, i, objs[i := (objs ! i)\<lparr>po_fd := fd\<rparr>], t)
                  else egl_objects next img required (Suc i) n
                         (objs[i := \<lparr>po_fd = fd, po_size = ucast objectSize, po_modifier = bi_mods img ! i\<rparr>]) t)"

text \<open>The descriptor is the client's: what is not written keeps its value.\<close>

definition egl_fillExportDescriptor ::
    "(fd_table \<Rightarrow> int) \<Rightarrow> BackingImage \<Rightarrow> VADRMPRIMESurfaceDescriptor \<Rightarrow> fd_table \<Rightarrow>
     bool \<times> VADRMPRIMESurfaceDescriptor \<times> fd_table" where
  "egl_fillExportDescriptor next img desc t =
     (let bpp = (if bi_fourcc img = DRM_FORMAT_NV12 then 1 else 2)
      in if bi_numPlanes img \<noteq> 2 \<or> bi_numObjects img = 0 \<or> bi_numObjects img > 4 then (False, desc, t)
         else
           let desc = desc\<lparr>pd_fourcc := bi_fourcc img, pd_width := bi_width img, pd_height := bi_height img,
                           pd_num_layers := 2, pd_num_objects := 0\<rparr>
           in case egl_required bpp img 0 2 (replicate 4 0) of
                None \<Rightarrow> (False, desc, t)
              | Some required \<Rightarrow>
                  (case egl_objects next img required 0 (unat (bi_numObjects img)) (pd_objects desc) t of
                     (False, n, objs, t) \<Rightarrow>
                       (case close_objects n objs t of (objs, t) \<Rightarrow>
                          (False, desc\<lparr>pd_objects := objs, pd_num_objects := 0\<rparr>, t))
                   | (True, n, objs, t) \<Rightarrow>
                       (True,
                        desc\<lparr>pd_objects := objs, pd_num_objects := of_nat n,
                             pd_layers := (pd_layers desc)
                               [0 := export_layer (if bi_fourcc img = DRM_FORMAT_NV12 then DRM_FORMAT_R8 else DRM_FORMAT_R16)
                                       img 0 (pd_layers desc ! 0),
                                1 := export_layer (if bi_fourcc img = DRM_FORMAT_NV12 then DRM_FORMAT_RG88 else DRM_FORMAT_RG1616)
                                       img 1 (pd_layers desc ! 1)]\<rparr>,
                        t)))"

section \<open>The call\<close>

record export_state =
  xs_store :: NVStore
  xs_cache :: ImageCache
  xs_stats :: NVStats
  xs_fds :: fd_table

text \<open>
  The answers from outside: the CUDA context is pushed and popped, \<open>xe_next\<close> gives descriptors, and \<open>xe_alloc\<close>, \<open>xe_added\<close>
  are those of \<open>direct_realiseSurface\<close>.
\<close>

record export_env =
  xe_push :: bool
  xe_pop :: bool
  xe_next :: "fd_table \<Rightarrow> int"
  xe_alloc :: "nat \<Rightarrow> nat set \<Rightarrow> (nat \<times> BackingImage) option"
  xe_added :: bool

abbreviation VA_EXPORT_SURFACE_SEPARATE_LAYERS :: u32 where "VA_EXPORT_SURFACE_SEPARATE_LAYERS \<equiv> 4"

text \<open>The colour metadata of the surface goes to its image, or to the one that it borrows.\<close>

definition store_color_metadata :: "nat \<Rightarrow> color_meta \<Rightarrow> ImageCache \<Rightarrow> ImageCache" where
  "store_color_metadata img color ic =
     upd_image (case bi_borrowed (ic_image ic img) of Some b \<Rightarrow> b | None \<Rightarrow> img)
       (\<lambda>m. m\<lparr>bi_color := color\<rparr>) ic"

text \<open>After the context is popped: a failure there closes what was exported.\<close>

definition export_popped ::
    "export_env \<Rightarrow> nat \<Rightarrow> bool \<Rightarrow> VADRMPRIMESurfaceDescriptor \<Rightarrow> export_state \<Rightarrow>
     VAStatus \<times> VADRMPRIMESurfaceDescriptor \<times> export_state" where
  "export_popped env s filled desc xs =
     (if \<not> xe_pop env then
        if filled then
          let n = unat (pd_num_objects desc); objs = pd_objects desc;
              open' = filter (\<lambda>i. po_fd (objs ! i) \<ge> 0) [0..<n]
          in (VA_STATUS_ERROR_OPERATION_FAILED,
              desc\<lparr>pd_objects := map (\<lambda>i. if i \<in> set open' then (objs ! i)\<lparr>po_fd := -1\<rparr> else objs ! i) [0..<length objs],
                   pd_num_objects := 0\<rparr>,
              xs\<lparr>xs_fds := fold (\<lambda>i. close_fd (po_fd (objs ! i))) open' (xs_fds xs)\<rparr>)
        else (VA_STATUS_ERROR_OPERATION_FAILED, desc, xs)
      else if \<not> filled then (VA_STATUS_ERROR_OPERATION_FAILED, desc, xs)
      else (VA_STATUS_SUCCESS, desc,
            xs\<lparr>xs_store := upd_surface (xs_store xs) s (\<lambda>sf. sf\<lparr>sf_exported := True\<rparr>)\<rparr>))"

definition export_realised ::
    "export_env \<Rightarrow> nat \<Rightarrow> VADRMPRIMESurfaceDescriptor \<Rightarrow> export_state \<Rightarrow> VAStatus \<times> VADRMPRIMESurfaceDescriptor \<times> export_state" where
  "export_realised env s desc xs =
     (case ic_backing (xs_cache xs) s of
        None \<Rightarrow> (VA_STATUS_ERROR_OPERATION_FAILED, desc, xs)
      | Some i \<Rightarrow>
          let sf = st_surface (xs_store xs) s;
              xs = xs\<lparr>xs_cache := store_color_metadata i (sf_color sf) (xs_cache xs)\<rparr>
          in case direct_fillExportDescriptor (xe_next env) (ic_cudaWorkUnsafe (xs_cache xs)) (sf_width sf) (sf_height sf)
                    (ic_image (xs_cache xs) i) (xs_stats xs) (xs_fds xs) of
               (filled, desc, stats, t) \<Rightarrow> export_popped env s filled desc (xs\<lparr>xs_stats := stats, xs_fds := t\<rparr>))"

text \<open>
  \<open>desc\<close> is \<open>None\<close> for a \<open>NULL\<close> pointer, otherwise what the client's memory holds. The result is \<open>None\<close> when the search for
  memory does not end; \<open>Wait\<close> means that the surface is still busy.
\<close>

definition nvExportSurfaceHandle ::
    "export_env \<Rightarrow> u32 \<Rightarrow> u32 \<Rightarrow> u32 \<Rightarrow> VADRMPRIMESurfaceDescriptor option \<Rightarrow> export_state \<Rightarrow>
     (VAStatus \<times> VADRMPRIMESurfaceDescriptor option \<times> export_state) attempt option" where
  "nvExportSurfaceHandle env surface_id mem_type flags descriptor xs =
     (case descriptor of
        None \<Rightarrow> Some (Return (VA_STATUS_ERROR_INVALID_PARAMETER, None, xs))
      | Some desc \<Rightarrow>
          if mem_type AND VA_SURFACE_ATTRIB_MEM_TYPE_DRM_PRIME_2 = 0
          then Some (Return (VA_STATUS_ERROR_UNSUPPORTED_MEMORY_TYPE, Some desc, xs))
          else if flags AND VA_EXPORT_SURFACE_SEPARATE_LAYERS = 0
          then Some (Return (VA_STATUS_ERROR_INVALID_SURFACE, Some desc, xs))
          else case st_surfaceIds (xs_store xs) surface_id of
                 None \<Rightarrow> Some (Return (VA_STATUS_ERROR_INVALID_SURFACE, Some desc, xs))
               | Some s \<Rightarrow>
                   (case waitSurfaceResolved (xs_store xs) (Some s) of
                      Wait \<Rightarrow> Some Wait
                    | Return _ \<Rightarrow>
                        let completionStatus = sf_completionStatus (st_surface (xs_store xs) s)
                        in if completionStatus \<noteq> VA_STATUS_SUCCESS
                           then Some (Return (completionStatus, Some desc, xs))
                           else if \<not> xe_push env then Some (Return (VA_STATUS_ERROR_OPERATION_FAILED, Some desc, xs))
                           else case direct_realiseSurface (xe_alloc env) (xe_added env) s (xs_cache xs) of
                                  None \<Rightarrow> None
                                | Some (False, ic) \<Rightarrow>
                                    Some (Return (if xe_pop env then VA_STATUS_ERROR_ALLOCATION_FAILED
                                                  else VA_STATUS_ERROR_OPERATION_FAILED, Some desc, xs\<lparr>xs_cache := ic\<rparr>))
                                | Some (True, ic) \<Rightarrow>
                                    (case export_realised env s desc (xs\<lparr>xs_cache := ic\<rparr>) of
                                       (status, desc, xs) \<Rightarrow> Some (Return (status, Some desc, xs)))))"

end
