(* ===== verification/SurfaceExportProps.thy ===== *)
theory SurfaceExportProps
  imports SurfaceExport SurfaceImportProps PictureIndexInv
begin

text \<open>
  What the export of a surface does to the descriptors of the process, and that an exported description, given back to the
  driver as an import, is the image.
\<close>

section \<open>No descriptor is lost\<close>

definition fd_source_ok :: "(fd_table \<Rightarrow> int) \<Rightarrow> bool" where
  "fd_source_ok next \<longleftrightarrow> (\<forall>t. 0 \<le> next t \<longrightarrow> t (next t) = None)"

lemma fd_source_okD: "fd_source_ok next \<Longrightarrow> 0 \<le> next t \<Longrightarrow> t (next t) = None"
  by (simp add: fd_source_ok_def)

lemma dup_cases:
  assumes "nvDupFdCloexec next fd t = (n, t')"
  obtains "n < 0" "t' = t" | f where "0 \<le> n" "n = next t" "t fd = Some f" "t' = t(n \<mapsto> f)"
  using assms by (auto simp: nvDupFdCloexec_def Let_def split: option.splits if_splits)

lemma fold_close: "fold (\<lambda>j. close_fd (g j)) xs t = (\<lambda>fd. if fd \<in> g ` set xs then None else t fd)"
  by (induction xs arbitrary: t) (auto simp: close_fd_def fun_eq_iff)

lemma close_objects_table:
  "snd (close_objects n objs t) = (\<lambda>fd. if fd \<in> (\<lambda>j. po_fd (objs ! j)) ` {..<n} then None else t fd)"
  by (simp add: close_objects_def fold_close atLeast0LessThan)

text \<open>A failure closes what this call has opened, and what it was given to close.\<close>

lemma export_objects_failure:
  "fd_source_ok next \<Longrightarrow> export_objects next img i n objs t = (False, objs', t') \<Longrightarrow> i + n \<le> length objs \<Longrightarrow>
   t' = (\<lambda>fd. if fd \<in> (\<lambda>j. po_fd (objs ! j)) ` {..<i} then None else t fd)"
proof (induction n arbitrary: i objs t)
  case (Suc n)
  obtain fd t1 where d: "nvDupFdCloexec next (bi_fds img ! i) t = (fd, t1)" by force
  show ?case
  proof (rule dup_cases [OF d])
    assume neg: "fd < 0" "t1 = t"
    then have "t' = snd (close_objects i (objs[i := (objs ! i)\<lparr>po_fd := fd\<rparr>]) t)" using Suc.prems(2) d by (auto intro: sym)
    then show ?thesis unfolding close_objects_table by (auto simp: fun_eq_iff)
  next
    fix f assume new: "0 \<le> fd" "fd = next t" "t (bi_fds img ! i) = Some f" "t1 = t(fd \<mapsto> f)"
    let ?ob = "\<lparr>po_fd = fd, po_size = ucast (bi_objectSize img ! i), po_modifier = bi_mods img ! i\<rparr>"
    have "export_objects next img (Suc i) n (objs[i := ?ob]) t1 = (False, objs', t')"
      using Suc.prems(2) d new(1) by simp
    from Suc.IH [OF Suc.prems(1) this] Suc.prems(3)
    have t': "t' = (\<lambda>x. if x \<in> (\<lambda>j. po_fd (objs[i := ?ob] ! j)) ` {..<Suc i} then None else t1 x)" by simp
    have "(\<lambda>j. po_fd (objs[i := ?ob] ! j)) ` {..<Suc i} = insert fd ((\<lambda>j. po_fd (objs ! j)) ` {..<i})"
      using Suc.prems(3) by (auto simp: lessThan_Suc)
    then show ?thesis using fd_source_okD [OF Suc.prems(1), of t] new unfolding t' by (auto simp: fun_eq_iff)
  qed
qed simp

text \<open>What a successful export has written.\<close>

definition exported :: "BackingImage \<Rightarrow> fd_table \<Rightarrow> fd_table \<Rightarrow> nat \<Rightarrow> VADRMPRIMEObject \<Rightarrow> bool" where
  "exported img t t' k ob \<longleftrightarrow>
     0 \<le> po_fd ob \<and> t (po_fd ob) = None \<and> t' (po_fd ob) = t (bi_fds img ! k) \<and>
     po_size ob = ucast (bi_objectSize img ! k) \<and> po_modifier ob = bi_mods img ! k"

lemma export_objects_success:
  "fd_source_ok next \<Longrightarrow> export_objects next img i n objs t = (True, objs', t') \<Longrightarrow> i + n \<le> length objs \<Longrightarrow>
   (\<forall>k \<in> {i..<i + n}. t (bi_fds img ! k) \<noteq> None) \<Longrightarrow>
   length objs' = length objs \<and> (\<forall>j. j < i \<or> i + n \<le> j \<longrightarrow> objs' ! j = objs ! j) \<and>
   (\<forall>k \<in> {i..<i + n}. exported img t t' k (objs' ! k)) \<and> inj_on (\<lambda>k. po_fd (objs' ! k)) {i..<i + n} \<and>
   (\<forall>fd. fd \<notin> (\<lambda>k. po_fd (objs' ! k)) ` {i..<i + n} \<longrightarrow> t' fd = t fd)"
proof (induction n arbitrary: i objs t)
  case (Suc n)
  obtain fd t1 where d: "nvDupFdCloexec next (bi_fds img ! i) t = (fd, t1)" by force
  show ?case
  proof (rule dup_cases [OF d])
    assume "fd < 0" "t1 = t"
    then show ?thesis using Suc.prems(2) d by simp
  next
    fix f assume new: "0 \<le> fd" "fd = next t" "t (bi_fds img ! i) = Some f" "t1 = t(fd \<mapsto> f)"
    let ?ob = "\<lparr>po_fd = fd, po_size = ucast (bi_objectSize img ! i), po_modifier = bi_mods img ! i\<rparr>"
    have run: "export_objects next img (Suc i) n (objs[i := ?ob]) t1 = (True, objs', t')"
      using Suc.prems(2) d new(1) by simp
    have fresh: "t fd = None" using fd_source_okD [OF Suc.prems(1)] new by simp
    have op: "t1 (bi_fds img ! k) = t (bi_fds img ! k)" if "k \<in> {i..<i + Suc n}" for k
    proof -
      have "t (bi_fds img ! k) \<noteq> None" using Suc.prems(4) that by blast
      then have "bi_fds img ! k \<noteq> fd" using fresh by metis
      then show ?thesis using new(4) by simp
    qed
    have opened: "\<forall>k \<in> {Suc i..<Suc i + n}. t1 (bi_fds img ! k) \<noteq> None" using Suc.prems(4) op by simp
    have IH: "length objs' = length objs" "\<forall>j. j < Suc i \<or> Suc i + n \<le> j \<longrightarrow> objs' ! j = objs[i := ?ob] ! j"
      "\<forall>k \<in> {Suc i..<Suc i + n}. exported img t1 t' k (objs' ! k)" "inj_on (\<lambda>k. po_fd (objs' ! k)) {Suc i..<Suc i + n}"
      "\<forall>x. x \<notin> (\<lambda>k. po_fd (objs' ! k)) ` {Suc i..<Suc i + n} \<longrightarrow> t' x = t1 x"
      using Suc.IH [OF Suc.prems(1) run _ opened] Suc.prems(3) by simp_all
    have ob: "objs' ! i = ?ob" using IH(2) Suc.prems(3) by simp
    have other: "po_fd (objs' ! k) \<noteq> fd" if "k \<in> {Suc i..<Suc i + n}" for k
    proof -
      have "exported img t1 t' k (objs' ! k)" using IH(3) that by blast
      then have "t1 (po_fd (objs' ! k)) = None" by (simp add: exported_def)
      then show ?thesis using new(4) by auto
    qed
    have I: "{i..<i + Suc n} = insert i {Suc i..<Suc i + n}" by auto
    have notin: "fd \<notin> (\<lambda>k. po_fd (objs' ! k)) ` {Suc i..<Suc i + n}" using other by blast
    then have "t' fd = t1 fd" using IH(5) by blast
    then have first: "exported img t t' i (objs' ! i)" using new fresh by (simp add: ob exported_def)
    have rest: "exported img t t' k (objs' ! k)" if "k \<in> {Suc i..<Suc i + n}" for k
    proof -
      have "exported img t1 t' k (objs' ! k)" using IH(3) that by blast
      then show ?thesis using other [OF that] op [of k] that new(4) by (simp add: exported_def)
    qed
    show ?thesis
    proof (intro conjI allI ballI impI)
      show "length objs' = length objs" by (rule IH(1))
      show "objs' ! j = objs ! j" if "j < i \<or> i + Suc n \<le> j" for j using IH(2) that by auto
      show "exported img t t' k (objs' ! k)" if "k \<in> {i..<i + Suc n}" for k using first rest that unfolding I by blast
      show "inj_on (\<lambda>k. po_fd (objs' ! k)) {i..<i + Suc n}" 
        unfolding I using IH(4) notin ob by (simp only: inj_on_insert) simp
      fix x assume "x \<notin> (\<lambda>k. po_fd (objs' ! k)) ` {i..<i + Suc n}"
      then have "x \<noteq> fd" "x \<notin> (\<lambda>k. po_fd (objs' ! k)) ` {Suc i..<Suc i + n}" unfolding I using ob by auto
      then show "t' x = t x" using IH(5) new(4) by simp
    qed
  qed
qed auto

lemma fill_failure:
  assumes "fd_source_ok next" "direct_fillExportDescriptor next unsafe w h img stats t = (False, desc, stats', t')"
  shows "t' = t"
proof (cases "exportable_image unsafe img")
  case True
  then have n: "unat (bi_numObjects img) \<le> 4" by (auto simp: exportable_image_def word_le_nat_alt not_less)
  obtain b objs u where e: "export_objects next img 0 (unat (bi_numObjects img)) (pd_objects zero_descriptor) t = (b, objs, u)"
    by (metis prod_cases3)
  have "\<not> b \<and> u = t'" using assms(2) True e by (cases b) (simp_all add: direct_fillExportDescriptor_def Let_def)
  moreover have "u = t" if "\<not> b"
    using export_objects_failure [OF assms(1), of img 0 "unat (bi_numObjects img)" "pd_objects zero_descriptor" t objs u] e that n
    by (simp add: zero_descriptor_def)
  ultimately show ?thesis by simp
qed (use assms(2) in \<open>simp add: direct_fillExportDescriptor_def\<close>)

definition image_open :: "fd_table \<Rightarrow> BackingImage \<Rightarrow> bool" where
  "image_open t img \<longleftrightarrow> (\<forall>k < unat (bi_numObjects img). t (bi_fds img ! k) \<noteq> None)"

definition export_complete :: "BackingImage \<Rightarrow> fd_table \<Rightarrow> fd_table \<Rightarrow> VADRMPRIMESurfaceDescriptor \<Rightarrow> bool" where
  "export_complete img t t' desc \<longleftrightarrow>
     (let n = unat (pd_num_objects desc); fds = map po_fd (take n (pd_objects desc))
      in pd_num_objects desc = bi_numObjects img \<and> 0 < n \<and> n \<le> 4 \<and> distinct fds \<and>
         (\<forall>k < n. exported img t t' k (pd_objects desc ! k)) \<and> (\<forall>fd. fd \<notin> set fds \<longrightarrow> t' fd = t fd))"

lemma fill_success:
  assumes "fd_source_ok next" "direct_fillExportDescriptor next unsafe w h img stats t = (True, desc, stats', t')" "image_open t img"
  shows "export_complete img t t' desc \<and> exportable_image unsafe img \<and> length (pd_objects desc) = 4 \<and>
    pd_fourcc desc = bi_fourcc img \<and> pd_width desc = w \<and> pd_height desc = h \<and>
    pd_num_layers desc = bi_numPlanes img \<and> length (pd_layers desc) = 4 \<and>
    (\<forall>i < unat (bi_numPlanes img). pd_layers desc ! i = export_layer (plane_drm_format img i) img i zero_layer)"
proof -
  have ex: "exportable_image unsafe img"
    using assms(2) by (rule_tac ccontr) (simp add: direct_fillExportDescriptor_def)
  then have n: "unat (bi_numObjects img) \<le> 4" "0 < unat (bi_numObjects img)"
    and p: "bi_numPlanes img = fi_numPlanes (formatsInfo (bi_format img))"
    by (auto simp: exportable_image_def word_le_nat_alt not_less unat_gt_0)
  obtain b objs u where e: "export_objects next img 0 (unat (bi_numObjects img)) (replicate 4 zero_object) t = (b, objs, u)"
    by (metis prod_cases3)
  have b: "b" "u = t'" using assms(2) ex e by (cases b; simp add: direct_fillExportDescriptor_def zero_descriptor_def Let_def)+
  have desc: "pd_objects desc = objs" "pd_num_objects desc = bi_numObjects img" "pd_fourcc desc = bi_fourcc img"
    "pd_width desc = w" "pd_height desc = h" "pd_num_layers desc = bi_numPlanes img"
    "pd_layers desc = map (\<lambda>i. if i < unat (bi_numPlanes img)
       then export_layer (plane_drm_format img i) img i (replicate 4 zero_layer ! i) else replicate 4 zero_layer ! i) [0..<4]"
    using assms(2) ex e b(1) p by (auto simp: direct_fillExportDescriptor_def zero_descriptor_def Let_def)
  have o': "length objs = 4" "\<forall>k \<in> {0..<unat (bi_numObjects img)}. exported img t t' k (objs ! k)"
    "inj_on (\<lambda>k. po_fd (objs ! k)) {0..<unat (bi_numObjects img)}"
    "\<forall>fd. fd \<notin> (\<lambda>k. po_fd (objs ! k)) ` {0..<unat (bi_numObjects img)} \<longrightarrow> t' fd = t fd"
    using export_objects_success [OF assms(1), of img 0 "unat (bi_numObjects img)" "replicate 4 zero_object" t objs u]
      e b n assms(3) by (simp_all add: image_open_def)
  have fds: "map po_fd (take (unat (bi_numObjects img)) objs) = map (\<lambda>k. po_fd (objs ! k)) [0..<unat (bi_numObjects img)]"
    using o'(1) n(1) by (intro nth_equalityI) auto
  have "unat (bi_numPlanes img) \<le> 4" using plane_lt_4 [of "unat (bi_numPlanes img) - 1" "bi_format img"] p
    by (cases "unat (bi_numPlanes img)") auto
  then have "\<forall>i < unat (bi_numPlanes img). pd_layers desc ! i = export_layer (plane_drm_format img i) img i zero_layer"
    unfolding desc(7) by simp
  moreover have "export_complete img t t' desc"
    unfolding export_complete_def Let_def desc fds using o' n by (simp add: distinct_map)
  ultimately show ?thesis using o'(1) n ex by (simp add: desc)
qed

lemma popped_failure:
  assumes "export_complete img t (xs_fds xs) desc" "\<not> xe_pop env"
  shows "xs_fds (snd (snd (export_popped env s True desc xs))) = t"
proof -
  let ?n = "unat (pd_num_objects desc)" and ?fd = "\<lambda>i. po_fd (pd_objects desc ! i)"
  have c: "\<forall>k < ?n. exported img t (xs_fds xs) k (pd_objects desc ! k)"
    "\<forall>fd. fd \<notin> ?fd ` {..<?n} \<longrightarrow> xs_fds xs fd = t fd"
  proof -
    have "set (map po_fd (take ?n (pd_objects desc))) \<subseteq> ?fd ` {..<?n}" by (auto simp: in_set_conv_nth)
    then show "\<forall>fd. fd \<notin> ?fd ` {..<?n} \<longrightarrow> xs_fds xs fd = t fd"
      using assms(1) unfolding export_complete_def Let_def by blast
  qed (use assms(1) in \<open>simp add: export_complete_def Let_def\<close>)
  then have "set (filter (\<lambda>i. 0 \<le> ?fd i) [0..<?n]) = {..<?n}" by (auto simp: exported_def)
  then have "xs_fds (snd (snd (export_popped env s True desc xs))) = (\<lambda>fd. if fd \<in> ?fd ` {..<?n} then None else xs_fds xs fd)"
    using assms(2) by (simp add: export_popped_def Let_def fold_close)
  also have "\<dots> = t" using c by (auto simp: fun_eq_iff exported_def)
  finally show ?thesis .
qed

lemma popped_store:
  "export_popped env s filled desc xs = (status, d, xs') \<Longrightarrow>
   status \<noteq> VA_STATUS_SUCCESS \<and> xs_store xs' = xs_store xs \<and> xs_cache xs' = xs_cache xs \<and>
     \<not> (filled \<and> xe_pop env) \<and> (\<not> filled \<longrightarrow> xs_fds xs' = xs_fds xs) \<or>
   status = VA_STATUS_SUCCESS \<and> filled \<and> xe_pop env \<and> d = desc \<and> xs_fds xs' = xs_fds xs \<and> xs_cache xs' = xs_cache xs \<and>
     sf_exported (st_surface (xs_store xs') s)"
  by (auto simp: export_popped_def Let_def split: if_splits)

lemma export_realised_result:
  assumes src: "fd_source_ok (xe_next env)" and run: "export_realised env s d0 xs = (status, d, xs')"
    and op: "\<And>i. ic_backing (xs_cache xs') s = Some i \<Longrightarrow> image_open (xs_fds xs) (ic_image (xs_cache xs') i)"
  shows "if status \<noteq> VA_STATUS_SUCCESS then xs_fds xs' = xs_fds xs \<and> xs_store xs' = xs_store xs
    else \<exists>i. ic_backing (xs_cache xs') s = Some i \<and> sf_exported (st_surface (xs_store xs') s) \<and>
      export_complete (ic_image (xs_cache xs') i) (xs_fds xs) (xs_fds xs') d"
proof (cases "ic_backing (xs_cache xs) s")
  case (Some i)
  define ic where "ic = store_color_metadata i (sf_color (st_surface (xs_store xs) s)) (xs_cache xs)"
  have ici: "ic_backing ic s = Some i" using Some by (simp add: ic_def store_color_metadata_def upd_image_def)
  obtain filled desc stats t where f: "direct_fillExportDescriptor (xe_next env) (ic_cudaWorkUnsafe ic)
      (sf_width (st_surface (xs_store xs) s)) (sf_height (st_surface (xs_store xs) s)) (ic_image ic i) (xs_stats xs) (xs_fds xs) =
      (filled, desc, stats, t)" by (metis prod_cases4)
  let ?xs = "xs\<lparr>xs_cache := ic, xs_stats := stats, xs_fds := t\<rparr>"
  have p: "export_popped env s filled desc ?xs = (status, d, xs')"
    using run Some f by (simp add: export_realised_def ic_def [symmetric] Let_def)
  have ic': "xs_cache xs' = ic" using popped_store [OF p] by auto
  have img: "image_open (xs_fds xs) (ic_image ic i)" using op ici unfolding ic' by blast
  show ?thesis
  proof (cases filled)
    case False
    then have "t = xs_fds xs" using fill_failure [OF src] f by metis
    then show ?thesis using popped_store [OF p] False by auto
  next
    case True
    note filled = this
    have c: "export_complete (ic_image ic i) (xs_fds xs) t desc"
      using fill_success [OF src _ img, of "ic_cudaWorkUnsafe ic" "sf_width (st_surface (xs_store xs) s)"
        "sf_height (st_surface (xs_store xs) s)" "xs_stats xs" desc stats t] f True by simp
    show ?thesis
    proof (cases "xe_pop env")
      case True
      then show ?thesis using popped_store [OF p] c ici filled unfolding ic' by auto
    next
      case pop: False
      then have "xs_fds xs' = xs_fds xs"
        using popped_failure [of "ic_image ic i" "xs_fds xs" ?xs desc env s] c p filled by simp
      then show ?thesis using popped_store [OF p] pop by auto
    qed
  qed
qed (use run in \<open>auto simp: export_realised_def\<close>)


section \<open>Exporting and importing\<close>

definition import_object :: "VADRMPRIMEObject \<Rightarrow> ImportedObject" where
  "import_object ob = \<lparr>io_fd = po_fd ob, io_size = ucast (po_size ob), io_modifier = po_modifier ob\<rparr>"

lemma prime2_objects_forward:
  "\<forall>k \<in> {i..<i + n}. 0 \<le> po_fd (objs ! k) \<Longrightarrow> unat (is_dataSize imp) + n * 2 ^ 32 < 2 ^ 64 \<Longrightarrow> i + n \<le> length (is_objects imp) \<Longrightarrow>
   \<exists>sz. prime2_objects objs i n imp =
     (True, imp\<lparr>is_objects := map (\<lambda>k. if i \<le> k \<and> k < i + n then import_object (objs ! k) else is_objects imp ! k)
                  [0..<length (is_objects imp)], is_dataSize := sz\<rparr>)"
proof (induction n arbitrary: i imp)
  case 0
  have "map (\<lambda>k. if i \<le> k \<and> k < i then import_object (objs ! k) else is_objects imp ! k) [0..<length (is_objects imp)] = is_objects imp"
    by (intro nth_equalityI) auto
  then show ?case by (intro exI [of _ "is_dataSize imp"]) simp
next
  case (Suc n)
  let ?s = "ucast (po_size (objs ! i)) :: u64"
  let ?imp = "imp\<lparr>is_dataSize := is_dataSize imp + ?s, is_objects := (is_objects imp)[i := import_object (objs ! i)]\<rparr>"
  have s: "unat ?s < 2 ^ 32" using unat_u32_less [of "po_size (objs ! i)"]
    by (simp add: unsigned_ucast_eq take_bit_nat_eq_self [OF less_trans [OF unat_u32_less]])
  have sum: "unat (is_dataSize imp) + unat ?s < 2 ^ 64" using Suc.prems(2) s by simp
  have "\<not> UINT64_MAX - is_dataSize imp < ?s"
  proof -
    have "unat (UINT64_MAX - is_dataSize imp) = 2 ^ 64 - 1 - unat (is_dataSize imp)"
      using unat_u64_less [of "is_dataSize imp"] by (subst unat_sub_le) (simp_all add: word_le_nat_alt)
    then show ?thesis using sum by (simp add: word_less_nat_alt not_less)
  qed
  then have step: "prime2_objects objs i (Suc n) imp = prime2_objects objs (Suc i) n ?imp"
    using bspec [OF Suc.prems(1), of i] by (simp add: addObjectSize_def import_object_def Let_def)
  have "unat (is_dataSize imp + ?s) = unat (is_dataSize imp) + unat ?s" by (rule unat_add_no_overflow) (use sum in simp)
  then have pre: "unat (is_dataSize ?imp) + n * 2 ^ 32 < 2 ^ 64" using Suc.prems(2) s by simp
  obtain sz where r: "prime2_objects objs (Suc i) n ?imp = (True, ?imp\<lparr>is_objects :=
      map (\<lambda>k. if Suc i \<le> k \<and> k < Suc i + n then import_object (objs ! k) else is_objects ?imp ! k)
        [0..<length (is_objects ?imp)], is_dataSize := sz\<rparr>)"
    using Suc.IH [of "Suc i" ?imp] Suc.prems(1,3) pre by auto
  have m: "map (\<lambda>k. if Suc i \<le> k \<and> k < Suc i + n then import_object (objs ! k) else is_objects ?imp ! k) [0..<length (is_objects ?imp)] =
      map (\<lambda>k. if i \<le> k \<and> k < i + Suc n then import_object (objs ! k) else is_objects imp ! k) [0..<length (is_objects imp)]"
    using Suc.prems(3) by (intro nth_equalityI) (auto simp: nth_list_update)
  show ?case unfolding step r m by (intro exI [of _ sz]) simp
qed

lemma prime2_layers_forward:
  "\<forall>l \<in> set layers. pl_num_planes l = 1 \<and> pl_object_index l ! 0 < m \<Longrightarrow> unat i + length layers \<le> 4 \<Longrightarrow> length planes = 4 \<Longrightarrow>
   prime2_layers layers m i planes =
     (True, i + of_nat (length layers), take (unat i) planes @ map (\<lambda>l. layer_plane l 0) layers @ drop (unat i + length layers) planes)"
proof (induction layers arbitrary: i planes)
  case (Cons l layers)
  have i: "unat i < 4" using Cons.prems(2) by simp
  then have i1: "unat (i + 1) = Suc (unat i)" by (subst unat_add_no_overflow) simp_all
  have "pl_object_index l ! 0 < m" "\<not> i \<ge> 4" using i Cons.prems(1) by (simp_all add: word_le_nat_alt)
  then have g: "\<not> (i \<ge> 4 \<or> pl_object_index l ! 0 \<ge> m)" "pl_num_planes l = 1" using Cons.prems(1) by (simp_all add: not_le)
  have "layer_planes l m 0 (Suc 0) i planes = (True, i + 1, planes[unat i := layer_plane l 0])"
    using g(1) by (simp add: layer_plane_def)
  then have "prime2_layers (l # layers) m i planes = prime2_layers layers m (i + 1) (planes[unat i := layer_plane l 0])"
    using g(2) by simp
  also have "\<dots> = (True, i + 1 + of_nat (length layers), take (unat (i + 1)) (planes[unat i := layer_plane l 0]) @
      map (\<lambda>l. layer_plane l 0) layers @ drop (unat (i + 1) + length layers) (planes[unat i := layer_plane l 0]))"
    by (rule Cons.IH) (use Cons.prems i1 in simp_all)
  also have "take (unat (i + 1)) (planes[unat i := layer_plane l 0]) = take (unat i) planes @ [layer_plane l 0]"
    using i Cons.prems(3) unfolding i1 by (simp add: take_Suc_conv_app_nth)
  finally show ?case using i1 by (simp add: add.assoc)
qed simp

text \<open>\<open>imp\<close> describes the memory of \<open>img\<close>: its descriptors refer to the same files, and all numbers are the same.\<close>

definition describes :: "fd_table \<Rightarrow> fd_table \<Rightarrow> BackingImage \<Rightarrow> ImportedSurface \<Rightarrow> bool" where
  "describes t t' img imp \<longleftrightarrow>
     is_pixelFormat imp = bi_fourcc img \<and> is_numObjects imp = bi_numObjects img \<and> is_numPlanes imp = bi_numPlanes img \<and>
     (\<forall>k < unat (bi_numObjects img). 0 \<le> io_fd (is_objects imp ! k) \<and> t' (io_fd (is_objects imp ! k)) = t (bi_fds img ! k) \<and>
        io_size (is_objects imp ! k) = bi_objectSize img ! k \<and> io_modifier (is_objects imp ! k) = bi_mods img ! k) \<and>
     (\<forall>i < unat (bi_numPlanes img). ip_objectIndex (is_planes imp ! i) = bi_planeObjectIndex img ! i \<and>
        uint (ip_offset (is_planes imp ! i)) = bi_offsets img ! i \<and> uint (ip_pitch (is_planes imp ! i)) = bi_strides img ! i)"

definition int_fields :: "BackingImage \<Rightarrow> bool" where
  "int_fields img \<longleftrightarrow> (\<forall>i < unat (bi_numPlanes img). bi_offsets img ! i \<le> INT_MAX \<and> bi_strides img ! i \<le> INT_MAX)"

abbreviation prime2_attributes :: "VASurfaceAttrib list" where
  "prime2_attributes \<equiv> [(VASurfaceAttribMemoryType, VAInteger 0x40000000), (VASurfaceAttribExternalBufferDescriptor, VAPointer (Some 0))]"

lemma parse_exported:
  assumes c: "export_complete img t t' desc" "exportable_image unsafe img" "length (pd_objects desc) = 4"
    "pd_fourcc desc = bi_fourcc img" "pd_num_layers desc = bi_numPlanes img" "length (pd_layers desc) = 4"
    "\<forall>i < unat (bi_numPlanes img). pd_layers desc ! i = export_layer (plane_drm_format img i) img i zero_layer"
    and fmt: "bi_format img \<noteq> NV_FORMAT_NONE" and ints: "int_fields img"
    and imp_def: "imp = parseSurfaceImportAttributes read_prime (\<lambda>_. desc) (Some prime2_attributes)"
  shows "is_requested imp \<and> is_valid imp \<and> \<not> is_legacyPrime imp \<and> is_width imp = pd_width desc \<and> is_height imp = pd_height desc \<and>
    describes t t' img imp \<and> length (is_objects imp) = 4"
proof -
  let ?n = "unat (bi_numObjects img)" and ?p = "unat (bi_numPlanes img)"
  have nd: "pd_num_objects desc = bi_numObjects img" "0 < ?n" "?n \<le> 4"
    and ex: "\<forall>k < ?n. exported img t t' k (pd_objects desc ! k)"
    using c(1) by (auto simp: export_complete_def Let_def)
  have pn: "bi_numPlanes img = fi_numPlanes (formatsInfo (bi_format img))"
    and sz: "\<forall>k < ?n. bi_objectSize img ! k \<le> u32_to_u64 UINT32_MAX"
    and pl: "\<forall>i < ?p. bi_planeObjectIndex img ! i < bi_numObjects img \<and> 0 \<le> bi_offsets img ! i \<and> 0 < bi_strides img ! i"
    using c(2) by (auto simp: exportable_image_def not_le not_less)
  have p0: "0 < ?p" "?p \<le> 4"
    using fmt unfolding pn by (cases "bi_format img"; simp add: formatsInfo_def two_planes_def three_planes_def)+
  define i1 where "i1 = importedSurfaceInit\<lparr>is_memoryType := 0x40000000, is_requested := True, is_pixelFormat := pd_fourcc desc,
    is_width := pd_width desc, is_height := pd_height desc, is_numObjects := pd_num_objects desc\<rparr>"
  have i1: "length (is_objects i1) = 4" "length (is_planes i1) = 4" "is_dataSize i1 = 0" "is_requested i1" "\<not> is_legacyPrime i1"
    by (simp_all add: i1_def importedSurfaceInit_def)
  let ?objs = "map (\<lambda>k. if 0 \<le> k \<and> k < 0 + ?n then import_object (pd_objects desc ! k) else is_objects i1 ! k) [0..<length (is_objects i1)]"
  obtain z where o: "prime2_objects (pd_objects desc) 0 ?n i1 = (True, i1\<lparr>is_objects := ?objs, is_dataSize := z\<rparr>)"
    using prime2_objects_forward [of 0 ?n "pd_objects desc" i1] ex nd i1(1,3) by (auto simp: exported_def)
  define layers where "layers = take ?p (pd_layers desc)"
  have ll: "length layers = ?p" using p0(2) c(6) by (simp add: layers_def)
  have l: "layers ! i = export_layer (plane_drm_format img i) img i zero_layer" if "i < ?p" for i
    using that c(7) by (simp add: layers_def)
  have ok: "\<forall>l \<in> set layers. pl_num_planes l = 1 \<and> pl_object_index l ! 0 < bi_numObjects img"
    using l pl unfolding all_set_conv_all_nth ll by (simp add: export_layer_def zero_layer_def)
  have pls: "prime2_layers layers (bi_numObjects img) 0 (is_planes i1) =
      (True, of_nat ?p, map (\<lambda>l. layer_plane l 0) layers @ drop ?p (is_planes i1))"
    using prime2_layers_forward [OF ok, of 0 "is_planes i1"] ll p0(2) i1(2) by simp
  have guard: "\<not> (pd_num_layers desc = 0 \<or> pd_num_layers desc > 4 \<or> pd_num_objects desc = 0 \<or> pd_num_objects desc > NVD_MAX_IMPORTED_OBJECTS)"
    using p0 nd c(5) by (auto simp: word_less_nat_alt unat_gt_0 [symmetric])
  have imp: "imp = i1\<lparr>is_objects := ?objs, is_dataSize := z, is_planes := map (\<lambda>l. layer_plane l 0) layers @ drop ?p (is_planes i1),
      is_numPlanes := bi_numPlanes img, is_valid := True\<rparr>"
  proof -
    have "parsePrime2Descriptor desc (importedSurfaceInit\<lparr>is_memoryType := 0x40000000, is_requested := True\<rparr>) = imp"
      by (simp add: imp_def parseSurfaceImportAttributes_def Let_def importedSurfaceInit_def)
    moreover have "0 < bi_numPlanes img" using p0(1) by (simp add: word_less_nat_alt)
    ultimately show ?thesis
      using guard o pls nd(1) c(5) p0(1)
      unfolding parsePrime2Descriptor_def Let_def if_not_P [OF guard] i1_def [symmetric] by (simp add: layers_def [symmetric])
  qed
  have ob: "is_objects imp ! k = import_object (pd_objects desc ! k)" if "k < ?n" for k
    using that nd(3) i1(1) unfolding imp by simp
  have pln: "is_planes imp ! i = layer_plane (layers ! i) 0" if "i < ?p" for i
    using that ll unfolding imp by (simp add: nth_append)
  have "describes t t' img imp"
    unfolding describes_def
  proof (intro conjI allI impI)
    fix k assume k: "k < ?n"
    have e: "exported img t t' k (pd_objects desc ! k)" using ex k by blast
    have "unat (bi_objectSize img ! k) \<le> 2 ^ 32 - 1" using sz k by (simp add: word_le_nat_alt)
    then have "ucast (ucast (bi_objectSize img ! k) :: u32) = bi_objectSize img ! k"
      by (simp add: word_unat_eq_iff unat_u64_to_u32)
    then show "0 \<le> io_fd (is_objects imp ! k)" "t' (io_fd (is_objects imp ! k)) = t (bi_fds img ! k)"
      "io_size (is_objects imp ! k) = bi_objectSize img ! k" "io_modifier (is_objects imp ! k) = bi_mods img ! k"
      using e k by (simp_all add: ob import_object_def exported_def)
  next
    fix i assume i: "i < ?p"
    have "0 \<le> bi_offsets img ! i" "bi_offsets img ! i \<le> INT_MAX" "0 < bi_strides img ! i" "bi_strides img ! i \<le> INT_MAX"
      using pl ints i by (simp_all add: int_fields_def)
    then show "ip_objectIndex (is_planes imp ! i) = bi_planeObjectIndex img ! i"
      "uint (ip_offset (is_planes imp ! i)) = bi_offsets img ! i" "uint (ip_pitch (is_planes imp ! i)) = bi_strides img ! i"
      using i by (simp_all add: pln layer_plane_def l export_layer_def zero_layer_def uint_word_of_int)
  qed (simp_all add: imp i1_def c(4) nd(1))
  moreover have "is_requested imp" "is_valid imp" "\<not> is_legacyPrime imp" "is_width imp = pd_width desc" "is_height imp = pd_height desc"
    "length (is_objects imp) = 4"
    unfolding imp using i1 by (simp_all add: i1_def)
  ultimately show ?thesis by blast
qed

text \<open>C39. A surface that is exported and whose description is given back as an import is described exactly: the import is valid and
  selected for the one surface, with the size of the surface, and its objects and planes are those of the image, behind
  descriptors of the client that refer to the same memory.\<close>

theorem export_import_roundtrip:
  assumes "fd_source_ok next" "direct_fillExportDescriptor next unsafe w h img stats t = (True, desc, stats', t')"
    and "image_open t img" "bi_format img \<noteq> NV_FORMAT_NONE" "int_fields img"
    and "imp = parseSurfaceImportAttributes read_prime (\<lambda>_. desc) (Some prime2_attributes)"
  shows "is_valid imp \<and> importedSurfaceSelectIndex imp 0 1 = Some imp \<and> is_width imp = w \<and> is_height imp = h \<and>
    is_pixelFormat imp = bi_fourcc img \<and> is_numObjects imp = bi_numObjects img \<and> is_numPlanes imp = bi_numPlanes img \<and>
    (\<forall>k < unat (bi_numObjects img). 0 \<le> io_fd (is_objects imp ! k) \<and> t' (io_fd (is_objects imp ! k)) = t (bi_fds img ! k) \<and>
       io_size (is_objects imp ! k) = bi_objectSize img ! k \<and> io_modifier (is_objects imp ! k) = bi_mods img ! k) \<and>
    (\<forall>i < unat (bi_numPlanes img). ip_objectIndex (is_planes imp ! i) = bi_planeObjectIndex img ! i \<and>
       uint (ip_offset (is_planes imp ! i)) = bi_offsets img ! i \<and> uint (ip_pitch (is_planes imp ! i)) = bi_strides img ! i)"
proof -
  have f: "export_complete img t t' desc" "exportable_image unsafe img" "length (pd_objects desc) = 4"
    "pd_fourcc desc = bi_fourcc img" "pd_width desc = w" "pd_height desc = h" "pd_num_layers desc = bi_numPlanes img"
    "length (pd_layers desc) = 4"
    "\<forall>i < unat (bi_numPlanes img). pd_layers desc ! i = export_layer (plane_drm_format img i) img i zero_layer"
    using fill_success [OF assms(1-3)] by blast+
  have p: "is_valid imp" "\<not> is_legacyPrime imp" "is_width imp = w" "is_height imp = h" "describes t t' img imp"
    using parse_exported [OF f(1-4,7-9) assms(4-6)] f(5,6) by simp_all
  have "importedSurfaceSelectIndex imp 0 1 = Some imp" using p(1,2) by (simp add: importedSurfaceSelectIndex_def)
  then show ?thesis using p unfolding describes_def by blast
qed

section \<open>Concrete inputs\<close>

text \<open>An NV12 image with one object for each plane.\<close>

definition demo_image :: BackingImage where
  "demo_image = sample_import\<lparr>bi_height := 64, bi_fds := [5, 6, -1, -1], bi_st := [(1, 2), (1, 3), (0, 0), (0, 0)], bi_offsets := [0, 0, 0, 0],
     bi_strides := [64, 64, 0, 0], bi_mods := [7, 7, 0, 0], bi_size := [65536, 65536, 0, 0],
     bi_objectSize := [65536, 65536, 0, 0], bi_planeObjectIndex := [0, 1, 0, 0], bi_numObjects := 2,
     bi_totalSize := 0, bi_isSingleBuffer := False, bi_isExternalBuffer := False\<rparr>"

definition demo_fds :: fd_table where
  "demo_fds = [5 \<mapsto> \<lparr>of_id = (1, 2), of_st_size = 65536, of_seek_end = 65536\<rparr>,
               6 \<mapsto> \<lparr>of_id = (1, 3), of_st_size = 65536, of_seek_end = 65536\<rparr>]"

definition demo_next :: "fd_table \<Rightarrow> int" where
  "demo_next t = (if t 10 = None then 10 else if t 11 = None then 11 else -1)"

lemma demo_next: "fd_source_ok demo_next"
  by (simp add: fd_source_ok_def demo_next_def)

lemma demo_open: "image_open demo_fds demo_image" "int_fields demo_image" "bi_format demo_image = NV_FORMAT_NV12"
  by (auto simp: image_open_def int_fields_def demo_fds_def demo_image_def sample_import_def less_2_cases_iff)

definition demo_stats :: NVStats where
  "demo_stats = \<lparr>ss_enabled = False, ss_logInterval = 0, ss_stats = \<lambda>_. 0, ss_images = \<lambda>_. \<lparr>im_statsBytes = 0,
     im_statsTracked = False, im_statsActive = False, im_statsBorrowed = False, im_statsExternal = False\<rparr>\<rparr>"

definition demo_export :: "bool \<times> VADRMPRIMESurfaceDescriptor \<times> NVStats \<times> fd_table" where
  "demo_export = direct_fillExportDescriptor demo_next False 64 64 demo_image demo_stats demo_fds"

lemma demo_exportable: "exportable_image False demo_image"
  by (auto simp: exportable_image_def demo_image_def sample_import_def formatsInfo_def two_planes_def less_2_cases_iff word_le_nat_alt)

lemma demo_dup:
  "nvDupFdCloexec demo_next 5 demo_fds = (10, demo_fds(10 \<mapsto> the (demo_fds 5)))"
  "nvDupFdCloexec demo_next 6 (demo_fds(10 \<mapsto> the (demo_fds 5))) = (11, demo_fds(10 \<mapsto> the (demo_fds 5), 11 \<mapsto> the (demo_fds 6)))"
  by (simp_all add: nvDupFdCloexec_def demo_next_def demo_fds_def)

lemma demo_objects: "fst (export_objects demo_next demo_image 0 2 (replicate 4 zero_object) demo_fds)"
proof -
  have fds: "bi_fds demo_image ! 0 = 5" "bi_fds demo_image ! Suc 0 = 6" by (simp_all add: demo_image_def)
  show ?thesis unfolding numeral_2_eq_2 export_objects.simps by (simp only: fds demo_dup prod.case) simp
qed

lemma demo_export: "fst demo_export"
proof -
  have n: "unat (bi_numObjects demo_image) = 2" by (simp add: demo_image_def)
  obtain objs t where o: "export_objects demo_next demo_image 0 2 (replicate 4 zero_object) demo_fds = (True, objs, t)"
    using demo_objects by (cases "export_objects demo_next demo_image 0 2 (replicate 4 zero_object) demo_fds") auto
  show ?thesis
    using demo_exportable n o unfolding demo_export_def direct_fillExportDescriptor_def Let_def
    by (simp add: zero_descriptor_def)
qed

lemma export_import_roundtrip_witness:
  "is_valid (parseSurfaceImportAttributes (\<lambda>_. undefined) (\<lambda>_. fst (snd demo_export)) (Some prime2_attributes))"
proof -
  obtain b desc stats t where e: "demo_export = (b, desc, stats, t)" by (metis prod_cases4)
  have "b = True" using arg_cong [OF e, of fst] demo_export by (simp only: fst_conv)
  then have e': "direct_fillExportDescriptor demo_next False 64 64 demo_image demo_stats demo_fds = (True, desc, stats, t)"
    using e unfolding demo_export_def by (simp only: \<open>b = True\<close>)
  have f: "bi_format demo_image \<noteq> NV_FORMAT_NONE" using demo_open(3) by simp
  have d: "fst (snd demo_export) = desc" by (simp only: e fst_conv snd_conv)
  show ?thesis
    unfolding d by (rule conjunct1 [OF export_import_roundtrip [OF demo_next e' demo_open(1) f demo_open(2) refl]])
qed

definition demo_cache :: ImageCache where
  "demo_cache = \<lparr>ic_image = \<lambda>_. demo_image, ic_link = \<lambda>_. no_links, ic_backing = [1 \<mapsto> 20], ic_images = [20], ic_alive = {20},
     ic_detachedHead = None, ic_detachedTail = None, ic_detachedBytes = 0, ic_detachedCount = 0, ic_detachedSerial = 0,
     ic_maxDetachedImages = 0, ic_maxDetachedBytes = 0, ic_memoryBudget = 0, ic_scratchY = 0, ic_scratchUV = 0,
     ic_scratchArgb = 0, ic_cudaWorkUnsafe = False\<rparr>"

definition demo_state :: export_state where
  "demo_state = \<lparr>xs_store = store_example, xs_cache = demo_cache, xs_stats = demo_stats, xs_fds = demo_fds\<rparr>"

definition demo_env :: "bool \<Rightarrow> export_env" where
  "demo_env pop = \<lparr>xe_push = True, xe_pop = pop, xe_next = demo_next, xe_alloc = \<lambda>_ _. None, xe_added = True\<rparr>"

text \<open>The same export with the context popped, and with a failure there.\<close>

lemma demo_call:
  "\<exists>d xs'. nvExportSurfaceHandle (demo_env pop) 1 0x40000000 4 (Some zero_descriptor) demo_state =
     Some (Return (if pop then VA_STATUS_SUCCESS else VA_STATUS_ERROR_OPERATION_FAILED, Some d, xs')) \<and>
     ic_backing (xs_cache xs') = [1 \<mapsto> 20] \<and> ic_image (xs_cache xs') 20 = demo_image"
proof -
  have s: "st_surfaceIds store_example 1 = Some 1" "waitSurfaceResolved store_example (Some 1) = Return ()"
    "sf_completionStatus (st_surface store_example 1) = VA_STATUS_SUCCESS" "sf_width (st_surface store_example 1) = 64"
    "sf_height (st_surface store_example 1) = 64"
    by (simp_all add: store_example_def surface_example_def waitSurfaceResolved_def surface_resolved_def)
  have ic: "ic_image (store_color_metadata 20 (sf_color (st_surface store_example 1)) demo_cache) 20 = demo_image"
    "ic_backing (store_color_metadata 20 (sf_color (st_surface store_example 1)) demo_cache) = [1 \<mapsto> 20]"
    "\<not> ic_cudaWorkUnsafe (store_color_metadata 20 (sf_color (st_surface store_example 1)) demo_cache)"
    by (simp_all add: store_color_metadata_def demo_cache_def upd_image_def demo_image_def sample_import_def
        store_example_def surface_example_def)
  have r: "direct_realiseSurface a b 1 demo_cache = Some (True, demo_cache)" for a b
    by (simp add: direct_realiseSurface_def demo_cache_def)
  obtain desc stats t where f: "direct_fillExportDescriptor demo_next False 64 64 demo_image demo_stats demo_fds = (True, desc, stats, t)"
    using demo_export unfolding demo_export_def
    by (cases "direct_fillExportDescriptor demo_next False 64 64 demo_image demo_stats demo_fds") auto
  have b: "ic_backing demo_cache 1 = Some 20" by (simp add: demo_cache_def)
  show ?thesis
    unfolding nvExportSurfaceHandle_def demo_state_def Let_def
    by (simp add: demo_env_def s r export_realised_def b ic f Let_def export_popped_def del: One_nat_def)
qed


end
