(* ===== verification/ImageImport.thy ===== *)
theory ImageImport
  imports SurfaceExport GpuLayout
begin

text \<open>
  Where the image behind a surface comes from: the allocation in video memory (\<open>direct_allocateBackingImage_single\<close>,
  \<open>direct_allocateBackingImage_perPlane\<close> and \<open>direct_allocateBackingImageImpl\<close> of
  \<open>src/direct/direct-export-buf.c\<close>) and the import of the client's memory (\<open>createImportedBackingImageImpl\<close>
  of \<open>src/vabackend.c\<close> with what it calls).

  The file descriptors are those of \<open>SurfaceExport\<close>; a descriptor that CUDA takes over is not one of them. The answers of CUDA,
  of \<open>mmap\<close> and of the kernel driver are in \<open>import_env\<close> and \<open>alloc_env\<close>. Colour metadata of a new image are zero.
\<close>

section \<open>An empty image\<close>

text \<open>\<open>calloc\<close> with the descriptors set to \<open>-1\<close>.\<close>

definition empty_image :: BackingImage where
  "empty_image =
     \<lparr>bi_arrays = replicate 3 0, bi_width = 0, bi_height = 0, bi_fourcc = 0, bi_fds = replicate 4 (-1),
      bi_st = replicate 4 (0, 0), bi_offsets = replicate 4 0, bi_strides = replicate 4 0, bi_mods = replicate 4 0,
      bi_size = replicate 4 0, bi_objectSize = replicate 4 0, bi_planeObjectIndex = replicate 4 0, bi_numObjects = 0,
      bi_numPlanes = 0, bi_format = NV_FORMAT_NONE,
      bi_color = \<lparr>cm_colorStandard = VAProcColorStandardNone, cm_colorRangeFull = False\<rparr>, bi_totalSize = 0,
      bi_isSingleBuffer = False, bi_isExternalBuffer = False, bi_borrowedCudaResources = False, bi_borrowed = None,
      bi_borrowCount = 0, bi_externalMappings = replicate 4 0, bi_externalMappingSize = replicate 4 0,
      bi_externalDevicePtrs = replicate 4 0, bi_externalDeviceSize = replicate 4 0\<rparr>"

definition cacheBackingImageFdStat :: "fd_table \<Rightarrow> nat \<Rightarrow> BackingImage \<Rightarrow> BackingImage" where
  "cacheBackingImageFdStat t i img =
     (if i \<ge> 4 \<or> bi_fds img ! i < 0 then img
      else case fstat t (bi_fds img ! i) of
             None \<Rightarrow> img
           | Some st \<Rightarrow> img\<lparr>bi_st := (bi_st img)[i := st]\<rparr>)"

text \<open>The descriptors that an image has, closed in the order of the array.\<close>

definition close_image :: "BackingImage \<Rightarrow> fd_table \<Rightarrow> fd_table" where
  "close_image img t = fold (\<lambda>i t. if bi_fds img ! i \<ge> 0 then close_fd (bi_fds img ! i) t else t) [0..<4] t"

section \<open>Importing memory of the client\<close>

record import_env =
  ie_next :: "fd_table \<Rightarrow> int"
  ie_modifier :: "nat \<Rightarrow> u64"
  ie_native :: "BackingImage \<Rightarrow> u64 list option"
  ie_mappedBuffer :: bool
  ie_cuda :: "nat \<Rightarrow> u64 option"
  ie_mmap :: "nat \<Rightarrow> u64 option"

definition releaseExternalCudaBuffers :: "BackingImage \<Rightarrow> BackingImage" where
  "releaseExternalCudaBuffers img =
     fold (\<lambda>i img. if bi_externalDevicePtrs img ! i \<noteq> 0
                  then img\<lparr>bi_externalDevicePtrs := (bi_externalDevicePtrs img)[i := 0],
                           bi_externalDeviceSize := (bi_externalDeviceSize img)[i := 0]\<rparr>
                  else img) [0..<unat (bi_numObjects img)] img"

text \<open>Each object: its descriptor is duplicated and imported, and its memory mapped; \<open>False\<close> goes to the failure path.\<close>

fun import_cuda_objects :: "import_env \<Rightarrow> nat \<Rightarrow> nat \<Rightarrow> BackingImage \<Rightarrow> bool \<times> BackingImage" where
  "import_cuda_objects env i 0 img = (True, img)"
| "import_cuda_objects env i (Suc n) img =
     (if bi_fds img ! i < 0 \<or> bi_objectSize img ! i = 0 then (False, img)
      else case ie_cuda env i of
             None \<Rightarrow> (False, img)
           | Some p \<Rightarrow>
               import_cuda_objects env (Suc i) n
                 (img\<lparr>bi_externalDevicePtrs := (bi_externalDevicePtrs img)[i := p],
                      bi_externalDeviceSize := (bi_externalDeviceSize img)[i := bi_objectSize img ! i]\<rparr>))"

definition importExternalBuffersToCuda :: "import_env \<Rightarrow> BackingImage \<Rightarrow> bool \<times> BackingImage" where
  "importExternalBuffersToCuda env img =
     (if \<not> importedObjectsAreLinear img \<or> \<not> ie_mappedBuffer env then (False, img)
      else case import_cuda_objects env 0 (unat (bi_numObjects img)) img of
             (True, img) \<Rightarrow> (True, img)
           | (False, img) \<Rightarrow> (False, releaseExternalCudaBuffers img))"

fun map_objects :: "import_env \<Rightarrow> nat \<Rightarrow> nat \<Rightarrow> BackingImage \<Rightarrow> bool \<times> BackingImage" where
  "map_objects env i 0 img = (True, img)"
| "map_objects env i (Suc n) img =
     (if bi_fds img ! i < 0 \<or> bi_objectSize img ! i = 0 then (False, img)
      else case ie_mmap env i of
             None \<Rightarrow> (False, img)
           | Some p \<Rightarrow>
               map_objects env (Suc i) n
                 (img\<lparr>bi_externalMappings := (bi_externalMappings img)[i := p],
                      bi_externalMappingSize := (bi_externalMappingSize img)[i := bi_objectSize img ! i]\<rparr>))"

definition unmap_objects :: "nat \<Rightarrow> BackingImage \<Rightarrow> BackingImage" where
  "unmap_objects n img =
     fold (\<lambda>i img. if bi_externalMappings img ! i \<noteq> 0
                  then img\<lparr>bi_externalMappings := (bi_externalMappings img)[i := 0],
                           bi_externalMappingSize := (bi_externalMappingSize img)[i := 0]\<rparr>
                  else img) [0..<n] img"

definition mapExternalBacking :: "import_env \<Rightarrow> BackingImage \<Rightarrow> bool \<times> BackingImage" where
  "mapExternalBacking env img =
     (if \<not> importedObjectsAreLinear img then (False, img)
      else case map_objects env 0 (unat (bi_numObjects img)) img of
             (True, img) \<Rightarrow> (True, img)
           | (False, img) \<Rightarrow> (False, unmap_objects (unat (bi_numObjects img)) img))"

definition importedFdSize :: "fd_table \<Rightarrow> int \<Rightarrow> u64" where
  "importedFdSize t fd =
     (case t fd of
        None \<Rightarrow> 0
      | Some f \<Rightarrow> if of_st_size f > 0 then of_int (of_st_size f)
                  else if of_seek_end f > 0 then of_int (of_seek_end f) else 0)"

text \<open>
  The import as block-linear memory of the driver's own layout; \<open>ie_native\<close> gives the arrays of the planes when the kernel driver
  knows the memory and CUDA maps it.
\<close>

definition direct_importBackingImage :: "import_env \<Rightarrow> BackingImage \<Rightarrow> bool \<Rightarrow> bool \<times> BackingImage" where
  "direct_importBackingImage env img legacyPrime =
     (case native_layout (ie_modifier env) img legacyPrime of
        None \<Rightarrow> (False, img)
      | Some (planes, n) \<Rightarrow>
          (case ie_native env img of
             None \<Rightarrow> (False, img)
           | Some arrays \<Rightarrow> (True, img\<lparr>bi_arrays := arrays, bi_mods := (bi_mods img)[0 := di_mods (planes ! 0)]\<rparr>)))"

text \<open>The loop over the objects of the description.\<close>

fun import_objects ::
    "import_env \<Rightarrow> ImportedSurface \<Rightarrow> nat \<Rightarrow> nat \<Rightarrow> BackingImage \<Rightarrow> fd_table \<Rightarrow> bool \<times> BackingImage \<times> fd_table" where
  "import_objects env imported i 0 img t = (True, img, t)"
| "import_objects env imported i (Suc n) img t =
     (let ob = is_objects imported ! i
      in case nvDupFdCloexec (ie_next env) (io_fd ob) t of
           (fd, t) \<Rightarrow>
             let img = img\<lparr>bi_fds := (bi_fds img)[i := fd]\<rparr>
             in if fd < 0 then (False, img, t)
                else
                  let img = cacheBackingImageFdStat t i img;
                      actualSize = importedFdSize t fd;
                      size' = (if io_size ob \<noteq> 0 then io_size ob else actualSize);
                      img = img\<lparr>bi_objectSize := (bi_objectSize img)[i := size']\<rparr>
                  in if size' = 0 \<or> (actualSize \<noteq> 0 \<and> size' > actualSize) \<or> UINT64_MAX - bi_totalSize img < size'
                     then (False, img, t)
                     else import_objects env imported (Suc i) n
                            (img\<lparr>bi_totalSize := bi_totalSize img + size', bi_mods := (bi_mods img)[i := io_modifier ob]\<rparr>) t)"

text \<open>The loop over the planes.\<close>

fun import_planes :: "ImportedSurface \<Rightarrow> nat \<Rightarrow> nat \<Rightarrow> BackingImage \<Rightarrow> bool \<times> BackingImage" where
  "import_planes imported i 0 img = (True, img)"
| "import_planes imported i (Suc n) img =
     (let p = is_planes imported ! i
      in if ip_objectIndex p \<ge> bi_numObjects img \<or> uint (ip_pitch p) > INT_MAX \<or> uint (ip_offset p) > INT_MAX
         then (False, img)
         else
           let objectSize = bi_objectSize img ! unat (ip_objectIndex p)
           in import_planes imported (Suc i) n
                (img\<lparr>bi_planeObjectIndex := (bi_planeObjectIndex img)[i := ip_objectIndex p],
                     bi_strides := (bi_strides img)[i := uint (ip_pitch p)],
                     bi_offsets := (bi_offsets img)[i := uint (ip_offset p)],
                     bi_size := (bi_size img)[i := if objectSize > u32_to_u64 UINT32_MAX then UINT32_MAX else ucast objectSize]\<rparr>))"

text \<open>The lookup of an image of the driver over the pointer array, by position; the count of its borrowers is raised.\<close>

definition retain_image ::
    "fd_table \<Rightarrow> ImageCache \<Rightarrow> int \<Rightarrow> NVFormat \<Rightarrow> u32 \<Rightarrow> u32 \<Rightarrow> nat option \<times> ImageCache" where
  "retain_image t ic fd format width height =
     (case retainBackingImageByFd (fstat t) (map (\<lambda>i. Some (ic_image ic i)) (ic_images ic)) fd format width height of
        (None, _) \<Rightarrow> (None, ic)
      | (Some k, _) \<Rightarrow>
          let i = ic_images ic ! k
          in (Some i, upd_image i (\<lambda>m. m\<lparr>bi_borrowCount := bi_borrowCount m + 1\<rparr>) ic))"

definition metadata_image :: "nat \<Rightarrow> ImageCache \<Rightarrow> BackingImage" where
  "metadata_image i ic = ic_image ic (case bi_borrowed (ic_image ic i) of Some b \<Rightarrow> b | None \<Rightarrow> i)"

text \<open>The image takes over the resources of the image \<open>i\<close> of the driver.\<close>

definition borrow_image :: "nat \<Rightarrow> ImageCache \<Rightarrow> BackingImage \<Rightarrow> BackingImage" where
  "borrow_image i ic img =
     (let existing = ic_image ic i; n = unat (fi_numPlanes (formatsInfo (bi_format img)))
      in img\<lparr>bi_color := bi_color (metadata_image i ic),
             bi_arrays := take n (bi_arrays existing) @ drop n (bi_arrays img),
             bi_strides := take n (bi_strides existing) @ drop n (bi_strides img),
             bi_offsets := take n (bi_offsets existing) @ drop n (bi_offsets img),
             bi_size := take n (bi_size existing) @ drop n (bi_size img),
             bi_totalSize := (if bi_totalSize existing \<noteq> 0 then bi_totalSize existing
                              else u32_to_u64 (bi_size existing ! 0)),
             bi_borrowedCudaResources := True, bi_borrowed := Some i\<rparr>)"

text \<open>The three ways to reach memory that is not the driver's, in their order.\<close>

definition import_foreign :: "import_env \<Rightarrow> bool \<Rightarrow> BackingImage \<Rightarrow> BackingImage option" where
  "import_foreign env legacyPrime img =
     (case direct_importBackingImage env img legacyPrime of
        (True, img) \<Rightarrow> Some img
      | (False, img) \<Rightarrow>
          (case importExternalBuffersToCuda env img of
             (True, img) \<Rightarrow> Some img
           | (False, img) \<Rightarrow> (case mapExternalBacking env img of (True, img) \<Rightarrow> Some img | (False, img) \<Rightarrow> None)))"

text \<open>A legacy description has no modifier; it is that of the image of the driver with one object.\<close>

definition legacy_modifier :: "ImportedSurface \<Rightarrow> BackingImage \<Rightarrow> BackingImage \<Rightarrow> BackingImage" where
  "legacy_modifier imported existing img =
     (if is_legacyPrime imported \<and> bi_numObjects existing = 1
      then img\<lparr>bi_mods := (bi_mods img)[0 := bi_mods existing ! 0]\<rparr> else img)"

definition import_memory ::
    "import_env \<Rightarrow> ImportedSurface \<Rightarrow> u32 \<Rightarrow> u32 \<Rightarrow> BackingImage \<Rightarrow> ImageCache \<Rightarrow> fd_table \<Rightarrow> BackingImage option \<times> ImageCache" where
  "import_memory env imported width height img ic t =
     (case retain_image t ic (io_fd (is_objects imported ! 0)) (bi_format img) width height of
        (None, ic) \<Rightarrow> (import_foreign env (is_legacyPrime imported) img, ic)
      | (Some i, ic) \<Rightarrow>
          let img = legacy_modifier imported (ic_image ic i) img
          in if \<not> backingImageMatchesImportedLayout (fstat t) (Some (ic_image ic i)) (Some img)
             then (import_foreign env (is_legacyPrime imported) img,
                   upd_image i (\<lambda>m. m\<lparr>bi_borrowCount := bi_borrowCount m - 1\<rparr>) ic)
             else (Some (borrow_image i ic img), ic))"

definition new_import :: "ImportedSurface \<Rightarrow> u32 \<Rightarrow> u32 \<Rightarrow> BackingImage" where
  "new_import imported width height =
     empty_image\<lparr>bi_isExternalBuffer := True, bi_format := nvFormatFromSurfaceFourcc (is_pixelFormat imported),
       bi_width := width, bi_height := height, bi_fourcc := is_pixelFormat imported,
       bi_numObjects := is_numObjects imported, bi_numPlanes := is_numPlanes imported,
       bi_isSingleBuffer := (is_numObjects imported = 1)\<rparr>"

definition createImportedBackingImageImpl ::
    "import_env \<Rightarrow> ImportedSurface \<Rightarrow> u32 \<Rightarrow> u32 \<Rightarrow> ImageCache \<Rightarrow> fd_table \<Rightarrow> BackingImage option \<times> ImageCache \<times> fd_table" where
  "createImportedBackingImageImpl env imported width height ic t =
     (if nvFormatFromSurfaceFourcc (is_pixelFormat imported) = NV_FORMAT_NONE \<or> is_numPlanes imported = 0 \<or>
         is_numObjects imported = 0 \<or> io_fd (is_objects imported ! 0) < 0
      then (None, ic, t)
      else case import_objects env imported 0 (unat (is_numObjects imported)) (new_import imported width height) t of
             (False, img, t) \<Rightarrow> (None, ic, close_image img t)
           | (True, img, t) \<Rightarrow>
               (case import_planes imported 0 (unat (is_numPlanes imported)) img of
                  (False, img) \<Rightarrow> (None, ic, close_image img t)
                | (True, img) \<Rightarrow>
                    if \<not> validateImportedLayout img then (None, ic, close_image img t)
                    else case import_memory env imported width height img ic t of
                           (None, ic) \<Rightarrow> (None, ic, close_image img t)
                         | (Some img, ic) \<Rightarrow> (Some img, ic, t)))"

end
