(* ===== verification/ImageAlloc.thy ===== *)
theory ImageAlloc
  imports ImageImport
begin

text \<open>
  The allocation of an image in video memory by the direct backend (\<open>direct_allocateBackingImage_perPlane\<close>,
  \<open>direct_allocateBackingImage_single\<close>, \<open>direct_allocateBackingImageImpl\<close> of
  \<open>src/direct/direct-export-buf.c\<close>): the layout of \<open>GpuLayout\<close> becomes the fields of a \<open>BackingImage\<close>.

  \<open>alloc_env\<close> has the answers from outside. \<open>ae_buffer t n i\<close> is the DMA-BUF of \<open>n\<close> bytes that the kernel driver gives for plane
  \<open>i\<close> when \<open>t\<close> are the open descriptors; the two descriptors that are only passed on to CUDA are closed or owned by CUDA on
  every path and left out. \<open>ae_import\<close> and \<open>ae_array\<close> are CUDA's import of the memory and its array for a plane; when the
  clearing of the new image fails and \<open>ae_unsafe\<close> says that CUDA may still write to it, \<open>destroyBackingImage\<close> keeps it.
\<close>

datatype NVDExportLayout =
  NVD_EXPORT_LAYOUT_PER_PLANE_NATURAL | NVD_EXPORT_LAYOUT_PER_PLANE_SHARED_MODIFIER | NVD_EXPORT_LAYOUT_PACKED

record alloc_env =
  ae_modifier :: "nat \<Rightarrow> u64"
  ae_calloc :: bool
  ae_buffer :: "fd_table \<Rightarrow> u32 \<Rightarrow> nat \<Rightarrow> (int \<times> open_file) option"
  ae_import :: "nat \<Rightarrow> bool"
  ae_array :: "nat \<Rightarrow> u64 option"
  ae_clear :: "BackingImage \<Rightarrow> bool"
  ae_unsafe :: bool

abbreviation surface_P016 :: int where "surface_P016 \<equiv> 1"
abbreviation surface_YUV444 :: int where "surface_YUV444 \<equiv> 2"
abbreviation surface_YUV444_16Bit :: int where "surface_YUV444_16Bit \<equiv> 3"

text \<open>\<open>format\<close> is the \<open>cudaVideoSurfaceFormat\<close> of the surface.\<close>

definition nvFormatForSurface :: "u32 \<Rightarrow> int \<Rightarrow> int \<Rightarrow> NVFormat" where
  "nvFormatForSurface fourcc format bitDepth =
     (if isRgbFourcc fourcc then NV_FORMAT_ARGB
      else if format = surface_P016 then
        (if bitDepth = 10 then NV_FORMAT_P010 else if bitDepth = 12 then NV_FORMAT_P012 else NV_FORMAT_P016)
      else if format = surface_YUV444_16Bit then NV_FORMAT_Q416
      else if format = surface_YUV444 then NV_FORMAT_444P
      else NV_FORMAT_NV12)"

definition format_planes :: "NVFormat \<Rightarrow> NVFormatPlane list" where
  "format_planes f = take (unat (fi_numPlanes (formatsInfo f))) (fi_plane (formatsInfo f))"

text \<open>\<open>alloc_buffer\<close>: the descriptor and the size of the allocation.\<close>

definition alloc_buffer ::
    "alloc_env \<Rightarrow> u32 \<Rightarrow> nat \<Rightarrow> fd_table \<Rightarrow> (int \<times> u32 \<times> fd_table) option" where
  "alloc_buffer env totalSize i t =
     (if totalSize = 0 then None
      else case allocation_size totalSize of
             None \<Rightarrow> None
           | Some n \<Rightarrow>
               (case ae_buffer env t n i of
                  None \<Rightarrow> None
                | Some (fd, f) \<Rightarrow> Some (fd, n, t(fd \<mapsto> f))))"

section \<open>One object for each plane\<close>

fun plane_objects ::
    "alloc_env \<Rightarrow> NVDriverImage list \<Rightarrow> nat \<Rightarrow> nat \<Rightarrow> BackingImage \<Rightarrow> fd_table \<Rightarrow> bool \<times> BackingImage \<times> fd_table" where
  "plane_objects env images i 0 img t = (True, img, t)"
| "plane_objects env images i (Suc n) img t =
     (let im = images ! i
      in case alloc_buffer env (di_memorySize im) i t of
           None \<Rightarrow> (False, img, t)
         | Some (fd, allocationSize, t') \<Rightarrow>
             if \<not> ae_import env i then (False, img, close_fd fd t')
             else
               let img = cacheBackingImageFdStat t' i (img\<lparr>bi_fds := (bi_fds img)[i := fd]\<rparr>)
               in case ae_array env i of
                    None \<Rightarrow> (False, img, t')
                  | Some a \<Rightarrow>
                      plane_objects env images (Suc i) n
                        (img\<lparr>bi_arrays := (bi_arrays img)[i := a],
                             bi_strides := (bi_strides img)[i := sint (di_pitch im)],
                             bi_mods := (bi_mods img)[i := di_mods im],
                             bi_offsets := (bi_offsets img)[i := 0],
                             bi_size := (bi_size img)[i := allocationSize],
                             bi_objectSize := (bi_objectSize img)[i := u32_to_u64 allocationSize],
                             bi_planeObjectIndex := (bi_planeObjectIndex img)[i := of_nat i]\<rparr>) t')"

definition direct_allocateBackingImage_perPlane ::
    "alloc_env \<Rightarrow> NVFormat \<Rightarrow> u32 \<Rightarrow> u32 \<Rightarrow> bool \<Rightarrow> fd_table \<Rightarrow> BackingImage option \<times> fd_table" where
  "direct_allocateBackingImage_perPlane env format width height sharedModifier t =
     (if \<not> ae_calloc env then (None, t)
      else
        let info = formatsInfo format;
            img = empty_image\<lparr>bi_isSingleBuffer := False, bi_format := format\<rparr>
        in case calculate_unified_image_layout (ae_modifier env) width height (fi_bppc info) (format_planes format) sharedModifier of
             None \<Rightarrow> (None, close_image img t)
           | Some (images, layoutSize) \<Rightarrow>
               (case plane_objects env images 0 (unat (fi_numPlanes info))
                       (img\<lparr>bi_numObjects := fi_numPlanes info, bi_numPlanes := fi_numPlanes info\<rparr>) t of
                  (False, img, t) \<Rightarrow> (None, close_image img t)
                | (True, img, t) \<Rightarrow>
                    let img = img\<lparr>bi_width := width, bi_height := height, bi_fourcc := fi_fourcc info\<rparr>
                    in if \<not> ae_clear env img then (None, if ae_unsafe env then t else close_image img t) else (Some img, t)))"

section \<open>One object for all planes\<close>

fun plane_arrays :: "alloc_env \<Rightarrow> nat \<Rightarrow> nat \<Rightarrow> BackingImage \<Rightarrow> bool \<times> BackingImage" where
  "plane_arrays env i 0 img = (True, img)"
| "plane_arrays env i (Suc n) img =
     (case ae_array env i of
        None \<Rightarrow> (False, img)
      | Some a \<Rightarrow> plane_arrays env (Suc i) n (img\<lparr>bi_arrays := (bi_arrays img)[i := a]\<rparr>))"

definition set_planes :: "NVDriverImage list \<Rightarrow> BackingImage \<Rightarrow> BackingImage" where
  "set_planes images img =
     img\<lparr>bi_strides := map (\<lambda>im. sint (di_pitch im)) images @ drop (length images) (bi_strides img),
         bi_mods := map di_mods images @ drop (length images) (bi_mods img),
         bi_offsets := map (\<lambda>im. sint (di_offset im)) images @ drop (length images) (bi_offsets img),
         bi_size := map di_memorySize images @ drop (length images) (bi_size img)\<rparr>"

definition direct_allocateBackingImage_single ::
    "alloc_env \<Rightarrow> NVFormat \<Rightarrow> u32 \<Rightarrow> u32 \<Rightarrow> fd_table \<Rightarrow> BackingImage option \<times> fd_table" where
  "direct_allocateBackingImage_single env format width height t =
     (if \<not> ae_calloc env then (None, t)
      else
        let info = formatsInfo format;
            img = empty_image\<lparr>bi_isSingleBuffer := True, bi_format := format\<rparr>
        in case calculate_unified_image_layout (ae_modifier env) width height (fi_bppc info) (format_planes format) True of
             None \<Rightarrow> (None, close_image img t)
           | Some (images, layoutSize) \<Rightarrow>
               let img = img\<lparr>bi_totalSize := u32_to_u64 layoutSize, bi_numObjects := 1, bi_numPlanes := fi_numPlanes info\<rparr>
               in case alloc_buffer env layoutSize 0 t of
                    None \<Rightarrow> (None, close_image img t)
                  | Some (drmFd, allocationSize, t) \<Rightarrow>
                      if \<not> ae_import env 0 then (None, close_image img (close_fd drmFd t))
                      else case plane_arrays env 0 (unat (fi_numPlanes info)) img of
                             (False, img) \<Rightarrow> (None, close_image img (close_fd drmFd t))
                           | (True, img) \<Rightarrow>
                               let img = img\<lparr>bi_width := width, bi_height := height, bi_fourcc := fi_fourcc info,
                                     bi_totalSize := u32_to_u64 allocationSize,
                                     bi_objectSize := (bi_objectSize img)[0 := u32_to_u64 allocationSize],
                                     bi_fds := (bi_fds img)[0 := drmFd]\<rparr>;
                                   img = set_planes images (cacheBackingImageFdStat t 0 img)
                               in if \<not> ae_clear env img then (None, if ae_unsafe env then t else close_image img t) else (Some img, t))"

section \<open>RGB images and the choice\<close>

text \<open>The memory of the planes; the second list are the images with the descriptors and sizes that were allocated.\<close>

fun rgb_buffers ::
    "alloc_env \<Rightarrow> u32 \<Rightarrow> u32 \<Rightarrow> u32 \<Rightarrow> nat \<Rightarrow> NVFormatPlane list \<Rightarrow> (NVDriverImage \<times> int \<times> u32) list \<Rightarrow> fd_table \<Rightarrow>
     bool \<times> (NVDriverImage \<times> int \<times> u32) list \<times> fd_table" where
  "rgb_buffers env width height bppc i [] bufs t = (True, bufs, t)"
| "rgb_buffers env width height bppc i (p # ps) bufs t =
     (case alloc_image (ae_modifier env) (nvPlaneExtent width (fp_ss_x p)) (nvPlaneExtent height (fp_ss_y p))
             (ucast (fp_channelCount p)) (ucast (8 * bppc)) (fp_fourcc p) of
        None \<Rightarrow> (False, bufs, t)
      | Some (im, allocationSize) \<Rightarrow>
          (case ae_buffer env t allocationSize i of
             None \<Rightarrow> (False, bufs, t)
           | Some (fd, f) \<Rightarrow>
               rgb_buffers env width height bppc (Suc i) ps (bufs @ [(im, fd, allocationSize)]) (t(fd \<mapsto> f))))"

fun rgb_planes :: "(NVDriverImage \<times> int \<times> u32) list \<Rightarrow> nat \<Rightarrow> fd_table \<Rightarrow> BackingImage \<Rightarrow> BackingImage" where
  "rgb_planes [] i t img = img"
| "rgb_planes ((im, fd, allocationSize) # bufs) i t img =
     rgb_planes bufs (Suc i) t
       ((cacheBackingImageFdStat t i
           (img\<lparr>bi_fds := (bi_fds img)[i := fd],
                bi_planeObjectIndex := (bi_planeObjectIndex img)[i := of_nat i]\<rparr>))
         \<lparr>bi_strides := (bi_strides img)[i := sint (di_pitch im)],
          bi_mods := (bi_mods img)[i := di_mods im],
          bi_size := (bi_size img)[i := allocationSize],
          bi_objectSize := (bi_objectSize img)[i := u32_to_u64 allocationSize]\<rparr>)"

definition close_buffers :: "(NVDriverImage \<times> int \<times> u32) list \<Rightarrow> fd_table \<Rightarrow> fd_table" where
  "close_buffers bufs t = fold (\<lambda>(im, fd, n). close_fd fd) bufs t"

definition direct_allocateBackingImage_rgb ::
    "alloc_env \<Rightarrow> u32 \<Rightarrow> NVFormat \<Rightarrow> u32 \<Rightarrow> u32 \<Rightarrow> fd_table \<Rightarrow> BackingImage option \<times> fd_table" where
  "direct_allocateBackingImage_rgb env fourcc format width height t =
     (if \<not> ae_calloc env then (None, t)
      else
        let info = formatsInfo format; n = fi_numPlanes info;
            img = empty_image\<lparr>bi_format := format, bi_fourcc := fourcc, bi_numObjects := n, bi_numPlanes := n\<rparr>
        in case rgb_buffers env width height (fi_bppc info) 0 (format_planes format) [] t of
             (False, bufs, t) \<Rightarrow> (None, close_image img (close_buffers bufs t))
           | (True, bufs, t) \<Rightarrow>
               if \<not> list_all (ae_import env) [0..<unat n] then (None, close_image img (close_buffers bufs t))
               else case plane_arrays env 0 (unat n) img of
                      (False, img) \<Rightarrow> (None, close_image img (close_buffers bufs t))
                    | (True, img) \<Rightarrow> (Some (rgb_planes bufs 0 t (img\<lparr>bi_width := width, bi_height := height\<rparr>)), t))"

definition direct_allocateBackingImageImpl ::
    "alloc_env \<Rightarrow> bool \<Rightarrow> NVDExportLayout \<Rightarrow> u32 \<Rightarrow> int \<Rightarrow> int \<Rightarrow> u32 \<Rightarrow> u32 \<Rightarrow> fd_table \<Rightarrow> BackingImage option \<times> fd_table" where
  "direct_allocateBackingImageImpl env cudaWorkUnsafe layout fourcc surfaceFormat bitDepth width height t =
     (if cudaWorkUnsafe then (None, t)
      else
        let format = nvFormatForSurface fourcc surfaceFormat bitDepth
        in if \<not> isRgbFourcc fourcc then
             (if layout = NVD_EXPORT_LAYOUT_PACKED then direct_allocateBackingImage_single env format width height t
              else direct_allocateBackingImage_perPlane env format width height
                     (layout = NVD_EXPORT_LAYOUT_PER_PLANE_SHARED_MODIFIER) t)
           else direct_allocateBackingImage_rgb env fourcc format width height t)"

end
