(* ===== verification/ImageAllocProps.thy ===== *)
theory ImageAllocProps
  imports ImageAlloc ImageImportProps
begin

text \<open>
  An allocation is all or nothing, and the planes of an image that it gives lie in the memory that was allocated for it.
\<close>

section \<open>Sizes\<close>

lemma page_align: "unat (x AND NOT 65535 :: u64) = unat x div 65536 * 65536"
proof -
  have "x AND NOT 65535 = push_bit 16 (drop_bit 16 x)"
  proof (rule bit_eqI)
    fix n assume "possible_bit TYPE(u64) n"
    then have n: "n < 64" by simp
    have m: "(65535 :: u64) = mask 16" by (simp add: mask_eq_exp_minus_1)
    show "bit (x AND NOT 65535) n = bit (push_bit 16 (drop_bit 16 x)) n"
      unfolding m using n by (auto simp: bit_simps)
  qed
  also have "\<dots> = x div 65536 * 65536" by (simp add: push_bit_eq_mult drop_bit_eq_div)
  finally have e: "x AND NOT 65535 = x div 65536 * 65536" .
  have d: "unat (x div 65536) = unat x div 65536" by (simp add: unat_div_distrib)
  have "unat x div 65536 * 65536 < 2 ^ 64" 
    by (rule le_less_trans [OF div_times_less_eq_dividend]) (use unat_u64_less [of x] in simp)
  then show ?thesis unfolding e using d by (simp add: unat_mult_lem [THEN iffD1])
qed

lemma allocation_size_bounds:
  assumes "allocation_size n = Some m"
  shows "unat n \<le> unat m" "unat m mod 65536 = 0"
proof -
  let ?x = "(u32_to_u64 n + 65535) AND NOT 65535"
  have c: "\<not> ?x > u32_to_u64 UINT32_MAX" "m = u64_to_u32 ?x"
    using assms by (auto simp: allocation_size_def Let_def split: if_splits)
  have "unat (u32_to_u64 n + 65535) = unat n + 65535"
    using unat_u32_less [of n] by (subst unat_add_no_overflow) simp_all
  then have x: "unat ?x = (unat n + 65535) div 65536 * 65536" by (simp only: page_align)
  have "unat ?x \<le> 4294967295" using c(1) by (simp add: word_less_nat_alt not_less)
  then have "unat m = unat ?x" unfolding c(2) by (rule unat_le_imp_u64_to_u32)
  then show "unat n \<le> unat m" "unat m mod 65536 = 0" unfolding x by simp_all
qed

section \<open>Descriptors of a failed allocation\<close>

definition buffers_new :: "alloc_env \<Rightarrow> bool" where
  "buffers_new env \<longleftrightarrow> (\<forall>t n i fd f. ae_buffer env t n i = Some (fd, f) \<longrightarrow> 0 \<le> fd \<and> t fd = None)"

lemma alloc_buffer_new:
  assumes "buffers_new env" "alloc_buffer env bytes i t = Some (fd, n, t')"
  obtains f where "0 \<le> fd" "t fd = None" "t' = t(fd \<mapsto> f)" "allocation_size bytes = Some n"
proof -
  obtain f where f: "ae_buffer env t n i = Some (fd, f)" "t' = t(fd \<mapsto> f)" "allocation_size bytes = Some n"
    using assms(2) by (auto simp: alloc_buffer_def split: if_splits option.splits)
  then have "0 \<le> fd" "t fd = None" using assms(1) unfolding buffers_new_def by blast+
  then show ?thesis using that f by blast
qed

lemma plane_objects_close:
  assumes src: "buffers_new env"
  shows "plane_objects env images i n img t = (b, img', t') \<Longrightarrow> length (bi_fds img) = 4 \<Longrightarrow> i + n \<le> 4 \<Longrightarrow>
    (\<forall>k. i \<le> k \<and> k < 4 \<longrightarrow> bi_fds img ! k < 0) \<Longrightarrow>
    close_image img' t' = close_image img t \<and> length (bi_fds img') = 4"
proof (induction n arbitrary: i img t)
  case (Suc n)
  have i: "i < 4" "bi_fds img ! i < 0" using Suc.prems(3,4) by simp_all
  show ?case
  proof (cases "alloc_buffer env (di_memorySize (images ! i)) i t")
    case None
    then show ?thesis using Suc.prems(1,2) by (simp add: Let_def)
  next
    case (Some r)
    obtain fd m t1 where r: "r = (fd, m, t1)" by (cases r)
    obtain f where new: "0 \<le> fd" "t fd = None" "t1 = t(fd \<mapsto> f)" by (rule alloc_buffer_new [OF src Some [unfolded r]])
    let ?img1 = "cacheBackingImageFdStat t1 i (img\<lparr>bi_fds := (bi_fds img)[i := fd]\<rparr>)"
    have c: "close_image img1 t1 = close_image img t" if "bi_fds img1 = (bi_fds img)[i := fd]" for img1 :: BackingImage
      unfolding new(3) by (rule close_after_new [where i = i]; use Suc.prems(2) i new that in simp)
    show ?thesis
    proof (cases "ae_import env i")
      case False
      have "close_fd fd t1 = t" using new by (auto simp: close_fd_def)
      then show ?thesis using Suc.prems(1,2) Some r False by (simp add: Let_def)
    next
      case imp: True
      show ?thesis
      proof (cases "ae_array env i")
        case None
        then show ?thesis using Suc.prems(1,2) Some r imp c [of ?img1] by (auto simp: Let_def)
      next
        case arr: (Some a)
        let ?img2 = "?img1\<lparr>bi_arrays := (bi_arrays ?img1)[i := a], bi_strides := (bi_strides ?img1)[i := sint (di_pitch (images ! i))],
          bi_mods := (bi_mods ?img1)[i := di_mods (images ! i)], bi_offsets := (bi_offsets ?img1)[i := 0],
          bi_size := (bi_size ?img1)[i := m], bi_objectSize := (bi_objectSize ?img1)[i := u32_to_u64 m],
          bi_planeObjectIndex := (bi_planeObjectIndex ?img1)[i := of_nat i]\<rparr>"
        have "plane_objects env images (Suc i) n ?img2 t1 = (b, img', t')"
          using Suc.prems(1) Some r imp arr by (simp add: Let_def)
        from Suc.IH [OF this] show ?thesis using Suc.prems(2-4) c [of ?img2] by simp
      qed
    qed
  qed
qed simp

lemma close_new_single:
  assumes "length (bi_fds img) = 4" "\<forall>k < 4. bi_fds img ! k < 0"
  shows "close_image img t = t"
proof -
  have "x < 0" if "x \<in> set (bi_fds img)" for x
    using that assms by (metis in_set_conv_nth)
  then show ?thesis by (force simp: close_image_table [OF assms(1)] fun_eq_iff)
qed

lemma empty_image_fds: "length (bi_fds empty_image) = 4" "\<forall>k < 4. bi_fds empty_image ! k < 0" "bi_isExternalBuffer empty_image = False"
  by (simp_all add: empty_image_def)

text \<open>What a call may leave behind: nothing when it fails, the descriptors of the image when it succeeds.\<close>

definition all_or_nothing :: "bool \<Rightarrow> fd_table \<Rightarrow> BackingImage option \<times> fd_table \<Rightarrow> bool" where
  "all_or_nothing unsafe t r \<longleftrightarrow>
     (case r of (None, t') \<Rightarrow> unsafe \<or> t' = t | (Some img, t') \<Rightarrow> close_image img t' = t)"

lemma perPlane_all_or_nothing:
  assumes src: "buffers_new env" and n: "unat (fi_numPlanes (formatsInfo format)) \<le> 4"
  shows "all_or_nothing (ae_unsafe env) t (direct_allocateBackingImage_perPlane env format width height shared t)"
proof (cases "ae_calloc env")
  case calloc: True
  let ?img = "empty_image\<lparr>bi_isSingleBuffer := False, bi_format := format\<rparr>"
  show ?thesis
  proof (cases "calculate_unified_image_layout (ae_modifier env) width height (fi_bppc (formatsInfo format)) (format_planes format) shared")
    case None
    then show ?thesis using calloc close_new_single [of ?img] empty_image_fds
      by (simp add: direct_allocateBackingImage_perPlane_def all_or_nothing_def Let_def)
  next
    case (Some lay)
    obtain images bytes where lay: "lay = (images, bytes)" by force
    let ?img1 = "?img\<lparr>bi_numObjects := fi_numPlanes (formatsInfo format), bi_numPlanes := fi_numPlanes (formatsInfo format)\<rparr>"
    obtain b img2 t2 where p: "plane_objects env images 0 (unat (fi_numPlanes (formatsInfo format))) ?img1 t = (b, img2, t2)"
      by (metis prod_cases3)
    have "close_image img2 t2 = close_image ?img1 t"
      using plane_objects_close [OF src p] n empty_image_fds by simp
    also have "\<dots> = t" using close_new_single [of ?img1] empty_image_fds by simp
    finally have c: "close_image img' t2 = t" if "bi_fds img' = bi_fds img2" for img'
      using close_image_cong [OF that] by simp
    show ?thesis
      using calloc Some lay p c [of img2] c [of "img2\<lparr>bi_width := width, bi_height := height, bi_fourcc := fi_fourcc (formatsInfo format)\<rparr>"]
      by (cases b) (simp_all add: direct_allocateBackingImage_perPlane_def all_or_nothing_def Let_def)
  qed
qed (simp add: direct_allocateBackingImage_perPlane_def all_or_nothing_def)

lemma plane_arrays_fields:
  "plane_arrays env i n img = (b, img') \<Longrightarrow> bi_fds img' = bi_fds img \<and> bi_format img' = bi_format img \<and>
     bi_numObjects img' = bi_numObjects img \<and> bi_numPlanes img' = bi_numPlanes img \<and> bi_objectSize img' = bi_objectSize img \<and>
     bi_offsets img' = bi_offsets img \<and> bi_strides img' = bi_strides img \<and> bi_planeObjectIndex img' = bi_planeObjectIndex img \<and>
     bi_isExternalBuffer img' = bi_isExternalBuffer img"
proof (induction n arbitrary: i img)
  case (Suc n)
  then show ?case by (auto split: option.splits dest!: Suc.IH)
qed simp

lemma single_all_or_nothing:
  assumes src: "buffers_new env"
  shows "all_or_nothing (ae_unsafe env) t (direct_allocateBackingImage_single env format width height t)"
proof (cases "ae_calloc env")
  case calloc: True
  let ?img = "empty_image\<lparr>bi_isSingleBuffer := True, bi_format := format\<rparr>"
  show ?thesis
  proof (cases "calculate_unified_image_layout (ae_modifier env) width height (fi_bppc (formatsInfo format)) (format_planes format) True")
    case None
    then show ?thesis using calloc close_new_single [of ?img] empty_image_fds
      by (simp add: direct_allocateBackingImage_single_def all_or_nothing_def Let_def)
  next
    case (Some lay)
    obtain images bytes where lay: "lay = (images, bytes)" by force
    let ?img1 = "?img\<lparr>bi_totalSize := u32_to_u64 bytes, bi_numObjects := 1, bi_numPlanes := fi_numPlanes (formatsInfo format)\<rparr>"
    have z: "close_image img' t' = t'" if "bi_fds img' = bi_fds empty_image" for img' t'
      using close_new_single [of img'] empty_image_fds that by simp
    show ?thesis
    proof (cases "alloc_buffer env bytes 0 t")
      case None
      then show ?thesis using calloc Some lay z [of ?img1]
        by (simp add: direct_allocateBackingImage_single_def all_or_nothing_def Let_def)
    next
      case buf: (Some r)
      obtain fd m t1 where r: "r = (fd, m, t1)" by (cases r)
      obtain f where new: "0 \<le> fd" "t fd = None" "t1 = t(fd \<mapsto> f)" by (rule alloc_buffer_new [OF src buf [unfolded r]])
      have shut: "close_fd fd t1 = t" using new by (auto simp: close_fd_def)
      obtain b img2 where a: "plane_arrays env 0 (unat (fi_numPlanes (formatsInfo format))) ?img1 = (b, img2)" by force
      have fds: "bi_fds img2 = bi_fds empty_image" using plane_arrays_fields [OF a] by simp
      have c: "close_image img3 t1 = t" if "bi_fds img3 = (bi_fds img2)[0 := fd]" for img3 :: BackingImage
      proof -
        have "close_image img3 t1 = close_image img2 t"
          unfolding new(3) by (rule close_after_new [where i = 0]; use empty_image_fds fds new that in simp)
        then show ?thesis using z [OF fds] by simp
      qed
      show ?thesis
        using calloc Some lay buf r a shut z [of ?img1] z [OF fds]
        by (cases b) (simp_all add: direct_allocateBackingImage_single_def all_or_nothing_def Let_def set_planes_def c)
    qed
  qed
qed (simp add: direct_allocateBackingImage_single_def all_or_nothing_def)

lemma rgb_all_or_nothing:
  assumes src: "buffers_new env"
  shows "all_or_nothing (ae_unsafe env) t (direct_allocateBackingImage_rgb env fourcc NV_FORMAT_ARGB width height t)"
proof (cases "ae_calloc env")
  case calloc: True
  let ?img = "empty_image\<lparr>bi_format := NV_FORMAT_ARGB, bi_fourcc := fourcc, bi_numObjects := 1, bi_numPlanes := 1\<rparr>"
  have z: "close_image img' t' = t'" if "bi_fds img' = bi_fds empty_image" for img' t'
    using close_new_single [of img'] empty_image_fds that by simp
  have one: "format_planes NV_FORMAT_ARGB = [plane1 4 DRM_FORMAT_ARGB8888 0 0]" "fi_numPlanes (formatsInfo NV_FORMAT_ARGB) = 1"
    "fi_bppc (formatsInfo NV_FORMAT_ARGB) = 1"
    by (simp_all add: format_planes_def formatsInfo_def)
  let ?alloc = "alloc_image (ae_modifier env) (nvPlaneExtent width 0) (nvPlaneExtent height 0) 4 8 DRM_FORMAT_ARGB8888"
  show ?thesis
  proof (cases "\<exists>im n fd f. ?alloc = Some (im, n) \<and> ae_buffer env t n 0 = Some (fd, f)")
    case False
    then have "rgb_buffers env width height 1 0 [plane1 4 DRM_FORMAT_ARGB8888 0 0] [] t = (False, [], t)"
      by (auto simp: plane1_def split: option.splits)
    then show ?thesis using calloc z [of ?img]
      by (simp add: direct_allocateBackingImage_rgb_def all_or_nothing_def Let_def one close_buffers_def del: rgb_buffers.simps)
  next
    case True
    then obtain im n fd f where b: "?alloc = Some (im, n)" "ae_buffer env t n 0 = Some (fd, f)" by blast
    let ?t1 = "t(fd \<mapsto> f)"
    have new: "0 \<le> fd" "t fd = None" using src b(2) unfolding buffers_new_def by blast+
    have r: "rgb_buffers env width height 1 0 [plane1 4 DRM_FORMAT_ARGB8888 0 0] [] t = (True, [(im, fd, n)], ?t1)"
      using b by (simp add: plane1_def)
    have shut: "close_fd fd ?t1 = t" using new by (auto simp: close_fd_def)
    obtain ok img2 where a: "plane_arrays env 0 1 ?img = (ok, img2)" by force
    have fds: "bi_fds img2 = bi_fds empty_image" using plane_arrays_fields [OF a] by simp
    have c: "close_image img3 ?t1 = t" if "bi_fds img3 = (bi_fds img2)[0 := fd]" for img3 :: BackingImage
    proof -
      have "close_image img3 ?t1 = close_image img2 t"
        by (rule close_after_new [where i = 0]; use empty_image_fds fds new that in simp)
      then show ?thesis using z [OF fds] by simp
    qed
    show ?thesis
      using calloc r a shut z [of ?img] z [OF fds]
      by (cases ok) (simp_all add: direct_allocateBackingImage_rgb_def all_or_nothing_def Let_def one close_buffers_def c del: rgb_buffers.simps)
  qed
qed (simp add: direct_allocateBackingImage_rgb_def all_or_nothing_def)


section \<open>The planes lie in the allocated memory\<close>

lemma plane_ok_nat:
  assumes np: "i < unat (fi_numPlanes (formatsInfo (bi_format img)))"
    and ob: "bi_planeObjectIndex img ! i < bi_numObjects img"
    and off: "0 \<le> bi_offsets img ! i" "bi_offsets img ! i < 2 ^ 31" and st: "0 < bi_strides img ! i" "bi_strides img ! i < 2 ^ 31"
    and row: "unat (plane_row_bytes (bi_format img) (bi_width img) i) \<le> nat (bi_strides img ! i)"
    and rows: "0 < unat (plane_rows (bi_format img) (bi_height img) i)"
    and fit: "nat (bi_offsets img ! i) + unat (plane_rows (bi_format img) (bi_height img) i) * nat (bi_strides img ! i) \<le>
      unat (bi_objectSize img ! unat (bi_planeObjectIndex img ! i))"
  shows "imported_plane_ok img i"
proof -
  define o' where "o' = (word_of_int (bi_offsets img ! i) :: u64)"
  define s where "s = (word_of_int (bi_strides img ! i) :: u64)"
  define rb where "rb = plane_row_bytes (bi_format img) (bi_width img) i"
  define rw where "rw = plane_rows (bi_format img) (bi_height img) i"
  define z where "z = bi_objectSize img ! unat (bi_planeObjectIndex img ! i)"
  have o': "unat o' = nat (bi_offsets img ! i)" unfolding o'_def using off by (intro unat_of_c_int) simp_all
  have s: "unat s = nat (bi_strides img ! i)" "0 < unat s" unfolding s_def using st by (subst unat_of_c_int; simp)+
  have r: "unat rb \<le> unat s" "0 < unat rw" "unat o' + unat rw * unat s \<le> unat z"
    using row rows fit unfolding o' s(1) rb_def rw_def z_def by simp_all
  obtain l where l: "unat rw = Suc l" using r(2) by (cases "unat rw") auto
  have "1 \<le> rw" using r(2) by (simp add: word_le_nat_alt)
  then have rw1: "unat (rw - 1) = l" using l by (simp add: unat_sub)
  have fits: "unat o' + l * unat s + unat rb \<le> unat z" using r l by simp
  note z64 = unat_u64_less [of z]
  have a1: "unat (UINT64_MAX - o') = 2 ^ 64 - 1 - unat o'"
    using unat_u64_less [of o'] by (subst unat_sub_le) (simp_all add: word_le_nat_alt)
  have "unat rb \<le> 2 ^ 64 - 1 - unat o'" using fits z64 by simp
  then have a2: "unat (UINT64_MAX - o' - rb) = 2 ^ 64 - 1 - unat o' - unat rb"
    using a1 by (subst unat_sub_le) (simp_all add: word_le_nat_alt)
  have "l \<le> (2 ^ 64 - 1 - unat o' - unat rb) div unat s"
    using fits z64 s(2) by (simp add: less_eq_div_iff_mult_less_eq)
  then have le: "\<not> rw - 1 > (UINT64_MAX - o' - rb) div s"
    by (simp add: word_less_nat_alt not_less unat_div_distrib a2 rw1)
  have m: "unat ((rw - 1) * s) = l * unat s" using fits z64 rw1 by (subst unat_mult_lem [THEN iffD1]) simp_all
  have a: "unat (o' + (rw - 1) * s) = unat o' + l * unat s" using m fits z64 by (subst unat_add_no_overflow) simp_all
  have b: "unat (o' + (rw - 1) * s + rb) = unat o' + l * unat s + unat rb" using a fits z64 by (subst unat_add_no_overflow) simp_all
  have in_z: "\<not> o' + (rw - 1) * s + rb > z" using b fits by (simp add: word_less_nat_alt not_less)
  have "0 < unat z" using fits r(3) l s(2) by simp
  then have nz: "z \<noteq> 0" by auto
  have "\<not> s < rb" using r(1) by (simp add: word_less_nat_alt not_less)
  moreover have "rw \<noteq> 0" using r(2) by auto
  ultimately show ?thesis
    using ob st(1) nz le in_z unfolding imported_plane_ok_def Let_def
    by (simp add: o'_def [symmetric] s_def [symmetric] rb_def [symmetric] rw_def [symmetric] z_def [symmetric] not_le)
qed

definition plane_of :: "NVDriverImage list \<Rightarrow> BackingImage \<Rightarrow> nat \<Rightarrow> bool" where
  "plane_of images img k \<longleftrightarrow>
     bi_planeObjectIndex img ! k = of_nat k \<and> bi_offsets img ! k = 0 \<and> bi_strides img ! k = sint (di_pitch (images ! k)) \<and>
     (\<exists>m. allocation_size (di_memorySize (images ! k)) = Some m \<and> bi_objectSize img ! k = u32_to_u64 m)"

lemma plane_objects_forward:
  assumes src: "buffers_new env"
  shows "plane_objects env images i n img t = (True, img', t') \<Longrightarrow> i + n \<le> 4 \<Longrightarrow>
    length (bi_planeObjectIndex img) = 4 \<and> length (bi_offsets img) = 4 \<and> length (bi_strides img) = 4 \<and> length (bi_objectSize img) = 4 \<Longrightarrow>
    (\<forall>k < i. plane_of images img k) \<Longrightarrow>
    (\<forall>k < i + n. plane_of images img' k) \<and> bi_format img' = bi_format img \<and> bi_numObjects img' = bi_numObjects img \<and>
      bi_numPlanes img' = bi_numPlanes img"
proof (induction n arbitrary: i img t)
  case (Suc n)
  obtain fd m t1 where a: "alloc_buffer env (di_memorySize (images ! i)) i t = Some (fd, m, t1)"
    using Suc.prems(1) by (auto simp: Let_def split: option.splits)
  have imp: "ae_import env i" using Suc.prems(1) a by (simp add: Let_def split: if_splits)
  obtain x where x: "ae_array env i = Some x" using Suc.prems(1) a imp by (auto simp: Let_def split: option.splits)
  have sz: "allocation_size (di_memorySize (images ! i)) = Some m" by (rule alloc_buffer_new [OF src a])
  let ?img1 = "cacheBackingImageFdStat t1 i (img\<lparr>bi_fds := (bi_fds img)[i := fd]\<rparr>)"
  let ?img2 = "?img1\<lparr>bi_arrays := (bi_arrays ?img1)[i := x], bi_strides := (bi_strides ?img1)[i := sint (di_pitch (images ! i))],
      bi_mods := (bi_mods ?img1)[i := di_mods (images ! i)], bi_offsets := (bi_offsets ?img1)[i := 0],
      bi_size := (bi_size ?img1)[i := m], bi_objectSize := (bi_objectSize ?img1)[i := u32_to_u64 m],
      bi_planeObjectIndex := (bi_planeObjectIndex ?img1)[i := of_nat i]\<rparr>"
  have r: "plane_objects env images (Suc i) n ?img2 t1 = (True, img', t')"
    using Suc.prems(1) a imp x by (simp add: Let_def)
  have i: "i < 4" using Suc.prems(2) by simp
  have "plane_of images ?img2 k" if "k < Suc i" for k
  proof (cases "k = i")
    case True
    then show ?thesis using i Suc.prems(3) sz by (simp add: plane_of_def)
  next
    case False
    then show ?thesis using Suc.prems(4) that i by (simp add: plane_of_def)
  qed
  then show ?case using Suc.IH [OF r] Suc.prems(2,3) by simp
qed simp

lemma extent_pos: "0 < unat v \<Longrightarrow> unat s \<le> 1 \<Longrightarrow> 0 < unat (nvPlaneExtent v s)"
  unfolding plane_extent_unat by (cases "unat s") auto

lemma sint_small: "unat (w :: u32) < 2 ^ 31 \<Longrightarrow> sint w = int (unat w)"
proof -
  assume "unat w < 2 ^ 31"
  then have "int (unat w) < int (2 ^ 31)" by (simp only: of_nat_less_iff)
  then have "uint w < 2 ^ 31" by simp
  then show ?thesis unfolding sint_uint
    by (subst signed_take_bit_int_eq_self) (simp_all add: order_trans [OF _ unsigned_greater_eq])
qed

lemma format_shape:
  assumes "i < unat (fi_numPlanes (formatsInfo f))"
  shows "0 < unat (fp_channelCount (fi_plane (formatsInfo f) ! i)) \<and> 0 < unat (fi_bppc (formatsInfo f)) \<and>
    unat (fp_ss_x (fi_plane (formatsInfo f) ! i)) \<le> 1 \<and> unat (fp_ss_y (fi_plane (formatsInfo f) ! i)) \<le> 1"
proof -
  have "unat (fi_numPlanes (formatsInfo f)) \<le> 3" by (cases f) (simp_all add: formatsInfo_def two_planes_def three_planes_def)
  then consider "i = 0" | "i = 1" | "i = 2" using assms by linarith
  then show ?thesis
    by cases (use assms in \<open>cases f; simp add: formatsInfo_def two_planes_def three_planes_def plane1_def\<close>)+
qed

text \<open>A plane of the layout, in an object that is not smaller than its memory.\<close>

lemma laid_out_plane_ok:
  assumes fits: "plane_fits modifier (bi_width img) (bi_height img) (fi_bppc (formatsInfo (bi_format img)))
      (fi_plane (formatsInfo (bi_format img)) ! i) k im"
    and np: "i < unat (fi_numPlanes (formatsInfo (bi_format img)))" and size: "0 < unat (bi_width img)" "0 < unat (bi_height img)"
    and ob: "bi_planeObjectIndex img ! i < bi_numObjects img"
    and at: "bi_strides img ! i = sint (di_pitch im)" "0 \<le> bi_offsets img ! i" "bi_offsets img ! i < 2 ^ 31"
    and mem: "nat (bi_offsets img ! i) + unat (di_memorySize im) \<le> unat (bi_objectSize img ! unat (bi_planeObjectIndex img ! i))"
  shows "imported_plane_ok img i"
proof -
  let ?p = "fi_plane (formatsInfo (bi_format img)) ! i"
  obtain aligned where f: "row_bytes (bi_width img) (fi_bppc (formatsInfo (bi_format img))) ?p \<le> unat (di_pitch im)"
    "unat (di_pitch im) < 2 ^ 31" "unat (di_memorySize im) = unat (di_pitch im) * aligned" "rows (bi_height img) ?p \<le> aligned"
    using fits by (auto simp: plane_fits_def)
  have p: "0 < unat (fp_channelCount ?p)" "0 < unat (fi_bppc (formatsInfo (bi_format img)))" "unat (fp_ss_x ?p) \<le> 1" "unat (fp_ss_y ?p) \<le> 1"
    using format_shape [OF np] by simp_all
  have s: "bi_strides img ! i = int (unat (di_pitch im))" using at(1) f(2) by (simp only: sint_small)
  have rb: "unat (plane_row_bytes (bi_format img) (bi_width img) i) = row_bytes (bi_width img) (fi_bppc (formatsInfo (bi_format img))) ?p"
    using plane_row_bytes_unat(1) [OF np, of "bi_width img"] by (simp add: ac_simps)
  have rw: "unat (plane_rows (bi_format img) (bi_height img) i) = rows (bi_height img) ?p" by (simp add: plane_rows_def)
  have "0 < row_bytes (bi_width img) (fi_bppc (formatsInfo (bi_format img))) ?p"
    using p(1,2) extent_pos [OF size(1) p(3)] by simp
  then have pos: "0 < bi_strides img ! i" using f(1) s by linarith
  show ?thesis
  proof (rule plane_ok_nat [OF np ob at(2,3) pos])
    have "int (unat (di_pitch im)) < int (2 ^ 31)" using f(2) by (simp only: of_nat_less_iff)
    then show "bi_strides img ! i < 2 ^ 31" unfolding s by simp
    show "unat (plane_row_bytes (bi_format img) (bi_width img) i) \<le> nat (bi_strides img ! i)" unfolding s rb using f(1) by simp
    show "0 < unat (plane_rows (bi_format img) (bi_height img) i)" unfolding rw by (rule extent_pos [OF size(2) p(4)])
    have "rows (bi_height img) ?p * unat (di_pitch im) \<le> unat (di_memorySize im)"
      unfolding f(3) using f(4) by (simp add: ac_simps)
    then show "nat (bi_offsets img ! i) + unat (plane_rows (bi_format img) (bi_height img) i) * nat (bi_strides img ! i) \<le>
      unat (bi_objectSize img ! unat (bi_planeObjectIndex img ! i))" unfolding rw s nat_int using mem by linarith
  qed
qed


lemma format_planes_nth:
  "length (format_planes f) = unat (fi_numPlanes (formatsInfo f))"
  "i < unat (fi_numPlanes (formatsInfo f)) \<Longrightarrow> format_planes f ! i = fi_plane (formatsInfo f) ! i"
proof -
  show "length (format_planes f) = unat (fi_numPlanes (formatsInfo f))"
    unfolding format_planes_def by (cases f) (simp_all add: formatsInfo_def two_planes_def three_planes_def)
  show "i < unat (fi_numPlanes (formatsInfo f)) \<Longrightarrow> format_planes f ! i = fi_plane (formatsInfo f) ! i"
    by (simp add: format_planes_def)
qed

lemma planes_at_most_three: "unat (fi_numPlanes (formatsInfo f)) \<le> 3"
  by (cases f) (simp_all add: formatsInfo_def two_planes_def three_planes_def)

lemma perPlane_valid:
  assumes src: "buffers_new env" and f: "f \<noteq> NV_FORMAT_NONE"
    and run: "direct_allocateBackingImage_perPlane env f width height shared t = (Some img, t')"
  shows "validateImportedLayout img \<and> bi_width img = width \<and> bi_height img = height \<and> bi_format img = f"
proof -
  let ?n = "unat (fi_numPlanes (formatsInfo f))"
  let ?img = "empty_image\<lparr>bi_isSingleBuffer := False, bi_format := f,
    bi_numObjects := fi_numPlanes (formatsInfo f), bi_numPlanes := fi_numPlanes (formatsInfo f)\<rparr>"
  obtain images bytes where lay: "calculate_unified_image_layout (ae_modifier env) width height (fi_bppc (formatsInfo f)) (format_planes f) shared =
      Some (images, bytes)"
    using run by (auto simp: direct_allocateBackingImage_perPlane_def Let_def split: if_splits option.splits)
  obtain b img1 t1 where p: "plane_objects env images 0 ?n ?img t = (b, img1, t1)" by (metis prod_cases3)
  have b: "b" "img = img1\<lparr>bi_width := width, bi_height := height, bi_fourcc := fi_fourcc (formatsInfo f)\<rparr>"
    using run lay p by (cases b; auto simp: direct_allocateBackingImage_perPlane_def Let_def split: if_splits)+
  have len: "length (bi_planeObjectIndex ?img) = 4 \<and> length (bi_offsets ?img) = 4 \<and> length (bi_strides ?img) = 4 \<and>
    length (bi_objectSize ?img) = 4" by (simp add: empty_image_def)
  have "0 + ?n \<le> 4" using planes_at_most_three [of f] by simp
  from plane_objects_forward [OF src p [unfolded eqTrueI [OF b(1)]] this len]
  have q: "\<forall>k < ?n. plane_of images img k" "bi_format img = f" "bi_numObjects img = fi_numPlanes (formatsInfo f)"
    "bi_numPlanes img = fi_numPlanes (formatsInfo f)" unfolding b(2) by (auto simp: plane_of_def)
  have wh: "bi_width img = width" "bi_height img = height" unfolding b(2) by simp_all
  have nz: "0 < unat width" "0 < unat height"
    using lay by (auto simp: calculate_unified_image_layout_def unat_gt_0 split: if_splits)
  have ok: "imported_plane_ok img i" if i: "i < ?n" for i
  proof -
    obtain k where fits: "plane_fits (ae_modifier env) width height (fi_bppc (formatsInfo f)) (fi_plane (formatsInfo f) ! i) k (images ! i)"
      using layout_facts [OF lay] i format_planes_nth by metis
    obtain m where m: "allocation_size (di_memorySize (images ! i)) = Some m" "bi_objectSize img ! i = u32_to_u64 m"
      and at: "bi_planeObjectIndex img ! i = of_nat i" "bi_offsets img ! i = 0" "bi_strides img ! i = sint (di_pitch (images ! i))"
      using q(1) i by (auto simp: plane_of_def)
    have u: "unat (of_nat i :: u32) = i" using i planes_at_most_three [of f] by (simp add: unat_of_nat take_bit_nat_eq_self)
    show ?thesis
    proof (rule laid_out_plane_ok)
      show "plane_fits (ae_modifier env) (bi_width img) (bi_height img) (fi_bppc (formatsInfo (bi_format img)))
        (fi_plane (formatsInfo (bi_format img)) ! i) k (images ! i)" unfolding q(2) wh by (rule fits)
      show "bi_planeObjectIndex img ! i < bi_numObjects img" unfolding at(1) q(3) word_less_nat_alt u by (rule i)
      show "nat (bi_offsets img ! i) + unat (di_memorySize (images ! i)) \<le> unat (bi_objectSize img ! unat (bi_planeObjectIndex img ! i))"
        unfolding at u m(2) using allocation_size_bounds(1) [OF m(1)] by simp
    qed (use i q(2) wh nz at in simp_all)
  qed
  have "0 < ?n" using f by (cases f) (simp_all add: formatsInfo_def two_planes_def three_planes_def)
  then have "fi_numPlanes (formatsInfo f) \<noteq> 0" by auto
  moreover have "\<not> fi_numPlanes (formatsInfo f) > 4" using planes_at_most_three [of f] by (simp add: word_less_nat_alt)
  ultimately show ?thesis using ok q f wh by (simp add: validateImportedLayout_def list_all_iff)
qed

lemma single_valid:
  assumes src: "buffers_new env" and f: "f \<noteq> NV_FORMAT_NONE"
    and run: "direct_allocateBackingImage_single env f width height t = (Some img, t')"
  shows "validateImportedLayout img \<and> bi_width img = width \<and> bi_height img = height \<and> bi_format img = f"
proof -
  let ?n = "unat (fi_numPlanes (formatsInfo f))"
  obtain images bytes where lay: "calculate_unified_image_layout (ae_modifier env) width height (fi_bppc (formatsInfo f)) (format_planes f) True =
      Some (images, bytes)"
    using run by (auto simp: direct_allocateBackingImage_single_def Let_def split: if_splits option.splits)
  let ?img = "empty_image\<lparr>bi_isSingleBuffer := True, bi_format := f, bi_totalSize := u32_to_u64 bytes, bi_numObjects := 1,
    bi_numPlanes := fi_numPlanes (formatsInfo f)\<rparr>"
  obtain fd m t1 where buf: "alloc_buffer env bytes 0 t = Some (fd, m, t1)"
    using run lay by (auto simp: direct_allocateBackingImage_single_def Let_def split: if_splits option.splits)
  have m: "allocation_size bytes = Some m" by (rule alloc_buffer_new [OF src buf])
  obtain b img1 where a: "plane_arrays env 0 ?n ?img = (b, img1)" by force
  have b: "b" "img = set_planes images (cacheBackingImageFdStat t1 0 (img1\<lparr>bi_width := width, bi_height := height,
      bi_fourcc := fi_fourcc (formatsInfo f), bi_totalSize := u32_to_u64 m,
      bi_objectSize := (bi_objectSize img1)[0 := u32_to_u64 m], bi_fds := (bi_fds img1)[0 := fd]\<rparr>))"
    using run lay buf a by (cases b; auto simp: direct_allocateBackingImage_single_def Let_def split: if_splits)+
  note A = plane_arrays_fields [OF a]
  have len: "length images = ?n" using layout_facts [OF lay] format_planes_nth by simp
  have q: "bi_format img = f" "bi_numObjects img = 1" "bi_numPlanes img = fi_numPlanes (formatsInfo f)" "bi_width img = width"
    "bi_height img = height" "bi_objectSize img ! 0 = u32_to_u64 m"
    using A unfolding b(2) by (simp_all add: set_planes_def empty_image_def)
  have pl: "bi_planeObjectIndex img ! i = 0 \<and> bi_offsets img ! i = sint (di_offset (images ! i)) \<and>
      bi_strides img ! i = sint (di_pitch (images ! i))" if "i < ?n" for i
  proof -
    have "i < 4" using that planes_at_most_three [of f] by simp
    then show ?thesis using A that len unfolding b(2) by (simp add: set_planes_def empty_image_def nth_append)
  qed
  have nz: "0 < unat width" "0 < unat height"
    using lay by (auto simp: calculate_unified_image_layout_def unat_gt_0 split: if_splits)
  have last: "unat (di_offset (images ! i)) + unat (di_memorySize (images ! i)) \<le> unat bytes" if "i < ?n" for i
  proof -
    have all: "\<forall>i < ?n. unat (di_offset (images ! i)) + unat (di_memorySize (images ! i)) \<le>
        (if Suc i < ?n then unat (di_offset (images ! Suc i)) else unat bytes)"
      using layout_facts [OF lay] format_planes_nth(1) by metis
    have "i < ?n \<longrightarrow> unat (di_offset (images ! i)) + unat (di_memorySize (images ! i)) \<le> unat bytes"
    proof (induction "?n - i" arbitrary: i)
      case (Suc d)
      show ?case
      proof
        assume i: "i < ?n"
        have le: "unat (di_offset (images ! i)) + unat (di_memorySize (images ! i)) \<le>
            (if Suc i < ?n then unat (di_offset (images ! Suc i)) else unat bytes)" using all i by blast
        show "unat (di_offset (images ! i)) + unat (di_memorySize (images ! i)) \<le> unat bytes"
        proof (cases "Suc i < ?n")
          case True
          have "d = ?n - Suc i" using Suc.hyps(2) by simp
          from Suc.hyps(1) [OF this] True le show ?thesis by simp
        qed (use le in simp)
      qed
    qed simp
    then show ?thesis using that by blast
  qed
  have ok: "imported_plane_ok img i" if i: "i < ?n" for i
  proof -
    obtain k where fits: "plane_fits (ae_modifier env) width height (fi_bppc (formatsInfo f)) (fi_plane (formatsInfo f) ! i) k (images ! i)"
      using layout_facts [OF lay] i format_planes_nth by metis
    then have o2: "unat (di_offset (images ! i)) < 2 ^ 31" by (simp add: plane_fits_def)
    then have off: "bi_offsets img ! i = int (unat (di_offset (images ! i)))" using pl [OF i] by (simp only: sint_small)
    show ?thesis
    proof (rule laid_out_plane_ok)
      show "plane_fits (ae_modifier env) (bi_width img) (bi_height img) (fi_bppc (formatsInfo (bi_format img)))
        (fi_plane (formatsInfo (bi_format img)) ! i) k (images ! i)" unfolding q by (rule fits)
      have "int (unat (di_offset (images ! i))) < int (2 ^ 31)" using o2 by (simp only: of_nat_less_iff)
      then show "bi_offsets img ! i < 2 ^ 31" unfolding off by simp
      show "nat (bi_offsets img ! i) + unat (di_memorySize (images ! i)) \<le> unat (bi_objectSize img ! unat (bi_planeObjectIndex img ! i))"
        unfolding off nat_int using pl [OF i] q(6) last [OF i] allocation_size_bounds(1) [OF m] by simp
      show "0 \<le> bi_offsets img ! i" unfolding off by simp
    qed (use i q nz pl [OF i] in simp_all)
  qed
  then show ?thesis using q f by (simp add: validateImportedLayout_def list_all_iff)
qed



section \<open>An NV12 surface of 64 by 100 pixels\<close>

definition demo_alloc :: "bool \<Rightarrow> alloc_env" where
  "demo_alloc import = \<lparr>ae_modifier = of_nat, ae_calloc = True,
     ae_buffer = \<lambda>t n i. (if t 20 = None then Some (20, \<lparr>of_id = (1, 9), of_st_size = uint n, of_seek_end = uint n\<rparr>) else None),
     ae_import = \<lambda>_. import, ae_array = \<lambda>i. Some (of_nat (i + 1)), ae_clear = \<lambda>_. True, ae_unsafe = False\<rparr>"

lemma demo_alloc_new: "buffers_new (demo_alloc import)"
  by (simp add: buffers_new_def demo_alloc_def)

definition demo_packed :: "bool \<Rightarrow> BackingImage option \<times> fd_table" where
  "demo_packed import = direct_allocateBackingImageImpl (demo_alloc import) False NVD_EXPORT_LAYOUT_PACKED VA_FOURCC_NV12 0 8 64 100 Map.empty"

lemma demo_packed_result: "Option.is_none (fst (demo_packed False)) \<and> \<not> Option.is_none (fst (demo_packed True))"
  by code_simp




end
