(* ===== verification/Spec2Isabelle.thy ===== *)
theory Spec2Isabelle
  imports ListArray ObjectTableInv ResolveQueue VideoProc CodecHevc CodecVp8 CodecVp9 Av1TileTable PictureErrors JpegFrame VaProps ConfigProps SurfaceImportProps BackingCacheProps GpuLayoutProps StatsProps SurfaceExportProps ImageImportProps ImageAllocProps
begin

text \<open>
  A VA-API driver on NVDEC: its core data structures and handlers.
\<close>

end
